(* ===== verification/Prelude.thy ===== *)
theory Prelude
  imports Main "HOL-Library.Word"
begin

text \<open>
  What the components share: the names of the machine types, the bit tests of status
  words (\<open>has\<close>), the flag constants of \<open>kernel/include/los_task.h\<close>, the count of leading
  zeros the scheduler and the heap use (\<open>CLZ\<close> of \<open>utils/los_compiler.h\<close>), the return codes
  of the kernel services, and generic facts on lists and words.
\<close>

unbundle bit_operations_syntax

type_synonym UINT8 = "8 word"
type_synonym UINT16 = "16 word"
type_synonym UINT32 = "32 word"
type_synonym UINT64 = "64 word"
type_synonym INT32 = "32 word"

text \<open>
  \<open>defs\<close> collects the definitions that are unfolded whenever an operation is computed,
  \<open>frame\<close> the facts that an operation leaves a field alone.
\<close>

named_theorems defs
named_theorems frame

section \<open>Bit tests on status words\<close>

text \<open>The C idiom \<open>(w & m)\<close> used as a truth value.\<close>

definition has :: "'a::len word \<Rightarrow> 'a word \<Rightarrow> bool" where
  "has w m \<longleftrightarrow> w AND m \<noteq> 0"

definition flag :: "nat \<Rightarrow> 'a::len word" where
  "flag n = push_bit n 1"

lemma has_iff_bit: "has w m \<longleftrightarrow> (\<exists>n. bit w n \<and> bit m n)"
  by (auto simp: has_def bit_eq_iff bit_simps dest: bit_imp_le_length)

lemma has_or_left [simp]: "has (w OR v) m \<longleftrightarrow> has w m \<or> has v m"
  by (auto simp: has_iff_bit bit_simps)

lemma has_or_right [simp]: "has w (a OR b) \<longleftrightarrow> has w a \<or> has w b"
  by (auto simp: has_iff_bit bit_simps)

lemma bit_flag: "bit (flag m :: 'a::len word) n \<longleftrightarrow> m = n \<and> n < LENGTH('a)"
  unfolding flag_def bit_push_bit_iff by (auto simp: bit_simps)

lemma has_flag: "has w (flag n) \<longleftrightarrow> bit w n"
  by (auto simp: has_iff_bit bit_flag dest: bit_imp_le_length)

lemma has_zero [simp]: "\<not> has 0 m" "\<not> has w 0"
  by (auto simp: has_def)

text \<open>A mask that is a single bit: clearing other bits does not change the test.\<close>

definition single :: "'a::len word \<Rightarrow> bool" where
  "single f \<longleftrightarrow> (\<exists>n<LENGTH('a). f = flag n)"

lemma single_flag: "n < LENGTH('a::len) \<Longrightarrow> single (flag n :: 'a word)"
  by (auto simp: single_def)

lemma has_clear [simp]: "single f \<Longrightarrow> has (w AND NOT a) f \<longleftrightarrow> has w f \<and> \<not> has a f"
  by (auto simp: single_def has_flag bit_simps)

lemma has_and [simp]: "single f \<Longrightarrow> has (a AND b) f \<longleftrightarrow> has a f \<and> has b f"
  by (auto simp: single_def has_flag bit_simps)

lemma has_not [simp]: "single f \<Longrightarrow> has (NOT a) f \<longleftrightarrow> \<not> has a f"
  by (auto simp: single_def has_flag bit_simps)

lemma has_if [simp]: "has (if b then v else w) f \<longleftrightarrow> (b \<longrightarrow> has v f) \<and> (\<not> b \<longrightarrow> has w f)"
  by simp

lemma has_flag_flag: "n < LENGTH('a::len) \<Longrightarrow> has (flag m :: 'a word) (flag n) \<longleftrightarrow> m = n"
  by (auto simp: has_flag bit_flag)

section \<open>The task status flags of los_task.h\<close>

definition OS_TASK_STATUS_UNUSED :: UINT16 where
  "OS_TASK_STATUS_UNUSED = 0x0001"

definition OS_TASK_STATUS_SUSPEND :: UINT16 where
  "OS_TASK_STATUS_SUSPEND = 0x0002"

definition OS_TASK_STATUS_READY :: UINT16 where
  "OS_TASK_STATUS_READY = 0x0004"

definition OS_TASK_STATUS_PEND :: UINT16 where
  "OS_TASK_STATUS_PEND = 0x0008"

definition OS_TASK_STATUS_RUNNING :: UINT16 where
  "OS_TASK_STATUS_RUNNING = 0x0010"

definition OS_TASK_STATUS_DELAY :: UINT16 where
  "OS_TASK_STATUS_DELAY = 0x0020"

definition OS_TASK_STATUS_TIMEOUT :: UINT16 where
  "OS_TASK_STATUS_TIMEOUT = 0x0040"

definition OS_TASK_STATUS_PEND_TIME :: UINT16 where
  "OS_TASK_STATUS_PEND_TIME = 0x0080"

lemmas status_defs = OS_TASK_STATUS_UNUSED_def
  OS_TASK_STATUS_SUSPEND_def
  OS_TASK_STATUS_READY_def
  OS_TASK_STATUS_PEND_def
  OS_TASK_STATUS_RUNNING_def
  OS_TASK_STATUS_DELAY_def
  OS_TASK_STATUS_TIMEOUT_def
  OS_TASK_STATUS_PEND_TIME_def

lemma status_flag:
  "OS_TASK_STATUS_UNUSED = flag 0"
  "OS_TASK_STATUS_SUSPEND = flag 1"
  "OS_TASK_STATUS_READY = flag 2"
  "OS_TASK_STATUS_PEND = flag 3"
  "OS_TASK_STATUS_RUNNING = flag 4"
  "OS_TASK_STATUS_DELAY = flag 5"
  "OS_TASK_STATUS_TIMEOUT = flag 6"
  "OS_TASK_STATUS_PEND_TIME = flag 7"
  by (simp_all add: status_defs flag_def)

lemma single_status [simp]:
  "single OS_TASK_STATUS_UNUSED" "single OS_TASK_STATUS_SUSPEND" "single OS_TASK_STATUS_READY" "single OS_TASK_STATUS_PEND" "single OS_TASK_STATUS_RUNNING" "single OS_TASK_STATUS_DELAY" "single OS_TASK_STATUS_TIMEOUT" "single OS_TASK_STATUS_PEND_TIME"
  by (simp_all add: status_flag single_flag)

text \<open>The eight flags are eight different bits.\<close>

lemma has_status [simp]:
  "has OS_TASK_STATUS_UNUSED OS_TASK_STATUS_UNUSED"
  "\<not> has OS_TASK_STATUS_UNUSED OS_TASK_STATUS_SUSPEND"
  "\<not> has OS_TASK_STATUS_UNUSED OS_TASK_STATUS_READY"
  "\<not> has OS_TASK_STATUS_UNUSED OS_TASK_STATUS_PEND"
  "\<not> has OS_TASK_STATUS_UNUSED OS_TASK_STATUS_RUNNING"
  "\<not> has OS_TASK_STATUS_UNUSED OS_TASK_STATUS_DELAY"
  "\<not> has OS_TASK_STATUS_UNUSED OS_TASK_STATUS_TIMEOUT"
  "\<not> has OS_TASK_STATUS_UNUSED OS_TASK_STATUS_PEND_TIME"
  "\<not> has OS_TASK_STATUS_SUSPEND OS_TASK_STATUS_UNUSED"
  "has OS_TASK_STATUS_SUSPEND OS_TASK_STATUS_SUSPEND"
  "\<not> has OS_TASK_STATUS_SUSPEND OS_TASK_STATUS_READY"
  "\<not> has OS_TASK_STATUS_SUSPEND OS_TASK_STATUS_PEND"
  "\<not> has OS_TASK_STATUS_SUSPEND OS_TASK_STATUS_RUNNING"
  "\<not> has OS_TASK_STATUS_SUSPEND OS_TASK_STATUS_DELAY"
  "\<not> has OS_TASK_STATUS_SUSPEND OS_TASK_STATUS_TIMEOUT"
  "\<not> has OS_TASK_STATUS_SUSPEND OS_TASK_STATUS_PEND_TIME"
  "\<not> has OS_TASK_STATUS_READY OS_TASK_STATUS_UNUSED"
  "\<not> has OS_TASK_STATUS_READY OS_TASK_STATUS_SUSPEND"
  "has OS_TASK_STATUS_READY OS_TASK_STATUS_READY"
  "\<not> has OS_TASK_STATUS_READY OS_TASK_STATUS_PEND"
  "\<not> has OS_TASK_STATUS_READY OS_TASK_STATUS_RUNNING"
  "\<not> has OS_TASK_STATUS_READY OS_TASK_STATUS_DELAY"
  "\<not> has OS_TASK_STATUS_READY OS_TASK_STATUS_TIMEOUT"
  "\<not> has OS_TASK_STATUS_READY OS_TASK_STATUS_PEND_TIME"
  "\<not> has OS_TASK_STATUS_PEND OS_TASK_STATUS_UNUSED"
  "\<not> has OS_TASK_STATUS_PEND OS_TASK_STATUS_SUSPEND"
  "\<not> has OS_TASK_STATUS_PEND OS_TASK_STATUS_READY"
  "has OS_TASK_STATUS_PEND OS_TASK_STATUS_PEND"
  "\<not> has OS_TASK_STATUS_PEND OS_TASK_STATUS_RUNNING"
  "\<not> has OS_TASK_STATUS_PEND OS_TASK_STATUS_DELAY"
  "\<not> has OS_TASK_STATUS_PEND OS_TASK_STATUS_TIMEOUT"
  "\<not> has OS_TASK_STATUS_PEND OS_TASK_STATUS_PEND_TIME"
  "\<not> has OS_TASK_STATUS_RUNNING OS_TASK_STATUS_UNUSED"
  "\<not> has OS_TASK_STATUS_RUNNING OS_TASK_STATUS_SUSPEND"
  "\<not> has OS_TASK_STATUS_RUNNING OS_TASK_STATUS_READY"
  "\<not> has OS_TASK_STATUS_RUNNING OS_TASK_STATUS_PEND"
  "has OS_TASK_STATUS_RUNNING OS_TASK_STATUS_RUNNING"
  "\<not> has OS_TASK_STATUS_RUNNING OS_TASK_STATUS_DELAY"
  "\<not> has OS_TASK_STATUS_RUNNING OS_TASK_STATUS_TIMEOUT"
  "\<not> has OS_TASK_STATUS_RUNNING OS_TASK_STATUS_PEND_TIME"
  "\<not> has OS_TASK_STATUS_DELAY OS_TASK_STATUS_UNUSED"
  "\<not> has OS_TASK_STATUS_DELAY OS_TASK_STATUS_SUSPEND"
  "\<not> has OS_TASK_STATUS_DELAY OS_TASK_STATUS_READY"
  "\<not> has OS_TASK_STATUS_DELAY OS_TASK_STATUS_PEND"
  "\<not> has OS_TASK_STATUS_DELAY OS_TASK_STATUS_RUNNING"
  "has OS_TASK_STATUS_DELAY OS_TASK_STATUS_DELAY"
  "\<not> has OS_TASK_STATUS_DELAY OS_TASK_STATUS_TIMEOUT"
  "\<not> has OS_TASK_STATUS_DELAY OS_TASK_STATUS_PEND_TIME"
  "\<not> has OS_TASK_STATUS_TIMEOUT OS_TASK_STATUS_UNUSED"
  "\<not> has OS_TASK_STATUS_TIMEOUT OS_TASK_STATUS_SUSPEND"
  "\<not> has OS_TASK_STATUS_TIMEOUT OS_TASK_STATUS_READY"
  "\<not> has OS_TASK_STATUS_TIMEOUT OS_TASK_STATUS_PEND"
  "\<not> has OS_TASK_STATUS_TIMEOUT OS_TASK_STATUS_RUNNING"
  "\<not> has OS_TASK_STATUS_TIMEOUT OS_TASK_STATUS_DELAY"
  "has OS_TASK_STATUS_TIMEOUT OS_TASK_STATUS_TIMEOUT"
  "\<not> has OS_TASK_STATUS_TIMEOUT OS_TASK_STATUS_PEND_TIME"
  "\<not> has OS_TASK_STATUS_PEND_TIME OS_TASK_STATUS_UNUSED"
  "\<not> has OS_TASK_STATUS_PEND_TIME OS_TASK_STATUS_SUSPEND"
  "\<not> has OS_TASK_STATUS_PEND_TIME OS_TASK_STATUS_READY"
  "\<not> has OS_TASK_STATUS_PEND_TIME OS_TASK_STATUS_PEND"
  "\<not> has OS_TASK_STATUS_PEND_TIME OS_TASK_STATUS_RUNNING"
  "\<not> has OS_TASK_STATUS_PEND_TIME OS_TASK_STATUS_DELAY"
  "\<not> has OS_TASK_STATUS_PEND_TIME OS_TASK_STATUS_TIMEOUT"
  "has OS_TASK_STATUS_PEND_TIME OS_TASK_STATUS_PEND_TIME"
  by (simp_all add: status_flag has_flag bit_flag)

section \<open>Count of leading zeros\<close>

text \<open>
  \<open>CLZ\<close> names the compiler's count-leading-zeros operation (\<open>__builtin_clz\<close>, \<open>__clz\<close>,
  \<open>__iar_builtin_CLZ\<close>), on 32-bit words; 32 on zero.
\<close>

primrec clz_from :: "nat \<Rightarrow> UINT32 \<Rightarrow> nat" where
  "clz_from 0 w = 0"
| "clz_from (Suc n) w = (if bit w n then 0 else Suc (clz_from n w))"

definition CLZ :: "UINT32 \<Rightarrow> nat" where
  "CLZ w = clz_from 32 w"

lemma clz_from_le: "clz_from n w \<le> n"
  by (induction n) auto

lemma clz_from_bit: "clz_from n w < n \<Longrightarrow> bit w (n - Suc (clz_from n w))"
  by (induction n) (auto split: if_splits)

lemma clz_from_above: "n - clz_from n w \<le> k \<Longrightarrow> k < n \<Longrightarrow> \<not> bit w k"
  by (induction n) (auto split: if_splits simp: less_Suc_eq)

lemma clz_from_bound: "k < n \<Longrightarrow> bit w k \<Longrightarrow> clz_from n w \<le> n - Suc k"
  by (induction n) (auto simp: less_Suc_eq)

text \<open>On a non-zero word, \<open>CLZ\<close> is the position of the highest set bit, counted from the top.\<close>

lemma CLZ_less: "w \<noteq> 0 \<Longrightarrow> CLZ w < 32"
proof -
  assume "w \<noteq> 0"
  then obtain k where k: "bit w k"
    by (auto simp: bit_eq_iff)
  then have "k < 32"
    by (auto dest: bit_imp_le_length)
  with k show ?thesis
    using clz_from_bound [of k 32 w] by (simp add: CLZ_def)
qed

lemma CLZ_bit: "w \<noteq> 0 \<Longrightarrow> bit w (31 - CLZ w)"
  using clz_from_bit [of 32 w] CLZ_less [of w] by (simp add: CLZ_def)

lemma CLZ_least: "p < CLZ w \<Longrightarrow> p < 32 \<Longrightarrow> \<not> bit w (31 - p)"
  by (rule clz_from_above [of 32]) (auto simp: CLZ_def)

definition PRIQUEUE_PRIOR0_BIT :: UINT32 where
  "PRIQUEUE_PRIOR0_BIT = 0x80000000"

lemma bit_prior0: "bit (drop_bit p PRIQUEUE_PRIOR0_BIT) n \<longleftrightarrow> n + p = 31"
proof -
  have eq: "PRIQUEUE_PRIOR0_BIT = flag 31"
    by (simp add: PRIQUEUE_PRIOR0_BIT_def flag_def)
  show ?thesis
    by (auto simp: eq bit_drop_bit_eq bit_flag)
qed

section \<open>Facts on lists\<close>

lemma remove1_hd_tl: "xs \<noteq> [] \<Longrightarrow> remove1 (hd xs) xs = tl xs"
  by (cases xs) auto

lemma set_remove1_distinct: "distinct xs \<Longrightarrow> set (remove1 x xs) = set xs - {x}"
  by (simp add: set_remove1_eq)

lemma remove1_notin: "x \<notin> set xs \<Longrightarrow> remove1 x xs = xs"
  by (rule remove1_idem)

lemma sorted_map_remove1: "sorted (map f xs) \<Longrightarrow> sorted (map f (remove1 x xs))"
  by (induction xs) (auto dest: notin_set_remove1)

end
