(* ===== verification/DlList.thy ===== *)
theory DlList
  imports Prelude
begin

text \<open>
  The intrusive doubly linked lists of \<open>utils/los_list.h\<close>, at two levels.

  The concrete level is the one of the header: a heap of \<open>pstNext\<close>/\<open>pstPrev\<close> cells, where a
  list is a ring of nodes through its head. The abstract level is the one the components of
  the kernel use: a store that gives, for every head, the sequence of the nodes after it.
  The locale \<open>intrusive_lists\<close> is the contract between the two: what a list operation
  does to every list of the store. Both levels are interpretations of it, so a component that
  uses the abstract store relies on nothing the pointers do not provide.
\<close>

section \<open>The contract\<close>

locale intrusive_lists =
  fixes lists :: "'s \<Rightarrow> 'h \<Rightarrow> nat list"
    and ok :: "'s \<Rightarrow> bool"
    and add tail_insert :: "'h \<Rightarrow> nat \<Rightarrow> 's \<Rightarrow> 's"
    and delete :: "nat \<Rightarrow> 's \<Rightarrow> 's"
    and is_empty :: "'s \<Rightarrow> 'h \<Rightarrow> bool"
  assumes distinct_list: "ok s \<Longrightarrow> distinct (lists s h)"
    and disjoint_lists: "ok s \<Longrightarrow> n \<in> set (lists s h) \<Longrightarrow> n \<in> set (lists s h') \<Longrightarrow> h = h'"
    and empty_iff: "ok s \<Longrightarrow> is_empty s h \<longleftrightarrow> lists s h = []"
    and lists_add: "ok s \<Longrightarrow> (\<And>h'. n \<notin> set (lists s h')) \<Longrightarrow>
      lists (add h n s) = (lists s)(h := n # lists s h)"
    and ok_add: "ok s \<Longrightarrow> (\<And>h'. n \<notin> set (lists s h')) \<Longrightarrow> ok (add h n s)"
    and lists_tail_insert: "ok s \<Longrightarrow> (\<And>h'. n \<notin> set (lists s h')) \<Longrightarrow>
      lists (tail_insert h n s) = (lists s)(h := lists s h @ [n])"
    and ok_tail_insert: "ok s \<Longrightarrow> (\<And>h'. n \<notin> set (lists s h')) \<Longrightarrow> ok (tail_insert h n s)"
    and lists_delete: "ok s \<Longrightarrow> n \<in> set (lists s h) \<Longrightarrow>
      lists (delete n s) = (lists s)(h := remove1 n (lists s h))"
    and ok_delete: "ok s \<Longrightarrow> n \<in> set (lists s h) \<Longrightarrow> ok (delete n s)"
begin

lemma delete_unlinks:
  assumes "ok s" and "n \<in> set (lists s h)"
  shows "n \<notin> set (lists (delete n s) h')"
proof (cases "h' = h")
  case True
  with assms distinct_list [of s h] show ?thesis
    by (simp add: lists_delete set_remove1_distinct)
next
  case False
  with assms disjoint_lists [of s n h h'] show ?thesis
    by (auto simp: lists_delete)
qed

text \<open>Deleting a node and adding it again moves it to the front (or the back) of a list.\<close>

lemma move_to_front:
  assumes "ok s" and "n \<in> set (lists s h)"
  shows "lists (add h n (delete n s)) h = n # remove1 n (lists s h)"
  using assms delete_unlinks [OF assms] ok_delete [OF assms]
  by (simp add: lists_add lists_delete)

lemma move_to_back:
  assumes "ok s" and "n \<in> set (lists s h)"
  shows "lists (tail_insert h n (delete n s)) h = remove1 n (lists s h) @ [n]"
  using assms delete_unlinks [OF assms] ok_delete [OF assms]
  by (simp add: lists_tail_insert lists_delete)

text \<open>A node added at the front and deleted again leaves every list as it was.\<close>

lemma add_delete:
  assumes "ok s" and "\<And>h'. n \<notin> set (lists s h')"
  shows "lists (delete n (add h n s)) = lists s"
proof -
  have "n \<in> set (lists (add h n s) h)"
    using assms by (simp add: lists_add)
  with ok_add [OF assms] show ?thesis
    using assms by (simp add: lists_delete [where h = h] lists_add)
qed

lemma tail_insert_delete:
  assumes "ok s" and "\<And>h'. n \<notin> set (lists s h')"
  shows "lists (delete n (tail_insert h n s)) = lists s"
proof -
  have "n \<in> set (lists (tail_insert h n s) h)"
    using assms by (simp add: lists_tail_insert)
  with ok_tail_insert [OF assms] show ?thesis
    using assms by (simp add: lists_delete [where h = h] lists_tail_insert remove1_append)
qed

text \<open>Waiters are served first come, first served: tail insertion, deletion at the front.\<close>

lemma fifo:
  assumes "ok s" and "\<And>h'. n \<notin> set (lists s h')" and "lists s h = m # ms"
  shows "lists (delete m (tail_insert h n s)) h = ms @ [n]"
proof -
  have "m \<in> set (lists (tail_insert h n s) h)"
    using assms by (simp add: lists_tail_insert)
  with ok_tail_insert [OF assms(1,2)] show ?thesis
    using assms by (simp add: lists_delete [where h = h] lists_tail_insert)
qed

end

section \<open>The pointer level\<close>

datatype 'h dl_addr = NULL | Head 'h | Node nat

record 'h dl_heap =
  pstNext :: "'h dl_addr \<Rightarrow> 'h dl_addr"
  pstPrev :: "'h dl_addr \<Rightarrow> 'h dl_addr"

definition set_next :: "'h dl_addr \<Rightarrow> 'h dl_addr \<Rightarrow> 'h dl_heap \<Rightarrow> 'h dl_heap" where
  "set_next a b m = m\<lparr>pstNext := (pstNext m)(a := b)\<rparr>"

definition set_prev :: "'h dl_addr \<Rightarrow> 'h dl_addr \<Rightarrow> 'h dl_heap \<Rightarrow> 'h dl_heap" where
  "set_prev a b m = m\<lparr>pstPrev := (pstPrev m)(a := b)\<rparr>"

lemma heap_cells [simp]:
  "pstNext (set_next a b m) = (pstNext m)(a := b)" "pstPrev (set_next a b m) = pstPrev m"
  "pstPrev (set_prev a b m) = (pstPrev m)(a := b)" "pstNext (set_prev a b m) = pstNext m"
  by (simp_all add: set_next_def set_prev_def)

definition LOS_ListInit_ptr :: "'h dl_addr \<Rightarrow> 'h dl_heap \<Rightarrow> 'h dl_heap" where
  "LOS_ListInit_ptr list m = set_prev list list (set_next list list m)"

definition LOS_ListAdd_ptr :: "'h dl_addr \<Rightarrow> 'h dl_addr \<Rightarrow> 'h dl_heap \<Rightarrow> 'h dl_heap" where
  "LOS_ListAdd_ptr list node m =
    (let m1 = set_next node (pstNext m list) m;
         m2 = set_prev node list m1;
         m3 = set_prev (pstNext m2 list) node m2
     in set_next list node m3)"

definition LOS_ListTailInsert_ptr :: "'h dl_addr \<Rightarrow> 'h dl_addr \<Rightarrow> 'h dl_heap \<Rightarrow> 'h dl_heap" where
  "LOS_ListTailInsert_ptr list node m = LOS_ListAdd_ptr (pstPrev m list) node m"

definition LOS_ListDelete_ptr :: "'h dl_addr \<Rightarrow> 'h dl_heap \<Rightarrow> 'h dl_heap" where
  "LOS_ListDelete_ptr node m =
    (let m1 = set_prev (pstNext m node) (pstPrev m node) m;
         m2 = set_next (pstPrev m1 node) (pstNext m1 node) m1;
         m3 = set_next node NULL m2
     in set_prev node NULL m3)"

definition LOS_ListEmpty_ptr :: "'h dl_addr \<Rightarrow> 'h dl_heap \<Rightarrow> bool" where
  "LOS_ListEmpty_ptr node m \<longleftrightarrow> pstNext m node = node"

text \<open>
  A ring: following \<open>pstNext\<close> from the head visits the nodes and comes back to the head, and
  \<open>pstPrev\<close> goes the other way. A heap represents a store when every head has its ring and
  no node is on two of them.
\<close>

fun chain :: "'h dl_heap \<Rightarrow> 'h dl_addr list \<Rightarrow> bool" where
  "chain m (a # b # r) \<longleftrightarrow> pstNext m a = b \<and> pstPrev m b = a \<and> chain m (b # r)"
| "chain m _ \<longleftrightarrow> True"

definition ring :: "'h dl_heap \<Rightarrow> 'h \<Rightarrow> nat list \<Rightarrow> bool" where
  "ring m h xs \<longleftrightarrow> distinct xs \<and> chain m (Head h # map Node xs @ [Head h])"

definition represents :: "'h dl_heap \<Rightarrow> ('h \<Rightarrow> nat list) \<Rightarrow> bool" where
  "represents m L \<longleftrightarrow> (\<forall>h. ring m h (L h)) \<and>
    (\<forall>h h'. h \<noteq> h' \<longrightarrow> set (L h) \<inter> set (L h') = {})"

lemma chain_split: "chain m (xs @ a # ys) \<longleftrightarrow> chain m (xs @ [a]) \<and> chain m (a # ys)"
proof (induction xs)
  case Nil
  then show ?case by (cases ys) auto
next
  case (Cons x xs)
  then show ?case by (cases xs) auto
qed

lemma chain_cong:
  "(\<And>a. a \<in> set (butlast as) \<Longrightarrow> pstNext m' a = pstNext m a) \<Longrightarrow>
   (\<And>a. a \<in> set (tl as) \<Longrightarrow> pstPrev m' a = pstPrev m a) \<Longrightarrow> chain m' as \<longleftrightarrow> chain m as"
proof (induction m as rule: chain.induct)
  case (1 m a b r)
  then show ?case by (cases r) auto
qed auto

lemma ring_determined:
  "chain m (a # map Node xs @ [Head h]) \<Longrightarrow> chain m (a # map Node ys @ [Head h]) \<Longrightarrow> xs = ys"
proof (induction xs arbitrary: a ys)
  case Nil
  then show ?case by (cases ys) auto
next
  case (Cons x xs)
  then show ?case by (cases ys) auto
qed

lemma ring_unique: "ring m h xs \<Longrightarrow> ring m h ys \<Longrightarrow> xs = ys"
  by (auto simp: ring_def intro: ring_determined)

lemma represents_unique: "represents m L \<Longrightarrow> represents m L' \<Longrightarrow> L = L'"
  by (rule ext) (auto simp: represents_def intro: ring_unique)

lemma insert_after_cells:
  assumes "a \<noteq> Node n"
  shows "pstNext (LOS_ListAdd_ptr a (Node n) m) = (pstNext m)(Node n := pstNext m a, a := Node n)"
    and "pstPrev (LOS_ListAdd_ptr a (Node n) m) = (pstPrev m)(Node n := a, pstNext m a := Node n)"
  using assms by (auto simp: LOS_ListAdd_ptr_def Let_def)

lemma chain_insert:
  assumes ch: "chain m (P @ a # b # Q)" and n: "n \<notin> set (P @ a # b # Q)"
    and a: "a \<notin> set P" "a \<notin> set (butlast (b # Q))" and b: "b \<notin> set (tl (P @ [a]))" "b \<notin> set Q"
    and m': "pstNext m' = (pstNext m)(n := b, a := n)" "pstPrev m' = (pstPrev m)(n := a, b := n)"
  shows "chain m' (P @ a # n # b # Q)"
proof -
  have "chain m' (P @ [a]) \<longleftrightarrow> chain m (P @ [a])"
    using n a b by (intro chain_cong) (cases P; auto simp: m' butlast_append)+
  moreover have "chain m' (b # Q) \<longleftrightarrow> chain m (b # Q)"
    using n a b by (intro chain_cong) (auto simp: m' dest: in_set_butlastD split: if_splits)
  moreover have "chain m (P @ [a])" "chain m (b # Q)"
    using ch chain_split [of m P a "b # Q"] by auto
  moreover have "chain m' [a, n, b]"
    using n by (auto simp: m')
  ultimately show ?thesis
    using chain_split [of m' P a "n # b # Q"] by auto
qed

lemma chain_remove:
  assumes ch: "chain m (P @ a # n # b # Q)" and n: "n \<notin> set (P @ a # b # Q)"
    and a: "a \<notin> set P" "a \<notin> set (butlast (b # Q))" and b: "b \<notin> set (tl (P @ [a]))" "b \<notin> set Q"
    and m': "pstNext m' = (pstNext m)(a := b, n := z)" "pstPrev m' = (pstPrev m)(b := a, n := z)"
  shows "chain m' (P @ a # b # Q)"
proof -
  have "chain m' (P @ [a]) \<longleftrightarrow> chain m (P @ [a])"
    using n a b by (intro chain_cong) (cases P; auto simp: m' butlast_append)+
  moreover have "chain m' (b # Q) \<longleftrightarrow> chain m (b # Q)"
    using n a b by (intro chain_cong) (auto simp: m' dest: in_set_butlastD split: if_splits)
  moreover have "chain m (P @ [a])" "chain m (b # Q)"
    using ch chain_split [of m P a "n # b # Q"] by auto
  moreover have "chain m' [a, b]"
    using n by (auto simp: m')
  ultimately show ?thesis
    using chain_split [of m' P a "b # Q"] by auto
qed

text \<open>
  The neighbourhood of a position in a ring: the node before it (the head for the first) and
  the node after it (the head for the last).
\<close>

lemma ring_position:
  assumes "distinct (xs @ ys)"
  obtains P a b Q where "Head h # map Node xs = P @ [a]" and "map Node ys @ [Head h] = b # Q"
    and "a = last (Head h # map Node xs)" and "a \<notin> set P" and "a \<notin> set (butlast (b # Q))"
    and "b \<notin> set (tl (P @ [a]))" and "b \<notin> set Q"
    and "set (P @ a # b # Q) = insert (Head h) (Node ` set (xs @ ys))"
proof -
  define P where "P = butlast (Head h # map Node xs)"
  define a where "a = last (Head h # map Node xs)"
  define b where "b = hd (map Node ys @ [Head h])"
  define Q where "Q = tl (map Node ys @ [Head h])"
  have Pa: "Head h # map Node xs = P @ [a]"
    unfolding P_def a_def by (simp del: last.simps butlast.simps)
  have bQ: "map Node ys @ [Head h] = b # Q"
    unfolding b_def Q_def by (cases ys) auto
  have dx: "distinct (P @ [a])" and dy: "distinct (b # Q)"
    using assms by (auto simp: Pa [symmetric] bQ [symmetric] distinct_map inj_on_def)
  have "butlast (b # Q) = map Node ys" "tl (P @ [a]) = map Node xs"
    by (simp_all add: bQ [symmetric] Pa [symmetric])
  moreover have "a = Head h \<or> a \<in> Node ` set xs" "b = Head h \<or> b \<in> Node ` set ys"
    by (cases xs rule: rev_cases; auto simp: a_def) (cases ys; auto simp: b_def)
  moreover have "set (P @ a # b # Q) = set (Head h # map Node xs) \<union> set (map Node ys @ [Head h])"
    unfolding Pa bQ by auto
  ultimately show thesis
    using that [OF Pa bQ a_def] dx dy assms by auto
qed

lemma ring_frame:
  assumes "ring m h xs"
    and "\<And>a. a \<in> insert (Head h) (Node ` set xs) \<Longrightarrow>
      pstNext m' a = pstNext m a \<and> pstPrev m' a = pstPrev m a"
  shows "ring m' h xs"
proof -
  have "chain m' (Head h # map Node xs @ [Head h]) \<longleftrightarrow> chain m (Head h # map Node xs @ [Head h])"
    by (rule chain_cong) (auto simp: assms(2) dest: in_set_butlastD)
  with assms(1) show ?thesis by (simp add: ring_def)
qed

lemma represents_disjoint: "represents m L \<Longrightarrow> h' \<noteq> h \<Longrightarrow> set (L h') \<inter> set (L h) = {}"
  by (metis represents_def)

lemma represents_updI:
  assumes "represents m L" and "ring m' h ys" and "\<And>h'. h' \<noteq> h \<Longrightarrow> ring m' h' (L h')"
    and "\<And>h'. h' \<noteq> h \<Longrightarrow> set ys \<inter> set (L h') = {}"
  shows "represents m' (L(h := ys))"
  unfolding represents_def
proof (intro conjI allI impI)
  show "ring m' h' ((L(h := ys)) h')" for h'
    using assms(2,3) by simp
  show "set ((L(h := ys)) h1) \<inter> set ((L(h := ys)) h2) = {}" if "h1 \<noteq> h2" for h1 h2
    using that represents_disjoint [OF assms(1), of h1 h2] assms(4) [of h1] assms(4) [of h2]
    by (cases "h1 = h"; cases "h2 = h") (auto simp: Int_commute)
qed

lemma represents_insert:
  assumes rep: "represents m L" and Lh: "L h = xs @ ys" and n: "\<And>h'. n \<notin> set (L h')"
  shows "represents (LOS_ListAdd_ptr (last (Head h # map Node xs)) (Node n) m) (L(h := xs @ n # ys))"
    (is "represents ?m' _")
proof -
  from rep Lh have ring: "ring m h (xs @ ys)"
    by (metis represents_def)
  from n [of h] Lh have nh: "n \<notin> set (xs @ ys)" by simp
  from ring have "distinct (xs @ ys)" by (simp add: ring_def)
  then obtain P a b Q where Pa: "Head h # map Node xs = P @ [a]" and bQ: "map Node ys @ [Head h] = b # Q"
    and a: "a = last (Head h # map Node xs)" and fr: "a \<notin> set P" "a \<notin> set (butlast (b # Q))"
      "b \<notin> set (tl (P @ [a]))" "b \<notin> set Q"
    and nodes: "set (P @ a # b # Q) = insert (Head h) (Node ` set (xs @ ys))"
    by (rule ring_position)
  have split: "Head h # map Node (xs @ zs @ ys) @ [Head h] = P @ a # map Node zs @ b # Q" for zs
    using Pa bQ by (metis append.assoc append_Cons append_Nil map_append)
  from ring have ch: "chain m (P @ a # b # Q)"
    using split [of "[]"] by (simp add: ring_def)
  then have next_a: "pstNext m a = b"
    using chain_split [of m P a "b # Q"] by simp
  have an: "a \<noteq> Node n" and nnot: "Node n \<notin> set (P @ a # b # Q)"
    using nodes nh by auto
  note cells = insert_after_cells [OF an, of m, unfolded next_a]
  have "chain ?m' (P @ a # Node n # b # Q)"
    unfolding a [symmetric] by (rule chain_insert [OF ch nnot fr cells])
  then have "ring ?m' h (xs @ n # ys)"
    using ring nh split [of "[n]"] by (simp add: ring_def)
  moreover have "ring ?m' h' (L h')" if "h' \<noteq> h" for h'
  proof (rule ring_frame [of m])
    show "ring m h' (L h')" using rep by (simp add: represents_def)
    fix c
    assume "c \<in> insert (Head h') (Node ` set (L h'))"
    then have "c \<notin> insert (Head h) (Node ` set (xs @ ys))" "c \<noteq> Node n"
      using represents_disjoint [OF rep that] Lh that n [of h'] by auto
    then have "c \<noteq> a" "c \<noteq> b" "c \<noteq> Node n"
      unfolding nodes [symmetric] by auto
    then show "pstNext ?m' c = pstNext m c \<and> pstPrev ?m' c = pstPrev m c"
      unfolding a [symmetric] by (simp add: cells)
  qed
  moreover have "set (xs @ n # ys) \<inter> set (L h') = {}" if "h' \<noteq> h" for h'
    using represents_disjoint [OF rep that] n [of h'] Lh by auto
  ultimately show ?thesis
    by (rule represents_updI [OF rep])
qed

lemma represents_remove:
  assumes rep: "represents m L" and Lh: "L h = xs @ n # ys"
  shows "represents (LOS_ListDelete_ptr (Node n) m) (L(h := xs @ ys))" (is "represents ?m' _")
    and "pstNext (LOS_ListDelete_ptr (Node n) m) (Node n) = NULL"
proof -
  from rep Lh have ring: "ring m h (xs @ n # ys)"
    by (metis represents_def)
  then have nh: "n \<notin> set (xs @ ys)" and "distinct (xs @ ys)"
    by (auto simp: ring_def)
  from this(2) obtain P a b Q where Pa: "Head h # map Node xs = P @ [a]"
    and bQ: "map Node ys @ [Head h] = b # Q"
    and a: "a = last (Head h # map Node xs)" and fr: "a \<notin> set P" "a \<notin> set (butlast (b # Q))"
      "b \<notin> set (tl (P @ [a]))" "b \<notin> set Q"
    and nodes: "set (P @ a # b # Q) = insert (Head h) (Node ` set (xs @ ys))"
    by (rule ring_position)
  have split: "Head h # map Node (xs @ zs @ ys) @ [Head h] = P @ a # map Node zs @ b # Q" for zs
    using Pa bQ by (metis append.assoc append_Cons append_Nil map_append)
  from ring have ch: "chain m (P @ a # Node n # b # Q)"
    using split [of "[n]"] by (simp add: ring_def)
  then have links: "pstNext m (Node n) = b" "pstPrev m (Node n) = a"
    using chain_split [of m P a "Node n # b # Q"] by simp_all
  have nnot: "Node n \<notin> set (P @ a # b # Q)"
    using nodes nh by auto
  then have ne: "a \<noteq> Node n" "b \<noteq> Node n" by auto
  have cells: "pstNext ?m' = (pstNext m)(a := b, Node n := NULL)"
    "pstPrev ?m' = (pstPrev m)(b := a, Node n := NULL)"
    using ne links by (auto simp: LOS_ListDelete_ptr_def Let_def)
  show "pstNext ?m' (Node n) = NULL" by (simp add: cells)
  have "chain ?m' (P @ a # b # Q)"
    by (rule chain_remove [OF ch nnot fr cells])
  then have "ring ?m' h (xs @ ys)"
    using ring split [of "[]"] by (simp add: ring_def)
  moreover have "ring ?m' h' (L h')" if "h' \<noteq> h" for h'
  proof (rule ring_frame [of m])
    show "ring m h' (L h')" using rep by (simp add: represents_def)
    fix c
    assume "c \<in> insert (Head h') (Node ` set (L h'))"
    then have "c \<notin> insert (Head h) (Node ` set (xs @ ys))" "c \<noteq> Node n"
      using represents_disjoint [OF rep that] Lh that by auto
    then have "c \<noteq> a" "c \<noteq> b" "c \<noteq> Node n"
      unfolding nodes [symmetric] by auto
    then show "pstNext ?m' c = pstNext m c \<and> pstPrev ?m' c = pstPrev m c"
      by (simp add: cells)
  qed
  moreover have "set (xs @ ys) \<inter> set (L h') = {}" if "h' \<noteq> h" for h'
    using represents_disjoint [OF rep that] Lh by auto
  ultimately show "represents ?m' (L(h := xs @ ys))"
    by (rule represents_updI [OF rep])
qed

lemma represents_last:
  assumes "represents m L"
  shows "pstPrev m (Head h) = last (Head h # map Node (L h))"
proof -
  have ch: "chain m (Head h # map Node (L h) @ [Head h])"
    using assms by (simp add: represents_def ring_def)
  show ?thesis
  proof (cases "L h" rule: rev_cases)
    case Nil
    with ch show ?thesis by simp
  next
    case (snoc ys y)
    with ch show ?thesis
      using chain_split [of m "Head h # map Node ys" "Node y" "[Head h]"] by simp
  qed
qed

lemma represents_add:
  assumes "represents m L" and "\<And>h'. n \<notin> set (L h')"
  shows "represents (LOS_ListAdd_ptr (Head h) (Node n) m) (L(h := n # L h))"
  using represents_insert [of m L h "[]" "L h" n] assms by simp

lemma represents_tail_insert:
  assumes "represents m L" and "\<And>h'. n \<notin> set (L h')"
  shows "represents (LOS_ListTailInsert_ptr (Head h) (Node n) m) (L(h := L h @ [n]))"
  using represents_insert [of m L h "L h" "[]" n] assms
  by (simp add: LOS_ListTailInsert_ptr_def represents_last del: last.simps)

lemma represents_delete:
  assumes "represents m L" and "n \<in> set (L h)"
  shows "represents (LOS_ListDelete_ptr (Node n) m) (L(h := remove1 n (L h)))"
proof -
  from split_list [OF assms(2)] obtain xs ys where Lh: "L h = xs @ n # ys" by blast
  have "distinct (L h)" using assms(1) by (simp add: represents_def ring_def)
  then have "remove1 n (L h) = xs @ ys" by (simp add: Lh remove1_append)
  with represents_remove(1) [OF assms(1) Lh] show ?thesis by simp
qed

lemma represents_empty:
  assumes "represents m L"
  shows "LOS_ListEmpty_ptr (Head h) m \<longleftrightarrow> L h = []"
proof -
  have "chain m (Head h # map Node (L h) @ [Head h])"
    using assms by (simp add: represents_def ring_def)
  then show ?thesis by (cases "L h") (auto simp: LOS_ListEmpty_ptr_def)
qed

text \<open>The store of a heap, and the contract met by the pointer code.\<close>

definition lists_of :: "'h dl_heap \<Rightarrow> 'h \<Rightarrow> nat list" where
  "lists_of m = (THE L. represents m L)"

lemma lists_of_eq: "represents m L \<Longrightarrow> lists_of m = L"
  unfolding lists_of_def by (rule the_equality) (auto intro: represents_unique)

lemma represents_lists_of: "\<exists>L. represents m L \<Longrightarrow> represents m (lists_of m)"
  using lists_of_eq by fastforce

interpretation ptr: intrusive_lists lists_of "\<lambda>m. \<exists>L. represents m L"
  "\<lambda>h n. LOS_ListAdd_ptr (Head h) (Node n)" "\<lambda>h n. LOS_ListTailInsert_ptr (Head h) (Node n)"
  "\<lambda>n. LOS_ListDelete_ptr (Node n)" "\<lambda>m h. LOS_ListEmpty_ptr (Head h) m"
proof (unfold_locales, goal_cases)
  case (1 m h)
  then have "ring m h (lists_of m h)"
    using represents_lists_of [of m] by (simp add: represents_def)
  then show ?case by (simp add: ring_def)
next
  case (2 m n h h')
  then show ?case using represents_disjoint [OF represents_lists_of, of m h h'] by auto
next
  case (3 m h)
  then show ?case by (rule represents_empty [OF represents_lists_of])
next
  case (4 m n h)
  then show ?case by (intro lists_of_eq represents_add represents_lists_of)
next
  case (5 m n h)
  then show ?case by (intro exI) (rule represents_add [OF represents_lists_of])
next
  case (6 m n h)
  then show ?case by (intro lists_of_eq represents_tail_insert represents_lists_of)
next
  case (7 m n h)
  then show ?case by (intro exI) (rule represents_tail_insert [OF represents_lists_of])
next
  case (8 m n h)
  then show ?case by (intro lists_of_eq represents_delete represents_lists_of)
next
  case (9 m n h)
  then show ?case by (intro exI) (rule represents_delete [OF represents_lists_of])
qed

section \<open>The abstract store\<close>

text \<open>
  What the components use: heads are names, and the store maps each to the sequence of the
  nodes after it. Deleting a node takes it off the list it is on, whichever that is, as the
  header does by following the links of the node itself.
\<close>

type_synonym 'h store = "'h \<Rightarrow> nat list"

definition LOS_ListInit :: "'h \<Rightarrow> 'h store \<Rightarrow> 'h store" where
  "LOS_ListInit h L = L(h := [])"

definition LOS_ListAdd :: "'h \<Rightarrow> nat \<Rightarrow> 'h store \<Rightarrow> 'h store" where
  "LOS_ListAdd h n L = L(h := n # L h)"

definition LOS_ListTailInsert :: "'h \<Rightarrow> nat \<Rightarrow> 'h store \<Rightarrow> 'h store" where
  "LOS_ListTailInsert h n L = L(h := L h @ [n])"

definition LOS_ListDelete :: "nat \<Rightarrow> 'h store \<Rightarrow> 'h store" where
  "LOS_ListDelete n L = (\<lambda>h. remove1 n (L h))"

definition LOS_ListEmpty :: "'h store \<Rightarrow> 'h \<Rightarrow> bool" where
  "LOS_ListEmpty L h \<longleftrightarrow> L h = []"

definition LOS_DL_LIST_FIRST :: "'h store \<Rightarrow> 'h \<Rightarrow> nat" where
  "LOS_DL_LIST_FIRST L h = hd (L h)"

lemmas list_defs = LOS_ListInit_def LOS_ListAdd_def LOS_ListTailInsert_def LOS_ListDelete_def
  LOS_ListEmpty_def LOS_DL_LIST_FIRST_def

definition store_ok :: "'h store \<Rightarrow> bool" where
  "store_ok L \<longleftrightarrow> (\<forall>h. distinct (L h)) \<and> (\<forall>h h'. h \<noteq> h' \<longrightarrow> set (L h) \<inter> set (L h') = {})"

lemma store_okD:
  "store_ok L \<Longrightarrow> distinct (L h)"
  "store_ok L \<Longrightarrow> n \<in> set (L h) \<Longrightarrow> n \<in> set (L h') \<Longrightarrow> h = h'"
  by (auto simp: store_ok_def)

lemma delete_on:
  assumes "store_ok L" and "n \<in> set (L h)"
  shows "LOS_ListDelete n L = L(h := remove1 n (L h))"
proof (rule ext)
  fix h'
  have "n \<notin> set (L h')" if "h' \<noteq> h"
    using store_okD(2) [OF assms, of h'] that by blast
  then show "LOS_ListDelete n L h' = (L(h := remove1 n (L h))) h'"
    by (simp add: LOS_ListDelete_def remove1_notin)
qed

lemma store_ok_upd:
  assumes "store_ok L" and "distinct ys" and "\<And>h'. h' \<noteq> h \<Longrightarrow> set ys \<inter> set (L h') = {}"
  shows "store_ok (L(h := ys))"
  using assms by (auto simp: store_ok_def)

interpretation lst: intrusive_lists "\<lambda>L. L" store_ok LOS_ListAdd LOS_ListTailInsert LOS_ListDelete
  LOS_ListEmpty
proof (unfold_locales, goal_cases)
  case (2 L n h h')
  then show ?case by (rule store_okD(2))
next
  case (5 L n h)
  then show ?case unfolding LOS_ListAdd_def
    by (intro store_ok_upd) (auto dest: store_okD)
next
  case (7 L n h)
  then show ?case unfolding LOS_ListTailInsert_def
    by (intro store_ok_upd) (auto dest: store_okD)
next
  case (8 L n h)
  then show ?case by (rule delete_on)
next
  case (9 L n h)
  then have "set (remove1 n (L h)) \<inter> set (L h') = {}" if "h' \<noteq> h" for h'
    using that set_remove1_subset [of n "L h"] by (fastforce simp: store_ok_def)
  with 9 show ?case unfolding delete_on [OF 9]
    by (intro store_ok_upd) (auto simp: store_ok_def)
qed (auto simp: list_defs dest: store_okD)

end
