(* ===== verification/Config.thy ===== *)
theory Config
  imports Prelude
begin

text \<open>
  The configuration macros of \<open>kernel/include/los_config.h\<close> and of a board's
  \<open>target_config.h\<close>, as a record the kernel state carries, and the constants that
  \<open>kernel/include/los_tick.h\<close> and \<open>kernel/src/los_sched.c\<close> derive from them.
  \<open>default_config\<close> holds the defaults of \<open>los_config.h\<close> with the clock and the
  timer alignment of \<open>targets/cortex-m7_nucleo_f767zi_gcc\<close>.
\<close>

record los_config =
  OS_SYS_CLOCK :: nat
  LOSCFG_BASE_CORE_TICK_PER_SECOND :: nat
  LOSCFG_BASE_CORE_TICK_RESPONSE_MAX :: nat
  LOSCFG_BASE_CORE_TIMESLICE_TIMEOUT :: nat
  LOSCFG_BASE_CORE_TSK_LIMIT :: nat
  LOSCFG_BASE_CORE_TSK_MIN_STACK_SIZE :: nat
  LOSCFG_BASE_CORE_TSK_DEFAULT_STACK_SIZE :: nat
  LOSCFG_BASE_CORE_TSK_IDLE_STACK_SIZE :: nat
  LOSCFG_BASE_CORE_TSK_SWTMR_STACK_SIZE :: nat
  LOSCFG_SYS_HEAP_SIZE :: nat
  LOSCFG_BASE_IPC_SEM_LIMIT :: nat
  LOSCFG_BASE_IPC_MUX_LIMIT :: nat
  LOSCFG_BASE_IPC_QUEUE_LIMIT :: nat
  LOSCFG_BASE_CORE_SWTMR_LIMIT :: nat
  LOSCFG_BASE_CORE_SWTMR_ALIGN :: bool
  LOS_COMMON_DIVISOR :: nat

definition default_config :: los_config where
  "default_config = \<lparr>
    OS_SYS_CLOCK = 96000000,
    LOSCFG_BASE_CORE_TICK_PER_SECOND = 1000,
    LOSCFG_BASE_CORE_TICK_RESPONSE_MAX = 0xFFFFFF,
    LOSCFG_BASE_CORE_TIMESLICE_TIMEOUT = 20000,
    LOSCFG_BASE_CORE_TSK_LIMIT = 5,
    LOSCFG_BASE_CORE_TSK_MIN_STACK_SIZE = 0x80,
    LOSCFG_BASE_CORE_TSK_DEFAULT_STACK_SIZE = 0x400,
    LOSCFG_BASE_CORE_TSK_IDLE_STACK_SIZE = 0x180,
    LOSCFG_BASE_CORE_TSK_SWTMR_STACK_SIZE = 0x400,
    LOSCFG_SYS_HEAP_SIZE = 0x10000,
    LOSCFG_BASE_IPC_SEM_LIMIT = 6,
    LOSCFG_BASE_IPC_MUX_LIMIT = 6,
    LOSCFG_BASE_IPC_QUEUE_LIMIT = 6,
    LOSCFG_BASE_CORE_SWTMR_LIMIT = 5,
    LOSCFG_BASE_CORE_SWTMR_ALIGN = True,
    LOS_COMMON_DIVISOR = 10\<rparr>"

definition OS_SWTMR_HANDLE_QUEUE_SIZE :: "los_config \<Rightarrow> nat" where
  "OS_SWTMR_HANDLE_QUEUE_SIZE c = LOSCFG_BASE_CORE_SWTMR_LIMIT c"

definition OS_SYS_MS_PER_SECOND :: nat where
  "OS_SYS_MS_PER_SECOND = 1000"

definition OS_SYS_US_PER_SECOND :: nat where
  "OS_SYS_US_PER_SECOND = 1000000"

definition OS_SYS_NS_PER_SECOND :: nat where
  "OS_SYS_NS_PER_SECOND = 1000000000"

definition OS_SYS_NS_PER_US :: nat where
  "OS_SYS_NS_PER_US = 1000"

definition OS_CYCLE_PER_TICK :: "los_config \<Rightarrow> nat" where
  "OS_CYCLE_PER_TICK c = OS_SYS_CLOCK c div LOSCFG_BASE_CORE_TICK_PER_SECOND c"

definition OS_NS_PER_CYCLE :: "los_config \<Rightarrow> nat" where
  "OS_NS_PER_CYCLE c = OS_SYS_NS_PER_SECOND div OS_SYS_CLOCK c"

definition OS_US_PER_TICK :: "los_config \<Rightarrow> nat" where
  "OS_US_PER_TICK c = OS_SYS_US_PER_SECOND div LOSCFG_BASE_CORE_TICK_PER_SECOND c"

text \<open>
  The time slice of a task in cycles, the remainder below which a slice counts as used up, and
  the response time that means none (\<open>los_sched.c\<close>).
\<close>

definition OS_SCHED_TIME_SLICES :: "los_config \<Rightarrow> INT32" where
  "OS_SCHED_TIME_SLICES c =
    of_nat ((LOSCFG_BASE_CORE_TIMESLICE_TIMEOUT c * OS_SYS_NS_PER_US) div OS_NS_PER_CYCLE c)"

definition OS_TIME_SLICE_MIN :: "los_config \<Rightarrow> INT32" where
  "OS_TIME_SLICE_MIN c = of_nat ((50 * OS_SYS_NS_PER_US) div OS_NS_PER_CYCLE c)"

definition OS_SCHED_MAX_RESPONSE_TIME :: UINT64 where
  "OS_SCHED_MAX_RESPONSE_TIME = 0xFFFFFFFFFFFFFFFF - 1"

definition OS_TICK_RESPONSE_TIME_MAX :: "los_config \<Rightarrow> UINT64" where
  "OS_TICK_RESPONSE_TIME_MAX c = of_nat (LOSCFG_BASE_CORE_TICK_RESPONSE_MAX c)"

lemmas config_consts = OS_SYS_MS_PER_SECOND_def OS_SYS_US_PER_SECOND_def OS_SYS_NS_PER_SECOND_def
  OS_SYS_NS_PER_US_def OS_CYCLE_PER_TICK_def OS_NS_PER_CYCLE_def OS_US_PER_TICK_def
  OS_SCHED_TIME_SLICES_def OS_TIME_SLICE_MIN_def OS_SCHED_MAX_RESPONSE_TIME_def
  OS_TICK_RESPONSE_TIME_MAX_def

text \<open>
  What a board configuration has to provide: a tick is a positive number of cycles that the
  tick timer can count, and a full time slice is longer than the slice minimum and fits a
  signed 32-bit integer.
\<close>

definition config_ok :: "los_config \<Rightarrow> bool" where
  "config_ok c \<longleftrightarrow>
    0 < OS_CYCLE_PER_TICK c \<and> OS_CYCLE_PER_TICK c \<le> LOSCFG_BASE_CORE_TICK_RESPONSE_MAX c \<and>
    LOSCFG_BASE_CORE_TICK_RESPONSE_MAX c < 2 ^ 32 \<and>
    OS_TIME_SLICE_MIN c <s OS_SCHED_TIME_SLICES c \<and> 0 <s OS_TIME_SLICE_MIN c"

lemma default_config_ok: "config_ok default_config"
  by (simp add: config_ok_def default_config_def config_consts word_sless_alt)

end
