(* ===== verification/SortLink.thy ===== *)
theory SortLink
  imports Config
begin

text \<open>
  \<open>kernel/src/los_sortlink.c\<close>: the two lists of pending expiry times, of the delayed tasks
  and of the software timers, kept in the order of \<open>responseTime\<close>. A list is the sequence
  of the node numbers (task index or timer index) together with the \<open>responseTime\<close> cell
  of every node; a node that is on no list has the time \<open>OS_SORT_LINK_INVALID_TIME\<close>.
\<close>

record sort_link =
  sortLink :: "nat list"
  responseTime :: "nat \<Rightarrow> UINT64"

datatype SortLinkType = OS_SORT_LINK_TASK | OS_SORT_LINK_SWTMR

definition OS_SORT_LINK_INVALID_TIME :: UINT64 where
  "OS_SORT_LINK_INVALID_TIME = -1"

definition SET_SORTLIST_VALUE :: "nat \<Rightarrow> UINT64 \<Rightarrow> sort_link \<Rightarrow> sort_link" where
  "SET_SORTLIST_VALUE node v sl = sl\<lparr>responseTime := (responseTime sl)(node := v)\<rparr>"

definition OsSortLinkInit :: "sort_link \<Rightarrow> sort_link" where
  "OsSortLinkInit sl = sl\<lparr>sortLink := []\<rparr>"

text \<open>
  The insertion walks back from the tail (\<open>prevNode = prevNode->pstPrev\<close>) to the last node
  that is not later than the new one. The walk is on the reversed list; it never reaches the
  head of the list, because the first node is earlier than the new one when it is entered.
\<close>

fun add_walk :: "(nat \<Rightarrow> UINT64) \<Rightarrow> nat \<Rightarrow> nat list \<Rightarrow> nat list" where
  "add_walk t node [] = [node]"
| "add_walk t node (prev # rest) =
    (if t prev \<le> t node then node # prev # rest else prev # add_walk t node rest)"

definition OsAddNode2SortLink :: "nat \<Rightarrow> sort_link \<Rightarrow> sort_link" where
  "OsAddNode2SortLink node sl =
    (let xs = sortLink sl; t = responseTime sl
     in if xs = [] then sl\<lparr>sortLink := node # xs\<rparr>
        else if t node \<le> t (hd xs) then sl\<lparr>sortLink := node # xs\<rparr>
        else sl\<lparr>sortLink := rev (add_walk t node (rev xs))\<rparr>)"

definition OsDeleteNodeSortLink :: "nat \<Rightarrow> sort_link \<Rightarrow> sort_link" where
  "OsDeleteNodeSortLink node sl =
    SET_SORTLIST_VALUE node OS_SORT_LINK_INVALID_TIME (sl\<lparr>sortLink := remove1 node (sortLink sl)\<rparr>)"

fun next_expire_walk :: "(nat \<Rightarrow> UINT64) \<Rightarrow> UINT64 \<Rightarrow> UINT64 \<Rightarrow> nat list \<Rightarrow> UINT64 \<times> UINT64" where
  "next_expire_walk t startTime expirTime [] = (expirTime, 0)"
| "next_expire_walk t startTime expirTime (x # xs) =
    (if t x \<le> startTime then next_expire_walk t startTime startTime xs else (expirTime, t x))"

definition OsGetSortLinkNextExpireTime :: "los_config \<Rightarrow> sort_link \<Rightarrow> UINT64 \<Rightarrow> UINT64" where
  "OsGetSortLinkNextExpireTime c sl startTime =
    (if sortLink sl = [] then -1
     else
       let (expirTime, nextExpirTime) = next_expire_walk (responseTime sl) startTime 0 (sortLink sl)
       in if expirTime = 0 then nextExpirTime
          else if nextExpirTime = 0 then expirTime
          else if nextExpirTime - expirTime \<le> of_nat (OS_US_PER_TICK c) then nextExpirTime
          else expirTime)"

definition OsSortLinkGetTargetExpireTime :: "los_config \<Rightarrow> UINT64 \<Rightarrow> UINT64 \<Rightarrow> UINT32" where
  "OsSortLinkGetTargetExpireTime c currTime target =
    (if target \<le> currTime then 0
     else ucast (((target - currTime) * of_nat (LOSCFG_BASE_CORE_TICK_PER_SECOND c))
                 div of_nat (OS_SYS_CLOCK c)))"

definition OsSortLinkGetNextExpireTime :: "los_config \<Rightarrow> UINT64 \<Rightarrow> sort_link \<Rightarrow> UINT32" where
  "OsSortLinkGetNextExpireTime c currTime sl =
    (if sortLink sl = [] then 0
     else OsSortLinkGetTargetExpireTime c currTime (responseTime sl (hd (sortLink sl))))"

section \<open>The two lists of the kernel\<close>

record sortlink_state =
  cfg :: los_config
  g_taskSortLink :: sort_link
  g_swtmrSortLink :: sort_link

definition OsGetSortLinkAttribute :: "SortLinkType \<Rightarrow> 'a sortlink_state_scheme \<Rightarrow> sort_link" where
  "OsGetSortLinkAttribute type s =
    (case type of OS_SORT_LINK_TASK \<Rightarrow> g_taskSortLink s | OS_SORT_LINK_SWTMR \<Rightarrow> g_swtmrSortLink s)"

definition upd_sortlink ::
  "SortLinkType \<Rightarrow> (sort_link \<Rightarrow> sort_link) \<Rightarrow> 'a sortlink_state_scheme \<Rightarrow> 'a sortlink_state_scheme" where
  "upd_sortlink type f s =
    (case type of
       OS_SORT_LINK_TASK \<Rightarrow> s\<lparr>g_taskSortLink := f (g_taskSortLink s)\<rparr>
     | OS_SORT_LINK_SWTMR \<Rightarrow> s\<lparr>g_swtmrSortLink := f (g_swtmrSortLink s)\<rparr>)"

definition OsAdd2SortLink ::
  "nat \<Rightarrow> UINT64 \<Rightarrow> UINT32 \<Rightarrow> SortLinkType \<Rightarrow> 'a sortlink_state_scheme \<Rightarrow> 'a sortlink_state_scheme" where
  "OsAdd2SortLink node startTime waitTicks type s =
    upd_sortlink type
      (\<lambda>sl. OsAddNode2SortLink node
        (SET_SORTLIST_VALUE node (startTime + ucast waitTicks * of_nat (OS_CYCLE_PER_TICK (cfg s))) sl)) s"

definition OsDeleteSortLink ::
  "nat \<Rightarrow> SortLinkType \<Rightarrow> 'a sortlink_state_scheme \<Rightarrow> 'a sortlink_state_scheme" where
  "OsDeleteSortLink node type s =
    (if responseTime (OsGetSortLinkAttribute type s) node \<noteq> OS_SORT_LINK_INVALID_TIME
     then upd_sortlink type (OsDeleteNodeSortLink node) s else s)"

definition OsGetNextExpireTime :: "UINT64 \<Rightarrow> 'a sortlink_state_scheme \<Rightarrow> UINT64" where
  "OsGetNextExpireTime startTime s =
    (let taskExpirTime = OsGetSortLinkNextExpireTime (cfg s) (g_taskSortLink s) startTime;
         swtmrExpirTime = OsGetSortLinkNextExpireTime (cfg s) (g_swtmrSortLink s) startTime
     in if taskExpirTime < swtmrExpirTime then taskExpirTime else swtmrExpirTime)"

section \<open>The insertion\<close>

definition expiry_sorted :: "sort_link \<Rightarrow> bool" where
  "expiry_sorted sl \<longleftrightarrow> sorted (map (responseTime sl) (sortLink sl))"

text \<open>
  Well-formed: sorted, no node twice, and every node on the list has a valid time.
\<close>

definition sortlink_ok :: "sort_link \<Rightarrow> bool" where
  "sortlink_ok sl \<longleftrightarrow> expiry_sorted sl \<and> distinct (sortLink sl) \<and>
    (\<forall>n\<in>set (sortLink sl). responseTime sl n \<noteq> OS_SORT_LINK_INVALID_TIME)"

lemma sorted_dropWhile_le:
  "sorted (map t xs) \<Longrightarrow> x \<in> set (dropWhile (\<lambda>y. t y \<le> b) xs) \<Longrightarrow> \<not> t x \<le> b"
  by (induction xs) (auto split: if_splits)

text \<open>The backward walk stops where the nodes that are not later than the new one end.\<close>

lemma add_walk_eq:
  "sorted (map t xs) \<Longrightarrow>
   rev (add_walk t n (rev xs)) = takeWhile (\<lambda>y. t y \<le> t n) xs @ n # dropWhile (\<lambda>y. t y \<le> t n) xs"
proof (induction xs rule: rev_induct)
  case Nil
  then show ?case by simp
next
  case (snoc x xs)
  show ?case
  proof (cases "t x \<le> t n")
    case True
    with snoc.prems have "\<forall>y\<in>set xs. t y \<le> t n"
      by (force simp: sorted_append)
    with True show ?thesis by (simp add: takeWhile_append2 dropWhile_append2)
  next
    case False
    with snoc show ?thesis
      by (simp add: sorted_append takeWhile_tail takeWhile_append dropWhile_append)
  qed
qed

text \<open>
  The position of the new node: before the first node when that one is not earlier, otherwise
  after every node that is not later.
\<close>

definition insert_position :: "(nat \<Rightarrow> UINT64) \<Rightarrow> nat \<Rightarrow> nat list \<Rightarrow> nat list" where
  "insert_position t n xs =
    (if xs \<noteq> [] \<and> t n = t (hd xs) then n # xs
     else takeWhile (\<lambda>y. t y \<le> t n) xs @ n # dropWhile (\<lambda>y. t y \<le> t n) xs)"

lemma OsAddNode2SortLink_eq:
  assumes "expiry_sorted sl"
  shows "OsAddNode2SortLink n sl = sl\<lparr>sortLink := insert_position (responseTime sl) n (sortLink sl)\<rparr>"
proof -
  have "rev (add_walk (responseTime sl) n (rev (sortLink sl))) =
    takeWhile (\<lambda>y. responseTime sl y \<le> responseTime sl n) (sortLink sl) @ n #
    dropWhile (\<lambda>y. responseTime sl y \<le> responseTime sl n) (sortLink sl)"
    using assms by (simp only: expiry_sorted_def add_walk_eq)
  then show ?thesis
    by (cases "sortLink sl") (auto simp: OsAddNode2SortLink_def insert_position_def Let_def not_le)
qed

lemma set_insert_position [simp]: "set (insert_position t n xs) = insert n (set xs)"
proof -
  have "set xs = set (takeWhile (\<lambda>y. t y \<le> t n) xs) \<union> set (dropWhile (\<lambda>y. t y \<le> t n) xs)"
    by (metis set_append takeWhile_dropWhile_id)
  then show ?thesis by (auto simp: insert_position_def)
qed

lemma length_insert_position [simp]: "length (insert_position t n xs) = Suc (length xs)"
proof -
  have "length xs = length (takeWhile (\<lambda>y. t y \<le> t n) xs) + length (dropWhile (\<lambda>y. t y \<le> t n) xs)"
    by (metis length_append takeWhile_dropWhile_id)
  then show ?thesis by (simp add: insert_position_def)
qed

lemma distinct_insert_position:
  "distinct xs \<Longrightarrow> n \<notin> set xs \<Longrightarrow> distinct (insert_position t n xs)"
  using card_distinct [of "insert_position t n xs"] by (simp add: distinct_card)

lemma sorted_insert_position:
  assumes "sorted (map t xs)"
  shows "sorted (map t (insert_position t n xs))"
proof (cases "xs \<noteq> [] \<and> t n = t (hd xs)")
  case True
  with assms show ?thesis
    by (cases xs) (auto simp: insert_position_def)
next
  case False
  let ?P = "\<lambda>y. t y \<le> t n"
  have "sorted (map t (takeWhile ?P xs @ dropWhile ?P xs))"
    using assms by simp
  then have "sorted (map t (takeWhile ?P xs))" "sorted (map t (dropWhile ?P xs))"
    by (simp_all only: map_append sorted_append)
  moreover have "\<forall>x\<in>set (takeWhile ?P xs). t x \<le> t n"
    by (auto dest: set_takeWhileD)
  moreover have "\<forall>y\<in>set (dropWhile ?P xs). t n \<le> t y"
    using sorted_dropWhile_le [OF assms] by (meson linear)
  ultimately have "sorted (map t (takeWhile ?P xs @ n # dropWhile ?P xs))"
    by (simp add: sorted_append) (meson order_trans)
  with False show ?thesis
    by (simp only: insert_position_def if_False)
qed

lemma remove1_insert_position: "n \<notin> set xs \<Longrightarrow> remove1 n (insert_position t n xs) = xs"
  by (auto simp: insert_position_def remove1_append dest: set_takeWhileD)

lemma insert_position_cong:
  "(\<And>x. x \<in> insert n (set xs) \<Longrightarrow> t x = t' x) \<Longrightarrow> insert_position t n xs = insert_position t' n xs"
  by (cases xs) (auto simp: insert_position_def cong: takeWhile_cong dropWhile_cong)

section \<open>The lists stay well-formed\<close>

lemma sortlink_ok_valid:
  "sortlink_ok sl \<Longrightarrow> n \<in> set (sortLink sl) \<Longrightarrow> responseTime sl n \<noteq> OS_SORT_LINK_INVALID_TIME"
  by (auto simp: sortlink_ok_def)

lemma expiry_sorted_SET:
  "n \<notin> set (sortLink sl) \<Longrightarrow> expiry_sorted (SET_SORTLIST_VALUE n v sl) = expiry_sorted sl"
  by (auto simp: expiry_sorted_def SET_SORTLIST_VALUE_def map_fun_upd)

lemma SET_SORTLIST_VALUE_sel [simp]:
  "sortLink (SET_SORTLIST_VALUE n v sl) = sortLink sl"
  "responseTime (SET_SORTLIST_VALUE n v sl) = (responseTime sl)(n := v)"
  by (simp_all add: SET_SORTLIST_VALUE_def)

text \<open>Adding a node with a valid time: the new lists, in closed form.\<close>

lemma add_sortlink:
  assumes "sortlink_ok sl" "n \<notin> set (sortLink sl)"
  shows "OsAddNode2SortLink n (SET_SORTLIST_VALUE n v sl) =
    sl\<lparr>sortLink := insert_position ((responseTime sl)(n := v)) n (sortLink sl),
       responseTime := (responseTime sl)(n := v)\<rparr>"
proof -
  have "expiry_sorted (SET_SORTLIST_VALUE n v sl)"
    using assms by (simp add: expiry_sorted_SET sortlink_ok_def)
  from OsAddNode2SortLink_eq [OF this] show ?thesis
    by (simp add: SET_SORTLIST_VALUE_def)
qed

lemma sortlink_ok_add:
  assumes "sortlink_ok sl" "n \<notin> set (sortLink sl)" "v \<noteq> OS_SORT_LINK_INVALID_TIME"
  shows "sortlink_ok (OsAddNode2SortLink n (SET_SORTLIST_VALUE n v sl))"
proof -
  have "sorted (map ((responseTime sl)(n := v)) (sortLink sl))"
    using assms by (simp add: sortlink_ok_def expiry_sorted_def map_fun_upd)
  from sorted_insert_position [OF this] assms show ?thesis
    by (auto simp: add_sortlink sortlink_ok_def expiry_sorted_def distinct_insert_position)
qed

lemma sortlink_ok_delete:
  "sortlink_ok sl \<Longrightarrow> sortlink_ok (OsDeleteNodeSortLink n sl)"
  by (auto simp: sortlink_ok_def OsDeleteNodeSortLink_def expiry_sorted_def map_fun_upd
      sorted_map_remove1)

lemma delete_sortlink_sel [simp]:
  "sortLink (OsDeleteNodeSortLink n sl) = remove1 n (sortLink sl)"
  "responseTime (OsDeleteNodeSortLink n sl) = (responseTime sl)(n := OS_SORT_LINK_INVALID_TIME)"
  by (simp_all add: OsDeleteNodeSortLink_def)

lemma sortlink_ok_init: "sortlink_ok (OsSortLinkInit sl)"
  by (simp add: sortlink_ok_def OsSortLinkInit_def expiry_sorted_def)

definition sortlinks_ok :: "'a sortlink_state_scheme \<Rightarrow> bool" where
  "sortlinks_ok s \<longleftrightarrow> sortlink_ok (g_taskSortLink s) \<and> sortlink_ok (g_swtmrSortLink s)"

lemma upd_sortlink_sel [simp]:
  "cfg (upd_sortlink type f s) = cfg s"
  "OsGetSortLinkAttribute type (upd_sortlink type f s) = f (OsGetSortLinkAttribute type s)"
  "type' \<noteq> type \<Longrightarrow> OsGetSortLinkAttribute type' (upd_sortlink type f s) = OsGetSortLinkAttribute type' s"
  by (cases type; cases type'; simp add: upd_sortlink_def OsGetSortLinkAttribute_def)+

definition expire_at :: "'a sortlink_state_scheme \<Rightarrow> UINT64 \<Rightarrow> UINT32 \<Rightarrow> UINT64" where
  "expire_at s startTime waitTicks = startTime + ucast waitTicks * of_nat (OS_CYCLE_PER_TICK (cfg s))"

lemma sortlinks_ok_upd:
  "sortlinks_ok s \<Longrightarrow> sortlink_ok (f (OsGetSortLinkAttribute type s)) \<Longrightarrow> sortlinks_ok (upd_sortlink type f s)"
  by (cases type) (simp_all add: sortlinks_ok_def upd_sortlink_def OsGetSortLinkAttribute_def)

lemma sortlinks_okD: "sortlinks_ok s \<Longrightarrow> sortlink_ok (OsGetSortLinkAttribute type s)"
  by (cases type) (simp_all add: sortlinks_ok_def OsGetSortLinkAttribute_def)

lemma sortlinks_ok_Add2:
  assumes "sortlinks_ok s" "n \<notin> set (sortLink (OsGetSortLinkAttribute type s))"
    "expire_at s startTime waitTicks \<noteq> OS_SORT_LINK_INVALID_TIME"
  shows "sortlinks_ok (OsAdd2SortLink n startTime waitTicks type s)"
  using assms sortlink_ok_add [OF sortlinks_okD]
  by (auto simp: OsAdd2SortLink_def expire_at_def intro!: sortlinks_ok_upd)

lemma sortlinks_ok_Delete: "sortlinks_ok s \<Longrightarrow> sortlinks_ok (OsDeleteSortLink n type s)"
  by (simp add: OsDeleteSortLink_def sortlinks_ok_upd sortlink_ok_delete sortlinks_okD)

section \<open>The next expiry\<close>

lemma next_expire_walk_eq:
  "next_expire_walk t start e xs =
    (let late = dropWhile (\<lambda>x. t x \<le> start) xs
     in (if xs \<noteq> [] \<and> t (hd xs) \<le> start then start else e, if late = [] then 0 else t (hd late)))"
  by (induction t start e xs rule: next_expire_walk.induct) (auto simp: Let_def)

lemma OsGetSortLinkNextExpireTime_empty:
  "sortLink sl = [] \<Longrightarrow> OsGetSortLinkNextExpireTime c sl start = -1"
  by (simp add: OsGetSortLinkNextExpireTime_def)

text \<open>Nothing is due: the earliest expiry.\<close>

lemma OsGetSortLinkNextExpireTime_later:
  assumes "sortLink sl \<noteq> []" "start < responseTime sl (hd (sortLink sl))"
  shows "OsGetSortLinkNextExpireTime c sl start = responseTime sl (hd (sortLink sl))"
  using assms by (cases "sortLink sl") (auto simp: OsGetSortLinkNextExpireTime_def)

text \<open>Something is due: at once, or a little later together with the next expiry.\<close>

lemma OsGetSortLinkNextExpireTime_due:
  assumes "sortLink sl \<noteq> []" "responseTime sl (hd (sortLink sl)) \<le> start" "0 < start"
  shows "OsGetSortLinkNextExpireTime c sl start = start \<or>
    start < OsGetSortLinkNextExpireTime c sl start \<and>
    OsGetSortLinkNextExpireTime c sl start - start \<le> of_nat (OS_US_PER_TICK c)"
proof -
  have "\<not> responseTime sl (hd (dropWhile (\<lambda>x. responseTime sl x \<le> start) (sortLink sl))) \<le> start"
    if "dropWhile (\<lambda>x. responseTime sl x \<le> start) (sortLink sl) \<noteq> []"
    using hd_dropWhile [OF that] by simp
  with assms show ?thesis
    by (auto simp: OsGetSortLinkNextExpireTime_def next_expire_walk_eq Let_def not_le)
qed

lemma next_expire_lower:
  assumes "0 < start"
  shows "start \<le> OsGetSortLinkNextExpireTime c sl start"
proof (cases "sortLink sl = []")
  case True
  then show ?thesis by (simp add: OsGetSortLinkNextExpireTime_empty)
next
  case False
  then show ?thesis
    using OsGetSortLinkNextExpireTime_later [OF False, of start c]
      OsGetSortLinkNextExpireTime_due [OF False _ assms, of c]
    by (cases "start < responseTime sl (hd (sortLink sl))") (auto simp: not_less intro: less_imp_le)
qed

lemma expiry_hd_le:
  "expiry_sorted sl \<Longrightarrow> n \<in> set (sortLink sl) \<Longrightarrow> responseTime sl (hd (sortLink sl)) \<le> responseTime sl n"
  unfolding expiry_sorted_def by (cases "sortLink sl") auto

lemma next_expire_upper:
  assumes "expiry_sorted sl" "n \<in> set (sortLink sl)" "0 < start"
  shows "unat (OsGetSortLinkNextExpireTime c sl start) \<le>
    max (unat start) (unat (responseTime sl n)) + OS_US_PER_TICK c"
proof -
  let ?r = "OsGetSortLinkNextExpireTime c sl start"
  have ne: "sortLink sl \<noteq> []" using assms(2) by auto
  show ?thesis
  proof (cases "start < responseTime sl (hd (sortLink sl))")
    case True
    then have "?r \<le> responseTime sl n"
      using OsGetSortLinkNextExpireTime_later [OF ne True] expiry_hd_le [OF assms(1,2)] by simp
    then show ?thesis by (simp add: word_le_nat_alt)
  next
    case False
    then consider "?r = start" | "start < ?r" "?r - start \<le> of_nat (OS_US_PER_TICK c)"
      using OsGetSortLinkNextExpireTime_due [OF ne _ assms(3), of c] by (auto simp: not_less)
    then show ?thesis
    proof cases
      case 2
      have "unat (?r - start) = unat ?r - unat start"
        using 2(1) by (simp add: unat_sub less_imp_le)
      moreover have "unat (of_nat (OS_US_PER_TICK c) :: UINT64) \<le> OS_US_PER_TICK c"
        by (simp add: unat_of_nat)
      ultimately show ?thesis
        using 2(2) by (simp add: word_le_nat_alt)
    qed simp
  qed
qed

end
