(* ===== verification/Sched.thy ===== *)
theory Sched
  imports DlList SortLink
begin

text \<open>
  The scheduler, \<open>kernel/src/los_sched.c\<close>, with the task control block of
  \<open>kernel/include/los_task.h\<close>, the tick timer access of
  \<open>kernel/arch/arm/cortex-m4/gcc/los_timer.c\<close> and the task switch of \<open>los_dispatch.S\<close>.

  The state extends that of the sort links. A control block is named by its index in
  \<open>g_taskCBArray\<close>; \<open>pend\<close> holds the list every \<open>pendList\<close> node is on: the ready queue of a
  priority, the free or the recycle list, or the wait list of a semaphore, mutex, event or
  queue. A failed \<open>LOS_ASSERT\<close> stops the code; here it is recorded in \<open>assertFailed\<close>, and the
  theorems say of which assertions that the record stays empty. Optional features are as the
  default configuration has them: \<open>LOSCFG_BASE_CORE_TICK_WTIMER\<close>,
  \<open>LOSCFG_BASE_CORE_SCHED_SLEEP\<close>, \<open>LOSCFG_BASE_CORE_TSK_MONITOR\<close> and the hooks are off.
\<close>

section \<open>The state\<close>

datatype lhead =
    PriQ nat
  | FreeTask
  | RecycleTask
  | SemWait nat
  | MuxWait nat
  | EventWait nat
  | QueueReadWait nat
  | QueueWriteWait nat
  | QueueMemWait nat

record task_cb =
  taskStatus :: UINT16
  priority :: nat
  timeSlice :: INT32
  waitTimes :: UINT32
  startTime :: UINT64
  stackSize :: UINT32
  topOfStack :: UINT32
  stackPointer :: UINT32
  taskID :: nat
  taskEntry :: nat
  taskSem :: "nat option"
  taskMux :: "nat option"
  arg :: UINT32
  taskName :: string
  eventID :: UINT32
  eventMask :: UINT32
  eventMode :: UINT32
  msg :: UINT32

datatype assert_site = ASSERT_ENQUEUE_READY | ASSERT_SLICE_TIME | ASSERT_SCHED_TIME | ASSERT_TICK_SCHEDULED

record sched_state = sortlink_state +
  g_taskCBArray :: "nat \<Rightarrow> task_cb"
  pend :: "lhead store"
  runTask :: nat
  newTask :: nat
  g_losTaskLock :: UINT16
  g_taskScheduled :: bool
  g_queueBitmap :: UINT32
  g_taskMaxNum :: nat
  g_idleTaskID :: nat
  g_swtmrTaskID :: nat
  g_schedResponseID :: nat
  g_schedResponseTime :: UINT64
  g_schedTimerBase :: UINT64
  oldSchedTime :: UINT64
  SysTick_LOAD :: UINT32
  SysTick_VAL :: UINT32
  pendSV :: bool
  OS_INT_ACTIVE :: bool
  assertFailed :: "assert_site set"
  heapBlocks :: "UINT32 set"

definition OS_INVALID :: nat where
  "OS_INVALID = 0xFFFFFFFF"

definition LOS_WAIT_FOREVER :: UINT32 where
  "LOS_WAIT_FOREVER = 0xFFFFFFFF"

definition LOS_NO_WAIT :: UINT32 where
  "LOS_NO_WAIT = 0"

definition OS_PRIORITY_QUEUE_NUM :: nat where
  "OS_PRIORITY_QUEUE_NUM = 32"

abbreviation tcb :: "'a sched_state_scheme \<Rightarrow> nat \<Rightarrow> task_cb" where
  "tcb s t \<equiv> g_taskCBArray s t"

abbreviation status :: "'a sched_state_scheme \<Rightarrow> nat \<Rightarrow> UINT16" where
  "status s t \<equiv> taskStatus (g_taskCBArray s t)"

definition upd_tcb :: "nat \<Rightarrow> (task_cb \<Rightarrow> task_cb) \<Rightarrow> 'a sched_state_scheme \<Rightarrow> 'a sched_state_scheme" where
  "upd_tcb t f s = s\<lparr>g_taskCBArray := (g_taskCBArray s)(t := f (g_taskCBArray s t))\<rparr>"

text \<open>
  The blocks of the memory pool that are in use: the allocator (\<open>los_memory.c\<close>) is a parameter,
  an operation gets the address it returned, 0 when the pool is exhausted.
\<close>

definition LOS_MemFree :: "UINT32 \<Rightarrow> 'a sched_state_scheme \<Rightarrow> 'a sched_state_scheme" where
  "LOS_MemFree p s = s\<lparr>heapBlocks := heapBlocks s - {p}\<rparr>"

definition LOS_MemAlloc :: "UINT32 \<Rightarrow> 'a sched_state_scheme \<Rightarrow> 'a sched_state_scheme" where
  "LOS_MemAlloc p s = (if p = 0 then s else s\<lparr>heapBlocks := insert p (heapBlocks s)\<rparr>)"

text \<open>\<open>taskStatus |= flags\<close> and \<open>taskStatus &= ~flags\<close>.\<close>

definition status_or :: "nat \<Rightarrow> UINT16 \<Rightarrow> 'a sched_state_scheme \<Rightarrow> 'a sched_state_scheme" where
  "status_or t flags = upd_tcb t (taskStatus_update (\<lambda>w. w OR flags))"

definition status_clear :: "nat \<Rightarrow> UINT16 \<Rightarrow> 'a sched_state_scheme \<Rightarrow> 'a sched_state_scheme" where
  "status_clear t flags = upd_tcb t (taskStatus_update (\<lambda>w. w AND NOT flags))"

definition LOS_ASSERT :: "assert_site \<Rightarrow> bool \<Rightarrow> 'a sched_state_scheme \<Rightarrow> 'a sched_state_scheme" where
  "LOS_ASSERT site judge s = (if judge then s else s\<lparr>assertFailed := insert site (assertFailed s)\<rparr>)"

section \<open>Time\<close>

text \<open>
  \<open>HalGetTickCycle\<close> reads the period and the cycles counted down since the last reload. A reload
  writes the period to \<open>LOAD\<close> and then to \<open>VAL\<close>: a write of any value to that register makes the
  counter start again from \<open>LOAD\<close>, and that is the count the next reading starts from.
\<close>

definition HalGetTickCycle :: "'a sched_state_scheme \<Rightarrow> UINT64 \<times> UINT32" where
  "HalGetTickCycle s = (let period = SysTick_LOAD s in (ucast (period - SysTick_VAL s), period))"

definition HalSysTickReload :: "UINT64 \<Rightarrow> 'a sched_state_scheme \<Rightarrow> 'a sched_state_scheme" where
  "HalSysTickReload nextResponseTime s =
    (let s = s\<lparr>SysTick_LOAD := ucast (nextResponseTime - 1)\<rparr> in s\<lparr>SysTick_VAL := SysTick_LOAD s\<rparr>)"

definition OsSchedUpdateSchedTimeBase :: "'a sched_state_scheme \<Rightarrow> 'a sched_state_scheme" where
  "OsSchedUpdateSchedTimeBase s =
    s\<lparr>g_schedTimerBase := g_schedTimerBase s + ucast (snd (HalGetTickCycle s))\<rparr>"

definition OsGetCurrSchedTimeCycle :: "'a sched_state_scheme \<Rightarrow> UINT64 \<times> 'a sched_state_scheme" where
  "OsGetCurrSchedTimeCycle s =
    (if \<not> g_taskScheduled s then (0, s)
     else
       let (time, period) = HalGetTickCycle s;
           schedTime = g_schedTimerBase s + time;
           turned = schedTime < oldSchedTime s;
           base = (if turned then g_schedTimerBase s + ucast period else g_schedTimerBase s);
           schedTime = (if turned then base + time else schedTime);
           s = LOS_ASSERT ASSERT_SCHED_TIME (oldSchedTime s \<le> schedTime) (s\<lparr>g_schedTimerBase := base\<rparr>)
       in (schedTime, s\<lparr>oldSchedTime := schedTime\<rparr>))"

definition OsTimeSliceUpdate :: "nat \<Rightarrow> UINT64 \<Rightarrow> 'a sched_state_scheme \<Rightarrow> 'a sched_state_scheme" where
  "OsTimeSliceUpdate t currTime s =
    (let s = LOS_ASSERT ASSERT_SLICE_TIME (startTime (tcb s t) \<le> currTime) s;
         incTime = ucast (currTime - startTime (tcb s t)) :: INT32;
         s = (if taskID (tcb s t) \<noteq> g_idleTaskID s
              then upd_tcb t (timeSlice_update (\<lambda>x. x - incTime)) s else s)
     in upd_tcb t (startTime_update (\<lambda>_. currTime)) s)"

text \<open>
  The next tick interrupt: at the earliest expiry or at the end of the running task's slice,
  moved into the range the timer can count.
\<close>

definition OsSchedSetNextExpireTime ::
  "UINT64 \<Rightarrow> nat \<Rightarrow> UINT64 \<Rightarrow> 'a sched_state_scheme \<Rightarrow> 'a sched_state_scheme" where
  "OsSchedSetNextExpireTime start responseID taskEndTime s =
    (let cycle = of_nat (OS_CYCLE_PER_TICK (cfg s)) :: UINT64;
         maximum = OS_TICK_RESPONSE_TIME_MAX (cfg s);
         nextExpireTime = OsGetNextExpireTime start s;
         isTimeSlice = taskEndTime < nextExpireTime;
         nextExpireTime = (if isTimeSlice then taskEndTime else nextExpireTime);
         arm = (\<lambda>nextResponseTime nextExpireTime.
           let s = s\<lparr>g_schedResponseID := (if isTimeSlice then responseID else OS_INVALID),
                     g_schedResponseTime := nextExpireTime\<rparr>;
               (now, s) = OsGetCurrSchedTimeCycle s
           in HalSysTickReload nextResponseTime (s\<lparr>g_schedTimerBase := now\<rparr>))
     in if nextExpireTime < g_schedResponseTime s \<and> cycle \<le> g_schedResponseTime s - nextExpireTime
        then
          let nextResponseTime = nextExpireTime - start
          in if maximum < nextResponseTime then arm maximum (start + maximum)
             else if nextResponseTime < cycle then
               (if g_schedResponseTime s \<le> start + cycle then s else arm cycle (start + cycle))
             else arm nextResponseTime nextExpireTime
        else s)"

definition OsSchedUpdateExpireTime :: "UINT64 \<Rightarrow> 'a sched_state_scheme \<Rightarrow> 'a sched_state_scheme" where
  "OsSchedUpdateExpireTime start s =
    (let run = tcb s (runTask s);
         slice = (if timeSlice run \<le>s OS_TIME_SLICE_MIN (cfg s) then OS_SCHED_TIME_SLICES (cfg s)
                  else timeSlice run);
         endTime = (if taskID run \<noteq> g_idleTaskID s then start + scast slice
                    else OS_SCHED_MAX_RESPONSE_TIME)
     in OsSchedSetNextExpireTime start (taskID run) endTime s)"

section \<open>The ready queues\<close>

definition set_prio_bit :: "nat \<Rightarrow> 'a sched_state_scheme \<Rightarrow> 'a sched_state_scheme" where
  "set_prio_bit p s =
    (if LOS_ListEmpty (pend s) (PriQ p)
     then s\<lparr>g_queueBitmap := g_queueBitmap s OR drop_bit p PRIQUEUE_PRIOR0_BIT\<rparr> else s)"

definition OsSchedPriQueueEnHead :: "nat \<Rightarrow> nat \<Rightarrow> 'a sched_state_scheme \<Rightarrow> 'a sched_state_scheme" where
  "OsSchedPriQueueEnHead t p s =
    (let s = set_prio_bit p s in s\<lparr>pend := LOS_ListAdd (PriQ p) t (pend s)\<rparr>)"

definition OsSchedPriQueueEnTail :: "nat \<Rightarrow> nat \<Rightarrow> 'a sched_state_scheme \<Rightarrow> 'a sched_state_scheme" where
  "OsSchedPriQueueEnTail t p s =
    (let s = set_prio_bit p s in s\<lparr>pend := LOS_ListTailInsert (PriQ p) t (pend s)\<rparr>)"

definition OsSchedPriQueueDelete :: "nat \<Rightarrow> nat \<Rightarrow> 'a sched_state_scheme \<Rightarrow> 'a sched_state_scheme" where
  "OsSchedPriQueueDelete t p s =
    (let s = s\<lparr>pend := LOS_ListDelete t (pend s)\<rparr>
     in if LOS_ListEmpty (pend s) (PriQ p)
        then s\<lparr>g_queueBitmap := g_queueBitmap s AND NOT (drop_bit p PRIQUEUE_PRIOR0_BIT)\<rparr> else s)"

definition OsSchedTaskEnQueue :: "nat \<Rightarrow> 'a sched_state_scheme \<Rightarrow> 'a sched_state_scheme" where
  "OsSchedTaskEnQueue t s =
    (let s = LOS_ASSERT ASSERT_ENQUEUE_READY (\<not> has (status s t) OS_TASK_STATUS_READY) s;
         s = (if taskID (tcb s t) \<noteq> g_idleTaskID s then
                if OS_TIME_SLICE_MIN (cfg s) <s timeSlice (tcb s t)
                then OsSchedPriQueueEnHead t (priority (tcb s t)) s
                else
                  let s = upd_tcb t (timeSlice_update (\<lambda>_. OS_SCHED_TIME_SLICES (cfg s))) s
                  in OsSchedPriQueueEnTail t (priority (tcb s t)) s
              else s);
         s = status_clear t (OS_TASK_STATUS_PEND OR OS_TASK_STATUS_SUSPEND OR
                             OS_TASK_STATUS_DELAY OR OS_TASK_STATUS_PEND_TIME) s
     in status_or t OS_TASK_STATUS_READY s)"

definition OsSchedTaskDeQueue :: "nat \<Rightarrow> 'a sched_state_scheme \<Rightarrow> 'a sched_state_scheme" where
  "OsSchedTaskDeQueue t s =
    (if has (status s t) OS_TASK_STATUS_READY then
       let s = (if taskID (tcb s t) \<noteq> g_idleTaskID s
                then OsSchedPriQueueDelete t (priority (tcb s t)) s else s)
       in status_clear t OS_TASK_STATUS_READY s
     else s)"

definition OsGetTopTask :: "'a sched_state_scheme \<Rightarrow> nat" where
  "OsGetTopTask s =
    (if g_queueBitmap s \<noteq> 0 then LOS_DL_LIST_FIRST (pend s) (PriQ (CLZ (g_queueBitmap s)))
     else g_idleTaskID s)"

section \<open>Waking and waiting\<close>

definition OsSchedWakePendTimeTask ::
  "UINT64 \<Rightarrow> nat \<Rightarrow> bool \<Rightarrow> 'a sched_state_scheme \<Rightarrow> bool \<times> 'a sched_state_scheme" where
  "OsSchedWakePendTimeTask currTime t needSchedule s =
    (let tempStatus = status s t
     in if has tempStatus (OS_TASK_STATUS_PEND OR OS_TASK_STATUS_DELAY) then
          let s = status_clear t (OS_TASK_STATUS_PEND OR OS_TASK_STATUS_PEND_TIME OR OS_TASK_STATUS_DELAY) s;
              s = (if has tempStatus OS_TASK_STATUS_PEND then
                     let s = status_or t OS_TASK_STATUS_TIMEOUT s;
                         s = s\<lparr>pend := LOS_ListDelete t (pend s)\<rparr>
                     in upd_tcb t (\<lambda>c. c\<lparr>taskMux := None, taskSem := None\<rparr>) s
                   else s)
          in if \<not> has tempStatus OS_TASK_STATUS_SUSPEND
             then (True, OsSchedTaskEnQueue t s) else (needSchedule, s)
        else (needSchedule, s))"

lemma sched_frame_sortlink [simp]:
  "g_taskSortLink (upd_tcb t f s) = g_taskSortLink s"
  "g_taskSortLink (status_or t w s) = g_taskSortLink s"
  "g_taskSortLink (status_clear t w s) = g_taskSortLink s"
  "g_taskSortLink (LOS_ASSERT site b s) = g_taskSortLink s"
  "g_taskSortLink (set_prio_bit p s) = g_taskSortLink s"
  "g_taskSortLink (OsSchedTaskEnQueue t s) = g_taskSortLink s"
  "g_taskSortLink (snd (OsSchedWakePendTimeTask time t need s)) = g_taskSortLink s"
  by (simp_all add: upd_tcb_def status_or_def status_clear_def LOS_ASSERT_def set_prio_bit_def
      OsSchedTaskEnQueue_def OsSchedPriQueueEnHead_def OsSchedPriQueueEnTail_def
      OsSchedWakePendTimeTask_def Let_def)

text \<open>The loop takes the first node off as long as its time has come.\<close>

function scan_timer_list ::
  "UINT64 \<Rightarrow> bool \<Rightarrow> 'a sched_state_scheme \<Rightarrow> bool \<times> 'a sched_state_scheme" where
  "scan_timer_list currTime needSchedule s =
    (if sortLink (g_taskSortLink s) = [] then (needSchedule, s)
     else
       let t = hd (sortLink (g_taskSortLink s))
       in if responseTime (g_taskSortLink s) t \<le> currTime then
            let r = OsSchedWakePendTimeTask currTime t needSchedule
                      (s\<lparr>g_taskSortLink := OsDeleteNodeSortLink t (g_taskSortLink s)\<rparr>)
            in scan_timer_list currTime (fst r) (snd r)
          else (needSchedule, s))"
  by auto

termination
  by (relation "measure (\<lambda>(currTime, needSchedule, s). length (sortLink (g_taskSortLink s)))")
    (auto simp: length_remove1 case_prod_beta)

declare scan_timer_list.simps [simp del]

definition OsSchedScanTimerList :: "'a sched_state_scheme \<Rightarrow> bool \<times> 'a sched_state_scheme" where
  "OsSchedScanTimerList s =
    (if sortLink (g_taskSortLink s) = [] then (False, s)
     else let (currTime, s) = OsGetCurrSchedTimeCycle s in scan_timer_list currTime False s)"

definition OsSchedTaskExit :: "nat \<Rightarrow> 'a sched_state_scheme \<Rightarrow> 'a sched_state_scheme" where
  "OsSchedTaskExit t s =
    (let s = (if has (status s t) OS_TASK_STATUS_READY then OsSchedTaskDeQueue t s
              else if has (status s t) OS_TASK_STATUS_PEND
              then status_clear t OS_TASK_STATUS_PEND (s\<lparr>pend := LOS_ListDelete t (pend s)\<rparr>)
              else s)
     in if has (status s t) (OS_TASK_STATUS_DELAY OR OS_TASK_STATUS_PEND_TIME)
        then status_clear t (OS_TASK_STATUS_DELAY OR OS_TASK_STATUS_PEND_TIME)
               (OsDeleteSortLink t OS_SORT_LINK_TASK s)
        else s)"

definition OsSchedYield :: "'a sched_state_scheme \<Rightarrow> 'a sched_state_scheme" where
  "OsSchedYield s = upd_tcb (runTask s) (timeSlice_update (\<lambda>_. 0)) s"

definition OsSchedDelay :: "nat \<Rightarrow> UINT32 \<Rightarrow> 'a sched_state_scheme \<Rightarrow> 'a sched_state_scheme" where
  "OsSchedDelay t tick s =
    upd_tcb t (waitTimes_update (\<lambda>_. tick)) (status_or t OS_TASK_STATUS_DELAY s)"

definition OsSchedTaskWait :: "lhead \<Rightarrow> UINT32 \<Rightarrow> 'a sched_state_scheme \<Rightarrow> 'a sched_state_scheme" where
  "OsSchedTaskWait h ticks s =
    (let t = runTask s;
         s = status_or t OS_TASK_STATUS_PEND s;
         s = s\<lparr>pend := LOS_ListTailInsert h t (pend s)\<rparr>
     in if ticks \<noteq> LOS_WAIT_FOREVER
        then upd_tcb t (waitTimes_update (\<lambda>_. ticks)) (status_or t OS_TASK_STATUS_PEND_TIME s)
        else s)"

definition OsSchedTaskWake :: "nat \<Rightarrow> 'a sched_state_scheme \<Rightarrow> 'a sched_state_scheme" where
  "OsSchedTaskWake t s =
    (let s = s\<lparr>pend := LOS_ListDelete t (pend s)\<rparr>;
         s = status_clear t OS_TASK_STATUS_PEND s;
         s = (if has (status s t) OS_TASK_STATUS_PEND_TIME
              then status_clear t OS_TASK_STATUS_PEND_TIME (OsDeleteSortLink t OS_SORT_LINK_TASK s)
              else s)
     in if \<not> has (status s t) OS_TASK_STATUS_SUSPEND then OsSchedTaskEnQueue t s else s)"

definition OsSchedModifyTaskSchedParam ::
  "nat \<Rightarrow> nat \<Rightarrow> 'a sched_state_scheme \<Rightarrow> bool \<times> 'a sched_state_scheme" where
  "OsSchedModifyTaskSchedParam t p s =
    (if has (status s t) OS_TASK_STATUS_READY then
       let s = OsSchedTaskDeQueue t s;
           s = upd_tcb t (priority_update (\<lambda>_. p)) s
       in (True, OsSchedTaskEnQueue t s)
     else
       let s = upd_tcb t (priority_update (\<lambda>_. p)) s
       in (has (status s t) OS_TASK_STATUS_RUNNING, s))"

definition OsSchedSetIdleTaskSchedPartam :: "nat \<Rightarrow> 'a sched_state_scheme \<Rightarrow> 'a sched_state_scheme" where
  "OsSchedSetIdleTaskSchedPartam idleTask s = OsSchedTaskEnQueue idleTask s"

definition OsTaskNextSwitchTimeGet :: "'a sched_state_scheme \<Rightarrow> UINT32 \<times> 'a sched_state_scheme" where
  "OsTaskNextSwitchTimeGet s =
    (if sortLink (g_taskSortLink s) = [] then (0, s)
     else let (now, s) = OsGetCurrSchedTimeCycle s
          in (OsSortLinkGetNextExpireTime (cfg s) now (g_taskSortLink s), s))"

section \<open>Start, switch and tick\<close>

definition OsSchedInit :: "'a sched_state_scheme \<Rightarrow> 'a sched_state_scheme" where
  "OsSchedInit s =
    (let s = s\<lparr>pend := fold (\<lambda>pri. LOS_ListInit (PriQ pri)) [0..<OS_PRIORITY_QUEUE_NUM] (pend s)\<rparr>;
         s = s\<lparr>g_queueBitmap := 0\<rparr>
     in s\<lparr>g_taskSortLink := OsSortLinkInit (g_taskSortLink s),
          g_schedResponseTime := OS_SCHED_MAX_RESPONSE_TIME\<rparr>)"

definition OsSchedStart :: "'a sched_state_scheme \<Rightarrow> 'a sched_state_scheme" where
  "OsSchedStart s =
    (let t = OsGetTopTask s;
         s = status_or t OS_TASK_STATUS_RUNNING s;
         s = s\<lparr>newTask := t, runTask := t, g_taskScheduled := True\<rparr>;
         (now, s) = OsGetCurrSchedTimeCycle s;
         s = upd_tcb t (startTime_update (\<lambda>_. now)) s;
         s = OsSchedTaskDeQueue t s;
         s = s\<lparr>g_schedResponseTime := OS_SCHED_MAX_RESPONSE_TIME, g_schedResponseID := OS_INVALID\<rparr>
     in OsSchedSetNextExpireTime (startTime (tcb s t)) (taskID (tcb s t))
          (startTime (tcb s t) + scast (timeSlice (tcb s t))) s)"

definition OsSchedTaskSwitch :: "'a sched_state_scheme \<Rightarrow> bool \<times> 'a sched_state_scheme" where
  "OsSchedTaskSwitch s =
    (let run = runTask s;
         (now, s) = OsGetCurrSchedTimeCycle s;
         s = OsTimeSliceUpdate run now s;
         s = (if has (status s run) (OS_TASK_STATUS_PEND_TIME OR OS_TASK_STATUS_DELAY)
              then OsAdd2SortLink run (startTime (tcb s run)) (waitTimes (tcb s run)) OS_SORT_LINK_TASK s
              else if \<not> has (status s run)
                (OS_TASK_STATUS_PEND OR OS_TASK_STATUS_SUSPEND OR OS_TASK_STATUS_UNUSED)
              then OsSchedTaskEnQueue run s else s);
         new = OsGetTopTask s;
         s = s\<lparr>newTask := new\<rparr>;
         isTaskSwitch = (run \<noteq> new);
         s = (if isTaskSwitch then
                let s = status_clear run OS_TASK_STATUS_RUNNING s;
                    s = status_or new OS_TASK_STATUS_RUNNING s
                in upd_tcb new (startTime_update (\<lambda>_. startTime (tcb s run))) s
              else s);
         s = OsSchedTaskDeQueue new s;
         endTime = (if taskID (tcb s new) \<noteq> g_idleTaskID s
                    then startTime (tcb s new) + scast (timeSlice (tcb s new))
                    else OS_SCHED_MAX_RESPONSE_TIME)
     in (isTaskSwitch, OsSchedSetNextExpireTime (startTime (tcb s new)) (taskID (tcb s new)) endTime s))"

text \<open>\<open>HalPendSV\<close>: the switch, and the new task becomes the running one when it is another.\<close>

definition HalPendSV :: "'a sched_state_scheme \<Rightarrow> 'a sched_state_scheme" where
  "HalPendSV s =
    (let (switch, s) = OsSchedTaskSwitch (s\<lparr>pendSV := False\<rparr>)
     in if switch then s\<lparr>runTask := newTask s\<rparr> else s)"

definition HalTaskSchedule :: "'a sched_state_scheme \<Rightarrow> 'a sched_state_scheme" where
  "HalTaskSchedule s = s\<lparr>pendSV := True\<rparr>"

definition LOS_Schedule :: "'a sched_state_scheme \<Rightarrow> 'a sched_state_scheme" where
  "LOS_Schedule s = (if g_taskScheduled s \<and> g_losTaskLock s = 0 then HalTaskSchedule s else s)"

text \<open>
  The tick handler calls the scan of the software timers when one is registered
  (\<open>OsSchedSwtmrScanRegister\<close>); \<open>swtmrScan\<close> is that function.
\<close>

definition LOS_SchedTickHandler ::
  "('a sched_state_scheme \<Rightarrow> bool \<times> 'a sched_state_scheme) option \<Rightarrow>
   'a sched_state_scheme \<Rightarrow> 'a sched_state_scheme" where
  "LOS_SchedTickHandler swtmrScan s =
    (let s = LOS_ASSERT ASSERT_TICK_SCHEDULED (g_taskScheduled s) s;
         (needSched, s) =
           (if g_schedResponseID s = OS_INVALID then
              let (need, s) = (case swtmrScan of None \<Rightarrow> (False, s) | Some scan \<Rightarrow> scan s);
                  (need', s) = OsSchedScanTimerList s
              in (need \<or> need', s)
            else (False, s));
         s = s\<lparr>g_schedResponseTime := OS_SCHED_MAX_RESPONSE_TIME\<rparr>
     in if needSched \<and> g_losTaskLock s = 0 then HalTaskSchedule s
        else
          let (currTime, s) = OsGetCurrSchedTimeCycle s;
              s = OsTimeSliceUpdate (runTask s) currTime s
          in OsSchedUpdateExpireTime currTime s)"

end
