(* ===== verification/Sched_Inv.thy ===== *)
theory Sched_Inv
  imports Sched
begin

text \<open>
  The invariant of the scheduler. For every task the lists it is on, the sort link and the
  flags of its \<open>taskStatus\<close> agree (\<open>task_ok\<close>); the lists and the priority bitmap are
  well-formed (\<open>lists_ok\<close>); and the running task, and only it, has the \<open>RUNNING\<close> flag. Each
  primitive of \<open>los_sched.c\<close> keeps the invariant of every task but the one it moves
  (\<open>core_ex\<close>), and an operation re-establishes it for that task.
\<close>

section \<open>What an operation leaves alone\<close>

lemma frame_upd_tcb [simp]:
  "cfg (upd_tcb t f s) = cfg s"
  "g_taskMaxNum (upd_tcb t f s) = g_taskMaxNum s"
  "g_idleTaskID (upd_tcb t f s) = g_idleTaskID s"
  "g_swtmrTaskID (upd_tcb t f s) = g_swtmrTaskID s"
  "runTask (upd_tcb t f s) = runTask s"
  "g_taskScheduled (upd_tcb t f s) = g_taskScheduled s"
  "g_losTaskLock (upd_tcb t f s) = g_losTaskLock s"
  "OS_INT_ACTIVE (upd_tcb t f s) = OS_INT_ACTIVE s"
  "g_swtmrSortLink (upd_tcb t f s) = g_swtmrSortLink s"
  "sched_state.more (upd_tcb t f s) = sched_state.more s"
  by (simp_all add: upd_tcb_def)

lemma frame_status_or [simp]:
  "cfg (status_or t w s) = cfg s"
  "g_taskMaxNum (status_or t w s) = g_taskMaxNum s"
  "g_idleTaskID (status_or t w s) = g_idleTaskID s"
  "g_swtmrTaskID (status_or t w s) = g_swtmrTaskID s"
  "runTask (status_or t w s) = runTask s"
  "g_taskScheduled (status_or t w s) = g_taskScheduled s"
  "g_losTaskLock (status_or t w s) = g_losTaskLock s"
  "OS_INT_ACTIVE (status_or t w s) = OS_INT_ACTIVE s"
  "g_swtmrSortLink (status_or t w s) = g_swtmrSortLink s"
  "sched_state.more (status_or t w s) = sched_state.more s"
  by (simp_all add: status_or_def)

lemma frame_status_clear [simp]:
  "cfg (status_clear t w s) = cfg s"
  "g_taskMaxNum (status_clear t w s) = g_taskMaxNum s"
  "g_idleTaskID (status_clear t w s) = g_idleTaskID s"
  "g_swtmrTaskID (status_clear t w s) = g_swtmrTaskID s"
  "runTask (status_clear t w s) = runTask s"
  "g_taskScheduled (status_clear t w s) = g_taskScheduled s"
  "g_losTaskLock (status_clear t w s) = g_losTaskLock s"
  "OS_INT_ACTIVE (status_clear t w s) = OS_INT_ACTIVE s"
  "g_swtmrSortLink (status_clear t w s) = g_swtmrSortLink s"
  "sched_state.more (status_clear t w s) = sched_state.more s"
  by (simp_all add: status_clear_def)

lemma frame_LOS_ASSERT [simp]:
  "cfg (LOS_ASSERT site b s) = cfg s"
  "g_taskMaxNum (LOS_ASSERT site b s) = g_taskMaxNum s"
  "g_idleTaskID (LOS_ASSERT site b s) = g_idleTaskID s"
  "g_swtmrTaskID (LOS_ASSERT site b s) = g_swtmrTaskID s"
  "runTask (LOS_ASSERT site b s) = runTask s"
  "g_taskScheduled (LOS_ASSERT site b s) = g_taskScheduled s"
  "g_losTaskLock (LOS_ASSERT site b s) = g_losTaskLock s"
  "OS_INT_ACTIVE (LOS_ASSERT site b s) = OS_INT_ACTIVE s"
  "g_swtmrSortLink (LOS_ASSERT site b s) = g_swtmrSortLink s"
  "sched_state.more (LOS_ASSERT site b s) = sched_state.more s"
  by (simp_all add: LOS_ASSERT_def)

lemma frame_set_prio_bit [simp]:
  "cfg (set_prio_bit p s) = cfg s"
  "g_taskMaxNum (set_prio_bit p s) = g_taskMaxNum s"
  "g_idleTaskID (set_prio_bit p s) = g_idleTaskID s"
  "g_swtmrTaskID (set_prio_bit p s) = g_swtmrTaskID s"
  "runTask (set_prio_bit p s) = runTask s"
  "g_taskScheduled (set_prio_bit p s) = g_taskScheduled s"
  "g_losTaskLock (set_prio_bit p s) = g_losTaskLock s"
  "OS_INT_ACTIVE (set_prio_bit p s) = OS_INT_ACTIVE s"
  "g_swtmrSortLink (set_prio_bit p s) = g_swtmrSortLink s"
  "sched_state.more (set_prio_bit p s) = sched_state.more s"
  by (simp_all add: set_prio_bit_def)

lemma frame_EnHead [simp]:
  "cfg (OsSchedPriQueueEnHead t p s) = cfg s"
  "g_taskMaxNum (OsSchedPriQueueEnHead t p s) = g_taskMaxNum s"
  "g_idleTaskID (OsSchedPriQueueEnHead t p s) = g_idleTaskID s"
  "g_swtmrTaskID (OsSchedPriQueueEnHead t p s) = g_swtmrTaskID s"
  "runTask (OsSchedPriQueueEnHead t p s) = runTask s"
  "g_taskScheduled (OsSchedPriQueueEnHead t p s) = g_taskScheduled s"
  "g_losTaskLock (OsSchedPriQueueEnHead t p s) = g_losTaskLock s"
  "OS_INT_ACTIVE (OsSchedPriQueueEnHead t p s) = OS_INT_ACTIVE s"
  "g_swtmrSortLink (OsSchedPriQueueEnHead t p s) = g_swtmrSortLink s"
  "sched_state.more (OsSchedPriQueueEnHead t p s) = sched_state.more s"
  by (simp_all add: OsSchedPriQueueEnHead_def Let_def)

lemma frame_EnTail [simp]:
  "cfg (OsSchedPriQueueEnTail t p s) = cfg s"
  "g_taskMaxNum (OsSchedPriQueueEnTail t p s) = g_taskMaxNum s"
  "g_idleTaskID (OsSchedPriQueueEnTail t p s) = g_idleTaskID s"
  "g_swtmrTaskID (OsSchedPriQueueEnTail t p s) = g_swtmrTaskID s"
  "runTask (OsSchedPriQueueEnTail t p s) = runTask s"
  "g_taskScheduled (OsSchedPriQueueEnTail t p s) = g_taskScheduled s"
  "g_losTaskLock (OsSchedPriQueueEnTail t p s) = g_losTaskLock s"
  "OS_INT_ACTIVE (OsSchedPriQueueEnTail t p s) = OS_INT_ACTIVE s"
  "g_swtmrSortLink (OsSchedPriQueueEnTail t p s) = g_swtmrSortLink s"
  "sched_state.more (OsSchedPriQueueEnTail t p s) = sched_state.more s"
  by (simp_all add: OsSchedPriQueueEnTail_def Let_def)

lemma frame_PriQueueDelete [simp]:
  "cfg (OsSchedPriQueueDelete t p s) = cfg s"
  "g_taskMaxNum (OsSchedPriQueueDelete t p s) = g_taskMaxNum s"
  "g_idleTaskID (OsSchedPriQueueDelete t p s) = g_idleTaskID s"
  "g_swtmrTaskID (OsSchedPriQueueDelete t p s) = g_swtmrTaskID s"
  "runTask (OsSchedPriQueueDelete t p s) = runTask s"
  "g_taskScheduled (OsSchedPriQueueDelete t p s) = g_taskScheduled s"
  "g_losTaskLock (OsSchedPriQueueDelete t p s) = g_losTaskLock s"
  "OS_INT_ACTIVE (OsSchedPriQueueDelete t p s) = OS_INT_ACTIVE s"
  "g_swtmrSortLink (OsSchedPriQueueDelete t p s) = g_swtmrSortLink s"
  "sched_state.more (OsSchedPriQueueDelete t p s) = sched_state.more s"
  by (simp_all add: OsSchedPriQueueDelete_def Let_def)

lemma frame_EnQueue [simp]:
  "cfg (OsSchedTaskEnQueue t s) = cfg s"
  "g_taskMaxNum (OsSchedTaskEnQueue t s) = g_taskMaxNum s"
  "g_idleTaskID (OsSchedTaskEnQueue t s) = g_idleTaskID s"
  "g_swtmrTaskID (OsSchedTaskEnQueue t s) = g_swtmrTaskID s"
  "runTask (OsSchedTaskEnQueue t s) = runTask s"
  "g_taskScheduled (OsSchedTaskEnQueue t s) = g_taskScheduled s"
  "g_losTaskLock (OsSchedTaskEnQueue t s) = g_losTaskLock s"
  "OS_INT_ACTIVE (OsSchedTaskEnQueue t s) = OS_INT_ACTIVE s"
  "g_swtmrSortLink (OsSchedTaskEnQueue t s) = g_swtmrSortLink s"
  "sched_state.more (OsSchedTaskEnQueue t s) = sched_state.more s"
  by (simp_all add: OsSchedTaskEnQueue_def OsSchedPriQueueEnHead_def OsSchedPriQueueEnTail_def Let_def)

lemma frame_DeQueue [simp]:
  "cfg (OsSchedTaskDeQueue t s) = cfg s"
  "g_taskMaxNum (OsSchedTaskDeQueue t s) = g_taskMaxNum s"
  "g_idleTaskID (OsSchedTaskDeQueue t s) = g_idleTaskID s"
  "g_swtmrTaskID (OsSchedTaskDeQueue t s) = g_swtmrTaskID s"
  "runTask (OsSchedTaskDeQueue t s) = runTask s"
  "g_taskScheduled (OsSchedTaskDeQueue t s) = g_taskScheduled s"
  "g_losTaskLock (OsSchedTaskDeQueue t s) = g_losTaskLock s"
  "OS_INT_ACTIVE (OsSchedTaskDeQueue t s) = OS_INT_ACTIVE s"
  "g_swtmrSortLink (OsSchedTaskDeQueue t s) = g_swtmrSortLink s"
  "sched_state.more (OsSchedTaskDeQueue t s) = sched_state.more s"
  by (simp_all add: OsSchedTaskDeQueue_def Let_def)

lemma frame_DeleteSortLink [simp]:
  "cfg (OsDeleteSortLink t OS_SORT_LINK_TASK s) = cfg s"
  "g_taskMaxNum (OsDeleteSortLink t OS_SORT_LINK_TASK s) = g_taskMaxNum s"
  "g_idleTaskID (OsDeleteSortLink t OS_SORT_LINK_TASK s) = g_idleTaskID s"
  "g_swtmrTaskID (OsDeleteSortLink t OS_SORT_LINK_TASK s) = g_swtmrTaskID s"
  "runTask (OsDeleteSortLink t OS_SORT_LINK_TASK s) = runTask s"
  "g_taskScheduled (OsDeleteSortLink t OS_SORT_LINK_TASK s) = g_taskScheduled s"
  "g_losTaskLock (OsDeleteSortLink t OS_SORT_LINK_TASK s) = g_losTaskLock s"
  "OS_INT_ACTIVE (OsDeleteSortLink t OS_SORT_LINK_TASK s) = OS_INT_ACTIVE s"
  "g_swtmrSortLink (OsDeleteSortLink t OS_SORT_LINK_TASK s) = g_swtmrSortLink s"
  "sched_state.more (OsDeleteSortLink t OS_SORT_LINK_TASK s) = sched_state.more s"
  by (simp_all add: OsDeleteSortLink_def upd_sortlink_def)

lemma frame_Add2SortLink [simp]:
  "cfg (OsAdd2SortLink t start ticks OS_SORT_LINK_TASK s) = cfg s"
  "g_taskMaxNum (OsAdd2SortLink t start ticks OS_SORT_LINK_TASK s) = g_taskMaxNum s"
  "g_idleTaskID (OsAdd2SortLink t start ticks OS_SORT_LINK_TASK s) = g_idleTaskID s"
  "g_swtmrTaskID (OsAdd2SortLink t start ticks OS_SORT_LINK_TASK s) = g_swtmrTaskID s"
  "runTask (OsAdd2SortLink t start ticks OS_SORT_LINK_TASK s) = runTask s"
  "g_taskScheduled (OsAdd2SortLink t start ticks OS_SORT_LINK_TASK s) = g_taskScheduled s"
  "g_losTaskLock (OsAdd2SortLink t start ticks OS_SORT_LINK_TASK s) = g_losTaskLock s"
  "OS_INT_ACTIVE (OsAdd2SortLink t start ticks OS_SORT_LINK_TASK s) = OS_INT_ACTIVE s"
  "g_swtmrSortLink (OsAdd2SortLink t start ticks OS_SORT_LINK_TASK s) = g_swtmrSortLink s"
  "sched_state.more (OsAdd2SortLink t start ticks OS_SORT_LINK_TASK s) = sched_state.more s"
  by (simp_all add: OsAdd2SortLink_def upd_sortlink_def)

lemma frame_CurrTime [simp]:
  "cfg (snd (OsGetCurrSchedTimeCycle s)) = cfg s"
  "g_taskMaxNum (snd (OsGetCurrSchedTimeCycle s)) = g_taskMaxNum s"
  "g_idleTaskID (snd (OsGetCurrSchedTimeCycle s)) = g_idleTaskID s"
  "g_swtmrTaskID (snd (OsGetCurrSchedTimeCycle s)) = g_swtmrTaskID s"
  "runTask (snd (OsGetCurrSchedTimeCycle s)) = runTask s"
  "g_taskScheduled (snd (OsGetCurrSchedTimeCycle s)) = g_taskScheduled s"
  "g_losTaskLock (snd (OsGetCurrSchedTimeCycle s)) = g_losTaskLock s"
  "OS_INT_ACTIVE (snd (OsGetCurrSchedTimeCycle s)) = OS_INT_ACTIVE s"
  "g_swtmrSortLink (snd (OsGetCurrSchedTimeCycle s)) = g_swtmrSortLink s"
  "sched_state.more (snd (OsGetCurrSchedTimeCycle s)) = sched_state.more s"
  by (simp_all add: OsGetCurrSchedTimeCycle_def HalGetTickCycle_def Let_def)

lemma frame_TimeSliceUpdate [simp]:
  "cfg (OsTimeSliceUpdate t time s) = cfg s"
  "g_taskMaxNum (OsTimeSliceUpdate t time s) = g_taskMaxNum s"
  "g_idleTaskID (OsTimeSliceUpdate t time s) = g_idleTaskID s"
  "g_swtmrTaskID (OsTimeSliceUpdate t time s) = g_swtmrTaskID s"
  "runTask (OsTimeSliceUpdate t time s) = runTask s"
  "g_taskScheduled (OsTimeSliceUpdate t time s) = g_taskScheduled s"
  "g_losTaskLock (OsTimeSliceUpdate t time s) = g_losTaskLock s"
  "OS_INT_ACTIVE (OsTimeSliceUpdate t time s) = OS_INT_ACTIVE s"
  "g_swtmrSortLink (OsTimeSliceUpdate t time s) = g_swtmrSortLink s"
  "sched_state.more (OsTimeSliceUpdate t time s) = sched_state.more s"
  by (simp_all add: OsTimeSliceUpdate_def Let_def)

lemma frame_SetNextExpireTime [simp]:
  "cfg (OsSchedSetNextExpireTime start rid endt s) = cfg s"
  "g_taskMaxNum (OsSchedSetNextExpireTime start rid endt s) = g_taskMaxNum s"
  "g_idleTaskID (OsSchedSetNextExpireTime start rid endt s) = g_idleTaskID s"
  "g_swtmrTaskID (OsSchedSetNextExpireTime start rid endt s) = g_swtmrTaskID s"
  "runTask (OsSchedSetNextExpireTime start rid endt s) = runTask s"
  "g_taskScheduled (OsSchedSetNextExpireTime start rid endt s) = g_taskScheduled s"
  "g_losTaskLock (OsSchedSetNextExpireTime start rid endt s) = g_losTaskLock s"
  "OS_INT_ACTIVE (OsSchedSetNextExpireTime start rid endt s) = OS_INT_ACTIVE s"
  "g_swtmrSortLink (OsSchedSetNextExpireTime start rid endt s) = g_swtmrSortLink s"
  "sched_state.more (OsSchedSetNextExpireTime start rid endt s) = sched_state.more s"
  by (simp_all add: OsSchedSetNextExpireTime_def HalSysTickReload_def Let_def case_prod_beta)

lemma frame_UpdateExpireTime [simp]:
  "cfg (OsSchedUpdateExpireTime start s) = cfg s"
  "g_taskMaxNum (OsSchedUpdateExpireTime start s) = g_taskMaxNum s"
  "g_idleTaskID (OsSchedUpdateExpireTime start s) = g_idleTaskID s"
  "g_swtmrTaskID (OsSchedUpdateExpireTime start s) = g_swtmrTaskID s"
  "runTask (OsSchedUpdateExpireTime start s) = runTask s"
  "g_taskScheduled (OsSchedUpdateExpireTime start s) = g_taskScheduled s"
  "g_losTaskLock (OsSchedUpdateExpireTime start s) = g_losTaskLock s"
  "OS_INT_ACTIVE (OsSchedUpdateExpireTime start s) = OS_INT_ACTIVE s"
  "g_swtmrSortLink (OsSchedUpdateExpireTime start s) = g_swtmrSortLink s"
  "sched_state.more (OsSchedUpdateExpireTime start s) = sched_state.more s"
  by (simp_all add: OsSchedUpdateExpireTime_def Let_def)

lemma frame_WakePendTime [simp]:
  "cfg (snd (OsSchedWakePendTimeTask time t need s)) = cfg s"
  "g_taskMaxNum (snd (OsSchedWakePendTimeTask time t need s)) = g_taskMaxNum s"
  "g_idleTaskID (snd (OsSchedWakePendTimeTask time t need s)) = g_idleTaskID s"
  "g_swtmrTaskID (snd (OsSchedWakePendTimeTask time t need s)) = g_swtmrTaskID s"
  "runTask (snd (OsSchedWakePendTimeTask time t need s)) = runTask s"
  "g_taskScheduled (snd (OsSchedWakePendTimeTask time t need s)) = g_taskScheduled s"
  "g_losTaskLock (snd (OsSchedWakePendTimeTask time t need s)) = g_losTaskLock s"
  "OS_INT_ACTIVE (snd (OsSchedWakePendTimeTask time t need s)) = OS_INT_ACTIVE s"
  "g_swtmrSortLink (snd (OsSchedWakePendTimeTask time t need s)) = g_swtmrSortLink s"
  "sched_state.more (snd (OsSchedWakePendTimeTask time t need s)) = sched_state.more s"
  by (simp_all add: OsSchedWakePendTimeTask_def Let_def)

lemma frame_scan [simp]:
  "cfg (snd (scan_timer_list time need s)) = cfg s"
  "g_taskMaxNum (snd (scan_timer_list time need s)) = g_taskMaxNum s"
  "g_idleTaskID (snd (scan_timer_list time need s)) = g_idleTaskID s"
  "g_swtmrTaskID (snd (scan_timer_list time need s)) = g_swtmrTaskID s"
  "runTask (snd (scan_timer_list time need s)) = runTask s"
  "g_taskScheduled (snd (scan_timer_list time need s)) = g_taskScheduled s"
  "g_losTaskLock (snd (scan_timer_list time need s)) = g_losTaskLock s"
  "OS_INT_ACTIVE (snd (scan_timer_list time need s)) = OS_INT_ACTIVE s"
  "g_swtmrSortLink (snd (scan_timer_list time need s)) = g_swtmrSortLink s"
  "sched_state.more (snd (scan_timer_list time need s)) = sched_state.more s"
  by (induction time need s rule: scan_timer_list.induct; subst scan_timer_list.simps; simp add: Let_def)+

lemma frame_ScanTimerList [simp]:
  "cfg (snd (OsSchedScanTimerList s)) = cfg s"
  "g_taskMaxNum (snd (OsSchedScanTimerList s)) = g_taskMaxNum s"
  "g_idleTaskID (snd (OsSchedScanTimerList s)) = g_idleTaskID s"
  "g_swtmrTaskID (snd (OsSchedScanTimerList s)) = g_swtmrTaskID s"
  "runTask (snd (OsSchedScanTimerList s)) = runTask s"
  "g_taskScheduled (snd (OsSchedScanTimerList s)) = g_taskScheduled s"
  "g_losTaskLock (snd (OsSchedScanTimerList s)) = g_losTaskLock s"
  "OS_INT_ACTIVE (snd (OsSchedScanTimerList s)) = OS_INT_ACTIVE s"
  "g_swtmrSortLink (snd (OsSchedScanTimerList s)) = g_swtmrSortLink s"
  "sched_state.more (snd (OsSchedScanTimerList s)) = sched_state.more s"
  by (simp_all add: OsSchedScanTimerList_def case_prod_beta)

lemma frame_TaskExit [simp]:
  "cfg (OsSchedTaskExit t s) = cfg s"
  "g_taskMaxNum (OsSchedTaskExit t s) = g_taskMaxNum s"
  "g_idleTaskID (OsSchedTaskExit t s) = g_idleTaskID s"
  "g_swtmrTaskID (OsSchedTaskExit t s) = g_swtmrTaskID s"
  "runTask (OsSchedTaskExit t s) = runTask s"
  "g_taskScheduled (OsSchedTaskExit t s) = g_taskScheduled s"
  "g_losTaskLock (OsSchedTaskExit t s) = g_losTaskLock s"
  "OS_INT_ACTIVE (OsSchedTaskExit t s) = OS_INT_ACTIVE s"
  "g_swtmrSortLink (OsSchedTaskExit t s) = g_swtmrSortLink s"
  "sched_state.more (OsSchedTaskExit t s) = sched_state.more s"
  by (simp_all add: OsSchedTaskExit_def Let_def)

lemma frame_Yield [simp]:
  "cfg (OsSchedYield s) = cfg s"
  "g_taskMaxNum (OsSchedYield s) = g_taskMaxNum s"
  "g_idleTaskID (OsSchedYield s) = g_idleTaskID s"
  "g_swtmrTaskID (OsSchedYield s) = g_swtmrTaskID s"
  "runTask (OsSchedYield s) = runTask s"
  "g_taskScheduled (OsSchedYield s) = g_taskScheduled s"
  "g_losTaskLock (OsSchedYield s) = g_losTaskLock s"
  "OS_INT_ACTIVE (OsSchedYield s) = OS_INT_ACTIVE s"
  "g_swtmrSortLink (OsSchedYield s) = g_swtmrSortLink s"
  "sched_state.more (OsSchedYield s) = sched_state.more s"
  by (simp_all add: OsSchedYield_def)

lemma frame_Delay [simp]:
  "cfg (OsSchedDelay t tick s) = cfg s"
  "g_taskMaxNum (OsSchedDelay t tick s) = g_taskMaxNum s"
  "g_idleTaskID (OsSchedDelay t tick s) = g_idleTaskID s"
  "g_swtmrTaskID (OsSchedDelay t tick s) = g_swtmrTaskID s"
  "runTask (OsSchedDelay t tick s) = runTask s"
  "g_taskScheduled (OsSchedDelay t tick s) = g_taskScheduled s"
  "g_losTaskLock (OsSchedDelay t tick s) = g_losTaskLock s"
  "OS_INT_ACTIVE (OsSchedDelay t tick s) = OS_INT_ACTIVE s"
  "g_swtmrSortLink (OsSchedDelay t tick s) = g_swtmrSortLink s"
  "sched_state.more (OsSchedDelay t tick s) = sched_state.more s"
  by (simp_all add: OsSchedDelay_def)

lemma frame_Wait [simp]:
  "cfg (OsSchedTaskWait h ticks s) = cfg s"
  "g_taskMaxNum (OsSchedTaskWait h ticks s) = g_taskMaxNum s"
  "g_idleTaskID (OsSchedTaskWait h ticks s) = g_idleTaskID s"
  "g_swtmrTaskID (OsSchedTaskWait h ticks s) = g_swtmrTaskID s"
  "runTask (OsSchedTaskWait h ticks s) = runTask s"
  "g_taskScheduled (OsSchedTaskWait h ticks s) = g_taskScheduled s"
  "g_losTaskLock (OsSchedTaskWait h ticks s) = g_losTaskLock s"
  "OS_INT_ACTIVE (OsSchedTaskWait h ticks s) = OS_INT_ACTIVE s"
  "g_swtmrSortLink (OsSchedTaskWait h ticks s) = g_swtmrSortLink s"
  "sched_state.more (OsSchedTaskWait h ticks s) = sched_state.more s"
  by (simp_all add: OsSchedTaskWait_def Let_def)

lemma frame_Wake [simp]:
  "cfg (OsSchedTaskWake t s) = cfg s"
  "g_taskMaxNum (OsSchedTaskWake t s) = g_taskMaxNum s"
  "g_idleTaskID (OsSchedTaskWake t s) = g_idleTaskID s"
  "g_swtmrTaskID (OsSchedTaskWake t s) = g_swtmrTaskID s"
  "runTask (OsSchedTaskWake t s) = runTask s"
  "g_taskScheduled (OsSchedTaskWake t s) = g_taskScheduled s"
  "g_losTaskLock (OsSchedTaskWake t s) = g_losTaskLock s"
  "OS_INT_ACTIVE (OsSchedTaskWake t s) = OS_INT_ACTIVE s"
  "g_swtmrSortLink (OsSchedTaskWake t s) = g_swtmrSortLink s"
  "sched_state.more (OsSchedTaskWake t s) = sched_state.more s"
  by (simp_all add: OsSchedTaskWake_def Let_def)

lemma frame_Modify [simp]:
  "cfg (snd (OsSchedModifyTaskSchedParam t p s)) = cfg s"
  "g_taskMaxNum (snd (OsSchedModifyTaskSchedParam t p s)) = g_taskMaxNum s"
  "g_idleTaskID (snd (OsSchedModifyTaskSchedParam t p s)) = g_idleTaskID s"
  "g_swtmrTaskID (snd (OsSchedModifyTaskSchedParam t p s)) = g_swtmrTaskID s"
  "runTask (snd (OsSchedModifyTaskSchedParam t p s)) = runTask s"
  "g_taskScheduled (snd (OsSchedModifyTaskSchedParam t p s)) = g_taskScheduled s"
  "g_losTaskLock (snd (OsSchedModifyTaskSchedParam t p s)) = g_losTaskLock s"
  "OS_INT_ACTIVE (snd (OsSchedModifyTaskSchedParam t p s)) = OS_INT_ACTIVE s"
  "g_swtmrSortLink (snd (OsSchedModifyTaskSchedParam t p s)) = g_swtmrSortLink s"
  "sched_state.more (snd (OsSchedModifyTaskSchedParam t p s)) = sched_state.more s"
  by (simp_all add: OsSchedModifyTaskSchedParam_def Let_def)

lemma frame_TaskSwitch [simp]:
  "cfg (snd (OsSchedTaskSwitch s)) = cfg s"
  "g_taskMaxNum (snd (OsSchedTaskSwitch s)) = g_taskMaxNum s"
  "g_idleTaskID (snd (OsSchedTaskSwitch s)) = g_idleTaskID s"
  "g_swtmrTaskID (snd (OsSchedTaskSwitch s)) = g_swtmrTaskID s"
  "runTask (snd (OsSchedTaskSwitch s)) = runTask s"
  "g_taskScheduled (snd (OsSchedTaskSwitch s)) = g_taskScheduled s"
  "g_losTaskLock (snd (OsSchedTaskSwitch s)) = g_losTaskLock s"
  "OS_INT_ACTIVE (snd (OsSchedTaskSwitch s)) = OS_INT_ACTIVE s"
  "g_swtmrSortLink (snd (OsSchedTaskSwitch s)) = g_swtmrSortLink s"
  "sched_state.more (snd (OsSchedTaskSwitch s)) = sched_state.more s"
  by (simp_all add: OsSchedTaskSwitch_def Let_def case_prod_beta)

lemma frame_HalTaskSchedule [simp]:
  "cfg (HalTaskSchedule s) = cfg s"
  "g_taskMaxNum (HalTaskSchedule s) = g_taskMaxNum s"
  "g_idleTaskID (HalTaskSchedule s) = g_idleTaskID s"
  "g_swtmrTaskID (HalTaskSchedule s) = g_swtmrTaskID s"
  "runTask (HalTaskSchedule s) = runTask s"
  "g_taskScheduled (HalTaskSchedule s) = g_taskScheduled s"
  "g_losTaskLock (HalTaskSchedule s) = g_losTaskLock s"
  "OS_INT_ACTIVE (HalTaskSchedule s) = OS_INT_ACTIVE s"
  "g_swtmrSortLink (HalTaskSchedule s) = g_swtmrSortLink s"
  "sched_state.more (HalTaskSchedule s) = sched_state.more s"
  by (simp_all add: HalTaskSchedule_def)

lemma frame_Schedule [simp]:
  "cfg (LOS_Schedule s) = cfg s"
  "g_taskMaxNum (LOS_Schedule s) = g_taskMaxNum s"
  "g_idleTaskID (LOS_Schedule s) = g_idleTaskID s"
  "g_swtmrTaskID (LOS_Schedule s) = g_swtmrTaskID s"
  "runTask (LOS_Schedule s) = runTask s"
  "g_taskScheduled (LOS_Schedule s) = g_taskScheduled s"
  "g_losTaskLock (LOS_Schedule s) = g_losTaskLock s"
  "OS_INT_ACTIVE (LOS_Schedule s) = OS_INT_ACTIVE s"
  "g_swtmrSortLink (LOS_Schedule s) = g_swtmrSortLink s"
  "sched_state.more (LOS_Schedule s) = sched_state.more s"
  by (simp_all add: LOS_Schedule_def)

lemma frame_HalPendSV [simp]:
  "cfg (HalPendSV s) = cfg s"
  "g_taskMaxNum (HalPendSV s) = g_taskMaxNum s"
  "g_idleTaskID (HalPendSV s) = g_idleTaskID s"
  "g_swtmrTaskID (HalPendSV s) = g_swtmrTaskID s"
  "g_taskScheduled (HalPendSV s) = g_taskScheduled s"
  "g_losTaskLock (HalPendSV s) = g_losTaskLock s"
  "OS_INT_ACTIVE (HalPendSV s) = OS_INT_ACTIVE s"
  "g_swtmrSortLink (HalPendSV s) = g_swtmrSortLink s"
  "sched_state.more (HalPendSV s) = sched_state.more s"
  by (simp_all add: HalPendSV_def case_prod_beta Let_def)


section \<open>The invariant\<close>

definition is_wait :: "lhead \<Rightarrow> bool" where
  "is_wait h \<longleftrightarrow> (case h of PriQ _ \<Rightarrow> False | FreeTask \<Rightarrow> False | RecycleTask \<Rightarrow> False | _ \<Rightarrow> True)"

lemma is_wait_simps [simp]:
  "\<not> is_wait (PriQ p)" "\<not> is_wait FreeTask" "\<not> is_wait RecycleTask"
  "is_wait (SemWait i)" "is_wait (MuxWait i)" "is_wait (EventWait i)"
  "is_wait (QueueReadWait i)" "is_wait (QueueWriteWait i)" "is_wait (QueueMemWait i)"
  by (simp_all add: is_wait_def)

definition on :: "'a sched_state_scheme \<Rightarrow> nat \<Rightarrow> lhead \<Rightarrow> bool" where
  "on s t h \<longleftrightarrow> t \<in> set (pend s h)"

definition timed :: "'a sched_state_scheme \<Rightarrow> nat \<Rightarrow> bool" where
  "timed s t \<longleftrightarrow> t \<in> set (sortLink (g_taskSortLink s))"

abbreviation expiry :: "'a sched_state_scheme \<Rightarrow> nat \<Rightarrow> UINT64" where
  "expiry s t \<equiv> responseTime (g_taskSortLink s) t"

text \<open>Which flags a status word can hold together.\<close>

definition flags_ok :: "UINT16 \<Rightarrow> bool" where
  "flags_ok w \<longleftrightarrow>
    (has w OS_TASK_STATUS_UNUSED \<longrightarrow> \<not> has w (OS_TASK_STATUS_READY OR OS_TASK_STATUS_PEND OR
       OS_TASK_STATUS_DELAY OR OS_TASK_STATUS_SUSPEND OR OS_TASK_STATUS_PEND_TIME)) \<and>
    (has w OS_TASK_STATUS_READY \<longrightarrow> \<not> has w (OS_TASK_STATUS_PEND OR OS_TASK_STATUS_DELAY OR
       OS_TASK_STATUS_SUSPEND OR OS_TASK_STATUS_PEND_TIME)) \<and>
    (has w OS_TASK_STATUS_PEND \<longrightarrow> \<not> has w OS_TASK_STATUS_DELAY) \<and>
    (has w OS_TASK_STATUS_PEND_TIME \<longrightarrow> has w OS_TASK_STATUS_PEND)"

text \<open>
  A task agrees with the lists. The tasks of \<open>R\<close> (the running one) are not on the sort link
  even when their flags say they wait with a timeout: they are put there by the switch.
\<close>

definition task_ok :: "nat set \<Rightarrow> 'a sched_state_scheme \<Rightarrow> nat \<Rightarrow> bool" where
  "task_ok R s t \<longleftrightarrow>
    (if t < g_taskMaxNum s then
       taskID (tcb s t) = t \<and>
       (\<forall>p. on s t (PriQ p) \<longleftrightarrow>
          has (status s t) OS_TASK_STATUS_READY \<and> priority (tcb s t) = p \<and> t \<noteq> g_idleTaskID s) \<and>
       (on s t FreeTask \<or> on s t RecycleTask \<longleftrightarrow> has (status s t) OS_TASK_STATUS_UNUSED) \<and>
       ((\<exists>h. is_wait h \<and> on s t h) \<longleftrightarrow> has (status s t) OS_TASK_STATUS_PEND) \<and>
       (timed s t \<longleftrightarrow> has (status s t) (OS_TASK_STATUS_DELAY OR OS_TASK_STATUS_PEND_TIME) \<and> t \<notin> R) \<and>
       (has (status s t) OS_TASK_STATUS_UNUSED \<or> timed s t \<or> expiry s t = OS_SORT_LINK_INVALID_TIME) \<and>
       (has (status s t) OS_TASK_STATUS_UNUSED \<or> priority (tcb s t) < OS_PRIORITY_QUEUE_NUM) \<and>
       flags_ok (status s t AND NOT OS_TASK_STATUS_RUNNING) \<and>
       (has (status s t) OS_TASK_STATUS_READY \<and> t \<noteq> g_idleTaskID s \<longrightarrow>
          OS_TIME_SLICE_MIN (cfg s) <s timeSlice (tcb s t)) \<and>
       (t = g_idleTaskID s \<longrightarrow> \<not> has (status s t) (OS_TASK_STATUS_UNUSED OR OS_TASK_STATUS_PEND OR
          OS_TASK_STATUS_DELAY OR OS_TASK_STATUS_SUSPEND))
     else
       (\<forall>h. \<not> on s t h) \<and> \<not> timed s t \<and>
       (t = g_taskMaxNum s \<longrightarrow> has (status s t) OS_TASK_STATUS_UNUSED \<and>
          \<not> has (status s t) (OS_TASK_STATUS_READY OR OS_TASK_STATUS_DELAY OR OS_TASK_STATUS_PEND_TIME) \<and>
          taskID (tcb s t) \<noteq> g_idleTaskID s))"

definition lists_ok :: "'a sched_state_scheme \<Rightarrow> bool" where
  "lists_ok s \<longleftrightarrow> store_ok (pend s) \<and> sortlinks_ok s \<and>
    (\<forall>n<OS_PRIORITY_QUEUE_NUM. bit (g_queueBitmap s) (31 - n) \<longleftrightarrow> pend s (PriQ n) \<noteq> [])"

definition globals_ok :: "'a sched_state_scheme \<Rightarrow> bool" where
  "globals_ok s \<longleftrightarrow> config_ok (cfg s) \<and> g_taskMaxNum s < OS_INVALID \<and>
    Suc (LOSCFG_BASE_CORE_TSK_LIMIT (cfg s)) = g_taskMaxNum s \<and>
    (g_idleTaskID s = OS_INVALID \<or> g_idleTaskID s < g_taskMaxNum s) \<and>
    ASSERT_ENQUEUE_READY \<notin> assertFailed s"

definition core_ex :: "nat set \<Rightarrow> nat set \<Rightarrow> 'a sched_state_scheme \<Rightarrow> bool" where
  "core_ex R T s \<longleftrightarrow> lists_ok s \<and> globals_ok s \<and> (\<forall>u. u \<notin> T \<longrightarrow> task_ok R s u)"

abbreviation core :: "nat set \<Rightarrow> 'a sched_state_scheme \<Rightarrow> bool" where
  "core R s \<equiv> core_ex R {} s"

definition running_ok :: "'a sched_state_scheme \<Rightarrow> bool" where
  "running_ok s \<longleftrightarrow> runTask s \<le> g_taskMaxNum s \<and>
    (\<forall>t<g_taskMaxNum s. has (status s t) OS_TASK_STATUS_RUNNING \<longleftrightarrow> t = runTask s) \<and>
    \<not> has (status s (runTask s)) OS_TASK_STATUS_READY \<and>
    (runTask s < g_taskMaxNum s \<longrightarrow> \<not> has (status s (runTask s)) OS_TASK_STATUS_UNUSED)"

definition sched_inv :: "'a sched_state_scheme \<Rightarrow> bool" where
  "sched_inv s \<longleftrightarrow> core {runTask s} s \<and> running_ok s"

lemma core_exI: "core_ex R {t} s \<Longrightarrow> task_ok R s t \<Longrightarrow> core R s"
  by (auto simp: core_ex_def)

lemma core_ex_weaken: "core_ex R T s \<Longrightarrow> T \<subseteq> T' \<Longrightarrow> core_ex R T' s"
  by (auto simp: core_ex_def)

lemma core_exD:
  "core_ex R T s \<Longrightarrow> lists_ok s" "core_ex R T s \<Longrightarrow> globals_ok s"
  "core_ex R T s \<Longrightarrow> u \<notin> T \<Longrightarrow> task_ok R s u"
  by (auto simp: core_ex_def)

section \<open>Facts about one task\<close>

text \<open>The flags of a task that is not free, without the \<open>RUNNING\<close> flag.\<close>

lemma task_flags:
  assumes "task_ok R s t" "t < g_taskMaxNum s"
  shows "has (status s t) OS_TASK_STATUS_READY \<Longrightarrow>
      \<not> has (status s t) OS_TASK_STATUS_PEND \<and> \<not> has (status s t) OS_TASK_STATUS_DELAY \<and>
      \<not> has (status s t) OS_TASK_STATUS_SUSPEND \<and> \<not> has (status s t) OS_TASK_STATUS_PEND_TIME \<and>
      \<not> has (status s t) OS_TASK_STATUS_UNUSED"
    and "has (status s t) OS_TASK_STATUS_PEND \<Longrightarrow>
      \<not> has (status s t) OS_TASK_STATUS_DELAY \<and> \<not> has (status s t) OS_TASK_STATUS_UNUSED"
    and "has (status s t) OS_TASK_STATUS_PEND_TIME \<Longrightarrow> has (status s t) OS_TASK_STATUS_PEND"
    and "has (status s t) OS_TASK_STATUS_UNUSED \<Longrightarrow>
      \<not> has (status s t) OS_TASK_STATUS_PEND \<and> \<not> has (status s t) OS_TASK_STATUS_DELAY \<and>
      \<not> has (status s t) OS_TASK_STATUS_SUSPEND \<and> \<not> has (status s t) OS_TASK_STATUS_PEND_TIME \<and>
      \<not> has (status s t) OS_TASK_STATUS_READY"
  using assms by (auto simp: task_ok_def flags_ok_def)

lemma task_okD:
  assumes "task_ok R s t" "t < g_taskMaxNum s"
  shows "taskID (tcb s t) = t"
    and "on s t (PriQ p) \<longleftrightarrow>
      has (status s t) OS_TASK_STATUS_READY \<and> priority (tcb s t) = p \<and> t \<noteq> g_idleTaskID s"
    and "on s t FreeTask \<or> on s t RecycleTask \<longleftrightarrow> has (status s t) OS_TASK_STATUS_UNUSED"
    and "(\<exists>h. is_wait h \<and> on s t h) \<longleftrightarrow> has (status s t) OS_TASK_STATUS_PEND"
    and "timed s t \<longleftrightarrow> (has (status s t) OS_TASK_STATUS_DELAY \<or> has (status s t) OS_TASK_STATUS_PEND_TIME) \<and> t \<notin> R"
    and "has (status s t) OS_TASK_STATUS_UNUSED \<or> timed s t \<or> expiry s t = OS_SORT_LINK_INVALID_TIME"
    and "has (status s t) OS_TASK_STATUS_UNUSED \<or> priority (tcb s t) < OS_PRIORITY_QUEUE_NUM"
    and "has (status s t) OS_TASK_STATUS_READY \<Longrightarrow> t \<noteq> g_idleTaskID s \<Longrightarrow>
      OS_TIME_SLICE_MIN (cfg s) <s timeSlice (tcb s t)"
    and "t = g_idleTaskID s \<Longrightarrow> \<not> has (status s t) OS_TASK_STATUS_UNUSED \<and>
      \<not> has (status s t) OS_TASK_STATUS_PEND \<and> \<not> has (status s t) OS_TASK_STATUS_DELAY \<and>
      \<not> has (status s t) OS_TASK_STATUS_SUSPEND"
    and "flags_ok (status s t AND NOT OS_TASK_STATUS_RUNNING)"
  using assms(1) [unfolded task_ok_def if_P [OF assms(2)] has_or_right] by blast+

lemma task_okI:
  assumes "t < g_taskMaxNum s" "taskID (tcb s t) = t"
    and "\<And>p. on s t (PriQ p) \<longleftrightarrow>
      has (status s t) OS_TASK_STATUS_READY \<and> priority (tcb s t) = p \<and> t \<noteq> g_idleTaskID s"
    and "on s t FreeTask \<or> on s t RecycleTask \<longleftrightarrow> has (status s t) OS_TASK_STATUS_UNUSED"
    and "(\<exists>h. is_wait h \<and> on s t h) \<longleftrightarrow> has (status s t) OS_TASK_STATUS_PEND"
    and "timed s t \<longleftrightarrow> (has (status s t) OS_TASK_STATUS_DELAY \<or> has (status s t) OS_TASK_STATUS_PEND_TIME) \<and> t \<notin> R"
    and "has (status s t) OS_TASK_STATUS_UNUSED \<or> timed s t \<or> expiry s t = OS_SORT_LINK_INVALID_TIME"
    and "has (status s t) OS_TASK_STATUS_UNUSED \<or> priority (tcb s t) < OS_PRIORITY_QUEUE_NUM"
    and "flags_ok (status s t AND NOT OS_TASK_STATUS_RUNNING)"
    and "has (status s t) OS_TASK_STATUS_READY \<Longrightarrow> t \<noteq> g_idleTaskID s \<Longrightarrow>
      OS_TIME_SLICE_MIN (cfg s) <s timeSlice (tcb s t)"
    and "t = g_idleTaskID s \<Longrightarrow> \<not> has (status s t) OS_TASK_STATUS_UNUSED \<and>
      \<not> has (status s t) OS_TASK_STATUS_PEND \<and> \<not> has (status s t) OS_TASK_STATUS_DELAY \<and>
      \<not> has (status s t) OS_TASK_STATUS_SUSPEND"
  shows "task_ok R s t"
  using assms unfolding task_ok_def by simp

section \<open>The primitives on lists and control blocks\<close>

lemma upd_tcb_sel [simp]:
  "tcb (upd_tcb t f s) u = (if u = t then f (tcb s t) else tcb s u)"
  "pend (upd_tcb t f s) = pend s"
  "g_queueBitmap (upd_tcb t f s) = g_queueBitmap s"
  "assertFailed (upd_tcb t f s) = assertFailed s"
  by (simp_all add: upd_tcb_def)

lemma status_or_sel [simp]:
  "tcb (status_or t w s) u =
    (if u = t then taskStatus_update (\<lambda>v. v OR w) (tcb s t) else tcb s u)"
  "pend (status_or t w s) = pend s"
  "g_queueBitmap (status_or t w s) = g_queueBitmap s"
  "assertFailed (status_or t w s) = assertFailed s"
  by (simp_all add: status_or_def)

lemma status_clear_sel [simp]:
  "tcb (status_clear t w s) u =
    (if u = t then taskStatus_update (\<lambda>v. v AND NOT w) (tcb s t) else tcb s u)"
  "pend (status_clear t w s) = pend s"
  "g_queueBitmap (status_clear t w s) = g_queueBitmap s"
  "assertFailed (status_clear t w s) = assertFailed s"
  by (simp_all add: status_clear_def)

lemma LOS_ASSERT_sel [simp]:
  "tcb (LOS_ASSERT site b s) u = tcb s u"
  "pend (LOS_ASSERT site b s) = pend s"
  "g_queueBitmap (LOS_ASSERT site b s) = g_queueBitmap s"
  "b \<Longrightarrow> assertFailed (LOS_ASSERT site b s) = assertFailed s"
  by (simp_all add: LOS_ASSERT_def)

lemma LOS_ASSERT_True [simp]: "LOS_ASSERT site True s = s"
  by (simp add: LOS_ASSERT_def)

lemma list_mem:
  "u \<in> set (LOS_ListAdd h t L h') \<longleftrightarrow> u \<in> set (L h') \<or> (u = t \<and> h' = h)"
  "u \<in> set (LOS_ListTailInsert h t L h') \<longleftrightarrow> u \<in> set (L h') \<or> (u = t \<and> h' = h)"
  "store_ok L \<Longrightarrow> u \<in> set (LOS_ListDelete t L h') \<longleftrightarrow> u \<in> set (L h') \<and> u \<noteq> t"
  by (auto simp: list_defs set_remove1_distinct store_okD(1))

lemma store_ok_add:
  assumes "store_ok L" "\<And>h. t \<notin> set (L h)"
  shows "store_ok (LOS_ListAdd h t L)" "store_ok (LOS_ListTailInsert h t L)"
  using lst.ok_add [OF assms] lst.ok_tail_insert [OF assms] by simp_all

lemma store_ok_delete: "store_ok L \<Longrightarrow> store_ok (LOS_ListDelete t L)"
proof (cases "\<exists>h. t \<in> set (L h)")
  case False
  then have "LOS_ListDelete t L = L"
    by (simp add: LOS_ListDelete_def remove1_notin)
  then show "store_ok L \<Longrightarrow> ?thesis" by simp
qed (auto intro: lst.ok_delete)

lemma pend_upd_same [simp]:
  "timed (s\<lparr>pend := L\<rparr>) t = timed s t"
  "on (s\<lparr>pend := L\<rparr>) t h \<longleftrightarrow> t \<in> set (L h)"
  by (simp_all add: timed_def on_def)

text \<open>What \<open>task_ok\<close> of a task depends on.\<close>

definition same_for :: "nat \<Rightarrow> 'a sched_state_scheme \<Rightarrow> 'a sched_state_scheme \<Rightarrow> bool" where
  "same_for u s s' \<longleftrightarrow> status s' u = status s u \<and> taskID (tcb s' u) = taskID (tcb s u) \<and>
    priority (tcb s' u) = priority (tcb s u) \<and>
    (has (status s u) OS_TASK_STATUS_READY \<longrightarrow> timeSlice (tcb s' u) = timeSlice (tcb s u)) \<and>
    (\<forall>h. on s' u h \<longleftrightarrow> on s u h) \<and> timed s' u = timed s u \<and>
    expiry s' u = expiry s u \<and> g_taskMaxNum s' = g_taskMaxNum s \<and>
    g_idleTaskID s' = g_idleTaskID s \<and> cfg s' = cfg s"

lemma task_ok_same:
  assumes "same_for u s s'"
  shows "task_ok R s' u \<longleftrightarrow> task_ok R s u"
proof -
  have eqs: "status s' u = status s u" "taskID (tcb s' u) = taskID (tcb s u)"
    "priority (tcb s' u) = priority (tcb s u)" "\<And>h. on s' u h \<longleftrightarrow> on s u h" "timed s' u = timed s u"
    "expiry s' u = expiry s u" "g_taskMaxNum s' = g_taskMaxNum s"
    "g_idleTaskID s' = g_idleTaskID s" "cfg s' = cfg s"
    using assms by (simp_all add: same_for_def)
  show ?thesis
  proof (cases "has (status s u) OS_TASK_STATUS_READY")
    case True
    then have "timeSlice (tcb s' u) = timeSlice (tcb s u)"
      using assms by (simp add: same_for_def)
    then show ?thesis by (simp only: task_ok_def eqs)
  next
    case False
    then show ?thesis by (simp only: task_ok_def eqs simp_thms if_True if_False)
  qed
qed

lemma globals_ok_same:
  "globals_ok s \<Longrightarrow> cfg s' = cfg s \<Longrightarrow> g_taskMaxNum s' = g_taskMaxNum s \<Longrightarrow>
   g_idleTaskID s' = g_idleTaskID s \<Longrightarrow> assertFailed s' = assertFailed s \<Longrightarrow> globals_ok s'"
  by (simp add: globals_ok_def)

lemma core_exI_same:
  assumes "core_ex R T s" "lists_ok s'" "globals_ok s'" "\<And>u. u \<notin> T \<Longrightarrow> same_for u s s'"
  shows "core_ex R T s'"
  using assms task_ok_same [OF assms(4)] by (simp add: core_ex_def)

lemma sortlinks_ok_same:
  "g_taskSortLink s' = g_taskSortLink s \<Longrightarrow> g_swtmrSortLink s' = g_swtmrSortLink s \<Longrightarrow>
   sortlinks_ok s' = sortlinks_ok s"
  by (simp add: sortlinks_ok_def)

lemma lists_ok_same:
  "lists_ok s \<Longrightarrow> pend s' = pend s \<Longrightarrow> g_queueBitmap s' = g_queueBitmap s \<Longrightarrow>
   g_taskSortLink s' = g_taskSortLink s \<Longrightarrow> g_swtmrSortLink s' = g_swtmrSortLink s \<Longrightarrow> lists_ok s'"
  by (simp add: lists_ok_def sortlinks_ok_def)

lemma on_timed_sel [simp]:
  "on (upd_tcb t f s) u h = on s u h" "timed (upd_tcb t f s) u = timed s u"
  "on (status_or t w s) u h = on s u h" "timed (status_or t w s) u = timed s u"
  "on (status_clear t w s) u h = on s u h" "timed (status_clear t w s) u = timed s u"
  "on (LOS_ASSERT site b s) u h = on s u h" "timed (LOS_ASSERT site b s) u = timed s u"
  by (simp_all add: on_def timed_def)

lemma lists_ok_upd [simp]:
  "lists_ok (upd_tcb t f s) = lists_ok s" "lists_ok (status_or t w s) = lists_ok s"
  "lists_ok (status_clear t w s) = lists_ok s" "lists_ok (LOS_ASSERT site b s) = lists_ok s"
  by (simp_all add: lists_ok_def sortlinks_ok_def)

lemma globals_ok_upd [simp]:
  "globals_ok (upd_tcb t f s) = globals_ok s" "globals_ok (status_or t w s) = globals_ok s"
  "globals_ok (status_clear t w s) = globals_ok s"
  "b \<or> site \<noteq> ASSERT_ENQUEUE_READY \<Longrightarrow> globals_ok (LOS_ASSERT site b s) = globals_ok s"
  by (auto simp: globals_ok_def LOS_ASSERT_def)

lemma core_upd:
  "core_ex R T s \<Longrightarrow> t \<in> T \<Longrightarrow> core_ex R T (upd_tcb t f s)"
  by (rule core_exI_same) (auto simp: core_exD same_for_def)

lemma core_status:
  "core_ex R T s \<Longrightarrow> t \<in> T \<Longrightarrow> core_ex R T (status_or t w s)"
  "core_ex R T s \<Longrightarrow> t \<in> T \<Longrightarrow> core_ex R T (status_clear t w s)"
  unfolding status_or_def status_clear_def by (simp_all add: core_upd)

lemma core_assert:
  "core_ex R T s \<Longrightarrow> b \<or> site \<noteq> ASSERT_ENQUEUE_READY \<Longrightarrow> core_ex R T (LOS_ASSERT site b s)"
  by (rule core_exI_same) (auto simp: core_exD same_for_def)

text \<open>A task that is on no ready queue leaves its list, or joins one that is not a ready queue.\<close>

lemma lists_ok_list_delete:
  assumes "lists_ok s" "\<And>p. \<not> on s t (PriQ p)"
  shows "lists_ok (s\<lparr>pend := LOS_ListDelete t (pend s)\<rparr>)"
  using assms store_ok_delete [of "pend s" t]
  by (auto simp: lists_ok_def sortlinks_ok_def on_def LOS_ListDelete_def remove1_notin)

lemma core_list_delete:
  assumes "core_ex R T s" "t \<in> T" "\<And>p. \<not> on s t (PriQ p)"
  shows "core_ex R T (s\<lparr>pend := LOS_ListDelete t (pend s)\<rparr>)"
proof (rule core_exI_same [OF assms(1)])
  have "store_ok (pend s)"
    using core_exD(1) [OF assms(1)] by (simp add: lists_ok_def)
  then show "same_for u s (s\<lparr>pend := LOS_ListDelete t (pend s)\<rparr>)" if "u \<notin> T" for u
    using that assms(2) by (auto simp: same_for_def list_mem on_def)
qed (use assms in \<open>auto simp: lists_ok_list_delete core_exD globals_ok_def dest: core_exD(2)\<close>)

lemma core_list_insert:
  assumes "core_ex R T s" "t \<in> T" "\<And>h. \<not> on s t h" "\<And>p. h \<noteq> PriQ p"
  shows "core_ex R T (s\<lparr>pend := LOS_ListTailInsert h t (pend s)\<rparr>)"
    and "core_ex R T (s\<lparr>pend := LOS_ListAdd h t (pend s)\<rparr>)"
proof -
  have "store_ok (pend s)"
    using core_exD(1) [OF assms(1)] by (simp add: lists_ok_def)
  note add = store_ok_add [OF this, of t] assms(3) [unfolded on_def]
  have "lists_ok (s\<lparr>pend := LOS_ListTailInsert h t (pend s)\<rparr>)"
    and "lists_ok (s\<lparr>pend := LOS_ListAdd h t (pend s)\<rparr>)"
    using core_exD(1) [OF assms(1)] add assms(4)
    by (auto simp: lists_ok_def sortlinks_ok_def LOS_ListTailInsert_def LOS_ListAdd_def)
  then show "core_ex R T (s\<lparr>pend := LOS_ListTailInsert h t (pend s)\<rparr>)"
    and "core_ex R T (s\<lparr>pend := LOS_ListAdd h t (pend s)\<rparr>)"
    using core_exD(2) [OF assms(1)] assms(2)
    by (auto intro!: core_exI_same [OF assms(1)] simp: same_for_def list_mem on_def globals_ok_def)
qed

section \<open>The ready queues\<close>

lemma bit_prio_set:
  "n < 32 \<Longrightarrow> p < 32 \<Longrightarrow> bit (drop_bit p PRIQUEUE_PRIOR0_BIT) (31 - n) \<longleftrightarrow> n = p"
  by (auto simp: bit_prior0)

lemma lists_ok_enqueue:
  assumes "lists_ok s" "\<And>h. \<not> on s t h" "p < OS_PRIORITY_QUEUE_NUM"
  shows "lists_ok (OsSchedPriQueueEnHead t p s)" "lists_ok (OsSchedPriQueueEnTail t p s)"
  using assms store_ok_add [of "pend s" t "PriQ p"]
  by (auto simp: lists_ok_def sortlinks_ok_def on_def OsSchedPriQueueEnHead_def
      OsSchedPriQueueEnTail_def set_prio_bit_def Let_def LOS_ListEmpty_def bit_or_iff
      bit_prio_set OS_PRIORITY_QUEUE_NUM_def LOS_ListAdd_def LOS_ListTailInsert_def)

lemma lists_ok_dequeue:
  assumes "lists_ok s" "on s t (PriQ p)" "p < OS_PRIORITY_QUEUE_NUM"
  shows "lists_ok (OsSchedPriQueueDelete t p s)"
proof -
  have st: "store_ok (pend s)" and t: "t \<in> set (pend s (PriQ p))"
    using assms by (simp_all add: lists_ok_def on_def)
  note [simp] = delete_on [OF st t]
  show ?thesis
    using assms t store_ok_delete [OF st, of t]
    by (auto simp: lists_ok_def sortlinks_ok_def OsSchedPriQueueDelete_def Let_def LOS_ListEmpty_def
        bit_and_iff bit_not_iff bit_prio_set OS_PRIORITY_QUEUE_NUM_def)
qed

lemma prio_queue_sel [simp]:
  "tcb (OsSchedPriQueueEnHead t p s) u = tcb s u"
  "tcb (OsSchedPriQueueEnTail t p s) u = tcb s u"
  "tcb (OsSchedPriQueueDelete t p s) u = tcb s u"
  "assertFailed (OsSchedPriQueueEnHead t p s) = assertFailed s"
  "assertFailed (OsSchedPriQueueEnTail t p s) = assertFailed s"
  "assertFailed (OsSchedPriQueueDelete t p s) = assertFailed s"
  "g_taskSortLink (OsSchedPriQueueEnHead t p s) = g_taskSortLink s"
  "g_taskSortLink (OsSchedPriQueueEnTail t p s) = g_taskSortLink s"
  "g_taskSortLink (OsSchedPriQueueDelete t p s) = g_taskSortLink s"
  "on (OsSchedPriQueueEnHead t p s) u h \<longleftrightarrow> on s u h \<or> (u = t \<and> h = PriQ p)"
  "on (OsSchedPriQueueEnTail t p s) u h \<longleftrightarrow> on s u h \<or> (u = t \<and> h = PriQ p)"
  "lists_ok s \<Longrightarrow> on (OsSchedPriQueueDelete t p s) u h \<longleftrightarrow> on s u h \<and> u \<noteq> t"
  by (simp_all add: OsSchedPriQueueEnHead_def OsSchedPriQueueEnTail_def OsSchedPriQueueDelete_def
      Let_def set_prio_bit_def on_def list_mem lists_ok_def)

text \<open>Putting a task that is on no list into the ready queue of its priority.\<close>

lemma EnQueue_sel:
  "timed (OsSchedTaskEnQueue t s) u = timed s u"
  "taskID (tcb (OsSchedTaskEnQueue t s) u) = taskID (tcb s u)"
  "priority (tcb (OsSchedTaskEnQueue t s) u) = priority (tcb s u)"
  "u \<noteq> t \<Longrightarrow> tcb (OsSchedTaskEnQueue t s) u = tcb s u"
  "status (OsSchedTaskEnQueue t s) t =
    (status s t AND NOT (OS_TASK_STATUS_PEND OR OS_TASK_STATUS_SUSPEND OR
      OS_TASK_STATUS_DELAY OR OS_TASK_STATUS_PEND_TIME)) OR OS_TASK_STATUS_READY"
  "on (OsSchedTaskEnQueue t s) u h \<longleftrightarrow>
    on s u h \<or> (u = t \<and> h = PriQ (priority (tcb s t)) \<and> taskID (tcb s t) \<noteq> g_idleTaskID s)"
  by (auto simp: OsSchedTaskEnQueue_def Let_def timed_def)

lemma EnQueue_slice:
  assumes "config_ok (cfg s)" "taskID (tcb s t) \<noteq> g_idleTaskID s"
  shows "OS_TIME_SLICE_MIN (cfg s) <s timeSlice (tcb (OsSchedTaskEnQueue t s) t)"
  using assms by (auto simp: OsSchedTaskEnQueue_def Let_def config_ok_def)

lemma EnQueue_globals:
  "globals_ok s \<Longrightarrow> \<not> has (status s t) OS_TASK_STATUS_READY \<Longrightarrow> globals_ok (OsSchedTaskEnQueue t s)"
  by (erule globals_ok_same) (auto simp: OsSchedTaskEnQueue_def Let_def)

lemma EnQueue_lists:
  "lists_ok s \<Longrightarrow> (\<And>h. \<not> on s t h) \<Longrightarrow> priority (tcb s t) < OS_PRIORITY_QUEUE_NUM \<Longrightarrow>
   lists_ok (OsSchedTaskEnQueue t s)"
  by (auto simp: OsSchedTaskEnQueue_def Let_def lists_ok_enqueue)

lemma core_enqueue:
  assumes "core_ex R {t} s" "\<And>h. \<not> on s t h" "t < g_taskMaxNum s" "taskID (tcb s t) = t"
    "priority (tcb s t) < OS_PRIORITY_QUEUE_NUM" "\<not> timed s t" "expiry s t = OS_SORT_LINK_INVALID_TIME"
    "\<not> has (status s t) (OS_TASK_STATUS_READY OR OS_TASK_STATUS_UNUSED)"
  shows "core R (OsSchedTaskEnQueue t s)"
proof (rule core_exI [where t = t])
  show "core_ex R {t} (OsSchedTaskEnQueue t s)"
    using assms core_exD [OF assms(1)]
    by (intro core_exI_same [OF assms(1)])
      (auto simp: EnQueue_lists EnQueue_globals same_for_def EnQueue_sel)
  have "config_ok (cfg s)"
    using core_exD(2) [OF assms(1)] by (simp add: globals_ok_def)
  with assms show "task_ok R (OsSchedTaskEnQueue t s) t"
    by (auto simp: task_ok_def EnQueue_sel flags_ok_def EnQueue_slice)
qed

lemma DeQueue_sel:
  "timed (OsSchedTaskDeQueue t s) u = timed s u"
  "expiry (OsSchedTaskDeQueue t s) u = expiry s u"
  "u \<noteq> t \<Longrightarrow> tcb (OsSchedTaskDeQueue t s) u = tcb s u"
  "tcb (OsSchedTaskDeQueue t s) t =
    (if has (status s t) OS_TASK_STATUS_READY
     then taskStatus_update (\<lambda>w. w AND NOT OS_TASK_STATUS_READY) (tcb s t) else tcb s t)"
  "assertFailed (OsSchedTaskDeQueue t s) = assertFailed s"
  by (auto simp: OsSchedTaskDeQueue_def Let_def timed_def)

lemma DeQueue_on:
  "lists_ok s \<Longrightarrow> on (OsSchedTaskDeQueue t s) u h \<longleftrightarrow>
    on s u h \<and> \<not> (u = t \<and> has (status s t) OS_TASK_STATUS_READY \<and> taskID (tcb s t) \<noteq> g_idleTaskID s)"
  by (auto simp: OsSchedTaskDeQueue_def Let_def)

text \<open>A ready task is on no list but its ready queue.\<close>

lemma ready_on:
  assumes "core_ex R T s" "t \<notin> T" "has (status s t) OS_TASK_STATUS_READY" "on s t h"
  shows "t < g_taskMaxNum s \<and> h = PriQ (priority (tcb s t)) \<and> t \<noteq> g_idleTaskID s"
proof -
  have ok: "task_ok R s t" using assms by (simp add: core_exD)
  with assms(4) have lt: "t < g_taskMaxNum s" by (auto simp: task_ok_def split: if_splits)
  show ?thesis
  proof (cases h)
    case (PriQ p)
    with ok lt assms(4) show ?thesis by (auto simp: task_ok_def)
  qed (use ok lt assms(3,4) task_flags(1) [OF ok lt] in \<open>auto simp: task_ok_def\<close>)
qed

lemma ready_prio:
  assumes "task_ok R s t" "t < g_taskMaxNum s" "has (status s t) OS_TASK_STATUS_READY"
  shows "priority (tcb s t) < OS_PRIORITY_QUEUE_NUM"
  using task_flags(1) [OF assms] task_okD(7) [OF assms(1,2)] by simp

lemma ready_lt:
  assumes "core_ex R T s" "t \<notin> T" "t \<le> g_taskMaxNum s" "has (status s t) OS_TASK_STATUS_READY"
  shows "t < g_taskMaxNum s"
proof (rule ccontr)
  assume "\<not> t < g_taskMaxNum s"
  with assms(3) have "t = g_taskMaxNum s" by simp
  with core_exD(3) [OF assms(1,2)] have "\<not> has (status s t) OS_TASK_STATUS_READY"
    by (simp add: task_ok_def)
  with assms(4) show False by simp
qed

lemma core_dequeue:
  assumes "core R s" "t \<le> g_taskMaxNum s"
  shows "core R (OsSchedTaskDeQueue t s)"
proof (cases "has (status s t) OS_TASK_STATUS_READY")
  case False
  then show ?thesis using assms by (simp add: OsSchedTaskDeQueue_def)
next
  case True
  note lists = core_exD(1) [OF assms(1)]
  have ok: "task_ok R s t" and lt: "t < g_taskMaxNum s"
    using core_exD(3) [OF assms(1)] ready_lt [OF assms(1) _ assms(2) True] by simp_all
  have id: "taskID (tcb s t) = t" using ok lt by (simp add: task_ok_def)
  have prio: "priority (tcb s t) < OS_PRIORITY_QUEUE_NUM" by (rule ready_prio [OF ok lt True])
  have "lists_ok (OsSchedTaskDeQueue t s)"
    using lists lists_ok_dequeue [OF lists _ prio, of t] ok lt True id
    by (auto simp: OsSchedTaskDeQueue_def Let_def task_ok_def)
  moreover have "globals_ok (OsSchedTaskDeQueue t s)"
    using core_exD(2) [OF assms(1)] by (rule globals_ok_same) (auto simp: DeQueue_sel)
  ultimately have "core_ex R {t} (OsSchedTaskDeQueue t s)"
    by (intro core_exI_same [OF core_ex_weaken [OF assms(1)]])
      (auto simp: same_for_def DeQueue_sel DeQueue_on [OF lists])
  moreover have "task_ok R (OsSchedTaskDeQueue t s) t"
    using ok lt True id task_flags(1) [OF ok lt True] ready_on [OF assms(1) _ True]
    by (auto simp: task_ok_def DeQueue_sel DeQueue_on [OF lists] flags_ok_def)
  ultimately show ?thesis by (rule core_exI)
qed

section \<open>Time and the sort link\<close>

lemma core_frame:
  fixes s s' :: "'a sched_state_scheme"
  assumes "g_taskCBArray s' = g_taskCBArray s" "pend s' = pend s" "g_queueBitmap s' = g_queueBitmap s"
    "g_taskSortLink s' = g_taskSortLink s" "g_swtmrSortLink s' = g_swtmrSortLink s"
    "g_taskMaxNum s' = g_taskMaxNum s" "g_idleTaskID s' = g_idleTaskID s" "cfg s' = cfg s"
    "ASSERT_ENQUEUE_READY \<in> assertFailed s' \<longleftrightarrow> ASSERT_ENQUEUE_READY \<in> assertFailed s"
  shows "core_ex R T s' \<longleftrightarrow> core_ex R T s"
proof -
  have "task_ok R s' u = task_ok R s u" for u
    by (rule task_ok_same) (simp add: same_for_def assms on_def timed_def)
  then show ?thesis
    by (simp add: core_ex_def lists_ok_def globals_ok_def sortlinks_ok_def assms)
qed

lemma running_frame:
  assumes "g_taskCBArray s' = g_taskCBArray s" "runTask s' = runTask s" "g_taskMaxNum s' = g_taskMaxNum s"
  shows "running_ok s' \<longleftrightarrow> running_ok s"
  using assms by (simp add: running_ok_def)

lemma CurrTime_sel [simp]:
  "g_taskCBArray (snd (OsGetCurrSchedTimeCycle s)) = g_taskCBArray s"
  "pend (snd (OsGetCurrSchedTimeCycle s)) = pend s"
  "g_queueBitmap (snd (OsGetCurrSchedTimeCycle s)) = g_queueBitmap s"
  "g_taskSortLink (snd (OsGetCurrSchedTimeCycle s)) = g_taskSortLink s"
  "pendSV (snd (OsGetCurrSchedTimeCycle s)) = pendSV s"
  "ASSERT_ENQUEUE_READY \<in> assertFailed (snd (OsGetCurrSchedTimeCycle s)) \<longleftrightarrow>
    ASSERT_ENQUEUE_READY \<in> assertFailed s"
  by (simp_all add: OsGetCurrSchedTimeCycle_def HalGetTickCycle_def LOS_ASSERT_def Let_def)

lemma SetNext_sel [simp]:
  "g_taskCBArray (OsSchedSetNextExpireTime start rid endt s) = g_taskCBArray s"
  "pend (OsSchedSetNextExpireTime start rid endt s) = pend s"
  "g_queueBitmap (OsSchedSetNextExpireTime start rid endt s) = g_queueBitmap s"
  "g_taskSortLink (OsSchedSetNextExpireTime start rid endt s) = g_taskSortLink s"
  "pendSV (OsSchedSetNextExpireTime start rid endt s) = pendSV s"
  "newTask (OsSchedSetNextExpireTime start rid endt s) = newTask s"
  "ASSERT_ENQUEUE_READY \<in> assertFailed (OsSchedSetNextExpireTime start rid endt s) \<longleftrightarrow>
    ASSERT_ENQUEUE_READY \<in> assertFailed s"
  by (simp_all add: OsSchedSetNextExpireTime_def OsGetCurrSchedTimeCycle_def HalGetTickCycle_def
      HalSysTickReload_def LOS_ASSERT_def Let_def)

lemma core_time [simp]:
  "core_ex R T (snd (OsGetCurrSchedTimeCycle s)) = core_ex R T s"
  "core_ex R T (OsSchedSetNextExpireTime start rid endt s) = core_ex R T s"
  "core_ex R T (OsSchedUpdateExpireTime start s) = core_ex R T s"
  "running_ok (snd (OsGetCurrSchedTimeCycle s)) = running_ok s"
  "running_ok (OsSchedSetNextExpireTime start rid endt s) = running_ok s"
  "running_ok (OsSchedUpdateExpireTime start s) = running_ok s"
  unfolding OsSchedUpdateExpireTime_def Let_def
  by ((rule core_frame running_frame; simp)+)

text \<open>The account of a task that is not ready touches none of what the invariant is about.\<close>

lemma TimeSliceUpdate_sel [simp]:
  "status (OsTimeSliceUpdate t time s) u = status s u"
  "taskID (tcb (OsTimeSliceUpdate t time s) u) = taskID (tcb s u)"
  "priority (tcb (OsTimeSliceUpdate t time s) u) = priority (tcb s u)"
  "waitTimes (tcb (OsTimeSliceUpdate t time s) u) = waitTimes (tcb s u)"
  "startTime (tcb (OsTimeSliceUpdate t time s) t) = time"
  "pend (OsTimeSliceUpdate t time s) = pend s"
  "on (OsTimeSliceUpdate t time s) u h = on s u h"
  "g_queueBitmap (OsTimeSliceUpdate t time s) = g_queueBitmap s"
  "g_taskSortLink (OsTimeSliceUpdate t time s) = g_taskSortLink s"
  by (auto simp: OsTimeSliceUpdate_def Let_def)

lemma TimeSliceUpdate_frame:
  "u \<noteq> t \<Longrightarrow> tcb (OsTimeSliceUpdate t time s) u = tcb s u"
  "ASSERT_ENQUEUE_READY \<in> assertFailed (OsTimeSliceUpdate t time s) \<longleftrightarrow>
    ASSERT_ENQUEUE_READY \<in> assertFailed s"
  by (auto simp: OsTimeSliceUpdate_def Let_def LOS_ASSERT_def)

lemma core_TimeSliceUpdate:
  assumes "core_ex R T s" "\<not> has (status s t) OS_TASK_STATUS_READY \<or> t \<in> T"
  shows "core_ex R T (OsTimeSliceUpdate t time s)"
proof (rule core_exI_same [OF assms(1)])
  show "lists_ok (OsTimeSliceUpdate t time s)"
    using core_exD(1) [OF assms(1)] by (rule lists_ok_same) simp_all
  show "globals_ok (OsTimeSliceUpdate t time s)"
    using core_exD(2) [OF assms(1)] by (simp add: globals_ok_def TimeSliceUpdate_frame)
  show "same_for u s (OsTimeSliceUpdate t time s)" if "u \<notin> T" for u
    using that assms(2) by (cases "u = t") (auto simp: same_for_def TimeSliceUpdate_frame timed_def)
qed

lemma running_TimeSliceUpdate [simp]: "running_ok (OsTimeSliceUpdate t time s) = running_ok s"
  by (simp add: running_ok_def)

end
