(* ===== verification/Sched_Ops.thy ===== *)
theory Sched_Ops
  imports Sched_Inv
begin

text \<open>
  Every operation of \<open>los_sched.c\<close> keeps the scheduler invariant: waiting, waking (by the
  resource and by the timeout), the change of a priority, the exit of a task, the switch to the
  task of the highest priority and the tick handler.
\<close>

section \<open>The sort link\<close>

lemma DeleteSortLink_sel [simp]:
  "tcb (OsDeleteSortLink t OS_SORT_LINK_TASK s) u = tcb s u"
  "on (OsDeleteSortLink t OS_SORT_LINK_TASK s) u h = on s u h"
  "pend (OsDeleteSortLink t OS_SORT_LINK_TASK s) = pend s"
  "g_queueBitmap (OsDeleteSortLink t OS_SORT_LINK_TASK s) = g_queueBitmap s"
  "assertFailed (OsDeleteSortLink t OS_SORT_LINK_TASK s) = assertFailed s"
  "u \<noteq> t \<Longrightarrow> timed (OsDeleteSortLink t OS_SORT_LINK_TASK s) u = timed s u"
  "u \<noteq> t \<Longrightarrow> expiry (OsDeleteSortLink t OS_SORT_LINK_TASK s) u = expiry s u"
  "expiry (OsDeleteSortLink t OS_SORT_LINK_TASK s) t = OS_SORT_LINK_INVALID_TIME"
  by (auto simp: OsDeleteSortLink_def upd_sortlink_def OsGetSortLinkAttribute_def on_def timed_def)

lemma DeleteSortLink_untimed:
  assumes "lists_ok s"
  shows "\<not> timed (OsDeleteSortLink t OS_SORT_LINK_TASK s) t"
proof -
  have ok: "sortlink_ok (g_taskSortLink s)"
    using assms by (simp add: lists_ok_def sortlinks_ok_def)
  then have "distinct (sortLink (g_taskSortLink s))" by (simp add: sortlink_ok_def)
  then show ?thesis
    using sortlink_ok_valid [OF ok, of t]
    by (auto simp: OsDeleteSortLink_def upd_sortlink_def OsGetSortLinkAttribute_def timed_def
        set_remove1_distinct)
qed

lemma lists_ok_DeleteSortLink: "lists_ok s \<Longrightarrow> lists_ok (OsDeleteSortLink t OS_SORT_LINK_TASK s)"
  by (simp add: lists_ok_def sortlinks_ok_Delete)

lemma core_DeleteSortLink:
  assumes "core_ex R T s" "t \<in> T"
  shows "core_ex R T (OsDeleteSortLink t OS_SORT_LINK_TASK s)"
proof (rule core_exI_same [OF assms(1)])
  show "globals_ok (OsDeleteSortLink t OS_SORT_LINK_TASK s)"
    using core_exD(2) [OF assms(1)] by (rule globals_ok_same) simp_all
  show "same_for u s (OsDeleteSortLink t OS_SORT_LINK_TASK s)" if "u \<notin> T" for u
    using that assms(2) by (cases "u = t") (simp_all add: same_for_def)
qed (use core_exD(1) [OF assms(1)] lists_ok_DeleteSortLink in auto)

lemma Add2SortLink_sel [simp]:
  "tcb (OsAdd2SortLink t start ticks OS_SORT_LINK_TASK s) u = tcb s u"
  "on (OsAdd2SortLink t start ticks OS_SORT_LINK_TASK s) u h = on s u h"
  "pend (OsAdd2SortLink t start ticks OS_SORT_LINK_TASK s) = pend s"
  "g_queueBitmap (OsAdd2SortLink t start ticks OS_SORT_LINK_TASK s) = g_queueBitmap s"
  "assertFailed (OsAdd2SortLink t start ticks OS_SORT_LINK_TASK s) = assertFailed s"
  by (auto simp: OsAdd2SortLink_def upd_sortlink_def on_def)

lemma Add2SortLink_link:
  assumes "lists_ok s" "\<not> timed s t"
  shows "timed (OsAdd2SortLink t start ticks OS_SORT_LINK_TASK s) u \<longleftrightarrow> timed s u \<or> u = t"
    and "expiry (OsAdd2SortLink t start ticks OS_SORT_LINK_TASK s) =
      (responseTime (g_taskSortLink s))(t := expire_at s start ticks)"
proof -
  have "sortlink_ok (g_taskSortLink s)" "t \<notin> set (sortLink (g_taskSortLink s))"
    using assms by (simp_all add: lists_ok_def sortlinks_ok_def timed_def)
  note eq = add_sortlink [OF this]
  show "timed (OsAdd2SortLink t start ticks OS_SORT_LINK_TASK s) u \<longleftrightarrow> timed s u \<or> u = t"
    and "expiry (OsAdd2SortLink t start ticks OS_SORT_LINK_TASK s) =
      (responseTime (g_taskSortLink s))(t := expire_at s start ticks)"
    by (auto simp: OsAdd2SortLink_def upd_sortlink_def eq expire_at_def timed_def)
qed

lemma core_Add2SortLink:
  assumes "core_ex R T s" "t \<in> T" "\<not> timed s t" "expire_at s start ticks \<noteq> OS_SORT_LINK_INVALID_TIME"
  shows "core_ex R T (OsAdd2SortLink t start ticks OS_SORT_LINK_TASK s)"
proof (rule core_exI_same [OF assms(1)])
  note lists = core_exD(1) [OF assms(1)]
  show "lists_ok (OsAdd2SortLink t start ticks OS_SORT_LINK_TASK s)"
    using lists sortlinks_ok_Add2 [of s t OS_SORT_LINK_TASK start ticks] assms(3,4)
    by (simp add: lists_ok_def timed_def OsGetSortLinkAttribute_def)
  show "globals_ok (OsAdd2SortLink t start ticks OS_SORT_LINK_TASK s)"
    using core_exD(2) [OF assms(1)] by (rule globals_ok_same) simp_all
  show "same_for u s (OsAdd2SortLink t start ticks OS_SORT_LINK_TASK s)" if "u \<notin> T" for u
    using that assms(2) Add2SortLink_link [OF lists assms(3)] by (cases "u = t") (simp_all add: same_for_def)
qed

section \<open>The RUNNING flag\<close>

lemma running_same:
  assumes "running_ok s" "runTask s' = runTask s" "g_taskMaxNum s' = g_taskMaxNum s"
    "\<And>u. has (status s' u) OS_TASK_STATUS_RUNNING \<longleftrightarrow> has (status s u) OS_TASK_STATUS_RUNNING"
    "\<not> has (status s' (runTask s)) OS_TASK_STATUS_READY"
    "has (status s' (runTask s)) OS_TASK_STATUS_UNUSED = has (status s (runTask s)) OS_TASK_STATUS_UNUSED"
  shows "running_ok s'"
  using assms by (simp add: running_ok_def)

lemma running_not_ready:
  "running_ok s \<Longrightarrow> has (status s t) OS_TASK_STATUS_READY \<Longrightarrow> t \<noteq> runTask s"
  by (auto simp: running_ok_def)

lemma EnQueue_flags:
  "has (status (OsSchedTaskEnQueue t s) u) OS_TASK_STATUS_RUNNING = has (status s u) OS_TASK_STATUS_RUNNING"
  "has (status (OsSchedTaskEnQueue t s) u) OS_TASK_STATUS_UNUSED = has (status s u) OS_TASK_STATUS_UNUSED"
  "has (status (OsSchedTaskEnQueue t s) u) OS_TASK_STATUS_READY \<longleftrightarrow>
    u = t \<or> has (status s u) OS_TASK_STATUS_READY"
  by (cases "u = t"; simp add: EnQueue_sel)+

lemma running_enqueue: "running_ok s \<Longrightarrow> t \<noteq> runTask s \<Longrightarrow> running_ok (OsSchedTaskEnQueue t s)"
  by (rule running_same) (auto simp: EnQueue_flags running_ok_def)

lemma DeQueue_flags:
  "single f \<Longrightarrow> \<not> has OS_TASK_STATUS_READY f \<Longrightarrow>
    has (status (OsSchedTaskDeQueue t s) u) f = has (status s u) f"
  "has (status (OsSchedTaskDeQueue t s) u) OS_TASK_STATUS_READY \<longleftrightarrow>
    u \<noteq> t \<and> has (status s u) OS_TASK_STATUS_READY"
  by (cases "u = t"; simp add: DeQueue_sel)+

lemma running_dequeue: "running_ok s \<Longrightarrow> running_ok (OsSchedTaskDeQueue t s)"
  by (rule running_same)
    (auto simp: DeQueue_flags running_ok_def)

section \<open>Waiting and waking\<close>

lemma core_insert:
  "core_ex R T s \<Longrightarrow> t \<in> T \<Longrightarrow> (\<And>h. \<not> on s t h) \<Longrightarrow> (\<And>p. h \<noteq> PriQ p) \<Longrightarrow> L = pend s \<Longrightarrow>
   core_ex R T (s\<lparr>pend := LOS_ListTailInsert h t L\<rparr>)"
  "core_ex R T s \<Longrightarrow> t \<in> T \<Longrightarrow> (\<And>h. \<not> on s t h) \<Longrightarrow> (\<And>p. h \<noteq> PriQ p) \<Longrightarrow> L = pend s \<Longrightarrow>
   core_ex R T (s\<lparr>pend := LOS_ListAdd h t L\<rparr>)"
  by (simp_all add: core_list_insert)

lemma core_remove:
  "core_ex R T s \<Longrightarrow> t \<in> T \<Longrightarrow> (\<And>p. \<not> on s t (PriQ p)) \<Longrightarrow> L = pend s \<Longrightarrow>
   core_ex R T (s\<lparr>pend := LOS_ListDelete t L\<rparr>)"
  by (simp add: core_list_delete)

text \<open>The running task can give up the processor: no flag says it waits, is suspended or is gone.\<close>

definition unblocked :: "'a sched_state_scheme \<Rightarrow> bool" where
  "unblocked s \<longleftrightarrow> runTask s < g_taskMaxNum s \<and>
    \<not> has (status s (runTask s)) (OS_TASK_STATUS_PEND OR OS_TASK_STATUS_PEND_TIME OR
      OS_TASK_STATUS_DELAY OR OS_TASK_STATUS_SUSPEND OR OS_TASK_STATUS_UNUSED)"

lemma sched_invD:
  "sched_inv s \<Longrightarrow> core {runTask s} s" "sched_inv s \<Longrightarrow> running_ok s"
  "sched_inv s \<Longrightarrow> lists_ok s" "sched_inv s \<Longrightarrow> globals_ok s" "sched_inv s \<Longrightarrow> task_ok {runTask s} s t"
  by (auto simp: sched_inv_def core_ex_def)

lemma running_okD:
  "running_ok s \<Longrightarrow> runTask s \<le> g_taskMaxNum s"
  "running_ok s \<Longrightarrow> \<not> has (status s (runTask s)) OS_TASK_STATUS_READY"
  "running_ok s \<Longrightarrow> t < g_taskMaxNum s \<Longrightarrow> has (status s t) OS_TASK_STATUS_RUNNING \<longleftrightarrow> t = runTask s"
  "running_ok s \<Longrightarrow> runTask s < g_taskMaxNum s \<Longrightarrow> \<not> has (status s (runTask s)) OS_TASK_STATUS_UNUSED"
  by (simp_all add: running_ok_def)

lemma off_lists:
  assumes "task_ok R s t" "t < g_taskMaxNum s"
    "\<not> has (status s t) OS_TASK_STATUS_READY" "\<not> has (status s t) OS_TASK_STATUS_UNUSED"
    "\<not> has (status s t) OS_TASK_STATUS_PEND"
  shows "\<not> on s t h"
  using task_okD(2-4) [OF assms(1,2)] assms(3-5) by (cases h) (auto simp: is_wait_def split: lhead.splits)

lemma pend_not_prio:
  assumes "task_ok R s t" "t < g_taskMaxNum s" "has (status s t) OS_TASK_STATUS_PEND"
  shows "\<not> on s t (PriQ p)" "\<not> has (status s t) OS_TASK_STATUS_READY" "\<not> has (status s t) OS_TASK_STATUS_UNUSED"
  using task_okD(2) [OF assms(1,2)] task_flags [OF assms(1,2)] assms(3) by auto

lemma Wait_sel:
  "on (OsSchedTaskWait h ticks s) u k \<longleftrightarrow> on s u k \<or> (u = runTask s \<and> k = h)"
  "timed (OsSchedTaskWait h ticks s) u = timed s u"
  "g_taskSortLink (OsSchedTaskWait h ticks s) = g_taskSortLink s"
  "taskID (tcb (OsSchedTaskWait h ticks s) u) = taskID (tcb s u)"
  "priority (tcb (OsSchedTaskWait h ticks s) u) = priority (tcb s u)"
  "timeSlice (tcb (OsSchedTaskWait h ticks s) u) = timeSlice (tcb s u)"
  "status (OsSchedTaskWait h ticks s) u =
    (if u = runTask s then
       if ticks = LOS_WAIT_FOREVER then status s u OR OS_TASK_STATUS_PEND
       else (status s u OR OS_TASK_STATUS_PEND) OR OS_TASK_STATUS_PEND_TIME
     else status s u)"
  by (auto simp: OsSchedTaskWait_def Let_def on_def list_mem timed_def)

lemma core_Wait:
  assumes "core {r} s" "r = runTask s" "r < g_taskMaxNum s" "r \<noteq> g_idleTaskID s" "unblocked s"
    "\<not> has (status s r) OS_TASK_STATUS_READY" "is_wait h"
  shows "core {r} (OsSchedTaskWait h ticks s)"
proof -
  have ok: "task_ok {r} s r" using assms(1) by (simp add: core_exD)
  have nowhere: "\<not> on s r k" for k
    by (rule off_lists [OF ok assms(3,6)]) (use assms(2,5) in \<open>auto simp: unblocked_def\<close>)
  have "\<And>p. h \<noteq> PriQ p" using assms(7) by auto
  then have "core_ex {r} {r} (OsSchedTaskWait h ticks s)"
    using assms(2) nowhere core_ex_weaken [OF assms(1), of "{r}"]
    by (auto simp: OsSchedTaskWait_def Let_def intro!: core_upd core_status core_insert)
  moreover have "task_ok {r} (OsSchedTaskWait h ticks s) r"
    using assms(2-) nowhere task_okD [OF ok assms(3)]
    by (intro task_okI) (auto simp: Wait_sel unblocked_def flags_ok_def)
  ultimately show ?thesis by (rule core_exI)
qed

lemma running_Wait:
  assumes "running_ok s" shows "running_ok (OsSchedTaskWait h ticks s)"
  using assms by (intro running_same [OF assms]) (auto simp: OsSchedTaskWait_def Let_def running_ok_def)

lemma Wait_frame [simp]:
  "runTask (OsSchedTaskWait h ticks s) = runTask s" "g_taskMaxNum (OsSchedTaskWait h ticks s) = g_taskMaxNum s"
  "g_idleTaskID (OsSchedTaskWait h ticks s) = g_idleTaskID s" "cfg (OsSchedTaskWait h ticks s) = cfg s"
  by (simp_all add: OsSchedTaskWait_def Let_def)

lemma sched_inv_Wait:
  assumes "sched_inv s" "unblocked s" "runTask s \<noteq> g_idleTaskID s" "is_wait h"
  shows "sched_inv (OsSchedTaskWait h ticks s)"
  using core_Wait [OF sched_invD(1) [OF assms(1)] refl _ assms(3,2) _ assms(4), of ticks]
    running_Wait [OF sched_invD(2) [OF assms(1)], of h ticks] assms(2)
    running_okD [OF sched_invD(2) [OF assms(1)]]
  by (simp add: sched_inv_def unblocked_def)

text \<open>
  A task that has been taken off everything goes to its ready queue, or stays suspended.
\<close>

lemma core_release:
  assumes "core_ex R {t} s" "\<And>h. \<not> on s t h" "\<not> timed s t" "expiry s t = OS_SORT_LINK_INVALID_TIME"
    "t < g_taskMaxNum s" "taskID (tcb s t) = t" "priority (tcb s t) < OS_PRIORITY_QUEUE_NUM"
    "\<not> has (status s t) (OS_TASK_STATUS_READY OR OS_TASK_STATUS_UNUSED OR OS_TASK_STATUS_PEND OR
      OS_TASK_STATUS_PEND_TIME OR OS_TASK_STATUS_DELAY)"
    "t = g_idleTaskID s \<Longrightarrow> \<not> has (status s t) OS_TASK_STATUS_SUSPEND"
  shows "core R (if has (status s t) OS_TASK_STATUS_SUSPEND then s else OsSchedTaskEnQueue t s)"
proof (cases "has (status s t) OS_TASK_STATUS_SUSPEND")
  case True
  have "task_ok R s t"
    using assms(2-) by (intro task_okI) (auto simp: flags_ok_def)
  with assms(1) True show ?thesis by (simp add: core_exI)
next
  case False
  with assms show ?thesis by (simp add: core_enqueue)
qed

text \<open>
  A pending task is woken: off its wait list and off the sort link, and into its ready queue
  unless it is suspended.
\<close>

lemma Wake_eq:
  "OsSchedTaskWake t s =
    (let s1 = status_clear t OS_TASK_STATUS_PEND (s\<lparr>pend := LOS_ListDelete t (pend s)\<rparr>);
         s2 = (if has (status s t) OS_TASK_STATUS_PEND_TIME
               then status_clear t OS_TASK_STATUS_PEND_TIME (OsDeleteSortLink t OS_SORT_LINK_TASK s1) else s1)
     in if has (status s t) OS_TASK_STATUS_SUSPEND then s2 else OsSchedTaskEnQueue t s2)"
  by (simp add: OsSchedTaskWake_def Let_def)

lemma core_Wake:
  assumes "core R s" "t < g_taskMaxNum s" "t \<notin> R" "has (status s t) OS_TASK_STATUS_PEND"
  shows "core R (OsSchedTaskWake t s)"
proof -
  define s1 where "s1 = status_clear t OS_TASK_STATUS_PEND (s\<lparr>pend := LOS_ListDelete t (pend s)\<rparr>)"
  define s2 where "s2 = (if has (status s t) OS_TASK_STATUS_PEND_TIME
      then status_clear t OS_TASK_STATUS_PEND_TIME (OsDeleteSortLink t OS_SORT_LINK_TASK s1) else s1)"
  have ok: "task_ok R s t" using assms(1) by (simp add: core_exD)
  note d = task_okD [OF ok assms(2)] and fl = task_flags [OF ok assms(2)]
    and np = pend_not_prio [OF ok assms(2,4)]
  have store: "store_ok (pend s)" using core_exD(1) [OF assms(1)] by (simp add: lists_ok_def)
  have c1: "core_ex R {t} s1"
    unfolding s1_def using np(1)
    by (intro core_status core_remove core_ex_weaken [OF assms(1)]) auto
  then have c2: "core_ex R {t} s2"
    unfolding s2_def by (auto intro!: core_status core_DeleteSortLink)
  have off: "\<not> on s2 t h" for h
    by (auto simp: s2_def s1_def list_mem store)
  have st: "status s2 t = (if has (status s t) OS_TASK_STATUS_PEND_TIME
      then (status s t AND NOT OS_TASK_STATUS_PEND) AND NOT OS_TASK_STATUS_PEND_TIME
      else status s t AND NOT OS_TASK_STATUS_PEND)"
    by (simp add: s2_def s1_def)
  have keep: "taskID (tcb s2 t) = taskID (tcb s t)" "priority (tcb s2 t) = priority (tcb s t)"
    "g_taskMaxNum s2 = g_taskMaxNum s" "g_idleTaskID s2 = g_idleTaskID s"
    by (simp_all add: s2_def s1_def)
  have "lists_ok s1" using core_exD(1) [OF c1] .
  from DeleteSortLink_untimed [OF this, of t] have tm: "\<not> timed s2 t"
    using d(5) fl assms(3,4) by (auto simp: s2_def s1_def timed_def)
  have ex: "expiry s2 t = OS_SORT_LINK_INVALID_TIME"
    using d(5,6) fl assms(3,4) by (auto simp: s2_def s1_def timed_def)
  have "OsSchedTaskWake t s = (if has (status s2 t) OS_TASK_STATUS_SUSPEND then s2 else OsSchedTaskEnQueue t s2)"
    by (simp add: Wake_eq s2_def s1_def Let_def)
  moreover have "core R (if has (status s2 t) OS_TASK_STATUS_SUSPEND then s2 else OsSchedTaskEnQueue t s2)"
    using d(1,7,9) fl np assms(2,4) by (intro core_release [OF c2 off tm ex]) (auto simp: keep st)
  ultimately show ?thesis by simp
qed

lemma running_Wake: "running_ok s \<Longrightarrow> t \<noteq> runTask s \<Longrightarrow> running_ok (OsSchedTaskWake t s)"
  unfolding Wake_eq Let_def
  by (auto simp: running_ok_def EnQueue_flags)

theorem sched_inv_Wake:
  assumes "sched_inv s" "t < g_taskMaxNum s" "t \<noteq> runTask s" "has (status s t) OS_TASK_STATUS_PEND"
  shows "sched_inv (OsSchedTaskWake t s)"
  using assms core_Wake [of "{runTask s}" s t] running_Wake [of s t] by (simp add: sched_inv_def)

section \<open>The timeout\<close>

text \<open>
  The first node of the sort link is taken off and its task woken: with the \<open>TIMEOUT\<close> flag and
  off the wait list when it waits for a resource, from its delay otherwise.
\<close>

definition pop_timed :: "nat \<Rightarrow> 'a sched_state_scheme \<Rightarrow> 'a sched_state_scheme" where
  "pop_timed t s = s\<lparr>g_taskSortLink := OsDeleteNodeSortLink t (g_taskSortLink s)\<rparr>"

lemma pop_timed_eq:
  assumes "lists_ok s" "timed s t"
  shows "pop_timed t s = OsDeleteSortLink t OS_SORT_LINK_TASK s"
  using assms sortlink_ok_valid [of "g_taskSortLink s" t]
  by (simp add: pop_timed_def OsDeleteSortLink_def upd_sortlink_def OsGetSortLinkAttribute_def
      lists_ok_def sortlinks_ok_def timed_def)

lemma timed_lt: "task_ok R s t \<Longrightarrow> timed s t \<Longrightarrow> t < g_taskMaxNum s"
  unfolding task_ok_def by presburger

lemma core_WakePendTime:
  assumes "core R s" "timed s t"
  shows "core R (snd (OsSchedWakePendTimeTask time t need (pop_timed t s)))"
proof -
  note lists = core_exD(1) [OF assms(1)]
  have ok: "task_ok R s t" using assms(1) by (simp add: core_exD)
  have lt: "t < g_taskMaxNum s"
    by (rule timed_lt [OF ok assms(2)])
  note d = task_okD [OF ok lt] and fl = task_flags [OF ok lt]
  have tR: "t \<notin> R" and flag: "has (status s t) OS_TASK_STATUS_DELAY \<or> has (status s t) OS_TASK_STATUS_PEND_TIME"
    using d(5) assms(2) by auto
  then have pd: "has (status s t) OS_TASK_STATUS_PEND \<or> has (status s t) OS_TASK_STATUS_DELAY"
    using fl(3) by blast
  let ?p = "OsDeleteSortLink t OS_SORT_LINK_TASK s"
  have store: "store_ok (pend s)" using lists by (simp add: lists_ok_def)
  have c0: "core_ex R {t} ?p"
    by (intro core_DeleteSortLink core_ex_weaken [OF assms(1)]) auto
  define s1 where "s1 = status_clear t (OS_TASK_STATUS_PEND OR OS_TASK_STATUS_PEND_TIME OR OS_TASK_STATUS_DELAY) ?p"
  define s2 where "s2 = (if has (status s t) OS_TASK_STATUS_PEND
      then upd_tcb t (\<lambda>c. c\<lparr>taskMux := None, taskSem := None\<rparr>)
             (status_or t OS_TASK_STATUS_TIMEOUT s1\<lparr>pend := LOS_ListDelete t (pend s1)\<rparr>)
      else s1)"
  have nr: "\<not> has (status s t) OS_TASK_STATUS_READY" "\<not> has (status s t) OS_TASK_STATUS_UNUSED"
    using fl(1,4) flag by blast+
  have nid: "t \<noteq> g_idleTaskID s"
    using d(9) flag fl(3) by blast
  have c1: "core_ex R {t} s1"
    unfolding s1_def by (intro core_status c0) simp
  have np: "\<not> on s1 t (PriQ p)" for p
    using d(2) nr(1) by (simp add: s1_def)
  have "core_ex R {t} (upd_tcb t (\<lambda>c. c\<lparr>taskMux := None, taskSem := None\<rparr>)
             (status_or t OS_TASK_STATUS_TIMEOUT s1\<lparr>pend := LOS_ListDelete t (pend s1)\<rparr>))"
    by (intro core_upd core_remove core_status c1) (simp_all add: np)
  with c1 have c2: "core_ex R {t} s2" by (simp add: s2_def)
  have off: "\<not> on s2 t h" for h
    using off_lists [OF ok lt nr] by (auto simp: s2_def s1_def list_mem store on_def)
  have tm: "\<not> timed s2 t"
    using DeleteSortLink_untimed [OF lists, of t] by (auto simp: s2_def s1_def)
  have ex: "expiry s2 t = OS_SORT_LINK_INVALID_TIME"
    by (simp add: s2_def s1_def)
  have keep: "taskID (tcb s2 t) = taskID (tcb s t)" "priority (tcb s2 t) = priority (tcb s t)"
    "g_taskMaxNum s2 = g_taskMaxNum s" "g_idleTaskID s2 = g_idleTaskID s"
    by (simp_all add: s2_def s1_def)
  have susp: "has (status s2 t) f = has (status s t) f"
    if "f \<in> {OS_TASK_STATUS_SUSPEND, OS_TASK_STATUS_READY, OS_TASK_STATUS_UNUSED}" for f
    using that by (auto simp: s2_def s1_def)
  have clr: "\<not> has (status s2 t) (OS_TASK_STATUS_PEND OR OS_TASK_STATUS_PEND_TIME OR OS_TASK_STATUS_DELAY)"
    by (simp add: s2_def s1_def)
  have "snd (OsSchedWakePendTimeTask time t need (pop_timed t s)) =
      (if has (status s2 t) OS_TASK_STATUS_SUSPEND then s2 else OsSchedTaskEnQueue t s2)"
    using pd unfolding pop_timed_eq [OF lists assms(2)] s2_def s1_def OsSchedWakePendTimeTask_def Let_def
    by auto
  moreover have "core R (if has (status s2 t) OS_TASK_STATUS_SUSPEND then s2 else OsSchedTaskEnQueue t s2)"
    using d(1,7) nr clr lt nid
    by (intro core_release [OF c2 off tm ex]) (auto simp: keep susp)
  ultimately show ?thesis by simp
qed

lemma WakePendTime_flags:
  "has (status (snd (OsSchedWakePendTimeTask time t need s)) u) OS_TASK_STATUS_RUNNING =
    has (status s u) OS_TASK_STATUS_RUNNING"
  "u \<noteq> t \<Longrightarrow> tcb (snd (OsSchedWakePendTimeTask time t need s)) u = tcb s u"
  by (auto simp: OsSchedWakePendTimeTask_def Let_def EnQueue_flags EnQueue_sel)

lemma running_WakePendTime:
  assumes "running_ok s" "t \<noteq> runTask s"
  shows "running_ok (snd (OsSchedWakePendTimeTask time t need (pop_timed t s)))"
  by (rule running_same [OF assms(1)])
    (use assms in \<open>auto simp: WakePendTime_flags pop_timed_def running_ok_def\<close>)

lemma scan_step:
  "scan_timer_list currTime need s =
    (if sortLink (g_taskSortLink s) = [] \<or>
        currTime < expiry s (hd (sortLink (g_taskSortLink s))) then (need, s)
     else
       let r = OsSchedWakePendTimeTask currTime (hd (sortLink (g_taskSortLink s))) need
                 (pop_timed (hd (sortLink (g_taskSortLink s))) s)
       in scan_timer_list currTime (fst r) (snd r))"
  by (subst scan_timer_list.simps) (auto simp: Let_def pop_timed_def not_le)

lemma timed_not_run:
  "core {r} s \<Longrightarrow> timed s t \<Longrightarrow> t \<noteq> r"
  using task_okD(5) [of "{r}" s t] timed_lt [of "{r}" s t] core_exD(3) [of "{r}" "{}" s t] by blast

lemma scan_inv:
  "core {runTask s} s \<and> running_ok s \<Longrightarrow>
   core {runTask s} (snd (scan_timer_list currTime need s)) \<and>
   running_ok (snd (scan_timer_list currTime need s))"
proof (induction "length (sortLink (g_taskSortLink s))" arbitrary: need s rule: less_induct)
  case less
  let ?t = "hd (sortLink (g_taskSortLink s))"
  let ?r = "OsSchedWakePendTimeTask currTime ?t need (pop_timed ?t s)"
  show ?case
  proof (cases "sortLink (g_taskSortLink s) = [] \<or> currTime < expiry s ?t")
    case True
    then have "scan_timer_list currTime need s = (need, s)" by (subst scan_step) simp
    with less.prems show ?thesis by simp
  next
    case False
    then have ne: "sortLink (g_taskSortLink s) \<noteq> []" by simp
    then have tm: "timed s ?t" by (simp add: timed_def)
    have "core {runTask s} (snd ?r)"
      using less.prems tm by (intro core_WakePendTime) auto
    moreover have "running_ok (snd ?r)"
      using less.prems tm timed_not_run by (intro running_WakePendTime) auto
    moreover have "length (sortLink (g_taskSortLink (snd ?r))) < length (sortLink (g_taskSortLink s))"
      using ne by (simp add: pop_timed_def length_remove1)
    moreover have "runTask (snd ?r) = runTask s" by (simp add: pop_timed_def)
    moreover have "scan_timer_list currTime need s = scan_timer_list currTime (fst ?r) (snd ?r)"
      using False by (subst scan_step) (simp add: Let_def)
    ultimately show ?thesis
      using less.hyps [of "snd ?r" "fst ?r"] by simp
  qed
qed

lemma ScanTimerList_inv:
  "sched_inv s \<Longrightarrow> sched_inv (snd (OsSchedScanTimerList s))"
  using scan_inv [of "snd (OsGetCurrSchedTimeCycle s)"]
  by (auto simp: OsSchedScanTimerList_def sched_inv_def case_prod_beta)

section \<open>Priority and exit\<close>

lemma unused_pseudo:
  assumes "task_ok R s t" "t \<le> g_taskMaxNum s" "\<not> has (status s t) OS_TASK_STATUS_UNUSED"
  shows "t < g_taskMaxNum s"
proof (rule ccontr)
  assume "\<not> t < g_taskMaxNum s"
  with assms(2) have "t = g_taskMaxNum s" by simp
  with assms(1,3) show False by (simp add: task_ok_def)
qed

lemma ready_off_after_dequeue:
  assumes "core R s" "t < g_taskMaxNum s" "has (status s t) OS_TASK_STATUS_READY"
  shows "\<not> on (OsSchedTaskDeQueue t s) t h"
  using ready_on [OF assms(1) _ assms(3)] task_okD(1) [OF core_exD(3) [OF assms(1)] assms(2)] assms(3)
  by (auto simp: DeQueue_on [OF core_exD(1) [OF assms(1)]])

lemma core_set_priority:
  assumes "core R s" "t < g_taskMaxNum s" "p < OS_PRIORITY_QUEUE_NUM"
    "\<not> has (status s t) OS_TASK_STATUS_READY"
  shows "core R (upd_tcb t (priority_update (\<lambda>_. p)) s)"
proof (rule core_exI [where t = t])
  show "core_ex R {t} (upd_tcb t (priority_update (\<lambda>_. p)) s)"
    by (intro core_upd core_ex_weaken [OF assms(1)]) auto
  have ok: "task_ok R s t" using assms(1) by (simp add: core_exD)
  then show "task_ok R (upd_tcb t (priority_update (\<lambda>_. p)) s) t"
    using task_okD [OF ok assms(2)] assms(2-4) by (intro task_okI) auto
qed

lemma core_Modify:
  assumes "core R s" "t < g_taskMaxNum s" "p < OS_PRIORITY_QUEUE_NUM"
  shows "core R (snd (OsSchedModifyTaskSchedParam t p s))"
proof (cases "has (status s t) OS_TASK_STATUS_READY")
  case False
  with core_set_priority [OF assms False] show ?thesis
    by (simp add: OsSchedModifyTaskSchedParam_def Let_def)
next
  case True
  let ?d = "OsSchedTaskDeQueue t s"
  let ?u = "upd_tcb t (priority_update (\<lambda>_. p)) ?d"
  have ok: "task_ok R s t" using assms(1) by (simp add: core_exD)
  note d = task_okD [OF ok assms(2)] and fl = task_flags(1) [OF ok assms(2) True]
  have c: "core R ?d" using core_dequeue [OF assms(1)] assms(2) by simp
  have "core R (OsSchedTaskEnQueue t ?u)"
  proof (rule core_enqueue)
    show "core_ex R {t} ?u"
      by (intro core_upd core_ex_weaken [OF c]) auto
    show "\<not> timed ?u t" "expiry ?u t = OS_SORT_LINK_INVALID_TIME"
      using d(5,6) fl by (auto simp: DeQueue_sel)
    show "\<not> has (status ?u t) (OS_TASK_STATUS_READY OR OS_TASK_STATUS_UNUSED)"
      using fl by (simp add: DeQueue_flags)
  qed (use assms d(1) ready_off_after_dequeue [OF assms(1,2) True] True in \<open>auto simp: DeQueue_sel\<close>)
  with True show ?thesis by (simp add: OsSchedModifyTaskSchedParam_def Let_def)
qed

lemma running_Modify:
  "running_ok s \<Longrightarrow> running_ok (snd (OsSchedModifyTaskSchedParam t p s))"
  by (rule running_same)
    (auto simp: OsSchedModifyTaskSchedParam_def Let_def EnQueue_flags DeQueue_flags running_ok_def)

lemma sched_inv_Modify:
  assumes "sched_inv s" "t < g_taskMaxNum s" "p < OS_PRIORITY_QUEUE_NUM"
  shows "sched_inv (snd (OsSchedModifyTaskSchedParam t p s))"
  using assms core_Modify running_Modify by (auto simp: sched_inv_def)

text \<open>After its exit a task is on no list, and no flag says that it waits for something.\<close>

lemma Exit_task:
  assumes "core R s" "t < g_taskMaxNum s" "\<not> has (status s t) OS_TASK_STATUS_UNUSED"
  shows "core_ex R {t} (OsSchedTaskExit t s)"
    and "\<not> on (OsSchedTaskExit t s) t h" and "\<not> timed (OsSchedTaskExit t s) t"
proof -
  have ok: "task_ok R s t" using assms(1) by (simp add: core_exD)
  note d = task_okD [OF ok assms(2)] and fl = task_flags [OF ok assms(2)]
  note lists = core_exD(1) [OF assms(1)]
  have store: "store_ok (pend s)" using lists by (simp add: lists_ok_def)
  define s1 where "s1 = (if has (status s t) OS_TASK_STATUS_READY then OsSchedTaskDeQueue t s
      else if has (status s t) OS_TASK_STATUS_PEND
      then status_clear t OS_TASK_STATUS_PEND (s\<lparr>pend := LOS_ListDelete t (pend s)\<rparr>) else s)"
  have eq: "OsSchedTaskExit t s =
    (if has (status s1 t) (OS_TASK_STATUS_DELAY OR OS_TASK_STATUS_PEND_TIME)
     then status_clear t (OS_TASK_STATUS_DELAY OR OS_TASK_STATUS_PEND_TIME)
            (OsDeleteSortLink t OS_SORT_LINK_TASK s1) else s1)"
    by (simp add: OsSchedTaskExit_def Let_def s1_def)
  have np: "\<not> has (status s t) OS_TASK_STATUS_READY \<Longrightarrow> \<not> on s t (PriQ p)" for p
    using d(2) by simp
  have c1: "core_ex R {t} s1"
  proof (cases "has (status s t) OS_TASK_STATUS_READY")
    case True
    then show ?thesis
      using core_ex_weaken [OF core_dequeue [OF assms(1)], of t "{t}"] assms(2) by (simp add: s1_def)
  next
    case False
    have "core_ex R {t} (status_clear t OS_TASK_STATUS_PEND (s\<lparr>pend := LOS_ListDelete t (pend s)\<rparr>))"
      by (intro core_status core_remove core_ex_weaken [OF assms(1)]) (use np [OF False] in auto)
    then show ?thesis
      using False core_ex_weaken [OF assms(1), of "{t}"] by (simp add: s1_def)
  qed
  have off: "\<not> on s1 t k" for k
    using ready_off_after_dequeue [OF assms(1,2)] off_lists [OF ok assms(2) _ assms(3)]
    by (simp add: s1_def list_mem store)
  have tm: "timed s1 t = timed s t" by (simp add: s1_def DeQueue_sel)
  have fl1: "has (status s1 t) f = has (status s t) f"
    if "f = OS_TASK_STATUS_DELAY \<or> f = OS_TASK_STATUS_PEND_TIME" for f
    using that by (auto simp: s1_def DeQueue_flags)
  show "core_ex R {t} (OsSchedTaskExit t s)"
    unfolding eq using c1 by (auto intro!: core_status core_DeleteSortLink)
  show "\<not> on (OsSchedTaskExit t s) t h"
    using off by (simp add: eq)
  show "\<not> timed (OsSchedTaskExit t s) t"
    using d(5) fl1 tm DeleteSortLink_untimed [OF core_exD(1) [OF c1], of t] by (auto simp: eq)
qed

lemma Exit_frame:
  "u \<noteq> t \<Longrightarrow> tcb (OsSchedTaskExit t s) u = tcb s u"
  "taskID (tcb (OsSchedTaskExit t s) t) = taskID (tcb s t)"
  "has (status (OsSchedTaskExit t s) u) OS_TASK_STATUS_RUNNING = has (status s u) OS_TASK_STATUS_RUNNING"
  by (cases "u = t"; simp add: OsSchedTaskExit_def Let_def DeQueue_sel DeQueue_flags)+

end
