(* ===== verification/Sched_Switch.thy ===== *)
theory Sched_Switch
  imports Sched_Ops
begin

text \<open>
  The choice of the next task and the task switch: \<open>OsGetTopTask\<close> finds a task of the highest
  ready priority in the bitmap, and \<open>OsSchedTaskSwitch\<close> with \<open>HalPendSV\<close> puts the running
  task where its flags say and makes the chosen one the running task.
\<close>

section \<open>The task of the highest priority\<close>

text \<open>No task but the idle task is ready, or one of the highest priority is chosen.\<close>

definition top_of :: "'a sched_state_scheme \<Rightarrow> nat \<Rightarrow> bool" where
  "top_of s t \<longleftrightarrow>
    (if \<exists>u<g_taskMaxNum s. has (status s u) OS_TASK_STATUS_READY \<and> u \<noteq> g_idleTaskID s
     then has (status s t) OS_TASK_STATUS_READY \<and> t < g_taskMaxNum s \<and> t \<noteq> g_idleTaskID s \<and>
       t = hd (pend s (PriQ (priority (tcb s t)))) \<and>
       (\<forall>u<g_taskMaxNum s. has (status s u) OS_TASK_STATUS_READY \<and> u \<noteq> g_idleTaskID s \<longrightarrow>
          priority (tcb s t) \<le> priority (tcb s u))
     else t = g_idleTaskID s)"

lemma bitmap_queue:
  assumes "lists_ok s" "n < OS_PRIORITY_QUEUE_NUM"
  shows "bit (g_queueBitmap s) (31 - n) \<longleftrightarrow> pend s (PriQ n) \<noteq> []"
  using assms by (simp add: lists_ok_def)

lemma bitmap_zero:
  assumes "lists_ok s" "g_queueBitmap s = 0" "n < OS_PRIORITY_QUEUE_NUM"
  shows "pend s (PriQ n) = []"
  using bitmap_queue [OF assms(1,3)] assms(2) by simp

lemma ready_in_queue:
  assumes "core R s" "u < g_taskMaxNum s" "has (status s u) OS_TASK_STATUS_READY" "u \<noteq> g_idleTaskID s"
  shows "u \<in> set (pend s (PriQ (priority (tcb s u))))" "priority (tcb s u) < OS_PRIORITY_QUEUE_NUM"
proof -
  have ok: "task_ok R s u" using assms(1) by (simp add: core_exD)
  show "u \<in> set (pend s (PriQ (priority (tcb s u))))"
    using task_okD(2) [OF ok assms(2)] assms(3,4) by (simp add: on_def)
  show "priority (tcb s u) < OS_PRIORITY_QUEUE_NUM" by (rule ready_prio [OF ok assms(2,3)])
qed

lemma on_lt: "task_ok R s t \<Longrightarrow> on s t h \<Longrightarrow> t < g_taskMaxNum s"
  by (rule ccontr) (simp add: task_ok_def)

lemma in_queue_ready:
  assumes "core R s" "u \<in> set (pend s (PriQ p))"
  shows "u < g_taskMaxNum s" "has (status s u) OS_TASK_STATUS_READY" "priority (tcb s u) = p"
    "u \<noteq> g_idleTaskID s"
proof -
  have ok: "task_ok R s u" using assms(1) by (simp add: core_exD)
  have on: "on s u (PriQ p)" using assms(2) by (simp add: on_def)
  then show lt: "u < g_taskMaxNum s" by (rule on_lt [OF ok])
  show "has (status s u) OS_TASK_STATUS_READY" "priority (tcb s u) = p" "u \<noteq> g_idleTaskID s"
    using task_okD(2) [OF ok lt, of p] on by auto
qed

lemma top_task:
  assumes "core R s"
  shows "top_of s (OsGetTopTask s)"
proof (cases "g_queueBitmap s = 0")
  case True
  note lists = core_exD(1) [OF assms]
  have "\<not> (has (status s u) OS_TASK_STATUS_READY \<and> u \<noteq> g_idleTaskID s)" if "u < g_taskMaxNum s" for u
    using ready_in_queue [OF assms that] bitmap_zero [OF lists True] by fastforce
  with True show ?thesis by (auto simp: top_of_def OsGetTopTask_def)
next
  case False
  note lists = core_exD(1) [OF assms]
  let ?p = "CLZ (g_queueBitmap s)"
  let ?t = "hd (pend s (PriQ ?p))"
  have p: "?p < OS_PRIORITY_QUEUE_NUM"
    using CLZ_less [OF False] by (simp add: OS_PRIORITY_QUEUE_NUM_def)
  have "pend s (PriQ ?p) \<noteq> []"
    using bitmap_queue [OF lists p] CLZ_bit [OF False] by simp
  then have mem: "?t \<in> set (pend s (PriQ ?p))" by simp
  note t = in_queue_ready [OF assms mem]
  have least: "?p \<le> priority (tcb s u)"
    if "u < g_taskMaxNum s" "has (status s u) OS_TASK_STATUS_READY" "u \<noteq> g_idleTaskID s" for u
  proof (rule ccontr)
    assume "\<not> ?p \<le> priority (tcb s u)"
    then have "\<not> bit (g_queueBitmap s) (31 - priority (tcb s u))"
      using ready_in_queue(2) [OF assms that] by (intro CLZ_least) (simp_all add: OS_PRIORITY_QUEUE_NUM_def)
    with bitmap_queue [OF lists ready_in_queue(2) [OF assms that]] have "pend s (PriQ (priority (tcb s u))) = []"
      by simp
    with ready_in_queue(1) [OF assms that] show False by simp
  qed
  have eq: "OsGetTopTask s = ?t"
    using False by (simp add: OsGetTopTask_def LOS_DL_LIST_FIRST_def)
  show ?thesis
    unfolding eq top_of_def using t least by auto
qed

text \<open>The chosen task waits for nothing.\<close>

lemma top_task_flags:
  assumes "core R s" "g_idleTaskID s < g_taskMaxNum s"
  shows "OsGetTopTask s < g_taskMaxNum s"
    and "\<not> has (status s (OsGetTopTask s)) (OS_TASK_STATUS_PEND OR OS_TASK_STATUS_PEND_TIME OR
      OS_TASK_STATUS_DELAY OR OS_TASK_STATUS_SUSPEND OR OS_TASK_STATUS_UNUSED)"
proof -
  let ?t = "OsGetTopTask s"
  have top: "top_of s ?t" by (rule top_task [OF assms(1)])
  show lt: "?t < g_taskMaxNum s"
    using top assms(2) unfolding top_of_def by presburger
  have ok: "task_ok R s ?t" using assms(1) by (simp add: core_exD)
  note fl = task_flags [OF ok lt]
  consider "has (status s ?t) OS_TASK_STATUS_READY" | "?t = g_idleTaskID s"
    using top unfolding top_of_def by presburger
  then show "\<not> has (status s ?t) (OS_TASK_STATUS_PEND OR OS_TASK_STATUS_PEND_TIME OR
      OS_TASK_STATUS_DELAY OR OS_TASK_STATUS_SUSPEND OR OS_TASK_STATUS_UNUSED)"
  proof cases
    case 1
    then show ?thesis using fl(1) by simp
  next
    case 2
    then show ?thesis using task_okD(9) [OF ok lt 2] fl(3) unfolding has_or_right by blast
  qed
qed

section \<open>The switch\<close>

text \<open>The \<open>RUNNING\<close> and the \<open>TIMEOUT\<close> flag say nothing about lists.\<close>

lemma flags_ok_cong:
  assumes "\<And>f. f \<in> {OS_TASK_STATUS_UNUSED, OS_TASK_STATUS_SUSPEND, OS_TASK_STATUS_READY,
    OS_TASK_STATUS_PEND, OS_TASK_STATUS_DELAY, OS_TASK_STATUS_PEND_TIME} \<Longrightarrow> has w f = has v f"
  shows "flags_ok (w AND NOT OS_TASK_STATUS_RUNNING) = flags_ok (v AND NOT OS_TASK_STATUS_RUNNING)"
  by (simp add: flags_ok_def assms)

lemma task_ok_flags_cong:
  fixes s s' :: "'a sched_state_scheme"
  assumes eqs: "taskID (tcb s' t) = taskID (tcb s t)" "priority (tcb s' t) = priority (tcb s t)"
    "timeSlice (tcb s' t) = timeSlice (tcb s t)" "\<And>h. on s' t h = on s t h" "timed s' t = timed s t"
    "expiry s' t = expiry s t" "g_taskMaxNum s' = g_taskMaxNum s" "g_idleTaskID s' = g_idleTaskID s"
    "cfg s' = cfg s"
    and keep: "\<And>f. f \<in> {OS_TASK_STATUS_UNUSED, OS_TASK_STATUS_SUSPEND, OS_TASK_STATUS_READY,
      OS_TASK_STATUS_PEND, OS_TASK_STATUS_DELAY, OS_TASK_STATUS_PEND_TIME} \<Longrightarrow>
      has (status s' t) f = has (status s t) f"
  shows "task_ok R s' t = task_ok R s t"
proof -
  have st: "has (status s' t) OS_TASK_STATUS_UNUSED = has (status s t) OS_TASK_STATUS_UNUSED"
    "has (status s' t) OS_TASK_STATUS_SUSPEND = has (status s t) OS_TASK_STATUS_SUSPEND"
    "has (status s' t) OS_TASK_STATUS_READY = has (status s t) OS_TASK_STATUS_READY"
    "has (status s' t) OS_TASK_STATUS_PEND = has (status s t) OS_TASK_STATUS_PEND"
    "has (status s' t) OS_TASK_STATUS_DELAY = has (status s t) OS_TASK_STATUS_DELAY"
    "has (status s' t) OS_TASK_STATUS_PEND_TIME = has (status s t) OS_TASK_STATUS_PEND_TIME"
    by (rule keep; simp)+
  show ?thesis
    by (simp only: task_ok_def has_or_right eqs st flags_ok_cong [OF keep])
qed

lemma task_ok_flag:
  assumes "f = OS_TASK_STATUS_RUNNING \<or> f = OS_TASK_STATUS_TIMEOUT"
  shows "task_ok R (status_or t f s) t = task_ok R s t"
    and "task_ok R (status_clear t f s) t = task_ok R s t"
  by (rule task_ok_flags_cong; use assms in auto)+

lemma core_flag:
  assumes "core R s" "f = OS_TASK_STATUS_RUNNING \<or> f = OS_TASK_STATUS_TIMEOUT"
  shows "core R (status_or t f s)" "core R (status_clear t f s)"
proof -
  have c: "core_ex R {t} s" by (rule core_ex_weaken [OF assms(1)]) simp
  have ok: "task_ok R s t" using assms(1) by (simp add: core_exD)
  show "core R (status_or t f s)"
    by (rule core_exI [OF core_status(1) [OF c]]) (simp_all add: task_ok_flag [OF assms(2)] ok)
  show "core R (status_clear t f s)"
    by (rule core_exI [OF core_status(2) [OF c]]) (simp_all add: task_ok_flag [OF assms(2)] ok)
qed

text \<open>Which tasks are counted as running changes nothing for the others.\<close>

lemma task_ok_others: "u \<noteq> r \<Longrightarrow> task_ok (insert r R) s u = task_ok R s u"
  by (simp add: task_ok_def)

lemma task_ok_untimed:
  "\<not> has (status s r) (OS_TASK_STATUS_DELAY OR OS_TASK_STATUS_PEND_TIME) \<Longrightarrow>
   task_ok (insert r R) s r = task_ok R s r"
  by (simp add: task_ok_def)

lemma core_untimed:
  assumes "\<not> has (status s r) (OS_TASK_STATUS_DELAY OR OS_TASK_STATUS_PEND_TIME)"
  shows "core (insert r R) s \<longleftrightarrow> core R s"
proof -
  have "task_ok (insert r R) s u = task_ok R s u" for u
    using task_ok_others [of u r R s] task_ok_untimed [OF assms] by (cases "u = r") simp_all
  then show ?thesis by (simp add: core_ex_def)
qed

text \<open>
  The switch in three parts: the account of the running task is closed and the task placed on
  the sort link or in its ready queue; the \<open>RUNNING\<close> flag moves; the new task leaves its queue.
\<close>

definition switch_account :: "'a sched_state_scheme \<Rightarrow> 'a sched_state_scheme" where
  "switch_account s =
    OsTimeSliceUpdate (runTask s) (fst (OsGetCurrSchedTimeCycle s)) (snd (OsGetCurrSchedTimeCycle s))"

definition switch_place :: "nat \<Rightarrow> 'a sched_state_scheme \<Rightarrow> 'a sched_state_scheme" where
  "switch_place run s =
    (if has (status s run) (OS_TASK_STATUS_PEND_TIME OR OS_TASK_STATUS_DELAY)
     then OsAdd2SortLink run (startTime (tcb s run)) (waitTimes (tcb s run)) OS_SORT_LINK_TASK s
     else if \<not> has (status s run)
       (OS_TASK_STATUS_PEND OR OS_TASK_STATUS_SUSPEND OR OS_TASK_STATUS_UNUSED)
     then OsSchedTaskEnQueue run s else s)"

definition switch_flags :: "nat \<Rightarrow> nat \<Rightarrow> 'a sched_state_scheme \<Rightarrow> 'a sched_state_scheme" where
  "switch_flags run new s =
    (if run \<noteq> new then
       let s = status_clear run OS_TASK_STATUS_RUNNING s;
           s = status_or new OS_TASK_STATUS_RUNNING s
       in upd_tcb new (startTime_update (\<lambda>_. startTime (tcb s run))) s
     else s)"

lemma OsSchedTaskSwitch_eq:
  "\<exists>start rid endt. OsSchedTaskSwitch s =
    (let s2 = switch_place (runTask s) (switch_account s);
         new = OsGetTopTask s2
     in (runTask s \<noteq> new, OsSchedSetNextExpireTime start rid endt
           (OsSchedTaskDeQueue new (switch_flags (runTask s) new (s2\<lparr>newTask := new\<rparr>)))))"
  unfolding OsSchedTaskSwitch_def switch_account_def switch_place_def switch_flags_def Let_def case_prod_beta
  by blast

lemma switch_account_sel [simp]:
  "status (switch_account s) u = status s u"
  "priority (tcb (switch_account s) u) = priority (tcb s u)"
  "on (switch_account s) u h = on s u h"
  "pend (switch_account s) = pend s"
  "g_taskSortLink (switch_account s) = g_taskSortLink s"
  "g_taskMaxNum (switch_account s) = g_taskMaxNum s" "runTask (switch_account s) = runTask s"
  "g_idleTaskID (switch_account s) = g_idleTaskID s"
  by (simp_all add: switch_account_def on_def)

lemma switch_account_inv: "sched_inv s \<Longrightarrow> core {runTask s} (switch_account s) \<and> running_ok (switch_account s)"
  unfolding switch_account_def sched_inv_def
  by (auto intro!: core_TimeSliceUpdate simp: running_ok_def)

text \<open>The expiry of a wait that starts with the switch is a valid time.\<close>

definition no_overflow :: "'a sched_state_scheme \<Rightarrow> bool" where
  "no_overflow s \<longleftrightarrow>
    expire_at s (fst (OsGetCurrSchedTimeCycle s)) (waitTimes (tcb s (runTask s))) \<noteq> OS_SORT_LINK_INVALID_TIME"

lemma switch_place_core:
  assumes "core {run} s" "run \<le> g_taskMaxNum s" "\<not> has (status s run) OS_TASK_STATUS_READY"
    "expire_at s (startTime (tcb s run)) (waitTimes (tcb s run)) \<noteq> OS_SORT_LINK_INVALID_TIME"
  shows "core {} (switch_place run s)"
proof (cases "has (status s run) (OS_TASK_STATUS_PEND_TIME OR OS_TASK_STATUS_DELAY)")
  case True
  have ok: "task_ok {run} s run" using assms(1) by (simp add: core_exD)
  have lt: "run < g_taskMaxNum s"
  proof (rule ccontr)
    assume "\<not> run < g_taskMaxNum s"
    with assms(2) have "run = g_taskMaxNum s" by simp
    with ok True show False by (simp add: task_ok_def)
  qed
  note d = task_okD [OF ok lt]
  have tm: "\<not> timed s run" using d(5) by simp
  have "core_ex {} {run} s"
    using assms(1) task_ok_others [of _ run "{}" s] by (auto simp: core_ex_def)
  then have c: "core_ex {} {run} (OsAdd2SortLink run start ticks OS_SORT_LINK_TASK s)"
    if "expire_at s start ticks \<noteq> OS_SORT_LINK_INVALID_TIME" for start ticks
    using that tm by (intro core_Add2SortLink) auto
  note link = Add2SortLink_link [OF core_exD(1) [OF assms(1)] tm]
  let ?s = "OsAdd2SortLink run (startTime (tcb s run)) (waitTimes (tcb s run)) OS_SORT_LINK_TASK s"
  have "task_ok {} ?s run"
    using d lt assms(3) True by (intro task_okI) (auto simp: link)
  with c [OF assms(4)] have "core {} ?s" by (intro core_exI)
  with True show ?thesis unfolding switch_place_def by (simp only: if_True)
next
  case False
  then have nd: "\<not> has (status s run) (OS_TASK_STATUS_DELAY OR OS_TASK_STATUS_PEND_TIME)" by auto
  have c: "core {} s" using core_untimed [OF nd, of "{}"] assms(1) by simp
  show ?thesis
  proof (cases "has (status s run) (OS_TASK_STATUS_PEND OR OS_TASK_STATUS_SUSPEND OR OS_TASK_STATUS_UNUSED)")
    case True
    with False c show ?thesis unfolding switch_place_def by (simp only: if_False not_True_eq_False)
  next
    case nb: False
    have ok: "task_ok {} s run" using c by (simp add: core_exD)
    have lt: "run < g_taskMaxNum s"
      by (rule unused_pseudo [OF ok assms(2)]) (use nb in simp)
    have off: "\<not> on s run h" for h
      by (rule off_lists [OF ok lt assms(3)]) (use nb in simp_all)
    have "core {} (OsSchedTaskEnQueue run s)"
      using task_okD(1,5,6,7) [OF ok lt] nb nd assms(3) off lt
      by (intro core_enqueue core_ex_weaken [OF c]) auto
    with False nb show ?thesis unfolding switch_place_def by (simp only: if_False if_True simp_thms)
  qed
qed

lemma switch_place_sel [simp]:
  "g_taskMaxNum (switch_place run s) = g_taskMaxNum s" "runTask (switch_place run s) = runTask s"
  "g_idleTaskID (switch_place run s) = g_idleTaskID s"
  "has (status (switch_place run s) u) OS_TASK_STATUS_RUNNING = has (status s u) OS_TASK_STATUS_RUNNING"
  by (simp_all add: switch_place_def EnQueue_flags)

lemma switch_flags_sel [simp]:
  "pend (switch_flags run new s) = pend s"
  "g_taskMaxNum (switch_flags run new s) = g_taskMaxNum s" "runTask (switch_flags run new s) = runTask s"
  "g_idleTaskID (switch_flags run new s) = g_idleTaskID s" "newTask (switch_flags run new s) = newTask s"
  "priority (tcb (switch_flags run new s) u) = priority (tcb s u)"
  "\<not> has OS_TASK_STATUS_RUNNING f \<Longrightarrow> single f \<Longrightarrow> has (status (switch_flags run new s) u) f = has (status s u) f"
  by (auto simp: switch_flags_def Let_def) (simp_all add: status_or_def status_clear_def upd_tcb_def)

lemma switch_flags_running:
  "has (status s run) OS_TASK_STATUS_RUNNING \<or> run \<noteq> new \<Longrightarrow>
   has (status (switch_flags run new s) u) OS_TASK_STATUS_RUNNING \<longleftrightarrow>
    u = new \<or> (has (status s u) OS_TASK_STATUS_RUNNING \<and> u \<noteq> run)"
  by (auto simp: switch_flags_def Let_def)

lemma core_start_time:
  assumes "core R s" shows "core R (upd_tcb t (startTime_update f) s)"
  by (rule core_exI_same [OF assms])
    (auto simp: core_exD(1) [OF assms] core_exD(2) [OF assms] same_for_def)

lemma CurrTime_pendSV: "fst (OsGetCurrSchedTimeCycle (s\<lparr>pendSV := b\<rparr>)) = fst (OsGetCurrSchedTimeCycle s)"
  by (cases "g_taskScheduled s")
    (simp_all add: OsGetCurrSchedTimeCycle_def HalGetTickCycle_def Let_def LOS_ASSERT_def)

lemma core_switch_flags: "core R s \<Longrightarrow> core R (switch_flags run new s)"
  by (simp add: switch_flags_def Let_def core_flag core_start_time)

lemma core_newTask [simp]: "core R (s\<lparr>newTask := t\<rparr>) = core R s"
  by (rule core_frame) simp_all

lemma core_runTask [simp]: "core R (s\<lparr>runTask := t\<rparr>) = core R s"
  by (rule core_frame) simp_all

lemma core_pendSV [simp]: "core R (s\<lparr>pendSV := b\<rparr>) = core R s"
  by (rule core_frame) simp_all

text \<open>
  The state after the switch: the invariant holds again, the new running task waits for nothing,
  and no ready task has a higher priority than it.
\<close>

definition switched :: "'a sched_state_scheme \<Rightarrow> bool" where
  "switched s \<longleftrightarrow> sched_inv s \<and> unblocked s \<and>
    (\<forall>u<g_taskMaxNum s. has (status s u) OS_TASK_STATUS_READY \<and> u \<noteq> g_idleTaskID s \<longrightarrow>
       runTask s \<noteq> g_idleTaskID s \<and> priority (tcb s (runTask s)) \<le> priority (tcb s u))"

lemma switch_result:
  assumes inv: "sched_inv s" and idle: "g_idleTaskID s < g_taskMaxNum s" and time: "no_overflow s"
    and s2: "s2 = switch_place (runTask s) (switch_account s)" and new: "new = OsGetTopTask s2"
    and s5: "s5 = OsSchedTaskDeQueue new (switch_flags (runTask s) new (s2\<lparr>newTask := new\<rparr>))"
  shows "core {} s5" and "top_of s2 new" and "new < g_taskMaxNum s"
    and "\<not> has (status s5 new) (OS_TASK_STATUS_PEND OR OS_TASK_STATUS_PEND_TIME OR
      OS_TASK_STATUS_DELAY OR OS_TASK_STATUS_SUSPEND OR OS_TASK_STATUS_UNUSED OR OS_TASK_STATUS_READY)"
    and "\<And>u. u < g_taskMaxNum s \<Longrightarrow> has (status s5 u) OS_TASK_STATUS_RUNNING \<longleftrightarrow> u = new"
    and "\<And>u. has (status s5 u) OS_TASK_STATUS_READY \<longleftrightarrow> u \<noteq> new \<and> has (status s2 u) OS_TASK_STATUS_READY"
    and "\<And>u. priority (tcb s5 u) = priority (tcb s2 u)"
proof -
  let ?run = "runTask s"
  have run: "?run \<le> g_taskMaxNum s" "\<not> has (status s ?run) OS_TASK_STATUS_READY"
    "\<And>u. u < g_taskMaxNum s \<Longrightarrow> has (status s u) OS_TASK_STATUS_RUNNING \<longleftrightarrow> u = ?run"
    using sched_invD(2) [OF inv] by (simp_all add: running_ok_def)
  have c1: "core {?run} (switch_account s)"
    using switch_account_inv [OF inv] by simp
  have start: "startTime (tcb (switch_account s) ?run) = fst (OsGetCurrSchedTimeCycle s)"
    "waitTimes (tcb (switch_account s) ?run) = waitTimes (tcb s ?run)" "cfg (switch_account s) = cfg s"
    by (simp_all add: switch_account_def)
  have c2: "core {} s2"
    unfolding s2 using c1 run time
    by (intro switch_place_core) (simp_all add: start no_overflow_def expire_at_def)
  show top: "top_of s2 new" unfolding new by (rule top_task [OF c2])
  have idle2: "g_idleTaskID s2 < g_taskMaxNum s2" using idle by (simp add: s2)
  note flags = top_task_flags [OF c2 idle2, folded new]
  then show lt: "new < g_taskMaxNum s" by (simp add: s2)
  have c3: "core {} (switch_flags ?run new (s2\<lparr>newTask := new\<rparr>))"
    using c2 by (intro core_switch_flags) simp
  show "core {} s5"
    unfolding s5 using lt by (intro core_dequeue [OF c3]) (simp add: s2)
  show "\<not> has (status s5 new) (OS_TASK_STATUS_PEND OR OS_TASK_STATUS_PEND_TIME OR
      OS_TASK_STATUS_DELAY OR OS_TASK_STATUS_SUSPEND OR OS_TASK_STATUS_UNUSED OR OS_TASK_STATUS_READY)"
    using flags(2) by (simp add: s5 DeQueue_flags)
  show "has (status s5 u) OS_TASK_STATUS_RUNNING \<longleftrightarrow> u = new" if "u < g_taskMaxNum s" for u
  proof -
    have "has (status (s2\<lparr>newTask := new\<rparr>) v) OS_TASK_STATUS_RUNNING \<longleftrightarrow> v = ?run" if "v < g_taskMaxNum s" for v
      using run(3) [OF that] by (simp add: s2)
    then show ?thesis
      using that lt switch_flags_running [of "s2\<lparr>newTask := new\<rparr>" ?run new u]
      by (cases "?run = new") (auto simp: s5 DeQueue_flags)
  qed
  show "has (status s5 u) OS_TASK_STATUS_READY \<longleftrightarrow> u \<noteq> new \<and> has (status s2 u) OS_TASK_STATUS_READY" for u
    by (simp add: s5 DeQueue_flags)
  show "priority (tcb s5 u) = priority (tcb s2 u)" for u
    by (cases "u = new") (simp_all add: s5 DeQueue_sel)
qed

lemma HalPendSV_switched:
  assumes inv: "sched_inv s" and idle: "g_idleTaskID s < g_taskMaxNum s" and time: "no_overflow s"
  shows "switched (HalPendSV s)"
proof -
  let ?s = "s\<lparr>pendSV := False\<rparr>"
  have inv': "sched_inv ?s" using inv by (simp add: sched_inv_def running_ok_def)
  have time': "no_overflow ?s"
    using time by (simp add: no_overflow_def expire_at_def CurrTime_pendSV)
  define s2 where "s2 = switch_place (runTask ?s) (switch_account ?s)"
  define new where "new = OsGetTopTask s2"
  define s5 where "s5 = OsSchedTaskDeQueue new (switch_flags (runTask ?s) new (s2\<lparr>newTask := new\<rparr>))"
  note r = switch_result [OF inv' _ time' s2_def new_def s5_def, simplified, OF idle]
  obtain start rid endt where
    eq: "OsSchedTaskSwitch ?s = (runTask s \<noteq> new, OsSchedSetNextExpireTime start rid endt s5)"
    using OsSchedTaskSwitch_eq [of ?s] unfolding s2_def new_def s5_def Let_def by auto
  let ?f = "OsSchedSetNextExpireTime start rid endt s5"
  have keep: "g_taskMaxNum s5 = g_taskMaxNum s" "g_idleTaskID s5 = g_idleTaskID s" "runTask s5 = runTask s"
    "newTask s5 = new" "g_taskMaxNum s2 = g_taskMaxNum s" "g_idleTaskID s2 = g_idleTaskID s"
    by (simp_all add: s5_def s2_def OsSchedTaskDeQueue_def OsSchedPriQueueDelete_def Let_def
        status_clear_def upd_tcb_def)
  have eqf: "HalPendSV s = ?f\<lparr>runTask := new\<rparr>"
    by (cases "runTask s = new") (simp_all add: HalPendSV_def eq keep)
  have nb: "\<not> has (status s5 new) (OS_TASK_STATUS_DELAY OR OS_TASK_STATUS_PEND_TIME)"
    using r(4) by simp
  have "core {new} (HalPendSV s)"
    unfolding eqf using r(1) core_untimed [OF nb, of "{}"] by simp
  moreover have "running_ok (HalPendSV s)"
    unfolding eqf running_ok_def using r(3,4,5) by (simp add: keep)
  moreover have "unblocked (HalPendSV s)"
    unfolding eqf unblocked_def using r(3,4) by (simp add: keep)
  moreover have "new \<noteq> g_idleTaskID s \<and> priority (tcb s5 new) \<le> priority (tcb s5 u)"
    if "u < g_taskMaxNum s" "has (status s5 u) OS_TASK_STATUS_READY" "u \<noteq> g_idleTaskID s" for u
    using r(2) that unfolding top_of_def by (auto simp: r(6,7) keep split: if_splits)
  ultimately show ?thesis
    by (auto simp: switched_def sched_inv_def eqf keep)
qed

end
