(* ===== verification/Sched_Timer.thy ===== *)
theory Sched_Timer
  imports Sched_Switch
begin

text \<open>
  The clock of the scheduler and the tick interrupt: the cycle count does not go back, the timer
  is programmed with a period in the range it can count and no later than needed, and the tick
  handler keeps the scheduler invariant whatever the scan of the software timers does, if that
  keeps it.
\<close>

section \<open>The clock\<close>

text \<open>
  The cycles counted down never exceed the period, and at most one period has ended since
  the clock was read last (it is read in every tick interrupt).
\<close>

definition clock_ok :: "'a sched_state_scheme \<Rightarrow> bool" where
  "clock_ok s \<longleftrightarrow> SysTick_VAL s \<le> SysTick_LOAD s \<and>
    unat (g_schedTimerBase s) + 2 * unat (SysTick_LOAD s) < 2 ^ 64 \<and>
    unat (oldSchedTime s) \<le> unat (g_schedTimerBase s) + unat (SysTick_LOAD s) +
      unat (SysTick_LOAD s - SysTick_VAL s)"

lemma unat_ucast_32: "unat (ucast (w :: UINT32) :: UINT64) = unat w"
  by transfer simp

lemma CurrTime_monotone:
  assumes "clock_ok s" "g_taskScheduled s"
  shows "oldSchedTime s \<le> fst (OsGetCurrSchedTimeCycle s)"
    and "oldSchedTime (snd (OsGetCurrSchedTimeCycle s)) = fst (OsGetCurrSchedTimeCycle s)"
    and "assertFailed (snd (OsGetCurrSchedTimeCycle s)) = assertFailed s"
proof -
  let ?time = "ucast (SysTick_LOAD s - SysTick_VAL s) :: UINT64"
  let ?base = "g_schedTimerBase s"
  have le: "SysTick_LOAD s - SysTick_VAL s \<le> SysTick_LOAD s"
    using assms(1) by (simp add: clock_ok_def word_sub_le)
  have sum: "unat (?base + ucast (SysTick_LOAD s) + ?time) =
      unat ?base + unat (SysTick_LOAD s) + unat (SysTick_LOAD s - SysTick_VAL s)"
    using assms(1) le unfolding clock_ok_def
    by (simp add: unat_add_lem [THEN iffD1] unat_ucast_32 word_le_nat_alt unat_word_ariths(1))
  have "oldSchedTime s \<le> ?base + ucast (SysTick_LOAD s) + ?time"
    using assms(1) sum by (simp add: word_le_nat_alt clock_ok_def)
  then show "oldSchedTime s \<le> fst (OsGetCurrSchedTimeCycle s)"
    and "oldSchedTime (snd (OsGetCurrSchedTimeCycle s)) = fst (OsGetCurrSchedTimeCycle s)"
    and "assertFailed (snd (OsGetCurrSchedTimeCycle s)) = assertFailed s"
    using assms(2) by (auto simp: OsGetCurrSchedTimeCycle_def HalGetTickCycle_def Let_def LOS_ASSERT_def not_less)
qed

text \<open>
  A time that has been read once stays the same until the counter moves: readings in the same
  handler agree, also after the timer has been reprogrammed in between.
\<close>

definition time_read :: "'a sched_state_scheme \<Rightarrow> bool" where
  "time_read s \<longleftrightarrow> g_taskScheduled s \<and> g_schedTimerBase s + fst (HalGetTickCycle s) = oldSchedTime s"

lemma time_read_now: "time_read s \<Longrightarrow> OsGetCurrSchedTimeCycle s = (oldSchedTime s, s)"
  by (simp add: time_read_def OsGetCurrSchedTimeCycle_def HalGetTickCycle_def Let_def LOS_ASSERT_def)

lemma time_read_CurrTime:
  assumes "g_taskScheduled s"
  shows "time_read (snd (OsGetCurrSchedTimeCycle s))"
    "oldSchedTime (snd (OsGetCurrSchedTimeCycle s)) = fst (OsGetCurrSchedTimeCycle s)"
  using assms by (simp_all add: time_read_def OsGetCurrSchedTimeCycle_def HalGetTickCycle_def Let_def LOS_ASSERT_def)

lemma time_read_SetNext:
  assumes "time_read s"
  shows "time_read (OsSchedSetNextExpireTime start rid taskEndTime s)"
    "oldSchedTime (OsSchedSetNextExpireTime start rid taskEndTime s) = oldSchedTime s"
proof -
  have "OsGetCurrSchedTimeCycle (s\<lparr>g_schedResponseID := a, g_schedResponseTime := b\<rparr>) =
      (oldSchedTime s, s\<lparr>g_schedResponseID := a, g_schedResponseTime := b\<rparr>)" for a b
    using time_read_now [of "s\<lparr>g_schedResponseID := a, g_schedResponseTime := b\<rparr>"] assms
    by (simp add: time_read_def HalGetTickCycle_def)
  then show "time_read (OsSchedSetNextExpireTime start rid taskEndTime s)"
    "oldSchedTime (OsSchedSetNextExpireTime start rid taskEndTime s) = oldSchedTime s"
    using assms
    by (simp_all add: OsSchedSetNextExpireTime_def HalSysTickReload_def HalGetTickCycle_def time_read_def Let_def)
qed

lemma time_read_UpdateExpire:
  assumes "time_read s"
  shows "time_read (OsSchedUpdateExpireTime start s)"
    "oldSchedTime (OsSchedUpdateExpireTime start s) = oldSchedTime s"
  using time_read_SetNext [OF assms] by (simp_all add: OsSchedUpdateExpireTime_def Let_def)

section \<open>Programming the timer\<close>

definition clamp :: "UINT64 \<Rightarrow> UINT64 \<Rightarrow> UINT64 \<Rightarrow> UINT64" where
  "clamp lo hi x = (if hi < x then hi else if x < lo then lo else x)"

text \<open>The expiry the timer is programmed for, and whether that is worth a reload.\<close>

definition next_event :: "UINT64 \<Rightarrow> UINT64 \<Rightarrow> 'a sched_state_scheme \<Rightarrow> UINT64" where
  "next_event start taskEndTime s = min taskEndTime (OsGetNextExpireTime start s)"

definition reload_needed :: "UINT64 \<Rightarrow> UINT64 \<Rightarrow> 'a sched_state_scheme \<Rightarrow> bool" where
  "reload_needed start e s \<longleftrightarrow>
    e < g_schedResponseTime s \<and> of_nat (OS_CYCLE_PER_TICK (cfg s)) \<le> g_schedResponseTime s - e \<and>
    (OS_TICK_RESPONSE_TIME_MAX (cfg s) < e - start \<or> of_nat (OS_CYCLE_PER_TICK (cfg s)) \<le> e - start \<or>
     start + of_nat (OS_CYCLE_PER_TICK (cfg s)) < g_schedResponseTime s)"

lemma SetNext_spec:
  fixes s :: "'a sched_state_scheme" and start :: UINT64
  defines "period \<equiv> \<lambda>e. clamp (of_nat (OS_CYCLE_PER_TICK (cfg s))) (OS_TICK_RESPONSE_TIME_MAX (cfg s)) (e - start)"
  assumes "e = next_event start taskEndTime s" "s' = OsSchedSetNextExpireTime start rid taskEndTime s"
  shows "\<not> reload_needed start e s \<Longrightarrow> s' = s"
    and "reload_needed start e s \<Longrightarrow> SysTick_LOAD s' = ucast (period e - 1) \<and> SysTick_VAL s' = SysTick_LOAD s' \<and>
      g_schedResponseTime s' = start + period e \<and>
      g_schedResponseID s' = (if taskEndTime < OsGetNextExpireTime start s then rid else OS_INVALID)"
proof -
  have e: "(if taskEndTime < OsGetNextExpireTime start s then taskEndTime else OsGetNextExpireTime start s) = e"
    by (auto simp: assms(2) next_event_def min_def)
  note def = OsSchedSetNextExpireTime_def [of start rid taskEndTime s, unfolded Let_def e]
  have resp: "g_schedResponseTime (snd (OsGetCurrSchedTimeCycle q)) = g_schedResponseTime q"
    "g_schedResponseID (snd (OsGetCurrSchedTimeCycle q)) = g_schedResponseID q" for q :: "'a sched_state_scheme"
    by (simp_all add: OsGetCurrSchedTimeCycle_def HalGetTickCycle_def Let_def LOS_ASSERT_def)
  show "\<not> reload_needed start e s \<Longrightarrow> s' = s"
    unfolding assms(3) def by (auto simp: reload_needed_def not_less not_le)
  show "reload_needed start e s \<Longrightarrow> SysTick_LOAD s' = ucast (period e - 1) \<and> SysTick_VAL s' = SysTick_LOAD s' \<and>
      g_schedResponseTime s' = start + period e \<and>
      g_schedResponseID s' = (if taskEndTime < OsGetNextExpireTime start s then rid else OS_INVALID)"
    unfolding assms(3) def period_def
    by (auto simp: reload_needed_def not_less not_le clamp_def case_prod_beta HalSysTickReload_def resp)
qed

lemma clamp_range:
  assumes "lo \<le> hi" shows "lo \<le> clamp lo hi x" "clamp lo hi x \<le> hi"
  using assms by (auto simp: clamp_def)

lemma cycle_le_max:
  assumes "config_ok c"
  shows "(of_nat (OS_CYCLE_PER_TICK c) :: UINT64) \<le> OS_TICK_RESPONSE_TIME_MAX c"
    and "0 < (of_nat (OS_CYCLE_PER_TICK c) :: UINT64)"
    and "unat (of_nat (OS_CYCLE_PER_TICK c) :: UINT64) = OS_CYCLE_PER_TICK c"
    and "unat (OS_TICK_RESPONSE_TIME_MAX c) = LOSCFG_BASE_CORE_TICK_RESPONSE_MAX c"
proof -
  have b: "OS_CYCLE_PER_TICK c < 2 ^ 64" "LOSCFG_BASE_CORE_TICK_RESPONSE_MAX c < 2 ^ 64"
    using assms unfolding config_ok_def by simp_all
  show cyc: "unat (of_nat (OS_CYCLE_PER_TICK c) :: UINT64) = OS_CYCLE_PER_TICK c"
    using b by (simp add: unat_of_nat)
  show max: "unat (OS_TICK_RESPONSE_TIME_MAX c) = LOSCFG_BASE_CORE_TICK_RESPONSE_MAX c"
    using b by (simp add: OS_TICK_RESPONSE_TIME_MAX_def unat_of_nat)
  show "(of_nat (OS_CYCLE_PER_TICK c) :: UINT64) \<le> OS_TICK_RESPONSE_TIME_MAX c"
    using assms by (simp only: word_le_nat_alt cyc max config_ok_def)
  show "0 < (of_nat (OS_CYCLE_PER_TICK c) :: UINT64)"
    using assms by (simp only: word_less_nat_alt cyc config_ok_def unat_0)
qed

lemma unat_minus_one_32:
  assumes "1 \<le> unat w" "unat w < 2 ^ 32"
  shows "Suc (unat (ucast (w - 1 :: UINT64) :: UINT32)) = unat w"
proof -
  have "unat (w - 1) = unat w - 1"
    using assms(1) by (subst unat_sub) (auto simp: word_le_nat_alt)
  moreover have "unat (ucast (w - 1) :: UINT32) = unat (w - 1) mod 2 ^ 32"
    by transfer (simp add: take_bit_eq_mod nat_mod_distrib)
  ultimately show ?thesis using assms by simp
qed

lemma period_range:
  assumes "config_ok c"
  shows "OS_CYCLE_PER_TICK c \<le> unat (clamp (of_nat (OS_CYCLE_PER_TICK c)) (OS_TICK_RESPONSE_TIME_MAX c) x)"
    and "unat (clamp (of_nat (OS_CYCLE_PER_TICK c)) (OS_TICK_RESPONSE_TIME_MAX c) x) \<le>
      LOSCFG_BASE_CORE_TICK_RESPONSE_MAX c"
  using clamp_range [OF cycle_le_max(1) [OF assms], of x]
  by (simp_all only: word_le_nat_alt cycle_le_max(3,4) [OF assms])

section \<open>The tick interrupt\<close>

lemma sched_inv_frame:
  fixes s s' :: "'a sched_state_scheme"
  assumes "g_taskCBArray s' = g_taskCBArray s" "pend s' = pend s" "g_queueBitmap s' = g_queueBitmap s"
    "g_taskSortLink s' = g_taskSortLink s" "g_swtmrSortLink s' = g_swtmrSortLink s"
    "g_taskMaxNum s' = g_taskMaxNum s" "g_idleTaskID s' = g_idleTaskID s" "cfg s' = cfg s"
    "ASSERT_ENQUEUE_READY \<in> assertFailed s' \<longleftrightarrow> ASSERT_ENQUEUE_READY \<in> assertFailed s"
    "runTask s' = runTask s"
  shows "sched_inv s' \<longleftrightarrow> sched_inv s"
  using core_frame [OF assms(1-9)] running_frame [OF assms(1,10,6)] assms(10)
  by (simp add: sched_inv_def)

lemma sched_inv_sel [simp]:
  "sched_inv (s\<lparr>g_schedResponseTime := r\<rparr>) = sched_inv s"
  "sched_inv (s\<lparr>pendSV := b\<rparr>) = sched_inv s"
  "sched_inv (s\<lparr>OS_INT_ACTIVE := b\<rparr>) = sched_inv s"
  "sched_inv (s\<lparr>g_losTaskLock := w\<rparr>) = sched_inv s"
  "sched_inv (LOS_ASSERT ASSERT_TICK_SCHEDULED b s) = sched_inv s"
  "sched_inv (OsSchedUpdateExpireTime start s) = sched_inv s"
  "sched_inv (snd (OsGetCurrSchedTimeCycle s)) = sched_inv s"
  "sched_inv (HalTaskSchedule s) = sched_inv s"
  "sched_inv (LOS_Schedule s) = sched_inv s"
  "sched_inv (OsSchedUpdateSchedTimeBase s) = sched_inv s"
  by ((rule sched_inv_frame;
      simp add: HalTaskSchedule_def LOS_Schedule_def LOS_ASSERT_def OsSchedUpdateSchedTimeBase_def
        OsSchedUpdateExpireTime_def Let_def)+)

lemma TimeSliceUpdate_inv:
  "sched_inv s \<Longrightarrow> r = runTask s \<Longrightarrow> sched_inv (OsTimeSliceUpdate r time s)"
  by (auto simp: sched_inv_def running_ok_def intro!: core_TimeSliceUpdate)

lemma TickHandler_inv:
  assumes "sched_inv s" "\<And>f q. swtmrScan = Some f \<Longrightarrow> sched_inv q \<Longrightarrow> sched_inv (snd (f q))"
  shows "sched_inv (LOS_SchedTickHandler swtmrScan s)"
proof -
  let ?s0 = "LOS_ASSERT ASSERT_TICK_SCHEDULED (g_taskScheduled s) s"
  define r where "r = (if g_schedResponseID ?s0 = OS_INVALID then
      let (need, s) = (case swtmrScan of None \<Rightarrow> (False, ?s0) | Some scan \<Rightarrow> scan ?s0);
          (need', s) = OsSchedScanTimerList s
      in (need \<or> need', s)
    else (False, ?s0))"
  have "sched_inv (snd (case swtmrScan of None \<Rightarrow> (False, ?s0) | Some scan \<Rightarrow> scan ?s0))"
    using assms by (cases swtmrScan) simp_all
  from ScanTimerList_inv [OF this] assms(1) have r: "sched_inv (snd r)"
    by (simp add: r_def case_prod_beta Let_def)
  have "LOS_SchedTickHandler swtmrScan s =
    (let (needSched, s) = r; s = s\<lparr>g_schedResponseTime := OS_SCHED_MAX_RESPONSE_TIME\<rparr>
     in if needSched \<and> g_losTaskLock s = 0 then HalTaskSchedule s
        else
          let (currTime, s) = OsGetCurrSchedTimeCycle s;
              s = OsTimeSliceUpdate (runTask s) currTime s
          in OsSchedUpdateExpireTime currTime s)"
    unfolding LOS_SchedTickHandler_def r_def by (simp only: Let_def)
  with r show ?thesis
    by (auto simp: Let_def case_prod_beta intro!: TimeSliceUpdate_inv)
qed

end
