(* ===== verification/Tick.thy ===== *)
theory Tick
  imports Sched_Timer
begin

text \<open>
  \<open>kernel/src/los_tick.c\<close>: the tick interrupt and the conversions between ticks and
  milliseconds. The conversions of a \<open>CpuTick\<close> (\<open>OsCpuTick2MS\<close>, \<open>OsCpuTick2US\<close>) compute in
  floating point and are not modelled.
\<close>

definition OS_NULL_INT :: UINT32 where
  "OS_NULL_INT = 0xFFFFFFFF"

definition OsTickHandler ::
  "('a sched_state_scheme \<Rightarrow> bool \<times> 'a sched_state_scheme) option \<Rightarrow>
   'a sched_state_scheme \<Rightarrow> 'a sched_state_scheme" where
  "OsTickHandler swtmrScan s = LOS_SchedTickHandler swtmrScan (OsSchedUpdateSchedTimeBase s)"

definition LOS_SysCycleGet :: "'a sched_state_scheme \<Rightarrow> UINT64 \<times> 'a sched_state_scheme" where
  "LOS_SysCycleGet s = OsGetCurrSchedTimeCycle s"

definition LOS_TickCountGet :: "'a sched_state_scheme \<Rightarrow> UINT64 \<times> 'a sched_state_scheme" where
  "LOS_TickCountGet s =
    (let (now, s) = OsGetCurrSchedTimeCycle s in (now div of_nat (OS_CYCLE_PER_TICK (cfg s)), s))"

definition LOS_MS2Tick :: "los_config \<Rightarrow> UINT32 \<Rightarrow> UINT32" where
  "LOS_MS2Tick c millisec =
    (if millisec = OS_NULL_INT then OS_NULL_INT
     else ucast (((ucast millisec :: UINT64) * of_nat (LOSCFG_BASE_CORE_TICK_PER_SECOND c))
                 div of_nat OS_SYS_MS_PER_SECOND))"

definition LOS_Tick2MS :: "los_config \<Rightarrow> UINT32 \<Rightarrow> UINT32" where
  "LOS_Tick2MS c ticks =
    ucast (((ucast ticks :: UINT64) * of_nat OS_SYS_MS_PER_SECOND)
           div of_nat (LOSCFG_BASE_CORE_TICK_PER_SECOND c))"

lemma TickHandler_sched_inv:
  assumes "sched_inv s" "\<And>f q. swtmrScan = Some f \<Longrightarrow> sched_inv q \<Longrightarrow> sched_inv (snd (f q))"
  shows "sched_inv (OsTickHandler swtmrScan s)"
  unfolding OsTickHandler_def using assms by (intro TickHandler_inv) simp_all

lemma unat_ucast_down: "unat (ucast (w :: UINT64) :: UINT32) = unat w mod 2 ^ 32"
  by transfer (simp add: take_bit_eq_mod nat_mod_distrib)

lemma unat_mult_div:
  assumes "m < 2 ^ 32" "d < 2 ^ 32"
  shows "unat (((ucast (w :: UINT32) :: UINT64) * of_nat m) div of_nat d) = unat w * m div d"
proof -
  have "unat w * m < 2 ^ 32 * 2 ^ 32"
    using assms(1) unsigned_less [of w] by (intro mult_strict_mono') simp_all
  then have "unat ((ucast w :: UINT64) * of_nat m) = unat w * m"
    using assms(1) by (simp add: unat_mult_lem [THEN iffD1] unat_ucast_32 unat_of_nat unat_word_ariths(2))
  then show ?thesis
    using assms(2) by (simp add: unat_div unat_of_nat)
qed

lemma MS2Tick_nat:
  assumes "LOSCFG_BASE_CORE_TICK_PER_SECOND c \<le> OS_SYS_MS_PER_SECOND" "ms \<noteq> OS_NULL_INT"
  shows "unat (LOS_MS2Tick c ms) = unat ms * LOSCFG_BASE_CORE_TICK_PER_SECOND c div OS_SYS_MS_PER_SECOND"
proof -
  let ?t = "LOSCFG_BASE_CORE_TICK_PER_SECOND c"
  have "?t < 2 ^ 32" using assms(1) by (simp add: OS_SYS_MS_PER_SECOND_def)
  note u = unat_mult_div [OF this, of OS_SYS_MS_PER_SECOND ms]
  have "unat ms * ?t div OS_SYS_MS_PER_SECOND \<le> unat ms"
    using mult_le_mono2 [OF assms(1), of "unat ms"]
    by (metis OS_SYS_MS_PER_SECOND_def div_le_mono nonzero_mult_div_cancel_right zero_neq_numeral)
  also have "\<dots> < 2 ^ 32" using unsigned_less [of ms] by simp
  finally show ?thesis
    using assms(2) u by (simp add: LOS_MS2Tick_def unat_ucast_down OS_SYS_MS_PER_SECOND_def)
qed

lemma Tick2MS_nat:
  assumes "0 < LOSCFG_BASE_CORE_TICK_PER_SECOND c" "LOSCFG_BASE_CORE_TICK_PER_SECOND c < 2 ^ 32"
  shows "unat (LOS_Tick2MS c t) =
    unat t * OS_SYS_MS_PER_SECOND div LOSCFG_BASE_CORE_TICK_PER_SECOND c mod 2 ^ 32"
  using unat_mult_div [of OS_SYS_MS_PER_SECOND, OF _ assms(2), of t]
  by (simp add: LOS_Tick2MS_def unat_ucast_down OS_SYS_MS_PER_SECOND_def)

text \<open>
  When a tick is a whole number of milliseconds, a duration converted to ticks and back is
  rounded down to whole ticks, and nothing is lost to the 32-bit width.
\<close>

theorem tick_conversion:
  assumes "LOSCFG_BASE_CORE_TICK_PER_SECOND c dvd OS_SYS_MS_PER_SECOND" "ms \<noteq> OS_NULL_INT"
  shows "unat (LOS_Tick2MS c (LOS_MS2Tick c ms)) =
    unat ms - unat ms mod (OS_SYS_MS_PER_SECOND div LOSCFG_BASE_CORE_TICK_PER_SECOND c)"
proof -
  let ?t = "LOSCFG_BASE_CORE_TICK_PER_SECOND c"
  obtain q where q: "OS_SYS_MS_PER_SECOND = ?t * q" using assms(1) by (rule dvdE)
  then have t: "0 < ?t" and q0: "0 < q"
    by (auto simp: OS_SYS_MS_PER_SECOND_def intro: Nat.gr0I)
  have le: "?t \<le> OS_SYS_MS_PER_SECOND"
    using dvd_imp_le [OF assms(1)] by (simp add: OS_SYS_MS_PER_SECOND_def)
  then have t32: "?t < 2 ^ 32" by (simp add: OS_SYS_MS_PER_SECOND_def)
  have ticks: "unat (LOS_MS2Tick c ms) = unat ms div q"
    unfolding MS2Tick_nat [OF le assms(2)] q using t by simp
  have "unat ms div q * OS_SYS_MS_PER_SECOND div ?t = unat ms div q * q"
    unfolding q using t by (simp add: mult.assoc mult.left_commute)
  moreover have "unat ms div q * q = unat ms - unat ms mod q" by (rule minus_mod_eq_div_mult [symmetric])
  moreover have "unat ms - unat ms mod q < 2 ^ 32"
    using unsigned_less [of ms] by (intro le_less_trans [OF diff_le_self]) simp
  moreover have "OS_SYS_MS_PER_SECOND div ?t = q" unfolding q using t by simp
  ultimately show ?thesis
    using Tick2MS_nat [OF t t32, of "LOS_MS2Tick c ms"] by (simp add: ticks)
qed

theorem tick_conversion_witness:
  "unat (LOS_Tick2MS (default_config\<lparr>LOSCFG_BASE_CORE_TICK_PER_SECOND := 100\<rparr>)
     (LOS_MS2Tick (default_config\<lparr>LOSCFG_BASE_CORE_TICK_PER_SECOND := 100\<rparr>) 1234)) = 1230"
  using tick_conversion [of "default_config\<lparr>LOSCFG_BASE_CORE_TICK_PER_SECOND := 100\<rparr>" 1234]
  by (simp add: OS_SYS_MS_PER_SECOND_def OS_NULL_INT_def)

end
