(* ===== verification/Errno.thy ===== *)
theory Errno
  imports Prelude
begin

text \<open>
  The return codes of the kernel services: \<open>LOS_OK\<close>, \<open>LOS_NOK\<close>, \<open>OS_ERROR\<close> of
  \<open>utils/los_compiler.h\<close> and the codes that \<open>utils/los_error.h\<close> builds from a severity, a
  module number and an error number. \<open>errno_code\<close> is the 32-bit word a C caller sees; the
  services of the model return the value itself.
\<close>

datatype los_mod = LOS_MOD_SYS | LOS_MOD_MEM | LOS_MOD_TSK | LOS_MOD_SWTMR | LOS_MOD_QUE
  | LOS_MOD_SEM | LOS_MOD_EVENT | LOS_MOD_MUX | LOS_MOD_CPUP

fun mod_id :: "los_mod \<Rightarrow> UINT32" where
  "mod_id LOS_MOD_SYS = 0x0"
| "mod_id LOS_MOD_MEM = 0x1"
| "mod_id LOS_MOD_TSK = 0x2"
| "mod_id LOS_MOD_SWTMR = 0x3"
| "mod_id LOS_MOD_QUE = 0x6"
| "mod_id LOS_MOD_SEM = 0x7"
| "mod_id LOS_MOD_EVENT = 0x1c"
| "mod_id LOS_MOD_MUX = 0x1d"
| "mod_id LOS_MOD_CPUP = 0x1e"

datatype errno = LOS_OK | LOS_NOK | OS_ERROR
  | LOS_ERRNO_OS_ERROR los_mod nat
  | LOS_ERRNO_OS_FATAL los_mod nat

definition LOS_ERRTYPE_ERROR :: UINT32 where
  "LOS_ERRTYPE_ERROR = push_bit 24 0x02"

definition LOS_ERRTYPE_FATAL :: UINT32 where
  "LOS_ERRTYPE_FATAL = push_bit 24 0x03"

fun errno_code :: "errno \<Rightarrow> UINT32" where
  "errno_code LOS_OK = 0"
| "errno_code LOS_NOK = 1"
| "errno_code OS_ERROR = -1"
| "errno_code (LOS_ERRNO_OS_ERROR m e) = LOS_ERRTYPE_ERROR OR push_bit 8 (mod_id m) OR of_nat e"
| "errno_code (LOS_ERRNO_OS_FATAL m e) = LOS_ERRTYPE_FATAL OR push_bit 8 (mod_id m) OR of_nat e"

text \<open>The codes of \<open>kernel/include/los_sem.h\<close>.\<close>

abbreviation LOS_ERRNO_SEM_NO_MEMORY :: errno where
  "LOS_ERRNO_SEM_NO_MEMORY \<equiv> LOS_ERRNO_OS_ERROR LOS_MOD_SEM 0x00"

abbreviation LOS_ERRNO_SEM_INVALID :: errno where
  "LOS_ERRNO_SEM_INVALID \<equiv> LOS_ERRNO_OS_ERROR LOS_MOD_SEM 0x01"

abbreviation LOS_ERRNO_SEM_PTR_NULL :: errno where
  "LOS_ERRNO_SEM_PTR_NULL \<equiv> LOS_ERRNO_OS_ERROR LOS_MOD_SEM 0x02"

abbreviation LOS_ERRNO_SEM_ALL_BUSY :: errno where
  "LOS_ERRNO_SEM_ALL_BUSY \<equiv> LOS_ERRNO_OS_ERROR LOS_MOD_SEM 0x03"

abbreviation LOS_ERRNO_SEM_UNAVAILABLE :: errno where
  "LOS_ERRNO_SEM_UNAVAILABLE \<equiv> LOS_ERRNO_OS_ERROR LOS_MOD_SEM 0x04"

abbreviation LOS_ERRNO_SEM_PEND_INTERR :: errno where
  "LOS_ERRNO_SEM_PEND_INTERR \<equiv> LOS_ERRNO_OS_ERROR LOS_MOD_SEM 0x05"

abbreviation LOS_ERRNO_SEM_PEND_IN_LOCK :: errno where
  "LOS_ERRNO_SEM_PEND_IN_LOCK \<equiv> LOS_ERRNO_OS_ERROR LOS_MOD_SEM 0x06"

abbreviation LOS_ERRNO_SEM_TIMEOUT :: errno where
  "LOS_ERRNO_SEM_TIMEOUT \<equiv> LOS_ERRNO_OS_ERROR LOS_MOD_SEM 0x07"

abbreviation LOS_ERRNO_SEM_OVERFLOW :: errno where
  "LOS_ERRNO_SEM_OVERFLOW \<equiv> LOS_ERRNO_OS_ERROR LOS_MOD_SEM 0x08"

abbreviation LOS_ERRNO_SEM_PENDED :: errno where
  "LOS_ERRNO_SEM_PENDED \<equiv> LOS_ERRNO_OS_ERROR LOS_MOD_SEM 0x09"

abbreviation LOS_ERRNO_SEM_MAXNUM_ZERO :: errno where
  "LOS_ERRNO_SEM_MAXNUM_ZERO \<equiv> LOS_ERRNO_OS_ERROR LOS_MOD_SEM 0x0A"

text \<open>The codes of \<open>kernel/include/los_mux.h\<close>.\<close>

abbreviation LOS_ERRNO_MUX_NO_MEMORY :: errno where
  "LOS_ERRNO_MUX_NO_MEMORY \<equiv> LOS_ERRNO_OS_ERROR LOS_MOD_MUX 0x00"

abbreviation LOS_ERRNO_MUX_INVALID :: errno where
  "LOS_ERRNO_MUX_INVALID \<equiv> LOS_ERRNO_OS_ERROR LOS_MOD_MUX 0x01"

abbreviation LOS_ERRNO_MUX_PTR_NULL :: errno where
  "LOS_ERRNO_MUX_PTR_NULL \<equiv> LOS_ERRNO_OS_ERROR LOS_MOD_MUX 0x02"

abbreviation LOS_ERRNO_MUX_ALL_BUSY :: errno where
  "LOS_ERRNO_MUX_ALL_BUSY \<equiv> LOS_ERRNO_OS_ERROR LOS_MOD_MUX 0x03"

abbreviation LOS_ERRNO_MUX_UNAVAILABLE :: errno where
  "LOS_ERRNO_MUX_UNAVAILABLE \<equiv> LOS_ERRNO_OS_ERROR LOS_MOD_MUX 0x04"

abbreviation LOS_ERRNO_MUX_PEND_INTERR :: errno where
  "LOS_ERRNO_MUX_PEND_INTERR \<equiv> LOS_ERRNO_OS_ERROR LOS_MOD_MUX 0x05"

abbreviation LOS_ERRNO_MUX_PEND_IN_LOCK :: errno where
  "LOS_ERRNO_MUX_PEND_IN_LOCK \<equiv> LOS_ERRNO_OS_ERROR LOS_MOD_MUX 0x06"

abbreviation LOS_ERRNO_MUX_TIMEOUT :: errno where
  "LOS_ERRNO_MUX_TIMEOUT \<equiv> LOS_ERRNO_OS_ERROR LOS_MOD_MUX 0x07"

abbreviation LOS_ERRNO_MUX_OVERFLOW :: errno where
  "LOS_ERRNO_MUX_OVERFLOW \<equiv> LOS_ERRNO_OS_ERROR LOS_MOD_MUX 0x08"

abbreviation LOS_ERRNO_MUX_PENDED :: errno where
  "LOS_ERRNO_MUX_PENDED \<equiv> LOS_ERRNO_OS_ERROR LOS_MOD_MUX 0x09"

abbreviation LOS_ERRNO_MUX_GET_COUNT_ERR :: errno where
  "LOS_ERRNO_MUX_GET_COUNT_ERR \<equiv> LOS_ERRNO_OS_ERROR LOS_MOD_MUX 0x0A"

abbreviation LOS_ERRNO_MUX_REG_ERROR :: errno where
  "LOS_ERRNO_MUX_REG_ERROR \<equiv> LOS_ERRNO_OS_ERROR LOS_MOD_MUX 0x0B"

abbreviation LOS_ERRNO_MUX_MAXNUM_ZERO :: errno where
  "LOS_ERRNO_MUX_MAXNUM_ZERO \<equiv> LOS_ERRNO_OS_ERROR LOS_MOD_MUX 0x0C"

text \<open>The codes of \<open>kernel/include/los_queue.h\<close>.\<close>

abbreviation LOS_ERRNO_QUEUE_MAXNUM_ZERO :: errno where
  "LOS_ERRNO_QUEUE_MAXNUM_ZERO \<equiv> LOS_ERRNO_OS_ERROR LOS_MOD_QUE 0x00"

abbreviation LOS_ERRNO_QUEUE_NO_MEMORY :: errno where
  "LOS_ERRNO_QUEUE_NO_MEMORY \<equiv> LOS_ERRNO_OS_ERROR LOS_MOD_QUE 0x01"

abbreviation LOS_ERRNO_QUEUE_CREATE_NO_MEMORY :: errno where
  "LOS_ERRNO_QUEUE_CREATE_NO_MEMORY \<equiv> LOS_ERRNO_OS_ERROR LOS_MOD_QUE 0x02"

abbreviation LOS_ERRNO_QUEUE_SIZE_TOO_BIG :: errno where
  "LOS_ERRNO_QUEUE_SIZE_TOO_BIG \<equiv> LOS_ERRNO_OS_ERROR LOS_MOD_QUE 0x03"

abbreviation LOS_ERRNO_QUEUE_CB_UNAVAILABLE :: errno where
  "LOS_ERRNO_QUEUE_CB_UNAVAILABLE \<equiv> LOS_ERRNO_OS_ERROR LOS_MOD_QUE 0x04"

abbreviation LOS_ERRNO_QUEUE_NOT_FOUND :: errno where
  "LOS_ERRNO_QUEUE_NOT_FOUND \<equiv> LOS_ERRNO_OS_ERROR LOS_MOD_QUE 0x05"

abbreviation LOS_ERRNO_QUEUE_PEND_IN_LOCK :: errno where
  "LOS_ERRNO_QUEUE_PEND_IN_LOCK \<equiv> LOS_ERRNO_OS_ERROR LOS_MOD_QUE 0x06"

abbreviation LOS_ERRNO_QUEUE_TIMEOUT :: errno where
  "LOS_ERRNO_QUEUE_TIMEOUT \<equiv> LOS_ERRNO_OS_ERROR LOS_MOD_QUE 0x07"

abbreviation LOS_ERRNO_QUEUE_IN_TSKUSE :: errno where
  "LOS_ERRNO_QUEUE_IN_TSKUSE \<equiv> LOS_ERRNO_OS_ERROR LOS_MOD_QUE 0x08"

abbreviation LOS_ERRNO_QUEUE_WRITE_IN_INTERRUPT :: errno where
  "LOS_ERRNO_QUEUE_WRITE_IN_INTERRUPT \<equiv> LOS_ERRNO_OS_ERROR LOS_MOD_QUE 0x09"

abbreviation LOS_ERRNO_QUEUE_NOT_CREATE :: errno where
  "LOS_ERRNO_QUEUE_NOT_CREATE \<equiv> LOS_ERRNO_OS_ERROR LOS_MOD_QUE 0x0a"

abbreviation LOS_ERRNO_QUEUE_IN_TSKWRITE :: errno where
  "LOS_ERRNO_QUEUE_IN_TSKWRITE \<equiv> LOS_ERRNO_OS_ERROR LOS_MOD_QUE 0x0b"

abbreviation LOS_ERRNO_QUEUE_CREAT_PTR_NULL :: errno where
  "LOS_ERRNO_QUEUE_CREAT_PTR_NULL \<equiv> LOS_ERRNO_OS_ERROR LOS_MOD_QUE 0x0c"

abbreviation LOS_ERRNO_QUEUE_PARA_ISZERO :: errno where
  "LOS_ERRNO_QUEUE_PARA_ISZERO \<equiv> LOS_ERRNO_OS_ERROR LOS_MOD_QUE 0x0d"

abbreviation LOS_ERRNO_QUEUE_INVALID :: errno where
  "LOS_ERRNO_QUEUE_INVALID \<equiv> LOS_ERRNO_OS_ERROR LOS_MOD_QUE 0x0e"

abbreviation LOS_ERRNO_QUEUE_READ_PTR_NULL :: errno where
  "LOS_ERRNO_QUEUE_READ_PTR_NULL \<equiv> LOS_ERRNO_OS_ERROR LOS_MOD_QUE 0x0f"

abbreviation LOS_ERRNO_QUEUE_READSIZE_ISZERO :: errno where
  "LOS_ERRNO_QUEUE_READSIZE_ISZERO \<equiv> LOS_ERRNO_OS_ERROR LOS_MOD_QUE 0x10"

abbreviation LOS_ERRNO_QUEUE_WRITE_PTR_NULL :: errno where
  "LOS_ERRNO_QUEUE_WRITE_PTR_NULL \<equiv> LOS_ERRNO_OS_ERROR LOS_MOD_QUE 0x12"

abbreviation LOS_ERRNO_QUEUE_WRITESIZE_ISZERO :: errno where
  "LOS_ERRNO_QUEUE_WRITESIZE_ISZERO \<equiv> LOS_ERRNO_OS_ERROR LOS_MOD_QUE 0x13"

abbreviation LOS_ERRNO_QUEUE_WRITE_SIZE_TOO_BIG :: errno where
  "LOS_ERRNO_QUEUE_WRITE_SIZE_TOO_BIG \<equiv> LOS_ERRNO_OS_ERROR LOS_MOD_QUE 0x15"

abbreviation LOS_ERRNO_QUEUE_ISFULL :: errno where
  "LOS_ERRNO_QUEUE_ISFULL \<equiv> LOS_ERRNO_OS_ERROR LOS_MOD_QUE 0x16"

abbreviation LOS_ERRNO_QUEUE_PTR_NULL :: errno where
  "LOS_ERRNO_QUEUE_PTR_NULL \<equiv> LOS_ERRNO_OS_ERROR LOS_MOD_QUE 0x17"

abbreviation LOS_ERRNO_QUEUE_READ_IN_INTERRUPT :: errno where
  "LOS_ERRNO_QUEUE_READ_IN_INTERRUPT \<equiv> LOS_ERRNO_OS_ERROR LOS_MOD_QUE 0x18"

abbreviation LOS_ERRNO_QUEUE_MAIL_HANDLE_INVALID :: errno where
  "LOS_ERRNO_QUEUE_MAIL_HANDLE_INVALID \<equiv> LOS_ERRNO_OS_ERROR LOS_MOD_QUE 0x19"

abbreviation LOS_ERRNO_QUEUE_MAIL_PTR_INVALID :: errno where
  "LOS_ERRNO_QUEUE_MAIL_PTR_INVALID \<equiv> LOS_ERRNO_OS_ERROR LOS_MOD_QUE 0x1a"

abbreviation LOS_ERRNO_QUEUE_MAIL_FREE_ERROR :: errno where
  "LOS_ERRNO_QUEUE_MAIL_FREE_ERROR \<equiv> LOS_ERRNO_OS_ERROR LOS_MOD_QUE 0x1b"

abbreviation LOS_ERRNO_QUEUE_ISEMPTY :: errno where
  "LOS_ERRNO_QUEUE_ISEMPTY \<equiv> LOS_ERRNO_OS_ERROR LOS_MOD_QUE 0x1d"

abbreviation LOS_ERRNO_QUEUE_READ_SIZE_TOO_SMALL :: errno where
  "LOS_ERRNO_QUEUE_READ_SIZE_TOO_SMALL \<equiv> LOS_ERRNO_OS_ERROR LOS_MOD_QUE 0x1f"

text \<open>The codes of \<open>kernel/include/los_event.h\<close>.\<close>

abbreviation LOS_ERRNO_EVENT_SETBIT_INVALID :: errno where
  "LOS_ERRNO_EVENT_SETBIT_INVALID \<equiv> LOS_ERRNO_OS_ERROR LOS_MOD_EVENT 0x00"

abbreviation LOS_ERRNO_EVENT_READ_TIMEOUT :: errno where
  "LOS_ERRNO_EVENT_READ_TIMEOUT \<equiv> LOS_ERRNO_OS_ERROR LOS_MOD_EVENT 0x01"

abbreviation LOS_ERRNO_EVENT_EVENTMASK_INVALID :: errno where
  "LOS_ERRNO_EVENT_EVENTMASK_INVALID \<equiv> LOS_ERRNO_OS_ERROR LOS_MOD_EVENT 0x02"

abbreviation LOS_ERRNO_EVENT_READ_IN_INTERRUPT :: errno where
  "LOS_ERRNO_EVENT_READ_IN_INTERRUPT \<equiv> LOS_ERRNO_OS_ERROR LOS_MOD_EVENT 0x03"

abbreviation LOS_ERRNO_EVENT_FLAGS_INVALID :: errno where
  "LOS_ERRNO_EVENT_FLAGS_INVALID \<equiv> LOS_ERRNO_OS_ERROR LOS_MOD_EVENT 0x04"

abbreviation LOS_ERRNO_EVENT_READ_IN_LOCK :: errno where
  "LOS_ERRNO_EVENT_READ_IN_LOCK \<equiv> LOS_ERRNO_OS_ERROR LOS_MOD_EVENT 0x05"

abbreviation LOS_ERRNO_EVENT_PTR_NULL :: errno where
  "LOS_ERRNO_EVENT_PTR_NULL \<equiv> LOS_ERRNO_OS_ERROR LOS_MOD_EVENT 0x06"

abbreviation LOS_ERRNO_EVENT_NOT_INITIALIZED :: errno where
  "LOS_ERRNO_EVENT_NOT_INITIALIZED \<equiv> LOS_ERRNO_OS_ERROR LOS_MOD_EVENT 0x07"

abbreviation LOS_ERRNO_EVENT_SHOULD_NOT_DESTORY :: errno where
  "LOS_ERRNO_EVENT_SHOULD_NOT_DESTORY \<equiv> LOS_ERRNO_OS_ERROR LOS_MOD_EVENT 0x08"

text \<open>The codes of \<open>kernel/include/los_task.h\<close>.\<close>

abbreviation LOS_ERRNO_TSK_NO_MEMORY :: errno where
  "LOS_ERRNO_TSK_NO_MEMORY \<equiv> LOS_ERRNO_OS_FATAL LOS_MOD_TSK 0x00"

abbreviation LOS_ERRNO_TSK_PTR_NULL :: errno where
  "LOS_ERRNO_TSK_PTR_NULL \<equiv> LOS_ERRNO_OS_ERROR LOS_MOD_TSK 0x01"

abbreviation LOS_ERRNO_TSK_STKSZ_NOT_ALIGN :: errno where
  "LOS_ERRNO_TSK_STKSZ_NOT_ALIGN \<equiv> LOS_ERRNO_OS_ERROR LOS_MOD_TSK 0x02"

abbreviation LOS_ERRNO_TSK_PRIOR_ERROR :: errno where
  "LOS_ERRNO_TSK_PRIOR_ERROR \<equiv> LOS_ERRNO_OS_ERROR LOS_MOD_TSK 0x03"

abbreviation LOS_ERRNO_TSK_ENTRY_NULL :: errno where
  "LOS_ERRNO_TSK_ENTRY_NULL \<equiv> LOS_ERRNO_OS_ERROR LOS_MOD_TSK 0x04"

abbreviation LOS_ERRNO_TSK_NAME_EMPTY :: errno where
  "LOS_ERRNO_TSK_NAME_EMPTY \<equiv> LOS_ERRNO_OS_ERROR LOS_MOD_TSK 0x05"

abbreviation LOS_ERRNO_TSK_STKSZ_TOO_SMALL :: errno where
  "LOS_ERRNO_TSK_STKSZ_TOO_SMALL \<equiv> LOS_ERRNO_OS_ERROR LOS_MOD_TSK 0x06"

abbreviation LOS_ERRNO_TSK_ID_INVALID :: errno where
  "LOS_ERRNO_TSK_ID_INVALID \<equiv> LOS_ERRNO_OS_ERROR LOS_MOD_TSK 0x07"

abbreviation LOS_ERRNO_TSK_ALREADY_SUSPENDED :: errno where
  "LOS_ERRNO_TSK_ALREADY_SUSPENDED \<equiv> LOS_ERRNO_OS_ERROR LOS_MOD_TSK 0x08"

abbreviation LOS_ERRNO_TSK_NOT_SUSPENDED :: errno where
  "LOS_ERRNO_TSK_NOT_SUSPENDED \<equiv> LOS_ERRNO_OS_ERROR LOS_MOD_TSK 0x09"

abbreviation LOS_ERRNO_TSK_NOT_CREATED :: errno where
  "LOS_ERRNO_TSK_NOT_CREATED \<equiv> LOS_ERRNO_OS_ERROR LOS_MOD_TSK 0x0a"

abbreviation LOS_ERRNO_TSK_MSG_NONZERO :: errno where
  "LOS_ERRNO_TSK_MSG_NONZERO \<equiv> LOS_ERRNO_OS_ERROR LOS_MOD_TSK 0x0c"

abbreviation LOS_ERRNO_TSK_DELAY_IN_INT :: errno where
  "LOS_ERRNO_TSK_DELAY_IN_INT \<equiv> LOS_ERRNO_OS_FATAL LOS_MOD_TSK 0x0d"

abbreviation LOS_ERRNO_TSK_DELAY_IN_LOCK :: errno where
  "LOS_ERRNO_TSK_DELAY_IN_LOCK \<equiv> LOS_ERRNO_OS_ERROR LOS_MOD_TSK 0x0e"

abbreviation LOS_ERRNO_TSK_YIELD_INVALID_TASK :: errno where
  "LOS_ERRNO_TSK_YIELD_INVALID_TASK \<equiv> LOS_ERRNO_OS_ERROR LOS_MOD_TSK 0x0f"

abbreviation LOS_ERRNO_TSK_YIELD_NOT_ENOUGH_TASK :: errno where
  "LOS_ERRNO_TSK_YIELD_NOT_ENOUGH_TASK \<equiv> LOS_ERRNO_OS_ERROR LOS_MOD_TSK 0x10"

abbreviation LOS_ERRNO_TSK_TCB_UNAVAILABLE :: errno where
  "LOS_ERRNO_TSK_TCB_UNAVAILABLE \<equiv> LOS_ERRNO_OS_ERROR LOS_MOD_TSK 0x11"

abbreviation LOS_ERRNO_TSK_HOOK_NOT_MATCH :: errno where
  "LOS_ERRNO_TSK_HOOK_NOT_MATCH \<equiv> LOS_ERRNO_OS_ERROR LOS_MOD_TSK 0x12"

abbreviation LOS_ERRNO_TSK_HOOK_IS_FULL :: errno where
  "LOS_ERRNO_TSK_HOOK_IS_FULL \<equiv> LOS_ERRNO_OS_ERROR LOS_MOD_TSK 0x13"

abbreviation LOS_ERRNO_TSK_OPERATE_IDLE :: errno where
  "LOS_ERRNO_TSK_OPERATE_IDLE \<equiv> LOS_ERRNO_OS_ERROR LOS_MOD_TSK 0x14"

abbreviation LOS_ERRNO_TSK_SUSPEND_LOCKED :: errno where
  "LOS_ERRNO_TSK_SUSPEND_LOCKED \<equiv> LOS_ERRNO_OS_FATAL LOS_MOD_TSK 0x15"

abbreviation LOS_ERRNO_TSK_FREE_STACK_FAILED :: errno where
  "LOS_ERRNO_TSK_FREE_STACK_FAILED \<equiv> LOS_ERRNO_OS_ERROR LOS_MOD_TSK 0x17"

abbreviation LOS_ERRNO_TSK_STKAREA_TOO_SMALL :: errno where
  "LOS_ERRNO_TSK_STKAREA_TOO_SMALL \<equiv> LOS_ERRNO_OS_ERROR LOS_MOD_TSK 0x18"

abbreviation LOS_ERRNO_TSK_ACTIVE_FAILED :: errno where
  "LOS_ERRNO_TSK_ACTIVE_FAILED \<equiv> LOS_ERRNO_OS_FATAL LOS_MOD_TSK 0x19"

abbreviation LOS_ERRNO_TSK_CONFIG_TOO_MANY :: errno where
  "LOS_ERRNO_TSK_CONFIG_TOO_MANY \<equiv> LOS_ERRNO_OS_ERROR LOS_MOD_TSK 0x1a"

abbreviation LOS_ERRNO_TSK_CP_SAVE_AREA_NOT_ALIGN :: errno where
  "LOS_ERRNO_TSK_CP_SAVE_AREA_NOT_ALIGN \<equiv> LOS_ERRNO_OS_ERROR LOS_MOD_TSK 0x1b"

abbreviation LOS_ERRNO_TSK_MSG_Q_TOO_MANY :: errno where
  "LOS_ERRNO_TSK_MSG_Q_TOO_MANY \<equiv> LOS_ERRNO_OS_ERROR LOS_MOD_TSK 0x1d"

abbreviation LOS_ERRNO_TSK_CP_SAVE_AREA_NULL :: errno where
  "LOS_ERRNO_TSK_CP_SAVE_AREA_NULL \<equiv> LOS_ERRNO_OS_ERROR LOS_MOD_TSK 0x1e"

abbreviation LOS_ERRNO_TSK_SELF_DELETE_ERR :: errno where
  "LOS_ERRNO_TSK_SELF_DELETE_ERR \<equiv> LOS_ERRNO_OS_ERROR LOS_MOD_TSK 0x1f"

abbreviation LOS_ERRNO_TSK_STKSZ_TOO_LARGE :: errno where
  "LOS_ERRNO_TSK_STKSZ_TOO_LARGE \<equiv> LOS_ERRNO_OS_ERROR LOS_MOD_TSK 0x20"

abbreviation LOS_ERRNO_TSK_SUSPEND_SWTMR_NOT_ALLOWED :: errno where
  "LOS_ERRNO_TSK_SUSPEND_SWTMR_NOT_ALLOWED \<equiv> LOS_ERRNO_OS_ERROR LOS_MOD_TSK 0x21"

abbreviation LOS_ERRNO_TSK_OPERATE_SWTMR :: errno where
  "LOS_ERRNO_TSK_OPERATE_SWTMR \<equiv> LOS_ERRNO_OS_ERROR LOS_MOD_TSK 0x22"

abbreviation LOS_ERRNO_TSK_TIMEOUT :: errno where
  "LOS_ERRNO_TSK_TIMEOUT \<equiv> LOS_ERRNO_OS_ERROR LOS_MOD_TSK 0x23"

text \<open>The codes of \<open>kernel/include/los_swtmr.h\<close>.\<close>

abbreviation LOS_ERRNO_SWTMR_PTR_NULL :: errno where
  "LOS_ERRNO_SWTMR_PTR_NULL \<equiv> LOS_ERRNO_OS_ERROR LOS_MOD_SWTMR 0x00"

abbreviation LOS_ERRNO_SWTMR_INTERVAL_NOT_SUITED :: errno where
  "LOS_ERRNO_SWTMR_INTERVAL_NOT_SUITED \<equiv> LOS_ERRNO_OS_ERROR LOS_MOD_SWTMR 0x01"

abbreviation LOS_ERRNO_SWTMR_MODE_INVALID :: errno where
  "LOS_ERRNO_SWTMR_MODE_INVALID \<equiv> LOS_ERRNO_OS_ERROR LOS_MOD_SWTMR 0x02"

abbreviation LOS_ERRNO_SWTMR_RET_PTR_NULL :: errno where
  "LOS_ERRNO_SWTMR_RET_PTR_NULL \<equiv> LOS_ERRNO_OS_ERROR LOS_MOD_SWTMR 0x03"

abbreviation LOS_ERRNO_SWTMR_MAXSIZE :: errno where
  "LOS_ERRNO_SWTMR_MAXSIZE \<equiv> LOS_ERRNO_OS_ERROR LOS_MOD_SWTMR 0x04"

abbreviation LOS_ERRNO_SWTMR_ID_INVALID :: errno where
  "LOS_ERRNO_SWTMR_ID_INVALID \<equiv> LOS_ERRNO_OS_ERROR LOS_MOD_SWTMR 0x05"

abbreviation LOS_ERRNO_SWTMR_NOT_CREATED :: errno where
  "LOS_ERRNO_SWTMR_NOT_CREATED \<equiv> LOS_ERRNO_OS_ERROR LOS_MOD_SWTMR 0x06"

abbreviation LOS_ERRNO_SWTMR_NO_MEMORY :: errno where
  "LOS_ERRNO_SWTMR_NO_MEMORY \<equiv> LOS_ERRNO_OS_ERROR LOS_MOD_SWTMR 0x07"

abbreviation LOS_ERRNO_SWTMR_MAXSIZE_INVALID :: errno where
  "LOS_ERRNO_SWTMR_MAXSIZE_INVALID \<equiv> LOS_ERRNO_OS_ERROR LOS_MOD_SWTMR 0x08"

abbreviation LOS_ERRNO_SWTMR_HWI_ACTIVE :: errno where
  "LOS_ERRNO_SWTMR_HWI_ACTIVE \<equiv> LOS_ERRNO_OS_ERROR LOS_MOD_SWTMR 0x09"

abbreviation LOS_ERRNO_SWTMR_HANDLER_POOL_NO_MEM :: errno where
  "LOS_ERRNO_SWTMR_HANDLER_POOL_NO_MEM \<equiv> LOS_ERRNO_OS_ERROR LOS_MOD_SWTMR 0x0a"

abbreviation LOS_ERRNO_SWTMR_QUEUE_CREATE_FAILED :: errno where
  "LOS_ERRNO_SWTMR_QUEUE_CREATE_FAILED \<equiv> LOS_ERRNO_OS_ERROR LOS_MOD_SWTMR 0x0b"

abbreviation LOS_ERRNO_SWTMR_TASK_CREATE_FAILED :: errno where
  "LOS_ERRNO_SWTMR_TASK_CREATE_FAILED \<equiv> LOS_ERRNO_OS_ERROR LOS_MOD_SWTMR 0x0c"

abbreviation LOS_ERRNO_SWTMR_NOT_STARTED :: errno where
  "LOS_ERRNO_SWTMR_NOT_STARTED \<equiv> LOS_ERRNO_OS_ERROR LOS_MOD_SWTMR 0x0d"

abbreviation LOS_ERRNO_SWTMR_STATUS_INVALID :: errno where
  "LOS_ERRNO_SWTMR_STATUS_INVALID \<equiv> LOS_ERRNO_OS_ERROR LOS_MOD_SWTMR 0x0e"

abbreviation LOS_ERRNO_SWTMR_SORTLIST_NULL :: errno where
  "LOS_ERRNO_SWTMR_SORTLIST_NULL \<equiv> LOS_ERRNO_OS_ERROR LOS_MOD_SWTMR 0x0f"

abbreviation LOS_ERRNO_SWTMR_TICK_PTR_NULL :: errno where
  "LOS_ERRNO_SWTMR_TICK_PTR_NULL \<equiv> LOS_ERRNO_OS_ERROR LOS_MOD_SWTMR 0x10"

abbreviation OS_ERRNO_SWTMR_ROUSES_INVALID :: errno where
  "OS_ERRNO_SWTMR_ROUSES_INVALID \<equiv> LOS_ERRNO_OS_ERROR LOS_MOD_SWTMR 0x11"

abbreviation OS_ERRNO_SWTMR_ALIGN_INVALID :: errno where
  "OS_ERRNO_SWTMR_ALIGN_INVALID \<equiv> LOS_ERRNO_OS_ERROR LOS_MOD_SWTMR 0x12"

text \<open>The codes of \<open>components/cpup/los_cpup.h\<close>.\<close>

abbreviation LOS_ERRNO_CPUP_NO_MEMORY :: errno where
  "LOS_ERRNO_CPUP_NO_MEMORY \<equiv> LOS_ERRNO_OS_ERROR LOS_MOD_CPUP 0x00"

abbreviation LOS_ERRNO_CPUP_TASK_PTR_NULL :: errno where
  "LOS_ERRNO_CPUP_TASK_PTR_NULL \<equiv> LOS_ERRNO_OS_ERROR LOS_MOD_CPUP 0x01"

abbreviation LOS_ERRNO_CPUP_NO_INIT :: errno where
  "LOS_ERRNO_CPUP_NO_INIT \<equiv> LOS_ERRNO_OS_ERROR LOS_MOD_CPUP 0x02"

abbreviation LOS_ERRNO_CPUP_THREAD_NO_CREATED :: errno where
  "LOS_ERRNO_CPUP_THREAD_NO_CREATED \<equiv> LOS_ERRNO_OS_ERROR LOS_MOD_CPUP 0x04"

abbreviation LOS_ERRNO_CPUP_TSK_ID_INVALID :: errno where
  "LOS_ERRNO_CPUP_TSK_ID_INVALID \<equiv> LOS_ERRNO_OS_ERROR LOS_MOD_CPUP 0x05"

text \<open>Every code built by the macros has the error bit of \<open>LOS_ERRTYPE_ERROR\<close> set.\<close>

lemma errtype_flags: "LOS_ERRTYPE_ERROR = flag 25" "LOS_ERRTYPE_FATAL = flag 24 OR flag 25"
  by (simp_all add: LOS_ERRTYPE_ERROR_def LOS_ERRTYPE_FATAL_def flag_def)

lemma errno_code_error_bit:
  "has (errno_code (LOS_ERRNO_OS_ERROR m e)) LOS_ERRTYPE_ERROR"
  "has (errno_code (LOS_ERRNO_OS_FATAL m e)) LOS_ERRTYPE_ERROR"
  by (simp_all add: errtype_flags has_flag bit_simps bit_flag)

end
