(* ===== verification/Task.thy ===== *)
theory Task
  imports Tick Errno
begin

text \<open>
  Task management, \<open>kernel/src/los_task.c\<close>: the services that create, delete, suspend, resume,
  delay and re-prioritise tasks, the task lock, and the queries. A pointer argument that the
  code tests for \<open>NULL\<close> is an option (or the address 0); an out parameter is a component
  of the result, present when the code writes it. The stack of a task is an address and a size:
  \<open>HalTskStackInit\<close> (\<open>arch/arm/cortex-m4/gcc/los_context.c\<close>) places the context at its end, the
  contents of the stack are not modelled.
\<close>

definition OS_TASK_PRIORITY_LOWEST :: nat where
  "OS_TASK_PRIORITY_LOWEST = 31"

definition OS_TASK_STACK_ADDR_ALIGN :: UINT32 where
  "OS_TASK_STACK_ADDR_ALIGN = 8"

definition OS_IDLE_TASK_ENTRY :: nat where
  "OS_IDLE_TASK_ENTRY = 1"

definition OS_CHECK_TASK_BLOCK :: UINT16 where
  "OS_CHECK_TASK_BLOCK = OS_TASK_STATUS_DELAY OR OS_TASK_STATUS_PEND OR OS_TASK_STATUS_SUSPEND"

definition LOS_Align :: "UINT32 \<Rightarrow> UINT32 \<Rightarrow> UINT32" where
  "LOS_Align addr boundary =
    (addr + (if addr < addr + (boundary - 1) then boundary - 1 else 0)) AND NOT (boundary - 1)"

definition TRUNCATE :: "UINT32 \<Rightarrow> UINT32 \<Rightarrow> UINT32" where
  "TRUNCATE addr sz = addr AND NOT (sz - 1)"

record tsk_init_param =
  pfnTaskEntry :: nat
  usTaskPrio :: nat
  uwArg :: UINT32
  uwStackSize :: UINT32
  pcName :: "string option"

text \<open>The 17 words of a context without a floating-point unit.\<close>

definition sizeof_TaskContext :: UINT32 where
  "sizeof_TaskContext = 68"

definition HalTskStackInit :: "UINT32 \<Rightarrow> UINT32 \<Rightarrow> UINT32" where
  "HalTskStackInit stkSize topStack = topStack + stkSize - sizeof_TaskContext"

section \<open>Identifiers, recycling, initialisation\<close>

definition OsCheckTaskIDValid :: "nat \<Rightarrow> 'a sched_state_scheme \<Rightarrow> errno" where
  "OsCheckTaskIDValid t s =
    (if t = g_idleTaskID s then LOS_ERRNO_TSK_OPERATE_IDLE
     else if t = g_swtmrTaskID s then LOS_ERRNO_TSK_SUSPEND_SWTMR_NOT_ALLOWED
     else if g_taskMaxNum s \<le> t then LOS_ERRNO_TSK_ID_INVALID
     else LOS_OK)"

definition OS_CHECK_TSK_PID_NOIDLE :: "nat \<Rightarrow> 'a sched_state_scheme \<Rightarrow> bool" where
  "OS_CHECK_TSK_PID_NOIDLE t s \<longleftrightarrow> g_taskMaxNum s \<le> t"

definition recycle_one :: "nat \<Rightarrow> 'a sched_state_scheme \<Rightarrow> 'a sched_state_scheme" where
  "recycle_one t s =
    (let s = s\<lparr>pend := LOS_ListDelete t (pend s)\<rparr>;
         s = s\<lparr>pend := LOS_ListAdd FreeTask t (pend s)\<rparr>;
         s = LOS_MemFree (topOfStack (tcb s t)) s
     in upd_tcb t (topOfStack_update (\<lambda>_. 0)) s)"

text \<open>
  The loop ends because every pass takes a node off the recycle list; the fuel is the length of
  that list.
\<close>

fun recycle_loop :: "nat \<Rightarrow> 'a sched_state_scheme \<Rightarrow> 'a sched_state_scheme" where
  "recycle_loop 0 s = s"
| "recycle_loop (Suc n) s =
    (if LOS_ListEmpty (pend s) RecycleTask then s
     else recycle_loop n (recycle_one (LOS_DL_LIST_FIRST (pend s) RecycleTask) s))"

definition OsRecyleFinishedTask :: "'a sched_state_scheme \<Rightarrow> 'a sched_state_scheme" where
  "OsRecyleFinishedTask s = recycle_loop (length (pend s RecycleTask)) s"

definition OsConvertTskStatus :: "UINT16 \<Rightarrow> string" where
  "OsConvertTskStatus w =
    (if has w OS_TASK_STATUS_RUNNING then ''Running''
     else if has w OS_TASK_STATUS_READY then ''Ready''
     else if has w OS_TASK_STATUS_DELAY then ''Delay''
     else if has w OS_TASK_STATUS_PEND then
       (if has w OS_TASK_STATUS_PEND_TIME then ''PendTime'' else ''Pend'')
     else if has w OS_TASK_STATUS_SUSPEND then ''Suspend''
     else ''Impossible'')"

definition zero_tcb :: task_cb where
  "zero_tcb = \<lparr>taskStatus = 0, priority = 0, timeSlice = 0, waitTimes = 0, startTime = 0,
    stackSize = 0, topOfStack = 0, stackPointer = 0, taskID = 0, taskEntry = 0, taskSem = None,
    taskMux = None, arg = 0, taskName = [], eventID = 0, eventMask = 0, eventMode = 0, msg = 0\<rparr>"

definition init_block :: "nat \<Rightarrow> 'a sched_state_scheme \<Rightarrow> 'a sched_state_scheme" where
  "init_block index s =
    (let s = upd_tcb index (\<lambda>c. c\<lparr>taskStatus := OS_TASK_STATUS_UNUSED, taskID := index\<rparr>) s
     in s\<lparr>pend := LOS_ListTailInsert FreeTask index (pend s)\<rparr>)"

text \<open>
  \<open>mem\<close> is the address of the array of control blocks, 0 when there is no memory for it. The
  array has one block more than there are tasks: the running task before the scheduler starts,
  and after the running task has deleted itself. \<open>newTask\<close> is not set before the first switch
  (\<open>NULL\<close>); that block stands for it.
\<close>

definition OsTaskInit :: "UINT32 \<Rightarrow> 'a sched_state_scheme \<Rightarrow> errno \<times> 'a sched_state_scheme" where
  "OsTaskInit mem s =
    (if mem = 0 then (LOS_ERRNO_TSK_NO_MEMORY, s)
     else
       let n = g_taskMaxNum s;
           limit = LOSCFG_BASE_CORE_TSK_LIMIT (cfg s);
           s = LOS_MemAlloc mem s;
           s = s\<lparr>g_taskCBArray := (\<lambda>t. if t \<le> n then zero_tcb else g_taskCBArray s t),
                 g_taskSortLink := (g_taskSortLink s)\<lparr>responseTime :=
                   (\<lambda>t. if t \<le> n then 0 else responseTime (g_taskSortLink s) t)\<rparr>\<rparr>;
           s = s\<lparr>pend := LOS_ListInit RecycleTask (LOS_ListInit FreeTask (pend s))\<rparr>;
           s = fold init_block [0..<Suc limit] s;
           s = s\<lparr>runTask := n, newTask := n\<rparr>;
           s = upd_tcb n (\<lambda>c. c\<lparr>taskID := Suc limit,
                 taskStatus := OS_TASK_STATUS_UNUSED OR OS_TASK_STATUS_RUNNING,
                 priority := OS_TASK_PRIORITY_LOWEST + 1\<rparr>) s;
           s = s\<lparr>g_idleTaskID := OS_INVALID\<rparr>
       in (LOS_OK, OsSchedInit s))"

section \<open>Creating\<close>

definition OsTaskInitParamCheck :: "los_config \<Rightarrow> tsk_init_param option \<Rightarrow> errno \<times> tsk_init_param option" where
  "OsTaskInitParamCheck c param =
    (case param of
       None \<Rightarrow> (LOS_ERRNO_TSK_PTR_NULL, param)
     | Some p \<Rightarrow>
         if pcName p = None then (LOS_ERRNO_TSK_NAME_EMPTY, param)
         else if pfnTaskEntry p = 0 then (LOS_ERRNO_TSK_ENTRY_NULL, param)
         else if OS_TASK_PRIORITY_LOWEST < usTaskPrio p then (LOS_ERRNO_TSK_PRIOR_ERROR, param)
         else if usTaskPrio p = OS_TASK_PRIORITY_LOWEST \<and> pfnTaskEntry p \<noteq> OS_IDLE_TASK_ENTRY
         then (LOS_ERRNO_TSK_PRIOR_ERROR, param)
         else if LOSCFG_SYS_HEAP_SIZE c < unat (uwStackSize p) then (LOS_ERRNO_TSK_STKSZ_TOO_LARGE, param)
         else
           let p = (if uwStackSize p = 0
                    then p\<lparr>uwStackSize := of_nat (LOSCFG_BASE_CORE_TSK_DEFAULT_STACK_SIZE c)\<rparr> else p);
               p = p\<lparr>uwStackSize := LOS_Align (uwStackSize p) OS_TASK_STACK_ADDR_ALIGN\<rparr>
           in if unat (uwStackSize p) < LOSCFG_BASE_CORE_TSK_MIN_STACK_SIZE c
              then (LOS_ERRNO_TSK_STKSZ_TOO_SMALL, Some p)
              else (LOS_OK, Some p))"

definition OsNewTaskInit ::
  "nat \<Rightarrow> tsk_init_param \<Rightarrow> UINT32 \<Rightarrow> 'a sched_state_scheme \<Rightarrow> 'a sched_state_scheme" where
  "OsNewTaskInit t p stackAddr s =
    (let s = upd_tcb t (\<lambda>c. c\<lparr>
           stackPointer := HalTskStackInit (uwStackSize p) stackAddr,
           arg := uwArg p,
           topOfStack := stackAddr,
           stackSize := uwStackSize p,
           taskSem := None,
           taskMux := None,
           taskStatus := OS_TASK_STATUS_SUSPEND,
           priority := usTaskPrio p,
           timeSlice := 0,
           waitTimes := 0,
           taskEntry := pfnTaskEntry p,
           eventID := OS_NULL_INT,
           eventMask := 0,
           taskName := the (pcName p),
           msg := 0\<rparr>) s
     in s\<lparr>g_taskSortLink := SET_SORTLIST_VALUE t OS_SORT_LINK_INVALID_TIME (g_taskSortLink s)\<rparr>)"

text \<open>
  \<open>mem\<close> is what the allocation of the stack returns. The result has the identifier when the
  code writes it.
\<close>

definition LOS_TaskCreateOnly ::
  "bool \<Rightarrow> tsk_init_param option \<Rightarrow> UINT32 \<Rightarrow> 'a sched_state_scheme \<Rightarrow>
   errno \<times> nat option \<times> 'a sched_state_scheme" where
  "LOS_TaskCreateOnly idNull param mem s =
    (if idNull then (LOS_ERRNO_TSK_ID_INVALID, None, s)
     else
       case OsTaskInitParamCheck (cfg s) param of (ret, param) \<Rightarrow>
       (if ret \<noteq> LOS_OK then (ret, None, s)
        else
          let s = OsRecyleFinishedTask s
          in if LOS_ListEmpty (pend s) FreeTask then (LOS_ERRNO_TSK_TCB_UNAVAILABLE, None, s)
             else
               let t = LOS_DL_LIST_FIRST (pend s) FreeTask;
                   s = s\<lparr>pend := LOS_ListDelete t (pend s)\<rparr>
               in if mem = 0
                  then (LOS_ERRNO_TSK_NO_MEMORY, None, s\<lparr>pend := LOS_ListAdd FreeTask t (pend s)\<rparr>)
                  else
                    let s = OsNewTaskInit t (the param) mem (LOS_MemAlloc mem s)
                    in (LOS_OK, Some (taskID (tcb s t)), s)))"

definition LOS_TaskCreate ::
  "bool \<Rightarrow> tsk_init_param option \<Rightarrow> UINT32 \<Rightarrow> 'a sched_state_scheme \<Rightarrow>
   errno \<times> nat option \<times> 'a sched_state_scheme" where
  "LOS_TaskCreate idNull param mem s =
    (case LOS_TaskCreateOnly idNull param mem s of (ret, tid, s) \<Rightarrow>
     (if ret \<noteq> LOS_OK then (ret, tid, s)
      else
        let s = OsSchedTaskEnQueue (the tid) s
        in (LOS_OK, tid, if g_taskScheduled s then LOS_Schedule s else s)))"

definition OsIdleTaskCreate :: "UINT32 \<Rightarrow> 'a sched_state_scheme \<Rightarrow> errno \<times> 'a sched_state_scheme" where
  "OsIdleTaskCreate mem s =
    (case LOS_TaskCreateOnly False
       (Some \<lparr>pfnTaskEntry = OS_IDLE_TASK_ENTRY, usTaskPrio = OS_TASK_PRIORITY_LOWEST, uwArg = 0,
          uwStackSize = of_nat (LOSCFG_BASE_CORE_TSK_IDLE_STACK_SIZE (cfg s)),
          pcName = Some ''IdleCore000''\<rparr>) mem s of (ret, tid, s) \<Rightarrow>
     (if ret \<noteq> LOS_OK then (ret, s)
      else
        let s = s\<lparr>g_idleTaskID := the tid\<rparr>
        in (LOS_OK, OsSchedSetIdleTaskSchedPartam (g_idleTaskID s) s)))"

section \<open>Suspending, resuming, deleting\<close>

definition LOS_TaskResume :: "nat \<Rightarrow> 'a sched_state_scheme \<Rightarrow> errno \<times> 'a sched_state_scheme" where
  "LOS_TaskResume t s =
    (if LOSCFG_BASE_CORE_TSK_LIMIT (cfg s) < t then (LOS_ERRNO_TSK_ID_INVALID, s)
     else if has (status s t) OS_TASK_STATUS_UNUSED then (LOS_ERRNO_TSK_NOT_CREATED, s)
     else if \<not> has (status s t) OS_TASK_STATUS_SUSPEND then (LOS_ERRNO_TSK_NOT_SUSPENDED, s)
     else
       let s = status_clear t OS_TASK_STATUS_SUSPEND s
       in if \<not> has (status s t) OS_CHECK_TASK_BLOCK then
            let s = OsSchedTaskEnQueue t s
            in (LOS_OK, if g_taskScheduled s then LOS_Schedule s else s)
          else (LOS_OK, s))"

definition LOS_TaskSuspend :: "nat \<Rightarrow> 'a sched_state_scheme \<Rightarrow> errno \<times> 'a sched_state_scheme" where
  "LOS_TaskSuspend t s =
    (let retErr = OsCheckTaskIDValid t s
     in if retErr \<noteq> LOS_OK then (retErr, s)
     else if has (status s t) OS_TASK_STATUS_UNUSED then (LOS_ERRNO_TSK_NOT_CREATED, s)
     else if has (status s t) OS_TASK_STATUS_SUSPEND then (LOS_ERRNO_TSK_ALREADY_SUSPENDED, s)
     else if has (status s t) OS_TASK_STATUS_RUNNING \<and> g_losTaskLock s \<noteq> 0
     then (LOS_ERRNO_TSK_SUSPEND_LOCKED, s)
     else
       let s = (if has (status s t) OS_TASK_STATUS_READY then OsSchedTaskDeQueue t s else s);
           s = status_or t OS_TASK_STATUS_SUSPEND s
       in (LOS_OK, if t = taskID (tcb s (runTask s)) then LOS_Schedule s else s))"

definition OsRunningTaskDelete :: "nat \<Rightarrow> nat \<Rightarrow> 'a sched_state_scheme \<Rightarrow> 'a sched_state_scheme" where
  "OsRunningTaskDelete tid t s =
    (let s = s\<lparr>pend := LOS_ListTailInsert RecycleTask t (pend s)\<rparr>;
         run = g_taskMaxNum s;
         s = s\<lparr>runTask := run\<rparr>
     in upd_tcb run (\<lambda>c. c\<lparr>taskID := tid, taskStatus := status s t OR OS_TASK_STATUS_RUNNING,
          topOfStack := topOfStack (tcb s t), taskName := taskName (tcb s t)\<rparr>) s)"

definition LOS_TaskDelete :: "nat \<Rightarrow> 'a sched_state_scheme \<Rightarrow> errno \<times> 'a sched_state_scheme" where
  "LOS_TaskDelete t s =
    (let ret = OsCheckTaskIDValid t s
     in if ret \<noteq> LOS_OK then (ret, s)
     else if has (status s t) OS_TASK_STATUS_UNUSED then (LOS_ERRNO_TSK_NOT_CREATED, s)
     else
       let s = (if has (status s t) OS_TASK_STATUS_RUNNING \<and> g_losTaskLock s \<noteq> 0
                then s\<lparr>g_losTaskLock := 0\<rparr> else s);
           s = OsSchedTaskExit t s;
           s = upd_tcb t (\<lambda>c. c\<lparr>eventID := OS_NULL_INT, eventMask := 0\<rparr>) s
       in if has (status s t) OS_TASK_STATUS_RUNNING then
            let s = upd_tcb t (taskStatus_update (\<lambda>_. OS_TASK_STATUS_UNUSED)) s;
                s = OsRunningTaskDelete t t s
            in (LOS_OK, LOS_Schedule s)
          else
            let s = upd_tcb t (taskStatus_update (\<lambda>_. OS_TASK_STATUS_UNUSED)) s;
                s = s\<lparr>pend := LOS_ListAdd FreeTask t (pend s)\<rparr>;
                s = LOS_MemFree (topOfStack (tcb s t)) s
            in (LOS_OK, upd_tcb t (topOfStack_update (\<lambda>_. 0)) s))"

text \<open>\<open>OsTaskEntry\<close>: the entry function of the task runs as the task, then the task is deleted.\<close>

definition OsTaskEntry_exit :: "nat \<Rightarrow> 'a sched_state_scheme \<Rightarrow> errno \<times> 'a sched_state_scheme" where
  "OsTaskEntry_exit t s = LOS_TaskDelete (taskID (tcb s t)) s"

section \<open>Delay, yield, priority, lock\<close>

definition LOS_TaskYield :: "'a sched_state_scheme \<Rightarrow> errno \<times> 'a sched_state_scheme" where
  "LOS_TaskYield s = (LOS_OK, LOS_Schedule (OsSchedYield s))"

definition LOS_TaskDelay :: "UINT32 \<Rightarrow> 'a sched_state_scheme \<Rightarrow> errno \<times> 'a sched_state_scheme" where
  "LOS_TaskDelay tick s =
    (if OS_INT_ACTIVE s then (LOS_ERRNO_TSK_DELAY_IN_INT, s)
     else if g_losTaskLock s \<noteq> 0 then (LOS_ERRNO_TSK_DELAY_IN_LOCK, s)
     else if tick = 0 then LOS_TaskYield s
     else (LOS_OK, LOS_Schedule (OsSchedDelay (runTask s) tick s)))"

definition LOS_Msleep :: "UINT32 \<Rightarrow> 'a sched_state_scheme \<Rightarrow> 'a sched_state_scheme" where
  "LOS_Msleep mSecs s =
    (if OS_INT_ACTIVE s then s
     else
       let interval = (if mSecs = 0 then 0
                       else let i = LOS_MS2Tick (cfg s) mSecs in if i = 0 then 1 else i)
       in snd (LOS_TaskDelay interval s))"

definition LOS_TaskPriGet :: "nat \<Rightarrow> 'a sched_state_scheme \<Rightarrow> nat" where
  "LOS_TaskPriGet t s =
    (if OS_CHECK_TSK_PID_NOIDLE t s \<or> has (status s t) OS_TASK_STATUS_UNUSED then 0xFFFF
     else priority (tcb s t))"

definition LOS_TaskPriSet :: "nat \<Rightarrow> nat \<Rightarrow> 'a sched_state_scheme \<Rightarrow> errno \<times> 'a sched_state_scheme" where
  "LOS_TaskPriSet t prio s =
    (if OS_TASK_PRIORITY_LOWEST < prio then (LOS_ERRNO_TSK_PRIOR_ERROR, s)
     else if t = g_idleTaskID s then (LOS_ERRNO_TSK_OPERATE_IDLE, s)
     else if t = g_swtmrTaskID s then (LOS_ERRNO_TSK_OPERATE_SWTMR, s)
     else if OS_CHECK_TSK_PID_NOIDLE t s then (LOS_ERRNO_TSK_ID_INVALID, s)
     else if has (status s t) OS_TASK_STATUS_UNUSED then (LOS_ERRNO_TSK_NOT_CREATED, s)
     else
       let (isReady, s) = OsSchedModifyTaskSchedParam t prio s
       in (LOS_OK, if isReady then LOS_Schedule s else s))"

definition LOS_CurTaskPriSet :: "nat \<Rightarrow> 'a sched_state_scheme \<Rightarrow> errno \<times> 'a sched_state_scheme" where
  "LOS_CurTaskPriSet prio s = LOS_TaskPriSet (taskID (tcb s (runTask s))) prio s"

definition LOS_TaskLock :: "'a sched_state_scheme \<Rightarrow> 'a sched_state_scheme" where
  "LOS_TaskLock s = s\<lparr>g_losTaskLock := g_losTaskLock s + 1\<rparr>"

definition LOS_TaskUnlock :: "'a sched_state_scheme \<Rightarrow> 'a sched_state_scheme" where
  "LOS_TaskUnlock s =
    (if 0 < g_losTaskLock s then
       let s = s\<lparr>g_losTaskLock := g_losTaskLock s - 1\<rparr>
       in if g_losTaskLock s = 0 then LOS_Schedule s else s
     else s)"

section \<open>Queries\<close>

definition LOS_CurTaskIDGet :: "'a sched_state_scheme \<Rightarrow> nat" where
  "LOS_CurTaskIDGet s = taskID (tcb s (runTask s))"

definition LOS_NextTaskIDGet :: "'a sched_state_scheme \<Rightarrow> nat" where
  "LOS_NextTaskIDGet s = taskID (tcb s (OsGetTopTask s))"

definition LOS_NewTaskIDGet :: "'a sched_state_scheme \<Rightarrow> nat" where
  "LOS_NewTaskIDGet s = LOS_NextTaskIDGet s"

definition LOS_CurTaskNameGet :: "'a sched_state_scheme \<Rightarrow> string" where
  "LOS_CurTaskNameGet s = taskName (tcb s (runTask s))"

definition LOS_TaskNameGet :: "nat \<Rightarrow> 'a sched_state_scheme \<Rightarrow> string option" where
  "LOS_TaskNameGet t s =
    (if OS_CHECK_TSK_PID_NOIDLE t s \<or> has (status s t) OS_TASK_STATUS_UNUSED then None
     else Some (taskName (tcb s t)))"

definition LOS_TaskStatusGet :: "nat \<Rightarrow> bool \<Rightarrow> 'a sched_state_scheme \<Rightarrow> errno \<times> UINT32 option" where
  "LOS_TaskStatusGet t outNull s =
    (if outNull then (LOS_ERRNO_TSK_PTR_NULL, None)
     else if OS_CHECK_TSK_PID_NOIDLE t s then (LOS_ERRNO_TSK_ID_INVALID, None)
     else if has (status s t) OS_TASK_STATUS_UNUSED then (LOS_ERRNO_TSK_NOT_CREATED, None)
     else (LOS_OK, Some (ucast (status s t))))"

definition LOS_TaskIsRunning :: "'a sched_state_scheme \<Rightarrow> bool" where
  "LOS_TaskIsRunning s = g_taskScheduled s"

record tsk_info =
  acName :: string
  uwTaskID :: nat
  usTaskStatus :: UINT16
  usPrio :: nat
  pTaskSem :: "nat option"
  pTaskMux :: "nat option"
  uwSemID :: nat
  uwMuxID :: nat
  uwEvent :: UINT32
  uwEventMask :: UINT32
  uwStkSize :: UINT32
  uwTopOfStack :: UINT32
  uwBottomOfStack :: UINT32
  uwSP :: UINT32
  uwCurrUsed :: UINT32
  uwPeakUsed :: UINT32
  bOvf :: bool

text \<open>
  \<open>waterLine\<close> is what \<open>OsGetTaskWaterLine\<close> reads from the stack of the task. The identifier of
  a semaphore or mutex is its index.
\<close>

definition LOS_TaskInfoGet ::
  "(nat \<Rightarrow> UINT32) \<Rightarrow> nat \<Rightarrow> bool \<Rightarrow> 'a sched_state_scheme \<Rightarrow> errno \<times> tsk_info option" where
  "LOS_TaskInfoGet waterLine t outNull s =
    (if outNull then (LOS_ERRNO_TSK_PTR_NULL, None)
     else if OS_CHECK_TSK_PID_NOIDLE t s then (LOS_ERRNO_TSK_ID_INVALID, None)
     else if has (status s t) OS_TASK_STATUS_UNUSED then (LOS_ERRNO_TSK_NOT_CREATED, None)
     else
       let c = tcb s t;
           bottom = TRUNCATE (topOfStack c + stackSize c) OS_TASK_STACK_ADDR_ALIGN
       in (LOS_OK, Some
         \<lparr>acName = take 31 (taskName c),
          uwTaskID = t,
          usTaskStatus = taskStatus c,
          usPrio = priority c,
          pTaskSem = taskSem c,
          pTaskMux = taskMux c,
          uwSemID = (case taskSem c of Some i \<Rightarrow> i | None \<Rightarrow> LOSCFG_BASE_IPC_SEM_LIMIT (cfg s)),
          uwMuxID = (case taskMux c of Some i \<Rightarrow> i | None \<Rightarrow> LOSCFG_BASE_IPC_MUX_LIMIT (cfg s)),
          uwEvent = eventID c,
          uwEventMask = eventMask c,
          uwStkSize = stackSize c,
          uwTopOfStack = topOfStack c,
          uwBottomOfStack = bottom,
          uwSP = stackPointer c,
          uwCurrUsed = bottom - stackPointer c,
          uwPeakUsed = waterLine t,
          bOvf = (waterLine t = OS_NULL_INT)\<rparr>))"

end
