(* ===== verification/Task_Inv.thy ===== *)
theory Task_Inv
  imports Task
begin

text \<open>
  Every service of \<open>los_task.c\<close> keeps the scheduler invariant, and what the services do on
  each branch: the identifiers they refuse, the state of a created, suspended, resumed or deleted
  task, and the reuse of a control block.
\<close>

section \<open>Recycling\<close>

lemma on_unique:
  assumes "core_ex R T s" "on s t h" "on s t h'" shows "h = h'"
  using core_exD(1) [OF assms(1)] assms(2,3) by (auto simp: lists_ok_def on_def dest: store_okD(2))

lemma core_tcb_same:
  assumes "core R s" "\<And>c. taskStatus (f c) = taskStatus c" "\<And>c. taskID (f c) = taskID c"
    "\<And>c. priority (f c) = priority c" "\<And>c. timeSlice (f c) = timeSlice c"
  shows "core R (upd_tcb t f s)"
  by (rule core_exI_same [OF assms(1)])
    (auto simp: core_exD(1,2) [OF assms(1)] same_for_def assms)

lemma core_heap [simp]: "core_ex R T (s\<lparr>heapBlocks := B\<rparr>) = core_ex R T s"
  by (rule core_frame) simp_all

lemma core_MemFree [simp]:
  "core_ex R T (LOS_MemFree p s) = core_ex R T s" "core_ex R T (LOS_MemAlloc p s) = core_ex R T s"
  by (simp_all add: LOS_MemFree_def LOS_MemAlloc_def)

lemma mem_sel [simp]:
  "g_taskCBArray (LOS_MemFree p s) = g_taskCBArray s" "g_taskCBArray (LOS_MemAlloc p s) = g_taskCBArray s"
  "pend (LOS_MemFree p s) = pend s" "pend (LOS_MemAlloc p s) = pend s"
  "runTask (LOS_MemFree p s) = runTask s" "runTask (LOS_MemAlloc p s) = runTask s"
  "g_taskMaxNum (LOS_MemFree p s) = g_taskMaxNum s" "g_taskMaxNum (LOS_MemAlloc p s) = g_taskMaxNum s"
  "g_idleTaskID (LOS_MemFree p s) = g_idleTaskID s" "g_idleTaskID (LOS_MemAlloc p s) = g_idleTaskID s"
  "g_taskSortLink (LOS_MemFree p s) = g_taskSortLink s" "g_taskSortLink (LOS_MemAlloc p s) = g_taskSortLink s"
  "cfg (LOS_MemFree p s) = cfg s" "cfg (LOS_MemAlloc p s) = cfg s"
  "g_swtmrSortLink (LOS_MemFree p s) = g_swtmrSortLink s" "g_swtmrSortLink (LOS_MemAlloc p s) = g_swtmrSortLink s"
  "g_taskScheduled (LOS_MemFree p s) = g_taskScheduled s" "g_taskScheduled (LOS_MemAlloc p s) = g_taskScheduled s"
  "g_swtmrTaskID (LOS_MemFree p s) = g_swtmrTaskID s" "g_swtmrTaskID (LOS_MemAlloc p s) = g_swtmrTaskID s"
  "g_losTaskLock (LOS_MemFree p s) = g_losTaskLock s" "g_losTaskLock (LOS_MemAlloc p s) = g_losTaskLock s"
  "OS_INT_ACTIVE (LOS_MemFree p s) = OS_INT_ACTIVE s" "OS_INT_ACTIVE (LOS_MemAlloc p s) = OS_INT_ACTIVE s"
  "assertFailed (LOS_MemFree p s) = assertFailed s" "assertFailed (LOS_MemAlloc p s) = assertFailed s"
  "g_queueBitmap (LOS_MemFree p s) = g_queueBitmap s" "g_queueBitmap (LOS_MemAlloc p s) = g_queueBitmap s"
  "sched_state.more (LOS_MemFree p s) = sched_state.more s" "sched_state.more (LOS_MemAlloc p s) = sched_state.more s"
  by (simp_all add: LOS_MemFree_def LOS_MemAlloc_def)

text \<open>A free control block that moves between the free and the recycle list.\<close>

lemma unused_facts:
  assumes "sched_inv s" "t < g_taskMaxNum s" "has (status s t) OS_TASK_STATUS_UNUSED"
  shows "t \<noteq> runTask s" "t \<noteq> g_idleTaskID s" "\<not> timed s t" "\<not> on s t (PriQ p)"
    "is_wait h \<Longrightarrow> \<not> on s t h"
proof -
  note ok = sched_invD(5) [OF assms(1), of t]
  note d = task_okD [OF ok assms(2)] and fl = task_flags(4) [OF ok assms(2,3)]
  show "t \<noteq> runTask s" using sched_invD(2) [OF assms(1)] assms(2,3) by (auto simp: running_ok_def)
  show "t \<noteq> g_idleTaskID s" using d(9) assms(3) by blast
  show "\<not> timed s t" using d(5) fl by blast
  show "\<not> on s t (PriQ p)" using d(2) fl by blast
  show "is_wait h \<Longrightarrow> \<not> on s t h" using d(4) fl by blast
qed

lemma recycle_one_inv:
  assumes inv: "sched_inv s" and on: "on s t RecycleTask"
  shows "sched_inv (recycle_one t s)"
proof -
  note c = sched_invD(1) [OF inv] and ok = sched_invD(5) [OF inv, of t]
  have lt: "t < g_taskMaxNum s" by (rule on_lt [OF ok on])
  note d = task_okD [OF ok lt]
  have un: "has (status s t) OS_TASK_STATUS_UNUSED" using d(3) on by blast
  note u = unused_facts [OF inv lt un] and fl = task_flags(4) [OF ok lt un]
  have store: "store_ok (pend s)" using sched_invD(3) [OF inv] by (simp add: lists_ok_def)
  let ?s = "s\<lparr>pend := LOS_ListAdd FreeTask t (LOS_ListDelete t (pend s))\<rparr>"
  have "core_ex {runTask s} {t} (s\<lparr>pend := LOS_ListDelete t (pend s)\<rparr>)"
    by (intro core_remove core_ex_weaken [OF c]) (simp_all add: u(4))
  from core_insert(2) [OF this, of t FreeTask "LOS_ListDelete t (pend s)"]
  have c1: "core_ex {runTask s} {t} ?s" by (simp add: list_mem store)
  have "task_ok {runTask s} ?s t"
    using d un fl u lt store by (intro task_okI) (auto simp: list_mem timed_def)
  with c1 have "core {runTask s} ?s" by (rule core_exI)
  then have "core {runTask s} (recycle_one t s)"
    unfolding recycle_one_def Let_def by (intro core_tcb_same) simp_all
  moreover have "running_ok (recycle_one t s)"
    using sched_invD(2) [OF inv] by (auto simp: running_ok_def recycle_one_def Let_def)
  ultimately show ?thesis by (simp add: sched_inv_def recycle_one_def Let_def)
qed

lemma recycle_loop_inv: "sched_inv s \<Longrightarrow> sched_inv (recycle_loop n s)"
proof (induction n s rule: recycle_loop.induct)
  case (2 n s)
  then show ?case
    using recycle_one_inv [OF 2(2), of "hd (pend s RecycleTask)"]
    by (cases "pend s RecycleTask = []") (simp_all add: LOS_ListEmpty_def LOS_DL_LIST_FIRST_def on_def)
qed simp

lemma recycle_inv: "sched_inv s \<Longrightarrow> sched_inv (OsRecyleFinishedTask s)"
  by (simp add: OsRecyleFinishedTask_def recycle_loop_inv)

text \<open>The loop empties the recycle list.\<close>

lemma recycle_one_length:
  assumes "sched_inv s" "on s t RecycleTask"
  shows "length (pend (recycle_one t s) RecycleTask) = length (pend s RecycleTask) - 1"
  using assms(2) by (simp add: recycle_one_def Let_def LOS_ListAdd_def LOS_ListDelete_def on_def length_remove1)

lemma recycle_loop_empties:
  "sched_inv s \<Longrightarrow> length (pend s RecycleTask) \<le> n \<Longrightarrow> pend (recycle_loop n s) RecycleTask = []"
proof (induction n s rule: recycle_loop.induct)
  case (2 n s)
  show ?case
  proof (cases "pend s RecycleTask = []")
    case False
    then have on: "on s (hd (pend s RecycleTask)) RecycleTask" by (simp add: on_def)
    from False show ?thesis
      using 2 recycle_one_inv [OF 2(2) on] recycle_one_length [OF 2(2) on]
      by (simp add: LOS_ListEmpty_def LOS_DL_LIST_FIRST_def)
  qed (simp add: LOS_ListEmpty_def)
qed simp

lemma recycle_empties: "sched_inv s \<Longrightarrow> pend (OsRecyleFinishedTask s) RecycleTask = []"
  by (simp add: OsRecyleFinishedTask_def recycle_loop_empties)

lemma recycle_sel [simp]:
  "cfg (OsRecyleFinishedTask s) = cfg s"
  "g_taskMaxNum (OsRecyleFinishedTask s) = g_taskMaxNum s"
  "g_idleTaskID (OsRecyleFinishedTask s) = g_idleTaskID s"
  "runTask (OsRecyleFinishedTask s) = runTask s"
  "g_taskScheduled (OsRecyleFinishedTask s) = g_taskScheduled s"
  "status (OsRecyleFinishedTask s) u = status s u"
  "priority (tcb (OsRecyleFinishedTask s) u) = priority (tcb s u)"
proof -
  have one: "cfg (recycle_one t q) = cfg q" "g_taskMaxNum (recycle_one t q) = g_taskMaxNum q"
    "g_idleTaskID (recycle_one t q) = g_idleTaskID q" "runTask (recycle_one t q) = runTask q"
    "g_taskScheduled (recycle_one t q) = g_taskScheduled q" "status (recycle_one t q) u = status q u"
    "priority (tcb (recycle_one t q) u) = priority (tcb q u)"
    for t and q :: "'a sched_state_scheme"
    by (simp_all add: recycle_one_def Let_def)
  have "cfg (recycle_loop n q) = cfg q \<and> g_taskMaxNum (recycle_loop n q) = g_taskMaxNum q \<and>
    g_idleTaskID (recycle_loop n q) = g_idleTaskID q \<and> runTask (recycle_loop n q) = runTask q \<and>
    g_taskScheduled (recycle_loop n q) = g_taskScheduled q \<and> status (recycle_loop n q) u = status q u \<and>
    priority (tcb (recycle_loop n q) u) = priority (tcb q u)" for n and q :: "'a sched_state_scheme"
    by (induction n q rule: recycle_loop.induct) (simp_all add: one)
  then show "cfg (OsRecyleFinishedTask s) = cfg s"
    "g_taskMaxNum (OsRecyleFinishedTask s) = g_taskMaxNum s"
    "g_idleTaskID (OsRecyleFinishedTask s) = g_idleTaskID s"
    "runTask (OsRecyleFinishedTask s) = runTask s"
    "g_taskScheduled (OsRecyleFinishedTask s) = g_taskScheduled s"
    "status (OsRecyleFinishedTask s) u = status s u"
    "priority (tcb (OsRecyleFinishedTask s) u) = priority (tcb s u)"
    by (simp_all add: OsRecyleFinishedTask_def)
qed

section \<open>Creating\<close>

lemma ParamCheck_ok:
  assumes "OsTaskInitParamCheck c param = (LOS_OK, param')"
  shows "\<exists>p. param' = Some p \<and> usTaskPrio p < OS_PRIORITY_QUEUE_NUM"
  using assms
  by (cases param) (auto simp: OsTaskInitParamCheck_def Let_def OS_PRIORITY_QUEUE_NUM_def
      OS_TASK_PRIORITY_LOWEST_def split: if_splits)

lemma expiry_SET:
  "expiry (s\<lparr>g_taskSortLink := SET_SORTLIST_VALUE t v (g_taskSortLink s)\<rparr>) u =
    (if u = t then v else expiry s u)"
  "timed (s\<lparr>g_taskSortLink := SET_SORTLIST_VALUE t v (g_taskSortLink s)\<rparr>) u = timed s u"
  by (simp_all add: timed_def)

lemma core_SET:
  assumes "core_ex R {t} s" "\<not> timed s t"
  shows "core_ex R {t} (s\<lparr>g_taskSortLink := SET_SORTLIST_VALUE t v (g_taskSortLink s)\<rparr>)"
proof (rule core_exI_same [OF assms(1)])
  have "sortlink_ok (g_taskSortLink s)"
    using core_exD(1) [OF assms(1)] by (simp add: lists_ok_def sortlinks_ok_def)
  then have "sortlink_ok (SET_SORTLIST_VALUE t v (g_taskSortLink s))"
    using assms(2) by (auto simp: sortlink_ok_def expiry_sorted_SET timed_def)
  then show "lists_ok (s\<lparr>g_taskSortLink := SET_SORTLIST_VALUE t v (g_taskSortLink s)\<rparr>)"
    using core_exD(1) [OF assms(1)] by (simp add: lists_ok_def sortlinks_ok_def)
  show "globals_ok (s\<lparr>g_taskSortLink := SET_SORTLIST_VALUE t v (g_taskSortLink s)\<rparr>)"
    using core_exD(2) [OF assms(1)] by (simp add: globals_ok_def)
  show "same_for u s (s\<lparr>g_taskSortLink := SET_SORTLIST_VALUE t v (g_taskSortLink s)\<rparr>)"
    if "u \<notin> {t}" for u
    using that by (simp add: same_for_def on_def timed_def)
qed

lemma NewTaskInit_sel [simp]:
  "status (OsNewTaskInit t p a s) u = (if u = t then OS_TASK_STATUS_SUSPEND else status s u)"
  "taskID (tcb (OsNewTaskInit t p a s) u) = taskID (tcb s u)"
  "priority (tcb (OsNewTaskInit t p a s) u) = (if u = t then usTaskPrio p else priority (tcb s u))"
  "on (OsNewTaskInit t p a s) u h = on s u h" "timed (OsNewTaskInit t p a s) u = timed s u"
  "pend (OsNewTaskInit t p a s) = pend s"
  "expiry (OsNewTaskInit t p a s) t = OS_SORT_LINK_INVALID_TIME"
  "runTask (OsNewTaskInit t p a s) = runTask s" "g_taskMaxNum (OsNewTaskInit t p a s) = g_taskMaxNum s"
  "g_idleTaskID (OsNewTaskInit t p a s) = g_idleTaskID s" "cfg (OsNewTaskInit t p a s) = cfg s"
  "g_taskScheduled (OsNewTaskInit t p a s) = g_taskScheduled s"
  by (simp_all add: OsNewTaskInit_def Let_def on_def timed_def)

lemma core_NewTaskInit:
  assumes "core_ex R {t} s" "\<not> timed s t"
  shows "core_ex R {t} (OsNewTaskInit t p a s)"
  unfolding OsNewTaskInit_def Let_def using assms by (intro core_SET core_upd) simp_all

text \<open>A created task: suspended, on no list, with the priority it was given.\<close>

definition newly_created :: "'a sched_state_scheme \<Rightarrow> nat \<Rightarrow> bool" where
  "newly_created s t \<longleftrightarrow> t < g_taskMaxNum s \<and> t \<noteq> runTask s \<and> t \<noteq> g_idleTaskID s \<and>
    status s t = OS_TASK_STATUS_SUSPEND \<and> (\<forall>h. \<not> on s t h) \<and> \<not> timed s t"

lemma free_first:
  assumes "sched_inv s" "pend s FreeTask \<noteq> []"
  shows "hd (pend s FreeTask) < g_taskMaxNum s"
    and "has (status s (hd (pend s FreeTask))) OS_TASK_STATUS_UNUSED"
proof -
  have on: "on s (hd (pend s FreeTask)) FreeTask" using assms(2) by (simp add: on_def)
  note ok = sched_invD(5) [OF assms(1), of "hd (pend s FreeTask)"]
  show lt: "hd (pend s FreeTask) < g_taskMaxNum s" by (rule on_lt [OF ok on])
  show "has (status s (hd (pend s FreeTask))) OS_TASK_STATUS_UNUSED"
    using task_okD(3) [OF ok lt] on by blast
qed

lemma create_from_free:
  assumes inv: "sched_inv s" and ne: "pend s FreeTask \<noteq> []" and t: "t = hd (pend s FreeTask)"
    and p: "usTaskPrio p < OS_PRIORITY_QUEUE_NUM"
    and s': "s' = OsNewTaskInit t p mem (LOS_MemAlloc mem (s\<lparr>pend := LOS_ListDelete t (pend s)\<rparr>))"
  shows "sched_inv s'" and "newly_created s' t" and "taskID (tcb s' t) = t"
proof -
  note c = sched_invD(1) [OF inv] and ok = sched_invD(5) [OF inv, of t]
  note lt = free_first(1) [OF inv ne, folded t] and un = free_first(2) [OF inv ne, folded t]
  note d = task_okD [OF ok lt] and u = unused_facts [OF inv lt un] and fl = task_flags(4) [OF ok lt un]
  have store: "store_ok (pend s)" using sched_invD(3) [OF inv] by (simp add: lists_ok_def)
  have c0: "core_ex {runTask s} {t} (LOS_MemAlloc mem (s\<lparr>pend := LOS_ListDelete t (pend s)\<rparr>))"
    unfolding core_MemFree by (intro core_remove core_ex_weaken [OF c]) (simp_all add: u(4))
  have tm: "\<not> timed (LOS_MemAlloc mem (s\<lparr>pend := LOS_ListDelete t (pend s)\<rparr>)) t"
    using u(3) by (simp add: timed_def)
  have off: "\<not> on s' t h" for h
    by (simp add: s' list_mem store) (simp add: on_def list_mem store)
  have c1: "core_ex {runTask s} {t} s'"
    unfolding s' by (rule core_NewTaskInit [OF c0 tm])
  have tm': "\<not> timed s' t" using tm by (simp add: s')
  show id: "taskID (tcb s' t) = t" using d(1) by (simp add: s')
  have sel: "status s' t = OS_TASK_STATUS_SUSPEND" "priority (tcb s' t) = usTaskPrio p"
    "g_taskMaxNum s' = g_taskMaxNum s" "g_idleTaskID s' = g_idleTaskID s"
    "expiry s' t = OS_SORT_LINK_INVALID_TIME"
    by (simp_all add: s')
  have "task_ok {runTask s} s' t"
    using lt off tm' id p u(2) sel by (intro task_okI) (simp_all add: flags_ok_def)
  with c1 have "core {runTask s} s'" by (rule core_exI)
  moreover have "running_ok s'"
    using sched_invD(2) [OF inv] u(1) by (auto simp: running_ok_def s')
  ultimately show "sched_inv s'" by (simp add: sched_inv_def s')
  show "newly_created s' t"
    using lt u(1,2) off tm' by (simp add: newly_created_def) (simp add: s')
qed

lemma CreateOnly_cases:
  assumes pc: "OsTaskInitParamCheck (cfg s) param = (ret0, param')" and q: "q = OsRecyleFinishedTask s"
    and t: "t = hd (pend q FreeTask)"
  shows "LOS_TaskCreateOnly idNull param mem s =
    (if idNull then (LOS_ERRNO_TSK_ID_INVALID, None, s)
     else if ret0 \<noteq> LOS_OK then (ret0, None, s)
     else if pend q FreeTask = [] then (LOS_ERRNO_TSK_TCB_UNAVAILABLE, None, q)
     else if mem = 0
     then (LOS_ERRNO_TSK_NO_MEMORY, None, q\<lparr>pend := LOS_ListAdd FreeTask t (LOS_ListDelete t (pend q))\<rparr>)
     else
       let s' = OsNewTaskInit t (the param') mem (LOS_MemAlloc mem (q\<lparr>pend := LOS_ListDelete t (pend q)\<rparr>))
       in (LOS_OK, Some (taskID (tcb s' t)), s'))"
  unfolding LOS_TaskCreateOnly_def pc t q
  by (simp only: Let_def prod.case LOS_ListEmpty_def LOS_DL_LIST_FIRST_def) simp

lemma CreateOnly_inv:
  assumes inv: "sched_inv s" and r: "LOS_TaskCreateOnly idNull param mem s = (ret, tid, s')"
  shows "sched_inv s' \<and> (ret = LOS_OK \<longrightarrow> (\<exists>t. tid = Some t \<and> newly_created s' t))"
proof -
  obtain ret0 param' where pc: "OsTaskInitParamCheck (cfg s) param = (ret0, param')" by fastforce
  define q where "q = OsRecyleFinishedTask s"
  define t where "t = hd (pend q FreeTask)"
  have qinv: "sched_inv q" using recycle_inv [OF inv] by (simp add: q_def)
  note r' = r [unfolded CreateOnly_cases [OF pc q_def t_def]]
  show ?thesis
  proof (cases "idNull \<or> ret0 \<noteq> LOS_OK \<or> pend q FreeTask = []")
    case True
    then have "ret \<noteq> LOS_OK \<and> (s' = s \<or> s' = q)"
      using r' by (cases "idNull"; cases "ret0 = LOS_OK"; auto)
    then show ?thesis using inv qinv by blast
  next
    case False
    then have nn: "\<not> idNull" "ret0 = LOS_OK" "pend q FreeTask \<noteq> []" by simp_all
    show ?thesis
    proof (cases "mem = 0")
      case True
      have "store_ok (pend q)" using sched_invD(3) [OF qinv] by (simp add: lists_ok_def)
      from delete_on [OF this, of t FreeTask] nn(3)
      have "LOS_ListAdd FreeTask t (LOS_ListDelete t (pend q)) = pend q"
        by (simp add: LOS_ListAdd_def remove1_hd_tl t_def)
      with r' True nn have "ret \<noteq> LOS_OK" "s' = q" by auto
      with qinv show ?thesis by simp
    next
      case False
      obtain p where p: "param' = Some p" "usTaskPrio p < OS_PRIORITY_QUEUE_NUM"
        using ParamCheck_ok [of "cfg s" param param'] pc nn(2) by auto
      have s': "s' = OsNewTaskInit t p mem (LOS_MemAlloc mem (q\<lparr>pend := LOS_ListDelete t (pend q)\<rparr>))"
        and tid: "tid = Some (taskID (tcb s' t))"
        using r' False nn p(1) by (auto simp: Let_def)
      note c = create_from_free [OF qinv nn(3) t_def p(2) s']
      from c(1,2) tid c(3) show ?thesis by simp
    qed
  qed
qed

lemma newly_enqueue:
  assumes "sched_inv s" "newly_created s t"
  shows "sched_inv (OsSchedTaskEnQueue t s)"
proof -
  note n = assms(2) [unfolded newly_created_def]
  note ok = sched_invD(5) [OF assms(1), of t]
  note d = task_okD [OF ok]
  have "core {runTask s} (OsSchedTaskEnQueue t s)"
    using n d(1,6,7) by (intro core_enqueue core_ex_weaken [OF sched_invD(1) [OF assms(1)]]) auto
  moreover have "running_ok (OsSchedTaskEnQueue t s)"
    using n sched_invD(2) [OF assms(1)] by (intro running_enqueue) auto
  ultimately show ?thesis by (simp add: sched_inv_def)
qed

lemma Create_inv:
  assumes inv: "sched_inv s"
  shows "sched_inv (snd (snd (LOS_TaskCreate idNull param mem s)))"
proof -
  obtain ret tid s' where r: "LOS_TaskCreateOnly idNull param mem s = (ret, tid, s')"
    using prod_cases3 by blast
  note c = CreateOnly_inv [OF inv r]
  show ?thesis
    using c newly_enqueue by (cases "ret = LOS_OK") (auto simp: LOS_TaskCreate_def r Let_def)
qed

section \<open>Suspending and resuming\<close>

lemma core_resume:
  assumes inv: "sched_inv s" and lt: "t < g_taskMaxNum s"
    and nr: "t \<noteq> runTask s \<or> has (status s t) (OS_TASK_STATUS_PEND OR OS_TASK_STATUS_DELAY)"
    and susp: "has (status s t) OS_TASK_STATUS_SUSPEND"
    and s1: "s1 = status_clear t OS_TASK_STATUS_SUSPEND s"
  shows "sched_inv (if has (status s1 t) OS_CHECK_TASK_BLOCK then s1 else OsSchedTaskEnQueue t s1)"
proof -
  note c = sched_invD(1) [OF inv] and ok = sched_invD(5) [OF inv, of t]
  note d = task_okD [OF ok lt]
  have fl: "\<not> has (status s t) OS_TASK_STATUS_READY" "\<not> has (status s t) OS_TASK_STATUS_UNUSED"
    using task_flags(1,4) [OF ok lt] susp by blast+
  have nid: "t \<noteq> g_idleTaskID s" using d(9) susp by blast
  have c1: "core_ex {runTask s} {t} s1"
    unfolding s1 by (intro core_status core_ex_weaken [OF c]) auto
  have run1: "running_ok s1"
    by (rule running_same [OF sched_invD(2) [OF inv]]) (simp_all add: s1 fl running_okD [OF sched_invD(2) [OF inv]])
  show ?thesis
  proof (cases "has (status s1 t) OS_CHECK_TASK_BLOCK")
    case True
    have "task_ok {runTask s} s1 t"
      using d(1-8,10) fl lt nid unfolding s1 by (intro task_okI) (simp_all add: flags_ok_def)
    with c1 have "core {runTask s} s1" by (rule core_exI)
    with True run1 show ?thesis by (simp add: sched_inv_def s1)
  next
    case False
    then have nb: "\<not> has (status s t) OS_TASK_STATUS_PEND" "\<not> has (status s t) OS_TASK_STATUS_DELAY"
      by (simp_all add: s1 OS_CHECK_TASK_BLOCK_def)
    then have np: "\<not> has (status s t) OS_TASK_STATUS_PEND_TIME"
      using task_flags(3) [OF ok lt] by blast
    have "core {runTask s} (OsSchedTaskEnQueue t s1)"
    proof (rule core_enqueue [OF c1])
      show "\<not> on s1 t h" for h
        using off_lists [OF ok lt fl nb(1)] by (simp add: s1)
      show "\<not> timed s1 t" "expiry s1 t = OS_SORT_LINK_INVALID_TIME"
        using d(5,6) fl(2) nb np by (auto simp: s1)
    qed (use d(1,7) fl lt in \<open>auto simp: s1\<close>)
    moreover have "running_ok (OsSchedTaskEnQueue t s1)"
      using run1 nr nb by (intro running_enqueue) (auto simp: s1)
    ultimately show ?thesis using False by (simp add: sched_inv_def s1)
  qed
qed

lemma Resume_inv:
  assumes inv: "sched_inv s"
    and nr: "t \<noteq> runTask s \<or> \<not> t < g_taskMaxNum s \<or> \<not> has (status s t) OS_TASK_STATUS_SUSPEND \<or>
      has (status s t) (OS_TASK_STATUS_PEND OR OS_TASK_STATUS_DELAY)"
  shows "sched_inv (snd (LOS_TaskResume t s))"
proof -
  let ?s1 = "status_clear t OS_TASK_STATUS_SUSPEND s"
  have lim: "Suc (LOSCFG_BASE_CORE_TSK_LIMIT (cfg s)) = g_taskMaxNum s"
    using sched_invD(4) [OF inv] by (simp add: globals_ok_def)
  show ?thesis
  proof (cases "LOSCFG_BASE_CORE_TSK_LIMIT (cfg s) < t \<or> has (status s t) OS_TASK_STATUS_UNUSED \<or>
      \<not> has (status s t) OS_TASK_STATUS_SUSPEND")
    case True
    then have "snd (LOS_TaskResume t s) = s" by (auto simp: LOS_TaskResume_def)
    with inv show ?thesis by simp
  next
    case False
    then have lt: "t < g_taskMaxNum s" using lim by simp
    have "sched_inv (if has (status ?s1 t) OS_CHECK_TASK_BLOCK then ?s1 else OsSchedTaskEnQueue t ?s1)"
      using False lt nr by (intro core_resume [OF inv lt _ _ refl]) auto
    with False show ?thesis
      by (auto simp: LOS_TaskResume_def Let_def simp del: status_clear_sel split: if_splits)
  qed
qed

lemma Suspend_inv:
  assumes inv: "sched_inv s" shows "sched_inv (snd (LOS_TaskSuspend t s))"
proof (cases "OsCheckTaskIDValid t s = LOS_OK \<and> \<not> has (status s t) OS_TASK_STATUS_UNUSED \<and>
    \<not> has (status s t) OS_TASK_STATUS_SUSPEND \<and>
    \<not> (has (status s t) OS_TASK_STATUS_RUNNING \<and> g_losTaskLock s \<noteq> 0)")
  case False
  then have "snd (LOS_TaskSuspend t s) = s" by (auto simp: LOS_TaskSuspend_def Let_def)
  with inv show ?thesis by simp
next
  case True
  have lt: "t < g_taskMaxNum s" and nid: "t \<noteq> g_idleTaskID s"
    using True by (auto simp: OsCheckTaskIDValid_def split: if_splits)
  define s1 where "s1 = (if has (status s t) OS_TASK_STATUS_READY then OsSchedTaskDeQueue t s else s)"
  let ?s2 = "status_or t OS_TASK_STATUS_SUSPEND s1"
  have c1: "core {runTask s} s1"
    using sched_invD(1) [OF inv] core_dequeue [OF sched_invD(1) [OF inv], of t] lt by (simp add: s1_def)
  have run1: "running_ok s1" using sched_invD(2) [OF inv] running_dequeue [of s t] by (simp add: s1_def)
  have frames: "g_taskMaxNum s1 = g_taskMaxNum s" "g_idleTaskID s1 = g_idleTaskID s"
    "runTask s1 = runTask s" by (simp_all add: s1_def)
  have lt1: "t < g_taskMaxNum s1" using lt frames by simp
  have nr: "\<not> has (status s1 t) OS_TASK_STATUS_READY" "\<not> has (status s1 t) OS_TASK_STATUS_UNUSED"
    using True by (auto simp: s1_def DeQueue_flags)
  have ok: "task_ok {runTask s} s1 t" using c1 by (rule core_exD) simp
  note d = task_okD [OF ok lt1]
  have "core_ex {runTask s} {t} ?s2"
    by (intro core_status core_ex_weaken [OF c1]) auto
  moreover have "task_ok {runTask s} ?s2 t"
    using d nr lt1 nid frames by (intro task_okI) (auto simp: flags_ok_def)
  ultimately have "core {runTask s} ?s2" by (rule core_exI)
  moreover have "running_ok ?s2"
    by (rule running_same [OF run1]) (use running_okD(2) [OF run1] in auto)
  ultimately have "sched_inv ?s2" by (simp add: sched_inv_def frames)
  with True show ?thesis by (auto simp: LOS_TaskSuspend_def Let_def s1_def)
qed

section \<open>Deleting\<close>

text \<open>
  A task that has left everything becomes a free control block: on the free list when another
  task deleted it, on the recycle list when it deleted itself (its stack is still in use).
\<close>

lemma unused_task_ok:
  assumes "t < g_taskMaxNum s" "status s t = OS_TASK_STATUS_UNUSED" "taskID (tcb s t) = t"
    "\<And>h. on s t h \<longleftrightarrow> h = k" "k = FreeTask \<or> k = RecycleTask" "\<not> timed s t" "t \<noteq> g_idleTaskID s"
  shows "task_ok R s t"
  using assms(5)
proof
  assume "k = FreeTask"
  then show ?thesis using assms(1-4,6,7) by (intro task_okI) (simp_all add: flags_ok_def)
next
  assume "k = RecycleTask"
  then show ?thesis using assms(1-4,6,7) by (intro task_okI) (simp_all add: flags_ok_def)
qed

lemma delete_parts:
  assumes inv: "sched_inv s" and lt: "t < g_taskMaxNum s"
    and un: "\<not> has (status s t) OS_TASK_STATUS_UNUSED" and nid: "t \<noteq> g_idleTaskID s"
    and s3: "s3 = upd_tcb t (taskStatus_update (\<lambda>_. OS_TASK_STATUS_UNUSED))
      (upd_tcb t (\<lambda>c. c\<lparr>eventID := OS_NULL_INT, eventMask := 0\<rparr>) (OsSchedTaskExit t s))"
  shows "core_ex {runTask s} {t} s3" "\<And>h. \<not> on s3 t h" "\<not> timed s3 t"
    "status s3 t = OS_TASK_STATUS_UNUSED" "taskID (tcb s3 t) = t"
    "g_taskMaxNum s3 = g_taskMaxNum s" "g_idleTaskID s3 = g_idleTaskID s" "runTask s3 = runTask s"
    "\<And>u. u \<noteq> t \<Longrightarrow> tcb s3 u = tcb s u"
proof -
  note e = Exit_task [OF sched_invD(1) [OF inv] lt un]
  show "core_ex {runTask s} {t} s3" unfolding s3 by (intro core_upd e(1)) simp_all
  show "\<not> on s3 t h" for h using e(2) by (simp add: s3)
  show "\<not> timed s3 t" using e(3) by (simp add: s3)
  show "taskID (tcb s3 t) = t"
    using task_okD(1) [OF sched_invD(5) [OF inv] lt] by (simp add: s3 Exit_frame)
  show "u \<noteq> t \<Longrightarrow> tcb s3 u = tcb s u" for u by (simp add: s3 Exit_frame)
qed (simp_all add: s3)

lemma delete_other:
  assumes inv: "sched_inv s" and lt: "t < g_taskMaxNum s"
    and un: "\<not> has (status s t) OS_TASK_STATUS_UNUSED" and nid: "t \<noteq> g_idleTaskID s"
    and nr: "t \<noteq> runTask s"
    and s3: "s3 = upd_tcb t (taskStatus_update (\<lambda>_. OS_TASK_STATUS_UNUSED))
      (upd_tcb t (\<lambda>c. c\<lparr>eventID := OS_NULL_INT, eventMask := 0\<rparr>) (OsSchedTaskExit t s))"
  shows "sched_inv (s3\<lparr>pend := LOS_ListAdd FreeTask t (pend s3)\<rparr>)" (is "sched_inv ?f")
proof -
  note p = delete_parts [OF inv lt un nid s3]
  have "core_ex {runTask s} {t} ?f" by (intro core_insert p(1,2)) simp_all
  moreover have "task_ok {runTask s} ?f t"
    by (rule unused_task_ok [where k = FreeTask])
      (use p lt nid in \<open>simp_all add: list_mem timed_def on_def\<close>)
  ultimately have "core {runTask s} ?f" by (rule core_exI)
  moreover have "running_ok ?f"
  proof -
    note r = running_okD [OF sched_invD(2) [OF inv]]
    have "has (status s3 u) OS_TASK_STATUS_RUNNING \<longleftrightarrow> u = runTask s" if "u < g_taskMaxNum s" for u
      using r(3) [OF that] nr p(4,9) by (cases "u = t") simp_all
    moreover have "tcb s3 (runTask s) = tcb s (runTask s)" using nr p(9) by simp
    ultimately show ?thesis using r by (simp add: running_ok_def p)
  qed
  ultimately show ?thesis by (simp add: sched_inv_def p)
qed

lemma delete_running:
  assumes inv: "sched_inv s" and lt: "t < g_taskMaxNum s"
    and un: "\<not> has (status s t) OS_TASK_STATUS_UNUSED" and nid: "t \<noteq> g_idleTaskID s"
    and run: "t = runTask s"
    and s3: "s3 = upd_tcb t (taskStatus_update (\<lambda>_. OS_TASK_STATUS_UNUSED))
      (upd_tcb t (\<lambda>c. c\<lparr>eventID := OS_NULL_INT, eventMask := 0\<rparr>) (OsSchedTaskExit t s))"
  shows "sched_inv (OsRunningTaskDelete t t s3)" (is "sched_inv ?f")
proof -
  note p = delete_parts [OF inv lt un nid s3]
  let ?n = "g_taskMaxNum s"
  let ?g = "s3\<lparr>pend := LOS_ListTailInsert RecycleTask t (pend s3)\<rparr>"
  have tn: "t \<noteq> ?n" using lt by simp
  have "core_ex {t} {t} ?g"
    using p(1) run by (intro core_insert p(2)) simp_all
  moreover have "task_ok {t} ?g t"
    by (rule unused_task_ok [where k = RecycleTask])
      (use p lt nid in \<open>simp_all add: list_mem timed_def on_def\<close>)
  ultimately have "core {t} ?g" by (rule core_exI)
  then have cg: "core {} ?g"
    using core_untimed [of ?g t "{}"] p(4) by simp
  let ?h = "?g\<lparr>runTask := ?n\<rparr>"
  let ?upd = "\<lambda>c. c\<lparr>taskID := t, taskStatus := OS_TASK_STATUS_UNUSED OR OS_TASK_STATUS_RUNNING,
          topOfStack := topOfStack (tcb s3 t), taskName := taskName (tcb s3 t)\<rparr>"
  have feq: "?f = upd_tcb ?n ?upd ?h"
    by (simp add: OsRunningTaskDelete_def Let_def p)
  have ch: "core {} ?h" using cg by simp
  have "core_ex {} {?n} ?f"
    unfolding feq by (intro core_upd core_ex_weaken [OF ch]) auto
  moreover have "task_ok {} ?f ?n"
  proof -
    have "task_ok {} ?h ?n" using ch by (rule core_exD) simp
    then show ?thesis using nid tn by (simp add: task_ok_def feq p)
  qed
  ultimately have "core {} ?f" by (rule core_exI)
  then have "core {?n} ?f"
    using core_untimed [of ?f ?n "{}"] by (simp add: feq)
  moreover have "running_ok ?f"
  proof -
    note r = running_okD [OF sched_invD(2) [OF inv]]
    have "\<not> has (status s3 u) OS_TASK_STATUS_RUNNING" if "u < g_taskMaxNum s" for u
      using r(3) [OF that] run p(4,9) by (cases "u = t") simp_all
    then show ?thesis unfolding feq running_ok_def by (simp add: p)
  qed
  moreover have "runTask ?f = ?n" by (simp add: feq)
  ultimately show ?thesis by (simp add: sched_inv_def)
qed

lemma valid_id:
  "OsCheckTaskIDValid t s = LOS_OK \<Longrightarrow> t < g_taskMaxNum s \<and> t \<noteq> g_idleTaskID s \<and> t \<noteq> g_swtmrTaskID s"
  by (auto simp: OsCheckTaskIDValid_def split: if_splits)

text \<open>The deletion in closed form, after the checks.\<close>

lemma Delete_eq:
  assumes "OsCheckTaskIDValid t s = LOS_OK" "\<not> has (status s t) OS_TASK_STATUS_UNUSED"
    and s0: "s0 = (if has (status s t) OS_TASK_STATUS_RUNNING \<and> g_losTaskLock s \<noteq> 0
      then s\<lparr>g_losTaskLock := 0\<rparr> else s)"
    and s3: "s3 = upd_tcb t (taskStatus_update (\<lambda>_. OS_TASK_STATUS_UNUSED))
      (upd_tcb t (\<lambda>c. c\<lparr>eventID := OS_NULL_INT, eventMask := 0\<rparr>) (OsSchedTaskExit t s0))"
  shows "LOS_TaskDelete t s =
    (LOS_OK,
     if has (status s t) OS_TASK_STATUS_RUNNING then LOS_Schedule (OsRunningTaskDelete t t s3)
     else upd_tcb t (topOfStack_update (\<lambda>_. 0))
       (LOS_MemFree (topOfStack (tcb s3 t)) (s3\<lparr>pend := LOS_ListAdd FreeTask t (pend s3)\<rparr>)))"
proof -
  have st: "status s0 t = status s t" by (simp add: s0)
  show ?thesis
    unfolding LOS_TaskDelete_def assms(1) s0 [symmetric] Let_def
    using assms(2) by (auto simp: s3 Exit_frame st)
qed

lemma Delete_inv:
  assumes inv: "sched_inv s" shows "sched_inv (snd (LOS_TaskDelete t s))"
proof (cases "OsCheckTaskIDValid t s = LOS_OK \<and> \<not> has (status s t) OS_TASK_STATUS_UNUSED")
  case False
  then have "snd (LOS_TaskDelete t s) = s" by (auto simp: LOS_TaskDelete_def Let_def)
  with inv show ?thesis by simp
next
  case True
  note v = valid_id [of t s]
  define s0 where "s0 = (if has (status s t) OS_TASK_STATUS_RUNNING \<and> g_losTaskLock s \<noteq> 0
      then s\<lparr>g_losTaskLock := 0\<rparr> else s)"
  define s3 where "s3 = upd_tcb t (taskStatus_update (\<lambda>_. OS_TASK_STATUS_UNUSED))
      (upd_tcb t (\<lambda>c. c\<lparr>eventID := OS_NULL_INT, eventMask := 0\<rparr>) (OsSchedTaskExit t s0))"
  have inv0: "sched_inv s0" using inv by (simp add: s0_def)
  have s0: "g_taskMaxNum s0 = g_taskMaxNum s" "g_idleTaskID s0 = g_idleTaskID s"
    "runTask s0 = runTask s" "status s0 t = status s t" by (simp_all add: s0_def)
  have pre: "t < g_taskMaxNum s0" "\<not> has (status s0 t) OS_TASK_STATUS_UNUSED" "t \<noteq> g_idleTaskID s0"
    using v True by (simp_all add: s0)
  have run: "has (status s t) OS_TASK_STATUS_RUNNING \<longleftrightarrow> t = runTask s0"
    using running_okD(3) [OF sched_invD(2) [OF inv]] v True by (simp add: s0)
  note eq = Delete_eq [OF conjunct1 [OF True] conjunct2 [OF True] s0_def s3_def]
  show ?thesis
  proof (cases "t = runTask s0")
    case True
    then have "has (status s t) OS_TASK_STATUS_RUNNING" using run by simp
    then show ?thesis unfolding eq using delete_running [OF inv0 pre True s3_def] by simp
  next
    case False
    from delete_other [OF inv0 pre False s3_def]
    have f: "sched_inv (s3\<lparr>pend := LOS_ListAdd FreeTask t (pend s3)\<rparr>)" .
    have "core {runTask s3} (upd_tcb t (topOfStack_update (\<lambda>_. 0))
       (LOS_MemFree (topOfStack (tcb s3 t)) (s3\<lparr>pend := LOS_ListAdd FreeTask t (pend s3)\<rparr>)))"
      using sched_invD(1) [OF f] by (intro core_tcb_same) simp_all
    moreover have "running_ok (upd_tcb t (topOfStack_update (\<lambda>_. 0))
       (LOS_MemFree (topOfStack (tcb s3 t)) (s3\<lparr>pend := LOS_ListAdd FreeTask t (pend s3)\<rparr>)))"
      using sched_invD(2) [OF f] by (auto simp: running_ok_def)
    ultimately show ?thesis using False run by (simp add: eq sched_inv_def)
  qed
qed

section \<open>Delay, priority, yield\<close>

lemma Delay_sched_inv:
  assumes inv: "sched_inv s" and ub: "unblocked s" and nid: "runTask s \<noteq> g_idleTaskID s"
  shows "sched_inv (OsSchedDelay (runTask s) tick s)"
proof -
  let ?t = "runTask s"
  note ok = sched_invD(5) [OF inv, of ?t] and run = sched_invD(2) [OF inv]
  have lt: "?t < g_taskMaxNum s" using ub by (simp add: unblocked_def)
  note d = task_okD [OF ok lt]
  have "core_ex {?t} {?t} (OsSchedDelay ?t tick s)"
    unfolding OsSchedDelay_def
    by (intro core_upd core_status core_ex_weaken [OF sched_invD(1) [OF inv]]) auto
  moreover have "task_ok {?t} (OsSchedDelay ?t tick s) ?t"
    using d(1-8,10) ub lt nid running_okD(2) [OF run]
    by (intro task_okI) (simp_all add: OsSchedDelay_def unblocked_def flags_ok_def)
  ultimately have "core {?t} (OsSchedDelay ?t tick s)" by (rule core_exI)
  moreover have "running_ok (OsSchedDelay ?t tick s)"
    by (rule running_same [OF run]) (simp_all add: OsSchedDelay_def running_okD(2) [OF run])
  ultimately show ?thesis by (simp add: sched_inv_def)
qed

lemma Yield_inv:
  assumes inv: "sched_inv s" shows "sched_inv (snd (LOS_TaskYield s))"
proof -
  note run = sched_invD(2) [OF inv]
  have "core {runTask s} (OsSchedYield s)"
    unfolding OsSchedYield_def
    by (rule core_exI_same [OF sched_invD(1) [OF inv]])
      (auto simp: same_for_def sched_invD(3,4) [OF inv] running_okD(2) [OF run])
  moreover have "running_ok (OsSchedYield s)"
    by (rule running_same [OF run]) (simp_all add: OsSchedYield_def running_okD(2) [OF run])
  ultimately have "sched_inv (OsSchedYield s)" by (simp add: sched_inv_def)
  then show ?thesis by (simp add: LOS_TaskYield_def)
qed

lemma Delay_inv:
  assumes "sched_inv s" "unblocked s" "runTask s \<noteq> g_idleTaskID s"
  shows "sched_inv (snd (LOS_TaskDelay tick s))"
  using assms Yield_inv [OF assms(1)] Delay_sched_inv [OF assms] by (simp add: LOS_TaskDelay_def)

lemma PriSet_inv:
  assumes "sched_inv s" shows "sched_inv (snd (LOS_TaskPriSet t prio s))"
  using assms sched_inv_Modify [OF assms, of t prio]
  by (auto simp: LOS_TaskPriSet_def OS_CHECK_TSK_PID_NOIDLE_def OS_PRIORITY_QUEUE_NUM_def
      OS_TASK_PRIORITY_LOWEST_def case_prod_beta)

lemma Lock_inv:
  "sched_inv s \<Longrightarrow> sched_inv (LOS_TaskLock s)" "sched_inv s \<Longrightarrow> sched_inv (LOS_TaskUnlock s)"
  by (simp_all add: LOS_TaskLock_def LOS_TaskUnlock_def Let_def)

end
