(* ===== verification/Boot.thy ===== *)
theory Boot
  imports Task_Inv
begin

text \<open>
  From power-on to the first task: \<open>OsTaskInit\<close>, the creation of the idle task and
  \<open>OsSchedStart\<close> establish the scheduler invariant. \<open>boot\<close> is a booted kernel with one
  application task, the concrete state the witnesses use.
\<close>

section \<open>OsTaskInit\<close>

text \<open>The state before the initialisation: uninitialised data is zero.\<close>

definition powered_on :: "'a sched_state_scheme \<Rightarrow> bool" where
  "powered_on s \<longleftrightarrow> config_ok (cfg s) \<and> pend s = (\<lambda>_. []) \<and> sortLink (g_swtmrSortLink s) = [] \<and>
    sortLink (g_taskSortLink s) = [] \<and> assertFailed s = {} \<and> \<not> g_taskScheduled s \<and>
    g_taskMaxNum s = Suc (LOSCFG_BASE_CORE_TSK_LIMIT (cfg s)) \<and> g_taskMaxNum s < OS_INVALID"

lemma init_block_sel [simp]:
  "cfg (init_block t s) = cfg s" "g_taskMaxNum (init_block t s) = g_taskMaxNum s"
  "g_taskSortLink (init_block t s) = g_taskSortLink s" "g_swtmrSortLink (init_block t s) = g_swtmrSortLink s"
  "g_idleTaskID (init_block t s) = g_idleTaskID s" "assertFailed (init_block t s) = assertFailed s"
  "g_taskScheduled (init_block t s) = g_taskScheduled s"
  "pend (init_block t s) = (pend s)(FreeTask := pend s FreeTask @ [t])"
  "tcb (init_block t s) u = (if u = t then (tcb s t)\<lparr>taskStatus := OS_TASK_STATUS_UNUSED, taskID := t\<rparr> else tcb s u)"
  by (simp_all add: init_block_def Let_def LOS_ListTailInsert_def)

lemma init_blocks:
  defines "f \<equiv> \<lambda>s n. fold init_block [0..<n] s"
  shows "cfg (f s n) = cfg s" "g_taskMaxNum (f s n) = g_taskMaxNum s"
    "g_taskSortLink (f s n) = g_taskSortLink s" "g_swtmrSortLink (f s n) = g_swtmrSortLink s"
    "assertFailed (f s n) = assertFailed s" "g_taskScheduled (f s n) = g_taskScheduled s"
    "pend (f s n) = (pend s)(FreeTask := pend s FreeTask @ [0..<n])"
    "tcb (f s n) u = (if u < n then (tcb s u)\<lparr>taskStatus := OS_TASK_STATUS_UNUSED, taskID := u\<rparr> else tcb s u)"
  unfolding f_def by (induction n arbitrary: u) (auto simp: less_Suc_eq)

lemma fold_ListInit:
  "fold (\<lambda>pri. LOS_ListInit (PriQ pri)) xs L h = (if \<exists>p\<in>set xs. h = PriQ p then [] else L h)"
  by (induction xs arbitrary: L) (auto simp: LOS_ListInit_def)

lemma SchedInit_sel [simp]:
  "cfg (OsSchedInit s) = cfg s" "g_taskMaxNum (OsSchedInit s) = g_taskMaxNum s"
  "g_idleTaskID (OsSchedInit s) = g_idleTaskID s" "assertFailed (OsSchedInit s) = assertFailed s"
  "runTask (OsSchedInit s) = runTask s" "tcb (OsSchedInit s) = tcb s"
  "g_swtmrSortLink (OsSchedInit s) = g_swtmrSortLink s" "g_queueBitmap (OsSchedInit s) = 0"
  "sortLink (g_taskSortLink (OsSchedInit s)) = []" "g_taskScheduled (OsSchedInit s) = g_taskScheduled s"
  "pend (OsSchedInit s) h = (if \<exists>p<OS_PRIORITY_QUEUE_NUM. h = PriQ p then [] else pend s h)"
  by (auto simp: OsSchedInit_def Let_def OsSortLinkInit_def fold_ListInit)

text \<open>The state after the initialisation: every task is free, and nobody runs.\<close>

lemma TaskInit_state:
  assumes on: "powered_on s" and mem: "mem \<noteq> 0"
  defines "s' \<equiv> snd (OsTaskInit mem s)" and "n \<equiv> g_taskMaxNum s"
  shows "fst (OsTaskInit mem s) = LOS_OK" "cfg s' = cfg s" "g_taskMaxNum s' = n" "runTask s' = n"
    "g_idleTaskID s' = OS_INVALID" "assertFailed s' = {}" "\<not> g_taskScheduled s'" "g_queueBitmap s' = 0"
    "pend s' = (\<lambda>_. [])(FreeTask := [0..<n])" "g_swtmrSortLink s' = g_swtmrSortLink s"
    "sortLink (g_taskSortLink s') = []"
    "\<And>u. u < n \<Longrightarrow> status s' u = OS_TASK_STATUS_UNUSED \<and> taskID (tcb s' u) = u"
    "status s' n = OS_TASK_STATUS_UNUSED OR OS_TASK_STATUS_RUNNING" "taskID (tcb s' n) = n"
proof -
  let ?q = "LOS_MemAlloc mem s"
  let ?a = "?q\<lparr>g_taskCBArray := (\<lambda>t. if t \<le> n then zero_tcb else g_taskCBArray ?q t),
               g_taskSortLink := (g_taskSortLink ?q)\<lparr>responseTime :=
                 (\<lambda>t. if t \<le> n then 0 else responseTime (g_taskSortLink ?q) t)\<rparr>\<rparr>"
  let ?b = "?a\<lparr>pend := LOS_ListInit RecycleTask (LOS_ListInit FreeTask (pend ?a))\<rparr>"
  let ?c = "fold init_block [0..<n] ?b"
  let ?d = "upd_tcb n (\<lambda>c. c\<lparr>taskID := n,
                 taskStatus := OS_TASK_STATUS_UNUSED OR OS_TASK_STATUS_RUNNING,
                 priority := OS_TASK_PRIORITY_LOWEST + 1\<rparr>) (?c\<lparr>runTask := n, newTask := n\<rparr>)"
  have n: "Suc (LOSCFG_BASE_CORE_TSK_LIMIT (cfg s)) = n" and p: "pend s = (\<lambda>_. [])"
    using on by (simp_all add: powered_on_def n_def)
  have frame: "g_taskMaxNum ?q = n" "cfg ?q = cfg s" "cfg ?b = cfg s" "cfg ?c = cfg s"
    by (simp_all add: n_def init_blocks)
  have eq: "OsTaskInit mem s = (LOS_OK, OsSchedInit (?d\<lparr>g_idleTaskID := OS_INVALID\<rparr>))"
    unfolding OsTaskInit_def Let_def n n_def using mem by (simp only: if_False)
  show "fst (OsTaskInit mem s) = LOS_OK" by (simp add: eq)
  have s': "s' = OsSchedInit (?d\<lparr>g_idleTaskID := OS_INVALID\<rparr>)" by (simp add: s'_def eq)
  show "pend s' = (\<lambda>_. [])(FreeTask := [0..<n])"
    by (rule ext) (auto simp: s' init_blocks p LOS_ListInit_def)
  show "u < n \<Longrightarrow> status s' u = OS_TASK_STATUS_UNUSED \<and> taskID (tcb s' u) = u" for u
    by (simp add: s' init_blocks)
  show "cfg s' = cfg s" "g_taskMaxNum s' = n" "runTask s' = n" "g_idleTaskID s' = OS_INVALID"
    "assertFailed s' = {}" "\<not> g_taskScheduled s'" "g_queueBitmap s' = 0"
    "g_swtmrSortLink s' = g_swtmrSortLink s" "sortLink (g_taskSortLink s') = []"
    "status s' n = OS_TASK_STATUS_UNUSED OR OS_TASK_STATUS_RUNNING" "taskID (tcb s' n) = n"
    using on frame by (simp_all add: powered_on_def s' init_blocks)
qed

lemma TaskInit_inv:
  assumes on: "powered_on s" and mem: "mem \<noteq> 0"
  shows "sched_inv (snd (OsTaskInit mem s))"
proof -
  let ?s = "snd (OsTaskInit mem s)" and ?n = "g_taskMaxNum s"
  note st = TaskInit_state [OF on mem]
  have p: "pend ?s h = (if h = FreeTask then [0..<?n] else [])" for h by (simp add: st)
  have "task_ok {?n} ?s u" for u
  proof (cases "u < ?n")
    case True
    have "u \<noteq> OS_INVALID" using on True by (auto simp: powered_on_def)
    with True st(12) [OF True] show ?thesis
      by (intro unused_task_ok [where k = FreeTask]) (auto simp: st on_def p timed_def)
  next
    case False
    have "?n \<noteq> OS_INVALID" using on by (auto simp: powered_on_def)
    with False show ?thesis by (auto simp: task_ok_def st on_def p timed_def)
  qed
  moreover have "lists_ok ?s"
    using on by (auto simp: lists_ok_def store_ok_def st sortlinks_ok_def sortlink_ok_def expiry_sorted_def
        powered_on_def)
  moreover have "globals_ok ?s"
    using on by (simp add: globals_ok_def st powered_on_def)
  moreover have "running_ok ?s"
    by (auto simp: running_ok_def st st(12))
  ultimately show ?thesis by (simp add: sched_inv_def core_ex_def st)
qed

section \<open>The idle task and the first switch\<close>

lemma core_set_idle:
  assumes "core R s" "g_idleTaskID s = OS_INVALID" "t < g_taskMaxNum s" "taskID (tcb s (g_taskMaxNum s)) \<noteq> t"
  shows "core_ex R {t} (s\<lparr>g_idleTaskID := t\<rparr>)"
proof -
  have big: "g_taskMaxNum s < OS_INVALID" using core_exD(2) [OF assms(1)] by (simp add: globals_ok_def)
  have "task_ok R (s\<lparr>g_idleTaskID := t\<rparr>) u" if "u \<noteq> t" for u
  proof -
    have ok: "task_ok R s u" using assms(1) by (simp add: core_exD)
    have sel: "on (s\<lparr>g_idleTaskID := t\<rparr>) u h = on s u h" "timed (s\<lparr>g_idleTaskID := t\<rparr>) u = timed s u" for h
      by (simp_all add: on_def timed_def)
    show ?thesis
    proof (cases "u < g_taskMaxNum s")
      case True
      have "u \<noteq> OS_INVALID" using big True by simp
      with task_okD [OF ok True] True that assms(2) show ?thesis
        by (intro task_okI) (simp_all add: sel)
    next
      case False
      with ok assms(4) show ?thesis by (simp add: task_ok_def sel)
    qed
  qed
  moreover have "lists_ok (s\<lparr>g_idleTaskID := t\<rparr>)"
    using core_exD(1) [OF assms(1)] by (rule lists_ok_same) simp_all
  moreover have "globals_ok (s\<lparr>g_idleTaskID := t\<rparr>)"
    using core_exD(2) [OF assms(1)] assms(3) by (simp add: globals_ok_def)
  ultimately show ?thesis by (simp add: core_ex_def)
qed

lemma CreateOnly_sel:
  assumes "LOS_TaskCreateOnly idNull param mem s = (ret, tid, s')"
  shows "g_taskMaxNum s' = g_taskMaxNum s" "g_idleTaskID s' = g_idleTaskID s" "runTask s' = runTask s"
    "cfg s' = cfg s" "g_taskScheduled s' = g_taskScheduled s"
    "taskID (tcb s' u) = taskID (tcb (OsRecyleFinishedTask s) u) \<or> s' = s"
proof -
  obtain ret0 param' where pc: "OsTaskInitParamCheck (cfg s) param = (ret0, param')" by fastforce
  note r = assms [unfolded CreateOnly_cases [OF pc refl refl]]
  show "g_taskMaxNum s' = g_taskMaxNum s" "g_idleTaskID s' = g_idleTaskID s" "runTask s' = runTask s"
    "cfg s' = cfg s" "g_taskScheduled s' = g_taskScheduled s"
    "taskID (tcb s' u) = taskID (tcb (OsRecyleFinishedTask s) u) \<or> s' = s"
    using r by (auto simp: Let_def split: if_splits)
qed

lemma recycle_taskID: "taskID (tcb (OsRecyleFinishedTask s) u) = taskID (tcb s u)"
proof -
  have "taskID (tcb (recycle_loop n q) u) = taskID (tcb q u)" for n and q :: "'a sched_state_scheme"
    by (induction n q rule: recycle_loop.induct) (simp_all add: recycle_one_def Let_def)
  then show ?thesis by (simp add: OsRecyleFinishedTask_def)
qed

lemma IdleTaskCreate_inv:
  assumes inv: "sched_inv s" and idle: "g_idleTaskID s = OS_INVALID" and n: "runTask s = g_taskMaxNum s"
    and id: "taskID (tcb s (g_taskMaxNum s)) = g_taskMaxNum s"
    and r: "OsIdleTaskCreate mem s = (LOS_OK, s')"
  shows "sched_inv s'" "g_idleTaskID s' < g_taskMaxNum s'" "runTask s' = g_taskMaxNum s'"
    "g_taskMaxNum s' = g_taskMaxNum s" "cfg s' = cfg s"
proof -
  define param where "param = Some \<lparr>pfnTaskEntry = OS_IDLE_TASK_ENTRY, usTaskPrio = OS_TASK_PRIORITY_LOWEST,
    uwArg = 0, uwStackSize = of_nat (LOSCFG_BASE_CORE_TSK_IDLE_STACK_SIZE (cfg s)),
    pcName = Some ''IdleCore000''\<rparr>"
  obtain ret tid s1 where c: "LOS_TaskCreateOnly False param mem s = (ret, tid, s1)"
    using prod_cases3 by blast
  have ret: "ret = LOS_OK" and s': "s' = OsSchedTaskEnQueue (the tid) (s1\<lparr>g_idleTaskID := the tid\<rparr>)"
    using r by (auto simp: OsIdleTaskCreate_def c [unfolded param_def] OsSchedSetIdleTaskSchedPartam_def
        Let_def split: if_splits)
  obtain t where t: "tid = Some t" and new: "newly_created s1 t" and inv1: "sched_inv s1"
    using CreateOnly_inv [OF inv c] ret by blast
  note sel = CreateOnly_sel [OF c]
  note nw = new [unfolded newly_created_def]
  have lt: "t < g_taskMaxNum s1" using nw by blast
  have "taskID (tcb s1 (g_taskMaxNum s1)) = g_taskMaxNum s1"
    using sel(6) [of "g_taskMaxNum s1"] recycle_taskID [of s "g_taskMaxNum s"] id by (auto simp: sel)
  then have c1: "core_ex {runTask s1} {t} (s1\<lparr>g_idleTaskID := t\<rparr>)"
    using lt idle by (intro core_set_idle sched_invD(1) [OF inv1]) (simp_all add: sel)
  let ?i = "s1\<lparr>g_idleTaskID := t\<rparr>"
  note d = task_okD [OF sched_invD(5) [OF inv1] lt]
  have "core {runTask s1} (OsSchedTaskEnQueue t ?i)"
  proof (rule core_enqueue [OF c1])
    show "\<not> on ?i t h" for h using nw by (simp add: on_def)
    show "\<not> timed ?i t" "expiry ?i t = OS_SORT_LINK_INVALID_TIME"
      using nw d(6) by (auto simp: timed_def)
  qed (use nw d(1,7) in auto)
  moreover have "running_ok (OsSchedTaskEnQueue t ?i)"
    using sched_invD(2) [OF inv1] nw by (intro running_enqueue) (auto simp: running_ok_def)
  ultimately show "sched_inv s'" by (simp add: s' t sched_inv_def)
  show "g_idleTaskID s' < g_taskMaxNum s'" "runTask s' = g_taskMaxNum s'"
    "g_taskMaxNum s' = g_taskMaxNum s" "cfg s' = cfg s"
    using lt n by (simp_all add: s' t sel)
qed

lemma SchedStart_inv:
  assumes inv: "sched_inv s" and run: "runTask s = g_taskMaxNum s" and idle: "g_idleTaskID s < g_taskMaxNum s"
  shows "switched (OsSchedStart s)" "g_idleTaskID (OsSchedStart s) = g_idleTaskID s"
    "g_taskMaxNum (OsSchedStart s) = g_taskMaxNum s"
proof -
  let ?n = "g_taskMaxNum s"
  define t where "t = OsGetTopTask s"
  define s2 where "s2 = (status_or t OS_TASK_STATUS_RUNNING s)\<lparr>newTask := t, runTask := t, g_taskScheduled := True\<rparr>"
  define s4 where "s4 = upd_tcb t (startTime_update (\<lambda>_. fst (OsGetCurrSchedTimeCycle s2)))
    (snd (OsGetCurrSchedTimeCycle s2))"
  define s5 where "s5 = OsSchedTaskDeQueue t s4"
  define s6 where "s6 = s5\<lparr>g_schedResponseTime := OS_SCHED_MAX_RESPONSE_TIME, g_schedResponseID := OS_INVALID\<rparr>"
  have eq: "OsSchedStart s = OsSchedSetNextExpireTime (startTime (tcb s6 t)) (taskID (tcb s6 t))
          (startTime (tcb s6 t) + scast (timeSlice (tcb s6 t))) s6"
    by (simp add: OsSchedStart_def Let_def case_prod_beta s6_def s5_def s4_def s2_def t_def)
  have nd: "\<not> has (status s ?n) (OS_TASK_STATUS_DELAY OR OS_TASK_STATUS_PEND_TIME)"
    using sched_invD(5) [OF inv, of ?n] by (simp add: task_ok_def)
  have c0: "core {} s"
    using sched_invD(1) [OF inv] core_untimed [OF nd, of "{}"] run by simp
  have top: "top_of s t" unfolding t_def by (rule top_task [OF c0])
  note fl = top_task_flags [OF c0 idle, folded t_def]
  have c2: "core {} s2"
    using core_flag(1) [OF c0] by (subst core_frame [of s2 "status_or t OS_TASK_STATUS_RUNNING s"]) (simp_all add: s2_def)
  then have c4: "core {} s4"
    unfolding s4_def by (intro core_start_time) simp
  have c5: "core {} s5"
    unfolding s5_def using fl(1) by (intro core_dequeue [OF c4]) (simp add: s4_def s2_def)
  have keep: "g_taskMaxNum s5 = ?n" "g_idleTaskID s5 = g_idleTaskID s" "runTask s5 = t"
    by (simp_all add: s5_def s4_def s2_def)
  have stat: "has (status s5 u) f = has (status s u) f"
    if "single f" "\<not> has OS_TASK_STATUS_READY f" "\<not> has OS_TASK_STATUS_RUNNING f" for u f
    using that by (simp add: s5_def DeQueue_flags s4_def s2_def)
  have ready: "has (status s5 u) OS_TASK_STATUS_READY \<longleftrightarrow> u \<noteq> t \<and> has (status s u) OS_TASK_STATUS_READY" for u
    by (simp add: s5_def DeQueue_flags s4_def s2_def)
  have running: "has (status s5 u) OS_TASK_STATUS_RUNNING \<longleftrightarrow> u = t" if "u < ?n" for u
    using running_okD(3) [OF sched_invD(2) [OF inv] that] that run
    by (auto simp: s5_def DeQueue_flags s4_def s2_def)
  have prio: "priority (tcb s5 u) = priority (tcb s u)" for u
    by (cases "u = t") (simp_all add: s5_def DeQueue_sel s4_def s2_def)
  have nb: "\<not> has (status s5 t) (OS_TASK_STATUS_DELAY OR OS_TASK_STATUS_PEND_TIME)"
    using fl(2) by (simp add: stat)
  have "core {t} s6"
    using c5 core_untimed [OF nb, of "{}"] by (subst core_frame [of s6 s5]) (simp_all add: s6_def)
  moreover have "running_ok s6"
    using fl running ready by (auto simp: running_ok_def s6_def keep stat)
  moreover have "unblocked s6"
    using fl by (simp add: unblocked_def s6_def keep stat)
  moreover have "t \<noteq> g_idleTaskID s \<and> priority (tcb s5 t) \<le> priority (tcb s5 u)"
    if "u < ?n" "has (status s5 u) OS_TASK_STATUS_READY" "u \<noteq> g_idleTaskID s" for u
    using top that unfolding top_of_def by (auto simp: ready prio split: if_splits)
  ultimately show "switched (OsSchedStart s)"
    by (simp add: switched_def sched_inv_def eq unblocked_def) (simp add: s6_def keep)
  show "g_idleTaskID (OsSchedStart s) = g_idleTaskID s" "g_taskMaxNum (OsSchedStart s) = g_taskMaxNum s"
    by (simp_all add: eq) (simp_all add: s6_def keep)
qed

section \<open>A booted kernel\<close>

definition cold :: sched_state where
  "cold = \<lparr>cfg = default_config,
    g_taskSortLink = \<lparr>sortLink = [], responseTime = (\<lambda>_. 0)\<rparr>,
    g_swtmrSortLink = \<lparr>sortLink = [], responseTime = (\<lambda>_. 0)\<rparr>,
    g_taskCBArray = (\<lambda>_. zero_tcb), pend = (\<lambda>_. []), runTask = 6, newTask = 6,
    g_losTaskLock = 0, g_taskScheduled = False, g_queueBitmap = 0,
    g_taskMaxNum = 6, g_idleTaskID = OS_INVALID, g_swtmrTaskID = OS_INVALID,
    g_schedResponseID = 0, g_schedResponseTime = OS_SCHED_MAX_RESPONSE_TIME,
    g_schedTimerBase = 0, oldSchedTime = 0, SysTick_LOAD = 95999, SysTick_VAL = 95999,
    pendSV = False, OS_INT_ACTIVE = False, assertFailed = {}, heapBlocks = {}\<rparr>"

lemma powered_on_cold: "powered_on cold"
  by (simp add: powered_on_def cold_def default_config_ok)
    (simp add: default_config_def OS_INVALID_def)

lemma cold_sel: "cfg cold = default_config" "g_taskMaxNum cold = 6"
  by (simp_all add: cold_def)

lemma recycle_nothing: "pend s RecycleTask = [] \<Longrightarrow> OsRecyleFinishedTask s = s"
  by (simp add: OsRecyleFinishedTask_def)

lemma idle_create_ok:
  assumes "cfg s = default_config" "pend s RecycleTask = []" "pend s FreeTask \<noteq> []" "mem \<noteq> 0"
  shows "fst (OsIdleTaskCreate mem s) = LOS_OK"
proof -
  let ?p = "\<lparr>pfnTaskEntry = OS_IDLE_TASK_ENTRY, usTaskPrio = OS_TASK_PRIORITY_LOWEST, uwArg = 0,
    uwStackSize = of_nat (LOSCFG_BASE_CORE_TSK_IDLE_STACK_SIZE (cfg s)), pcName = Some ''IdleCore000''\<rparr>"
  have "fst (OsTaskInitParamCheck (cfg s) (Some ?p)) = LOS_OK"
    by (simp add: OsTaskInitParamCheck_def assms(1) default_config_def Let_def OS_IDLE_TASK_ENTRY_def
        LOS_Align_def OS_TASK_STACK_ADDR_ALIGN_def)
  then obtain param' where pc: "OsTaskInitParamCheck (cfg s) (Some ?p) = (LOS_OK, param')"
    by (metis prod.collapse)
  show ?thesis
    unfolding OsIdleTaskCreate_def CreateOnly_cases [OF pc refl refl]
    using assms(2-4) by (simp add: recycle_nothing Let_def)
qed

text \<open>
  C15: From power-on the initialisation of the tasks, the creation of the idle task and the start
  of the scheduler lead to a state with the scheduler invariant in which a task that can run
  runs, and no ready task has a higher priority.
\<close>

theorem boot_establishes_invariant:
  assumes "powered_on s" "mem \<noteq> 0" "OsIdleTaskCreate mem2 (snd (OsTaskInit mem s)) = (LOS_OK, s1)"
  shows "sched_inv s1 \<and> switched (OsSchedStart s1)"
proof -
  let ?i = "snd (OsTaskInit mem s)"
  note st = TaskInit_state [OF assms(1,2)]
  have "sched_inv ?i" by (rule TaskInit_inv [OF assms(1,2)])
  from IdleTaskCreate_inv [OF this _ _ _ assms(3)] have
    "sched_inv s1" "g_idleTaskID s1 < g_taskMaxNum s1" "runTask s1 = g_taskMaxNum s1"
    by (simp_all add: st)
  with SchedStart_inv(1) [of s1] show ?thesis by simp
qed

theorem boot_establishes_invariant_witness:
  "switched (OsSchedStart (snd (OsIdleTaskCreate 0x20001000 (snd (OsTaskInit 0x20000000 cold)))))"
proof -
  let ?i = "snd (OsTaskInit 0x20000000 cold)"
  note st = TaskInit_state [OF powered_on_cold, of "0x20000000"]
  have "fst (OsIdleTaskCreate 0x20001000 ?i) = LOS_OK"
    by (rule idle_create_ok) (simp_all add: st cold_sel)
  then have "OsIdleTaskCreate 0x20001000 ?i = (LOS_OK, snd (OsIdleTaskCreate 0x20001000 ?i))"
    by (metis prod.collapse)
  from boot_establishes_invariant [OF powered_on_cold _ this] show ?thesis by simp
qed

section \<open>A running kernel for the witnesses\<close>

text \<open>
  Task 0 is the idle task, task 1 (priority 5) runs, task 2 (priority 10) is ready, task 3
  (priority 7) waits for semaphore 0 with a timeout, tasks 4 and 5 are free. \<open>m\<close> is the state of
  the components on top of the scheduler.
\<close>

definition demo :: "'a \<Rightarrow> 'a sched_state_scheme" where
  "demo m = \<lparr>cfg = default_config,
    g_taskSortLink = \<lparr>sortLink = [3], responseTime = (\<lambda>_. OS_SORT_LINK_INVALID_TIME)(3 := 200000)\<rparr>,
    g_swtmrSortLink = \<lparr>sortLink = [], responseTime = (\<lambda>_. OS_SORT_LINK_INVALID_TIME)\<rparr>,
    g_taskCBArray = (\<lambda>_. zero_tcb)
      (0 := zero_tcb\<lparr>taskStatus := OS_TASK_STATUS_READY, priority := 31, taskID := 0\<rparr>,
       1 := zero_tcb\<lparr>taskStatus := OS_TASK_STATUS_RUNNING, priority := 5, taskID := 1, timeSlice := 1000000\<rparr>,
       2 := zero_tcb\<lparr>taskStatus := OS_TASK_STATUS_READY, priority := 10, taskID := 2, timeSlice := 1900000\<rparr>,
       3 := zero_tcb\<lparr>taskStatus := OS_TASK_STATUS_PEND OR OS_TASK_STATUS_PEND_TIME, priority := 7,
              taskID := 3, waitTimes := 2, taskSem := Some 0\<rparr>,
       4 := zero_tcb\<lparr>taskStatus := OS_TASK_STATUS_UNUSED, taskID := 4\<rparr>,
       5 := zero_tcb\<lparr>taskStatus := OS_TASK_STATUS_UNUSED, taskID := 5\<rparr>,
       6 := zero_tcb\<lparr>taskStatus := OS_TASK_STATUS_UNUSED, taskID := 6\<rparr>),
    pend = (\<lambda>_. [])(PriQ 10 := [2], FreeTask := [4, 5], SemWait 0 := [3]),
    runTask = 1, newTask = 1, g_losTaskLock = 0, g_taskScheduled = True, g_queueBitmap = flag 21,
    g_taskMaxNum = 6, g_idleTaskID = 0, g_swtmrTaskID = OS_INVALID,
    g_schedResponseID = OS_INVALID, g_schedResponseTime = 200000,
    g_schedTimerBase = 100000, oldSchedTime = 100000, SysTick_LOAD = 95999, SysTick_VAL = 95999,
    pendSV = False, OS_INT_ACTIVE = False, assertFailed = {}, heapBlocks = {}, \<dots> = m\<rparr>"

lemma demo_sel [simp]:
  "cfg (demo m) = default_config" "runTask (demo m) = 1" "g_taskMaxNum (demo m) = 6"
  "g_idleTaskID (demo m) = 0" "g_taskScheduled (demo m)" "g_losTaskLock (demo m) = 0"
  "\<not> OS_INT_ACTIVE (demo m)" "\<not> pendSV (demo m)" "sched_state.more (demo m) = m"
  "g_swtmrTaskID (demo m) = OS_INVALID"
  "pend (demo m) = (\<lambda>_. [])(PriQ 10 := [2], FreeTask := [4, 5], SemWait 0 := [3])"
  by (simp_all add: demo_def)

lemma demo_tasks:
  "tcb (demo m) 1 = zero_tcb\<lparr>taskStatus := OS_TASK_STATUS_RUNNING, priority := 5, taskID := 1, timeSlice := 1000000\<rparr>"
  "tcb (demo m) 2 = zero_tcb\<lparr>taskStatus := OS_TASK_STATUS_READY, priority := 10, taskID := 2, timeSlice := 1900000\<rparr>"
  "tcb (demo m) 3 = zero_tcb\<lparr>taskStatus := OS_TASK_STATUS_PEND OR OS_TASK_STATUS_PEND_TIME, priority := 7,
     taskID := 3, waitTimes := 2, taskSem := Some 0\<rparr>"
  "g_taskSortLink (demo m) = \<lparr>sortLink = [3], responseTime = (\<lambda>_. OS_SORT_LINK_INVALID_TIME)(3 := 200000)\<rparr>"
  "g_swtmrSortLink (demo m) = \<lparr>sortLink = [], responseTime = (\<lambda>_. OS_SORT_LINK_INVALID_TIME)\<rparr>"
  by (simp_all add: demo_def)

lemma demo_clock:
  "SysTick_LOAD (demo m) = 95999" "SysTick_VAL (demo m) = 95999" "g_schedTimerBase (demo m) = 100000"
  "oldSchedTime (demo m) = 100000"
  by (simp_all add: demo_def)

lemma less_6: "u < (6::nat) \<longleftrightarrow> u = 0 \<or> u = 1 \<or> u = 2 \<or> u = 3 \<or> u = 4 \<or> u = 5"
  by auto

text \<open>The same state with task 3 on another wait list.\<close>

definition demo_at :: "lhead \<Rightarrow> 'a \<Rightarrow> 'a sched_state_scheme" where
  "demo_at h m = (demo m)\<lparr>pend := (\<lambda>_. [])(PriQ 10 := [2], FreeTask := [4, 5], h := [3])\<rparr>"

lemma demo_at_pend [simp]: "pend (demo_at h m) = (\<lambda>_. [])(PriQ 10 := [2], FreeTask := [4, 5], h := [3])"
  by (simp add: demo_at_def)

lemma demo_at_inv:
  assumes "is_wait h" shows "sched_inv (demo_at h m)"
proof -
  have h: "h \<noteq> PriQ p" "h \<noteq> FreeTask" "h \<noteq> RecycleTask" for p using assms by auto
  have slice: "OS_TIME_SLICE_MIN default_config <s 1900000"
    by (simp add: OS_TIME_SLICE_MIN_def config_consts default_config_def word_sless_alt)
  have "task_ok {1} (demo_at h m) u" for u
  proof (cases "u < 6")
    case True
    then show ?thesis
      unfolding less_6
      by (elim disjE; simp add: task_ok_def on_def timed_def demo_def demo_at_def flags_ok_def h h [symmetric]
          OS_PRIORITY_QUEUE_NUM_def slice zero_tcb_def; use assms h in \<open>auto intro: exI [of _ h]\<close>)
  next
    case False
    then show ?thesis
      by (auto simp: task_ok_def on_def timed_def demo_def demo_at_def zero_tcb_def)
  qed
  moreover have "lists_ok (demo_at h m)"
    using h by (auto simp: lists_ok_def store_ok_def sortlinks_ok_def sortlink_ok_def expiry_sorted_def demo_def
        demo_at_def bit_flag OS_PRIORITY_QUEUE_NUM_def OS_SORT_LINK_INVALID_TIME_def split: if_splits)
  moreover have "globals_ok (demo_at h m)"
    by (simp add: globals_ok_def demo_at_def default_config_ok) (simp add: demo_def default_config_def OS_INVALID_def)
  moreover have "running_ok (demo_at h m)"
    unfolding running_ok_def demo_sel less_6 by (auto simp: demo_def demo_at_def)
  ultimately show ?thesis by (simp add: sched_inv_def core_ex_def demo_at_def)
qed

lemma demo_at_sem: "demo m = demo_at (SemWait 0) m"
  by (simp add: demo_at_def demo_def)

lemma demo_inv: "sched_inv (demo m)"
  unfolding demo_at_sem by (rule demo_at_inv) simp

lemma demo_unblocked: "unblocked (demo m)"
  by (simp add: unblocked_def) (simp add: demo_def zero_tcb_def)

end
