(* ===== verification/Sched_Props.thy ===== *)
theory Sched_Props
  imports Boot
begin

text \<open>
  What the scheduler and the task services promise, stated over the code's operations: the choice
  of the next task, the context switch, the timeouts, waiting and waking, the task services; and
  the state a wake-up of the running task leads to.
\<close>

section \<open>Choosing and switching\<close>

text \<open>
  \<open>OsGetTopTask\<close> reads the task of the highest ready priority from the bitmap: the first of
  its queue, and the idle task exactly when no other task is ready.
\<close>

theorem top_task_has_highest_priority:
  assumes "sched_inv s"
  shows "if \<exists>u<g_taskMaxNum s. has (status s u) OS_TASK_STATUS_READY \<and> u \<noteq> g_idleTaskID s
    then has (status s (OsGetTopTask s)) OS_TASK_STATUS_READY \<and> OsGetTopTask s < g_taskMaxNum s \<and>
      OsGetTopTask s \<noteq> g_idleTaskID s \<and>
      OsGetTopTask s = hd (pend s (PriQ (priority (tcb s (OsGetTopTask s))))) \<and>
      (\<forall>u<g_taskMaxNum s. has (status s u) OS_TASK_STATUS_READY \<and> u \<noteq> g_idleTaskID s \<longrightarrow>
        priority (tcb s (OsGetTopTask s)) \<le> priority (tcb s u))
    else OsGetTopTask s = g_idleTaskID s"
  using top_task [OF sched_invD(1) [OF assms]] unfolding top_of_def .

theorem top_task_has_highest_priority_witness:
  "has (status (demo ()) (OsGetTopTask (demo ()))) OS_TASK_STATUS_READY \<and> OsGetTopTask (demo ()) \<noteq> 0"
proof -
  have "\<exists>u<g_taskMaxNum (demo ()). has (status (demo ()) u) OS_TASK_STATUS_READY \<and> u \<noteq> g_idleTaskID (demo ())"
    by (rule exI [of _ 2]) (simp add: demo_def)
  then show ?thesis
    using top_task_has_highest_priority [OF demo_inv [of "()"]] by simp
qed

text \<open>
  C1: The context switch (\<open>HalPendSV\<close> with \<open>OsSchedTaskSwitch\<close>) keeps the invariant, and makes a
  task running that waits for nothing and has the highest priority of all that are ready.
\<close>

theorem context_switch:
  assumes "sched_inv s" "g_idleTaskID s < g_taskMaxNum s" "no_overflow s"
  shows "sched_inv (HalPendSV s) \<and> unblocked (HalPendSV s) \<and>
    (\<forall>u<g_taskMaxNum (HalPendSV s).
       has (status (HalPendSV s) u) OS_TASK_STATUS_READY \<and> u \<noteq> g_idleTaskID (HalPendSV s) \<longrightarrow>
       runTask (HalPendSV s) \<noteq> g_idleTaskID (HalPendSV s) \<and>
       priority (tcb (HalPendSV s) (runTask (HalPendSV s))) \<le> priority (tcb (HalPendSV s) u))"
  using HalPendSV_switched [OF assms] unfolding switched_def .

lemma demo_time: "no_overflow (demo m)"
  by (simp add: no_overflow_def expire_at_def)
    (simp add: OsGetCurrSchedTimeCycle_def HalGetTickCycle_def demo_def zero_tcb_def
      OS_SORT_LINK_INVALID_TIME_def LOS_ASSERT_def)

theorem context_switch_witness: "sched_inv (HalPendSV (demo ())) \<and> unblocked (HalPendSV (demo ()))"
  using context_switch [OF demo_inv [of "()"]] by (simp add: demo_time)

section \<open>Timeouts\<close>

definition woken_by_timeout :: "'a sched_state_scheme \<Rightarrow> 'a sched_state_scheme \<Rightarrow> nat \<Rightarrow> bool" where
  "woken_by_timeout s s' t \<longleftrightarrow>
    \<not> has (status s' t) (OS_TASK_STATUS_PEND OR OS_TASK_STATUS_DELAY OR OS_TASK_STATUS_PEND_TIME) \<and>
    (has (status s t) OS_TASK_STATUS_SUSPEND \<or> has (status s' t) OS_TASK_STATUS_READY) \<and>
    (has (status s t) OS_TASK_STATUS_PEND \<longrightarrow>
      has (status s' t) OS_TASK_STATUS_TIMEOUT \<and> taskSem (tcb s' t) = None \<and> taskMux (tcb s' t) = None)"

lemma EnQueue_keeps:
  "taskSem (tcb (OsSchedTaskEnQueue t s) u) = taskSem (tcb s u)"
  "taskMux (tcb (OsSchedTaskEnQueue t s) u) = taskMux (tcb s u)"
  by (auto simp: OsSchedTaskEnQueue_def Let_def)

lemma WakePendTime_woken:
  assumes "core R s" "timed s t"
  shows "woken_by_timeout s (snd (OsSchedWakePendTimeTask time t need (pop_timed t s))) t"
proof -
  have ok: "task_ok R s t" using assms(1) by (simp add: core_exD)
  have lt: "t < g_taskMaxNum s" by (rule timed_lt [OF ok assms(2)])
  have pd: "has (status s t) OS_TASK_STATUS_PEND \<or> has (status s t) OS_TASK_STATUS_DELAY"
    using task_okD(5) [OF ok lt] task_flags(3) [OF ok lt] assms(2) by blast
  then show ?thesis
    by (auto simp: woken_by_timeout_def OsSchedWakePendTimeTask_def Let_def pop_timed_def EnQueue_sel
        EnQueue_keeps)
qed

lemma sorted_split:
  fixes f :: "'a \<Rightarrow> 'b::linorder"
  assumes "sorted (map f xs)"
  shows "takeWhile (\<lambda>t. f t \<le> n) xs = filter (\<lambda>t. f t \<le> n) xs"
    and "dropWhile (\<lambda>t. f t \<le> n) xs = filter (\<lambda>t. n < f t) xs"
  using assms
proof (induction xs)
  case (Cons x xs)
  {
    case 1
    then show ?case using Cons by (auto simp: filter_empty_conv [symmetric] intro!: filter_False [symmetric] dest: order_trans)
  next
    case 2
    then show ?case using Cons by (auto intro!: filter_True [symmetric] dest: order.strict_trans2 simp: not_le)
  }
qed simp_all

lemma scan_spec:
  assumes "core {runTask s} s" "expiry_sorted (g_taskSortLink s)"
  shows "sortLink (g_taskSortLink (snd (scan_timer_list now need s))) =
      dropWhile (\<lambda>t. expiry s t \<le> now) (sortLink (g_taskSortLink s)) \<and>
    (\<forall>t. if t \<in> set (takeWhile (\<lambda>t. expiry s t \<le> now) (sortLink (g_taskSortLink s)))
      then woken_by_timeout s (snd (scan_timer_list now need s)) t
      else tcb (snd (scan_timer_list now need s)) t = tcb s t)"
  using assms
proof (induction "length (sortLink (g_taskSortLink s))" arbitrary: need s rule: less_induct)
  case less
  let ?xs = "sortLink (g_taskSortLink s)"
  show ?case
  proof (cases "?xs = [] \<or> now < expiry s (hd ?xs)")
    case True
    then have "scan_timer_list now need s = (need, s)" by (subst scan_step) simp
    with True show ?thesis by (cases ?xs) auto
  next
    case False
    then obtain t xs where xs: "?xs = t # xs" and le: "expiry s t \<le> now"
      by (cases ?xs) auto
    define q where "q = snd (OsSchedWakePendTimeTask now t need (pop_timed t s))"
    define n where "n = fst (OsSchedWakePendTimeTask now t need (pop_timed t s))"
    have tm: "timed s t" by (simp add: timed_def xs)
    have link: "g_taskSortLink q = OsDeleteNodeSortLink t (g_taskSortLink s)"
      by (simp add: pop_timed_def q_def)
    have ok: "sortlink_ok (g_taskSortLink s)"
      using core_exD(1) [OF less.prems(1)] by (simp add: lists_ok_def sortlinks_ok_def)
    then have txs: "t \<notin> set xs" by (simp add: sortlink_ok_def xs)
    have cq: "core {runTask q} q"
      using core_WakePendTime [OF less.prems(1) tm, of now need] by (simp add: pop_timed_def q_def)
    have srt: "expiry_sorted (g_taskSortLink q)"
      using sortlink_ok_delete [OF ok, of t] unfolding link by (simp add: sortlink_ok_def)
    have link': "sortLink (g_taskSortLink q) = xs" by (simp add: link xs)
    then have "length (sortLink (g_taskSortLink q)) < length ?xs" by (simp add: xs)
    note ih = less.hyps [OF this cq srt, of n, unfolded link']
    have same: "expiry q u = expiry s u" if "u \<in> set xs" for u
      using that txs by (auto simp: link)
    have tw: "takeWhile (\<lambda>t. expiry q t \<le> now) xs = takeWhile (\<lambda>t. expiry s t \<le> now) xs"
      by (rule takeWhile_cong [OF refl]) (simp only: same)
    have dw: "dropWhile (\<lambda>t. expiry q t \<le> now) xs = dropWhile (\<lambda>t. expiry s t \<le> now) xs"
      by (rule dropWhile_cong [OF refl]) (simp only: same)
    have other: "tcb q u = tcb s u" if "u \<noteq> t" for u
      using that by (simp add: WakePendTime_flags pop_timed_def q_def)
    have tt: "t \<notin> set (takeWhile (\<lambda>t. expiry s t \<le> now) xs)"
      using txs by (auto dest: set_takeWhileD)
    have wt: "woken_by_timeout s q t"
      unfolding q_def by (rule WakePendTime_woken [OF less.prems(1) tm])
    have step: "scan_timer_list now need s = scan_timer_list now n q"
      using False xs by (subst scan_step) (simp add: Let_def q_def n_def)
    show ?thesis
    proof (intro conjI allI)
      show "sortLink (g_taskSortLink (snd (scan_timer_list now need s))) =
          dropWhile (\<lambda>t. expiry s t \<le> now) ?xs"
        using conjunct1 [OF ih] le by (simp add: step xs dw)
    next
      fix u
      have "if u \<in> set (takeWhile (\<lambda>t. expiry s t \<le> now) xs)
        then woken_by_timeout q (snd (scan_timer_list now n q)) u
        else tcb (snd (scan_timer_list now n q)) u = tcb q u"
        using conjunct2 [OF ih] unfolding tw by (rule spec)
      then show "if u \<in> set (takeWhile (\<lambda>t. expiry s t \<le> now) ?xs)
        then woken_by_timeout s (snd (scan_timer_list now need s)) u
        else tcb (snd (scan_timer_list now need s)) u = tcb s u"
        using le tt wt other [of u]
        by (cases "u = t") (simp_all add: step xs woken_by_timeout_def split: if_splits)
    qed
  qed
qed

lemma ScanTimerList_spec:
  assumes "sched_inv s" "sortLink (g_taskSortLink s) \<noteq> []"
  shows "let now = fst (OsGetCurrSchedTimeCycle s); s' = snd (OsSchedScanTimerList s) in
    sched_inv s' \<and>
    sortLink (g_taskSortLink s') = filter (\<lambda>t. now < expiry s t) (sortLink (g_taskSortLink s)) \<and>
    (\<forall>t. if t \<in> set (sortLink (g_taskSortLink s)) \<and> expiry s t \<le> now
      then woken_by_timeout s s' t else tcb s' t = tcb s t)"
proof -
  let ?q = "snd (OsGetCurrSchedTimeCycle s)" and ?now = "fst (OsGetCurrSchedTimeCycle s)"
  let ?xs = "sortLink (g_taskSortLink s)"
  have srt: "expiry_sorted (g_taskSortLink s)"
    using sched_invD(3) [OF assms(1)] by (simp add: lists_ok_def sortlinks_ok_def sortlink_ok_def)
  have eq: "snd (OsSchedScanTimerList s) = snd (scan_timer_list ?now False ?q)"
    using assms(2) by (simp add: OsSchedScanTimerList_def case_prod_beta)
  have c: "core {runTask ?q} ?q" using sched_invD(1) [OF assms(1)] by simp
  have srt': "expiry_sorted (g_taskSortLink ?q)" using srt by simp
  have split: "takeWhile (\<lambda>t. expiry s t \<le> ?now) ?xs = filter (\<lambda>t. expiry s t \<le> ?now) ?xs \<and>
      dropWhile (\<lambda>t. expiry s t \<le> ?now) ?xs = filter (\<lambda>t. ?now < expiry s t) ?xs"
    using srt unfolding expiry_sorted_def by (intro conjI sorted_split)
  have w: "woken_by_timeout ?q q t = woken_by_timeout s q t" for q t
    by (simp add: woken_by_timeout_def)
  note sp = scan_spec [OF c srt', of ?now False, unfolded w CurrTime_sel conjunct1 [OF split] conjunct2 [OF split]]
  show ?thesis
    unfolding Let_def eq
    using sp ScanTimerList_inv [OF assms(1), unfolded eq] by simp
qed

text \<open>
  C3: The scan of the timeouts takes exactly the tasks off the sort link whose time has come:
  each is woken (ready unless suspended, with the \<open>TIMEOUT\<close> flag and off its resource when it was
  pending), every other control block is as before, and what is left on the link is not yet due.
\<close>

theorem timeouts_wake_exactly_the_expired:
  assumes "sched_inv s" "sortLink (g_taskSortLink s) \<noteq> []"
  shows "let now = fst (OsGetCurrSchedTimeCycle s); s' = snd (OsSchedScanTimerList s) in
    sched_inv s' \<and>
    sortLink (g_taskSortLink s') = filter (\<lambda>t. now < expiry s t) (sortLink (g_taskSortLink s)) \<and>
    (\<forall>t. if t \<in> set (sortLink (g_taskSortLink s)) \<and> expiry s t \<le> now
      then woken_by_timeout s s' t else tcb s' t = tcb s t)"
  by (rule ScanTimerList_spec [OF assms])

theorem timeouts_wake_exactly_the_expired_witness:
  "let s = (demo ())\<lparr>SysTick_VAL := 0, g_schedTimerBase := 200000\<rparr> in
   has (status (snd (OsSchedScanTimerList s)) 3) OS_TASK_STATUS_TIMEOUT \<and>
   has (status (snd (OsSchedScanTimerList s)) 3) OS_TASK_STATUS_READY"
proof -
  let ?s = "(demo ())\<lparr>SysTick_VAL := 0, g_schedTimerBase := 200000\<rparr>"
  have inv: "sched_inv ?s"
    using demo_inv [of "()"] by (subst sched_inv_frame [of ?s "demo ()"]) simp_all
  have link: "g_taskSortLink ?s = \<lparr>sortLink = [3], responseTime = (\<lambda>_. OS_SORT_LINK_INVALID_TIME)(3 := 200000)\<rparr>"
    by (simp add: demo_def)
  have now: "200000 \<le> fst (OsGetCurrSchedTimeCycle ?s)"
    by (simp add: OsGetCurrSchedTimeCycle_def HalGetTickCycle_def demo_def LOS_ASSERT_def)
  have st: "has (status ?s 3) OS_TASK_STATUS_PEND" "\<not> has (status ?s 3) OS_TASK_STATUS_SUSPEND"
    by (simp_all add: demo_def)
  have "woken_by_timeout ?s (snd (OsSchedScanTimerList ?s)) 3"
    using timeouts_wake_exactly_the_expired [OF inv] now unfolding link Let_def
    by (auto dest!: spec [of _ 3] split: if_splits)
  with st show ?thesis by (simp add: Let_def woken_by_timeout_def)
qed

section \<open>Waiting and waking\<close>

text \<open>
  C4: A task that blocks on a resource goes to the end of the wait list of the resource and
  keeps the invariant; a waiting task that is woken leaves the list and the sort link and is ready
  (unless it is suspended), at the head of its ready queue when some of its time slice is left and
  at the end with a new slice otherwise, and every other control block is as before.
\<close>

theorem wait_and_wake:
  assumes "sched_inv s"
  shows "(unblocked s \<and> runTask s \<noteq> g_idleTaskID s \<and> is_wait h \<longrightarrow>
      sched_inv (OsSchedTaskWait h ticks s) \<and>
      pend (OsSchedTaskWait h ticks s) h = pend s h @ [runTask s]) \<and>
    (t < g_taskMaxNum s \<and> t \<noteq> runTask s \<and> has (status s t) OS_TASK_STATUS_PEND \<longrightarrow>
      sched_inv (OsSchedTaskWake t s) \<and>
      \<not> has (status (OsSchedTaskWake t s) t) (OS_TASK_STATUS_PEND OR OS_TASK_STATUS_PEND_TIME) \<and>
      t \<notin> set (sortLink (g_taskSortLink (OsSchedTaskWake t s))) \<and>
      (has (status s t) OS_TASK_STATUS_SUSPEND \<or>
       has (status (OsSchedTaskWake t s) t) OS_TASK_STATUS_READY \<and>
       pend (OsSchedTaskWake t s) (PriQ (priority (tcb s t))) =
         (if OS_TIME_SLICE_MIN (cfg s) <s timeSlice (tcb s t)
          then t # pend s (PriQ (priority (tcb s t))) else pend s (PriQ (priority (tcb s t))) @ [t])) \<and>
      (\<forall>u. u \<noteq> t \<longrightarrow> tcb (OsSchedTaskWake t s) u = tcb s u))"
proof (intro conjI impI allI; (elim conjE)?)
  assume ub: "unblocked s" and run: "runTask s \<noteq> g_idleTaskID s" and w: "is_wait h"
  have lt: "runTask s < g_taskMaxNum s" using ub by (simp add: unblocked_def)
  have nr: "\<not> has (status s (runTask s)) OS_TASK_STATUS_READY"
    using sched_invD(2) [OF assms] running_okD by blast
  show "sched_inv (OsSchedTaskWait h ticks s)"
    by (rule sched_inv_Wait [OF assms ub run w])
  have "\<And>k. \<not> on s (runTask s) k"
    by (rule off_lists [OF sched_invD(5) [OF assms] lt nr]) (use ub in \<open>auto simp: unblocked_def\<close>)
  then show "pend (OsSchedTaskWait h ticks s) h = pend s h @ [runTask s]"
    by (simp add: OsSchedTaskWait_def Let_def list_defs on_def)
next
  assume lt: "t < g_taskMaxNum s" and t: "t \<noteq> runTask s" and pd: "has (status s t) OS_TASK_STATUS_PEND"
  note lists = sched_invD(3) [OF assms] and ok = sched_invD(5) [OF assms, of t]
  show "sched_inv (OsSchedTaskWake t s)" by (rule sched_inv_Wake [OF assms lt t pd])
  show "\<not> has (status (OsSchedTaskWake t s) t) (OS_TASK_STATUS_PEND OR OS_TASK_STATUS_PEND_TIME)"
    by (auto simp: Wake_eq Let_def EnQueue_sel)
  have "\<not> timed (OsSchedTaskWake t s) t"
    using task_okD(5) [OF sched_invD(5) [OF sched_inv_Wake [OF assms lt t pd], of t]]
      task_flags [OF ok lt] lt pd
    by (auto simp: Wake_eq Let_def EnQueue_sel)
  then show "t \<notin> set (sortLink (g_taskSortLink (OsSchedTaskWake t s)))" by (simp add: timed_def)
  show "has (status s t) OS_TASK_STATUS_SUSPEND \<or>
       has (status (OsSchedTaskWake t s) t) OS_TASK_STATUS_READY \<and>
       pend (OsSchedTaskWake t s) (PriQ (priority (tcb s t))) =
         (if OS_TIME_SLICE_MIN (cfg s) <s timeSlice (tcb s t)
          then t # pend s (PriQ (priority (tcb s t))) else pend s (PriQ (priority (tcb s t))) @ [t])"
  proof (cases "has (status s t) OS_TASK_STATUS_SUSPEND")
    case False
    have "t \<noteq> g_idleTaskID s" using task_okD(9) [OF ok lt] pd by blast
    moreover have "t \<notin> set (pend s (PriQ (priority (tcb s t))))"
      using pend_not_prio(1) [OF ok lt pd] by (simp add: on_def)
    ultimately show ?thesis
      using False task_okD(1) [OF ok lt]
      by (simp add: Wake_eq Let_def EnQueue_sel OsSchedTaskEnQueue_def OsSchedPriQueueEnHead_def
          OsSchedPriQueueEnTail_def set_prio_bit_def list_defs remove1_idem)
  qed simp
  fix u assume "u \<noteq> t"
  then show "tcb (OsSchedTaskWake t s) u = tcb s u"
    by (auto simp: Wake_eq Let_def EnQueue_sel)
qed

theorem wait_and_wake_witness:
  "pend (OsSchedTaskWait (SemWait 0) 10 (demo ())) (SemWait 0) = [3, 1] \<and>
   pend (OsSchedTaskWake 3 (demo ())) (PriQ 7) = [3]"
proof -
  have "has (status (demo ()) 3) OS_TASK_STATUS_PEND" "\<not> has (status (demo ()) 3) OS_TASK_STATUS_SUSPEND"
    "priority (tcb (demo ()) 3) = 7"
    by (simp_all add: demo_def)
  then show ?thesis
    using wait_and_wake [OF demo_inv [of "()"], of "SemWait 0" 10 3] by (simp add: demo_unblocked)
qed

section \<open>The window before the switch\<close>

text \<open>A task that is ready while it still runs is entered a second time by the switch.\<close>

lemma enqueued_twice:
  assumes "has (status s (runTask s)) OS_TASK_STATUS_READY"
    "\<not> has (status s (runTask s)) (OS_TASK_STATUS_PEND OR OS_TASK_STATUS_PEND_TIME OR
      OS_TASK_STATUS_DELAY OR OS_TASK_STATUS_SUSPEND OR OS_TASK_STATUS_UNUSED)"
  shows "ASSERT_ENQUEUE_READY \<in> assertFailed (HalPendSV s)"
proof -
  let ?s = "s\<lparr>pendSV := False\<rparr>"
  have "has (status (switch_account ?s) (runTask s)) OS_TASK_STATUS_READY" using assms(1) by simp
  then have "ASSERT_ENQUEUE_READY \<in> assertFailed (OsSchedTaskEnQueue (runTask s) (switch_account ?s))"
    by (simp add: OsSchedTaskEnQueue_def Let_def OsSchedPriQueueEnHead_def OsSchedPriQueueEnTail_def
        set_prio_bit_def status_clear_def status_or_def upd_tcb_def LOS_ASSERT_def)
  then have "ASSERT_ENQUEUE_READY \<in> assertFailed (switch_place (runTask s) (switch_account ?s))"
    using assms(2) by (simp add: switch_place_def)
  moreover obtain start rid endt where "OsSchedTaskSwitch ?s =
      (let s2 = switch_place (runTask ?s) (switch_account ?s); new = OsGetTopTask s2
       in (runTask ?s \<noteq> new, OsSchedSetNextExpireTime start rid endt
           (OsSchedTaskDeQueue new (switch_flags (runTask ?s) new (s2\<lparr>newTask := new\<rparr>)))))"
    using OsSchedTaskSwitch_eq by blast
  ultimately show ?thesis
    by (auto simp: HalPendSV_def Let_def DeQueue_sel switch_flags_def)
qed

text \<open>
  C19: A wake-up that reaches the running task after it has put itself on a wait list and
  before the pending switch has run makes it ready while it is still \<open>RUNNING\<close>; the switch
  then enters it into its ready queue a second time (the assertion of \<open>OsSchedTaskEnQueue\<close> fails).
\<close>

theorem wake_of_running_task_enqueues_twice:
  assumes "sched_inv s" "unblocked s" "runTask s \<noteq> g_idleTaskID s" "is_wait h"
  shows "ASSERT_ENQUEUE_READY \<in>
    assertFailed (HalPendSV (OsSchedTaskWake (runTask s) (OsSchedTaskWait h ticks s)))"
proof -
  let ?w = "OsSchedTaskWait h ticks s"
  let ?s = "OsSchedTaskWake (runTask s) ?w"
  have "\<not> has (status ?w (runTask s)) OS_TASK_STATUS_SUSPEND"
    using assms(2) by (simp add: Wait_sel unblocked_def)
  then have "has (status ?s (runTask s)) OS_TASK_STATUS_READY"
    "\<not> has (status ?s (runTask s)) (OS_TASK_STATUS_PEND OR OS_TASK_STATUS_PEND_TIME OR
      OS_TASK_STATUS_DELAY OR OS_TASK_STATUS_SUSPEND OR OS_TASK_STATUS_UNUSED)"
    using assms(2) by (simp_all add: Wake_eq Let_def EnQueue_sel Wait_sel unblocked_def)
  moreover have "runTask ?s = runTask s" by (auto simp: Wake_eq Let_def)
  ultimately show ?thesis using enqueued_twice [of ?s] by simp
qed

theorem wake_of_running_task_enqueues_twice_witness:
  "ASSERT_ENQUEUE_READY \<in> assertFailed (HalPendSV (OsSchedTaskWake 1 (OsSchedTaskWait (SemWait 1) 10 (demo ()))))"
  using wake_of_running_task_enqueues_twice [OF demo_inv [of "()"], of "SemWait 1" 10]
  by (simp add: demo_unblocked)

section \<open>The task services\<close>

lemma resume_running:
  fixes s :: "'a sched_state_scheme"
  assumes "sched_inv s" "runTask s < g_taskMaxNum s" "has (status s (runTask s)) OS_TASK_STATUS_SUSPEND"
    "\<not> has (status s (runTask s)) (OS_TASK_STATUS_PEND OR OS_TASK_STATUS_DELAY)"
  shows "\<not> sched_inv (snd (LOS_TaskResume (runTask s) s))"
    and "ASSERT_ENQUEUE_READY \<in> assertFailed (HalPendSV (snd (LOS_TaskResume (runTask s) s)))"
proof -
  let ?t = "runTask s" and ?r = "snd (LOS_TaskResume (runTask s) s)"
  have f: "\<not> has (status s ?t) OS_TASK_STATUS_UNUSED" "\<not> has (status s ?t) OS_TASK_STATUS_PEND_TIME"
    using task_flags(3,4) [OF sched_invD(5) [OF assms(1), of ?t] assms(2)] assms(3,4) by (simp_all, blast+)
  have lim: "Suc (LOSCFG_BASE_CORE_TSK_LIMIT (cfg s)) = g_taskMaxNum s"
    using sched_invD(4) [OF assms(1)] by (simp add: globals_ok_def)
  let ?e = "OsSchedTaskEnQueue ?t (status_clear ?t OS_TASK_STATUS_SUSPEND s)"
  have eq: "?r = ?e \<or> ?r = LOS_Schedule ?e"
    using assms(2-4) f(1) lim by (auto simp: LOS_TaskResume_def Let_def OS_CHECK_TASK_BLOCK_def)
  have "has (status ?e ?t) OS_TASK_STATUS_READY"
    "\<not> has (status ?e ?t) (OS_TASK_STATUS_PEND OR OS_TASK_STATUS_PEND_TIME OR
      OS_TASK_STATUS_DELAY OR OS_TASK_STATUS_SUSPEND OR OS_TASK_STATUS_UNUSED)" "runTask ?e = ?t"
    using f(1) by (simp_all add: EnQueue_sel)
  moreover have sl: "g_taskCBArray (LOS_Schedule q) = g_taskCBArray q" "runTask (LOS_Schedule q) = runTask q"
    for q :: "'a sched_state_scheme"
    by (simp_all add: LOS_Schedule_def HalTaskSchedule_def)
  ultimately have r: "has (status ?r ?t) OS_TASK_STATUS_READY"
    "\<not> has (status ?r ?t) (OS_TASK_STATUS_PEND OR OS_TASK_STATUS_PEND_TIME OR
      OS_TASK_STATUS_DELAY OR OS_TASK_STATUS_SUSPEND OR OS_TASK_STATUS_UNUSED)" "runTask ?r = ?t"
    using eq sl [of ?e] by (elim disjE; simp)+
  then show "ASSERT_ENQUEUE_READY \<in> assertFailed (HalPendSV ?r)" using enqueued_twice [of ?r] by simp
  show "\<not> sched_inv ?r" using r(1,3) sched_invD(2) [of ?r] by (auto simp: running_ok_def)
qed

text \<open>
  C2: The services of the task module and the scheduler invariant. Creation, deletion, suspension, change of
  priority, yield and the scheduler lock keep it in every state, and so does a delay, which is for a running task
  that is not the idle task and has not blocked, and is refused in an interrupt. Resumption keeps it except in one
  case, and there it breaks it: when the running task has suspended itself and is resumed before the pending switch
  has run, it becomes ready while it still runs, and the switch enters it into its ready queue a second time.
\<close>

theorem task_services_keep_invariant:
  assumes "sched_inv s"
  defines "window \<equiv> \<lambda>t. t = runTask s \<and> t < g_taskMaxNum s \<and> has (status s t) OS_TASK_STATUS_SUSPEND \<and>
    \<not> has (status s t) (OS_TASK_STATUS_PEND OR OS_TASK_STATUS_DELAY)"
  shows "sched_inv (snd (snd (LOS_TaskCreate idNull param mem s))) \<and>
    sched_inv (snd (LOS_TaskDelete t s)) \<and> sched_inv (snd (LOS_TaskSuspend t s)) \<and>
    (sched_inv (snd (LOS_TaskResume t s)) \<longleftrightarrow> \<not> window t) \<and>
    (window t \<longrightarrow> ASSERT_ENQUEUE_READY \<in> assertFailed (HalPendSV (snd (LOS_TaskResume t s)))) \<and>
    sched_inv (snd (LOS_TaskPriSet t prio s)) \<and> sched_inv (snd (LOS_TaskYield s)) \<and>
    (OS_INT_ACTIVE s \<or> unblocked s \<and> runTask s \<noteq> g_idleTaskID s \<longrightarrow> sched_inv (snd (LOS_TaskDelay tick s))) \<and>
    sched_inv (LOS_TaskLock s) \<and> sched_inv (LOS_TaskUnlock s)"
proof -
  have "sched_inv (snd (LOS_TaskResume t s)) \<longleftrightarrow> \<not> window t"
    using resume_running(1) [OF assms(1)] Resume_inv [OF assms(1), of t] unfolding window_def by blast
  moreover have "window t \<longrightarrow> ASSERT_ENQUEUE_READY \<in> assertFailed (HalPendSV (snd (LOS_TaskResume t s)))"
    using resume_running(2) [OF assms(1)] unfolding window_def by blast
  moreover have "sched_inv (snd (LOS_TaskDelay tick s))" if "OS_INT_ACTIVE s"
    using assms(1) that by (simp add: LOS_TaskDelay_def)
  ultimately show ?thesis
    using assms(1) by (simp add: Create_inv Delete_inv Suspend_inv PriSet_inv Yield_inv Delay_inv Lock_inv)
qed

text \<open>In the second part of the witness task 1 has just suspended itself.\<close>

theorem task_services_keep_invariant_witness:
  "sched_inv (snd (LOS_TaskDelete 3 (demo ()))) \<and> sched_inv (snd (LOS_TaskDelay 10 (demo ()))) \<and>
   sched_inv (snd (LOS_TaskSuspend 1 (demo ()))) \<and>
   ASSERT_ENQUEUE_READY \<in> assertFailed (HalPendSV (snd (LOS_TaskResume 1 (snd (LOS_TaskSuspend 1 (demo ()))))))"
proof -
  let ?s = "snd (LOS_TaskSuspend 1 (demo ()))"
  note r = task_services_keep_invariant [OF demo_inv [of "()"], where tick = 10]
  have "runTask ?s = 1" "g_taskMaxNum ?s = 6" "has (status ?s 1) OS_TASK_STATUS_SUSPEND"
    "\<not> has (status ?s 1) (OS_TASK_STATUS_PEND OR OS_TASK_STATUS_DELAY)"
    by (simp_all add: LOS_TaskSuspend_def OsCheckTaskIDValid_def OS_INVALID_def Let_def)
      (simp_all add: demo_def zero_tcb_def LOS_Schedule_def HalTaskSchedule_def status_or_def upd_tcb_def)
  then have "ASSERT_ENQUEUE_READY \<in> assertFailed (HalPendSV (snd (LOS_TaskResume 1 ?s)))"
    using task_services_keep_invariant [of ?s _ _ _ 1 _ 10] r [where t = 1] by simp
  then show ?thesis using r [where t = 3] r [where t = 1] by (simp add: demo_unblocked)
qed

section \<open>The clock and the timer\<close>

text \<open>
  While the 64-bit counter does not overflow, the time the scheduler reads never goes
  back, also when the tick counter has been reloaded since the last reading.
\<close>

theorem clock_never_goes_back:
  assumes "clock_ok s" "g_taskScheduled s"
  shows "oldSchedTime s \<le> fst (OsGetCurrSchedTimeCycle s) \<and>
    oldSchedTime (snd (OsGetCurrSchedTimeCycle s)) = fst (OsGetCurrSchedTimeCycle s) \<and>
    assertFailed (snd (OsGetCurrSchedTimeCycle s)) = assertFailed s"
  using CurrTime_monotone [OF assms] by blast

theorem clock_never_goes_back_witness:
  "oldSchedTime (demo ()) \<le> fst (OsGetCurrSchedTimeCycle ((demo ())\<lparr>SysTick_VAL := 5\<rparr>))"
  using clock_never_goes_back [of "(demo ())\<lparr>SysTick_VAL := 5\<rparr>"] by (simp add: clock_ok_def demo_def)

text \<open>
  Whenever the scheduler reprograms the tick timer, the period it writes is at least one
  tick and at most the largest period the counter of the board supports.
\<close>

theorem timer_reload_range:
  assumes "config_ok (cfg s)"
  shows "OsSchedSetNextExpireTime start rid taskEndTime s = s \<or>
    (let period = Suc (unat (SysTick_LOAD (OsSchedSetNextExpireTime start rid taskEndTime s)))
     in OS_CYCLE_PER_TICK (cfg s) \<le> period \<and> period \<le> LOSCFG_BASE_CORE_TICK_RESPONSE_MAX (cfg s))"
proof (cases "reload_needed start (next_event start taskEndTime s) s")
  case False
  then show ?thesis using SetNext_spec(1) [OF refl refl] by blast
next
  case True
  let ?p = "clamp (of_nat (OS_CYCLE_PER_TICK (cfg s))) (OS_TICK_RESPONSE_TIME_MAX (cfg s))
    (next_event start taskEndTime s - start)"
  note r = period_range [OF assms, of "next_event start taskEndTime s - start"]
  have "0 < OS_CYCLE_PER_TICK (cfg s)" "LOSCFG_BASE_CORE_TICK_RESPONSE_MAX (cfg s) < 2 ^ 32"
    using assms by (simp_all add: config_ok_def)
  with r have "Suc (unat (ucast (?p - 1) :: UINT32)) = unat ?p"
    by (intro unat_minus_one_32) linarith+
  with SetNext_spec(2) [OF refl refl True] r show ?thesis by (simp add: Let_def)
qed

lemma demo_next_expire: "OsGetNextExpireTime 100000 ((demo ())\<lparr>g_schedResponseTime := r\<rparr>) = 200000"
proof -
  let ?s = "(demo ())\<lparr>g_schedResponseTime := r\<rparr>"
  have "OsGetSortLinkNextExpireTime c (g_taskSortLink ?s) 100000 = 200000"
    "OsGetSortLinkNextExpireTime c (g_swtmrSortLink ?s) 100000 = -1" for c
    by (simp_all add: OsGetSortLinkNextExpireTime_empty OsGetSortLinkNextExpireTime_later demo_def)
  then show ?thesis by (simp add: OsGetNextExpireTime_def Let_def)
qed

theorem timer_reload_range_witness:
  "let s = (demo ())\<lparr>g_schedResponseTime := OS_SCHED_MAX_RESPONSE_TIME\<rparr>;
       period = Suc (unat (SysTick_LOAD (OsSchedSetNextExpireTime 100000 1 1100000 s)))
   in OS_CYCLE_PER_TICK (cfg s) \<le> period \<and> period \<le> LOSCFG_BASE_CORE_TICK_RESPONSE_MAX (cfg s)"
proof -
  let ?s = "(demo ())\<lparr>g_schedResponseTime := OS_SCHED_MAX_RESPONSE_TIME\<rparr>"
  have "next_event 100000 1100000 ?s = 200000"
    by (simp add: next_event_def demo_next_expire)
  then have "reload_needed 100000 (next_event 100000 1100000 ?s) ?s"
    by (simp add: reload_needed_def default_config_def config_consts)
  from SetNext_spec(2) [OF refl refl this, of 1]
  have "g_schedResponseTime (OsSchedSetNextExpireTime 100000 1 1100000 ?s) \<noteq> g_schedResponseTime ?s"
    using \<open>next_event 100000 1100000 ?s = 200000\<close>
    by (simp add: clamp_def default_config_def config_consts)
  then have change: "OsSchedSetNextExpireTime 100000 1 1100000 ?s \<noteq> ?s" by metis
  have ok: "config_ok (cfg ?s)" by (simp add: default_config_ok)
  show ?thesis
    using timer_reload_range [OF ok, of 100000 1 1100000] change unfolding Let_def by blast
qed

text \<open>
  The time the scheduler reads when the counter has counted down to 0, which is when the tick interrupt comes.
  As long as the timer has not been overtaken, that is no later than \<open>g_schedResponseTime\<close>.
\<close>

definition interrupt_time :: "'a sched_state_scheme \<Rightarrow> nat" where
  "interrupt_time s = unat (g_schedTimerBase s) + unat (SysTick_LOAD s)"

definition armed :: "'a sched_state_scheme \<Rightarrow> bool" where
  "armed s \<longleftrightarrow> interrupt_time s \<le> unat (g_schedResponseTime s)"

lemma SetNext_base:
  assumes "time_read s" "reload_needed start (next_event start taskEndTime s) s"
  shows "g_schedTimerBase (OsSchedSetNextExpireTime start rid taskEndTime s) = oldSchedTime s"
proof -
  let ?e = "next_event start taskEndTime s"
  have e: "(if taskEndTime < OsGetNextExpireTime start s then taskEndTime else OsGetNextExpireTime start s) = ?e"
    by (auto simp: next_event_def min_def)
  have now: "OsGetCurrSchedTimeCycle (s\<lparr>g_schedResponseID := a, g_schedResponseTime := b\<rparr>) =
      (oldSchedTime s, s\<lparr>g_schedResponseID := a, g_schedResponseTime := b\<rparr>)" for a b
    using time_read_now [of "s\<lparr>g_schedResponseID := a, g_schedResponseTime := b\<rparr>"] assms(1)
    by (simp add: time_read_def HalGetTickCycle_def)
  show ?thesis
    using assms(2) unfolding OsSchedSetNextExpireTime_def Let_def e
    by (auto simp: reload_needed_def not_less not_le now HalSysTickReload_def)
qed

lemma next_event_upper:
  assumes "sortlinks_ok s" "0 < start"
    "n \<in> set (sortLink (OsGetSortLinkAttribute type s))"
  shows "unat (OsGetNextExpireTime start s) \<le>
    max (unat start) (unat (responseTime (OsGetSortLinkAttribute type s) n)) + OS_US_PER_TICK (cfg s)"
proof -
  have "expiry_sorted (OsGetSortLinkAttribute type s)"
    using sortlinks_okD [OF assms(1)] by (simp add: sortlink_ok_def)
  from next_expire_upper [OF this assms(3,2), of "cfg s"]
  have "unat (OsGetSortLinkNextExpireTime (cfg s) (OsGetSortLinkAttribute type s) start) \<le>
    max (unat start) (unat (responseTime (OsGetSortLinkAttribute type s) n)) + OS_US_PER_TICK (cfg s)" .
  moreover have "OsGetNextExpireTime start s \<le> OsGetSortLinkNextExpireTime (cfg s) (OsGetSortLinkAttribute type s) start"
    by (cases type) (auto simp: OsGetNextExpireTime_def OsGetSortLinkAttribute_def Let_def)
  ultimately show ?thesis by (simp add: word_le_nat_alt)
qed

text \<open>The timer after the next expiry has been set at the time \<open>now\<close>.\<close>

lemma SetNext_timer:
  fixes s :: "'a sched_state_scheme"
  defines "now \<equiv> oldSchedTime s" and "c \<equiv> OS_CYCLE_PER_TICK (cfg s)"
  assumes ok: "config_ok (cfg s)" "time_read s" "armed s" and nd: "0 < now" "now \<le> taskEndTime"
    and room: "unat now + LOSCFG_BASE_CORE_TICK_RESPONSE_MAX (cfg s) < 2 ^ 64"
    and s': "s' = OsSchedSetNextExpireTime now rid taskEndTime s"
  shows "armed s'" "interrupt_time s' \<le> unat (next_event now taskEndTime s) + c"
    and "s' = s \<or> SysTick_VAL s' = SysTick_LOAD s' \<and> g_schedTimerBase s' = now \<and> c \<le> Suc (unat (SysTick_LOAD s')) \<and>
      Suc (unat (SysTick_LOAD s')) \<le> LOSCFG_BASE_CORE_TICK_RESPONSE_MAX (cfg s)"
proof -
  let ?e = "next_event now taskEndTime s" and ?cyc = "of_nat c :: UINT64"
  note cyc = cycle_le_max [OF ok(1), folded c_def]
  have cfg: "0 < c" "c \<le> LOSCFG_BASE_CORE_TICK_RESPONSE_MAX (cfg s)" "LOSCFG_BASE_CORE_TICK_RESPONSE_MAX (cfg s) < 2 ^ 32"
    using ok(1) by (simp_all add: config_ok_def c_def)
  have "now \<le> OsGetNextExpireTime now s"
    using next_expire_lower [OF nd(1)] by (simp add: OsGetNextExpireTime_def Let_def)
  with nd(2) have se: "now \<le> ?e" by (simp add: next_event_def)
  then have sen: "unat now \<le> unat ?e" by (simp add: word_le_nat_alt)
  have "armed s' \<and> interrupt_time s' \<le> unat ?e + c \<and> (s' = s \<or> SysTick_VAL s' = SysTick_LOAD s' \<and>
      g_schedTimerBase s' = now \<and> c \<le> Suc (unat (SysTick_LOAD s')) \<and>
      Suc (unat (SysTick_LOAD s')) \<le> LOSCFG_BASE_CORE_TICK_RESPONSE_MAX (cfg s))"
  proof (cases "reload_needed now ?e s")
    case False
    have same: "s' = s" unfolding s' using SetNext_spec(1) [OF refl refl False] .
    have plus: "unat (now + ?cyc) = unat now + c"
      using room cfg(2) cyc(3) by (subst unat_add_lem [THEN iffD1]) simp_all
    from False consider "g_schedResponseTime s \<le> ?e"
      | "?e < g_schedResponseTime s" "g_schedResponseTime s - ?e < ?cyc"
      | "g_schedResponseTime s \<le> now + ?cyc"
      unfolding reload_needed_def c_def by (meson not_le)
    then have "unat (g_schedResponseTime s) \<le> unat ?e + c"
    proof cases
      case 2
      then have "unat (g_schedResponseTime s) - unat ?e < c"
        using cyc(3) by (simp add: word_less_nat_alt unat_sub less_imp_le)
      then show ?thesis by simp
    qed (use plus sen in \<open>simp_all add: word_le_nat_alt\<close>)
    then show ?thesis using ok(3) by (simp add: same armed_def)
  next
    case True
    let ?p = "clamp ?cyc (OS_TICK_RESPONSE_TIME_MAX (cfg s)) (?e - now)"
    note sp = SetNext_spec(2) [OF refl refl True, of rid, folded s' c_def]
    note pr = period_range [OF ok(1), of "?e - now", folded c_def]
    have load: "Suc (unat (SysTick_LOAD s')) = unat ?p"
      using sp pr cfg by (simp add: unat_minus_one_32)
    have base: "g_schedTimerBase s' = now" unfolding s' using SetNext_base [OF ok(2) True] by (simp add: now_def)
    have resp: "unat (g_schedResponseTime s') = unat now + unat ?p"
      using sp pr(2) room by (simp add: unat_add_lem [THEN iffD1])
    have "unat (?e - now) = unat ?e - unat now" by (rule unat_sub [OF se])
    moreover have "?p \<le> ?e - now \<or> ?p = ?cyc" by (auto simp: clamp_def)
    ultimately have "unat now + unat ?p \<le> unat ?e + c"
      using sen cyc(3) by (auto simp: word_le_nat_alt)
    then show ?thesis using load base resp pr sp by (simp add: armed_def interrupt_time_def)
  qed
  then show "armed s'" "interrupt_time s' \<le> unat ?e + c" "s' = s \<or> SysTick_VAL s' = SysTick_LOAD s' \<and>
      g_schedTimerBase s' = now \<and> c \<le> Suc (unat (SysTick_LOAD s')) \<and>
      Suc (unat (SysTick_LOAD s')) \<le> LOSCFG_BASE_CORE_TICK_RESPONSE_MAX (cfg s)"
    by simp_all
qed

text \<open>
  C16: No event is missed: when the scheduler has just read the time and sets the next expiry, the hardware
  counter ends, and the tick interrupt comes, at most one tick after the end of the time slice and at most one tick
  (and the span within which the code joins expiries) after the expiry of every task and every software timer that
  waits, or after now when that has passed, provided it was armed before, which the setting establishes again and
  the tick handler by forgetting the noted expiry. The counter is left alone only if it ends early enough already; else
  it is started with a period of at least a tick that it can count.
\<close>

theorem timer_not_late:
  fixes s :: "'a sched_state_scheme"
  defines "now \<equiv> oldSchedTime s" and "cycles \<equiv> OS_CYCLE_PER_TICK (cfg s)"
  assumes "config_ok (cfg s)" "sortlinks_ok s" "time_read s" "armed s" "0 < now" "now \<le> taskEndTime"
    "unat now + LOSCFG_BASE_CORE_TICK_RESPONSE_MAX (cfg s) < 2 ^ 64"
  shows "let s' = OsSchedSetNextExpireTime now rid taskEndTime s in
    armed s' \<and> time_read s' \<and>
    interrupt_time s' \<le> unat taskEndTime + cycles \<and>
    interrupt_time s' \<le> unat (OsGetNextExpireTime now s) + cycles \<and>
    (\<forall>type. \<forall>n\<in>set (sortLink (OsGetSortLinkAttribute type s)). interrupt_time s' \<le>
      max (unat now) (unat (responseTime (OsGetSortLinkAttribute type s) n)) + OS_US_PER_TICK (cfg s) + cycles) \<and>
    (s' = s \<or> SysTick_VAL s' = SysTick_LOAD s' \<and> g_schedTimerBase s' = now \<and> cycles \<le> Suc (unat (SysTick_LOAD s')) \<and>
      Suc (unat (SysTick_LOAD s')) \<le> LOSCFG_BASE_CORE_TICK_RESPONSE_MAX (cfg s))"
proof -
  let ?s = "OsSchedSetNextExpireTime now rid taskEndTime s"
  note t = SetNext_timer [OF assms(3,5,6) assms(7-9) [unfolded now_def] refl, of rid, folded now_def cycles_def]
  have e: "unat (next_event now taskEndTime s) \<le> unat taskEndTime"
    "unat (next_event now taskEndTime s) \<le> unat (OsGetNextExpireTime now s)"
    by (auto simp: next_event_def min_def word_le_nat_alt)
  have "interrupt_time ?s \<le> max (unat now) (unat (responseTime (OsGetSortLinkAttribute type s) n)) +
      OS_US_PER_TICK (cfg s) + cycles" if "n \<in> set (sortLink (OsGetSortLinkAttribute type s))" for type n
    using next_event_upper [OF assms(4,7) that] t(2) e(2) by linarith
  moreover have "interrupt_time ?s \<le> unat taskEndTime + cycles" "interrupt_time ?s \<le> unat (OsGetNextExpireTime now s) + cycles"
    using t(2) e by linarith+
  ultimately show ?thesis using t(1,3) time_read_SetNext(1) [OF assms(5)] by (simp add: Let_def)
qed

text \<open>Task 3 waits until 200000, the time slice of the running task ends at 1100000.\<close>

theorem timer_not_late_witness:
  "let s = (demo ())\<lparr>g_schedResponseTime := OS_SCHED_MAX_RESPONSE_TIME\<rparr> in
   interrupt_time (OsSchedSetNextExpireTime 100000 1 1100000 s) \<le> 200000 + OS_CYCLE_PER_TICK default_config"
proof -
  let ?s = "(demo ())\<lparr>g_schedResponseTime := OS_SCHED_MAX_RESPONSE_TIME\<rparr>"
  have ok: "config_ok (cfg ?s)" "time_read ?s" "armed ?s"
    by (simp_all add: default_config_ok time_read_def HalGetTickCycle_def armed_def interrupt_time_def demo_clock config_consts)
  have sl: "sortlinks_ok ?s"
    using sched_invD(3) [OF demo_inv [of "()"]] by (simp add: lists_ok_def sortlinks_ok_def)
  have now: "oldSchedTime ?s = 100000" by (simp add: demo_clock)
  have room: "unat (oldSchedTime ?s) + LOSCFG_BASE_CORE_TICK_RESPONSE_MAX (cfg ?s) < 2 ^ 64"
    unfolding now by (simp add: default_config_def)
  have le: "0 < oldSchedTime ?s" "oldSchedTime ?s \<le> 1100000" unfolding now by simp_all
  note t = timer_not_late [OF ok(1) sl ok(2,3) le room, of 1, unfolded now Let_def, THEN conjunct2, THEN conjunct2,
    THEN conjunct2, THEN conjunct1]
  moreover have "cfg ?s = default_config" by simp
  moreover have "unat (200000 :: UINT64) = 200000" by simp
  ultimately show ?thesis unfolding Let_def demo_next_expire by metis
qed

end
