(* ===== verification/Calm.thy ===== *)
theory Calm
  imports Sched_Props
begin

text \<open>
  What the scheduler and the task services leave alone: the configuration, the state of the
  components built on top of the scheduler, and the wait lists of their resources but for tasks
  that leave them. The components keep their own invariants over all of this by one lemma each.
\<close>

definition calm :: "lhead set \<Rightarrow> 'a sched_state_scheme \<Rightarrow> 'a sched_state_scheme \<Rightarrow> bool" where
  "calm H s s' \<longleftrightarrow> cfg s' = cfg s \<and> sched_state.more s' = sched_state.more s \<and>
    (\<forall>h. is_wait h \<longrightarrow> h \<notin> H \<longrightarrow> set (pend s' h) \<subseteq> set (pend s h))"

lemma calmD:
  "calm H s s' \<Longrightarrow> cfg s' = cfg s" "calm H s s' \<Longrightarrow> sched_state.more s' = sched_state.more s"
  "calm H s s' \<Longrightarrow> is_wait h \<Longrightarrow> h \<notin> H \<Longrightarrow> set (pend s' h) \<subseteq> set (pend s h)"
  by (auto simp: calm_def)

lemma calm_empty: "calm H s s' \<Longrightarrow> is_wait h \<Longrightarrow> h \<notin> H \<Longrightarrow> pend s h = [] \<Longrightarrow> pend s' h = []"
  using calmD(3) [of H s s' h] by simp

lemma calm_refl [simp]: "calm H s s"
  by (simp add: calm_def)

lemma calm_weaken: "calm H s s' \<Longrightarrow> H \<subseteq> H' \<Longrightarrow> calm H' s s'"
  by (auto simp: calm_def)

named_theorems calm_intros

lemma calm_frame [calm_intros]:
  "calm H s q \<Longrightarrow> calm H s (upd_tcb t f q)"
  "calm H s q \<Longrightarrow> calm H s (status_or t w q)"
  "calm H s q \<Longrightarrow> calm H s (status_clear t w q)"
  "calm H s q \<Longrightarrow> calm H s (LOS_ASSERT site b q)"
  "calm H s q \<Longrightarrow> calm H s (set_prio_bit p q)"
  "calm H s q \<Longrightarrow> calm H s (LOS_MemFree a q)"
  "calm H s q \<Longrightarrow> calm H s (LOS_MemAlloc a q)"
  "calm H s q \<Longrightarrow> calm H s (OsDeleteSortLink t OS_SORT_LINK_TASK q)"
  "calm H s q \<Longrightarrow> calm H s (OsAdd2SortLink t start ticks OS_SORT_LINK_TASK q)"
  "calm H s q \<Longrightarrow> calm H s (snd (OsGetCurrSchedTimeCycle q))"
  "calm H s q \<Longrightarrow> calm H s (OsTimeSliceUpdate t time q)"
  "calm H s q \<Longrightarrow> calm H s (OsSchedSetNextExpireTime start rid endt q)"
  "calm H s q \<Longrightarrow> calm H s (OsSchedUpdateExpireTime start q)"
  "calm H s q \<Longrightarrow> calm H s (HalTaskSchedule q)"
  "calm H s q \<Longrightarrow> calm H s (LOS_Schedule q)"
  "calm H s q \<Longrightarrow> calm H s (OsSchedYield q)"
  "calm H s q \<Longrightarrow> calm H s (OsSchedDelay t tick q)"
  by (simp_all add: calm_def LOS_MemFree_def LOS_MemAlloc_def set_prio_bit_def OsSchedUpdateExpireTime_def
      HalTaskSchedule_def LOS_Schedule_def OsSchedYield_def OsSchedDelay_def Let_def)

lemma calm_record [calm_intros]:
  "calm H s q \<Longrightarrow> calm H s (q\<lparr>g_queueBitmap := w\<rparr>)"
  "calm H s q \<Longrightarrow> calm H s (q\<lparr>g_taskSortLink := sl\<rparr>)"
  "calm H s q \<Longrightarrow> calm H s (q\<lparr>newTask := t\<rparr>)"
  "calm H s q \<Longrightarrow> calm H s (q\<lparr>runTask := t\<rparr>)"
  "calm H s q \<Longrightarrow> calm H s (q\<lparr>pendSV := b\<rparr>)"
  "calm H s q \<Longrightarrow> calm H s (q\<lparr>g_losTaskLock := l\<rparr>)"
  "calm H s q \<Longrightarrow> calm H s (q\<lparr>OS_INT_ACTIVE := b\<rparr>)"
  "calm H s q \<Longrightarrow> calm H s (q\<lparr>g_schedResponseTime := r\<rparr>)"
  by (simp_all add: calm_def)

definition calm_lists :: "lhead set \<Rightarrow> 'a sched_state_scheme \<Rightarrow> lhead store \<Rightarrow> bool" where
  "calm_lists H s L \<longleftrightarrow> (\<forall>h. is_wait h \<longrightarrow> h \<notin> H \<longrightarrow> set (L h) \<subseteq> set (pend s h))"

lemma calm_lists_intros [calm_intros]:
  "calm H s q \<Longrightarrow> calm_lists H s L \<Longrightarrow> calm H s (q\<lparr>pend := L\<rparr>)"
  "calm H s q \<Longrightarrow> calm_lists H s (pend q)"
  "calm_lists H s L \<Longrightarrow> calm_lists H s (LOS_ListDelete t L)"
  "calm_lists H s L \<Longrightarrow> \<not> is_wait h \<or> h \<in> H \<Longrightarrow> calm_lists H s (LOS_ListAdd h t L)"
  "calm_lists H s L \<Longrightarrow> \<not> is_wait h \<or> h \<in> H \<Longrightarrow> calm_lists H s (LOS_ListTailInsert h t L)"
  using set_remove1_subset by (fastforce simp: calm_def calm_lists_def list_defs)+

lemma calm_queue [calm_intros]:
  "calm H s q \<Longrightarrow> calm H s (OsSchedPriQueueDelete t p q)"
  "calm H s q \<Longrightarrow> calm H s (OsSchedTaskEnQueue t q)"
  "calm H s q \<Longrightarrow> calm H s (OsSchedTaskDeQueue t q)"
  by (auto simp: OsSchedPriQueueDelete_def OsSchedTaskEnQueue_def OsSchedTaskDeQueue_def
      OsSchedPriQueueEnHead_def OsSchedPriQueueEnTail_def Let_def intro!: calm_intros)

lemma calm_wake [calm_intros]:
  "calm H s q \<Longrightarrow> calm H s (snd (OsSchedWakePendTimeTask time t need q))"
  "calm H s q \<Longrightarrow> h \<in> H \<Longrightarrow> calm H s (OsSchedTaskWait h ticks q)"
  "calm H s q \<Longrightarrow> calm H s (OsSchedTaskWake t q)"
  "calm H s q \<Longrightarrow> calm H s (snd (OsSchedModifyTaskSchedParam t p q))"
  "calm H s q \<Longrightarrow> calm H s (OsSchedTaskExit t q)"
  by (auto simp: OsSchedWakePendTimeTask_def OsSchedTaskWait_def OsSchedTaskWake_def
      OsSchedModifyTaskSchedParam_def OsSchedTaskExit_def Let_def intro!: calm_intros)

lemma calm_scan [calm_intros]:
  "calm H s q \<Longrightarrow> calm H s (snd (scan_timer_list now need q))"
proof (induction "length (sortLink (g_taskSortLink q))" arbitrary: need q rule: less_induct)
  case less
  define t where "t = hd (sortLink (g_taskSortLink q))"
  define q' where "q' = snd (OsSchedWakePendTimeTask now t need (pop_timed t q))"
  have "calm H s q'"
    unfolding q'_def pop_timed_def using less.prems by (intro calm_intros)
  moreover have "length (sortLink (g_taskSortLink q')) < length (sortLink (g_taskSortLink q))"
    if "sortLink (g_taskSortLink q) \<noteq> []"
    using that by (simp add: q'_def pop_timed_def t_def length_remove1)
  ultimately show ?case
    using less by (subst scan_step) (auto simp: Let_def q'_def t_def)
qed

lemma calm_ScanTimerList [calm_intros]: "calm H s q \<Longrightarrow> calm H s (snd (OsSchedScanTimerList q))"
  by (auto simp: OsSchedScanTimerList_def case_prod_beta intro!: calm_intros)

lemma calm_if:
  "(b \<Longrightarrow> calm H s x) \<Longrightarrow> (\<not> b \<Longrightarrow> calm H s y) \<Longrightarrow> calm H s (if b then x else y)"
  by simp

lemma calm_switch [calm_intros]:
  assumes "calm H s q" shows "calm H s (HalPendSV q)"
proof -
  let ?q = "q\<lparr>pendSV := False\<rparr>"
  obtain start rid endt where eq: "OsSchedTaskSwitch ?q =
    (let s2 = switch_place (runTask ?q) (switch_account ?q); new = OsGetTopTask s2
     in (runTask ?q \<noteq> new, OsSchedSetNextExpireTime start rid endt
           (OsSchedTaskDeQueue new (switch_flags (runTask ?q) new (s2\<lparr>newTask := new\<rparr>)))))"
    using OsSchedTaskSwitch_eq by blast
  have "calm H s (switch_account ?q)"
    using assms unfolding switch_account_def by (intro calm_intros)
  then have "calm H s (switch_place run (switch_account ?q))" for run
    unfolding switch_place_def by (intro calm_if calm_intros)
  then have "calm H s (switch_flags run new ((switch_place run (switch_account ?q))\<lparr>newTask := new\<rparr>))"
    for run new
    unfolding switch_flags_def Let_def by (intro calm_if calm_intros)
  then show ?thesis
    unfolding HalPendSV_def eq Let_def prod.case by (intro calm_if calm_intros)
qed

lemma calm_TickHandler:
  assumes "calm H s q" "\<And>f r. swtmrScan = Some f \<Longrightarrow> calm H s r \<Longrightarrow> calm H s (snd (f r))"
  shows "calm H s (LOS_SchedTickHandler swtmrScan q)"
proof -
  have scan: "calm H s r \<Longrightarrow>
      calm H s (snd (case swtmrScan of None \<Rightarrow> (False, r) | Some scan \<Rightarrow> scan r))" for r
    using assms(2) by (cases swtmrScan) auto
  have "LOS_SchedTickHandler swtmrScan q =
    (let s0 = LOS_ASSERT ASSERT_TICK_SCHEDULED (g_taskScheduled q) q;
         r = (case swtmrScan of None \<Rightarrow> (False, s0) | Some scan \<Rightarrow> scan s0);
         s2 = (if g_schedResponseID s0 = OS_INVALID then snd (OsSchedScanTimerList (snd r)) else s0);
         need = (g_schedResponseID s0 = OS_INVALID \<and> (fst r \<or> fst (OsSchedScanTimerList (snd r))));
         s3 = s2\<lparr>g_schedResponseTime := OS_SCHED_MAX_RESPONSE_TIME\<rparr>;
         c = OsGetCurrSchedTimeCycle s3
     in if need \<and> g_losTaskLock s3 = 0 then HalTaskSchedule s3
        else OsSchedUpdateExpireTime (fst c) (OsTimeSliceUpdate (runTask (snd c)) (fst c) (snd c)))"
    by (cases "g_schedResponseID (LOS_ASSERT ASSERT_TICK_SCHEDULED (g_taskScheduled q) q) = OS_INVALID")
      (simp_all add: LOS_SchedTickHandler_def Let_def case_prod_beta)
  then show ?thesis
    unfolding Let_def by (simp only:) (intro calm_if calm_intros scan assms(1))
qed

section \<open>The task services\<close>

lemma calm_recycle: "calm H s q \<Longrightarrow> calm H s (recycle_loop n q)"
proof (induction n arbitrary: q)
  case (Suc n)
  have "calm H s (recycle_one t q)" for t
    using Suc.prems by (auto simp: recycle_one_def Let_def intro!: calm_intros)
  then show ?case using Suc by simp
qed simp

lemma calm_Recycle [calm_intros]: "calm H s q \<Longrightarrow> calm H s (OsRecyleFinishedTask q)"
  by (simp add: OsRecyleFinishedTask_def calm_recycle)

lemma calm_create [calm_intros]:
  assumes "calm H s q"
  shows "calm H s (snd (snd (LOS_TaskCreateOnly idNull param mem q)))"
    and "calm H s (snd (snd (LOS_TaskCreate idNull param mem q)))"
proof -
  show c: "calm H s (snd (snd (LOS_TaskCreateOnly idNull param mem q)))"
    using assms
    by (auto simp: LOS_TaskCreateOnly_def OsNewTaskInit_def Let_def case_prod_beta intro!: calm_intros)
  show "calm H s (snd (snd (LOS_TaskCreate idNull param mem q)))"
    using c by (auto simp: LOS_TaskCreate_def Let_def case_prod_beta intro!: calm_intros)
qed

lemma calm_delete [calm_intros]: "calm H s q \<Longrightarrow> calm H s (snd (LOS_TaskDelete t q))"
  unfolding LOS_TaskDelete_def OsRunningTaskDelete_def Let_def
  by (auto intro!: calm_intros)

lemma calm_suspend [calm_intros]:
  "calm H s q \<Longrightarrow> calm H s (snd (LOS_TaskSuspend t q))"
  "calm H s q \<Longrightarrow> calm H s (snd (LOS_TaskResume t q))"
  unfolding LOS_TaskSuspend_def LOS_TaskResume_def Let_def by (auto intro!: calm_intros)

lemma calm_services [calm_intros]:
  "calm H s q \<Longrightarrow> calm H s (snd (LOS_TaskPriSet t prio q))"
  "calm H s q \<Longrightarrow> calm H s (snd (LOS_TaskYield q))"
  "calm H s q \<Longrightarrow> calm H s (snd (LOS_TaskDelay tick q))"
  "calm H s q \<Longrightarrow> calm H s (LOS_TaskLock q)"
  "calm H s q \<Longrightarrow> calm H s (LOS_TaskUnlock q)"
  by (auto simp: LOS_TaskPriSet_def LOS_TaskYield_def LOS_TaskDelay_def LOS_TaskLock_def
      LOS_TaskUnlock_def Let_def case_prod_beta intro!: calm_intros)

end
