(* ===== verification/Pool.thy ===== *)
theory Pool
  imports Calm Errno
begin

text \<open>
  Control blocks. Semaphores, mutexes, queues and software timers each keep an array of control
  blocks and a list of the unused ones: creation takes the first, deletion puts the block back in
  front. The locale states that contract once; the component theories interpret it on their
  services.
\<close>

definition pool_ok :: "nat list \<Rightarrow> (nat \<Rightarrow> bool) \<Rightarrow> nat \<Rightarrow> bool" where
  "pool_ok free used limit \<longleftrightarrow> distinct free \<and> (\<forall>i. i \<in> set free \<longleftrightarrow> i < limit \<and> \<not> used i)"

lemma pool_okD:
  "pool_ok free used limit \<Longrightarrow> distinct free"
  "pool_ok free used limit \<Longrightarrow> i \<in> set free \<longleftrightarrow> i < limit \<and> \<not> used i"
  by (simp_all add: pool_ok_def)

lemma pool_ok_take:
  "pool_ok (i # free) used limit \<Longrightarrow> pool_ok free (used(i := True)) limit"
  unfolding pool_ok_def by (metis distinct.simps(2) fun_upd_apply set_ConsD list.set_intros)

lemma pool_ok_give:
  "pool_ok free used limit \<Longrightarrow> used i \<Longrightarrow> i < limit \<Longrightarrow> pool_ok (i # free) (used(i := False)) limit"
  unfolding pool_ok_def by auto

lemma pool_count:
  assumes "pool_ok free used limit"
  shows "card {i. i < limit \<and> used i} + length free = limit"
proof -
  have "card ({i. i < limit \<and> used i} \<union> set free) = card {i. i < limit \<and> used i} + card (set free)"
    using pool_okD(2) [OF assms] by (intro card_Un_disjoint) auto
  moreover have "{i. i < limit \<and> used i} \<union> set free = {..<limit}"
    using pool_okD(2) [OF assms] by auto
  ultimately show ?thesis using pool_okD(1) [OF assms] by (simp add: distinct_card)
qed

text \<open>The initialisation puts every block on the list.\<close>

lemma pool_ok_init: "(\<And>i. i < limit \<Longrightarrow> \<not> used i) \<Longrightarrow> pool_ok [0..<limit] used limit"
  by (auto simp: pool_ok_def)

lemma tail_insert_all: "fold (LOS_ListTailInsert h) xs L = L(h := L h @ xs)"
  by (induction xs arbitrary: L) (simp_all add: LOS_ListTailInsert_def)

locale control_blocks =
  fixes ok :: "'s \<Rightarrow> bool" and free :: "'s \<Rightarrow> nat list" and used :: "'s \<Rightarrow> nat \<Rightarrow> bool"
    and limit :: "'s \<Rightarrow> nat" and create :: "'s \<Rightarrow> errno \<times> nat \<times> 's"
    and destroy :: "nat \<Rightarrow> 's \<Rightarrow> errno \<times> 's"
  assumes pool: "ok s \<Longrightarrow> pool_ok (free s) (used s) (limit s)"
    and create_full: "ok s \<Longrightarrow> free s = [] \<Longrightarrow> fst (create s) \<noteq> LOS_OK"
    and create_ok: "ok s \<Longrightarrow> create s = (LOS_OK, i, s') \<Longrightarrow>
      free s = i # free s' \<and> used s' = (used s)(i := True) \<and> limit s' = limit s \<and> ok s'"
    and destroy_ok: "ok s \<Longrightarrow> destroy i s = (LOS_OK, s') \<Longrightarrow>
      i < limit s \<and> used s i \<and> free s' = i # free s \<and> used s' = (used s)(i := False) \<and>
      limit s' = limit s \<and> ok s'"
begin

text \<open>A handle that is handed out was not in use, and is within the array.\<close>

lemma create_fresh:
  assumes "ok s" "create s = (LOS_OK, i, s')"
  shows "i < limit s" "\<not> used s i" "used s' i"
  using create_ok [OF assms] pool_okD(2) [OF pool [OF assms(1)], of i] by auto

lemma create_capacity:
  assumes "ok s" "create s = (LOS_OK, i, s')"
  shows "card {j. j < limit s \<and> used s j} < limit s"
    and "card {j. j < limit s' \<and> used s' j} = Suc (card {j. j < limit s \<and> used s j})"
  using create_ok [OF assms] pool_count [OF pool [OF assms(1)]] pool_count [OF pool, of s'] by auto

lemma exhausted:
  assumes "ok s" "card {j. j < limit s \<and> used s j} = limit s"
  shows "fst (create s) \<noteq> LOS_OK"
  using create_full [OF assms(1)] pool_count [OF pool [OF assms(1)]] assms(2) by auto

text \<open>A destroyed block is the next to be handed out.\<close>

lemma destroy_create:
  assumes "ok s" "destroy i s = (LOS_OK, s')" "create s' = (LOS_OK, j, s'')"
  shows "j = i \<and> free s'' = free s \<and> used s'' = used s"
proof -
  note d = destroy_ok [OF assms(1,2)]
  then have "ok s'" by simp
  from create_ok [OF this assms(3)] d show ?thesis by (auto simp: fun_upd_idem)
qed

lemma create_destroy:
  assumes "ok s" "create s = (LOS_OK, i, s')" "destroy i s' = (LOS_OK, s'')"
  shows "free s'' = free s \<and> used s'' = used s"
proof -
  note c = create_ok [OF assms(1,2)] and f = create_fresh [OF assms(1,2)]
  then have "ok s'" by simp
  from destroy_ok [OF this assms(3)] c f show ?thesis by (auto simp: fun_upd_def)
qed

text \<open>No block is destroyed twice.\<close>

lemma destroy_twice:
  assumes "ok s" "destroy i s = (LOS_OK, s')"
  shows "fst (destroy i s') \<noteq> LOS_OK"
proof
  assume "fst (destroy i s') = LOS_OK"
  then obtain s'' where d2: "destroy i s' = (LOS_OK, s'')" by (metis prod.collapse)
  note d = destroy_ok [OF assms]
  then have "ok s'" by simp
  from destroy_ok [OF this d2] d show False by simp
qed

end

text \<open>Where creation needs nothing but a block, it succeeds as long as there is one.\<close>

locale ready_blocks = control_blocks +
  assumes create_avail: "ok s \<Longrightarrow> free s \<noteq> [] \<Longrightarrow> fst (create s) = LOS_OK"
begin

lemma create_iff:
  assumes "ok s"
  shows "fst (create s) = LOS_OK \<longleftrightarrow> card {j. j < limit s \<and> used s j} < limit s"
  using create_avail [OF assms] create_full [OF assms] pool_count [OF pool [OF assms]]
  by (cases "free s") auto

end

end
