(* ===== verification/Ipc.thy ===== *)
theory Ipc
  imports Pool
begin

text \<open>
  What the services that block and wake tasks share: the result of a call that may block, and how
  blocking the running task and waking the first waiter act on the scheduler.
\<close>

text \<open>A call returns, or blocks the running task until the resource or a timeout wakes it.\<close>

datatype outcome = Ret errno | Blocked

definition keeps_sched :: "(task_cb \<Rightarrow> task_cb) \<Rightarrow> bool" where
  "keeps_sched f \<longleftrightarrow> (\<forall>c. taskStatus (f c) = taskStatus c \<and> taskID (f c) = taskID c \<and>
    priority (f c) = priority c \<and> timeSlice (f c) = timeSlice c)"

lemma keeps_sched_fields [simp]:
  "keeps_sched (taskSem_update g)" "keeps_sched (taskMux_update g)" "keeps_sched (eventMask_update e)"
  "keeps_sched (eventMode_update e)" "keeps_sched (msg_update e)"
  "keeps_sched (\<lambda>c. c\<lparr>eventMask := m, eventMode := d\<rparr>)" "keeps_sched (\<lambda>c. c\<lparr>eventMask := m\<rparr>)"
  by (simp_all add: keeps_sched_def)

lemma keeps_schedD:
  "keeps_sched f \<Longrightarrow> taskStatus (f c) = taskStatus c" "keeps_sched f \<Longrightarrow> taskID (f c) = taskID c"
  "keeps_sched f \<Longrightarrow> priority (f c) = priority c" "keeps_sched f \<Longrightarrow> timeSlice (f c) = timeSlice c"
  by (simp_all add: keeps_sched_def)

lemma sched_inv_fields:
  assumes "sched_inv s" "keeps_sched f"
  shows "sched_inv (upd_tcb t f s)"
proof -
  have "core {runTask s} (upd_tcb t f s)"
    by (rule core_exI_same [OF sched_invD(1) [OF assms(1)]])
      (simp_all add: sched_invD [OF assms(1)] same_for_def keeps_schedD [OF assms(2)])
  moreover have "running_ok (upd_tcb t f s)"
    by (rule running_same [OF sched_invD(2) [OF assms(1)]])
      (use running_okD(2) [OF sched_invD(2) [OF assms(1)]] in \<open>auto simp: keeps_schedD [OF assms(2)]\<close>)
  ultimately show ?thesis by (simp add: sched_inv_def)
qed

lemma unblocked_fields: "keeps_sched f \<Longrightarrow> unblocked (upd_tcb t f s) = unblocked s"
  by (simp add: unblocked_def keeps_schedD)

section \<open>Blocking\<close>

lemma block_inv:
  assumes "sched_inv s" "unblocked s" "runTask s \<noteq> g_idleTaskID s" "is_wait h" "keeps_sched f"
  shows "sched_inv (LOS_Schedule (OsSchedTaskWait h ticks (upd_tcb (runTask s) f s)))"
  using sched_inv_Wait [of "upd_tcb (runTask s) f s" h ticks] sched_inv_fields [OF assms(1,5)] assms
  by (simp add: unblocked_fields)

lemma unblocked_nowhere:
  assumes "sched_inv s" "unblocked s" shows "runTask s \<notin> set (pend s h)"
proof -
  have lt: "runTask s < g_taskMaxNum s" using assms(2) by (simp add: unblocked_def)
  have "\<not> on s (runTask s) h"
    by (rule off_lists [OF sched_invD(5) [OF assms(1)] lt])
      (use assms(2) running_okD [OF sched_invD(2) [OF assms(1)]] in \<open>auto simp: unblocked_def\<close>)
  then show ?thesis by (simp add: on_def)
qed

lemma pend_Schedule [simp]: "pend (LOS_Schedule s) = pend s" "g_taskCBArray (LOS_Schedule s) = g_taskCBArray s"
  by (simp_all add: LOS_Schedule_def HalTaskSchedule_def)

lemma pend_Wait:
  "pend (OsSchedTaskWait h ticks s) = (pend s)(h := pend s h @ [runTask s])"
  by (simp add: OsSchedTaskWait_def Let_def list_defs)

section \<open>Waking\<close>

text \<open>The tasks on a wait list are pending, and not the running task when that is not blocked.\<close>

lemma waiter:
  assumes "sched_inv s" "is_wait h" "t \<in> set (pend s h)"
  shows "t < g_taskMaxNum s" "has (status s t) OS_TASK_STATUS_PEND"
    and "unblocked s \<Longrightarrow> t \<noteq> runTask s"
proof -
  have ok: "task_ok {runTask s} s t" by (rule sched_invD(5) [OF assms(1)])
  show lt: "t < g_taskMaxNum s" using on_lt [OF ok] assms(3) by (simp add: on_def)
  show "has (status s t) OS_TASK_STATUS_PEND"
    using task_okD(4) [OF ok lt] assms(2,3) by (auto simp: on_def)
  show "unblocked s \<Longrightarrow> t \<noteq> runTask s"
    using unblocked_nowhere [OF assms(1)] assms(3) by auto
qed

lemma wake_inv:
  assumes "sched_inv s" "unblocked s" "is_wait h" "t \<in> set (pend s h)" "keeps_sched f"
  shows "sched_inv (OsSchedTaskWake t (upd_tcb t f s))"
  using waiter [OF assms(1,3,4)] assms sched_inv_fields [OF assms(1,5), of t]
  by (intro sched_inv_Wake) (simp_all add: keeps_schedD)

lemma unblocked_Wake:
  assumes "sched_inv s" "unblocked s" "is_wait h" "t \<in> set (pend s h)"
  shows "unblocked (OsSchedTaskWake t s)" "runTask (OsSchedTaskWake t s) = runTask s"
  using waiter [OF assms(1,3,4)] assms(2)
  by (auto simp: unblocked_def Wake_eq Let_def EnQueue_sel)

lemma Wake_other: "u \<noteq> t \<Longrightarrow> tcb (OsSchedTaskWake t s) u = tcb s u"
  by (auto simp: Wake_eq Let_def EnQueue_sel)

lemma pend_Wake:
  assumes "sched_inv s" "is_wait h" "t \<in> set (pend s h)" "is_wait h'"
  shows "pend (OsSchedTaskWake t s) h' = (if h' = h then remove1 t (pend s h) else pend s h')"
proof -
  have "store_ok (pend s)" using sched_invD(3) [OF assms(1)] by (simp add: lists_ok_def)
  then have "LOS_ListDelete t (pend s) h' = (if h' = h then remove1 t (pend s h) else pend s h')"
    using assms(3) by (simp add: delete_on)
  then show ?thesis
    using assms(4)
    by (auto simp: Wake_eq Let_def OsSchedTaskEnQueue_def OsSchedPriQueueEnHead_def
        OsSchedPriQueueEnTail_def set_prio_bit_def list_defs)
qed

lemma pend_Wake_first:
  assumes "sched_inv s" "is_wait h" "pend s h = t # ts"
  shows "pend (OsSchedTaskWake t s) h = ts"
  using pend_Wake [OF assms(1,2) _ assms(2), of t] assms(3) by simp

section \<open>Changing a priority\<close>

text \<open>
  A change of priority moves a ready task between the ready queues; the wait lists and the status
  of the other tasks stay as they are.
\<close>

lemma pend_Modify:
  assumes "sched_inv s" "is_wait h"
  shows "pend (snd (OsSchedModifyTaskSchedParam t p s)) h = pend s h"
proof -
  have "t \<notin> set (pend s h)" if "has (status s t) OS_TASK_STATUS_READY"
    using waiter(1,2) [OF assms] task_flags(1) [OF sched_invD(5) [OF assms(1)]] that by blast
  then show ?thesis
    using assms(2)
    by (auto simp: OsSchedModifyTaskSchedParam_def Let_def OsSchedTaskEnQueue_def OsSchedTaskDeQueue_def
        OsSchedPriQueueEnHead_def OsSchedPriQueueEnTail_def OsSchedPriQueueDelete_def set_prio_bit_def
        list_defs remove1_notin)
qed

lemma Modify_sel:
  "priority (tcb (snd (OsSchedModifyTaskSchedParam t p s)) u) = (if u = t then p else priority (tcb s u))"
  "u \<noteq> t \<Longrightarrow> tcb (snd (OsSchedModifyTaskSchedParam t p s)) u = tcb s u"
  by (auto simp: OsSchedModifyTaskSchedParam_def Let_def EnQueue_sel DeQueue_sel)

lemma Modify_running:
  "\<not> has (status s t) OS_TASK_STATUS_READY \<Longrightarrow>
   snd (OsSchedModifyTaskSchedParam t p s) = upd_tcb t (priority_update (\<lambda>_. p)) s"
  by (simp add: OsSchedModifyTaskSchedParam_def Let_def)

lemma unblocked_Modify:
  assumes "sched_inv s"
  shows "unblocked (snd (OsSchedModifyTaskSchedParam t p s)) = unblocked s"
proof (cases "t = runTask s")
  case True
  with running_okD(2) [OF sched_invD(2) [OF assms]] show ?thesis
    by (simp add: Modify_running unblocked_def)
next
  case False
  then show ?thesis by (simp add: unblocked_def Modify_sel)
qed

section \<open>Running again\<close>

lemma timeout_clear_inv: "sched_inv s \<Longrightarrow> sched_inv (status_clear t OS_TASK_STATUS_TIMEOUT s)"
  by (auto simp: sched_inv_def running_ok_def intro: core_flag)

section \<open>Counters\<close>

lemma unat_dec: "0 < (w :: 'a::len word) \<Longrightarrow> unat w = Suc (unat (w - 1))"
  by (simp add: unat_gt_0 unat_minus_one word_gt_0)

lemma unat_inc:
  assumes "(w :: 'a::len word) < m" shows "unat (w + 1) = Suc (unat w)"
proof -
  have "unat m < 2 ^ LENGTH('a)" by (rule unsigned_less)
  with assms have "unat w + 1 < 2 ^ LENGTH('a)" unfolding word_less_nat_alt by linarith
  then show ?thesis by (simp add: unat_word_ariths(1))
qed

lemma dec_le: "0 < (w :: 'a::len word) \<Longrightarrow> w \<le> m \<Longrightarrow> w - 1 \<le> m"
  using unat_dec [of w] by (simp add: word_le_nat_alt)

end
