(* ===== verification/Sem.thy ===== *)
theory Sem
  imports Ipc
begin

text \<open>
  Counting and binary semaphores (\<open>kernel/src/los_sem.c\<close>). The \<open>semList\<close> node of a control block
  is a member of \<open>g_unusedSemList\<close> while the block is unused and the head of the list of the
  waiting tasks, here \<open>SemWait i\<close>, while it is used. \<open>LOS_SemPend\<close> is cut where it calls
  \<open>LOS_Schedule\<close>: the first part returns, or blocks the running task, and
  \<open>LOS_SemPend_resume\<close> is what the task does when it runs again.
\<close>

section \<open>State and operations\<close>

record sem_cb =
  semStat :: UINT16
  semCount :: UINT16
  maxSemCount :: UINT16
  semID :: nat

record sem_state = sched_state +
  g_allSem :: "nat \<Rightarrow> sem_cb"
  g_unusedSemList :: "unit store"

definition OS_SEM_UNUSED :: UINT16 where "OS_SEM_UNUSED = 0"

definition OS_SEM_USED :: UINT16 where "OS_SEM_USED = 1"

definition OS_SEM_BINARY_MAX_COUNT :: UINT16 where "OS_SEM_BINARY_MAX_COUNT = 1"

definition OS_SEM_COUNTING_MAX_COUNT :: UINT16 where "OS_SEM_COUNTING_MAX_COUNT = 0xFFFF"

definition upd_sem :: "nat \<Rightarrow> (sem_cb \<Rightarrow> sem_cb) \<Rightarrow> 'a sem_state_scheme \<Rightarrow> 'a sem_state_scheme" where
  "upd_sem i f s = s\<lparr>g_allSem := (g_allSem s)(i := f (g_allSem s i))\<rparr>"

definition OsSemInit :: "UINT32 \<Rightarrow> 'a sem_state_scheme \<Rightarrow> errno \<times> 'a sem_state_scheme" where
  "OsSemInit mem s =
    (let s = s\<lparr>g_unusedSemList := LOS_ListInit () (g_unusedSemList s)\<rparr>
     in if LOSCFG_BASE_IPC_SEM_LIMIT (cfg s) = 0 then (LOS_ERRNO_SEM_MAXNUM_ZERO, s)
     else
       let s = LOS_MemAlloc mem s
       in if mem = 0 then (LOS_ERRNO_SEM_NO_MEMORY, s)
       else (LOS_OK, fold (\<lambda>index s.
         let s = upd_sem index (\<lambda>c. c\<lparr>semID := index, semStat := OS_SEM_UNUSED\<rparr>) s
         in s\<lparr>g_unusedSemList := LOS_ListTailInsert () index (g_unusedSemList s)\<rparr>)
         [0..<LOSCFG_BASE_IPC_SEM_LIMIT (cfg s)] s))"

text \<open>\<open>handleNull\<close>: the caller passed no place for the handle.\<close>

definition OsSemCreate ::
  "UINT16 \<Rightarrow> UINT16 \<Rightarrow> bool \<Rightarrow> 'a sem_state_scheme \<Rightarrow> errno \<times> nat \<times> 'a sem_state_scheme" where
  "OsSemCreate count maxCount handleNull s =
    (if handleNull then (LOS_ERRNO_SEM_PTR_NULL, 0, s)
     else if maxCount < count then (LOS_ERRNO_SEM_OVERFLOW, 0, s)
     else if LOS_ListEmpty (g_unusedSemList s) () then (LOS_ERRNO_SEM_ALL_BUSY, 0, s)
     else
       let unusedSem = LOS_DL_LIST_FIRST (g_unusedSemList s) ();
           s = s\<lparr>g_unusedSemList := LOS_ListDelete unusedSem (g_unusedSemList s)\<rparr>;
           s = upd_sem unusedSem (\<lambda>c. c\<lparr>semCount := count, semStat := OS_SEM_USED,
                 maxSemCount := maxCount\<rparr>) s;
           s = s\<lparr>pend := LOS_ListInit (SemWait unusedSem) (pend s)\<rparr>
       in (LOS_OK, semID (g_allSem s unusedSem), s))"

definition LOS_SemCreate :: "UINT16 \<Rightarrow> bool \<Rightarrow> 'a sem_state_scheme \<Rightarrow> errno \<times> nat \<times> 'a sem_state_scheme" where
  "LOS_SemCreate count handleNull s = OsSemCreate count OS_SEM_COUNTING_MAX_COUNT handleNull s"

definition LOS_BinarySemCreate :: "UINT16 \<Rightarrow> bool \<Rightarrow> 'a sem_state_scheme \<Rightarrow> errno \<times> nat \<times> 'a sem_state_scheme" where
  "LOS_BinarySemCreate count handleNull s = OsSemCreate count OS_SEM_BINARY_MAX_COUNT handleNull s"

definition LOS_SemDelete :: "nat \<Rightarrow> 'a sem_state_scheme \<Rightarrow> errno \<times> 'a sem_state_scheme" where
  "LOS_SemDelete semHandle s =
    (if LOSCFG_BASE_IPC_SEM_LIMIT (cfg s) \<le> semHandle then (LOS_ERRNO_SEM_INVALID, s)
     else if semStat (g_allSem s semHandle) = OS_SEM_UNUSED then (LOS_ERRNO_SEM_INVALID, s)
     else if \<not> LOS_ListEmpty (pend s) (SemWait semHandle) then (LOS_ERRNO_SEM_PENDED, s)
     else
       let s = s\<lparr>g_unusedSemList := LOS_ListAdd () semHandle (g_unusedSemList s)\<rparr>
       in (LOS_OK, upd_sem semHandle (semStat_update (\<lambda>_. OS_SEM_UNUSED)) s))"

definition OsSemValidCheck :: "nat \<Rightarrow> 'a sem_state_scheme \<Rightarrow> errno" where
  "OsSemValidCheck semHandle s =
    (if semStat (g_allSem s semHandle) = OS_SEM_UNUSED then LOS_ERRNO_SEM_INVALID
     else if OS_INT_ACTIVE s then LOS_ERRNO_SEM_PEND_INTERR
     else if g_losTaskLock s \<noteq> 0 then LOS_ERRNO_SEM_PEND_IN_LOCK
     else LOS_OK)"

definition LOS_SemPend :: "nat \<Rightarrow> UINT32 \<Rightarrow> 'a sem_state_scheme \<Rightarrow> outcome \<times> 'a sem_state_scheme" where
  "LOS_SemPend semHandle timeout s =
    (if LOSCFG_BASE_IPC_SEM_LIMIT (cfg s) \<le> semHandle then (Ret LOS_ERRNO_SEM_INVALID, s)
     else
       let retErr = OsSemValidCheck semHandle s
       in if retErr \<noteq> LOS_OK then (Ret retErr, s)
       else if 0 < semCount (g_allSem s semHandle)
       then (Ret LOS_OK, upd_sem semHandle (semCount_update (\<lambda>c. c - 1)) s)
       else if timeout = LOS_NO_WAIT then (Ret LOS_ERRNO_SEM_UNAVAILABLE, s)
       else
         let s = upd_tcb (runTask s) (taskSem_update (\<lambda>_. Some semHandle)) s;
             s = OsSchedTaskWait (SemWait semHandle) timeout s
         in (Blocked, LOS_Schedule s))"

text \<open>The rest of \<open>LOS_SemPend\<close> in the task that waited.\<close>

definition LOS_SemPend_resume :: "nat \<Rightarrow> 'a sem_state_scheme \<Rightarrow> errno \<times> 'a sem_state_scheme" where
  "LOS_SemPend_resume runningTask s =
    (if has (status s runningTask) OS_TASK_STATUS_TIMEOUT
     then (LOS_ERRNO_SEM_TIMEOUT, status_clear runningTask OS_TASK_STATUS_TIMEOUT s)
     else (LOS_OK, s))"

definition LOS_SemPost :: "nat \<Rightarrow> 'a sem_state_scheme \<Rightarrow> errno \<times> 'a sem_state_scheme" where
  "LOS_SemPost semHandle s =
    (if LOSCFG_BASE_IPC_SEM_LIMIT (cfg s) \<le> semHandle then (LOS_ERRNO_SEM_INVALID, s)
     else if semStat (g_allSem s semHandle) = OS_SEM_UNUSED then (LOS_ERRNO_SEM_INVALID, s)
     else if maxSemCount (g_allSem s semHandle) = semCount (g_allSem s semHandle)
     then (LOS_ERRNO_SEM_OVERFLOW, s)
     else if \<not> LOS_ListEmpty (pend s) (SemWait semHandle) then
       let resumedTask = LOS_DL_LIST_FIRST (pend s) (SemWait semHandle);
           s = upd_tcb resumedTask (taskSem_update (\<lambda>_. None)) s;
           s = OsSchedTaskWake resumedTask s
       in (LOS_OK, LOS_Schedule s)
     else (LOS_OK, upd_sem semHandle (semCount_update (\<lambda>c. c + 1)) s))"

end
