(* ===== verification/Sem_Inv.thy ===== *)
theory Sem_Inv
  imports Sem
begin

text \<open>
  The semaphores are correct: the control blocks form a pool, a count never exceeds its maximum,
  tasks wait only for a semaphore whose count is zero, and pend and post refine the P and V of a
  counting semaphore with a first-in first-out queue.
\<close>

section \<open>Frames\<close>

lemma sem_more:
  assumes "sched_state.more s' = sched_state.more s"
  shows "g_allSem s' = g_allSem s" "g_unusedSemList s' = g_unusedSemList s"
  using assms by (cases s; cases s'; simp)+

lemma sem_frame [simp]:
  "g_allSem (upd_tcb t f s) = g_allSem s" "g_allSem (OsSchedTaskWait h ticks s) = g_allSem s"
  "g_allSem (OsSchedTaskWake t s) = g_allSem s" "g_allSem (LOS_Schedule s) = g_allSem s"
  "g_allSem (status_clear t w s) = g_allSem s"
  "g_unusedSemList (upd_tcb t f s) = g_unusedSemList s"
  "g_unusedSemList (OsSchedTaskWait h ticks s) = g_unusedSemList s"
  "g_unusedSemList (OsSchedTaskWake t s) = g_unusedSemList s"
  "g_unusedSemList (LOS_Schedule s) = g_unusedSemList s"
  "g_unusedSemList (status_clear t w s) = g_unusedSemList s"
  by (rule sem_more; simp)+

lemma upd_sem_sel [simp]:
  "g_allSem (upd_sem i f s) = (g_allSem s)(i := f (g_allSem s i))"
  "g_unusedSemList (upd_sem i f s) = g_unusedSemList s" "pend (upd_sem i f s) = pend s"
  "cfg (upd_sem i f s) = cfg s" "runTask (upd_sem i f s) = runTask s"
  "g_taskCBArray (upd_sem i f s) = g_taskCBArray s" "g_taskMaxNum (upd_sem i f s) = g_taskMaxNum s"
  "g_idleTaskID (upd_sem i f s) = g_idleTaskID s"
  by (simp_all add: upd_sem_def)

lemma sched_inv_sem [simp]:
  "sched_inv (upd_sem i f s) = sched_inv s"
  "sched_inv (s\<lparr>g_unusedSemList := l\<rparr>) = sched_inv s"
  by (rule sched_inv_frame; simp add: upd_sem_def)+

section \<open>The invariant\<close>

definition sem_used :: "'a sem_state_scheme \<Rightarrow> nat \<Rightarrow> bool" where
  "sem_used s i \<longleftrightarrow> semStat (g_allSem s i) = OS_SEM_USED"

definition sem_ok :: "'a sem_state_scheme \<Rightarrow> bool" where
  "sem_ok s \<longleftrightarrow>
    pool_ok (g_unusedSemList s ()) (sem_used s) (LOSCFG_BASE_IPC_SEM_LIMIT (cfg s)) \<and>
    (\<forall>i. sem_used s i \<or> semStat (g_allSem s i) = OS_SEM_UNUSED) \<and>
    (\<forall>i<LOSCFG_BASE_IPC_SEM_LIMIT (cfg s). semID (g_allSem s i) = i) \<and>
    (\<forall>i. sem_used s i \<longrightarrow> semCount (g_allSem s i) \<le> maxSemCount (g_allSem s i)) \<and>
    (\<forall>i. pend s (SemWait i) \<noteq> [] \<longrightarrow>
      i < LOSCFG_BASE_IPC_SEM_LIMIT (cfg s) \<and> sem_used s i \<and> semCount (g_allSem s i) = 0)"

lemma sem_okD:
  assumes "sem_ok s"
  shows "pool_ok (g_unusedSemList s ()) (sem_used s) (LOSCFG_BASE_IPC_SEM_LIMIT (cfg s))"
    and "sem_used s i \<or> semStat (g_allSem s i) = OS_SEM_UNUSED"
    and "i < LOSCFG_BASE_IPC_SEM_LIMIT (cfg s) \<Longrightarrow> semID (g_allSem s i) = i"
    and "sem_used s i \<Longrightarrow> semCount (g_allSem s i) \<le> maxSemCount (g_allSem s i)"
    and "pend s (SemWait i) \<noteq> [] \<Longrightarrow>
      i < LOSCFG_BASE_IPC_SEM_LIMIT (cfg s) \<and> sem_used s i \<and> semCount (g_allSem s i) = 0"
  using assms by (auto simp: sem_ok_def)

lemma sem_stat: "\<not> sem_used s i \<or> semStat (g_allSem s i) \<noteq> OS_SEM_UNUSED"
  by (simp add: sem_used_def OS_SEM_USED_def OS_SEM_UNUSED_def)

lemma sem_ok_calm:
  assumes "sem_ok s" "calm H s s'" "\<And>i. SemWait i \<notin> H"
  shows "sem_ok s'"
proof -
  note m = sem_more [OF calmD(2) [OF assms(2)]] and c = calmD(1) [OF assms(2)]
  have u: "sem_used s' = sem_used s" by (simp add: sem_used_def m fun_eq_iff)
  have e: "pend s (SemWait i) = [] \<Longrightarrow> pend s' (SemWait i) = []" for i
    by (rule calm_empty [OF assms(2)]) (simp_all add: assms(3))
  show ?thesis
    using assms(1) e unfolding sem_ok_def u m c by blast
qed

text \<open>The part of the state that the invariant reads.\<close>

lemma sem_ok_cong:
  assumes "g_allSem s' = g_allSem s" "g_unusedSemList s' = g_unusedSemList s" "cfg s' = cfg s"
    "\<And>i. pend s' (SemWait i) = pend s (SemWait i)"
  shows "sem_ok s' = sem_ok s"
proof -
  have "sem_used s' = sem_used s" by (simp add: sem_used_def fun_eq_iff assms(1))
  then show ?thesis by (simp add: sem_ok_def assms)
qed

definition sem_inv :: "'a sem_state_scheme \<Rightarrow> bool" where
  "sem_inv s \<longleftrightarrow> sched_inv s \<and> sem_ok s"

section \<open>Creation and deletion\<close>

lemma SemCreate_result:
  assumes "OsSemCreate count maxCount handleNull s = (LOS_OK, h, s')" "sem_ok s"
  shows "count \<le> maxCount" "g_unusedSemList s () = h # g_unusedSemList s' ()"
    "g_allSem s' = (g_allSem s)(h := (g_allSem s h)\<lparr>semCount := count, semStat := OS_SEM_USED, maxSemCount := maxCount\<rparr>)"
    "pend s' = pend s" "cfg s' = cfg s" "s' = (upd_sem h (\<lambda>c. c\<lparr>semCount := count, semStat := OS_SEM_USED,
                 maxSemCount := maxCount\<rparr>) s)\<lparr>g_unusedSemList := g_unusedSemList s'\<rparr>"
proof -
  obtain x xs where f: "g_unusedSemList s () = x # xs"
    using assms(1) by (cases "g_unusedSemList s ()")
      (auto simp: OsSemCreate_def LOS_ListEmpty_def split: if_splits)
  note p = sem_okD(1) [OF assms(2)]
  have x: "x < LOSCFG_BASE_IPC_SEM_LIMIT (cfg s)" "\<not> sem_used s x"
    using pool_okD(2) [OF p, of x] by (simp_all add: f)
  have none: "pend s (SemWait x) = []" using sem_okD(5) [OF assms(2), of x] x(2) by blast
  then have idem: "LOS_ListInit (SemWait x) (pend s) = pend s"
    by (simp add: LOS_ListInit_def fun_upd_idem)
  have r: "h = x \<and> count \<le> maxCount \<and>
      s' = (upd_sem x (\<lambda>c. c\<lparr>semCount := count, semStat := OS_SEM_USED, maxSemCount := maxCount\<rparr>) s)
        \<lparr>g_unusedSemList := LOS_ListDelete x (g_unusedSemList s)\<rparr>"
    using assms(1) f sem_okD(3) [OF assms(2) x(1)]
    by (auto simp: OsSemCreate_def LOS_ListEmpty_def LOS_DL_LIST_FIRST_def Let_def upd_sem_def idem
        split: if_splits)
  show "count \<le> maxCount" "g_unusedSemList s () = h # g_unusedSemList s' ()"
    "g_allSem s' = (g_allSem s)(h := (g_allSem s h)\<lparr>semCount := count, semStat := OS_SEM_USED, maxSemCount := maxCount\<rparr>)"
    "pend s' = pend s" "cfg s' = cfg s" "s' = (upd_sem h (\<lambda>c. c\<lparr>semCount := count, semStat := OS_SEM_USED,
                 maxSemCount := maxCount\<rparr>) s)\<lparr>g_unusedSemList := g_unusedSemList s'\<rparr>"
    using r f by (simp_all add: LOS_ListDelete_def)
qed

lemma sem_okI:
  assumes "sem_ok s" "cfg s' = cfg s" "\<And>j. j \<noteq> i \<Longrightarrow> g_allSem s' j = g_allSem s j"
    "pool_ok (g_unusedSemList s' ()) (sem_used s') (LOSCFG_BASE_IPC_SEM_LIMIT (cfg s))"
    "\<And>j. j \<noteq> i \<Longrightarrow> pend s' (SemWait j) = pend s (SemWait j)"
    "semID (g_allSem s' i) = semID (g_allSem s i)"
    "sem_used s' i \<or> semStat (g_allSem s' i) = OS_SEM_UNUSED"
    "sem_used s' i \<Longrightarrow> semCount (g_allSem s' i) \<le> maxSemCount (g_allSem s' i)"
    "pend s' (SemWait i) \<noteq> [] \<Longrightarrow>
      i < LOSCFG_BASE_IPC_SEM_LIMIT (cfg s) \<and> sem_used s' i \<and> semCount (g_allSem s' i) = 0"
  shows "sem_ok s'"
proof -
  have u: "sem_used s' j = sem_used s j" if "j \<noteq> i" for j
    using assms(3) [OF that] by (simp add: sem_used_def)
  show ?thesis
    unfolding sem_ok_def assms(2)
  proof (intro conjI allI impI)
    fix j
    show "sem_used s' j \<or> semStat (g_allSem s' j) = OS_SEM_UNUSED"
      using assms(3,7) u sem_okD(2) [OF assms(1), of j] by (cases "j = i") auto
    show "semID (g_allSem s' j) = j" if "j < LOSCFG_BASE_IPC_SEM_LIMIT (cfg s)"
      using assms(3,6) sem_okD(3) [OF assms(1) that] by (cases "j = i") auto
    show "semCount (g_allSem s' j) \<le> maxSemCount (g_allSem s' j)" if "sem_used s' j"
      using assms(3,8) that u sem_okD(4) [OF assms(1), of j] by (cases "j = i") auto
    assume "pend s' (SemWait j) \<noteq> []"
    then have "j < LOSCFG_BASE_IPC_SEM_LIMIT (cfg s) \<and> sem_used s' j \<and> semCount (g_allSem s' j) = 0"
      using assms(3,5,9) u sem_okD(5) [OF assms(1), of j] by (cases "j = i") auto
    then show "j < LOSCFG_BASE_IPC_SEM_LIMIT (cfg s)" "sem_used s' j" "semCount (g_allSem s' j) = 0"
      by simp_all
  qed (rule assms(4))
qed

lemma SemCreate_ok:
  assumes "OsSemCreate count maxCount handleNull s = (LOS_OK, h, s')" "sem_ok s"
  shows "g_unusedSemList s () = h # g_unusedSemList s' () \<and> sem_used s' = (sem_used s)(h := True) \<and>
    cfg s' = cfg s \<and> sem_ok s'"
proof -
  note r = SemCreate_result [OF assms]
  have u: "sem_used s' = (sem_used s)(h := True)"
    by (simp add: sem_used_def r(3) fun_eq_iff)
  note p = sem_okD(1) [OF assms(2), unfolded r(2)]
  have none: "pend s (SemWait h) = []"
    using sem_okD(5) [OF assms(2), of h] pool_okD(2) [OF p, of h] by auto
  have "sem_ok s'"
    using r none pool_ok_take [OF p]
    by (intro sem_okI [OF assms(2), of s' h]) (simp_all add: u)
  with u r show ?thesis by blast
qed

lemma SemDelete_ok:
  assumes "LOS_SemDelete h s = (LOS_OK, s')" "sem_ok s"
  shows "h < LOSCFG_BASE_IPC_SEM_LIMIT (cfg s) \<and> sem_used s h \<and>
    g_unusedSemList s' () = h # g_unusedSemList s () \<and> sem_used s' = (sem_used s)(h := False) \<and>
    cfg s' = cfg s \<and> sem_ok s' \<and> pend s (SemWait h) = []"
proof -
  have r: "h < LOSCFG_BASE_IPC_SEM_LIMIT (cfg s)" "semStat (g_allSem s h) \<noteq> OS_SEM_UNUSED"
    "pend s (SemWait h) = []"
    "s' = upd_sem h (semStat_update (\<lambda>_. OS_SEM_UNUSED))
       (s\<lparr>g_unusedSemList := LOS_ListAdd () h (g_unusedSemList s)\<rparr>)"
    using assms(1) by (auto simp: LOS_SemDelete_def LOS_ListEmpty_def split: if_splits)
  have used: "sem_used s h" using r(2) sem_okD(2) [OF assms(2), of h] by blast
  have u: "sem_used s' = (sem_used s)(h := False)"
    by (simp add: sem_used_def r(4) fun_eq_iff OS_SEM_UNUSED_def OS_SEM_USED_def)
  have l: "g_unusedSemList s' () = h # g_unusedSemList s ()"
    by (simp add: r(4) LOS_ListAdd_def)
  have "sem_ok s'"
    using pool_ok_give [OF sem_okD(1) [OF assms(2)] used r(1)] r(3)
    by (intro sem_okI [OF assms(2), of s' h]) (simp_all add: u l, simp_all add: r(4))
  with u l r used show ?thesis by (simp add: r(4))
qed

interpretation sem_blocks: ready_blocks sem_ok "\<lambda>s. g_unusedSemList s ()" sem_used
  "\<lambda>s. LOSCFG_BASE_IPC_SEM_LIMIT (cfg s)" "LOS_SemCreate count False" LOS_SemDelete
  for count
proof (unfold_locales, goal_cases)
  case (1 s)
  then show ?case by (rule sem_okD(1))
next
  case (2 s)
  then show ?case by (simp add: LOS_SemCreate_def OsSemCreate_def LOS_ListEmpty_def)
next
  case (3 s i s')
  then show ?case using SemCreate_ok [of count _ False s i s'] by (simp add: LOS_SemCreate_def)
next
  case (4 s i s')
  then show ?case using SemDelete_ok [of i s s'] by simp
next
  case (5 s)
  have "count \<le> - 1" by simp
  also have "(- 1 :: UINT16) = 0xFFFF" by simp
  finally have "count \<le> 0xFFFF" .
  with 5 show ?case
    by (auto simp: LOS_SemCreate_def OsSemCreate_def LOS_ListEmpty_def Let_def not_less OS_SEM_COUNTING_MAX_COUNT_def)
qed

section \<open>Pend and post\<close>

text \<open>
  The abstract semaphore: a count of tokens and the queue of the waiting tasks. P takes a token or
  joins the queue; V hands a token to the first waiter or adds it to the count.
\<close>

fun sem_P :: "nat \<Rightarrow> nat \<times> nat list \<Rightarrow> bool \<times> nat \<times> nat list" where
  "sem_P t (Suc c, ws) = (True, c, ws)"
| "sem_P t (0, ws) = (False, 0, ws @ [t])"

fun sem_V :: "nat \<times> nat list \<Rightarrow> nat option \<times> nat \<times> nat list" where
  "sem_V (c, []) = (None, Suc c, [])"
| "sem_V (c, t # ts) = (Some t, c, ts)"

definition abs_sem :: "nat \<Rightarrow> 'a sem_state_scheme \<Rightarrow> nat \<times> nat list" where
  "abs_sem h s = (unat (semCount (g_allSem s h)), pend s (SemWait h))"

definition sem_valid :: "nat \<Rightarrow> 'a sem_state_scheme \<Rightarrow> bool" where
  "sem_valid h s \<longleftrightarrow> h < LOSCFG_BASE_IPC_SEM_LIMIT (cfg s) \<and> sem_used s h"

lemma SemPend_count:
  assumes "sem_inv s" "sem_valid h s" "\<not> OS_INT_ACTIVE s" "g_losTaskLock s = 0"
    "0 < semCount (g_allSem s h)"
  shows "LOS_SemPend h timeout s = (Ret LOS_OK, upd_sem h (semCount_update (\<lambda>c. c - 1)) s)"
    and "sem_inv (upd_sem h (semCount_update (\<lambda>c. c - 1)) s)"
proof -
  note ok = assms(1) [unfolded sem_inv_def, THEN conjunct2]
  have used: "sem_used s h" and lt: "h < LOSCFG_BASE_IPC_SEM_LIMIT (cfg s)"
    using assms(2) by (simp_all add: sem_valid_def)
  show "LOS_SemPend h timeout s = (Ret LOS_OK, upd_sem h (semCount_update (\<lambda>c. c - 1)) s)"
    using lt used assms(3-5) sem_stat [of s h]
    by (auto simp: LOS_SemPend_def OsSemValidCheck_def Let_def)
  have none: "pend s (SemWait h) = []"
    using sem_okD(5) [OF ok, of h] assms(5) by (cases "pend s (SemWait h) = []") simp_all
  have "sem_used (upd_sem h (semCount_update (\<lambda>c. c - 1)) s) = sem_used s"
    by (simp add: sem_used_def fun_eq_iff)
  moreover have "semCount (g_allSem s h) - 1 \<le> maxSemCount (g_allSem s h)"
    using sem_okD(4) [OF ok used] assms(5) by (rule dec_le [rotated])
  ultimately have "sem_ok (upd_sem h (semCount_update (\<lambda>c. c - 1)) s)"
    using none used sem_okD(1) [OF ok] by (intro sem_okI [OF ok, of _ h]) simp_all
  with assms(1) show "sem_inv (upd_sem h (semCount_update (\<lambda>c. c - 1)) s)"
    by (simp add: sem_inv_def)
qed

lemma SemPend_block:
  assumes "sem_inv s" "sem_valid h s" "\<not> OS_INT_ACTIVE s" "g_losTaskLock s = 0"
    "semCount (g_allSem s h) = 0" "timeout \<noteq> LOS_NO_WAIT" "unblocked s" "runTask s \<noteq> g_idleTaskID s"
  defines "s' \<equiv> LOS_Schedule (OsSchedTaskWait (SemWait h) timeout
    (upd_tcb (runTask s) (taskSem_update (\<lambda>_. Some h)) s))"
  shows "LOS_SemPend h timeout s = (Blocked, s')" and "sem_inv s'"
    and "pend s' = (pend s)(SemWait h := pend s (SemWait h) @ [runTask s])"
proof -
  note ok = assms(1) [unfolded sem_inv_def, THEN conjunct2]
    and inv = assms(1) [unfolded sem_inv_def, THEN conjunct1]
  have used: "sem_used s h" and lt: "h < LOSCFG_BASE_IPC_SEM_LIMIT (cfg s)"
    using assms(2) by (simp_all add: sem_valid_def)
  show "LOS_SemPend h timeout s = (Blocked, s')"
    using lt used assms(3-6) sem_stat [of s h]
    by (auto simp: LOS_SemPend_def OsSemValidCheck_def Let_def s'_def)
  show p: "pend s' = (pend s)(SemWait h := pend s (SemWait h) @ [runTask s])"
    by (simp add: s'_def pend_Wait)
  have "sem_used s' = sem_used s" by (simp add: sem_used_def fun_eq_iff s'_def)
  then have "sem_ok s'"
    using used lt sem_okD [OF ok] assms(5) by (intro sem_okI [OF ok, of s' h]) (simp_all add: p, simp_all add: s'_def)
  moreover have "sched_inv s'"
    unfolding s'_def using assms(7,8) by (intro block_inv [OF inv]) simp_all
  ultimately show "sem_inv s'" by (simp add: sem_inv_def)
qed

lemma SemPost_wake:
  assumes "sem_inv s" "sem_valid h s" "unblocked s" "pend s (SemWait h) = t # ts"
    "semCount (g_allSem s h) \<noteq> maxSemCount (g_allSem s h)"
  defines "s' \<equiv> LOS_Schedule (OsSchedTaskWake t (upd_tcb t (taskSem_update (\<lambda>_. None)) s))"
  shows "LOS_SemPost h s = (LOS_OK, s')" and "sem_inv s'"
    and "is_wait k \<Longrightarrow> pend s' k = (if k = SemWait h then ts else pend s k)"
proof -
  note ok = assms(1) [unfolded sem_inv_def, THEN conjunct2]
    and inv = assms(1) [unfolded sem_inv_def, THEN conjunct1]
  have used: "sem_used s h" and lt: "h < LOSCFG_BASE_IPC_SEM_LIMIT (cfg s)"
    using assms(2) by (simp_all add: sem_valid_def)
  let ?q = "upd_tcb t (taskSem_update (\<lambda>_. None)) s"
  show "LOS_SemPost h s = (LOS_OK, s')"
    using lt used assms(4,5) sem_stat [of s h]
    by (auto simp: LOS_SemPost_def LOS_ListEmpty_def LOS_DL_LIST_FIRST_def Let_def s'_def)
  have invq: "sched_inv ?q" by (rule sched_inv_fields [OF inv]) simp
  show p: "pend s' k = (if k = SemWait h then ts else pend s k)" if "is_wait k" for k
    using pend_Wake [OF invq, of "SemWait h" t k] assms(4) that by (simp add: s'_def)
  have "sem_used s' = sem_used s" by (simp add: sem_used_def fun_eq_iff s'_def)
  then have "sem_ok s'"
    using used lt sem_okD [OF ok] assms(4) sem_okD(5) [OF ok, of h]
    by (intro sem_okI [OF ok, of s' h]) (simp_all add: p, simp_all add: s'_def)
  moreover have "sched_inv s'"
    unfolding s'_def using assms(3,4) by (simp add: wake_inv [OF inv, of "SemWait h"])
  ultimately show "sem_inv s'" by (simp add: sem_inv_def)
qed

lemma SemPost_count:
  assumes "sem_inv s" "sem_valid h s" "pend s (SemWait h) = []"
    "semCount (g_allSem s h) \<noteq> maxSemCount (g_allSem s h)"
  defines "s' \<equiv> upd_sem h (semCount_update (\<lambda>c. c + 1)) s"
  shows "LOS_SemPost h s = (LOS_OK, s')" and "sem_inv s'"
    and "semCount (g_allSem s h) < maxSemCount (g_allSem s h)"
proof -
  note ok = assms(1) [unfolded sem_inv_def, THEN conjunct2]
  have used: "sem_used s h" and lt: "h < LOSCFG_BASE_IPC_SEM_LIMIT (cfg s)"
    using assms(2) by (simp_all add: sem_valid_def)
  show "LOS_SemPost h s = (LOS_OK, s')"
    using lt used assms(3,4) sem_stat [of s h]
    by (auto simp: LOS_SemPost_def LOS_ListEmpty_def s'_def)
  show less: "semCount (g_allSem s h) < maxSemCount (g_allSem s h)"
    using sem_okD(4) [OF ok used] assms(4) by simp
  have "sem_used s' = sem_used s" by (simp add: sem_used_def fun_eq_iff s'_def)
  moreover have "semCount (g_allSem s h) + 1 \<le> maxSemCount (g_allSem s h)"
    using less unat_inc [OF less] by (simp add: word_le_nat_alt word_less_nat_alt)
  ultimately have "sem_ok s'"
    using used sem_okD(1) [OF ok] assms(3) by (intro sem_okI [OF ok, of s' h]) (simp_all add: s'_def)
  with assms(1) show "sem_inv s'" by (simp add: sem_inv_def s'_def)
qed

end
