(* ===== verification/Mux.thy ===== *)
theory Mux
  imports Sem_Inv
begin

text \<open>
  Recursive mutexes with priority inheritance (\<open>kernel/src/los_mux.c\<close>). As for the semaphores,
  the \<open>muxList\<close> node of a control block is a member of \<open>g_unusedMuxList\<close> or the head of the
  list \<open>MuxWait i\<close>, and \<open>LOS_MuxPend\<close> is cut where the task blocks. The field \<open>priority\<close> of
  the control block is \<open>muxPriority\<close> here; it holds the priority the owner gets back.
\<close>

record mux_cb =
  muxStat :: UINT8
  muxCount :: UINT16
  muxID :: nat
  owner :: "nat option"
  muxPriority :: nat

record mux_state = sem_state +
  g_allMux :: "nat \<Rightarrow> mux_cb"
  g_unusedMuxList :: "unit store"

definition OS_MUX_UNUSED :: UINT8 where "OS_MUX_UNUSED = 0"

definition OS_MUX_USED :: UINT8 where "OS_MUX_USED = 1"

definition upd_mux :: "nat \<Rightarrow> (mux_cb \<Rightarrow> mux_cb) \<Rightarrow> 'a mux_state_scheme \<Rightarrow> 'a mux_state_scheme" where
  "upd_mux i f s = s\<lparr>g_allMux := (g_allMux s)(i := f (g_allMux s i))\<rparr>"

definition OsMuxInit :: "UINT32 \<Rightarrow> 'a mux_state_scheme \<Rightarrow> errno \<times> 'a mux_state_scheme" where
  "OsMuxInit mem s =
    (let s = s\<lparr>g_unusedMuxList := LOS_ListInit () (g_unusedMuxList s)\<rparr>
     in if LOSCFG_BASE_IPC_MUX_LIMIT (cfg s) = 0 then (LOS_ERRNO_MUX_MAXNUM_ZERO, s)
     else
       let s = LOS_MemAlloc mem s
       in if mem = 0 then (LOS_ERRNO_MUX_NO_MEMORY, s)
       else (LOS_OK, fold (\<lambda>index s.
         let s = upd_mux index (\<lambda>c. c\<lparr>muxID := index, muxStat := OS_MUX_UNUSED\<rparr>) s
         in s\<lparr>g_unusedMuxList := LOS_ListTailInsert () index (g_unusedMuxList s)\<rparr>)
         [0..<LOSCFG_BASE_IPC_MUX_LIMIT (cfg s)] s))"

definition LOS_MuxCreate :: "bool \<Rightarrow> 'a mux_state_scheme \<Rightarrow> errno \<times> nat \<times> 'a mux_state_scheme" where
  "LOS_MuxCreate handleNull s =
    (if handleNull then (LOS_ERRNO_MUX_PTR_NULL, 0, s)
     else if LOS_ListEmpty (g_unusedMuxList s) () then (LOS_ERRNO_MUX_ALL_BUSY, 0, s)
     else
       let unusedMux = LOS_DL_LIST_FIRST (g_unusedMuxList s) ();
           s = s\<lparr>g_unusedMuxList := LOS_ListDelete unusedMux (g_unusedMuxList s)\<rparr>;
           s = upd_mux unusedMux (\<lambda>c. c\<lparr>muxCount := 0, muxStat := OS_MUX_USED, muxPriority := 0,
                 owner := None\<rparr>) s;
           s = s\<lparr>pend := LOS_ListInit (MuxWait unusedMux) (pend s)\<rparr>
       in (LOS_OK, muxID (g_allMux s unusedMux), s))"

definition LOS_MuxDelete :: "nat \<Rightarrow> 'a mux_state_scheme \<Rightarrow> errno \<times> 'a mux_state_scheme" where
  "LOS_MuxDelete muxHandle s =
    (if LOSCFG_BASE_IPC_MUX_LIMIT (cfg s) \<le> muxHandle then (LOS_ERRNO_MUX_INVALID, s)
     else if muxStat (g_allMux s muxHandle) = OS_MUX_UNUSED then (LOS_ERRNO_MUX_INVALID, s)
     else if \<not> LOS_ListEmpty (pend s) (MuxWait muxHandle) \<or> muxCount (g_allMux s muxHandle) \<noteq> 0
     then (LOS_ERRNO_MUX_PENDED, s)
     else
       let s = s\<lparr>g_unusedMuxList := LOS_ListAdd () muxHandle (g_unusedMuxList s)\<rparr>
       in (LOS_OK, upd_mux muxHandle (muxStat_update (\<lambda>_. OS_MUX_UNUSED)) s))"

definition OsMuxValidCheck :: "nat \<Rightarrow> 'a mux_state_scheme \<Rightarrow> errno" where
  "OsMuxValidCheck muxHandle s =
    (if muxStat (g_allMux s muxHandle) = OS_MUX_UNUSED then LOS_ERRNO_MUX_INVALID
     else if OS_INT_ACTIVE s then LOS_ERRNO_MUX_PEND_INTERR
     else if g_losTaskLock s \<noteq> 0 then LOS_ERRNO_MUX_PEND_IN_LOCK
     else LOS_OK)"

text \<open>
  When the task has to wait, an owner of lower priority (a greater number) inherits its priority.
\<close>

definition LOS_MuxPend :: "nat \<Rightarrow> UINT32 \<Rightarrow> 'a mux_state_scheme \<Rightarrow> outcome \<times> 'a mux_state_scheme" where
  "LOS_MuxPend muxHandle timeout s =
    (if LOSCFG_BASE_IPC_MUX_LIMIT (cfg s) \<le> muxHandle then (Ret LOS_ERRNO_MUX_INVALID, s)
     else
       let retErr = OsMuxValidCheck muxHandle s
       in if retErr \<noteq> LOS_OK then (Ret retErr, s)
       else
         let runningTask = runTask s
         in if muxCount (g_allMux s muxHandle) = 0
         then (Ret LOS_OK, upd_mux muxHandle (\<lambda>c. c\<lparr>muxCount := muxCount c + 1,
                 owner := Some runningTask, muxPriority := priority (tcb s runningTask)\<rparr>) s)
         else if owner (g_allMux s muxHandle) = Some runningTask
         then (Ret LOS_OK, upd_mux muxHandle (muxCount_update (\<lambda>c. c + 1)) s)
         else if timeout = LOS_NO_WAIT then (Ret LOS_ERRNO_MUX_UNAVAILABLE, s)
         else
           let s = upd_tcb runningTask (taskMux_update (\<lambda>_. Some muxHandle)) s;
               own = the (owner (g_allMux s muxHandle));
               s = (if priority (tcb s runningTask) < priority (tcb s own)
                    then snd (OsSchedModifyTaskSchedParam own (priority (tcb s runningTask)) s) else s);
               s = OsSchedTaskWait (MuxWait muxHandle) timeout s
           in (Blocked, LOS_Schedule s))"

definition LOS_MuxPend_resume :: "nat \<Rightarrow> 'a mux_state_scheme \<Rightarrow> errno \<times> 'a mux_state_scheme" where
  "LOS_MuxPend_resume runningTask s =
    (if has (status s runningTask) OS_TASK_STATUS_TIMEOUT
     then (LOS_ERRNO_MUX_TIMEOUT, status_clear runningTask OS_TASK_STATUS_TIMEOUT s)
     else (LOS_OK, s))"

definition LOS_MuxPost :: "nat \<Rightarrow> 'a mux_state_scheme \<Rightarrow> errno \<times> 'a mux_state_scheme" where
  "LOS_MuxPost muxHandle s =
    (if LOSCFG_BASE_IPC_MUX_LIMIT (cfg s) \<le> muxHandle \<or>
        muxStat (g_allMux s muxHandle) = OS_MUX_UNUSED then (LOS_ERRNO_MUX_INVALID, s)
     else
       let runningTask = runTask s
       in if muxCount (g_allMux s muxHandle) = 0 \<or> owner (g_allMux s muxHandle) \<noteq> Some runningTask
       then (LOS_ERRNO_MUX_INVALID, s)
       else
         let s = upd_mux muxHandle (muxCount_update (\<lambda>c. c - 1)) s
         in if muxCount (g_allMux s muxHandle) \<noteq> 0 then (LOS_OK, s)
         else
           let own = the (owner (g_allMux s muxHandle));
               s = (if priority (tcb s own) \<noteq> muxPriority (g_allMux s muxHandle)
                    then snd (OsSchedModifyTaskSchedParam own (muxPriority (g_allMux s muxHandle)) s)
                    else s)
           in if \<not> LOS_ListEmpty (pend s) (MuxWait muxHandle) then
             let resumedTask = LOS_DL_LIST_FIRST (pend s) (MuxWait muxHandle);
                 s = upd_mux muxHandle (\<lambda>c. c\<lparr>muxCount := 1, owner := Some resumedTask,
                       muxPriority := priority (tcb s resumedTask)\<rparr>) s;
                 s = upd_tcb resumedTask (taskMux_update (\<lambda>_. None)) s;
                 s = OsSchedTaskWake resumedTask s
             in (LOS_OK, LOS_Schedule s)
           else (LOS_OK, s))"

end
