(* ===== verification/Mux_Inv.thy ===== *)
theory Mux_Inv
  imports Mux
begin

text \<open>
  The invariant of the mutexes and the effect of each service on it: a locked mutex has an owner
  and the priority that owner gets back, and tasks wait only for a locked mutex.
\<close>

section \<open>Frames\<close>

lemma mux_more:
  assumes "sched_state.more s' = sched_state.more s"
  shows "g_allMux s' = g_allMux s" "g_unusedMuxList s' = g_unusedMuxList s"
    "g_allSem s' = g_allSem s" "g_unusedSemList s' = g_unusedSemList s"
  using assms by (cases s; cases s'; simp)+

lemma mux_frame [simp]:
  "g_allMux (upd_tcb t f s) = g_allMux s" "g_allMux (OsSchedTaskWait h ticks s) = g_allMux s"
  "g_allMux (OsSchedTaskWake t s) = g_allMux s" "g_allMux (LOS_Schedule s) = g_allMux s"
  "g_allMux (status_clear t w s) = g_allMux s"
  "g_allMux (snd (OsSchedModifyTaskSchedParam t p s)) = g_allMux s"
  "g_unusedMuxList (upd_tcb t f s) = g_unusedMuxList s"
  "g_unusedMuxList (OsSchedTaskWait h ticks s) = g_unusedMuxList s"
  "g_unusedMuxList (OsSchedTaskWake t s) = g_unusedMuxList s"
  "g_unusedMuxList (LOS_Schedule s) = g_unusedMuxList s"
  "g_unusedMuxList (status_clear t w s) = g_unusedMuxList s"
  "g_unusedMuxList (snd (OsSchedModifyTaskSchedParam t p s)) = g_unusedMuxList s"
  by (rule mux_more; simp)+

lemma upd_mux_sel [simp]:
  "g_allMux (upd_mux i f s) = (g_allMux s)(i := f (g_allMux s i))"
  "g_unusedMuxList (upd_mux i f s) = g_unusedMuxList s" "pend (upd_mux i f s) = pend s"
  "cfg (upd_mux i f s) = cfg s" "runTask (upd_mux i f s) = runTask s"
  "g_taskCBArray (upd_mux i f s) = g_taskCBArray s" "g_taskMaxNum (upd_mux i f s) = g_taskMaxNum s"
  "g_idleTaskID (upd_mux i f s) = g_idleTaskID s"
  "g_allSem (upd_mux i f s) = g_allSem s" "g_unusedSemList (upd_mux i f s) = g_unusedSemList s"
  by (simp_all add: upd_mux_def)

lemma sched_inv_mux [simp]:
  "sched_inv (upd_mux i f s) = sched_inv s"
  "sched_inv (s\<lparr>g_unusedMuxList := l\<rparr>) = sched_inv s"
  by (rule sched_inv_frame; simp add: upd_mux_def)+

lemma unblocked_mux [simp]: "unblocked (upd_mux i f s) = unblocked s"
  by (simp add: unblocked_def)

section \<open>The invariant\<close>

definition mux_used :: "'a mux_state_scheme \<Rightarrow> nat \<Rightarrow> bool" where
  "mux_used s i \<longleftrightarrow> muxStat (g_allMux s i) = OS_MUX_USED"

definition mux_locked :: "'a mux_state_scheme \<Rightarrow> nat \<Rightarrow> bool" where
  "mux_locked s i \<longleftrightarrow> mux_used s i \<and> muxCount (g_allMux s i) \<noteq> 0"

definition mux_ok :: "'a mux_state_scheme \<Rightarrow> bool" where
  "mux_ok s \<longleftrightarrow>
    pool_ok (g_unusedMuxList s ()) (mux_used s) (LOSCFG_BASE_IPC_MUX_LIMIT (cfg s)) \<and>
    (\<forall>i. mux_used s i \<or> muxStat (g_allMux s i) = OS_MUX_UNUSED) \<and>
    (\<forall>i<LOSCFG_BASE_IPC_MUX_LIMIT (cfg s). muxID (g_allMux s i) = i) \<and>
    (\<forall>i. mux_locked s i \<longrightarrow> muxPriority (g_allMux s i) < OS_PRIORITY_QUEUE_NUM \<and>
      (\<exists>t. owner (g_allMux s i) = Some t \<and> t < Suc (LOSCFG_BASE_CORE_TSK_LIMIT (cfg s)))) \<and>
    (\<forall>i. pend s (MuxWait i) \<noteq> [] \<longrightarrow> i < LOSCFG_BASE_IPC_MUX_LIMIT (cfg s) \<and> mux_locked s i)"

lemma mux_okD:
  assumes "mux_ok s"
  shows "pool_ok (g_unusedMuxList s ()) (mux_used s) (LOSCFG_BASE_IPC_MUX_LIMIT (cfg s))"
    and "mux_used s i \<or> muxStat (g_allMux s i) = OS_MUX_UNUSED"
    and "i < LOSCFG_BASE_IPC_MUX_LIMIT (cfg s) \<Longrightarrow> muxID (g_allMux s i) = i"
    and "mux_locked s i \<Longrightarrow> muxPriority (g_allMux s i) < OS_PRIORITY_QUEUE_NUM"
    and "mux_locked s i \<Longrightarrow> \<exists>t. owner (g_allMux s i) = Some t \<and> t < Suc (LOSCFG_BASE_CORE_TSK_LIMIT (cfg s))"
    and "pend s (MuxWait i) \<noteq> [] \<Longrightarrow> i < LOSCFG_BASE_IPC_MUX_LIMIT (cfg s) \<and> mux_locked s i"
  using assms by (auto simp: mux_ok_def)

lemma mux_stat: "\<not> mux_used s i \<or> muxStat (g_allMux s i) \<noteq> OS_MUX_UNUSED"
  by (simp add: mux_used_def OS_MUX_USED_def OS_MUX_UNUSED_def)

lemma mux_preds:
  assumes "g_allMux s' = g_allMux s"
  shows "mux_used s' = mux_used s" "mux_locked s' = mux_locked s"
  by (simp_all add: mux_locked_def mux_used_def fun_eq_iff assms)

lemma mux_ok_calm:
  assumes "mux_ok s" "calm H s s'" "\<And>i. MuxWait i \<notin> H"
  shows "mux_ok s'"
proof -
  note m = mux_more [OF calmD(2) [OF assms(2)]] and c = calmD(1) [OF assms(2)]
  note u = mux_preds [OF m(1)]
  have e: "pend s (MuxWait i) = [] \<Longrightarrow> pend s' (MuxWait i) = []" for i
    by (rule calm_empty [OF assms(2)]) (simp_all add: assms(3))
  show ?thesis using assms(1) e unfolding mux_ok_def u m(1,2) c by blast
qed

lemma mux_ok_cong:
  assumes "g_allMux s' = g_allMux s" "g_unusedMuxList s' = g_unusedMuxList s" "cfg s' = cfg s"
    "\<And>i. pend s' (MuxWait i) = pend s (MuxWait i)"
  shows "mux_ok s' = mux_ok s"
  by (simp add: mux_ok_def mux_preds [OF assms(1)] assms)

lemma mux_okI:
  assumes "mux_ok s" "cfg s' = cfg s" "\<And>j. j \<noteq> i \<Longrightarrow> g_allMux s' j = g_allMux s j"
    "pool_ok (g_unusedMuxList s' ()) (mux_used s') (LOSCFG_BASE_IPC_MUX_LIMIT (cfg s))"
    "\<And>j. j \<noteq> i \<Longrightarrow> pend s' (MuxWait j) = pend s (MuxWait j)"
    "muxID (g_allMux s' i) = muxID (g_allMux s i)"
    "mux_used s' i \<or> muxStat (g_allMux s' i) = OS_MUX_UNUSED"
    "mux_locked s' i \<Longrightarrow> muxPriority (g_allMux s' i) < OS_PRIORITY_QUEUE_NUM"
    "mux_locked s' i \<Longrightarrow> \<exists>t. owner (g_allMux s' i) = Some t \<and> t < Suc (LOSCFG_BASE_CORE_TSK_LIMIT (cfg s))"
    "pend s' (MuxWait i) \<noteq> [] \<Longrightarrow> i < LOSCFG_BASE_IPC_MUX_LIMIT (cfg s) \<and> mux_locked s' i"
  shows "mux_ok s'"
proof -
  have u: "mux_used s' j = mux_used s j" "mux_locked s' j = mux_locked s j" if "j \<noteq> i" for j
    using assms(3) [OF that] by (simp_all add: mux_locked_def mux_used_def)
  show ?thesis
    unfolding mux_ok_def assms(2)
  proof (intro conjI allI impI)
    fix j
    show "mux_used s' j \<or> muxStat (g_allMux s' j) = OS_MUX_UNUSED"
      using assms(3,7) u mux_okD(2) [OF assms(1), of j] by (cases "j = i") auto
    show "muxID (g_allMux s' j) = j" if "j < LOSCFG_BASE_IPC_MUX_LIMIT (cfg s)"
      using assms(3,6) mux_okD(3) [OF assms(1) that] by (cases "j = i") auto
    show "muxPriority (g_allMux s' j) < OS_PRIORITY_QUEUE_NUM"
      "\<exists>t. owner (g_allMux s' j) = Some t \<and> t < Suc (LOSCFG_BASE_CORE_TSK_LIMIT (cfg s))"
      if "mux_locked s' j"
      using assms(3,8,9) that u mux_okD(4,5) [OF assms(1), of j] by (cases "j = i"; auto)+
    assume "pend s' (MuxWait j) \<noteq> []"
    then have "j < LOSCFG_BASE_IPC_MUX_LIMIT (cfg s) \<and> mux_locked s' j"
      using assms(3,5,10) u mux_okD(6) [OF assms(1), of j] by (cases "j = i") auto
    then show "j < LOSCFG_BASE_IPC_MUX_LIMIT (cfg s)" "mux_locked s' j" by simp_all
  qed (rule assms(4))
qed

definition mux_inv :: "'a mux_state_scheme \<Rightarrow> bool" where
  "mux_inv s \<longleftrightarrow> sched_inv s \<and> mux_ok s"

lemma mux_invD: "mux_inv s \<Longrightarrow> sched_inv s" "mux_inv s \<Longrightarrow> mux_ok s"
  by (simp_all add: mux_inv_def)

lemma max_task: "sched_inv s \<Longrightarrow> g_taskMaxNum s = Suc (LOSCFG_BASE_CORE_TSK_LIMIT (cfg s))"
  using sched_invD(4) [of s] by (simp add: globals_ok_def)

section \<open>Creation and deletion\<close>

lemma MuxCreate_ok:
  assumes "LOS_MuxCreate handleNull s = (LOS_OK, h, s')" "mux_ok s"
  shows "g_unusedMuxList s () = h # g_unusedMuxList s' () \<and> mux_used s' = (mux_used s)(h := True) \<and>
    cfg s' = cfg s \<and> mux_ok s' \<and> pend s' = pend s \<and>
    s' = (upd_mux h (\<lambda>c. c\<lparr>muxCount := 0, muxStat := OS_MUX_USED, muxPriority := 0, owner := None\<rparr>) s)
      \<lparr>g_unusedMuxList := g_unusedMuxList s'\<rparr>"
proof -
  obtain x xs where f: "g_unusedMuxList s () = x # xs"
    using assms(1) by (cases "g_unusedMuxList s ()")
      (auto simp: LOS_MuxCreate_def LOS_ListEmpty_def split: if_splits)
  note p = mux_okD(1) [OF assms(2)]
  have x: "x < LOSCFG_BASE_IPC_MUX_LIMIT (cfg s)" "\<not> mux_used s x"
    using pool_okD(2) [OF p, of x] by (simp_all add: f)
  have none: "pend s (MuxWait x) = []"
    using mux_okD(6) [OF assms(2), of x] x(2) by (auto simp: mux_locked_def)
  then have idem: "LOS_ListInit (MuxWait x) (pend s) = pend s"
    by (simp add: LOS_ListInit_def fun_upd_idem)
  have r: "h = x \<and> s' = (upd_mux x (\<lambda>c. c\<lparr>muxCount := 0, muxStat := OS_MUX_USED, muxPriority := 0,
      owner := None\<rparr>) s)\<lparr>g_unusedMuxList := LOS_ListDelete x (g_unusedMuxList s)\<rparr>"
    using assms(1) f mux_okD(3) [OF assms(2) x(1)]
    by (auto simp: LOS_MuxCreate_def LOS_ListEmpty_def LOS_DL_LIST_FIRST_def Let_def upd_mux_def idem
        split: if_splits)
  then have l: "g_unusedMuxList s' () = xs" by (simp add: f LOS_ListDelete_def)
  have u: "mux_used s' = (mux_used s)(h := True)" by (simp add: r mux_used_def fun_eq_iff)
  have g: "g_allMux s' = (g_allMux s)(h := (g_allMux s h)\<lparr>muxCount := 0, muxStat := OS_MUX_USED,
      muxPriority := 0, owner := None\<rparr>)" "pend s' = pend s" "cfg s' = cfg s"
    by (simp_all add: r)
  have "mux_ok s'"
    using none pool_ok_take [OF p [unfolded f]] conjunct1 [OF r]
    by (intro mux_okI [OF assms(2), of s' h]) (simp_all add: u l g mux_locked_def)
  moreover have "s' = (upd_mux h (\<lambda>c. c\<lparr>muxCount := 0, muxStat := OS_MUX_USED, muxPriority := 0, owner := None\<rparr>) s)
      \<lparr>g_unusedMuxList := g_unusedMuxList s'\<rparr>"
    by (simp add: r)
  ultimately show ?thesis using f l u g r by blast
qed

lemma MuxDelete_ok:
  assumes "LOS_MuxDelete h s = (LOS_OK, s')" "mux_ok s"
  shows "h < LOSCFG_BASE_IPC_MUX_LIMIT (cfg s) \<and> mux_used s h \<and> \<not> mux_locked s h \<and>
    g_unusedMuxList s' () = h # g_unusedMuxList s () \<and> mux_used s' = (mux_used s)(h := False) \<and>
    cfg s' = cfg s \<and> mux_ok s' \<and> pend s (MuxWait h) = []"
proof -
  have r: "h < LOSCFG_BASE_IPC_MUX_LIMIT (cfg s)" "muxStat (g_allMux s h) \<noteq> OS_MUX_UNUSED"
    "pend s (MuxWait h) = []" "muxCount (g_allMux s h) = 0"
    "s' = upd_mux h (muxStat_update (\<lambda>_. OS_MUX_UNUSED))
       (s\<lparr>g_unusedMuxList := LOS_ListAdd () h (g_unusedMuxList s)\<rparr>)"
    using assms(1) by (auto simp: LOS_MuxDelete_def LOS_ListEmpty_def split: if_splits)
  have used: "mux_used s h" using r(2) mux_okD(2) [OF assms(2), of h] by blast
  have u: "mux_used s' = (mux_used s)(h := False)"
    by (simp add: mux_used_def r(5) fun_eq_iff OS_MUX_UNUSED_def OS_MUX_USED_def)
  have l: "g_unusedMuxList s' () = h # g_unusedMuxList s ()"
    by (simp add: r(5) LOS_ListAdd_def)
  have "mux_ok s'"
    using pool_ok_give [OF mux_okD(1) [OF assms(2)] used r(1)] r(3,4)
    by (intro mux_okI [OF assms(2), of s' h]) (simp_all add: u l mux_locked_def, simp_all add: r(5))
  with u l r used show ?thesis by (simp add: mux_locked_def)
qed

interpretation mux_blocks: ready_blocks mux_ok "\<lambda>s. g_unusedMuxList s ()" mux_used
  "\<lambda>s. LOSCFG_BASE_IPC_MUX_LIMIT (cfg s)" "LOS_MuxCreate False" LOS_MuxDelete
proof (unfold_locales, goal_cases)
  case (1 s)
  then show ?case by (rule mux_okD(1))
next
  case (2 s)
  then show ?case by (simp add: LOS_MuxCreate_def LOS_ListEmpty_def)
next
  case (3 s i s')
  then show ?case using MuxCreate_ok [of False s i s'] by simp
next
  case (4 s i s')
  then show ?case using MuxDelete_ok [of i s s'] by simp
next
  case (5 s)
  then show ?case by (simp add: LOS_MuxCreate_def LOS_ListEmpty_def Let_def)
qed

section \<open>Pend and post\<close>

text \<open>A change of priority that is made when it is needed.\<close>

definition modify_if :: "bool \<Rightarrow> nat \<Rightarrow> nat \<Rightarrow> 'a sched_state_scheme \<Rightarrow> 'a sched_state_scheme" where
  "modify_if b t p s = (if b then snd (OsSchedModifyTaskSchedParam t p s) else s)"

lemma modify_if_sel [simp]:
  "cfg (modify_if b t p s) = cfg s" "runTask (modify_if b t p s) = runTask s"
  "g_idleTaskID (modify_if b t p s) = g_idleTaskID s" "g_taskMaxNum (modify_if b t p s) = g_taskMaxNum s"
  by (simp_all add: modify_if_def)

lemma modify_if_mux [simp]:
  "g_allMux (modify_if b t p s) = g_allMux s" "g_unusedMuxList (modify_if b t p s) = g_unusedMuxList s"
  by (simp_all add: modify_if_def)

lemma modify_if_inv:
  assumes "sched_inv s" "t < g_taskMaxNum s" "p < OS_PRIORITY_QUEUE_NUM"
  shows "sched_inv (modify_if b t p s)" "unblocked (modify_if b t p s) = unblocked s"
    "is_wait h \<Longrightarrow> pend (modify_if b t p s) h = pend s h"
  using assms by (simp_all add: modify_if_def sched_inv_Modify unblocked_Modify pend_Modify)

definition mux_valid :: "nat \<Rightarrow> 'a mux_state_scheme \<Rightarrow> bool" where
  "mux_valid h s \<longleftrightarrow> h < LOSCFG_BASE_IPC_MUX_LIMIT (cfg s) \<and> mux_used s h"

lemma run_priority:
  assumes "sched_inv s" "unblocked s" shows "priority (tcb s (runTask s)) < OS_PRIORITY_QUEUE_NUM"
    "runTask s < Suc (LOSCFG_BASE_CORE_TSK_LIMIT (cfg s))"
  using task_okD(7) [OF sched_invD(5) [OF assms(1)], of "runTask s"] assms(2) max_task [OF assms(1)]
  by (auto simp: unblocked_def)

lemma MuxPend_free:
  assumes "mux_inv s" "mux_valid h s" "\<not> OS_INT_ACTIVE s" "g_losTaskLock s = 0" "unblocked s"
    "muxCount (g_allMux s h) = 0"
  defines "s' \<equiv> upd_mux h (\<lambda>c. c\<lparr>muxCount := muxCount c + 1, owner := Some (runTask s),
    muxPriority := priority (tcb s (runTask s))\<rparr>) s"
  shows "LOS_MuxPend h timeout s = (Ret LOS_OK, s')" and "mux_inv s'" and "pend s (MuxWait h) = []"
proof -
  note inv = mux_invD(1) [OF assms(1)] and ok = mux_invD(2) [OF assms(1)]
  have used: "mux_used s h" and lt: "h < LOSCFG_BASE_IPC_MUX_LIMIT (cfg s)"
    using assms(2) by (simp_all add: mux_valid_def)
  show "LOS_MuxPend h timeout s = (Ret LOS_OK, s')"
    using lt used assms(3,4,6) mux_stat [of s h]
    by (simp add: LOS_MuxPend_def OsMuxValidCheck_def Let_def s'_def)
  show none: "pend s (MuxWait h) = []"
    using mux_okD(6) [OF ok, of h] assms(6) by (auto simp: mux_locked_def)
  have g: "g_allMux s' = (g_allMux s)(h := (g_allMux s h)\<lparr>muxCount := 1, owner := Some (runTask s),
      muxPriority := priority (tcb s (runTask s))\<rparr>)"
    using assms(6) by (simp add: s'_def)
  have u: "mux_used s' = mux_used s" by (simp add: mux_used_def g fun_eq_iff)
  have "mux_ok s'"
    using used lt none run_priority [OF inv assms(5)] mux_okD(1) [OF ok]
    by (intro mux_okI [OF ok, of s' h]) (simp_all add: g u, simp_all add: s'_def)
  with inv show "mux_inv s'" by (simp add: mux_inv_def s'_def)
qed

lemma MuxPend_again:
  assumes "mux_inv s" "mux_valid h s" "\<not> OS_INT_ACTIVE s" "g_losTaskLock s = 0"
    "muxCount (g_allMux s h) \<noteq> 0" "owner (g_allMux s h) = Some (runTask s)"
  defines "s' \<equiv> upd_mux h (muxCount_update (\<lambda>c. c + 1)) s"
  shows "LOS_MuxPend h timeout s = (Ret LOS_OK, s')"
    and "muxCount (g_allMux s h) < 0xFFFF \<Longrightarrow> mux_inv s'"
proof -
  note inv = mux_invD(1) [OF assms(1)] and ok = mux_invD(2) [OF assms(1)]
  have used: "mux_used s h" and lt: "h < LOSCFG_BASE_IPC_MUX_LIMIT (cfg s)"
    using assms(2) by (simp_all add: mux_valid_def)
  show "LOS_MuxPend h timeout s = (Ret LOS_OK, s')"
    using lt used assms(3-6) mux_stat [of s h]
    by (simp add: LOS_MuxPend_def OsMuxValidCheck_def Let_def s'_def)
  assume "muxCount (g_allMux s h) < 0xFFFF"
  from unat_inc [OF this] have nz: "muxCount (g_allMux s h) + 1 \<noteq> 0" by (metis nat.distinct(1) unat_0)
  have g: "g_allMux s' = (g_allMux s)(h := (g_allMux s h)\<lparr>muxCount := muxCount (g_allMux s h) + 1\<rparr>)"
    by (cases "g_allMux s h") (simp add: s'_def)
  have u: "mux_used s' = mux_used s" by (simp add: mux_used_def g fun_eq_iff)
  have l: "mux_locked s h" using used assms(5) by (simp add: mux_locked_def)
  have "mux_ok s'"
    using used lt nz mux_okD(1) [OF ok] mux_okD(2-6) [OF ok, of h] l
    by (intro mux_okI [OF ok, of s' h]) (simp_all add: g u mux_locked_def, simp_all add: s'_def)
  with inv show "mux_inv s'" by (simp add: mux_inv_def s'_def)
qed

lemma MuxPend_block:
  assumes "mux_inv s" "mux_valid h s" "\<not> OS_INT_ACTIVE s" "g_losTaskLock s = 0" "unblocked s"
    "runTask s \<noteq> g_idleTaskID s" "muxCount (g_allMux s h) \<noteq> 0"
    "owner (g_allMux s h) = Some t" "t \<noteq> runTask s" "timeout \<noteq> LOS_NO_WAIT"
  defines "s1 \<equiv> modify_if (priority (tcb s (runTask s)) < priority (tcb s t)) t (priority (tcb s (runTask s)))
      (upd_tcb (runTask s) (taskMux_update (\<lambda>_. Some h)) s)"
  defines "s' \<equiv> LOS_Schedule (OsSchedTaskWait (MuxWait h) timeout s1)"
  shows "LOS_MuxPend h timeout s = (Blocked, s')" and "mux_inv s'"
    and "is_wait k \<Longrightarrow> pend s' k = (if k = MuxWait h then pend s k @ [runTask s] else pend s k)"
    and "priority (tcb s' t) = min (priority (tcb s t)) (priority (tcb s (runTask s)))"
    and "g_allMux s' = g_allMux s"
proof -
  note inv = mux_invD(1) [OF assms(1)] and ok = mux_invD(2) [OF assms(1)]
  have used: "mux_used s h" and lt: "h < LOSCFG_BASE_IPC_MUX_LIMIT (cfg s)"
    using assms(2) by (simp_all add: mux_valid_def)
  have l: "mux_locked s h" using used assms(7) by (simp add: mux_locked_def)
  let ?q = "upd_tcb (runTask s) (taskMux_update (\<lambda>_. Some h)) s"
  show "LOS_MuxPend h timeout s = (Blocked, s')"
    using lt used assms(3,4,7-10) mux_stat [of s h]
    by (simp add: LOS_MuxPend_def OsMuxValidCheck_def Let_def s'_def s1_def modify_if_def)
  have invq: "sched_inv ?q" by (rule sched_inv_fields [OF inv]) simp
  have t: "t < g_taskMaxNum ?q"
    using mux_okD(5) [OF ok l] assms(8) max_task [OF inv] by simp
  note m = modify_if_inv [OF invq t run_priority(1) [OF inv assms(5)],
      where b = "priority (tcb s (runTask s)) < priority (tcb s t)", folded s1_def]
  show g: "g_allMux s' = g_allMux s" by (simp add: s'_def s1_def)
  have r1: "runTask s1 = runTask s" "g_idleTaskID s1 = g_idleTaskID s" by (simp_all add: s1_def)
  show p: "pend s' k = (if k = MuxWait h then pend s k @ [runTask s] else pend s k)" if "is_wait k" for k
    using m(3) that by (simp add: s'_def pend_Wait r1)
  show "priority (tcb s' t) = min (priority (tcb s t)) (priority (tcb s (runTask s)))"
    using assms(9) by (simp add: s'_def Wait_sel s1_def modify_if_def Modify_sel min_def)
  have "mux_ok s'"
    using used lt mux_okD(1) [OF ok] mux_okD(2-6) [OF ok, of h] l
    by (intro mux_okI [OF ok, of s' h]) (simp_all add: p g mux_preds [OF g], simp_all add: s'_def s1_def)
  moreover have "unblocked s1" using m(2) assms(5) by (simp add: unblocked_fields)
  with m(1) have "sched_inv s'"
    unfolding s'_def using sched_inv_Wait [of s1 "MuxWait h" timeout] assms(6) by (simp add: r1)
  ultimately show "mux_inv s'" by (simp add: mux_inv_def)
qed

lemma MuxPost_again:
  assumes "mux_inv s" "mux_valid h s" "muxCount (g_allMux s h) \<noteq> 0"
    "owner (g_allMux s h) = Some (runTask s)" "muxCount (g_allMux s h) \<noteq> 1"
  defines "s' \<equiv> upd_mux h (muxCount_update (\<lambda>c. c - 1)) s"
  shows "LOS_MuxPost h s = (LOS_OK, s')" and "mux_inv s'"
proof -
  note inv = mux_invD(1) [OF assms(1)] and ok = mux_invD(2) [OF assms(1)]
  have used: "mux_used s h" and lt: "h < LOSCFG_BASE_IPC_MUX_LIMIT (cfg s)"
    using assms(2) by (simp_all add: mux_valid_def)
  have l: "mux_locked s h" using used assms(3) by (simp add: mux_locked_def)
  have nz: "muxCount (g_allMux s h) - 1 \<noteq> 0" using assms(5) by simp
  show "LOS_MuxPost h s = (LOS_OK, s')"
    using lt used assms(3,4) nz mux_stat [of s h] by (simp add: LOS_MuxPost_def Let_def s'_def)
  have g: "g_allMux s' = (g_allMux s)(h := (g_allMux s h)\<lparr>muxCount := muxCount (g_allMux s h) - 1\<rparr>)"
    by (cases "g_allMux s h") (simp add: s'_def)
  have u: "mux_used s' = mux_used s" by (simp add: mux_used_def g fun_eq_iff)
  have "mux_ok s'"
    using used lt nz mux_okD(1) [OF ok] mux_okD(2-6) [OF ok, of h] l
    by (intro mux_okI [OF ok, of s' h]) (simp_all add: g u mux_locked_def, simp_all add: s'_def)
  with inv show "mux_inv s'" by (simp add: mux_inv_def s'_def)
qed

text \<open>
  The last unlock: the owner gets its priority back, and the first waiter becomes the owner.
\<close>

lemma MuxPost_last:
  fixes s :: "'a mux_state_scheme"
  assumes "mux_inv s" "mux_valid h s" "muxCount (g_allMux s h) = 1"
    "owner (g_allMux s h) = Some (runTask s)" "unblocked s"
  defines "b \<equiv> priority (tcb s (runTask s)) \<noteq> muxPriority (g_allMux s h)"
  defines "s1 \<equiv> modify_if b (runTask s) (muxPriority (g_allMux s h)) (upd_mux h (muxCount_update (\<lambda>c. c - 1)) s)"
  defines "wake \<equiv> \<lambda>w q. LOS_Schedule (OsSchedTaskWake w (upd_tcb w (taskMux_update (\<lambda>_. None))
    (upd_mux h (\<lambda>c. c\<lparr>muxCount := 1, owner := Some w, muxPriority := priority (tcb q w)\<rparr>) (q :: 'a mux_state_scheme))))"
  shows "LOS_MuxPost h s =
      (LOS_OK, if pend s (MuxWait h) = [] then s1 else wake (hd (pend s (MuxWait h))) s1)"
    and "pend s (MuxWait h) = [] \<Longrightarrow> mux_inv s1"
    and "pend s (MuxWait h) = w # ws \<Longrightarrow> mux_inv (wake w s1)"
    and "pend s (MuxWait h) = w # ws \<Longrightarrow> is_wait k \<Longrightarrow>
      pend (wake w s1) k = (if k = MuxWait h then ws else pend s k)"
    and "is_wait k \<Longrightarrow> pend s1 k = pend s k"
    and "priority (tcb s1 u) = (if u = runTask s then muxPriority (g_allMux s h) else priority (tcb s u))"
    and "status s1 u = status s u"
    and "g_allMux s1 = (g_allMux s)(h := (g_allMux s h)\<lparr>muxCount := 0\<rparr>)"
    and "g_allMux (wake w s1) = (g_allMux s)(h := (g_allMux s h)\<lparr>muxCount := 1, owner := Some w,
      muxPriority := priority (tcb s1 w)\<rparr>)"
    and "w \<noteq> runTask s \<Longrightarrow> priority (tcb (wake w s1) (runTask s)) = muxPriority (g_allMux s h)"
proof -
  note inv = mux_invD(1) [OF assms(1)] and ok = mux_invD(2) [OF assms(1)]
  have used: "mux_used s h" and lt: "h < LOSCFG_BASE_IPC_MUX_LIMIT (cfg s)"
    using assms(2) by (simp_all add: mux_valid_def)
  have l: "mux_locked s h" using used assms(3) by (simp add: mux_locked_def)
  note d = mux_okD(1) [OF ok] mux_okD(2-6) [OF ok, of h]
  let ?q = "upd_mux h (muxCount_update (\<lambda>c. c - 1)) s"
  have invq: "sched_inv ?q" using inv by simp
  have t: "runTask s < g_taskMaxNum ?q" using assms(5) by (simp add: unblocked_def)
  note m = modify_if_inv [OF invq t d(4) [OF l], where b = b, folded s1_def]
  have nr: "\<not> has (status s (runTask s)) OS_TASK_STATUS_READY"
    by (rule running_okD(2) [OF sched_invD(2) [OF inv]])
  have s1: "s1 = (if b then upd_tcb (runTask s) (priority_update (\<lambda>_. muxPriority (g_allMux s h))) ?q else ?q)"
    using nr by (simp add: s1_def modify_if_def Modify_running)
  show p1: "pend s1 k = pend s k" if "is_wait k" for k using m(3) that by simp
  show st: "status s1 u = status s u" for u by (simp add: s1)
  show pr1: "priority (tcb s1 u) = (if u = runTask s then muxPriority (g_allMux s h) else priority (tcb s u))" for u
    by (simp add: s1 b_def)
  show "priority (tcb (wake w s1) (runTask s)) = muxPriority (g_allMux s h)" if "w \<noteq> runTask s"
    using that pr1 [of "runTask s"] by (simp add: wake_def Wake_other)
  show g1: "g_allMux s1 = (g_allMux s)(h := (g_allMux s h)\<lparr>muxCount := 0\<rparr>)"
    using assms(3) by (cases "g_allMux s h") (simp add: s1_def)
  have f1: "g_unusedMuxList s1 = g_unusedMuxList s" "cfg s1 = cfg s" by (simp_all add: s1_def)
  have "pend ?q = pend s" by simp
  then have e: "LOS_ListEmpty (pend s1) (MuxWait h) = (pend s (MuxWait h) = [])"
    "LOS_DL_LIST_FIRST (pend s1) (MuxWait h) = hd (pend s (MuxWait h))"
    using p1 by (simp_all add: LOS_ListEmpty_def LOS_DL_LIST_FIRST_def)
  have s1': "(if priority (tcb ?q (runTask s)) \<noteq> muxPriority (g_allMux ?q h)
      then snd (OsSchedModifyTaskSchedParam (runTask s) (muxPriority (g_allMux ?q h)) ?q) else ?q) = s1"
    by (simp add: s1_def modify_if_def b_def)
  show "LOS_MuxPost h s =
      (LOS_OK, if pend s (MuxWait h) = [] then s1 else wake (hd (pend s (MuxWait h))) s1)"
    using lt used assms(3,4) mux_stat [of s h] s1'
    by (auto simp: LOS_MuxPost_def Let_def e wake_def)
  have u1: "mux_used s1 = mux_used s" by (simp add: mux_used_def g1 fun_eq_iff)
  show "mux_inv s1" if "pend s (MuxWait h) = []"
  proof -
    have "mux_ok s1"
      using used that d by (intro mux_okI [OF ok, of s1 h]) (simp_all add: g1 u1 f1 p1 mux_locked_def)
    with m(1) show ?thesis by (simp add: mux_inv_def)
  qed
  show g: "g_allMux (wake w s1) = (g_allMux s)(h := (g_allMux s h)\<lparr>muxCount := 1, owner := Some w,
      muxPriority := priority (tcb s1 w)\<rparr>)" for w
    by (simp add: wake_def g1)
  assume w: "pend s (MuxWait h) = w # ws"
  let ?r = "upd_mux h (\<lambda>c. c\<lparr>muxCount := 1, owner := Some w, muxPriority := priority (tcb s1 w)\<rparr>) s1"
  have invr: "sched_inv ?r" "unblocked ?r" using m(1,2) assms(5) by (simp_all add: unblocked_def)
  have mem: "w \<in> set (pend ?r (MuxWait h))" by (simp add: p1 w)
  have invu: "sched_inv (upd_tcb w (taskMux_update (\<lambda>_. None)) ?r)"
    by (rule sched_inv_fields [OF invr(1)]) simp
  show p: "pend (wake w s1) k = (if k = MuxWait h then ws else pend s k)" if "is_wait k" for k
    using pend_Wake [OF invu, of "MuxWait h" w k] that by (simp add: wake_def p1 w)
  have fw: "g_unusedMuxList (wake w s1) = g_unusedMuxList s" "cfg (wake w s1) = cfg s"
    by (simp_all add: wake_def f1)
  have uw: "mux_used (wake w s1) = mux_used s" by (simp add: mux_used_def g fun_eq_iff)
  have wlt: "w < g_taskMaxNum ?r" "has (status ?r w) OS_TASK_STATUS_PEND"
    using waiter(1,2) [OF invr(1) _ mem] by simp_all
  have "task_ok {runTask ?r} ?r w" by (rule sched_invD(5) [OF invr(1)])
  from task_okD(7) [OF this wlt(1)] task_flags(2) [OF this wlt] have pr: "priority (tcb s1 w) < OS_PRIORITY_QUEUE_NUM"
    by simp
  have "mux_ok (wake w s1)"
    using used lt d pr wlt(1) max_task [OF invr(1)]
    by (intro mux_okI [OF ok, of "wake w s1" h]) (simp_all add: g uw fw p f1 mux_locked_def)
  moreover have "sched_inv (wake w s1)"
    unfolding wake_def using wake_inv [OF invr _ mem, of "taskMux_update (\<lambda>_. None)"] by simp
  ultimately show "mux_inv (wake w s1)" by (simp add: mux_inv_def)
qed

end
