(* ===== verification/Event.thy ===== *)
theory Event
  imports Mux_Inv
begin

text \<open>
  Events (\<open>kernel/src/los_event.c\<close>). An event control block belongs to the caller; here it is a
  number, \<open>None\<close> for a null pointer. \<open>stEventList\<close> is the list \<open>EventWait e\<close>, and
  \<open>listNull\<close> says that its pointers are \<open>NULL\<close>: the block has not been initialised or has been
  destroyed. The services return a 32-bit word that holds event bits or an error code.
\<close>

record event_cb =
  uwEventID :: UINT32
  listNull :: bool

record event_state = mux_state +
  events :: "nat \<Rightarrow> event_cb"

definition LOS_WAITMODE_AND :: UINT32 where "LOS_WAITMODE_AND = 4"

definition LOS_WAITMODE_OR :: UINT32 where "LOS_WAITMODE_OR = 2"

definition LOS_WAITMODE_CLR :: UINT32 where "LOS_WAITMODE_CLR = 1"

datatype event_outcome = Value UINT32 | Waiting

definition upd_event :: "nat \<Rightarrow> (event_cb \<Rightarrow> event_cb) \<Rightarrow> 'a event_state_scheme \<Rightarrow> 'a event_state_scheme" where
  "upd_event e f s = s\<lparr>events := (events s)(e := f (events s e))\<rparr>"

definition LOS_EventInit :: "nat option \<Rightarrow> 'a event_state_scheme \<Rightarrow> errno \<times> 'a event_state_scheme" where
  "LOS_EventInit eventCB s =
    (case eventCB of None \<Rightarrow> (LOS_ERRNO_EVENT_PTR_NULL, s)
     | Some e \<Rightarrow>
       let s = upd_event e (\<lambda>c. c\<lparr>uwEventID := 0, listNull := False\<rparr>) s
       in (LOS_OK, s\<lparr>pend := LOS_ListInit (EventWait e) (pend s)\<rparr>))"

text \<open>The word that is polled and its new value; \<open>None\<close> is a null pointer.\<close>

definition LOS_EventPoll :: "UINT32 option \<Rightarrow> UINT32 \<Rightarrow> UINT32 \<Rightarrow> UINT32 \<times> UINT32 option" where
  "LOS_EventPoll eventPtr evMask mode =
    (case eventPtr of None \<Rightarrow> (errno_code LOS_ERRNO_EVENT_PTR_NULL, None)
     | Some w \<Rightarrow>
       let ret = (if has mode LOS_WAITMODE_OR then
                    (if w AND evMask \<noteq> 0 then w AND evMask else 0)
                  else if evMask \<noteq> 0 \<and> evMask = w AND evMask then w AND evMask else 0)
       in (ret, Some (if ret \<noteq> 0 \<and> has mode LOS_WAITMODE_CLR then w AND NOT ret else w)))"

definition OsEventReadParamCheck :: "nat option \<Rightarrow> UINT32 \<Rightarrow> UINT32 \<Rightarrow> 'a event_state_scheme \<Rightarrow> errno" where
  "OsEventReadParamCheck eventCB evMask mode s =
    (case eventCB of None \<Rightarrow> LOS_ERRNO_EVENT_PTR_NULL
     | Some e \<Rightarrow>
       if listNull (events s e) then LOS_ERRNO_EVENT_NOT_INITIALIZED
       else if evMask = 0 then LOS_ERRNO_EVENT_EVENTMASK_INVALID
       else if has evMask LOS_ERRTYPE_ERROR then LOS_ERRNO_EVENT_SETBIT_INVALID
       else if has mode LOS_WAITMODE_OR \<and> has mode LOS_WAITMODE_AND \<or>
               has mode (NOT (LOS_WAITMODE_OR OR LOS_WAITMODE_AND OR LOS_WAITMODE_CLR)) \<or>
               \<not> has mode (LOS_WAITMODE_OR OR LOS_WAITMODE_AND)
       then LOS_ERRNO_EVENT_FLAGS_INVALID
       else LOS_OK)"

definition poll_event :: "nat \<Rightarrow> UINT32 \<Rightarrow> UINT32 \<Rightarrow> 'a event_state_scheme \<Rightarrow> UINT32 \<times> 'a event_state_scheme" where
  "poll_event e evMask mode s =
    (let (ret, w) = LOS_EventPoll (Some (uwEventID (events s e))) evMask mode
     in (ret, upd_event e (uwEventID_update (\<lambda>_. the w)) s))"

text \<open>\<open>LOS_EventRead\<close> up to the point where the task waits, and what the task does afterwards.\<close>

definition LOS_EventRead ::
  "nat option \<Rightarrow> UINT32 \<Rightarrow> UINT32 \<Rightarrow> UINT32 \<Rightarrow> 'a event_state_scheme \<Rightarrow> event_outcome \<times> 'a event_state_scheme" where
  "LOS_EventRead eventCB evMask mode timeOut s =
    (let chk = OsEventReadParamCheck eventCB evMask mode s
     in if chk \<noteq> LOS_OK then (Value (errno_code chk), s)
     else if OS_INT_ACTIVE s then (Value (errno_code LOS_ERRNO_EVENT_READ_IN_INTERRUPT), s)
     else
       let e = the eventCB;
           (ret, s) = poll_event e evMask mode s
       in if ret \<noteq> 0 then (Value ret, s)
       else if timeOut = 0 then (Value ret, s)
       else if g_losTaskLock s \<noteq> 0 then (Value (errno_code LOS_ERRNO_EVENT_READ_IN_LOCK), s)
       else
         let s = upd_tcb (runTask s) (\<lambda>c. c\<lparr>eventMask := evMask, eventMode := mode\<rparr>) s;
             s = OsSchedTaskWait (EventWait e) timeOut s
         in (Waiting, LOS_Schedule s))"

definition LOS_EventRead_resume ::
  "nat \<Rightarrow> nat \<Rightarrow> UINT32 \<Rightarrow> UINT32 \<Rightarrow> 'a event_state_scheme \<Rightarrow> UINT32 \<times> 'a event_state_scheme" where
  "LOS_EventRead_resume runTsk e evMask mode s =
    (if has (status s runTsk) OS_TASK_STATUS_TIMEOUT
     then (errno_code LOS_ERRNO_EVENT_READ_TIMEOUT, status_clear runTsk OS_TASK_STATUS_TIMEOUT s)
     else poll_event e evMask mode s)"

text \<open>
  The condition a write wakes a waiting task on, and the walk over the waiting tasks. The walk
  reads the next node before it wakes a task, and a wake-up takes only the task itself off the
  list, so the nodes it visits are those of the list at its start.
\<close>

definition event_met :: "UINT32 \<Rightarrow> UINT32 \<Rightarrow> task_cb \<Rightarrow> bool" where
  "event_met w new c \<longleftrightarrow>
    has (eventMode c) LOS_WAITMODE_OR \<and> eventMask c AND new \<noteq> 0 \<or>
    has (eventMode c) LOS_WAITMODE_AND \<and> eventMask c AND w = eventMask c"

fun event_walk :: "nat \<Rightarrow> UINT32 \<Rightarrow> nat list \<Rightarrow> bool \<times> 'a event_state_scheme \<Rightarrow> bool \<times> 'a event_state_scheme" where
  "event_walk e new [] (exitFlag, s) = (exitFlag, s)"
| "event_walk e new (t # ts) (exitFlag, s) =
    (if event_met (uwEventID (events s e)) new (tcb s t)
     then event_walk e new ts (True, OsSchedTaskWake t s)
     else event_walk e new ts (exitFlag, s))"

definition LOS_EventWrite :: "nat option \<Rightarrow> UINT32 \<Rightarrow> 'a event_state_scheme \<Rightarrow> errno \<times> 'a event_state_scheme" where
  "LOS_EventWrite eventCB new s =
    (case eventCB of None \<Rightarrow> (LOS_ERRNO_EVENT_PTR_NULL, s)
     | Some e \<Rightarrow>
       if listNull (events s e) then (LOS_ERRNO_EVENT_NOT_INITIALIZED, s)
       else if has new LOS_ERRTYPE_ERROR then (LOS_ERRNO_EVENT_SETBIT_INVALID, s)
       else
         let s = upd_event e (uwEventID_update (\<lambda>w. w OR new)) s;
             (exitFlag, s) = event_walk e new (pend s (EventWait e)) (False, s)
         in (LOS_OK, if exitFlag then LOS_Schedule s else s))"

text \<open>On a block whose list pointers are \<open>NULL\<close> the test for an empty list fails.\<close>

definition LOS_EventDestroy :: "nat option \<Rightarrow> 'a event_state_scheme \<Rightarrow> errno \<times> 'a event_state_scheme" where
  "LOS_EventDestroy eventCB s =
    (case eventCB of None \<Rightarrow> (LOS_ERRNO_EVENT_PTR_NULL, s)
     | Some e \<Rightarrow>
       if listNull (events s e) \<or> \<not> LOS_ListEmpty (pend s) (EventWait e)
       then (LOS_ERRNO_EVENT_SHOULD_NOT_DESTORY, s)
       else (LOS_OK, upd_event e (listNull_update (\<lambda>_. True)) s))"

definition LOS_EventClear :: "nat option \<Rightarrow> UINT32 \<Rightarrow> 'a event_state_scheme \<Rightarrow> errno \<times> 'a event_state_scheme" where
  "LOS_EventClear eventCB ev s =
    (case eventCB of None \<Rightarrow> (LOS_ERRNO_EVENT_PTR_NULL, s)
     | Some e \<Rightarrow> (LOS_OK, upd_event e (uwEventID_update (\<lambda>w. w AND ev)) s))"

end
