(* ===== verification/Event_Inv.thy ===== *)
theory Event_Inv
  imports Event
begin

text \<open>
  No wake-up is lost: a task that waits for an event waits for bits the event does not have. The
  walk of \<open>LOS_EventWrite\<close> wakes exactly the tasks whose condition the write has met.
\<close>

section \<open>Frames\<close>

lemma event_more:
  assumes "sched_state.more s' = sched_state.more s"
  shows "events s' = events s"
  using assms by (cases s; cases s'; simp)+

lemma event_frame [simp]:
  "events (upd_tcb t f s) = events s" "events (OsSchedTaskWait h ticks s) = events s"
  "events (OsSchedTaskWake t s) = events s" "events (LOS_Schedule s) = events s"
  "events (status_clear t w s) = events s"
  by (rule event_more; simp)+

lemma upd_event_sel [simp]:
  "events (upd_event e f s) = (events s)(e := f (events s e))"
  "pend (upd_event e f s) = pend s" "cfg (upd_event e f s) = cfg s" "runTask (upd_event e f s) = runTask s"
  "g_taskCBArray (upd_event e f s) = g_taskCBArray s" "g_taskMaxNum (upd_event e f s) = g_taskMaxNum s"
  "g_idleTaskID (upd_event e f s) = g_idleTaskID s" "g_losTaskLock (upd_event e f s) = g_losTaskLock s"
  "g_allSem (upd_event e f s) = g_allSem s" "g_unusedSemList (upd_event e f s) = g_unusedSemList s"
  "g_allMux (upd_event e f s) = g_allMux s" "g_unusedMuxList (upd_event e f s) = g_unusedMuxList s"
  by (simp_all add: upd_event_def)

lemma sched_inv_event [simp]: "sched_inv (upd_event e f s) = sched_inv s"
  by (rule sched_inv_frame; simp add: upd_event_def)

lemma unblocked_event [simp]: "unblocked (upd_event e f s) = unblocked s"
  by (simp add: unblocked_def)

section \<open>The invariant\<close>

definition event_ok :: "'a event_state_scheme \<Rightarrow> bool" where
  "event_ok s \<longleftrightarrow> (\<forall>e t. t \<in> set (pend s (EventWait e)) \<longrightarrow>
    \<not> listNull (events s e) \<and> \<not> event_met (uwEventID (events s e)) (uwEventID (events s e)) (tcb s t))"

lemma event_okD:
  "event_ok s \<Longrightarrow> t \<in> set (pend s (EventWait e)) \<Longrightarrow> \<not> listNull (events s e)"
  "event_ok s \<Longrightarrow> t \<in> set (pend s (EventWait e)) \<Longrightarrow>
    \<not> event_met (uwEventID (events s e)) (uwEventID (events s e)) (tcb s t)"
  by (auto simp: event_ok_def)

lemma event_met_mono:
  assumes "\<not> event_met w w c" "w' AND w = w'"
  shows "\<not> event_met w' w' c"
proof -
  have a: "w' AND (w AND x) = w' AND x" for x
    by (simp add: and.assoc [symmetric] assms(2))
  have "w AND x = 0 \<Longrightarrow> w' AND x = 0" for x
    using a [of x] by simp
  moreover have "w AND x = x" if "w' AND x = x" for x
    using a [of x] that by (metis and.left_commute)
  ultimately show ?thesis
    using assms(1) unfolding event_met_def by (metis and.commute)
qed

definition event_inv :: "'a event_state_scheme \<Rightarrow> bool" where
  "event_inv s \<longleftrightarrow> sched_inv s \<and> event_ok s"

lemma event_invD: "event_inv s \<Longrightarrow> sched_inv s" "event_inv s \<Longrightarrow> event_ok s"
  by (simp_all add: event_inv_def)

section \<open>Polling\<close>

lemma poll_event_eq:
  "poll_event e evMask mode s =
    (let w = uwEventID (events s e);
         ret = (if has mode LOS_WAITMODE_OR \<or> evMask = w AND evMask then w AND evMask else 0)
     in (ret, upd_event e (uwEventID_update (\<lambda>_. if ret \<noteq> 0 \<and> has mode LOS_WAITMODE_CLR
          then w AND NOT ret else w)) s))"
  by (auto simp: poll_event_def LOS_EventPoll_def Let_def)

lemma poll_event_sel [simp]:
  "g_losTaskLock (snd (poll_event e evMask mode s)) = g_losTaskLock s"
  "runTask (snd (poll_event e evMask mode s)) = runTask s"
  "pend (snd (poll_event e evMask mode s)) = pend s"
  "g_taskCBArray (snd (poll_event e evMask mode s)) = g_taskCBArray s"
  by (simp_all add: poll_event_def LOS_EventPoll_def Let_def)

lemma poll_event_inv:
  assumes "event_inv s" shows "event_inv (snd (poll_event e evMask mode s))"
proof -
  let ?w = "uwEventID (events s e)"
  let ?ret = "if has mode LOS_WAITMODE_OR \<or> evMask = ?w AND evMask then ?w AND evMask else 0"
  define v where "v = (if ?ret \<noteq> 0 \<and> has mode LOS_WAITMODE_CLR then ?w AND NOT ?ret else ?w)"
  have q: "snd (poll_event e evMask mode s) = upd_event e (uwEventID_update (\<lambda>_. v)) s"
    unfolding poll_event_eq Let_def v_def by (rule snd_conv)
  have "(w AND x) AND w = w AND x" for w x :: UINT32
    by (simp add: ac_simps)
  then have v: "v AND ?w = v" unfolding v_def by (simp split: if_split)
  have "event_ok (upd_event e (uwEventID_update (\<lambda>_. v)) s)"
    unfolding event_ok_def
  proof (intro allI impI)
    fix f t assume t: "t \<in> set (pend (upd_event e (uwEventID_update (\<lambda>_. v)) s) (EventWait f))"
    then have t: "t \<in> set (pend s (EventWait f))" by simp
    note d = event_okD [OF event_invD(2) [OF assms] t]
    let ?q = "upd_event e (uwEventID_update (\<lambda>_. v)) s"
    show "\<not> listNull (events ?q f) \<and>
      \<not> event_met (uwEventID (events ?q f)) (uwEventID (events ?q f)) (tcb ?q t)"
    proof (cases "f = e")
      case True
      then have "\<not> event_met v v (tcb s t)" using event_met_mono [OF _ v, of "tcb s t"] d(2) by blast
      with d(1) True show ?thesis by simp
    qed (use d in simp)
  qed
  with assms show ?thesis by (simp add: event_inv_def q)
qed

section \<open>Writing\<close>

definition event_woken :: "'a event_state_scheme \<Rightarrow> 'a event_state_scheme \<Rightarrow> nat \<Rightarrow> bool" where
  "event_woken s s' t \<longleftrightarrow>
    \<not> has (status s' t) (OS_TASK_STATUS_PEND OR OS_TASK_STATUS_PEND_TIME) \<and>
    (has (status s t) OS_TASK_STATUS_SUSPEND \<or> has (status s' t) OS_TASK_STATUS_READY)"

lemma Wake_woken: "event_woken s (OsSchedTaskWake t s) t"
  by (auto simp: event_woken_def Wake_eq Let_def EnQueue_sel)

text \<open>What the walk over \<open>ts\<close> does to a state; \<open>met\<close> tells the tasks that are woken.\<close>

definition walk_result ::
  "nat \<Rightarrow> nat list \<Rightarrow> (nat \<Rightarrow> bool) \<Rightarrow> 'a event_state_scheme \<Rightarrow> 'a event_state_scheme \<Rightarrow> bool" where
  "walk_result e ts met s s' \<longleftrightarrow>
    sched_inv s' \<and> unblocked s' \<and> runTask s' = runTask s \<and> events s' = events s \<and> calm {} s s' \<and>
    (\<forall>k. is_wait k \<longrightarrow> pend s' k =
      (if k = EventWait e then filter (\<lambda>t. \<not> (t \<in> set ts \<and> met t)) (pend s k) else pend s k)) \<and>
    (\<forall>t. if t \<in> set ts \<and> met t then event_woken s s' t else tcb s' t = tcb s t)"

lemma walk_resultD:
  assumes "walk_result e ts met s s'"
  shows "sched_inv s'" "unblocked s'" "runTask s' = runTask s" "events s' = events s" "calm {} s s'"
    and "is_wait k \<Longrightarrow> pend s' k =
      (if k = EventWait e then filter (\<lambda>t. \<not> (t \<in> set ts \<and> met t)) (pend s k) else pend s k)"
    and "t \<in> set ts \<Longrightarrow> met t \<Longrightarrow> event_woken s s' t"
    and "\<not> (t \<in> set ts \<and> met t) \<Longrightarrow> tcb s' t = tcb s t"
  using assms unfolding walk_result_def by metis+

text \<open>The tasks of the list are all that \<open>met\<close> is asked about.\<close>

lemma walk_cong:
  assumes "walk_result e ts met s s'" "\<And>t. t \<in> set ts' \<and> met' t \<longleftrightarrow> t \<in> set ts \<and> met t"
  shows "walk_result e ts' met' s s'"
  using assms(1) unfolding walk_result_def assms(2) .

lemma walk_wake:
  assumes inv: "sched_inv s" "unblocked s" and t: "t \<in> set (pend s (EventWait e))" "t \<notin> set ts" "met t"
    and r: "walk_result e ts met (OsSchedTaskWake t s) s'"
  shows "walk_result e (t # ts) met s s'"
proof -
  define q where "q = OsSchedTaskWake t s"
  note d = walk_resultD [OF r [folded q_def]]
  have p: "pend q k = (if k = EventWait e then remove1 t (pend s k) else pend s k)" if "is_wait k" for k
    using pend_Wake [OF inv(1) _ t(1) that] by (simp add: q_def)
  have other: "u \<noteq> t \<Longrightarrow> tcb q u = tcb s u" for u by (simp add: q_def Wake_other)
  have run: "runTask q = runTask s" using unblocked_Wake(2) [OF inv _ t(1)] by (simp add: q_def)
  have ev: "events q = events s" by (simp add: q_def)
  have dist: "distinct (pend s (EventWait e))"
    using sched_invD(3) [OF inv(1)] by (simp add: lists_ok_def store_ok_def)
  have f: "filter (\<lambda>u. \<not> (u \<in> set ts \<and> met u)) (remove1 t (pend s (EventWait e))) =
      filter (\<lambda>u. \<not> (u \<in> set (t # ts) \<and> met u)) (pend s (EventWait e))"
    unfolding distinct_remove1_removeAll [OF dist] removeAll_filter_not_eq filter_filter
    using t(3) by (intro filter_cong) auto
  have pp: "pend s' k = (if k = EventWait e
      then filter (\<lambda>u. \<not> (u \<in> set (t # ts) \<and> met u)) (pend s k) else pend s k)" if "is_wait k" for k
    using d(6) [OF that] p [OF that] f by (cases "k = EventWait e") simp_all
  have "calm {} s q" unfolding q_def by (intro calm_intros) simp
  then have c: "calm {} s s'"
    using calmD(1,2) [OF d(5)] pp unfolding calm_def by auto
  have t': "tcb s' t = tcb q t" by (rule d(8)) (simp add: t(2))
  have w: "event_woken s s' t"
    using Wake_woken [of s t] unfolding event_woken_def q_def [symmetric] t' .
  have w': "event_woken s s' u" if "u \<in> set ts" "met u" for u
  proof -
    have "u \<noteq> t" using that t(2) by auto
    with d(7) [OF that] other show ?thesis by (simp add: event_woken_def)
  qed
  have "if u \<in> set (t # ts) \<and> met u then event_woken s s' u else tcb s' u = tcb s u" for u
    using w w' [of u] d(8) [of u] other [of u] t(3) by auto
  then show ?thesis
    unfolding walk_result_def using d(1,2) d(3,4) [unfolded run ev] c pp by blast
qed

lemma event_walk_spec:
  assumes "sched_inv s" "unblocked s" "distinct ts" "set ts \<subseteq> set (pend s (EventWait e))"
  shows "walk_result e ts (\<lambda>t. event_met (uwEventID (events s e)) new (tcb s t)) s
    (snd (event_walk e new ts (b, s)))"
  using assms
proof (induction ts arbitrary: b s)
  case Nil
  then show ?case by (simp add: walk_result_def)
next
  case (Cons t ts)
  let ?met = "\<lambda>t. event_met (uwEventID (events s e)) new (tcb s t)"
  have mem: "t \<in> set (pend s (EventWait e))" and sub: "set ts \<subseteq> set (pend s (EventWait e))"
    and dist: "distinct ts" "t \<notin> set ts"
    using Cons.prems(3,4) by auto
  show ?case
  proof (cases "?met t")
    case False
    have "walk_result e (t # ts) ?met s (snd (event_walk e new ts (b, s)))"
      by (rule walk_cong [OF Cons.IH [OF Cons.prems(1,2) dist(1) sub]]) (use False in auto)
    with False show ?thesis by simp
  next
    case True
    let ?q = "OsSchedTaskWake t s"
    have inv: "sched_inv ?q"
      using sched_inv_Wake [OF Cons.prems(1)] waiter [OF Cons.prems(1) _ mem] Cons.prems(2) by simp
    have ub: "unblocked ?q" using unblocked_Wake(1) [OF Cons.prems(1,2) _ mem] by simp
    have sub': "set ts \<subseteq> set (pend ?q (EventWait e))"
    proof
      fix u assume "u \<in> set ts"
      moreover from this dist(2) have "u \<noteq> t" by auto
      ultimately show "u \<in> set (pend ?q (EventWait e))"
        using sub pend_Wake [OF Cons.prems(1) _ mem, of "EventWait e"] by auto
    qed
    have "walk_result e ts ?met ?q (snd (event_walk e new ts (True, ?q)))"
    proof (rule walk_cong [OF Cons.IH [OF inv ub dist(1) sub']])
      have "tcb ?q u = tcb s u" if "u \<in> set ts" for u
        using that dist(2) by (intro Wake_other) auto
      then show "u \<in> set ts \<and> ?met u \<longleftrightarrow>
        u \<in> set ts \<and> event_met (uwEventID (events ?q e)) new (tcb ?q u)" for u by auto
    qed
    from walk_wake [where met = ?met, OF Cons.prems(1,2) mem dist(2) True this] True show ?thesis by simp
  qed
qed

lemma event_walk_flag:
  "fst (event_walk e new ts (True, s))"
  by (induction ts arbitrary: s) simp_all

end
