(* ===== verification/Event_Props.thy ===== *)
theory Event_Props
  imports Event_Inv
begin

text \<open>
  What the event services promise, over the model of \<open>los_event.c\<close>: polling, waiting and writing,
  and one thing they do not keep: of two tasks a write wakes, the second can find its bits gone.
\<close>

text \<open>
  Event 0 has bit 0 set and task 3 waits for bits 0 and 1 of it; event 1 has bits 0 and 2 set, the
  others are not initialised.
\<close>

definition event_demo :: "'a \<Rightarrow> 'a event_state_scheme" where
  "event_demo m = upd_tcb 3 (\<lambda>c. c\<lparr>eventMask := 3, eventMode := LOS_WAITMODE_AND\<rparr>)
    (demo_at (EventWait 0)
      (sem_state_ext (\<lambda>i. \<lparr>semStat = OS_SEM_UNUSED, semCount = 0, maxSemCount = 0, semID = i\<rparr>) (\<lambda>_. [])
      (mux_state_ext (\<lambda>i. \<lparr>muxStat = OS_MUX_UNUSED, muxCount = 0, muxID = i, owner = None, muxPriority = 0\<rparr>) (\<lambda>_. [])
      (event_state_ext ((\<lambda>_. \<lparr>uwEventID = 0, listNull = True\<rparr>)
        (0 := \<lparr>uwEventID = 1, listNull = False\<rparr>, 1 := \<lparr>uwEventID = 5, listNull = False\<rparr>)) m))))"

lemma event_demo_sel [simp]:
  "events (event_demo m) 0 = \<lparr>uwEventID = 1, listNull = False\<rparr>"
  "events (event_demo m) (Suc 0) = \<lparr>uwEventID = 5, listNull = False\<rparr>"
  "pend (event_demo m) = (\<lambda>_. [])(PriQ 10 := [2], FreeTask := [4, 5], EventWait 0 := [3])"
  "runTask (event_demo m) = 1" "g_idleTaskID (event_demo m) = 0" "g_losTaskLock (event_demo m) = 0"
  "\<not> OS_INT_ACTIVE (event_demo m)"
  "eventMask (tcb (event_demo m) 3) = 3" "eventMode (tcb (event_demo m) 3) = LOS_WAITMODE_AND"
  by (simp_all add: event_demo_def demo_at_def demo_def)

lemma event_demo_status:
  "\<not> has (status (event_demo m) 3) OS_TASK_STATUS_TIMEOUT" "\<not> has (status (event_demo m) 1) OS_TASK_STATUS_TIMEOUT"
  by (simp_all add: event_demo_def demo_at_def demo_tasks) (simp add: demo_def)

lemma event_demo_inv: "event_inv (event_demo m)"
proof -
  have "sched_inv (event_demo m)"
    unfolding event_demo_def by (intro sched_inv_fields demo_at_inv) simp_all
  moreover have "event_ok (event_demo m)"
    by (auto simp: event_ok_def event_met_def LOS_WAITMODE_AND_def LOS_WAITMODE_OR_def has_def split: if_splits)
  ultimately show ?thesis by (simp add: event_inv_def)
qed

lemma event_demo_unblocked: "unblocked (event_demo m)"
  by (simp add: event_demo_def unblocked_fields) (simp add: unblocked_def demo_at_def demo_def zero_tcb_def)

lemma event_lists:
  assumes "sched_inv s" "f \<noteq> e" "t \<in> set (pend s (EventWait f))"
  shows "t \<notin> set (pend s (EventWait e))"
proof -
  have "EventWait f \<noteq> EventWait e" using assms(2) by simp
  then have "set (pend s (EventWait f)) \<inter> set (pend s (EventWait e)) = {}"
    using sched_invD(3) [OF assms(1)] unfolding lists_ok_def store_ok_def by blast
  with assms(3) show ?thesis by blast
qed

section \<open>Writing\<close>

text \<open>
  C28: \<open>LOS_EventWrite\<close> sets the bits of the event, wakes exactly the waiting tasks whose condition
  the write has met and leaves the others waiting in their order; no task is left waiting for bits
  the event has.
\<close>

theorem event_write_wakes:
  assumes "event_inv s" "unblocked s" "\<not> listNull (events s e)" "\<not> has new LOS_ERRTYPE_ERROR"
  shows "let w = uwEventID (events s e) OR new; met = (\<lambda>t. event_met w new (tcb s t));
      s' = snd (LOS_EventWrite (Some e) new s) in
    fst (LOS_EventWrite (Some e) new s) = LOS_OK \<and>
    uwEventID (events s' e) = w \<and>
    pend s' (EventWait e) = filter (\<lambda>t. \<not> met t) (pend s (EventWait e)) \<and>
    (\<forall>t\<in>set (pend s (EventWait e)). met t \<longrightarrow> event_woken s s' t) \<and>
    (\<forall>t. t \<notin> set (pend s (EventWait e)) \<or> \<not> met t \<longrightarrow> tcb s' t = tcb s t) \<and>
    event_inv s'"
proof -
  let ?L = "pend s (EventWait e)"
  let ?w = "uwEventID (events s e) OR new"
  let ?q = "upd_event e (uwEventID_update (\<lambda>w. w OR new)) s"
  let ?r = "event_walk e new ?L (False, ?q)"
  let ?met = "\<lambda>t. event_met ?w new (tcb s t)"
  note inv = event_invD [OF assms(1)]
  have dist: "distinct ?L"
    using sched_invD(3) [OF inv(1)] by (simp add: lists_ok_def store_ok_def)
  have "walk_result e ?L ?met ?q (snd ?r)"
    using event_walk_spec [of ?q ?L e new False] inv(1) assms(2) dist by simp
  note d = walk_resultD [OF this]
  define s' where "s' = snd (LOS_EventWrite (Some e) new s)"
  have w: "fst (LOS_EventWrite (Some e) new s) = LOS_OK"
    "s' = snd ?r \<or> s' = LOS_Schedule (snd ?r)"
    using assms(3,4) by (auto simp: s'_def LOS_EventWrite_def Let_def split: prod.split)
  have same: "pend s' = pend (snd ?r)" "tcb s' t = tcb (snd ?r) t" "events s' = events (snd ?r)"
    "sched_inv s'" for t
    using w(2) d(1) by (elim disjE; simp)+
  have p: "pend s' k = (if k = EventWait e then filter (\<lambda>t. \<not> ?met t) ?L else pend s k)" if "is_wait k" for k
    using d(6) [OF that] by (simp add: same(1)) (rule impI, rule filter_cong, simp_all)
  have t: "tcb s' t = tcb s t" if "t \<notin> set ?L \<or> \<not> ?met t" for t
    using d(8) [of t] that by (auto simp: same(2))
  have "event_ok s'"
    unfolding event_ok_def
  proof (intro allI impI)
    fix f t assume "t \<in> set (pend s' (EventWait f))"
    then have f: "t \<in> set (pend s (EventWait f))" "f = e \<Longrightarrow> \<not> ?met t"
      using p [of "EventWait f"] by (auto split: if_splits)
    note o = event_okD [OF inv(2) f(1)]
    have "tcb s' t = tcb s t"
    proof (rule t)
      show "t \<notin> set ?L \<or> \<not> ?met t"
        using f event_lists [OF inv(1), of f e] by (cases "f = e") auto
    qed
    moreover have "\<not> event_met ?w ?w (tcb s t)" if "f = e"
      using o(2) f(2) that unfolding event_met_def
      by (auto simp: bit.conj_disj_distrib)
    ultimately show "\<not> listNull (events s' f) \<and>
        \<not> event_met (uwEventID (events s' f)) (uwEventID (events s' f)) (tcb s' t)"
      using o by (cases "f = e") (simp_all add: same(3) d(4))
  qed
  then have "event_inv s'" using same(4) by (simp add: event_inv_def)
  moreover have "event_woken s s' t" if "t \<in> set ?L" "?met t" for t
    using d(7) [OF that] by (simp add: event_woken_def same(2))
  ultimately show ?thesis
    using w(1) p [of "EventWait e"] t by (simp add: Let_def s'_def [symmetric]) (simp add: same(3) d(4))
qed

theorem event_write_wakes_witness:
  "pend (snd (LOS_EventWrite (Some 0) 2 (event_demo ()))) (EventWait 0) = [] \<and>
   pend (snd (LOS_EventWrite (Some 0) 4 (event_demo ()))) (EventWait 0) = [3]"
  using event_write_wakes [OF event_demo_inv [of "()"] event_demo_unblocked, of 0 2]
    event_write_wakes [OF event_demo_inv [of "()"] event_demo_unblocked, of 0 4]
  by (simp add: Let_def event_met_def has_def LOS_WAITMODE_AND_def LOS_WAITMODE_OR_def LOS_ERRTYPE_ERROR_def)

section \<open>Reading\<close>

lemma and_not_and: "w AND NOT (w AND m) = w AND NOT (m :: UINT32)"
  by (rule bit_eqI) (auto simp: bit_simps)

lemma and_not_or: "w AND (NOT w OR NOT m) = w AND NOT (m :: UINT32)"
  by (rule bit_eqI) (auto simp: bit_simps)

lemma and_not_disjoint: "w AND m = 0 \<Longrightarrow> w AND NOT m = (w :: UINT32)"
  using and_not_and [of w m] by simp

lemma EventRead_ready:
  assumes "OsEventReadParamCheck (Some e) m mode s = LOS_OK" "\<not> OS_INT_ACTIVE s" "g_losTaskLock s = 0"
  shows "LOS_EventRead (Some e) m mode timeOut s =
    (let (ret, q) = poll_event e m mode s
     in if ret \<noteq> 0 then (Value ret, q) else if timeOut = 0 then (Value ret, q)
     else (Waiting, LOS_Schedule (OsSchedTaskWait (EventWait e) timeOut
       (upd_tcb (runTask q) (\<lambda>c. c\<lparr>eventMask := m, eventMode := mode\<rparr>) q))))"
proof -
  obtain ret q where p: "poll_event e m mode s = (ret, q)" by fastforce
  have "g_losTaskLock q = 0"
    using poll_event_sel(1) [of e m mode s] assms(3) by (simp only: p snd_conv)
  then show ?thesis using assms(1,2) by (simp add: LOS_EventRead_def p)
qed

lemma err_self [simp]: "has LOS_ERRTYPE_ERROR LOS_ERRTYPE_ERROR"
  by (simp add: errtype_flags has_flag_flag)

lemma mode_cases:
  assumes "OsEventReadParamCheck (Some e) m mode s = LOS_OK"
  shows "\<not> listNull (events s e)" "m \<noteq> 0" "\<not> has m LOS_ERRTYPE_ERROR"
    and "has mode LOS_WAITMODE_AND \<longleftrightarrow> \<not> has mode LOS_WAITMODE_OR"
  using assms by (auto simp: OsEventReadParamCheck_def split: if_splits)

text \<open>
  C29: \<open>LOS_EventRead\<close> with valid parameters returns the bits it was asked for when they are there
  (any of them with \<open>LOS_WAITMODE_OR\<close>, all with \<open>LOS_WAITMODE_AND\<close>) and clears exactly those with
  \<open>LOS_WAITMODE_CLR\<close>; otherwise it returns 0 when it must not wait, or blocks at the end of the
  queue of the event. In no case does a task wait for bits the event has.
\<close>

theorem event_read:
  assumes "event_inv s" "unblocked s" "runTask s \<noteq> g_idleTaskID s" "\<not> OS_INT_ACTIVE s" "g_losTaskLock s = 0"
    "OsEventReadParamCheck (Some e) m mode s = LOS_OK"
  shows "let w = uwEventID (events s e);
      r = fst (LOS_EventRead (Some e) m mode timeOut s);
      s' = snd (LOS_EventRead (Some e) m mode timeOut s) in
    event_inv s' \<and>
    (if (if has mode LOS_WAITMODE_OR then w AND m \<noteq> 0 else w AND m = m)
     then r = Value (w AND m) \<and> w AND m \<noteq> 0 \<and> pend s' = pend s \<and>
       uwEventID (events s' e) = (if has mode LOS_WAITMODE_CLR then w AND NOT m else w)
     else if timeOut = 0 then r = Value 0 \<and> s' = s
     else r = Waiting \<and> events s' = events s \<and>
       pend s' = (pend s)(EventWait e := pend s (EventWait e) @ [runTask s]))"
proof -
  let ?w = "uwEventID (events s e)"
  let ?met = "if has mode LOS_WAITMODE_OR then ?w AND m \<noteq> 0 else ?w AND m = m"
  let ?ret = "if has mode LOS_WAITMODE_OR \<or> m = ?w AND m then ?w AND m else 0"
  note c = mode_cases [OF assms(6)] and inv = event_invD [OF assms(1)]
  have ret: "?ret \<noteq> 0 \<longleftrightarrow> ?met" "?met \<Longrightarrow> ?ret = ?w AND m"
    unfolding eq_commute [of m "?w AND m"] using c(2) by (cases "has mode LOS_WAITMODE_OR"; auto)+
  have poll: "poll_event e m mode s =
      (?ret, upd_event e (uwEventID_update (\<lambda>_. if ?ret \<noteq> 0 \<and> has mode LOS_WAITMODE_CLR
          then ?w AND NOT ?ret else ?w)) s)"
    by (simp only: poll_event_eq Let_def)
  have read: "LOS_EventRead (Some e) m mode timeOut s =
    (let (ret, q) = poll_event e m mode s
     in if ret \<noteq> 0 then (Value ret, q) else if timeOut = 0 then (Value ret, q)
     else (Waiting, LOS_Schedule (OsSchedTaskWait (EventWait e) timeOut
       (upd_tcb (runTask q) (\<lambda>c. c\<lparr>eventMask := m, eventMode := mode\<rparr>) q))))"
    by (rule EventRead_ready [OF assms(6,4,5)])
  show ?thesis
  proof (cases ?met)
    case True
    with ret have r: "?ret = ?w AND m" "?w AND m \<noteq> 0" by auto
    let ?v = "if has mode LOS_WAITMODE_CLR then ?w AND NOT m else ?w"
    have pq: "poll_event e m mode s = (?w AND m, upd_event e (uwEventID_update (\<lambda>_. ?v)) s)"
      unfolding poll r(1) using r(2) by (simp add: and_not_or)
    have eq: "LOS_EventRead (Some e) m mode timeOut s =
        (Value (?w AND m), upd_event e (uwEventID_update (\<lambda>_. ?v)) s)"
      unfolding read pq using r(2) by simp
    have "event_inv (upd_event e (uwEventID_update (\<lambda>_. ?v)) s)"
      using poll_event_inv [OF assms(1), of e m mode] by (simp only: pq snd_conv)
    with True r(2) show ?thesis unfolding Let_def eq by simp
  next
    case False
    with ret(1) have r: "?ret = 0" by blast
    have q: "snd (poll_event e m mode s) = s" unfolding poll r by (simp add: upd_event_def)
    have p: "poll_event e m mode s = (0, s)" using q r by (simp only: poll prod.inject snd_conv)
    show ?thesis
    proof (cases "timeOut = 0")
      case True
      with False p assms(1) show ?thesis unfolding Let_def read by simp
    next
      case wait: False
      define s' where "s' = LOS_Schedule (OsSchedTaskWait (EventWait e) timeOut
        (upd_tcb (runTask s) (\<lambda>c. c\<lparr>eventMask := m, eventMode := mode\<rparr>) s))"
      have eq: "LOS_EventRead (Some e) m mode timeOut s = (Waiting, s')"
        using wait unfolding read p s'_def by simp
      have sel: "pend s' = (pend s)(EventWait e := pend s (EventWait e) @ [runTask s])"
        "events s' = events s"
        "eventMask (tcb s' t) = (if t = runTask s then m else eventMask (tcb s t))"
        "eventMode (tcb s' t) = (if t = runTask s then mode else eventMode (tcb s t))" for t
        by (simp_all add: s'_def pend_Wait) (simp_all add: OsSchedTaskWait_def Let_def)
      have "event_ok s'"
        unfolding event_ok_def
      proof (intro allI impI)
        fix f t assume t: "t \<in> set (pend s' (EventWait f))"
        show "\<not> listNull (events s' f) \<and>
            \<not> event_met (uwEventID (events s' f)) (uwEventID (events s' f)) (tcb s' t)"
        proof (cases "t = runTask s")
          case True
          with t unblocked_nowhere [OF inv(1) assms(2)] have "f = e"
            by (auto simp: sel(1) split: if_splits)
          with True c(1,4) False show ?thesis
            by (auto simp: sel(2-4) event_met_def and.commute split: if_splits)
        next
          case other: False
          then have "t \<in> set (pend s (EventWait f))" using t by (auto simp: sel(1) split: if_splits)
          from event_okD [OF inv(2) this] other show ?thesis by (simp add: sel(2-4) event_met_def)
        qed
      qed
      moreover have "sched_inv s'"
        unfolding s'_def using assms(2,3) by (intro block_inv [OF inv(1)]) simp_all
      ultimately show ?thesis
        using False wait by (simp add: Let_def eq sel(1,2) event_inv_def)
    qed
  qed
qed

lemma event_demo_check:
  "OsEventReadParamCheck (Some (Suc 0)) 3 LOS_WAITMODE_OR (event_demo m) = LOS_OK"
  "OsEventReadParamCheck (Some (Suc 0)) 3 LOS_WAITMODE_AND (event_demo m) = LOS_OK"
  by (simp_all add: OsEventReadParamCheck_def LOS_WAITMODE_OR_def LOS_WAITMODE_AND_def
      LOS_WAITMODE_CLR_def LOS_ERRTYPE_ERROR_def has_def)

theorem event_read_witness:
  "fst (LOS_EventRead (Some 1) 3 LOS_WAITMODE_OR 10 (event_demo ())) = Value 1 \<and>
   fst (LOS_EventRead (Some 1) 3 LOS_WAITMODE_AND 10 (event_demo ())) = Waiting \<and>
   fst (LOS_EventRead (Some 1) 3 LOS_WAITMODE_AND 0 (event_demo ())) = Value 0"
  using event_read [OF event_demo_inv [of "()"] event_demo_unblocked _ _ _ event_demo_check(1), of 10]
    event_read [OF event_demo_inv [of "()"] event_demo_unblocked _ _ _ event_demo_check(2), of 10]
    event_read [OF event_demo_inv [of "()"] event_demo_unblocked _ _ _ event_demo_check(2), of 0]
  by (simp add: Let_def has_def LOS_WAITMODE_OR_def LOS_WAITMODE_AND_def)

text \<open>
  The word a read returns without waiting tells an error from bits: with bit 25 set it is an
  error code, and the state is as it was; with bit 25 clear the parameters were valid and the word
  holds only bits that were asked for and that the event had.
\<close>

theorem event_read_result:
  assumes "LOS_EventRead eventCB m mode timeOut s = (Value v, s')"
  shows "if has v LOS_ERRTYPE_ERROR then s' = s
    else \<exists>e. eventCB = Some e \<and> OsEventReadParamCheck eventCB m mode s = LOS_OK \<and>
      v AND (uwEventID (events s e) AND m) = v"
proof -
  let ?chk = "OsEventReadParamCheck eventCB m mode s"
  have code: "has (errno_code ?chk) LOS_ERRTYPE_ERROR" if "?chk \<noteq> LOS_OK"
    using that by (auto simp: OsEventReadParamCheck_def split: option.splits if_splits)
  show ?thesis
  proof (cases "?chk = LOS_OK")
    case False
    with assms code show ?thesis by (auto simp: LOS_EventRead_def Let_def)
  next
    case chk: True
    then obtain e where e: "eventCB = Some e" by (cases eventCB) (auto simp: OsEventReadParamCheck_def)
    let ?w = "uwEventID (events s e)"
    obtain ret q where p: "poll_event e m mode s = (ret, q)" by fastforce
    have ret: "ret = (if has mode LOS_WAITMODE_OR \<or> m = ?w AND m then ?w AND m else 0)"
      and q: "ret = 0 \<Longrightarrow> q = s"
      using p unfolding poll_event_eq Let_def by (auto simp: upd_event_def)
    have bits: "ret AND (?w AND m) = ret" unfolding ret by simp
    have clear: "\<not> has ret LOS_ERRTYPE_ERROR"
      using mode_cases(3) [OF chk [unfolded e]] unfolding ret errtype_flags by (auto simp: single_flag)
    have "v = ret \<or> has v LOS_ERRTYPE_ERROR \<and> s' = s"
      using assms chk q by (auto simp: LOS_EventRead_def Let_def e p split: if_split_asm)
    with bits clear chk e show ?thesis by auto
  qed
qed

theorem event_read_result_witness:
  "\<exists>v s'. LOS_EventRead (Some 2) 3 LOS_WAITMODE_OR 10 (event_demo ()) = (Value v, s') \<and>
    has v LOS_ERRTYPE_ERROR \<and> s' = event_demo ()"
proof -
  have "listNull (events (event_demo ()) 2)" by (simp add: event_demo_def demo_at_def demo_def)
  then have r: "LOS_EventRead (Some 2) 3 LOS_WAITMODE_OR 10 (event_demo ()) =
      (Value (errno_code LOS_ERRNO_EVENT_NOT_INITIALIZED), event_demo ())"
    by (simp add: LOS_EventRead_def OsEventReadParamCheck_def)
  with event_read_result [OF r] show ?thesis by auto
qed

text \<open>
  Two tasks that one write has woken run one after the other, and each polls again. When the
  first clears the bits it reads, the second, which asked for some of the same bits, gets the
  word 0, although it waited, perhaps for ever, for bits that were written.
\<close>

theorem event_bits_stolen:
  assumes "\<not> has (status s t) OS_TASK_STATUS_TIMEOUT" "\<not> has (status s u) OS_TASK_STATUS_TIMEOUT"
    "has mode LOS_WAITMODE_OR" "has mode LOS_WAITMODE_CLR" "m' AND m = m'" "m' \<noteq> 0"
  shows "fst (LOS_EventRead_resume u e m' mode' (snd (LOS_EventRead_resume t e m mode s))) = 0"
proof -
  let ?w = "uwEventID (events s e)"
  define q where "q = snd (LOS_EventRead_resume t e m mode s)"
  have w: "uwEventID (events q e) = ?w AND NOT m" and st: "status q u = status s u"
    using assms(1,3,4) and_not_disjoint [of ?w m]
    by (simp_all add: q_def LOS_EventRead_resume_def poll_event_eq Let_def and_not_or)
  have "(?w AND NOT m) AND m' = ?w AND (NOT m AND (m' AND m))" by (simp add: assms(5) and.assoc)
  also have "NOT m AND (m' AND m) = 0" by (rule bit_eqI) (auto simp: bit_simps)
  finally have "(?w AND NOT m) AND m' = 0" by simp
  then have "fst (LOS_EventRead_resume u e m' mode' q) = 0"
    using assms(2,6) by (simp add: LOS_EventRead_resume_def st poll_event_eq Let_def w)
  then show ?thesis by (simp only: q_def)
qed

theorem event_bits_stolen_witness:
  "fst (LOS_EventRead_resume 3 1 4 LOS_WAITMODE_AND
    (snd (LOS_EventRead_resume 1 1 4 (LOS_WAITMODE_OR OR LOS_WAITMODE_CLR) (event_demo ())))) = 0"
  using event_demo_status by (intro event_bits_stolen)
    (simp_all add: has_def LOS_WAITMODE_OR_def LOS_WAITMODE_CLR_def)

end
