(* ===== verification/Membox.thy ===== *)
theory Membox
  imports Pool
begin

text \<open>
  Pools of blocks of one size (\<open>kernel/src/mm/los_membox.c\<close>), as built without
  \<open>LOSCFG_PLATFORM_EXC\<close>. The memory is a map from addresses to words: the code reads and writes
  the pool at the addresses of its words only. \<open>LOS_MEMBOX_INFO\<close> is 16 bytes long:
  \<open>uwBlkSize\<close>, \<open>uwBlkNum\<close>, \<open>uwBlkCnt\<close> and the link \<open>pstNext\<close> of the free list. Every block has
  one word before the caller's part; it links the free blocks and holds a magic number with the
  task that owns the block while it is allocated.
\<close>

section \<open>Memory\<close>

type_synonym memory = "UINT32 \<Rightarrow> UINT32"

definition uwBlkSize :: "UINT32 \<Rightarrow> UINT32" where "uwBlkSize pool = pool"

definition uwBlkNum :: "UINT32 \<Rightarrow> UINT32" where "uwBlkNum pool = pool + 4"

definition uwBlkCnt :: "UINT32 \<Rightarrow> UINT32" where "uwBlkCnt pool = pool + 8"

definition stFreeList :: "UINT32 \<Rightarrow> UINT32" where "stFreeList pool = pool + 12"

definition sizeof_MEMBOX_INFO :: UINT32 where "sizeof_MEMBOX_INFO = 16"

definition OS_MEMBOX_NODE_HEAD_SIZE :: UINT32 where "OS_MEMBOX_NODE_HEAD_SIZE = 4"

definition OS_MEMBOX_NEXT :: "UINT32 \<Rightarrow> UINT32 \<Rightarrow> UINT32" where
  "OS_MEMBOX_NEXT addr blkSize = addr + blkSize"

definition OS_MEMBOX_USER_ADDR :: "UINT32 \<Rightarrow> UINT32" where
  "OS_MEMBOX_USER_ADDR addr = addr + OS_MEMBOX_NODE_HEAD_SIZE"

definition OS_MEMBOX_NODE_ADDR :: "UINT32 \<Rightarrow> UINT32" where
  "OS_MEMBOX_NODE_ADDR addr = addr - OS_MEMBOX_NODE_HEAD_SIZE"

definition LOS_MEMBOX_ALLIGNED :: "UINT32 \<Rightarrow> UINT32" where
  "LOS_MEMBOX_ALLIGNED memAddr = (memAddr + 4 - 1) AND NOT 3"

section \<open>The magic word\<close>

definition OS_MEMBOX_MAGIC :: UINT32 where "OS_MEMBOX_MAGIC = 0xa55a5a00"

definition OS_MEMBOX_TASKID_BITS :: nat where "OS_MEMBOX_TASKID_BITS = 8"

definition OS_MEMBOX_MAX_TASKID :: UINT32 where
  "OS_MEMBOX_MAX_TASKID = push_bit OS_MEMBOX_TASKID_BITS 1 - 1"

definition OS_MEMBOX_TASKID_GET :: "UINT32 \<Rightarrow> UINT32" where
  "OS_MEMBOX_TASKID_GET addr = addr AND OS_MEMBOX_MAX_TASKID"

text \<open>\<open>cur\<close> is the value of \<open>LOS_CurTaskIDGet\<close>, which is cut to eight bits.\<close>

definition OsMemBoxSetMagic :: "UINT32 \<Rightarrow> UINT32 \<Rightarrow> memory \<Rightarrow> memory" where
  "OsMemBoxSetMagic node cur mem =
    (let taskID = (ucast cur :: UINT8) in mem(node := OS_MEMBOX_MAGIC OR ucast taskID))"

definition OsMemBoxCheckMagic :: "los_config \<Rightarrow> UINT32 \<Rightarrow> memory \<Rightarrow> errno" where
  "OsMemBoxCheckMagic c node mem =
    (let taskID = OS_MEMBOX_TASKID_GET (mem node)
     in if of_nat (LOSCFG_BASE_CORE_TSK_LIMIT c + 1) < taskID then LOS_NOK
        else if mem node = OS_MEMBOX_MAGIC OR taskID then LOS_OK else LOS_NOK)"

definition OsCheckBoxMem :: "los_config \<Rightarrow> UINT32 \<Rightarrow> UINT32 \<Rightarrow> memory \<Rightarrow> errno" where
  "OsCheckBoxMem c boxInfo node mem =
    (if mem (uwBlkSize boxInfo) = 0 then LOS_NOK
     else
       let offset = node - (boxInfo + sizeof_MEMBOX_INFO)
       in if offset mod mem (uwBlkSize boxInfo) \<noteq> 0 then LOS_NOK
       else if mem (uwBlkNum boxInfo) \<le> offset div mem (uwBlkSize boxInfo) then LOS_NOK
       else OsMemBoxCheckMagic c node mem)"

section \<open>Services\<close>

fun init_loop :: "nat \<Rightarrow> UINT32 \<Rightarrow> UINT32 \<Rightarrow> memory \<Rightarrow> UINT32 \<times> memory" where
  "init_loop 0 node blkSize mem = (node, mem)"
| "init_loop (Suc n) node blkSize mem =
    (let mem = mem(node := OS_MEMBOX_NEXT node blkSize) in init_loop n (mem node) blkSize mem)"

definition LOS_MemboxInit :: "UINT32 \<Rightarrow> UINT32 \<Rightarrow> UINT32 \<Rightarrow> memory \<Rightarrow> errno \<times> memory" where
  "LOS_MemboxInit pool poolSize blkSize mem =
    (if pool = 0 then (LOS_NOK, mem)
     else if blkSize = 0 then (LOS_NOK, mem)
     else if poolSize < sizeof_MEMBOX_INFO then (LOS_NOK, mem)
     else
       let mem = mem(uwBlkSize pool := LOS_MEMBOX_ALLIGNED (blkSize + OS_MEMBOX_NODE_HEAD_SIZE))
       in if mem (uwBlkSize pool) = 0 then (LOS_NOK, mem)
       else
         let mem = mem(uwBlkNum pool := (poolSize - sizeof_MEMBOX_INFO) div mem (uwBlkSize pool));
             mem = mem(uwBlkCnt pool := 0)
         in if mem (uwBlkNum pool) = 0 then (LOS_NOK, mem)
         else
           let node = pool + sizeof_MEMBOX_INFO;
               mem = mem(stFreeList pool := node);
               (node, mem) = init_loop (unat (mem (uwBlkNum pool) - 1)) node (mem (uwBlkSize pool)) mem
           in (LOS_OK, mem(node := 0)))"

definition LOS_MemboxAlloc :: "UINT32 \<Rightarrow> UINT32 \<Rightarrow> memory \<Rightarrow> UINT32 \<times> memory" where
  "LOS_MemboxAlloc pool cur mem =
    (if pool = 0 then (0, mem)
     else
       let node = stFreeList pool
       in if mem node \<noteq> 0 then
         let nodeTmp = mem node;
             mem = mem(node := mem nodeTmp);
             mem = OsMemBoxSetMagic nodeTmp cur mem;
             mem = mem(uwBlkCnt pool := mem (uwBlkCnt pool) + 1)
         in (OS_MEMBOX_USER_ADDR nodeTmp, mem)
       else (0, mem))"

definition LOS_MemboxFree :: "los_config \<Rightarrow> UINT32 \<Rightarrow> UINT32 \<Rightarrow> memory \<Rightarrow> errno \<times> memory" where
  "LOS_MemboxFree c pool box mem =
    (if pool = 0 \<or> box = 0 then (LOS_NOK, mem)
     else
       let node = OS_MEMBOX_NODE_ADDR box
       in if OsCheckBoxMem c pool node mem \<noteq> LOS_OK then (LOS_NOK, mem)
       else
         let mem = mem(node := mem (stFreeList pool));
             mem = mem(stFreeList pool := node);
             mem = mem(uwBlkCnt pool := mem (uwBlkCnt pool) - 1)
         in (LOS_OK, mem))"

text \<open>\<open>memset_s\<close> with the value 0 over whole words: the block size is a multiple of the word size.\<close>

fun clear_words :: "nat \<Rightarrow> UINT32 \<Rightarrow> memory \<Rightarrow> memory" where
  "clear_words 0 a mem = mem"
| "clear_words (Suc n) a mem = clear_words n (a + 4) (mem(a := 0))"

definition LOS_MemboxClr :: "UINT32 \<Rightarrow> UINT32 \<Rightarrow> memory \<Rightarrow> memory" where
  "LOS_MemboxClr pool box mem =
    (if pool = 0 \<or> box = 0 then mem
     else clear_words (unat (mem (uwBlkSize pool) - OS_MEMBOX_NODE_HEAD_SIZE) div 4) box mem)"

text \<open>\<open>anyNull\<close>: the caller passed a null pointer for one of the four arguments.\<close>

definition LOS_MemboxStatisticsGet :: "UINT32 \<Rightarrow> bool \<Rightarrow> memory \<Rightarrow> errno \<times> UINT32 \<times> UINT32 \<times> UINT32" where
  "LOS_MemboxStatisticsGet boxMem anyNull mem =
    (if boxMem = 0 \<or> anyNull then (LOS_NOK, 0, 0, 0)
     else (LOS_OK, mem (uwBlkNum boxMem), mem (uwBlkCnt boxMem), mem (uwBlkSize boxMem)))"

end
