(* ===== verification/Queue.thy ===== *)
theory Queue
  imports Event_Inv Membox Task
begin

text \<open>
  Message queues (\<open>kernel/src/los_queue.c\<close>). A queue is a ring of \<open>queueLen\<close> slots of
  \<open>queueSize\<close> bytes in a block of the heap; the last four bytes of a slot hold the size of the
  message. \<open>queueBuf\<close> is the content of that block, by offset. The node \<open>readWriteList[1]\<close> of a
  control block is a member of \<open>g_freeQueueList\<close> while the queue is unused; the lists of the tasks
  that wait to read, to write and for a mail are \<open>QueueReadWait i\<close>, \<open>QueueWriteWait i\<close> and
  \<open>QueueMemWait i\<close>. A buffer of a caller is a map from offsets to bytes, \<open>None\<close> for a null pointer.
\<close>

section \<open>Bytes\<close>

type_synonym bytes = "nat \<Rightarrow> UINT8"

text \<open>Words are stored with the low byte first.\<close>

definition get32 :: "bytes \<Rightarrow> nat \<Rightarrow> UINT32" where
  "get32 m a = ucast (m a) OR push_bit 8 (ucast (m (a + 1))) OR push_bit 16 (ucast (m (a + 2))) OR
    push_bit 24 (ucast (m (a + 3)))"

definition put32 :: "nat \<Rightarrow> UINT32 \<Rightarrow> bytes \<Rightarrow> bytes" where
  "put32 a w m = m(a := ucast w, a + 1 := ucast (drop_bit 8 w), a + 2 := ucast (drop_bit 16 w),
    a + 3 := ucast (drop_bit 24 w))"

datatype copy_error = EOK | ERANGE | ERANGE_AND_RESET

definition SECUREC_MEM_MAX_LEN :: UINT32 where "SECUREC_MEM_MAX_LEN = 0x7fffffff"

text \<open>
  \<open>memcpy_s\<close> of the bounds checking library for buffers that are not null and do not overlap:
  \<open>count\<close> bytes from offset \<open>b\<close> of \<open>src\<close> to offset \<open>a\<close> of \<open>dest\<close>.
\<close>

definition memcpy_s :: "bytes \<Rightarrow> nat \<Rightarrow> UINT32 \<Rightarrow> bytes \<Rightarrow> nat \<Rightarrow> UINT32 \<Rightarrow> copy_error \<times> bytes" where
  "memcpy_s dest a destMax src b count =
    (if destMax = 0 \<or> SECUREC_MEM_MAX_LEN < destMax then (ERANGE, dest)
     else if destMax < count
     then (ERANGE_AND_RESET, \<lambda>i. if a \<le> i \<and> i < a + unat destMax then 0 else dest i)
     else (EOK, \<lambda>i. if a \<le> i \<and> i < a + unat count then src (b + (i - a)) else dest i))"

section \<open>State\<close>

record queue_cb =
  queue :: UINT32
  queueState :: UINT16
  queueLen :: UINT16
  queueSize :: UINT16
  queueID :: nat
  queueHead :: UINT16
  queueTail :: UINT16
  readWriteableCnt :: "UINT32 \<Rightarrow> UINT16"
  queueBuf :: bytes

record queue_state = event_state +
  g_allQueue :: "nat \<Rightarrow> queue_cb"
  g_freeQueueList :: "unit store"
  boxMemory :: memory

definition OS_QUEUE_UNUSED :: UINT16 where "OS_QUEUE_UNUSED = 0"

definition OS_QUEUE_INUSED :: UINT16 where "OS_QUEUE_INUSED = 1"

definition OS_NULL_SHORT :: UINT16 where "OS_NULL_SHORT = 0xFFFF"

definition OS_QUEUE_READ :: UINT32 where "OS_QUEUE_READ = 0"

definition OS_QUEUE_WRITE :: UINT32 where "OS_QUEUE_WRITE = 1"

definition OS_QUEUE_HEAD :: UINT32 where "OS_QUEUE_HEAD = 0"

definition OS_QUEUE_TAIL :: UINT32 where "OS_QUEUE_TAIL = 1"

definition OS_QUEUE_NOT_POINT :: UINT32 where "OS_QUEUE_NOT_POINT = 0"

definition OS_QUEUE_POINT :: UINT32 where "OS_QUEUE_POINT = 1"

definition OS_QUEUE_OPERATE_TYPE :: "UINT32 \<Rightarrow> UINT32 \<Rightarrow> UINT32 \<Rightarrow> UINT32" where
  "OS_QUEUE_OPERATE_TYPE readOrWrite headOrTail pointOrNot =
    push_bit 2 pointOrNot OR push_bit 1 headOrTail OR readOrWrite"

definition OS_QUEUE_READ_WRITE_GET :: "UINT32 \<Rightarrow> UINT32" where
  "OS_QUEUE_READ_WRITE_GET type = type AND 0x01"

definition OS_QUEUE_READ_HEAD :: UINT32 where
  "OS_QUEUE_READ_HEAD = OS_QUEUE_READ OR push_bit 1 OS_QUEUE_HEAD"

definition OS_QUEUE_WRITE_HEAD :: UINT32 where
  "OS_QUEUE_WRITE_HEAD = OS_QUEUE_WRITE OR push_bit 1 OS_QUEUE_HEAD"

definition OS_QUEUE_WRITE_TAIL :: UINT32 where
  "OS_QUEUE_WRITE_TAIL = OS_QUEUE_WRITE OR push_bit 1 OS_QUEUE_TAIL"

definition OS_QUEUE_OPERATE_GET :: "UINT32 \<Rightarrow> UINT32" where
  "OS_QUEUE_OPERATE_GET type = type AND 0x03"

definition OS_QUEUE_IS_POINT :: "UINT32 \<Rightarrow> bool" where
  "OS_QUEUE_IS_POINT type \<longleftrightarrow> type AND 0x04 \<noteq> 0"

definition OS_QUEUE_IS_READ :: "UINT32 \<Rightarrow> bool" where
  "OS_QUEUE_IS_READ type \<longleftrightarrow> OS_QUEUE_READ_WRITE_GET type = OS_QUEUE_READ"

definition OS_QUEUE_IS_WRITE :: "UINT32 \<Rightarrow> bool" where
  "OS_QUEUE_IS_WRITE type \<longleftrightarrow> OS_QUEUE_READ_WRITE_GET type = OS_QUEUE_WRITE"

text \<open>The list head \<open>readWriteList[readWrite]\<close> of a queue.\<close>

definition readWriteList :: "nat \<Rightarrow> UINT32 \<Rightarrow> lhead" where
  "readWriteList i readWrite = (if readWrite = OS_QUEUE_READ then QueueReadWait i else QueueWriteWait i)"

definition upd_queue :: "nat \<Rightarrow> (queue_cb \<Rightarrow> queue_cb) \<Rightarrow> 'a queue_state_scheme \<Rightarrow> 'a queue_state_scheme" where
  "upd_queue i f s = s\<lparr>g_allQueue := (g_allQueue s)(i := f (g_allQueue s i))\<rparr>"

section \<open>Creation\<close>

definition zero_queue :: queue_cb where
  "zero_queue = \<lparr>queue = 0, queueState = 0, queueLen = 0, queueSize = 0, queueID = 0, queueHead = 0,
    queueTail = 0, readWriteableCnt = \<lambda>_. 0, queueBuf = \<lambda>_. 0\<rparr>"

definition OsQueueInit :: "UINT32 \<Rightarrow> 'a queue_state_scheme \<Rightarrow> errno \<times> 'a queue_state_scheme" where
  "OsQueueInit mem s =
    (if LOSCFG_BASE_IPC_QUEUE_LIMIT (cfg s) = 0 then (LOS_ERRNO_QUEUE_MAXNUM_ZERO, s)
     else
       let s = LOS_MemAlloc mem s
       in if mem = 0 then (LOS_ERRNO_QUEUE_NO_MEMORY, s)
       else
         let s = s\<lparr>g_allQueue := \<lambda>_. zero_queue\<rparr>;
             s = s\<lparr>g_freeQueueList := LOS_ListInit () (g_freeQueueList s)\<rparr>
         in (LOS_OK, fold (\<lambda>index s.
           let s = upd_queue index (queueID_update (\<lambda>_. index)) s
           in s\<lparr>g_freeQueueList := LOS_ListTailInsert () index (g_freeQueueList s)\<rparr>)
           [0..<LOSCFG_BASE_IPC_QUEUE_LIMIT (cfg s)] s))"

text \<open>\<open>mem\<close> is the address the allocator returns, \<open>garbage\<close> the content of that block.\<close>

definition LOS_QueueCreate ::
  "UINT32 \<Rightarrow> bytes \<Rightarrow> UINT16 \<Rightarrow> bool \<Rightarrow> UINT16 \<Rightarrow> 'a queue_state_scheme \<Rightarrow> errno \<times> nat \<times> 'a queue_state_scheme" where
  "LOS_QueueCreate mem garbage len queueIDNull maxMsgSize s =
    (if queueIDNull then (LOS_ERRNO_QUEUE_CREAT_PTR_NULL, 0, s)
     else if OS_NULL_SHORT - 4 < maxMsgSize then (LOS_ERRNO_QUEUE_SIZE_TOO_BIG, 0, s)
     else if len = 0 \<or> maxMsgSize = 0 then (LOS_ERRNO_QUEUE_PARA_ISZERO, 0, s)
     else
       let msgSize = maxMsgSize + 4;
           s = LOS_MemAlloc mem s
       in if mem = 0 then (LOS_ERRNO_QUEUE_CREATE_NO_MEMORY, 0, s)
       else if LOS_ListEmpty (g_freeQueueList s) ()
       then (LOS_ERRNO_QUEUE_CB_UNAVAILABLE, 0, LOS_MemFree mem s)
       else
         let i = LOS_DL_LIST_FIRST (g_freeQueueList s) ();
             s = s\<lparr>g_freeQueueList := LOS_ListDelete i (g_freeQueueList s)\<rparr>;
             s = upd_queue i (\<lambda>c. c\<lparr>queueLen := len, queueSize := msgSize, queue := mem,
                   queueState := OS_QUEUE_INUSED,
                   readWriteableCnt := (readWriteableCnt c)(OS_QUEUE_READ := 0, OS_QUEUE_WRITE := len),
                   queueHead := 0, queueTail := 0, queueBuf := garbage\<rparr>) s;
             s = s\<lparr>pend := LOS_ListInit (QueueReadWait i) (pend s)\<rparr>;
             s = s\<lparr>pend := LOS_ListInit (QueueWriteWait i) (pend s)\<rparr>;
             s = s\<lparr>pend := LOS_ListInit (QueueMemWait i) (pend s)\<rparr>
         in (LOS_OK, queueID (g_allQueue s i), s))"

section \<open>Reading and writing\<close>

definition OsQueueReadParameterCheck ::
  "nat \<Rightarrow> bytes option \<Rightarrow> UINT32 option \<Rightarrow> UINT32 \<Rightarrow> 'a queue_state_scheme \<Rightarrow> errno" where
  "OsQueueReadParameterCheck i bufferAddr bufferSize timeOut s =
    (if LOSCFG_BASE_IPC_QUEUE_LIMIT (cfg s) \<le> i then LOS_ERRNO_QUEUE_INVALID
     else if bufferAddr = None \<or> bufferSize = None then LOS_ERRNO_QUEUE_READ_PTR_NULL
     else if the bufferSize = 0 then LOS_ERRNO_QUEUE_READSIZE_ISZERO
     else if timeOut \<noteq> LOS_NO_WAIT \<and> OS_INT_ACTIVE s then LOS_ERRNO_QUEUE_READ_IN_INTERRUPT
     else LOS_OK)"

definition OsQueueWriteParameterCheck ::
  "nat \<Rightarrow> bool \<Rightarrow> UINT32 \<Rightarrow> UINT32 \<Rightarrow> 'a queue_state_scheme \<Rightarrow> errno" where
  "OsQueueWriteParameterCheck i bufferNull bufferSize timeOut s =
    (if LOSCFG_BASE_IPC_QUEUE_LIMIT (cfg s) \<le> i then LOS_ERRNO_QUEUE_INVALID
     else if bufferNull then LOS_ERRNO_QUEUE_WRITE_PTR_NULL
     else if bufferSize = 0 then LOS_ERRNO_QUEUE_WRITESIZE_ISZERO
     else if timeOut \<noteq> LOS_NO_WAIT \<and> OS_INT_ACTIVE s then LOS_ERRNO_QUEUE_WRITE_IN_INTERRUPT
     else LOS_OK)"

text \<open>The position of the slot and the control block with the head or tail moved.\<close>

definition queue_position :: "UINT32 \<Rightarrow> queue_cb \<Rightarrow> (UINT16 \<times> queue_cb) option" where
  "queue_position operateType c =
    (let t = OS_QUEUE_OPERATE_GET operateType
     in if t = OS_QUEUE_READ_HEAD then
       Some (queueHead c, c\<lparr>queueHead := if unat (queueHead c) + 1 = unat (queueLen c) then 0 else queueHead c + 1\<rparr>)
     else if t = OS_QUEUE_WRITE_HEAD then
       let c = c\<lparr>queueHead := if queueHead c = 0 then queueLen c - 1 else queueHead c - 1\<rparr>
       in Some (queueHead c, c)
     else if t = OS_QUEUE_WRITE_TAIL then
       Some (queueTail c, c\<lparr>queueTail := if unat (queueTail c) + 1 = unat (queueLen c) then 0 else queueTail c + 1\<rparr>)
     else None)"

text \<open>The buffer and size of the caller come back as they are afterwards.\<close>

definition OsQueueBufferOperate ::
  "UINT32 \<Rightarrow> queue_cb \<Rightarrow> bytes \<Rightarrow> UINT32 \<Rightarrow> queue_cb \<times> bytes \<times> UINT32" where
  "OsQueueBufferOperate operateType c buf bufSize =
    (case queue_position operateType c of None \<Rightarrow> (c, buf, bufSize)
     | Some (queuePosion, c) \<Rightarrow>
       let queueNode = unat queuePosion * unat (queueSize c);
           sizeAt = queueNode + unat (queueSize c) - 4
       in if OS_QUEUE_IS_POINT operateType then
         if OS_QUEUE_IS_READ operateType
         then (c, put32 0 (get32 (queueBuf c) queueNode) buf, bufSize)
         else (c\<lparr>queueBuf := put32 queueNode (get32 buf 0) (queueBuf c)\<rparr>, buf, bufSize)
       else if OS_QUEUE_IS_READ operateType then
         let msgDataSize = get32 (queueBuf c) sizeAt;
             (rc, buf) = memcpy_s buf 0 bufSize (queueBuf c) queueNode msgDataSize
         in if rc \<noteq> EOK then (c, buf, bufSize) else (c, buf, msgDataSize)
       else
         let c = c\<lparr>queueBuf := put32 sizeAt bufSize (queueBuf c)\<rparr>;
             (rc, m) = memcpy_s (queueBuf c) queueNode (ucast (queueSize c)) buf 0 bufSize
         in (c\<lparr>queueBuf := m\<rparr>, buf, bufSize))"

definition OsQueueOperateParamCheck :: "queue_cb \<Rightarrow> UINT32 \<Rightarrow> UINT32 \<Rightarrow> errno" where
  "OsQueueOperateParamCheck c operateType bufferSize =
    (if queueState c = OS_QUEUE_UNUSED then LOS_ERRNO_QUEUE_NOT_CREATE
     else if OS_QUEUE_IS_READ operateType \<and> bufferSize < ucast (queueSize c) - 4
     then LOS_ERRNO_QUEUE_READ_SIZE_TOO_SMALL
     else if OS_QUEUE_IS_WRITE operateType \<and> ucast (queueSize c) - 4 < bufferSize
     then LOS_ERRNO_QUEUE_WRITE_SIZE_TOO_BIG
     else LOS_OK)"

text \<open>
  \<open>OsQueueOperate\<close> in three parts: up to the point where the task waits, the transfer that the
  path without waiting goes on with, and what a task that waited does when it runs again.
\<close>

definition queue_transfer ::
  "nat \<Rightarrow> UINT32 \<Rightarrow> bytes \<Rightarrow> UINT32 \<Rightarrow> 'a queue_state_scheme \<Rightarrow> bytes \<times> UINT32 \<times> 'a queue_state_scheme" where
  "queue_transfer i operateType buf bufSize s =
    (let readWrite = OS_QUEUE_READ_WRITE_GET operateType;
         readWriteTmp = (if readWrite = 0 then 1 else 0);
         (c, buf, bufSize) = OsQueueBufferOperate operateType (g_allQueue s i) buf bufSize;
         s = upd_queue i (\<lambda>_. c) s
     in if \<not> LOS_ListEmpty (pend s) (readWriteList i readWriteTmp) then
       let resumedTask = LOS_DL_LIST_FIRST (pend s) (readWriteList i readWriteTmp)
       in (buf, bufSize, LOS_Schedule (OsSchedTaskWake resumedTask s))
     else (buf, bufSize, upd_queue i (\<lambda>c. c\<lparr>readWriteableCnt := (readWriteableCnt c)
            (readWriteTmp := readWriteableCnt c readWriteTmp + 1)\<rparr>) s))"

definition OsQueueOperate ::
  "nat \<Rightarrow> UINT32 \<Rightarrow> bytes \<Rightarrow> UINT32 \<Rightarrow> UINT32 \<Rightarrow> 'a queue_state_scheme \<Rightarrow>
   outcome \<times> bytes \<times> UINT32 \<times> 'a queue_state_scheme" where
  "OsQueueOperate i operateType buf bufSize timeOut s =
    (let readWrite = OS_QUEUE_READ_WRITE_GET operateType;
         ret = OsQueueOperateParamCheck (g_allQueue s i) operateType bufSize
     in if ret \<noteq> LOS_OK then (Ret ret, buf, bufSize, s)
     else if readWriteableCnt (g_allQueue s i) readWrite = 0 then
       if timeOut = LOS_NO_WAIT
       then (Ret (if OS_QUEUE_IS_READ operateType then LOS_ERRNO_QUEUE_ISEMPTY else LOS_ERRNO_QUEUE_ISFULL),
             buf, bufSize, s)
       else if g_losTaskLock s \<noteq> 0 then (Ret LOS_ERRNO_QUEUE_PEND_IN_LOCK, buf, bufSize, s)
       else (Blocked, buf, bufSize, LOS_Schedule (OsSchedTaskWait (readWriteList i readWrite) timeOut s))
     else
       let s = upd_queue i (\<lambda>c. c\<lparr>readWriteableCnt := (readWriteableCnt c)
             (readWrite := readWriteableCnt c readWrite - 1)\<rparr>) s
       in (Ret LOS_OK, queue_transfer i operateType buf bufSize s))"

definition OsQueueOperate_resume ::
  "nat \<Rightarrow> nat \<Rightarrow> UINT32 \<Rightarrow> bytes \<Rightarrow> UINT32 \<Rightarrow> 'a queue_state_scheme \<Rightarrow>
   errno \<times> bytes \<times> UINT32 \<times> 'a queue_state_scheme" where
  "OsQueueOperate_resume runTsk i operateType buf bufSize s =
    (if has (status s runTsk) OS_TASK_STATUS_TIMEOUT
     then (LOS_ERRNO_QUEUE_TIMEOUT, buf, bufSize, status_clear runTsk OS_TASK_STATUS_TIMEOUT s)
     else (LOS_OK, queue_transfer i operateType buf bufSize s))"

definition LOS_QueueReadCopy ::
  "nat \<Rightarrow> bytes option \<Rightarrow> UINT32 option \<Rightarrow> UINT32 \<Rightarrow> 'a queue_state_scheme \<Rightarrow>
   outcome \<times> bytes option \<times> UINT32 option \<times> 'a queue_state_scheme" where
  "LOS_QueueReadCopy i bufferAddr bufferSize timeOut s =
    (let ret = OsQueueReadParameterCheck i bufferAddr bufferSize timeOut s
     in if ret \<noteq> LOS_OK then (Ret ret, bufferAddr, bufferSize, s)
     else
       let operateType = OS_QUEUE_OPERATE_TYPE OS_QUEUE_READ OS_QUEUE_HEAD OS_QUEUE_NOT_POINT;
           (r, buf, n, s) = OsQueueOperate i operateType (the bufferAddr) (the bufferSize) timeOut s
       in (r, Some buf, Some n, s))"

definition LOS_QueueWriteHeadCopy ::
  "nat \<Rightarrow> bytes option \<Rightarrow> UINT32 \<Rightarrow> UINT32 \<Rightarrow> 'a queue_state_scheme \<Rightarrow> outcome \<times> 'a queue_state_scheme" where
  "LOS_QueueWriteHeadCopy i bufferAddr bufferSize timeOut s =
    (let ret = OsQueueWriteParameterCheck i (bufferAddr = None) bufferSize timeOut s
     in if ret \<noteq> LOS_OK then (Ret ret, s)
     else
       let operateType = OS_QUEUE_OPERATE_TYPE OS_QUEUE_WRITE OS_QUEUE_HEAD OS_QUEUE_NOT_POINT;
           (r, _, _, s) = OsQueueOperate i operateType (the bufferAddr) bufferSize timeOut s
       in (r, s))"

definition LOS_QueueWriteCopy ::
  "nat \<Rightarrow> bytes option \<Rightarrow> UINT32 \<Rightarrow> UINT32 \<Rightarrow> 'a queue_state_scheme \<Rightarrow> outcome \<times> 'a queue_state_scheme" where
  "LOS_QueueWriteCopy i bufferAddr bufferSize timeOut s =
    (let ret = OsQueueWriteParameterCheck i (bufferAddr = None) bufferSize timeOut s
     in if ret \<noteq> LOS_OK then (Ret ret, s)
     else
       let operateType = OS_QUEUE_OPERATE_TYPE OS_QUEUE_WRITE OS_QUEUE_TAIL OS_QUEUE_NOT_POINT;
           (r, _, _, s) = OsQueueOperate i operateType (the bufferAddr) bufferSize timeOut s
       in (r, s))"

definition LOS_QueueRead ::
  "nat \<Rightarrow> bytes option \<Rightarrow> UINT32 \<Rightarrow> UINT32 \<Rightarrow> 'a queue_state_scheme \<Rightarrow>
   outcome \<times> bytes option \<times> 'a queue_state_scheme" where
  "LOS_QueueRead i bufferAddr bufferSize timeOut s =
    (let ret = OsQueueReadParameterCheck i bufferAddr (Some bufferSize) timeOut s
     in if ret \<noteq> LOS_OK then (Ret ret, bufferAddr, s)
     else
       let operateType = OS_QUEUE_OPERATE_TYPE OS_QUEUE_READ OS_QUEUE_HEAD OS_QUEUE_POINT;
           (r, buf, _, s) = OsQueueOperate i operateType (the bufferAddr) bufferSize timeOut s
       in (r, Some buf, s))"

text \<open>The pointer \<open>bufferAddr\<close> itself is the message; the size the caller passes is ignored.\<close>

definition LOS_QueueWrite ::
  "nat \<Rightarrow> UINT32 \<Rightarrow> UINT32 \<Rightarrow> UINT32 \<Rightarrow> 'a queue_state_scheme \<Rightarrow> outcome \<times> 'a queue_state_scheme" where
  "LOS_QueueWrite i bufferAddr bufferSize timeOut s =
    (let ret = OsQueueWriteParameterCheck i (bufferAddr = 0) 4 timeOut s
     in if ret \<noteq> LOS_OK then (Ret ret, s)
     else
       let operateType = OS_QUEUE_OPERATE_TYPE OS_QUEUE_WRITE OS_QUEUE_TAIL OS_QUEUE_POINT;
           (r, _, _, s) = OsQueueOperate i operateType (put32 0 bufferAddr (\<lambda>_. 0)) 4 timeOut s
       in (r, s))"

definition LOS_QueueWriteHead ::
  "nat \<Rightarrow> UINT32 \<Rightarrow> UINT32 \<Rightarrow> UINT32 \<Rightarrow> 'a queue_state_scheme \<Rightarrow> outcome \<times> 'a queue_state_scheme" where
  "LOS_QueueWriteHead i bufferAddr bufferSize timeOut s =
    (if bufferAddr = 0 then (Ret LOS_ERRNO_QUEUE_WRITE_PTR_NULL, s)
     else LOS_QueueWriteHeadCopy i (Some (put32 0 bufferAddr (\<lambda>_. 0))) 4 timeOut s)"

section \<open>Mails\<close>

text \<open>The result is the address of a block of the pool, 0 for none.\<close>

definition OsQueueMailAlloc ::
  "nat \<Rightarrow> UINT32 \<Rightarrow> UINT32 \<Rightarrow> 'a queue_state_scheme \<Rightarrow> event_outcome \<times> 'a queue_state_scheme" where
  "OsQueueMailAlloc i mailPool timeOut s =
    (if LOSCFG_BASE_IPC_QUEUE_LIMIT (cfg s) \<le> i then (Value 0, s)
     else if mailPool = 0 then (Value 0, s)
     else if timeOut \<noteq> LOS_NO_WAIT \<and> OS_INT_ACTIVE s then (Value 0, s)
     else if queueState (g_allQueue s i) = OS_QUEUE_UNUSED then (Value 0, s)
     else
       let (mem, m) = LOS_MemboxAlloc mailPool (of_nat (LOS_CurTaskIDGet s)) (boxMemory s);
           s = s\<lparr>boxMemory := m\<rparr>
       in if mem \<noteq> 0 then (Value mem, s)
       else if timeOut = LOS_NO_WAIT then (Value 0, s)
       else (Waiting, LOS_Schedule (OsSchedTaskWait (QueueMemWait i) timeOut s)))"

definition OsQueueMailAlloc_resume ::
  "nat \<Rightarrow> 'a queue_state_scheme \<Rightarrow> UINT32 \<times> 'a queue_state_scheme" where
  "OsQueueMailAlloc_resume runTsk s =
    (if has (status s runTsk) OS_TASK_STATUS_TIMEOUT
     then (0, status_clear runTsk OS_TASK_STATUS_TIMEOUT s)
     else (msg (tcb s runTsk), upd_tcb runTsk (msg_update (\<lambda>_. 0)) s))"

definition OsQueueMailFree ::
  "nat \<Rightarrow> UINT32 \<Rightarrow> UINT32 \<Rightarrow> 'a queue_state_scheme \<Rightarrow> errno \<times> 'a queue_state_scheme" where
  "OsQueueMailFree i mailPool mailMem s =
    (if LOSCFG_BASE_IPC_QUEUE_LIMIT (cfg s) \<le> i then (LOS_ERRNO_QUEUE_MAIL_HANDLE_INVALID, s)
     else if mailPool = 0 then (LOS_ERRNO_QUEUE_MAIL_PTR_INVALID, s)
     else
       let (ret, m) = LOS_MemboxFree (cfg s) mailPool mailMem (boxMemory s);
           s = s\<lparr>boxMemory := m\<rparr>
       in if ret \<noteq> LOS_OK then (LOS_ERRNO_QUEUE_MAIL_FREE_ERROR, s)
       else if queueState (g_allQueue s i) = OS_QUEUE_UNUSED then (LOS_ERRNO_QUEUE_NOT_CREATE, s)
       else if \<not> LOS_ListEmpty (pend s) (QueueMemWait i) then
         let resumedTask = LOS_DL_LIST_FIRST (pend s) (QueueMemWait i);
             s = OsSchedTaskWake resumedTask s;
             (mem, m) = LOS_MemboxAlloc mailPool (of_nat (LOS_CurTaskIDGet s)) (boxMemory s);
             s = s\<lparr>boxMemory := m\<rparr>
         in if mem = 0 then (LOS_ERRNO_QUEUE_NO_MEMORY, s)
         else (LOS_OK, LOS_Schedule (upd_tcb resumedTask (msg_update (\<lambda>_. mem)) s))
       else (LOS_OK, s))"

section \<open>Deletion and information\<close>

text \<open>\<open>freeRet\<close> is the result of \<open>LOS_MemFree\<close>.\<close>

definition LOS_QueueDelete :: "errno \<Rightarrow> nat \<Rightarrow> 'a queue_state_scheme \<Rightarrow> errno \<times> 'a queue_state_scheme" where
  "LOS_QueueDelete freeRet i s =
    (if LOSCFG_BASE_IPC_QUEUE_LIMIT (cfg s) \<le> i then (LOS_ERRNO_QUEUE_NOT_FOUND, s)
     else
       let c = g_allQueue s i
       in if queueState c = OS_QUEUE_UNUSED then (LOS_ERRNO_QUEUE_NOT_CREATE, s)
       else if \<not> LOS_ListEmpty (pend s) (QueueReadWait i) then (LOS_ERRNO_QUEUE_IN_TSKUSE, s)
       else if \<not> LOS_ListEmpty (pend s) (QueueWriteWait i) then (LOS_ERRNO_QUEUE_IN_TSKUSE, s)
       else if \<not> LOS_ListEmpty (pend s) (QueueMemWait i) then (LOS_ERRNO_QUEUE_IN_TSKUSE, s)
       else if unat (readWriteableCnt c OS_QUEUE_WRITE) + unat (readWriteableCnt c OS_QUEUE_READ) \<noteq> unat (queueLen c)
       then (LOS_ERRNO_QUEUE_IN_TSKWRITE, s)
       else
         let s = upd_queue i (\<lambda>c. c\<lparr>queue := 0, queueState := OS_QUEUE_UNUSED\<rparr>) s;
             s = s\<lparr>g_freeQueueList := LOS_ListAdd () i (g_freeQueueList s)\<rparr>
         in (freeRet, LOS_MemFree (queue c) s))"

record queue_info =
  infoID :: nat
  infoLen :: UINT16
  infoSize :: UINT16
  infoHead :: UINT16
  infoTail :: UINT16
  writableCnt :: UINT16
  readableCnt :: UINT16
  waitReadTask :: UINT32
  waitWriteTask :: UINT32
  waitMemTask :: UINT32

definition task_mask :: "'a queue_state_scheme \<Rightarrow> nat list \<Rightarrow> UINT32" where
  "task_mask s ts = fold (\<lambda>t w. w OR push_bit (taskID (tcb s t)) 1) ts 0"

definition LOS_QueueInfoGet :: "nat \<Rightarrow> bool \<Rightarrow> 'a queue_state_scheme \<Rightarrow> errno \<times> queue_info option" where
  "LOS_QueueInfoGet i infoNull s =
    (if infoNull then (LOS_ERRNO_QUEUE_PTR_NULL, None)
     else if LOSCFG_BASE_IPC_QUEUE_LIMIT (cfg s) \<le> i then (LOS_ERRNO_QUEUE_INVALID, None)
     else
       let c = g_allQueue s i
       in if queueState c = OS_QUEUE_UNUSED then (LOS_ERRNO_QUEUE_NOT_CREATE, None)
       else (LOS_OK, Some \<lparr>infoID = i, infoLen = queueLen c, infoSize = queueSize c, infoHead = queueHead c,
         infoTail = queueTail c, writableCnt = readWriteableCnt c OS_QUEUE_WRITE,
         readableCnt = readWriteableCnt c OS_QUEUE_READ,
         waitReadTask = task_mask s (pend s (QueueReadWait i)),
         waitWriteTask = task_mask s (pend s (QueueWriteWait i)),
         waitMemTask = task_mask s (pend s (QueueMemWait i))\<rparr>))"

end
