(* ===== verification/Queue_Ring.thy ===== *)
theory Queue_Ring
  imports Queue
begin

text \<open>
  The ring of slots of a queue as a list of messages: \<open>ring_holds c q\<close> says that the control block \<open>c\<close>
  stores the messages \<open>q\<close>, the oldest at \<open>queueHead\<close>. Each case of \<open>OsQueueBufferOperate\<close> is
  one operation on that list.
\<close>

section \<open>Words in a buffer\<close>

lemma get_put32 [simp]: "get32 (put32 a w m) a = w"
proof -
  have "get32 (put32 a w m) a = ucast (ucast w :: UINT8) OR push_bit 8 (ucast (ucast (drop_bit 8 w) :: UINT8)) OR
      push_bit 16 (ucast (ucast (drop_bit 16 w) :: UINT8)) OR push_bit 24 (ucast (ucast (drop_bit 24 w) :: UINT8))"
    by (simp add: get32_def put32_def)
  also have "\<dots> = w"
  proof (rule bit_eqI)
    fix n assume "possible_bit TYPE(UINT32) n"
    then have "n < 32" by simp
    then consider "n < 8" | "8 \<le> n" "n < 16" | "16 \<le> n" "n < 24" | "24 \<le> n" "n < 32" by force
    then show "bit ((ucast (ucast w :: UINT8) :: UINT32) OR push_bit 8 (ucast (ucast (drop_bit 8 w) :: UINT8)) OR
      push_bit 16 (ucast (ucast (drop_bit 16 w) :: UINT8)) OR push_bit 24 (ucast (ucast (drop_bit 24 w) :: UINT8))) n =
      bit w n"
      by cases (auto simp: bit_simps)
  qed
  finally show ?thesis .
qed

lemma put32_other [simp]: "j < a \<or> a + 3 < j \<Longrightarrow> put32 a w m j = m j"
  by (auto simp: put32_def)

lemma get32_cong: "(\<And>j. a \<le> j \<Longrightarrow> j < a + 4 \<Longrightarrow> m' j = m j) \<Longrightarrow> get32 m' a = get32 m a"
  by (simp add: get32_def)

section \<open>Slots\<close>

definition slot :: "queue_cb \<Rightarrow> nat \<Rightarrow> UINT8 list \<Rightarrow> bool" where
  "slot c p m \<longleftrightarrow> length m + 4 \<le> unat (queueSize c) \<and>
    get32 (queueBuf c) (p * unat (queueSize c) + unat (queueSize c) - 4) = of_nat (length m) \<and>
    (\<forall>j<length m. queueBuf c (p * unat (queueSize c) + j) = m ! j)"

text \<open>A change within one slot leaves the other slots alone.\<close>

lemma slot_other:
  assumes "slot c p m" "p \<noteq> p'" "queueSize c' = queueSize c"
    "\<And>a. a < p' * unat (queueSize c) \<or> p' * unat (queueSize c) + unat (queueSize c) \<le> a \<Longrightarrow>
      queueBuf c' a = queueBuf c a"
  shows "slot c' p m"
proof -
  let ?s = "unat (queueSize c)"
  have out: "queueBuf c' (p * ?s + j) = queueBuf c (p * ?s + j)" if "j < ?s" for j
  proof (rule assms(4))
    consider "p < p'" | "p' < p" using assms(2) by linarith
    then show "p * ?s + j < p' * ?s \<or> p' * ?s + ?s \<le> p * ?s + j"
    proof cases
      case 1
      then have "Suc p * ?s \<le> p' * ?s" by (intro mult_right_mono) simp_all
      then show ?thesis using that by simp
    next
      case 2
      then have "Suc p' * ?s \<le> p * ?s" by (intro mult_right_mono) simp_all
      then show ?thesis by simp
    qed
  qed
  have len: "length m + 4 \<le> ?s" using assms(1) by (simp add: slot_def)
  have "get32 (queueBuf c') (p * ?s + ?s - 4) = get32 (queueBuf c) (p * ?s + ?s - 4)"
  proof (rule get32_cong)
    fix a assume "p * ?s + ?s - 4 \<le> a" "a < p * ?s + ?s - 4 + 4"
    with len have "a = p * ?s + (a - p * ?s)" "a - p * ?s < ?s" by simp_all
    then show "queueBuf c' a = queueBuf c a" using out [of "a - p * ?s"] by simp
  qed
  then show ?thesis
    using assms(1,3) out len by (simp add: slot_def)
qed

lemma mod_slot_inj:
  assumes "i < n" "j < n" "(h + i) mod n = (h + j) mod (n :: nat)"
  shows "i = j"
proof -
  have "i mod n = j mod n" using assms(3) by (simp only: nat_mod_eq_iff) (metis add.assoc add_left_imp_eq)
  with assms(1,2) show ?thesis by simp
qed

section \<open>The ring\<close>

definition ring_holds :: "queue_cb \<Rightarrow> UINT8 list list \<Rightarrow> bool" where
  "ring_holds c q \<longleftrightarrow> 4 < unat (queueSize c) \<and> unat (queueHead c) < unat (queueLen c) \<and>
    length q \<le> unat (queueLen c) \<and>
    unat (queueTail c) = (unat (queueHead c) + length q) mod unat (queueLen c) \<and>
    (\<forall>k<length q. slot c ((unat (queueHead c) + k) mod unat (queueLen c)) (q ! k))"

lemma ringD:
  assumes "ring_holds c q"
  shows "4 < unat (queueSize c)" "unat (queueHead c) < unat (queueLen c)" "length q \<le> unat (queueLen c)"
    "unat (queueTail c) = (unat (queueHead c) + length q) mod unat (queueLen c)"
    and "k < length q \<Longrightarrow> slot c ((unat (queueHead c) + k) mod unat (queueLen c)) (q ! k)"
  using assms by (simp_all add: ring_holds_def)

lemma unat_next:
  assumes "unat (h :: UINT16) < unat (n :: UINT16)"
  shows "unat (if unat h + 1 = unat n then 0 else h + 1) = (unat h + 1) mod unat n"
proof (cases "unat h + 1 = unat n")
  case False
  moreover have "unat n < 2 ^ 16" using unsigned_less [of n] by simp
  ultimately have "unat (h + 1) = unat h + 1"
    using assms by (simp add: unat_word_ariths(1))
  then show ?thesis using False assms by simp
qed simp

lemma unat_prev:
  assumes "unat (h :: UINT16) < unat (n :: UINT16)"
  shows "unat (if h = 0 then n - 1 else h - 1) = (unat h + unat n - 1) mod unat n"
    "unat (if h = 0 then n - 1 else h - 1) < unat n"
proof -
  have "n \<noteq> 0" using assms by auto
  then have "unat (if h = 0 then n - 1 else h - 1) = (if h = 0 then unat n - 1 else unat h - 1)"
    by (simp add: unat_minus_one)
  moreover have "(unat h + unat n - 1) mod unat n = (if h = 0 then unat n - 1 else unat h - 1)"
  proof (cases "h = 0")
    case False
    then have "0 < unat h" by (simp add: unat_gt_0)
    then have "unat h + unat n - 1 = (unat h - 1) + unat n" by simp
    then have "(unat h + unat n - 1) mod unat n = (unat h - 1) mod unat n" by (simp only: mod_add_self2)
    also have "\<dots> = unat h - 1" using assms by (intro mod_less) linarith
    finally show ?thesis using False by simp
  qed (use assms in simp)
  ultimately show "unat (if h = 0 then n - 1 else h - 1) = (unat h + unat n - 1) mod unat n"
    "unat (if h = 0 then n - 1 else h - 1) < unat n"
    using assms by auto
qed

section \<open>Filling a slot\<close>

definition message :: "bytes \<Rightarrow> UINT32 \<Rightarrow> UINT8 list" where
  "message buf n = map buf [0..<unat n]"

definition fill :: "nat \<Rightarrow> bytes \<Rightarrow> UINT32 \<Rightarrow> queue_cb \<Rightarrow> queue_cb" where
  "fill p buf n c = (let node = p * unat (queueSize c);
      m = put32 (node + unat (queueSize c) - 4) n (queueBuf c)
    in c\<lparr>queueBuf := snd (memcpy_s m node (ucast (queueSize c)) buf 0 n)\<rparr>)"

lemma fill_sel [simp]:
  "queueSize (fill p buf n c) = queueSize c" "queueLen (fill p buf n c) = queueLen c"
  "queueHead (fill p buf n c) = queueHead c" "queueTail (fill p buf n c) = queueTail c"
  "readWriteableCnt (fill p buf n c) = readWriteableCnt c" "queueState (fill p buf n c) = queueState c"
  "queueID (fill p buf n c) = queueID c" "queue (fill p buf n c) = queue c"
  by (simp_all add: fill_def Let_def)

lemma size32: "unat (ucast (w :: UINT16) :: UINT32) = unat w"
  proof -
  have "unat w < 2 ^ 16" using unsigned_less [of w] by simp
  then show ?thesis by (simp add: unsigned_ucast_eq take_bit_nat_eq_self)
qed

lemma fill_buf:
  assumes "unat n + 4 \<le> unat (queueSize c)"
  shows "queueBuf (fill p buf n c) = (let node = p * unat (queueSize c) in
    (\<lambda>i. if node \<le> i \<and> i < node + unat n then buf (i - node)
        else put32 (node + unat (queueSize c) - 4) n (queueBuf c) i))"
proof -
  have le: "unat (queueSize c) < 2 ^ 16" using unsigned_less [of "queueSize c"] by simp
  then have "\<not> SECUREC_MEM_MAX_LEN < ucast (queueSize c)"
    by (simp add: SECUREC_MEM_MAX_LEN_def word_less_nat_alt size32)
  moreover have "(ucast (queueSize c) :: UINT32) \<noteq> 0"
    using assms size32 [of "queueSize c"] by (metis add_is_0 le_0_eq numeral_neq_zero unat_0)
  moreover have "\<not> ucast (queueSize c) < n"
    using assms by (simp add: word_less_nat_alt size32)
  ultimately show ?thesis by (simp add: fill_def Let_def memcpy_s_def fun_eq_iff)
qed

lemma fill_slot:
  assumes "unat n + 4 \<le> unat (queueSize c)"
  shows "slot (fill p buf n c) p (message buf n)"
proof -
  let ?s = "unat (queueSize c)"
  have "get32 (queueBuf (fill p buf n c)) (p * ?s + ?s - 4) =
      get32 (put32 (p * ?s + ?s - 4) n (queueBuf c)) (p * ?s + ?s - 4)"
    using assms by (intro get32_cong) (auto simp: fill_buf Let_def)
  then show ?thesis
    using assms by (simp add: slot_def message_def fill_buf Let_def)
qed

lemma fill_other:
  assumes "unat n + 4 \<le> unat (queueSize c)" "slot c p' m" "p' \<noteq> p"
  shows "slot (fill p buf n c) p' m"
proof (rule slot_other [OF assms(2,3)])
  let ?s = "unat (queueSize c)"
  fix a assume "a < p * ?s \<or> p * ?s + ?s \<le> a"
  then have "a < p * ?s + ?s - 4 \<or> p * ?s + ?s - 4 + 3 < a" "\<not> (p * ?s \<le> a \<and> a < p * ?s + unat n)"
    using assms(1) by auto
  then show "queueBuf (fill p buf n c) a = queueBuf c a"
    using assms(1) by (auto simp: fill_buf Let_def)
qed simp

section \<open>The operations\<close>

lemmas queue_types = OS_QUEUE_OPERATE_GET_def OS_QUEUE_READ_HEAD_def OS_QUEUE_WRITE_HEAD_def
  OS_QUEUE_WRITE_TAIL_def OS_QUEUE_IS_POINT_def OS_QUEUE_IS_READ_def OS_QUEUE_IS_WRITE_def
  OS_QUEUE_READ_WRITE_GET_def OS_QUEUE_OPERATE_TYPE_def OS_QUEUE_READ_def OS_QUEUE_WRITE_def OS_QUEUE_HEAD_def
  OS_QUEUE_TAIL_def OS_QUEUE_POINT_def OS_QUEUE_NOT_POINT_def

text \<open>The three types of the copying services are the numbers 0, 1 and 3.\<close>

lemma copy_types:
  "OS_QUEUE_OPERATE_TYPE OS_QUEUE_READ OS_QUEUE_HEAD OS_QUEUE_NOT_POINT = 0"
  "OS_QUEUE_OPERATE_TYPE OS_QUEUE_WRITE OS_QUEUE_HEAD OS_QUEUE_NOT_POINT = 1"
  "OS_QUEUE_OPERATE_TYPE OS_QUEUE_WRITE OS_QUEUE_TAIL OS_QUEUE_NOT_POINT = 3"
  by (simp_all add: queue_types)

lemma slot_cong:
  "queueSize c' = queueSize c \<Longrightarrow> queueBuf c' = queueBuf c \<Longrightarrow> slot c' p m = slot c p m"
  by (simp add: slot_def)

lemma slot_free:
  assumes "ring_holds c q" "length q < unat (queueLen c)" "k < length q"
  shows "(unat (queueHead c) + k) mod unat (queueLen c) \<noteq> unat (queueTail c)"
  using mod_slot_inj [of k "unat (queueLen c)" "length q" "unat (queueHead c)"] assms ringD(4) [OF assms(1)]
  by auto

definition next_tail :: "queue_cb \<Rightarrow> queue_cb" where
  "next_tail c = c\<lparr>queueTail := if unat (queueTail c) + 1 = unat (queueLen c) then 0 else queueTail c + 1\<rparr>"

definition prev_head :: "queue_cb \<Rightarrow> queue_cb" where
  "prev_head c = c\<lparr>queueHead := if queueHead c = 0 then queueLen c - 1 else queueHead c - 1\<rparr>"

definition next_head :: "queue_cb \<Rightarrow> queue_cb" where
  "next_head c = c\<lparr>queueHead := if unat (queueHead c) + 1 = unat (queueLen c) then 0 else queueHead c + 1\<rparr>"

lemma moves_sel [simp]:
  "queueSize (next_tail c) = queueSize c" "queueLen (next_tail c) = queueLen c"
  "queueHead (next_tail c) = queueHead c" "queueBuf (next_tail c) = queueBuf c"
  "readWriteableCnt (next_tail c) = readWriteableCnt c" "queueState (next_tail c) = queueState c"
  "queueID (next_tail c) = queueID c"
  "queueSize (prev_head c) = queueSize c" "queueLen (prev_head c) = queueLen c"
  "queueTail (prev_head c) = queueTail c" "queueBuf (prev_head c) = queueBuf c"
  "readWriteableCnt (prev_head c) = readWriteableCnt c" "queueState (prev_head c) = queueState c"
  "queueID (prev_head c) = queueID c"
  "queueSize (next_head c) = queueSize c" "queueLen (next_head c) = queueLen c"
  "queueTail (next_head c) = queueTail c" "queueBuf (next_head c) = queueBuf c"
  "readWriteableCnt (next_head c) = readWriteableCnt c" "queueState (next_head c) = queueState c"
  "queueID (next_head c) = queueID c"
  by (simp_all add: next_tail_def prev_head_def next_head_def)

lemma tail_lt: "ring_holds c q \<Longrightarrow> unat (queueTail c) < unat (queueLen c)"
  using ringD(2,4) [of c q] by simp

lemma write_tail:
  fixes buf :: bytes
  assumes "ring_holds c q" "length q < unat (queueLen c)" "unat n + 4 \<le> unat (queueSize c)"
  defines "c' \<equiv> fill (unat (queueTail c)) buf n (next_tail c)"
  shows "OsQueueBufferOperate 3 c buf n = (c', buf, n)" and "ring_holds c' (q @ [message buf n])"
proof -
  show "OsQueueBufferOperate 3 c buf n = (c', buf, n)"
    by (simp add: OsQueueBufferOperate_def queue_position_def queue_types Let_def c'_def fill_def
        next_tail_def case_prod_beta)
  note r = ringD [OF assms(1)]
  let ?len = "unat (queueLen c)" and ?h = "unat (queueHead c)"
  have tail: "unat (queueTail (next_tail c)) = (?h + Suc (length q)) mod ?len"
    using unat_next [OF tail_lt [OF assms(1)]] by (simp add: next_tail_def r(4) mod_Suc_eq)
  have "slot c' ((?h + k) mod ?len) ((q @ [message buf n]) ! k)" if "k < Suc (length q)" for k
  proof (cases "k < length q")
    case True
    have "slot (next_tail c) ((?h + k) mod ?len) (q ! k)"
      using r(5) [OF True] by (subst slot_cong) simp_all
    then show ?thesis
      using True slot_free [OF assms(1,2) True] assms(3)
      by (simp add: c'_def nth_append fill_other)
  next
    case False
    with that have "k = length q" by simp
    then show ?thesis
      using fill_slot [of n "next_tail c" "unat (queueTail c)" buf] assms(3) by (simp add: c'_def r(4))
  qed
  then show "ring_holds c' (q @ [message buf n])"
    using r(1,2) assms(2) tail by (simp add: ring_holds_def c'_def)
qed

lemma write_head:
  fixes buf :: bytes
  assumes "ring_holds c q" "length q < unat (queueLen c)" "unat n + 4 \<le> unat (queueSize c)"
  defines "c' \<equiv> fill (unat (queueHead (prev_head c))) buf n (prev_head c)"
  shows "OsQueueBufferOperate 1 c buf n = (c', buf, n)" and "ring_holds c' (message buf n # q)"
proof -
  show "OsQueueBufferOperate 1 c buf n = (c', buf, n)"
    by (simp add: OsQueueBufferOperate_def queue_position_def queue_types Let_def c'_def fill_def
        prev_head_def case_prod_beta)
  note r = ringD [OF assms(1)]
  let ?len = "unat (queueLen c)" and ?h = "unat (queueHead c)" and ?h' = "unat (queueHead (prev_head c))"
  have h': "?h' = (?h + ?len - 1) mod ?len" "?h' < ?len"
    using unat_prev [OF r(2)] by (simp_all add: prev_head_def)
  have shift: "(?h' + Suc k) mod ?len = (?h + k) mod ?len" for k
  proof -
    have "(?h' + Suc k) mod ?len = (?h + ?len - 1 + Suc k) mod ?len" by (simp only: h'(1) mod_add_left_eq)
    also have "?h + ?len - 1 + Suc k = ?h + k + ?len" using r(2) by simp
    finally show ?thesis by simp
  qed
  have "slot c' ((?h' + k) mod ?len) ((message buf n # q) ! k)" if "k < Suc (length q)" for k
  proof (cases k)
    case 0
    then show ?thesis
      using fill_slot [of n "prev_head c" ?h' buf] assms(3) h'(2) by (simp add: c'_def)
  next
    case (Suc j)
    then have j: "j < length q" using that by simp
    have "slot (prev_head c) ((?h + j) mod ?len) (q ! j)"
      using r(5) [OF j] by (subst slot_cong) simp_all
    moreover have "(?h + j) mod ?len \<noteq> ?h'"
      using mod_slot_inj [of "Suc j" ?len 0 ?h'] j assms(2) shift [of j] h'(2) by auto
    ultimately show ?thesis
      using Suc shift [of j] assms(3) by (simp add: c'_def fill_other)
  qed
  moreover have "unat (queueTail c) = (?h' + Suc (length q)) mod ?len" using r(4) shift [of "length q"] by simp
  ultimately show "ring_holds c' (message buf n # q)"
    using r(1,2) assms(2) h'(2) by (simp add: ring_holds_def c'_def)
qed

lemma next_head_holds:
  assumes "ring_holds c (m # q)" shows "ring_holds (next_head c) q"
proof -
  note r = ringD [OF assms(1)]
  let ?h = "unat (queueHead c)" and ?len = "unat (queueLen c)"
  have h': "unat (queueHead (next_head c)) = (?h + 1) mod ?len"
    using unat_next [OF r(2)] by (simp add: next_head_def)
  have shift: "((?h + 1) mod ?len + k) mod ?len = (?h + Suc k) mod ?len" for k
    by (simp add: mod_add_left_eq)
  have "slot (next_head c) (((?h + 1) mod ?len + k) mod ?len) (q ! k)" if "k < length q" for k
    unfolding shift using r(5) [of "Suc k"] that by (subst slot_cong) simp_all
  then show "ring_holds (next_head c) q"
    using r(1-4) shift [of "length q"] by (simp add: ring_holds_def h')
qed

lemma read_head:
  fixes buf :: bytes
  assumes "ring_holds c (m # q)" "length m \<le> unat bufSize" "bufSize \<noteq> 0" "bufSize \<le> SECUREC_MEM_MAX_LEN"
  defines "buf' \<equiv> (\<lambda>i. if i < length m then m ! i else buf i)"
  shows "OsQueueBufferOperate 0 c buf bufSize = (next_head c, buf', of_nat (length m))" and "ring_holds (next_head c) q"
proof -
  note r = ringD [OF assms(1)]
  let ?s = "unat (queueSize c)" and ?h = "unat (queueHead c)" and ?len = "unat (queueLen c)"
  have s: "slot c ?h m" using r(5) [of 0] r(2) by simp
  have "unat bufSize < 2 ^ 32" using unsigned_less [of bufSize] by simp
  then have "length m < 2 ^ 32" using assms(2) by linarith
  then have len: "unat (of_nat (length m) :: UINT32) = length m" by (simp add: unat_of_nat)
  have size: "get32 (queueBuf c) (?h * ?s + ?s - 4) = of_nat (length m)" using s by (simp add: slot_def)
  have copy: "memcpy_s buf 0 bufSize (queueBuf c) (?h * ?s) (of_nat (length m)) = (EOK, buf')"
    using assms(2-4) s len by (auto simp: memcpy_s_def word_less_nat_alt word_le_nat_alt buf'_def slot_def fun_eq_iff)
  show "OsQueueBufferOperate 0 c buf bufSize = (next_head c, buf', of_nat (length m))"
    by (simp add: OsQueueBufferOperate_def queue_position_def queue_types Let_def size copy next_head_def)
  show "ring_holds (next_head c) q" by (rule next_head_holds [OF assms(1)])
qed

text \<open>With a buffer size that \<open>memcpy_s\<close> refuses, the slot is given up and nothing is copied.\<close>

lemma read_lost:
  assumes "SECUREC_MEM_MAX_LEN < bufSize"
  shows "OsQueueBufferOperate 0 c buf bufSize = (next_head c, buf, bufSize)"
  using assms by (simp add: OsQueueBufferOperate_def queue_position_def queue_types Let_def memcpy_s_def next_head_def)

lemma holds_cnt [simp]: "ring_holds (c\<lparr>readWriteableCnt := f\<rparr>) q = ring_holds c q"
proof -
  have "slot (c\<lparr>readWriteableCnt := f\<rparr>) p m = slot c p m" for p m by (rule slot_cong) simp_all
  then show ?thesis by (simp add: ring_holds_def)
qed

end
