(* ===== verification/Queue_Inv.thy ===== *)
theory Queue_Inv
  imports Queue_Ring
begin

text \<open>
  The invariant of the message queues and the effect of the services on it: the control blocks form
  a pool, and tasks wait to read only while no message can be read, to write only while no slot can
  be written.
\<close>

section \<open>Frames\<close>

lemma queue_more:
  assumes "sched_state.more s' = sched_state.more s"
  shows "g_allQueue s' = g_allQueue s" "g_freeQueueList s' = g_freeQueueList s" "boxMemory s' = boxMemory s"
  using assms by (cases s; cases s'; simp)+

lemma queue_frame [simp]:
  "g_allQueue (upd_tcb t f s) = g_allQueue s" "g_allQueue (OsSchedTaskWait h ticks s) = g_allQueue s"
  "g_allQueue (OsSchedTaskWake t s) = g_allQueue s" "g_allQueue (LOS_Schedule s) = g_allQueue s"
  "g_allQueue (status_clear t v s) = g_allQueue s" "g_allQueue (LOS_MemFree a s) = g_allQueue s"
  "g_allQueue (LOS_MemAlloc a s) = g_allQueue s"
  "g_freeQueueList (upd_tcb t f s) = g_freeQueueList s"
  "g_freeQueueList (OsSchedTaskWait h ticks s) = g_freeQueueList s"
  "g_freeQueueList (OsSchedTaskWake t s) = g_freeQueueList s"
  "g_freeQueueList (LOS_Schedule s) = g_freeQueueList s"
  "g_freeQueueList (status_clear t v s) = g_freeQueueList s"
  "g_freeQueueList (LOS_MemFree a s) = g_freeQueueList s"
  "g_freeQueueList (LOS_MemAlloc a s) = g_freeQueueList s"
  "boxMemory (upd_tcb t f s) = boxMemory s" "boxMemory (OsSchedTaskWake t s) = boxMemory s"
  "boxMemory (LOS_Schedule s) = boxMemory s"
  by (rule queue_more; simp add: LOS_MemFree_def LOS_MemAlloc_def)+

lemma upd_queue_sel [simp]:
  "g_allQueue (upd_queue i f s) = (g_allQueue s)(i := f (g_allQueue s i))"
  "g_freeQueueList (upd_queue i f s) = g_freeQueueList s" "boxMemory (upd_queue i f s) = boxMemory s"
  "pend (upd_queue i f s) = pend s" "cfg (upd_queue i f s) = cfg s" "runTask (upd_queue i f s) = runTask s"
  "g_taskCBArray (upd_queue i f s) = g_taskCBArray s" "g_taskMaxNum (upd_queue i f s) = g_taskMaxNum s"
  "g_idleTaskID (upd_queue i f s) = g_idleTaskID s" "events (upd_queue i f s) = events s"
  by (simp_all add: upd_queue_def)

lemma MemFree_sel [simp]:
  "pend (LOS_MemFree a s) = pend s" "cfg (LOS_MemFree a s) = cfg s"
  "pend (LOS_MemAlloc a s) = pend s" "cfg (LOS_MemAlloc a s) = cfg s"
  by (simp_all add: LOS_MemFree_def LOS_MemAlloc_def)

lemma sched_inv_queue [simp]:
  "sched_inv (upd_queue i f s) = sched_inv s"
  "sched_inv (s\<lparr>g_freeQueueList := l\<rparr>) = sched_inv s" "sched_inv (s\<lparr>boxMemory := m\<rparr>) = sched_inv s"
  by (rule sched_inv_frame; simp add: upd_queue_def)+

lemma unblocked_queue [simp]:
  "unblocked (upd_queue i f s) = unblocked s" "unblocked (s\<lparr>boxMemory := m\<rparr>) = unblocked s"
  by (simp_all add: unblocked_def)

section \<open>The invariant\<close>

definition queue_used :: "'a queue_state_scheme \<Rightarrow> nat \<Rightarrow> bool" where
  "queue_used s i \<longleftrightarrow> queueState (g_allQueue s i) = OS_QUEUE_INUSED"

definition queue_cb_ok :: "'a queue_state_scheme \<Rightarrow> nat \<Rightarrow> bool" where
  "queue_cb_ok s i \<longleftrightarrow>
    (queue_used s i \<or> queueState (g_allQueue s i) = OS_QUEUE_UNUSED) \<and>
    (i < LOSCFG_BASE_IPC_QUEUE_LIMIT (cfg s) \<longrightarrow> queueID (g_allQueue s i) = i) \<and>
    (pend s (QueueReadWait i) \<noteq> [] \<longrightarrow> i < LOSCFG_BASE_IPC_QUEUE_LIMIT (cfg s) \<and> queue_used s i \<and>
      readWriteableCnt (g_allQueue s i) OS_QUEUE_READ = 0) \<and>
    (pend s (QueueWriteWait i) \<noteq> [] \<longrightarrow> i < LOSCFG_BASE_IPC_QUEUE_LIMIT (cfg s) \<and> queue_used s i \<and>
      readWriteableCnt (g_allQueue s i) OS_QUEUE_WRITE = 0) \<and>
    (pend s (QueueMemWait i) \<noteq> [] \<longrightarrow> i < LOSCFG_BASE_IPC_QUEUE_LIMIT (cfg s) \<and> queue_used s i)"

definition queue_ok :: "'a queue_state_scheme \<Rightarrow> bool" where
  "queue_ok s \<longleftrightarrow>
    pool_ok (g_freeQueueList s ()) (queue_used s) (LOSCFG_BASE_IPC_QUEUE_LIMIT (cfg s)) \<and>
    (\<forall>i. queue_cb_ok s i)"

lemma queue_okD:
  assumes "queue_ok s"
  shows "pool_ok (g_freeQueueList s ()) (queue_used s) (LOSCFG_BASE_IPC_QUEUE_LIMIT (cfg s))"
    and "queue_cb_ok s i"
  using assms by (simp_all add: queue_ok_def)

lemma queue_stat: "\<not> queue_used s i \<or> queueState (g_allQueue s i) \<noteq> OS_QUEUE_UNUSED"
  by (simp add: queue_used_def OS_QUEUE_INUSED_def OS_QUEUE_UNUSED_def)

lemma queue_ok_calm:
  assumes "queue_ok s" "calm H s s'"
    "\<And>i. QueueReadWait i \<notin> H \<and> QueueWriteWait i \<notin> H \<and> QueueMemWait i \<notin> H"
  shows "queue_ok s'"
proof -
  note m = queue_more [OF calmD(2) [OF assms(2)]] and c = calmD(1) [OF assms(2)]
  have u: "queue_used s' = queue_used s" by (simp add: queue_used_def m fun_eq_iff)
  have e: "pend s h = [] \<Longrightarrow> pend s' h = []"
    if "h = QueueReadWait i \<or> h = QueueWriteWait i \<or> h = QueueMemWait i" for h i
    using that assms(3) [of i] by (intro calm_empty [OF assms(2)]) auto
  have "queue_cb_ok s' i" for i
    using queue_okD(2) [OF assms(1), of i] e [of _ i] unfolding queue_cb_ok_def u m c by blast
  then show ?thesis using assms(1) unfolding queue_ok_def u m c by blast
qed

lemma queue_okI:
  assumes "queue_ok s" "cfg s' = cfg s" "\<And>j. j \<noteq> i \<Longrightarrow> g_allQueue s' j = g_allQueue s j"
    "pool_ok (g_freeQueueList s' ()) (queue_used s') (LOSCFG_BASE_IPC_QUEUE_LIMIT (cfg s))"
    "\<And>j h. j \<noteq> i \<Longrightarrow> h = QueueReadWait j \<or> h = QueueWriteWait j \<or> h = QueueMemWait j \<Longrightarrow> pend s' h = pend s h"
    "queue_cb_ok s' i"
  shows "queue_ok s'"
proof -
  have "queue_cb_ok s' j" for j
  proof (cases "j = i")
    case False
    have "queue_used s' j = queue_used s j" using assms(3) [OF False] by (simp add: queue_used_def)
    then show ?thesis
      using queue_okD(2) [OF assms(1), of j] assms(2) assms(3,5) [OF False]
      by (simp add: queue_cb_ok_def)
  qed (use assms(6) in simp)
  with assms(2,4) show ?thesis by (simp add: queue_ok_def)
qed

definition queue_inv :: "'a queue_state_scheme \<Rightarrow> bool" where
  "queue_inv s \<longleftrightarrow> sched_inv s \<and> queue_ok s"

lemma queue_invD: "queue_inv s \<Longrightarrow> sched_inv s" "queue_inv s \<Longrightarrow> queue_ok s"
  by (simp_all add: queue_inv_def)

definition queue_valid :: "nat \<Rightarrow> 'a queue_state_scheme \<Rightarrow> bool" where
  "queue_valid i s \<longleftrightarrow> i < LOSCFG_BASE_IPC_QUEUE_LIMIT (cfg s) \<and> queue_used s i"

section \<open>Creation and deletion\<close>

lemma QueueCreate_ok:
  assumes "LOS_QueueCreate mem garbage len idNull maxMsgSize s = (LOS_OK, h, s')" "queue_ok s"
  shows "g_freeQueueList s () = h # g_freeQueueList s' () \<and> queue_used s' = (queue_used s)(h := True) \<and>
    cfg s' = cfg s \<and> queue_ok s' \<and> pend s' = pend s \<and>
    len \<noteq> 0 \<and> maxMsgSize \<noteq> 0 \<and> \<not> OS_NULL_SHORT - 4 < maxMsgSize \<and>
    g_allQueue s' h = (g_allQueue s h)\<lparr>queueLen := len, queueSize := maxMsgSize + 4, queue := mem,
      queueState := OS_QUEUE_INUSED,
      readWriteableCnt := (readWriteableCnt (g_allQueue s h))(OS_QUEUE_READ := 0, OS_QUEUE_WRITE := len),
      queueHead := 0, queueTail := 0, queueBuf := garbage\<rparr>"
proof -
  obtain x xs where f: "g_freeQueueList s () = x # xs"
    using assms(1) by (cases "g_freeQueueList s ()")
      (auto simp: LOS_QueueCreate_def LOS_ListEmpty_def Let_def split: if_split_asm)
  note p = queue_okD(1) [OF assms(2)]
  have x: "x < LOSCFG_BASE_IPC_QUEUE_LIMIT (cfg s)" "\<not> queue_used s x"
    using pool_okD(2) [OF p, of x] by (simp_all add: f)
  have none: "pend s (QueueReadWait x) = []" "pend s (QueueWriteWait x) = []" "pend s (QueueMemWait x) = []"
    using queue_okD(2) [OF assms(2), of x] x(2) by (auto simp: queue_cb_ok_def)
  have idx: "queueID (g_allQueue s x) = x" using queue_okD(2) [OF assms(2), of x] x(1) by (simp add: queue_cb_ok_def)
  let ?f = "\<lambda>c. c\<lparr>queueLen := len, queueSize := maxMsgSize + 4, queue := mem,
      queueState := OS_QUEUE_INUSED,
      readWriteableCnt := (readWriteableCnt c)(OS_QUEUE_READ := 0, OS_QUEUE_WRITE := len),
      queueHead := 0, queueTail := 0, queueBuf := garbage\<rparr>"
  have r: "h = x \<and> len \<noteq> 0 \<and> maxMsgSize \<noteq> 0 \<and> \<not> OS_NULL_SHORT - 4 < maxMsgSize \<and> cfg s' = cfg s \<and>
      g_allQueue s' = (g_allQueue s)(x := ?f (g_allQueue s x)) \<and> g_freeQueueList s' () = xs \<and>
      pend s' = (pend s)(QueueReadWait x := [], QueueWriteWait x := [], QueueMemWait x := [])"
    using assms(1) f idx
    by (auto simp: LOS_QueueCreate_def LOS_ListEmpty_def LOS_DL_LIST_FIRST_def Let_def list_defs
        split: if_split_asm)
  have pe: "pend s' = pend s" using r none by (auto simp: fun_eq_iff)
  have u: "queue_used s' = (queue_used s)(x := True)"
    using r by (simp add: queue_used_def fun_eq_iff)
  have "queue_ok s'"
  proof (rule queue_okI [OF assms(2), of s' x])
    show "pool_ok (g_freeQueueList s' ()) (queue_used s') (LOSCFG_BASE_IPC_QUEUE_LIMIT (cfg s))"
      using r pool_ok_take [of x xs] p by (simp add: u f)
    show "queue_cb_ok s' x"
      unfolding queue_cb_ok_def u pe none using r idx by simp
  qed (use r pe in simp_all)
  then show ?thesis using r f u pe by simp
qed

lemma QueueDelete_ok:
  assumes "LOS_QueueDelete LOS_OK h s = (LOS_OK, s')" "queue_ok s"
  shows "h < LOSCFG_BASE_IPC_QUEUE_LIMIT (cfg s) \<and> queue_used s h \<and>
    g_freeQueueList s' () = h # g_freeQueueList s () \<and> queue_used s' = (queue_used s)(h := False) \<and>
    cfg s' = cfg s \<and> queue_ok s' \<and>
    unat (readWriteableCnt (g_allQueue s h) OS_QUEUE_WRITE) +
      unat (readWriteableCnt (g_allQueue s h) OS_QUEUE_READ) = unat (queueLen (g_allQueue s h)) \<and>
    pend s (QueueReadWait h) = [] \<and> pend s (QueueWriteWait h) = [] \<and> pend s (QueueMemWait h) = []"
proof -
  have r: "h < LOSCFG_BASE_IPC_QUEUE_LIMIT (cfg s)" "queueState (g_allQueue s h) \<noteq> OS_QUEUE_UNUSED"
    "pend s (QueueReadWait h) = []" "pend s (QueueWriteWait h) = []" "pend s (QueueMemWait h) = []"
    "unat (readWriteableCnt (g_allQueue s h) OS_QUEUE_WRITE) +
      unat (readWriteableCnt (g_allQueue s h) OS_QUEUE_READ) = unat (queueLen (g_allQueue s h))"
    "g_allQueue s' = (g_allQueue s)(h := (g_allQueue s h)\<lparr>queue := 0, queueState := OS_QUEUE_UNUSED\<rparr>)"
    "g_freeQueueList s' () = h # g_freeQueueList s ()" "cfg s' = cfg s" "pend s' = pend s"
    using assms(1) by (auto simp: LOS_QueueDelete_def LOS_ListEmpty_def Let_def list_defs split: if_split_asm)
  have used: "queue_used s h"
    using r(2) queue_okD(2) [OF assms(2), of h] by (simp add: queue_cb_ok_def)
  have u: "queue_used s' = (queue_used s)(h := False)"
    by (simp add: queue_used_def r(7) fun_eq_iff OS_QUEUE_UNUSED_def OS_QUEUE_INUSED_def)
  have "queue_ok s'"
  proof (rule queue_okI [OF assms(2), of s' h])
    show "pool_ok (g_freeQueueList s' ()) (queue_used s') (LOSCFG_BASE_IPC_QUEUE_LIMIT (cfg s))"
      using pool_ok_give [OF queue_okD(1) [OF assms(2)] used r(1)] by (simp add: u r(8))
    show "queue_cb_ok s' h"
      using queue_okD(2) [OF assms(2), of h] by (simp add: queue_cb_ok_def u r)
  qed (use r in simp_all)
  with u r used show ?thesis by simp
qed

interpretation queue_blocks: control_blocks queue_ok "\<lambda>s. g_freeQueueList s ()" queue_used
  "\<lambda>s. LOSCFG_BASE_IPC_QUEUE_LIMIT (cfg s)" "LOS_QueueCreate mem garbage len False maxMsgSize"
  "LOS_QueueDelete LOS_OK" for mem garbage len maxMsgSize
proof (unfold_locales, goal_cases)
  case (1 s)
  then show ?case by (rule queue_okD(1))
next
  case (2 s)
  then show ?case by (simp add: LOS_QueueCreate_def LOS_ListEmpty_def Let_def)
next
  case (3 s i s')
  then show ?case using QueueCreate_ok [of mem garbage len False maxMsgSize s i s'] by simp
next
  case (4 s i s')
  then show ?case using QueueDelete_ok [of i s s'] by simp
qed

section \<open>Transfer\<close>

text \<open>
  What a queue stores, together with the promises to tasks that have been woken and have not run
  yet: \<open>r\<close> of the stored messages are for readers, \<open>w\<close> of the free slots for writers.
\<close>

definition queue_rel :: "nat \<Rightarrow> 'a queue_state_scheme \<Rightarrow> UINT8 list list \<Rightarrow> nat \<Rightarrow> nat \<Rightarrow> bool" where
  "queue_rel i s q r w \<longleftrightarrow> (let c = g_allQueue s i in ring_holds c q \<and>
    unat (readWriteableCnt c OS_QUEUE_READ) + r = length q \<and>
    unat (readWriteableCnt c OS_QUEUE_WRITE) + w + length q = unat (queueLen c))"

lemma BufferOperate_sel:
  assumes "OsQueueBufferOperate ty c buf n = (c', r)"
  shows "queueState c' = queueState c" "queueID c' = queueID c" "queueLen c' = queueLen c"
    "queueSize c' = queueSize c" "readWriteableCnt c' = readWriteableCnt c"
  using assms
  by (auto simp: OsQueueBufferOperate_def queue_position_def Let_def case_prod_beta split: if_split_asm)

definition other_end :: "UINT32 \<Rightarrow> UINT32" where
  "other_end ty = (if OS_QUEUE_READ_WRITE_GET ty = 0 then 1 else 0)"

lemma other_end_cases: "other_end ty = OS_QUEUE_READ \<or> other_end ty = OS_QUEUE_WRITE"
  by (simp add: other_end_def OS_QUEUE_READ_def OS_QUEUE_WRITE_def)

lemma is_wait_list [simp]: "is_wait (readWriteList i rw)"
  by (simp add: readWriteList_def)

lemma transfer_eq:
  assumes "OsQueueBufferOperate ty (g_allQueue s i) buf n = (c', buf', n')"
  shows "queue_transfer i ty buf n s = (buf', n',
    case pend s (readWriteList i (other_end ty)) of
      [] \<Rightarrow> upd_queue i (\<lambda>_. c'\<lparr>readWriteableCnt := (readWriteableCnt c')
              (other_end ty := readWriteableCnt c' (other_end ty) + 1)\<rparr>) s
    | t # ts \<Rightarrow> LOS_Schedule (OsSchedTaskWake t (upd_queue i (\<lambda>_. c') s)))"
  by (auto simp: queue_transfer_def Let_def assms LOS_ListEmpty_def LOS_DL_LIST_FIRST_def
      other_end_def upd_queue_def split: list.split)

text \<open>The first task that waits at the other end is woken, the others keep their places.\<close>

definition wakes_first :: "lhead \<Rightarrow> 'a queue_state_scheme \<Rightarrow> 'a queue_state_scheme \<Rightarrow> bool" where
  "wakes_first h s s' \<longleftrightarrow> (\<forall>k. is_wait k \<longrightarrow> pend s' k = (if k = h then tl (pend s k) else pend s k)) \<and>
    (\<forall>t ts. pend s h = t # ts \<longrightarrow> \<not> has (status s' t) OS_TASK_STATUS_PEND \<and>
      (has (status s t) OS_TASK_STATUS_SUSPEND \<or> has (status s' t) OS_TASK_STATUS_READY))"

lemma transfer_inv:
  assumes "sched_inv s" "unblocked s" "queue_valid i s"
    "OsQueueBufferOperate ty (g_allQueue s i) buf n = (c', buf', n')"
    "pool_ok (g_freeQueueList s ()) (queue_used s) (LOSCFG_BASE_IPC_QUEUE_LIMIT (cfg s))"
    "\<And>j. queue_cb_ok s j"
  defines "s' \<equiv> snd (snd (queue_transfer i ty buf n s))"
  shows "queue_inv s'" "wakes_first (readWriteList i (other_end ty)) s s'"
    and "g_allQueue s' i = (if pend s (readWriteList i (other_end ty)) = []
      then c'\<lparr>readWriteableCnt := (readWriteableCnt c') (other_end ty := readWriteableCnt c' (other_end ty) + 1)\<rparr>
      else c')"
    and "j \<noteq> i \<Longrightarrow> g_allQueue s' j = g_allQueue s j" "cfg s' = cfg s" "events s' = events s"
proof -
  let ?h = "readWriteList i (other_end ty)"
  note sel = BufferOperate_sel [OF assms(4)]
  have all: "sched_inv s' \<and> wakes_first ?h s s' \<and> cfg s' = cfg s \<and> events s' = events s \<and>
    g_freeQueueList s' = g_freeQueueList s \<and> g_allQueue s' = (g_allQueue s)(i := (if pend s ?h = []
      then c'\<lparr>readWriteableCnt := (readWriteableCnt c') (other_end ty := readWriteableCnt c' (other_end ty) + 1)\<rparr>
      else c'))"
  proof (cases "pend s ?h")
    case Nil
    then show ?thesis using assms(1) by (auto simp: s'_def transfer_eq [OF assms(4)] wakes_first_def)
  next
    case (Cons t ts)
    let ?q = "upd_queue i (\<lambda>_. c') s"
    have t: "t \<in> set (pend s ?h)" using Cons by simp
    have eq: "s' = LOS_Schedule (OsSchedTaskWake t ?q)" by (simp add: s'_def transfer_eq [OF assms(4)] Cons)
    have "sched_inv (OsSchedTaskWake t ?q)"
      using sched_inv_Wake [of ?q t] waiter [OF assms(1) _ t] assms(1,2) by simp
    moreover have "pend s' k = (if k = ?h then tl (pend s k) else pend s k)" if "is_wait k" for k
      using pend_Wake [of ?q ?h t k] assms(1) Cons that by (simp add: eq)
    moreover have "\<not> has (status s' t) OS_TASK_STATUS_PEND \<and>
        (has (status s t) OS_TASK_STATUS_SUSPEND \<or> has (status s' t) OS_TASK_STATUS_READY)"
      by (auto simp: eq Wake_eq Let_def EnQueue_sel)
    ultimately show ?thesis using Cons by (simp add: wakes_first_def) (simp add: eq)
  qed
  then show "wakes_first ?h s s'" "cfg s' = cfg s" "events s' = events s"
    "g_allQueue s' i = (if pend s ?h = []
      then c'\<lparr>readWriteableCnt := (readWriteableCnt c') (other_end ty := readWriteableCnt c' (other_end ty) + 1)\<rparr>
      else c')" "j \<noteq> i \<Longrightarrow> g_allQueue s' j = g_allQueue s j"
    by simp_all
  have pe: "pend s' k = (if k = ?h then tl (pend s k) else pend s k)" if "is_wait k" for k
    using all that by (simp add: wakes_first_def)
  have used: "queue_used s' = queue_used s"
    using all sel(1) by (simp add: queue_used_def fun_eq_iff)
  have ok: "queue_ok s" using assms(5,6) by (simp add: queue_ok_def)
  have "queue_ok s'"
  proof (rule queue_okI [OF ok, of s' i])
    show "pool_ok (g_freeQueueList s' ()) (queue_used s') (LOSCFG_BASE_IPC_QUEUE_LIMIT (cfg s))"
      using all assms(5) by (simp add: used)
    show "pend s' h = pend s h"
      if "j \<noteq> i" "h = QueueReadWait j \<or> h = QueueWriteWait j \<or> h = QueueMemWait j" for j h
      using pe [of h] that by (auto simp: readWriteList_def)
    show "queue_cb_ok s' i"
      using assms(3) assms(6) [of i] all sel other_end_cases [of ty]
      unfolding queue_cb_ok_def used pe [of "QueueReadWait i", simplified] pe [of "QueueWriteWait i", simplified]
        pe [of "QueueMemWait i", simplified]
      by (auto simp: queue_valid_def readWriteList_def OS_QUEUE_READ_def OS_QUEUE_WRITE_def)
  qed (use all in simp_all)
  with all show "queue_inv s'" by (simp add: queue_inv_def)
qed

lemma unblocked_transfer:
  assumes "sched_inv s" "unblocked s" "OsQueueBufferOperate ty (g_allQueue s i) buf n = (c', buf', n')"
  shows "unblocked (snd (snd (queue_transfer i ty buf n s)))"
proof (cases "pend s (readWriteList i (other_end ty))")
  case (Cons t ts)
  then show ?thesis
    using assms(1,2) unblocked_Wake(1) [of "upd_queue i (\<lambda>_. c') s" "readWriteList i (other_end ty)" t]
    by (simp add: transfer_eq [OF assms(3)]) (simp add: unblocked_def)
qed (simp add: transfer_eq [OF assms(3)] assms(2))

text \<open>What a write and a read do to the stored messages and the promises.\<close>

definition queue_put :: "bool \<Rightarrow> UINT8 list \<Rightarrow> UINT8 list list \<Rightarrow> UINT8 list list" where
  "queue_put toHead m q = (if toHead then m # q else q @ [m])"

lemma length_put [simp]: "length (queue_put toHead m q) = Suc (length q)"
  by (simp add: queue_put_def)

definition write_type :: "bool \<Rightarrow> UINT32" where
  "write_type toHead = OS_QUEUE_OPERATE_TYPE OS_QUEUE_WRITE (if toHead then OS_QUEUE_HEAD else OS_QUEUE_TAIL) OS_QUEUE_NOT_POINT"

lemma write_type_simps [simp]:
  "OS_QUEUE_READ_WRITE_GET (write_type toHead) = OS_QUEUE_WRITE" "other_end (write_type toHead) = OS_QUEUE_READ"
  "OS_QUEUE_IS_WRITE (write_type toHead)" "\<not> OS_QUEUE_IS_READ (write_type toHead)"
  by (simp_all add: write_type_def other_end_def queue_types)

lemma read_type_simps [simp]:
  "OS_QUEUE_READ_WRITE_GET 0 = OS_QUEUE_READ" "other_end 0 = OS_QUEUE_WRITE"
  "\<not> OS_QUEUE_IS_WRITE 0" "OS_QUEUE_IS_READ 0"
  by (simp_all add: other_end_def queue_types)

lemma rw_distinct [simp]: "OS_QUEUE_READ \<noteq> OS_QUEUE_WRITE" "OS_QUEUE_WRITE \<noteq> OS_QUEUE_READ"
  by (simp_all add: OS_QUEUE_READ_def OS_QUEUE_WRITE_def)

lemma rw_list [simp]:
  "readWriteList i OS_QUEUE_READ = QueueReadWait i" "readWriteList i OS_QUEUE_WRITE = QueueWriteWait i"
  by (simp_all add: readWriteList_def)

lemma write_ring:
  assumes "ring_holds c q" "length q < unat (queueLen c)" "unat n + 4 \<le> unat (queueSize c)"
  obtains c' where "OsQueueBufferOperate (write_type toHead) c buf n = (c', buf, n)"
    "ring_holds c' (queue_put toHead (message buf n) q)"
  using write_tail [OF assms, of buf] write_head [OF assms, of buf]
  by (cases toHead) (auto simp: write_type_def copy_types queue_put_def)

lemma transfer_write:
  fixes buf :: bytes and toHead :: bool
  assumes "sched_inv s" "unblocked s" "queue_valid i s"
    "pool_ok (g_freeQueueList s ()) (queue_used s) (LOSCFG_BASE_IPC_QUEUE_LIMIT (cfg s))"
    "\<And>j. queue_cb_ok s j" "ring_holds (g_allQueue s i) q"
    "unat (readWriteableCnt (g_allQueue s i) OS_QUEUE_READ) + r = length q"
    "unat (readWriteableCnt (g_allQueue s i) OS_QUEUE_WRITE) + w + Suc (length q) = unat (queueLen (g_allQueue s i))"
    "unat n + 4 \<le> unat (queueSize (g_allQueue s i))"
  defines "res \<equiv> queue_transfer i (write_type toHead) buf n s"
  shows "queue_inv (snd (snd res))" "wakes_first (QueueReadWait i) s (snd (snd res))"
    "queue_rel i (snd (snd res)) (queue_put toHead (message buf n) q)
      (if pend s (QueueReadWait i) = [] then r else Suc r) w"
proof -
  let ?c = "g_allQueue s i"
  have less: "length q < unat (queueLen ?c)" using assms(8) by simp
  obtain c' where c': "OsQueueBufferOperate (write_type toHead) ?c buf n = (c', buf, n)"
    "ring_holds c' (queue_put toHead (message buf n) q)"
    by (rule write_ring [OF assms(6) less assms(9), of toHead buf])
  note t = transfer_inv [OF assms(1-3) c'(1) assms(4,5), simplified]
  note sel = BufferOperate_sel [OF c'(1)]
  show "queue_inv (snd (snd res))" "wakes_first (QueueReadWait i) s (snd (snd res))"
    unfolding res_def by (rule t)+
  have "readWriteableCnt ?c OS_QUEUE_READ < queueLen ?c"
    using assms(7) less by (simp add: word_less_nat_alt)
  note inc = unat_inc [OF this]
  show "queue_rel i (snd (snd res)) (queue_put toHead (message buf n) q)
      (if pend s (QueueReadWait i) = [] then r else Suc r) w"
    unfolding queue_rel_def Let_def res_def t(3)
    using c'(2) assms(7,8) inc by (simp add: sel)
qed

lemma transfer_next:
  fixes buf :: bytes
  assumes "sched_inv s" "unblocked s" "queue_valid i s"
    "pool_ok (g_freeQueueList s ()) (queue_used s) (LOSCFG_BASE_IPC_QUEUE_LIMIT (cfg s))"
    "\<And>j. queue_cb_ok s j" "ring_holds (g_allQueue s i) (m # q)"
    "unat (readWriteableCnt (g_allQueue s i) OS_QUEUE_READ) + r = length q"
    "unat (readWriteableCnt (g_allQueue s i) OS_QUEUE_WRITE) + w + Suc (length q) = unat (queueLen (g_allQueue s i))"
    "OsQueueBufferOperate 0 (g_allQueue s i) buf n = (next_head (g_allQueue s i), buf', n')"
  defines "res \<equiv> queue_transfer i 0 buf n s"
  shows "queue_inv (snd (snd res))" "wakes_first (QueueWriteWait i) s (snd (snd res))"
    "queue_rel i (snd (snd res)) q r (if pend s (QueueWriteWait i) = [] then w else Suc w)"
    "fst res = buf'" "fst (snd res) = n'"
proof -
  let ?c = "g_allQueue s i"
  note t = transfer_inv [OF assms(1-3) assms(9) assms(4,5), simplified]
  note sel = BufferOperate_sel [OF assms(9)]
  show "queue_inv (snd (snd res))" "wakes_first (QueueWriteWait i) s (snd (snd res))"
    unfolding res_def by (rule t)+
  show "fst res = buf'" "fst (snd res) = n'"
    by (simp_all add: res_def transfer_eq [OF assms(9)])
  have "readWriteableCnt ?c OS_QUEUE_WRITE < queueLen ?c"
    using assms(8) by (simp add: word_less_nat_alt)
  note inc = unat_inc [OF this]
  show "queue_rel i (snd (snd res)) q r (if pend s (QueueWriteWait i) = [] then w else Suc w)"
    unfolding queue_rel_def Let_def res_def t(3)
    using next_head_holds [OF assms(6)] assms(7,8) inc by (simp add: sel)
qed

lemma read_fits:
  assumes "ring_holds c (m # q)" "unat (queueSize c) \<le> unat n + 4" "n \<noteq> 0" "n \<le> SECUREC_MEM_MAX_LEN"
  shows "OsQueueBufferOperate 0 c buf n = (next_head c, \<lambda>j. if j < length m then m ! j else buf j, of_nat (length m))"
proof -
  have "slot c (unat (queueHead c)) m"
    using ringD(5) [OF assms(1), of 0] ringD(2) [OF assms(1)] by simp
  then have "length m \<le> unat n" using assms(2) by (simp add: slot_def)
  from read_head(1) [OF assms(1) this assms(3,4)] show ?thesis .
qed

section \<open>Entry and resumption\<close>

text \<open>The state after a unit has been taken from a count keeps the invariant.\<close>

definition take_unit :: "nat \<Rightarrow> UINT32 \<Rightarrow> 'a queue_state_scheme \<Rightarrow> 'a queue_state_scheme" where
  "take_unit i rw s = upd_queue i (\<lambda>c. c\<lparr>readWriteableCnt := (readWriteableCnt c)(rw := readWriteableCnt c rw - 1)\<rparr>) s"

lemma take_unit_inv:
  assumes "queue_inv s" "queue_valid i s" "rw = OS_QUEUE_READ \<or> rw = OS_QUEUE_WRITE"
    "readWriteableCnt (g_allQueue s i) rw \<noteq> 0"
  shows "sched_inv (take_unit i rw s)" "queue_valid i (take_unit i rw s)" "queue_cb_ok (take_unit i rw s) j"
    "pool_ok (g_freeQueueList (take_unit i rw s) ()) (queue_used (take_unit i rw s))
      (LOSCFG_BASE_IPC_QUEUE_LIMIT (cfg (take_unit i rw s)))"
    "unat (readWriteableCnt (g_allQueue s i) rw) =
      Suc (unat (readWriteableCnt (g_allQueue (take_unit i rw s) i) rw))"
proof -
  note ok = queue_invD(2) [OF assms(1)]
  have used: "queue_used (take_unit i rw s) = queue_used s"
    by (simp add: queue_used_def take_unit_def fun_eq_iff)
  show "sched_inv (take_unit i rw s)" "queue_valid i (take_unit i rw s)"
    "pool_ok (g_freeQueueList (take_unit i rw s) ()) (queue_used (take_unit i rw s))
      (LOSCFG_BASE_IPC_QUEUE_LIMIT (cfg (take_unit i rw s)))"
    using assms(2) queue_invD(1) [OF assms(1)] queue_okD(1) [OF ok]
    by (simp_all add: queue_valid_def used) (simp_all add: take_unit_def)
  show "queue_cb_ok (take_unit i rw s) j"
    using queue_okD(2) [OF ok, of j] assms(3,4)
    unfolding queue_cb_ok_def used by (auto simp: take_unit_def)
  have "0 < readWriteableCnt (g_allQueue s i) rw" using assms(4) by (simp add: word_gt_0)
  from unat_dec [OF this] show "unat (readWriteableCnt (g_allQueue s i) rw) =
      Suc (unat (readWriteableCnt (g_allQueue (take_unit i rw s) i) rw))"
    by (simp add: take_unit_def)
qed

lemma wait_inv:
  fixes timeOut :: UINT32
  assumes "queue_inv s" "queue_valid i s" "rw = OS_QUEUE_READ \<or> rw = OS_QUEUE_WRITE"
    "readWriteableCnt (g_allQueue s i) rw = 0" "unblocked s" "runTask s \<noteq> g_idleTaskID s"
  defines "s' \<equiv> LOS_Schedule (OsSchedTaskWait (readWriteList i rw) timeOut s)"
  shows "queue_inv s'" "pend s' = (pend s)(readWriteList i rw := pend s (readWriteList i rw) @ [runTask s])"
    "queue_rel i s' = queue_rel i s"
proof -
  note ok = queue_invD(2) [OF assms(1)]
  show p: "pend s' = (pend s)(readWriteList i rw := pend s (readWriteList i rw) @ [runTask s])"
    by (simp add: s'_def pend_Wait)
  show "queue_rel i s' = queue_rel i s"
    by (simp add: s'_def queue_rel_def fun_eq_iff)
  have used: "queue_used s' = queue_used s" by (simp add: queue_used_def s'_def fun_eq_iff)
  have "queue_ok s'"
  proof (rule queue_okI [OF ok, of s' i])
    show "queue_cb_ok s' i"
    proof -
      have g: "g_allQueue s' = g_allQueue s" "cfg s' = cfg s" by (simp_all add: s'_def)
      from assms(3) show ?thesis
        using queue_okD(2) [OF ok, of i] assms(2,4)
        unfolding queue_cb_ok_def used g p queue_valid_def by (elim disjE) simp_all
    qed
    show "pend s' h = pend s h"
      if "j \<noteq> i" "h = QueueReadWait j \<or> h = QueueWriteWait j \<or> h = QueueMemWait j" for j h
      using that by (auto simp: p readWriteList_def)
    show "pool_ok (g_freeQueueList s' ()) (queue_used s') (LOSCFG_BASE_IPC_QUEUE_LIMIT (cfg s))"
      using queue_okD(1) [OF ok] unfolding used by (simp add: s'_def)
  qed (simp_all add: s'_def)
  moreover have "sched_inv s'"
    using sched_inv_Wait [OF queue_invD(1) [OF assms(1)] assms(5,6), of "readWriteList i rw" timeOut]
    by (simp add: s'_def)
  ultimately show "queue_inv s'" by (simp add: queue_inv_def)
qed

end
