(* ===== verification/Membox_Inv.thy ===== *)
theory Membox_Inv
  imports Membox Ipc
begin

text \<open>
  The invariant of a memory box: the blocks lie one after the other behind the header, the free
  ones form a chain that ends with a null pointer, every other block carries the magic word of the
  task that owns it, and the count tells how many blocks are allocated.
\<close>

section \<open>Geometry\<close>

definition blk :: "UINT32 \<Rightarrow> memory \<Rightarrow> nat \<Rightarrow> UINT32" where
  "blk pool mem i = pool + sizeof_MEMBOX_INFO + of_nat i * mem (uwBlkSize pool)"

definition blocks :: "UINT32 \<Rightarrow> memory \<Rightarrow> UINT32 list" where
  "blocks pool mem = map (blk pool mem) [0..<unat (mem (uwBlkNum pool))]"

definition geometry :: "UINT32 \<Rightarrow> memory \<Rightarrow> bool" where
  "geometry pool mem \<longleftrightarrow> pool \<noteq> 0 \<and> 4 \<le> mem (uwBlkSize pool) \<and> 0 < mem (uwBlkNum pool) \<and>
    unat pool + 16 + unat (mem (uwBlkNum pool)) * unat (mem (uwBlkSize pool)) \<le> 2 ^ 32"

lemma geometry_cong:
  assumes "mem' (uwBlkSize pool) = mem (uwBlkSize pool)" "mem' (uwBlkNum pool) = mem (uwBlkNum pool)"
  shows "geometry pool mem' = geometry pool mem" "blocks pool mem' = blocks pool mem"
    "blk pool mem' = blk pool mem"
  by (simp_all add: geometry_def blocks_def blk_def fun_eq_iff assms)

lemma block_end:
  assumes geo: "geometry pool mem" and "i < unat (mem (uwBlkNum pool))"
  shows "unat pool + 16 + i * unat (mem (uwBlkSize pool)) + unat (mem (uwBlkSize pool)) \<le> 2 ^ 32"
proof -
  have "Suc i * unat (mem (uwBlkSize pool)) \<le> unat (mem (uwBlkNum pool)) * unat (mem (uwBlkSize pool))"
    using assms(2) by (intro mult_right_mono) simp_all
  then show ?thesis using geo by (simp add: geometry_def)
qed

lemma size_pos: "geometry pool mem \<Longrightarrow> 4 \<le> unat (mem (uwBlkSize pool))"
  by (simp add: geometry_def word_le_nat_alt)

lemma unat_offset:
  assumes geo: "geometry pool mem" and "i < unat (mem (uwBlkNum pool))"
  shows "unat (of_nat i * mem (uwBlkSize pool)) = i * unat (mem (uwBlkSize pool))"
proof -
  have "unat (mem (uwBlkNum pool)) < 2 ^ 32" using unsigned_less [of "mem (uwBlkNum pool)"] by simp
  then have "i < 2 ^ 32" using assms(2) by linarith
  moreover have "i * unat (mem (uwBlkSize pool)) < 2 ^ 32"
    using block_end [OF assms] size_pos [OF geo] by linarith
  ultimately show ?thesis
    by (simp add: unat_word_ariths(2) unat_of_nat take_bit_eq_mod)
qed

lemma unat_blk:
  assumes geo: "geometry pool mem" and "i < unat (mem (uwBlkNum pool))"
  shows "unat (blk pool mem i) = unat pool + 16 + i * unat (mem (uwBlkSize pool))"
proof -
  have "unat pool + 16 + i * unat (mem (uwBlkSize pool)) < 2 ^ 32"
    using block_end [OF assms] size_pos [OF geo] by linarith
  then show ?thesis
    using unat_offset [OF assms] by (simp add: blk_def sizeof_MEMBOX_INFO_def unat_word_ariths(1))
qed

lemma distinct_blocks:
  assumes "geometry pool mem" shows "distinct (blocks pool mem)"
  unfolding blocks_def distinct_map
proof (intro conjI inj_onI distinct_upt)
  fix i j
  assume "i \<in> set [0..<unat (mem (uwBlkNum pool))]" "j \<in> set [0..<unat (mem (uwBlkNum pool))]"
    "blk pool mem i = blk pool mem j"
  then have "unat pool + 16 + i * unat (mem (uwBlkSize pool)) = unat pool + 16 + j * unat (mem (uwBlkSize pool))"
    using unat_blk [OF assms, of i] unat_blk [OF assms, of j] by (metis atLeastLessThan_iff set_upt)
  then have "i * unat (mem (uwBlkSize pool)) = j * unat (mem (uwBlkSize pool))"
    by (simp only: add_left_cancel)
  moreover have "unat (mem (uwBlkSize pool)) \<noteq> 0" using size_pos [OF assms] by linarith
  ultimately show "i = j" by simp
qed

lemma unat_header:
  assumes geo: "geometry pool mem"
  shows "unat (uwBlkSize pool) = unat pool" "unat (uwBlkNum pool) = unat pool + 4"
  "unat (uwBlkCnt pool) = unat pool + 8" "unat (stFreeList pool) = unat pool + 12"
proof -
  have "unat pool + 16 \<le> 2 ^ 32" using geo by (simp add: geometry_def)
  then show "unat (uwBlkSize pool) = unat pool" "unat (uwBlkNum pool) = unat pool + 4"
    "unat (uwBlkCnt pool) = unat pool + 8" "unat (stFreeList pool) = unat pool + 12"
    by (simp_all add: uwBlkSize_def uwBlkNum_def uwBlkCnt_def stFreeList_def unat_word_ariths(1))
qed

lemma block_not_header:
  assumes geo: "geometry pool mem" and "b \<in> set (blocks pool mem)"
  shows "b \<noteq> 0" "b \<noteq> uwBlkSize pool" "b \<noteq> uwBlkNum pool" "b \<noteq> uwBlkCnt pool" "b \<noteq> stFreeList pool"
    "uwBlkSize pool \<noteq> b" "uwBlkNum pool \<noteq> b" "uwBlkCnt pool \<noteq> b" "stFreeList pool \<noteq> b"
proof -
  obtain i where "i < unat (mem (uwBlkNum pool))" "b = blk pool mem i"
    using assms(2) by (auto simp: blocks_def)
  then have "unat b = unat pool + 16 + i * unat (mem (uwBlkSize pool))"
    by (simp add: unat_blk [OF geo])
  then have ge: "unat pool + 16 \<le> unat b" by simp
  then show "b \<noteq> 0" "b \<noteq> uwBlkSize pool" "b \<noteq> uwBlkNum pool" "b \<noteq> uwBlkCnt pool" "b \<noteq> stFreeList pool"
    by (auto dest: arg_cong [where f = unat] simp: unat_header [OF geo])
  then show "uwBlkSize pool \<noteq> b" "uwBlkNum pool \<noteq> b" "uwBlkCnt pool \<noteq> b" "stFreeList pool \<noteq> b"
    by auto
qed

text \<open>The two tests of \<open>OsCheckBoxMem\<close> on the offset single out the blocks of the pool.\<close>

lemma offset_check:
  assumes geo: "geometry pool mem"
  shows "(node - (pool + sizeof_MEMBOX_INFO)) mod mem (uwBlkSize pool) = 0 \<and>
   (node - (pool + sizeof_MEMBOX_INFO)) div mem (uwBlkSize pool) < mem (uwBlkNum pool) \<longleftrightarrow>
   node \<in> set (blocks pool mem)"
  (is "?off mod ?bs = 0 \<and> ?off div ?bs < ?n \<longleftrightarrow> _")
proof
  assume a: "?off mod ?bs = 0 \<and> ?off div ?bs < ?n"
  let ?i = "unat (?off div ?bs)"
  have "?off = (?off div ?bs) * ?bs" using a by (metis add.right_neutral div_mult_mod_eq)
  then have "node = pool + sizeof_MEMBOX_INFO + of_nat ?i * ?bs"
    by (simp add: algebra_simps)
  then have "node = blk pool mem ?i" by (simp add: blk_def)
  moreover have "?i < unat ?n" using a by (simp add: word_less_nat_alt)
  ultimately show "node \<in> set (blocks pool mem)" by (auto simp: blocks_def)
next
  assume "node \<in> set (blocks pool mem)"
  then obtain i where i: "i < unat ?n" "node = blk pool mem i" by (auto simp: blocks_def)
  have off: "unat ?off = i * unat ?bs" using unat_offset [OF geo i(1)] by (simp add: i(2) blk_def)
  have "unat (?off mod ?bs) = 0" "unat (?off div ?bs) = i"
    using off size_pos [OF geo] by (simp_all add: unat_mod unat_div)
  then show "?off mod ?bs = 0 \<and> ?off div ?bs < ?n"
    using i(1) by (simp add: word_less_nat_alt unat_eq_0)
qed

section \<open>Magic words and the chain of free blocks\<close>

definition magic :: "los_config \<Rightarrow> UINT32 \<Rightarrow> bool" where
  "magic c w \<longleftrightarrow> OS_MEMBOX_TASKID_GET w \<le> of_nat (LOSCFG_BASE_CORE_TSK_LIMIT c + 1) \<and>
    w = OS_MEMBOX_MAGIC OR OS_MEMBOX_TASKID_GET w"

lemma CheckMagic_iff: "OsMemBoxCheckMagic c node mem = LOS_OK \<longleftrightarrow> magic c (mem node)"
  by (auto simp: OsMemBoxCheckMagic_def magic_def Let_def)

lemma magic_top: "magic c w \<Longrightarrow> bit w 31"
proof -
  assume "magic c w"
  then have "bit w 31 = bit (OS_MEMBOX_MAGIC OR OS_MEMBOX_TASKID_GET w) 31" by (simp add: magic_def)
  also have "\<dots>" by (simp add: OS_MEMBOX_MAGIC_def bit_or_iff)
  finally show ?thesis .
qed

text \<open>The links of the free blocks are no magic words: they are addresses of blocks.\<close>

fun chain :: "memory \<Rightarrow> UINT32 \<Rightarrow> UINT32 list \<Rightarrow> bool" where
  "chain mem a [] \<longleftrightarrow> a = 0"
| "chain mem a (b # bs) \<longleftrightarrow> a = b \<and> b \<noteq> 0 \<and> chain mem (mem b) bs"

lemma chain_upd: "b \<notin> set bs \<Longrightarrow> chain (mem(b := v)) a bs = chain mem a bs"
  by (induction bs arbitrary: a) auto

lemma chain_link: "chain mem a bs \<Longrightarrow> b \<in> set bs \<Longrightarrow> mem b = 0 \<or> mem b \<in> set bs"
proof (induction bs arbitrary: a)
  case (Cons x xs)
  then show ?case by (cases xs) auto
qed simp

section \<open>The invariant\<close>

definition box_ok :: "los_config \<Rightarrow> UINT32 \<Rightarrow> memory \<Rightarrow> UINT32 list \<Rightarrow> bool" where
  "box_ok c pool mem free \<longleftrightarrow>
    geometry pool mem \<and> distinct free \<and> set free \<subseteq> set (blocks pool mem) \<and>
    chain mem (mem (stFreeList pool)) free \<and>
    (\<forall>b\<in>set (blocks pool mem). b \<in> set free \<or> magic c (mem b)) \<and>
    (\<forall>b\<in>set (blocks pool mem). \<not> magic c b) \<and>
    unat (mem (uwBlkCnt pool)) + length free = unat (mem (uwBlkNum pool))"

lemma box_okD:
  assumes "box_ok c pool mem free"
  shows "geometry pool mem" "distinct free" "set free \<subseteq> set (blocks pool mem)"
    "chain mem (mem (stFreeList pool)) free"
    and "b \<in> set (blocks pool mem) \<Longrightarrow> b \<in> set free \<or> magic c (mem b)"
    and "b \<in> set (blocks pool mem) \<Longrightarrow> \<not> magic c b"
    and "unat (mem (uwBlkCnt pool)) + length free = unat (mem (uwBlkNum pool))"
  using assms by (auto simp: box_ok_def)

lemma not_magic_0: "\<not> magic c 0"
  using magic_top [of c 0] by auto

lemma free_not_magic:
  assumes "box_ok c pool mem free" "b \<in> set free"
  shows "\<not> magic c (mem b)"
  using chain_link [OF box_okD(4) [OF assms(1)] assms(2)] box_okD(3,6) [OF assms(1)] not_magic_0
  by auto

text \<open>The test of \<open>LOS_MemboxFree\<close> accepts the allocated blocks and nothing else.\<close>

lemma CheckBox_iff:
  assumes "box_ok c pool mem free"
  shows "OsCheckBoxMem c pool node mem = LOS_OK \<longleftrightarrow> node \<in> set (blocks pool mem) - set free"
proof -
  note geo = box_okD(1) [OF assms]
  have "mem (uwBlkSize pool) \<noteq> 0" using size_pos [OF geo] by auto
  then have "OsCheckBoxMem c pool node mem = LOS_OK \<longleftrightarrow>
      node \<in> set (blocks pool mem) \<and> magic c (mem node)"
    unfolding offset_check [OF geo, symmetric] CheckMagic_iff [of c node mem, symmetric]
    by (auto simp: OsCheckBoxMem_def Let_def not_le)
  then show ?thesis
    using box_okD(5) [OF assms, of node] free_not_magic [OF assms, of node] by blast
qed

lemma SetMagic_magic:
  fixes cur :: UINT32
  assumes "cur \<le> of_nat (LOSCFG_BASE_CORE_TSK_LIMIT c + 1)"
  shows "magic c (OS_MEMBOX_MAGIC OR ucast (ucast cur :: UINT8))"
proof -
  let ?v = "ucast (ucast cur :: UINT8) :: UINT32"
  have "OS_MEMBOX_TASKID_GET (OS_MEMBOX_MAGIC OR ?v) = (OS_MEMBOX_MAGIC AND 255) OR (?v AND 255)"
    by (simp add: OS_MEMBOX_TASKID_GET_def OS_MEMBOX_MAX_TASKID_def OS_MEMBOX_TASKID_BITS_def
        push_bit_eq_mult bit.conj_disj_distrib2)
  also have "OS_MEMBOX_MAGIC AND 255 = 0" by (simp add: OS_MEMBOX_MAGIC_def)
  also have "?v AND 255 = ?v"
  proof -
    have "(255 :: UINT32) = mask 8" by (simp add: mask_eq_exp_minus_1)
    moreover have "take_bit 8 ?v = ?v" by (intro bit_eqI) (auto simp: bit_simps)
    ultimately show ?thesis by (simp only: take_bit_eq_mask)
  qed
  finally have get: "OS_MEMBOX_TASKID_GET (OS_MEMBOX_MAGIC OR ?v) = ?v" by simp
  have "?v = take_bit 8 cur" by (intro bit_eqI) (auto simp: bit_simps)
  then have "unat ?v \<le> unat cur" by (simp add: unsigned_take_bit_eq)
  with assms have "?v \<le> of_nat (LOSCFG_BASE_CORE_TSK_LIMIT c + 1)" by (simp add: word_le_nat_alt)
  then show ?thesis unfolding magic_def get by simp
qed

section \<open>The services\<close>

lemma box_ok_upd:
  assumes "box_ok c pool mem free"
    "\<And>a. a \<notin> set (blocks pool mem) \<Longrightarrow> a \<noteq> stFreeList pool \<Longrightarrow> a \<noteq> uwBlkCnt pool \<Longrightarrow> mem' a = mem a"
    "distinct free'" "set free' \<subseteq> set (blocks pool mem)" "chain mem' (mem' (stFreeList pool)) free'"
    "\<And>b. b \<in> set (blocks pool mem) \<Longrightarrow> b \<in> set free' \<or> magic c (mem' b)"
    "unat (mem' (uwBlkCnt pool)) + length free' = unat (mem (uwBlkNum pool))"
  shows "box_ok c pool mem' free'"
proof -
  note geo = box_okD(1) [OF assms(1)]
  have h: "uwBlkSize pool \<notin> set (blocks pool mem)" "uwBlkNum pool \<notin> set (blocks pool mem)"
    using block_not_header [OF geo] by blast+
  have d: "uwBlkSize pool \<noteq> stFreeList pool" "uwBlkSize pool \<noteq> uwBlkCnt pool"
    "uwBlkNum pool \<noteq> stFreeList pool" "uwBlkNum pool \<noteq> uwBlkCnt pool"
    by (simp_all add: uwBlkSize_def stFreeList_def uwBlkCnt_def uwBlkNum_def)
  have e: "mem' (uwBlkSize pool) = mem (uwBlkSize pool)" "mem' (uwBlkNum pool) = mem (uwBlkNum pool)"
    using assms(2) h d by blast+
  show ?thesis
    unfolding box_ok_def geometry_cong [OF e] e(2)
    using geo assms(3-7) box_okD(6) [OF assms(1)] by blast
qed

lemma free_not_header:
  assumes "box_ok c pool mem (xs @ free)"
  shows "stFreeList pool \<notin> set free" "uwBlkCnt pool \<notin> set free"
proof -
  have "set free \<subseteq> set (blocks pool mem)" using box_okD(3) [OF assms] by simp
  moreover have "stFreeList pool \<notin> set (blocks pool mem)" "uwBlkCnt pool \<notin> set (blocks pool mem)"
    using block_not_header(4,5) [OF box_okD(1) [OF assms]] by blast+
  ultimately show "stFreeList pool \<notin> set free" "uwBlkCnt pool \<notin> set free" by blast+
qed

lemma Alloc_some:
  assumes "box_ok c pool mem (b # free)" "cur \<le> of_nat (LOSCFG_BASE_CORE_TSK_LIMIT c + 1)"
  shows "fst (LOS_MemboxAlloc pool cur mem) = OS_MEMBOX_USER_ADDR b"
    and "box_ok c pool (snd (LOS_MemboxAlloc pool cur mem)) free"
proof -
  note geo = box_okD(1) [OF assms(1)]
  have pool: "pool \<noteq> 0" using geo by (simp add: geometry_def)
  have b: "mem (stFreeList pool) = b" "b \<noteq> 0" "chain mem (mem b) free"
    using box_okD(4) [OF assms(1)] by simp_all
  have inb: "b \<in> set (blocks pool mem)" using box_okD(3) [OF assms(1)] by simp
  note nh = block_not_header [OF geo inb]
  have "b \<notin> set free" using box_okD(2) [OF assms(1)] by simp
  have nf: "stFreeList pool \<notin> set free" "uwBlkCnt pool \<notin> set free"
    using free_not_header [of c pool mem "[b]" free] assms(1) by simp_all
  have fc: "stFreeList pool \<noteq> uwBlkCnt pool" "uwBlkCnt pool \<noteq> stFreeList pool"
    by (simp_all add: stFreeList_def uwBlkCnt_def)
  let ?m = "mem(stFreeList pool := mem b, b := OS_MEMBOX_MAGIC OR ucast (ucast cur :: UINT8),
    uwBlkCnt pool := mem (uwBlkCnt pool) + 1)"
  have eq: "LOS_MemboxAlloc pool cur mem = (OS_MEMBOX_USER_ADDR b, ?m)"
    using pool b nh fc by (simp add: LOS_MemboxAlloc_def OsMemBoxSetMagic_def Let_def)
  then show "fst (LOS_MemboxAlloc pool cur mem) = OS_MEMBOX_USER_ADDR b" by simp
  have lt: "mem (uwBlkCnt pool) < mem (uwBlkNum pool)"
    using box_okD(7) [OF assms(1)] by (simp add: word_less_nat_alt)
  have "box_ok c pool ?m free"
  proof (rule box_ok_upd [OF assms(1)])
    show "chain ?m (?m (stFreeList pool)) free"
      using b(3) \<open>b \<notin> set free\<close> nf nh fc by (simp add: chain_upd)
    show "a \<in> set free \<or> magic c (?m a)" if "a \<in> set (blocks pool mem)" for a
      using box_okD(5) [OF assms(1) that] SetMagic_magic [OF assms(2)] block_not_header [OF geo that]
      by (cases "a = b") auto
    show "unat (?m (uwBlkCnt pool)) + length free = unat (mem (uwBlkNum pool))"
      using box_okD(7) [OF assms(1)] unat_inc [OF lt] by simp
  qed (use inb box_okD(2,3) [OF assms(1)] in auto)
  then show "box_ok c pool (snd (LOS_MemboxAlloc pool cur mem)) free" by (simp add: eq)
qed

lemma Alloc_none:
  assumes "box_ok c pool mem []" shows "LOS_MemboxAlloc pool cur mem = (0, mem)"
  using box_okD(4) [OF assms] by (simp add: LOS_MemboxAlloc_def)

lemma Free_bad:
  assumes "box_ok c pool mem free" "OS_MEMBOX_NODE_ADDR box \<notin> set (blocks pool mem) - set free"
  shows "LOS_MemboxFree c pool box mem = (LOS_NOK, mem)"
  using CheckBox_iff [OF assms(1)] assms(2) by (auto simp: LOS_MemboxFree_def Let_def)

lemma Free_ok:
  assumes "box_ok c pool mem free" "OS_MEMBOX_NODE_ADDR box \<in> set (blocks pool mem) - set free" "box \<noteq> 0"
  shows "fst (LOS_MemboxFree c pool box mem) = LOS_OK"
    and "box_ok c pool (snd (LOS_MemboxFree c pool box mem)) (OS_MEMBOX_NODE_ADDR box # free)"
proof -
  note geo = box_okD(1) [OF assms(1)]
  define b where "b = OS_MEMBOX_NODE_ADDR box"
  have pool: "pool \<noteq> 0" using geo by (simp add: geometry_def)
  have b: "b \<in> set (blocks pool mem)" "b \<notin> set free" using assms(2) by (simp_all add: b_def)
  note nh = block_not_header [OF geo b(1)]
  have nf: "stFreeList pool \<notin> set free" "uwBlkCnt pool \<notin> set free"
    using free_not_header [of c pool mem "[]" free] assms(1) by simp_all
  have fc: "stFreeList pool \<noteq> uwBlkCnt pool" "uwBlkCnt pool \<noteq> stFreeList pool"
    by (simp_all add: stFreeList_def uwBlkCnt_def)
  let ?m = "mem(b := mem (stFreeList pool), stFreeList pool := b, uwBlkCnt pool := mem (uwBlkCnt pool) - 1)"
  have eq: "LOS_MemboxFree c pool box mem = (LOS_OK, ?m)"
    using pool assms(3) CheckBox_iff [OF assms(1), of b] b nh fc
    by (simp add: LOS_MemboxFree_def Let_def b_def [symmetric])
  then show "fst (LOS_MemboxFree c pool box mem) = LOS_OK" by simp
  have "length free < unat (mem (uwBlkNum pool))"
  proof -
    have "card (set (b # free)) \<le> card (set (blocks pool mem))"
      using b box_okD(3) [OF assms(1)] by (intro card_mono) auto
    then show ?thesis
      using b(2) distinct_card [OF box_okD(2) [OF assms(1)]] distinct_card [OF distinct_blocks [OF geo]]
      by (simp add: blocks_def)
  qed
  then have "0 < mem (uwBlkCnt pool)"
    using box_okD(7) [OF assms(1)] by (simp add: word_less_nat_alt)
  note cnt = unat_dec [OF this]
  have "box_ok c pool ?m (b # free)"
  proof (rule box_ok_upd [OF assms(1)])
    show "chain ?m (?m (stFreeList pool)) (b # free)"
      using box_okD(4) [OF assms(1)] b(2) nf nh fc by (simp add: chain_upd)
    show "a \<in> set (b # free) \<or> magic c (?m a)" if "a \<in> set (blocks pool mem)" for a
      using box_okD(5) [OF assms(1) that] block_not_header [OF geo that] by auto
    show "unat (?m (uwBlkCnt pool)) + length (b # free) = unat (mem (uwBlkNum pool))"
      using box_okD(7) [OF assms(1)] cnt by simp
  qed (use b box_okD(2,3) [OF assms(1)] in auto)
  then show "box_ok c pool (snd (LOS_MemboxFree c pool box mem)) (OS_MEMBOX_NODE_ADDR box # free)"
    by (simp add: eq b_def)
qed

section \<open>Initialisation\<close>

lemma init_loop_eq:
  "init_loop n node bs mem = (node + of_nat n * bs,
    \<lambda>a. if a \<in> (\<lambda>k. node + of_nat k * bs) ` {..<n} then a + bs else mem a)"
proof (induction n arbitrary: node mem)
  case (Suc n)
  have "(\<lambda>k. node + of_nat k * bs) ` {..<Suc n} =
      insert node ((\<lambda>k. (node + bs) + of_nat k * bs) ` {..<n})"
    unfolding lessThan_Suc_eq_insert_0 image_insert image_image by (simp add: algebra_simps)
  then show ?case
    by (auto simp: Suc.IH OS_MEMBOX_NEXT_def algebra_simps fun_eq_iff)
qed simp

lemma chain_upt:
  assumes "\<And>k. Suc k < n \<Longrightarrow> mem (b k) = b (Suc k)" "mem (b (n - 1)) = 0" "\<And>k. k < n \<Longrightarrow> b k \<noteq> 0" "i < n"
  shows "chain mem (b i) (map b [i..<n])"
  using assms(4)
proof (induction "n - i" arbitrary: i)
  case (Suc k)
  then have l: "[i..<n] = i # [Suc i..<n]" by (simp add: upt_conv_Cons)
  show ?case
  proof (cases "Suc i < n")
    case True
    then have "chain mem (b (Suc i)) (map b [Suc i..<n])" using Suc by simp
    with True l assms(1,3) show ?thesis by simp
  next
    case False
    with Suc.prems have "i = n - 1" by simp
    with l assms(2,3) Suc.prems show ?thesis by simp
  qed
qed simp

lemma Init_ok:
  fixes mem :: memory
  assumes "pool \<noteq> 0" "0 < blkSize" "16 \<le> poolSize" "unat pool + unat poolSize \<le> 2 ^ 32"
  defines "bs \<equiv> LOS_MEMBOX_ALLIGNED (blkSize + OS_MEMBOX_NODE_HEAD_SIZE)"
    and "n \<equiv> (poolSize - 16) div LOS_MEMBOX_ALLIGNED (blkSize + OS_MEMBOX_NODE_HEAD_SIZE)"
    and "mem' \<equiv> snd (LOS_MemboxInit pool poolSize blkSize mem)"
  assumes "4 \<le> bs" "0 < n" "\<And>i. i < unat n \<Longrightarrow> \<not> magic c (pool + 16 + of_nat i * bs)"
  shows "fst (LOS_MemboxInit pool poolSize blkSize mem) = LOS_OK"
    and "mem' (uwBlkSize pool) = bs" "mem' (uwBlkNum pool) = n"
    and "box_ok c pool mem' (blocks pool mem')"
proof -
  define m0 where "m0 = mem(uwBlkSize pool := bs, uwBlkNum pool := n, uwBlkCnt pool := 0,
    stFreeList pool := pool + 16)"
  let ?node = "\<lambda>k. pool + 16 + of_nat k * bs"
  define m1 where "m1 = (\<lambda>a. if a \<in> ?node ` {..<unat (n - 1)} then a + bs else m0 a)"
  have d: "uwBlkSize pool \<noteq> uwBlkNum pool" "uwBlkSize pool \<noteq> uwBlkCnt pool" "uwBlkSize pool \<noteq> stFreeList pool"
    "uwBlkNum pool \<noteq> uwBlkCnt pool" "uwBlkNum pool \<noteq> stFreeList pool" "uwBlkCnt pool \<noteq> stFreeList pool"
    by (simp_all add: uwBlkSize_def stFreeList_def uwBlkCnt_def uwBlkNum_def)
  have bs0: "bs \<noteq> 0" using assms(8) by auto
  have eq: "LOS_MemboxInit pool poolSize blkSize mem = (LOS_OK, m1(?node (unat (n - 1)) := 0))"
    using assms(1-3,9) bs0 d
    by (simp add: LOS_MemboxInit_def sizeof_MEMBOX_INFO_def bs_def [symmetric] n_def [folded bs_def, symmetric]
        init_loop_eq m1_def m0_def word_gt_0 not_less Let_def cong: if_cong)
  have m': "mem' = m1(?node (unat (n - 1)) := 0)" by (simp add: mem'_def eq)
  have n1: "unat n = Suc (unat (n - 1))" by (rule unat_dec [OF assms(9)])
  have bound: "unat pool + 16 + unat n * unat bs \<le> 2 ^ 32"
  proof -
    have "unat n * unat bs \<le> unat (poolSize - 16)"
      unfolding n_def bs_def [symmetric] unat_div by simp
    also have "\<dots> = unat poolSize - 16" using assms(3) by (simp add: unat_sub)
    finally show ?thesis using assms(3,4) by (simp add: word_le_nat_alt)
  qed
  have geo: "geometry pool m0"
    using assms(1,8,9) bound d by (simp add: geometry_def m0_def)
  have blk0: "blk pool m0 = ?node" and num0: "m0 (uwBlkNum pool) = n"
    using d by (simp_all add: blk_def m0_def sizeof_MEMBOX_INFO_def fun_eq_iff)
  have bl: "blocks pool m0 = map ?node [0..<unat n]" by (simp add: blocks_def num0 blk0)
  have inb: "?node k \<in> set (blocks pool m0)" if "k < unat n" for k
    using that by (auto simp: bl)
  have out: "mem' a = m0 a" if "a \<notin> set (blocks pool m0)" for a
    using that n1 unfolding m' m1_def bl by auto
  have hdr: "mem' (uwBlkSize pool) = bs" "mem' (uwBlkNum pool) = n" "mem' (uwBlkCnt pool) = 0"
    "mem' (stFreeList pool) = ?node 0"
    using block_not_header [OF geo] d by (subst out; force simp: m0_def)+
  show "fst (LOS_MemboxInit pool poolSize blkSize mem) = LOS_OK"
    "mem' (uwBlkSize pool) = bs" "mem' (uwBlkNum pool) = n"
    using hdr by (simp_all add: eq)
  have g: "geometry pool mem' = geometry pool m0" "blocks pool mem' = blocks pool m0"
    by (rule geometry_cong; use hdr d in \<open>simp add: m0_def\<close>)+
  have inj: "?node i = ?node j \<longleftrightarrow> i = j" if "i < unat n" "j < unat n" for i j
    using distinct_blocks [OF geo] that unfolding bl distinct_map inj_on_def by auto
  have "chain mem' (?node 0) (map ?node [0..<unat n])"
  proof (rule chain_upt)
    fix k assume k: "Suc k < unat n"
    then have "?node k \<noteq> ?node (unat (n - 1))" using inj [of k "unat (n - 1)"] n1 by simp
    moreover have "?node k \<in> ?node ` {..<unat (n - 1)}" using k n1 by (intro imageI) simp
    ultimately show "mem' (?node k) = ?node (Suc k)"
      by (simp add: m' m1_def algebra_simps)
  next
    show "mem' (?node (unat n - 1)) = 0" using n1 by (simp add: m')
    show "?node k \<noteq> 0" if "k < unat n" for k using block_not_header(1) [OF geo inb [OF that]] .
    show "0 < unat n" using n1 by simp
  qed
  then show "box_ok c pool mem' (blocks pool mem')"
    unfolding box_ok_def g hdr bl [symmetric]
    using geo distinct_blocks [OF geo] assms(10) by (auto simp: bl)
qed

end
