(* ===== verification/Membox_Props.thy ===== *)
theory Membox_Props
  imports Membox_Inv
begin

text \<open>
  What the memory boxes promise, over the model of \<open>los_membox.c\<close>, and a block size for which
  the initialisation succeeds with blocks that hold nothing.
\<close>

text \<open>A pool of two blocks of eight bytes at an address of the board's RAM.\<close>

definition box_demo :: memory where
  "box_demo = snd (LOS_MemboxInit 0x20000000 40 8 (\<lambda>_. 0))"

lemma aligned_demo: "LOS_MEMBOX_ALLIGNED (8 + OS_MEMBOX_NODE_HEAD_SIZE) = 12"
  by (simp add: LOS_MEMBOX_ALLIGNED_def OS_MEMBOX_NODE_HEAD_SIZE_def)

lemma low_not_magic: "w < 0x80000000 \<Longrightarrow> \<not> magic c w"
proof
  assume "w < 0x80000000" "magic c w"
  then have "bit w 31" by (simp add: magic_top)
  then have "odd (w div 2 ^ 31)" unfolding bit_iff_odd .
  moreover have "w div 2 ^ 31 = 0" using \<open>w < 0x80000000\<close>
    by (simp add: word_less_nat_alt unat_div flip: unat_eq_0)
  ultimately show False by simp
qed

lemma unat_plus_le: "unat (a + b) \<le> unat a + unat (b :: UINT32)"
  by (simp add: unat_word_ariths(1))

lemma unat_times_le: "unat (of_nat i * b) \<le> i * unat (b :: UINT32)"
proof -
  have "unat (of_nat i * b) = (i mod 2 ^ 32) * unat b mod 2 ^ 32"
    by (simp add: unat_word_ariths(2) unat_of_nat)
  also have "\<dots> \<le> (i mod 2 ^ 32) * unat b" by simp
  also have "\<dots> \<le> i * unat b" by (intro mult_right_mono) simp_all
  finally show ?thesis .
qed

lemma Init_low:
  assumes "pool \<noteq> 0" "0 < blkSize" "16 \<le> poolSize" "unat pool + unat poolSize \<le> 2 ^ 32"
    "4 \<le> LOS_MEMBOX_ALLIGNED (blkSize + OS_MEMBOX_NODE_HEAD_SIZE)"
    "LOS_MEMBOX_ALLIGNED (blkSize + OS_MEMBOX_NODE_HEAD_SIZE) \<le> poolSize - 16"
    "pool + (poolSize - 1) < 0x80000000"
  shows "let mem' = snd (LOS_MemboxInit pool poolSize blkSize mem) in
    fst (LOS_MemboxInit pool poolSize blkSize mem) = LOS_OK \<and>
    mem' (uwBlkSize pool) = LOS_MEMBOX_ALLIGNED (blkSize + OS_MEMBOX_NODE_HEAD_SIZE) \<and>
    mem' (uwBlkNum pool) = (poolSize - 16) div mem' (uwBlkSize pool) \<and>
    box_ok c pool mem' (blocks pool mem')"
proof -
  let ?bs = "LOS_MEMBOX_ALLIGNED (blkSize + OS_MEMBOX_NODE_HEAD_SIZE)"
  let ?n = "(poolSize - 16) div ?bs"
  have "0 < unat ?n"
    using assms(5,6) by (simp add: unat_div div_greater_zero_iff word_le_nat_alt)
  then have n: "0 < ?n" by (simp add: word_less_nat_alt)
  have m: "\<not> magic c (pool + 16 + of_nat i * ?bs)" if i: "i < unat ?n" for i
  proof (rule low_not_magic)
    have "Suc i * unat ?bs \<le> unat ?n * unat ?bs" using i by (intro mult_right_mono) simp_all
    also have "\<dots> \<le> unat (poolSize - 16)" by (simp add: unat_div)
    also have "\<dots> = unat poolSize - 16" using assms(3) by (simp add: unat_sub)
    finally have b: "i * unat ?bs + 4 \<le> unat poolSize - 16"
      using assms(5) by (simp add: word_le_nat_alt)
    have ps: "16 \<le> unat poolSize" using assms(3) by (simp add: word_le_nat_alt)
    have p31: "unat pool + (unat poolSize - 1) < 2 ^ 31"
      using assms(4,7) ps by (simp add: word_less_nat_alt unat_word_ariths(1) unat_sub word_le_nat_alt)
    have "unat (pool + 16 + of_nat i * ?bs) \<le> unat pool + 16 + i * unat ?bs"
      using unat_plus_le [of "pool + 16" "of_nat i * ?bs"] unat_plus_le [of pool 16] unat_times_le [of i ?bs]
      by simp
    then show "pool + 16 + of_nat i * ?bs < 0x80000000"
      using b p31 by (simp add: word_less_nat_alt)
  qed
  show ?thesis
    using Init_ok [OF assms(1-4) assms(5) n m, of mem] by (simp add: Let_def)
qed

text \<open>
  \<open>LOS_MemboxInit\<close> lays as many blocks of the asked size as fit behind the header, all of them
  free and chained in the order of their addresses, and no block allocated.
\<close>

theorem membox_init:
  assumes "pool \<noteq> 0" "0 < blkSize" "16 \<le> poolSize" "unat pool + unat poolSize \<le> 2 ^ 32"
    "4 < LOS_MEMBOX_ALLIGNED (blkSize + OS_MEMBOX_NODE_HEAD_SIZE)"
    "LOS_MEMBOX_ALLIGNED (blkSize + OS_MEMBOX_NODE_HEAD_SIZE) \<le> poolSize - 16"
    "pool + (poolSize - 1) < 0x80000000"
  shows "let mem' = snd (LOS_MemboxInit pool poolSize blkSize mem) in
    fst (LOS_MemboxInit pool poolSize blkSize mem) = LOS_OK \<and>
    mem' (uwBlkSize pool) = LOS_MEMBOX_ALLIGNED (blkSize + OS_MEMBOX_NODE_HEAD_SIZE) \<and>
    mem' (uwBlkNum pool) = (poolSize - 16) div mem' (uwBlkSize pool) \<and>
    box_ok c pool mem' (blocks pool mem')"
  by (rule Init_low) (use assms in simp_all)

theorem membox_init_witness:
  "blocks 0x20000000 box_demo = [0x20000010, 0x2000001C] \<and>
   box_ok default_config 0x20000000 box_demo [0x20000010, 0x2000001C]"
proof -
  have i: "let mem' = box_demo in fst (LOS_MemboxInit 0x20000000 40 8 (\<lambda>_. 0)) = LOS_OK \<and>
      mem' (uwBlkSize 0x20000000) = 12 \<and> mem' (uwBlkNum 0x20000000) = 24 div mem' (uwBlkSize 0x20000000) \<and>
      box_ok default_config 0x20000000 mem' (blocks 0x20000000 mem')"
    using membox_init [where pool = "0x20000000" and blkSize = 8 and poolSize = 40 and mem = "\<lambda>_. 0"
        and c = default_config]
    by (simp add: aligned_demo box_demo_def)
  then have "blocks 0x20000000 box_demo = [0x20000010, 0x2000001C]"
    by (simp add: blocks_def blk_def sizeof_MEMBOX_INFO_def Let_def upt_rec)
  with i show ?thesis by (simp add: Let_def)
qed

lemma box_demo_ok: "box_ok default_config 0x20000000 box_demo [0x20000010, 0x2000001C]"
  and box_demo_blocks: "blocks 0x20000000 box_demo = [0x20000010, 0x2000001C]"
proof -
  have i: "box_demo (uwBlkSize 0x20000000) = 12 \<and> box_demo (uwBlkNum 0x20000000) = 24 div box_demo (uwBlkSize 0x20000000) \<and>
      box_ok default_config 0x20000000 box_demo (blocks 0x20000000 box_demo)"
    using Init_low [where pool = "0x20000000" and blkSize = 8 and poolSize = 40 and mem = "\<lambda>_. 0"
        and c = default_config]
    by (simp add: aligned_demo box_demo_def Let_def)
  then show "blocks 0x20000000 box_demo = [0x20000010, 0x2000001C]"
    by (simp add: blocks_def blk_def sizeof_MEMBOX_INFO_def upt_rec)
  with i show "box_ok default_config 0x20000000 box_demo [0x20000010, 0x2000001C]" by simp
qed

section \<open>Allocation and release\<close>

definition user_part :: "UINT32 \<Rightarrow> memory \<Rightarrow> UINT32 \<Rightarrow> bool" where
  "user_part pool mem a \<longleftrightarrow> (\<exists>b\<in>set (blocks pool mem).
    unat b + 4 \<le> unat a \<and> unat a < unat b + unat (mem (uwBlkSize pool)))"

lemma user_part_free:
  assumes "geometry pool mem" "user_part pool mem a"
  shows "a \<notin> set (blocks pool mem)" "a \<noteq> uwBlkSize pool" "a \<noteq> uwBlkNum pool" "a \<noteq> uwBlkCnt pool"
    "a \<noteq> stFreeList pool"
proof -
  let ?s = "unat (mem (uwBlkSize pool))"
  obtain i where i: "i < unat (mem (uwBlkNum pool))" "unat pool + 16 + i * ?s + 4 \<le> unat a"
    "unat a < unat pool + 16 + i * ?s + ?s"
    using assms(2) by (auto simp: user_part_def blocks_def unat_blk [OF assms(1)])
  show "a \<notin> set (blocks pool mem)"
  proof
    assume "a \<in> set (blocks pool mem)"
    then obtain j where "j < unat (mem (uwBlkNum pool))" "a = blk pool mem j" by (auto simp: blocks_def)
    then have "unat a = unat pool + 16 + j * ?s" by (simp add: unat_blk [OF assms(1)])
    then have "i * ?s < j * ?s" "j * ?s < Suc i * ?s" using i unfolding mult_Suc by linarith+
    then have "i < j" "j < Suc i" by (metis mult_less_cancel2)+
    then show False by simp
  qed
  show "a \<noteq> uwBlkSize pool" "a \<noteq> uwBlkNum pool" "a \<noteq> uwBlkCnt pool" "a \<noteq> stFreeList pool"
    using i(2) unat_header [OF assms(1)] by auto
qed

text \<open>
  C30: \<open>LOS_MemboxAlloc\<close> hands out the first free block and fails only when there is none;
  \<open>LOS_MemboxFree\<close> takes back the allocated blocks and nothing else: a block that is free already,
  an address inside a block or outside the pool is refused and changes nothing. What the callers
  write into their parts of the blocks does no harm.
\<close>

theorem membox_alloc_free:
  assumes "box_ok c pool mem free" "cur \<le> of_nat (LOSCFG_BASE_CORE_TSK_LIMIT c + 1)"
  shows "(case free of
      [] \<Rightarrow> LOS_MemboxAlloc pool cur mem = (0, mem)
    | b # free' \<Rightarrow> fst (LOS_MemboxAlloc pool cur mem) = OS_MEMBOX_USER_ADDR b \<and>
        box_ok c pool (snd (LOS_MemboxAlloc pool cur mem)) free') \<and>
    (if box \<noteq> 0 \<and> OS_MEMBOX_NODE_ADDR box \<in> set (blocks pool mem) - set free
     then fst (LOS_MemboxFree c pool box mem) = LOS_OK \<and>
       box_ok c pool (snd (LOS_MemboxFree c pool box mem)) (OS_MEMBOX_NODE_ADDR box # free)
     else LOS_MemboxFree c pool box mem = (LOS_NOK, mem)) \<and>
    (user_part pool mem a \<longrightarrow> box_ok c pool (mem(a := v)) free)"
proof (intro conjI)
  show "case free of [] \<Rightarrow> LOS_MemboxAlloc pool cur mem = (0, mem)
    | b # free' \<Rightarrow> fst (LOS_MemboxAlloc pool cur mem) = OS_MEMBOX_USER_ADDR b \<and>
        box_ok c pool (snd (LOS_MemboxAlloc pool cur mem)) free'"
    using Alloc_none [of c pool mem cur] Alloc_some [of c pool mem _ _ cur] assms
    by (cases free) simp_all
  have "LOS_MemboxFree c pool box mem = (LOS_NOK, mem)" if "box = 0"
    using that by (simp add: LOS_MemboxFree_def)
  then show "if box \<noteq> 0 \<and> OS_MEMBOX_NODE_ADDR box \<in> set (blocks pool mem) - set free
     then fst (LOS_MemboxFree c pool box mem) = LOS_OK \<and>
       box_ok c pool (snd (LOS_MemboxFree c pool box mem)) (OS_MEMBOX_NODE_ADDR box # free)
     else LOS_MemboxFree c pool box mem = (LOS_NOK, mem)"
    using Free_bad [OF assms(1)] Free_ok [OF assms(1)] by auto
  show "user_part pool mem a \<longrightarrow> box_ok c pool (mem(a := v)) free"
  proof
    assume u: "user_part pool mem a"
    note n = user_part_free [OF box_okD(1) [OF assms(1)] u]
    have e: "(mem(a := v)) (uwBlkSize pool) = mem (uwBlkSize pool)"
      "(mem(a := v)) (uwBlkNum pool) = mem (uwBlkNum pool)"
      using n by auto
    have "a \<notin> set free" using n(1) box_okD(3) [OF assms(1)] by auto
    then show "box_ok c pool (mem(a := v)) free"
      using assms(1) n unfolding box_ok_def geometry_cong [OF e] by (auto simp: chain_upd)
  qed
qed

theorem membox_alloc_free_witness:
  "fst (LOS_MemboxAlloc 0x20000000 1 box_demo) = 0x20000014 \<and>
   LOS_MemboxFree default_config 0x20000000 0x20000014 box_demo = (LOS_NOK, box_demo)"
  using membox_alloc_free [OF box_demo_ok, of 1 "0x20000014"]
  by (simp add: default_config_def OS_MEMBOX_NODE_ADDR_def OS_MEMBOX_USER_ADDR_def OS_MEMBOX_NODE_HEAD_SIZE_def)

text \<open>
  The size of a block with its header is computed without a check for overflow: for a size
  close to \<open>2 ^ 32\<close> the initialisation succeeds and the blocks have no user part at all, the
  address a caller gets is the header of the next block.
\<close>

theorem membox_size_wraps:
  assumes "pool \<noteq> 0" "20 \<le> poolSize" "0xFFFFFFFC < blkSize" "unat pool + unat poolSize \<le> 2 ^ 32"
    "pool + (poolSize - 1) < 0x80000000"
  shows "let mem' = snd (LOS_MemboxInit pool poolSize blkSize mem) in
    fst (LOS_MemboxInit pool poolSize blkSize mem) = LOS_OK \<and>
    mem' (uwBlkSize pool) = OS_MEMBOX_NODE_HEAD_SIZE \<and>
    (\<forall>i. OS_MEMBOX_USER_ADDR (blk pool mem' i) = blk pool mem' (Suc i))"
proof -
  have "unat blkSize < 2 ^ 32" "0xFFFFFFFC < unat blkSize"
    using unsigned_less [of blkSize] assms(3) by (simp_all add: word_less_nat_alt)
  then have "unat blkSize = 0xFFFFFFFD \<or> unat blkSize = 0xFFFFFFFE \<or> unat blkSize = 0xFFFFFFFF"
    by simp linarith
  then have "blkSize = 0xFFFFFFFD \<or> blkSize = 0xFFFFFFFE \<or> blkSize = 0xFFFFFFFF"
    by (simp add: word_unat_eq_iff)
  then have bs: "LOS_MEMBOX_ALLIGNED (blkSize + OS_MEMBOX_NODE_HEAD_SIZE) = 4"
    by (elim disjE) (simp_all add: LOS_MEMBOX_ALLIGNED_def OS_MEMBOX_NODE_HEAD_SIZE_def)
  have "0 < blkSize" using assms(3) by (simp add: word_less_nat_alt)
  moreover have "16 \<le> poolSize" "4 \<le> poolSize - 16"
    using assms(2) by (simp_all add: word_le_nat_alt unat_sub)
  ultimately have "fst (LOS_MemboxInit pool poolSize blkSize mem) = LOS_OK \<and>
      snd (LOS_MemboxInit pool poolSize blkSize mem) (uwBlkSize pool) = 4"
    using Init_low [OF assms(1) _ _ assms(4) _ _ assms(5), of blkSize mem] by (simp add: bs Let_def)
  then show ?thesis
    by (simp add: Let_def blk_def OS_MEMBOX_USER_ADDR_def OS_MEMBOX_NODE_HEAD_SIZE_def algebra_simps)
qed

theorem membox_size_wraps_witness:
  "fst (LOS_MemboxInit 0x20000000 40 0xFFFFFFFD (\<lambda>_. 0)) = LOS_OK"
  using membox_size_wraps [of "0x20000000" 40 "0xFFFFFFFD" "\<lambda>_. 0"] by (simp add: Let_def)

end
