(* ===== verification/Queue_Props.thy ===== *)
theory Queue_Props
  imports Queue_Inv Membox_Props Boot
begin

text \<open>
  What the queue services promise, over the model of \<open>los_queue.c\<close>, and a read that reports
  success and loses the message.
\<close>

text \<open>
  Queue 0 has two slots of eight bytes and holds the one-byte message 7; queue 1 has one slot and
  is empty, and task 3 waits to read it. The other queues are unused.
\<close>

definition queue_demo_cb :: "nat \<Rightarrow> queue_cb" where
  "queue_demo_cb = (\<lambda>i. zero_queue\<lparr>queueID := i\<rparr>)
    (0 := zero_queue\<lparr>queue := 0x20000100, queueState := OS_QUEUE_INUSED, queueLen := 2, queueSize := 8,
       queueTail := 1, readWriteableCnt := (\<lambda>_. 1), queueBuf := (\<lambda>_. 0)(0 := 7, 4 := 1)\<rparr>,
     1 := zero_queue\<lparr>queue := 0x20000200, queueState := OS_QUEUE_INUSED, queueLen := 1, queueSize := 8,
       queueID := 1, readWriteableCnt := (\<lambda>_. 0)(OS_QUEUE_WRITE := 1)\<rparr>)"

definition queue_demo_at :: "lhead \<Rightarrow> 'a \<Rightarrow> 'a queue_state_scheme" where
  "queue_demo_at h m = demo_at h
      (sem_state_ext (\<lambda>i. \<lparr>semStat = OS_SEM_UNUSED, semCount = 0, maxSemCount = 0, semID = i\<rparr>) (\<lambda>_. [])
      (mux_state_ext (\<lambda>i. \<lparr>muxStat = OS_MUX_UNUSED, muxCount = 0, muxID = i, owner = None, muxPriority = 0\<rparr>) (\<lambda>_. [])
      (event_state_ext (\<lambda>_. \<lparr>uwEventID = 0, listNull = True\<rparr>)
      (queue_state_ext queue_demo_cb (\<lambda>_. [2, 3, 4, 5]) box_demo m))))"

abbreviation queue_demo :: "'a \<Rightarrow> 'a queue_state_scheme" where
  "queue_demo m \<equiv> queue_demo_at (QueueReadWait 1) m"

lemma queue_demo_sel [simp]:
  "g_allQueue (queue_demo_at h m) = queue_demo_cb" "g_freeQueueList (queue_demo_at h m) () = [2, 3, 4, 5]"
  "boxMemory (queue_demo_at h m) = box_demo" "cfg (queue_demo_at h m) = default_config"
  "runTask (queue_demo_at h m) = 1" "g_idleTaskID (queue_demo_at h m) = 0" "g_losTaskLock (queue_demo_at h m) = 0"
  "\<not> OS_INT_ACTIVE (queue_demo_at h m)"
  "pend (queue_demo_at h m) = (\<lambda>_. [])(PriQ 10 := [2], FreeTask := [4, 5], h := [3])"
  by (simp_all add: queue_demo_at_def demo_at_def demo_def)

lemma queue_demo_used: "queue_used (queue_demo_at h m) i \<longleftrightarrow> i = 0 \<or> i = 1"
  by (simp add: queue_used_def queue_demo_cb_def zero_queue_def OS_QUEUE_INUSED_def)

lemma queue_demo_inv:
  assumes "h = QueueReadWait 1 \<or> h = QueueMemWait 0"
  shows "queue_inv (queue_demo_at h m)"
proof -
  have "sched_inv (queue_demo_at h m)"
    unfolding queue_demo_at_def using assms by (intro demo_at_inv) auto
  moreover have "pool_ok (g_freeQueueList (queue_demo_at h m) ()) (queue_used (queue_demo_at h m))
      (LOSCFG_BASE_IPC_QUEUE_LIMIT (cfg (queue_demo_at h m)))"
    by (auto simp: pool_ok_def queue_demo_used default_config_def)
  moreover have "queue_cb_ok (queue_demo_at h m) i" for i
    using assms unfolding queue_cb_ok_def queue_demo_used
    by (auto simp: queue_demo_cb_def zero_queue_def OS_QUEUE_UNUSED_def default_config_def split: if_splits)
  ultimately show ?thesis by (simp add: queue_inv_def queue_ok_def)
qed

lemma queue_demo_ok: "queue_inv (queue_demo ())"
  by (rule queue_demo_inv) simp

lemma queue_demo_unblocked: "unblocked (queue_demo_at h m)"
  by (simp add: queue_demo_at_def) (simp add: unblocked_def demo_at_def demo_def zero_tcb_def)

lemma queue_demo_cb_sel [simp]:
  "readWriteableCnt (queue_demo_cb 0) rw = 1" "readWriteableCnt (queue_demo_cb (Suc 0)) OS_QUEUE_READ = 0"
  "readWriteableCnt (queue_demo_cb (Suc 0)) OS_QUEUE_WRITE = 1"
  "queueSize (queue_demo_cb 0) = 8" "queueSize (queue_demo_cb (Suc 0)) = 8" "queueID (queue_demo_cb i) = i"
  by (simp_all add: queue_demo_cb_def zero_queue_def OS_QUEUE_READ_def OS_QUEUE_WRITE_def)

lemma queue_demo_valid: "queue_valid 0 (queue_demo_at h m)" "queue_valid 1 (queue_demo_at h m)"
  by (simp_all add: queue_valid_def queue_demo_used) (simp_all add: default_config_def)

lemma queue_demo_rel: "queue_rel 0 (queue_demo_at h m) [[7]] 0 0" "queue_rel 1 (queue_demo_at h m) [] 0 0"
  by (simp_all add: queue_rel_def ring_holds_def slot_def queue_demo_cb_def zero_queue_def get32_def)

section \<open>Writing and reading\<close>

definition write_service ::
  "bool \<Rightarrow> nat \<Rightarrow> bytes option \<Rightarrow> UINT32 \<Rightarrow> UINT32 \<Rightarrow> 'a queue_state_scheme \<Rightarrow> outcome \<times> 'a queue_state_scheme" where
  "write_service toHead = (if toHead then LOS_QueueWriteHeadCopy else LOS_QueueWriteCopy)"

lemma write_service_eq:
  assumes "queue_valid i s" "n \<noteq> 0" "timeOut = LOS_NO_WAIT \<or> \<not> OS_INT_ACTIVE s"
  shows "write_service toHead i (Some buf) n timeOut s =
    (let (r, _, _, s') = OsQueueOperate i (write_type toHead) buf n timeOut s in (r, s'))"
  using assms by (auto simp: write_service_def LOS_QueueWriteHeadCopy_def LOS_QueueWriteCopy_def
      OsQueueWriteParameterCheck_def queue_valid_def write_type_def not_le)

lemma operate_check:
  assumes "queue_valid i s"
    "OS_QUEUE_IS_READ ty \<Longrightarrow> unat (queueSize (g_allQueue s i)) \<le> unat n + 4"
    "OS_QUEUE_IS_WRITE ty \<Longrightarrow> unat n + 4 \<le> unat (queueSize (g_allQueue s i))"
    "4 < unat (queueSize (g_allQueue s i))"
  shows "OsQueueOperateParamCheck (g_allQueue s i) ty n = LOS_OK"
proof -
  let ?z = "queueSize (g_allQueue s i)"
  have "unat (ucast ?z - 4 :: UINT32) = unat ?z - 4"
    using assms(4) by (simp add: unat_sub word_le_nat_alt size32)
  then show ?thesis
    using assms queue_stat [of s i] unfolding OsQueueOperateParamCheck_def
    by (auto simp: queue_valid_def word_less_nat_alt)
qed

lemma write_now_eq:
  assumes "queue_valid i s" "queue_rel i s q r w"
    "n \<noteq> 0" "unat n + 4 \<le> unat (queueSize (g_allQueue s i))" "timeOut = LOS_NO_WAIT \<or> \<not> OS_INT_ACTIVE s"
    "readWriteableCnt (g_allQueue s i) OS_QUEUE_WRITE \<noteq> 0"
  shows "write_service toHead i (Some buf) n timeOut s =
    (Ret LOS_OK, snd (snd (queue_transfer i (write_type toHead) buf n (take_unit i OS_QUEUE_WRITE s))))"
proof -
  have "OsQueueOperateParamCheck (g_allQueue s i) (write_type toHead) n = LOS_OK"
    using assms(2,4) ringD(1) by (intro operate_check [OF assms(1)]) (auto simp: queue_rel_def Let_def)
  then show ?thesis
    using assms(6) by (simp add: write_service_eq [OF assms(1,3,5)] OsQueueOperate_def Let_def take_unit_def
        case_prod_beta)
qed

lemma write_ready:
  assumes "queue_inv s" "unblocked s" "queue_valid i s" "queue_rel i s q r w"
    "n \<noteq> 0" "unat n + 4 \<le> unat (queueSize (g_allQueue s i))" "timeOut = LOS_NO_WAIT \<or> \<not> OS_INT_ACTIVE s"
    "readWriteableCnt (g_allQueue s i) OS_QUEUE_WRITE \<noteq> 0"
  shows "let res = write_service toHead i (Some buf) n timeOut s; s' = snd res in
      fst res = Ret LOS_OK \<and> queue_inv s' \<and> wakes_first (QueueReadWait i) s s' \<and>
      queue_rel i s' (queue_put toHead (message buf n) q) (if pend s (QueueReadWait i) = [] then r else Suc r) w \<and>
      queueLen (g_allQueue s' i) = queueLen (g_allQueue s i) \<and> queueSize (g_allQueue s' i) = queueSize (g_allQueue s i) \<and>
      queueState (g_allQueue s' i) = queueState (g_allQueue s i)"
proof -
  note rel = assms(4) [unfolded queue_rel_def Let_def]
  note t = take_unit_inv [OF assms(1,3) _ assms(8), simplified]
  let ?q = "take_unit i OS_QUEUE_WRITE s"
  have ub: "unblocked ?q" using assms(2) by (simp add: take_unit_def)
  have cb: "g_allQueue ?q i = (g_allQueue s i)\<lparr>readWriteableCnt := (readWriteableCnt (g_allQueue s i))
      (OS_QUEUE_WRITE := readWriteableCnt (g_allQueue s i) OS_QUEUE_WRITE - 1)\<rparr>" and pe: "pend ?q = pend s"
    by (simp_all add: take_unit_def)
  have cnt: "unat (readWriteableCnt (g_allQueue ?q i) OS_QUEUE_WRITE) + w + Suc (length q) =
      unat (queueLen (g_allQueue ?q i))"
    using t(5) rel by (simp add: cb)
  note tr = transfer_write [OF t(1) ub t(2,4,3), of q r w n toHead buf]
  obtain c' buf' n' where op: "OsQueueBufferOperate (write_type toHead) (g_allQueue ?q i) buf n = (c', buf', n')"
    by (metis prod_cases3)
  note sel = BufferOperate_sel [OF op] transfer_inv(3) [OF t(1) ub t(2) op t(4,3)]
  note eq = write_now_eq [OF assms(3-8), of toHead buf]
  have "wakes_first (QueueReadWait i) ?q s' = wakes_first (QueueReadWait i) s s'" for s'
    by (simp add: wakes_first_def take_unit_def)
  then show ?thesis
    using tr cnt rel assms(6) sel by (simp add: Let_def eq cb pe)
qed

lemma write_outcome:
  assumes "queue_inv s" "unblocked s" "queue_valid i s" "queue_rel i s q r w"
    "n \<noteq> 0" "unat n + 4 \<le> unat (queueSize (g_allQueue s i))" "timeOut = LOS_NO_WAIT \<or> \<not> OS_INT_ACTIVE s"
  shows "let res = write_service toHead i (Some buf) n timeOut s; s' = snd res in
    if readWriteableCnt (g_allQueue s i) OS_QUEUE_WRITE \<noteq> 0 then
      fst res = Ret LOS_OK \<and> queue_inv s' \<and> wakes_first (QueueReadWait i) s s' \<and>
      queue_rel i s' (queue_put toHead (message buf n) q) (if pend s (QueueReadWait i) = [] then r else Suc r) w
    else if timeOut = LOS_NO_WAIT then res = (Ret LOS_ERRNO_QUEUE_ISFULL, s)
    else if g_losTaskLock s \<noteq> 0 then res = (Ret LOS_ERRNO_QUEUE_PEND_IN_LOCK, s)
    else runTask s \<noteq> g_idleTaskID s \<longrightarrow> fst res = Blocked \<and> queue_inv s' \<and> queue_rel i s' q r w \<and>
      pend s' = (pend s)(QueueWriteWait i := pend s (QueueWriteWait i) @ [runTask s])"
proof -
  note rel = assms(4) [unfolded queue_rel_def Let_def]
  have chk: "OsQueueOperateParamCheck (g_allQueue s i) (write_type toHead) n = LOS_OK"
    using assms(6) ringD(1) rel by (intro operate_check [OF assms(3)]) auto
  show ?thesis
  proof (cases "readWriteableCnt (g_allQueue s i) OS_QUEUE_WRITE = 0")
    case False
    then show ?thesis using write_ready [OF assms False] by (simp add: Let_def)
  next
    case True
    show ?thesis
      using True chk wait_inv [OF assms(1,3) _ True assms(2), of timeOut] assms(4)
      by (simp add: Let_def write_service_eq [OF assms(3,5,7)] OsQueueOperate_def)
  qed
qed

text \<open>
  C25: \<open>LOS_QueueWriteCopy\<close> and \<open>LOS_QueueWriteHeadCopy\<close> append the message to, or put it in front of,
  the messages of the queue when a slot can be written, and wake the first task that waits to read;
  otherwise they fail, or block the task behind the other writers. The bytes of the messages that
  are stored already do not change.
\<close>

theorem queue_write_refines:
  assumes "queue_inv s" "unblocked s" "queue_valid i s" "queue_rel i s q r w"
    "n \<noteq> 0" "unat n + 4 \<le> unat (queueSize (g_allQueue s i))" "timeOut = LOS_NO_WAIT \<or> \<not> OS_INT_ACTIVE s"
  shows "let res = write_service toHead i (Some buf) n timeOut s; s' = snd res in
    if readWriteableCnt (g_allQueue s i) OS_QUEUE_WRITE \<noteq> 0 then
      fst res = Ret LOS_OK \<and> queue_inv s' \<and> wakes_first (QueueReadWait i) s s' \<and>
      queue_rel i s' (queue_put toHead (message buf n) q) (if pend s (QueueReadWait i) = [] then r else Suc r) w
    else if timeOut = LOS_NO_WAIT then res = (Ret LOS_ERRNO_QUEUE_ISFULL, s)
    else if g_losTaskLock s \<noteq> 0 then res = (Ret LOS_ERRNO_QUEUE_PEND_IN_LOCK, s)
    else runTask s \<noteq> g_idleTaskID s \<longrightarrow> fst res = Blocked \<and> queue_inv s' \<and> queue_rel i s' q r w \<and>
      pend s' = (pend s)(QueueWriteWait i := pend s (QueueWriteWait i) @ [runTask s])"
  by (rule write_outcome [OF assms])

theorem queue_write_refines_witness:
  "queue_rel 0 (snd (LOS_QueueWriteCopy 0 (Some (\<lambda>_. 9)) 2 0 (queue_demo ()))) [[7], [9, 9]] 0 0 \<and>
   queue_rel 1 (snd (LOS_QueueWriteHeadCopy 1 (Some (\<lambda>_. 9)) 2 0 (queue_demo ()))) [[9, 9]] 1 0"
proof -
  let ?s = "queue_demo ()"
  have lit: "message (\<lambda>_. 9) 2 = [9, 9]" by (simp add: message_def upt_rec)
  note w = queue_write_refines [OF queue_demo_ok queue_demo_unblocked, where n = 2 and timeOut = 0
      and buf = "\<lambda>_. 9"]
  have "queue_rel 0 (snd (write_service False 0 (Some (\<lambda>_. 9)) 2 0 ?s)) [[7], [9, 9]] 0 0"
    using w [OF queue_demo_valid(1) queue_demo_rel(1), where toHead = False]
    by (simp add: Let_def lit queue_put_def LOS_NO_WAIT_def)
  moreover have "queue_rel 1 (snd (write_service True 1 (Some (\<lambda>_. 9)) 2 0 ?s)) [[9, 9]] 1 0"
    using w [OF queue_demo_valid(2) queue_demo_rel(2), where toHead = True]
    by (simp add: Let_def lit queue_put_def LOS_NO_WAIT_def)
  ultimately show ?thesis by (simp add: write_service_def)
qed

lemma read_service_eq:
  assumes "queue_valid i s" "n \<noteq> 0" "timeOut = LOS_NO_WAIT \<or> \<not> OS_INT_ACTIVE s"
  shows "LOS_QueueReadCopy i (Some buf) (Some n) timeOut s =
    (let (r, buf', n', s') = OsQueueOperate i 0 buf n timeOut s in (r, Some buf', Some n', s'))"
  using assms by (auto simp: LOS_QueueReadCopy_def OsQueueReadParameterCheck_def queue_valid_def copy_types not_le)

lemma read_ready:
  assumes "queue_inv s" "unblocked s" "queue_valid i s" "queue_rel i s q r w"
    "readWriteableCnt (g_allQueue s i) OS_QUEUE_READ \<noteq> 0"
  obtains m q' where "q = m # q'" "ring_holds (g_allQueue (take_unit i OS_QUEUE_READ s) i) (m # q')"
    "unat (readWriteableCnt (g_allQueue (take_unit i OS_QUEUE_READ s) i) OS_QUEUE_READ) + r = length q'"
    "unat (readWriteableCnt (g_allQueue (take_unit i OS_QUEUE_READ s) i) OS_QUEUE_WRITE) + w + Suc (length q') =
      unat (queueLen (g_allQueue (take_unit i OS_QUEUE_READ s) i))"
proof -
  note rel = assms(4) [unfolded queue_rel_def Let_def]
  note t = take_unit_inv(5) [OF assms(1,3) _ assms(5), simplified]
  obtain m q' where q: "q = m # q'" using rel t by (cases q) auto
  show ?thesis
    by (rule that [OF q]) (use rel t q in \<open>simp_all add: take_unit_def\<close>)
qed

lemma read_now_eq:
  assumes "queue_valid i s" "queue_rel i s q r w"
    "n \<noteq> 0" "unat (queueSize (g_allQueue s i)) \<le> unat n + 4" "timeOut = LOS_NO_WAIT \<or> \<not> OS_INT_ACTIVE s"
    "readWriteableCnt (g_allQueue s i) OS_QUEUE_READ \<noteq> 0"
  shows "LOS_QueueReadCopy i (Some buf) (Some n) timeOut s =
    (let (buf', n', s') = queue_transfer i 0 buf n (take_unit i OS_QUEUE_READ s)
     in (Ret LOS_OK, Some buf', Some n', s'))"
proof -
  have "OsQueueOperateParamCheck (g_allQueue s i) 0 n = LOS_OK"
    using assms(2,4) ringD(1) by (intro operate_check [OF assms(1)]) (auto simp: queue_rel_def Let_def)
  then show ?thesis
    using assms(6) by (simp add: read_service_eq [OF assms(1,3,5)] OsQueueOperate_def Let_def take_unit_def
        case_prod_beta)
qed

lemma read_now:
  assumes "queue_inv s" "unblocked s" "queue_valid i s" "queue_rel i s q r w"
    "n \<noteq> 0" "unat (queueSize (g_allQueue s i)) \<le> unat n + 4" "n \<le> SECUREC_MEM_MAX_LEN"
    "timeOut = LOS_NO_WAIT \<or> \<not> OS_INT_ACTIVE s" "readWriteableCnt (g_allQueue s i) OS_QUEUE_READ \<noteq> 0"
  shows "let res = LOS_QueueReadCopy i (Some buf) (Some n) timeOut s; s' = snd (snd (snd res)) in
    fst res = Ret LOS_OK \<and> fst (snd res) = Some (\<lambda>j. if j < length (hd q) then hd q ! j else buf j) \<and>
    fst (snd (snd res)) = Some (of_nat (length (hd q))) \<and> q \<noteq> [] \<and>
    queue_inv s' \<and> wakes_first (QueueWriteWait i) s s' \<and>
    queue_rel i s' (tl q) r (if pend s (QueueWriteWait i) = [] then w else Suc w)"
proof -
  let ?q = "take_unit i OS_QUEUE_READ s"
  note t = take_unit_inv [OF assms(1,3) _ assms(9), simplified]
  obtain m q' where q: "q = m # q'" and g: "ring_holds (g_allQueue ?q i) (m # q')"
    "unat (readWriteableCnt (g_allQueue ?q i) OS_QUEUE_READ) + r = length q'"
    "unat (readWriteableCnt (g_allQueue ?q i) OS_QUEUE_WRITE) + w + Suc (length q') = unat (queueLen (g_allQueue ?q i))"
    by (rule read_ready [OF assms(1-4,9)])
  have ub: "unblocked ?q" using assms(2) by (simp add: take_unit_def)
  have sz: "queueSize (g_allQueue ?q i) = queueSize (g_allQueue s i)" by (simp add: take_unit_def)
  have fit: "unat (queueSize (g_allQueue ?q i)) \<le> unat n + 4" using assms(6) sz by simp
  note tr = transfer_next [OF t(1) ub t(2,4,3) g read_fits [OF g(1) fit assms(5,7)], of buf]
  note eq = read_now_eq [OF assms(3-6,8,9), of buf]
  have "wakes_first (QueueWriteWait i) ?q s' = wakes_first (QueueWriteWait i) s s'" for s'
    by (simp add: wakes_first_def take_unit_def)
  moreover have "pend ?q = pend s" by (simp add: take_unit_def)
  ultimately show ?thesis
    unfolding q list.sel using tr by (simp add: Let_def eq case_prod_beta)
qed

lemma read_outcome:
  assumes "queue_inv s" "unblocked s" "queue_valid i s" "queue_rel i s q r w"
    "n \<noteq> 0" "unat (queueSize (g_allQueue s i)) \<le> unat n + 4" "n \<le> SECUREC_MEM_MAX_LEN"
    "timeOut = LOS_NO_WAIT \<or> \<not> OS_INT_ACTIVE s"
  shows "let res = LOS_QueueReadCopy i (Some buf) (Some n) timeOut s; s' = snd (snd (snd res)) in
    if readWriteableCnt (g_allQueue s i) OS_QUEUE_READ \<noteq> 0 then
      fst res = Ret LOS_OK \<and> fst (snd res) = Some (\<lambda>j. if j < length (hd q) then hd q ! j else buf j) \<and>
      fst (snd (snd res)) = Some (of_nat (length (hd q))) \<and> q \<noteq> [] \<and>
      queue_inv s' \<and> wakes_first (QueueWriteWait i) s s' \<and>
      queue_rel i s' (tl q) r (if pend s (QueueWriteWait i) = [] then w else Suc w)
    else if timeOut = LOS_NO_WAIT then res = (Ret LOS_ERRNO_QUEUE_ISEMPTY, Some buf, Some n, s)
    else if g_losTaskLock s \<noteq> 0 then res = (Ret LOS_ERRNO_QUEUE_PEND_IN_LOCK, Some buf, Some n, s)
    else runTask s \<noteq> g_idleTaskID s \<longrightarrow> fst res = Blocked \<and> queue_inv s' \<and> queue_rel i s' q r w \<and>
      pend s' = (pend s)(QueueReadWait i := pend s (QueueReadWait i) @ [runTask s])"
proof (cases "readWriteableCnt (g_allQueue s i) OS_QUEUE_READ = 0")
  case False
  then show ?thesis using read_now [OF assms False] by (simp add: Let_def)
next
  case True
  have "OsQueueOperateParamCheck (g_allQueue s i) 0 n = LOS_OK"
    using assms(4,6) ringD(1) by (intro operate_check [OF assms(3)]) (auto simp: queue_rel_def Let_def)
  then show ?thesis
    using True wait_inv [OF assms(1,3) _ True assms(2), of timeOut] assms(4)
    by (simp add: Let_def read_service_eq [OF assms(3,5,8)] OsQueueOperate_def)
qed

text \<open>
  C26: \<open>LOS_QueueReadCopy\<close> with room for the largest message takes the oldest message of the queue
  into the caller's buffer, tells its size, and wakes the first task that waits to write;
  otherwise it fails, or blocks the task behind the other readers.
\<close>

theorem queue_read_refines:
  assumes "queue_inv s" "unblocked s" "queue_valid i s" "queue_rel i s q r w"
    "n \<noteq> 0" "unat (queueSize (g_allQueue s i)) \<le> unat n + 4" "n \<le> SECUREC_MEM_MAX_LEN"
    "timeOut = LOS_NO_WAIT \<or> \<not> OS_INT_ACTIVE s"
  shows "let res = LOS_QueueReadCopy i (Some buf) (Some n) timeOut s; s' = snd (snd (snd res)) in
    if readWriteableCnt (g_allQueue s i) OS_QUEUE_READ \<noteq> 0 then
      fst res = Ret LOS_OK \<and> fst (snd res) = Some (\<lambda>j. if j < length (hd q) then hd q ! j else buf j) \<and>
      fst (snd (snd res)) = Some (of_nat (length (hd q))) \<and> q \<noteq> [] \<and>
      queue_inv s' \<and> wakes_first (QueueWriteWait i) s s' \<and>
      queue_rel i s' (tl q) r (if pend s (QueueWriteWait i) = [] then w else Suc w)
    else if timeOut = LOS_NO_WAIT then res = (Ret LOS_ERRNO_QUEUE_ISEMPTY, Some buf, Some n, s)
    else if g_losTaskLock s \<noteq> 0 then res = (Ret LOS_ERRNO_QUEUE_PEND_IN_LOCK, Some buf, Some n, s)
    else runTask s \<noteq> g_idleTaskID s \<longrightarrow> fst res = Blocked \<and> queue_inv s' \<and> queue_rel i s' q r w \<and>
      pend s' = (pend s)(QueueReadWait i := pend s (QueueReadWait i) @ [runTask s])"
  by (rule read_outcome [OF assms])

theorem queue_read_refines_witness:
  "fst (snd (snd (LOS_QueueReadCopy 0 (Some (\<lambda>_. 0)) (Some 4) 0 (queue_demo ())))) = Some 1 \<and>
   fst (LOS_QueueReadCopy 1 (Some (\<lambda>_. 0)) (Some 4) 0 (queue_demo ())) = Ret LOS_ERRNO_QUEUE_ISEMPTY"
proof -
  note r = queue_read_refines [OF queue_demo_ok queue_demo_unblocked, where n = 4 and timeOut = 0
      and buf = "\<lambda>_. 0"]
  show ?thesis
    using r [OF queue_demo_valid(1) queue_demo_rel(1)] r [OF queue_demo_valid(2) queue_demo_rel(2)]
    by (simp add: Let_def LOS_NO_WAIT_def SECUREC_MEM_MAX_LEN_def)
qed

text \<open>
  C35: With a buffer size above \<open>SECUREC_MEM_MAX_LEN\<close>, which passes all parameter checks,
  \<open>LOS_QueueReadCopy\<close> reports success, copies nothing, and the message is gone.
\<close>

theorem queue_read_loses_message:
  assumes "queue_inv s" "unblocked s" "queue_valid i s" "queue_rel i s q r w"
    "SECUREC_MEM_MAX_LEN < n" "readWriteableCnt (g_allQueue s i) OS_QUEUE_READ \<noteq> 0"
    "timeOut = LOS_NO_WAIT \<or> \<not> OS_INT_ACTIVE s"
  shows "let res = LOS_QueueReadCopy i (Some buf) (Some n) timeOut s in
    fst res = Ret LOS_OK \<and> fst (snd res) = Some buf \<and> fst (snd (snd res)) = Some n \<and>
    queue_rel i (snd (snd (snd res))) (tl q) r (if pend s (QueueWriteWait i) = [] then w else Suc w)"
proof -
  note rel = assms(4) [unfolded queue_rel_def Let_def]
  have "unat (queueSize (g_allQueue s i)) < 2 ^ 16" using unsigned_less [of "queueSize (g_allQueue s i)"] by simp
  then have big: "unat (queueSize (g_allQueue s i)) \<le> unat n + 4" and n0: "n \<noteq> 0"
    using assms(5) by (auto simp: SECUREC_MEM_MAX_LEN_def word_less_nat_alt)
  have chk: "OsQueueOperateParamCheck (g_allQueue s i) 0 n = LOS_OK"
    using big ringD(1) rel by (intro operate_check [OF assms(3)]) auto
  let ?q = "take_unit i OS_QUEUE_READ s"
  note t = take_unit_inv [OF assms(1,3) _ assms(6), simplified]
  obtain m q' where q: "q = m # q'" and g: "ring_holds (g_allQueue ?q i) (m # q')"
    "unat (readWriteableCnt (g_allQueue ?q i) OS_QUEUE_READ) + r = length q'"
    "unat (readWriteableCnt (g_allQueue ?q i) OS_QUEUE_WRITE) + w + Suc (length q') = unat (queueLen (g_allQueue ?q i))"
    by (rule read_ready [OF assms(1-4,6)])
  have ub: "unblocked ?q" using assms(2) by (simp add: take_unit_def)
  note tr = transfer_next [OF t(1) ub t(2,4,3) g read_lost [OF assms(5)], of buf]
  have "LOS_QueueReadCopy i (Some buf) (Some n) timeOut s =
      (let (buf', n', s') = queue_transfer i 0 buf n ?q in (Ret LOS_OK, Some buf', Some n', s'))"
    using assms(6) chk by (simp add: read_service_eq [OF assms(3) n0 assms(7)] OsQueueOperate_def Let_def
        take_unit_def case_prod_beta)
  moreover have "pend ?q = pend s" by (simp add: take_unit_def)
  ultimately show ?thesis using tr q by (simp add: Let_def case_prod_beta)
qed

theorem queue_read_loses_message_witness:
  "fst (LOS_QueueReadCopy 0 (Some (\<lambda>_. 0)) (Some 0xFFFFFFFF) 0 (queue_demo ())) = Ret LOS_OK"
  using queue_read_loses_message [OF queue_demo_ok queue_demo_unblocked queue_demo_valid(1) queue_demo_rel(1),
      where n = "0xFFFFFFFF" and timeOut = 0 and buf = "\<lambda>_. 0"]
  by (simp add: Let_def LOS_NO_WAIT_def SECUREC_MEM_MAX_LEN_def)

section \<open>Handles\<close>

lemma created_rel:
  assumes "LOS_QueueCreate mem garbage len False maxMsgSize s = (LOS_OK, h, s1)" "queue_ok s"
  shows "queue_rel h s1 [] 0 0" "unat (queueSize (g_allQueue s1 h)) = unat maxMsgSize + 4"
proof -
  note r = QueueCreate_ok [OF assms]
  have "unat maxMsgSize \<le> 0xFFFB" "0 < unat maxMsgSize"
    using r by (simp_all add: OS_NULL_SHORT_def word_le_nat_alt not_less unat_gt_0)
  then have n: "unat (maxMsgSize + 4) = unat maxMsgSize + 4" by (simp add: unat_word_ariths(1))
  show "queue_rel h s1 [] 0 0" "unat (queueSize (g_allQueue s1 h)) = unat maxMsgSize + 4"
    using r \<open>0 < unat maxMsgSize\<close> n by (simp_all add: queue_rel_def ring_holds_def unat_gt_0)
qed

text \<open>
  \<open>LOS_QueueCreate\<close> hands out an unused queue that is empty, with the whole length free to
  write, for every length and message size it accepts; \<open>LOS_QueueDelete\<close> refuses while a task
  waits or has been woken and has not run yet, and a queue that has been deleted is the next to be
  handed out and cannot be deleted a second time.
\<close>

theorem queue_handles:
  assumes "queue_ok s"
  shows "(LOS_QueueCreate mem garbage len False maxMsgSize s = (LOS_OK, h, s1) \<longrightarrow>
      h < LOSCFG_BASE_IPC_QUEUE_LIMIT (cfg s) \<and> \<not> queue_used s h \<and> queue_used s1 = (queue_used s)(h := True) \<and>
      queue_ok s1 \<and> queue_rel h s1 [] 0 0) \<and>
    (LOS_QueueDelete LOS_OK h s = (LOS_OK, s2) \<longrightarrow>
      queue_used s h \<and> (\<forall>q r w. queue_rel h s q r w \<longrightarrow> r = 0 \<and> w = 0) \<and>
      fst (LOS_QueueDelete LOS_OK h s2) \<noteq> LOS_OK \<and>
      (\<forall>j s3. LOS_QueueCreate mem garbage len False maxMsgSize s2 = (LOS_OK, j, s3) \<longrightarrow>
        j = h \<and> queue_used s3 = queue_used s))"
proof (intro conjI impI)
  assume c: "LOS_QueueCreate mem garbage len False maxMsgSize s = (LOS_OK, h, s1)"
  show "h < LOSCFG_BASE_IPC_QUEUE_LIMIT (cfg s)" "\<not> queue_used s h" "queue_used s1 = (queue_used s)(h := True)"
    "queue_ok s1"
    using queue_blocks.create_fresh [OF assms c] queue_blocks.create_ok [OF assms c] by simp_all
  show "queue_rel h s1 [] 0 0" by (rule created_rel(1) [OF c assms])
next
  assume d: "LOS_QueueDelete LOS_OK h s = (LOS_OK, s2)"
  show "queue_used s h" "fst (LOS_QueueDelete LOS_OK h s2) \<noteq> LOS_OK"
    "\<forall>j s3. LOS_QueueCreate mem garbage len False maxMsgSize s2 = (LOS_OK, j, s3) \<longrightarrow>
        j = h \<and> queue_used s3 = queue_used s"
    using queue_blocks.destroy_ok [OF assms d] queue_blocks.destroy_twice [OF assms d]
      queue_blocks.destroy_create [OF assms d] by blast+
  show "\<forall>q r w. queue_rel h s q r w \<longrightarrow> r = 0 \<and> w = 0"
    using QueueDelete_ok [OF d assms] by (auto simp: queue_rel_def Let_def)
qed

theorem queue_handles_witness:
  "fst (LOS_QueueDelete LOS_OK 0 (queue_demo ())) = LOS_OK \<and>
   fst (LOS_QueueDelete LOS_OK 0 (snd (LOS_QueueDelete LOS_OK 0 (queue_demo ())))) \<noteq> LOS_OK"
proof -
  have "\<exists>s2. LOS_QueueDelete LOS_OK 0 (queue_demo ()) = (LOS_OK, s2)"
    by (simp add: LOS_QueueDelete_def Let_def LOS_ListEmpty_def)
      (simp add: queue_demo_cb_def zero_queue_def OS_QUEUE_UNUSED_def OS_QUEUE_INUSED_def default_config_def)
  then obtain s2 where d: "LOS_QueueDelete LOS_OK 0 (queue_demo ()) = (LOS_OK, s2)" by blast
  with queue_handles [OF queue_invD(2) [OF queue_demo_ok], where h = 0 and ?s2.0 = s2] show ?thesis by simp
qed

section \<open>Mails\<close>

text \<open>
  When a task waits for a mail, \<open>OsQueueMailFree\<close> hands the block it gets back straight to the
  first of them: the block is its message, the task is woken, and the pool of blocks is as before.
\<close>

theorem mail_free_hands_over:
  assumes "queue_inv s" "unblocked s" "queue_valid i s" "pend s (QueueMemWait i) = t # ts"
    "box_ok (cfg s) pool (boxMemory s) free" "mailMem \<noteq> 0"
    "OS_MEMBOX_NODE_ADDR mailMem \<in> set (blocks pool (boxMemory s)) - set free"
    "of_nat (LOS_CurTaskIDGet s) \<le> (of_nat (LOSCFG_BASE_CORE_TSK_LIMIT (cfg s) + 1) :: UINT32)"
    "\<not> has (status s t) OS_TASK_STATUS_TIMEOUT"
  shows "let s' = snd (OsQueueMailFree i pool mailMem s) in
    fst (OsQueueMailFree i pool mailMem s) = LOS_OK \<and> wakes_first (QueueMemWait i) s s' \<and>
    fst (OsQueueMailAlloc_resume t s') = mailMem \<and> box_ok (cfg s) pool (boxMemory s') free \<and> queue_inv s'"
proof -
  note inv = queue_invD [OF assms(1)]
  define m1 where "m1 = snd (LOS_MemboxFree (cfg s) pool mailMem (boxMemory s))"
  define m2 where "m2 = snd (LOS_MemboxAlloc pool (of_nat (LOS_CurTaskIDGet s)) m1)"
  note fr = Free_ok [OF assms(5,7,6), folded m1_def]
  note al = Alloc_some [OF fr(2) assms(8), folded m2_def]
  have free_eq: "LOS_MemboxFree (cfg s) pool mailMem (boxMemory s) = (LOS_OK, m1)"
    using fr(1) by (simp add: m1_def prod_eq_iff)
  have alloc_eq: "LOS_MemboxAlloc pool (of_nat (LOS_CurTaskIDGet s)) m1 = (mailMem, m2)"
    using al(1) by (simp add: m2_def prod_eq_iff OS_MEMBOX_USER_ADDR_def OS_MEMBOX_NODE_ADDR_def)
  have t: "t \<in> set (pend s (QueueMemWait i))" using assms(4) by simp
  have run: "t \<noteq> runTask s" using waiter(3) [OF inv(1) _ t assms(2)] by simp
  let ?q = "OsSchedTaskWake t (s\<lparr>boxMemory := m1\<rparr>)"
  define s' where "s' = LOS_Schedule (upd_tcb t (msg_update (\<lambda>_. mailMem)) (?q\<lparr>boxMemory := m2\<rparr>))"
  have cur: "LOS_CurTaskIDGet ?q = LOS_CurTaskIDGet s"
    using run by (simp add: LOS_CurTaskIDGet_def Wake_other)
  have pool0: "pool \<noteq> 0" using box_okD(1) [OF assms(5)] by (simp add: geometry_def)
  have eq: "OsQueueMailFree i pool mailMem s = (LOS_OK, s')"
    using assms(3,4,6) queue_stat [of s i] pool0
    by (simp add: OsQueueMailFree_def queue_valid_def free_eq Let_def LOS_ListEmpty_def LOS_DL_LIST_FIRST_def
        cur alloc_eq s'_def)
  have sq: "sched_inv (s\<lparr>boxMemory := m1\<rparr>)" "unblocked (s\<lparr>boxMemory := m1\<rparr>)" using inv(1) assms(2) by simp_all
  have p: "pend s' k = (if k = QueueMemWait i then ts else pend s k)" if "is_wait k" for k
    using pend_Wake [OF sq(1), of "QueueMemWait i" t k] t assms(4) that by (simp add: s'_def)
  have st: "status s' t = status ?q t" "msg (tcb s' t) = mailMem" by (simp_all add: s'_def)
  have woken: "\<not> has (status s' t) OS_TASK_STATUS_PEND \<and>
      (has (status s t) OS_TASK_STATUS_SUSPEND \<or> has (status s' t) OS_TASK_STATUS_READY)"
    "\<not> has (status s' t) OS_TASK_STATUS_TIMEOUT"
    using assms(9) unfolding st by (auto simp: Wake_eq Let_def EnQueue_sel)
  have "sched_inv ?q"
    using waiter(1,2) [OF inv(1) _ t] run sq by (intro sched_inv_Wake) simp_all
  then have "sched_inv s'" unfolding s'_def by (simp add: sched_inv_fields)
  moreover have "queue_ok s'"
  proof (rule queue_okI [OF inv(2), of s' i])
    have g: "g_allQueue s' = g_allQueue s" "g_freeQueueList s' = g_freeQueueList s" "cfg s' = cfg s"
      by (simp_all add: s'_def)
    have used: "queue_used s' = queue_used s" by (simp add: queue_used_def g fun_eq_iff)
    show "queue_cb_ok s' i"
      using queue_okD(2) [OF inv(2), of i] assms(4) unfolding queue_cb_ok_def used g by (simp add: p)
    show "pool_ok (g_freeQueueList s' ()) (queue_used s') (LOSCFG_BASE_IPC_QUEUE_LIMIT (cfg s))"
      using queue_okD(1) [OF inv(2)] by (simp add: used g)
    show "pend s' h = pend s h"
      if "j \<noteq> i" "h = QueueReadWait j \<or> h = QueueWriteWait j \<or> h = QueueMemWait j" for j h
      using that by (auto simp: p)
  qed (simp_all add: s'_def)
  moreover have "boxMemory s' = m2" by (simp add: s'_def)
  ultimately show ?thesis
    using woken st(2) al(2) assms(4)
    by (simp add: Let_def eq wakes_first_def p OsQueueMailAlloc_resume_def queue_inv_def)
qed

theorem mail_free_hands_over_witness:
  "\<exists>s :: queue_state. box_ok default_config 0x20000000 (boxMemory s) [0x2000001C] \<and>
    fst (OsQueueMailAlloc_resume 3 (snd (OsQueueMailFree 0 0x20000000 0x20000014 s))) = 0x20000014"
proof -
  let ?m = "snd (LOS_MemboxAlloc 0x20000000 1 box_demo)"
  let ?s = "(queue_demo_at (QueueMemWait 0) ())\<lparr>boxMemory := ?m\<rparr>"
  have al: "box_ok default_config 0x20000000 ?m [0x2000001C]"
    using Alloc_some(2) [OF box_demo_ok, of 1] by (simp add: default_config_def)
  have d: "queue_inv (queue_demo_at (QueueMemWait 0) ())" by (rule queue_demo_inv) simp
  have used: "queue_used ?s = queue_used (queue_demo_at (QueueMemWait 0) ())" by (simp add: queue_used_def fun_eq_iff)
  have inv: "queue_inv ?s"
    using d unfolding queue_inv_def queue_ok_def queue_cb_ok_def used by simp
  have v: "queue_valid 0 ?s"
    using queue_demo_valid(1) [of "QueueMemWait 0" "()"] by (simp add: queue_valid_def used)
  have ub: "unblocked ?s" by (simp add: queue_demo_unblocked)
  have free: "box_demo 0x2000000C = 0x20000010"
    using box_okD(4) [OF box_demo_ok] by (simp add: stFreeList_def)
  have "blocks 0x20000000 ?m = blocks 0x20000000 box_demo"
    by (rule geometry_cong(2))
      (simp_all add: LOS_MemboxAlloc_def Let_def free OsMemBoxSetMagic_def uwBlkSize_def uwBlkNum_def uwBlkCnt_def stFreeList_def)
  then have b: "blocks 0x20000000 ?m = [0x20000010, 0x2000001C]"
    by (simp add: box_demo_blocks)
  have st: "\<not> has (status ?s 3) OS_TASK_STATUS_TIMEOUT" "LOS_CurTaskIDGet ?s = 1"
    by (simp_all add: queue_demo_at_def demo_at_def demo_tasks LOS_CurTaskIDGet_def) (simp add: demo_def)
  have "fst (OsQueueMailAlloc_resume 3 (snd (OsQueueMailFree 0 0x20000000 0x20000014 ?s))) = 0x20000014"
    using mail_free_hands_over [OF inv ub v, of 3 "[]" "0x20000000" "[0x2000001C]" "0x20000014"] al b st
    by (simp add: Let_def OS_MEMBOX_NODE_ADDR_def OS_MEMBOX_NODE_HEAD_SIZE_def) (simp add: default_config_def)
  with al show ?thesis by (intro exI [of _ ?s]) simp
qed

end
