(* ===== verification/Queue_Promise.thy ===== *)
theory Queue_Promise
  imports Queue_Props
begin

text \<open>
  The promise a message queue makes to a task that it wakes, over every history of the queue: the steps
  of the tasks and interrupts that use it, of the scheduler, and of everything that does not. A state
  comes with the messages the queue holds and the tasks that were woken and have not run yet.
\<close>

section \<open>Woken tasks\<close>

abbreviation wait_flags :: UINT16 where
  "wait_flags \<equiv> OS_TASK_STATUS_PEND OR OS_TASK_STATUS_PEND_TIME OR OS_TASK_STATUS_DELAY OR OS_TASK_STATUS_UNUSED"

definition waits :: "nat \<Rightarrow> 'a queue_state_scheme \<Rightarrow> nat set" where
  "waits i s = set (pend s (QueueReadWait i)) \<union> set (pend s (QueueWriteWait i))"

text \<open>The task waits for nothing and has not run into a timeout.\<close>

definition awake :: "'a queue_state_scheme \<Rightarrow> nat \<Rightarrow> bool" where
  "awake s t \<longleftrightarrow> \<not> has (status s t) (wait_flags OR OS_TASK_STATUS_TIMEOUT)"

text \<open>The tasks that a step takes off a wait list.\<close>

definition woken :: "lhead \<Rightarrow> 'a queue_state_scheme \<Rightarrow> 'a queue_state_scheme \<Rightarrow> nat set" where
  "woken h s s' = set (pend s h) - set (pend s' h)"

lemma woken_same [simp]: "woken h s s = {}"
  by (simp add: woken_def)

lemma Wake_flags:
  "has (status (OsSchedTaskWake t s) u) OS_TASK_STATUS_TIMEOUT = has (status s u) OS_TASK_STATUS_TIMEOUT"
proof (cases "u = t")
  case True
  show ?thesis unfolding True Wake_eq Let_def by (auto simp: EnQueue_sel split: if_splits)
qed (simp add: Wake_other)

lemma Wake_awake:
  assumes "sched_inv s" "is_wait h" "t \<in> set (pend s h)"
  shows "\<not> has (status (OsSchedTaskWake t s) t) wait_flags"
proof -
  note w = waiter(1,2) [OF assms]
  have "\<not> has (status s t) OS_TASK_STATUS_DELAY \<and> \<not> has (status s t) OS_TASK_STATUS_UNUSED"
    by (rule task_flags(2) [OF sched_invD(5) [OF assms(1)] w])
  then show ?thesis by (auto simp: Wake_eq Let_def EnQueue_sel)
qed

text \<open>What a transfer does to the tasks.\<close>

lemma transfer_tasks:
  fixes s :: "'a queue_state_scheme" and i n ty buf
  assumes "sched_inv s"
  defines "s' \<equiv> snd (snd (queue_transfer i ty buf n s))" and "h \<equiv> readWriteList i (other_end ty)"
  shows "has (status s' u) OS_TASK_STATUS_TIMEOUT = has (status s u) OS_TASK_STATUS_TIMEOUT"
    and "u \<notin> set (take 1 (pend s h)) \<Longrightarrow> status s' u = status s u"
    and "u \<in> set (take 1 (pend s h)) \<Longrightarrow> \<not> has (status s' u) wait_flags"
    and "woken h s s' = set (take 1 (pend s h))"
    and "is_wait k \<Longrightarrow> k \<noteq> h \<Longrightarrow> pend s' k = pend s k" "pend s' h = drop 1 (pend s h)"
proof -
  obtain c' buf' n' where op: "OsQueueBufferOperate ty (g_allQueue s i) buf n = (c', buf', n')"
    by (metis prod_cases3)
  let ?q = "upd_queue i (\<lambda>_. c') s"
  have "has (status s' u) OS_TASK_STATUS_TIMEOUT = has (status s u) OS_TASK_STATUS_TIMEOUT \<and>
    (u \<notin> set (take 1 (pend s h)) \<longrightarrow> status s' u = status s u) \<and>
    (u \<in> set (take 1 (pend s h)) \<longrightarrow> \<not> has (status s' u) wait_flags) \<and>
    woken h s s' = set (take 1 (pend s h)) \<and> (is_wait k \<longrightarrow> k \<noteq> h \<longrightarrow> pend s' k = pend s k) \<and> pend s' h = drop 1 (pend s h)"
  proof (cases "pend s h")
    case Nil
    then show ?thesis by (simp add: s'_def transfer_eq [OF op] woken_def flip: h_def)
  next
    case (Cons t ts)
    have t: "t \<in> set (pend ?q h)" "is_wait h" "sched_inv ?q" using Cons assms(1) by (simp_all add: h_def)
    have eq: "s' = LOS_Schedule (OsSchedTaskWake t ?q)"
      using Cons by (simp add: s'_def transfer_eq [OF op] flip: h_def)
    have p: "pend s' k = (if k = h then remove1 t (pend s h) else pend s k)" if "is_wait k" for k
      using pend_Wake [OF t(3,2,1) that] by (simp add: eq)
    have "distinct (t # ts)"
      using sched_invD(3) [OF assms(1)] Cons store_okD(1) [of "pend s" h] by (simp add: lists_ok_def)
    then have "woken h s s' = {t}" using p [OF t(2)] Cons by (auto simp: woken_def)
    moreover have "status s' u = status s u" if "u \<noteq> t" using that by (simp add: eq Wake_other)
    ultimately show ?thesis
      using Wake_awake [OF t(3,2,1)] Wake_flags [of t ?q u] p p [OF t(2)] Cons by (auto simp: eq)
  qed
  then show "has (status s' u) OS_TASK_STATUS_TIMEOUT = has (status s u) OS_TASK_STATUS_TIMEOUT"
    "u \<notin> set (take 1 (pend s h)) \<Longrightarrow> status s' u = status s u"
    "u \<in> set (take 1 (pend s h)) \<Longrightarrow> \<not> has (status s' u) wait_flags"
    "woken h s s' = set (take 1 (pend s h))" "is_wait k \<Longrightarrow> k \<noteq> h \<Longrightarrow> pend s' k = pend s k"
    "pend s' h = drop 1 (pend s h)"
    by blast+
qed

section \<open>Steps\<close>

text \<open>
  What does not use queue \<open>i\<close>: it leaves its control block alone, puts nobody on its lists, and
  neither blocks nor deletes the tasks of \<open>T\<close>, nor lets them or the tasks that wait run into a timeout
  unless they leave the list.
\<close>

definition elsewhere :: "nat \<Rightarrow> nat set \<Rightarrow> 'a queue_state_scheme \<Rightarrow> 'a queue_state_scheme \<Rightarrow> bool" where
  "elsewhere i T s s' \<longleftrightarrow> queue_inv s' \<and> cfg s' = cfg s \<and> g_allQueue s' i = g_allQueue s i \<and>
    set (pend s' (QueueReadWait i)) \<subseteq> set (pend s (QueueReadWait i)) \<and>
    set (pend s' (QueueWriteWait i)) \<subseteq> set (pend s (QueueWriteWait i)) \<and>
    (\<forall>t\<in>T. awake s t \<longrightarrow> awake s' t) \<and>
    (\<forall>t\<in>waits i s'. has (status s' t) OS_TASK_STATUS_TIMEOUT \<longrightarrow> has (status s t) OS_TASK_STATUS_TIMEOUT)"

text \<open>
  The running task can block when it is not the idle task and has come out of its last wait. An interrupt
  can call the services without waiting whatever task runs.
\<close>

definition can_block :: "nat set \<Rightarrow> 'a queue_state_scheme \<Rightarrow> bool" where
  "can_block T s \<longleftrightarrow> runTask s \<noteq> g_idleTaskID s \<and> runTask s \<notin> T \<and>
    \<not> has (status s (runTask s)) OS_TASK_STATUS_TIMEOUT"

text \<open>
  A step of the system seen from queue \<open>i\<close>. \<open>q\<close> are the messages stored, \<open>R\<close> the readers and \<open>W\<close> the
  writers that have been woken and have not gone on; \<open>writes\<close> and \<open>reads\<close> are calls of any task, also of
  one that comes after the woken ones and before they run.
\<close>

inductive queue_step ::
  "nat \<Rightarrow> 'a queue_state_scheme \<times> UINT8 list list \<times> nat set \<times> nat set \<Rightarrow>
   'a queue_state_scheme \<times> UINT8 list list \<times> nat set \<times> nat set \<Rightarrow> bool" for i where
  writes: "unblocked s \<Longrightarrow> n \<noteq> 0 \<Longrightarrow> unat n + 4 \<le> unat (queueSize (g_allQueue s i)) \<Longrightarrow>
    timeOut = LOS_NO_WAIT \<or> \<not> OS_INT_ACTIVE s \<and>
      (readWriteableCnt (g_allQueue s i) OS_QUEUE_WRITE = 0 \<longrightarrow> can_block (R \<union> W) s) \<Longrightarrow>
    write_service toHead i (Some buf) n timeOut s = (ret, s') \<Longrightarrow>
    queue_step i (s, q, R, W) (s', if ret = Ret LOS_OK then queue_put toHead (message buf n) q else q,
      R \<union> woken (QueueReadWait i) s s', W)"
| reads: "unblocked s \<Longrightarrow> n \<noteq> 0 \<Longrightarrow> unat (queueSize (g_allQueue s i)) \<le> unat n + 4 \<Longrightarrow> n \<le> SECUREC_MEM_MAX_LEN \<Longrightarrow>
    timeOut = LOS_NO_WAIT \<or> \<not> OS_INT_ACTIVE s \<and>
      (readWriteableCnt (g_allQueue s i) OS_QUEUE_READ = 0 \<longrightarrow> can_block (R \<union> W) s) \<Longrightarrow>
    LOS_QueueReadCopy i (Some buf) (Some n) timeOut s = (ret, b, m, s') \<Longrightarrow>
    queue_step i (s, q, R, W) (s', if ret = Ret LOS_OK then tl q else q,
      R, W \<union> woken (QueueWriteWait i) s s')"
| reader_resumes: "unblocked s \<Longrightarrow> t \<in> R \<Longrightarrow> n \<noteq> 0 \<Longrightarrow> unat (queueSize (g_allQueue s i)) \<le> unat n + 4 \<Longrightarrow>
    n \<le> SECUREC_MEM_MAX_LEN \<Longrightarrow> OsQueueOperate_resume t i 0 buf n s = (ret, b, m, s') \<Longrightarrow>
    queue_step i (s, q, R, W) (s', if ret = LOS_OK then tl q else q,
      R - {t}, W \<union> woken (QueueWriteWait i) s s')"
| writer_resumes: "unblocked s \<Longrightarrow> t \<in> W \<Longrightarrow> n \<noteq> 0 \<Longrightarrow> unat n + 4 \<le> unat (queueSize (g_allQueue s i)) \<Longrightarrow>
    OsQueueOperate_resume t i (write_type toHead) buf n s = (ret, b, m, s') \<Longrightarrow>
    queue_step i (s, q, R, W) (s', if ret = LOS_OK then queue_put toHead (message buf n) q else q,
      R \<union> woken (QueueReadWait i) s s', W - {t})"
| timed_out: "t \<notin> R \<union> W \<Longrightarrow> t \<notin> waits i s \<Longrightarrow> has (status s t) OS_TASK_STATUS_TIMEOUT \<Longrightarrow>
    OsQueueOperate_resume t i ty buf n s = (ret, b, m, s') \<Longrightarrow> queue_step i (s, q, R, W) (s', q, R, W)"
| switch: "g_idleTaskID s < g_taskMaxNum s \<Longrightarrow> no_overflow s \<Longrightarrow>
    queue_step i (s, q, R, W) (HalPendSV s, q, R, W)"
| timeouts: "queue_step i (s, q, R, W) (snd (OsSchedScanTimerList s), q, R, W)"
| other: "elsewhere i (R \<union> W) s s' \<Longrightarrow> queue_step i (s, q, R, W) (s', q, R, W)"

text \<open>
  The promise: as many messages are kept for the woken readers, and as many slots for the woken
  writers, as there are of them, and none of them waits for anything.
\<close>

definition promise_inv ::
  "nat \<Rightarrow> 'a queue_state_scheme \<times> UINT8 list list \<times> nat set \<times> nat set \<Rightarrow> bool" where
  "promise_inv i x \<longleftrightarrow> (case x of (s, q, R, W) \<Rightarrow> queue_inv s \<and> queue_valid i s \<and>
    queue_rel i s q (card R) (card W) \<and> finite R \<and> finite W \<and>
    (\<forall>t\<in>R \<union> W. awake s t) \<and>
    (\<forall>t\<in>waits i s. \<not> has (status s t) OS_TASK_STATUS_TIMEOUT))"

lemma promise_invD:
  assumes "promise_inv i (s, q, R, W)"
  shows "queue_inv s" "queue_valid i s" "queue_rel i s q (card R) (card W)" "finite R" "finite W"
    and "t \<in> R \<union> W \<Longrightarrow> awake s t" "t \<in> waits i s \<Longrightarrow> \<not> has (status s t) OS_TASK_STATUS_TIMEOUT"
    and "t \<in> waits i s \<Longrightarrow> t \<notin> R \<union> W"
proof -
  show q: "queue_inv s" "queue_valid i s" "queue_rel i s q (card R) (card W)" "finite R" "finite W"
    and aw: "t \<in> R \<union> W \<Longrightarrow> awake s t" and "t \<in> waits i s \<Longrightarrow> \<not> has (status s t) OS_TASK_STATUS_TIMEOUT"
    using assms by (auto simp: promise_inv_def)
  have "has (status s t) OS_TASK_STATUS_PEND" if "t \<in> waits i s"
    using that waiter(2) [OF queue_invD(1) [OF q(1)], of "QueueReadWait i" t]
      waiter(2) [OF queue_invD(1) [OF q(1)], of "QueueWriteWait i" t] by (auto simp: waits_def)
  then show "t \<in> waits i s \<Longrightarrow> t \<notin> R \<union> W" using aw by (auto simp: awake_def)
qed

lemma promise_invI:
  assumes "queue_inv s" "queue_valid i s" "queue_rel i s q (card R) (card W)" "finite R" "finite W"
    "\<And>t. t \<in> R \<union> W \<Longrightarrow> awake s t"
    "\<And>t. t \<in> waits i s \<Longrightarrow> \<not> has (status s t) OS_TASK_STATUS_TIMEOUT"
  shows "promise_inv i (s, q, R, W)"
  using assms by (simp add: promise_inv_def)

lemma elsewhere_promise:
  assumes "promise_inv i (s, q, R, W)" "elsewhere i (R \<union> W) s s'"
  shows "promise_inv i (s', q, R, W)" "g_allQueue s' i = g_allQueue s i"
proof -
  note p = promise_invD [OF assms(1)]
  have e: "queue_inv s'" "cfg s' = cfg s" "waits i s' \<subseteq> waits i s" and g: "g_allQueue s' i = g_allQueue s i"
    and f: "\<And>t. t \<in> R \<union> W \<Longrightarrow> awake s t \<Longrightarrow> awake s' t"
    and w: "\<And>t. t \<in> waits i s' \<Longrightarrow> has (status s' t) OS_TASK_STATUS_TIMEOUT \<Longrightarrow> has (status s t) OS_TASK_STATUS_TIMEOUT"
    using assms(2) unfolding elsewhere_def waits_def by blast+
  show "g_allQueue s' i = g_allQueue s i" by (rule g)
  have v: "queue_valid i s'" "queue_rel i s' q (card R) (card W)"
    using p(2,3) e(2) g by (simp_all add: queue_valid_def queue_used_def queue_rel_def)
  show "promise_inv i (s', q, R, W)"
    by (rule promise_invI [OF e(1) v p(4,5) f [OF _ p(6)]]) (use p(7) w e(3) in blast)+
qed

section \<open>Steps that use the queue\<close>

text \<open>A transfer out of a state in which a unit has been taken, or a promise is redeemed.\<close>

lemma transfer_keeps:
  fixes s :: "'a queue_state_scheme" and i n ty buf
  assumes "sched_inv s" "unblocked s" "queue_valid i s"
    "pool_ok (g_freeQueueList s ()) (queue_used s) (LOSCFG_BASE_IPC_QUEUE_LIMIT (cfg s))"
    "\<And>j. queue_cb_ok s j"
  defines "s' \<equiv> snd (snd (queue_transfer i ty buf n s))"
  shows "queue_valid i s'" "queueSize (g_allQueue s' i) = queueSize (g_allQueue s i)"
    "queueLen (g_allQueue s' i) = queueLen (g_allQueue s i)"
proof -
  obtain c' buf' n' where op: "OsQueueBufferOperate ty (g_allQueue s i) buf n = (c', buf', n')"
    by (metis prod_cases3)
  note t = transfer_inv [OF assms(1-3) op assms(4,5), folded s'_def] and sel = BufferOperate_sel [OF op]
  show "queue_valid i s'" "queueSize (g_allQueue s' i) = queueSize (g_allQueue s i)"
    "queueLen (g_allQueue s' i) = queueLen (g_allQueue s i)"
    using assms(3) by (simp_all add: queue_valid_def queue_used_def t(3,5) sel)
qed

lemma card_first:
  assumes "finite R" "set xs \<inter> R = {}"
  shows "card (R \<union> set (take 1 xs)) = (if xs = [] then card R else Suc (card R))"
  using assms by (cases xs) auto

lemma transfer_waits:
  fixes s :: "'a queue_state_scheme" and i n ty buf
  assumes "sched_inv s" "\<And>t. t \<in> T \<Longrightarrow> awake s t" "\<And>t. t \<in> waits i s \<Longrightarrow> \<not> has (status s t) OS_TASK_STATUS_TIMEOUT"
  defines "s' \<equiv> snd (snd (queue_transfer i ty buf n s))" and "h \<equiv> readWriteList i (other_end ty)"
  shows "t \<in> T \<union> woken h s s' \<Longrightarrow> awake s' t" "t \<in> waits i s' \<Longrightarrow> \<not> has (status s' t) OS_TASK_STATUS_TIMEOUT"
proof -
  note w = transfer_tasks [OF assms(1), where i = i and ty = ty and buf = buf and n = n, folded s'_def h_def]
  have h: "h = QueueReadWait i \<or> h = QueueWriteWait i" using other_end_cases [of ty] by (auto simp: h_def)
  have first: "u \<in> waits i s" if "u \<in> set (take 1 (pend s h))" for u
    using that h by (auto simp: waits_def dest: in_set_takeD)
  show "awake s' t" if t: "t \<in> T \<union> woken h s s'"
  proof (cases "t \<in> set (take 1 (pend s h))")
    case True
    then show ?thesis using w(1,3) [of t] assms(3) first by (auto simp: awake_def)
  next
    case False
    then show ?thesis using t w(2) [of t] w(4) assms(2) by (auto simp: awake_def)
  qed
  have "set (pend s' h) \<subseteq> set (pend s h)" unfolding w(6) by (rule set_drop_subset)
  then have "waits i s' \<subseteq> waits i s"
    using w(5) [of "QueueReadWait i"] w(5) [of "QueueWriteWait i"] h by (auto simp: waits_def)
  then show "t \<in> waits i s' \<Longrightarrow> \<not> has (status s' t) OS_TASK_STATUS_TIMEOUT"
    using w(1) assms(3) by blast
qed

lemma put_keeps:
  fixes s :: "'a queue_state_scheme" and buf :: bytes and toHead :: bool and i n
  assumes pre: "sched_inv s" "unblocked s" "queue_valid i s"
    "pool_ok (g_freeQueueList s ()) (queue_used s) (LOSCFG_BASE_IPC_QUEUE_LIMIT (cfg s))"
    "\<And>j. queue_cb_ok s j" "ring_holds (g_allQueue s i) q"
    "unat (readWriteableCnt (g_allQueue s i) OS_QUEUE_READ) + card R = length q"
    "unat (readWriteableCnt (g_allQueue s i) OS_QUEUE_WRITE) + card W + Suc (length q) = unat (queueLen (g_allQueue s i))"
    "unat n + 4 \<le> unat (queueSize (g_allQueue s i))"
    and tasks: "finite R" "finite W" "\<And>t. t \<in> R \<union> W \<Longrightarrow> awake s t" "\<And>t. t \<in> waits i s \<Longrightarrow> t \<notin> R \<union> W"
    "\<And>t. t \<in> waits i s \<Longrightarrow> \<not> has (status s t) OS_TASK_STATUS_TIMEOUT"
  defines "s' \<equiv> snd (snd (queue_transfer i (write_type toHead) buf n s))"
  shows "promise_inv i (s', queue_put toHead (message buf n) q, R \<union> woken (QueueReadWait i) s s', W)"
proof -
  note tr = transfer_write [OF pre, of toHead buf, folded s'_def]
  note tw = transfer_waits [OF pre(1) tasks(3,5), where T = "R \<union> W" and i = i and ty = "write_type toHead" and buf = buf and n = n, folded s'_def, simplified]
  have wk: "woken (QueueReadWait i) s s' = set (take 1 (pend s (QueueReadWait i)))"
    using transfer_tasks(4) [OF pre(1), where i = i and ty = "write_type toHead" and buf = buf and n = n] by (simp add: s'_def)
  have "set (pend s (QueueReadWait i)) \<inter> R = {}" using tasks(4) by (auto simp: waits_def)
  then have "card (R \<union> woken (QueueReadWait i) s s') = (if pend s (QueueReadWait i) = [] then card R else Suc (card R))"
    using card_first [OF tasks(1)] by (simp add: wk)
  then have rel: "queue_rel i s' (queue_put toHead (message buf n) q) (card (R \<union> woken (QueueReadWait i) s s')) (card W)"
    using tr(3) by (simp only:)
  note v = transfer_keeps(1) [OF pre(1-5), where ty = "write_type toHead" and buf = buf and n = n, folded s'_def]
  show ?thesis
    by (rule promise_invI [OF tr(1) v rel _ tasks(2)]) (use tasks(1) tw in \<open>auto simp: wk\<close>)
qed

lemma take_keeps:
  fixes s :: "'a queue_state_scheme" and buf :: bytes and i n
  assumes pre: "sched_inv s" "unblocked s" "queue_valid i s"
    "pool_ok (g_freeQueueList s ()) (queue_used s) (LOSCFG_BASE_IPC_QUEUE_LIMIT (cfg s))"
    "\<And>j. queue_cb_ok s j" "ring_holds (g_allQueue s i) (m # q)"
    "unat (readWriteableCnt (g_allQueue s i) OS_QUEUE_READ) + card R = length q"
    "unat (readWriteableCnt (g_allQueue s i) OS_QUEUE_WRITE) + card W + Suc (length q) = unat (queueLen (g_allQueue s i))"
    and size: "unat (queueSize (g_allQueue s i)) \<le> unat n + 4" "n \<noteq> 0" "n \<le> SECUREC_MEM_MAX_LEN"
    and tasks: "finite R" "finite W" "\<And>t. t \<in> R \<union> W \<Longrightarrow> awake s t" "\<And>t. t \<in> waits i s \<Longrightarrow> t \<notin> R \<union> W"
    "\<And>t. t \<in> waits i s \<Longrightarrow> \<not> has (status s t) OS_TASK_STATUS_TIMEOUT"
  defines "res \<equiv> queue_transfer i 0 buf n s"
  shows "promise_inv i (snd (snd res), q, R, W \<union> woken (QueueWriteWait i) s (snd (snd res)))"
    "fst res = (\<lambda>j. if j < length m then m ! j else buf j)" "fst (snd res) = of_nat (length m)"
proof -
  let ?s = "snd (snd res)"
  note tr = transfer_next [OF pre read_fits [OF pre(6) size], of buf, folded res_def]
  note tw = transfer_waits [OF pre(1) tasks(3,5), where T = "R \<union> W" and i = i and ty = 0 and buf = buf and n = n, folded res_def, simplified]
  have wk: "woken (QueueWriteWait i) s ?s = set (take 1 (pend s (QueueWriteWait i)))"
    using transfer_tasks(4) [OF pre(1), where i = i and ty = 0 and buf = buf and n = n] by (simp add: res_def)
  have "set (pend s (QueueWriteWait i)) \<inter> W = {}" using tasks(4) by (auto simp: waits_def)
  then have "card (W \<union> woken (QueueWriteWait i) s ?s) = (if pend s (QueueWriteWait i) = [] then card W else Suc (card W))"
    using card_first [OF tasks(2)] by (simp add: wk)
  then have rel: "queue_rel i ?s q (card R) (card (W \<union> woken (QueueWriteWait i) s ?s))"
    using tr(3) by (simp only:)
  note v = transfer_keeps(1) [OF pre(1-5), where ty = 0 and buf = buf and n = n, folded res_def]
  show "promise_inv i (?s, q, R, W \<union> woken (QueueWriteWait i) s ?s)"
    by (rule promise_invI [OF tr(1) v rel tasks(1)]) (use tasks(2) tw in \<open>auto simp: wk\<close>)
  show "fst res = (\<lambda>j. if j < length m then m ! j else buf j)" "fst (snd res) = of_nat (length m)"
    using tr(4,5) by simp_all
qed

lemma unit_tasks [simp]:
  "awake (take_unit i rw s) t = awake s t" "waits j (take_unit i rw s) = waits j s"
  "woken h (take_unit i rw s) s' = woken h s s'" "unblocked (take_unit i rw s) = unblocked s"
  "status (take_unit i rw s) t = status s t"
  "queueSize (g_allQueue (take_unit i rw s) i) = queueSize (g_allQueue s i)"
  "queueLen (g_allQueue (take_unit i rw s) i) = queueLen (g_allQueue s i)"
  by (simp_all add: take_unit_def awake_def waits_def woken_def)

text \<open>A task that blocks goes to the end of the list and wakes nobody.\<close>

lemma block_keeps:
  fixes s :: "'a queue_state_scheme" and timeOut :: UINT32
  assumes "promise_inv i (s, q, R, W)" "rw = OS_QUEUE_READ \<or> rw = OS_QUEUE_WRITE"
    "readWriteableCnt (g_allQueue s i) rw = 0" "unblocked s" "can_block (R \<union> W) s"
  defines "s' \<equiv> LOS_Schedule (OsSchedTaskWait (readWriteList i rw) timeOut s)"
  shows "promise_inv i (s', q, R, W)" "woken h s s' = {}" "g_allQueue s' i = g_allQueue s i"
proof -
  note p = promise_invD [OF assms(1)]
  have idle: "runTask s \<noteq> g_idleTaskID s" using assms(5) by (simp add: can_block_def)
  note w = wait_inv [OF p(1,2) assms(2,3,4) idle, of timeOut, folded s'_def]
  show g: "g_allQueue s' i = g_allQueue s i" by (simp add: s'_def)
  have st: "has (status s' t) OS_TASK_STATUS_TIMEOUT = has (status s t) OS_TASK_STATUS_TIMEOUT"
    "t \<noteq> runTask s \<Longrightarrow> awake s' t = awake s t" for t
    by (auto simp: s'_def Wait_sel awake_def)
  have v: "queue_valid i s'" "queue_rel i s' q (card R) (card W)"
    using p(2,3) w(3) by (simp_all add: queue_valid_def queue_used_def s'_def)
  have "waits i s' \<subseteq> insert (runTask s) (waits i s)" by (auto simp: waits_def w(2) split: if_splits)
  then show "promise_inv i (s', q, R, W)"
    using assms(5) p(6,7) st(2)
    by (intro promise_invI [OF w(1) v p(4,5)]; unfold st(1) can_block_def; metis UnE subset_insert_iff insertE subsetD)
  show "woken h s s' = {}" by (auto simp: woken_def w(2))
qed

lemma write_waits_eq:
  assumes "queue_valid i s" "queue_rel i s q r w"
    "n \<noteq> 0" "unat n + 4 \<le> unat (queueSize (g_allQueue s i))" "timeOut = LOS_NO_WAIT \<or> \<not> OS_INT_ACTIVE s"
    "readWriteableCnt (g_allQueue s i) OS_QUEUE_WRITE = 0"
  shows "write_service toHead i (Some buf) n timeOut s =
    (if timeOut = LOS_NO_WAIT then (Ret LOS_ERRNO_QUEUE_ISFULL, s)
     else if g_losTaskLock s \<noteq> 0 then (Ret LOS_ERRNO_QUEUE_PEND_IN_LOCK, s)
     else (Blocked, LOS_Schedule (OsSchedTaskWait (readWriteList i OS_QUEUE_WRITE) timeOut s)))"
proof -
  have "OsQueueOperateParamCheck (g_allQueue s i) (write_type toHead) n = LOS_OK"
    using assms(2,4) ringD(1) by (intro operate_check [OF assms(1)]) (auto simp: queue_rel_def Let_def)
  then show ?thesis
    using assms(6) by (simp add: write_service_eq [OF assms(1,3,5)] OsQueueOperate_def)
qed

lemma read_waits_eq:
  assumes "queue_valid i s" "queue_rel i s q r w"
    "n \<noteq> 0" "unat (queueSize (g_allQueue s i)) \<le> unat n + 4" "timeOut = LOS_NO_WAIT \<or> \<not> OS_INT_ACTIVE s"
    "readWriteableCnt (g_allQueue s i) OS_QUEUE_READ = 0"
  shows "LOS_QueueReadCopy i (Some buf) (Some n) timeOut s =
    (if timeOut = LOS_NO_WAIT then (Ret LOS_ERRNO_QUEUE_ISEMPTY, Some buf, Some n, s)
     else if g_losTaskLock s \<noteq> 0 then (Ret LOS_ERRNO_QUEUE_PEND_IN_LOCK, Some buf, Some n, s)
     else (Blocked, Some buf, Some n, LOS_Schedule (OsSchedTaskWait (readWriteList i OS_QUEUE_READ) timeOut s)))"
proof -
  have "OsQueueOperateParamCheck (g_allQueue s i) 0 n = LOS_OK"
    using assms(2,4) ringD(1) by (intro operate_check [OF assms(1)]) (auto simp: queue_rel_def Let_def)
  then show ?thesis
    using assms(6) by (simp add: read_service_eq [OF assms(1,3,5)] OsQueueOperate_def)
qed

text \<open>The calls keep the promise, and so do the tasks that have been woken when they go on.\<close>

definition keeps_promise ::
  "nat \<Rightarrow> 'a queue_state_scheme \<Rightarrow> 'a queue_state_scheme \<times> UINT8 list list \<times> nat set \<times> nat set \<Rightarrow> bool" where
  "keeps_promise i s x \<longleftrightarrow> promise_inv i x \<and> queueSize (g_allQueue (fst x) i) = queueSize (g_allQueue s i) \<and>
    queueLen (g_allQueue (fst x) i) = queueLen (g_allQueue s i)"

lemma write_keeps:
  fixes s :: "'a queue_state_scheme" and i n q timeOut
  assumes "promise_inv i (s, q, R, W)" "unblocked s" "n \<noteq> 0" "unat n + 4 \<le> unat (queueSize (g_allQueue s i))"
    "timeOut = LOS_NO_WAIT \<or> \<not> OS_INT_ACTIVE s \<and>
      (readWriteableCnt (g_allQueue s i) OS_QUEUE_WRITE = 0 \<longrightarrow> can_block (R \<union> W) s)" "write_service toHead i (Some buf) n timeOut s = (ret, s')"
  shows "keeps_promise i s (s', if ret = Ret LOS_OK then queue_put toHead (message buf n) q else q,
      R \<union> woken (QueueReadWait i) s s', W)"
proof (cases "readWriteableCnt (g_allQueue s i) OS_QUEUE_WRITE = 0")
  case True
  note p = promise_invD [OF assms(1)]
  have "timeOut = LOS_NO_WAIT \<or> \<not> OS_INT_ACTIVE s" using assms(5) by blast
  note eq = write_waits_eq [OF p(2,3) assms(3,4) this True, of toHead buf, unfolded assms(6)]
  show ?thesis
    using eq block_keeps [OF assms(1) _ True assms(2), where timeOut = timeOut] assms(1,5) True
    by (auto simp: keeps_promise_def split: if_splits)
next
  case False
  note p = promise_invD [OF assms(1)]
  note rel = p(3) [unfolded queue_rel_def Let_def]
  have "timeOut = LOS_NO_WAIT \<or> \<not> OS_INT_ACTIVE s" using assms(5) by blast
  note eq = write_now_eq [OF p(2,3) assms(3,4) this False, of toHead buf, unfolded assms(6)]
  let ?q = "take_unit i OS_QUEUE_WRITE s"
  note t = take_unit_inv [OF p(1,2) _ False, simplified]
  have cnt: "ring_holds (g_allQueue ?q i) q" "unat (readWriteableCnt (g_allQueue ?q i) OS_QUEUE_READ) + card R = length q"
    "unat (readWriteableCnt (g_allQueue ?q i) OS_QUEUE_WRITE) + card W + Suc (length q) = unat (queueLen (g_allQueue ?q i))"
    using t(5) rel by (simp_all add: take_unit_def)
  have "promise_inv i (s', queue_put toHead (message buf n) q, R \<union> woken (QueueReadWait i) ?q s', W)"
    using eq put_keeps [OF t(1) _ t(2,4,3) cnt, where n = n and toHead = toHead and buf = buf] p(4-8) assms(2,4) by auto
  then show ?thesis
    using eq transfer_keeps [OF t(1) _ t(2,4,3)] assms(2) by (simp add: keeps_promise_def)
qed

lemma read_keeps:
  fixes s :: "'a queue_state_scheme" and i n q timeOut
  assumes "promise_inv i (s, q, R, W)" "unblocked s" "n \<noteq> 0" "unat (queueSize (g_allQueue s i)) \<le> unat n + 4"
    "n \<le> SECUREC_MEM_MAX_LEN" "timeOut = LOS_NO_WAIT \<or> \<not> OS_INT_ACTIVE s \<and>
      (readWriteableCnt (g_allQueue s i) OS_QUEUE_READ = 0 \<longrightarrow> can_block (R \<union> W) s)"
    "LOS_QueueReadCopy i (Some buf) (Some n) timeOut s = (ret, b, m, s')"
  shows "keeps_promise i s (s', if ret = Ret LOS_OK then tl q else q, R, W \<union> woken (QueueWriteWait i) s s')"
proof (cases "readWriteableCnt (g_allQueue s i) OS_QUEUE_READ = 0")
  case True
  note p = promise_invD [OF assms(1)]
  have "timeOut = LOS_NO_WAIT \<or> \<not> OS_INT_ACTIVE s" using assms(6) by blast
  note eq = read_waits_eq [OF p(2,3) assms(3,4) this True, of buf, unfolded assms(7)]
  show ?thesis
    using eq block_keeps [OF assms(1) _ True assms(2), where timeOut = timeOut] assms(1,6) True
    by (auto simp: keeps_promise_def split: if_splits)
next
  case False
  note p = promise_invD [OF assms(1)]
  have "timeOut = LOS_NO_WAIT \<or> \<not> OS_INT_ACTIVE s" using assms(6) by blast
  note eq = read_now_eq [OF p(2,3) assms(3,4) this False, of buf, unfolded assms(7)]
  let ?q = "take_unit i OS_QUEUE_READ s"
  note t = take_unit_inv [OF p(1,2) _ False, simplified]
  obtain x q' where q: "q = x # q'" and cnt: "ring_holds (g_allQueue ?q i) (x # q')"
    "unat (readWriteableCnt (g_allQueue ?q i) OS_QUEUE_READ) + card R = length q'"
    "unat (readWriteableCnt (g_allQueue ?q i) OS_QUEUE_WRITE) + card W + Suc (length q') = unat (queueLen (g_allQueue ?q i))"
    by (rule read_ready [OF p(1) assms(2) p(2,3) False])
  have "promise_inv i (s', q', R, W \<union> woken (QueueWriteWait i) ?q s')"
    using eq take_keeps(1) [OF t(1) _ t(2,4,3) cnt, where n = n and buf = buf] p(4-8) assms(2-5)
    by (auto simp: Let_def case_prod_beta)
  then show ?thesis
    using eq transfer_keeps [OF t(1) _ t(2,4,3)] assms(2)
    by (auto simp: keeps_promise_def q case_prod_beta)
qed

lemma reader_keeps:
  fixes s :: "'a queue_state_scheme" and i n q
  assumes "promise_inv i (s, q, R, W)" "unblocked s" "t \<in> R" "n \<noteq> 0" "unat (queueSize (g_allQueue s i)) \<le> unat n + 4"
    "n \<le> SECUREC_MEM_MAX_LEN" "OsQueueOperate_resume t i 0 buf n s = (ret, b, m, s')"
  shows "keeps_promise i s (s', if ret = LOS_OK then tl q else q, R - {t}, W \<union> woken (QueueWriteWait i) s s')"
    "ret = LOS_OK" "q \<noteq> []" "b = (\<lambda>j. if j < length (hd q) then hd q ! j else buf j)" "m = of_nat (length (hd q))"
proof -
  note p = promise_invD [OF assms(1)]
  note ok = queue_invD [OF p(1)]
  note pre = ok(1) assms(2) p(2) queue_okD(1) [OF ok(2)] queue_okD(2) [OF ok(2)]
  note rel = p(3) [unfolded queue_rel_def Let_def]
  have card: "card R = Suc (card (R - {t}))" by (rule card.remove [OF p(4) assms(3)])
  then obtain x q' where q: "q = x # q'" using rel by (cases q) auto
  have cnt: "ring_holds (g_allQueue s i) (x # q')"
    "unat (readWriteableCnt (g_allQueue s i) OS_QUEUE_READ) + card (R - {t}) = length q'"
    "unat (readWriteableCnt (g_allQueue s i) OS_QUEUE_WRITE) + card W + Suc (length q') = unat (queueLen (g_allQueue s i))"
    using rel q card by simp_all
  have eq: "(ret, b, m, s') = (LOS_OK, queue_transfer i 0 buf n s)"
    using p(6) [of t] assms(3,7) by (simp add: OsQueueOperate_resume_def awake_def)
  then have r: "ret = LOS_OK" "s' = snd (snd (queue_transfer i 0 buf n s))" by (simp_all add: prod_eq_iff)
  have fin: "finite (R - {t})" and aw: "\<And>u. u \<in> R - {t} \<union> W \<Longrightarrow> awake s u"
    and off: "\<And>u. u \<in> waits i s \<Longrightarrow> u \<notin> R - {t} \<union> W"
    using p(4,6,8) by auto
  note tk = take_keeps [OF pre cnt assms(5,4,6) fin p(5) aw off p(7), of buf]
  show "ret = LOS_OK" "q \<noteq> []" "b = (\<lambda>j. if j < length (hd q) then hd q ! j else buf j)" "m = of_nat (length (hd q))"
    using tk(2,3) eq q by (auto simp: prod_eq_iff)
  show "keeps_promise i s (s', if ret = LOS_OK then tl q else q, R - {t}, W \<union> woken (QueueWriteWait i) s s')"
    using tk(1) transfer_keeps(2,3) [OF pre, where ty = 0 and buf = buf and n = n]
    by (simp add: keeps_promise_def r q)
qed

lemma writer_keeps:
  fixes s :: "'a queue_state_scheme" and i n q toHead
  assumes "promise_inv i (s, q, R, W)" "unblocked s" "t \<in> W" "n \<noteq> 0" "unat n + 4 \<le> unat (queueSize (g_allQueue s i))"
    "OsQueueOperate_resume t i (write_type toHead) buf n s = (ret, b, m, s')"
  shows "keeps_promise i s (s', if ret = LOS_OK then queue_put toHead (message buf n) q else q,
      R \<union> woken (QueueReadWait i) s s', W - {t})" "ret = LOS_OK"
proof -
  note p = promise_invD [OF assms(1)]
  note ok = queue_invD [OF p(1)]
  note pre = ok(1) assms(2) p(2) queue_okD(1) [OF ok(2)] queue_okD(2) [OF ok(2)]
  note rel = p(3) [unfolded queue_rel_def Let_def]
  have "card W = Suc (card (W - {t}))" by (rule card.remove [OF p(5) assms(3)])
  then have cnt: "ring_holds (g_allQueue s i) q" "unat (readWriteableCnt (g_allQueue s i) OS_QUEUE_READ) + card R = length q"
    "unat (readWriteableCnt (g_allQueue s i) OS_QUEUE_WRITE) + card (W - {t}) + Suc (length q) = unat (queueLen (g_allQueue s i))"
    using rel by simp_all
  have eq: "(ret, b, m, s') = (LOS_OK, queue_transfer i (write_type toHead) buf n s)"
    using p(6) [of t] assms(3,6) by (simp add: OsQueueOperate_resume_def awake_def)
  then have r: "ret = LOS_OK" "s' = snd (snd (queue_transfer i (write_type toHead) buf n s))"
    by (simp_all add: prod_eq_iff)
  have fin: "finite (W - {t})" and aw: "\<And>u. u \<in> R \<union> (W - {t}) \<Longrightarrow> awake s u"
    and off: "\<And>u. u \<in> waits i s \<Longrightarrow> u \<notin> R \<union> (W - {t})"
    using p(5,6,8) by auto
  note pk = put_keeps [OF pre cnt assms(5) p(4) fin aw off p(7), of toHead buf]
  show "ret = LOS_OK" by (rule r(1))
  show "keeps_promise i s (s', if ret = LOS_OK then queue_put toHead (message buf n) q else q,
      R \<union> woken (QueueReadWait i) s s', W - {t})"
    using pk transfer_keeps(2,3) [OF pre, where ty = "write_type toHead" and buf = buf and n = n]
    by (simp add: keeps_promise_def r)
qed

section \<open>Steps of the scheduler\<close>

text \<open>A switch sets no flag but \<open>READY\<close> and \<open>RUNNING\<close>.\<close>

lemma switch_sets:
  fixes s :: "'a sched_state_scheme"
  assumes "has (status (HalPendSV s) u) f"
    "f \<in> {OS_TASK_STATUS_PEND, OS_TASK_STATUS_PEND_TIME, OS_TASK_STATUS_DELAY, OS_TASK_STATUS_UNUSED, OS_TASK_STATUS_TIMEOUT}"
  shows "has (status s u) f"
proof -
  let ?s = "s\<lparr>pendSV := False\<rparr>"
  define s2 where "s2 = switch_place (runTask ?s) (switch_account ?s)"
  define new where "new = OsGetTopTask s2"
  define s5 where "s5 = OsSchedTaskDeQueue new (switch_flags (runTask ?s) new (s2\<lparr>newTask := new\<rparr>))"
  obtain start rid endt where
    eq: "OsSchedTaskSwitch ?s = (runTask s \<noteq> new, OsSchedSetNextExpireTime start rid endt s5)"
    using OsSchedTaskSwitch_eq [of ?s] unfolding s2_def new_def s5_def Let_def by auto
  have place: "has (status (switch_place r q) u) f \<Longrightarrow> has (status q u) f" for r and q :: "'a sched_state_scheme"
    using assms(2) by (cases "u = r") (auto simp: switch_place_def EnQueue_sel split: if_splits)
  have "has (status s5 u) f = has (status s2 u) f"
    using assms(2) by (auto simp: s5_def DeQueue_flags)
  with assms(1) have "has (status s2 u) f" by (simp add: HalPendSV_def eq split: if_splits)
  from place [OF this [unfolded s2_def]] show ?thesis by simp
qed

lemma calm_elsewhere:
  fixes s :: "'a queue_state_scheme"
  assumes "queue_inv s" "calm {} s s'" "sched_inv s'" "\<And>t. t \<in> T \<Longrightarrow> awake s t \<Longrightarrow> awake s' t"
    "\<And>t. t \<in> waits i s' \<Longrightarrow> has (status s' t) OS_TASK_STATUS_TIMEOUT \<Longrightarrow> has (status s t) OS_TASK_STATUS_TIMEOUT"
  shows "elsewhere i T s s'"
  using queue_ok_calm [OF queue_invD(2) [OF assms(1)] assms(2)] assms(3-5) calmD [OF assms(2)]
    queue_more(1) [OF calmD(2) [OF assms(2)]]
  by (simp add: elsewhere_def queue_inv_def)

lemma switch_elsewhere:
  fixes s :: "'a queue_state_scheme"
  assumes "queue_inv s" "g_idleTaskID s < g_taskMaxNum s" "no_overflow s"
  shows "elsewhere i T s (HalPendSV s)"
proof (rule calm_elsewhere [OF assms(1)])
  show "calm {} s (HalPendSV s)" by (intro calm_intros calm_refl)
  show "sched_inv (HalPendSV s)"
    using HalPendSV_switched [OF queue_invD(1) [OF assms(1)] assms(2,3)] by (simp add: switched_def)
  show "awake s t \<Longrightarrow> awake (HalPendSV s) t" for t
    using switch_sets [of s t] by (auto simp: awake_def)
  show "has (status (HalPendSV s) t) OS_TASK_STATUS_TIMEOUT \<Longrightarrow> has (status s t) OS_TASK_STATUS_TIMEOUT" for t
    using switch_sets [of s t] by simp
qed

text \<open>A task that runs into a timeout was waiting or delayed, and waits no longer.\<close>

lemma timeouts_elsewhere:
  fixes s :: "'a queue_state_scheme"
  assumes "queue_inv s" shows "elsewhere i T s (snd (OsSchedScanTimerList s))"
proof (cases "sortLink (g_taskSortLink s) = []")
  case True
  then have "snd (OsSchedScanTimerList s) = s"
    by (simp add: OsSchedScanTimerList_def OsGetSortLinkAttribute_def LOS_ListEmpty_def)
  then show ?thesis using assms by (simp add: elsewhere_def)
next
  case False
  let ?s = "snd (OsSchedScanTimerList s)"
  note inv = queue_invD(1) [OF assms]
  note sp = ScanTimerList_spec [OF inv False, unfolded Let_def]
  have other: "tcb ?s t = tcb s t" if "\<not> timed s t \<or> \<not> woken_by_timeout s ?s t" for t
    using sp that by (auto simp: timed_def split: if_splits)
  show ?thesis
  proof (rule calm_elsewhere [OF assms])
    show "calm {} s ?s" by (intro calm_intros calm_refl)
    show si: "sched_inv ?s" using sp by simp
    show "awake ?s t" if "awake s t" for t
    proof -
      have "\<not> timed s t"
        using timed_lt [OF sched_invD(5) [OF inv], of t] task_okD(5) [OF sched_invD(5) [OF inv], of t] that
        by (auto simp: awake_def)
      then have "tcb ?s t = tcb s t" using other by blast
      then show ?thesis using that by (simp add: awake_def)
    qed
    show "has (status s t) OS_TASK_STATUS_TIMEOUT"
      if "t \<in> waits i ?s" "has (status ?s t) OS_TASK_STATUS_TIMEOUT" for t
    proof -
      have "has (status ?s t) OS_TASK_STATUS_PEND"
        using that(1) waiter(2) [OF si, of "QueueReadWait i" t] waiter(2) [OF si, of "QueueWriteWait i" t]
        by (auto simp: waits_def)
      then have "\<not> woken_by_timeout s ?s t" by (simp add: woken_by_timeout_def)
      then have "tcb ?s t = tcb s t" using other by blast
      then show ?thesis using that(2) by simp
    qed
  qed
qed

text \<open>Services on tasks are steps elsewhere, whatever task they are for.\<close>

abbreviation promise_flags :: "UINT16 set" where
  "promise_flags \<equiv> {OS_TASK_STATUS_PEND, OS_TASK_STATUS_PEND_TIME, OS_TASK_STATUS_DELAY, OS_TASK_STATUS_UNUSED,
    OS_TASK_STATUS_TIMEOUT}"

lemma awake_flags: "awake s t \<longleftrightarrow> (\<forall>f\<in>promise_flags. \<not> has (status s t) f)"
  by (auto simp: awake_def)

lemma suspend_sets: "has (status (snd (LOS_TaskSuspend u s)) t) f \<Longrightarrow> f \<in> promise_flags \<Longrightarrow> has (status s t) f"
  by (auto simp: LOS_TaskSuspend_def Let_def DeQueue_flags split: if_splits)

lemma modify_sets:
  "has (status (snd (OsSchedModifyTaskSchedParam u p s)) t) f \<Longrightarrow> f \<in> promise_flags \<Longrightarrow> has (status s t) f"
  by (cases "t = u") (auto simp: OsSchedModifyTaskSchedParam_def Let_def EnQueue_sel DeQueue_sel split: if_splits)

lemma services_elsewhere:
  fixes s :: "'a queue_state_scheme"
  assumes "queue_inv s"
  shows "elsewhere i T s (snd (LOS_TaskSuspend u s))"
    and "u < g_taskMaxNum s \<Longrightarrow> p < OS_PRIORITY_QUEUE_NUM \<Longrightarrow> elsewhere i T s (snd (OsSchedModifyTaskSchedParam u p s))"
proof -
  note inv = queue_invD(1) [OF assms]
  show "elsewhere i T s (snd (LOS_TaskSuspend u s))"
  proof (rule calm_elsewhere [OF assms])
    show "calm {} s (snd (LOS_TaskSuspend u s))" by (intro calm_intros calm_refl)
    show "sched_inv (snd (LOS_TaskSuspend u s))" by (rule Suspend_inv [OF inv])
  qed (use suspend_sets in \<open>unfold awake_flags, blast+\<close>)
  show "elsewhere i T s (snd (OsSchedModifyTaskSchedParam u p s))" if "u < g_taskMaxNum s" "p < OS_PRIORITY_QUEUE_NUM"
  proof (rule calm_elsewhere [OF assms])
    show "calm {} s (snd (OsSchedModifyTaskSchedParam u p s))" by (intro calm_intros calm_refl)
    show "sched_inv (snd (OsSchedModifyTaskSchedParam u p s))" by (rule sched_inv_Modify [OF inv that])
  qed (use modify_sets in \<open>unfold awake_flags, blast+\<close>)
qed

section \<open>The promise\<close>

lemma step_keeps:
  assumes "queue_step i x y" "promise_inv i x"
  shows "keeps_promise i (fst x) y"
  using assms
proof cases
  case (writes s n timeOut R W toHead buf ret s' q)
  then show ?thesis using write_keeps [OF assms(2) [unfolded writes(1)] writes(3-7)] by (simp only: fst_conv)
next
  case (reads s n timeOut R W buf ret b m s' q)
  then show ?thesis using read_keeps [OF assms(2) [unfolded reads(1)] reads(3-8)] by (simp only: fst_conv)
next
  case (reader_resumes s t R n buf ret b m s' q W)
  then show ?thesis using reader_keeps(1) [OF assms(2) [unfolded reader_resumes(1)] reader_resumes(3-8)] by (simp only: fst_conv)
next
  case (writer_resumes s t W n toHead buf ret b m s' q R)
  then show ?thesis using writer_keeps(1) [OF assms(2) [unfolded writer_resumes(1)] writer_resumes(3-7)] by (simp only: fst_conv)
next
  case (timed_out t R W s ty buf n ret b m s' q)
  note p = promise_invD [OF assms(2) [unfolded timed_out(1)]]
  have "s' = status_clear t OS_TASK_STATUS_TIMEOUT s"
    using timed_out(5,6) by (simp add: OsQueueOperate_resume_def)
  moreover have "elsewhere i (R \<union> W) s (status_clear t OS_TASK_STATUS_TIMEOUT s)"
  proof (rule calm_elsewhere [OF p(1)])
    show "calm {} s (status_clear t OS_TASK_STATUS_TIMEOUT s)" by (intro calm_intros calm_refl)
    show "sched_inv (status_clear t OS_TASK_STATUS_TIMEOUT s)" by (rule timeout_clear_inv [OF queue_invD(1) [OF p(1)]])
  qed (auto simp: awake_def split: if_splits)
  ultimately show ?thesis
    using elsewhere_promise assms(2) by (simp add: timed_out(1,2) keeps_promise_def)
next
  case (switch s q R W)
  note p = promise_invD [OF assms(2) [unfolded switch(1)]]
  show ?thesis
    using elsewhere_promise [OF assms(2) [unfolded switch(1)] switch_elsewhere [OF p(1) switch(3,4)]]
    by (simp add: switch(1,2) keeps_promise_def)
next
  case (timeouts s q R W)
  note p = promise_invD [OF assms(2) [unfolded timeouts(1)]]
  show ?thesis
    using elsewhere_promise [OF assms(2) [unfolded timeouts(1)] timeouts_elsewhere [OF p(1)]]
    by (simp add: timeouts(1,2) keeps_promise_def)
next
  case (other R W s s' q)
  show ?thesis
    using elsewhere_promise [OF assms(2) [unfolded other(1)] other(3)] by (simp add: other(1,2) keeps_promise_def)
qed

lemma two_steps: "queue_step i x y \<Longrightarrow> queue_step i y z \<Longrightarrow> rtranclp (queue_step i) x z"
  by (blast intro: converse_rtranclp_into_rtranclp)

lemma run_keeps:
  assumes "rtranclp (queue_step i) x y" "promise_inv i x"
  shows "keeps_promise i (fst x) y"
  using assms
proof (induction rule: rtranclp_induct)
  case base
  then show ?case by (simp add: keeps_promise_def)
next
  case (step y z)
  then show ?case using step_keeps [OF step(2)] by (simp add: keeps_promise_def)
qed

text \<open>
  C27: The promise to a woken task is kept whatever happens in between. Whenever tasks and interrupts have
  written to and read from the queue, blocked on it, timed out, been switched, and gone on after their waits,
  in any order, the messages that are stored are enough for the woken readers and the slots that are free for
  the woken writers, and also a reader that comes first cannot take them: a reader that has been woken and goes
  on returns with the message that is then the oldest, and a writer that has been woken puts its message in.
\<close>

theorem queue_promise_kept:
  fixes s0 s :: "'a queue_state_scheme"
  assumes "promise_inv i (s0, q0, {}, {})" "rtranclp (queue_step i) (s0, q0, {}, {}) (s, q, R, W)" "unblocked s"
    "n \<noteq> 0" "n \<le> SECUREC_MEM_MAX_LEN"
  shows "card R \<le> length q \<and> card W + length q \<le> unat (queueLen (g_allQueue s i)) \<and>
    (\<forall>t\<in>R. unat (queueSize (g_allQueue s0 i)) \<le> unat n + 4 \<longrightarrow>
      (let (ret, b, m, s') = OsQueueOperate_resume t i 0 buf n s in
       ret = LOS_OK \<and> q \<noteq> [] \<and> b = (\<lambda>j. if j < length (hd q) then hd q ! j else buf j) \<and> m = of_nat (length (hd q)) \<and>
       promise_inv i (s', tl q, R - {t}, W \<union> woken (QueueWriteWait i) s s'))) \<and>
    (\<forall>t\<in>W. unat n + 4 \<le> unat (queueSize (g_allQueue s0 i)) \<longrightarrow>
      (let (ret, b, m, s') = OsQueueOperate_resume t i (write_type toHead) buf n s in
       ret = LOS_OK \<and>
       promise_inv i (s', queue_put toHead (message buf n) q, R \<union> woken (QueueReadWait i) s s', W - {t})))"
proof -
  have p: "promise_inv i (s, q, R, W)" and z: "queueSize (g_allQueue s i) = queueSize (g_allQueue s0 i)"
    using run_keeps [OF assms(2,1)] by (simp_all add: keeps_promise_def)
  have "card R \<le> length q" "card W + length q \<le> unat (queueLen (g_allQueue s i))"
    using promise_invD(3) [OF p] by (auto simp: queue_rel_def Let_def)
  moreover have "let (ret, b, m, s') = OsQueueOperate_resume t i 0 buf n s in
      ret = LOS_OK \<and> q \<noteq> [] \<and> b = (\<lambda>j. if j < length (hd q) then hd q ! j else buf j) \<and> m = of_nat (length (hd q)) \<and>
      promise_inv i (s', tl q, R - {t}, W \<union> woken (QueueWriteWait i) s s')"
    if "t \<in> R" "unat (queueSize (g_allQueue s0 i)) \<le> unat n + 4" for t
  proof -
    obtain ret b m s' where r: "OsQueueOperate_resume t i 0 buf n s = (ret, b, m, s')" by (metis prod_cases4)
    note k = reader_keeps [OF p assms(3) that(1) assms(4) _ assms(5) r, unfolded z, OF that(2)]
    show ?thesis using k(1) unfolding r Let_def prod.case k(2) by (simp add: keeps_promise_def k(3-5))
  qed
  moreover have "let (ret, b, m, s') = OsQueueOperate_resume t i (write_type toHead) buf n s in
      ret = LOS_OK \<and> promise_inv i (s', queue_put toHead (message buf n) q, R \<union> woken (QueueReadWait i) s s', W - {t})"
    if "t \<in> W" "unat n + 4 \<le> unat (queueSize (g_allQueue s0 i))" for t
  proof -
    obtain ret b m s' where r: "OsQueueOperate_resume t i (write_type toHead) buf n s = (ret, b, m, s')"
      by (metis prod_cases4)
    note k = writer_keeps [OF p assms(3) that(1) assms(4) _ r, unfolded z, OF that(2)]
    show ?thesis using k(1) unfolding r Let_def prod.case k(2) by (simp add: keeps_promise_def)
  qed
  ultimately show ?thesis by blast
qed

lemma write_unblocked:
  fixes s :: "'a queue_state_scheme"
  assumes "promise_inv i (s, q, R, W)" "unblocked s" "n \<noteq> 0" "unat n + 4 \<le> unat (queueSize (g_allQueue s i))"
  shows "unblocked (snd (write_service toHead i (Some buf) n LOS_NO_WAIT s))"
proof (cases "readWriteableCnt (g_allQueue s i) OS_QUEUE_WRITE = 0")
  case True
  note p = promise_invD [OF assms(1)]
  show ?thesis using write_waits_eq [OF p(2,3) assms(3,4) _ True, of LOS_NO_WAIT] assms(2) by simp
next
  case False
  note p = promise_invD [OF assms(1)]
  let ?q = "take_unit i OS_QUEUE_WRITE s"
  obtain c' buf' n' where op: "OsQueueBufferOperate (write_type toHead) (g_allQueue ?q i) buf n = (c', buf', n')"
    by (metis prod_cases3)
  show ?thesis
    using write_now_eq [OF p(2,3) assms(3,4) _ False, of LOS_NO_WAIT]
      unblocked_transfer [OF take_unit_inv(1) [OF p(1,2) _ False] _ op] assms(2) by simp
qed

text \<open>
  Task 3 waits to read queue 1. Task 1 writes a message, which wakes task 3, and then tries to read
  itself; it gets nothing, and task 3 gets the message.
\<close>

theorem queue_promise_kept_witness:
  "let s1 = snd (LOS_QueueWriteCopy 1 (Some (\<lambda>_. 9)) 2 LOS_NO_WAIT (queue_demo ()));
       s2 = snd (snd (snd (LOS_QueueReadCopy 1 (Some (\<lambda>_. 0)) (Some 4) LOS_NO_WAIT s1)));
       (ret, b, m, s3) = OsQueueOperate_resume 3 1 0 (\<lambda>_. 0) 4 s2
   in fst (LOS_QueueReadCopy 1 (Some (\<lambda>_. 0)) (Some 4) LOS_NO_WAIT s1) = Ret LOS_ERRNO_QUEUE_ISEMPTY \<and>
     ret = LOS_OK \<and> m = 2 \<and> map b [0, 1, 2] = [9, 9, 0]"
proof -
  let ?s = "queue_demo ()"
  have lit: "message (\<lambda>_. 9) 2 = [9, 9]" by (simp add: message_def upt_rec)
  have p: "promise_inv 1 (?s, [], {}, {})"
    using queue_demo_ok queue_demo_valid(2) [of "QueueReadWait 1" "()"] queue_demo_rel(2) [of "QueueReadWait 1" "()"]
    by (auto simp: promise_inv_def waits_def queue_demo_at_def demo_at_def demo_tasks)
  obtain r1 s1 where w: "write_service False 1 (Some (\<lambda>_. 9)) 2 LOS_NO_WAIT ?s = (r1, s1)" by fastforce
  have o: "r1 = Ret LOS_OK" "pend s1 (QueueReadWait 1) = []" "queue_inv s1" "queue_rel 1 s1 [[9, 9]] 1 0"
    using write_outcome [OF queue_demo_ok queue_demo_unblocked queue_demo_valid(2) queue_demo_rel(2),
        of 2 LOS_NO_WAIT False "\<lambda>_. 9"] w
    by (simp_all add: Let_def lit queue_put_def wakes_first_def)
  have s1: "queue_step 1 (?s, [], {}, {}) (s1, [[9, 9]], {3}, {})"
    using queue_step.writes [OF queue_demo_unblocked _ _ _ w, of "{}" "{}" "[]"] o
    by (simp add: lit queue_put_def woken_def)
  have p1: "promise_inv 1 (s1, [[9, 9]], {3}, {})"
    using step_keeps [OF s1 p] by (simp add: keeps_promise_def)
  note d1 = promise_invD [OF p1]
  have ub: "unblocked s1"
    using write_unblocked [OF p queue_demo_unblocked, of 2 False "\<lambda>_. 9"] w by simp
  have z: "queueSize (g_allQueue s1 1) = 8" using step_keeps [OF s1 p] by (simp add: keeps_promise_def)
  have "readWriteableCnt (g_allQueue s1 1) OS_QUEUE_READ = 0"
    using o(4) by (simp add: queue_rel_def Let_def unat_eq_0)
  then have e: "LOS_QueueReadCopy 1 (Some (\<lambda>_. 0)) (Some 4) LOS_NO_WAIT s1 = (Ret LOS_ERRNO_QUEUE_ISEMPTY, Some (\<lambda>_. 0), Some 4, s1)"
    using read_waits_eq [OF d1(2,3), of 4 LOS_NO_WAIT] z by simp
  have s2: "queue_step 1 (s1, [[9, 9]], {3}, {}) (s1, [[9, 9]], {3}, {})"
    using queue_step.reads [OF ub _ _ _ _ e, of "{3}" "{}" "[[9, 9]]"] z
    by (simp add: SECUREC_MEM_MAX_LEN_def)
  have "rtranclp (queue_step 1) (?s, [], {}, {}) (s1, [[9, 9]], {3}, {})"
    by (rule two_steps [OF s1 s2])
  from queue_promise_kept [OF p this ub, of 4 "\<lambda>_. 0"] e w show ?thesis
    by (auto simp: Let_def write_service_def SECUREC_MEM_MAX_LEN_def case_prod_beta)
qed

end
