(* ===== verification/Sem_Props.thy ===== *)
theory Sem_Props
  imports Sem_Inv
begin

text \<open>
  What the semaphore services promise, over the model of \<open>los_sem.c\<close>.
\<close>

text \<open>
  Semaphore 0 is empty and task 3 waits for it; semaphore 1 has two tokens; the others are unused.
\<close>

definition sem_demo :: "'a \<Rightarrow> 'a sem_state_scheme" where
  "sem_demo m = demo (sem_state_ext
    ((\<lambda>i. \<lparr>semStat = OS_SEM_UNUSED, semCount = 0, maxSemCount = 0, semID = i\<rparr>)
      (0 := \<lparr>semStat = OS_SEM_USED, semCount = 0, maxSemCount = 0xFFFF, semID = 0\<rparr>,
       1 := \<lparr>semStat = OS_SEM_USED, semCount = 2, maxSemCount = 0xFFFF, semID = 1\<rparr>))
    (\<lambda>_. [2, 3, 4, 5]) m)"

lemma sem_demo_sel [simp]:
  "g_unusedSemList (sem_demo m) () = [2, 3, 4, 5]"
  "g_allSem (sem_demo m) 0 = \<lparr>semStat = OS_SEM_USED, semCount = 0, maxSemCount = 0xFFFF, semID = 0\<rparr>"
  "g_allSem (sem_demo m) (Suc 0) = \<lparr>semStat = OS_SEM_USED, semCount = 2, maxSemCount = 0xFFFF, semID = 1\<rparr>"
  "1 < i \<Longrightarrow> g_allSem (sem_demo m) i = \<lparr>semStat = OS_SEM_UNUSED, semCount = 0, maxSemCount = 0, semID = i\<rparr>"
  by (simp_all add: sem_demo_def demo_def)

lemma sem_demo_sched [simp]:
  "cfg (sem_demo m) = default_config" "runTask (sem_demo m) = 1" "g_idleTaskID (sem_demo m) = 0"
  "g_losTaskLock (sem_demo m) = 0" "\<not> OS_INT_ACTIVE (sem_demo m)" "g_taskMaxNum (sem_demo m) = 6"
  "pend (sem_demo m) = (\<lambda>_. [])(PriQ 10 := [2], FreeTask := [4, 5], SemWait 0 := [3])"
  "unblocked (sem_demo m)"
  by (simp_all add: sem_demo_def demo_unblocked)

lemma sem_demo_used: "sem_used (sem_demo m) i \<longleftrightarrow> i = 0 \<or> i = 1"
  by (cases "1 < i") (auto simp: sem_used_def OS_SEM_USED_def OS_SEM_UNUSED_def numeral_2_eq_2 less_Suc_eq)

lemma sem_demo_inv: "sem_inv (sem_demo m)"
proof -
  have "sched_inv (sem_demo m)" by (simp add: sem_demo_def demo_inv)
  moreover have "sem_ok (sem_demo m)"
    unfolding sem_ok_def
  proof (intro conjI allI impI)
    show "pool_ok (g_unusedSemList (sem_demo m) ()) (sem_used (sem_demo m))
        (LOSCFG_BASE_IPC_SEM_LIMIT (cfg (sem_demo m)))"
      by (auto simp: pool_ok_def sem_demo_used default_config_def)
    fix i
    show "sem_used (sem_demo m) i \<or> semStat (g_allSem (sem_demo m) i) = OS_SEM_UNUSED"
      by (cases "1 < i") (auto simp: sem_demo_used)
    show "semID (g_allSem (sem_demo m) i) = i"
      by (cases "1 < i") (auto simp: not_less le_Suc_eq)
    show "semCount (g_allSem (sem_demo m) i) \<le> maxSemCount (g_allSem (sem_demo m) i)"
      if "sem_used (sem_demo m) i"
      using that by (auto simp: sem_demo_used)
    assume "pend (sem_demo m) (SemWait i) \<noteq> []"
    then have "i = 0" by (auto split: if_splits)
    then show "i < LOSCFG_BASE_IPC_SEM_LIMIT (cfg (sem_demo m))" "sem_used (sem_demo m) i"
      "semCount (g_allSem (sem_demo m) i) = 0"
      by (simp_all add: default_config_def sem_demo_used)
  qed
  ultimately show ?thesis by (simp add: sem_inv_def)
qed

lemma sem_demo_valid: "sem_valid 0 (sem_demo m)" "sem_valid 1 (sem_demo m)"
  by (simp_all add: sem_valid_def sem_demo_used) (simp_all add: default_config_def)

lemma sem_P_if: "sem_P t (c, ws) = (if 0 < c then (True, c - 1, ws) else (False, 0, ws @ [t]))"
  by (cases c) simp_all

text \<open>
  C20: \<open>LOS_SemPend\<close> is the P operation of a counting semaphore: with a token it takes it and
  returns, without one the running task joins the end of the queue of the semaphore and blocks;
  the other semaphores are left alone and the invariant is kept.
\<close>

theorem sem_pend_refines:
  assumes "sem_inv s" "sem_valid h s" "\<not> OS_INT_ACTIVE s" "g_losTaskLock s = 0"
    "timeout \<noteq> LOS_NO_WAIT" "unblocked s" "runTask s \<noteq> g_idleTaskID s"
  shows "fst (LOS_SemPend h timeout s) =
      (if fst (sem_P (runTask s) (abs_sem h s)) then Ret LOS_OK else Blocked) \<and>
    abs_sem h (snd (LOS_SemPend h timeout s)) = snd (sem_P (runTask s) (abs_sem h s)) \<and>
    (\<forall>i. i \<noteq> h \<longrightarrow> abs_sem i (snd (LOS_SemPend h timeout s)) = abs_sem i s) \<and>
    sem_inv (snd (LOS_SemPend h timeout s))"
proof (cases "0 < semCount (g_allSem s h)")
  case True
  note p = SemPend_count [OF assms(1-4) True]
  have "abs_sem h s = (Suc (unat (semCount (g_allSem s h) - 1)), pend s (SemWait h))"
    using unat_dec [OF True] by (simp add: abs_sem_def)
  then show ?thesis by (simp add: p) (simp add: abs_sem_def)
next
  case False
  then have zero: "semCount (g_allSem s h) = 0" by (simp add: word_gt_0)
  note p = SemPend_block [OF assms(1-4) zero assms(5-7)]
  show ?thesis
    using zero p(2) by (simp add: p(1) abs_sem_def pend_Wait)
qed

theorem sem_pend_refines_witness:
  "fst (LOS_SemPend 1 10 (sem_demo ())) = Ret LOS_OK \<and> fst (LOS_SemPend 0 10 (sem_demo ())) = Blocked"
  using sem_pend_refines [OF sem_demo_inv [of "()"] sem_demo_valid(2), of 10]
    sem_pend_refines [OF sem_demo_inv [of "()"] sem_demo_valid(1), of 10]
  by (simp add: abs_sem_def LOS_NO_WAIT_def sem_P_if)

text \<open>
  C21: \<open>LOS_SemPost\<close> is the V operation: the first waiting task gets the token and is woken, or
  the count goes up by one; at the maximum nothing changes and the call fails.
\<close>

theorem sem_post_refines:
  assumes "sem_inv s" "sem_valid h s" "unblocked s"
  shows "if semCount (g_allSem s h) = maxSemCount (g_allSem s h)
    then LOS_SemPost h s = (LOS_ERRNO_SEM_OVERFLOW, s)
    else fst (LOS_SemPost h s) = LOS_OK \<and>
      abs_sem h (snd (LOS_SemPost h s)) = snd (sem_V (abs_sem h s)) \<and>
      (\<forall>i. i \<noteq> h \<longrightarrow> abs_sem i (snd (LOS_SemPost h s)) = abs_sem i s) \<and>
      (\<forall>t. fst (sem_V (abs_sem h s)) = Some t \<longrightarrow>
        \<not> has (status (snd (LOS_SemPost h s)) t) OS_TASK_STATUS_PEND \<and>
        (has (status s t) OS_TASK_STATUS_SUSPEND \<or>
         has (status (snd (LOS_SemPost h s)) t) OS_TASK_STATUS_READY)) \<and>
      sem_inv (snd (LOS_SemPost h s))"
proof (cases "semCount (g_allSem s h) = maxSemCount (g_allSem s h)")
  case True
  then show ?thesis
    using assms(2) sem_stat [of s h] by (simp add: LOS_SemPost_def sem_valid_def)
next
  case max: False
  show ?thesis
  proof (cases "pend s (SemWait h)")
    case Nil
    note p = SemPost_count [OF assms(1,2) Nil max]
    show ?thesis
      using max p(2) Nil unat_inc [OF p(3)] by (simp add: p(1)) (simp add: abs_sem_def)
  next
    case (Cons t ts)
    note p = SemPost_wake [OF assms(1-3) Cons max]
    let ?s' = "LOS_Schedule (OsSchedTaskWake t (upd_tcb t (taskSem_update (\<lambda>_. None)) s))"
    have "semCount (g_allSem s h) = 0"
      using assms(1) sem_okD(5) [of s h] Cons by (simp add: sem_inv_def)
    moreover have "\<not> has (status ?s' t) OS_TASK_STATUS_PEND \<and>
        (has (status s t) OS_TASK_STATUS_SUSPEND \<or> has (status ?s' t) OS_TASK_STATUS_READY)"
      by (auto simp: Wake_eq Let_def EnQueue_sel)
    ultimately show ?thesis
      using max p(2) Cons by (simp add: p(1)) (simp add: abs_sem_def p(3) [unfolded pend_Schedule])
  qed
qed

theorem sem_post_refines_witness:
  "abs_sem 0 (snd (LOS_SemPost 0 (sem_demo ()))) = (0, []) \<and>
   abs_sem 1 (snd (LOS_SemPost 1 (sem_demo ()))) = (3, [])"
  using sem_post_refines [OF sem_demo_inv [of "()"] sem_demo_valid(1)]
    sem_post_refines [OF sem_demo_inv [of "()"] sem_demo_valid(2)]
  by (simp add: abs_sem_def)

text \<open>
  \<open>LOS_SemCreate\<close> succeeds exactly while fewer semaphores are in use than the configured
  limit, and returns a handle that was not in use; a semaphore that has been deleted is the next to
  be handed out, and cannot be deleted a second time.
\<close>

theorem sem_handles:
  assumes "sem_ok s"
  shows "(fst (LOS_SemCreate count False s) = LOS_OK \<longleftrightarrow>
      card {j. j < LOSCFG_BASE_IPC_SEM_LIMIT (cfg s) \<and> sem_used s j} < LOSCFG_BASE_IPC_SEM_LIMIT (cfg s)) \<and>
    (LOS_SemCreate count False s = (LOS_OK, h, s1) \<longrightarrow>
      h < LOSCFG_BASE_IPC_SEM_LIMIT (cfg s) \<and> \<not> sem_used s h \<and> sem_used s1 = (sem_used s)(h := True) \<and> sem_ok s1) \<and>
    (LOS_SemDelete h s = (LOS_OK, s2) \<longrightarrow>
      sem_used s h \<and> fst (LOS_SemDelete h s2) \<noteq> LOS_OK \<and>
      (\<forall>j s3. LOS_SemCreate count False s2 = (LOS_OK, j, s3) \<longrightarrow> j = h \<and> sem_used s3 = sem_used s))"
proof -
  have "fst (LOS_SemCreate count False s) = LOS_OK \<longleftrightarrow>
      card {j. j < LOSCFG_BASE_IPC_SEM_LIMIT (cfg s) \<and> sem_used s j} < LOSCFG_BASE_IPC_SEM_LIMIT (cfg s)"
    by (rule sem_blocks.create_iff [OF assms])
  moreover have "h < LOSCFG_BASE_IPC_SEM_LIMIT (cfg s) \<and> \<not> sem_used s h \<and> sem_used s1 = (sem_used s)(h := True) \<and> sem_ok s1"
    if "LOS_SemCreate count False s = (LOS_OK, h, s1)"
    using sem_blocks.create_fresh [OF assms that] sem_blocks.create_ok [OF assms that] by simp
  moreover have "sem_used s h \<and> fst (LOS_SemDelete h s2) \<noteq> LOS_OK \<and>
      (\<forall>j s3. LOS_SemCreate count False s2 = (LOS_OK, j, s3) \<longrightarrow> j = h \<and> sem_used s3 = sem_used s)"
    if "LOS_SemDelete h s = (LOS_OK, s2)"
    using sem_blocks.destroy_ok [OF assms that] sem_blocks.destroy_twice [OF assms that]
      sem_blocks.destroy_create [OF assms that] by blast
  ultimately show ?thesis by blast
qed

theorem sem_handles_witness:
  "fst (LOS_SemCreate 5 False (sem_demo ())) = LOS_OK"
proof -
  have ok: "sem_ok (sem_demo ())" using sem_demo_inv [of "()"] by (simp add: sem_inv_def)
  have "{j. j < 6 \<and> sem_used (sem_demo ()) j} = {0, 1}" by (auto simp: sem_demo_used)
  then show ?thesis
    using sem_handles [OF ok, of 5] by (simp add: default_config_def)
qed

text \<open>
  A task that waits for a semaphore with a timeout gets \<open>LOS_OK\<close> when a post woke it and
  \<open>LOS_ERRNO_SEM_TIMEOUT\<close> when the timeout did, in which case it has left the queue and the count
  is as before.
\<close>

theorem sem_wait_result:
  assumes "sem_inv s" "pend s (SemWait h) = t # ts" "\<not> has (status s t) OS_TASK_STATUS_TIMEOUT"
    "unblocked s" "sem_valid h s" "0 < maxSemCount (g_allSem s h)"
    "t \<in> set (sortLink (g_taskSortLink s))" "expiry s t \<le> fst (OsGetCurrSchedTimeCycle s)"
  shows "fst (LOS_SemPend_resume t (snd (LOS_SemPost h s))) = LOS_OK \<and>
    fst (LOS_SemPend_resume t (snd (OsSchedScanTimerList s))) = LOS_ERRNO_SEM_TIMEOUT \<and>
    \<not> has (status (snd (LOS_SemPend_resume t (snd (OsSchedScanTimerList s)))) t) OS_TASK_STATUS_TIMEOUT \<and>
    t \<notin> set (pend (snd (OsSchedScanTimerList s)) (SemWait h)) \<and>
    g_allSem (snd (OsSchedScanTimerList s)) = g_allSem s"
proof -
  let ?q = "snd (OsSchedScanTimerList s)"
  have inv: "sched_inv s" and ok: "sem_ok s" using assms(1) by (simp_all add: sem_inv_def)
  have "semCount (g_allSem s h) = 0" using sem_okD(5) [OF ok, of h] assms(2) by simp
  then have "semCount (g_allSem s h) \<noteq> maxSemCount (g_allSem s h)" using assms(6) by auto
  note post = SemPost_wake(1) [OF assms(1,5,4,2) this]
  have "sortLink (g_taskSortLink s) \<noteq> []" using assms(7) by auto
  note scan = ScanTimerList_spec [OF inv this, unfolded Let_def]
  have t: "t \<in> set (pend s (SemWait h))" by (simp add: assms(2))
  have woken: "woken_by_timeout s ?q t" using scan assms(7,8) by presburger
  have "sched_inv ?q" using scan by blast
  then have off: "t \<notin> set (pend ?q (SemWait h))"
    using waiter(2) [of ?q "SemWait h" t] woken by (auto simp: woken_by_timeout_def)
  have "g_allSem ?q = g_allSem s" by (rule sem_more) simp
  moreover have "has (status ?q t) OS_TASK_STATUS_TIMEOUT"
    using woken waiter(2) [OF inv _ t] by (simp add: woken_by_timeout_def)
  ultimately show ?thesis
    using off assms(3) by (auto simp: LOS_SemPend_resume_def post Wake_eq Let_def EnQueue_sel)
qed

theorem sem_wait_result_witness:
  "let s = (sem_demo ())\<lparr>SysTick_VAL := 0, g_schedTimerBase := 200000\<rparr> in
   fst (LOS_SemPend_resume 3 (snd (LOS_SemPost 0 s))) = LOS_OK \<and>
   fst (LOS_SemPend_resume 3 (snd (OsSchedScanTimerList s))) = LOS_ERRNO_SEM_TIMEOUT"
proof -
  let ?s = "(sem_demo ())\<lparr>SysTick_VAL := 0, g_schedTimerBase := 200000\<rparr>"
  have "sched_inv ?s = sched_inv (sem_demo ())" by (rule sched_inv_frame) simp_all
  moreover have "sem_ok ?s = sem_ok (sem_demo ())" by (rule sem_ok_cong) simp_all
  ultimately have inv: "sem_inv ?s" using sem_demo_inv [of "()"] by (simp add: sem_inv_def)
  have now: "fst (OsGetCurrSchedTimeCycle ?s) = 295999"
    by (simp add: OsGetCurrSchedTimeCycle_def HalGetTickCycle_def sem_demo_def demo_clock)
  have st: "\<not> has (status ?s 3) OS_TASK_STATUS_TIMEOUT" and tm: "3 \<in> set (sortLink (g_taskSortLink ?s))"
    by (simp_all add: sem_demo_def demo_tasks)
  have due: "expiry ?s 3 \<le> fst (OsGetCurrSchedTimeCycle ?s)"
    unfolding now by (simp add: sem_demo_def demo_tasks)
  have "unblocked ?s" using sem_demo_sched(8) [of "()"] by (simp add: unblocked_def)
  moreover have "sem_valid 0 ?s" using sem_demo_valid(1) [of "()"] by (simp add: sem_valid_def sem_used_def)
  ultimately show ?thesis
    using sem_wait_result [OF inv _ st _ _ _ tm due, of 0 "[]"] by (simp add: Let_def)
qed

text \<open>
  A semaphore service that reports an error, or a handle that is not one, leaves the whole
  state as it was.
\<close>

theorem sem_errors_change_nothing:
  "(fst (LOS_SemCreate count np s) \<noteq> LOS_OK \<longrightarrow> snd (snd (LOS_SemCreate count np s)) = s) \<and>
   (fst (LOS_BinarySemCreate count np s) \<noteq> LOS_OK \<longrightarrow> snd (snd (LOS_BinarySemCreate count np s)) = s) \<and>
   (fst (LOS_SemDelete h s) \<noteq> LOS_OK \<longrightarrow> snd (LOS_SemDelete h s) = s) \<and>
   (fst (LOS_SemPost h s) \<noteq> LOS_OK \<longrightarrow> snd (LOS_SemPost h s) = s) \<and>
   (fst (LOS_SemPend h timeout s) \<notin> {Ret LOS_OK, Blocked} \<longrightarrow> snd (LOS_SemPend h timeout s) = s)"
  by (intro conjI impI; simp add: LOS_SemCreate_def LOS_BinarySemCreate_def OsSemCreate_def
      LOS_SemDelete_def LOS_SemPost_def LOS_SemPend_def Let_def split: if_split_asm)

theorem sem_errors_change_nothing_witness:
  "fst (LOS_SemDelete 0 (sem_demo ())) = LOS_ERRNO_SEM_PENDED \<and> snd (LOS_SemDelete 0 (sem_demo ())) = sem_demo ()"
proof -
  have "fst (LOS_SemDelete 0 (sem_demo ())) = LOS_ERRNO_SEM_PENDED"
    by (simp add: LOS_SemDelete_def LOS_ListEmpty_def OS_SEM_USED_def OS_SEM_UNUSED_def)
      (simp add: default_config_def)
  then show ?thesis using sem_errors_change_nothing [of 0 False "sem_demo ()" 0 1] by simp
qed

end
