(* ===== verification/Mux_Props.thy ===== *)
theory Mux_Props
  imports Mux_Inv Sem_Props
begin

text \<open>
  What the mutex services promise, over the model of \<open>los_mux.c\<close>, and two things they do not
  keep: the count of a recursive lock is not protected against overflow, and the priority an owner
  gets back can be an inherited one.
\<close>

text \<open>
  Task 2 holds mutex 0 and the running task 1 holds mutex 1 once and mutex 2 twice; mutex 3 is free,
  the others are unused.
\<close>

definition mux_demo :: "'a \<Rightarrow> 'a mux_state_scheme" where
  "mux_demo m = sem_demo (mux_state_ext
    ((\<lambda>i. \<lparr>muxStat = OS_MUX_UNUSED, muxCount = 0, muxID = i, owner = None, muxPriority = 0\<rparr>)
      (0 := \<lparr>muxStat = OS_MUX_USED, muxCount = 1, muxID = 0, owner = Some 2, muxPriority = 10\<rparr>,
       1 := \<lparr>muxStat = OS_MUX_USED, muxCount = 1, muxID = 1, owner = Some 1, muxPriority = 9\<rparr>,
       2 := \<lparr>muxStat = OS_MUX_USED, muxCount = 2, muxID = 2, owner = Some 1, muxPriority = 5\<rparr>,
       3 := \<lparr>muxStat = OS_MUX_USED, muxCount = 0, muxID = 3, owner = None, muxPriority = 0\<rparr>))
    (\<lambda>_. [4, 5]) m)"

lemma mux_demo_sched [simp]:
  "cfg (mux_demo m) = default_config" "runTask (mux_demo m) = 1" "g_idleTaskID (mux_demo m) = 0"
  "g_losTaskLock (mux_demo m) = 0" "\<not> OS_INT_ACTIVE (mux_demo m)" "g_taskMaxNum (mux_demo m) = 6"
  "pend (mux_demo m) = (\<lambda>_. [])(PriQ 10 := [2], FreeTask := [4, 5], SemWait 0 := [3])"
  "unblocked (mux_demo m)"
  by (simp_all add: mux_demo_def)

lemma mux_demo_tasks [simp]:
  "priority (tcb (mux_demo m) (Suc 0)) = 5" "priority (tcb (mux_demo m) 2) = 10"
  by (simp_all add: mux_demo_def sem_demo_def demo_def)

lemma mux_demo_sel [simp]:
  "g_unusedMuxList (mux_demo m) () = [4, 5]"
  "g_allMux (mux_demo m) 0 = \<lparr>muxStat = OS_MUX_USED, muxCount = 1, muxID = 0, owner = Some 2, muxPriority = 10\<rparr>"
  "g_allMux (mux_demo m) (Suc 0) = \<lparr>muxStat = OS_MUX_USED, muxCount = 1, muxID = 1, owner = Some 1, muxPriority = 9\<rparr>"
  "g_allMux (mux_demo m) 2 = \<lparr>muxStat = OS_MUX_USED, muxCount = 2, muxID = 2, owner = Some 1, muxPriority = 5\<rparr>"
  "g_allMux (mux_demo m) 3 = \<lparr>muxStat = OS_MUX_USED, muxCount = 0, muxID = 3, owner = None, muxPriority = 0\<rparr>"
  "3 < i \<Longrightarrow> g_allMux (mux_demo m) i = \<lparr>muxStat = OS_MUX_UNUSED, muxCount = 0, muxID = i, owner = None, muxPriority = 0\<rparr>"
  by (simp_all add: mux_demo_def sem_demo_def demo_def)

lemma less_4: "\<not> 3 < i \<longleftrightarrow> i = 0 \<or> i = Suc 0 \<or> i = 2 \<or> i = (3::nat)"
  by auto

lemma mux_demo_used: "mux_used (mux_demo m) i \<longleftrightarrow> i < 4" "mux_locked (mux_demo m) i \<longleftrightarrow> i < 3"
proof -
  show u: "mux_used (mux_demo m) i \<longleftrightarrow> i < 4"
    by (cases "3 < i") (auto simp: mux_used_def OS_MUX_USED_def OS_MUX_UNUSED_def less_4)
  show "mux_locked (mux_demo m) i \<longleftrightarrow> i < 3"
    by (cases "3 < i") (auto simp: mux_locked_def u less_4)
qed

lemma mux_demo_inv: "mux_inv (mux_demo m)"
proof -
  have "sched_inv (mux_demo m)" by (simp add: mux_demo_def sem_demo_def demo_inv)
  moreover have "mux_ok (mux_demo m)"
    unfolding mux_ok_def
  proof (intro conjI allI impI)
    show "pool_ok (g_unusedMuxList (mux_demo m) ()) (mux_used (mux_demo m))
        (LOSCFG_BASE_IPC_MUX_LIMIT (cfg (mux_demo m)))"
      by (auto simp: pool_ok_def mux_demo_used default_config_def)
    fix i
    show "mux_used (mux_demo m) i \<or> muxStat (g_allMux (mux_demo m) i) = OS_MUX_UNUSED"
      by (cases "3 < i") (auto simp: mux_demo_used)
    show "muxID (g_allMux (mux_demo m) i) = i"
      by (cases "3 < i") (auto simp: less_4)
    have three: "i = 0 \<or> i = Suc 0 \<or> i = 2" if "mux_locked (mux_demo m) i"
      using that by (auto simp: mux_demo_used)
    show "muxPriority (g_allMux (mux_demo m) i) < OS_PRIORITY_QUEUE_NUM"
      "\<exists>t. owner (g_allMux (mux_demo m) i) = Some t \<and> t < Suc (LOSCFG_BASE_CORE_TSK_LIMIT (cfg (mux_demo m)))"
      if "mux_locked (mux_demo m) i"
      using three [OF that] by (auto simp: OS_PRIORITY_QUEUE_NUM_def default_config_def)
    assume "pend (mux_demo m) (MuxWait i) \<noteq> []"
    then show "i < LOSCFG_BASE_IPC_MUX_LIMIT (cfg (mux_demo m))" "mux_locked (mux_demo m) i"
      by simp_all
  qed
  ultimately show ?thesis by (simp add: mux_inv_def)
qed

lemma mux_demo_valid: "i < 4 \<Longrightarrow> mux_valid i (mux_demo m)"
  by (simp add: mux_valid_def mux_demo_used) (simp add: default_config_def)

section \<open>The abstract mutex\<close>

text \<open>
  An abstract recursive mutex has an owner with the number of its locks, or none, and a queue.
\<close>

type_synonym amux = "(nat \<times> nat) option \<times> nat list"

fun mux_lock :: "nat \<Rightarrow> amux \<Rightarrow> bool \<times> amux" where
  "mux_lock t (None, ws) = (True, Some (t, 1), ws)"
| "mux_lock t (Some (own, n), ws) =
    (if own = t then (True, Some (own, Suc n), ws) else (False, Some (own, n), ws @ [t]))"

fun mux_unlock :: "amux \<Rightarrow> amux" where
  "mux_unlock (None, ws) = (None, ws)"
| "mux_unlock (Some (own, n), ws) =
    (if 1 < n then (Some (own, n - 1), ws)
     else case ws of [] \<Rightarrow> (None, []) | w # ws' \<Rightarrow> (Some (w, 1), ws'))"

definition abs_mux :: "nat \<Rightarrow> 'a mux_state_scheme \<Rightarrow> amux" where
  "abs_mux h s = (if muxCount (g_allMux s h) = 0 then None
      else Some (the (owner (g_allMux s h)), unat (muxCount (g_allMux s h))), pend s (MuxWait h))"

lemma unat_1_iff: "unat (w :: UINT16) = Suc 0 \<longleftrightarrow> w = 1"
  by (metis One_nat_def unat_1 unsigned_word_eqI)

text \<open>
  C22: \<open>LOS_MuxPend\<close> locks an abstract recursive mutex: a free mutex is taken, the owner locks
  it again, any other task joins the queue and blocks, and then the owner runs at least at the
  priority of the task that waits. The other mutexes are left alone.
\<close>

theorem mux_pend_refines:
  assumes "mux_inv s" "mux_valid h s" "\<not> OS_INT_ACTIVE s" "g_losTaskLock s = 0"
    "timeout \<noteq> LOS_NO_WAIT" "unblocked s" "runTask s \<noteq> g_idleTaskID s"
    "muxCount (g_allMux s h) < 0xFFFF"
  shows "fst (LOS_MuxPend h timeout s) =
      (if fst (mux_lock (runTask s) (abs_mux h s)) then Ret LOS_OK else Blocked) \<and>
    abs_mux h (snd (LOS_MuxPend h timeout s)) = snd (mux_lock (runTask s) (abs_mux h s)) \<and>
    (\<forall>i. i \<noteq> h \<longrightarrow> abs_mux i (snd (LOS_MuxPend h timeout s)) = abs_mux i s) \<and>
    (fst (LOS_MuxPend h timeout s) = Blocked \<longrightarrow>
      priority (tcb (snd (LOS_MuxPend h timeout s)) (the (owner (g_allMux s h)))) \<le>
        priority (tcb s (runTask s))) \<and>
    mux_inv (snd (LOS_MuxPend h timeout s))"
proof (cases "muxCount (g_allMux s h) = 0")
  case True
  note p = MuxPend_free [OF assms(1-4,6) True]
  show ?thesis using p(2) True by (simp add: p(1)) (simp add: abs_mux_def)
next
  case locked: False
  then have "mux_locked s h" using assms(2) by (simp add: mux_locked_def mux_valid_def)
  from mux_okD(5) [OF mux_invD(2) [OF assms(1)] this] obtain t where t: "owner (g_allMux s h) = Some t"
    by blast
  show ?thesis
  proof (cases "t = runTask s")
    case True
    then have own: "owner (g_allMux s h) = Some (runTask s)" using t by simp
    note p = MuxPend_again [OF assms(1-4) locked own]
    from unat_inc [OF assms(8)] have "muxCount (g_allMux s h) + 1 \<noteq> 0" by (metis nat.distinct(1) unat_0)
    then show ?thesis
      using p(2) [OF assms(8)] locked own unat_inc [OF assms(8)] by (simp add: p(1)) (simp add: abs_mux_def)
  next
    case False
    note p = MuxPend_block [OF assms(1-4,6,7) locked t False assms(5)]
    show ?thesis
      using p(2,4) locked t False by (simp add: p(1)) (simp add: abs_mux_def p(5) p(3) [unfolded pend_Schedule])
  qed
qed

theorem mux_pend_refines_witness:
  "fst (LOS_MuxPend 0 10 (mux_demo ())) = Blocked \<and>
   priority (tcb (snd (LOS_MuxPend 0 10 (mux_demo ()))) 2) \<le> 5 \<and>
   fst (LOS_MuxPend 2 10 (mux_demo ())) = Ret LOS_OK \<and> abs_mux 2 (snd (LOS_MuxPend 2 10 (mux_demo ()))) = (Some (1, 3), [])"
  using mux_pend_refines [OF mux_demo_inv [of "()"] mux_demo_valid [of 0], of 10]
    mux_pend_refines [OF mux_demo_inv [of "()"] mux_demo_valid [of 2], of 10]
  by (simp add: abs_mux_def LOS_NO_WAIT_def)

text \<open>
  C23: \<open>LOS_MuxPost\<close> unlocks the abstract mutex and is refused to every task but the owner; with
  the last unlock the owner has the priority again that the control block holds for it, and the
  first waiter becomes the owner.
\<close>

theorem mux_post_refines:
  assumes "mux_inv s" "mux_valid h s" "unblocked s"
  shows "if muxCount (g_allMux s h) = 0 \<or> owner (g_allMux s h) \<noteq> Some (runTask s)
    then LOS_MuxPost h s = (LOS_ERRNO_MUX_INVALID, s)
    else fst (LOS_MuxPost h s) = LOS_OK \<and>
      abs_mux h (snd (LOS_MuxPost h s)) = mux_unlock (abs_mux h s) \<and>
      (\<forall>i. i \<noteq> h \<longrightarrow> abs_mux i (snd (LOS_MuxPost h s)) = abs_mux i s) \<and>
      priority (tcb (snd (LOS_MuxPost h s)) (runTask s)) =
        (if muxCount (g_allMux s h) = 1 then muxPriority (g_allMux s h) else priority (tcb s (runTask s))) \<and>
      mux_inv (snd (LOS_MuxPost h s))"
proof (cases "muxCount (g_allMux s h) = 0 \<or> owner (g_allMux s h) \<noteq> Some (runTask s)")
  case True
  then show ?thesis by (auto simp: LOS_MuxPost_def Let_def)
next
  case False
  then have nz: "muxCount (g_allMux s h) \<noteq> 0" and own: "owner (g_allMux s h) = Some (runTask s)" by simp_all
  show ?thesis
  proof (cases "muxCount (g_allMux s h) = 1")
    case one: True
    note p = MuxPost_last [OF assms(1,2) one own assms(3)]
    have lock: "abs_mux h s = (Some (runTask s, 1), pend s (MuxWait h))"
      by (simp add: abs_mux_def one own)
    show ?thesis
    proof (cases "pend s (MuxWait h)")
      case Nil
      then obtain q where "LOS_MuxPost h s = (LOS_OK, q)" "mux_inv q" "\<And>k. is_wait k \<Longrightarrow> pend q k = pend s k"
        "g_allMux q = (g_allMux s)(h := (g_allMux s h)\<lparr>muxCount := 0\<rparr>)"
        "priority (tcb q (runTask s)) = muxPriority (g_allMux s h)"
        using p(1) p(2) [OF Nil] p(5,6,8) by simp
      then show ?thesis using Nil one own unfolding lock by (simp add: abs_mux_def)
    next
      case (Cons w ws)
      have "w \<noteq> runTask s"
        using unblocked_nowhere [OF mux_invD(1) [OF assms(1)] assms(3), of "MuxWait h"] Cons by auto
      with Cons obtain q pr where "LOS_MuxPost h s = (LOS_OK, q)" "mux_inv q"
        "\<And>k. is_wait k \<Longrightarrow> pend q k = (if k = MuxWait h then ws else pend s k)"
        "g_allMux q = (g_allMux s)(h := (g_allMux s h)\<lparr>muxCount := 1, owner := Some w, muxPriority := pr\<rparr>)"
        "priority (tcb q (runTask s)) = muxPriority (g_allMux s h)"
        using p(1) p(3) [OF Cons] p(4) [OF Cons] p(9) p(10) by simp
      then show ?thesis using Cons one own unfolding lock by (simp add: abs_mux_def)
    qed
  next
    case more: False
    note p = MuxPost_again [OF assms(1,2) nz own more]
    have "unat (muxCount (g_allMux s h)) = Suc (unat (muxCount (g_allMux s h) - 1))"
      using nz by (intro unat_dec) (simp add: word_gt_0)
    moreover have "muxCount (g_allMux s h) - 1 \<noteq> 0" using more by simp
    then have "0 < unat (muxCount (g_allMux s h) - 1)" by (simp add: unat_gt_0)
    ultimately show ?thesis
      using p(2) nz own more by (simp add: p(1)) (simp add: abs_mux_def)
  qed
qed

theorem mux_post_refines_witness:
  "LOS_MuxPost 0 (mux_demo ()) = (LOS_ERRNO_MUX_INVALID, mux_demo ()) \<and>
   abs_mux 1 (snd (LOS_MuxPost 1 (mux_demo ()))) = (None, []) \<and>
   priority (tcb (snd (LOS_MuxPost 1 (mux_demo ()))) 1) = 9"
  using mux_post_refines [OF mux_demo_inv [of "()"] mux_demo_valid [of 0]]
    mux_post_refines [OF mux_demo_inv [of "()"] mux_demo_valid [of 1]]
  by (simp add: abs_mux_def)

section \<open>What the code does not keep\<close>

text \<open>
  The 65536th lock of a recursive mutex by its owner makes the count zero: the call returns
  \<open>LOS_OK\<close>, and the mutex is then free for every other task although the owner has not unlocked it.
\<close>

theorem mux_count_wraps:
  assumes "mux_valid h s" "\<not> OS_INT_ACTIVE s" "g_losTaskLock s = 0"
    "muxCount (g_allMux s h) = 0xFFFF" "owner (g_allMux s h) = Some (runTask s)"
  shows "fst (LOS_MuxPend h timeout s) = Ret LOS_OK \<and>
    muxCount (g_allMux (snd (LOS_MuxPend h timeout s)) h) = 0 \<and>
    (\<forall>t timeout'. fst (LOS_MuxPend h timeout' ((snd (LOS_MuxPend h timeout s))\<lparr>runTask := t\<rparr>)) = Ret LOS_OK)"
proof -
  let ?s' = "upd_mux h (muxCount_update (\<lambda>c. c + 1)) s"
  have lt: "h < LOSCFG_BASE_IPC_MUX_LIMIT (cfg s)" and used: "muxStat (g_allMux s h) \<noteq> OS_MUX_UNUSED"
    using assms(1) mux_stat [of s h] by (simp_all add: mux_valid_def)
  have "LOS_MuxPend h timeout s = (Ret LOS_OK, ?s')"
    using lt used assms(2-5) by (simp add: LOS_MuxPend_def OsMuxValidCheck_def Let_def)
  moreover have "\<not> OS_INT_ACTIVE ?s'" "g_losTaskLock ?s' = 0"
    using assms(2,3) by (simp_all add: upd_mux_def)
  ultimately show ?thesis
    using lt used assms(4)
    by (auto simp: LOS_MuxPend_def OsMuxValidCheck_def Let_def)
qed

theorem mux_count_wraps_witness:
  "muxCount (g_allMux (snd (LOS_MuxPend 2 10 (upd_mux 2 (muxCount_update (\<lambda>_. 0xFFFF)) (mux_demo ())))) 2) = 0"
proof -
  let ?s = "upd_mux 2 (muxCount_update (\<lambda>_. 0xFFFF)) (mux_demo ())"
  have "mux_valid 2 ?s" using mux_demo_valid [of 2 "()"] by (simp add: mux_valid_def mux_used_def)
  moreover have "\<not> OS_INT_ACTIVE ?s" "g_losTaskLock ?s = 0"
    using mux_demo_sched(4,5) [of "()"] unfolding upd_mux_def by simp_all
  ultimately show ?thesis using mux_count_wraps [of 2 ?s 10] by simp
qed

text \<open>
  C24: A task that takes a second mutex while it runs at an inherited priority, and gives the
  first one back before the second, is left with the inherited priority when it holds nothing any
  more: the second control block saved the inherited priority as the one to return to.
\<close>

theorem mux_inherited_priority_stays:
  assumes "mux_inv s" "mux_valid a s" "mux_valid b s" "a \<noteq> b" "\<not> OS_INT_ACTIVE s" "g_losTaskLock s = 0"
    "unblocked s" "muxCount (g_allMux s a) = 1" "owner (g_allMux s a) = Some (runTask s)"
    "muxCount (g_allMux s b) = 0" "pend s (MuxWait a) = []"
  shows "let s1 = snd (LOS_MuxPend b timeout s); s2 = snd (LOS_MuxPost a s1); s3 = snd (LOS_MuxPost b s2)
    in priority (tcb s2 (runTask s)) = muxPriority (g_allMux s a) \<and>
       fst (abs_mux a s3) = None \<and> fst (abs_mux b s3) = None \<and>
       priority (tcb s3 (runTask s)) = priority (tcb s (runTask s))"
proof -
  note p1 = MuxPend_free [OF assms(1,3,5,6,7,10)]
  define s1 where "s1 = snd (LOS_MuxPend b timeout s)"
  have s1: "s1 = upd_mux b (\<lambda>c. c\<lparr>muxCount := muxCount c + 1, owner := Some (runTask s),
      muxPriority := priority (tcb s (runTask s))\<rparr>) s" by (simp add: s1_def p1(1))
  have f1: "runTask s1 = runTask s" "pend s1 = pend s" "unblocked s1"
    "g_allMux s1 a = g_allMux s a" "muxCount (g_allMux s1 b) = 1"
    "owner (g_allMux s1 b) = Some (runTask s)" "muxPriority (g_allMux s1 b) = priority (tcb s (runTask s))"
    "mux_valid a s1" "mux_valid b s1" "mux_inv s1"
    using assms(2-4,7,10) p1(2) by (auto simp: s1 mux_valid_def mux_used_def)
  note p2 = MuxPost_last [OF f1(10,8), unfolded f1(1,2,4), OF assms(8,9) f1(3)]
  define s2 where "s2 = snd (LOS_MuxPost a s1)"
  have s2: "s2 = modify_if (priority (tcb s1 (runTask s)) \<noteq> muxPriority (g_allMux s a)) (runTask s)
      (muxPriority (g_allMux s a)) (upd_mux a (muxCount_update (\<lambda>c. c - 1)) s1)"
    by (simp add: s2_def p2(1) assms(11))
  note q2 = p2(2,5,6,7,8) [folded s2]
  have f2: "runTask s2 = runTask s" "cfg s2 = cfg s" by (simp_all add: s2 s1)
  have inv2: "mux_inv s2" by (rule q2(1) [OF assms(11)])
  have g2: "g_allMux s2 b = g_allMux s1 b" "muxCount (g_allMux s2 a) = 0"
    using assms(4) by (simp_all add: q2(5) f1)
  have ub2: "unblocked s2"
    using f1(3) by (simp add: unblocked_def q2(4) f2(1) f1(1)) (simp add: s2)
  have v2: "mux_valid b s2" using f1(9) by (simp add: mux_valid_def mux_used_def g2 f2(2)) (simp add: s1)
  have none: "pend s2 (MuxWait b) = []" using q2(2) [of "MuxWait b"] p1(3) by simp
  note p3 = MuxPost_last [OF inv2 v2, unfolded f2(1) g2(1), OF f1(5,6) ub2]
  have "snd (LOS_MuxPost b s2) = modify_if (priority (tcb s2 (runTask s)) \<noteq> muxPriority (g_allMux s1 b)) (runTask s)
      (muxPriority (g_allMux s1 b)) (upd_mux b (muxCount_update (\<lambda>c. c - 1)) s2)"
    by (simp add: p3(1) none)
  moreover note p3(6,8) [folded calculation]
  ultimately show ?thesis
    using q2(3) [of "runTask s"] g2 assms(4) f1(7) unfolding Let_def s1_def [symmetric] s2_def [symmetric]
    by (simp add: abs_mux_def)
qed

theorem mux_inherited_priority_stays_witness:
  "let s3 = snd (LOS_MuxPost 3 (snd (LOS_MuxPost 1 (snd (LOS_MuxPend 3 10 (mux_demo ()))))))
   in muxPriority (g_allMux (mux_demo ()) 1) = 9 \<and> priority (tcb s3 1) = 5"
  using mux_inherited_priority_stays [OF mux_demo_inv [of "()"] mux_demo_valid [of 1] mux_demo_valid [of 3], of 10]
  by (simp add: Let_def)

end
