(* ===== verification/Swtmr.thy ===== *)
theory Swtmr
  imports Queue Tick
begin

text \<open>
  Software timers (\<open>kernel/src/los_swtmr.c\<close>). The timers that run are on the sort link of the
  software timers under their index in \<open>g_swtmrCBArray\<close>; the tick interrupt scans it and sends
  the handlers of the expired timers through a queue to the timer task. A handler is the address
  of a function, 0 a null pointer. The unused control blocks form a chain of \<open>pstNext\<close> pointers.
\<close>

section \<open>State\<close>

record swtmr_cb =
  pstNextTimer :: "nat option"
  ucState :: UINT8
  ucMode :: UINT8
  ucRouses :: UINT8
  ucSensitive :: UINT8
  usTimerID :: UINT32
  uwCount :: UINT32
  uwInterval :: UINT32
  uwTimerArg :: UINT32
  pfnHandler :: UINT32

text \<open>The bit fields of a \<open>SwtmrAlignData\<close>; \<open>times\<close> has 24 bits.\<close>

record SwtmrAlignData =
  times :: UINT32
  canMultiple :: bool
  canAlign :: bool
  isAligned :: bool

text \<open>\<open>g_swtmrScan\<close> tells whether the scan function has been registered with the scheduler.\<close>

record swtmr_state = queue_state +
  g_swtmrHandlerQueue :: nat
  g_swtmrCBArray :: "nat \<Rightarrow> swtmr_cb"
  g_swtmrFreeList :: "nat option"
  g_swtmrAlignID :: "nat \<Rightarrow> SwtmrAlignData"
  g_swtmrScan :: bool

definition OS_SWTMR_STATUS_UNUSED :: UINT8 where "OS_SWTMR_STATUS_UNUSED = 0"

definition OS_SWTMR_STATUS_CREATED :: UINT8 where "OS_SWTMR_STATUS_CREATED = 1"

definition OS_SWTMR_STATUS_TICKING :: UINT8 where "OS_SWTMR_STATUS_TICKING = 2"

definition LOS_SWTMR_MODE_ONCE :: UINT8 where "LOS_SWTMR_MODE_ONCE = 0"

definition LOS_SWTMR_MODE_PERIOD :: UINT8 where "LOS_SWTMR_MODE_PERIOD = 1"

definition LOS_SWTMR_MODE_NO_SELFDELETE :: UINT8 where "LOS_SWTMR_MODE_NO_SELFDELETE = 2"

definition OS_SWTMR_ROUSES_IGNORE :: UINT8 where "OS_SWTMR_ROUSES_IGNORE = 0"

definition OS_SWTMR_ROUSES_ALLOW :: UINT8 where "OS_SWTMR_ROUSES_ALLOW = 1"

definition OS_SWTMR_ALIGN_SENSITIVE :: UINT8 where "OS_SWTMR_ALIGN_SENSITIVE = 0"

definition OS_SWTMR_ALIGN_INSENSITIVE :: UINT8 where "OS_SWTMR_ALIGN_INSENSITIVE = 1"

definition OS_SWTMR_MAX_TIMERID :: "los_config \<Rightarrow> UINT32" where
  "OS_SWTMR_MAX_TIMERID c =
    (0xFFFFFFFF div of_nat (LOSCFG_BASE_CORE_SWTMR_LIMIT c)) * of_nat (LOSCFG_BASE_CORE_SWTMR_LIMIT c)"

text \<open>The index of an identifier; some services go through a \<open>UINT16\<close>.\<close>

definition timer_index :: "los_config \<Rightarrow> UINT32 \<Rightarrow> nat" where
  "timer_index c swtmrId = unat (swtmrId mod of_nat (LOSCFG_BASE_CORE_SWTMR_LIMIT c))"

definition swtmrCbId :: "los_config \<Rightarrow> UINT32 \<Rightarrow> nat" where
  "swtmrCbId c swtmrId = unat (ucast (swtmrId mod of_nat (LOSCFG_BASE_CORE_SWTMR_LIMIT c)) :: UINT16)"

abbreviation timer :: "'a swtmr_state_scheme \<Rightarrow> nat \<Rightarrow> swtmr_cb" where
  "timer s i \<equiv> g_swtmrCBArray s i"

abbreviation expires :: "'a swtmr_state_scheme \<Rightarrow> nat \<Rightarrow> UINT64" where
  "expires s i \<equiv> responseTime (g_swtmrSortLink s) i"

definition upd_swtmr :: "nat \<Rightarrow> (swtmr_cb \<Rightarrow> swtmr_cb) \<Rightarrow> 'a swtmr_state_scheme \<Rightarrow> 'a swtmr_state_scheme" where
  "upd_swtmr i f s = s\<lparr>g_swtmrCBArray := (g_swtmrCBArray s)(i := f (g_swtmrCBArray s i))\<rparr>"

definition upd_align ::
  "nat \<Rightarrow> (SwtmrAlignData \<Rightarrow> SwtmrAlignData) \<Rightarrow> 'a swtmr_state_scheme \<Rightarrow> 'a swtmr_state_scheme" where
  "upd_align i f s = s\<lparr>g_swtmrAlignID := (g_swtmrAlignID s)(i := f (g_swtmrAlignID s i))\<rparr>"

definition zero_align :: SwtmrAlignData where
  "zero_align = \<lparr>times = 0, canMultiple = False, canAlign = False, isAligned = False\<rparr>"

definition zero_timer :: swtmr_cb where
  "zero_timer = \<lparr>pstNextTimer = None, ucState = 0, ucMode = 0, ucRouses = 0, ucSensitive = 0,
    usTimerID = 0, uwCount = 0, uwInterval = 0, uwTimerArg = 0, pfnHandler = 0\<rparr>"

section \<open>Alignment of periodic timers\<close>

definition OsSwtmrCalcAlignCount :: "UINT64 \<Rightarrow> UINT32 \<Rightarrow> UINT32 \<Rightarrow> 'a swtmr_state_scheme \<Rightarrow> UINT32" where
  "OsSwtmrCalcAlignCount currTime interval timerId s =
    (if interval = 0 then interval
     else
       let cur = timer_index (cfg s) timerId;
           count = OsSortLinkGetTargetExpireTime (cfg s) currTime (expires s cur)
       in interval - (uwInterval (timer s cur) - count) mod interval)"

text \<open>
  The walk over the timers that run, from the first: it stops at an aligned timer with the same
  interval, stops without a result, or ends with the timer of the smallest multiple and of the
  largest divisor of the interval, with the quotients found so far.
\<close>

datatype align_walk_result = SameInterval | NoTimes | WalkEnd "nat option" "nat option"

fun align_walk ::
  "'a swtmr_state_scheme \<Rightarrow> SwtmrAlignData \<Rightarrow> UINT32 \<Rightarrow> nat list \<Rightarrow>
   UINT32 \<times> nat option \<Rightarrow> UINT32 \<times> nat option \<Rightarrow> align_walk_result" where
  "align_walk s own interval [] (_, minInLarge) (_, maxInLitte) = WalkEnd minInLarge maxInLitte"
| "align_walk s own interval (cur # rest) (minInLargeVal, minInLarge) (maxInLitteval, maxInLitte) =
    (let info = g_swtmrAlignID s (timer_index (cfg s) (usTimerID (timer s cur)));
         next = (\<lambda>large little. align_walk s own interval rest large little)
     in if \<not> isAligned info \<or> \<not> canAlign info
       then next (minInLargeVal, minInLarge) (maxInLitteval, maxInLitte)
     else if uwInterval (timer s cur) = interval then SameInterval
     else if \<not> canMultiple own \<or> times info = 0
       then next (minInLargeVal, minInLarge) (maxInLitteval, maxInLitte)
     else if times own = 0 then NoTimes
     else if times own \<le> times info \<and> times info mod times own = 0 then
       if times info div times own < minInLargeVal
       then next (times info div times own, Some cur) (maxInLitteval, maxInLitte)
       else next (minInLargeVal, minInLarge) (maxInLitteval, maxInLitte)
     else if times info < times own \<and> times own mod times info = 0 then
       if times own div times info < maxInLitteval
       then next (minInLargeVal, minInLarge) (times own div times info, Some cur)
       else next (minInLargeVal, minInLarge) (maxInLitteval, maxInLitte)
     else next (minInLargeVal, minInLarge) (maxInLitteval, maxInLitte))"

definition OsSwtmrFindAlignPos :: "UINT64 \<Rightarrow> nat \<Rightarrow> 'a swtmr_state_scheme \<Rightarrow> 'a swtmr_state_scheme" where
  "OsSwtmrFindAlignPos currTime i s =
    (if sortLink (g_swtmrSortLink s) = [] then s
     else
       let own = g_swtmrAlignID s (timer_index (cfg s) (usTimerID (timer s i)))
       in case align_walk s own (uwInterval (timer s i)) (sortLink (g_swtmrSortLink s))
           (OS_NULL_INT, None) (OS_NULL_INT, None) of
         SameInterval \<Rightarrow> upd_swtmr i (uwCount_update (\<lambda>_. 0)) s
       | NoTimes \<Rightarrow> s
       | WalkEnd (Some l) _ \<Rightarrow> upd_swtmr i (uwCount_update
           (\<lambda>_. OsSwtmrCalcAlignCount currTime (uwInterval (timer s i)) (usTimerID (timer s l)) s)) s
       | WalkEnd None (Some m) \<Rightarrow> upd_swtmr i (uwCount_update
           (\<lambda>_. OsSortLinkGetTargetExpireTime (cfg s) currTime (expires s m))) s
       | WalkEnd None None \<Rightarrow> s)"

section \<open>Starting, stopping, releasing\<close>

definition OsSwtmrStart :: "nat \<Rightarrow> 'a swtmr_state_scheme \<Rightarrow> 'a swtmr_state_scheme" where
  "OsSwtmrStart i s =
    (let (currTime, s) = OsGetCurrSchedTimeCycle s;
         s = upd_swtmr i (\<lambda>t. t\<lparr>uwCount := uwInterval t, ucState := OS_SWTMR_STATUS_TICKING\<rparr>) s;
         a = timer_index (cfg s) (usTimerID (timer s i));
         s = (if LOSCFG_BASE_CORE_SWTMR_ALIGN (cfg s) \<and> canAlign (g_swtmrAlignID s a) \<and>
                \<not> isAligned (g_swtmrAlignID s a)
              then OsSwtmrFindAlignPos currTime i (upd_align a (isAligned_update (\<lambda>_. True)) s)
              else s);
         s = OsAdd2SortLink i currTime (uwCount (timer s i)) OS_SORT_LINK_SWTMR s
     in if LOS_TaskIsRunning s then OsSchedUpdateExpireTime currTime s else s)"

definition OsSwtmrDelete :: "nat \<Rightarrow> 'a swtmr_state_scheme \<Rightarrow> 'a swtmr_state_scheme" where
  "OsSwtmrDelete i s =
    (let s = upd_swtmr i (pstNextTimer_update (\<lambda>_. g_swtmrFreeList s)) s;
         s = s\<lparr>g_swtmrFreeList := Some i\<rparr>;
         s = upd_swtmr i (ucState_update (\<lambda>_. OS_SWTMR_STATUS_UNUSED)) s
     in if LOSCFG_BASE_CORE_SWTMR_ALIGN (cfg s)
        then upd_align (timer_index (cfg s) (usTimerID (timer s i))) (\<lambda>_. zero_align) s else s)"

definition OsSwtmrStop :: "nat \<Rightarrow> 'a swtmr_state_scheme \<Rightarrow> 'a swtmr_state_scheme" where
  "OsSwtmrStop i s =
    (let s = OsDeleteSortLink i OS_SORT_LINK_SWTMR s;
         s = upd_swtmr i (ucState_update (\<lambda>_. OS_SWTMR_STATUS_CREATED)) s
     in if LOS_TaskIsRunning s then
          let (currTime, s) = OsGetCurrSchedTimeCycle s;
              s = OsSchedUpdateExpireTime currTime s
          in if LOSCFG_BASE_CORE_SWTMR_ALIGN (cfg s)
             then upd_align (timer_index (cfg s) (usTimerID (timer s i))) (isAligned_update (\<lambda>_. False)) s
             else s
        else s)"

section \<open>Expiry\<close>

definition sizeof_SwtmrHandlerItem :: UINT32 where "sizeof_SwtmrHandlerItem = 8"

definition handler_item :: "UINT32 \<Rightarrow> UINT32 \<Rightarrow> bytes" where
  "handler_item handler handlerArg = put32 4 handlerArg (put32 0 handler (\<lambda>_. 0))"

definition OsSwtmrTimeoutHandle :: "nat \<Rightarrow> 'a swtmr_state_scheme \<Rightarrow> 'a swtmr_state_scheme" where
  "OsSwtmrTimeoutHandle i s =
    (let swtmrHandler = handler_item (pfnHandler (timer s i)) (uwTimerArg (timer s i));
         (_, s) = LOS_QueueWriteCopy (g_swtmrHandlerQueue s) (Some swtmrHandler) sizeof_SwtmrHandlerItem
                    LOS_NO_WAIT s
     in if ucMode (timer s i) = LOS_SWTMR_MODE_ONCE then
          let s = OsSwtmrDelete i s;
              n = of_nat (LOSCFG_BASE_CORE_SWTMR_LIMIT (cfg s))
          in if usTimerID (timer s i) < OS_SWTMR_MAX_TIMERID (cfg s) - n
             then upd_swtmr i (usTimerID_update (\<lambda>x. x + n)) s
             else upd_swtmr i (usTimerID_update (\<lambda>x. x mod n)) s
        else if ucMode (timer s i) = LOS_SWTMR_MODE_PERIOD then OsSwtmrStart i s
        else if ucMode (timer s i) = LOS_SWTMR_MODE_NO_SELFDELETE
        then upd_swtmr i (ucState_update (\<lambda>_. OS_SWTMR_STATUS_CREATED)) s
        else s)"

text \<open>
  The loop of \<open>OsSwtmrScan\<close>, entered with the first node of a sort link that is not empty;
  \<open>None\<close> would be a loop that never ends.
\<close>

partial_function (option) scan_loop ::
  "UINT64 \<Rightarrow> bool \<Rightarrow> 'a swtmr_state_scheme \<Rightarrow> (bool \<times> 'a swtmr_state_scheme) option" where
  "scan_loop currTime needSchedule s =
    (let i = hd (sortLink (g_swtmrSortLink s))
     in if expires s i \<le> currTime then
       let s = s\<lparr>g_swtmrSortLink := OsDeleteNodeSortLink i (g_swtmrSortLink s)\<rparr>;
           s = OsSwtmrTimeoutHandle i s
       in if sortLink (g_swtmrSortLink s) = [] then Some (True, s) else scan_loop currTime True s
     else Some (needSchedule, s))"

declare scan_loop.simps [code]

definition OsSwtmrScan :: "'a swtmr_state_scheme \<Rightarrow> (bool \<times> 'a swtmr_state_scheme) option" where
  "OsSwtmrScan s =
    (if sortLink (g_swtmrSortLink s) = [] then Some (False, s)
     else let (currTime, s) = OsGetCurrSchedTimeCycle s in scan_loop currTime False s)"

text \<open>The tick interrupt with the registered scan.\<close>

definition swtmr_tick :: "'a swtmr_state_scheme \<Rightarrow> 'a swtmr_state_scheme" where
  "swtmr_tick s = OsTickHandler (if g_swtmrScan s then Some (\<lambda>s. the (OsSwtmrScan s)) else None) s"

definition OsSwtmrGetNextTimeout :: "'a swtmr_state_scheme \<Rightarrow> UINT32 \<times> 'a swtmr_state_scheme" where
  "OsSwtmrGetNextTimeout s =
    (let (currTime, s) = OsGetCurrSchedTimeCycle s
     in (OsSortLinkGetNextExpireTime (cfg s) currTime (g_swtmrSortLink s), s))"

definition OsSwtmrTimeGet :: "nat \<Rightarrow> 'a swtmr_state_scheme \<Rightarrow> UINT32 \<times> 'a swtmr_state_scheme" where
  "OsSwtmrTimeGet i s =
    (let (currTime, s) = OsGetCurrSchedTimeCycle s
     in (OsSortLinkGetTargetExpireTime (cfg s) currTime (expires s i), s))"

section \<open>The timer task\<close>

text \<open>
  A pass of the loop of \<open>OsSwtmrTask\<close>: the read, and the call \<open>handler(arg)\<close> that its result
  leads to. \<open>readSzie\<close> is not reset between the passes.
\<close>

definition OsSwtmrTask_read ::
  "bytes \<Rightarrow> UINT32 \<Rightarrow> 'a swtmr_state_scheme \<Rightarrow> outcome \<times> bytes option \<times> UINT32 option \<times> 'a swtmr_state_scheme" where
  "OsSwtmrTask_read swtmrHandle readSzie s =
    LOS_QueueReadCopy (g_swtmrHandlerQueue s) (Some swtmrHandle) (Some readSzie) LOS_WAIT_FOREVER s"

definition OsSwtmrTask_call :: "errno \<Rightarrow> bytes \<Rightarrow> UINT32 \<Rightarrow> (UINT32 \<times> UINT32) option" where
  "OsSwtmrTask_call ret swtmrHandle readSzie =
    (if ret = LOS_OK \<and> readSzie = sizeof_SwtmrHandlerItem then
       if get32 swtmrHandle 0 = 0 then None else Some (get32 swtmrHandle 0, get32 swtmrHandle 4)
     else None)"

definition OS_SWTMR_TASK_ENTRY :: nat where "OS_SWTMR_TASK_ENTRY = 2"

definition OsSwtmrTaskCreate :: "UINT32 \<Rightarrow> 'a swtmr_state_scheme \<Rightarrow> errno \<times> 'a swtmr_state_scheme" where
  "OsSwtmrTaskCreate mem s =
    (case LOS_TaskCreate False
       (Some \<lparr>pfnTaskEntry = OS_SWTMR_TASK_ENTRY, usTaskPrio = 0, uwArg = 0,
          uwStackSize = of_nat (LOSCFG_BASE_CORE_TSK_SWTMR_STACK_SIZE (cfg s)),
          pcName = Some ''Swt_Task''\<rparr>) mem s of (ret, tid, s) \<Rightarrow>
     (ret, case tid of None \<Rightarrow> s | Some t \<Rightarrow> s\<lparr>g_swtmrTaskID := t\<rparr>))"

section \<open>Initialisation\<close>

text \<open>
  \<open>mem\<close>, \<open>queueMem\<close> and \<open>stackMem\<close> are the addresses the allocator returns, \<open>garbage\<close> the content
  of the block of the queue. The error paths free \<open>swtmr\<close>, which the loop has moved past the end
  of the array.
\<close>

definition sizeof_SWTMR_CTRL_S :: UINT32 where "sizeof_SWTMR_CTRL_S = 48"

definition OsSwtmrInit ::
  "UINT32 \<Rightarrow> UINT32 \<Rightarrow> bytes \<Rightarrow> UINT32 \<Rightarrow> 'a swtmr_state_scheme \<Rightarrow> errno \<times> 'a swtmr_state_scheme" where
  "OsSwtmrInit mem queueMem garbage stackMem s =
    (let limit = LOSCFG_BASE_CORE_SWTMR_LIMIT (cfg s);
         s = (if LOSCFG_BASE_CORE_SWTMR_ALIGN (cfg s)
              then s\<lparr>g_swtmrAlignID := \<lambda>i. if i < limit then zero_align else g_swtmrAlignID s i\<rparr> else s);
         s = LOS_MemAlloc mem s
     in if mem = 0 then (LOS_ERRNO_SWTMR_NO_MEMORY, s)
     else
       let s = s\<lparr>g_swtmrCBArray := \<lambda>i. if i < limit then zero_timer else g_swtmrCBArray s i,
                 g_swtmrSortLink := (g_swtmrSortLink s)\<lparr>responseTime :=
                   \<lambda>i. if i < limit then 0 else responseTime (g_swtmrSortLink s) i\<rparr>\<rparr>;
           s = s\<lparr>g_swtmrFreeList := Some 0\<rparr>;
           s = upd_swtmr 0 (usTimerID_update (\<lambda>_. 0)) s;
           s = fold (\<lambda>index s.
             let s = upd_swtmr index (usTimerID_update (\<lambda>_. of_nat index)) s
             in upd_swtmr (index - 1) (pstNextTimer_update (\<lambda>_. Some index)) s) [1..<limit] s;
           swtmr = mem + of_nat limit * sizeof_SWTMR_CTRL_S;
           (ret, q, s) = LOS_QueueCreate queueMem garbage (of_nat (OS_SWTMR_HANDLE_QUEUE_SIZE (cfg s))) False
                           (ucast sizeof_SwtmrHandlerItem) s
       in if ret \<noteq> LOS_OK then (LOS_ERRNO_SWTMR_QUEUE_CREATE_FAILED, LOS_MemFree swtmr s)
       else
         let s = s\<lparr>g_swtmrHandlerQueue := q\<rparr>;
             (ret, s) = OsSwtmrTaskCreate stackMem s
         in if ret \<noteq> LOS_OK then (LOS_ERRNO_SWTMR_TASK_CREATE_FAILED, LOS_MemFree swtmr s)
         else
           let s = s\<lparr>g_swtmrSortLink := OsSortLinkInit (g_swtmrSortLink s)\<rparr>
           in (LOS_OK, s\<lparr>g_swtmrScan := True\<rparr>))"

section \<open>Services\<close>

text \<open>
  The results are the error code, the identifier that is stored through \<open>swtmrId\<close>, and the state.
  \<open>rouses\<close> and \<open>sensitive\<close> are parameters only when alignment is configured.
\<close>

definition LOS_SwtmrCreate ::
  "UINT32 \<Rightarrow> UINT8 \<Rightarrow> UINT32 \<Rightarrow> bool \<Rightarrow> UINT32 \<Rightarrow> UINT8 \<Rightarrow> UINT8 \<Rightarrow> 'a swtmr_state_scheme \<Rightarrow>
   errno \<times> UINT32 option \<times> 'a swtmr_state_scheme" where
  "LOS_SwtmrCreate interval mode handler swtmrIdNull timerArg rouses sensitive s =
    (if interval = 0 then (LOS_ERRNO_SWTMR_INTERVAL_NOT_SUITED, None, s)
     else if mode \<noteq> LOS_SWTMR_MODE_ONCE \<and> mode \<noteq> LOS_SWTMR_MODE_PERIOD \<and>
       mode \<noteq> LOS_SWTMR_MODE_NO_SELFDELETE then (LOS_ERRNO_SWTMR_MODE_INVALID, None, s)
     else if handler = 0 then (LOS_ERRNO_SWTMR_PTR_NULL, None, s)
     else if swtmrIdNull then (LOS_ERRNO_SWTMR_RET_PTR_NULL, None, s)
     else if LOSCFG_BASE_CORE_SWTMR_ALIGN (cfg s) \<and> rouses \<noteq> OS_SWTMR_ROUSES_IGNORE \<and>
       rouses \<noteq> OS_SWTMR_ROUSES_ALLOW then (OS_ERRNO_SWTMR_ROUSES_INVALID, None, s)
     else if LOSCFG_BASE_CORE_SWTMR_ALIGN (cfg s) \<and> sensitive \<noteq> OS_SWTMR_ALIGN_INSENSITIVE \<and>
       sensitive \<noteq> OS_SWTMR_ALIGN_SENSITIVE then (OS_ERRNO_SWTMR_ALIGN_INVALID, None, s)
     else case g_swtmrFreeList s of
       None \<Rightarrow> (LOS_ERRNO_SWTMR_MAXSIZE, None, s)
     | Some i \<Rightarrow>
         let s = s\<lparr>g_swtmrFreeList := pstNextTimer (timer s i)\<rparr>;
             s = upd_swtmr i (\<lambda>t. t\<lparr>pfnHandler := handler, ucMode := mode, uwInterval := interval,
                   pstNextTimer := None, uwCount := 0, uwTimerArg := timerArg\<rparr>) s;
             s = (if LOSCFG_BASE_CORE_SWTMR_ALIGN (cfg s)
                  then upd_swtmr i (\<lambda>t. t\<lparr>ucRouses := rouses, ucSensitive := sensitive\<rparr>) s else s);
             s = upd_swtmr i (ucState_update (\<lambda>_. OS_SWTMR_STATUS_CREATED)) s;
             s = s\<lparr>g_swtmrSortLink := SET_SORTLIST_VALUE i OS_SORT_LINK_INVALID_TIME (g_swtmrSortLink s)\<rparr>
         in (LOS_OK, Some (usTimerID (timer s i)), s))"

text \<open>What \<open>LOS_SwtmrStart\<close> records about a periodic timer that may be aligned.\<close>

definition note_align :: "nat \<Rightarrow> 'a swtmr_state_scheme \<Rightarrow> 'a swtmr_state_scheme" where
  "note_align i s =
    (let t = timer s i;
         a = timer_index (cfg s) (usTimerID t);
         d = of_nat (LOS_COMMON_DIVISOR (cfg s))
     in if LOSCFG_BASE_CORE_SWTMR_ALIGN (cfg s) \<and> ucSensitive t = OS_SWTMR_ALIGN_INSENSITIVE \<and>
          ucMode t = LOS_SWTMR_MODE_PERIOD then
          let s = upd_align a (canAlign_update (\<lambda>_. True)) s
          in if uwInterval t mod d = 0 then
               upd_align a (\<lambda>x. x\<lparr>canMultiple := True, times := take_bit 24 (uwInterval t div d)\<rparr>) s
             else s
        else s)"

definition LOS_SwtmrStart :: "UINT32 \<Rightarrow> 'a swtmr_state_scheme \<Rightarrow> errno \<times> 'a swtmr_state_scheme" where
  "LOS_SwtmrStart swtmrId s =
    (if OS_SWTMR_MAX_TIMERID (cfg s) \<le> swtmrId then (LOS_ERRNO_SWTMR_ID_INVALID, s)
     else
       let i = timer_index (cfg s) swtmrId
       in if usTimerID (timer s i) \<noteq> swtmrId then (LOS_ERRNO_SWTMR_ID_INVALID, s)
       else
         let s = note_align i s
         in if ucState (timer s i) = OS_SWTMR_STATUS_UNUSED then (LOS_ERRNO_SWTMR_NOT_CREATED, s)
         else if ucState (timer s i) = OS_SWTMR_STATUS_TICKING then (LOS_OK, OsSwtmrStart i (OsSwtmrStop i s))
         else if ucState (timer s i) = OS_SWTMR_STATUS_CREATED then (LOS_OK, OsSwtmrStart i s)
         else (LOS_ERRNO_SWTMR_STATUS_INVALID, s))"

definition LOS_SwtmrStop :: "UINT32 \<Rightarrow> 'a swtmr_state_scheme \<Rightarrow> errno \<times> 'a swtmr_state_scheme" where
  "LOS_SwtmrStop swtmrId s =
    (if OS_SWTMR_MAX_TIMERID (cfg s) \<le> swtmrId then (LOS_ERRNO_SWTMR_ID_INVALID, s)
     else
       let i = swtmrCbId (cfg s) swtmrId
       in if usTimerID (timer s i) \<noteq> swtmrId then (LOS_ERRNO_SWTMR_ID_INVALID, s)
       else if ucState (timer s i) = OS_SWTMR_STATUS_UNUSED then (LOS_ERRNO_SWTMR_NOT_CREATED, s)
       else if ucState (timer s i) = OS_SWTMR_STATUS_CREATED then (LOS_ERRNO_SWTMR_NOT_STARTED, s)
       else if ucState (timer s i) = OS_SWTMR_STATUS_TICKING then (LOS_OK, OsSwtmrStop i s)
       else (LOS_ERRNO_SWTMR_STATUS_INVALID, s))"

definition LOS_SwtmrTimeGet ::
  "UINT32 \<Rightarrow> bool \<Rightarrow> 'a swtmr_state_scheme \<Rightarrow> errno \<times> UINT32 option \<times> 'a swtmr_state_scheme" where
  "LOS_SwtmrTimeGet swtmrId tickNull s =
    (if OS_SWTMR_MAX_TIMERID (cfg s) \<le> swtmrId then (LOS_ERRNO_SWTMR_ID_INVALID, None, s)
     else if tickNull then (LOS_ERRNO_SWTMR_TICK_PTR_NULL, None, s)
     else
       let i = swtmrCbId (cfg s) swtmrId
       in if usTimerID (timer s i) \<noteq> swtmrId then (LOS_ERRNO_SWTMR_ID_INVALID, None, s)
       else if ucState (timer s i) = OS_SWTMR_STATUS_UNUSED then (LOS_ERRNO_SWTMR_NOT_CREATED, None, s)
       else if ucState (timer s i) = OS_SWTMR_STATUS_CREATED then (LOS_ERRNO_SWTMR_NOT_STARTED, None, s)
       else if ucState (timer s i) = OS_SWTMR_STATUS_TICKING then
         case OsSwtmrTimeGet i s of (tick, s) \<Rightarrow> (LOS_OK, Some tick, s)
       else (LOS_ERRNO_SWTMR_STATUS_INVALID, None, s))"

definition LOS_SwtmrDelete :: "UINT32 \<Rightarrow> 'a swtmr_state_scheme \<Rightarrow> errno \<times> 'a swtmr_state_scheme" where
  "LOS_SwtmrDelete swtmrId s =
    (if OS_SWTMR_MAX_TIMERID (cfg s) \<le> swtmrId then (LOS_ERRNO_SWTMR_ID_INVALID, s)
     else
       let i = swtmrCbId (cfg s) swtmrId
       in if usTimerID (timer s i) \<noteq> swtmrId then (LOS_ERRNO_SWTMR_ID_INVALID, s)
       else if ucState (timer s i) = OS_SWTMR_STATUS_UNUSED then (LOS_ERRNO_SWTMR_NOT_CREATED, s)
       else if ucState (timer s i) = OS_SWTMR_STATUS_TICKING then (LOS_OK, OsSwtmrDelete i (OsSwtmrStop i s))
       else if ucState (timer s i) = OS_SWTMR_STATUS_CREATED then (LOS_OK, OsSwtmrDelete i s)
       else (LOS_ERRNO_SWTMR_STATUS_INVALID, s))"

end
