(* ===== verification/Swtmr_Inv.thy ===== *)
theory Swtmr_Inv
  imports Swtmr Queue_Inv
begin

text \<open>
  The invariant of the software timers: the unused control blocks are the chain that starts at
  \<open>g_swtmrFreeList\<close>, the timers that run are the ones on the sort link, every identifier belongs to
  the block it is stored in. The lemmas state what each operation of \<open>los_swtmr.c\<close> does to the
  timers, and that a scan ends and takes exactly the expired ones.
\<close>

section \<open>Frames\<close>

lemma swtmr_more:
  assumes "queue_state.more s' = queue_state.more s"
  shows "g_swtmrHandlerQueue s' = g_swtmrHandlerQueue s" "g_swtmrCBArray s' = g_swtmrCBArray s"
    "g_swtmrFreeList s' = g_swtmrFreeList s" "g_swtmrAlignID s' = g_swtmrAlignID s"
    "g_swtmrScan s' = g_swtmrScan s"
  using assms by (cases s; cases s'; simp)+

lemma queue_state_more: "sched_state.more s' = sched_state.more s \<Longrightarrow> queue_state.more s' = queue_state.more s"
  by (cases s; cases s'; simp)

lemma upd_swtmr_sel [simp]:
  "g_swtmrCBArray (upd_swtmr i f s) = (g_swtmrCBArray s)(i := f (timer s i))"
  "g_swtmrFreeList (upd_swtmr i f s) = g_swtmrFreeList s" "g_swtmrAlignID (upd_swtmr i f s) = g_swtmrAlignID s"
  "g_swtmrSortLink (upd_swtmr i f s) = g_swtmrSortLink s" "cfg (upd_swtmr i f s) = cfg s"
  "g_swtmrHandlerQueue (upd_swtmr i f s) = g_swtmrHandlerQueue s" "g_taskScheduled (upd_swtmr i f s) = g_taskScheduled s"
  "g_allQueue (upd_swtmr i f s) = g_allQueue s" "pend (upd_swtmr i f s) = pend s"
  "oldSchedTime (upd_swtmr i f s) = oldSchedTime s" "time_read (upd_swtmr i f s) = time_read s"
  "OsGetCurrSchedTimeCycle (upd_swtmr i f s) = map_prod id (upd_swtmr i f) (OsGetCurrSchedTimeCycle s)"
  "runTask (upd_swtmr i f s) = runTask s" "g_swtmrScan (upd_swtmr i f s) = g_swtmrScan s"
  by (simp_all add: upd_swtmr_def time_read_def HalGetTickCycle_def OsGetCurrSchedTimeCycle_def LOS_ASSERT_def
      Let_def)

lemma upd_align_sel [simp]:
  "g_swtmrCBArray (upd_align i f s) = g_swtmrCBArray s" "g_swtmrFreeList (upd_align i f s) = g_swtmrFreeList s"
  "g_swtmrAlignID (upd_align i f s) = (g_swtmrAlignID s)(i := f (g_swtmrAlignID s i))"
  "g_swtmrSortLink (upd_align i f s) = g_swtmrSortLink s" "cfg (upd_align i f s) = cfg s"
  "g_swtmrHandlerQueue (upd_align i f s) = g_swtmrHandlerQueue s" "g_taskScheduled (upd_align i f s) = g_taskScheduled s"
  "g_allQueue (upd_align i f s) = g_allQueue s" "pend (upd_align i f s) = pend s"
  "oldSchedTime (upd_align i f s) = oldSchedTime s" "time_read (upd_align i f s) = time_read s"
  "runTask (upd_align i f s) = runTask s" "g_swtmrScan (upd_align i f s) = g_swtmrScan s"
  by (simp_all add: upd_align_def time_read_def HalGetTickCycle_def)

text \<open>The timers are not part of the state the scheduler and the queues keep invariants of.\<close>

lemma queue_inv_cong:
  fixes s s' :: "'a queue_state_scheme"
  assumes "g_taskCBArray s' = g_taskCBArray s" "pend s' = pend s" "g_queueBitmap s' = g_queueBitmap s"
    "g_taskSortLink s' = g_taskSortLink s" "g_swtmrSortLink s' = g_swtmrSortLink s"
    "g_taskMaxNum s' = g_taskMaxNum s" "g_idleTaskID s' = g_idleTaskID s" "cfg s' = cfg s"
    "ASSERT_ENQUEUE_READY \<in> assertFailed s' \<longleftrightarrow> ASSERT_ENQUEUE_READY \<in> assertFailed s"
    "runTask s' = runTask s" "g_allQueue s' = g_allQueue s" "g_freeQueueList s' = g_freeQueueList s"
  shows "queue_inv s' = queue_inv s" "unblocked s' = unblocked s"
proof -
  have "queue_used s' = queue_used s" by (simp add: queue_used_def assms fun_eq_iff)
  then have "queue_ok s' = queue_ok s" by (simp add: queue_ok_def queue_cb_ok_def assms)
  moreover have "sched_inv s' = sched_inv s" by (rule sched_inv_frame) (rule assms)+
  ultimately show "queue_inv s' = queue_inv s" by (simp add: queue_inv_def)
  show "unblocked s' = unblocked s" by (simp add: unblocked_def assms)
qed

lemma inv_swtmr [simp]:
  "queue_inv (upd_swtmr i f s) = queue_inv s" "unblocked (upd_swtmr i f s) = unblocked s"
  "queue_inv (upd_align i g s) = queue_inv s" "unblocked (upd_align i g s) = unblocked s"
  "queue_inv (s\<lparr>g_swtmrFreeList := l\<rparr>) = queue_inv s" "unblocked (s\<lparr>g_swtmrFreeList := l\<rparr>) = unblocked s"
  by (rule queue_inv_cong; simp add: upd_swtmr_def upd_align_def)+

lemma inv_time [simp]:
  "queue_inv (OsSchedUpdateExpireTime start s) = queue_inv s"
  "queue_inv (snd (OsGetCurrSchedTimeCycle s)) = queue_inv s"
proof -
  have c: "calm {} s (OsSchedUpdateExpireTime start s)" "calm {} s (snd (OsGetCurrSchedTimeCycle s))"
    by (intro calm_intros calm_refl)+
  note q = queue_more [OF calmD(2) [OF c(1)]] queue_more [OF calmD(2) [OF c(2)]] and
    cf = calmD(1) [OF c(1)] calmD(1) [OF c(2)]
  have "pend (OsSchedUpdateExpireTime start s) = pend s" "pend (snd (OsGetCurrSchedTimeCycle s)) = pend s"
    by (simp_all add: CurrTime_sel SetNext_sel OsSchedUpdateExpireTime_def Let_def)
  then have "queue_ok (OsSchedUpdateExpireTime start s) = queue_ok s"
    "queue_ok (snd (OsGetCurrSchedTimeCycle s)) = queue_ok s"
    by (simp_all add: queue_ok_def queue_cb_ok_def queue_used_def [abs_def] q cf)
  then show "queue_inv (OsSchedUpdateExpireTime start s) = queue_inv s"
    "queue_inv (snd (OsGetCurrSchedTimeCycle s)) = queue_inv s"
    by (simp_all add: queue_inv_def)
qed

lemma sched_inv_link:
  assumes "sched_inv s" "sortlink_ok l"
  shows "sched_inv (s\<lparr>g_swtmrSortLink := l\<rparr>)"
proof -
  let ?s = "s\<lparr>g_swtmrSortLink := l\<rparr>"
  have t: "task_ok R ?s u = task_ok R s u" for R u
    by (rule task_ok_same) (simp add: same_for_def on_def timed_def)
  have "lists_ok ?s" using sched_invD(3) [OF assms(1)] assms(2)
    by (simp add: lists_ok_def sortlinks_ok_def)
  moreover have "globals_ok ?s" using sched_invD(4) [OF assms(1)] by (simp add: globals_ok_def)
  moreover have "running_ok ?s" using sched_invD(2) [OF assms(1)] by (simp add: running_ok_def)
  ultimately show ?thesis using sched_invD(1) [OF assms(1)] by (simp add: sched_inv_def core_ex_def t)
qed

lemma queue_inv_link:
  assumes "queue_inv s" "sortlink_ok l" shows "queue_inv (s\<lparr>g_swtmrSortLink := l\<rparr>)"
  using assms sched_inv_link [of s l]
  by (simp add: queue_inv_def queue_ok_def queue_cb_ok_def queue_used_def [abs_def])

section \<open>Identifiers\<close>

abbreviation timer_limit :: "'a swtmr_state_scheme \<Rightarrow> nat" where
  "timer_limit s \<equiv> LOSCFG_BASE_CORE_SWTMR_LIMIT (cfg s)"

definition limit_ok :: "los_config \<Rightarrow> bool" where
  "limit_ok c \<longleftrightarrow> 0 < LOSCFG_BASE_CORE_SWTMR_LIMIT c \<and> LOSCFG_BASE_CORE_SWTMR_LIMIT c \<le> 0xFFFF"

lemma timer_index_nat:
  assumes "limit_ok c"
  shows "timer_index c w = unat w mod LOSCFG_BASE_CORE_SWTMR_LIMIT c" "swtmrCbId c w = timer_index c w"
    "timer_index c w < LOSCFG_BASE_CORE_SWTMR_LIMIT c"
proof -
  let ?n = "LOSCFG_BASE_CORE_SWTMR_LIMIT c"
  have n: "0 < ?n" "?n < 2 ^ 16" using assms by (simp_all add: limit_ok_def)
  show i: "timer_index c w = unat w mod ?n"
    using n by (simp add: timer_index_def unat_mod unat_of_nat)
  show lt: "timer_index c w < ?n" using n by (simp add: i)
  have "unat (w mod of_nat ?n) < 2 ^ 16" using lt n(2) by (simp add: timer_index_def)
  then have "unat (ucast (w mod of_nat ?n) :: UINT16) = unat (w mod of_nat ?n)"
    by transfer (simp add: take_bit_eq_mod nat_mod_distrib)
  then show "swtmrCbId c w = timer_index c w" by (simp add: swtmrCbId_def timer_index_def)
qed

lemma max_timerid:
  assumes "limit_ok c"
  shows "unat (OS_SWTMR_MAX_TIMERID c) =
    (2 ^ 32 - 1) div LOSCFG_BASE_CORE_SWTMR_LIMIT c * LOSCFG_BASE_CORE_SWTMR_LIMIT c"
proof -
  let ?n = "LOSCFG_BASE_CORE_SWTMR_LIMIT c"
  have n: "unat (of_nat ?n :: UINT32) = ?n" "0 < ?n" using assms by (simp_all add: limit_ok_def unat_of_nat)
  have "4294967295 div ?n * ?n \<le> 4294967295" by (rule div_times_less_eq_dividend)
  then have "4294967295 div ?n * ?n < 4294967296" by linarith
  then have "unat (0xFFFFFFFF div (of_nat ?n :: UINT32)) * unat (of_nat ?n :: UINT32) < 2 ^ 32"
    unfolding unat_div n(1) by simp
  then show ?thesis
    unfolding OS_SWTMR_MAX_TIMERID_def by (simp add: unat_mult_lem [THEN iffD1] unat_div n(1))
qed

text \<open>The identifier a one-shot timer gets for its next use.\<close>

definition next_id :: "los_config \<Rightarrow> UINT32 \<Rightarrow> UINT32" where
  "next_id c w = (let n = of_nat (LOSCFG_BASE_CORE_SWTMR_LIMIT c)
    in if w < OS_SWTMR_MAX_TIMERID c - n then w + n else w mod n)"

lemma next_id:
  assumes "limit_ok c" "w < OS_SWTMR_MAX_TIMERID c"
  shows "timer_index c (next_id c w) = timer_index c w" "next_id c w < OS_SWTMR_MAX_TIMERID c"
    and "w < OS_SWTMR_MAX_TIMERID c - of_nat (LOSCFG_BASE_CORE_SWTMR_LIMIT c) \<Longrightarrow>
      unat (next_id c w) = unat w + LOSCFG_BASE_CORE_SWTMR_LIMIT c"
proof -
  let ?n = "LOSCFG_BASE_CORE_SWTMR_LIMIT c" and ?M = "unat (OS_SWTMR_MAX_TIMERID c)"
  have n: "unat (of_nat ?n :: UINT32) = ?n" "0 < ?n" "?n \<le> 0xFFFF"
    using assms(1) by (simp_all add: limit_ok_def unat_of_nat)
  have w: "unat w < ?M" using assms(2) by (simp add: word_less_nat_alt)
  have M: "?n \<le> ?M"
  proof -
    have "1 \<le> (2 ^ 32 - 1) div ?n" using n by (simp add: less_eq_div_iff_mult_less_eq)
    then show ?thesis using n(2) unfolding max_timerid [OF assms(1)] by (cases "(2 ^ 32 - 1) div ?n") simp_all
  qed
  have sub: "unat (OS_SWTMR_MAX_TIMERID c - of_nat ?n) = ?M - ?n"
    using M n(1) by (simp add: unat_sub word_le_nat_alt)
  have step: "unat (next_id c w) = unat w + ?n"
    if "w < OS_SWTMR_MAX_TIMERID c - of_nat (LOSCFG_BASE_CORE_SWTMR_LIMIT c)"
  proof -
    have lt: "unat w + ?n < ?M" using that M by (simp add: word_less_nat_alt sub)
    moreover have "?M < 2 ^ 32" using unsigned_less [of "OS_SWTMR_MAX_TIMERID c"] by simp
    ultimately have "unat (w + of_nat ?n) = unat w + ?n" using n(1) by (simp add: unat_word_ariths(1))
    then show ?thesis using that by (simp add: next_id_def Let_def)
  qed
  have wrap: "unat (next_id c w) = unat w mod ?n"
    if "\<not> w < OS_SWTMR_MAX_TIMERID c - of_nat (LOSCFG_BASE_CORE_SWTMR_LIMIT c)"
    using that by (simp add: next_id_def Let_def unat_mod n(1))
  have "unat (next_id c w) mod ?n = unat w mod ?n" using step wrap by fastforce
  then show "timer_index c (next_id c w) = timer_index c w"
    unfolding timer_index_nat(1) [OF assms(1)] .
  have "unat (next_id c w) < ?M"
  proof (cases "w < OS_SWTMR_MAX_TIMERID c - of_nat ?n")
    case True
    then show ?thesis using step M by (simp add: word_less_nat_alt sub)
  next
    case False
    then have "unat (next_id c w) < ?n" using wrap n(2) by simp
    then show ?thesis using M by simp
  qed
  then show "next_id c w < OS_SWTMR_MAX_TIMERID c" by (simp add: word_less_nat_alt)
  show "w < OS_SWTMR_MAX_TIMERID c - of_nat ?n \<Longrightarrow> unat (next_id c w) = unat w + ?n" by (rule step)
qed

section \<open>The chain of the unused timers\<close>

fun timer_chain :: "(nat \<Rightarrow> swtmr_cb) \<Rightarrow> nat option \<Rightarrow> nat list \<Rightarrow> bool" where
  "timer_chain cb p [] \<longleftrightarrow> p = None"
| "timer_chain cb p (i # is) \<longleftrightarrow> p = Some i \<and> timer_chain cb (pstNextTimer (cb i)) is"

fun follow :: "nat \<Rightarrow> (nat \<Rightarrow> swtmr_cb) \<Rightarrow> nat option \<Rightarrow> nat list" where
  "follow (Suc n) cb (Some i) = i # follow n cb (pstNextTimer (cb i))"
| "follow n cb p = []"

lemma follow_chain: "timer_chain cb p is \<Longrightarrow> length is \<le> n \<Longrightarrow> follow n cb p = is"
proof (induction "is" arbitrary: p n)
  case Nil
  then show ?case by (cases n) simp_all
next
  case (Cons i "is")
  then show ?case by (cases n) simp_all
qed

lemma timer_chain_cong:
  "(\<And>i. i \<in> set is \<Longrightarrow> pstNextTimer (cb' i) = pstNextTimer (cb i)) \<Longrightarrow> timer_chain cb' p is = timer_chain cb p is"
  by (induction "is" arbitrary: p) simp_all

definition free_timers :: "'a swtmr_state_scheme \<Rightarrow> nat list" where
  "free_timers s = follow (timer_limit s) (g_swtmrCBArray s) (g_swtmrFreeList s)"

definition swtmr_used :: "'a swtmr_state_scheme \<Rightarrow> nat \<Rightarrow> bool" where
  "swtmr_used s i \<longleftrightarrow> ucState (timer s i) \<noteq> OS_SWTMR_STATUS_UNUSED"

section \<open>The invariant\<close>

definition timer_ok :: "'a swtmr_state_scheme \<Rightarrow> nat \<Rightarrow> bool" where
  "timer_ok s i \<longleftrightarrow> (let t = timer s i in
    timer_index (cfg s) (usTimerID t) = i \<and> usTimerID t < OS_SWTMR_MAX_TIMERID (cfg s) \<and>
    ucState t \<in> {OS_SWTMR_STATUS_UNUSED, OS_SWTMR_STATUS_CREATED, OS_SWTMR_STATUS_TICKING} \<and>
    (ucState t = OS_SWTMR_STATUS_TICKING \<longleftrightarrow> i \<in> set (sortLink (g_swtmrSortLink s))) \<and>
    (ucState t \<noteq> OS_SWTMR_STATUS_UNUSED \<longrightarrow> uwInterval t \<noteq> 0 \<and>
      ucMode t \<in> {LOS_SWTMR_MODE_ONCE, LOS_SWTMR_MODE_PERIOD, LOS_SWTMR_MODE_NO_SELFDELETE}) \<and>
    (LOSCFG_BASE_CORE_SWTMR_ALIGN (cfg s) \<longrightarrow> ucState t = OS_SWTMR_STATUS_TICKING \<longrightarrow>
      canAlign (g_swtmrAlignID s i) \<longrightarrow> isAligned (g_swtmrAlignID s i)))"

definition swtmr_parts :: "'a swtmr_state_scheme \<Rightarrow> nat list \<Rightarrow> bool" where
  "swtmr_parts s free \<longleftrightarrow> limit_ok (cfg s) \<and>
    timer_chain (g_swtmrCBArray s) (g_swtmrFreeList s) free \<and>
    pool_ok free (swtmr_used s) (timer_limit s) \<and>
    set (sortLink (g_swtmrSortLink s)) \<subseteq> {..<timer_limit s} \<and> (\<forall>i<timer_limit s. timer_ok s i)"

definition swtmr_ok :: "'a swtmr_state_scheme \<Rightarrow> bool" where
  "swtmr_ok s \<longleftrightarrow> swtmr_parts s (free_timers s)"

definition swtmr_inv :: "'a swtmr_state_scheme \<Rightarrow> bool" where
  "swtmr_inv s \<longleftrightarrow> queue_inv s \<and> swtmr_ok s"

lemma swtmr_invD: "swtmr_inv s \<Longrightarrow> queue_inv s" "swtmr_inv s \<Longrightarrow> swtmr_ok s"
  by (simp_all add: swtmr_inv_def)

lemma pool_length: "pool_ok free used limit \<Longrightarrow> length free \<le> limit"
  using pool_count [of free used limit] by simp

lemma swtmr_parts_free: "swtmr_parts s free \<Longrightarrow> free_timers s = free"
  unfolding swtmr_parts_def free_timers_def by (auto intro: follow_chain dest: pool_length)

lemma swtmr_partsI: "swtmr_parts s free \<Longrightarrow> swtmr_ok s"
  by (simp add: swtmr_ok_def swtmr_parts_free)

lemma swtmr_okD:
  assumes "swtmr_ok s"
  shows "limit_ok (cfg s)" "timer_chain (g_swtmrCBArray s) (g_swtmrFreeList s) (free_timers s)"
    "pool_ok (free_timers s) (swtmr_used s) (timer_limit s)"
    "i \<in> set (sortLink (g_swtmrSortLink s)) \<Longrightarrow> i < timer_limit s" "i < timer_limit s \<Longrightarrow> timer_ok s i"
  using assms by (auto simp: swtmr_ok_def swtmr_parts_def)

lemma timer_okD:
  assumes "timer_ok s i"
  shows "timer_index (cfg s) (usTimerID (timer s i)) = i"
    "usTimerID (timer s i) < OS_SWTMR_MAX_TIMERID (cfg s)"
    "ucState (timer s i) = OS_SWTMR_STATUS_UNUSED \<or> ucState (timer s i) = OS_SWTMR_STATUS_CREATED \<or>
     ucState (timer s i) = OS_SWTMR_STATUS_TICKING"
    "ucState (timer s i) = OS_SWTMR_STATUS_TICKING \<longleftrightarrow> i \<in> set (sortLink (g_swtmrSortLink s))"
    "swtmr_used s i \<Longrightarrow> uwInterval (timer s i) \<noteq> 0"
    "swtmr_used s i \<Longrightarrow> ucMode (timer s i) = LOS_SWTMR_MODE_ONCE \<or> ucMode (timer s i) = LOS_SWTMR_MODE_PERIOD \<or>
      ucMode (timer s i) = LOS_SWTMR_MODE_NO_SELFDELETE"
    "LOSCFG_BASE_CORE_SWTMR_ALIGN (cfg s) \<Longrightarrow> ucState (timer s i) = OS_SWTMR_STATUS_TICKING \<Longrightarrow>
      canAlign (g_swtmrAlignID s i) \<Longrightarrow> isAligned (g_swtmrAlignID s i)"
  using assms by (auto simp: timer_ok_def Let_def swtmr_used_def)

lemma timer_states [simp]:
  "OS_SWTMR_STATUS_UNUSED \<noteq> OS_SWTMR_STATUS_CREATED" "OS_SWTMR_STATUS_UNUSED \<noteq> OS_SWTMR_STATUS_TICKING"
  "OS_SWTMR_STATUS_CREATED \<noteq> OS_SWTMR_STATUS_TICKING" "OS_SWTMR_STATUS_CREATED \<noteq> OS_SWTMR_STATUS_UNUSED"
  "OS_SWTMR_STATUS_TICKING \<noteq> OS_SWTMR_STATUS_UNUSED" "OS_SWTMR_STATUS_TICKING \<noteq> OS_SWTMR_STATUS_CREATED"
  by (simp_all add: OS_SWTMR_STATUS_UNUSED_def OS_SWTMR_STATUS_CREATED_def OS_SWTMR_STATUS_TICKING_def)

lemma timer_modes [simp]:
  "LOS_SWTMR_MODE_ONCE \<noteq> LOS_SWTMR_MODE_PERIOD" "LOS_SWTMR_MODE_ONCE \<noteq> LOS_SWTMR_MODE_NO_SELFDELETE"
  "LOS_SWTMR_MODE_PERIOD \<noteq> LOS_SWTMR_MODE_NO_SELFDELETE" "LOS_SWTMR_MODE_PERIOD \<noteq> LOS_SWTMR_MODE_ONCE"
  "LOS_SWTMR_MODE_NO_SELFDELETE \<noteq> LOS_SWTMR_MODE_ONCE" "LOS_SWTMR_MODE_NO_SELFDELETE \<noteq> LOS_SWTMR_MODE_PERIOD"
  by (simp_all add: LOS_SWTMR_MODE_ONCE_def LOS_SWTMR_MODE_PERIOD_def LOS_SWTMR_MODE_NO_SELFDELETE_def)

text \<open>An operation that moves one timer and leaves the other ones alone.\<close>

lemma swtmr_ok_upd:
  fixes s s' :: "'a swtmr_state_scheme"
  assumes "swtmr_ok s" "cfg s' = cfg s" "\<And>j. j \<noteq> i \<Longrightarrow> timer s' j = timer s j"
    "\<And>j. j \<noteq> i \<Longrightarrow> canAlign (g_swtmrAlignID s' j) = canAlign (g_swtmrAlignID s j) \<and>
      isAligned (g_swtmrAlignID s' j) = isAligned (g_swtmrAlignID s j)"
    "\<And>j. j \<noteq> i \<Longrightarrow> j \<in> set (sortLink (g_swtmrSortLink s')) \<longleftrightarrow> j \<in> set (sortLink (g_swtmrSortLink s))"
    "i < timer_limit s" "timer_ok s' i"
    "timer_chain (g_swtmrCBArray s') (g_swtmrFreeList s') free" "pool_ok free (swtmr_used s') (timer_limit s)"
  shows "swtmr_ok s'" "free_timers s' = free"
proof -
  have "timer_ok s' j" if "j < timer_limit s" for j
  proof (cases "j = i")
    case False
    then show ?thesis
      using swtmr_okD(5) [OF assms(1) that] assms(3) [of j] assms(4) [of j] assms(5) [of j]
      by (auto simp: timer_ok_def Let_def assms(2))
  qed (simp add: assms(7))
  moreover have "j < timer_limit s" if "j \<in> set (sortLink (g_swtmrSortLink s'))" for j
    using assms(5,6) swtmr_okD(4) [OF assms(1), of j] that by (cases "j = i") auto
  ultimately have "swtmr_parts s' free"
    using swtmr_okD(1) [OF assms(1)] assms(2,8,9) by (auto simp: swtmr_parts_def)
  then show "swtmr_ok s'" "free_timers s' = free" by (simp_all add: swtmr_partsI swtmr_parts_free)
qed

text \<open>Unchanged parts.\<close>

lemma swtmr_ok_cong:
  fixes s s' :: "'a swtmr_state_scheme"
  assumes "cfg s' = cfg s" "g_swtmrCBArray s' = g_swtmrCBArray s" "g_swtmrFreeList s' = g_swtmrFreeList s"
    "g_swtmrAlignID s' = g_swtmrAlignID s" "set (sortLink (g_swtmrSortLink s')) = set (sortLink (g_swtmrSortLink s))"
  shows "swtmr_ok s' = swtmr_ok s" "free_timers s' = free_timers s"
  by (simp_all add: swtmr_ok_def swtmr_parts_def free_timers_def timer_ok_def swtmr_used_def [abs_def] assms Let_def)

section \<open>Sending a handler\<close>

lemma Wake_time [simp]:
  "oldSchedTime (OsSchedTaskWake t s) = oldSchedTime s" "time_read (OsSchedTaskWake t s) = time_read s"
proof -
  have "SysTick_LOAD (OsSchedTaskWake t s) = SysTick_LOAD s \<and> SysTick_VAL (OsSchedTaskWake t s) = SysTick_VAL s \<and>
      g_schedTimerBase (OsSchedTaskWake t s) = g_schedTimerBase s \<and>
      oldSchedTime (OsSchedTaskWake t s) = oldSchedTime s"
    by (simp add: OsSchedTaskWake_def OsSchedTaskEnQueue_def OsSchedPriQueueEnHead_def OsSchedPriQueueEnTail_def
        set_prio_bit_def status_or_def status_clear_def upd_tcb_def LOS_ASSERT_def OsDeleteSortLink_def
        upd_sortlink_def Let_def)
  then show "oldSchedTime (OsSchedTaskWake t s) = oldSchedTime s" "time_read (OsSchedTaskWake t s) = time_read s"
    by (simp_all add: time_read_def HalGetTickCycle_def)
qed

lemma Schedule_time [simp]:
  "oldSchedTime (LOS_Schedule s) = oldSchedTime s" "time_read (LOS_Schedule s) = time_read s"
  "unblocked (LOS_Schedule s) = unblocked s"
  by (simp_all add: LOS_Schedule_def HalTaskSchedule_def time_read_def HalGetTickCycle_def unblocked_def)

lemma upd_queue_time [simp]:
  "oldSchedTime (upd_queue i f s) = oldSchedTime s" "time_read (upd_queue i f s) = time_read s"
  "g_swtmrSortLink (upd_queue i f s) = g_swtmrSortLink s" "queue_state.more (upd_queue i f s) = queue_state.more s"
  "g_taskScheduled (upd_queue i f s) = g_taskScheduled s"
  by (simp_all add: upd_queue_def time_read_def HalGetTickCycle_def)

text \<open>What an operation on the handler queue leaves alone.\<close>

definition timers_same :: "'a swtmr_state_scheme \<Rightarrow> 'a swtmr_state_scheme \<Rightarrow> bool" where
  "timers_same s s' \<longleftrightarrow> cfg s' = cfg s \<and> g_swtmrSortLink s' = g_swtmrSortLink s \<and>
    queue_state.more s' = queue_state.more s \<and> g_taskScheduled s' = g_taskScheduled s \<and>
    oldSchedTime s' = oldSchedTime s \<and> time_read s' = time_read s"

lemma timers_sameD:
  assumes "timers_same s s'"
  shows "cfg s' = cfg s" "g_swtmrSortLink s' = g_swtmrSortLink s" "g_taskScheduled s' = g_taskScheduled s"
    "oldSchedTime s' = oldSchedTime s" "time_read s' = time_read s"
    "g_swtmrHandlerQueue s' = g_swtmrHandlerQueue s" "g_swtmrCBArray s' = g_swtmrCBArray s"
    "g_swtmrFreeList s' = g_swtmrFreeList s" "g_swtmrAlignID s' = g_swtmrAlignID s"
    "g_swtmrScan s' = g_swtmrScan s"
  using assms swtmr_more [of s' s] by (simp_all add: timers_same_def)

lemma timers_same_trans: "timers_same s q \<Longrightarrow> timers_same q s' \<Longrightarrow> timers_same s s'"
  by (simp add: timers_same_def)

lemma queue_more_frame:
  "queue_state.more (OsSchedTaskWake t s) = queue_state.more s" "queue_state.more (LOS_Schedule s) = queue_state.more s"
  by (rule queue_state_more; simp)+

lemma timers_same_transfer:
  fixes s :: "'a swtmr_state_scheme"
  assumes "OsQueueBufferOperate ty (g_allQueue s i) buf n = (c', buf', n')"
  shows "timers_same s (snd (snd (queue_transfer i ty buf n s)))"
  by (simp add: transfer_eq [OF assms] timers_same_def queue_more_frame split: list.split)

text \<open>A write without waiting changes nothing or transfers one message.\<close>

lemma write_no_wait:
  assumes "queue_ok s"
  shows "snd (LOS_QueueWriteCopy i (Some buf) n LOS_NO_WAIT s) = s \<or>
    queue_valid i s \<and> readWriteableCnt (g_allQueue s i) OS_QUEUE_WRITE \<noteq> 0 \<and>
    snd (LOS_QueueWriteCopy i (Some buf) n LOS_NO_WAIT s) =
      snd (snd (queue_transfer i (write_type False) buf n (take_unit i OS_QUEUE_WRITE s)))"
proof -
  have "queue_used s i \<or> queueState (g_allQueue s i) = OS_QUEUE_UNUSED"
    using queue_okD(2) [OF assms, of i] by (simp add: queue_cb_ok_def)
  then show ?thesis
    by (auto simp: LOS_QueueWriteCopy_def OsQueueWriteParameterCheck_def OsQueueOperate_def
        OsQueueOperateParamCheck_def queue_valid_def write_type_def [symmetric, of False, simplified]
        Let_def case_prod_beta take_unit_def not_le)
qed

lemma write_item:
  fixes s :: "'a swtmr_state_scheme" and buf :: bytes and n :: UINT32 and i :: nat
  assumes "queue_inv s" "unblocked s"
  defines "s' \<equiv> snd (LOS_QueueWriteCopy i (Some buf) n LOS_NO_WAIT s)"
  shows "timers_same s s'" "queue_inv s'" "unblocked s'"
proof -
  have "timers_same s s' \<and> queue_inv s' \<and> unblocked s'"
    using write_no_wait [OF queue_invD(2) [OF assms(1)], of i buf n]
  proof (elim disjE conjE)
    let ?q = "take_unit i OS_QUEUE_WRITE s"
    assume v: "queue_valid i s" "readWriteableCnt (g_allQueue s i) OS_QUEUE_WRITE \<noteq> 0"
      and eq: "snd (LOS_QueueWriteCopy i (Some buf) n LOS_NO_WAIT s) =
        snd (snd (queue_transfer i (write_type False) buf n ?q))"
    obtain c' buf' n' where op: "OsQueueBufferOperate (write_type False) (g_allQueue ?q i) buf n = (c', buf', n')"
      by (metis prod_cases3)
    note t = take_unit_inv [OF assms(1) v(1) _ v(2), simplified]
    have ub: "unblocked ?q" using assms(2) by (simp add: take_unit_def)
    have "timers_same s ?q" by (simp add: take_unit_def timers_same_def)
    then have "timers_same s s'"
      using timers_same_transfer [OF op] by (auto simp: s'_def eq intro: timers_same_trans)
    moreover have "queue_inv s'"
      using transfer_inv(1) [OF t(1) ub t(2) op t(4,3)] by (simp add: s'_def eq)
    moreover have "unblocked s'" using unblocked_transfer [OF t(1) ub op] by (simp add: s'_def eq)
    ultimately show ?thesis by simp
  qed (use assms in \<open>simp add: timers_same_def\<close>)
  then show "timers_same s s'" "queue_inv s'" "unblocked s'" by simp_all
qed

end
