(* ===== verification/Swtmr_Ops.thy ===== *)
theory Swtmr_Ops
  imports Swtmr_Inv Queue_Promise
begin

text \<open>
  What each operation of \<open>los_swtmr.c\<close> does to the timers, with the invariant, and the scan of the
  expired timers.
\<close>

section \<open>Starting\<close>

lemma UpdateExpire_sel [simp]:
  "g_allQueue (OsSchedUpdateExpireTime start s) = g_allQueue s"
  "pend (OsSchedUpdateExpireTime start s) = pend s" "g_taskCBArray (OsSchedUpdateExpireTime start s) = g_taskCBArray s"
  "g_allQueue (snd (OsGetCurrSchedTimeCycle s)) = g_allQueue s" "unblocked (OsSchedUpdateExpireTime start s) = unblocked s"
  "pend (snd (OsGetCurrSchedTimeCycle s)) = pend s" "unblocked (snd (OsGetCurrSchedTimeCycle s)) = unblocked s"
proof -
  have c: "calm {} s (OsSchedUpdateExpireTime start s)" "calm {} s (snd (OsGetCurrSchedTimeCycle s))"
    by (intro calm_intros calm_refl)+
  show "g_allQueue (OsSchedUpdateExpireTime start s) = g_allQueue s" by (rule queue_more [OF calmD(2) [OF c(1)]])
  show "g_allQueue (snd (OsGetCurrSchedTimeCycle s)) = g_allQueue s" by (rule queue_more [OF calmD(2) [OF c(2)]])
  show "pend (OsSchedUpdateExpireTime start s) = pend s" "g_taskCBArray (OsSchedUpdateExpireTime start s) = g_taskCBArray s"
    "pend (snd (OsGetCurrSchedTimeCycle s)) = pend s"
    "unblocked (OsSchedUpdateExpireTime start s) = unblocked s" "unblocked (snd (OsGetCurrSchedTimeCycle s)) = unblocked s"
    by (simp_all add: CurrTime_sel SetNext_sel OsSchedUpdateExpireTime_def Let_def unblocked_def)
qed

lemma timers_same_time:
  fixes s :: "'a swtmr_state_scheme"
  shows "g_swtmrCBArray (OsSchedUpdateExpireTime start s) = g_swtmrCBArray s"
    "g_swtmrFreeList (OsSchedUpdateExpireTime start s) = g_swtmrFreeList s"
    "g_swtmrAlignID (OsSchedUpdateExpireTime start s) = g_swtmrAlignID s"
    "g_swtmrHandlerQueue (OsSchedUpdateExpireTime start s) = g_swtmrHandlerQueue s"
    "g_swtmrCBArray (snd (OsGetCurrSchedTimeCycle s)) = g_swtmrCBArray s"
    "g_swtmrFreeList (snd (OsGetCurrSchedTimeCycle s)) = g_swtmrFreeList s"
    "g_swtmrAlignID (snd (OsGetCurrSchedTimeCycle s)) = g_swtmrAlignID s"
    "g_swtmrHandlerQueue (snd (OsGetCurrSchedTimeCycle s)) = g_swtmrHandlerQueue s"
proof -
  have "queue_state.more (OsSchedUpdateExpireTime start s) = queue_state.more s"
    "queue_state.more (snd (OsGetCurrSchedTimeCycle s)) = queue_state.more s"
    by (rule queue_state_more; rule calmD(2) [where H = "{}"]; intro calm_intros calm_refl)+
  note swtmr_more [OF this(1)] swtmr_more [OF this(2)]
  then show "g_swtmrCBArray (OsSchedUpdateExpireTime start s) = g_swtmrCBArray s"
    "g_swtmrFreeList (OsSchedUpdateExpireTime start s) = g_swtmrFreeList s"
    "g_swtmrAlignID (OsSchedUpdateExpireTime start s) = g_swtmrAlignID s"
    "g_swtmrHandlerQueue (OsSchedUpdateExpireTime start s) = g_swtmrHandlerQueue s"
    "g_swtmrCBArray (snd (OsGetCurrSchedTimeCycle s)) = g_swtmrCBArray s"
    "g_swtmrFreeList (snd (OsGetCurrSchedTimeCycle s)) = g_swtmrFreeList s"
    "g_swtmrAlignID (snd (OsGetCurrSchedTimeCycle s)) = g_swtmrAlignID s"
    "g_swtmrHandlerQueue (snd (OsGetCurrSchedTimeCycle s)) = g_swtmrHandlerQueue s"
    by simp_all
qed

declare timers_same_time [simp]

text \<open>The number of ticks the search for an aligned position leads to.\<close>

definition find_count :: "UINT64 \<Rightarrow> nat \<Rightarrow> 'a swtmr_state_scheme \<Rightarrow> UINT32" where
  "find_count now i s =
    (if sortLink (g_swtmrSortLink s) = [] then uwCount (timer s i)
     else
       let own = g_swtmrAlignID s (timer_index (cfg s) (usTimerID (timer s i)))
       in case align_walk s own (uwInterval (timer s i)) (sortLink (g_swtmrSortLink s))
           (OS_NULL_INT, None) (OS_NULL_INT, None) of
         SameInterval \<Rightarrow> 0
       | NoTimes \<Rightarrow> uwCount (timer s i)
       | WalkEnd (Some l) _ \<Rightarrow> OsSwtmrCalcAlignCount now (uwInterval (timer s i)) (usTimerID (timer s l)) s
       | WalkEnd None (Some m) \<Rightarrow> OsSortLinkGetTargetExpireTime (cfg s) now (expires s m)
       | WalkEnd None None \<Rightarrow> uwCount (timer s i))"

lemma FindAlignPos_eq:
  "OsSwtmrFindAlignPos now i s = upd_swtmr i (uwCount_update (\<lambda>_. find_count now i s)) s"
proof -
  have same: "upd_swtmr i (uwCount_update (\<lambda>_. uwCount (timer s i))) s = s" by (simp add: upd_swtmr_def)
  show ?thesis
    by (auto simp: OsSwtmrFindAlignPos_def find_count_def Let_def same split: align_walk_result.split option.split)
qed

definition aligns :: "nat \<Rightarrow> 'a swtmr_state_scheme \<Rightarrow> bool" where
  "aligns i s \<longleftrightarrow> LOSCFG_BASE_CORE_SWTMR_ALIGN (cfg s) \<and> canAlign (g_swtmrAlignID s i) \<and>
    \<not> isAligned (g_swtmrAlignID s i)"

text \<open>The number of ticks \<open>OsSwtmrStart\<close> starts a timer with.\<close>

definition start_count :: "nat \<Rightarrow> 'a swtmr_state_scheme \<Rightarrow> UINT32" where
  "start_count i s =
    (if aligns i s then find_count (fst (OsGetCurrSchedTimeCycle s)) i (upd_align i (isAligned_update (\<lambda>_. True))
       (upd_swtmr i (\<lambda>t. t\<lparr>uwCount := uwInterval t, ucState := OS_SWTMR_STATUS_TICKING\<rparr>) (snd (OsGetCurrSchedTimeCycle s))))
     else uwInterval (timer s i))"

definition start_time :: "nat \<Rightarrow> 'a swtmr_state_scheme \<Rightarrow> UINT64" where
  "start_time i s = fst (OsGetCurrSchedTimeCycle s) + ucast (start_count i s) * of_nat (OS_CYCLE_PER_TICK (cfg s))"

lemma Add2_swtmr:
  "OsAdd2SortLink i t c OS_SORT_LINK_SWTMR s = s\<lparr>g_swtmrSortLink :=
    OsAddNode2SortLink i (SET_SORTLIST_VALUE i (t + ucast c * of_nat (OS_CYCLE_PER_TICK (cfg s))) (g_swtmrSortLink s))\<rparr>"
  by (simp add: OsAdd2SortLink_def upd_sortlink_def)

definition started :: "nat \<Rightarrow> 'a swtmr_state_scheme \<Rightarrow> 'a swtmr_state_scheme" where
  "started i s = (let q = snd (OsGetCurrSchedTimeCycle s) in
     (upd_swtmr i (\<lambda>t. t\<lparr>ucState := OS_SWTMR_STATUS_TICKING, uwCount := start_count i s\<rparr>)
      (if aligns i s then upd_align i (isAligned_update (\<lambda>_. True)) q else q))
      \<lparr>g_swtmrSortLink := OsAddNode2SortLink i (SET_SORTLIST_VALUE i (start_time i s) (g_swtmrSortLink s))\<rparr>)"

lemma Start_eq:
  assumes "timer_index (cfg s) (usTimerID (timer s i)) = i"
  shows "OsSwtmrStart i s = (if g_taskScheduled s
    then OsSchedUpdateExpireTime (fst (OsGetCurrSchedTimeCycle s)) (started i s) else started i s)"
proof -
  obtain now q where q: "OsGetCurrSchedTimeCycle s = (now, q)" by fastforce
  have sel: "cfg q = cfg s" "timer q i = timer s i" "g_swtmrAlignID q = g_swtmrAlignID s"
    "g_swtmrSortLink q = g_swtmrSortLink s" "g_taskScheduled q = g_taskScheduled s"
    using timers_same_time(5,7) [of s] frame_CurrTime [of s] by (simp_all add: q)
  let ?on = "\<lambda>t. t\<lparr>uwCount := uwInterval t, ucState := OS_SWTMR_STATUS_TICKING\<rparr>"
  have comm: "upd_swtmr i f (upd_align i g r) = upd_align i g (upd_swtmr i f r)" for f g and r :: "'a swtmr_state_scheme"
    by (simp add: upd_swtmr_def upd_align_def)
  have twice: "upd_swtmr i f (upd_swtmr i g r) = upd_swtmr i (\<lambda>t. f (g t)) r" for f g and r :: "'a swtmr_state_scheme"
    by (simp add: upd_swtmr_def)
  have swap: "t\<lparr>uwCount := c, ucState := v\<rparr> = t\<lparr>ucState := v, uwCount := c\<rparr>" for t c v by (cases t) simp
  have plain: "upd_swtmr i ?on q = upd_swtmr i (\<lambda>t. t\<lparr>ucState := OS_SWTMR_STATUS_TICKING, uwCount := uwInterval (timer s i)\<rparr>) q"
    by (simp add: upd_swtmr_def sel swap)
  show ?thesis
  proof (cases "aligns i s")
    case True
    define c where "c = find_count now i (upd_align i (isAligned_update (\<lambda>_. True)) (upd_swtmr i ?on q))"
    have c: "start_count i s = c" using True by (simp add: start_count_def q c_def)
    show ?thesis
      using True assms
      by (simp add: OsSwtmrStart_def started_def q aligns_def FindAlignPos_eq Add2_swtmr start_time_def c
          LOS_TaskIsRunning_def sel Let_def flip: c_def) (simp add: comm twice)
  next
    case False
    then have c: "start_count i s = uwInterval (timer s i)" by (simp add: start_count_def)
    have cond: "(LOSCFG_BASE_CORE_SWTMR_ALIGN (cfg s) \<and> canAlign (g_swtmrAlignID s i) \<and>
        \<not> isAligned (g_swtmrAlignID s i)) = False"
      using False by (simp add: aligns_def)
    show ?thesis
      using assms
      by (simp add: OsSwtmrStart_def started_def q aligns_def cond Add2_swtmr start_time_def c
          LOS_TaskIsRunning_def sel Let_def plain)
  qed
qed

lemma unblocked_link: "unblocked (s\<lparr>g_swtmrSortLink := l\<rparr>) = unblocked s"
  by (simp add: unblocked_def)

lemma started_sel:
  "g_swtmrCBArray (started i s) = (g_swtmrCBArray s)(i := (timer s i)\<lparr>ucState := OS_SWTMR_STATUS_TICKING, uwCount := start_count i s\<rparr>)"
  "g_swtmrFreeList (started i s) = g_swtmrFreeList s" "g_swtmrHandlerQueue (started i s) = g_swtmrHandlerQueue s"
  "g_swtmrSortLink (started i s) = OsAddNode2SortLink i (SET_SORTLIST_VALUE i (start_time i s) (g_swtmrSortLink s))"
  "g_swtmrAlignID (started i s) = (if aligns i s
    then (g_swtmrAlignID s)(i := (g_swtmrAlignID s i)\<lparr>isAligned := True\<rparr>) else g_swtmrAlignID s)"
  "cfg (started i s) = cfg s" "g_taskScheduled (started i s) = g_taskScheduled s" "g_allQueue (started i s) = g_allQueue s"
  "unblocked (started i s) = unblocked s"
  by (simp_all add: started_def Let_def unblocked_link)

lemma Start_sel:
  assumes "timer_index (cfg s) (usTimerID (timer s i)) = i"
  shows "g_swtmrCBArray (OsSwtmrStart i s) = (g_swtmrCBArray s)(i := (timer s i)\<lparr>ucState := OS_SWTMR_STATUS_TICKING, uwCount := start_count i s\<rparr>)"
  "g_swtmrFreeList (OsSwtmrStart i s) = g_swtmrFreeList s" "g_swtmrHandlerQueue (OsSwtmrStart i s) = g_swtmrHandlerQueue s"
  "g_swtmrSortLink (OsSwtmrStart i s) = OsAddNode2SortLink i (SET_SORTLIST_VALUE i (start_time i s) (g_swtmrSortLink s))"
  "g_swtmrAlignID (OsSwtmrStart i s) = (if aligns i s
    then (g_swtmrAlignID s)(i := (g_swtmrAlignID s i)\<lparr>isAligned := True\<rparr>) else g_swtmrAlignID s)"
  "cfg (OsSwtmrStart i s) = cfg s" "g_taskScheduled (OsSwtmrStart i s) = g_taskScheduled s"
  "g_allQueue (OsSwtmrStart i s) = g_allQueue s" "unblocked (OsSwtmrStart i s) = unblocked s"
  by (simp_all add: Start_eq [OF assms] started_sel)

lemma Start_tasks:
  assumes "timer_index (cfg s) (usTimerID (timer s i)) = i"
  shows "pend (OsSwtmrStart i s) = pend s" "g_taskCBArray (OsSwtmrStart i s) = g_taskCBArray s"
proof -
  have "pend (started i s) = pend s" "g_taskCBArray (started i s) = g_taskCBArray s"
    by (simp_all add: started_def Let_def upd_swtmr_def upd_align_def CurrTime_sel)
  then show "pend (OsSwtmrStart i s) = pend s" "g_taskCBArray (OsSwtmrStart i s) = g_taskCBArray s"
    by (simp_all add: Start_eq [OF assms])
qed

lemma Start_time:
  assumes "timer_index (cfg s) (usTimerID (timer s i)) = i" "time_read s"
  shows "time_read (OsSwtmrStart i s)" "oldSchedTime (OsSwtmrStart i s) = oldSchedTime s"
    "start_time i s = oldSchedTime s + ucast (start_count i s) * of_nat (OS_CYCLE_PER_TICK (cfg s))"
proof -
  note now = time_read_now [OF assms(2)]
  have "time_read (started i s)" "oldSchedTime (started i s) = oldSchedTime s"
    using assms(2) by (simp_all add: started_def now) (simp_all add: time_read_def HalGetTickCycle_def upd_swtmr_def upd_align_def)
  then show "time_read (OsSwtmrStart i s)" "oldSchedTime (OsSwtmrStart i s) = oldSchedTime s"
    using time_read_UpdateExpire [of "started i s"] by (simp_all add: Start_eq [OF assms(1)])
  show "start_time i s = oldSchedTime s + ucast (start_count i s) * of_nat (OS_CYCLE_PER_TICK (cfg s))"
    by (simp add: start_time_def now)
qed

lemma Start_queue_inv:
  assumes "timer_index (cfg s) (usTimerID (timer s i)) = i" "queue_inv s"
    "i \<notin> set (sortLink (g_swtmrSortLink s))" "start_time i s \<noteq> OS_SORT_LINK_INVALID_TIME"
  shows "queue_inv (OsSwtmrStart i s)"
proof -
  have "sortlinks_ok s" using sched_invD(3) [OF queue_invD(1) [OF assms(2)]] by (simp add: lists_ok_def)
  then have "sortlink_ok (OsAddNode2SortLink i (SET_SORTLIST_VALUE i (start_time i s) (g_swtmrSortLink s)))"
    using assms(3,4) by (intro sortlink_ok_add) (simp_all add: sortlinks_ok_def)
  then have "queue_inv (started i s)"
    using assms(2) unfolding started_def Let_def by (intro queue_inv_link) simp_all
  then show ?thesis by (simp add: Start_eq [OF assms(1)])
qed

section \<open>Stopping and releasing\<close>

lemma Stop_sel:
  assumes "timer_index (cfg s) (usTimerID (timer s i)) = i" "expires s i \<noteq> OS_SORT_LINK_INVALID_TIME"
  shows "g_swtmrCBArray (OsSwtmrStop i s) = (g_swtmrCBArray s)(i := (timer s i)\<lparr>ucState := OS_SWTMR_STATUS_CREATED\<rparr>)"
  "g_swtmrFreeList (OsSwtmrStop i s) = g_swtmrFreeList s" "g_swtmrHandlerQueue (OsSwtmrStop i s) = g_swtmrHandlerQueue s"
  "g_swtmrSortLink (OsSwtmrStop i s) = OsDeleteNodeSortLink i (g_swtmrSortLink s)"
  "j \<noteq> i \<Longrightarrow> g_swtmrAlignID (OsSwtmrStop i s) j = g_swtmrAlignID s j"
  "canAlign (g_swtmrAlignID (OsSwtmrStop i s) j) = canAlign (g_swtmrAlignID s j)"
  "cfg (OsSwtmrStop i s) = cfg s" "g_taskScheduled (OsSwtmrStop i s) = g_taskScheduled s"
  "g_allQueue (OsSwtmrStop i s) = g_allQueue s" "unblocked (OsSwtmrStop i s) = unblocked s"
  using assms
  by (simp_all add: OsSwtmrStop_def Let_def case_prod_beta LOS_TaskIsRunning_def OsDeleteSortLink_def upd_sortlink_def
      OsGetSortLinkAttribute_def unblocked_link)

lemma Stop_queue_inv:
  assumes "queue_inv s" shows "queue_inv (OsSwtmrStop i s)"
proof -
  let ?q = "OsDeleteSortLink i OS_SORT_LINK_SWTMR s"
  have "sortlinks_ok s" using sched_invD(3) [OF queue_invD(1) [OF assms]] by (simp add: lists_ok_def)
  then have "sortlink_ok (OsDeleteNodeSortLink i (g_swtmrSortLink s))"
    by (intro sortlink_ok_delete) (simp add: sortlinks_ok_def)
  then have "queue_inv ?q"
    using assms by (simp add: OsDeleteSortLink_def upd_sortlink_def queue_inv_link)
  then show ?thesis by (simp add: OsSwtmrStop_def Let_def case_prod_beta)
qed

lemma Delete_sel:
  assumes "timer_index (cfg s) (usTimerID (timer s i)) = i"
  shows "g_swtmrCBArray (OsSwtmrDelete i s) =
      (g_swtmrCBArray s)(i := (timer s i)\<lparr>pstNextTimer := g_swtmrFreeList s, ucState := OS_SWTMR_STATUS_UNUSED\<rparr>)"
  "g_swtmrFreeList (OsSwtmrDelete i s) = Some i" "g_swtmrHandlerQueue (OsSwtmrDelete i s) = g_swtmrHandlerQueue s"
  "g_swtmrSortLink (OsSwtmrDelete i s) = g_swtmrSortLink s"
  "j \<noteq> i \<Longrightarrow> g_swtmrAlignID (OsSwtmrDelete i s) j = g_swtmrAlignID s j"
  "cfg (OsSwtmrDelete i s) = cfg s" "g_taskScheduled (OsSwtmrDelete i s) = g_taskScheduled s"
  "g_allQueue (OsSwtmrDelete i s) = g_allQueue s" "unblocked (OsSwtmrDelete i s) = unblocked s"
  "queue_inv (OsSwtmrDelete i s) = queue_inv s" "oldSchedTime (OsSwtmrDelete i s) = oldSchedTime s"
  "time_read (OsSwtmrDelete i s) = time_read s"
proof -
  have sel: "g_allQueue (s\<lparr>g_swtmrFreeList := l\<rparr>) = g_allQueue s" "time_read (s\<lparr>g_swtmrFreeList := l\<rparr>) = time_read s"
    for l and s :: "'a swtmr_state_scheme"
    by (simp_all add: time_read_def HalGetTickCycle_def)
  show "g_swtmrCBArray (OsSwtmrDelete i s) =
      (g_swtmrCBArray s)(i := (timer s i)\<lparr>pstNextTimer := g_swtmrFreeList s, ucState := OS_SWTMR_STATUS_UNUSED\<rparr>)"
  "g_swtmrFreeList (OsSwtmrDelete i s) = Some i" "g_swtmrHandlerQueue (OsSwtmrDelete i s) = g_swtmrHandlerQueue s"
  "g_swtmrSortLink (OsSwtmrDelete i s) = g_swtmrSortLink s"
  "j \<noteq> i \<Longrightarrow> g_swtmrAlignID (OsSwtmrDelete i s) j = g_swtmrAlignID s j"
  "cfg (OsSwtmrDelete i s) = cfg s" "g_taskScheduled (OsSwtmrDelete i s) = g_taskScheduled s"
  "g_allQueue (OsSwtmrDelete i s) = g_allQueue s" "unblocked (OsSwtmrDelete i s) = unblocked s"
  "queue_inv (OsSwtmrDelete i s) = queue_inv s" "oldSchedTime (OsSwtmrDelete i s) = oldSchedTime s"
  "time_read (OsSwtmrDelete i s) = time_read s"
    using assms by (simp_all add: OsSwtmrDelete_def Let_def sel)
qed

section \<open>Expiry\<close>

definition unlink :: "nat \<Rightarrow> 'a swtmr_state_scheme \<Rightarrow> 'a swtmr_state_scheme" where
  "unlink i s = s\<lparr>g_swtmrSortLink := OsDeleteNodeSortLink i (g_swtmrSortLink s)\<rparr>"

text \<open>The state after the handler of timer \<open>i\<close> has been sent.\<close>

definition item_sent :: "nat \<Rightarrow> 'a swtmr_state_scheme \<Rightarrow> 'a swtmr_state_scheme" where
  "item_sent i s = snd (LOS_QueueWriteCopy (g_swtmrHandlerQueue s)
     (Some (handler_item (pfnHandler (timer s i)) (uwTimerArg (timer s i)))) sizeof_SwtmrHandlerItem LOS_NO_WAIT
     (unlink i s))"

definition expired_timer :: "los_config \<Rightarrow> nat option \<Rightarrow> swtmr_cb \<Rightarrow> swtmr_cb" where
  "expired_timer c head t =
    (if ucMode t = LOS_SWTMR_MODE_ONCE
     then t\<lparr>pstNextTimer := head, ucState := OS_SWTMR_STATUS_UNUSED, usTimerID := next_id c (usTimerID t)\<rparr>
     else if ucMode t = LOS_SWTMR_MODE_PERIOD then t\<lparr>ucState := OS_SWTMR_STATUS_TICKING, uwCount := uwInterval t\<rparr>
     else t\<lparr>ucState := OS_SWTMR_STATUS_CREATED\<rparr>)"

definition next_expiry :: "nat \<Rightarrow> 'a swtmr_state_scheme \<Rightarrow> UINT64" where
  "next_expiry i s = oldSchedTime s + ucast (uwInterval (timer s i)) * of_nat (OS_CYCLE_PER_TICK (cfg s))"

lemma unlink_sel [simp]:
  "g_swtmrCBArray (unlink i s) = g_swtmrCBArray s" "g_swtmrFreeList (unlink i s) = g_swtmrFreeList s"
  "g_swtmrAlignID (unlink i s) = g_swtmrAlignID s" "g_swtmrHandlerQueue (unlink i s) = g_swtmrHandlerQueue s"
  "g_swtmrSortLink (unlink i s) = OsDeleteNodeSortLink i (g_swtmrSortLink s)" "cfg (unlink i s) = cfg s"
  "unblocked (unlink i s) = unblocked s" "time_read (unlink i s) = time_read s" "oldSchedTime (unlink i s) = oldSchedTime s"
  "g_taskScheduled (unlink i s) = g_taskScheduled s" "g_allQueue (unlink i s) = g_allQueue s" "pend (unlink i s) = pend s"
  by (simp_all add: unlink_def unblocked_link time_read_def HalGetTickCycle_def)

lemma queue_inv_sortlink: "queue_inv s \<Longrightarrow> sortlink_ok (g_swtmrSortLink s)"
  using sched_invD(3) [OF queue_invD(1), of s] by (auto simp: lists_ok_def sortlinks_ok_def)

lemma upd_id:
  "upd_swtmr i (usTimerID_update f) s = upd_swtmr i (\<lambda>t. t\<lparr>usTimerID := f (usTimerID (timer s i))\<rparr>) s"
proof -
  have "usTimerID_update f t = t\<lparr>usTimerID := f (usTimerID t)\<rparr>" for t by (cases t) simp
  then show ?thesis unfolding upd_swtmr_def by metis
qed

lemma item_sent:
  fixes s :: "'a swtmr_state_scheme"
  assumes "queue_inv s" "unblocked s"
  shows "timers_same (unlink i s) (item_sent i s)" "queue_inv (item_sent i s)" "unblocked (item_sent i s)"
proof -
  have q: "queue_inv (unlink i s)"
    using assms(1) queue_inv_sortlink [OF assms(1)] unfolding unlink_def
    by (intro queue_inv_link sortlink_ok_delete)
  show "timers_same (unlink i s) (item_sent i s)" "queue_inv (item_sent i s)" "unblocked (item_sent i s)"
    unfolding item_sent_def using write_item [OF q] assms(2) by simp_all
qed

lemma TimeoutHandle_eq:
  fixes s :: "'a swtmr_state_scheme"
  assumes "queue_inv s" "unblocked s"
  shows "OsSwtmrTimeoutHandle i (unlink i s) =
    (let w = item_sent i s; t = timer s i in
     if ucMode t = LOS_SWTMR_MODE_ONCE
     then upd_swtmr i (\<lambda>t. t\<lparr>usTimerID := next_id (cfg s) (usTimerID (timer s i))\<rparr>) (OsSwtmrDelete i w)
     else if ucMode t = LOS_SWTMR_MODE_PERIOD then OsSwtmrStart i w
     else if ucMode t = LOS_SWTMR_MODE_NO_SELFDELETE then upd_swtmr i (ucState_update (\<lambda>_. OS_SWTMR_STATUS_CREATED)) w
     else w)"
proof -
  note w = timers_sameD [OF item_sent(1) [OF assms, of i], simplified]
  have "snd (LOS_QueueWriteCopy (g_swtmrHandlerQueue s)
      (Some (handler_item (pfnHandler (timer s i)) (uwTimerArg (timer s i)))) sizeof_SwtmrHandlerItem LOS_NO_WAIT
      (unlink i s)) = item_sent i s"
    by (simp add: item_sent_def)
  moreover have "usTimerID (timer (OsSwtmrDelete i q) i) = usTimerID (timer q i)" "cfg (OsSwtmrDelete i q) = cfg q"
    for q :: "'a swtmr_state_scheme"
    by (simp_all add: OsSwtmrDelete_def Let_def)
  ultimately show ?thesis
    by (simp add: OsSwtmrTimeoutHandle_def Let_def case_prod_beta w next_id_def upd_id [of _ "\<lambda>x. x + _"]
        upd_id [of _ "\<lambda>x. x mod _"])
qed

lemma relink:
  assumes "sortlink_ok sl"
  shows "sortLink (OsAddNode2SortLink i (SET_SORTLIST_VALUE i v (OsDeleteNodeSortLink i sl))) =
      insert_position ((responseTime sl)(i := v)) i (remove1 i (sortLink sl))"
    "responseTime (OsAddNode2SortLink i (SET_SORTLIST_VALUE i v (OsDeleteNodeSortLink i sl))) = (responseTime sl)(i := v)"
    "j \<in> set (remove1 i (sortLink sl)) \<longleftrightarrow> j \<noteq> i \<and> j \<in> set (sortLink sl)"
proof -
  show r: "j \<in> set (remove1 i (sortLink sl)) \<longleftrightarrow> j \<noteq> i \<and> j \<in> set (sortLink sl)" for j
    using assms by (auto simp: sortlink_ok_def)
  show "sortLink (OsAddNode2SortLink i (SET_SORTLIST_VALUE i v (OsDeleteNodeSortLink i sl))) =
      insert_position ((responseTime sl)(i := v)) i (remove1 i (sortLink sl))"
    "responseTime (OsAddNode2SortLink i (SET_SORTLIST_VALUE i v (OsDeleteNodeSortLink i sl))) = (responseTime sl)(i := v)"
    using add_sortlink [OF sortlink_ok_delete [OF assms], of i i v] r [of i] by simp_all
qed

text \<open>After the message nothing happens to the tasks.\<close>

lemma timeout_tasks:
  fixes s :: "'a swtmr_state_scheme" and i :: nat
  assumes "queue_inv s" "unblocked s" "timer_index (cfg s) (usTimerID (timer s i)) = i"
  shows "pend (OsSwtmrTimeoutHandle i (unlink i s)) = pend (item_sent i s)"
    "g_taskCBArray (OsSwtmrTimeoutHandle i (unlink i s)) = g_taskCBArray (item_sent i s)"
proof -
  note same = timers_sameD [OF item_sent(1) [OF assms(1,2), of i], simplified]
  have idx: "timer_index (cfg (item_sent i s)) (usTimerID (timer (item_sent i s) i)) = i" using assms(3) by (simp add: same)
  have "pend (OsSwtmrDelete i q) = pend q" "g_taskCBArray (OsSwtmrDelete i q) = g_taskCBArray q" for q :: "'a swtmr_state_scheme"
    by (simp_all add: OsSwtmrDelete_def Let_def upd_swtmr_def upd_align_def)
  then show "pend (OsSwtmrTimeoutHandle i (unlink i s)) = pend (item_sent i s)"
    "g_taskCBArray (OsSwtmrTimeoutHandle i (unlink i s)) = g_taskCBArray (item_sent i s)"
    by (simp_all add: TimeoutHandle_eq [OF assms(1,2)] Let_def Start_tasks [OF idx] upd_swtmr_def)
qed

text \<open>One expired timer, taken off the sort link and handled.\<close>

lemma timeout_step:
  fixes s :: "'a swtmr_state_scheme" and i :: nat
  assumes "swtmr_inv s" "unblocked s" "time_read s" "i \<in> set (sortLink (g_swtmrSortLink s))"
    "ucMode (timer s i) = LOS_SWTMR_MODE_PERIOD \<Longrightarrow> next_expiry i s \<noteq> OS_SORT_LINK_INVALID_TIME"
  defines "s' \<equiv> OsSwtmrTimeoutHandle i (unlink i s)"
  shows "swtmr_inv s'" "unblocked s'" "time_read s'" "oldSchedTime s' = oldSchedTime s" "cfg s' = cfg s"
    "g_swtmrHandlerQueue s' = g_swtmrHandlerQueue s"
    and "g_swtmrCBArray s' = (g_swtmrCBArray s)(i := expired_timer (cfg s) (g_swtmrFreeList s) (timer s i))"
    and "g_swtmrSortLink s' = (if ucMode (timer s i) = LOS_SWTMR_MODE_PERIOD
      then OsAddNode2SortLink i (SET_SORTLIST_VALUE i (next_expiry i s) (OsDeleteNodeSortLink i (g_swtmrSortLink s)))
      else OsDeleteNodeSortLink i (g_swtmrSortLink s))"
    and "g_allQueue s' = g_allQueue (item_sent i s)"
    and "free_timers s' = (if ucMode (timer s i) = LOS_SWTMR_MODE_ONCE then i # free_timers s else free_timers s)"
proof -
  note inv = swtmr_invD [OF assms(1)] and ok = swtmr_okD [OF swtmr_invD(2) [OF assms(1)]]
  have lt: "i < timer_limit s" using ok(4) [OF assms(4)] .
  note t = timer_okD [OF ok(5) [OF lt]]
  have tick: "ucState (timer s i) = OS_SWTMR_STATUS_TICKING" using t(4) assms(4) by simp
  then have used: "swtmr_used s i" by (simp add: swtmr_used_def)
  have free: "i \<notin> set (free_timers s)" using pool_okD(2) [OF ok(3), of i] used by simp
  define w where "w = item_sent i s"
  note same = timers_sameD [OF item_sent(1) [OF inv(1) assms(2), of i], folded w_def, simplified] and
    q = item_sent(2,3) [OF inv(1) assms(2), of i, folded w_def]
  have sl: "sortlink_ok (g_swtmrSortLink s)" by (rule queue_inv_sortlink [OF inv(1)])
  then have off: "i \<notin> set (remove1 i (sortLink (g_swtmrSortLink s)))" by (simp add: sortlink_ok_def)
  have idx: "timer_index (cfg w) (usTimerID (timer w i)) = i" using t(1) by (simp add: same)
  have al: "\<not> aligns i w" using t(7) tick by (auto simp: aligns_def same)
  then have cnt: "start_count i w = uwInterval (timer s i)" by (simp add: start_count_def same)
  have st: "start_time i w = next_expiry i s"
    using Start_time(3) [OF idx] assms(3) by (simp add: cnt next_expiry_def same)
  note start = Start_sel [OF idx] and stime = Start_time [OF idx]
  note del = Delete_sel [OF idx]
  have eq: "s' = (if ucMode (timer s i) = LOS_SWTMR_MODE_ONCE
      then upd_swtmr i (\<lambda>t. t\<lparr>usTimerID := next_id (cfg s) (usTimerID (timer s i))\<rparr>) (OsSwtmrDelete i w)
      else if ucMode (timer s i) = LOS_SWTMR_MODE_PERIOD then OsSwtmrStart i w
      else upd_swtmr i (ucState_update (\<lambda>_. OS_SWTMR_STATUS_CREATED)) w)"
    using t(6) [OF used] by (auto simp: s'_def TimeoutHandle_eq [OF inv(1) assms(2)] Let_def w_def)
  show c: "cfg s' = cfg s" by (simp add: eq del start same)
  show "g_swtmrHandlerQueue s' = g_swtmrHandlerQueue s" by (simp add: eq del start same)
  show "oldSchedTime s' = oldSchedTime s" using stime assms(3) by (simp add: eq del same)
  show "time_read s'" using stime assms(3) by (simp add: eq del same)
  show "unblocked s'" using q(2) by (simp add: eq del start)
  show "g_allQueue s' = g_allQueue (item_sent i s)" by (simp add: eq del start flip: w_def)
  show cb: "g_swtmrCBArray s' = (g_swtmrCBArray s)(i := expired_timer (cfg s) (g_swtmrFreeList s) (timer s i))"
    by (simp add: eq del start same expired_timer_def cnt)
  show link: "g_swtmrSortLink s' = (if ucMode (timer s i) = LOS_SWTMR_MODE_PERIOD
      then OsAddNode2SortLink i (SET_SORTLIST_VALUE i (next_expiry i s) (OsDeleteNodeSortLink i (g_swtmrSortLink s)))
      else OsDeleteNodeSortLink i (g_swtmrSortLink s))"
    by (simp add: eq del start same st)
  have fl: "g_swtmrFreeList s' = (if ucMode (timer s i) = LOS_SWTMR_MODE_ONCE then Some i else g_swtmrFreeList s)"
    by (simp add: eq del start same)
  have ali: "g_swtmrAlignID s' j = g_swtmrAlignID s j" if "j \<noteq> i" for j
    using that by (simp add: eq del start same)
  have set_link: "j \<in> set (sortLink (g_swtmrSortLink s')) \<longleftrightarrow>
      (if j = i then ucMode (timer s i) = LOS_SWTMR_MODE_PERIOD else j \<in> set (sortLink (g_swtmrSortLink s)))" for j
    using relink(3) [OF sl, of j i] by (auto simp: link relink [OF sl])
  define fr where "fr = (if ucMode (timer s i) = LOS_SWTMR_MODE_ONCE then i # free_timers s else free_timers s)"
  have chain: "timer_chain (g_swtmrCBArray s') (pstNext) (free_timers s) = timer_chain (g_swtmrCBArray s) pstNext (free_timers s)"
    for pstNext using free by (intro timer_chain_cong) (auto simp: cb)
  have ali': "g_swtmrAlignID s' i = g_swtmrAlignID s i" if "ucMode (timer s i) = LOS_SWTMR_MODE_PERIOD"
    using that al by (simp add: eq start same)
  have "timer_ok s' i"
    using t(1,2) next_id(1,2) [OF ok(1) t(2)] t(7) tick t(6) [OF used] t(5) [OF used] ali' set_link [of i]
    unfolding timer_ok_def Let_def cb c by (auto simp: expired_timer_def)
  moreover have "timer_chain (g_swtmrCBArray s') (g_swtmrFreeList s') fr"
    using ok(2) by (simp add: fr_def chain fl) (simp add: cb expired_timer_def)
  moreover have "pool_ok fr (swtmr_used s') (timer_limit s)"
  proof -
    have "swtmr_used s' = (if ucMode (timer s i) = LOS_SWTMR_MODE_ONCE then (swtmr_used s)(i := False) else swtmr_used s)"
      using used by (auto simp: fun_eq_iff swtmr_used_def cb expired_timer_def)
    then show ?thesis using pool_ok_give [OF ok(3) used lt] ok(3) by (simp add: fr_def)
  qed
  ultimately have "swtmr_ok s' \<and> free_timers s' = fr"
    using swtmr_ok_upd [OF swtmr_invD(2) [OF assms(1)] c _ _ _ lt, of fr] ali by (simp add: cb set_link)
  then show "free_timers s' = (if ucMode (timer s i) = LOS_SWTMR_MODE_ONCE then i # free_timers s else free_timers s)"
    by (simp add: fr_def)
  have "queue_inv s'"
    using q(1) Start_queue_inv [OF idx q(1)] off assms(5) by (simp add: eq del same st)
  with \<open>swtmr_ok s' \<and> free_timers s' = fr\<close> show "swtmr_inv s'" by (simp add: swtmr_inv_def)
qed

section \<open>The messages\<close>

definition timer_item :: "swtmr_cb \<Rightarrow> UINT8 list" where
  "timer_item t = message (handler_item (pfnHandler t) (uwTimerArg t)) sizeof_SwtmrHandlerItem"

definition handler_queue_ok :: "'a swtmr_state_scheme \<Rightarrow> bool" where
  "handler_queue_ok s \<longleftrightarrow> queue_valid (g_swtmrHandlerQueue s) s \<and>
    unat (queueSize (g_allQueue s (g_swtmrHandlerQueue s))) = 12"

text \<open>
  For the handler queue the end of a timer is a write, between steps that do not use it. \<open>R\<close> are the
  readers that have been woken and have not gone on.
\<close>

lemma tasks_elsewhere:
  assumes "queue_inv s'" "cfg s' = cfg s" "g_allQueue s' i = g_allQueue s i" "pend s' = pend s"
    "g_taskCBArray s' = g_taskCBArray s"
  shows "elsewhere i T s s'"
  using assms by (simp add: elsewhere_def awake_def)

lemma item_delivered:
  fixes s :: "'a swtmr_state_scheme"
  defines "h \<equiv> g_swtmrHandlerQueue s"
  assumes "promise_inv h (s, q, R, W)" "unblocked s" "handler_queue_ok s"
    "length q + card W < unat (queueLen (g_allQueue s h))"
  shows "rtranclp (queue_step h) (s, q, R, W)
      (item_sent i s, q @ [timer_item (timer s i)], R \<union> set (take 1 (pend s (QueueReadWait h))), W)"
    "pend (item_sent i s) (QueueReadWait h) = drop 1 (pend s (QueueReadWait h))"
    "handler_queue_ok (item_sent i s)" "queueLen (g_allQueue (item_sent i s) h) = queueLen (g_allQueue s h)"
proof -
  let ?s = "unlink i s" and ?buf = "handler_item (pfnHandler (timer s i)) (uwTimerArg (timer s i))"
  note inv = promise_invD(1) [OF assms(2)]
  have inv': "queue_inv ?s"
    using inv queue_inv_sortlink [OF inv] unfolding unlink_def by (intro queue_inv_link sortlink_ok_delete)
  have "elsewhere h (R \<union> W) s ?s" by (rule tasks_elsewhere [OF inv']) (simp_all add: unlink_def)
  then have st1: "queue_step h (s, q, R, W) (?s, q, R, W)" by (rule queue_step.other)
  have p: "promise_inv h (?s, q, R, W)" using step_keeps [OF st1 assms(2)] by (simp add: keeps_promise_def)
  note d = promise_invD [OF p]
  have size: "unat (queueSize (g_allQueue ?s h)) = 12"
    using assms(4) by (simp add: handler_queue_ok_def h_def)
  then have n: "sizeof_SwtmrHandlerItem \<noteq> 0" "unat sizeof_SwtmrHandlerItem + 4 \<le> unat (queueSize (g_allQueue ?s h))"
    by (simp_all add: sizeof_SwtmrHandlerItem_def)
  have cnt: "readWriteableCnt (g_allQueue ?s h) OS_QUEUE_WRITE \<noteq> 0"
    using d(3) assms(5) by (auto simp: queue_rel_def Let_def)
  have ub: "unblocked ?s" using assms(3) by simp
  obtain ret s' where w: "write_service False h (Some ?buf) sizeof_SwtmrHandlerItem LOS_NO_WAIT ?s = (ret, s')" by fastforce
  have s': "item_sent i s = s'" using w by (simp add: item_sent_def write_service_def h_def)
  note o = write_ready [OF d(1) ub d(2,3) n _ cnt, of LOS_NO_WAIT False ?buf, unfolded w]
  have ret: "ret = Ret LOS_OK" and pd: "pend s' (QueueReadWait h) = tl (pend ?s (QueueReadWait h))"
    using o by (simp_all add: Let_def wakes_first_def)
  then show "pend (item_sent i s) (QueueReadWait h) = drop 1 (pend s (QueueReadWait h))" by (simp add: s' drop_Suc)
  have "distinct (pend s (QueueReadWait h))"
    using sched_invD(3) [OF queue_invD(1) [OF inv]] store_okD(1) [of "pend s"] by (simp add: lists_ok_def)
  then have wk: "woken (QueueReadWait h) ?s s' = set (take 1 (pend s (QueueReadWait h)))"
    using pd by (cases "pend s (QueueReadWait h)") (auto simp: woken_def)
  have st2: "queue_step h (?s, q, R, W) (s', q @ [timer_item (timer s i)], R \<union> set (take 1 (pend s (QueueReadWait h))), W)"
    using queue_step.writes [OF ub n _ w, of R W q] ret by (simp add: queue_put_def timer_item_def wk)
  show "rtranclp (queue_step h) (s, q, R, W)
      (item_sent i s, q @ [timer_item (timer s i)], R \<union> set (take 1 (pend s (QueueReadWait h))), W)"
    unfolding s' by (rule two_steps [OF st1 st2])
  note same = timers_sameD [OF item_sent(1) [OF inv assms(3), of i]]
  show "queueLen (g_allQueue (item_sent i s) h) = queueLen (g_allQueue s h)"
    "handler_queue_ok (item_sent i s)"
    using o assms(4) same by (simp_all add: Let_def s' handler_queue_ok_def queue_valid_def queue_used_def h_def)
qed

section \<open>The scan\<close>

text \<open>The clock does not reach the end of its range before the next expiry of a timer.\<close>

definition expiry_fits :: "nat \<Rightarrow> 'a swtmr_state_scheme \<Rightarrow> bool" where
  "expiry_fits i s \<longleftrightarrow>
    unat (oldSchedTime s) + unat (uwInterval (timer s i)) * OS_CYCLE_PER_TICK (cfg s) < 2 ^ 64 - 1"

lemma unat_next_expiry:
  assumes "expiry_fits i s"
  shows "unat (next_expiry i s) = unat (oldSchedTime s) + unat (uwInterval (timer s i)) * OS_CYCLE_PER_TICK (cfg s)"
    and "next_expiry i s \<noteq> OS_SORT_LINK_INVALID_TIME"
proof -
  let ?p = "unat (uwInterval (timer s i)) * OS_CYCLE_PER_TICK (cfg s)"
  have p: "unat (oldSchedTime s) + ?p < 2 ^ 64 - 1" using assms by (simp add: expiry_fits_def)
  have m: "unat (ucast (uwInterval (timer s i)) * of_nat (OS_CYCLE_PER_TICK (cfg s)) :: UINT64) = ?p"
  proof (cases "uwInterval (timer s i) = 0")
    case False
    then have "1 \<le> unat (uwInterval (timer s i))" by (simp add: Suc_le_eq unat_gt_0)
    then have "1 * OS_CYCLE_PER_TICK (cfg s) \<le> ?p" by (rule mult_le_mono1)
    then have "OS_CYCLE_PER_TICK (cfg s) < 2 ^ 64" using p by linarith
    then have "unat (of_nat (OS_CYCLE_PER_TICK (cfg s)) :: UINT64) = OS_CYCLE_PER_TICK (cfg s)"
      by (simp add: unat_of_nat)
    then show ?thesis using p by (simp add: unat_word_ariths(2) unat_ucast_32)
  qed simp
  show e: "unat (next_expiry i s) = unat (oldSchedTime s) + ?p"
    using p by (simp add: next_expiry_def unat_word_ariths(1) m)
  have "unat OS_SORT_LINK_INVALID_TIME = 2 ^ 64 - 1" 
    by (simp add: OS_SORT_LINK_INVALID_TIME_def unsigned_minus_1_eq_mask mask_eq_exp_minus_1)
  then show "next_expiry i s \<noteq> OS_SORT_LINK_INVALID_TIME" using e p by auto
qed

lemma next_expiry_later:
  assumes "expiry_fits i s" "uwInterval (timer s i) \<noteq> 0" "config_ok (cfg s)"
  shows "oldSchedTime s < next_expiry i s"
proof -
  have "0 < unat (uwInterval (timer s i)) * OS_CYCLE_PER_TICK (cfg s)"
    using assms(2,3) by (simp add: config_ok_def unat_gt_0)
  then show ?thesis by (simp add: word_less_nat_alt unat_next_expiry [OF assms(1)])
qed

text \<open>
  What the scan does to the timers that have expired, in the order of the sort link. Their
  handlers are sent as long as the queue has room.
\<close>

definition expired :: "'a swtmr_state_scheme \<Rightarrow> nat list" where
  "expired s = takeWhile (\<lambda>i. expires s i \<le> oldSchedTime s) (sortLink (g_swtmrSortLink s))"

definition scanned :: "nat list \<Rightarrow> 'a swtmr_state_scheme \<Rightarrow> 'a swtmr_state_scheme \<Rightarrow> bool" where
  "scanned es s s' \<longleftrightarrow> swtmr_inv s' \<and> unblocked s' \<and> cfg s' = cfg s \<and> oldSchedTime s' = oldSchedTime s \<and>
    g_swtmrHandlerQueue s' = g_swtmrHandlerQueue s \<and>
    (\<forall>j. timer s' j = (if j \<in> set es then expired_timer (cfg s) (pstNextTimer (timer s' j)) (timer s j) else timer s j)) \<and>
    free_timers s' = rev (filter (\<lambda>i. ucMode (timer s i) = LOS_SWTMR_MODE_ONCE) es) @ free_timers s \<and>
    (\<forall>j. j \<in> set (sortLink (g_swtmrSortLink s')) \<longleftrightarrow>
      j \<in> set (sortLink (g_swtmrSortLink s)) \<and> (j \<in> set es \<longrightarrow> ucMode (timer s j) = LOS_SWTMR_MODE_PERIOD)) \<and>
    (\<forall>j\<in>set (sortLink (g_swtmrSortLink s')). expires s' j = (if j \<in> set es then next_expiry j s else expires s j)) \<and>
    (\<forall>q R W. handler_queue_ok s \<longrightarrow> promise_inv (g_swtmrHandlerQueue s) (s, q, R, W) \<longrightarrow>
      length q + card W + length es \<le> unat (queueLen (g_allQueue s (g_swtmrHandlerQueue s))) \<longrightarrow>
      rtranclp (queue_step (g_swtmrHandlerQueue s)) (s, q, R, W) (s', q @ map (\<lambda>i. timer_item (timer s i)) es,
        R \<union> set (take (length es) (pend s (QueueReadWait (g_swtmrHandlerQueue s)))), W))"

lemma scannedD:
  assumes "scanned es s s'"
  shows "swtmr_inv s'" "unblocked s'" "cfg s' = cfg s" "oldSchedTime s' = oldSchedTime s"
    "g_swtmrHandlerQueue s' = g_swtmrHandlerQueue s"
    and "j \<in> set es \<Longrightarrow> timer s' j = expired_timer (cfg s) (pstNextTimer (timer s' j)) (timer s j)"
    and "j \<notin> set es \<Longrightarrow> timer s' j = timer s j"
    and "free_timers s' = rev (filter (\<lambda>i. ucMode (timer s i) = LOS_SWTMR_MODE_ONCE) es) @ free_timers s"
    and "j \<in> set (sortLink (g_swtmrSortLink s')) \<longleftrightarrow>
      j \<in> set (sortLink (g_swtmrSortLink s)) \<and> (j \<in> set es \<longrightarrow> ucMode (timer s j) = LOS_SWTMR_MODE_PERIOD)"
    and "j \<in> set (sortLink (g_swtmrSortLink s')) \<Longrightarrow>
      expires s' j = (if j \<in> set es then next_expiry j s else expires s j)"
    and "handler_queue_ok s \<Longrightarrow> promise_inv (g_swtmrHandlerQueue s) (s, q, R, W) \<Longrightarrow>
      length q + card W + length es \<le> unat (queueLen (g_allQueue s (g_swtmrHandlerQueue s))) \<Longrightarrow>
      rtranclp (queue_step (g_swtmrHandlerQueue s)) (s, q, R, W) (s', q @ map (\<lambda>i. timer_item (timer s i)) es,
        R \<union> set (take (length es) (pend s (QueueReadWait (g_swtmrHandlerQueue s)))), W)"
proof -
  have t: "\<forall>j. timer s' j = (if j \<in> set es then expired_timer (cfg s) (pstNextTimer (timer s' j)) (timer s j) else timer s j)"
    using assms unfolding scanned_def by blast
  show "j \<in> set es \<Longrightarrow> timer s' j = expired_timer (cfg s) (pstNextTimer (timer s' j)) (timer s j)"
    "j \<notin> set es \<Longrightarrow> timer s' j = timer s j"
    using t [rule_format, of j] by metis+
qed (use assms in \<open>unfold scanned_def, blast+\<close>)

lemma takeWhile_insert:
  "(\<And>x. P x \<Longrightarrow> Q x) \<Longrightarrow> \<not> P n \<Longrightarrow> takeWhile P (takeWhile Q xs @ n # ys) = takeWhile P xs"
  by (induction xs) auto

lemma takeWhile_insert_position:
  assumes "\<not> t n \<le> (now :: UINT64)"
  shows "takeWhile (\<lambda>x. t x \<le> now) (insert_position t n xs) = takeWhile (\<lambda>x. t x \<le> now) xs"
proof (cases "xs \<noteq> [] \<and> t n = t (hd xs)")
  case True
  then show ?thesis using assms by (cases xs) (auto simp: insert_position_def)
next
  case False
  then show ?thesis
    using assms takeWhile_insert [of "\<lambda>x. t x \<le> now" "\<lambda>x. t x \<le> t n" n xs]
    by (auto simp: insert_position_def)
qed

lemma expired_self: "expired_timer c (pstNextTimer (expired_timer c p t)) t = expired_timer c p t"
  by (simp add: expired_timer_def)

lemma scanned_none:
  assumes "swtmr_inv s" "unblocked s" shows "scanned [] s s"
  using assms by (auto simp: scanned_def)

text \<open>One step of the scan, followed by the rest.\<close>

lemma scanned_step:
  fixes s s1 s2 :: "'a swtmr_state_scheme" and i :: nat
  assumes "swtmr_inv s" "unblocked s" "time_read s" "i \<in> set (sortLink (g_swtmrSortLink s))"
    "ucMode (timer s i) = LOS_SWTMR_MODE_PERIOD \<Longrightarrow> next_expiry i s \<noteq> OS_SORT_LINK_INVALID_TIME"
    "i \<notin> set es" "scanned es (OsSwtmrTimeoutHandle i (unlink i s)) s2"
  shows "scanned (i # es) s s2"
proof -
  define s1 where "s1 = OsSwtmrTimeoutHandle i (unlink i s)"
  note st = timeout_step [OF assms(1-5), folded s1_def]
  note sc = scannedD [OF assms(7), folded s1_def]
  have sl: "sortlink_ok (g_swtmrSortLink s)" by (rule queue_inv_sortlink [OF swtmr_invD(1) [OF assms(1)]])
  have cb: "timer s1 j = (if j = i then expired_timer (cfg s) (g_swtmrFreeList s) (timer s i) else timer s j)" for j
    by (simp add: st(7))
  have nx: "next_expiry j s1 = next_expiry j s" if "j \<noteq> i" for j
    using that by (simp add: next_expiry_def cb st(4,5))
  have "timer s2 j = (if j \<in> set (i # es) then expired_timer (cfg s) (pstNextTimer (timer s2 j)) (timer s j)
      else timer s j)" for j
    using sc(6,7) [of j] assms(6) by (cases "j = i") (simp_all add: cb st(5) expired_self)
  moreover have "free_timers s2 = rev (filter (\<lambda>k. ucMode (timer s k) = LOS_SWTMR_MODE_ONCE) (i # es)) @ free_timers s"
  proof -
    have "filter (\<lambda>k. ucMode (timer s1 k) = LOS_SWTMR_MODE_ONCE) es = filter (\<lambda>k. ucMode (timer s k) = LOS_SWTMR_MODE_ONCE) es"
      using assms(6) by (intro filter_cong) (auto simp: cb)
    then show ?thesis by (simp add: sc(8) st(10))
  qed
  moreover have link: "j \<in> set (sortLink (g_swtmrSortLink s2)) \<longleftrightarrow> j \<in> set (sortLink (g_swtmrSortLink s)) \<and>
      (j \<in> set (i # es) \<longrightarrow> ucMode (timer s j) = LOS_SWTMR_MODE_PERIOD)" for j
  proof -
    have "j \<in> set (sortLink (g_swtmrSortLink s1)) \<longleftrightarrow> (if j = i then ucMode (timer s i) = LOS_SWTMR_MODE_PERIOD
        else j \<in> set (sortLink (g_swtmrSortLink s)))"
      using relink(3) [OF sl, of j i] by (auto simp: st(8) relink [OF sl])
    then show ?thesis using sc(9) [of j] assms(4,6) cb [of j] by (cases "j = i") auto
  qed
  moreover have "expires s2 j = (if j \<in> set (i # es) then next_expiry j s else expires s j)"
    if "j \<in> set (sortLink (g_swtmrSortLink s2))" for j
  proof -
    have "expires s1 j = (if j = i \<and> ucMode (timer s i) = LOS_SWTMR_MODE_PERIOD then next_expiry i s
        else if j = i then OS_SORT_LINK_INVALID_TIME else expires s j)"
      by (simp add: st(8) relink [OF sl])
    then show ?thesis using sc(10) [OF that] that link [of j] assms(6) nx [of j] by (cases "j = i") simp_all
  qed
  moreover have "rtranclp (queue_step (g_swtmrHandlerQueue s)) (s, q, R, W) (s2, q @ map (\<lambda>k. timer_item (timer s k)) (i # es),
      R \<union> set (take (length (i # es)) (pend s (QueueReadWait (g_swtmrHandlerQueue s)))), W)"
    if h: "handler_queue_ok s" "promise_inv (g_swtmrHandlerQueue s) (s, q, R, W)"
      "length q + card W + length (i # es) \<le> unat (queueLen (g_allQueue s (g_swtmrHandlerQueue s)))" for q R W
  proof -
    let ?h = "g_swtmrHandlerQueue s" and ?w = "item_sent i s" and ?q = "q @ [timer_item (timer s i)]"
    let ?R = "R \<union> set (take 1 (pend s (QueueReadWait ?h)))"
    have "length q + card W < unat (queueLen (g_allQueue s ?h))" using h(3) by simp
    note d = item_delivered [OF h(2) assms(2) h(1) this, of i]
    have idx: "timer_index (cfg s) (usTimerID (timer s i)) = i"
      using swtmr_okD(4,5) [OF swtmr_invD(2) [OF assms(1)], of i] assms(4) timer_okD(1) [of s i] by blast
    note ta = timeout_tasks [OF swtmr_invD(1) [OF assms(1)] assms(2) idx, folded s1_def]
    note same = timers_sameD(1,6) [OF item_sent(1) [OF swtmr_invD(1) [OF assms(1)] assms(2), of i]]
    have "elsewhere ?h (?R \<union> W) ?w s1"
      using ta st(9) same by (intro tasks_elsewhere [OF swtmr_invD(1) [OF st(1)]]) (simp_all add: st(5))
    with d(1) have run: "rtranclp (queue_step ?h) (s, q, R, W) (s1, ?q, ?R, W)"
      by (blast intro: rtranclp.rtrancl_into_rtrancl queue_step.other)
    have p: "promise_inv ?h (s1, ?q, ?R, W)" using run_keeps [OF run h(2)] by (simp add: keeps_promise_def)
    have ok: "handler_queue_ok s1"
      using d(3) same by (simp add: handler_queue_ok_def queue_valid_def queue_used_def st(5,6,9))
    have m: "map (\<lambda>k. timer_item (timer s1 k)) es = map (\<lambda>k. timer_item (timer s k)) es"
      using assms(6) by (auto simp: cb)
    have first: "set (take (Suc 0) xs) \<union> set (take k (drop (Suc 0) xs)) = set (take (Suc k) xs)" for k and xs :: "nat list"
      by (cases xs) auto
    have "rtranclp (queue_step ?h) (s1, ?q, ?R, W) (s2, ?q @ map (\<lambda>k. timer_item (timer s1 k)) es,
        ?R \<union> set (take (length es) (pend s1 (QueueReadWait ?h))), W)"
      using sc(11) [of ?q ?R W] ok p h(3) by (simp add: st(6,9) d(4))
    from rtranclp_trans [OF run this] show ?thesis by (simp add: m ta d(2) Un_assoc first)
  qed
  ultimately show ?thesis
    unfolding scanned_def using sc(1-5) st(4-6) by simp
qed

lemma scan_loop_spec:
  fixes s :: "'a swtmr_state_scheme" and b :: bool
  assumes "swtmr_inv s" "unblocked s" "time_read s" "sortLink (g_swtmrSortLink s) \<noteq> []"
    "\<And>i. i \<in> set (expired s) \<Longrightarrow> ucMode (timer s i) = LOS_SWTMR_MODE_PERIOD \<Longrightarrow> expiry_fits i s"
  shows "\<exists>s'. scan_loop (oldSchedTime s) b s = Some (b \<or> expired s \<noteq> [], s') \<and> scanned (expired s) s s'"
  using assms
proof (induction "expired s" arbitrary: s b)
  case Nil
  then obtain i rest where l: "sortLink (g_swtmrSortLink s) = i # rest" by (cases "sortLink (g_swtmrSortLink s)") auto
  then have "\<not> expires s i \<le> oldSchedTime s" using Nil(1) by (auto simp: expired_def split: if_splits)
  then have "scan_loop (oldSchedTime s) b s = Some (b, s)"
    by (subst scan_loop.simps) (simp add: l)
  then show ?case using scanned_none [OF Nil(2,3)] Nil(1) by simp
next
  case (Cons i es)
  note inv = Cons.prems(1) and sl = queue_inv_sortlink [OF swtmr_invD(1) [OF Cons.prems(1)]]
  obtain rest where l: "sortLink (g_swtmrSortLink s) = i # rest" and le: "expires s i \<le> oldSchedTime s"
    and es: "es = takeWhile (\<lambda>j. expires s j \<le> oldSchedTime s) rest"
    using Cons(2) by (cases "sortLink (g_swtmrSortLink s)") (auto simp: expired_def split: if_splits)
  have i: "i \<in> set (sortLink (g_swtmrSortLink s))" "i \<in> set (expired s)" "i \<notin> set rest"
    using sl l by (auto simp: sortlink_ok_def Cons(2) [symmetric])
  have off: "i \<notin> set es" using i(3) set_takeWhileD by (fastforce simp: es)
  have fits: "expiry_fits i s" if "ucMode (timer s i) = LOS_SWTMR_MODE_PERIOD"
    using Cons.prems(5) [OF i(2) that] .
  have nx: "next_expiry i s \<noteq> OS_SORT_LINK_INVALID_TIME" if "ucMode (timer s i) = LOS_SWTMR_MODE_PERIOD"
    using unat_next_expiry(2) [OF fits [OF that]] .
  define s1 where "s1 = OsSwtmrTimeoutHandle i (unlink i s)"
  note st = timeout_step [OF inv Cons.prems(2,3) i(1) nx, folded s1_def]
  have later: "\<not> next_expiry i s \<le> oldSchedTime s" if "ucMode (timer s i) = LOS_SWTMR_MODE_PERIOD"
  proof -
    have "uwInterval (timer s i) \<noteq> 0"
      using swtmr_okD(4,5) [OF swtmr_invD(2) [OF inv], of i] i(1) timer_okD(4,5) [of s i]
      by (auto simp: swtmr_used_def)
    moreover have "config_ok (cfg s)"
      using sched_invD(4) [OF queue_invD(1) [OF swtmr_invD(1) [OF inv]]] by (simp add: globals_ok_def)
    ultimately show ?thesis using next_expiry_later [OF fits [OF that]] by (simp add: not_le)
  qed
  have tw: "takeWhile (\<lambda>j. ((expires s)(i := v)) j \<le> oldSchedTime s) rest = es" for v
    using i(3) unfolding es by (intro takeWhile_cong) auto
  have ex: "expired s1 = es"
    using later tw takeWhile_insert_position [of "(expires s)(i := next_expiry i s)" i "oldSchedTime s" rest]
    by (auto simp: expired_def st(4,8) relink [OF sl] l)
  have nx1: "j \<noteq> i \<Longrightarrow> expiry_fits j s1 = expiry_fits j s" for j
    by (simp add: expiry_fits_def st(4,5,7))
  have u: "OsSwtmrTimeoutHandle i (s\<lparr>g_swtmrSortLink := OsDeleteNodeSortLink i (g_swtmrSortLink s)\<rparr>) = s1"
    by (simp add: s1_def unlink_def)
  have step: "scan_loop (oldSchedTime s) b s = (if sortLink (g_swtmrSortLink s1) = [] then Some (True, s1)
      else scan_loop (oldSchedTime s1) True s1)"
    by (subst scan_loop.simps) (simp add: l le u st(4))
  obtain s2 where s2: "scan_loop (oldSchedTime s) b s = Some (True, s2)" "scanned es s1 s2"
  proof (cases "sortLink (g_swtmrSortLink s1) = []")
    case True
    then have "es = []" using ex by (simp add: expired_def)
    then show thesis using True scanned_none [OF st(1,2)] step by (intro that [of s1]) simp_all
  next
    case False
    have "expiry_fits j s1" if j: "j \<in> set (expired s1)" "ucMode (timer s1 j) = LOS_SWTMR_MODE_PERIOD" for j
    proof -
      have e: "j \<in> set es" "j \<noteq> i" using j(1) off ex by auto
      have "j \<in> set (expired s)" using e(1) Cons(2) by (metis list.set_intros(2))
      moreover have "ucMode (timer s j) = LOS_SWTMR_MODE_PERIOD" using j(2) e(2) by (simp add: st(7))
      ultimately show ?thesis using Cons.prems(5) nx1 [OF e(2)] by simp
    qed
    note Cons(1) [OF ex [symmetric] st(1-3) False this, of True, unfolded ex]
    then obtain s2 where s2: "scan_loop (oldSchedTime s1) True s1 = Some (True \<or> es \<noteq> [], s2)" "scanned es s1 s2"
      by blast
    have "scan_loop (oldSchedTime s) b s = Some (True, s2)" using s2(1) False by (simp only: step simp_thms if_False)
    then show thesis using s2(2) by (rule that)
  qed
  have "scanned (i # es) s s2"
    using scanned_step [OF inv Cons.prems(2,3) i(1) nx off] s2(2) by (simp add: s1_def)
  with s2(1) show ?case by (simp flip: Cons(2))
qed

end
