(* ===== verification/Swtmr_Services.thy ===== *)
theory Swtmr_Services
  imports Swtmr_Ops
begin

text \<open>
  The services of the software timers keep the invariant; creation and deletion satisfy the
  contract of control blocks.
\<close>

text \<open>The clock is far enough from the end of its range for any number of ticks.\<close>

definition clock_fits :: "'a swtmr_state_scheme \<Rightarrow> bool" where
  "clock_fits s \<longleftrightarrow>
    unat (fst (OsGetCurrSchedTimeCycle s)) + (2 ^ 32 - 1) * OS_CYCLE_PER_TICK (cfg s) < 2 ^ 64 - 1"

lemma start_time_fits:
  fixes c :: UINT32 and now :: UINT64
  assumes "unat now + (2 ^ 32 - 1) * n < 2 ^ 64 - 1" "n < 2 ^ 64"
  shows "unat (now + ucast c * of_nat n) = unat now + unat c * n"
    and "now + ucast c * of_nat n \<noteq> OS_SORT_LINK_INVALID_TIME"
proof -
  have "unat c < 2 ^ 32" using unsigned_less [where w = c and ?'a = nat] by simp
  then have "unat c \<le> 2 ^ 32 - 1" by simp
  then have le: "unat c * n \<le> (2 ^ 32 - 1) * n" by (rule mult_le_mono1)
  have lt: "unat now + unat c * n < 2 ^ 64 - 1" using le assms(1) by linarith
  then have "unat c * n < 2 ^ 64" by linarith
  then have m: "unat (ucast c * of_nat n :: UINT64) = unat c * n"
    using assms(2) by (simp add: unat_word_ariths(2) unat_ucast_32 unat_of_nat)
  show e: "unat (now + ucast c * of_nat n) = unat now + unat c * n"
    using lt by (simp add: unat_word_ariths(1) m)
  have "unat OS_SORT_LINK_INVALID_TIME = 2 ^ 64 - 1"
    by (simp add: OS_SORT_LINK_INVALID_TIME_def unsigned_minus_1_eq_mask mask_eq_exp_minus_1)
  then show "now + ucast c * of_nat n \<noteq> OS_SORT_LINK_INVALID_TIME" using e lt by auto
qed

lemma config_cycle: "config_ok c \<Longrightarrow> OS_CYCLE_PER_TICK c < 2 ^ 64"
  by (simp add: config_ok_def)

lemma swtmr_config: "swtmr_inv s \<Longrightarrow> config_ok (cfg s)"
  using sched_invD(4) [OF queue_invD(1) [OF swtmr_invD(1)], of s] by (auto simp: globals_ok_def)

section \<open>Starting\<close>

text \<open>\<open>s1\<close> is \<open>s\<close> with timer \<open>i\<close> off the sort link.\<close>

lemma start_ok:
  fixes s s1 :: "'a swtmr_state_scheme" and i :: nat and v :: UINT8
  assumes "swtmr_inv s" "i < timer_limit s" "swtmr_used s i" "queue_inv s1" "cfg s1 = cfg s"
    "g_swtmrCBArray s1 = (g_swtmrCBArray s)(i := (timer s i)\<lparr>ucState := v\<rparr>)" "g_swtmrFreeList s1 = g_swtmrFreeList s"
    "\<And>j. j \<noteq> i \<Longrightarrow> canAlign (g_swtmrAlignID s1 j) = canAlign (g_swtmrAlignID s j) \<and>
      isAligned (g_swtmrAlignID s1 j) = isAligned (g_swtmrAlignID s j)"
    "sortLink (g_swtmrSortLink s1) = remove1 i (sortLink (g_swtmrSortLink s))" "start_time i s1 \<noteq> OS_SORT_LINK_INVALID_TIME"
  shows "swtmr_inv (OsSwtmrStart i s1)" "free_timers (OsSwtmrStart i s1) = free_timers s"
    "ucState (timer (OsSwtmrStart i s1) i) = OS_SWTMR_STATUS_TICKING"
    "expires (OsSwtmrStart i s1) i = start_time i s1"
proof -
  note inv = swtmr_invD [OF assms(1)] and ok = swtmr_okD [OF swtmr_invD(2) [OF assms(1)]]
  note t = timer_okD [OF ok(5) [OF assms(2)]]
  have idx: "timer_index (cfg s1) (usTimerID (timer s1 i)) = i" using t(1) by (simp add: assms(5,6))
  note st = Start_sel [OF idx]
  have sl: "sortlink_ok (g_swtmrSortLink s)" "sortlink_ok (g_swtmrSortLink s1)"
    by (rule queue_inv_sortlink [OF inv(1)], rule queue_inv_sortlink [OF assms(4)])
  have off: "i \<notin> set (sortLink (g_swtmrSortLink s1))" using relink(3) [OF sl(1)] by (simp add: assms(9))
  have free: "i \<notin> set (free_timers s)" using pool_okD(2) [OF ok(3), of i] assms(3) by simp
  have q: "queue_inv (OsSwtmrStart i s1)" by (rule Start_queue_inv [OF idx assms(4) off assms(10)])
  let ?s = "OsSwtmrStart i s1"
  have link: "j \<in> set (sortLink (g_swtmrSortLink ?s)) \<longleftrightarrow> j = i \<or> j \<in> set (sortLink (g_swtmrSortLink s))" for j
    using relink(3) [OF sl(1), of j i] by (auto simp: st add_sortlink [OF sl(2) off] assms(9))
  have used: "swtmr_used ?s = swtmr_used s"
    using assms(3) by (auto simp: swtmr_used_def fun_eq_iff st assms(6))
  have "timer_chain (g_swtmrCBArray ?s) (g_swtmrFreeList ?s) (free_timers s) =
      timer_chain (g_swtmrCBArray s) (g_swtmrFreeList s) (free_timers s)"
    using free by (subst timer_chain_cong [of _ _ "g_swtmrCBArray s"]) (auto simp: st assms(6,7))
  then have chain: "timer_chain (g_swtmrCBArray ?s) (g_swtmrFreeList ?s) (free_timers s)" using ok(2) by simp
  have "timer_ok ?s i"
    using t(1,2) t(5) [OF assms(3)] t(6) [OF assms(3)] link [of i]
    by (auto simp: timer_ok_def Let_def st assms(5,6) aligns_def)
  note upd = swtmr_ok_upd [OF inv(2) _ _ _ _ assms(2) this chain]
  have "swtmr_ok ?s \<and> free_timers ?s = free_timers s"
    using upd link assms(8) ok(3) by (simp add: st assms(5,6) used)
  with q show "swtmr_inv ?s" "free_timers ?s = free_timers s" by (simp_all add: swtmr_inv_def)
  show "ucState (timer ?s i) = OS_SWTMR_STATUS_TICKING" by (simp add: st)
  show "expires ?s i = start_time i s1" by (simp add: st add_sortlink [OF sl(2) off])
qed

lemma note_align_sel [simp]:
  "g_swtmrCBArray (note_align i s) = g_swtmrCBArray s" "g_swtmrFreeList (note_align i s) = g_swtmrFreeList s"
  "g_swtmrSortLink (note_align i s) = g_swtmrSortLink s" "cfg (note_align i s) = cfg s"
  "queue_inv (note_align i s) = queue_inv s" "unblocked (note_align i s) = unblocked s"
  "isAligned (g_swtmrAlignID (note_align i s) j) = isAligned (g_swtmrAlignID s j)"
  "g_swtmrHandlerQueue (note_align i s) = g_swtmrHandlerQueue s" "g_allQueue (note_align i s) = g_allQueue s"
  "g_taskScheduled (note_align i s) = g_taskScheduled s"
  by (simp_all add: note_align_def Let_def)

lemma note_align_other:
  "timer_index (cfg s) (usTimerID (timer s i)) = i \<Longrightarrow> j \<noteq> i \<Longrightarrow>
   g_swtmrAlignID (note_align i s) j = g_swtmrAlignID s j"
  by (simp add: note_align_def Let_def)

lemma CurrTime_note_align: "fst (OsGetCurrSchedTimeCycle (note_align i s)) = fst (OsGetCurrSchedTimeCycle s)"
  by (simp add: note_align_def Let_def upd_align_def OsGetCurrSchedTimeCycle_def HalGetTickCycle_def)

text \<open>The time is the same after a stop.\<close>

lemma CurrTime_Stop: "fst (OsGetCurrSchedTimeCycle (OsSwtmrStop i s)) = fst (OsGetCurrSchedTimeCycle s)"
proof -
  let ?q = "upd_swtmr i (ucState_update (\<lambda>_. OS_SWTMR_STATUS_CREATED)) (OsDeleteSortLink i OS_SORT_LINK_SWTMR s)"
  have t: "fst (OsGetCurrSchedTimeCycle (OsDeleteSortLink i OS_SORT_LINK_SWTMR s)) = fst (OsGetCurrSchedTimeCycle s)"
    by (simp add: OsDeleteSortLink_def upd_sortlink_def OsGetCurrSchedTimeCycle_def HalGetTickCycle_def Let_def)
  show ?thesis
  proof (cases "g_taskScheduled s")
    case True
    let ?r = "OsSchedUpdateExpireTime (fst (OsGetCurrSchedTimeCycle ?q)) (snd (OsGetCurrSchedTimeCycle ?q))"
    have sched: "g_taskScheduled ?q" using True by (simp add: OsDeleteSortLink_def upd_sortlink_def)
    note r = time_read_UpdateExpire [OF time_read_CurrTime(1) [OF sched], of "fst (OsGetCurrSchedTimeCycle ?q)"]
    have "fst (OsGetCurrSchedTimeCycle ?r) = fst (OsGetCurrSchedTimeCycle ?q)"
      using time_read_now [OF r(1)] r(2) time_read_CurrTime(2) [OF sched] by simp
    moreover have "fst (OsGetCurrSchedTimeCycle (upd_align a f p)) = fst (OsGetCurrSchedTimeCycle p)"
      for a f and p :: "'a swtmr_state_scheme"
      by (simp add: upd_align_def OsGetCurrSchedTimeCycle_def HalGetTickCycle_def Let_def)
    ultimately show ?thesis
      using sched t by (simp add: OsSwtmrStop_def Let_def case_prod_beta LOS_TaskIsRunning_def)
  next
    case False
    then show ?thesis
      using t by (simp add: OsSwtmrStop_def Let_def LOS_TaskIsRunning_def OsDeleteSortLink_def upd_sortlink_def)
  qed
qed

lemma ticking_valid:
  assumes "swtmr_inv s" "i < timer_limit s" "ucState (timer s i) = OS_SWTMR_STATUS_TICKING"
  shows "i \<in> set (sortLink (g_swtmrSortLink s))" "expires s i \<noteq> OS_SORT_LINK_INVALID_TIME"
proof -
  show on: "i \<in> set (sortLink (g_swtmrSortLink s))"
    using timer_okD(4) [OF swtmr_okD(5) [OF swtmr_invD(2) [OF assms(1)] assms(2)]] assms(3) by simp
  then show "expires s i \<noteq> OS_SORT_LINK_INVALID_TIME"
    using queue_inv_sortlink [OF swtmr_invD(1) [OF assms(1)]] by (auto simp: sortlink_ok_def)
qed

lemma stop_ok:
  fixes s :: "'a swtmr_state_scheme" and i :: nat
  assumes "swtmr_inv s" "i < timer_limit s" "ucState (timer s i) = OS_SWTMR_STATUS_TICKING"
  shows "swtmr_inv (OsSwtmrStop i s)" "free_timers (OsSwtmrStop i s) = free_timers s"
    and "g_swtmrCBArray (OsSwtmrStop i s) = (g_swtmrCBArray s)(i := (timer s i)\<lparr>ucState := OS_SWTMR_STATUS_CREATED\<rparr>)"
    and "g_swtmrSortLink (OsSwtmrStop i s) = OsDeleteNodeSortLink i (g_swtmrSortLink s)"
    and "cfg (OsSwtmrStop i s) = cfg s"
proof -
  note inv = swtmr_invD [OF assms(1)] and ok = swtmr_okD [OF swtmr_invD(2) [OF assms(1)]]
  note t = timer_okD [OF ok(5) [OF assms(2)]]
  note st = Stop_sel [OF t(1) ticking_valid(2) [OF assms]]
  let ?s = "OsSwtmrStop i s"
  have sl: "sortlink_ok (g_swtmrSortLink s)" by (rule queue_inv_sortlink [OF inv(1)])
  have used: "swtmr_used s i" using assms(3) by (simp add: swtmr_used_def)
  have same: "swtmr_used ?s = swtmr_used s" using used by (auto simp: swtmr_used_def fun_eq_iff st)
  have "i \<notin> set (free_timers s)" using pool_okD(2) [OF ok(3), of i] used by simp
  then have "timer_chain (g_swtmrCBArray ?s) (g_swtmrFreeList ?s) (free_timers s) =
      timer_chain (g_swtmrCBArray s) (g_swtmrFreeList s) (free_timers s)"
    by (subst timer_chain_cong [of _ _ "g_swtmrCBArray s"]) (auto simp: st)
  then have chain: "timer_chain (g_swtmrCBArray ?s) (g_swtmrFreeList ?s) (free_timers s)" using ok(2) by simp
  have "timer_ok ?s i"
    using t(1,2) t(5) [OF used] t(6) [OF used] relink(3) [OF sl, of i i]
    by (auto simp: timer_ok_def Let_def st)
  note upd = swtmr_ok_upd [OF inv(2) _ _ _ _ assms(2) this chain]
  have "j \<noteq> i \<Longrightarrow> j \<in> set (sortLink (g_swtmrSortLink ?s)) \<longleftrightarrow> j \<in> set (sortLink (g_swtmrSortLink s))" for j
    using relink(3) [OF sl, of j i] by (simp add: st)
  then have "swtmr_ok ?s \<and> free_timers ?s = free_timers s"
    using upd ok(3) by (simp add: st same)
  then show "swtmr_inv ?s" "free_timers ?s = free_timers s"
    using Stop_queue_inv [OF inv(1)] by (simp_all add: swtmr_inv_def)
qed (use Stop_sel [OF timer_okD(1) [OF swtmr_okD(5) [OF swtmr_invD(2) [OF assms(1)] assms(2)]] ticking_valid(2) [OF assms]] in simp_all)

lemma delete_ok:
  fixes s :: "'a swtmr_state_scheme" and i :: nat
  assumes "swtmr_inv s" "i < timer_limit s" "ucState (timer s i) = OS_SWTMR_STATUS_CREATED"
  shows "swtmr_inv (OsSwtmrDelete i s)" "free_timers (OsSwtmrDelete i s) = i # free_timers s"
    and "g_swtmrCBArray (OsSwtmrDelete i s) =
      (g_swtmrCBArray s)(i := (timer s i)\<lparr>pstNextTimer := g_swtmrFreeList s, ucState := OS_SWTMR_STATUS_UNUSED\<rparr>)"
    and "g_swtmrSortLink (OsSwtmrDelete i s) = g_swtmrSortLink s" "cfg (OsSwtmrDelete i s) = cfg s"
proof -
  note inv = swtmr_invD [OF assms(1)] and ok = swtmr_okD [OF swtmr_invD(2) [OF assms(1)]]
  note t = timer_okD [OF ok(5) [OF assms(2)]]
  note st = Delete_sel [OF t(1)]
  let ?s = "OsSwtmrDelete i s"
  have used: "swtmr_used s i" using assms(3) by (simp add: swtmr_used_def)
  have same: "swtmr_used ?s = (swtmr_used s)(i := False)" by (auto simp: swtmr_used_def fun_eq_iff st)
  have free: "i \<notin> set (free_timers s)" using pool_okD(2) [OF ok(3), of i] used by simp
  have chain: "timer_chain (g_swtmrCBArray ?s) (g_swtmrFreeList ?s) (i # free_timers s)"
    using ok(2) free by (simp add: st) (subst timer_chain_cong [of _ _ "g_swtmrCBArray s"]; auto)
  have "timer_ok ?s i" using t(1,2,4) assms(3) by (auto simp: timer_ok_def Let_def st)
  note upd = swtmr_ok_upd [OF inv(2) _ _ _ _ assms(2) this chain]
  have "swtmr_ok ?s \<and> free_timers ?s = i # free_timers s"
    using upd pool_ok_give [OF ok(3) used assms(2)] by (simp add: st same)
  then show "swtmr_inv ?s" "free_timers ?s = i # free_timers s"
    using inv(1) by (simp_all add: swtmr_inv_def st)
qed (use Delete_sel [OF timer_okD(1) [OF swtmr_okD(5) [OF swtmr_invD(2) [OF assms(1)] assms(2)]]] in simp_all)

section \<open>Creation\<close>

lemma create_ok:
  fixes s :: "'a swtmr_state_scheme"
  assumes "swtmr_inv s" "LOS_SwtmrCreate interval mode handler idNull timerArg rouses sensitive s = (LOS_OK, Some w, s')"
  shows "\<exists>i. i < timer_limit s \<and> free_timers s = i # free_timers s' \<and> swtmr_inv s' \<and> cfg s' = cfg s \<and>
    \<not> swtmr_used s i \<and> swtmr_used s' = (swtmr_used s)(i := True) \<and> w = usTimerID (timer s i) \<and>
    interval \<noteq> 0 \<and> handler \<noteq> 0 \<and>
    (\<exists>r se. timer s' i = (timer s i)\<lparr>pfnHandler := handler, ucMode := mode, uwInterval := interval,
      pstNextTimer := None, uwCount := 0, uwTimerArg := timerArg, ucRouses := r, ucSensitive := se,
      ucState := OS_SWTMR_STATUS_CREATED\<rparr>) \<and> (\<forall>j. j \<noteq> i \<longrightarrow> timer s' j = timer s j) \<and>
    sortLink (g_swtmrSortLink s') = sortLink (g_swtmrSortLink s)"
proof -
  note inv = swtmr_invD [OF assms(1)] and ok = swtmr_okD [OF swtmr_invD(2) [OF assms(1)]]
  have par: "interval \<noteq> 0" "handler \<noteq> 0"
    "mode = LOS_SWTMR_MODE_ONCE \<or> mode = LOS_SWTMR_MODE_PERIOD \<or> mode = LOS_SWTMR_MODE_NO_SELFDELETE"
    using assms(2) by (auto simp: LOS_SwtmrCreate_def split: if_splits)
  obtain i where i: "g_swtmrFreeList s = Some i"
    using assms(2) by (cases "g_swtmrFreeList s") (auto simp: LOS_SwtmrCreate_def split: if_splits)
  then obtain fr where fr: "free_timers s = i # fr" "timer_chain (g_swtmrCBArray s) (pstNextTimer (timer s i)) fr"
    using ok(2) by (cases "free_timers s") auto
  have lt: "i < timer_limit s" and unused: "\<not> swtmr_used s i" and notin: "i \<notin> set fr"
    using pool_okD(1) [OF ok(3)] pool_okD(2) [OF ok(3), of i] fr(1) by auto
  note t = timer_okD [OF ok(5) [OF lt]]
  have off: "i \<notin> set (sortLink (g_swtmrSortLink s))" using t(4) unused by (auto simp: swtmr_used_def)
  define al where "al = LOSCFG_BASE_CORE_SWTMR_ALIGN (cfg s)"
  define new where "new = (timer s i)\<lparr>pfnHandler := handler, ucMode := mode, uwInterval := interval,
      pstNextTimer := None, uwCount := 0, uwTimerArg := timerArg,
      ucRouses := (if al then rouses else ucRouses (timer s i)),
      ucSensitive := (if al then sensitive else ucSensitive (timer s i)), ucState := OS_SWTMR_STATUS_CREATED\<rparr>"
  have res: "w = usTimerID (timer s i)" and s': "g_swtmrCBArray s' = (g_swtmrCBArray s)(i := new)"
    "g_swtmrFreeList s' = pstNextTimer (timer s i)" "g_swtmrAlignID s' = g_swtmrAlignID s" "cfg s' = cfg s"
    "g_swtmrSortLink s' = SET_SORTLIST_VALUE i OS_SORT_LINK_INVALID_TIME (g_swtmrSortLink s)"
    using assms(2) i unfolding new_def al_def
    by (auto simp: LOS_SwtmrCreate_def Let_def upd_swtmr_def split: if_splits)
  have "sortlink_ok (SET_SORTLIST_VALUE i OS_SORT_LINK_INVALID_TIME (g_swtmrSortLink s))"
    using queue_inv_sortlink [OF inv(1)] off
    by (auto simp: sortlink_ok_def SET_SORTLIST_VALUE_def expiry_sorted_def map_fun_upd)
  then have q: "queue_inv s'"
    using assms(2) i inv(1) by (auto simp: LOS_SwtmrCreate_def Let_def queue_inv_link split: if_splits)
  have set: "sortLink (g_swtmrSortLink s') = sortLink (g_swtmrSortLink s)"
    by (simp add: s'(5) SET_SORTLIST_VALUE_def)
  have used: "swtmr_used s' = (swtmr_used s)(i := True)"
    by (auto simp: swtmr_used_def fun_eq_iff s' new_def)
  have chain: "timer_chain (g_swtmrCBArray s') (g_swtmrFreeList s') fr"
    using fr(2) notin by (subst timer_chain_cong [of _ _ "g_swtmrCBArray s"]) (auto simp: s')
  have "timer_ok s' i"
    using t(1,2) off par by (auto simp: timer_ok_def Let_def s'(1,3,4) set new_def)
  note upd = swtmr_ok_upd [OF inv(2) s'(4) _ _ _ lt this chain]
  have "pool_ok fr (swtmr_used s') (timer_limit s)"
    using pool_ok_take [of i fr "swtmr_used s"] ok(3) fr(1) used by simp
  then have "swtmr_ok s' \<and> free_timers s' = fr" using upd by (simp add: s' set)
  moreover have "\<exists>r se. new = (timer s i)\<lparr>pfnHandler := handler, ucMode := mode, uwInterval := interval,
      pstNextTimer := None, uwCount := 0, uwTimerArg := timerArg, ucRouses := r, ucSensitive := se,
      ucState := OS_SWTMR_STATUS_CREATED\<rparr>"
    unfolding new_def by blast
  ultimately show ?thesis
    using lt fr(1) q unused used res par set by (intro exI [of _ i]) (simp add: swtmr_inv_def s'(1,4))
qed

lemma create_avail:
  assumes "swtmr_inv s" "free_timers s \<noteq> []" "interval \<noteq> 0" "handler \<noteq> 0"
    "mode = LOS_SWTMR_MODE_ONCE \<or> mode = LOS_SWTMR_MODE_PERIOD \<or> mode = LOS_SWTMR_MODE_NO_SELFDELETE"
    "rouses = OS_SWTMR_ROUSES_IGNORE \<or> rouses = OS_SWTMR_ROUSES_ALLOW"
    "sensitive = OS_SWTMR_ALIGN_INSENSITIVE \<or> sensitive = OS_SWTMR_ALIGN_SENSITIVE"
  shows "\<exists>w s'. LOS_SwtmrCreate interval mode handler False timerArg rouses sensitive s = (LOS_OK, Some w, s')"
proof -
  obtain i where "g_swtmrFreeList s = Some i"
    using swtmr_okD(2) [OF swtmr_invD(2) [OF assms(1)]] assms(2) by (cases "free_timers s") auto
  then show ?thesis using assms(3-) by (auto simp: LOS_SwtmrCreate_def Let_def)
qed

lemma create_full:
  assumes "swtmr_inv s" "free_timers s = []"
  shows "fst (LOS_SwtmrCreate interval mode handler idNull timerArg rouses sensitive s) \<noteq> LOS_OK"
  using swtmr_okD(2) [OF swtmr_invD(2) [OF assms(1)]] assms(2)
  by (auto simp: LOS_SwtmrCreate_def)

section \<open>Timers as control blocks\<close>

text \<open>The contract of the pool, with the index of a timer for its handle.\<close>

definition create_timer ::
  "UINT32 \<Rightarrow> UINT8 \<Rightarrow> UINT32 \<Rightarrow> UINT32 \<Rightarrow> UINT8 \<Rightarrow> UINT8 \<Rightarrow> 'a swtmr_state_scheme \<Rightarrow> errno \<times> nat \<times> 'a swtmr_state_scheme" where
  "create_timer interval mode handler timerArg rouses sensitive s =
    (case LOS_SwtmrCreate interval mode handler False timerArg rouses sensitive s of (ret, w, s') \<Rightarrow>
      (ret, case w of None \<Rightarrow> 0 | Some w \<Rightarrow> timer_index (cfg s) w, s'))"

lemma Create_results:
  "LOS_SwtmrCreate interval mode handler idNull timerArg rouses sensitive s = (LOS_OK, w, s') \<Longrightarrow> \<exists>v. w = Some v"
  by (auto simp: LOS_SwtmrCreate_def Let_def split: if_splits option.splits)

lemma Delete_service:
  fixes s :: "'a swtmr_state_scheme"
  assumes "swtmr_inv s" "LOS_SwtmrDelete w s = (LOS_OK, s')"
  shows "\<exists>i. i = timer_index (cfg s) w \<and> i < timer_limit s \<and> swtmr_used s i \<and> usTimerID (timer s i) = w \<and>
    swtmr_inv s' \<and> free_timers s' = i # free_timers s \<and> cfg s' = cfg s \<and>
    swtmr_used s' = (swtmr_used s)(i := False) \<and> usTimerID (timer s' i) = w \<and> (\<forall>j. j \<noteq> i \<longrightarrow> timer s' j = timer s j) \<and>
    i \<notin> set (sortLink (g_swtmrSortLink s')) \<and>
    (\<forall>j. j \<noteq> i \<longrightarrow> j \<in> set (sortLink (g_swtmrSortLink s')) \<longleftrightarrow> j \<in> set (sortLink (g_swtmrSortLink s)))"
proof -
  define i where "i = timer_index (cfg s) w"
  note inv = swtmr_invD [OF assms(1)] and ok = swtmr_okD [OF swtmr_invD(2) [OF assms(1)]]
  have idx: "swtmrCbId (cfg s) w = i" and lt: "i < timer_limit s"
    using timer_index_nat(2,3) [OF ok(1)] by (simp_all add: i_def)
  have id: "usTimerID (timer s i) = w" and cases:
    "ucState (timer s i) = OS_SWTMR_STATUS_TICKING \<and> s' = OsSwtmrDelete i (OsSwtmrStop i s) \<or>
     ucState (timer s i) = OS_SWTMR_STATUS_CREATED \<and> s' = OsSwtmrDelete i s"
    using assms(2) by (auto simp: LOS_SwtmrDelete_def idx Let_def split: if_splits)
  have used: "swtmr_used s i" using cases by (auto simp: swtmr_used_def)
  have sl: "sortlink_ok (g_swtmrSortLink s)" by (rule queue_inv_sortlink [OF inv(1)])
  show ?thesis
    using cases
  proof (elim disjE conjE)
    assume tick: "ucState (timer s i) = OS_SWTMR_STATUS_TICKING" and s': "s' = OsSwtmrDelete i (OsSwtmrStop i s)"
    note st = stop_ok [OF assms(1) lt tick]
    have c: "i < timer_limit (OsSwtmrStop i s)" "ucState (timer (OsSwtmrStop i s) i) = OS_SWTMR_STATUS_CREATED"
      using lt by (simp_all add: st)
    note d = delete_ok [OF st(1) c]
    have "swtmr_used s' = (swtmr_used s)(i := False)"
      by (auto simp: s' d st swtmr_used_def fun_eq_iff)
    then show ?thesis
      using lt used id d(1) relink(3) [OF sl, of _ i]
      by (intro exI [of _ i]) (auto simp: i_def [symmetric] s' d(2-) st)
  next
    assume cr: "ucState (timer s i) = OS_SWTMR_STATUS_CREATED" and s': "s' = OsSwtmrDelete i s"
    note d = delete_ok [OF assms(1) lt cr]
    have "swtmr_used s' = (swtmr_used s)(i := False)"
      by (auto simp: s' d swtmr_used_def fun_eq_iff)
    moreover have "i \<notin> set (sortLink (g_swtmrSortLink s))"
      using timer_okD(4) [OF ok(5) [OF lt]] cr by simp
    ultimately show ?thesis
      using lt used id d(1) by (intro exI [of _ i]) (auto simp: i_def [symmetric] s' d(2-))
  qed
qed

definition delete_timer :: "nat \<Rightarrow> 'a swtmr_state_scheme \<Rightarrow> errno \<times> 'a swtmr_state_scheme" where
  "delete_timer i s = (if i < timer_limit s then LOS_SwtmrDelete (usTimerID (timer s i)) s
     else (LOS_ERRNO_SWTMR_ID_INVALID, s))"

interpretation timer_blocks: control_blocks swtmr_inv free_timers swtmr_used
  "\<lambda>s. LOSCFG_BASE_CORE_SWTMR_LIMIT (cfg s)" "create_timer interval mode handler timerArg rouses sensitive"
  delete_timer for interval mode handler timerArg rouses sensitive
proof (unfold_locales, goal_cases)
  case (1 s)
  then show ?case by (rule swtmr_okD(3) [OF swtmr_invD(2)])
next
  case (2 s)
  then show ?case using create_full [OF 2] by (simp add: create_timer_def case_prod_beta)
next
  case (3 s i s')
  obtain w where "LOS_SwtmrCreate interval mode handler False timerArg rouses sensitive s = (LOS_OK, w, s')"
    using 3(2) by (auto simp: create_timer_def split: prod.splits)
  with Create_results obtain v where
    c: "LOS_SwtmrCreate interval mode handler False timerArg rouses sensitive s = (LOS_OK, Some v, s')"
    by metis
  obtain k where k: "k < timer_limit s" "free_timers s = k # free_timers s'" "swtmr_inv s'" "cfg s' = cfg s"
    "swtmr_used s' = (swtmr_used s)(k := True)" "v = usTimerID (timer s k)"
    using create_ok [OF 3(1) c] by blast
  have "i = timer_index (cfg s) v" using 3(2) by (simp add: create_timer_def c)
  then have "i = k" using timer_okD(1) [OF swtmr_okD(5) [OF swtmr_invD(2) [OF 3(1)] k(1)]] k(6) by simp
  then show ?case using k by simp
next
  case (4 s i s')
  then have lt: "i < timer_limit s" and d: "LOS_SwtmrDelete (usTimerID (timer s i)) s = (LOS_OK, s')"
    by (auto simp: delete_timer_def split: if_splits)
  have idx: "timer_index (cfg s) (usTimerID (timer s i)) = i"
    using timer_okD(1) [OF swtmr_okD(5) [OF swtmr_invD(2) [OF 4(1)] lt]] .
  show ?case using Delete_service [OF 4(1) d] by (auto simp: idx)
qed

end
