(* ===== verification/Swtmr_Props.thy ===== *)
theory Swtmr_Props
  imports Swtmr_Services Boot
begin

text \<open>What the software timers promise, over the model of \<open>los_swtmr.c\<close>.\<close>

section \<open>A concrete state\<close>

text \<open>
  The time is 100000 cycles. Timers 2, 0 and 1 are due (one without deletion, one one-shot, one
  periodic), timer 3 is periodic, aligned, and due at 300000; timer 4 is unused. Task 3 is the timer
  task and waits for the handler queue, queue 0.
\<close>

definition timer_demo_cb :: "nat \<Rightarrow> swtmr_cb" where
  "timer_demo_cb = (\<lambda>i. zero_timer\<lparr>usTimerID := of_nat i\<rparr>)
    (0 := zero_timer\<lparr>ucState := 2, ucMode := 0, uwInterval := 7, uwTimerArg := 70, pfnHandler := 0x8000\<rparr>,
     1 := zero_timer\<lparr>ucState := 2, ucMode := 1, uwInterval := 5, uwTimerArg := 71, pfnHandler := 0x8100, usTimerID := 1\<rparr>,
     2 := zero_timer\<lparr>ucState := 2, ucMode := 2, uwInterval := 3, uwTimerArg := 72, pfnHandler := 0x8200, usTimerID := 2\<rparr>,
     3 := zero_timer\<lparr>ucState := 2, ucMode := 1, uwInterval := 10, pfnHandler := 0x8300, usTimerID := 3, ucSensitive := 1\<rparr>)"

definition timer_queue_cb :: "nat \<Rightarrow> queue_cb" where
  "timer_queue_cb = (\<lambda>i. zero_queue\<lparr>queueID := i\<rparr>)
    (0 := zero_queue\<lparr>queue := 0x20000100, queueState := OS_QUEUE_INUSED, queueLen := 5, queueSize := 12,
       readWriteableCnt := (\<lambda>_. 0)(OS_QUEUE_WRITE := 5)\<rparr>)"

definition swtmr_demo :: "swtmr_state" where
  "swtmr_demo = (demo_at (QueueReadWait 0)
      (sem_state_ext (\<lambda>i. \<lparr>semStat = OS_SEM_UNUSED, semCount = 0, maxSemCount = 0, semID = i\<rparr>) (\<lambda>_. [])
      (mux_state_ext (\<lambda>i. \<lparr>muxStat = OS_MUX_UNUSED, muxCount = 0, muxID = i, owner = None, muxPriority = 0\<rparr>) (\<lambda>_. [])
      (event_state_ext (\<lambda>_. \<lparr>uwEventID = 0, listNull = True\<rparr>)
      (queue_state_ext timer_queue_cb (\<lambda>_. [1, 2, 3, 4, 5]) (\<lambda>_. 0)
      (swtmr_state_ext 0 timer_demo_cb (Some 4)
        ((\<lambda>_. zero_align)(3 := \<lparr>times = 1, canMultiple = True, canAlign = True, isAligned = True\<rparr>)) True ()))))))
    \<lparr>g_swtmrSortLink := \<lparr>sortLink = [2, 0, 1, 3],
       responseTime = (\<lambda>_. 100000)(2 := 50000, 3 := 300000)\<rparr>\<rparr>"

lemma swtmr_demo_sel [simp]:
  "g_allQueue swtmr_demo = timer_queue_cb" "g_freeQueueList swtmr_demo () = [1, 2, 3, 4, 5]"
  "cfg swtmr_demo = default_config" "runTask swtmr_demo = 1" "g_swtmrCBArray swtmr_demo = timer_demo_cb"
  "g_swtmrFreeList swtmr_demo = Some 4" "g_swtmrHandlerQueue swtmr_demo = 0" "g_taskScheduled swtmr_demo"
  "g_swtmrAlignID swtmr_demo = (\<lambda>_. zero_align)(3 := \<lparr>times = 1, canMultiple = True, canAlign = True, isAligned = True\<rparr>)"
  "g_swtmrSortLink swtmr_demo = \<lparr>sortLink = [2, 0, 1, 3], responseTime = (\<lambda>_. 100000)(2 := 50000, 3 := 300000)\<rparr>"
  "pend swtmr_demo = (\<lambda>_. [])(PriQ 10 := [2], FreeTask := [4, 5], QueueReadWait 0 := [3])"
  by (simp_all add: swtmr_demo_def) (simp_all add: demo_at_def demo_def)

lemma swtmr_demo_time: "time_read swtmr_demo" "oldSchedTime swtmr_demo = 100000"
  "OsGetCurrSchedTimeCycle swtmr_demo = (100000, swtmr_demo)"
proof -
  show r: "time_read swtmr_demo" "oldSchedTime swtmr_demo = 100000"
    by (simp_all add: time_read_def) (simp_all add: swtmr_demo_def demo_at_def demo_def HalGetTickCycle_def)
  show "OsGetCurrSchedTimeCycle swtmr_demo = (100000, swtmr_demo)"
    using time_read_now [OF r(1)] r(2) by simp
qed

lemma swtmr_demo_queue: "queue_inv swtmr_demo"
proof -
  have "sched_inv swtmr_demo"
    unfolding swtmr_demo_def
    by (intro sched_inv_link demo_at_inv)
      (auto simp: sortlink_ok_def expiry_sorted_def OS_SORT_LINK_INVALID_TIME_def)
  moreover have used: "queue_used swtmr_demo = (\<lambda>i. i = 0)"
    by (auto simp: queue_used_def fun_eq_iff timer_queue_cb_def zero_queue_def OS_QUEUE_INUSED_def)
  moreover have "queue_cb_ok swtmr_demo i" for i
    unfolding queue_cb_ok_def used
    by (auto simp: timer_queue_cb_def zero_queue_def OS_QUEUE_UNUSED_def default_config_def split: if_splits)
  moreover have "pool_ok (g_freeQueueList swtmr_demo ()) (queue_used swtmr_demo) (LOSCFG_BASE_IPC_QUEUE_LIMIT (cfg swtmr_demo))"
    unfolding used by (auto simp: pool_ok_def default_config_def)
  ultimately show ?thesis by (simp add: queue_inv_def queue_ok_def)
qed

lemma swtmr_demo_unblocked: "unblocked swtmr_demo"
  by (simp add: swtmr_demo_def unblocked_link) (simp add: unblocked_def demo_at_def demo_def zero_tcb_def)

lemma default_limit: "limit_ok default_config" "LOSCFG_BASE_CORE_SWTMR_LIMIT default_config = 5"
  by (simp_all add: limit_ok_def default_config_def)

lemma less_5: "i < (5::nat) \<longleftrightarrow> i = 0 \<or> i = 1 \<or> i = 2 \<or> i = 3 \<or> i = 4"
  by auto

lemma swtmr_demo_parts: "swtmr_parts swtmr_demo [4]"
proof -
  have mx: "OS_SWTMR_MAX_TIMERID default_config = 0xFFFFFFFF"
    by (simp add: OS_SWTMR_MAX_TIMERID_def default_limit)
  have "timer_ok swtmr_demo i" if "i < 5" for i
    using that unfolding less_5 timer_ok_def Let_def
    by (elim disjE) (simp_all add: timer_index_nat(1) [OF default_limit(1)] default_limit mx timer_demo_cb_def zero_timer_def
        OS_SWTMR_STATUS_UNUSED_def OS_SWTMR_STATUS_CREATED_def OS_SWTMR_STATUS_TICKING_def zero_align_def
        LOS_SWTMR_MODE_ONCE_def LOS_SWTMR_MODE_PERIOD_def LOS_SWTMR_MODE_NO_SELFDELETE_def)
  moreover have "swtmr_used swtmr_demo i \<longleftrightarrow> i < 4" for i
    by (auto simp: swtmr_used_def timer_demo_cb_def zero_timer_def OS_SWTMR_STATUS_UNUSED_def)
  ultimately show ?thesis
    by (auto simp: swtmr_parts_def default_limit pool_ok_def) (simp_all add: timer_demo_cb_def zero_timer_def)
qed

lemma swtmr_demo_inv: "swtmr_inv swtmr_demo"
  using swtmr_partsI [OF swtmr_demo_parts] swtmr_demo_queue by (simp add: swtmr_inv_def)

lemma swtmr_demo_fits: "clock_fits swtmr_demo"
  by (simp add: clock_fits_def swtmr_demo_time) (simp add: default_config_def config_consts)

section \<open>The scan\<close>

lemma OsSwtmrScan_spec:
  fixes s :: "'a swtmr_state_scheme"
  assumes "swtmr_inv s" "unblocked s" "g_taskScheduled s" "clock_fits s"
  defines "now \<equiv> fst (OsGetCurrSchedTimeCycle s)" and "q \<equiv> snd (OsGetCurrSchedTimeCycle s)"
  shows "sortLink (g_swtmrSortLink s) \<noteq> [] \<Longrightarrow> \<exists>s'. OsSwtmrScan s = Some (expired q \<noteq> [], s') \<and> scanned (expired q) q s'"
    and "expired q = filter (\<lambda>i. expires s i \<le> now) (sortLink (g_swtmrSortLink s))" "swtmr_inv q"
    and "oldSchedTime q = now" "\<And>i. expiry_fits i q"
proof -
  have t: "time_read q" "oldSchedTime q = now"
    using time_read_CurrTime [OF assms(3)] by (simp_all add: q_def now_def)
  show "oldSchedTime q = now" by (rule t(2))
  have sel: "g_swtmrSortLink q = g_swtmrSortLink s" "cfg q = cfg s" "unblocked q"
    using assms(2) by (simp_all add: q_def)
  have "swtmr_ok q = swtmr_ok s" by (rule swtmr_ok_cong) (simp_all add: q_def)
  with assms(1) show inv: "swtmr_inv q" by (simp add: swtmr_inv_def q_def)
  have sl: "sortlink_ok (g_swtmrSortLink s)" by (rule queue_inv_sortlink [OF swtmr_invD(1) [OF assms(1)]])
  show ex: "expired q = filter (\<lambda>i. expires s i \<le> now) (sortLink (g_swtmrSortLink s))"
    using sorted_split(1) [of "responseTime (g_swtmrSortLink s)"] sl by (simp add: expired_def sel t(2) sortlink_ok_def expiry_sorted_def)
  show fits: "expiry_fits i q" for i
  proof -
    have "unat (uwInterval (timer q i)) < 2 ^ 32"
      using unsigned_less [where w = "uwInterval (timer q i)" and ?'a = nat] by simp
    then have "unat (uwInterval (timer q i)) * OS_CYCLE_PER_TICK (cfg s) \<le> (2 ^ 32 - 1) * OS_CYCLE_PER_TICK (cfg s)"
      by (intro mult_le_mono1) simp
    moreover have "unat now + (2 ^ 32 - 1) * OS_CYCLE_PER_TICK (cfg s) < 2 ^ 64 - 1"
      using assms(4) by (simp only: clock_fits_def now_def)
    ultimately have "unat now + unat (uwInterval (timer q i)) * OS_CYCLE_PER_TICK (cfg s) < 2 ^ 64 - 1"
      by linarith
    then show ?thesis by (simp add: expiry_fits_def t(2) sel(2))
  qed
  show "\<exists>s'. OsSwtmrScan s = Some (expired q \<noteq> [], s') \<and> scanned (expired q) q s'"
    if "sortLink (g_swtmrSortLink s) \<noteq> []"
    using that scan_loop_spec [OF inv sel(3) t(1), of False] fits
    by (auto simp: OsSwtmrScan_def sel case_prod_beta t(2) now_def [symmetric] q_def [symmetric])
qed

lemma expired_result:
  "ucState (expired_timer c p t) = (if ucMode t = LOS_SWTMR_MODE_ONCE then OS_SWTMR_STATUS_UNUSED
     else if ucMode t = LOS_SWTMR_MODE_PERIOD then OS_SWTMR_STATUS_TICKING else OS_SWTMR_STATUS_CREATED)"
  "usTimerID (expired_timer c p t) = (if ucMode t = LOS_SWTMR_MODE_ONCE then next_id c (usTimerID t) else usTimerID t)"
  by (simp_all add: expired_timer_def)

lemma OsSwtmrScan_start:
  fixes s :: "'a swtmr_state_scheme"
  assumes "swtmr_inv s" "unblocked s" "g_taskScheduled s" "clock_fits s"
  defines "now \<equiv> fst (OsGetCurrSchedTimeCycle s)"
  defines "es \<equiv> filter (\<lambda>i. expires s i \<le> now) (sortLink (g_swtmrSortLink s))"
  shows "\<exists>q s'. OsSwtmrScan s = Some (es \<noteq> [], s') \<and> scanned es q s' \<and> swtmr_inv q \<and> cfg q = cfg s \<and>
    g_swtmrSortLink q = g_swtmrSortLink s \<and> g_swtmrCBArray q = g_swtmrCBArray s \<and>
    g_swtmrHandlerQueue q = g_swtmrHandlerQueue s \<and> g_allQueue q = g_allQueue s \<and> pend q = pend s \<and> g_taskCBArray q = g_taskCBArray s \<and>
    free_timers q = free_timers s \<and>
    (es \<noteq> [] \<longrightarrow> oldSchedTime q = now \<and> (\<forall>i. expiry_fits i q))"
proof (cases "sortLink (g_swtmrSortLink s) = []")
  case True
  then have "es = []" "OsSwtmrScan s = Some (False, s)" by (simp_all add: es_def OsSwtmrScan_def)
  then show ?thesis using scanned_none [OF assms(1,2)] assms(1) by (intro exI [of _ s]) simp
next
  case False
  define q where "q = snd (OsGetCurrSchedTimeCycle s)"
  note sp = OsSwtmrScan_spec [OF assms(1-4), folded now_def q_def]
  have ex: "expired q = es" using sp(2) by (simp only: es_def)
  obtain s' where "OsSwtmrScan s = Some (es \<noteq> [], s')" "scanned es q s'"
    using sp(1) [OF False] ex by auto
  moreover have "free_timers q = free_timers s" by (simp add: free_timers_def q_def)
  ultimately show ?thesis using sp(3-5)
    by (intro exI [of _ q] exI [of _ s']) (simp add: q_def CurrTime_sel)
qed

text \<open>The outcome of the scan for a timer that is due at time \<open>now\<close>.\<close>

definition due_outcome :: "UINT64 \<Rightarrow> nat \<Rightarrow> 'a swtmr_state_scheme \<Rightarrow> 'a swtmr_state_scheme \<Rightarrow> bool" where
  "due_outcome now i s s' \<longleftrightarrow>
    ucMode (timer s i) = LOS_SWTMR_MODE_ONCE \<and> ucState (timer s' i) = OS_SWTMR_STATUS_UNUSED \<and>
      usTimerID (timer s' i) = next_id (cfg s) (usTimerID (timer s i)) \<or>
    ucMode (timer s i) = LOS_SWTMR_MODE_PERIOD \<and> ucState (timer s' i) = OS_SWTMR_STATUS_TICKING \<and>
      unat (expires s' i) = unat now + unat (uwInterval (timer s i)) * OS_CYCLE_PER_TICK (cfg s) \<or>
    ucMode (timer s i) = LOS_SWTMR_MODE_NO_SELFDELETE \<and> ucState (timer s' i) = OS_SWTMR_STATUS_CREATED"

lemma scanned_due:
  fixes q s' :: "'a swtmr_state_scheme"
  assumes "scanned es q s'" "swtmr_inv q" "i \<in> set es" "i \<in> set (sortLink (g_swtmrSortLink q))" "expiry_fits i q"
  shows "due_outcome (oldSchedTime q) i q s'" "i \<in> set (sortLink (g_swtmrSortLink s')) \<Longrightarrow> oldSchedTime q < expires s' i"
proof -
  have ok: "timer_ok q i" "swtmr_used q i"
    using swtmr_okD(4,5) [OF swtmr_invD(2) [OF assms(2)], of i] assms(4) timer_okD(4) [of q i]
    by (auto simp: swtmr_used_def)
  have t: "ucState (timer s' i) = (if ucMode (timer q i) = LOS_SWTMR_MODE_ONCE then OS_SWTMR_STATUS_UNUSED
     else if ucMode (timer q i) = LOS_SWTMR_MODE_PERIOD then OS_SWTMR_STATUS_TICKING else OS_SWTMR_STATUS_CREATED)"
    "usTimerID (timer s' i) = (if ucMode (timer q i) = LOS_SWTMR_MODE_ONCE then next_id (cfg q) (usTimerID (timer q i))
     else usTimerID (timer q i))"
    using scannedD(6) [OF assms(1,3)] expired_result by metis+
  have x: "i \<in> set (sortLink (g_swtmrSortLink s')) \<Longrightarrow> expires s' i = next_expiry i q"
    "i \<in> set (sortLink (g_swtmrSortLink s')) \<longleftrightarrow> ucMode (timer q i) = LOS_SWTMR_MODE_PERIOD"
    using scannedD(9,10) [OF assms(1), of i] assms(3,4) by auto
  show "due_outcome (oldSchedTime q) i q s'"
    using timer_okD(6) [OF ok] t x unat_next_expiry(1) [OF assms(5)] by (auto simp: due_outcome_def)
  have "config_ok (cfg q)"
    using sched_invD(4) [OF queue_invD(1) [OF swtmr_invD(1) [OF assms(2)]]] by (simp add: globals_ok_def)
  then show "i \<in> set (sortLink (g_swtmrSortLink s')) \<Longrightarrow> oldSchedTime q < expires s' i"
    using x(1) next_expiry_later [OF assms(5) timer_okD(5) [OF ok]] by simp
qed

text \<open>
  C36: The scan of the software timers ends, also when it starts periodic timers again. It handles
  exactly the timers whose expiry has come: a one-shot timer is released and gets a new identifier,
  a periodic one runs again for its interval from now, one that is not deleted is stopped. The
  other timers are untouched, and no timer that runs afterwards is due.
\<close>

theorem swtmr_scan:
  fixes s :: "'a swtmr_state_scheme"
  assumes "swtmr_inv s" "unblocked s" "g_taskScheduled s" "clock_fits s"
  shows "\<exists>s'. let now = fst (OsGetCurrSchedTimeCycle s);
      es = filter (\<lambda>i. expires s i \<le> now) (sortLink (g_swtmrSortLink s)) in
    OsSwtmrScan s = Some (es \<noteq> [], s') \<and> swtmr_inv s' \<and>
    (\<forall>i. if i \<in> set es then due_outcome now i s s' else timer s' i = timer s i) \<and>
    (\<forall>i\<in>set (sortLink (g_swtmrSortLink s')). now < expires s' i \<and> (i \<in> set es \<or> expires s' i = expires s i))"
proof -
  define now where "now = fst (OsGetCurrSchedTimeCycle s)"
  define es where "es = filter (\<lambda>i. expires s i \<le> now) (sortLink (g_swtmrSortLink s))"
  obtain q s' where r: "OsSwtmrScan s = Some (es \<noteq> [], s')" and sc: "scanned es q s'" and inv: "swtmr_inv q"
    and q: "cfg q = cfg s" "g_swtmrSortLink q = g_swtmrSortLink s" "g_swtmrCBArray q = g_swtmrCBArray s"
      "es \<noteq> [] \<Longrightarrow> oldSchedTime q = now" "es \<noteq> [] \<Longrightarrow> expiry_fits i q" for i
    using OsSwtmrScan_start [OF assms, folded now_def, folded es_def] by blast
  note d = scannedD [OF sc, unfolded q]
  have due: "due_outcome now i s s'" "i \<in> set (sortLink (g_swtmrSortLink s')) \<Longrightarrow> now < expires s' i" if "i \<in> set es" for i
  proof -
    have "i \<in> set (sortLink (g_swtmrSortLink q))" using that by (auto simp: es_def q)
    moreover have "es \<noteq> []" using that by (cases es) simp_all
    ultimately show "due_outcome now i s s'" "i \<in> set (sortLink (g_swtmrSortLink s')) \<Longrightarrow> now < expires s' i"
      using scanned_due [OF sc inv that] q by (simp_all add: due_outcome_def)
  qed
  have "now < expires s' i \<and> (i \<in> set es \<or> expires s' i = expires s i)" if "i \<in> set (sortLink (g_swtmrSortLink s'))" for i
    using due(2) [OF _ that] d(9) [of i] d(10) [OF that] that by (cases "i \<in> set es") (auto simp: es_def not_le)
  then show ?thesis
    unfolding Let_def now_def [symmetric] es_def [symmetric] using r d(1,7) due(1) by (intro exI [of _ s']) simp
qed

theorem swtmr_scan_witness:
  "\<exists>s'. OsSwtmrScan swtmr_demo = Some (True, s') \<and> swtmr_inv s' \<and> timer s' 3 = timer swtmr_demo 3 \<and>
    due_outcome 100000 0 swtmr_demo s' \<and> due_outcome 100000 1 swtmr_demo s' \<and> due_outcome 100000 2 swtmr_demo s'"
proof -
  have f: "filter (\<lambda>i. expires swtmr_demo i \<le> 100000) (sortLink (g_swtmrSortLink swtmr_demo)) = [2, 0, 1]" by simp
  have "fst (OsGetCurrSchedTimeCycle swtmr_demo) = 100000" by (simp only: swtmr_demo_time(3) fst_conv)
  note swtmr_scan [OF swtmr_demo_inv swtmr_demo_unblocked swtmr_demo_sel(8) swtmr_demo_fits, unfolded Let_def this f]
  then obtain s' where "OsSwtmrScan swtmr_demo = Some ([2, 0, 1 :: nat] \<noteq> [], s')" "swtmr_inv s'"
    and t: "\<And>i. if i \<in> set [2, 0, 1] then due_outcome 100000 i swtmr_demo s' else timer s' i = timer swtmr_demo i"
    by blast
  then show ?thesis using t [of 0] t [of 1] t [of 2] t [of 3] by (intro exI [of _ s']) simp
qed

section \<open>Start, stop and the remaining time\<close>

text \<open>What a start does to a timer that exists; \<open>c\<close> is the number of ticks to its expiry.\<close>

definition timer_runs :: "nat \<Rightarrow> UINT32 \<Rightarrow> 'a swtmr_state_scheme \<Rightarrow> 'a swtmr_state_scheme \<Rightarrow> bool" where
  "timer_runs i c s s' \<longleftrightarrow> swtmr_inv s' \<and> free_timers s' = free_timers s \<and>
    ucState (timer s' i) = OS_SWTMR_STATUS_TICKING \<and>
    unat (expires s' i) = unat (fst (OsGetCurrSchedTimeCycle s)) + unat c * OS_CYCLE_PER_TICK (cfg s) \<and>
    (\<forall>j. j \<in> set (sortLink (g_swtmrSortLink s')) \<longleftrightarrow> j = i \<or> j \<in> set (sortLink (g_swtmrSortLink s))) \<and>
    (\<forall>j. j \<noteq> i \<longrightarrow> timer s' j = timer s j \<and> expires s' j = expires s j)"

lemma start_runs:
  fixes s s1 :: "'a swtmr_state_scheme" and i :: nat and v :: UINT8
  assumes "swtmr_inv s" "clock_fits s" "i < timer_limit s" "swtmr_used s i" "queue_inv s1" "cfg s1 = cfg s"
    "g_swtmrCBArray s1 = (g_swtmrCBArray s)(i := (timer s i)\<lparr>ucState := v\<rparr>)" "g_swtmrFreeList s1 = g_swtmrFreeList s"
    "\<And>j. j \<noteq> i \<Longrightarrow> canAlign (g_swtmrAlignID s1 j) = canAlign (g_swtmrAlignID s j) \<and>
      isAligned (g_swtmrAlignID s1 j) = isAligned (g_swtmrAlignID s j)"
    "sortLink (g_swtmrSortLink s1) = remove1 i (sortLink (g_swtmrSortLink s))"
    "\<And>j. j \<noteq> i \<Longrightarrow> expires s1 j = expires s j"
    "fst (OsGetCurrSchedTimeCycle s1) = fst (OsGetCurrSchedTimeCycle s)"
  shows "timer_runs i (start_count i s1) s (OsSwtmrStart i s1)"
proof -
  note ok = swtmr_okD [OF swtmr_invD(2) [OF assms(1)]]
  have idx: "timer_index (cfg s1) (usTimerID (timer s1 i)) = i"
    using timer_okD(1) [OF ok(5) [OF assms(3)]] by (simp add: assms(6,7))
  have time: "unat (start_time i s1) = unat (fst (OsGetCurrSchedTimeCycle s)) + unat (start_count i s1) * OS_CYCLE_PER_TICK (cfg s)"
    "start_time i s1 \<noteq> OS_SORT_LINK_INVALID_TIME"
    using start_time_fits [OF assms(2) [unfolded clock_fits_def] config_cycle [OF swtmr_config [OF assms(1)]], of "start_count i s1"]
    by (simp_all add: start_time_def assms(6,12))
  note st = start_ok [OF assms(1,3-10) time(2)] and sel = Start_sel [OF idx]
  have sl: "sortlink_ok (g_swtmrSortLink s)" "sortlink_ok (g_swtmrSortLink s1)"
    by (rule queue_inv_sortlink [OF swtmr_invD(1) [OF assms(1)]], rule queue_inv_sortlink [OF assms(5)])
  have off: "i \<notin> set (sortLink (g_swtmrSortLink s1))" using relink(3) [OF sl(1)] by (simp add: assms(10))
  have "j \<in> set (sortLink (g_swtmrSortLink (OsSwtmrStart i s1))) \<longleftrightarrow> j = i \<or> j \<in> set (sortLink (g_swtmrSortLink s))" for j
    using relink(3) [OF sl(1), of j i] by (auto simp: sel add_sortlink [OF sl(2) off] assms(10))
  moreover have "j \<noteq> i \<Longrightarrow> timer (OsSwtmrStart i s1) j = timer s j \<and> expires (OsSwtmrStart i s1) j = expires s j" for j
    by (simp add: sel add_sortlink [OF sl(2) off] assms(7,11))
  ultimately show ?thesis using st time(1) by (simp add: timer_runs_def)
qed

lemma start_service:
  fixes s :: "'a swtmr_state_scheme" and i :: nat
  assumes "swtmr_inv s" "clock_fits s" "i < timer_limit s"
  defines "q \<equiv> note_align i s"
  shows "ucState (timer s i) = OS_SWTMR_STATUS_CREATED \<Longrightarrow> timer_runs i (start_count i q) s (OsSwtmrStart i q)"
    and "ucState (timer s i) = OS_SWTMR_STATUS_TICKING \<Longrightarrow>
      timer_runs i (start_count i (OsSwtmrStop i q)) s (OsSwtmrStart i (OsSwtmrStop i q))"
proof -
  note ok = swtmr_okD [OF swtmr_invD(2) [OF assms(1)]]
  note t = timer_okD [OF ok(5) [OF assms(3)]]
  have sl: "sortlink_ok (g_swtmrSortLink s)" by (rule queue_inv_sortlink [OF swtmr_invD(1) [OF assms(1)]])
  have same: "g_swtmrCBArray q = g_swtmrCBArray s" "cfg q = cfg s" "g_swtmrSortLink q = g_swtmrSortLink s" "queue_inv q"
    using swtmr_invD(1) [OF assms(1)] by (simp_all add: q_def)
  have align: "j \<noteq> i \<Longrightarrow> g_swtmrAlignID q j = g_swtmrAlignID s j" for j
    unfolding q_def by (rule note_align_other [OF t(1)])
  show "timer_runs i (start_count i q) s (OsSwtmrStart i q)" if st: "ucState (timer s i) = OS_SWTMR_STATUS_CREATED"
  proof (rule start_runs [OF assms(1-3), of _ "OS_SWTMR_STATUS_CREATED"])
    show "sortLink (g_swtmrSortLink q) = remove1 i (sortLink (g_swtmrSortLink s))"
      using t(4) st by (simp add: same remove1_idem)
    show "g_swtmrCBArray q = (g_swtmrCBArray s)(i := (timer s i)\<lparr>ucState := OS_SWTMR_STATUS_CREATED\<rparr>)"
      using st by (simp add: same flip: st)
  qed (use st same align in \<open>simp_all add: swtmr_used_def q_def CurrTime_note_align\<close>)
  show "timer_runs i (start_count i (OsSwtmrStop i q)) s (OsSwtmrStart i (OsSwtmrStop i q))"
    if st: "ucState (timer s i) = OS_SWTMR_STATUS_TICKING"
  proof -
    have "timer_index (cfg q) (usTimerID (timer q i)) = i" "expires q i \<noteq> OS_SORT_LINK_INVALID_TIME"
      using t(1) ticking_valid(2) [OF assms(1,3) st] by (simp_all add: same)
    note sel = Stop_sel [OF this]
    show ?thesis
    proof (rule start_runs [OF assms(1-3), of _ "OS_SWTMR_STATUS_CREATED"])
      show "sortLink (g_swtmrSortLink (OsSwtmrStop i q)) = remove1 i (sortLink (g_swtmrSortLink s))"
        by (simp add: sel same)
    qed (use st same align Stop_queue_inv [of q i] sel in \<open>simp_all add: swtmr_used_def q_def CurrTime_Stop CurrTime_note_align\<close>)
  qed
qed

lemma note_align_ok:
  assumes "swtmr_inv s" "i < timer_limit s" "\<not> swtmr_used s i"
  shows "swtmr_inv (note_align i s)"
proof -
  note ok = swtmr_okD [OF swtmr_invD(2) [OF assms(1)]]
  note t = timer_okD [OF ok(5) [OF assms(2)]]
  have cb: "timer_ok (note_align i s) i" "swtmr_used (note_align i s) = swtmr_used s"
    using t(1,2,4) assms(3) by (auto simp: timer_ok_def Let_def swtmr_used_def fun_eq_iff)
  have "swtmr_ok (note_align i s)"
    using swtmr_ok_upd(1) [OF swtmr_invD(2) [OF assms(1)] _ _ _ _ assms(2) cb(1), of "free_timers s"] ok(2,3)
      note_align_other [OF t(1)] by (simp add: cb(2))
  then show ?thesis using swtmr_invD(1) [OF assms(1)] by (simp add: swtmr_inv_def)
qed

text \<open>
  C38: \<open>LOS_SwtmrStart\<close> refuses an identifier that is not the current one of a timer, and a timer that
  does not exist. It starts every other timer, also one that already runs: the timer expires after
  its interval, counted from now, unless it is to be aligned with others. The other timers are
  untouched.
\<close>

theorem swtmr_start:
  fixes s :: "'a swtmr_state_scheme"
  assumes "swtmr_inv s" "clock_fits s"
  shows "let i = timer_index (cfg s) w; t = timer s i; (ret, s') = LOS_SwtmrStart w s in
    if OS_SWTMR_MAX_TIMERID (cfg s) \<le> w \<or> usTimerID t \<noteq> w then ret = LOS_ERRNO_SWTMR_ID_INVALID \<and> s' = s
    else if ucState t = OS_SWTMR_STATUS_UNUSED then
      ret = LOS_ERRNO_SWTMR_NOT_CREATED \<and> swtmr_inv s' \<and> g_swtmrCBArray s' = g_swtmrCBArray s \<and>
      g_swtmrSortLink s' = g_swtmrSortLink s
    else ret = LOS_OK \<and> (\<exists>c. timer_runs i c s s' \<and>
      (canAlign (g_swtmrAlignID (note_align i s) i) \<or> c = uwInterval t))"
proof -
  define i where "i = timer_index (cfg s) w"
  note ok = swtmr_okD [OF swtmr_invD(2) [OF assms(1)]]
  have lt: "i < timer_limit s" using timer_index_nat(3) [OF ok(1)] by (simp add: i_def)
  note t = timer_okD [OF ok(5) [OF lt]]
  note run = start_service [OF assms lt]
  have stop: "canAlign (g_swtmrAlignID (OsSwtmrStop i (note_align i s)) i) = canAlign (g_swtmrAlignID (note_align i s) i)"
    "timer (OsSwtmrStop i (note_align i s)) i = (timer s i)\<lparr>ucState := OS_SWTMR_STATUS_CREATED\<rparr>"
    if "ucState (timer s i) = OS_SWTMR_STATUS_TICKING"
    using Stop_sel [of "note_align i s" i] t(1) ticking_valid(2) [OF assms(1) lt that] by simp_all
  let ?may = "canAlign (g_swtmrAlignID (note_align i s) i)"
  have c: "?may \<or> start_count i (note_align i s) = uwInterval (timer s i)"
    "ucState (timer s i) = OS_SWTMR_STATUS_TICKING \<Longrightarrow>
      ?may \<or> start_count i (OsSwtmrStop i (note_align i s)) = uwInterval (timer s i)"
    using stop by (auto simp: start_count_def aligns_def)
  show ?thesis
    unfolding Let_def i_def [symmetric]
    using t(3) run c note_align_ok [OF assms(1) lt]
    by (auto simp: LOS_SwtmrStart_def Let_def swtmr_used_def simp flip: i_def)
qed

theorem swtmr_start_witness:
  "fst (LOS_SwtmrStart 9 swtmr_demo) = LOS_ERRNO_SWTMR_ID_INVALID \<and>
   fst (LOS_SwtmrStart 4 swtmr_demo) = LOS_ERRNO_SWTMR_NOT_CREATED \<and>
   (\<exists>c. timer_runs 0 c swtmr_demo (snd (LOS_SwtmrStart 0 swtmr_demo)) \<and> c = 7)"
proof -
  have c: "timer_index default_config 9 = 4" "timer_index default_config 4 = 4" "timer_index default_config 0 = 0"
    "OS_SWTMR_MAX_TIMERID default_config = 0xFFFFFFFF"
    by (simp_all add: timer_index_nat(1) [OF default_limit(1)] default_limit OS_SWTMR_MAX_TIMERID_def)
  have n: "\<not> canAlign (g_swtmrAlignID (note_align 0 swtmr_demo) 0)"
    by (simp add: note_align_def Let_def timer_demo_cb_def zero_align_def zero_timer_def LOS_SWTMR_MODE_PERIOD_def)
  note r = swtmr_start [OF swtmr_demo_inv swtmr_demo_fits]
  show ?thesis
    using r [of 9] r [of 4] r [of 0] n
    by (simp add: Let_def c case_prod_beta timer_demo_cb_def zero_timer_def OS_SWTMR_STATUS_UNUSED_def)
qed

lemma remaining_ticks:
  fixes now target :: UINT64
  assumes "OS_SYS_CLOCK c < 2 ^ 64" "(unat target - unat now) * LOSCFG_BASE_CORE_TICK_PER_SECOND c < 2 ^ 64"
    "(unat target - unat now) * LOSCFG_BASE_CORE_TICK_PER_SECOND c div OS_SYS_CLOCK c < 2 ^ 32"
  shows "unat (OsSortLinkGetTargetExpireTime c now target) =
    (unat target - unat now) * LOSCFG_BASE_CORE_TICK_PER_SECOND c div OS_SYS_CLOCK c"
proof (cases "target \<le> now")
  case True
  then show ?thesis by (simp add: OsSortLinkGetTargetExpireTime_def word_le_nat_alt)
next
  case False
  let ?r = "unat target - unat now" and ?n = "LOSCFG_BASE_CORE_TICK_PER_SECOND c"
  have r: "unat (target - now) = ?r" using False by (simp add: unat_sub)
  have pos: "0 < ?r" using False by (simp add: word_le_nat_alt not_le)
  then have "1 * ?n \<le> ?r * ?n" by (intro mult_le_mono1) simp
  then have "?n < 2 ^ 64" using assms(2) by linarith
  then have n: "unat (of_nat ?n :: UINT64) = ?n" by (simp add: unat_of_nat)
  have k: "unat (of_nat (OS_SYS_CLOCK c) :: UINT64) = OS_SYS_CLOCK c" using assms(1) by (simp add: unat_of_nat)
  have "unat ((target - now) * of_nat ?n) = ?r * ?n" using assms(2) by (simp add: unat_word_ariths(2) r n)
  then show ?thesis
    using False assms(3) by (simp add: OsSortLinkGetTargetExpireTime_def unsigned_ucast_eq take_bit_eq_mod unat_div k)
qed

text \<open>
  \<open>LOS_SwtmrStop\<close> takes a running timer off the list and nothing else, and it refuses every other
  timer without a change. \<open>LOS_SwtmrTimeGet\<close> refuses the same timers, and tells the ticks that a
  running timer has left, rounded down.
\<close>

theorem swtmr_stop:
  fixes s :: "'a swtmr_state_scheme"
  assumes "swtmr_inv s"
  shows "let i = timer_index (cfg s) w; t = timer s i; (ret, s') = LOS_SwtmrStop w s;
      (ret2, ticks, s2) = LOS_SwtmrTimeGet w False s;
      left = (unat (expires s i) - unat (fst (OsGetCurrSchedTimeCycle s))) * LOSCFG_BASE_CORE_TICK_PER_SECOND (cfg s) in
    if \<not> OS_SWTMR_MAX_TIMERID (cfg s) \<le> w \<and> usTimerID t = w \<and> ucState t = OS_SWTMR_STATUS_TICKING then
      ret = LOS_OK \<and> swtmr_inv s' \<and> free_timers s' = free_timers s \<and>
      g_swtmrCBArray s' = (g_swtmrCBArray s)(i := t\<lparr>ucState := OS_SWTMR_STATUS_CREATED\<rparr>) \<and>
      sortLink (g_swtmrSortLink s') = remove1 i (sortLink (g_swtmrSortLink s)) \<and>
      (\<forall>j. j \<noteq> i \<longrightarrow> expires s' j = expires s j) \<and>
      ret2 = LOS_OK \<and> (OS_SYS_CLOCK (cfg s) < 2 ^ 64 \<and> left < 2 ^ 64 \<and> left div OS_SYS_CLOCK (cfg s) < 2 ^ 32 \<longrightarrow>
        (\<exists>n. ticks = Some n \<and> unat n = left div OS_SYS_CLOCK (cfg s)))
    else ret = (if OS_SWTMR_MAX_TIMERID (cfg s) \<le> w \<or> usTimerID t \<noteq> w then LOS_ERRNO_SWTMR_ID_INVALID
        else if ucState t = OS_SWTMR_STATUS_UNUSED then LOS_ERRNO_SWTMR_NOT_CREATED else LOS_ERRNO_SWTMR_NOT_STARTED) \<and>
      s' = s \<and> ret2 = ret \<and> ticks = None \<and> s2 = s"
proof -
  define i where "i = timer_index (cfg s) w"
  note ok = swtmr_okD [OF swtmr_invD(2) [OF assms(1)]]
  have lt: "i < timer_limit s" "swtmrCbId (cfg s) w = i"
    using timer_index_nat(2,3) [OF ok(1)] by (simp_all add: i_def)
  note t = timer_okD [OF ok(5) [OF lt(1)]]
  note st = stop_ok [OF assms lt(1)]
  show ?thesis
    unfolding Let_def i_def [symmetric]
    using t(3) st remaining_ticks [of "cfg s"]
    by (auto simp: LOS_SwtmrStop_def LOS_SwtmrTimeGet_def OsSwtmrTimeGet_def Let_def lt case_prod_beta)
qed

theorem swtmr_stop_witness:
  "fst (LOS_SwtmrStop 3 swtmr_demo) = LOS_OK \<and>
   (\<exists>n. fst (snd (LOS_SwtmrTimeGet 3 False swtmr_demo)) = Some n \<and> unat n = 2) \<and>
   LOS_SwtmrStop 4 swtmr_demo = (LOS_ERRNO_SWTMR_NOT_CREATED, swtmr_demo)"
proof -
  have c: "timer_index default_config 3 = 3" "timer_index default_config 4 = 4"
    "OS_SWTMR_MAX_TIMERID default_config = 0xFFFFFFFF"
    by (simp_all add: timer_index_nat(1) [OF default_limit(1)] default_limit OS_SWTMR_MAX_TIMERID_def)
  note r = swtmr_stop [OF swtmr_demo_inv]
  show ?thesis
    using r [of 3] r [of 4] swtmr_demo_time(3)
    by (simp add: Let_def c case_prod_beta timer_demo_cb_def zero_timer_def OS_SWTMR_STATUS_UNUSED_def
        OS_SWTMR_STATUS_TICKING_def) (simp add: default_config_def prod_eq_iff)
qed

section \<open>Delivery of the handlers\<close>

text \<open>The call that an expired timer asks for.\<close>

definition handler_call :: "swtmr_cb \<Rightarrow> (UINT32 \<times> UINT32) option" where
  "handler_call t = (if pfnHandler t = 0 then None else Some (pfnHandler t, uwTimerArg t))"

lemma timer_item_length: "length (timer_item t) = 8"
  by (simp add: timer_item_def message_def sizeof_SwtmrHandlerItem_def)

lemma timer_item_nth: "j < 8 \<Longrightarrow> timer_item t ! j = handler_item (pfnHandler t) (uwTimerArg t) j"
  by (simp add: timer_item_def message_def sizeof_SwtmrHandlerItem_def)

lemma handler_item_get: "get32 (handler_item f a) 0 = f" "get32 (handler_item f a) 4 = a"
proof -
  show "get32 (handler_item f a) 4 = a" by (simp add: handler_item_def)
  have "get32 (handler_item f a) 0 = get32 (put32 0 f (\<lambda>_. 0)) 0"
    by (rule get32_cong) (auto simp: handler_item_def put32_def)
  then show "get32 (handler_item f a) 0 = f" by simp
qed

lemma item_decoded:
  fixes buf :: bytes and t :: swtmr_cb
  defines "b \<equiv> \<lambda>j. if j < length (timer_item t) then timer_item t ! j else buf j"
  shows "OsSwtmrTask_call LOS_OK b (of_nat (length (timer_item t))) = handler_call t"
proof -
  have "get32 b 0 = get32 (handler_item (pfnHandler t) (uwTimerArg t)) 0"
    "get32 b 4 = get32 (handler_item (pfnHandler t) (uwTimerArg t)) 4"
    by (rule get32_cong; simp add: b_def timer_item_length timer_item_nth)+
  then show ?thesis
    by (simp add: OsSwtmrTask_call_def handler_call_def timer_item_length sizeof_SwtmrHandlerItem_def handler_item_get)
qed

lemma promise_frame:
  assumes "promise_inv h (u, q, R, W)" "unblocked u"
  shows "unblocked (snd (snd (queue_transfer h ty buf n u)))"
    "g_swtmrHandlerQueue (snd (snd (queue_transfer h ty buf n u))) = g_swtmrHandlerQueue u"
proof -
  obtain c' buf' n' where op: "OsQueueBufferOperate ty (g_allQueue u h) buf n = (c', buf', n')" by (metis prod_cases3)
  show "unblocked (snd (snd (queue_transfer h ty buf n u)))"
    by (rule unblocked_transfer [OF queue_invD(1) [OF promise_invD(1) [OF assms(1)]] assms(2) op])
  show "g_swtmrHandlerQueue (snd (snd (queue_transfer h ty buf n u))) = g_swtmrHandlerQueue u"
    by (rule timers_sameD(6) [OF timers_same_transfer [OF op]])
qed

lemma item_size:
  "sizeof_SwtmrHandlerItem \<noteq> 0" "sizeof_SwtmrHandlerItem \<le> SECUREC_MEM_MAX_LEN" "unat sizeof_SwtmrHandlerItem = 8"
  by (simp_all add: sizeof_SwtmrHandlerItem_def SECUREC_MEM_MAX_LEN_def)

text \<open>A pass of the timer task that was blocked in its read, and one that was not.\<close>

lemma task_resumes:
  fixes u :: "'a swtmr_state_scheme"
  assumes "promise_inv h (u, timer_item t # q, R, W)" "unblocked u" "unat (queueSize (g_allQueue u h)) = 12" "tid \<in> R"
  shows "\<exists>b u'. OsQueueOperate_resume tid h 0 buf sizeof_SwtmrHandlerItem u = (LOS_OK, b, sizeof_SwtmrHandlerItem, u') \<and>
    OsSwtmrTask_call LOS_OK b sizeof_SwtmrHandlerItem = handler_call t \<and> unblocked u' \<and>
    g_swtmrHandlerQueue u' = g_swtmrHandlerQueue u \<and>
    queue_step h (u, timer_item t # q, R, W) (u', q, R - {tid}, W \<union> woken (QueueWriteWait h) u u')"
proof -
  obtain ret b m u' where r: "OsQueueOperate_resume tid h 0 buf sizeof_SwtmrHandlerItem u = (ret, b, m, u')"
    by (metis prod_cases4)
  have z: "unat (queueSize (g_allQueue u h)) \<le> unat sizeof_SwtmrHandlerItem + 4" using assms(3) item_size(3) by simp
  note k = reader_keeps(2-5) [OF assms(1,2,4) item_size(1) z item_size(2) r, unfolded list.sel]
  have st: "queue_step h (u, timer_item t # q, R, W) (u', q, R - {tid}, W \<union> woken (QueueWriteWait h) u u')"
    using queue_step.reader_resumes [OF assms(2,4) item_size(1) z item_size(2) r, of "timer_item t # q" W] k(1) by simp
  have "u' = snd (snd (queue_transfer h 0 buf sizeof_SwtmrHandlerItem u))"
    using r k(1) promise_invD(6) [OF assms(1), of tid] assms(4)
    by (auto simp: OsQueueOperate_resume_def awake_def split: if_splits)
  then have "unblocked u'" "g_swtmrHandlerQueue u' = g_swtmrHandlerQueue u"
    using promise_frame [OF assms(1,2)] by simp_all
  moreover have "m = sizeof_SwtmrHandlerItem" using k(4) by (simp add: timer_item_length sizeof_SwtmrHandlerItem_def)
  moreover have "OsSwtmrTask_call LOS_OK b m = handler_call t" unfolding k(3,4) by (rule item_decoded)
  ultimately show ?thesis using r k(1) st by auto
qed

lemma task_reads:
  fixes u :: "'a swtmr_state_scheme"
  assumes "promise_inv h (u, timer_item t # q, R, W)" "unblocked u" "unat (queueSize (g_allQueue u h)) = 12"
    "g_swtmrHandlerQueue u = h" "readWriteableCnt (g_allQueue u h) OS_QUEUE_READ \<noteq> 0" "\<not> OS_INT_ACTIVE u"
  shows "\<exists>b u'. OsSwtmrTask_read buf sizeof_SwtmrHandlerItem u = (Ret LOS_OK, Some b, Some sizeof_SwtmrHandlerItem, u') \<and>
    OsSwtmrTask_call LOS_OK b sizeof_SwtmrHandlerItem = handler_call t \<and> unblocked u' \<and> g_swtmrHandlerQueue u' = h \<and>
    queue_step h (u, timer_item t # q, R, W) (u', q, R, W \<union> woken (QueueWriteWait h) u u')"
proof -
  note p = promise_invD [OF assms(1)]
  have z: "unat (queueSize (g_allQueue u h)) \<le> unat sizeof_SwtmrHandlerItem + 4" using assms(3) item_size(3) by simp
  let ?b = "\<lambda>j. if j < length (timer_item t) then timer_item t ! j else buf j"
  obtain x b n u' where r: "LOS_QueueReadCopy h (Some buf) (Some sizeof_SwtmrHandlerItem) LOS_WAIT_FOREVER u = (x, b, n, u')"
    by (metis prod_cases4)
  have x: "x = Ret LOS_OK" "b = Some ?b" "n = Some (of_nat (length (timer_item t)))"
    using read_now [OF p(1) assms(2) p(2,3) item_size(1) z item_size(2) _ assms(5), of LOS_WAIT_FOREVER buf] assms(6)
    unfolding list.sel by (simp_all add: r)
  have st: "queue_step h (u, timer_item t # q, R, W) (u', q, R, W \<union> woken (QueueWriteWait h) u u')"
    using queue_step.reads [OF assms(2) item_size(1) z item_size(2) _ r, of R W "timer_item t # q"] x(1) assms(5,6) by simp
  let ?q = "take_unit h OS_QUEUE_READ u"
  have n: "n = Some sizeof_SwtmrHandlerItem" using x(3) by (simp add: timer_item_length sizeof_SwtmrHandlerItem_def)
  obtain c' buf' n' where op: "OsQueueBufferOperate 0 (g_allQueue ?q h) buf sizeof_SwtmrHandlerItem = (c', buf', n')"
    by (metis prod_cases3)
  have u': "u' = snd (snd (queue_transfer h 0 buf sizeof_SwtmrHandlerItem ?q))"
    using read_now_eq [OF p(2,3) item_size(1) z _ assms(5), of LOS_WAIT_FOREVER buf] assms(6)
    by (simp add: r Let_def case_prod_beta)
  have "unblocked u'"
    unfolding u' using unblocked_transfer [OF take_unit_inv(1) [OF p(1,2) _ assms(5)] _ op] assms(2) by simp
  moreover have "g_swtmrHandlerQueue u' = h"
    using timers_sameD(6) [OF timers_same_transfer [OF op]] assms(4) by (simp add: u' take_unit_def upd_queue_def)
  moreover have "OsSwtmrTask_call LOS_OK ?b sizeof_SwtmrHandlerItem = handler_call t"
    using item_decoded [of t buf] x(3) n by simp
  ultimately show ?thesis
    using r x n st by (auto simp: OsSwtmrTask_read_def assms(4))
qed

lemma timer_task_pass:
  fixes u :: "'a swtmr_state_scheme"
  assumes "rtranclp (queue_step h) x (u, timer_item t # q1, R1, W1)" "promise_inv h x"
    "unat (queueSize (g_allQueue (fst x) h)) = 12" "unblocked u" "g_swtmrHandlerQueue u = h"
  shows "(tid \<in> R1 \<longrightarrow> (\<exists>b u'.
        OsQueueOperate_resume tid h 0 buf sizeof_SwtmrHandlerItem u = (LOS_OK, b, sizeof_SwtmrHandlerItem, u') \<and>
        OsSwtmrTask_call LOS_OK b sizeof_SwtmrHandlerItem = handler_call t \<and> unblocked u' \<and> g_swtmrHandlerQueue u' = h \<and>
        queue_step h (u, timer_item t # q1, R1, W1) (u', q1, R1 - {tid}, W1 \<union> woken (QueueWriteWait h) u u'))) \<and>
    (readWriteableCnt (g_allQueue u h) OS_QUEUE_READ \<noteq> 0 \<and> \<not> OS_INT_ACTIVE u \<longrightarrow> (\<exists>b u'.
        OsSwtmrTask_read buf sizeof_SwtmrHandlerItem u = (Ret LOS_OK, Some b, Some sizeof_SwtmrHandlerItem, u') \<and>
        OsSwtmrTask_call LOS_OK b sizeof_SwtmrHandlerItem = handler_call t \<and> unblocked u' \<and> g_swtmrHandlerQueue u' = h \<and>
        queue_step h (u, timer_item t # q1, R1, W1) (u', q1, R1, W1 \<union> woken (QueueWriteWait h) u u')))"
proof -
  have p: "promise_inv h (u, timer_item t # q1, R1, W1)" "unat (queueSize (g_allQueue u h)) = 12"
    using run_keeps [OF assms(1,2)] assms(3) by (simp_all add: keeps_promise_def)
  show ?thesis using task_resumes [OF p(1) assms(4) p(2)] task_reads [OF p(1) assms(4) p(2) assms(5)] assms(5) by blast
qed

text \<open>
  C37: No handler is lost as long as the handler queue has room for the timers that expire: the scan puts one
  item per expired timer behind the items that are stored, in the order of expiry, and wakes the timer task when that
  is blocked in its read. Whatever happens to the queue after that, a pass of the timer task takes the oldest item
  out and calls the handler of its timer with the argument of its timer, when it goes on after it was woken as well
  as when it finds an item without waiting.
\<close>

theorem swtmr_handlers_delivered:
  fixes s :: "'a swtmr_state_scheme"
  defines "es \<equiv> filter (\<lambda>i. expires s i \<le> fst (OsGetCurrSchedTimeCycle s)) (sortLink (g_swtmrSortLink s))"
    and "h \<equiv> g_swtmrHandlerQueue s"
  assumes "swtmr_inv s" "unblocked s" "g_taskScheduled s" "clock_fits s" "handler_queue_ok s"
    "promise_inv h (s, q, R, W)" "length q + card W + length es \<le> unat (queueLen (g_allQueue s h))"
  shows "\<exists>s'. let after = (s', q @ map (\<lambda>i. timer_item (timer s i)) es, R \<union> set (take (length es) (pend s (QueueReadWait h))), W)
    in OsSwtmrScan s = Some (es \<noteq> [], s') \<and> unblocked s' \<and> g_swtmrHandlerQueue s' = h \<and>
      rtranclp (queue_step h) (s, q, R, W) after \<and> promise_inv h after \<and>
    (\<forall>u t q1 R1 W1 tid buf.
      rtranclp (queue_step h) after (u, timer_item t # q1, R1, W1) \<and> unblocked u \<and> g_swtmrHandlerQueue u = h \<longrightarrow>
      (tid \<in> R1 \<longrightarrow> (\<exists>b u'.
        OsQueueOperate_resume tid h 0 buf sizeof_SwtmrHandlerItem u = (LOS_OK, b, sizeof_SwtmrHandlerItem, u') \<and>
        OsSwtmrTask_call LOS_OK b sizeof_SwtmrHandlerItem = handler_call t \<and> unblocked u' \<and> g_swtmrHandlerQueue u' = h \<and>
        queue_step h (u, timer_item t # q1, R1, W1) (u', q1, R1 - {tid}, W1 \<union> woken (QueueWriteWait h) u u'))) \<and>
      (readWriteableCnt (g_allQueue u h) OS_QUEUE_READ \<noteq> 0 \<and> \<not> OS_INT_ACTIVE u \<longrightarrow> (\<exists>b u'.
        OsSwtmrTask_read buf sizeof_SwtmrHandlerItem u = (Ret LOS_OK, Some b, Some sizeof_SwtmrHandlerItem, u') \<and>
        OsSwtmrTask_call LOS_OK b sizeof_SwtmrHandlerItem = handler_call t \<and> unblocked u' \<and> g_swtmrHandlerQueue u' = h \<and>
        queue_step h (u, timer_item t # q1, R1, W1) (u', q1, R1, W1 \<union> woken (QueueWriteWait h) u u'))))"
proof -
  obtain x s' where r: "OsSwtmrScan s = Some (es \<noteq> [], s')" and sc: "scanned es x s'" and inv: "swtmr_inv x"
    and x: "cfg x = cfg s" "g_swtmrCBArray x = g_swtmrCBArray s" "g_swtmrHandlerQueue x = h" "g_allQueue x = g_allQueue s"
      "pend x = pend s" "g_taskCBArray x = g_taskCBArray s"
    using OsSwtmrScan_start [OF assms(3-6), folded es_def] unfolding h_def by blast
  define after where
    "after = (s', q @ map (\<lambda>i. timer_item (timer s i)) es, R \<union> set (take (length es) (pend s (QueueReadWait h))), W)"
  have "elsewhere h (R \<union> W) s x" by (rule tasks_elsewhere [OF swtmr_invD(1) [OF inv]]) (simp_all add: x)
  then have st: "queue_step h (s, q, R, W) (x, q, R, W)" by (rule queue_step.other)
  have p: "promise_inv h (x, q, R, W)" using step_keeps [OF st assms(8)] by (simp add: keeps_promise_def)
  have ok: "handler_queue_ok x"
    using assms(7) by (simp add: handler_queue_ok_def queue_valid_def queue_used_def x flip: h_def)
  have "rtranclp (queue_step h) (x, q, R, W) after"
    using scannedD(11) [OF sc ok, of q R W] p assms(9) by (simp add: x after_def)
  with st have run: "rtranclp (queue_step h) (s, q, R, W) after" by (rule converse_rtranclp_into_rtranclp)
  have pa: "promise_inv h after" and za: "unat (queueSize (g_allQueue (fst after) h)) = 12"
    using run_keeps [OF run assms(8)] assms(7) by (simp_all add: keeps_promise_def handler_queue_ok_def flip: h_def)
  show ?thesis
    unfolding Let_def
    using r scannedD(2,5) [OF sc] x(3) run pa timer_task_pass [OF _ pa za] unfolding after_def by blast
qed

lemma interrupt_over:
  fixes u :: "'a queue_state_scheme"
  assumes "promise_inv h (u, q, R, W)"
  shows "queue_step h (u, q, R, W) (u\<lparr>OS_INT_ACTIVE := False\<rparr>, q, R, W)"
proof -
  have "queue_inv (u\<lparr>OS_INT_ACTIVE := False\<rparr>)"
    using promise_invD(1) [OF assms] sched_inv_frame [of "u\<lparr>OS_INT_ACTIVE := False\<rparr>" u]
    by (simp add: queue_inv_def queue_ok_def queue_cb_ok_def queue_used_def [abs_def])
  then have "elsewhere h (R \<union> W) u (u\<lparr>OS_INT_ACTIVE := False\<rparr>)" by (rule tasks_elsewhere) simp_all
  then show ?thesis by (rule queue_step.other)
qed

text \<open>
  In the witness the timer task, task 3, is blocked and three timers expire. It goes on with the handler of
  timer 2, and then takes that of timer 0 without waiting.
\<close>

theorem swtmr_handlers_delivered_witness:
  "\<exists>s' b1 u1 b2 u2. OsSwtmrScan swtmr_demo = Some (True, s') \<and>
    OsQueueOperate_resume 3 0 0 (\<lambda>_. 0) sizeof_SwtmrHandlerItem s' = (LOS_OK, b1, sizeof_SwtmrHandlerItem, u1) \<and>
    OsSwtmrTask_call LOS_OK b1 sizeof_SwtmrHandlerItem = Some (0x8200, 72) \<and>
    OsSwtmrTask_read b1 sizeof_SwtmrHandlerItem (u1\<lparr>OS_INT_ACTIVE := False\<rparr>) =
      (Ret LOS_OK, Some b2, Some sizeof_SwtmrHandlerItem, u2) \<and>
    OsSwtmrTask_call LOS_OK b2 sizeof_SwtmrHandlerItem = Some (0x8000, 70)"
proof -
  have f: "filter (\<lambda>i. expires swtmr_demo i \<le> 100000) (sortLink (g_swtmrSortLink swtmr_demo)) = [2, 0, 1]" by simp
  have now: "fst (OsGetCurrSchedTimeCycle swtmr_demo) = 100000" by (simp only: swtmr_demo_time(3) fst_conv)
  have q: "handler_queue_ok swtmr_demo" "queue_rel 0 swtmr_demo [] 0 0"
    by (simp_all add: handler_queue_ok_def queue_valid_def queue_used_def queue_rel_def ring_holds_def slot_def
        timer_queue_cb_def zero_queue_def default_config_def OS_QUEUE_INUSED_def)
  have st: "\<not> has (status swtmr_demo 3) OS_TASK_STATUS_TIMEOUT"
    by (simp add: swtmr_demo_def) (simp add: demo_at_def demo_tasks)
  have p: "promise_inv 0 (swtmr_demo, [], {}, {})"
    using swtmr_demo_queue q st by (simp add: promise_inv_def handler_queue_ok_def waits_def)
  have room: "length ([] :: UINT8 list list) + card ({} :: nat set) + length [2, 0, 1 :: nat] \<le> unat (queueLen (timer_queue_cb 0))"
    by (simp add: timer_queue_cb_def)
  let ?m = "\<lambda>i. timer_item (timer_demo_cb i)"
  let ?x = "\<lambda>s'. (s' :: swtmr_state, [?m 2, ?m 0, ?m 1], {3 :: nat}, {} :: nat set)"
  have after: "(s' :: swtmr_state, [] @ map (\<lambda>i. timer_item (g_swtmrCBArray swtmr_demo i)) [2, 0, 1],
      {} \<union> set (take (length [2, 0, 1 :: nat]) (pend swtmr_demo (QueueReadWait 0))), {} :: nat set) = ?x s'" for s'
    by simp
  show ?thesis
    using swtmr_handlers_delivered [OF swtmr_demo_inv swtmr_demo_unblocked swtmr_demo_sel(8) swtmr_demo_fits q(1),
        unfolded now f swtmr_demo_sel(1,7), OF p room, unfolded after Let_def]
  proof (elim exE conjE, goal_cases)
    case (1 s')
    obtain b1 u1 where u1: "OsQueueOperate_resume 3 0 0 (\<lambda>_. 0) sizeof_SwtmrHandlerItem s' = (LOS_OK, b1, sizeof_SwtmrHandlerItem, u1)"
      "OsSwtmrTask_call LOS_OK b1 sizeof_SwtmrHandlerItem = handler_call (timer_demo_cb 2)" "unblocked u1" "g_swtmrHandlerQueue u1 = 0"
      and "queue_step 0 (?x s') (u1, [?m 0, ?m 1], {3} - {3}, {} \<union> woken (QueueWriteWait 0) s' u1)"
      using 1(6) [rule_format, of s' "timer_demo_cb 2" "[?m 0, ?m 1]" "{3}" "{}" 3 "\<lambda>_. 0"] 1(2,3) by auto
    then have st: "queue_step 0 (?x s') (u1, [?m 0, ?m 1], {}, woken (QueueWriteWait 0) s' u1)" by simp
    let ?W = "woken (QueueWriteWait 0) s' u1" and ?u = "u1\<lparr>OS_INT_ACTIVE := False\<rparr>"
    have p1: "promise_inv 0 (u1, [?m 0, ?m 1], {}, ?W)" using step_keeps [OF st 1(5)] by (simp add: keeps_promise_def)
    have "unat (readWriteableCnt (g_allQueue ?u 0) OS_QUEUE_READ) = 2"
      using promise_invD(3) [OF p1] by (simp add: queue_rel_def Let_def)
    then have "readWriteableCnt (g_allQueue ?u 0) OS_QUEUE_READ \<noteq> 0" by auto
    moreover have "unblocked ?u" "g_swtmrHandlerQueue ?u = 0" using u1(3,4) by (simp_all add: unblocked_def)
    ultimately obtain b2 u2 where
      "OsSwtmrTask_read b1 sizeof_SwtmrHandlerItem ?u = (Ret LOS_OK, Some b2, Some sizeof_SwtmrHandlerItem, u2)"
      "OsSwtmrTask_call LOS_OK b2 sizeof_SwtmrHandlerItem = handler_call (timer_demo_cb 0)"
      using 1(6) [rule_format, of ?u "timer_demo_cb 0" "[?m 1]" "{}" ?W 3 b1] two_steps [OF st interrupt_over [OF p1]]
      by auto
    moreover have "handler_call (timer_demo_cb 0) = Some (0x8000, 70)" "handler_call (timer_demo_cb 2) = Some (0x8200, 72)"
      by (simp_all add: handler_call_def timer_demo_cb_def)
    ultimately show ?case using 1(1) u1(1,2) by auto
  qed
qed

section \<open>Handles\<close>

text \<open>
  \<open>LOS_SwtmrCreate\<close> with suitable arguments succeeds exactly while fewer timers than the limit
  exist. The identifier it returns is the current one of a timer that was not in use, and that timer
  is stopped and has the handler, the mode and the interval of the call. \<open>LOS_SwtmrDelete\<close> releases a
  timer once, also while it runs; the timer is then the next to be handed out.
\<close>

theorem swtmr_handles:
  fixes s :: "'a swtmr_state_scheme"
  assumes "swtmr_inv s" "interval \<noteq> 0" "handler \<noteq> 0"
    "mode \<in> {LOS_SWTMR_MODE_ONCE, LOS_SWTMR_MODE_PERIOD, LOS_SWTMR_MODE_NO_SELFDELETE}"
    "rouses \<in> {OS_SWTMR_ROUSES_IGNORE, OS_SWTMR_ROUSES_ALLOW}"
    "sensitive \<in> {OS_SWTMR_ALIGN_INSENSITIVE, OS_SWTMR_ALIGN_SENSITIVE}"
  shows "let make = LOS_SwtmrCreate interval mode handler False timerArg rouses sensitive in
    (case make s of (ret, w, s') \<Rightarrow>
      if card {j. j < timer_limit s \<and> swtmr_used s j} < timer_limit s then
        \<exists>v. w = Some v \<and> ret = LOS_OK \<and> swtmr_inv s' \<and> (let i = timer_index (cfg s) v; t = timer s' i in
          \<not> swtmr_used s i \<and> swtmr_used s' = (swtmr_used s)(i := True) \<and> usTimerID t = v \<and>
          ucState t = OS_SWTMR_STATUS_CREATED \<and> pfnHandler t = handler \<and> ucMode t = mode \<and> uwInterval t = interval)
      else ret \<noteq> LOS_OK) \<and>
    (\<forall>w s'. LOS_SwtmrDelete w s = (LOS_OK, s') \<longrightarrow> swtmr_inv s' \<and>
      swtmr_used s' = (swtmr_used s)(timer_index (cfg s) w := False) \<and>
      fst (LOS_SwtmrDelete w s') = LOS_ERRNO_SWTMR_NOT_CREATED \<and>
      (\<exists>s''. make s' = (LOS_OK, Some w, s'')))"
proof -
  let ?make = "LOS_SwtmrCreate interval mode handler False timerArg rouses sensitive"
  have avail: "\<exists>w s''. ?make u = (LOS_OK, Some w, s'')" if "swtmr_inv u" "free_timers u \<noteq> []" for u :: "'a swtmr_state_scheme"
    using create_avail [OF that assms(2,3)] assms(4-6) by auto
  have count: "free_timers s \<noteq> [] \<longleftrightarrow> card {j. j < timer_limit s \<and> swtmr_used s j} < timer_limit s"
    using pool_count [OF swtmr_okD(3) [OF swtmr_invD(2) [OF assms(1)]]] by (cases "free_timers s") auto
  have create: "case ?make s of (ret, w, s') \<Rightarrow>
      if free_timers s \<noteq> [] then
        \<exists>v. w = Some v \<and> ret = LOS_OK \<and> swtmr_inv s' \<and> (let i = timer_index (cfg s) v; t = timer s' i in
          \<not> swtmr_used s i \<and> swtmr_used s' = (swtmr_used s)(i := True) \<and> usTimerID t = v \<and>
          ucState t = OS_SWTMR_STATUS_CREATED \<and> pfnHandler t = handler \<and> ucMode t = mode \<and> uwInterval t = interval)
      else ret \<noteq> LOS_OK"
  proof (cases "free_timers s = []")
    case False
    then obtain v s' where m: "?make s = (LOS_OK, Some v, s')" using avail [OF assms(1)] by blast
    obtain i where i: "i < timer_limit s" "swtmr_inv s'" "\<not> swtmr_used s i" "swtmr_used s' = (swtmr_used s)(i := True)"
      "v = usTimerID (timer s i)" "ucState (timer s' i) = OS_SWTMR_STATUS_CREATED" "pfnHandler (timer s' i) = handler"
      "ucMode (timer s' i) = mode" "uwInterval (timer s' i) = interval" "usTimerID (timer s' i) = usTimerID (timer s i)"
      using create_ok [OF assms(1) m] by auto
    then have "timer_index (cfg s) v = i"
      using timer_okD(1) [OF swtmr_okD(5) [OF swtmr_invD(2) [OF assms(1)] i(1)]] by simp
    then show ?thesis using m False i by simp
  qed (use create_full [OF assms(1)] in \<open>simp add: case_prod_beta\<close>)
  have delete: "swtmr_inv s' \<and> swtmr_used s' = (swtmr_used s)(timer_index (cfg s) w := False) \<and>
      fst (LOS_SwtmrDelete w s') = LOS_ERRNO_SWTMR_NOT_CREATED \<and> (\<exists>s''. ?make s' = (LOS_OK, Some w, s''))"
    if d: "LOS_SwtmrDelete w s = (LOS_OK, s')" for w s'
  proof -
    obtain i where i: "i = timer_index (cfg s) w" "i < timer_limit s" "swtmr_inv s'" "free_timers s' = i # free_timers s"
      "cfg s' = cfg s" "swtmr_used s' = (swtmr_used s)(i := False)" "usTimerID (timer s' i) = w"
      using Delete_service [OF assms(1) d] by blast
    obtain v s'' where m: "?make s' = (LOS_OK, Some v, s'')" using avail [OF i(3)] i(4) by auto
    then have "v = usTimerID (timer s' i)" using create_ok [OF i(3) m] i(4) by auto
    moreover have "fst (LOS_SwtmrDelete w s') = LOS_ERRNO_SWTMR_NOT_CREATED"
    proof -
      have "ucState (timer s' i) = OS_SWTMR_STATUS_UNUSED" using fun_cong [OF i(6), of i] by (simp add: swtmr_used_def)
      moreover have "swtmrCbId (cfg s) w = i"
        using timer_index_nat(2) [OF swtmr_okD(1) [OF swtmr_invD(2) [OF assms(1)]]] i(1) by simp
      moreover have "w < OS_SWTMR_MAX_TIMERID (cfg s)"
        using timer_okD(2) [OF swtmr_okD(5) [OF swtmr_invD(2) [OF i(3)], of i]] i(2,5,7) by simp
      ultimately show ?thesis using i(5,7) by (simp add: LOS_SwtmrDelete_def not_le)
    qed
    ultimately show ?thesis using i m by simp
  qed
  show ?thesis using create delete unfolding count by (simp add: Let_def)
qed

theorem swtmr_handles_witness:
  "fst (LOS_SwtmrCreate 10 1 64 False 0 0 0 swtmr_demo) = LOS_OK"
proof -
  have "{j. j < timer_limit swtmr_demo \<and> swtmr_used swtmr_demo j} = {0, 1, 2, 3}"
    by (auto simp: default_limit less_5 swtmr_used_def timer_demo_cb_def zero_timer_def OS_SWTMR_STATUS_UNUSED_def)
  then show ?thesis
    using swtmr_handles [OF swtmr_demo_inv, of 10 64 1 0 0 0]
    by (auto simp: Let_def case_prod_beta default_limit LOS_SWTMR_MODE_PERIOD_def OS_SWTMR_ROUSES_IGNORE_def
        OS_SWTMR_ALIGN_INSENSITIVE_def LOS_SWTMR_MODE_ONCE_def OS_SWTMR_ROUSES_ALLOW_def OS_SWTMR_ALIGN_SENSITIVE_def)
qed

section \<open>Alignment\<close>

lemma align_walk_same:
  fixes s :: "'a swtmr_state_scheme"
  defines "al \<equiv> \<lambda>x. g_swtmrAlignID s (timer_index (cfg s) (usTimerID (timer s x)))"
  assumes "\<And>x. x \<in> set xs \<Longrightarrow> \<not> (isAligned (al x) \<and> canAlign (al x))"
    "isAligned (al j)" "canAlign (al j)" "uwInterval (timer s j) = interval"
  shows "align_walk s own interval (xs @ j # ys) large little = SameInterval"
  using assms(2)
proof (induction xs arbitrary: large little)
  case Nil
  then show ?case using assms(3-5) by (cases large; cases little) (simp add: al_def Let_def)
next
  case (Cons x xs)
  then have "\<not> isAligned (al x) \<or> \<not> canAlign (al x)" by auto
  then show ?case using Cons by (cases large; cases little) (simp add: al_def Let_def)
qed

text \<open>
  C40: A periodic timer that is started while an aligned timer with the same interval runs is due at
  once instead of together with the other timer: the search for an aligned position sets its count
  of ticks to zero.
\<close>

theorem swtmr_same_interval_due_at_once:
  fixes s :: "'a swtmr_state_scheme"
  assumes "swtmr_inv s" "clock_fits s" "LOSCFG_BASE_CORE_SWTMR_ALIGN (cfg s)"
    "w < OS_SWTMR_MAX_TIMERID (cfg s)" "i = timer_index (cfg s) w" "usTimerID (timer s i) = w"
    "ucState (timer s i) = OS_SWTMR_STATUS_CREATED" "ucMode (timer s i) = LOS_SWTMR_MODE_PERIOD"
    "ucSensitive (timer s i) = OS_SWTMR_ALIGN_INSENSITIVE" "\<not> isAligned (g_swtmrAlignID s i)"
    "sortLink (g_swtmrSortLink s) = xs @ j # ys"
    "\<forall>x\<in>set xs. \<not> (isAligned (g_swtmrAlignID s x) \<and> canAlign (g_swtmrAlignID s x))"
    "isAligned (g_swtmrAlignID s j)" "canAlign (g_swtmrAlignID s j)" "uwInterval (timer s j) = uwInterval (timer s i)"
  shows "fst (LOS_SwtmrStart w s) = LOS_OK \<and> timer_runs i 0 s (snd (LOS_SwtmrStart w s))"
proof -
  note ok = swtmr_okD [OF swtmr_invD(2) [OF assms(1)]]
  have lt: "i < timer_limit s" using timer_index_nat(3) [OF ok(1)] by (simp add: assms(5))
  have idx: "timer_index (cfg s) (usTimerID (timer s x)) = x" if "x \<in> set (sortLink (g_swtmrSortLink s)) \<or> x = i" for x
    using that timer_okD(1) [OF ok(5)] ok(4) lt by blast
  have off: "i \<notin> set (sortLink (g_swtmrSortLink s))" using timer_okD(4) [OF ok(5) [OF lt]] assms(7) by simp
  let ?q = "note_align i s"
  let ?r = "upd_align i (isAligned_update (\<lambda>_. True))
    (upd_swtmr i (\<lambda>t. t\<lparr>uwCount := uwInterval t, ucState := OS_SWTMR_STATUS_TICKING\<rparr>) (snd (OsGetCurrSchedTimeCycle ?q)))"
  have same: "g_swtmrAlignID ?q x = g_swtmrAlignID s x" if "x \<noteq> i" for x
    by (rule note_align_other [OF _ that]) (simp add: idx)
  have "align_walk ?r own (uwInterval (timer s i)) (xs @ j # ys) large little = SameInterval" for own large little
    using idx off assms(11-15) same
    by (intro align_walk_same) auto
  then have "find_count now i ?r = 0" for now
    by (simp add: find_count_def assms(11) Let_def)
  moreover have "aligns i ?q"
    using assms(3,8-10) idx [of i] by (simp add: aligns_def note_align_def Let_def)
  ultimately have "start_count i ?q = 0" by (simp add: start_count_def)
  then show ?thesis
    using start_service(1) [OF assms(1,2) lt assms(7)] assms(4-7)
    by (simp add: LOS_SwtmrStart_def Let_def not_le)
qed

theorem swtmr_same_interval_due_at_once_witness:
  "let s = snd (snd (LOS_SwtmrCreate 10 1 64 False 0 0 1 swtmr_demo)) in
   timer_runs 4 0 s (snd (LOS_SwtmrStart 4 s))"
proof -
  define s where "s = snd (snd (LOS_SwtmrCreate 10 1 64 False 0 0 1 swtmr_demo))"
  note lit = LOS_SWTMR_MODE_PERIOD_def LOS_SWTMR_MODE_ONCE_def LOS_SWTMR_MODE_NO_SELFDELETE_def OS_SWTMR_ROUSES_IGNORE_def
    OS_SWTMR_ALIGN_SENSITIVE_def OS_SWTMR_ALIGN_INSENSITIVE_def OS_SWTMR_STATUS_CREATED_def zero_timer_def zero_align_def
  have al: "LOSCFG_BASE_CORE_SWTMR_ALIGN default_config" by (simp add: default_config_def)
  have s: "LOS_SwtmrCreate 10 1 64 False 0 0 1 swtmr_demo = (LOS_OK, Some 4, s)"
    "timer s 4 = zero_timer\<lparr>usTimerID := 4, pfnHandler := 64, ucMode := 1, uwInterval := 10, ucSensitive := 1, ucState := 1\<rparr>"
    "timer s 3 = timer_demo_cb 3"
    "g_swtmrAlignID s = g_swtmrAlignID swtmr_demo" "sortLink (g_swtmrSortLink s) = [2, 0, 1, 3]"
    "cfg s = default_config"
     by (simp_all add: s_def LOS_SwtmrCreate_def Let_def timer_demo_cb_def al lit)
  have inv: "swtmr_inv s" using create_ok [OF swtmr_demo_inv s(1)] by blast
  have "fst (OsGetCurrSchedTimeCycle s) = fst (OsGetCurrSchedTimeCycle swtmr_demo)"
    by (simp add: s_def LOS_SwtmrCreate_def Let_def al lit upd_swtmr_def OsGetCurrSchedTimeCycle_def HalGetTickCycle_def)
  then have fits: "clock_fits s" using swtmr_demo_fits by (simp add: clock_fits_def s(6))
  have idx: "timer_index default_config 4 = 4" "OS_SWTMR_MAX_TIMERID default_config = 0xFFFFFFFF"
    by (simp_all add: timer_index_nat(1) [OF default_limit(1)] default_limit OS_SWTMR_MAX_TIMERID_def)
  have "fst (LOS_SwtmrStart 4 s) = LOS_OK \<and> timer_runs 4 0 s (snd (LOS_SwtmrStart 4 s))"
  proof (rule swtmr_same_interval_due_at_once [OF inv fits, of 4 4 "[2, 0, 1]" 3 "[]"])
    show "\<forall>x\<in>set [2, 0, 1]. \<not> (isAligned (g_swtmrAlignID s x) \<and> canAlign (g_swtmrAlignID s x))"
      by (simp add: s(4) zero_align_def)
    show "uwInterval (timer s 3) = uwInterval (timer s 4)" by (simp add: s(2,3) timer_demo_cb_def zero_timer_def)
  qed (simp_all add: s(2,4-6) al idx lit)
  then show ?thesis by (simp only: Let_def flip: s_def)
qed

end
