(* ===== verification/Swtmr_Init.thy ===== *)
theory Swtmr_Init
  imports Swtmr_Props
begin

text \<open>The initialisation of the software timers establishes their invariant.\<close>

section \<open>Initialisation\<close>

definition chain_timer :: "nat \<Rightarrow> 'a swtmr_state_scheme \<Rightarrow> 'a swtmr_state_scheme" where
  "chain_timer index s = upd_swtmr (index - 1) (pstNextTimer_update (\<lambda>_. Some index))
     (upd_swtmr index (usTimerID_update (\<lambda>_. of_nat index)) s)"

definition fresh_timer :: "nat \<Rightarrow> nat \<Rightarrow> swtmr_cb" where
  "fresh_timer n i = zero_timer\<lparr>usTimerID := of_nat i, pstNextTimer := if Suc i < n then Some (Suc i) else None\<rparr>"

lemma chain_timers:
  fixes s :: "'a swtmr_state_scheme"
  assumes "0 < n" "\<And>i. i < limit \<Longrightarrow> timer s i = zero_timer" "n \<le> limit"
  shows "fold chain_timer [1..<n] s =
    s\<lparr>g_swtmrCBArray := \<lambda>i. if i < n then fresh_timer n i else timer s i\<rparr>"
  using assms(1,3)
proof (induction n)
  case (Suc n)
  show ?case
  proof (cases "n = 0")
    case True
    have "(\<lambda>i. if i < Suc n then fresh_timer (Suc n) i else timer s i) = g_swtmrCBArray s"
      using assms(2) [of 0] Suc.prems True by (auto simp: fun_eq_iff fresh_timer_def zero_timer_def)
    then show ?thesis unfolding \<open>_ = g_swtmrCBArray s\<close> using True by simp
  next
    case False
    let ?cb = "\<lambda>n i. if i < n then fresh_timer n i else timer s i"
    have "(?cb n)(n := (?cb n n)\<lparr>usTimerID := of_nat n\<rparr>, n - 1 := (?cb n (n - 1))\<lparr>pstNextTimer := Some n\<rparr>) = ?cb (Suc n)"
      using False assms(2) [of n] Suc.prems by (auto simp: fun_eq_iff fresh_timer_def zero_timer_def)
    moreover have "fold chain_timer [1..<Suc n] s = chain_timer n (fold chain_timer [1..<n] s)"
      using False by simp
    moreover have "n - 1 \<noteq> n" using False by simp
    ultimately show ?thesis using Suc False by (simp add: chain_timer_def upd_swtmr_def fun_upd_twist)
  qed
qed simp

lemma fresh_chain:
  assumes "k \<le> n" "\<And>i. i < n \<Longrightarrow> pstNextTimer (cb i) = pstNextTimer (fresh_timer n i)"
  shows "timer_chain cb (if n - k < n then Some (n - k) else None) [n - k..<n]"
  using assms(1)
proof (induction k)
  case (Suc k)
  have "[n - Suc k..<n] = (n - Suc k) # [n - k..<n]" using Suc.prems by (simp add: upt_rec Suc_diff_Suc)
  moreover have "Suc (n - Suc k) = n - k" using Suc.prems by simp
  moreover have "k = 0 \<or> n - k < n" using Suc.prems by auto
  ultimately show ?case using Suc assms(2) [of "n - Suc k"] by (auto simp: fresh_timer_def)
qed simp

lemma fresh_parts:
  fixes s :: "'a swtmr_state_scheme"
  assumes "limit_ok (cfg s)" "g_swtmrFreeList s = Some 0" "sortLink (g_swtmrSortLink s) = []"
    "\<And>i. i < timer_limit s \<Longrightarrow> timer s i = fresh_timer (timer_limit s) i"
    "\<And>i. timer_limit s \<le> i \<Longrightarrow> \<not> swtmr_used s i"
  shows "swtmr_parts s [0..<timer_limit s]"
proof -
  let ?n = "timer_limit s"
  have n: "0 < ?n" "?n < 2 ^ 16" using assms(1) by (simp_all add: limit_ok_def)
  have "timer_chain (g_swtmrCBArray s) (g_swtmrFreeList s) [0..<?n]"
    using fresh_chain [of ?n ?n "g_swtmrCBArray s"] assms(2,4) n(1) by simp
  moreover have unused: "swtmr_used s = (\<lambda>_. False)"
  proof
    fix i
    show "swtmr_used s i = False"
      using assms(4,5) [of i] by (cases "i < ?n") (auto simp: swtmr_used_def fresh_timer_def zero_timer_def OS_SWTMR_STATUS_UNUSED_def)
  qed
  moreover have "timer_ok s i" if i: "i < ?n" for i
  proof -
    have "unat (of_nat i :: UINT32) = i" using i n(2) by (simp add: unat_of_nat)
    moreover have "i < unat (OS_SWTMR_MAX_TIMERID (cfg s))"
    proof -
      have "0 < (2 ^ 32 - 1) div ?n" using n by (simp add: div_greater_zero_iff)
      then have "1 * ?n \<le> (2 ^ 32 - 1) div ?n * ?n" by (intro mult_le_mono1) simp
      then show ?thesis using i by (simp only: max_timerid [OF assms(1)])
    qed
    ultimately show ?thesis
      using i timer_index_nat(1) [OF assms(1)]
      by (simp add: timer_ok_def Let_def assms(3,4) fresh_timer_def zero_timer_def word_less_nat_alt
          OS_SWTMR_STATUS_UNUSED_def OS_SWTMR_STATUS_TICKING_def)
  qed
  ultimately show ?thesis using assms(1,3) by (auto simp: swtmr_parts_def pool_ok_def)
qed

lemma QueueCreate_inv:
  fixes s :: "'a swtmr_state_scheme"
  assumes "LOS_QueueCreate mem garbage len False maxMsgSize s = (LOS_OK, h, s')" "queue_inv s"
  shows "queue_inv s'" "queue_state.more s' = queue_state.more s"
proof -
  note ok = QueueCreate_ok [OF assms(1) queue_invD(2) [OF assms(2)]]
  obtain x where x: "s' = (LOS_MemAlloc mem s)\<lparr>pend := pend s', g_freeQueueList := g_freeQueueList s',
      g_allQueue := g_allQueue s'\<rparr>"
    using assms(1) by (auto simp: LOS_QueueCreate_def upd_queue_def Let_def split: if_split_asm)
  have "sched_inv s'"
    using queue_invD(1) [OF assms(2)] ok
    by (subst x) (subst sched_inv_frame [of _ s]; simp)
  then show "queue_inv s'" using ok by (simp add: queue_inv_def)
  show "queue_state.more s' = queue_state.more s" by (subst x) (simp add: LOS_MemAlloc_def)
qed

lemma SwtmrTaskCreate_inv:
  fixes s :: "'a swtmr_state_scheme" and mem :: UINT32
  assumes "queue_inv s"
  defines "q \<equiv> snd (OsSwtmrTaskCreate mem s)"
  shows "queue_inv q" "cfg q = cfg s" "g_allQueue q = g_allQueue s" "g_swtmrCBArray q = g_swtmrCBArray s"
    "g_swtmrFreeList q = g_swtmrFreeList s" "g_swtmrHandlerQueue q = g_swtmrHandlerQueue s"
    "g_freeQueueList q = g_freeQueueList s"
proof -
  define p where "p = (snd (snd (LOS_TaskCreate False
       (Some \<lparr>pfnTaskEntry = OS_SWTMR_TASK_ENTRY, usTaskPrio = 0, uwArg = 0,
          uwStackSize = of_nat (LOSCFG_BASE_CORE_TSK_SWTMR_STACK_SIZE (cfg s)),
          pcName = Some ''Swt_Task''\<rparr>) mem s)))"
  have q: "q = p \<or> (\<exists>t. q = p\<lparr>g_swtmrTaskID := t\<rparr>)"
    by (auto simp: q_def p_def OsSwtmrTaskCreate_def case_prod_beta split: option.splits)
  have c: "calm {} s p" unfolding p_def by (intro calm_intros calm_refl)
  have "sched_inv p" unfolding p_def by (rule Create_inv [OF queue_invD(1) [OF assms(1)]])
  moreover have "queue_ok p" by (rule queue_ok_calm [OF queue_invD(2) [OF assms(1)] c]) simp
  ultimately have "queue_inv p" by (simp add: queue_inv_def)
  moreover have "queue_inv (p\<lparr>g_swtmrTaskID := t\<rparr>) = queue_inv p" for t by (rule queue_inv_cong) simp_all
  ultimately show "queue_inv q" using q by auto
  show "cfg q = cfg s" using q calmD(1) [OF c] by auto
  show "g_allQueue q = g_allQueue s" "g_freeQueueList q = g_freeQueueList s" using q queue_more [OF calmD(2) [OF c]] by auto
  show "g_swtmrCBArray q = g_swtmrCBArray s" "g_swtmrFreeList q = g_swtmrFreeList s"
    "g_swtmrHandlerQueue q = g_swtmrHandlerQueue s"
    using q swtmr_more [OF queue_state_more [OF calmD(2) [OF c]]] by auto
qed

text \<open>The state in which the handler queue is created.\<close>

definition timers_zeroed :: "UINT32 \<Rightarrow> 'a swtmr_state_scheme \<Rightarrow> 'a swtmr_state_scheme" where
  "timers_zeroed mem s =
    (let limit = timer_limit s;
         s = (if LOSCFG_BASE_CORE_SWTMR_ALIGN (cfg s)
              then s\<lparr>g_swtmrAlignID := \<lambda>i. if i < limit then zero_align else g_swtmrAlignID s i\<rparr> else s);
         s = LOS_MemAlloc mem s
     in upd_swtmr 0 (usTimerID_update (\<lambda>_. 0)) (s\<lparr>g_swtmrCBArray := \<lambda>i. if i < limit then zero_timer else g_swtmrCBArray s i,
          g_swtmrSortLink := (g_swtmrSortLink s)\<lparr>responseTime :=
            \<lambda>i. if i < limit then 0 else responseTime (g_swtmrSortLink s) i\<rparr>,
          g_swtmrFreeList := Some 0\<rparr>))"

lemma timers_zeroed:
  fixes s :: "'a swtmr_state_scheme" and mem :: UINT32
  assumes "queue_inv s" "sortLink (g_swtmrSortLink s) = []" "limit_ok (cfg s)"
  defines "q \<equiv> fold chain_timer [1..<timer_limit s] (timers_zeroed mem s)"
  shows "queue_inv q" "cfg q = cfg s" "g_swtmrFreeList q = Some 0"
    "g_freeQueueList q = g_freeQueueList s" "pend q = pend s"
    "g_swtmrCBArray q = (\<lambda>i. if i < timer_limit s then fresh_timer (timer_limit s) i else timer s i)"
proof -
  have cb: "g_swtmrCBArray (timers_zeroed mem s) = (\<lambda>i. if i < timer_limit s then zero_timer else timer s i)"
    using assms(3) by (auto simp: timers_zeroed_def Let_def fun_eq_iff limit_ok_def zero_timer_def LOS_MemAlloc_def)
  have q: "q = (timers_zeroed mem s)\<lparr>g_swtmrCBArray := \<lambda>i. if i < timer_limit s then fresh_timer (timer_limit s) i else timer s i\<rparr>"
    unfolding q_def using assms(3) by (subst chain_timers [of _ "timer_limit s"]) (simp_all add: cb limit_ok_def cong: if_cong)
  show "g_swtmrCBArray q = (\<lambda>i. if i < timer_limit s then fresh_timer (timer_limit s) i else timer s i)"
    by (simp add: q)
  show "cfg q = cfg s" "g_swtmrFreeList q = Some 0" "g_freeQueueList q = g_freeQueueList s" "pend q = pend s"
    by (simp_all add: q timers_zeroed_def Let_def upd_swtmr_def LOS_MemAlloc_def)
  let ?l = "(g_swtmrSortLink s)\<lparr>responseTime := \<lambda>i. if i < timer_limit s then 0 else responseTime (g_swtmrSortLink s) i\<rparr>"
  have "sortlink_ok ?l" using assms(2) by (simp add: sortlink_ok_def expiry_sorted_def)
  then have "queue_inv (s\<lparr>g_swtmrSortLink := ?l\<rparr>)" by (rule queue_inv_link [OF assms(1)])
  moreover have "queue_inv q = queue_inv (s\<lparr>g_swtmrSortLink := ?l\<rparr>)"
    by (rule queue_inv_cong) (simp_all add: q timers_zeroed_def Let_def upd_swtmr_def LOS_MemAlloc_def cong: if_cong)
  ultimately show "queue_inv q" by simp
qed

lemma SwtmrInit_eq:
  fixes s :: "'a swtmr_state_scheme"
  assumes "LOS_QueueCreate queueMem garbage (of_nat (OS_SWTMR_HANDLE_QUEUE_SIZE (cfg s))) False
      (ucast sizeof_SwtmrHandlerItem) (fold chain_timer [1..<timer_limit s] (timers_zeroed mem s)) = (ret, h, q)"
    and "OsSwtmrTaskCreate stackMem (q\<lparr>g_swtmrHandlerQueue := h\<rparr>) = (ret2, p)"
  shows "OsSwtmrInit mem queueMem garbage stackMem s = (LOS_OK, s') \<longleftrightarrow>
    mem \<noteq> 0 \<and> ret = LOS_OK \<and> ret2 = LOS_OK \<and>
    s' = p\<lparr>g_swtmrSortLink := OsSortLinkInit (g_swtmrSortLink p), g_swtmrScan := True\<rparr>"
proof -
  have c: "cfg (fold chain_timer xs r) = cfg r" for xs and r :: "'a swtmr_state_scheme"
    by (induction xs arbitrary: r) (simp_all add: chain_timer_def)
  show ?thesis
    using assms unfolding OsSwtmrInit_def Let_def chain_timer_def [abs_def, symmetric]
    by (cases "LOSCFG_BASE_CORE_SWTMR_ALIGN (cfg s)"; cases "mem = 0")
      (auto simp: timers_zeroed_def Let_def c split: prod.splits if_split_asm)
qed

text \<open>
  C39: When \<open>OsSwtmrInit\<close> succeeds, the timers satisfy their invariant, every timer is unused and all
  of them are free in the order of the array, the handler queue is empty and has the configured
  length with room for a handler and its argument, and the scan is registered.
\<close>

theorem swtmr_init:
  fixes s :: "'a swtmr_state_scheme"
  assumes "queue_inv s" "sortLink (g_swtmrSortLink s) = []" "limit_ok (cfg s)"
    "\<And>i. timer_limit s \<le> i \<Longrightarrow> \<not> swtmr_used s i" "OS_SWTMR_HANDLE_QUEUE_SIZE (cfg s) < 2 ^ 16"
    "OsSwtmrInit mem queueMem garbage stackMem s = (LOS_OK, s')"
  shows "swtmr_inv s' \<and> free_timers s' = [0..<timer_limit s] \<and> (\<forall>i. \<not> swtmr_used s' i) \<and> cfg s' = cfg s \<and>
    handler_queue_ok s' \<and> queue_rel (g_swtmrHandlerQueue s') s' [] 0 0 \<and>
    unat (queueLen (g_allQueue s' (g_swtmrHandlerQueue s'))) = OS_SWTMR_HANDLE_QUEUE_SIZE (cfg s) \<and> g_swtmrScan s'"
proof -
  let ?n = "timer_limit s"
  obtain ret h q where r: "LOS_QueueCreate queueMem garbage (of_nat (OS_SWTMR_HANDLE_QUEUE_SIZE (cfg s))) False
      (ucast sizeof_SwtmrHandlerItem) (fold chain_timer [1..<?n] (timers_zeroed mem s)) = (ret, h, q)"
    using prod_cases3 by blast
  obtain ret2 p where p: "OsSwtmrTaskCreate stackMem (q\<lparr>g_swtmrHandlerQueue := h\<rparr>) = (ret2, p)" by fastforce
  have q: "LOS_QueueCreate queueMem garbage (of_nat (OS_SWTMR_HANDLE_QUEUE_SIZE (cfg s))) False
      (ucast sizeof_SwtmrHandlerItem) (fold chain_timer [1..<?n] (timers_zeroed mem s)) = (LOS_OK, h, q)"
    and s': "s' = p\<lparr>g_swtmrSortLink := OsSortLinkInit (g_swtmrSortLink p), g_swtmrScan := True\<rparr>"
    using SwtmrInit_eq [OF r p, of s'] assms(6) r by simp_all
  note z = timers_zeroed [OF assms(1-3), of mem]
  note qi = QueueCreate_inv [OF q z(1)] and qc = QueueCreate_ok [OF q queue_invD(2) [OF z(1)]]
  have "queue_inv (q\<lparr>g_swtmrHandlerQueue := h\<rparr>)" using qi(1) by (subst queue_inv_cong(1) [of _ q]) simp_all
  note t = SwtmrTaskCreate_inv [OF this, of stackMem]
  note t = t [unfolded p snd_conv]
  have "queue_inv (p\<lparr>g_swtmrSortLink := OsSortLinkInit (g_swtmrSortLink p)\<rparr>)"
    by (rule queue_inv_link [OF t(1) sortlink_ok_init])
  then have inv: "queue_inv s'"
    by (subst queue_inv_cong(1) [of _ "p\<lparr>g_swtmrSortLink := OsSortLinkInit (g_swtmrSortLink p)\<rparr>"])
      (simp_all add: s')
  have cb: "g_swtmrCBArray s' = (\<lambda>i. if i < ?n then fresh_timer ?n i else timer s i)"
    and sel: "cfg s' = cfg s" "g_swtmrFreeList s' = Some 0" "sortLink (g_swtmrSortLink s') = []"
      "g_swtmrHandlerQueue s' = h" "g_allQueue s' = g_allQueue q" "g_swtmrScan s'"
    using swtmr_more [OF qi(2)] z qc t by (simp_all add: s' OsSortLinkInit_def)
  have unused: "\<not> swtmr_used s' i" for i
    using assms(4) [of i] by (simp add: swtmr_used_def cb fresh_timer_def zero_timer_def OS_SWTMR_STATUS_UNUSED_def)
  have parts: "swtmr_parts s' [0..<?n]"
    using fresh_parts [of s'] assms(3) unused by (simp add: sel cb)
  have n: "unat (of_nat (OS_SWTMR_HANDLE_QUEUE_SIZE (cfg s)) :: UINT16) = OS_SWTMR_HANDLE_QUEUE_SIZE (cfg s)"
    using assms(5) by (simp add: unat_of_nat)
  have "queue_used q h" using qc by simp
  moreover have "h < LOSCFG_BASE_IPC_QUEUE_LIMIT (cfg s)" using queue_blocks.create_fresh(1) [OF queue_invD(2) [OF z(1)] q] z(2) by simp
  ultimately have "handler_queue_ok s'" "queue_rel h s' [] 0 0"
    using created_rel [OF q queue_invD(2) [OF z(1)]]
    by (simp_all add: handler_queue_ok_def queue_valid_def queue_used_def queue_rel_def sel sizeof_SwtmrHandlerItem_def)
  then show ?thesis
    using inv swtmr_partsI [OF parts] swtmr_parts_free [OF parts] unused qc n by (simp add: swtmr_inv_def sel)
qed

text \<open>A state before the initialisation.\<close>

definition no_timers :: swtmr_state where
  "no_timers = swtmr_demo\<lparr>g_swtmrSortLink := \<lparr>sortLink = [], responseTime = (\<lambda>_. 0)\<rparr>,
    g_swtmrCBArray := \<lambda>_. zero_timer\<rparr>"

lemma no_timers_sel [simp]:
  "cfg no_timers = default_config" "g_freeQueueList no_timers () = [1, 2, 3, 4, 5]" "pend no_timers RecycleTask = []"
  "pend no_timers FreeTask = [4, 5]" "g_swtmrCBArray no_timers = (\<lambda>_. zero_timer)"
  "sortLink (g_swtmrSortLink no_timers) = []" "g_allQueue no_timers = timer_queue_cb"
  by (simp_all add: no_timers_def)

lemma no_timers_inv: "queue_inv no_timers"
proof -
  have "queue_inv (swtmr_demo\<lparr>g_swtmrSortLink := \<lparr>sortLink = [], responseTime = (\<lambda>_. 0)\<rparr>\<rparr>)"
    by (rule queue_inv_link [OF swtmr_demo_queue]) (simp add: sortlink_ok_def expiry_sorted_def)
  then show ?thesis by (subst queue_inv_cong(1) [of no_timers]) (simp_all add: no_timers_def)
qed

lemma timer_task_ok:
  assumes "cfg s = default_config" "pend s RecycleTask = []" "pend s FreeTask \<noteq> []" "mem \<noteq> 0"
  shows "fst (OsSwtmrTaskCreate mem s) = LOS_OK"
proof -
  let ?p = "\<lparr>pfnTaskEntry = OS_SWTMR_TASK_ENTRY, usTaskPrio = 0, uwArg = 0,
    uwStackSize = of_nat (LOSCFG_BASE_CORE_TSK_SWTMR_STACK_SIZE (cfg s)), pcName = Some ''Swt_Task''\<rparr>"
  have "fst (OsTaskInitParamCheck (cfg s) (Some ?p)) = LOS_OK"
    by (simp add: OsTaskInitParamCheck_def assms(1) default_config_def Let_def OS_SWTMR_TASK_ENTRY_def
        OS_TASK_PRIORITY_LOWEST_def LOS_Align_def OS_TASK_STACK_ADDR_ALIGN_def)
  then obtain param' where pc: "OsTaskInitParamCheck (cfg s) (Some ?p) = (LOS_OK, param')"
    by (metis prod.collapse)
  show ?thesis
    unfolding OsSwtmrTaskCreate_def LOS_TaskCreate_def CreateOnly_cases [OF pc refl refl]
    using assms(2-4) by (simp add: recycle_nothing Let_def)
qed

theorem swtmr_init_witness:
  "\<exists>s'. OsSwtmrInit 0x20002000 0x20003000 (\<lambda>_. 0) 0x20004000 no_timers = (LOS_OK, s') \<and> swtmr_inv s' \<and>
    free_timers s' = [0, 1, 2, 3, 4]"
proof -
  let ?z = "fold chain_timer [1..<timer_limit no_timers] (timers_zeroed 0x20002000 no_timers)"
  have lim: "limit_ok (cfg no_timers)" by (simp add: default_limit)
  note z = timers_zeroed [OF no_timers_inv no_timers_sel(6) lim, of "0x20002000"]
  obtain ret h q where q: "LOS_QueueCreate 0x20003000 (\<lambda>_. 0) (of_nat (OS_SWTMR_HANDLE_QUEUE_SIZE (cfg no_timers))) False
      (ucast sizeof_SwtmrHandlerItem) ?z = (ret, h, q)"
    using prod_cases3 by blast
  obtain ret2 p where p: "OsSwtmrTaskCreate 0x20004000 (q\<lparr>g_swtmrHandlerQueue := h\<rparr>) = (ret2, p)" by fastforce
  have len: "(of_nat (OS_SWTMR_HANDLE_QUEUE_SIZE (cfg no_timers)) :: UINT16) = 5"
    by (simp add: OS_SWTMR_HANDLE_QUEUE_SIZE_def default_config_def)
  have "ret = LOS_OK"
    using q z(4) unfolding len
    by (auto simp: LOS_QueueCreate_def sizeof_SwtmrHandlerItem_def OS_NULL_SHORT_def LOS_ListEmpty_def Let_def
        LOS_MemAlloc_def split: if_split_asm)
  note q = q [unfolded this]
  note qc = QueueCreate_ok [OF q queue_invD(2) [OF z(1)]]
  have "ret2 = LOS_OK" using timer_task_ok [of "q\<lparr>g_swtmrHandlerQueue := h\<rparr>" "0x20004000"] p z qc by simp
  then obtain s' where i: "OsSwtmrInit 0x20002000 0x20003000 (\<lambda>_. 0) 0x20004000 no_timers = (LOS_OK, s')"
    using SwtmrInit_eq [OF q p] by simp
  have "OS_SWTMR_HANDLE_QUEUE_SIZE (cfg no_timers) < 2 ^ 16"
    by (simp add: OS_SWTMR_HANDLE_QUEUE_SIZE_def default_config_def)
  note r = swtmr_init [OF no_timers_inv no_timers_sel(6) lim _ this i]
  have "upt 0 5 = [0, 1, 2, 3, 4]" by (simp add: upt_rec)
  then show ?thesis
    using i r by (simp add: swtmr_used_def zero_timer_def OS_SWTMR_STATUS_UNUSED_def default_limit)
qed

end
