(* ===== verification/Mem.thy ===== *)
theory Mem
  imports Membox
begin

text \<open>
  The dynamic memory manager (\<open>kernel/src/mm/los_memory.c\<close>), a two-level segregated fit allocator, as
  it is built by default: with \<open>LOSCFG_MEM_WATERLINE\<close> and \<open>LOSCFG_MEM_MUL_POOL\<close>, without
  \<open>LOSCFG_BASE_MEM_NODE_INTEGRITY_CHECK\<close>, \<open>LOSCFG_MEM_LEAKCHECK\<close>, \<open>LOSCFG_MEM_FREE_BY_TASKID\<close>,
  \<open>OS_MEM_EXPAND_ENABLE\<close> and \<open>OS_MEM_TRACE\<close>. The memory is the map from addresses to words of the
  fixed-size pools; every access of the manager is to an aligned word. Pointers are addresses, with
  0 for \<open>NULL\<close>. The result \<open>None\<close> means that a call does not return: a list of blocks that never
  ends, or \<open>LOS_Panic\<close>, which stops the system. Interrupts are locked during each operation.
\<close>

section \<open>Layout\<close>

definition OS_MEM_SLI :: nat where "OS_MEM_SLI = 3"

definition OS_MEM_SMALL_BUCKET_COUNT :: UINT32 where "OS_MEM_SMALL_BUCKET_COUNT = 31"

definition OS_MEM_SMALL_BUCKET_MAX_SIZE :: UINT32 where "OS_MEM_SMALL_BUCKET_MAX_SIZE = 128"

definition OS_MEM_LARGE_BUCKET_COUNT :: UINT32 where "OS_MEM_LARGE_BUCKET_COUNT = 24"

definition OS_MEM_LARGE_START_BUCKET :: UINT32 where "OS_MEM_LARGE_START_BUCKET = 7"

definition OS_MEM_FREE_LIST_COUNT :: UINT32 where
  "OS_MEM_FREE_LIST_COUNT = OS_MEM_SMALL_BUCKET_COUNT + push_bit OS_MEM_SLI OS_MEM_LARGE_BUCKET_COUNT"

definition OS_MEM_BITMAP_WORDS :: UINT32 where
  "OS_MEM_BITMAP_WORDS = drop_bit 5 OS_MEM_FREE_LIST_COUNT + 1"

definition OS_MEM_BITMAP_MASK :: UINT32 where "OS_MEM_BITMAP_MASK = 0x1F"

text \<open>\<open>struct OsMemNodeHead\<close> and \<open>struct OsMemFreeNodeHead\<close>: the addresses of the fields of a node.\<close>

definition node_ptr :: "UINT32 \<Rightarrow> UINT32" where "node_ptr node = node"

definition sizeAndFlag :: "UINT32 \<Rightarrow> UINT32" where "sizeAndFlag node = node + 4"

definition free_prev :: "UINT32 \<Rightarrow> UINT32" where "free_prev node = node + 8"

definition free_next :: "UINT32 \<Rightarrow> UINT32" where "free_next node = node + 12"

text \<open>\<open>struct OsMemPoolHead\<close>: the addresses of the fields of the head of a pool.\<close>

definition info_pool :: "UINT32 \<Rightarrow> UINT32" where "info_pool pool = pool"

definition info_totalSize :: "UINT32 \<Rightarrow> UINT32" where "info_totalSize pool = pool + 4"

definition info_attr :: "UINT32 \<Rightarrow> UINT32" where "info_attr pool = pool + 8"

definition info_waterLine :: "UINT32 \<Rightarrow> UINT32" where "info_waterLine pool = pool + 12"

definition info_curUsedSize :: "UINT32 \<Rightarrow> UINT32" where "info_curUsedSize pool = pool + 16"

definition freeListBitmap :: "UINT32 \<Rightarrow> UINT32 \<Rightarrow> UINT32" where
  "freeListBitmap pool i = pool + 20 + 4 * i"

definition freeList :: "UINT32 \<Rightarrow> UINT32 \<Rightarrow> UINT32" where
  "freeList pool index = pool + 20 + 4 * OS_MEM_BITMAP_WORDS + 4 * index"

definition nextPool :: "UINT32 \<Rightarrow> UINT32" where
  "nextPool pool = pool + 20 + 4 * OS_MEM_BITMAP_WORDS + 4 * OS_MEM_FREE_LIST_COUNT"

definition sizeof_OsMemPoolHead :: UINT32 where
  "sizeof_OsMemPoolHead = 20 + 4 * OS_MEM_BITMAP_WORDS + 4 * OS_MEM_FREE_LIST_COUNT + 4"

definition OS_MEM_POOL_EXPAND_ENABLE :: UINT32 where "OS_MEM_POOL_EXPAND_ENABLE = 0x01"

definition OS_MEM_POOL_UNLOCK_ENABLE :: UINT32 where "OS_MEM_POOL_UNLOCK_ENABLE = 0x02"

definition OS_MEM_NODE_USED_FLAG :: UINT32 where "OS_MEM_NODE_USED_FLAG = push_bit 31 1"

definition OS_MEM_NODE_ALIGNED_FLAG :: UINT32 where "OS_MEM_NODE_ALIGNED_FLAG = push_bit 30 1"

definition OS_MEM_NODE_LEAK_FLAG :: UINT32 where "OS_MEM_NODE_LEAK_FLAG = 0"

definition OS_MEM_NODE_LAST_FLAG :: UINT32 where "OS_MEM_NODE_LAST_FLAG = 0"

definition OS_MEM_NODE_ALIGNED_AND_USED_FLAG :: UINT32 where
  "OS_MEM_NODE_ALIGNED_AND_USED_FLAG =
    OS_MEM_NODE_USED_FLAG OR OS_MEM_NODE_ALIGNED_FLAG OR OS_MEM_NODE_LEAK_FLAG OR OS_MEM_NODE_LAST_FLAG"

definition OS_MEM_NODE_GET_ALIGNED_FLAG :: "UINT32 \<Rightarrow> bool" where
  "OS_MEM_NODE_GET_ALIGNED_FLAG w \<longleftrightarrow> w AND OS_MEM_NODE_ALIGNED_FLAG \<noteq> 0"

definition OS_MEM_NODE_GET_USED_FLAG :: "UINT32 \<Rightarrow> bool" where
  "OS_MEM_NODE_GET_USED_FLAG w \<longleftrightarrow> w AND OS_MEM_NODE_USED_FLAG \<noteq> 0"

definition OS_MEM_NODE_GET_LAST_FLAG :: "UINT32 \<Rightarrow> bool" where
  "OS_MEM_NODE_GET_LAST_FLAG w \<longleftrightarrow> w AND OS_MEM_NODE_LAST_FLAG \<noteq> 0"

definition OS_MEM_NODE_GET_SIZE :: "UINT32 \<Rightarrow> UINT32" where
  "OS_MEM_NODE_GET_SIZE w = w AND NOT OS_MEM_NODE_ALIGNED_AND_USED_FLAG"

definition OS_MEM_NODE_SET_USED_FLAG :: "UINT32 \<Rightarrow> memory \<Rightarrow> memory" where
  "OS_MEM_NODE_SET_USED_FLAG node mem =
    mem(sizeAndFlag node := mem (sizeAndFlag node) OR OS_MEM_NODE_USED_FLAG)"

definition OS_MEM_NODE_SET_ALIGNED_FLAG :: "UINT32 \<Rightarrow> memory \<Rightarrow> memory" where
  "OS_MEM_NODE_SET_ALIGNED_FLAG node mem =
    mem(sizeAndFlag node := mem (sizeAndFlag node) OR OS_MEM_NODE_ALIGNED_FLAG)"

definition OS_MEM_GAPSIZE_USED_FLAG :: UINT32 where "OS_MEM_GAPSIZE_USED_FLAG = 0x80000000"

definition OS_MEM_GAPSIZE_ALIGNED_FLAG :: UINT32 where "OS_MEM_GAPSIZE_ALIGNED_FLAG = 0x40000000"

definition OS_MEM_GET_ALIGNED_GAPSIZE :: "UINT32 \<Rightarrow> UINT32" where
  "OS_MEM_GET_ALIGNED_GAPSIZE gapsize = gapsize AND NOT OS_MEM_GAPSIZE_ALIGNED_FLAG"

definition OS_MEM_GET_GAPSIZE_ALIGNED_FLAG :: "UINT32 \<Rightarrow> bool" where
  "OS_MEM_GET_GAPSIZE_ALIGNED_FLAG gapsize \<longleftrightarrow> gapsize AND OS_MEM_GAPSIZE_ALIGNED_FLAG \<noteq> 0"

definition OS_MEM_GAPSIZE_CHECK :: "UINT32 \<Rightarrow> bool" where
  "OS_MEM_GAPSIZE_CHECK gapsize \<longleftrightarrow>
    OS_MEM_GET_GAPSIZE_ALIGNED_FLAG gapsize \<and> gapsize AND OS_MEM_GAPSIZE_USED_FLAG \<noteq> 0"

definition OS_MEM_ALIGN_SIZE :: UINT32 where "OS_MEM_ALIGN_SIZE = 4"

definition OS_MEM_IS_POW_TWO :: "UINT32 \<Rightarrow> bool" where
  "OS_MEM_IS_POW_TWO v \<longleftrightarrow> v AND (v - 1) = 0"

definition OS_MEM_ALIGN :: "UINT32 \<Rightarrow> UINT32 \<Rightarrow> UINT32" where
  "OS_MEM_ALIGN p alignSize = (p + alignSize - 1) AND NOT (alignSize - 1)"

definition OS_MEM_IS_ALIGNED :: "UINT32 \<Rightarrow> UINT32 \<Rightarrow> bool" where
  "OS_MEM_IS_ALIGNED a b \<longleftrightarrow> a AND (b - 1) = 0"

definition OS_MEM_NODE_HEAD_SIZE :: UINT32 where "OS_MEM_NODE_HEAD_SIZE = 8"

definition OS_MEM_MIN_POOL_SIZE :: UINT32 where
  "OS_MEM_MIN_POOL_SIZE = OS_MEM_NODE_HEAD_SIZE + sizeof_OsMemPoolHead"

definition OS_MEM_MIN_LEFT_SIZE :: UINT32 where "OS_MEM_MIN_LEFT_SIZE = 16"

definition OS_MEM_MIN_ALLOC_SIZE :: UINT32 where "OS_MEM_MIN_ALLOC_SIZE = 8"

definition OS_MEM_NEXT_NODE :: "UINT32 \<Rightarrow> memory \<Rightarrow> UINT32" where
  "OS_MEM_NEXT_NODE node mem = node + OS_MEM_NODE_GET_SIZE (mem (sizeAndFlag node))"

definition OS_MEM_FIRST_NODE :: "UINT32 \<Rightarrow> UINT32" where
  "OS_MEM_FIRST_NODE pool = pool + sizeof_OsMemPoolHead"

definition OS_MEM_END_NODE :: "UINT32 \<Rightarrow> UINT32 \<Rightarrow> UINT32" where
  "OS_MEM_END_NODE pool sz = pool + sz - OS_MEM_NODE_HEAD_SIZE"

definition OS_MEM_MIDDLE_ADDR_OPEN_END :: "UINT32 \<Rightarrow> UINT32 \<Rightarrow> UINT32 \<Rightarrow> bool" where
  "OS_MEM_MIDDLE_ADDR_OPEN_END start middle stop \<longleftrightarrow> start \<le> middle \<and> middle < stop"

definition OS_MEM_MIDDLE_ADDR :: "UINT32 \<Rightarrow> UINT32 \<Rightarrow> UINT32 \<Rightarrow> bool" where
  "OS_MEM_MIDDLE_ADDR start middle stop \<longleftrightarrow> start \<le> middle \<and> middle \<le> stop"

section \<open>Size classes\<close>

text \<open>The position of the lowest and of the highest bit that is set.\<close>

definition OsMemFFS :: "UINT32 \<Rightarrow> UINT16" where
  "OsMemFFS bitmap = (let bitmap = bitmap AND (NOT bitmap + 1)
     in ucast (OS_MEM_BITMAP_MASK - of_nat (CLZ bitmap)))"

definition OsMemFLS :: "UINT32 \<Rightarrow> UINT16" where
  "OsMemFLS bitmap = ucast (OS_MEM_BITMAP_MASK - of_nat (CLZ bitmap))"

definition OsMemLog2 :: "UINT32 \<Rightarrow> UINT32" where
  "OsMemLog2 sz = (if 0 < sz then ucast (OsMemFLS sz) else 0)"

definition OsMemFlGet :: "UINT32 \<Rightarrow> UINT32" where
  "OsMemFlGet sz =
    (if sz < OS_MEM_SMALL_BUCKET_MAX_SIZE then drop_bit 2 sz - 1
     else OsMemLog2 sz - OS_MEM_LARGE_START_BUCKET + OS_MEM_SMALL_BUCKET_COUNT)"

definition OsMemSlGet :: "UINT32 \<Rightarrow> UINT32 \<Rightarrow> UINT32" where
  "OsMemSlGet sz fl =
    (if fl < OS_MEM_SMALL_BUCKET_COUNT \<or> sz < OS_MEM_SMALL_BUCKET_MAX_SIZE then 0
     else
       let sl = drop_bit (unat (fl - OS_MEM_SMALL_BUCKET_COUNT + OS_MEM_LARGE_START_BUCKET)) (push_bit OS_MEM_SLI sz)
       in sl - push_bit OS_MEM_SLI 1)"

definition OsMemFreeListIndexGet :: "UINT32 \<Rightarrow> UINT32" where
  "OsMemFreeListIndexGet sz =
    (let fl = OsMemFlGet sz
     in if fl < OS_MEM_SMALL_BUCKET_COUNT then fl
     else
       let sl = OsMemSlGet sz fl
       in OS_MEM_SMALL_BUCKET_COUNT + push_bit OS_MEM_SLI (fl - OS_MEM_SMALL_BUCKET_COUNT) + sl)"

section \<open>Free lists\<close>

partial_function (option) find_cur :: "UINT32 \<Rightarrow> UINT32 \<Rightarrow> memory \<Rightarrow> UINT32 option" where
  "find_cur sz node mem =
    (if node = 0 then Some 0
     else if sz \<le> mem (sizeAndFlag node) then Some node
     else find_cur sz (mem (free_next node)) mem)"

declare find_cur.simps [code]

definition OsMemFindCurSuitableBlock :: "UINT32 \<Rightarrow> UINT32 \<Rightarrow> UINT32 \<Rightarrow> memory \<Rightarrow> UINT32 option" where
  "OsMemFindCurSuitableBlock pool index sz mem = find_cur sz (mem (freeList pool index)) mem"

definition OsMemNotEmptyIndexGet :: "UINT32 \<Rightarrow> UINT32 \<Rightarrow> memory \<Rightarrow> UINT32" where
  "OsMemNotEmptyIndexGet pool index mem =
    (let mask = mem (freeListBitmap pool (drop_bit 5 index));
         mask = mask AND NOT (push_bit (unat (index AND OS_MEM_BITMAP_MASK)) 1 - 1)
     in if mask \<noteq> 0 then ucast (OsMemFFS mask) + (index AND NOT OS_MEM_BITMAP_MASK)
        else OS_MEM_FREE_LIST_COUNT)"

text \<open>The loop over the further words of the bitmap.\<close>

function next_word :: "UINT32 \<Rightarrow> UINT32 \<Rightarrow> memory \<Rightarrow> UINT32 option" where
  "next_word pool index mem =
    (if index < OS_MEM_FREE_LIST_COUNT then
       let mask = mem (freeListBitmap pool (drop_bit 5 index))
       in if mask \<noteq> 0 then Some (ucast (OsMemFFS mask) + index) else next_word pool (index + 32) mem
     else None)"
  by auto

termination
proof (relation "measure (\<lambda>(pool, index, mem). 256 - unat index)")
  fix pool index :: UINT32 and mem :: memory
  assume "index < OS_MEM_FREE_LIST_COUNT"
  then have "unat index < 223"
    by (simp add: word_less_nat_alt OS_MEM_FREE_LIST_COUNT_def OS_MEM_SMALL_BUCKET_COUNT_def
        OS_MEM_LARGE_BUCKET_COUNT_def OS_MEM_SLI_def push_bit_eq_mult)
  then show "((pool, index + 32, mem), pool, index, mem) \<in> measure (\<lambda>(pool, index, mem). 256 - unat index)"
    by (simp add: unat_word_ariths(1))
qed simp

declare next_word.simps [simp del]

text \<open>The block and the index of its list; the block is 0 when there is none.\<close>

definition OsMemFindNextSuitableBlock :: "UINT32 \<Rightarrow> UINT32 \<Rightarrow> memory \<Rightarrow> (UINT32 \<times> UINT32) option" where
  "OsMemFindNextSuitableBlock pool sz mem =
    (let fl = OsMemFlGet sz;
         small = fl < OS_MEM_SMALL_BUCKET_COUNT;
         curIndex = (if small then OS_MEM_FREE_LIST_COUNT
           else push_bit OS_MEM_SLI (fl - OS_MEM_SMALL_BUCKET_COUNT) + OsMemSlGet sz fl + OS_MEM_SMALL_BUCKET_COUNT);
         index = (if small then fl else curIndex + 1);
         tmp = OsMemNotEmptyIndexGet pool index mem
     in if tmp \<noteq> OS_MEM_FREE_LIST_COUNT then Some (mem (freeList pool tmp), tmp)
     else case next_word pool (LOS_Align (index + 1) 32) mem of
         Some index \<Rightarrow> Some (mem (freeList pool index), index)
       | None \<Rightarrow>
           if curIndex = OS_MEM_FREE_LIST_COUNT then Some (0, OS_MEM_FREE_LIST_COUNT)
           else map_option (\<lambda>node. (node, curIndex)) (OsMemFindCurSuitableBlock pool curIndex sz mem))"

definition OsMemSetFreeListBit :: "UINT32 \<Rightarrow> UINT32 \<Rightarrow> memory \<Rightarrow> memory" where
  "OsMemSetFreeListBit pool index mem =
    (let a = freeListBitmap pool (drop_bit 5 index)
     in mem(a := mem a OR push_bit (unat (index AND 0x1f)) 1))"

definition OsMemClearFreeListBit :: "UINT32 \<Rightarrow> UINT32 \<Rightarrow> memory \<Rightarrow> memory" where
  "OsMemClearFreeListBit pool index mem =
    (let a = freeListBitmap pool (drop_bit 5 index)
     in mem(a := mem a AND NOT (push_bit (unat (index AND 0x1f)) 1)))"

definition OsMemListAdd :: "UINT32 \<Rightarrow> UINT32 \<Rightarrow> UINT32 \<Rightarrow> memory \<Rightarrow> memory" where
  "OsMemListAdd pool listIndex node mem =
    (let firstNode = mem (freeList pool listIndex);
         mem = (if firstNode \<noteq> 0 then mem(free_prev firstNode := node) else mem);
         mem = mem(free_prev node := 0);
         mem = mem(free_next node := firstNode);
         mem = mem(freeList pool listIndex := node)
     in OsMemSetFreeListBit pool listIndex mem)"

definition OsMemListDelete :: "UINT32 \<Rightarrow> UINT32 \<Rightarrow> UINT32 \<Rightarrow> memory \<Rightarrow> memory" where
  "OsMemListDelete pool listIndex node mem =
    (if node = mem (freeList pool listIndex) then
       let mem = mem(freeList pool listIndex := mem (free_next node))
       in if mem (free_next node) = 0 then OsMemClearFreeListBit pool listIndex mem
          else mem(free_prev (mem (free_next node)) := 0)
     else
       let mem = mem(free_next (mem (free_prev node)) := mem (free_next node))
       in if mem (free_next node) \<noteq> 0
          then mem(free_prev (mem (free_next node)) := mem (free_prev node)) else mem)"

definition OsMemFreeNodeAdd :: "UINT32 \<Rightarrow> UINT32 \<Rightarrow> memory \<Rightarrow> memory option" where
  "OsMemFreeNodeAdd pool node mem =
    (let index = OsMemFreeListIndexGet (mem (sizeAndFlag node))
     in if OS_MEM_FREE_LIST_COUNT \<le> index then None else Some (OsMemListAdd pool index node mem))"

definition OsMemFreeNodeDelete :: "UINT32 \<Rightarrow> UINT32 \<Rightarrow> memory \<Rightarrow> memory" where
  "OsMemFreeNodeDelete pool node mem =
    OsMemListDelete pool (OsMemFreeListIndexGet (mem (sizeAndFlag node))) node mem"

definition OsMemFreeNodeGet :: "UINT32 \<Rightarrow> UINT32 \<Rightarrow> memory \<Rightarrow> (UINT32 \<times> memory) option" where
  "OsMemFreeNodeGet pool sz mem =
    (case OsMemFindNextSuitableBlock pool sz mem of None \<Rightarrow> None
     | Some (firstNode, index) \<Rightarrow>
         Some (if firstNode = 0 then (0, mem) else (firstNode, OsMemListDelete pool index firstNode mem)))"

end
