(* ===== verification/Mem_Alloc.thy ===== *)
theory Mem_Alloc
  imports Mem Queue
begin

text \<open>
  The blocks of a pool and the services of \<open>los_memory.c\<close>. Printing and the hooks that trace the
  calls are left out.
\<close>

section \<open>Blocks\<close>

definition OsMemMergeNode :: "UINT32 \<Rightarrow> memory \<Rightarrow> memory" where
  "OsMemMergeNode node mem =
    (let a = sizeAndFlag (mem (node_ptr node));
         mem = mem(a := mem a + mem (sizeAndFlag node));
         nextNode = node + mem (sizeAndFlag node)
     in if \<not> OS_MEM_NODE_GET_LAST_FLAG (mem (sizeAndFlag nextNode))
        then mem(node_ptr nextNode := mem (node_ptr node)) else mem)"

definition OsMemSplitNode :: "UINT32 \<Rightarrow> UINT32 \<Rightarrow> UINT32 \<Rightarrow> memory \<Rightarrow> memory option" where
  "OsMemSplitNode pool allocNode allocSize mem =
    (let newFreeNode = allocNode + allocSize;
         mem = mem(node_ptr newFreeNode := allocNode);
         mem = mem(sizeAndFlag newFreeNode := mem (sizeAndFlag allocNode) - allocSize);
         mem = mem(sizeAndFlag allocNode := allocSize);
         nextNode = OS_MEM_NEXT_NODE newFreeNode mem;
         mem = (if \<not> OS_MEM_NODE_GET_LAST_FLAG (mem (sizeAndFlag nextNode)) then
                  let mem = mem(node_ptr nextNode := newFreeNode)
                  in if \<not> OS_MEM_NODE_GET_USED_FLAG (mem (sizeAndFlag nextNode))
                     then OsMemMergeNode nextNode (OsMemFreeNodeDelete pool nextNode mem) else mem
                else mem)
     in OsMemFreeNodeAdd pool newFreeNode mem)"

definition OsMemCreateUsedNode :: "UINT32 \<Rightarrow> UINT32" where
  "OsMemCreateUsedNode addr = addr + OS_MEM_NODE_HEAD_SIZE"

definition OsMemWaterUsedRecord :: "UINT32 \<Rightarrow> UINT32 \<Rightarrow> memory \<Rightarrow> memory" where
  "OsMemWaterUsedRecord pool sz mem =
    (let mem = mem(info_curUsedSize pool := mem (info_curUsedSize pool) + sz)
     in if mem (info_waterLine pool) < mem (info_curUsedSize pool)
        then mem(info_waterLine pool := mem (info_curUsedSize pool)) else mem)"

section \<open>Initialisation\<close>

text \<open>\<open>memset_s\<close> with the value 0 over the words of the head of a pool.\<close>

definition clear_head :: "UINT32 \<Rightarrow> memory \<Rightarrow> memory" where
  "clear_head pool mem = (\<lambda>a. if a - pool < sizeof_OsMemPoolHead then 0 else mem a)"

definition OsMemPoolInit :: "UINT32 \<Rightarrow> UINT32 \<Rightarrow> memory \<Rightarrow> memory option" where
  "OsMemPoolInit pool sz mem =
    (let mem = clear_head pool mem;
         mem = mem(info_pool pool := pool);
         mem = mem(info_totalSize pool := sz);
         mem = mem(info_attr pool :=
           mem (info_attr pool) AND NOT (OS_MEM_POOL_UNLOCK_ENABLE OR OS_MEM_POOL_EXPAND_ENABLE));
         newNode = OS_MEM_FIRST_NODE pool;
         mem = mem(sizeAndFlag newNode := sz - sizeof_OsMemPoolHead - OS_MEM_NODE_HEAD_SIZE);
         mem = mem(node_ptr newNode := OS_MEM_END_NODE pool sz)
     in case OsMemFreeNodeAdd pool newNode mem of None \<Rightarrow> None
     | Some mem \<Rightarrow>
         let endNode = OS_MEM_END_NODE pool sz;
             mem = mem(sizeAndFlag endNode := 0);
             mem = mem(node_ptr endNode := newNode);
             mem = OS_MEM_NODE_SET_USED_FLAG endNode mem;
             mem = mem(info_curUsedSize pool := sizeof_OsMemPoolHead + OS_MEM_NODE_HEAD_SIZE)
         in Some (mem(info_waterLine pool := mem (info_curUsedSize pool))))"

text \<open>The pools are linked; \<open>g_poolHead\<close> is the first one.\<close>

record pools =
  mem :: memory
  g_poolHead :: UINT32
  m_aucSysMem0 :: UINT32

definition LOS_MemPoolSizeGet :: "UINT32 \<Rightarrow> memory \<Rightarrow> UINT32" where
  "LOS_MemPoolSizeGet pool m = (if pool = 0 then errno_code LOS_NOK else m (info_totalSize pool))"

text \<open>The walk over the linked pools: the last pool, or 0 when the new pool overlaps one of them.\<close>

partial_function (option) pool_walk :: "UINT32 \<Rightarrow> UINT32 \<Rightarrow> UINT32 \<Rightarrow> UINT32 \<Rightarrow> memory \<Rightarrow> UINT32 option option" where
  "pool_walk pool sz curPool next m =
    (if next = 0 then Some (Some curPool)
     else
       let poolEnd = next + LOS_MemPoolSizeGet next m
       in if (pool \<le> next \<and> next < pool + sz) \<or> (pool < poolEnd \<and> poolEnd \<le> pool + sz) then Some None
          else pool_walk pool sz next (m (nextPool next)) m)"

declare pool_walk.simps [code]

definition OsMemPoolAdd :: "UINT32 \<Rightarrow> UINT32 \<Rightarrow> pools \<Rightarrow> (errno \<times> pools) option" where
  "OsMemPoolAdd pool sz s =
    (case pool_walk pool sz (g_poolHead s) (g_poolHead s) (mem s) of None \<Rightarrow> None
     | Some None \<Rightarrow> Some (LOS_NOK, s)
     | Some (Some curPool) \<Rightarrow>
         let s = (if g_poolHead s = 0 then s\<lparr>g_poolHead := pool\<rparr>
                  else s\<lparr>mem := (mem s)(nextPool curPool := pool)\<rparr>)
         in Some (LOS_OK, s\<lparr>mem := (mem s)(nextPool pool := 0)\<rparr>))"

definition LOS_MemInit :: "UINT32 \<Rightarrow> UINT32 \<Rightarrow> pools \<Rightarrow> (errno \<times> pools) option" where
  "LOS_MemInit pool sz s =
    (if pool = 0 \<or> sz \<le> OS_MEM_MIN_POOL_SIZE then Some (OS_ERROR, s)
     else if pool AND (OS_MEM_ALIGN_SIZE - 1) \<noteq> 0 \<or> sz AND (OS_MEM_ALIGN_SIZE - 1) \<noteq> 0 then Some (OS_ERROR, s)
     else case OsMemPoolInit pool sz (mem s) of None \<Rightarrow> None
     | Some m \<Rightarrow>
         (case OsMemPoolAdd pool sz (s\<lparr>mem := m\<rparr>) of None \<Rightarrow> None
          | Some (ret, s) \<Rightarrow>
              Some (if ret \<noteq> LOS_OK then (OS_ERROR, s\<lparr>mem := clear_head pool (mem s)\<rparr>) else (LOS_OK, s))))"

definition OsMemSystemInit :: "UINT32 \<Rightarrow> UINT32 \<Rightarrow> pools \<Rightarrow> (errno \<times> pools) option" where
  "OsMemSystemInit g_memStart heapSize s =
    (let s = s\<lparr>m_aucSysMem0 := g_memStart\<rparr> in LOS_MemInit (m_aucSysMem0 s) heapSize s)"

text \<open>The walk of \<open>OsMemPoolDelete\<close>; the result tells whether the pool was found.\<close>

partial_function (option) unlink_walk :: "UINT32 \<Rightarrow> UINT32 \<Rightarrow> UINT32 \<Rightarrow> memory \<Rightarrow> (bool \<times> memory) option" where
  "unlink_walk pool curPool next m =
    (if next = 0 then Some (False, m)
     else if pool = next then Some (True, m(nextPool curPool := m (nextPool next)))
     else unlink_walk pool next (m (nextPool next)) m)"

declare unlink_walk.simps [code]

definition OsMemPoolDelete :: "UINT32 \<Rightarrow> pools \<Rightarrow> (errno \<times> pools) option" where
  "OsMemPoolDelete pool s =
    (if pool = g_poolHead s then Some (LOS_OK, s\<lparr>g_poolHead := mem s (nextPool (g_poolHead s))\<rparr>)
     else map_option (\<lambda>(found, m). (if found then LOS_OK else LOS_NOK, s\<lparr>mem := m\<rparr>))
       (unlink_walk pool (g_poolHead s) (g_poolHead s) (mem s)))"

definition LOS_MemDeInit :: "UINT32 \<Rightarrow> pools \<Rightarrow> (errno \<times> pools) option" where
  "LOS_MemDeInit pool s =
    (if pool = 0 then Some (OS_ERROR, s)
     else map_option (\<lambda>(ret, s). if ret \<noteq> LOS_OK then (OS_ERROR, s) else (LOS_OK, s\<lparr>mem := clear_head pool (mem s)\<rparr>))
       (OsMemPoolDelete pool s))"

definition LOS_MemUnlockEnable :: "UINT32 \<Rightarrow> memory \<Rightarrow> memory" where
  "LOS_MemUnlockEnable pool m =
    (if pool = 0 then m else m(info_attr pool := m (info_attr pool) OR OS_MEM_POOL_UNLOCK_ENABLE))"

section \<open>Allocation\<close>

definition OsMemAlloc :: "UINT32 \<Rightarrow> UINT32 \<Rightarrow> memory \<Rightarrow> (UINT32 \<times> memory) option" where
  "OsMemAlloc pool sz m =
    (let allocSize = OS_MEM_ALIGN (sz + OS_MEM_NODE_HEAD_SIZE) OS_MEM_ALIGN_SIZE
     in if allocSize = 0 then Some (0, m)
     else case OsMemFreeNodeGet pool allocSize m of None \<Rightarrow> None
     | Some (allocNode, m) \<Rightarrow>
         if allocNode = 0 then Some (0, m)
         else
           (case if allocSize + OS_MEM_MIN_LEFT_SIZE \<le> m (sizeAndFlag allocNode)
              then OsMemSplitNode pool allocNode allocSize m else Some m of None \<Rightarrow> None
            | Some m \<Rightarrow>
                let m = OS_MEM_NODE_SET_USED_FLAG allocNode m;
                    m = OsMemWaterUsedRecord pool (OS_MEM_NODE_GET_SIZE (m (sizeAndFlag allocNode))) m
                in Some (OsMemCreateUsedNode allocNode, m)))"

definition LOS_MemAlloc_pool :: "UINT32 \<Rightarrow> UINT32 \<Rightarrow> memory \<Rightarrow> (UINT32 \<times> memory) option" where
  "LOS_MemAlloc_pool pool sz m =
    (if pool = 0 \<or> sz = 0 then Some (0, m)
     else
       let sz = (if sz < OS_MEM_MIN_ALLOC_SIZE then OS_MEM_MIN_ALLOC_SIZE else sz)
       in if OS_MEM_NODE_GET_USED_FLAG sz \<or> OS_MEM_NODE_GET_ALIGNED_FLAG sz then Some (0, m)
       else OsMemAlloc pool sz m)"

definition LOS_MemAllocAlign :: "UINT32 \<Rightarrow> UINT32 \<Rightarrow> UINT32 \<Rightarrow> memory \<Rightarrow> (UINT32 \<times> memory) option" where
  "LOS_MemAllocAlign pool sz boundary m =
    (if pool = 0 \<or> sz = 0 \<or> boundary = 0 \<or> \<not> OS_MEM_IS_POW_TWO boundary \<or> \<not> OS_MEM_IS_ALIGNED boundary 4
     then Some (0, m)
     else
       let sz = (if sz < OS_MEM_MIN_ALLOC_SIZE then OS_MEM_MIN_ALLOC_SIZE else sz)
       in if (-1) - sz < boundary - 4 then Some (0, m)
       else
         let useSize = sz + boundary - 4
         in if OS_MEM_NODE_GET_USED_FLAG useSize \<or> OS_MEM_NODE_GET_ALIGNED_FLAG useSize then Some (0, m)
         else case OsMemAlloc pool useSize m of None \<Rightarrow> None
         | Some (ptr, m) \<Rightarrow>
             let alignedPtr = OS_MEM_ALIGN ptr boundary
             in if ptr = alignedPtr then Some (ptr, m)
             else
               let gapSize = alignedPtr - ptr;
                   allocNode = ptr - OS_MEM_NODE_HEAD_SIZE;
                   m = OS_MEM_NODE_SET_ALIGNED_FLAG allocNode m;
                   gapSize = gapSize OR OS_MEM_GAPSIZE_ALIGNED_FLAG
               in Some (alignedPtr, m(alignedPtr - 4 := gapSize)))"

section \<open>Release\<close>

definition OsMemAddrValidCheck :: "UINT32 \<Rightarrow> UINT32 \<Rightarrow> memory \<Rightarrow> bool" where
  "OsMemAddrValidCheck pool addr m \<longleftrightarrow>
    OS_MEM_MIDDLE_ADDR_OPEN_END (pool + sizeof_OsMemPoolHead) addr (pool + m (info_totalSize pool))"

definition OsMemIsNodeValid :: "UINT32 \<Rightarrow> UINT32 \<Rightarrow> UINT32 \<Rightarrow> UINT32 \<Rightarrow> memory \<Rightarrow> bool" where
  "OsMemIsNodeValid node startNode endNode pool m \<longleftrightarrow>
    OS_MEM_MIDDLE_ADDR startNode node endNode \<and>
    (OS_MEM_NODE_GET_USED_FLAG (m (sizeAndFlag node)) \<or> OsMemAddrValidCheck pool (m (node_ptr node)) m)"

definition OsMemCheckUsedNode :: "UINT32 \<Rightarrow> UINT32 \<Rightarrow> memory \<Rightarrow> errno" where
  "OsMemCheckUsedNode pool node m =
    (let startNode = OS_MEM_FIRST_NODE pool;
         endNode = OS_MEM_END_NODE pool (m (info_totalSize pool));
         nextNode = OS_MEM_NEXT_NODE node m;
         prev = m (node_ptr node)
     in if \<not> OsMemIsNodeValid node startNode endNode pool m then LOS_NOK
     else if \<not> OS_MEM_NODE_GET_USED_FLAG (m (sizeAndFlag node)) then LOS_NOK
     else if \<not> OsMemIsNodeValid nextNode startNode endNode pool m then LOS_NOK
     else if \<not> OS_MEM_NODE_GET_LAST_FLAG (m (sizeAndFlag nextNode)) \<and> m (node_ptr nextNode) \<noteq> node then LOS_NOK
     else if node \<noteq> startNode \<and>
       (\<not> OsMemIsNodeValid prev startNode endNode pool m \<or> OS_MEM_NEXT_NODE prev m \<noteq> node) then LOS_NOK
     else LOS_OK)"

definition OsMemFree :: "UINT32 \<Rightarrow> UINT32 \<Rightarrow> memory \<Rightarrow> (errno \<times> memory) option" where
  "OsMemFree pool node m =
    (let ret = OsMemCheckUsedNode pool node m
     in if ret \<noteq> LOS_OK then Some (ret, m)
     else
       let m = m(info_curUsedSize pool := m (info_curUsedSize pool) - OS_MEM_NODE_GET_SIZE (m (sizeAndFlag node)));
           m = m(sizeAndFlag node := OS_MEM_NODE_GET_SIZE (m (sizeAndFlag node)));
           preNode = m (node_ptr node);
           (node, m) = (if preNode \<noteq> 0 \<and> \<not> OS_MEM_NODE_GET_USED_FLAG (m (sizeAndFlag preNode))
             then (preNode, OsMemMergeNode node (OsMemFreeNodeDelete pool preNode m)) else (node, m));
           nextNode = OS_MEM_NEXT_NODE node m;
           m = (if nextNode \<noteq> 0 \<and> \<not> OS_MEM_NODE_GET_USED_FLAG (m (sizeAndFlag nextNode))
             then OsMemMergeNode nextNode (OsMemFreeNodeDelete pool nextNode m) else m)
       in map_option (\<lambda>m. (ret, m)) (OsMemFreeNodeAdd pool node m))"

definition OsGetRealPtr :: "UINT32 \<Rightarrow> UINT32 \<Rightarrow> memory \<Rightarrow> UINT32" where
  "OsGetRealPtr pool ptr m =
    (let gapSize = m (ptr - 4)
     in if OS_MEM_GAPSIZE_CHECK gapSize then 0
     else if OS_MEM_GET_GAPSIZE_ALIGNED_FLAG gapSize then
       let gapSize = OS_MEM_GET_ALIGNED_GAPSIZE gapSize
       in if gapSize AND (OS_MEM_ALIGN_SIZE - 1) \<noteq> 0 \<or> ptr - OS_MEM_NODE_HEAD_SIZE - pool < gapSize then 0
          else ptr - gapSize
     else ptr)"

definition LOS_MemFree_pool :: "UINT32 \<Rightarrow> UINT32 \<Rightarrow> memory \<Rightarrow> (errno \<times> memory) option" where
  "LOS_MemFree_pool pool ptr m =
    (if pool = 0 \<or> ptr = 0 \<or> \<not> OS_MEM_IS_ALIGNED pool 4 \<or> \<not> OS_MEM_IS_ALIGNED ptr 4 then Some (LOS_NOK, m)
     else
       let ptr = OsGetRealPtr pool ptr m
       in if ptr = 0 then Some (LOS_NOK, m) else OsMemFree pool (ptr - OS_MEM_NODE_HEAD_SIZE) m)"

section \<open>Change of size\<close>

definition OsMemReAllocSmaller :: "UINT32 \<Rightarrow> UINT32 \<Rightarrow> UINT32 \<Rightarrow> UINT32 \<Rightarrow> memory \<Rightarrow> memory option" where
  "OsMemReAllocSmaller pool allocSize node nodeSize m =
    (let m = m(sizeAndFlag node := nodeSize)
     in case if allocSize + OS_MEM_MIN_LEFT_SIZE \<le> nodeSize
       then map_option (\<lambda>m. m(info_curUsedSize pool := m (info_curUsedSize pool) - (nodeSize - allocSize)))
              (OsMemSplitNode pool node allocSize m)
       else Some m of None \<Rightarrow> None
     | Some m \<Rightarrow> Some (OS_MEM_NODE_SET_USED_FLAG node m))"

definition OsMemMergeNodeForReAllocBigger ::
  "UINT32 \<Rightarrow> UINT32 \<Rightarrow> UINT32 \<Rightarrow> UINT32 \<Rightarrow> UINT32 \<Rightarrow> memory \<Rightarrow> memory option" where
  "OsMemMergeNodeForReAllocBigger pool allocSize node nodeSize nextNode m =
    (let m = m(sizeAndFlag node := nodeSize);
         m = OsMemFreeNodeDelete pool nextNode m;
         m = OsMemMergeNode nextNode m
     in case if allocSize + OS_MEM_MIN_LEFT_SIZE \<le> m (sizeAndFlag node)
       then OsMemSplitNode pool node allocSize m else Some m of None \<Rightarrow> None
     | Some m \<Rightarrow>
         let m = OS_MEM_NODE_SET_USED_FLAG node m
         in Some (OsMemWaterUsedRecord pool (m (sizeAndFlag node) - nodeSize) m))"

text \<open>
  \<open>memcpy_s\<close> of \<open>count\<close> bytes, a multiple of the word size, between blocks of the pool that do not
  overlap. \<open>False\<close> is an error code; a size that is too large for the destination resets it.
\<close>

definition copy_words :: "UINT32 \<Rightarrow> UINT32 \<Rightarrow> UINT32 \<Rightarrow> UINT32 \<Rightarrow> memory \<Rightarrow> bool \<times> memory" where
  "copy_words dest destMax src count m =
    (if destMax = 0 \<or> SECUREC_MEM_MAX_LEN < destMax then (False, m)
     else if destMax < count then (False, \<lambda>a. if a - dest < destMax then 0 else m a)
     else (True, \<lambda>a. if a - dest < count then m (src + (a - dest)) else m a))"

definition OsMemRealloc :: "UINT32 \<Rightarrow> UINT32 \<Rightarrow> UINT32 \<Rightarrow> UINT32 \<Rightarrow> memory \<Rightarrow> (UINT32 \<times> memory) option" where
  "OsMemRealloc pool ptr node sz m =
    (let allocSize = OS_MEM_ALIGN (sz + OS_MEM_NODE_HEAD_SIZE) OS_MEM_ALIGN_SIZE;
         nodeSize = OS_MEM_NODE_GET_SIZE (m (sizeAndFlag node));
         nextNode = OS_MEM_NEXT_NODE node m
     in if allocSize \<le> nodeSize
     then map_option (\<lambda>m. (ptr, m)) (OsMemReAllocSmaller pool allocSize node nodeSize m)
     else if \<not> OS_MEM_NODE_GET_USED_FLAG (m (sizeAndFlag nextNode)) \<and>
       allocSize \<le> m (sizeAndFlag nextNode) + nodeSize
     then map_option (\<lambda>m. (ptr, m)) (OsMemMergeNodeForReAllocBigger pool allocSize node nodeSize nextNode m)
     else case OsMemAlloc pool sz m of None \<Rightarrow> None
     | Some (tmpPtr, m) \<Rightarrow>
         if tmpPtr = 0 then Some (0, m)
         else
           let (eok, m) = copy_words tmpPtr sz ptr (nodeSize - OS_MEM_NODE_HEAD_SIZE) m
           in if \<not> eok then map_option (\<lambda>(_, m). (0, m)) (LOS_MemFree_pool pool tmpPtr m)
           else map_option (\<lambda>(_, m). (tmpPtr, m)) (OsMemFree pool node m))"

definition LOS_MemRealloc :: "UINT32 \<Rightarrow> UINT32 \<Rightarrow> UINT32 \<Rightarrow> memory \<Rightarrow> (UINT32 \<times> memory) option" where
  "LOS_MemRealloc pool ptr sz m =
    (if pool = 0 \<or> OS_MEM_NODE_GET_USED_FLAG sz \<or> OS_MEM_NODE_GET_ALIGNED_FLAG sz then Some (0, m)
     else if ptr = 0 then LOS_MemAlloc_pool pool sz m
     else if sz = 0 then map_option (\<lambda>(_, m). (0, m)) (LOS_MemFree_pool pool ptr m)
     else
       let sz = (if sz < OS_MEM_MIN_ALLOC_SIZE then OS_MEM_MIN_ALLOC_SIZE else sz);
           ptr = OsGetRealPtr pool ptr m
       in if ptr = 0 then Some (0, m)
       else
         let node = ptr - OS_MEM_NODE_HEAD_SIZE
         in if OsMemCheckUsedNode pool node m \<noteq> LOS_OK then Some (0, m)
         else OsMemRealloc pool ptr node sz m)"

section \<open>Checks and statistics\<close>

definition OsMemAddrValidCheckPrint :: "UINT32 \<Rightarrow> UINT32 \<Rightarrow> memory \<Rightarrow> errno" where
  "OsMemAddrValidCheckPrint pool tmpNode m =
    (if \<not> OsMemAddrValidCheck pool (m (free_prev tmpNode)) m then LOS_NOK
     else if \<not> OsMemAddrValidCheck pool (m (free_next tmpNode)) m then LOS_NOK else LOS_OK)"

definition OsMemIntegrityCheckSub :: "UINT32 \<Rightarrow> UINT32 \<Rightarrow> memory \<Rightarrow> errno" where
  "OsMemIntegrityCheckSub tmpNode pool m =
    (if \<not> OsMemAddrValidCheck pool (m (node_ptr tmpNode)) m then LOS_NOK
     else if \<not> OS_MEM_NODE_GET_USED_FLAG (m (sizeAndFlag tmpNode)) then
       if OsMemAddrValidCheckPrint pool tmpNode m \<noteq> LOS_OK then LOS_NOK else LOS_OK
     else LOS_OK)"

text \<open>The loop of \<open>OsMemIntegrityCheck\<close>, with the result, \<open>*tmpNode\<close> and \<open>*preNode\<close>.\<close>

partial_function (option) check_loop ::
  "UINT32 \<Rightarrow> UINT32 \<Rightarrow> UINT32 \<Rightarrow> UINT32 \<Rightarrow> memory \<Rightarrow> (errno \<times> UINT32 \<times> UINT32) option" where
  "check_loop pool endNode preNode tmpNode m =
    (if tmpNode < endNode then
       if OsMemIntegrityCheckSub tmpNode pool m = LOS_NOK then Some (LOS_NOK, tmpNode, preNode)
       else check_loop pool endNode tmpNode (OS_MEM_NEXT_NODE tmpNode m) m
     else Some (LOS_OK, tmpNode, preNode))"

declare check_loop.simps [code]

definition OsMemIntegrityCheck :: "UINT32 \<Rightarrow> memory \<Rightarrow> (errno \<times> UINT32 \<times> UINT32) option" where
  "OsMemIntegrityCheck pool m =
    check_loop pool (OS_MEM_END_NODE pool (m (info_totalSize pool))) (OS_MEM_FIRST_NODE pool) (OS_MEM_FIRST_NODE pool) m"

text \<open>An error ends in \<open>LOS_Panic\<close> (\<open>OsMemIntegrityCheckError\<close>).\<close>

definition LOS_MemIntegrityCheck :: "UINT32 \<Rightarrow> memory \<Rightarrow> errno option" where
  "LOS_MemIntegrityCheck pool m =
    (if pool = 0 then Some LOS_NOK
     else case OsMemIntegrityCheck pool m of None \<Rightarrow> None
     | Some (ret, _, _) \<Rightarrow> if ret \<noteq> LOS_OK then None else Some LOS_OK)"

partial_function (option) used_loop :: "UINT32 \<Rightarrow> UINT32 \<Rightarrow> UINT32 \<Rightarrow> memory \<Rightarrow> UINT32 option" where
  "used_loop endNode tmpNode memUsed m =
    (if tmpNode < endNode then
       let memUsed = (if OS_MEM_NODE_GET_USED_FLAG (m (sizeAndFlag tmpNode))
                      then memUsed + OS_MEM_NODE_GET_SIZE (m (sizeAndFlag tmpNode)) else memUsed)
       in used_loop endNode (OS_MEM_NEXT_NODE tmpNode m) memUsed m
     else Some memUsed)"

declare used_loop.simps [code]

definition LOS_MemTotalUsedGet :: "UINT32 \<Rightarrow> memory \<Rightarrow> UINT32 option" where
  "LOS_MemTotalUsedGet pool m =
    (if pool = 0 then Some (errno_code LOS_NOK)
     else used_loop (OS_MEM_END_NODE pool (m (info_totalSize pool))) (OS_MEM_FIRST_NODE pool) 0 m)"

record LOS_MEM_POOL_STATUS =
  totalUsedSize :: UINT32
  totalFreeSize :: UINT32
  maxFreeNodeSize :: UINT32
  usedNodeNum :: UINT32
  freeNodeNum :: UINT32
  usageWaterLine :: UINT32

definition zero_status :: LOS_MEM_POOL_STATUS where
  "zero_status = \<lparr>totalUsedSize = 0, totalFreeSize = 0, maxFreeNodeSize = 0, usedNodeNum = 0,
    freeNodeNum = 0, usageWaterLine = 0\<rparr>"

definition OsMemInfoGet :: "UINT32 \<Rightarrow> memory \<Rightarrow> LOS_MEM_POOL_STATUS \<Rightarrow> LOS_MEM_POOL_STATUS" where
  "OsMemInfoGet node m st =
    (let sz = OS_MEM_NODE_GET_SIZE (m (sizeAndFlag node))
     in if \<not> OS_MEM_NODE_GET_USED_FLAG (m (sizeAndFlag node))
     then st\<lparr>totalFreeSize := totalFreeSize st + sz, freeNodeNum := freeNodeNum st + 1,
             maxFreeNodeSize := (if sz < maxFreeNodeSize st then maxFreeNodeSize st else sz)\<rparr>
     else st\<lparr>totalUsedSize := totalUsedSize st + sz, usedNodeNum := usedNodeNum st + 1\<rparr>)"

partial_function (option) info_loop ::
  "UINT32 \<Rightarrow> UINT32 \<Rightarrow> memory \<Rightarrow> LOS_MEM_POOL_STATUS \<Rightarrow> LOS_MEM_POOL_STATUS option" where
  "info_loop endNode tmpNode m st =
    (if tmpNode < endNode then info_loop endNode (OS_MEM_NEXT_NODE tmpNode m) m (OsMemInfoGet tmpNode m st)
     else Some st)"

declare info_loop.simps [code]

definition LOS_MemInfoGet :: "UINT32 \<Rightarrow> bool \<Rightarrow> memory \<Rightarrow> (errno \<times> LOS_MEM_POOL_STATUS option) option" where
  "LOS_MemInfoGet pool statusNull m =
    (if statusNull then Some (LOS_NOK, None)
     else if pool = 0 \<or> m (info_pool pool) \<noteq> pool then Some (LOS_NOK, None)
     else map_option (\<lambda>st. (LOS_OK, Some (st\<lparr>usageWaterLine := m (info_waterLine pool)\<rparr>)))
       (info_loop (OS_MEM_END_NODE pool (m (info_totalSize pool))) (OS_MEM_FIRST_NODE pool) m zero_status))"

end
