(* ===== verification/Mem_Class.thy ===== *)
theory Mem_Class
  imports Mem_Alloc
begin

text \<open>
  The size classes of the memory manager and the search for a free list through the bitmap.
\<close>

lemmas mem_consts = OS_MEM_FREE_LIST_COUNT_def OS_MEM_SMALL_BUCKET_COUNT_def OS_MEM_LARGE_BUCKET_COUNT_def
  OS_MEM_SLI_def OS_MEM_SMALL_BUCKET_MAX_SIZE_def OS_MEM_LARGE_START_BUCKET_def OS_MEM_BITMAP_WORDS_def
  OS_MEM_BITMAP_MASK_def push_bit_eq_mult

lemma mem_counts: "OS_MEM_FREE_LIST_COUNT = 223" "OS_MEM_BITMAP_WORDS = 7" "sizeof_OsMemPoolHead = 944"
  by (simp_all add: mem_consts sizeof_OsMemPoolHead_def drop_bit_eq_div)

section \<open>Logarithm\<close>

lemma bit_le_unat: "bit (w :: 'a::len word) k \<Longrightarrow> 2 ^ k \<le> unat w"
proof -
  assume "bit w k"
  then have "bit (unat w) k" by (simp add: bit_unsigned_iff)
  then have "odd (unat w div 2 ^ k)" by (simp add: bit_iff_odd)
  then have "0 < unat w div 2 ^ k" by (cases "unat w div 2 ^ k") auto
  then show ?thesis by (simp add: div_greater_zero_iff)
qed

lemma no_bits_unat:
  fixes w :: "'a::len word"
  assumes "\<And>j. n \<le> j \<Longrightarrow> j < LENGTH('a) \<Longrightarrow> \<not> bit w j"
  shows "unat w < 2 ^ n"
proof -
  have "take_bit n w = w"
    by (rule bit_eqI) (use assms in \<open>auto simp: bit_take_bit_iff dest: bit_imp_le_length\<close>, meson bit_imp_le_length not_le)
  then have "unat w = take_bit n (unat w)" by (metis unsigned_take_bit_eq)
  then show ?thesis by (metis take_bit_nat_less_exp)
qed

lemma CLZ_unat:
  assumes "w \<noteq> 0"
  shows "2 ^ (31 - CLZ w) \<le> unat w" "unat w < 2 ^ (32 - CLZ w)"
proof -
  show "2 ^ (31 - CLZ w) \<le> unat w" by (rule bit_le_unat [OF CLZ_bit [OF assms]])
  show "unat w < 2 ^ (32 - CLZ w)"
  proof (rule no_bits_unat)
    fix j assume "32 - CLZ w \<le> j" "j < LENGTH(32)"
    then have "31 - j < CLZ w" "31 - j < 32" "31 - (31 - j) = j" using CLZ_less [OF assms] by auto
    then show "\<not> bit w j" using CLZ_least [of "31 - j" w] by simp
  qed
qed

lemma log_unique:
  assumes "2 ^ a \<le> n" "n < 2 ^ Suc a" "2 ^ b \<le> n" "n < (2::nat) ^ Suc b" shows "a = b"
proof -
  have "(2::nat) ^ a < 2 ^ Suc b" "(2::nat) ^ b < 2 ^ Suc a" using assms by linarith+
  then show ?thesis by (simp only: power_strict_increasing_iff)
qed

definition lg :: "UINT32 \<Rightarrow> nat" where "lg w = 31 - CLZ w"

lemma lg:
  assumes "w \<noteq> 0" shows "2 ^ lg w \<le> unat w" "unat w < 2 ^ Suc (lg w)" "lg w < 32"
proof -
  have "Suc (31 - CLZ w) = 32 - CLZ w" using CLZ_less [OF assms] by simp
  then show "2 ^ lg w \<le> unat w" "unat w < 2 ^ Suc (lg w)" "lg w < 32"
    using CLZ_unat [OF assms] by (simp_all add: lg_def)
qed

lemma FLS_lg: "w \<noteq> 0 \<Longrightarrow> OsMemFLS w = of_nat (lg w)"
proof -
  assume "w \<noteq> 0"
  then have "CLZ w < 32" by (rule CLZ_less)
  then have "OS_MEM_BITMAP_MASK - of_nat (CLZ w) = of_nat (31 - CLZ w)"
    by (simp add: OS_MEM_BITMAP_MASK_def of_nat_diff)
  then show ?thesis by (simp add: OsMemFLS_def lg_def unsigned_of_nat take_bit_nat_eq_self)
qed

section \<open>The class of a size\<close>

definition cls :: "UINT32 \<Rightarrow> nat" where
  "cls sz = (if unat sz < 128 then unat sz div 4 - 1
     else 31 + 8 * (lg sz - 7) + (unat sz * 8 div 2 ^ lg sz - 8))"

lemma second_level:
  assumes "w \<noteq> 0"
  shows "8 \<le> unat w * 8 div 2 ^ lg w" "unat w * 8 div 2 ^ lg w < 16"
proof -
  have "8 * 2 ^ lg w \<le> unat w * 8" using lg(1) [OF assms] by simp
  then show "8 \<le> unat w * 8 div 2 ^ lg w" by (simp add: less_eq_div_iff_mult_less_eq)
  have "unat w * 8 < 16 * 2 ^ lg w" using lg(2) [OF assms] by simp
  then show "unat w * 8 div 2 ^ lg w < 16" by (simp add: div_less_iff_less_mult)
qed

lemma word_of_natI: "unat w = n \<Longrightarrow> (w :: UINT32) = of_nat n"
  by auto

lemma unat_drop: "unat (drop_bit n w) = unat w div 2 ^ n" for w :: UINT32
  using take_bit_nat_eq_self [OF unsigned_less [of w]]
  by (subst unsigned_drop_bit_eq) (simp only: drop_bit_eq_div)

lemma lg_large:
  assumes "128 \<le> unat w" shows "7 \<le> lg w"
proof (rule ccontr)
  assume "\<not> 7 \<le> lg w"
  then have "Suc (lg w) \<le> 7" by simp
  then have "(2::nat) ^ Suc (lg w) \<le> 2 ^ 7" by (rule power_increasing) simp
  moreover have "w \<noteq> 0" using assms by auto
  ultimately show False using lg(2) [of w] assms by simp
qed

lemma lg_bound:
  assumes "unat w < 2 ^ n" "w \<noteq> 0" shows "lg w < n"
proof -
  have "(2::nat) ^ lg w < 2 ^ n" using lg(1) [OF assms(2)] assms(1) by linarith
  then show ?thesis by simp
qed

lemma FlGet_class:
  assumes "4 \<le> unat sz" 
  shows "unat (OsMemFlGet sz) = (if unat sz < 128 then unat sz div 4 - 1 else 31 + (lg sz - 7))"
    and "OsMemFlGet sz < OS_MEM_SMALL_BUCKET_COUNT \<longleftrightarrow> unat sz < 128"
proof -
  have nz: "sz \<noteq> 0" using assms by auto
  have small: "sz < OS_MEM_SMALL_BUCKET_MAX_SIZE \<longleftrightarrow> unat sz < 128"
    by (simp add: OS_MEM_SMALL_BUCKET_MAX_SIZE_def word_less_nat_alt)
  have one: "unat (drop_bit 2 sz - 1) = unat sz div 4 - 1"
  proof -
    have "unat (drop_bit 2 sz) = unat sz div 4" using unat_drop [of 2 sz] by simp
    moreover have "1 \<le> unat sz div 4" using assms by simp
    ultimately show ?thesis by (simp add: unat_sub word_le_nat_alt)
  qed
  have two: "unat (OsMemLog2 sz - OS_MEM_LARGE_START_BUCKET + OS_MEM_SMALL_BUCKET_COUNT) = 31 + (lg sz - 7)"
    if "\<not> unat sz < 128"
  proof -
    have l: "7 \<le> lg sz" "lg sz < 32" using lg_large [of sz] lg(3) [OF nz] that by simp_all
    have "OsMemLog2 sz = of_nat (lg sz)"
      using nz l by (simp add: OsMemLog2_def FLS_lg unsigned_of_nat take_bit_nat_eq_self word_gt_0)
    moreover have "of_nat (lg sz) - 7 + 31 = (of_nat (31 + (lg sz - 7)) :: UINT32)"
      using l by (simp add: of_nat_diff)
    moreover have "unat (of_nat (31 + (lg sz - 7)) :: UINT32) = 31 + (lg sz - 7)"
      using l by (simp only: unsigned_of_nat) (simp add: take_bit_nat_eq_self)
    ultimately show ?thesis
      by (simp only: OS_MEM_LARGE_START_BUCKET_def OS_MEM_SMALL_BUCKET_COUNT_def)
  qed
  show c: "unat (OsMemFlGet sz) = (if unat sz < 128 then unat sz div 4 - 1 else 31 + (lg sz - 7))"
    using one two by (simp add: OsMemFlGet_def small)
  show "OsMemFlGet sz < OS_MEM_SMALL_BUCKET_COUNT \<longleftrightarrow> unat sz < 128"
    using c by (auto simp: word_less_nat_alt OS_MEM_SMALL_BUCKET_COUNT_def)
qed

lemma SlGet_class:
  assumes "128 \<le> unat sz" "unat sz < 2 ^ 29"
  shows "unat (OsMemSlGet sz (OsMemFlGet sz)) = unat sz * 8 div 2 ^ lg sz - 8"
proof -
  have nz: "sz \<noteq> 0" using assms by auto
  have big: "\<not> sz < OS_MEM_SMALL_BUCKET_MAX_SIZE"
    using assms(1) by (simp add: OS_MEM_SMALL_BUCKET_MAX_SIZE_def word_less_nat_alt)
  have fl: "unat (OsMemFlGet sz) = 31 + (lg sz - 7)" "\<not> OsMemFlGet sz < OS_MEM_SMALL_BUCKET_COUNT"
    using FlGet_class [of sz] assms(1) by auto
  have l: "7 \<le> lg sz" "lg sz < 32" using lg_large [of sz] lg(3) [OF nz] assms(1) by simp_all
  have "OsMemFlGet sz = of_nat (31 + (lg sz - 7))" using fl(1) by (rule word_of_natI)
  then have "OsMemFlGet sz - OS_MEM_SMALL_BUCKET_COUNT + OS_MEM_LARGE_START_BUCKET = of_nat (lg sz)"
    using l by (simp add: OS_MEM_LARGE_START_BUCKET_def OS_MEM_SMALL_BUCKET_COUNT_def of_nat_diff)
  then have sh: "unat (OsMemFlGet sz - OS_MEM_SMALL_BUCKET_COUNT + OS_MEM_LARGE_START_BUCKET) = lg sz"
    using l by (simp add: unat_of_nat)
  have "unat (push_bit 3 sz) = unat sz * 8" using assms(2) by (simp add: push_bit_eq_mult unat_word_ariths(2))
  then have d: "unat (drop_bit (lg sz) (push_bit 3 sz)) = unat sz * 8 div 2 ^ lg sz"
    by (simp only: unat_drop)
  then have "8 \<le> drop_bit (lg sz) (push_bit 3 sz)" using second_level(1) [OF nz] by (simp add: word_le_nat_alt)
  then have "unat (drop_bit (lg sz) (push_bit 3 sz) - 8) = unat sz * 8 div 2 ^ lg sz - 8"
    by (simp add: unat_sub d)
  then show ?thesis using big fl(2) by (simp add: OsMemSlGet_def sh OS_MEM_SLI_def push_bit_eq_mult)
qed

lemma index_class:
  assumes "4 \<le> unat sz" "unat sz < 2 ^ 29"
  shows "unat (OsMemFreeListIndexGet sz) = cls sz" "cls sz < 207"
proof -
  have nz: "sz \<noteq> 0" using assms by auto
  have bound: "31 + 8 * (lg sz - 7) + (unat sz * 8 div 2 ^ lg sz - 8) < 207" if "128 \<le> unat sz"
    using lg_bound [OF assms(2) nz] second_level [OF nz] by linarith
  then show "cls sz < 207" using assms(1) by (auto simp: cls_def)
  show "unat (OsMemFreeListIndexGet sz) = cls sz"
  proof (cases "unat sz < 128")
    case True
    then show ?thesis using FlGet_class [OF assms(1)] by (simp add: OsMemFreeListIndexGet_def cls_def)
  next
    case False
    then have s: "unat (OsMemSlGet sz (OsMemFlGet sz)) = unat sz * 8 div 2 ^ lg sz - 8"
      using SlGet_class assms(2) by simp
    have "unat (OsMemFlGet sz) = 31 + (lg sz - 7)" using FlGet_class(1) [OF assms(1)] False by simp
    then have "OsMemFlGet sz = of_nat (31 + (lg sz - 7))" by (rule word_of_natI)
    then have "OsMemFlGet sz - 31 = of_nat (lg sz - 7)" by simp
    then have "unat (31 + push_bit 3 (OsMemFlGet sz - 31) + OsMemSlGet sz (OsMemFlGet sz)) =
        31 + 8 * (lg sz - 7) + (unat sz * 8 div 2 ^ lg sz - 8)"
      using bound False s lg_bound [OF assms(2) nz]
      by (simp add: push_bit_eq_mult unat_word_ariths unat_of_nat)
    then show ?thesis
      using FlGet_class(2) [OF assms(1)] False
      by (simp add: OsMemFreeListIndexGet_def cls_def OS_MEM_SMALL_BUCKET_COUNT_def OS_MEM_SLI_def Let_def)
  qed
qed

lemma cls_mono:
  assumes "4 \<le> unat a" "unat a \<le> unat b" shows "cls a \<le> cls b"
proof -
  have nz: "a \<noteq> 0" "b \<noteq> 0" using assms by auto
  consider "unat b < 128" | "unat a < 128" "128 \<le> unat b" | "128 \<le> unat a" "lg a < lg b" | "128 \<le> unat a" "lg a = lg b"
  proof -
    have "lg a \<le> lg b"
    proof (rule ccontr)
      assume "\<not> lg a \<le> lg b"
      then have "(2::nat) ^ Suc (lg b) \<le> 2 ^ lg a" by (intro power_increasing) simp_all
      then show False using lg(1) [OF nz(1)] lg(2) [OF nz(2)] assms(2) by linarith
    qed
    then show thesis using assms that by (cases "unat b < 128"; cases "unat a < 128"; cases "lg a = lg b") auto
  qed
  then show ?thesis
  proof cases
    case 1
    then show ?thesis using assms(2) by (simp add: cls_def div_le_mono diff_le_mono)
  next
    case 2
    then have "unat a div 4 \<le> 31" by linarith
    then show ?thesis using 2 by (simp add: cls_def)
  next
    case 3
    have "7 \<le> lg a" by (rule lg_large [OF 3(1)])
    then have "8 * (lg a - 7) + 8 \<le> 8 * (lg b - 7)" using 3(2) by simp
    moreover have "unat a * 8 div 2 ^ lg a - 8 < 8" using second_level [OF nz(1)] by linarith
    ultimately show ?thesis using 3(1) assms(2) by (simp add: cls_def)
  next
    case 4
    have "unat a * 8 div 2 ^ lg a \<le> unat b * 8 div 2 ^ lg a" using assms(2) by (intro div_le_mono) simp
    then show ?thesis using 4 assms(2) by (simp add: cls_def diff_le_mono)
  qed
qed

section \<open>The classes as they are meant\<close>

text \<open>
  Sizes below 128 have a class for each multiple of 4; above, each power of two is cut into 8 classes
  of the same width.
\<close>

fun ilog :: "nat \<Rightarrow> nat" where
  "ilog n = (if n < 2 then 0 else Suc (ilog (n div 2)))"

declare ilog.simps [simp del]

definition size_class :: "nat \<Rightarrow> nat" where
  "size_class n = (if n < 128 then n div 4 - 1
     else 31 + 8 * (ilog n - 7) + (n - 2 ^ ilog n) div 2 ^ (ilog n - 3))"

lemma ilog: "0 < n \<Longrightarrow> 2 ^ ilog n \<le> n \<and> n < 2 ^ Suc (ilog n)"
proof (induction n rule: ilog.induct)
  case (1 n)
  show ?case
  proof (cases "n < 2")
    case True
    then have "n = 1" using 1 by simp
    then show ?thesis by (simp add: ilog.simps)
  next
    case False
    then have "2 ^ ilog (n div 2) \<le> n div 2 \<and> n div 2 < 2 ^ Suc (ilog (n div 2))" using 1 by simp
    moreover have "ilog n = Suc (ilog (n div 2))" using False by (simp add: ilog.simps [of n])
    ultimately show ?thesis by auto
  qed
qed

lemma lg_ilog: "w \<noteq> 0 \<Longrightarrow> lg w = ilog (unat w)"
proof -
  assume w: "w \<noteq> 0"
  then have "0 < unat w" by (simp add: unat_gt_0)
  then show ?thesis using lg(1,2) [OF w] ilog [of "unat w"] by (blast intro: log_unique)
qed

lemma cls_size_class:
  assumes "w \<noteq> 0" shows "cls w = size_class (unat w)"
proof (cases "unat w < 128")
  case False
  let ?n = "unat w" and ?k = "lg w"
  have k: "7 \<le> ?k" using lg_large [of w] False by simp
  define j where "j = ?k - 3"
  then have j: "?k = j + 3" using k by simp
  obtain r where r: "?n = 2 ^ ?k + r" using lg(1) [OF assms] le_Suc_ex by blast
  have p: "(2::nat) ^ ?k = 8 * 2 ^ j" by (simp add: j power_add)
  have "?n * 8 div 2 ^ ?k = ?n div 2 ^ j" using div_mult_mult1 [of 8 ?n "2 ^ j"] by (simp add: p mult.commute)
  also have "\<dots> = 8 + r div 2 ^ j" by (simp add: r p)
  finally have "?n * 8 div 2 ^ ?k - 8 = (?n - 2 ^ ?k) div 2 ^ (?k - 3)" by (simp add: r j)
  then show ?thesis using False lg_ilog [OF assms] by (simp add: cls_def size_class_def)
qed (simp add: cls_def size_class_def)

text \<open>C14: For sizes below 2^29 the class computed with \<open>CLZ\<close> and shifts is the one that is meant, it is below
  207, and it grows with the size, so that every block of a higher class is larger.\<close>

theorem class_is_size_class:
  assumes "4 \<le> unat a" "unat a < 2 ^ 29" "4 \<le> unat b" "unat b < 2 ^ 29"
  shows "unat (OsMemFreeListIndexGet a) = size_class (unat a) \<and> OsMemFreeListIndexGet a < 207 \<and>
    (a \<le> b \<longrightarrow> OsMemFreeListIndexGet a \<le> OsMemFreeListIndexGet b) \<and>
    (OsMemFreeListIndexGet a < OsMemFreeListIndexGet b \<longrightarrow> a < b)"
proof -
  have nz: "a \<noteq> 0" using assms(1) by auto
  note ia = index_class [OF assms(1,2)] and ib = index_class [OF assms(3,4)]
  have m: "a \<le> b \<Longrightarrow> cls a \<le> cls b" "b \<le> a \<Longrightarrow> cls b \<le> cls a"
    using cls_mono assms by (simp_all add: word_le_nat_alt)
  then have "OsMemFreeListIndexGet a < OsMemFreeListIndexGet b \<longrightarrow> a < b"
    using ia ib by (auto simp: word_less_nat_alt not_le [symmetric] word_le_nat_alt)
  then show ?thesis
    using ia ib m(1) cls_size_class [OF nz] by (simp add: word_less_nat_alt word_le_nat_alt)
qed

lemma class_is_size_class_witness:
  "unat (OsMemFreeListIndexGet 1000) = size_class 1000 \<and> size_class 1000 = 54 \<and>
    OsMemFreeListIndexGet 1000 \<le> OsMemFreeListIndexGet 1024"
proof -
  have "unat (OsMemFreeListIndexGet 1000) = size_class (unat (1000 :: UINT32))"
      "OsMemFreeListIndexGet 1000 \<le> OsMemFreeListIndexGet 1024"
    using class_is_size_class [of 1000 1024] by simp_all
  moreover have "size_class 1000 = 54" by (simp add: size_class_def ilog.simps)
  ultimately show ?thesis by simp
qed

end
