(* ===== verification/Mem_Lists.thy ===== *)
theory Mem_Lists
  imports Mem_Class
begin

text \<open>
  The free lists of a pool: the addresses the manager writes do not overlap, the doubly linked
  lists represent lists of blocks, and the bitmap tells which of them are not empty.
\<close>

section \<open>Addresses\<close>

text \<open>Two nodes that are the same or do not overlap.\<close>

definition far :: "UINT32 \<Rightarrow> UINT32 \<Rightarrow> bool" where
  "far x y \<longleftrightarrow> x = y \<or> 16 \<le> x - y \<and> 16 \<le> y - x"

text \<open>A node behind the head of the pool.\<close>

definition beyond :: "UINT32 \<Rightarrow> UINT32 \<Rightarrow> bool" where
  "beyond pool x \<longleftrightarrow> 944 \<le> x - pool \<and> x - pool \<le> 0xFFFFFFF0"

lemmas node_fields = node_ptr_def sizeAndFlag_def free_prev_def free_next_def

lemma far_refl [simp]: "far x x"
  by (simp add: far_def)

lemma far_sym: "far x y \<Longrightarrow> far y x"
  by (auto simp: far_def)

lemma far_shift:
  assumes "far x y" "a < 16" "b < 16" "x + a = y + b" shows "x = y"
proof (rule ccontr)
  assume "x \<noteq> y"
  then have d: "16 \<le> x - y" "16 \<le> y - x" using assms(1) by (auto simp: far_def)
  have "x - y = b - a" "y - x = a - b" using assms(4) by (simp_all add: algebra_simps)
  then have "16 \<le> b - a" "16 \<le> a - b" using d by simp_all
  moreover have "b - a < 16 \<or> a - b < 16"
    using assms(2,3) by (cases "a \<le> b") (auto simp: word_less_nat_alt word_le_nat_alt unat_sub)
  ultimately show False by auto
qed

lemma far_fields [simp]:
  assumes "far x y"
  shows "node_ptr x \<noteq> sizeAndFlag y" "node_ptr x \<noteq> free_prev y" "node_ptr x \<noteq> free_next y"
    "sizeAndFlag x \<noteq> node_ptr y" "sizeAndFlag x \<noteq> free_prev y" "sizeAndFlag x \<noteq> free_next y"
    "free_prev x \<noteq> node_ptr y" "free_prev x \<noteq> sizeAndFlag y" "free_prev x \<noteq> free_next y"
    "free_next x \<noteq> node_ptr y" "free_next x \<noteq> sizeAndFlag y" "free_next x \<noteq> free_prev y"
  using far_shift [OF assms, of 0 4] far_shift [OF assms, of 0 8] far_shift [OF assms, of 0 12]
    far_shift [OF assms, of 4 0] far_shift [OF assms, of 4 8] far_shift [OF assms, of 4 12]
    far_shift [OF assms, of 8 0] far_shift [OF assms, of 8 4] far_shift [OF assms, of 8 12]
    far_shift [OF assms, of 12 0] far_shift [OF assms, of 12 4] far_shift [OF assms, of 12 8]
  by (auto simp: node_fields)

lemma field_inj [simp]:
  "node_ptr x = node_ptr y \<longleftrightarrow> x = y" "sizeAndFlag x = sizeAndFlag y \<longleftrightarrow> x = y"
  "free_prev x = free_prev y \<longleftrightarrow> x = y" "free_next x = free_next y \<longleftrightarrow> x = y"
  by (simp_all add: node_fields)

text \<open>The fields of the head lie before those of the nodes.\<close>

lemma beyond_shift:
  assumes "beyond pool x" "a < 16" shows "944 \<le> x + a - pool"
proof -
  have e: "x + a - pool = x - pool + a" by simp
  have "unat (x - pool + a) = unat (x - pool) + unat a"
    using assms by (auto simp: beyond_def word_le_nat_alt word_less_nat_alt unat_word_ariths(1))
  then show ?thesis using assms unfolding e by (simp add: beyond_def word_le_nat_alt)
qed

lemma beyond_fields:
  assumes "beyond pool x" "a - pool < 944"
  shows "a \<noteq> node_ptr x" "a \<noteq> sizeAndFlag x" "a \<noteq> free_prev x" "a \<noteq> free_next x"
    "node_ptr x \<noteq> a" "sizeAndFlag x \<noteq> a" "free_prev x \<noteq> a" "free_next x \<noteq> a"
  using beyond_shift [OF assms(1), of 0] beyond_shift [OF assms(1), of 4]
    beyond_shift [OF assms(1), of 8] beyond_shift [OF assms(1), of 12] assms(2)
  by (auto simp: node_fields)

lemma word_times4: "i < 223 \<Longrightarrow> unat (4 * i) = 4 * unat i" for i :: UINT32
  by (simp add: word_less_nat_alt unat_word_ariths(2))

lemma head_offset:
  "freeList pool i - pool = 48 + 4 * i" "freeListBitmap pool i - pool = 20 + 4 * i"
  "info_pool pool - pool = 0" "info_totalSize pool - pool = 4" "info_attr pool - pool = 8"
  "info_waterLine pool - pool = 12" "info_curUsedSize pool - pool = 16" "nextPool pool - pool = 940"
  by (simp_all add: freeList_def freeListBitmap_def mem_counts info_pool_def info_totalSize_def info_attr_def
      info_waterLine_def info_curUsedSize_def nextPool_def)

lemma freeList_offset:
  assumes "i < 223" shows "48 \<le> freeList pool i - pool" "freeList pool i - pool < 940"
  using assms
  by (simp_all add: head_offset word_le_nat_alt word_less_nat_alt unat_word_ariths(1) word_times4)

lemma bitmap_offset:
  assumes "i < 224" shows "20 \<le> freeListBitmap pool (drop_bit 5 i) - pool" "freeListBitmap pool (drop_bit 5 i) - pool < 48"
    "unat (drop_bit 5 i) < 7"
proof -
  show d: "unat (drop_bit 5 i) < 7" using assms by (simp add: unat_drop word_less_nat_alt del: drop_bit_eq_div)
  then have "drop_bit 5 i < 223" by (simp add: word_less_nat_alt)
  then have "unat (20 + 4 * drop_bit 5 i) = 20 + 4 * unat (drop_bit 5 i)" using d
    by (simp add: unat_word_ariths(1) word_times4)
  then show "20 \<le> freeListBitmap pool (drop_bit 5 i) - pool" "freeListBitmap pool (drop_bit 5 i) - pool < 48"
    using d by (simp_all add: head_offset word_le_nat_alt word_less_nat_alt)
qed

lemma below_224 [simp]: "i < 223 \<Longrightarrow> i < 224" for i :: UINT32
  by (simp add: word_less_nat_alt)

lemma head_inside:
  shows "i < 223 \<Longrightarrow> freeList pool i - pool < 944" "i < 224 \<Longrightarrow> freeListBitmap pool (drop_bit 5 i) - pool < 944"
proof -
  have "freeList pool i - pool < 944" if "freeList pool i - pool < 940" using that
    by (rule less_trans) simp
  moreover have "freeListBitmap pool (drop_bit 5 i) - pool < 944" if "freeListBitmap pool (drop_bit 5 i) - pool < 48"
    using that by (rule less_trans) simp
  ultimately show "i < 223 \<Longrightarrow> freeList pool i - pool < 944" "i < 224 \<Longrightarrow> freeListBitmap pool (drop_bit 5 i) - pool < 944"
    using freeList_offset [of i pool] bitmap_offset(1,2) [of i pool] by auto
qed

lemma head_fields [simp]:
  assumes "beyond pool x"
  shows "j < 223 \<Longrightarrow> freeList pool j \<noteq> free_prev x" "j < 223 \<Longrightarrow> freeList pool j \<noteq> free_next x"
    "j < 223 \<Longrightarrow> free_prev x \<noteq> freeList pool j" "j < 223 \<Longrightarrow> free_next x \<noteq> freeList pool j"
    "j < 224 \<Longrightarrow> freeListBitmap pool (drop_bit 5 j) \<noteq> free_prev x"
    "j < 224 \<Longrightarrow> freeListBitmap pool (drop_bit 5 j) \<noteq> free_next x"
    "j < 224 \<Longrightarrow> free_prev x \<noteq> freeListBitmap pool (drop_bit 5 j)"
    "j < 224 \<Longrightarrow> free_next x \<noteq> freeListBitmap pool (drop_bit 5 j)"
  using beyond_fields [OF assms head_inside(1)] beyond_fields [OF assms head_inside(2)] by auto

lemma freeList_inj:
  assumes "i < 223" "j < 223" shows "freeList pool i = freeList pool j \<longleftrightarrow> i = j"
proof
  assume "freeList pool i = freeList pool j"
  then have "4 * i = 4 * j" by (simp add: freeList_def)
  then have "unat i = unat j" using word_times4 [OF assms(1)] word_times4 [OF assms(2)] by simp
  then show "i = j" by (simp only: word_unat_eq_iff)
qed simp

lemma freeList_not_bitmap:
  assumes "i < 223" "j < 224"
  shows "freeList pool i \<noteq> freeListBitmap pool (drop_bit 5 j)" "freeListBitmap pool (drop_bit 5 j) \<noteq> freeList pool i"
  using freeList_offset(1) [OF assms(1), of pool] bitmap_offset(2) [OF assms(2), of pool] by auto

lemma bitmap_inj:
  assumes "i < 224" "j < 224"
  shows "freeListBitmap pool (drop_bit 5 i) = freeListBitmap pool (drop_bit 5 j) \<longleftrightarrow> unat i div 32 = unat j div 32"
proof -
  have "4 * drop_bit 5 i = 4 * drop_bit 5 j \<longleftrightarrow> unat i div 32 = unat j div 32"
  proof
    assume "4 * drop_bit 5 i = 4 * drop_bit 5 j"
    moreover have "drop_bit 5 i < 223" "drop_bit 5 j < 223"
      using bitmap_offset(3) [OF assms(1)] bitmap_offset(3) [OF assms(2)] by (simp_all only: word_less_nat_alt) simp_all
    ultimately have "unat (drop_bit 5 i) = unat (drop_bit 5 j)" by (metis word_times4 mult_left_cancel zero_neq_numeral)
    then show "unat i div 32 = unat j div 32" by (simp only: unat_drop) simp
  next
    assume "unat i div 32 = unat j div 32"
    then have "unat (drop_bit 5 i) = unat (drop_bit 5 j)" by (simp only: unat_drop) simp
    then have "drop_bit 5 i = drop_bit 5 j" by (simp only: word_unat_eq_iff)
    then show "4 * drop_bit 5 i = 4 * drop_bit 5 j" by simp
  qed
  then show ?thesis by (simp add: freeListBitmap_def)
qed

lemma index_low: "unat (i AND 0x1f :: UINT32) = unat i mod 32"
proof -
  have "i AND 0x1f = take_bit 5 i" by (simp add: take_bit_eq_mask mask_eq_exp_minus_1)
  then have "unat (i AND 0x1f) = take_bit 5 (unat i)" by (simp only: unsigned_take_bit_eq)
  then show ?thesis by (simp add: take_bit_eq_mod)
qed

section \<open>Lists of blocks\<close>

primrec dll :: "memory \<Rightarrow> UINT32 \<Rightarrow> UINT32 list \<Rightarrow> UINT32 \<Rightarrow> bool" where
  "dll m p [] q \<longleftrightarrow> True"
| "dll m p (x # xs) q \<longleftrightarrow> m (free_prev x) = p \<and> m (free_next x) = hd (xs @ [q]) \<and> dll m x xs q"

lemma dll_append: "dll m p (xs @ ys) q \<longleftrightarrow> dll m p xs (hd (ys @ [q])) \<and> dll m (last (p # xs)) ys q"
  by (induction xs arbitrary: p) (auto simp: hd_append)

lemma dll_cong:
  assumes "\<And>x. x \<in> set xs \<Longrightarrow> m' (free_prev x) = m (free_prev x) \<and> m' (free_next x) = m (free_next x)"
  shows "dll m' p xs q \<longleftrightarrow> dll m p xs q"
  using assms by (induction xs arbitrary: p) auto

definition list_bit :: "UINT32 \<Rightarrow> memory \<Rightarrow> UINT32 \<Rightarrow> bool" where
  "list_bit pool m i \<longleftrightarrow> bit (m (freeListBitmap pool (drop_bit 5 i))) (unat i mod 32)"

definition members :: "(UINT32 \<Rightarrow> UINT32 list) \<Rightarrow> UINT32 set" where
  "members L = (\<Union>i\<in>{i. i < 223}. set (L i))"

definition free_lists :: "UINT32 \<Rightarrow> (UINT32 \<Rightarrow> UINT32 list) \<Rightarrow> memory \<Rightarrow> bool" where
  "free_lists pool L m \<longleftrightarrow>
    (\<forall>i<223. m (freeList pool i) = hd (L i @ [0]) \<and> dll m 0 (L i) 0 \<and> distinct (L i) \<and>
       (list_bit pool m i \<longleftrightarrow> L i \<noteq> [])) \<and>
    \<not> list_bit pool m 223 \<and>
    (\<forall>i<223. \<forall>j<223. i \<noteq> j \<longrightarrow> set (L i) \<inter> set (L j) = {}) \<and>
    (\<forall>x\<in>members L. x \<noteq> 0 \<and> beyond pool x \<and> (\<forall>y\<in>members L. far x y))"

lemma free_listsD:
  assumes "free_lists pool L m" "i < 223"
  shows "m (freeList pool i) = hd (L i @ [0])" "dll m 0 (L i) 0" "distinct (L i)"
    "list_bit pool m i \<longleftrightarrow> L i \<noteq> []"
  using assms by (simp_all add: free_lists_def)

lemma free_lists_top: "free_lists pool L m \<Longrightarrow> \<not> list_bit pool m 223"
  by (simp add: free_lists_def)

lemma free_listsI:
  assumes "\<And>j. j < 223 \<Longrightarrow> m (freeList pool j) = hd (L j @ [0])" "\<And>j. j < 223 \<Longrightarrow> dll m 0 (L j) 0"
    "\<And>j. j < 223 \<Longrightarrow> distinct (L j)" "\<And>j. j < 223 \<Longrightarrow> list_bit pool m j \<longleftrightarrow> L j \<noteq> []"
    "\<And>j k x. j < 223 \<Longrightarrow> k < 223 \<Longrightarrow> x \<in> set (L j) \<Longrightarrow> x \<in> set (L k) \<Longrightarrow> j = k"
    "\<And>x. x \<in> members L \<Longrightarrow> x \<noteq> 0 \<and> beyond pool x" "\<And>x y. x \<in> members L \<Longrightarrow> y \<in> members L \<Longrightarrow> far x y"
    "\<not> list_bit pool m 223"
  shows "free_lists pool L m"
  unfolding free_lists_def using assms by blast

lemma lists_member:
  assumes "free_lists pool L m" "x \<in> members L"
  shows "x \<noteq> 0" "beyond pool x" "y \<in> members L \<Longrightarrow> far x y"
  using assms by (auto simp: free_lists_def)

lemma in_members: "i < 223 \<Longrightarrow> x \<in> set (L i) \<Longrightarrow> x \<in> members L"
  by (auto simp: members_def)

lemma lists_disjoint: "free_lists pool L m \<Longrightarrow> i < 223 \<Longrightarrow> j < 223 \<Longrightarrow> x \<in> set (L i) \<Longrightarrow> x \<in> set (L j) \<Longrightarrow> i = j"
  unfolding free_lists_def by blast

text \<open>The addresses an operation on the lists may write.\<close>

definition lists_area :: "UINT32 \<Rightarrow> UINT32 set \<Rightarrow> UINT32 set" where
  "lists_area pool X = {a. 20 \<le> a - pool \<and> a - pool < 940} \<union> free_prev ` X \<union> free_next ` X"

lemma index_same:
  assumes "i < 224" "j < 224" "unat i div 32 = unat j div 32" "unat i mod 32 = unat j mod 32" shows "i = j"
  using assms(3,4) by (metis div_mult_mod_eq word_unat_eq_iff)

lemma list_bit_set:
  assumes "i < 224" "j < 224"
  shows "list_bit pool (OsMemSetFreeListBit pool i m) j \<longleftrightarrow> list_bit pool m j \<or> j = i"
proof -
  have "unat i mod 32 < 32" by simp
  then show ?thesis
    using bitmap_inj [OF assms(2,1)] index_same [OF assms(2,1)]
    by (auto simp: list_bit_def OsMemSetFreeListBit_def index_low bit_simps Let_def)
qed

lemma list_bit_clear:
  assumes "i < 224" "j < 224"
  shows "list_bit pool (OsMemClearFreeListBit pool i m) j \<longleftrightarrow> list_bit pool m j \<and> j \<noteq> i"
proof -
  have "unat j mod 32 < 32" by simp
  then show ?thesis
    using bitmap_inj [OF assms(2,1)] index_same [OF assms(2,1)]
    by (auto simp: list_bit_def OsMemClearFreeListBit_def index_low bit_simps Let_def)
qed

section \<open>Insertion and removal\<close>

lemma set_bit_other:
  "a \<noteq> freeListBitmap pool (drop_bit 5 i) \<Longrightarrow> OsMemSetFreeListBit pool i m a = m a"
  "a \<noteq> freeListBitmap pool (drop_bit 5 i) \<Longrightarrow> OsMemClearFreeListBit pool i m a = m a"
  by (simp_all add: OsMemSetFreeListBit_def OsMemClearFreeListBit_def Let_def)

lemma list_bit_cong:
  "m' (freeListBitmap pool (drop_bit 5 i)) = m (freeListBitmap pool (drop_bit 5 i)) \<Longrightarrow>
    list_bit pool m' i = list_bit pool m i"
  by (simp add: list_bit_def)

text \<open>What the list operations write, field by field.\<close>

lemma ListAdd_fields:
  assumes i: "i < 223" and n: "beyond pool n" "n \<noteq> 0" and f: "f = m (freeList pool i)"
    and fb: "f \<noteq> 0 \<longrightarrow> beyond pool f \<and> far f n"
  defines "m' \<equiv> OsMemListAdd pool i n m"
  shows "j < 223 \<Longrightarrow> m' (freeList pool j) = (if j = i then n else m (freeList pool j))"
    and "j < 224 \<Longrightarrow> list_bit pool m' j \<longleftrightarrow> list_bit pool m j \<or> j = i"
    and "beyond pool x \<Longrightarrow> far x n \<Longrightarrow> f \<noteq> 0 \<Longrightarrow> far x f \<Longrightarrow>
      m' (free_prev x) = (if x = n then 0 else if x = f then n else m (free_prev x))"
    and "beyond pool x \<Longrightarrow> far x n \<Longrightarrow> f = 0 \<Longrightarrow> m' (free_prev x) = (if x = n then 0 else m (free_prev x))"
    and "beyond pool x \<Longrightarrow> far x n \<Longrightarrow> (f \<noteq> 0 \<Longrightarrow> far x f) \<Longrightarrow> m' (free_next x) = (if x = n then f else m (free_next x))"
    and "a \<notin> lists_area pool (if f = 0 then {n} else {n, f}) \<Longrightarrow> m' a = m a"
proof -
  define m1 where "m1 = (if f \<noteq> 0 then m(free_prev f := n) else m)(free_prev n := 0, free_next n := f, freeList pool i := n)"
  have m': "m' = OsMemSetFreeListBit pool i m1"
    by (simp add: m'_def OsMemListAdd_def m1_def Let_def f)
  show "m' (freeList pool j) = (if j = i then n else m (freeList pool j))" if "j < 223"
    using that i n fb freeList_not_bitmap [OF that below_224 [OF i]]
    by (cases "f = 0") (simp_all add: m' set_bit_other m1_def freeList_inj)
  show "list_bit pool m' j \<longleftrightarrow> list_bit pool m j \<or> j = i" if "j < 224"
  proof -
    have "list_bit pool m1 j = list_bit pool m j"
      using that i n fb freeList_not_bitmap [OF i that] by (intro list_bit_cong) (cases "f = 0"; simp add: m1_def)
    then show ?thesis using list_bit_set [OF below_224 [OF i] that] by (simp add: m')
  qed
  show "m' (free_prev x) = (if x = n then 0 else if x = f then n else m (free_prev x))"
    if "beyond pool x" "far x n" "f \<noteq> 0" "far x f"
    using that i n fb by (simp add: m' set_bit_other m1_def)
  show "m' (free_prev x) = (if x = n then 0 else m (free_prev x))" if "beyond pool x" "far x n" "f = 0"
    using that i n by (simp add: m' set_bit_other m1_def)
  show "m' (free_next x) = (if x = n then f else m (free_next x))"
    if "beyond pool x" "far x n" "f \<noteq> 0 \<Longrightarrow> far x f"
    using that i n by (cases "f = 0") (simp_all add: m' set_bit_other m1_def)
  show "m' a = m a" if "a \<notin> lists_area pool (if f = 0 then {n} else {n, f})"
  proof -
    have "a \<noteq> freeList pool i" "a \<noteq> freeListBitmap pool (drop_bit 5 i)"
      using that freeList_offset [OF i, of pool] bitmap_offset(1,2) [OF below_224 [OF i], of pool]
      by (auto simp: lists_area_def dest: order_less_imp_le intro: order_less_trans order_trans)
    then show ?thesis using that by (cases "f = 0") (auto simp: m' set_bit_other m1_def lists_area_def)
  qed
qed

lemma members_add: "i < 223 \<Longrightarrow> members (L(i := n # L i)) = insert n (members L)"
  by (auto simp: members_def split: if_splits)

lemma free_lists_add:
  assumes l: "free_lists pool L m" and i: "i < 223" and new: "n \<notin> members L" "beyond pool n" "n \<noteq> 0"
    and apart: "\<And>x. x \<in> members L \<Longrightarrow> far x n"
  shows "free_lists pool (L(i := n # L i)) (OsMemListAdd pool i n m)"
    and "a \<notin> lists_area pool (insert n (members L)) \<Longrightarrow> OsMemListAdd pool i n m a = m a"
proof -
  define f where "f = m (freeList pool i)"
  let ?m = "OsMemListAdd pool i n m"
  have f: "f = hd (L i @ [0])" using free_listsD(1) [OF l i] by (simp add: f_def)
  have fm: "f \<in> members L" if "f \<noteq> 0"
    using that f i by (cases "L i") (auto intro: in_members)
  have fb: "f \<noteq> 0 \<longrightarrow> beyond pool f \<and> far f n" using lists_member [OF l] apart fm by auto
  note fields = ListAdd_fields [where m = m and f = f and pool = pool, OF i new(2,3) f_def fb]
  have other: "?m (free_prev x) = (if x = f then n else m (free_prev x)) \<and> ?m (free_next x) = m (free_next x)"
    if "x \<in> members L" for x
  proof -
    have x: "beyond pool x" "far x n" "x \<noteq> n" "x \<noteq> 0" "f \<noteq> 0 \<Longrightarrow> far x f"
      using lists_member [OF l that] apart that new fm by auto
    then show ?thesis using fields(3,4,5) [of x] by (cases "f = 0") auto
  qed
  have node: "?m (free_prev n) = 0" "?m (free_next n) = f"
    using fields(3,4,5) [of n] new fb far_sym by (cases "f = 0"; auto)+
  have "dll ?m 0 (n # L i) 0"
  proof (cases "L i")
    case Nil
    then show ?thesis using node f by simp
  next
    case (Cons x r)
    have x: "x = f" "x \<in> members L" using Cons f in_members [OF i] by auto
    have "dll ?m x r 0 \<longleftrightarrow> dll m x r 0"
    proof (rule dll_cong)
      fix y assume "y \<in> set r"
      then have "y \<in> members L" "y \<noteq> f" using Cons free_listsD(3) [OF l i] x in_members [OF i] by auto
      then show "?m (free_prev y) = m (free_prev y) \<and> ?m (free_next y) = m (free_next y)" using other by simp
    qed
    then show ?thesis using free_listsD(2) [OF l i] Cons node other [OF x(2)] x(1) by simp
  qed
  moreover have "dll ?m 0 (L j) 0" if "j < 223" "j \<noteq> i" for j
  proof -
    have "dll ?m 0 (L j) 0 \<longleftrightarrow> dll m 0 (L j) 0"
    proof (rule dll_cong)
      fix y assume y: "y \<in> set (L j)"
      have "y \<noteq> f"
      proof
        assume yf: "y = f"
        have "y \<noteq> 0" using lists_member(1) [OF l in_members [where L = L, OF that(1) y]] .
        then have "f \<in> set (L i)" using f yf by (cases "L i") auto
        then show False using lists_disjoint [OF l i that(1)] y yf that(2) by auto
      qed
      then show "?m (free_prev y) = m (free_prev y) \<and> ?m (free_next y) = m (free_next y)"
        using other in_members [where L = L, OF that(1) y] by simp
    qed
    then show ?thesis using free_listsD(2) [OF l that(1)] by simp
  qed
  ultimately have chains: "dll ?m 0 ((L(i := n # L i)) j) 0" if "j < 223" for j using that by simp
  have fresh: "n \<notin> set (L j)" if "j < 223" for j using new(1) in_members [OF that] by auto
  show "free_lists pool (L(i := n # L i)) ?m"
  proof (rule free_listsI)
    fix j :: UINT32 assume j: "j < 223"
    show "?m (freeList pool j) = hd ((L(i := n # L i)) j @ [0])" using fields(1) [OF j] free_listsD(1) [OF l j] by simp
    show "distinct ((L(i := n # L i)) j)" using fresh [OF i] free_listsD(3) [OF l j] free_listsD(3) [OF l i] by simp
    show "list_bit pool ?m j \<longleftrightarrow> (L(i := n # L i)) j \<noteq> []" using fields(2) [OF below_224 [OF j]] free_listsD(4) [OF l j] by simp
    fix k x assume "k < 223" "x \<in> set ((L(i := n # L i)) j)" "x \<in> set ((L(i := n # L i)) k)"
    then show "j = k" using fresh [OF j] fresh [of k] j i lists_disjoint [OF l] by (auto split: if_splits)
  next
    fix x y assume "x \<in> members (L(i := n # L i))" "y \<in> members (L(i := n # L i))"
    then show "far x y" using apart far_sym lists_member(3) [OF l] by (auto simp: members_add [OF i])
  next
    fix x assume "x \<in> members (L(i := n # L i))"
    then show "x \<noteq> 0 \<and> beyond pool x" using new lists_member(1,2) [OF l] by (auto simp: members_add [OF i])
  next
    show "\<not> list_bit pool ?m 223" using fields(2) [of 223] free_lists_top [OF l] i by auto
  qed (rule chains)
  have "lists_area pool (if f = 0 then {n} else {n, f}) \<subseteq> lists_area pool (insert n (members L))"
    using fm by (auto simp: lists_area_def)
  then show "a \<notin> lists_area pool (insert n (members L)) \<Longrightarrow> ?m a = m a" using fields(6) by auto
qed

lemma ListDelete_fields:
  assumes l: "free_lists pool L m" and i: "i < 223" and s: "L i = us @ n # vs"
  defines "m' \<equiv> OsMemListDelete pool i n m"
  shows "j < 223 \<Longrightarrow> m' (freeList pool j) = (if j = i then hd (us @ vs @ [0]) else m (freeList pool j))"
    and "j < 224 \<Longrightarrow> list_bit pool m' j \<longleftrightarrow> list_bit pool m j \<and> \<not> (j = i \<and> us @ vs = [])"
    and "x \<in> members L \<Longrightarrow> m' (free_prev x) = (if vs \<noteq> [] \<and> x = hd vs then last (0 # us) else m (free_prev x))"
    and "x \<in> members L \<Longrightarrow> m' (free_next x) = (if us \<noteq> [] \<and> x = last us then hd (vs @ [0]) else m (free_next x))"
    and "a \<notin> lists_area pool (set us \<union> set vs) \<Longrightarrow> m' a = m a"
proof -
  have mem: "x \<in> members L" if "x \<in> set us \<union> set vs \<union> {n}" for x using that s by (intro in_members [OF i]) auto
  have fn: "m (free_next n) = hd (vs @ [0])" "m (free_prev n) = last (0 # us)" "m (freeList pool i) = hd (us @ [n])"
    using free_listsD(1,2) [OF l i] s by (auto simp: dll_append hd_append)
  have nz: "x \<noteq> 0" "beyond pool x" "far x y" if "x \<in> members L" "y \<in> members L" for x y
    using lists_member [OF l that(1)] that by auto
  have n: "n \<in> members L" "n \<notin> set us" "n \<notin> set vs" "set us \<inter> set vs = {}"
    using mem free_listsD(3) [OF l i] s by auto
  have area: "a \<noteq> freeList pool i" "a \<noteq> freeListBitmap pool (drop_bit 5 i)" if "a \<notin> lists_area pool X" for a X
    using that freeList_offset [OF i, of pool] bitmap_offset(1,2) [OF below_224 [OF i], of pool]
    by (auto simp: lists_area_def dest: order_less_imp_le intro: order_less_trans order_trans)
  have ends: "last us \<in> members L" "last us \<noteq> n" if "us \<noteq> []" using that mem n by auto
  have heads: "hd vs \<in> members L" "hd vs \<noteq> n" "hd vs \<noteq> 0" if "vs \<noteq> []" using that mem n nz(1) [OF mem] by (cases vs; auto)+
  have m': "m' = (if us = [] then
      (if vs = [] then OsMemClearFreeListBit pool i (m(freeList pool i := 0))
       else m(freeList pool i := hd vs, free_prev (hd vs) := 0))
    else (if vs = [] then m(free_next (last us) := 0)
       else m(free_next (last us) := hd vs, free_prev (hd vs) := last us)))"
  proof (cases us)
    case Nil
    then show ?thesis using fn n(1) nz(2) i heads
      by (cases vs) (simp_all add: m'_def OsMemListDelete_def)
  next
    case (Cons u us')
    then have "n \<noteq> m (freeList pool i)" using fn n by auto
    then show ?thesis using fn n(1) nz heads ends Cons
      by (cases vs) (simp_all add: m'_def OsMemListDelete_def)
  qed
  show "j < 223 \<Longrightarrow> m' (freeList pool j) = (if j = i then hd (us @ vs @ [0]) else m (freeList pool j))"
    using i nz(2) ends heads fn freeList_not_bitmap [OF _ below_224 [OF i]]
    by (cases us; cases vs) (simp_all add: m' set_bit_other freeList_inj)
  show "list_bit pool m' j \<longleftrightarrow> list_bit pool m j \<and> \<not> (j = i \<and> us @ vs = [])" if j: "j < 224"
  proof (cases "us @ vs = []")
    case True
    then have "list_bit pool m' j \<longleftrightarrow> list_bit pool (m(freeList pool i := 0)) j \<and> j \<noteq> i"
      using list_bit_clear [OF below_224 [OF i] j] by (simp add: m')
    moreover have "list_bit pool (m(freeList pool i := 0)) j = list_bit pool m j"
      using freeList_not_bitmap [OF i j] by (intro list_bit_cong) simp
    ultimately show ?thesis using True by simp
  next
    case False
    then have "m' (freeListBitmap pool (drop_bit 5 j)) = m (freeListBitmap pool (drop_bit 5 j))"
      using nz(2) ends heads i j freeList_not_bitmap [OF i j] by (cases us; cases vs) (simp_all add: m')
    then show ?thesis using False list_bit_cong [of m' pool j m] by simp
  qed
  show "m' (free_prev x) = (if vs \<noteq> [] \<and> x = hd vs then last (0 # us) else m (free_prev x))"
      "m' (free_next x) = (if us \<noteq> [] \<and> x = last us then hd (vs @ [0]) else m (free_next x))" if "x \<in> members L"
    using that i nz ends heads by (cases us; cases vs; simp add: m' set_bit_other)+
  show "m' a = m a" if a: "a \<notin> lists_area pool (set us \<union> set vs)"
  proof -
    have "us \<noteq> [] \<Longrightarrow> a \<noteq> free_next (last us)" "vs \<noteq> [] \<Longrightarrow> a \<noteq> free_prev (hd vs)"
      using a by (auto simp: lists_area_def)
    then show ?thesis using area [OF a] by (cases us; cases vs) (simp_all add: m' set_bit_other)
  qed
qed

lemma members_delete:
  assumes "i < 223" "\<And>j. j < 223 \<Longrightarrow> j \<noteq> i \<Longrightarrow> n \<notin> set (L j)"
  shows "members (L(i := filter (\<lambda>x. x \<noteq> n) (L i))) = members L - {n}"
  using assms by (auto simp: members_def split: if_splits)

lemma free_lists_delete:
  assumes l: "free_lists pool L m" and i: "i < 223" and n: "n \<in> set (L i)"
  shows "free_lists pool (L(i := filter (\<lambda>x. x \<noteq> n) (L i))) (OsMemListDelete pool i n m)"
    and "members (L(i := filter (\<lambda>x. x \<noteq> n) (L i))) = members L - {n}"
    and "a \<notin> lists_area pool (members L - {n}) \<Longrightarrow> OsMemListDelete pool i n m a = m a"
proof -
  let ?m = "OsMemListDelete pool i n m"
  obtain us vs where s: "L i = us @ n # vs" using split_list [OF n] by auto
  have d: "distinct (us @ n # vs)" using free_listsD(3) [OF l i] s by simp
  have "filter (\<lambda>x. x \<noteq> n) us = us" "filter (\<lambda>x. x \<noteq> n) vs = vs"
    using d by (auto intro!: filter_True)
  then have r: "filter (\<lambda>x. x \<noteq> n) (L i) = us @ vs" using s by simp
  note fields = ListDelete_fields [OF l i s]
  show mem: "members (L(i := filter (\<lambda>x. x \<noteq> n) (L i))) = members L - {n}"
    using lists_disjoint [OF l] i n by (intro members_delete) auto
  have inL: "x \<in> members L" if "x \<in> set us \<union> set vs" for x using that s by (intro in_members [OF i]) auto
  have old: "dll m 0 us n" "dll m n vs 0" using free_listsD(2) [OF l i] s by (auto simp: dll_append)
  have front: "dll ?m 0 us (hd (vs @ [0]))"
  proof (cases us rule: rev_cases)
    case (snoc ws u)
    have "dll ?m 0 ws u \<longleftrightarrow> dll m 0 ws u"
    proof (rule dll_cong)
      fix x assume x: "x \<in> set ws"
      have "x \<noteq> u" "vs \<noteq> [] \<Longrightarrow> x \<noteq> hd vs" using x d snoc by (cases vs; auto)+
      then show "?m (free_prev x) = m (free_prev x) \<and> ?m (free_next x) = m (free_next x)"
        using fields(3,4) [OF inL [of x]] x snoc by auto
    qed
    moreover have "vs \<noteq> [] \<Longrightarrow> u \<noteq> hd vs" using d snoc by (cases vs) auto
    ultimately show ?thesis using old(1) snoc fields(3,4) [OF inL [of u]] by (auto simp: dll_append)
  qed simp
  have rear: "dll ?m (last (0 # us)) vs 0"
  proof (cases vs)
    case (Cons v ws)
    have "dll ?m v ws 0 \<longleftrightarrow> dll m v ws 0"
    proof (rule dll_cong)
      fix x assume x: "x \<in> set ws"
      have "x \<noteq> v" "us \<noteq> [] \<Longrightarrow> x \<noteq> last us" using x d Cons by (auto dest: last_in_set)
      then show "?m (free_prev x) = m (free_prev x) \<and> ?m (free_next x) = m (free_next x)"
        using fields(3,4) [OF inL [of x]] x Cons by auto
    qed
    moreover have "us \<noteq> [] \<Longrightarrow> v \<noteq> last us" using d Cons by auto
    ultimately show ?thesis using old(2) Cons fields(3,4) [OF inL [of v]] by auto
  qed simp
  have chain: "dll ?m 0 (us @ vs) 0" using front rear by (simp add: dll_append)
  have others: "dll ?m 0 (L j) 0" if "j < 223" "j \<noteq> i" for j
  proof -
    have "dll ?m 0 (L j) 0 \<longleftrightarrow> dll m 0 (L j) 0"
    proof (rule dll_cong)
      fix x assume x: "x \<in> set (L j)"
      have "x \<notin> set us \<union> set vs" using lists_disjoint [OF l i that(1)] x that(2) s by auto
      then have "us \<noteq> [] \<Longrightarrow> x \<noteq> last us" "vs \<noteq> [] \<Longrightarrow> x \<noteq> hd vs" by auto
      then show "?m (free_prev x) = m (free_prev x) \<and> ?m (free_next x) = m (free_next x)"
        using fields(3,4) [OF in_members [where L = L, OF that(1) x]] by auto
    qed
    then show ?thesis using free_listsD(2) [OF l that(1)] by simp
  qed
  show "free_lists pool (L(i := filter (\<lambda>x. x \<noteq> n) (L i))) ?m"
    unfolding r
  proof (rule free_listsI)
    fix j :: UINT32 assume j: "j < 223"
    show "?m (freeList pool j) = hd ((L(i := us @ vs)) j @ [0])" using fields(1) [OF j] free_listsD(1) [OF l j] by simp
    show "dll ?m 0 ((L(i := us @ vs)) j) 0" using chain others [OF j] by simp
    show "distinct ((L(i := us @ vs)) j)" using d free_listsD(3) [OF l j] by simp
    show "list_bit pool ?m j \<longleftrightarrow> (L(i := us @ vs)) j \<noteq> []"
      using fields(2) [OF below_224 [OF j]] free_listsD(4) [OF l j] s by auto
    fix k x assume k: "k < 223" "x \<in> set ((L(i := us @ vs)) j)" "x \<in> set ((L(i := us @ vs)) k)"
    have "x \<in> set (L j)" "x \<in> set (L k)" using k s by (auto split: if_splits)
    then show "j = k" by (rule lists_disjoint [OF l j k(1)])
  next
    fix x assume "x \<in> members (L(i := us @ vs))"
    then show "x \<noteq> 0 \<and> beyond pool x" using mem lists_member(1,2) [OF l] by (auto simp: r)
  next
    fix x y assume "x \<in> members (L(i := us @ vs))" "y \<in> members (L(i := us @ vs))"
    then show "far x y" using mem lists_member(3) [OF l] by (auto simp: r)
  next
    show "\<not> list_bit pool ?m 223" using fields(2) [of 223] free_lists_top [OF l] by simp
  qed
  have "lists_area pool (set us \<union> set vs) \<subseteq> lists_area pool (members L - {n})"
    using inL d by (auto simp: lists_area_def)
  then show "a \<notin> lists_area pool (members L - {n}) \<Longrightarrow> ?m a = m a" using fields(5) by auto
qed

lemma free_lists_frame:
  assumes l: "free_lists pool L m" and same: "\<And>a. a \<in> lists_area pool (members L) \<Longrightarrow> m' a = m a"
  shows "free_lists pool L m'"
proof (rule free_listsI)
  fix j :: UINT32 assume j: "j < 223"
  have area: "freeList pool j \<in> lists_area pool X" "freeListBitmap pool (drop_bit 5 j) \<in> lists_area pool X" for X
    using freeList_offset [OF j, of pool] bitmap_offset(1,2) [of j pool] j
    by (auto simp: lists_area_def dest: order_less_imp_le intro: order_less_trans order_trans)
  show "m' (freeList pool j) = hd (L j @ [0])" using free_listsD(1) [OF l j] same area by simp
  show "list_bit pool m' j \<longleftrightarrow> L j \<noteq> []" using free_listsD(4) [OF l j] same area by (simp add: list_bit_def)
  have "dll m' 0 (L j) 0 \<longleftrightarrow> dll m 0 (L j) 0"
    by (rule dll_cong) (use same in_members [OF j] in \<open>auto simp: lists_area_def\<close>)
  then show "dll m' 0 (L j) 0" using free_listsD(2) [OF l j] by simp
  show "distinct (L j)" by (rule free_listsD(3) [OF l j])
next
  have "freeListBitmap pool (drop_bit 5 223) \<in> lists_area pool (members L)"
    using bitmap_offset(1,2) [of 223 pool]
    by (auto simp: lists_area_def dest: order_less_imp_le intro: order_less_trans order_trans)
  then show "\<not> list_bit pool m' 223" using free_lists_top [OF l] same list_bit_cong [of m' pool 223 m] by simp
qed (use lists_member [OF l] lists_disjoint [OF l] in auto)

end
