(* ===== verification/Mem_Search.thy ===== *)
theory Mem_Search
  imports Mem_Lists
begin

text \<open>
  The search for a block: the bitmap leads to the lowest class that is not empty, and the block
  found is large enough.
\<close>

section \<open>The lowest bit\<close>

lemma lowest_bit_alone:
  fixes c :: UINT32
  assumes "odd c" shows "c AND - c = 1"
proof -
  have "- c = NOT (c XOR 1)"
    using assms by (simp add: minus_eq_not_minus_1 xor_one_eq)
  then show ?thesis by (intro bit_eqI) (use assms in \<open>auto simp: bit_simps bit_0\<close>)
qed

lemma FFS_lowest:
  fixes w :: UINT32
  assumes "bit w k" "\<And>j. j < k \<Longrightarrow> \<not> bit w j"
  shows "OsMemFFS w = of_nat k"
proof -
  have k: "k < 32" using assms(1) by (auto dest: bit_imp_le_length)
  define c where "c = drop_bit k w"
  have le: "k \<le> n" if "bit w n" for n using assms(2) [of n] that by (meson not_less)
  have w: "w = push_bit k c"
    by (rule bit_eqI) (auto simp: c_def bit_simps le)
  have "odd c" using assms(1) by (simp add: c_def bit_iff_odd_drop_bit)
  then have "w AND - w = push_bit k 1"
    by (simp add: w push_bit_minus [symmetric] push_bit_and [symmetric] lowest_bit_alone del: push_bit_minus)
  then have e: "w AND (NOT w + 1) = push_bit k 1" by (simp add: minus_eq_not_plus_1)
  have u: "unat (push_bit k 1 :: UINT32) = 2 ^ k"
  proof -
    have "unat (of_nat (2 ^ k) :: UINT32) = 2 ^ k"
      using k by (simp only: unsigned_of_nat) (simp add: take_bit_nat_eq_self)
    moreover have "(push_bit k 1 :: UINT32) = of_nat (2 ^ k)" by (simp add: push_bit_eq_mult)
    ultimately show ?thesis by (simp only:)
  qed
  have nz: "(push_bit k 1 :: UINT32) \<noteq> 0" using k by (auto simp: push_bit_eq_mult)
  have "lg (push_bit k 1) = k" using lg(1,2) [OF nz] by (intro log_unique [of _ "2 ^ k"]) (simp_all only: u, simp_all)
  then show ?thesis using FLS_lg [OF nz] by (simp only: OsMemFFS_def OsMemFLS_def e Let_def)
qed

lemma lowest_exists:
  fixes w :: UINT32
  assumes "w \<noteq> 0"
  obtains k where "bit w k" "\<And>j. j < k \<Longrightarrow> \<not> bit w j" "k < 32"
proof -
  obtain j where j: "bit w j" using assms by (auto simp: bit_eq_iff)
  have "bit w (LEAST k. bit w k)" using j by (rule LeastI)
  moreover have "\<not> bit w i" if "i < (LEAST k. bit w k)" for i using that by (rule not_less_Least)
  moreover have "(LEAST k. bit w k) < 32" using calculation(1) bit_imp_le_length [of w] by simp
  ultimately show thesis by (rule that)
qed

section \<open>The search through the bitmap\<close>

text \<open>The result of a search from a class on: the lowest class from it on that is not empty.\<close>

definition lowest_class :: "(UINT32 \<Rightarrow> UINT32 list) \<Rightarrow> UINT32 \<Rightarrow> UINT32 \<Rightarrow> bool" where
  "lowest_class L i r \<longleftrightarrow> r < 223 \<and> i \<le> r \<and> L r \<noteq> [] \<and> (\<forall>j<r. i \<le> j \<longrightarrow> L j = [])"

lemma word_of_bitmap:
  assumes "free_lists pool L m" "unat i < 224" "k < 32"
  shows "bit (m (freeListBitmap pool (drop_bit 5 i))) k \<longleftrightarrow>
    32 * (unat i div 32) + k < 223 \<and> L (of_nat (32 * (unat i div 32) + k)) \<noteq> []"
proof -
  let ?n = "32 * (unat i div 32) + k"
  define j where "j = (of_nat ?n :: UINT32)"
  have "unat i div 32 < 7" using assms(2) by (simp add: div_less_iff_less_mult)
  then have n: "?n < 224" using assms(3) by linarith
  have u: "unat j = ?n" using n unfolding j_def by (simp only: unsigned_of_nat) (simp add: take_bit_nat_eq_self)
  have dm: "unat j div 32 = unat i div 32" "unat j mod 32 = k" using u assms(3) by simp_all
  then have "unat (drop_bit 5 j) = unat (drop_bit 5 i)" by (simp only: unat_drop) simp
  then have "drop_bit 5 j = drop_bit 5 i" by (simp only: word_unat_eq_iff)
  then have b: "bit (m (freeListBitmap pool (drop_bit 5 i))) k = list_bit pool m j" using dm by (simp add: list_bit_def)
  show ?thesis
  proof (cases "?n < 223")
    case True
    then have "j < 223" using u by (simp add: word_less_nat_alt)
    then show ?thesis using free_listsD(4) [OF assms(1)] b True by (simp add: j_def)
  next
    case False
    then have "j = 223" using n u by (simp add: word_unat_eq_iff)
    then show ?thesis using free_lists_top [OF assms(1)] b False by simp
  qed
qed

lemma index_high: "unat (i AND NOT 0x1f :: UINT32) = 32 * (unat i div 32)"
proof -
  have "(0x1f :: UINT32) = mask 5" by (simp add: mask_eq_exp_minus_1)
  then have "i AND NOT 0x1f = push_bit 5 (drop_bit 5 i)"
    by (simp only: \<open>0x1f = mask 5\<close>) (rule bit_eqI, auto simp: bit_push_bit_iff bit_drop_bit_eq bit_and_iff bit_not_iff bit_mask_iff)
  moreover have "unat (drop_bit 5 i) * 32 < 2 ^ 32"
    using unsigned_less [where w = i and 'a = nat] by (simp only: unat_drop) (simp add: div_less_iff_less_mult)
  ultimately show ?thesis by (simp add: push_bit_eq_mult unat_word_ariths(2) unat_drop del: drop_bit_eq_div)
qed

lemma of_nat_word: "n < 2 ^ 32 \<Longrightarrow> unat (of_nat n :: UINT32) = n"
  by (simp only: unsigned_of_nat) (simp add: take_bit_nat_eq_self)

lemma NotEmptyIndexGet:
  assumes l: "free_lists pool L m" and i: "unat i < 224"
  defines "r \<equiv> OsMemNotEmptyIndexGet pool i m"
  shows "lowest_class L i r \<or> r = 223 \<and> (\<forall>j<223. i \<le> j \<and> unat j div 32 = unat i div 32 \<longrightarrow> L j = [])"
proof -
  define w where "w = m (freeListBitmap pool (drop_bit 5 i))"
  define v where "v = w AND NOT (push_bit (unat i mod 32) 1 - 1)"
  have v: "bit v k \<longleftrightarrow> bit w k \<and> unat i mod 32 \<le> k" if "k < 32" for k
  proof -
    have "push_bit (unat i mod 32) 1 - 1 = (mask (unat i mod 32) :: UINT32)" by (simp add: mask_eq_exp_minus_1 push_bit_eq_mult)
    then show ?thesis using that by (auto simp: v_def bit_simps)
  qed
  have r: "r = (if v \<noteq> 0 then ucast (OsMemFFS v) + (i AND NOT 0x1f) else 223)"
    by (simp add: r_def OsMemNotEmptyIndexGet_def Let_def index_low w_def v_def OS_MEM_BITMAP_MASK_def mem_counts)
  let ?at = "\<lambda>k. 32 * (unat i div 32) + k"
  note bits = word_of_bitmap [OF l i, folded w_def]
  show ?thesis
  proof (cases "v = 0")
    case True
    have "L j = []" if j: "j < 223" "i \<le> j" "unat j div 32 = unat i div 32" for j
    proof (rule ccontr)
      assume "L j \<noteq> []"
      moreover have s: "?at (unat j mod 32) = unat j" using j(3) by (metis mult_div_mod_eq)
      moreover have "unat j < 223" using j(1) by (simp add: word_less_nat_alt)
      ultimately have "bit w (unat j mod 32)" using bits [of "unat j mod 32"] by (simp only: s) simp
      moreover have "unat i mod 32 \<le> unat j mod 32"
        using j(2,3) by (metis word_le_nat_alt mult_div_mod_eq add_le_cancel_left)
      ultimately have "bit v (unat j mod 32)" using v by simp
      then show False using True by simp
    qed
    then show ?thesis using r True by auto
  next
    case False
    obtain k where k: "bit v k" "\<And>j. j < k \<Longrightarrow> \<not> bit v j" "k < 32" using lowest_exists [OF False] by metis
    have n: "?at k < 223" "L (of_nat (?at k)) \<noteq> []" "unat i mod 32 \<le> k" using v bits k by auto
    have "r = of_nat (?at k)"
    proof -
      have "i AND NOT 0x1f = of_nat (32 * (unat i div 32))" by (rule word_of_natI) (rule index_high)
      then show ?thesis using r False k FFS_lowest [OF k(1,2)]
        by (simp add: unsigned_of_nat take_bit_nat_eq_self)
    qed
    then have u: "unat r = ?at k" "L r \<noteq> []" using n of_nat_word [of "?at k"] by auto
    have "unat i \<le> ?at k" using n(3) mult_div_mod_eq [of 32 "unat i"] by linarith
    moreover have "L j = []" if j: "j < r" "i \<le> j" for j
    proof (rule ccontr)
      assume a: "L j \<noteq> []"
      have b: "unat j < ?at k" "unat i \<le> unat j" using j u by (simp_all add: word_less_nat_alt word_le_nat_alt)
      have i32: "unat i = 32 * (unat i div 32) + unat i mod 32" by simp
      have d: "unat j div 32 = unat i div 32"
      proof (rule div_nat_eqI)
        show "32 * (unat i div 32) \<le> unat j" "unat j < 32 * Suc (unat i div 32)" using b k(3) i32 mult_Suc_right [of 32 "unat i div 32"] by linarith+
      qed
      have j32: "unat j = ?at (unat j mod 32)" using d by (metis mult_div_mod_eq)
      have q: "unat j mod 32 < k" "unat i mod 32 \<le> unat j mod 32" "unat j < 223"
        using b n(1) i32 j32 by linarith+
      have "bit w (unat j mod 32)" using bits [of "unat j mod 32"] a q(3) by (simp only: j32 [symmetric]) simp
      then have "bit v (unat j mod 32)" using v q(2) by simp
      then show False using k(2) [OF q(1)] by simp
    qed
    ultimately show ?thesis using u n(1) by (auto simp: lowest_class_def word_less_nat_alt word_le_nat_alt)
  qed
qed

lemma next_word_search:
  assumes l: "free_lists pool L m"
  shows "32 dvd unat i \<Longrightarrow> unat i \<le> 224 \<Longrightarrow> case next_word pool i m of
      None \<Rightarrow> \<forall>j<223. i \<le> j \<longrightarrow> L j = [] | Some r \<Rightarrow> lowest_class L i r"
proof (induction "256 - unat i" arbitrary: i rule: less_induct)
  case less
  show ?case
  proof (cases "i < 223")
    case False
    then show ?thesis
      by (simp add: next_word.simps mem_counts word_less_nat_alt word_le_nat_alt)
  next
    case True
    obtain q where q: "unat i = 32 * q" using less.prems(1) by blast
    have i: "unat i < 223" "unat i \<le> 192" using True q by (simp_all add: word_less_nat_alt)
    have al: "i AND NOT 0x1f = i" "i AND 0x1f = 0"
      using index_high [of i] index_low [of i] q by (simp_all only: word_unat_eq_iff) simp_all
    define w where "w = m (freeListBitmap pool (drop_bit 5 i))"
    have r: "OsMemNotEmptyIndexGet pool i m = (if w \<noteq> 0 then ucast (OsMemFFS w) + i else 223)"
      using al by (simp add: OsMemNotEmptyIndexGet_def Let_def w_def OS_MEM_BITMAP_MASK_def mem_counts)
    have n: "next_word pool i m = (if w \<noteq> 0 then Some (ucast (OsMemFFS w) + i) else next_word pool (i + 32) m)"
      using True by (simp add: next_word.simps [of pool i] mem_counts w_def Let_def)
    have s: "lowest_class L i (OsMemNotEmptyIndexGet pool i m) \<or> OsMemNotEmptyIndexGet pool i m = 223 \<and>
        (\<forall>j<223. i \<le> j \<and> unat j div 32 = unat i div 32 \<longrightarrow> L j = [])"
      using NotEmptyIndexGet [OF l, of i] i by simp
    show ?thesis
    proof (cases "w = 0")
      case False
      obtain k where k: "bit w k" "k < 32" using lowest_exists [OF False] by metis
      have b: "unat i + k < 223" "L (of_nat (unat i + k)) \<noteq> []"
        using word_of_bitmap [OF l, of i k, folded w_def] k i q by simp_all
      have u: "unat (of_nat (unat i + k) :: UINT32) = unat i + k" by (rule of_nat_word) (use b in simp)
      have "(unat i + k) div 32 = unat i div 32" using q k by simp
      then have "lowest_class L i (OsMemNotEmptyIndexGet pool i m)"
        using s b u by (auto simp: word_less_nat_alt word_le_nat_alt)
      then show ?thesis using n r False by simp
    next
      case w: True
      have e: "\<forall>j<223. i \<le> j \<and> unat j div 32 = unat i div 32 \<longrightarrow> L j = []"
        using s r w by (simp add: lowest_class_def)
      have u: "unat (i + 32) = unat i + 32" using i by (simp add: unat_word_ariths(1))
      have ih: "case next_word pool (i + 32) m of
          None \<Rightarrow> \<forall>j<223. i + 32 \<le> j \<longrightarrow> L j = [] | Some r \<Rightarrow> lowest_class L (i + 32) r"
        using less.hyps [of "i + 32"] i u q by simp
      have gap: "L j = []" if "j < 223" "i \<le> j" "\<not> i + 32 \<le> j" for j
      proof -
        have "unat j div 32 = unat i div 32"
        proof (rule div_nat_eqI)
          show "32 * (unat i div 32) \<le> unat j" "unat j < 32 * Suc (unat i div 32)"
            using that(2,3) u q by (simp_all add: word_le_nat_alt)
        qed
        then show ?thesis using e that by simp
      qed
      have "i \<le> i + 32" using u by (simp add: word_le_nat_alt)
      show ?thesis
      proof (cases "next_word pool (i + 32) m")
        case None
        then show ?thesis using n w ih gap by auto
      next
        case (Some r)
        then have "lowest_class L (i + 32) r" using ih by simp
        then have "lowest_class L i r"
          using gap \<open>i \<le> i + 32\<close> unfolding lowest_class_def by (meson less_trans order_trans)
        then show ?thesis using n w Some by simp
      qed
    qed
  qed
qed

lemma align_32:
  assumes "unat i < 224" shows "unat (LOS_Align (i + 1) 32) = 32 * (unat i div 32) + 32"
proof -
  have u: "unat (i + 32) = unat i + 32" "unat (i + 1) = unat i + 1" using assms by (simp_all add: unat_word_ariths(1))
  have s: "i + 1 + (32 - 1) = i + 32" by simp
  have "i + 1 < i + 32" using u by (simp add: word_less_nat_alt)
  then have "LOS_Align (i + 1) 32 = (i + 1 + (32 - 1)) AND NOT (32 - 1)" by (simp only: LOS_Align_def s if_True)
  then have "LOS_Align (i + 1) 32 = (i + 32) AND NOT 0x1f" by (simp only: s) simp
  moreover have "(unat i + 32) div 32 = unat i div 32 + 1" by simp
  ultimately show ?thesis using index_high [of "i + 32"] u by (simp only:) simp
qed

text \<open>Both parts of the search together.\<close>

lemma bitmap_search:
  assumes l: "free_lists pool L m" and i: "unat i < 224"
  defines "tmp \<equiv> OsMemNotEmptyIndexGet pool i m"
  shows "case (if tmp \<noteq> 223 then Some tmp else next_word pool (LOS_Align (i + 1) 32) m) of
      None \<Rightarrow> \<forall>j<223. i \<le> j \<longrightarrow> L j = [] | Some r \<Rightarrow> lowest_class L i r"
proof -
  note s = NotEmptyIndexGet [OF l i, folded tmp_def]
  show ?thesis
  proof (cases "tmp = 223")
    case False
    then show ?thesis using s by simp
  next
    case True
    then have e: "\<forall>j<223. i \<le> j \<and> unat j div 32 = unat i div 32 \<longrightarrow> L j = []"
      using s by (simp add: lowest_class_def)
    let ?a = "LOS_Align (i + 1) 32"
    have a: "unat ?a = 32 * (unat i div 32) + 32" "unat i < unat ?a"
      using align_32 [OF i] by simp_all
    have d: "unat i div 32 < 7" using i by (simp add: div_less_iff_less_mult)
    have n: "case next_word pool ?a m of None \<Rightarrow> \<forall>j<223. ?a \<le> j \<longrightarrow> L j = [] | Some r \<Rightarrow> lowest_class L ?a r"
      by (rule next_word_search [OF l]) (use a d in simp_all)
    have gap: "L j = []" if "j < 223" "i \<le> j" "\<not> ?a \<le> j" for j
    proof -
      have "unat j div 32 = unat i div 32"
      proof (rule div_nat_eqI)
        have "32 * (unat i div 32) \<le> unat i" by simp
        then show "32 * (unat i div 32) \<le> unat j" using that(2) by (simp add: word_le_nat_alt)
        show "unat j < 32 * Suc (unat i div 32)" using that(3) a(1) by (simp add: word_le_nat_alt)
      qed
      then show ?thesis using e that by simp
    qed
    have "i \<le> ?a" using a(2) by (simp add: word_le_nat_alt)
    show ?thesis
    proof (cases "next_word pool ?a m")
      case None
      then show ?thesis using True n gap by auto
    next
      case (Some r)
      then have "lowest_class L ?a r" using n by simp
      then have "lowest_class L i r"
        using gap \<open>i \<le> ?a\<close> unfolding lowest_class_def by (meson less_trans order_trans)
      then show ?thesis using True Some by simp
    qed
  qed
qed

section \<open>The search for a block\<close>

lemma find_cur_list:
  "dll m p xs 0 \<Longrightarrow> 0 \<notin> set xs \<Longrightarrow>
    find_cur sz (hd (xs @ [0])) m = Some (hd (filter (\<lambda>x. sz \<le> m (sizeAndFlag x)) xs @ [0]))"
proof (induction xs arbitrary: p)
  case Nil
  show ?case by (subst find_cur.simps) simp
next
  case (Cons x xs)
  then have "find_cur sz (hd (xs @ [0])) m = Some (hd (filter (\<lambda>x. sz \<le> m (sizeAndFlag x)) xs @ [0]))"
    using Cons.IH [of x] by simp
  then show ?case using Cons.prems by (subst find_cur.simps) simp
qed

definition classes_ok :: "(UINT32 \<Rightarrow> UINT32 list) \<Rightarrow> memory \<Rightarrow> bool" where
  "classes_ok L m \<longleftrightarrow> (\<forall>i<223. \<forall>x\<in>set (L i). 16 \<le> unat (m (sizeAndFlag x)) \<and> unat (m (sizeAndFlag x)) < 2 ^ 29 \<and>
    4 dvd unat (m (sizeAndFlag x)) \<and> unat i = cls (m (sizeAndFlag x)))"

lemma cls_less:
  assumes "4 \<le> unat b" "cls a < cls b" shows "unat a < unat b"
  using cls_mono [of b a] assms by (meson leD not_less)

lemma cls_small_exact:
  assumes "cls a = cls b" "unat a < 128" "4 dvd unat a" "4 dvd unat b" "4 \<le> unat a" "4 \<le> unat b"
  shows "unat a = unat b"
proof -
  have "unat a div 4 - 1 < 31" using assms(2) by linarith
  then have "unat b < 128" using assms(1,2) by (auto simp: cls_def split: if_splits)
  then have "unat a div 4 - 1 = unat b div 4 - 1" using assms(1,2) by (simp add: cls_def)
  moreover obtain k n where "unat a = 4 * k" "unat b = 4 * n" using assms(3,4) by (auto elim!: dvdE)
  ultimately show ?thesis using assms(5,6) by simp
qed

text \<open>The first class that is searched: in it and above it every block is large enough.\<close>

definition first_class :: "UINT32 \<Rightarrow> nat" where
  "first_class sz = (if unat sz < 128 then cls sz else cls sz + 1)"

lemma FindNextSuitableBlock:
  assumes l: "free_lists pool L m" and c: "classes_ok L m"
    and sz: "4 \<le> unat sz" "unat sz < 2 ^ 29" "4 dvd unat sz"
  obtains node i where "OsMemFindNextSuitableBlock pool sz m = Some (node, i)"
    "node = 0 \<Longrightarrow> (\<forall>x\<in>members L. m (sizeAndFlag x) < sz)"
    "node \<noteq> 0 \<Longrightarrow> i < 223 \<and> node \<in> set (L i) \<and> sz \<le> m (sizeAndFlag node)"
    "node \<noteq> 0 \<Longrightarrow> \<forall>j<223. first_class sz \<le> unat j \<and> unat j < unat i \<longrightarrow> L j = []"
proof -
  define cur where "cur = OsMemFreeListIndexGet sz"
  define start where "start = (of_nat (first_class sz) :: UINT32)"
  have cur: "unat cur = cls sz" "cls sz < 207" using index_class [OF sz(1,2)] by (simp_all add: cur_def)
  have st: "unat start = first_class sz" "unat start < 224"
    using cur(2) of_nat_word [of "first_class sz"] by (simp_all add: start_def first_class_def)
  define tmp where "tmp = OsMemNotEmptyIndexGet pool start m"
  define found where "found = (if tmp \<noteq> 223 then Some tmp else next_word pool (LOS_Align (start + 1) 32) m)"
  have f: "OsMemFindNextSuitableBlock pool sz m = (case found of
      Some r \<Rightarrow> Some (m (freeList pool r), r)
    | None \<Rightarrow> if unat sz < 128 then Some (0, 223)
              else map_option (\<lambda>node. (node, cur)) (find_cur sz (m (freeList pool cur)) m))"
  proof (cases "unat sz < 128")
    case True
    then have "OsMemFlGet sz < OS_MEM_SMALL_BUCKET_COUNT" using FlGet_class(2) [OF sz(1)] by simp
    moreover have "OsMemFlGet sz = start"
      using True FlGet_class(1) [OF sz(1)] by (auto simp: start_def first_class_def cls_def intro: word_of_natI)
    ultimately show ?thesis using True
      by (simp add: OsMemFindNextSuitableBlock_def Let_def mem_counts found_def tmp_def split: option.split)
  next
    case False
    then have b: "\<not> OsMemFlGet sz < OS_MEM_SMALL_BUCKET_COUNT" using FlGet_class(2) [OF sz(1)] by simp
    have e: "push_bit OS_MEM_SLI (OsMemFlGet sz - OS_MEM_SMALL_BUCKET_COUNT) + OsMemSlGet sz (OsMemFlGet sz) +
        OS_MEM_SMALL_BUCKET_COUNT = cur"
      using b by (simp add: cur_def OsMemFreeListIndexGet_def Let_def)
    have "cur + 1 = start" using cur False by (simp add: start_def first_class_def word_of_natI [OF cur(1)])
    moreover have "cur \<noteq> 223" using cur by auto
    ultimately show ?thesis using False b
      by (simp add: OsMemFindNextSuitableBlock_def Let_def mem_counts e found_def tmp_def
          OsMemFindCurSuitableBlock_def split: option.split)
  qed
  have s: "case found of None \<Rightarrow> \<forall>j<223. start \<le> j \<longrightarrow> L j = [] | Some r \<Rightarrow> lowest_class L start r"
    unfolding found_def tmp_def by (rule bitmap_search [OF l st(2)])
  have fits: "sz \<le> m (sizeAndFlag x)" if "i < 223" "x \<in> set (L i)" "start \<le> i" for x i
  proof -
    have x: "16 \<le> unat (m (sizeAndFlag x))" "4 dvd unat (m (sizeAndFlag x))" "unat i = cls (m (sizeAndFlag x))"
      using c that by (auto simp: classes_ok_def)
    have "first_class sz \<le> cls (m (sizeAndFlag x))" using that(3) st x(3) by (simp add: word_le_nat_alt)
    then consider "cls sz < cls (m (sizeAndFlag x))" | "unat sz < 128" "cls sz = cls (m (sizeAndFlag x))"
      by (fastforce simp: first_class_def split: if_splits)
    then show ?thesis
      using cls_less [of "m (sizeAndFlag x)" sz] cls_small_exact [of sz "m (sizeAndFlag x)"] x sz
      by cases (auto simp: word_le_nat_alt)
  qed
  have small: "m (sizeAndFlag x) < sz" if "i < 223" "x \<in> set (L i)" "unat i < cls sz" for x i
    using c that cls_less [OF sz(1), of "m (sizeAndFlag x)"] by (auto simp: classes_ok_def word_less_nat_alt)
  show thesis
  proof (cases found)
    case (Some r)
    have r: "lowest_class L start r" using s Some by simp
    then have h: "m (freeList pool r) = hd (L r)" "hd (L r) \<in> set (L r)" "r < 223"
      using free_listsD(1) [OF l, of r] by (auto simp: lowest_class_def)
    show thesis
    proof (rule that)
      show "OsMemFindNextSuitableBlock pool sz m = Some (m (freeList pool r), r)" using f Some by simp
    qed (use h r lists_member(1) [OF l in_members [where L = L, OF h(3,2)]] fits [OF h(3,2)] st in
        \<open>auto simp: lowest_class_def word_less_nat_alt word_le_nat_alt\<close>)
  next
    case None
    then have e: "L j = []" if "j < 223" "start \<le> j" for j using s that by simp
    show thesis
    proof (cases "unat sz < 128")
      case True
      show thesis
      proof (rule that)
        show "OsMemFindNextSuitableBlock pool sz m = Some (0, 223)" using f None True by simp
        show "\<forall>x\<in>members L. m (sizeAndFlag x) < sz"
        proof
          fix x assume "x \<in> members L"
          then obtain j where j: "j < 223" "x \<in> set (L j)" by (auto simp: members_def)
          then have "\<not> start \<le> j" using e by auto
          then show "m (sizeAndFlag x) < sz"
            using small [OF j] st True by (simp add: first_class_def word_le_nat_alt)
        qed
      qed simp_all
    next
      case False
      have cu: "cur < 223" using cur by (simp add: word_less_nat_alt)
      let ?n = "hd (filter (\<lambda>x. sz \<le> m (sizeAndFlag x)) (L cur) @ [0])"
      have nz: "0 \<notin> set (L cur)" using lists_member(1) [OF l] in_members [OF cu] by blast
      have fc: "find_cur sz (m (freeList pool cur)) m = Some ?n"
        using find_cur_list [OF free_listsD(2) [OF l cu] nz] free_listsD(1) [OF l cu] by simp
      show thesis
      proof (rule that)
        show "OsMemFindNextSuitableBlock pool sz m = Some (?n, cur)" using f None False fc by simp
        show "\<forall>x\<in>members L. m (sizeAndFlag x) < sz" if z: "?n = 0"
        proof
          have "filter (\<lambda>x. sz \<le> m (sizeAndFlag x)) (L cur) = []"
          proof (cases "filter (\<lambda>x. sz \<le> m (sizeAndFlag x)) (L cur)")
            case (Cons y ys)
            then have "y \<in> set (filter (\<lambda>x. sz \<le> m (sizeAndFlag x)) (L cur))" "y = 0" using z by simp_all
            then have "0 \<in> set (L cur)" by simp
            then show ?thesis using nz by simp
          qed
          then have in_cur: "m (sizeAndFlag x) < sz" if "x \<in> set (L cur)" for x
            using that by (auto simp: filter_empty_conv not_le)
          fix x assume "x \<in> members L"
          then obtain j where j: "j < 223" "x \<in> set (L j)" by (auto simp: members_def)
          then have "\<not> start \<le> j" using e by auto
          then have "unat j \<le> cls sz" using st False by (simp add: first_class_def word_le_nat_alt)
          then consider "unat j < cls sz" | "j = cur" using cur(1) by (metis le_neq_implies_less word_unat_eq_iff)
          then show "m (sizeAndFlag x) < sz" using small [OF j] in_cur j by cases auto
        qed
        show "cur < 223 \<and> ?n \<in> set (L cur) \<and> sz \<le> m (sizeAndFlag ?n)" if "?n \<noteq> 0"
        proof (cases "filter (\<lambda>x. sz \<le> m (sizeAndFlag x)) (L cur)")
          case (Cons y ys)
          then have "y \<in> set (filter (\<lambda>x. sz \<le> m (sizeAndFlag x)) (L cur))" by simp
          then have "y \<in> set (L cur)" "sz \<le> m (sizeAndFlag y)" by simp_all
          then show ?thesis using Cons cu by simp
        qed (use that in simp)
        show "\<forall>j<223. first_class sz \<le> unat j \<and> unat j < unat cur \<longrightarrow> L j = []"
          using cur False by (auto simp: first_class_def)
      qed
    qed
  qed
qed

end
