(* ===== verification/Mem_Layout.thy ===== *)
theory Mem_Layout
  imports Mem_Search
begin

text \<open>
  The layout of a pool: the nodes cut the memory between the head and the end node into blocks that
  lie side by side, each with its size and the address of the block before it. The sizes and the
  links are read through functions of the address of a node, and the changes of the layout are
  changes of these functions.
\<close>

section \<open>Sizes and flags\<close>

abbreviation used :: "UINT32 \<Rightarrow> bool" where "used w \<equiv> OS_MEM_NODE_GET_USED_FLAG w"

definition bsize :: "UINT32 \<Rightarrow> nat" where "bsize w = unat (OS_MEM_NODE_GET_SIZE w)"

definition plain :: "UINT32 \<Rightarrow> bool" where "plain w \<longleftrightarrow> OS_MEM_NODE_GET_SIZE w = w"

lemmas node_flags = OS_MEM_NODE_GET_SIZE_def OS_MEM_NODE_ALIGNED_AND_USED_FLAG_def OS_MEM_NODE_USED_FLAG_def
  OS_MEM_NODE_ALIGNED_FLAG_def OS_MEM_NODE_LEAK_FLAG_def OS_MEM_NODE_LAST_FLAG_def OS_MEM_NODE_GET_USED_FLAG_def
  OS_MEM_NODE_GET_ALIGNED_FLAG_def

lemma size_mask: "OS_MEM_NODE_GET_SIZE w = take_bit 30 w"
proof -
  have "NOT (push_bit 31 1 OR push_bit 30 1) = (mask 30 :: UINT32)" by (simp add: mask_eq_exp_minus_1)
  then show ?thesis by (simp add: node_flags take_bit_eq_mask)
qed

lemma used_bit: "used w \<longleftrightarrow> bit w 31"
proof -
  have "push_bit 31 1 = (2 ^ 31 :: UINT32)" by (simp only: push_bit_eq_mult mult_1_left)
  then show ?thesis by (simp only: node_flags and_exp_eq_0_iff_not_bit not_not)
qed

lemma aligned_bit: "OS_MEM_NODE_GET_ALIGNED_FLAG w \<longleftrightarrow> bit w 30"
proof -
  have "push_bit 30 1 = (2 ^ 30 :: UINT32)" by (simp only: push_bit_eq_mult mult_1_left)
  then show ?thesis by (simp only: node_flags and_exp_eq_0_iff_not_bit not_not)
qed

lemma not_last [simp]: "\<not> OS_MEM_NODE_GET_LAST_FLAG w"
  by (simp add: OS_MEM_NODE_GET_LAST_FLAG_def OS_MEM_NODE_LAST_FLAG_def)

lemma plain_iff: "plain w \<longleftrightarrow> unat w < 2 ^ 30"
proof -
  have "take_bit 30 w = w \<longleftrightarrow> take_bit 30 (unat w) = unat w"
    by (simp only: word_unat_eq_iff unsigned_take_bit_eq)
  then show ?thesis by (simp add: plain_def size_mask take_bit_nat_eq_self_iff)
qed

lemma plain_unused: "plain w \<Longrightarrow> \<not> used w"
  using bit_le_unat [of w 31] by (auto simp: plain_iff used_bit)

lemma plain_size: "plain w \<Longrightarrow> bsize w = unat w"
  by (simp add: plain_def bsize_def)

lemma plain_of_size [simp]: "plain (OS_MEM_NODE_GET_SIZE w)"
  by (simp add: plain_def size_mask)

lemma bsize_bound: "bsize w < 2 ^ 30"
  using plain_of_size [of w] by (simp add: plain_iff bsize_def del: plain_of_size)

lemma size_with_used [simp]:
  "OS_MEM_NODE_GET_SIZE (w OR OS_MEM_NODE_USED_FLAG) = OS_MEM_NODE_GET_SIZE w"
  "OS_MEM_NODE_GET_SIZE (w OR OS_MEM_NODE_ALIGNED_FLAG) = OS_MEM_NODE_GET_SIZE w"
  by (auto simp: size_mask OS_MEM_NODE_USED_FLAG_def OS_MEM_NODE_ALIGNED_FLAG_def bit_eq_iff bit_simps)

lemma used_with_used [simp]:
  "used (w OR OS_MEM_NODE_USED_FLAG)" "used (w OR OS_MEM_NODE_ALIGNED_FLAG) \<longleftrightarrow> used w"
  by (auto simp: used_bit OS_MEM_NODE_USED_FLAG_def OS_MEM_NODE_ALIGNED_FLAG_def bit_simps)

section \<open>Blocks side by side\<close>

definition nx :: "(UINT32 \<Rightarrow> UINT32) \<Rightarrow> UINT32 \<Rightarrow> UINT32" where
  "nx S n = n + OS_MEM_NODE_GET_SIZE (S n)"

definition block_at :: "UINT32 \<Rightarrow> UINT32 \<Rightarrow> UINT32 set \<Rightarrow> (UINT32 \<Rightarrow> UINT32) \<Rightarrow> (UINT32 \<Rightarrow> UINT32) \<Rightarrow> UINT32 \<Rightarrow> bool" where
  "block_at fn en N S P n \<longleftrightarrow> unat fn \<le> unat n \<and> 4 dvd unat n \<and> 16 \<le> bsize (S n) \<and> 4 dvd bsize (S n) \<and>
    unat n + bsize (S n) \<le> unat en \<and> nx S n \<in> insert en N \<and> P (nx S n) = n \<and> (\<not> used (S n) \<longrightarrow> plain (S n)) \<and>
    (\<forall>x\<in>N. unat x \<le> unat n \<or> unat n + bsize (S n) \<le> unat x)"

definition lay :: "UINT32 \<Rightarrow> UINT32 \<Rightarrow> UINT32 set \<Rightarrow> (UINT32 \<Rightarrow> UINT32) \<Rightarrow> (UINT32 \<Rightarrow> UINT32) \<Rightarrow> bool" where
  "lay fn en N S P \<longleftrightarrow> fn \<in> N \<and> P fn = en \<and> S en = 0x80000000 \<and> unat en < unat fn + 2 ^ 29 \<and>
    (\<forall>n\<in>N. block_at fn en N S P n)"

lemma layD:
  assumes "lay fn en N S P" "n \<in> N"
  shows "unat fn \<le> unat n" "4 dvd unat n" "16 \<le> bsize (S n)" "4 dvd bsize (S n)"
    "unat n + bsize (S n) \<le> unat en" "nx S n \<in> insert en N" "P (nx S n) = n" "\<not> used (S n) \<Longrightarrow> plain (S n)"
    "x \<in> N \<Longrightarrow> unat x \<le> unat n \<or> unat n + bsize (S n) \<le> unat x"
  using assms by (auto simp: lay_def block_at_def)

lemma lay_ends:
  assumes "lay fn en N S P"
  shows "fn \<in> N" "P fn = en" "S en = 0x80000000" "unat en < unat fn + 2 ^ 29" "en \<notin> N"
  using assms layD(3,5) [OF assms, of en] by (auto simp: lay_def)

lemma nx_unat:
  assumes "lay fn en N S P" "n \<in> N" shows "unat (nx S n) = unat n + bsize (S n)"
proof -
  have "unat n + bsize (S n) < 2 ^ 32"
    using layD(5) [OF assms] unsigned_less [where w = en and 'a = nat] by simp
  then show ?thesis by (simp add: nx_def bsize_def unat_word_ariths(1))
qed

lemma block_size:
  assumes "lay fn en N S P" "n \<in> N" shows "bsize (S n) < 2 ^ 29"
  using layD(1,5) [OF assms] lay_ends(4) [OF assms(1)] by linarith

lemma farI: "unat x + 16 \<le> unat y \<Longrightarrow> unat y < unat x + 2 ^ 29 \<Longrightarrow> far x y"
proof -
  assume a: "unat x + 16 \<le> unat y" "unat y < unat x + 2 ^ 29"
  then have d: "unat (y - x) = unat y - unat x" by (simp add: unat_sub word_le_nat_alt)
  have "unat (x - y) = unat x + 4294967296 - unat y"
    using a unat_sub_if' [of x y] by simp
  moreover have "unat y < unat x + 536870912" using a(2) by simp
  ultimately have "16 \<le> unat (x - y)" by linarith
  moreover have "16 \<le> unat (y - x)" using a d by linarith
  ultimately show ?thesis by (simp add: far_def word_le_nat_alt)
qed

lemma lay_far:
  assumes l: "lay fn en N S P" and x: "x \<in> insert en N" "y \<in> insert en N" shows "far x y"
proof (cases "x = y")
  case False
  have *: "far x y" if x: "x \<in> N" "y \<in> insert en N" "unat x < unat y" for x y
  proof (rule farI)
    show "unat x + 16 \<le> unat y"
      using layD(3,5,9) [OF l x(1)] x by (cases "y = en") (auto, fastforce)
    show "unat y < unat x + 2 ^ 29"
      using layD(1) [OF l x(1)] lay_ends(4) [OF l] x(2) layD(5) [OF l, of y] by (cases "y = en") auto
  qed
  have en: "unat x < unat en" if "x \<in> N" for x using layD(3,5) [OF l that] by simp
  consider "x \<in> N" "unat x < unat y" | "y \<in> N" "unat y < unat x"
    using False x en by (metis insert_iff linorder_neqE_nat word_unat_eq_iff)
  then show ?thesis using * x far_sym by cases blast+
qed simp

lemma lay_cong:
  assumes "\<And>x. x \<in> insert en N \<Longrightarrow> S' x = S x \<and> P' x = P x"
  shows "lay fn en N S' P' \<longleftrightarrow> lay fn en N S P"
proof -
  have "lay fn en N S' P'" if l: "lay fn en N S P" and eq: "\<And>x. x \<in> insert en N \<Longrightarrow> S' x = S x \<and> P' x = P x" for S P S' P'
  proof -
    have "block_at fn en N S' P' n" if n: "n \<in> N" for n
    proof -
      have "nx S' n = nx S n" "S' n = S n" using eq n by (simp_all add: nx_def)
      moreover have "P' (nx S n) = P (nx S n)" using eq layD(6) [OF l n] by blast
      ultimately show ?thesis using layD [OF l n] by (simp add: block_at_def)
    qed
    then show ?thesis using eq lay_ends [OF l] by (simp add: lay_def)
  qed
  then show ?thesis using assms by metis
qed

text \<open>The block before a block.\<close>

lemma lay_pred:
  assumes l: "lay fn en N S P" and n: "n \<in> N" "n \<noteq> fn"
  shows "P n \<in> N" "nx S (P n) = n"
proof -
  let ?B = "{x \<in> N. unat x < unat n}"
  have "unat fn \<noteq> unat n" using n(2) by (simp add: word_unat_eq_iff)
  then have "fn \<in> ?B" using lay_ends(1) [OF l] layD(1) [OF l n(1)] by simp
  then have ne: "?B \<noteq> {}" by blast
  have "Max (unat ` ?B) \<in> unat ` ?B" using ne by (intro Max_in) auto
  then obtain x where x: "x \<in> ?B" "unat x = Max (unat ` ?B)" by auto
  have top: "unat y \<le> unat x" if "y \<in> ?B" for y unfolding x(2) by (rule Max_ge) (use that in auto)
  have "x \<in> N" using x by simp
  have b: "unat x + bsize (S x) \<le> unat n" using layD(9) [OF l \<open>x \<in> N\<close> n(1)] x(1) by auto
  have "nx S x \<noteq> en"
    using nx_unat [OF l \<open>x \<in> N\<close>] b layD(3,5) [OF l n(1)] by auto
  then have y: "nx S x \<in> N" using layD(6) [OF l \<open>x \<in> N\<close>] by simp
  have u: "unat (nx S x) = unat x + bsize (S x)" by (rule nx_unat [OF l \<open>x \<in> N\<close>])
  have "\<not> unat (nx S x) < unat n"
    using top [of "nx S x"] y u layD(3) [OF l \<open>x \<in> N\<close>] by auto
  then have "nx S x = n" using b u by (simp add: word_unat_eq_iff)
  then show "P n \<in> N" "nx S (P n) = n" using layD(7) [OF l \<open>x \<in> N\<close>] \<open>x \<in> N\<close> by auto
qed

lemma nx_inj:
  assumes "lay fn en N S P" "x \<in> N" "y \<in> N" "nx S x = nx S y" shows "x = y"
  using layD(7) [OF assms(1,2)] layD(7) [OF assms(1,3)] assms(4) by metis

lemma lay_flag:
  assumes l: "lay fn en N S P" and p: "p \<in> N" "OS_MEM_NODE_GET_SIZE w = OS_MEM_NODE_GET_SIZE (S p)" "used w \<or> plain w"
  shows "lay fn en N (S(p := w)) P"
proof -
  have s: "OS_MEM_NODE_GET_SIZE ((S(p := w)) n) = OS_MEM_NODE_GET_SIZE (S n)" for n using p(2) by simp
  have "block_at fn en N (S(p := w)) P n" if n: "n \<in> N" for n
  proof -
    have e: "nx (S(p := w)) n = nx S n" "bsize ((S(p := w)) n) = bsize (S n)" by (simp_all only: nx_def bsize_def s)
    have "\<not> used ((S(p := w)) n) \<longrightarrow> plain ((S(p := w)) n)" using layD(8) [OF l n] p(3) by auto
    then show ?thesis using layD(1-7,9) [OF l n] unfolding block_at_def e by blast
  qed
  moreover have "p \<noteq> en" using p lay_ends(5) [OF l] by auto
  ultimately show ?thesis using lay_ends [OF l] by (simp add: lay_def)
qed

lemma lay_split:
  assumes l: "lay fn en N S P" and p: "p \<in> N" "plain (S p)"
    and s: "16 \<le> unat s" "4 dvd unat s" "unat s + 16 \<le> unat (S p)"
  defines "q \<equiv> p + s"
  defines "S' \<equiv> S(q := S p - s, p := s)"
  shows "lay fn en (insert q N) S' (P(q := p, nx S p := q))"
    and "q \<notin> insert en N" "unat q = unat p + unat s" "nx S' p = q" "nx S' q = nx S p" "plain s" "plain (S p - s)"
proof -
  let ?P = "P(q := p, nx S p := q)"
  have sz: "bsize (S p) = unat (S p)" "unat (S p) < 2 ^ 29" using block_size [OF l p(1)] plain_size [OF p(2)] by simp_all
  have pe: "unat p + unat (S p) \<le> unat en" using layD(5) [OF l p(1)] sz by simp
  have uq: "unat q = unat p + unat s"
    using s pe unsigned_less [where w = en and 'a = nat] unfolding q_def by (simp add: unat_word_ariths(1))
  then show "unat q = unat p + unat s" .
  have d: "unat (S p - s) = unat (S p) - unat s" using s by (simp add: unat_sub word_le_nat_alt)
  show pl: "plain s" "plain (S p - s)" using s sz d by (simp_all add: plain_iff)
  have qn: "x \<noteq> q" if "x \<in> insert en N" for x
  proof
    assume "x = q"
    then show False using that layD(9) [OF l p(1), of x] s sz pe uq by auto
  qed
  then show "q \<notin> insert en N" by blast
  have qp: "q \<noteq> p" "q \<noteq> fn" "q \<noteq> en" using qn p lay_ends(1) [OF l] by auto
  have pen: "p \<noteq> en" using p lay_ends(5) [OF l] by auto
  have sp: "OS_MEM_NODE_GET_SIZE s = s" "OS_MEM_NODE_GET_SIZE (S p - s) = S p - s" "OS_MEM_NODE_GET_SIZE (S p) = S p"
    using pl p(2) by (simp_all add: plain_def)
  show np: "nx S' p = q" using sp by (simp add: nx_def S'_def q_def)
  show nq: "nx S' q = nx S p" using sp qp by (simp add: nx_def S'_def q_def)
  have other: "nx S' n = nx S n" "S' n = S n" if "n \<in> N" "n \<noteq> p" for n
    using that qn by (auto simp: nx_def S'_def)
  have nxp: "nx S p \<noteq> q" using layD(6) [OF l p(1)] qn by auto
  have nxfn: "nx S n \<noteq> fn" if "n \<in> N" for n
    using nx_unat [OF l that] layD(1,3) [OF l that] by auto
  have dv: "4 dvd unat (S p) - unat s" using layD(4) [OF l p(1)] sz s(2) by (simp add: dvd_diff_nat)
  have place: "unat x \<le> unat p \<or> unat p + unat (S p) \<le> unat x" if "x \<in> N" for x
    using layD(9) [OF l p(1) that] sz by simp
  have "unat x \<le> unat p \<or> unat p + unat s \<le> unat x" if "x \<in> insert q N" for x
    using that place [of x] uq s by auto
  then have b1: "block_at fn en (insert q N) S' ?P p"
    unfolding block_at_def np
    using layD(1,2) [OF l p(1)] s pl sz pe uq qp nxp by (simp add: S'_def plain_size)
  have "unat x \<le> unat q \<or> unat q + unat (S p - s) \<le> unat x" if "x \<in> insert q N" for x
    using that place [of x] uq s d by auto
  then have b2: "block_at fn en (insert q N) S' ?P q"
    unfolding block_at_def nq
    using layD(1,2,6) [OF l p(1)] s pl sz pe uq qp dv d by (auto simp: S'_def plain_size)
  have b3: "block_at fn en (insert q N) S' ?P n" if n: "n \<in> N" "n \<noteq> p" for n
  proof -
    have "nx S n \<noteq> nx S p" using nx_inj [OF l n(1) p(1)] n(2) by auto
    moreover have "nx S n \<noteq> q" using qn layD(6) [OF l n(1)] by auto
    moreover have "unat q \<le> unat n \<or> unat n + bsize (S n) \<le> unat q"
      using layD(9) [OF l p(1) n(1)] layD(9) [OF l n(1) p(1)] uq s sz n by (auto simp: word_unat_eq_iff)
    ultimately show ?thesis
      using layD [OF l n(1)] unfolding block_at_def other [OF n] by auto
  qed
  have "?P fn = en" using qp nxfn [OF p(1)] lay_ends(2) [OF l] by simp
  moreover have "S' en = 0x80000000" using pen qp lay_ends(3) [OF l] by (simp add: S'_def)
  ultimately show "lay fn en (insert q N) S' ?P"
    using b1 b2 b3 lay_ends(1,4) [OF l] unfolding lay_def by blast
qed

lemma lay_merge:
  assumes l: "lay fn en N S P" and p: "p \<in> N" "plain (S p)" and q: "nx S p \<in> N" "plain (S (nx S p))"
  defines "q \<equiv> nx S p"
  defines "S' \<equiv> S(p := S p + S q)"
  shows "lay fn en (N - {q}) S' (P(nx S q := p))"
    and "nx S' p = nx S q" "plain (S p + S q)" "unat (S p + S q) = unat (S p) + unat (S q)" "p \<noteq> q"
proof -
  let ?P = "P(nx S q := p)"
  note q = q [folded q_def]
  have sz: "bsize (S p) = unat (S p)" "bsize (S q) = unat (S q)" using plain_size p(2) q(2) by simp_all
  have uq: "unat q = unat p + unat (S p)" using nx_unat [OF l p(1)] sz by (simp add: q_def)
  have qe: "unat q + unat (S q) \<le> unat en" using layD(5) [OF l q(1)] sz by simp
  have small: "unat (S p) + unat (S q) < 2 ^ 29" using qe uq layD(1) [OF l p(1)] lay_ends(4) [OF l] by linarith
  then show add: "unat (S p + S q) = unat (S p) + unat (S q)" by (simp add: unat_word_ariths(1))
  show pl: "plain (S p + S q)" using small add by (simp add: plain_iff)
  have ne: "p \<noteq> q" using uq layD(3) [OF l p(1)] sz by auto
  then show "p \<noteq> q" .
  have pen: "p \<noteq> en" using p lay_ends(5) [OF l] by auto
  have sp: "OS_MEM_NODE_GET_SIZE (S p + S q) = S p + S q" "OS_MEM_NODE_GET_SIZE (S p) = S p" "OS_MEM_NODE_GET_SIZE (S q) = S q"
    using pl p(2) q(2) by (simp_all add: plain_def)
  show np: "nx S' p = nx S q" using sp by (simp add: nx_def S'_def q_def)
  have qfn: "q \<noteq> fn" using uq layD(1,3) [OF l p(1)] sz by auto
  have nxfn: "nx S n \<noteq> fn" if "n \<in> N" for n
    using nx_unat [OF l that] layD(1,3) [OF l that] by auto
  have nxq: "nx S q \<noteq> q" using nx_unat [OF l q(1)] layD(3) [OF l q(1)] by auto
  have b1: "block_at fn en (N - {q}) S' ?P p"
  proof -
    have "unat x \<le> unat p \<or> unat p + bsize (S p + S q) \<le> unat x" if "x \<in> N - {q}" for x
      using that layD(9) [OF l p(1), of x] layD(9) [OF l q(1), of x] uq sz plain_size [OF pl] add
      by (auto simp: word_unat_eq_iff)
    then show ?thesis
      unfolding block_at_def np
      using layD(1-4,6) [OF l p(1)] layD(3,4,6) [OF l q(1)] pl plain_size [OF pl] add sz uq qe nxq
      by (auto simp: S'_def)
  qed
  have b2: "block_at fn en (N - {q}) S' ?P n" if n: "n \<in> N" "n \<noteq> p" "n \<noteq> q" for n
  proof -
    have o: "nx S' n = nx S n" "S' n = S n" using n by (simp_all add: nx_def S'_def)
    have "nx S n \<noteq> nx S q" using nx_inj [OF l n(1) q(1)] n(3) by auto
    moreover have "nx S n \<noteq> q" using nx_inj [OF l n(1) p(1)] n(2) by (auto simp: q_def)
    ultimately show ?thesis using layD [OF l n(1)] unfolding block_at_def o by auto
  qed
  have "?P fn = en" using nxfn [OF q(1)] lay_ends(2) [OF l] by simp
  moreover have "S' en = 0x80000000" using pen lay_ends(3) [OF l] by (simp add: S'_def)
  ultimately show "lay fn en (N - {q}) S' ?P"
    using b1 b2 lay_ends(1,4) [OF l] qfn unfolding lay_def by blast
qed

end
