(* ===== verification/Mem_Inv.thy ===== *)
theory Mem_Inv
  imports Mem_Layout
begin

text \<open>
  The invariant of a pool: the layout of its blocks, its free lists with every free block in the
  list of its class, and the bitmap. The steps of the operations are shown to keep it, apart from
  blocks that are just being moved.
\<close>

section \<open>The invariant\<close>

definition geom :: "UINT32 \<Rightarrow> UINT32 \<Rightarrow> bool" where
  "geom pool sz \<longleftrightarrow> pool \<noteq> 0 \<and> 4 dvd unat pool \<and> 4 dvd unat sz \<and> 968 \<le> unat sz \<and> unat sz \<le> 2 ^ 29 \<and>
    unat pool + unat sz + 8 \<le> 2 ^ 32"

abbreviation szf :: "memory \<Rightarrow> UINT32 \<Rightarrow> UINT32" where "szf m n \<equiv> m (sizeAndFlag n)"

abbreviation prv :: "memory \<Rightarrow> UINT32 \<Rightarrow> UINT32" where "prv m n \<equiv> m (node_ptr n)"

abbreviation end_node :: "UINT32 \<Rightarrow> UINT32 \<Rightarrow> UINT32" where "end_node pool sz \<equiv> OS_MEM_END_NODE pool sz"

abbreviation free_nodes :: "UINT32 set \<Rightarrow> (UINT32 \<Rightarrow> UINT32) \<Rightarrow> UINT32 set" where
  "free_nodes N S \<equiv> {n \<in> N. \<not> used (S n)}"

text \<open>The blocks in \<open>X\<close> are free but not in a list.\<close>

definition heap :: "UINT32 \<Rightarrow> UINT32 \<Rightarrow> UINT32 set \<Rightarrow> (UINT32 \<Rightarrow> UINT32 list) \<Rightarrow> UINT32 set \<Rightarrow> memory \<Rightarrow> bool" where
  "heap pool sz N L X m \<longleftrightarrow> geom pool sz \<and>
    lay (OS_MEM_FIRST_NODE pool) (end_node pool sz) N (szf m) (prv m) \<and>
    free_lists pool L m \<and> classes_ok L m \<and> members L = free_nodes N (szf m) - X \<and>
    m (info_totalSize pool) = sz"

lemma heapD:
  assumes "heap pool sz N L X m"
  shows "geom pool sz" "lay (OS_MEM_FIRST_NODE pool) (end_node pool sz) N (szf m) (prv m)"
    "free_lists pool L m" "classes_ok L m" "members L = free_nodes N (szf m) - X" "m (info_totalSize pool) = sz"
  using assms by (simp_all add: heap_def)

lemma geom_ends:
  assumes "geom pool sz"
  shows "unat (OS_MEM_FIRST_NODE pool) = unat pool + 944" "unat (end_node pool sz) = unat pool + unat sz - 8"
proof -
  have g: "968 \<le> unat sz" "unat pool + unat sz + 8 \<le> 4294967296" using assms by (simp_all add: geom_def)
  then show "unat (OS_MEM_FIRST_NODE pool) = unat pool + 944"
    by (simp add: OS_MEM_FIRST_NODE_def mem_counts unat_word_ariths(1))
  have "unat (pool + sz) = unat pool + unat sz" using g by (simp add: unat_word_ariths(1))
  moreover from this have "(8 :: UINT32) \<le> pool + sz" using g by (simp add: word_le_nat_alt)
  ultimately show "unat (end_node pool sz) = unat pool + unat sz - 8"
    by (simp add: OS_MEM_END_NODE_def OS_MEM_NODE_HEAD_SIZE_def unat_sub)
qed

lemma beyondI:
  assumes "unat pool + 944 \<le> unat x" "unat x \<le> unat pool + 4294967280" shows "beyond pool x"
proof -
  have "unat (x - pool) = unat x - unat pool" using assms by (simp add: unat_sub word_le_nat_alt)
  then have "944 \<le> unat (x - pool)" "unat (x - pool) \<le> 4294967280" using assms by linarith+
  then show ?thesis by (simp add: beyond_def word_le_nat_alt)
qed

lemma node_beyond:
  assumes h: "heap pool sz N L X m" and x: "x \<in> insert (end_node pool sz) N"
  shows "beyond pool x" "x \<noteq> 0"
proof -
  note e = geom_ends [OF heapD(1) [OF h]]
  have g: "968 \<le> unat sz" "unat sz \<le> 536870912" using heapD(1) [OF h] by (simp_all add: geom_def)
  have "unat pool + 944 \<le> unat x \<and> unat x \<le> unat pool + unat sz"
  proof (cases "x \<in> N")
    case True
    then show ?thesis using layD(1,5) [OF heapD(2) [OF h] True] e by linarith
  next
    case False
    then show ?thesis using x e g by simp
  qed
  then show "beyond pool x" "x \<noteq> 0" using g by (auto intro: beyondI)
qed

lemma node_far: "heap pool sz N L X m \<Longrightarrow> x \<in> insert (end_node pool sz) N \<Longrightarrow> y \<in> insert (end_node pool sz) N \<Longrightarrow> far x y"
  by (rule lay_far [OF heapD(2)])

text \<open>The fields of the head that are not part of the lists.\<close>

definition info_addr :: "UINT32 \<Rightarrow> UINT32 \<Rightarrow> bool" where
  "info_addr pool a \<longleftrightarrow> a - pool < 944 \<and> \<not> (20 \<le> a - pool \<and> a - pool < 940)"

lemma info_addrs [simp]:
  "info_addr pool (info_pool pool)" "info_addr pool (info_totalSize pool)" "info_addr pool (info_attr pool)"
  "info_addr pool (info_waterLine pool)" "info_addr pool (info_curUsedSize pool)" "info_addr pool (nextPool pool)"
  by (simp_all add: info_addr_def head_offset)

lemma beyond_not_head:
  assumes "beyond pool x"
  shows "\<not> node_ptr x - pool < 944" "\<not> sizeAndFlag x - pool < 944" "\<not> free_prev x - pool < 944" "\<not> free_next x - pool < 944"
  using beyond_fields [OF assms, of "node_ptr x"] beyond_fields [OF assms, of "sizeAndFlag x"]
    beyond_fields [OF assms, of "free_prev x"] beyond_fields [OF assms, of "free_next x"] by auto

lemma below_944: "a < 940 \<Longrightarrow> a < 944" for a :: UINT32
  by (simp add: word_less_nat_alt)

lemma header_not_lists:
  assumes x: "beyond pool x" "\<And>y. y \<in> Y \<Longrightarrow> far x y"
  shows "sizeAndFlag x \<notin> lists_area pool Y" "node_ptr x \<notin> lists_area pool Y"
proof -
  have "\<not> sizeAndFlag x - pool < 940" "\<not> node_ptr x - pool < 940"
    using beyond_not_head [OF x(1)] below_944 by auto
  moreover have "sizeAndFlag x \<notin> free_prev ` Y" "sizeAndFlag x \<notin> free_next ` Y"
      "node_ptr x \<notin> free_prev ` Y" "node_ptr x \<notin> free_next ` Y"
    using x(2) by (blast dest: far_fields)+
  ultimately show "sizeAndFlag x \<notin> lists_area pool Y" "node_ptr x \<notin> lists_area pool Y"
    by (auto simp: lists_area_def)
qed

lemma info_not_lists:
  assumes "info_addr pool a" "\<And>y. y \<in> Y \<Longrightarrow> beyond pool y"
  shows "a \<notin> lists_area pool Y"
  using assms by (auto simp: lists_area_def info_addr_def beyond_not_head)

lemma info_not_header: "info_addr pool a \<Longrightarrow> beyond pool x \<Longrightarrow> a \<noteq> sizeAndFlag x" "info_addr pool a \<Longrightarrow> beyond pool x \<Longrightarrow> a \<noteq> node_ptr x"
  by (auto simp: info_addr_def beyond_not_head)

lemma heap_members:
  assumes "heap pool sz N L X m" "x \<in> members L"
  shows "x \<in> N" "\<not> used (szf m x)" "x \<notin> X"
  using heapD(5) [OF assms(1)] assms(2) by auto

section \<open>Steps\<close>

text \<open>A change of the memory that leaves the fields of the nodes, the lists and the size alone.\<close>

lemma heap_frame:
  assumes h: "heap pool sz N L X m"
    and same: "\<And>x. x \<in> insert (end_node pool sz) N \<Longrightarrow> szf m' x = szf m x \<and> prv m' x = prv m x"
    "\<And>a. a \<in> lists_area pool (members L) \<Longrightarrow> m' a = m a" "m' (info_totalSize pool) = m (info_totalSize pool)"
  shows "heap pool sz N L X m'"
proof -
  have "classes_ok L m'"
    using heapD(4) [OF h] same(1) heap_members(1) [OF h in_members] unfolding classes_ok_def by (metis insert_iff)
  moreover have "free_nodes N (szf m') = free_nodes N (szf m)" using same(1) by auto
  ultimately show ?thesis
    using h same lay_cong [of "end_node pool sz" N "szf m'" "szf m" "prv m'" "prv m"] free_lists_frame [OF heapD(3) [OF h] same(2)]
    by (simp add: heap_def)
qed

lemma heap_list_delete:
  assumes h: "heap pool sz N L X m" and i: "i < 223" and n: "n \<in> set (L i)"
  defines "m' \<equiv> OsMemListDelete pool i n m"
  shows "heap pool sz N (L(i := filter (\<lambda>x. x \<noteq> n) (L i))) (insert n X) m'"
    and "x \<in> insert (end_node pool sz) N \<Longrightarrow> szf m' x = szf m x \<and> prv m' x = prv m x"
    and "a \<notin> lists_area pool (free_nodes N (szf m)) \<Longrightarrow> m' a = m a"
    and "a \<notin> lists_area pool (free_nodes N (szf m) - X) \<Longrightarrow> m' a = m a"
proof -
  let ?L = "L(i := filter (\<lambda>x. x \<noteq> n) (L i))"
  note d = free_lists_delete [OF heapD(3) [OF h] i n, folded m'_def]
  have sub: "lists_area pool (members L - {n}) \<subseteq> lists_area pool (free_nodes N (szf m))"
    using heapD(5) [OF h] by (auto simp: lists_area_def)
  show fr: "m' a = m a" if "a \<notin> lists_area pool (free_nodes N (szf m))" for a using d(3) that sub by blast
  have "lists_area pool (members L - {n}) \<subseteq> lists_area pool (free_nodes N (szf m) - X)"
    using heapD(5) [OF h] by (auto simp: lists_area_def)
  then show "a \<notin> lists_area pool (free_nodes N (szf m) - X) \<Longrightarrow> m' a = m a" using d(3) by blast
  have nodes: "szf m' x = szf m x \<and> prv m' x = prv m x" if "x \<in> insert (end_node pool sz) N" for x
    using header_not_lists [OF node_beyond(1) [OF h that], of "free_nodes N (szf m)"] node_far [OF h that] fr by auto
  then show "x \<in> insert (end_node pool sz) N \<Longrightarrow> szf m' x = szf m x \<and> prv m' x = prv m x" .
  have "classes_ok ?L m'"
    using heapD(4) [OF h] nodes heap_members(1) [OF h in_members] unfolding classes_ok_def
    by (auto split: if_splits)
  moreover have "free_nodes N (szf m') = free_nodes N (szf m)" using nodes by auto
  moreover have "info_totalSize pool \<notin> lists_area pool (free_nodes N (szf m))"
    using node_beyond(1) [OF h] by (intro info_not_lists) simp_all
  then have "m' (info_totalSize pool) = sz" using fr heapD(6) [OF h] by simp
  ultimately show "heap pool sz N ?L (insert n X) m'"
    using h d(1,2) nodes lay_cong [of "end_node pool sz" N "szf m'" "szf m" "prv m'" "prv m"]
    by (auto simp: heap_def)
qed

lemma heap_class:
  assumes h: "heap pool sz N L X m" and n: "n \<in> N" "\<not> used (szf m n)"
  shows "OsMemFreeListIndexGet (szf m n) < 207" "unat (OsMemFreeListIndexGet (szf m n)) = cls (szf m n)"
    "plain (szf m n)" "16 \<le> unat (szf m n)" "unat (szf m n) < 2 ^ 29" "4 dvd unat (szf m n)"
proof -
  note l = heapD(2) [OF h]
  show pl: "plain (szf m n)" by (rule layD(8) [OF l n])
  show b: "16 \<le> unat (szf m n)" "unat (szf m n) < 2 ^ 29" "4 dvd unat (szf m n)"
    using layD(3,4) [OF l n(1)] block_size [OF l n(1)] plain_size [OF pl] by simp_all
  show c: "unat (OsMemFreeListIndexGet (szf m n)) = cls (szf m n)" using index_class [of "szf m n"] b by simp
  show "OsMemFreeListIndexGet (szf m n) < 207" using index_class(2) [of "szf m n"] b c by (simp add: word_less_nat_alt)
qed

lemma below_207: "i < 207 \<Longrightarrow> i < 223" for i :: UINT32
  by (simp add: word_less_nat_alt)

lemma heap_delete:
  assumes h: "heap pool sz N L X m" and n: "n \<in> N" "\<not> used (szf m n)" "n \<notin> X"
  defines "m' \<equiv> OsMemFreeNodeDelete pool n m"
  obtains L' where "heap pool sz N L' (insert n X) m'"
    "\<And>x. x \<in> insert (end_node pool sz) N \<Longrightarrow> szf m' x = szf m x \<and> prv m' x = prv m x"
    "\<And>a. a \<notin> lists_area pool (free_nodes N (szf m)) \<Longrightarrow> m' a = m a"
    "\<And>a. a \<notin> lists_area pool (free_nodes N (szf m) - X) \<Longrightarrow> m' a = m a"
proof -
  let ?i = "OsMemFreeListIndexGet (szf m n)"
  have "n \<in> members L" using heapD(5) [OF h] n by simp
  then obtain j where j: "j < 223" "n \<in> set (L j)" by (auto simp: members_def)
  then have "unat j = cls (szf m n)" using heapD(4) [OF h] by (auto simp: classes_ok_def)
  then have "?i = j" using heap_class(2) [OF h n(1,2)] by (simp add: word_unat_eq_iff)
  then have "m' = OsMemListDelete pool j n m" by (simp add: m'_def OsMemFreeNodeDelete_def)
  then show thesis using heap_list_delete [OF h j] that by auto
qed

lemma heap_add:
  assumes h: "heap pool sz N L X m" and n: "n \<in> N" "\<not> used (szf m n)" "n \<in> X"
  obtains m' L' where "OsMemFreeNodeAdd pool n m = Some m'" "heap pool sz N L' (X - {n}) m'"
    "\<And>x. x \<in> insert (end_node pool sz) N \<Longrightarrow> szf m' x = szf m x \<and> prv m' x = prv m x"
    "\<And>a. a \<notin> lists_area pool (free_nodes N (szf m)) \<Longrightarrow> m' a = m a"
    "\<And>a. a \<notin> lists_area pool (free_nodes N (szf m) - (X - {n})) \<Longrightarrow> m' a = m a"
proof -
  define i where "i = OsMemFreeListIndexGet (szf m n)"
  note c = heap_class [OF h n(1,2), folded i_def]
  have i: "i < 223" by (rule below_207 [OF c(1)])
  let ?L = "L(i := n # L i)"
  define m' where "m' = OsMemListAdd pool i n m"
  have nm: "n \<notin> members L" using heapD(5) [OF h] n by simp
  have bn: "beyond pool n" "n \<noteq> 0" using node_beyond [OF h] n by auto
  have fa: "far x n" if "x \<in> members L" for x using node_far [OF h] n heap_members(1) [OF h that] by simp
  note a = free_lists_add [OF heapD(3) [OF h] i nm bn fa, folded m'_def]
  have sub: "lists_area pool (insert n (members L)) \<subseteq> lists_area pool (free_nodes N (szf m))"
    using heapD(5) [OF h] n by (auto simp: lists_area_def)
  have fr: "m' a = m a" if "a \<notin> lists_area pool (free_nodes N (szf m))" for a using a(2) that sub by blast
  have nodes: "szf m' x = szf m x \<and> prv m' x = prv m x" if "x \<in> insert (end_node pool sz) N" for x
    using header_not_lists [OF node_beyond(1) [OF h that], of "free_nodes N (szf m)"] node_far [OF h that] fr by auto
  have "classes_ok ?L m'"
    using heapD(4) [OF h] nodes heap_members(1) [OF h in_members] c n(1) unfolding classes_ok_def
    by (auto split: if_splits)
  moreover have "free_nodes N (szf m') = free_nodes N (szf m)" using nodes by auto
  moreover have "info_totalSize pool \<notin> lists_area pool (free_nodes N (szf m))"
    using node_beyond(1) [OF h] by (intro info_not_lists) simp_all
  then have "m' (info_totalSize pool) = sz" using fr heapD(6) [OF h] by simp
  ultimately have "heap pool sz N ?L (X - {n}) m'"
    using h a(1) members_add [OF i, of L n] n nodes lay_cong [of "end_node pool sz" N "szf m'" "szf m" "prv m'" "prv m"]
    by (auto simp: heap_def)
  moreover have "\<not> 223 \<le> i" using i by simp
  then have "OsMemFreeNodeAdd pool n m = Some m'"
    by (simp add: OsMemFreeNodeAdd_def i_def m'_def mem_counts Let_def)
  moreover have "insert n (members L) = free_nodes N (szf m) - (X - {n})" using heapD(5) [OF h] n by auto
  then have "m' a = m a" if "a \<notin> lists_area pool (free_nodes N (szf m) - (X - {n}))" for a using a(2) that by simp
  ultimately show thesis using that nodes fr by blast
qed

lemma heap_change:
  assumes h: "heap pool sz N L X m"
    and new: "lay (OS_MEM_FIRST_NODE pool) (end_node pool sz) N' (szf m') (prv m')"
    and same: "\<And>a. a \<in> lists_area pool (members L) \<Longrightarrow> m' a = m a" "m' (info_totalSize pool) = m (info_totalSize pool)"
    "\<And>x. x \<in> members L \<Longrightarrow> szf m' x = szf m x"
    and mem: "members L = free_nodes N' (szf m') - X'"
  shows "heap pool sz N' L X' m'"
proof -
  have "classes_ok L m'"
    using heapD(4) [OF h] same(3) [OF in_members] unfolding classes_ok_def by simp
  moreover have "m' (info_totalSize pool) = sz" using same(2) heapD(6) [OF h] by simp
  ultimately show ?thesis
    unfolding heap_def using heapD(1) [OF h] new free_lists_frame [OF heapD(3) [OF h] same(1)] mem by blast
qed

text \<open>A node gets new flags.\<close>

lemma heap_flag:
  assumes h: "heap pool sz N L X m" and n: "n \<in> N" "n \<notin> members L"
    and w: "OS_MEM_NODE_GET_SIZE w = OS_MEM_NODE_GET_SIZE (szf m n)" "used w \<or> plain w"
  defines "m' \<equiv> m(sizeAndFlag n := w)"
  shows "heap pool sz N L (if used w then X - {n} else insert n X) m'"
    and "x \<in> insert (end_node pool sz) N \<Longrightarrow> szf m' x = ((szf m)(n := w)) x \<and> prv m' x = prv m x"
proof -
  have eq: "szf m' x = ((szf m)(n := w)) x" "x \<in> insert (end_node pool sz) N \<Longrightarrow> prv m' x = prv m x" for x
    using node_far [OF h, of x n] n by (auto simp: m'_def)
  then show "x \<in> insert (end_node pool sz) N \<Longrightarrow> szf m' x = ((szf m)(n := w)) x \<and> prv m' x = prv m x" by simp
  have "lay (OS_MEM_FIRST_NODE pool) (end_node pool sz) N ((szf m)(n := w)) (prv m)"
    by (rule lay_flag [OF heapD(2) [OF h] n(1) w])
  then have "lay (OS_MEM_FIRST_NODE pool) (end_node pool sz) N (szf m') (prv m')"
    using eq lay_cong [of "end_node pool sz" N "szf m'" "(szf m)(n := w)" "prv m'" "prv m"] by simp
  moreover have "sizeAndFlag n \<notin> lists_area pool (members L)"
    using node_beyond(1) [OF h] node_far [OF h] heap_members(1) [OF h] n by (intro header_not_lists) auto
  moreover have "info_totalSize pool \<noteq> sizeAndFlag n"
    using info_not_header(1) [OF info_addrs(2) node_beyond(1) [OF h, of n]] n by simp
  ultimately show "heap pool sz N L (if used w then X - {n} else insert n X) m'"
    using heapD(5) [OF h] n by (intro heap_change [OF h]) (auto simp: m'_def)
qed

text \<open>A free block is cut in two.\<close>

lemma heap_split:
  assumes h: "heap pool sz N L X m" and p: "p \<in> N" "p \<in> X" "plain (szf m p)"
    and s: "16 \<le> unat s" "4 dvd unat s" "unat s + 16 \<le> unat (szf m p)"
  defines "q \<equiv> p + s"
  defines "r \<equiv> nx (szf m) p"
  defines "m' \<equiv> m(node_ptr q := p, sizeAndFlag q := szf m p - s, sizeAndFlag p := s, node_ptr r := q)"
  shows "heap pool sz (insert q N) L (insert q X) m'"
    and "x \<in> insert (end_node pool sz) (insert q N) \<Longrightarrow> szf m' x = ((szf m)(q := szf m p - s, p := s)) x"
    and "prv m' r = q" "prv m' q = p" "q \<notin> insert (end_node pool sz) N" "unat q = unat p + unat s" "nx (szf m') q = r"
    "plain (szf m' q)" "plain (szf m' p)"
    "r \<in> insert (end_node pool sz) N"
proof -
  let ?en = "end_node pool sz" and ?S = "(szf m)(q := szf m p - s, p := s)" and ?P = "(prv m)(q := p, r := q)"
  note l = heapD(2) [OF h]
  note sp = lay_split [OF l p(1,3) s, folded q_def r_def]
  show rN: "r \<in> insert ?en N" using layD(6) [OF l p(1)] by (simp add: r_def)
  have far: "far x y" if "x \<in> insert ?en (insert q N)" "y \<in> insert ?en (insert q N)" for x y
    by (rule lay_far [OF sp(1) that])
  have pq: "p \<noteq> q" using sp(2) p(1) by auto
  show eqS: "szf m' x = ?S x" if "x \<in> insert ?en (insert q N)" for x
    using far [OF that, of q] far [OF that, of r] that rN pq by (auto simp: m'_def)
  have eqP: "prv m' x = ?P x" if "x \<in> insert ?en (insert q N)" for x
    using far [OF that, of q] far [OF that, of p] that p rN by (auto simp: m'_def)
  have nl: "lay (OS_MEM_FIRST_NODE pool) ?en (insert q N) (szf m') (prv m')"
    using sp(1) eqS eqP lay_cong [of ?en "insert q N" "szf m'" ?S "prv m'" ?P] by simp
  have bq: "beyond pool q"
  proof -
    have "beyond pool p" "unat p + unat (szf m p) \<le> unat ?en"
      using node_beyond(1) [OF h] p layD(5) [OF l p(1)] plain_size [OF p(3)] by simp_all
    moreover have g: "968 \<le> unat sz" "unat sz \<le> 536870912" using heapD(1) [OF h] by (simp_all add: geom_def)
    ultimately have "unat pool + 944 \<le> unat q \<and> unat q \<le> unat pool + unat sz"
      using geom_ends [OF heapD(1) [OF h]] layD(1) [OF l p(1)] sp(3) s(3) by linarith
    then show ?thesis using g by (intro beyondI) linarith+
  qed
  have nb: "beyond pool x" if "x \<in> insert ?en (insert q N)" for x
    using that bq node_beyond(1) [OF h] by auto
  have out: "sizeAndFlag x \<notin> lists_area pool (members L)" "node_ptr x \<notin> lists_area pool (members L)"
    if "x \<in> insert ?en (insert q N)" for x
    using header_not_lists [OF nb [OF that], of "members L"] far [OF that] heap_members(1) [OF h] by auto
  have info: "info_totalSize pool \<noteq> sizeAndFlag x" "info_totalSize pool \<noteq> node_ptr x"
    if "x \<in> insert ?en (insert q N)" for x
    using info_not_header [OF info_addrs(2) nb [OF that]] by auto
  have pm: "p \<notin> members L" "q \<notin> members L" using heapD(5) [OF h] p sp(2) by auto
  show pl: "plain (szf m' q)" "plain (szf m' p)" using eqS sp(6,7) p pq by simp_all
  have same: "szf m' x = szf m x" if "x \<in> N" "x \<notin> X" for x using eqS [of x] that p sp(2) by auto
  have "free_nodes (insert q N) (szf m') - insert q X = free_nodes N (szf m') - X" using sp(2) by auto
  also have "\<dots> = free_nodes N (szf m) - X" using same by auto
  finally have "members L = free_nodes (insert q N) (szf m') - insert q X"
    using heapD(5) [OF h] by simp
  then show "heap pool sz (insert q N) L (insert q X) m'"
  proof (rule heap_change [OF h nl, rotated 3])
    have rq: "r \<in> insert ?en (insert q N)" "p \<in> insert ?en (insert q N)" "q \<in> insert ?en (insert q N)"
      using rN p by auto
    show "m' a = m a" if "a \<in> lists_area pool (members L)" for a
      using that out [OF rq(1)] out [OF rq(2)] out [OF rq(3)] unfolding m'_def by (metis fun_upd_apply)
    show "m' (info_totalSize pool) = m (info_totalSize pool)"
      using info [OF rq(1)] info [OF rq(2)] info [OF rq(3)] unfolding m'_def by (metis fun_upd_apply)
    show "szf m' x = szf m x" if "x \<in> members L" for x
      by (rule same) (use heap_members [OF h that] in auto)
  qed
  show "prv m' r = q" by (simp add: m'_def)
  show "q \<notin> insert ?en N" "unat q = unat p + unat s" by (rule sp(2), rule sp(3))
  have "r \<noteq> q" using rN sp(2) by auto
  then show "prv m' q = p" using eqP [of q] by simp
  show "nx (szf m') q = r" using sp(5) eqS [of q] by (simp add: nx_def)
qed

text \<open>A free block is joined to the free block before it.\<close>

lemma heap_merge:
  assumes h: "heap pool sz N L X m" and p: "p \<in> N" "p \<in> X" "plain (szf m p)"
    and q: "nx (szf m) p \<in> N" "nx (szf m) p \<in> X" "plain (szf m (nx (szf m) p))"
  defines "q \<equiv> nx (szf m) p"
  defines "m' \<equiv> OsMemMergeNode q m"
  shows "heap pool sz (N - {q}) L (X - {q}) m'"
    and "x \<in> insert (end_node pool sz) N \<Longrightarrow> szf m' x = ((szf m)(p := szf m p + szf m q)) x"
    and "a \<noteq> sizeAndFlag p \<Longrightarrow> a \<noteq> node_ptr (nx (szf m) q) \<Longrightarrow> m' a = m a"
    and "nx (szf m') p = nx (szf m) q" "plain (szf m' p)" "unat (szf m' p) = unat (szf m p) + unat (szf m q)" "p \<noteq> q"
    and "prv m' (nx (szf m) q) = p" "nx (szf m) q \<in> insert (end_node pool sz) (N - {q})"
proof -
  let ?en = "end_node pool sz" and ?S = "(szf m)(p := szf m p + szf m q)" and ?r = "nx (szf m) q"
  let ?P = "(prv m)(?r := p)"
  note l = heapD(2) [OF h]
  note q = q [folded q_def]
  note mg = lay_merge [OF l p(1,3) q(1,3) [unfolded q_def], folded q_def]
  note far = node_far [OF h]
  have rN: "?r \<in> insert ?en N" using layD(6) [OF l q(1)] by simp
  have "?r \<noteq> q" using nx_unat [OF l q(1)] layD(3) [OF l q(1)] by auto
  then show "?r \<in> insert ?en (N - {q})" using rN by auto
  have pq: "prv m q = p" using layD(7) [OF l p(1)] by (simp add: q_def)
  have "q + szf m q = ?r" using q(3) by (simp add: nx_def plain_def)
  then have m': "m' = m(sizeAndFlag p := szf m p + szf m q, node_ptr ?r := p)"
    using mg(5) pq far [of p q] far [of q p] p q by (simp add: m'_def OsMemMergeNode_def Let_def)
  show eqS: "szf m' x = ?S x" if "x \<in> insert ?en N" for x
    using far [OF that, of ?r] that rN by (auto simp: m')
  have eqP: "prv m' x = ?P x" if "x \<in> insert ?en N" for x
    using far [OF that, of p] that p by (auto simp: m')
  show "a \<noteq> sizeAndFlag p \<Longrightarrow> a \<noteq> node_ptr ?r \<Longrightarrow> m' a = m a" by (simp add: m')
  show "prv m' ?r = p" by (simp add: m')
  have "szf m' x = ?S x \<and> prv m' x = ?P x" if "x \<in> insert ?en (N - {q})" for x
    using that eqS [of x] eqP [of x] by blast
  note cong = lay_cong [of ?en "N - {q}" "szf m'" ?S "prv m'" ?P, OF this]
  have nl: "lay (OS_MEM_FIRST_NODE pool) ?en (N - {q}) (szf m') (prv m')"
    using mg(1) cong by blast
  have out: "sizeAndFlag x \<notin> lists_area pool (members L)" "node_ptr x \<notin> lists_area pool (members L)"
    if "x \<in> insert ?en N" for x
    using header_not_lists [OF node_beyond(1) [OF h that], of "members L"] far [OF that] heap_members(1) [OF h] by auto
  have info: "info_totalSize pool \<noteq> sizeAndFlag x" "info_totalSize pool \<noteq> node_ptr x"
    if "x \<in> insert ?en N" for x
    using info_not_header [OF info_addrs(2) node_beyond(1) [OF h that]] by auto
  have pm: "p \<notin> members L" "q \<notin> members L" using heapD(5) [OF h] p q by auto
  have same: "szf m' x = szf m x" if "x \<in> N" "x \<notin> X" for x using eqS [of x] that p by auto
  have "free_nodes (N - {q}) (szf m') - (X - {q}) = free_nodes N (szf m') - X" using q by auto
  also have "\<dots> = free_nodes N (szf m) - X" using same by auto
  finally have "members L = free_nodes (N - {q}) (szf m') - (X - {q})"
    using heapD(5) [OF h] by simp
  then show "heap pool sz (N - {q}) L (X - {q}) m'"
  proof (rule heap_change [OF h nl, rotated 3])
    have rp: "?r \<in> insert ?en N" "p \<in> insert ?en N" using rN p by auto
    show "m' a = m a" if "a \<in> lists_area pool (members L)" for a
      using that out [OF rp(1)] out [OF rp(2)] unfolding m' by (metis fun_upd_apply)
    show "m' (info_totalSize pool) = m (info_totalSize pool)"
      using info [OF rp(1)] info [OF rp(2)] unfolding m' by (metis fun_upd_apply)
    show "szf m' x = szf m x" if "x \<in> members L" for x
      by (rule same) (use heap_members [OF h that] in auto)
  qed
  show "p \<noteq> q" by (rule mg(5))
  show "plain (szf m' p)" "unat (szf m' p) = unat (szf m p) + unat (szf m q)" using eqS [of p] p mg(3,4) by simp_all
  show "nx (szf m') p = ?r" using mg(2) eqS [of p] p by (simp add: nx_def)
qed

end
