(* ===== verification/Mem_Ops.thy ===== *)
theory Mem_Ops
  imports Mem_Inv
begin

text \<open>
  The composed steps of the memory manager: cutting a block with the join of its rest to the next
  one, allocation and release keep the invariant and write nothing but the structures of the
  manager and free memory.
\<close>

section \<open>The memory of the manager\<close>

definition managed :: "UINT32 \<Rightarrow> UINT32 \<Rightarrow> UINT32 set \<Rightarrow> (UINT32 \<Rightarrow> UINT32) \<Rightarrow> UINT32 set" where
  "managed pool en N S = {a. 20 \<le> a - pool \<and> a - pool < 940} \<union> node_ptr ` insert en N \<union> sizeAndFlag ` insert en N \<union>
    {a. \<exists>x\<in>N. \<not> used (S x) \<and> unat x \<le> unat a \<and> unat a < unat x + bsize (S x)}"

text \<open>A node that lies in a free block.\<close>

definition inside :: "UINT32 set \<Rightarrow> (UINT32 \<Rightarrow> UINT32) \<Rightarrow> UINT32 \<Rightarrow> bool" where
  "inside N S x \<longleftrightarrow> (\<exists>p\<in>N. \<not> used (S p) \<and> unat p \<le> unat x \<and> unat x + 16 \<le> unat p + bsize (S p))"

lemma inside_fields:
  assumes l: "lay fn en N S P" and x: "inside N S x"
  shows "node_ptr x \<in> managed pool en N S" "sizeAndFlag x \<in> managed pool en N S"
    "free_prev x \<in> managed pool en N S" "free_next x \<in> managed pool en N S"
proof -
  obtain p where p: "p \<in> N" "\<not> used (S p)" "unat p \<le> unat x" "unat x + 16 \<le> unat p + bsize (S p)"
    using x by (auto simp: inside_def)
  have "unat p + bsize (S p) < 4294967296" using layD(5) [OF l p(1)] unsigned_less [where w = en and 'a = nat] by simp
  then have f: "unat (x + 4) = unat x + 4" "unat (x + 8) = unat x + 8" "unat (x + 12) = unat x + 12"
    using p(4) by (simp_all add: unat_word_ariths(1))
  have *: "a \<in> managed pool en N S" if "unat x \<le> unat a" "unat a < unat x + 16" for a
  proof -
    have "unat p \<le> unat a" "unat a < unat p + bsize (S p)" using that p by linarith+
    then show ?thesis using p(1,2) unfolding managed_def by blast
  qed
  show "node_ptr x \<in> managed pool en N S" "sizeAndFlag x \<in> managed pool en N S"
    "free_prev x \<in> managed pool en N S" "free_next x \<in> managed pool en N S"
    by (rule *; simp add: node_fields f)+
qed

lemma free_inside: "lay fn en N S P \<Longrightarrow> x \<in> N \<Longrightarrow> \<not> used (S x) \<Longrightarrow> inside N S x"
  unfolding inside_def using layD(3) by force

lemma header_managed: "x \<in> insert en N \<Longrightarrow> node_ptr x \<in> managed pool en N S" "x \<in> insert en N \<Longrightarrow> sizeAndFlag x \<in> managed pool en N S"
  by (auto simp: managed_def)

lemma lists_managed:
  assumes "lay fn en N S P" "\<And>y. y \<in> Y \<Longrightarrow> inside N S y"
  shows "lists_area pool Y \<subseteq> managed pool en N S"
proof
  fix a assume "a \<in> lists_area pool Y"
  then consider "20 \<le> a - pool" "a - pool < 940" | y where "y \<in> Y" "a = free_prev y \<or> a = free_next y"
    by (auto simp: lists_area_def)
  then show "a \<in> managed pool en N S"
    using inside_fields(3,4) [OF assms(1) assms(2)] by cases (auto simp: managed_def)
qed

lemma info_not_managed:
  assumes h: "heap pool sz N L X m" and a: "info_addr pool a"
  shows "a \<notin> managed pool (end_node pool sz) N (szf m)"
proof -
  have "\<not> (unat x \<le> unat a)" if x: "x \<in> N" for x
  proof
    assume le: "unat x \<le> unat a"
    have "unat pool + 944 \<le> unat x" using layD(1) [OF heapD(2) [OF h] x] geom_ends(1) [OF heapD(1) [OF h]] by simp
    then have "pool \<le> a" "unat pool + 944 \<le> unat a" using le by (simp_all add: word_le_nat_alt)
    then have "944 \<le> unat (a - pool)" by (simp add: unat_sub)
    then show False using a by (simp add: info_addr_def word_less_nat_alt)
  qed
  then show ?thesis
    using info_not_header [OF a node_beyond(1) [OF h]] a unfolding managed_def info_addr_def by auto
qed

text \<open>The part of a used block behind its header.\<close>

definition user_area :: "(UINT32 \<Rightarrow> UINT32) \<Rightarrow> UINT32 \<Rightarrow> UINT32 set" where
  "user_area S n = {a. unat n + 8 \<le> unat a \<and> unat a < unat n + bsize (S n)}"

lemma body_not_fields:
  assumes h: "heap pool sz N L X m" and n: "n \<in> N" and a: "a \<in> user_area (szf m) n"
  shows "\<not> a - pool < 944" "x \<in> insert (end_node pool sz) N \<Longrightarrow> a \<noteq> node_ptr x \<and> a \<noteq> sizeAndFlag x"
    "Y \<subseteq> N - {n} \<Longrightarrow> a \<notin> lists_area pool Y"
proof -
  note l = heapD(2) [OF h]
  have b: "unat n + 8 \<le> unat a" "unat a < unat n + bsize (szf m n)" using a by (auto simp: user_area_def)
  have "unat pool + 944 \<le> unat n" using layD(1) [OF l n] geom_ends(1) [OF heapD(1) [OF h]] by simp
  then have pa: "pool \<le> a" "unat pool + 944 \<le> unat a" using b by (simp_all add: word_le_nat_alt)
  then have "944 \<le> unat (a - pool)" by (simp add: unat_sub)
  then show off: "\<not> a - pool < 944" by (simp add: word_less_nat_alt)
  have place: "x = n \<or> unat x + 16 \<le> unat n \<or> unat n + bsize (szf m n) \<le> unat x" if x: "x \<in> insert (end_node pool sz) N" for x
  proof (cases "x \<in> N")
    case True
    then show ?thesis using layD(3,9) [OF l True] layD(9) [OF l n True] n
      by (cases "unat x = unat n") (auto simp: word_unat_eq_iff, fastforce)
  next
    case False
    then show ?thesis using x layD(5) [OF l n] by simp
  qed
  have fe: "unat (x + k) = unat x + unat k" if "x \<in> insert (end_node pool sz) N" "unat k \<le> 7" for x k
  proof -
    have "unat x \<le> unat (end_node pool sz)" using that(1) layD(5) [OF l] by fastforce
    moreover have "unat (end_node pool sz) + 8 \<le> 2 ^ 32"
      using geom_ends [OF heapD(1) [OF h]] heapD(1) [OF h] by (simp add: geom_def)
    ultimately show ?thesis using that(2) by (simp add: unat_word_ariths(1))
  qed
  show "a \<noteq> node_ptr x \<and> a \<noteq> sizeAndFlag x" if x: "x \<in> insert (end_node pool sz) N"
    using place [OF x] b fe [OF x, of 4] by (auto simp: node_ptr_def sizeAndFlag_def)
  show "a \<notin> lists_area pool Y" if Y: "Y \<subseteq> N - {n}"
  proof -
    have "a \<noteq> free_prev y \<and> a \<noteq> free_next y" if "y \<in> Y" for y
    proof -
      have y: "y \<in> N" "y \<noteq> n" using that Y by auto
      have "unat y + 16 \<le> unat (end_node pool sz)" using layD(3,5) [OF l y(1)] by simp
      then have "unat (y + 8) = unat y + 8" "unat (y + 12) = unat y + 12"
        using unsigned_less [where w = "end_node pool sz" and 'a = nat] by (simp_all add: unat_word_ariths(1))
      then show ?thesis using place [of y] y b by (auto simp: free_prev_def free_next_def)
    qed
    then show ?thesis using off below_944 by (auto simp: lists_area_def)
  qed
qed

lemma user_not_managed:
  assumes h: "heap pool sz N L X m" and n: "n \<in> N" "used (szf m n)" and a: "a \<in> user_area (szf m) n"
  shows "a \<notin> managed pool (end_node pool sz) N (szf m)" "\<not> info_addr pool a"
proof -
  note l = heapD(2) [OF h] and bf = body_not_fields [OF h n(1) a]
  have b: "unat n + 8 \<le> unat a" "unat a < unat n + bsize (szf m n)" using a by (auto simp: user_area_def)
  show "\<not> info_addr pool a" using bf(1) by (simp add: info_addr_def)
  have "\<not> (a - pool < 940)" using bf(1) below_944 by blast
  moreover have "\<not> (unat x \<le> unat a \<and> unat a < unat x + bsize (szf m x))" if x: "x \<in> N" "\<not> used (szf m x)" for x
  proof -
    have "x \<noteq> n" using x n by auto
    then have "unat x \<noteq> unat n" by (simp add: word_unat_eq_iff)
    then show ?thesis using layD(9) [OF l x(1) n(1)] layD(9) [OF l n(1) x(1)] b by linarith
  qed
  ultimately show "a \<notin> managed pool (end_node pool sz) N (szf m)" using bf(2) unfolding managed_def by auto
qed

section \<open>Cutting a block\<close>

lemma end_used [simp]: "used 0x80000000"
  using bit_le_unat by (simp add: node_flags push_bit_eq_mult)

lemma used_node_split: "used (S x) \<or> x \<in> N \<or> x \<notin> insert en N" if "S en = 0x80000000"
  using that by auto

lemma OsMemSplitNode:
  assumes h: "heap pool sz N L X m" and X: "X \<subseteq> N" and p: "p \<in> X" "plain (szf m p)"
    and s: "16 \<le> unat s" "4 dvd unat s" "unat s + 16 \<le> unat (szf m p)"
  defines "q \<equiv> p + s" and "r \<equiv> nx (szf m) p"
  assumes r: "r \<notin> X"
  defines "N' \<equiv> insert q (if used (szf m r) then N else N - {r})"
  defines "S' \<equiv> (szf m)(q := (if used (szf m r) then szf m p - s else szf m p - s + szf m r), p := s)"
  obtains m' L' where "OsMemSplitNode pool p s m = Some m'" "heap pool sz N' L' X m'"
    "\<And>x. x \<in> insert (end_node pool sz) N' \<Longrightarrow> szf m' x = S' x"
    "\<And>a. a \<notin> managed pool (end_node pool sz) N (szf m) \<Longrightarrow> m' a = m a"
    "\<And>a. unat p + 8 \<le> unat a \<Longrightarrow> unat a < unat p + unat s \<Longrightarrow> m' a = m a"
proof -
  let ?en = "end_node pool sz" and ?A = "managed pool (end_node pool sz) N (szf m)"
  define m1 where "m1 = m(node_ptr q := p, sizeAndFlag q := szf m p - s, sizeAndFlag p := s, node_ptr r := q)"
  have pN: "p \<in> N" using p X by auto
  note l = heapD(2) [OF h]
  note sp = heap_split [OF h pN p s, folded q_def r_def, folded m1_def]
  have pu: "\<not> used (szf m p)" by (rule plain_unused [OF p(2)])
  have qN: "q \<notin> N" "q \<notin> X" "q \<noteq> p" using sp(5) X pN by auto
  have "inside N (szf m) q"
    unfolding inside_def using pN pu sp(6) s plain_size [OF p(2)] by force
  then have ins: "inside N (szf m) x" if "x = q \<or> x \<in> N \<and> \<not> used (szf m x)" for x
    using that free_inside [OF l] by auto
  have rq: "r \<noteq> q" "r \<noteq> p" using sp(5,10) r p by auto
  have S1: "szf m1 q = szf m p - s" "szf m1 p = s" "szf m1 r = szf m r"
    using sp(2) [of q] sp(2) [of p] sp(2) [of r] sp(10) qN rq pN by auto
  have free1: "x = q \<or> x \<in> N \<and> \<not> used (szf m x)" if "x \<in> free_nodes (insert q N) (szf m1)" for x
    using that sp(2) [of x] pN pu by (auto split: if_splits)
  have fr1: "m1 a = m a" if "a \<notin> ?A" for a
  proof -
    have "a \<noteq> node_ptr q" "a \<noteq> sizeAndFlag q" using that inside_fields(1,2) [OF l ins, of q] by auto
    moreover have "a \<noteq> sizeAndFlag p" "a \<noteq> node_ptr r" using that header_managed pN sp(10) by blast+
    ultimately show ?thesis by (simp add: m1_def)
  qed
  have pX: "p \<in> insert q X" "p \<in> insert q N" using p pN by auto
  have body: "a \<in> user_area (szf m1) p" if "unat p + 8 \<le> unat a" "unat a < unat p + unat s" for a
    using that S1(2) sp(9) plain_size [OF sp(9)] by (simp add: user_area_def)
  note bf = body_not_fields [OF sp(1) pX(2) body]
  have body1: "m1 a = m a" if "unat p + 8 \<le> unat a" "unat a < unat p + unat s" for a
    using bf(2) [OF that, of p] bf(2) [OF that, of q] bf(2) [OF that, of r] pN sp(10) by (auto simp: m1_def)
  have la: "lists_area pool Y \<subseteq> ?A" if "\<And>x. x \<in> Y \<Longrightarrow> x = q \<or> x \<in> N \<and> \<not> used (szf m x)" for Y
    by (rule lists_managed [OF l ins]) (use that in auto)
  have la1: "lists_area pool (free_nodes (insert q N) (szf m1)) \<subseteq> ?A" by (rule la) (rule free1)
  have code: "OsMemSplitNode pool p s m = OsMemFreeNodeAdd pool q
      (if used (szf m1 r) then m1 else OsMemMergeNode r (OsMemFreeNodeDelete pool r m1))"
  proof -
    have "far p q" by (rule lay_far [OF heapD(2) [OF sp(1)]]) (use pN in auto)
    then have e: "(m(node_ptr q := p)) (sizeAndFlag p) = szf m p" by simp
    have next_r: "OS_MEM_NEXT_NODE q (m(node_ptr q := p, sizeAndFlag q := szf m p - s, sizeAndFlag p := s)) = r"
      using sp(7) S1(1) qN(3) by (simp add: OS_MEM_NEXT_NODE_def nx_def)
    show ?thesis
      unfolding OsMemSplitNode_def Let_def q_def [symmetric] e next_r
      by (simp only: not_last not_False_eq_True if_True m1_def [symmetric] if_not_P if_P split: if_split) simp
  qed
  show thesis
  proof (cases "used (szf m r)")
    case True
    have n: "q \<in> insert q N" "\<not> used (szf m1 q)" "q \<in> insert q X" using sp(8) plain_unused by auto
    obtain m2 L2 where m2: "OsMemFreeNodeAdd pool q m1 = Some m2" "heap pool sz (insert q N) L2 (insert q X - {q}) m2"
        "\<And>x. x \<in> insert ?en (insert q N) \<Longrightarrow> szf m2 x = szf m1 x \<and> prv m2 x = prv m1 x"
        "\<And>a. a \<notin> lists_area pool (free_nodes (insert q N) (szf m1)) \<Longrightarrow> m2 a = m1 a"
        "\<And>a. a \<notin> lists_area pool (free_nodes (insert q N) (szf m1) - (insert q X - {q})) \<Longrightarrow> m2 a = m1 a"
      by (rule heap_add [OF sp(1) n]) (rule that)
    show thesis
    proof (rule that)
      show "OsMemSplitNode pool p s m = Some m2" using code m2(1) True S1(3) by simp
      show "heap pool sz N' L2 X m2" using m2(2) True qN by (simp add: N'_def)
      show "szf m2 x = S' x" if "x \<in> insert ?en N'" for x
        using that m2(3) [of x] sp(2) [of x] True by (simp add: N'_def S'_def)
      show "m2 a = m a" if "a \<notin> ?A" for a
        using m2(4) [OF contra_subsetD [OF la1 that]] fr1 [OF that] by (rule trans)
      show "m2 a = m a" if a: "unat p + 8 \<le> unat a" "unat a < unat p + unat s" for a
      proof -
        have "m2 a = m1 a" by (rule m2(5) [OF bf(3) [OF a]]) (use p qN in auto)
        then show ?thesis using body1 [OF a] by simp
      qed
    qed
  next
    case False
    have rN: "r \<in> N" using sp(10) lay_ends(3) [OF l] False end_used by auto
    have n: "r \<in> insert q N" "\<not> used (szf m1 r)" "r \<notin> insert q X" using rN False S1 rq r by auto
    obtain L2 where m2: "heap pool sz (insert q N) L2 (insert r (insert q X)) (OsMemFreeNodeDelete pool r m1)"
        "\<And>x. x \<in> insert ?en (insert q N) \<Longrightarrow> szf (OsMemFreeNodeDelete pool r m1) x = szf m1 x \<and> prv (OsMemFreeNodeDelete pool r m1) x = prv m1 x"
        "\<And>a. a \<notin> lists_area pool (free_nodes (insert q N) (szf m1)) \<Longrightarrow> OsMemFreeNodeDelete pool r m1 a = m1 a"
        "\<And>a. a \<notin> lists_area pool (free_nodes (insert q N) (szf m1) - insert q X) \<Longrightarrow> OsMemFreeNodeDelete pool r m1 a = m1 a"
      by (rule heap_delete [OF sp(1) n]) (rule that)
    define m2 where "m2 = OsMemFreeNodeDelete pool r m1"
    note m2 = m2 [folded m2_def]
    have S2: "szf m2 q = szf m p - s" "szf m2 r = szf m r" "nx (szf m2) q = r"
      using m2(2) [of q] m2(2) [of r] S1 rN sp(7) by (simp_all add: nx_def)
    have plr: "plain (szf m r)" by (rule layD(8) [OF l rN False])
    define m3 where "m3 = OsMemMergeNode r m2"
    have q2: "q \<in> insert q N" "q \<in> insert r (insert q X)" "plain (szf m2 q)" using S2(1) sp(8) S1(1) by simp_all
    have r2: "nx (szf m2) q \<in> insert q N" "nx (szf m2) q \<in> insert r (insert q X)" "plain (szf m2 (nx (szf m2) q))"
      using S2 rN plr by simp_all
    note mg = heap_merge [OF m2(1) q2 r2, unfolded S2(3), folded m3_def]
    have N3: "insert q N - {r} = N'" "insert r (insert q X) - {r} = insert q X"
      using False rq r by (auto simp: N'_def)
    note mg = mg [unfolded N3]
    have S3: "szf m3 x = S' x" if "x \<in> insert ?en N'" for x
      using that mg(2) [of x] m2(2) [of x] sp(2) [of x] False S2 qN by (auto simp: N'_def S'_def)
    have fr3: "m3 a = m a" if "a \<notin> ?A" for a
    proof -
      have "nx (szf m2) r = nx (szf m) r" using S2 by (simp add: nx_def)
      then have "a \<noteq> sizeAndFlag q" "a \<noteq> node_ptr (nx (szf m2) r)"
        using that inside_fields(2) [OF l ins, of q] header_managed(1) [OF layD(6) [OF l rN]] by auto
      then have "m3 a = m2 a" using mg(3) by simp
      also have "m2 a = m1 a" by (rule m2(3) [OF contra_subsetD [OF la1 that]])
      finally show ?thesis using fr1 [OF that] by simp
    qed
    have free3: "x = q \<or> x \<in> N \<and> \<not> used (szf m x)" if "x \<in> free_nodes N' (szf m3)" for x
      using that S3 [of x] pN pu by (auto simp: N'_def S'_def split: if_splits)
    have la3: "lists_area pool (free_nodes N' (szf m3)) \<subseteq> ?A" by (rule la) (rule free3)
    have n3: "q \<in> N'" "\<not> used (szf m3 q)" "q \<in> insert q X" using mg(5) plain_unused by (auto simp: N'_def)
    obtain m4 L4 where m4: "OsMemFreeNodeAdd pool q m3 = Some m4" "heap pool sz N' L4 (insert q X - {q}) m4"
        "\<And>x. x \<in> insert ?en N' \<Longrightarrow> szf m4 x = szf m3 x \<and> prv m4 x = prv m3 x"
        "\<And>a. a \<notin> lists_area pool (free_nodes N' (szf m3)) \<Longrightarrow> m4 a = m3 a"
        "\<And>a. a \<notin> lists_area pool (free_nodes N' (szf m3) - (insert q X - {q})) \<Longrightarrow> m4 a = m3 a"
      by (rule heap_add [OF mg(1) n3]) (rule that)
    show thesis
    proof (rule that)
      show "OsMemSplitNode pool p s m = Some m4" using code m4(1) False S1(3) by (simp add: m2_def m3_def)
      show "heap pool sz N' L4 X m4" using m4(2) qN by simp
      show "szf m4 x = S' x" if "x \<in> insert ?en N'" for x using m4(3) [OF that] S3 [OF that] by simp
      show "m4 a = m a" if "a \<notin> ?A" for a
        using m4(4) [OF contra_subsetD [OF la3 that]] fr3 [OF that] by (rule trans)
      show "m4 a = m a" if a: "unat p + 8 \<le> unat a" "unat a < unat p + unat s" for a
      proof -
        have "m4 a = m3 a" by (rule m4(5) [OF bf(3) [OF a]]) (use p qN in \<open>auto simp: N'_def\<close>)
        moreover have "nx (szf m2) r \<in> insert ?en (insert q N)" by (rule layD(6) [OF heapD(2) [OF m2(1)]]) (use rN in simp)
        then have "m3 a = m2 a" using bf(2) [OF a] by (intro mg(3)) auto
        moreover have "m2 a = m1 a" by (rule m2(4) [OF bf(3) [OF a]]) (use p qN in auto)
        ultimately show ?thesis using body1 [OF a] by simp
      qed
    qed
  qed
qed

section \<open>The accounts\<close>

lemma heap_info:
  assumes h: "heap pool sz N L X m" and a: "info_addr pool a" "a \<noteq> info_totalSize pool"
  shows "heap pool sz N L X (m(a := v))" "x \<in> insert (end_node pool sz) N \<Longrightarrow> szf (m(a := v)) x = szf m x"
proof -
  have f: "szf (m(a := v)) x = szf m x \<and> prv (m(a := v)) x = prv m x" if "x \<in> insert (end_node pool sz) N" for x
    using info_not_header [OF a(1) node_beyond(1) [OF h that]] by auto
  then show "x \<in> insert (end_node pool sz) N \<Longrightarrow> szf (m(a := v)) x = szf m x" by simp
  have "a \<notin> lists_area pool (members L)"
    by (rule info_not_lists [OF a(1)]) (use heap_members(1) [OF h] node_beyond(1) [OF h] in auto)
  then show "heap pool sz N L X (m(a := v))"
    by (intro heap_frame [OF h]) (use f a in auto)
qed

text \<open>\<open>OsMemWaterUsedRecord\<close>.\<close>

lemma water_record:
  fixes v :: UINT32
  assumes h: "heap pool sz N L X m"
  defines "m' \<equiv> OsMemWaterUsedRecord pool v m"
  shows "heap pool sz N L X m'" "x \<in> insert (end_node pool sz) N \<Longrightarrow> szf m' x = szf m x"
    "m' (info_curUsedSize pool) = m (info_curUsedSize pool) + v"
    "m' (info_waterLine pool) = max (m (info_waterLine pool)) (m (info_curUsedSize pool) + v)"
    "a \<noteq> info_curUsedSize pool \<Longrightarrow> a \<noteq> info_waterLine pool \<Longrightarrow> m' a = m a"
proof -
  have ne: "info_curUsedSize pool \<noteq> info_waterLine pool" "info_curUsedSize pool \<noteq> info_totalSize pool"
      "info_waterLine pool \<noteq> info_totalSize pool"
    by (simp_all add: info_curUsedSize_def info_waterLine_def info_totalSize_def)
  define m1 where "m1 = m(info_curUsedSize pool := m (info_curUsedSize pool) + v)"
  have m': "m' = (if m (info_waterLine pool) < m (info_curUsedSize pool) + v
      then m1(info_waterLine pool := m (info_curUsedSize pool) + v) else m1)"
    using ne by (simp add: m'_def OsMemWaterUsedRecord_def Let_def m1_def)
  have h1: "heap pool sz N L X m1" "\<And>x. x \<in> insert (end_node pool sz) N \<Longrightarrow> szf m1 x = szf m x"
    unfolding m1_def using heap_info [OF h] ne by auto
  show "heap pool sz N L X m'" unfolding m' using heap_info(1) [OF h1(1)] h1 ne by simp
  show "x \<in> insert (end_node pool sz) N \<Longrightarrow> szf m' x = szf m x"
    unfolding m' using heap_info(2) [OF h1(1)] h1(2) ne by auto
  show "m' (info_curUsedSize pool) = m (info_curUsedSize pool) + v"
    "m' (info_waterLine pool) = max (m (info_waterLine pool)) (m (info_curUsedSize pool) + v)"
    "a \<noteq> info_curUsedSize pool \<Longrightarrow> a \<noteq> info_waterLine pool \<Longrightarrow> m' a = m a"
    using ne by (auto simp: m' m1_def max_def)
qed

section \<open>Allocation\<close>

definition separated :: "UINT32 set \<Rightarrow> (UINT32 \<Rightarrow> UINT32) \<Rightarrow> bool" where
  "separated N S \<longleftrightarrow> (\<forall>n\<in>N. used (S n) \<or> used (S (nx S n)))"

text \<open>A pool between two operations: every free block is in its list and no two of them are neighbours.\<close>

definition mem_ok :: "UINT32 \<Rightarrow> UINT32 \<Rightarrow> UINT32 set \<Rightarrow> (UINT32 \<Rightarrow> UINT32 list) \<Rightarrow> memory \<Rightarrow> bool" where
  "mem_ok pool sz N L m \<longleftrightarrow> heap pool sz N L {} m \<and> separated N (szf m)"

text \<open>The blocks after an allocation of \<open>s\<close> bytes in the free block \<open>n\<close>.\<close>

definition cut :: "(UINT32 \<Rightarrow> UINT32) \<Rightarrow> UINT32 \<Rightarrow> UINT32 \<Rightarrow> bool" where
  "cut S n s \<longleftrightarrow> s + 16 \<le> S n"

definition alloc_nodes :: "UINT32 set \<Rightarrow> (UINT32 \<Rightarrow> UINT32) \<Rightarrow> UINT32 \<Rightarrow> UINT32 \<Rightarrow> UINT32 set" where
  "alloc_nodes N S n s = (if cut S n s then insert (n + s) N else N)"

definition alloc_sizes :: "(UINT32 \<Rightarrow> UINT32) \<Rightarrow> UINT32 \<Rightarrow> UINT32 \<Rightarrow> UINT32 \<Rightarrow> UINT32" where
  "alloc_sizes S n s = (if cut S n s then S(n + s := S n - s, n := s OR OS_MEM_NODE_USED_FLAG)
     else S(n := S n OR OS_MEM_NODE_USED_FLAG))"

lemma cut_unat: "unat s < 2 ^ 29 \<Longrightarrow> cut S n s \<longleftrightarrow> unat s + 16 \<le> unat (S n)"
  by (simp add: cut_def word_le_nat_alt unat_word_ariths(1))

lemma alloc_separated:
  assumes l: "lay fn en N S P" and sep: "separated N S" and n: "n \<in> N" "\<not> used (S n)"
    and s: "16 \<le> unat s" "unat s < 2 ^ 29" "4 dvd unat s" "s \<le> S n"
  shows "separated (alloc_nodes N S n s) (alloc_sizes S n s)"
proof -
  have pl: "plain (S n)" by (rule layD(8) [OF l n])
  have us: "used (alloc_sizes S n s n)" by (simp add: alloc_sizes_def)
  have r: "used (S (nx S n))" using sep n by (auto simp: separated_def)
  show ?thesis
  proof (cases "cut S n s")
    case False
    have "nx (alloc_sizes S n s) x = nx S x" for x using False by (simp add: nx_def alloc_sizes_def)
    then show ?thesis using sep False n by (auto simp: separated_def alloc_sizes_def alloc_nodes_def)
  next
    case True
    then have c: "unat s + 16 \<le> unat (S n)" using cut_unat [OF s(2)] by simp
    note sp = lay_split [OF l n(1) pl s(1,3) c]
    let ?q = "n + s" and ?S = "alloc_sizes S n s"
    have q: "?q \<notin> insert en N" "?q \<noteq> n" using sp(2) n by auto
    have rN: "nx S n \<in> insert en N" by (rule layD(6) [OF l n(1)])
    have "nx S n \<noteq> n" using nx_unat [OF l n(1)] layD(3) [OF l n(1)] by auto
    then have rest: "nx ?S ?q = nx S n" "used (?S (nx S n))"
      using sp(5) True q r rN by (auto simp: alloc_sizes_def nx_def)
    have other: "used (?S x) \<or> used (?S (nx ?S x))" if x: "x \<in> N" "x \<noteq> n" for x
    proof -
      have xq: "x \<noteq> ?q" using q x by auto
      then have e: "?S x = S x" "nx ?S x = nx S x" using x True by (simp_all add: alloc_sizes_def nx_def)
      have "nx S x \<noteq> ?q" using layD(6) [OF l x(1)] q by auto
      then have "used (S (nx S x)) \<Longrightarrow> used (?S (nx S x))" using us True by (simp add: alloc_sizes_def)
      then show ?thesis using sep x e by (auto simp: separated_def)
    qed
    show ?thesis using other rest us True by (auto simp: separated_def alloc_nodes_def)
  qed
qed

lemma align_4: "unat (w AND NOT 3 :: UINT32) = 4 * (unat w div 4)"
proof -
  have "(3 :: UINT32) = mask 2" by (simp add: mask_eq_exp_minus_1)
  then have "w AND NOT 3 = push_bit 2 (drop_bit 2 w)"
    by (simp only: \<open>3 = mask 2\<close>) (rule bit_eqI, auto simp: bit_push_bit_iff bit_drop_bit_eq bit_and_iff bit_not_iff bit_mask_iff simp del: add_2_eq_Suc)
  moreover have "unat (drop_bit 2 w) * 4 < 2 ^ 32"
    using unsigned_less [where w = w and 'a = nat] by (simp only: unat_drop) (simp add: div_less_iff_less_mult)
  ultimately show ?thesis by (simp add: push_bit_eq_mult unat_word_ariths(2) unat_drop del: drop_bit_eq_div)
qed

definition block_bytes :: "nat \<Rightarrow> nat" where "block_bytes n = 4 * ((n + 11) div 4)"

lemma block_bytes: "n + 8 \<le> block_bytes n" "block_bytes n \<le> n + 11" "4 dvd block_bytes n"
  by (simp_all add: block_bytes_def)

lemma OS_MEM_ALIGN_size:
  assumes "unat sz + 12 \<le> 2 ^ 29"
  shows "unat (OS_MEM_ALIGN (sz + OS_MEM_NODE_HEAD_SIZE) OS_MEM_ALIGN_SIZE) = block_bytes (unat sz)"
proof -
  have "sz + OS_MEM_NODE_HEAD_SIZE + OS_MEM_ALIGN_SIZE - 1 = sz + 11"
    by (simp add: OS_MEM_NODE_HEAD_SIZE_def OS_MEM_ALIGN_SIZE_def)
  then have "OS_MEM_ALIGN (sz + OS_MEM_NODE_HEAD_SIZE) OS_MEM_ALIGN_SIZE = (sz + 11) AND NOT 3"
    by (simp only: OS_MEM_ALIGN_def) (simp add: OS_MEM_ALIGN_SIZE_def)
  moreover have "unat (sz + 11) = unat sz + 11" using assms by (simp add: unat_word_ariths(1))
  ultimately show ?thesis using align_4 [of "sz + 11"] by (simp add: block_bytes_def)
qed

lemma lists_area_free:
  assumes h: "heap pool sz N L X m"
  shows "lists_area pool (free_nodes N (szf m)) \<subseteq> managed pool (end_node pool sz) N (szf m)"
  by (rule lists_managed [OF heapD(2) [OF h]]) (auto intro: free_inside [OF heapD(2) [OF h]])

lemma OsMemAlloc:
  assumes ok: "mem_ok pool sz N L m" and req: "8 \<le> unat req" "unat req + 12 \<le> 2 ^ 29"
  defines "s \<equiv> OS_MEM_ALIGN (req + OS_MEM_NODE_HEAD_SIZE) OS_MEM_ALIGN_SIZE"
  obtains "OsMemAlloc pool req m = Some (0, m)" "\<forall>n\<in>free_nodes N (szf m). szf m n < s"
  | n m' L' where "OsMemAlloc pool req m = Some (n + 8, m')" "n \<in> N" "\<not> used (szf m n)" "s \<le> szf m n"
    "mem_ok pool sz (alloc_nodes N (szf m) n s) L' m'"
    "\<And>x. x \<in> insert (end_node pool sz) (alloc_nodes N (szf m) n s) \<Longrightarrow> szf m' x = alloc_sizes (szf m) n s x"
    "\<And>a. a \<notin> managed pool (end_node pool sz) N (szf m) \<Longrightarrow> a \<noteq> info_curUsedSize pool \<Longrightarrow>
      a \<noteq> info_waterLine pool \<Longrightarrow> m' a = m a"
    "m' (info_curUsedSize pool) = m (info_curUsedSize pool) + OS_MEM_NODE_GET_SIZE (szf m' n)"
    "m' (info_waterLine pool) = max (m (info_waterLine pool)) (m (info_curUsedSize pool) + OS_MEM_NODE_GET_SIZE (szf m' n))"
    "\<And>j. j < 223 \<Longrightarrow> first_class s \<le> unat j \<Longrightarrow> unat j < cls (szf m n) \<Longrightarrow> L j = []"
proof -
  let ?en = "end_node pool sz" and ?A = "managed pool (end_node pool sz) N (szf m)"
  have h: "heap pool sz N L {} m" and sep: "separated N (szf m)" using ok by (simp_all add: mem_ok_def)
  note l = heapD(2) [OF h]
  have us: "unat s = block_bytes (unat req)" unfolding s_def by (rule OS_MEM_ALIGN_size [OF req(2)])
  have s: "16 \<le> unat s" "unat s < 2 ^ 29" "4 dvd unat s" "4 \<le> unat s"
    using block_bytes [of "unat req"] req us by (auto simp: us)
  have s0: "s \<noteq> 0" using s(1) by auto
  obtain n i where f: "OsMemFindNextSuitableBlock pool s m = Some (n, i)"
      "n = 0 \<Longrightarrow> (\<forall>x\<in>members L. szf m x < s)"
      "n \<noteq> 0 \<Longrightarrow> i < 223 \<and> n \<in> set (L i) \<and> s \<le> szf m n"
      "n \<noteq> 0 \<Longrightarrow> \<forall>j<223. first_class s \<le> unat j \<and> unat j < unat i \<longrightarrow> L j = []"
    by (rule FindNextSuitableBlock [OF heapD(3,4) [OF h] s(4,2,3)]) (rule that)
  show thesis
  proof (cases "n = 0")
    case True
    show thesis
    proof (rule that(1))
      show "OsMemAlloc pool req m = Some (0, m)"
        using f(1) True s0 by (simp add: OsMemAlloc_def Let_def s_def [symmetric] OsMemFreeNodeGet_def)
      show "\<forall>n\<in>free_nodes N (szf m). szf m n < s" using f(2) True heapD(5) [OF h] by simp
    qed
  next
    case False
    then have i: "i < 223" "n \<in> set (L i)" "s \<le> szf m n" using f(3) by auto
    have "n \<in> members L" using in_members [where L = L, OF i(1,2)] .
    then have n: "n \<in> N" "\<not> used (szf m n)" using heap_members [OF h] by auto
    have pl: "plain (szf m n)" by (rule layD(8) [OF l n])
    have ic: "unat i = cls (szf m n)" using heapD(4) [OF h] i by (auto simp: classes_ok_def)
    define m1 where "m1 = OsMemListDelete pool i n m"
    obtain L1 where h1: "heap pool sz N L1 {n} m1" and s1: "\<And>x. x \<in> insert ?en N \<Longrightarrow> szf m1 x = szf m x"
        and fr1: "\<And>a. a \<notin> ?A \<Longrightarrow> m1 a = m a"
      using heap_list_delete [OF h i(1,2), folded m1_def] lists_area_free [OF h] by blast
    have A1: "managed pool ?en N (szf m1) = ?A" using s1 by (auto simp: managed_def)
    have c: "cut (szf m1) n s = cut (szf m) n s" using s1 n by (simp add: cut_def)
    let ?N = "alloc_nodes N (szf m) n s"
    let ?S = "if cut (szf m) n s then (szf m)(n + s := szf m n - s, n := s) else szf m"
    obtain m2 L2 where m2: "(if s + OS_MEM_MIN_LEFT_SIZE \<le> szf m1 n then OsMemSplitNode pool n s m1 else Some m1) = Some m2"
        "heap pool sz ?N L2 {n} m2" "\<And>x. x \<in> insert ?en ?N \<Longrightarrow> szf m2 x = ?S x" "\<And>a. a \<notin> ?A \<Longrightarrow> m2 a = m1 a"
    proof (cases "cut (szf m) n s")
      case False
      then show thesis
        using that [of m1 L1] h1 s1 c by (simp add: cut_def OS_MEM_MIN_LEFT_SIZE_def alloc_nodes_def)
    next
      case True
      have nx1: "nx (szf m1) n = nx (szf m) n" using s1 n by (simp add: nx_def)
      have nN: "nx (szf m) n \<in> insert ?en N" by (rule layD(6) [OF l n(1)])
      have "nx (szf m) n \<noteq> n" using nx_unat [OF l n(1)] layD(3) [OF l n(1)] by auto
      then have pre: "{n} \<subseteq> N" "n \<in> {n}" "plain (szf m1 n)" "unat s + 16 \<le> unat (szf m1 n)" "nx (szf m1) n \<notin> {n}"
        using n s1 pl True cut_unat [OF s(2)] nx1 by auto
      have u: "used (szf m1 (nx (szf m1) n))" using sep n nx1 s1 [OF nN] by (auto simp: separated_def)
      obtain m2 L2 where sn: "OsMemSplitNode pool n s m1 = Some m2"
          "heap pool sz (insert (n + s) (if used (szf m1 (nx (szf m1) n)) then N else N - {nx (szf m1) n})) L2 {n} m2"
          "\<And>x. x \<in> insert ?en (insert (n + s) (if used (szf m1 (nx (szf m1) n)) then N else N - {nx (szf m1) n})) \<Longrightarrow>
            szf m2 x = ((szf m1)(n + s := (if used (szf m1 (nx (szf m1) n)) then szf m1 n - s
              else szf m1 n - s + szf m1 (nx (szf m1) n)), n := s)) x"
          "\<And>a. a \<notin> managed pool ?en N (szf m1) \<Longrightarrow> m2 a = m1 a"
        by (rule OsMemSplitNode [OF h1 pre(1-3) s(1,3) pre(4,5)]) (rule that)
      note sn = sn [unfolded if_P [OF u] A1]
      show thesis
      proof (rule that)
        show "(if s + OS_MEM_MIN_LEFT_SIZE \<le> szf m1 n then OsMemSplitNode pool n s m1 else Some m1) = Some m2"
          using sn(1) True c by (simp add: cut_def OS_MEM_MIN_LEFT_SIZE_def)
        show "heap pool sz ?N L2 {n} m2" using sn(2) True by (simp add: alloc_nodes_def)
        show "szf m2 x = ?S x" if x: "x \<in> insert ?en ?N" for x
        proof -
          have "szf m2 x = ((szf m1)(n + s := szf m1 n - s, n := s)) x" using sn(3) x True by (simp add: alloc_nodes_def)
          moreover have "x = n + s \<or> szf m1 x = szf m x" using s1 x True by (auto simp: alloc_nodes_def)
          ultimately show ?thesis using True s1 n by auto
        qed
        show "m2 a = m1 a" if "a \<notin> ?A" for a using sn(4) that by simp
      qed
    qed
    have nN': "n \<in> ?N" using n by (simp add: alloc_nodes_def)
    define m3 where "m3 = OS_MEM_NODE_SET_USED_FLAG n m2"
    have m3: "m3 = m2(sizeAndFlag n := szf m2 n OR OS_MEM_NODE_USED_FLAG)"
      by (simp add: m3_def OS_MEM_NODE_SET_USED_FLAG_def)
    have nm2: "n \<notin> members L2" using heapD(5) [OF m2(2)] by simp
    note fl = heap_flag [OF m2(2) nN' nm2, where w = "szf m2 n OR OS_MEM_NODE_USED_FLAG", folded m3]
    have h3: "heap pool sz ?N L2 {} m3" using fl(1) by simp
    have s3: "szf m3 x = alloc_sizes (szf m) n s x" if "x \<in> insert ?en ?N" for x
      using fl(2) [OF _ _ that] m2(3) [OF that] m2(3) [of n] nN' by (simp add: alloc_sizes_def)
    define m4 where "m4 = OsMemWaterUsedRecord pool (OS_MEM_NODE_GET_SIZE (szf m3 n)) m3"
    note w = water_record [OF h3, where v = "OS_MEM_NODE_GET_SIZE (szf m3 n)", folded m4_def]
    have s4: "szf m4 x = alloc_sizes (szf m) n s x" if "x \<in> insert ?en ?N" for x
      using w(2) [OF that] s3 [OF that] by simp
    have fr3: "m3 a = m a" if "a \<notin> ?A" for a
    proof -
      have "a \<noteq> sizeAndFlag n" using header_managed(2) [of n ?en N pool "szf m"] that n by auto
      then show ?thesis using m2(4) [OF that] fr1 [OF that] by (simp add: m3)
    qed
    have acc: "m3 (info_curUsedSize pool) = m (info_curUsedSize pool)" "m3 (info_waterLine pool) = m (info_waterLine pool)"
      by (rule fr3 [OF info_not_managed [OF h]], simp)+
    have n4: "szf m4 n = szf m3 n" using w(2) [of n] nN' by simp
    show thesis
    proof (rule that(2))
      show "OsMemAlloc pool req m = Some (n + 8, m4)"
      proof -
        have g: "OsMemFreeNodeGet pool s m = Some (n, m1)"
          using f(1) False by (simp add: OsMemFreeNodeGet_def m1_def)
        have "OsMemCreateUsedNode n = n + 8" by (simp add: OsMemCreateUsedNode_def OS_MEM_NODE_HEAD_SIZE_def)
        then show ?thesis
          unfolding OsMemAlloc_def Let_def s_def [symmetric]
          using False s0 by (simp add: g m2(1) m3_def [symmetric] m4_def [symmetric])
      qed
      have "separated ?N (alloc_sizes (szf m) n s)"
        by (rule alloc_separated [OF l sep n s(1,2,3) i(3)])
      moreover have "nx (szf m4) x = nx (alloc_sizes (szf m) n s) x" if "x \<in> ?N" for x using s4 that by (simp add: nx_def)
      moreover have "nx (szf m4) x \<in> insert ?en ?N" if "x \<in> ?N" for x by (rule layD(6) [OF heapD(2) [OF w(1)] that])
      ultimately have "separated ?N (szf m4)" using s4 unfolding separated_def by (metis insertCI)
      then show "mem_ok pool sz ?N L2 m4" using w(1) by (simp add: mem_ok_def)
      show "m4 a = m a" if "a \<notin> ?A" "a \<noteq> info_curUsedSize pool" "a \<noteq> info_waterLine pool" for a
        using w(5) [OF that(2,3)] fr3 [OF that(1)] by simp
      show "m4 (info_curUsedSize pool) = m (info_curUsedSize pool) + OS_MEM_NODE_GET_SIZE (szf m4 n)"
        "m4 (info_waterLine pool) = max (m (info_waterLine pool)) (m (info_curUsedSize pool) + OS_MEM_NODE_GET_SIZE (szf m4 n))"
        using w(3,4) acc n4 by simp_all
      show "L j = []" if "j < 223" "first_class s \<le> unat j" "unat j < cls (szf m n)" for j
        using f(4) [OF False] that ic by simp
    qed (use n i s4 in auto)
  qed
qed

end
