(* ===== verification/Mem_Free.thy ===== *)
theory Mem_Free
  imports Mem_Ops
begin

text \<open>
  The release of a block: the check of the block, the join to its free neighbours, and the invariant
  after it.
\<close>

section \<open>The joins\<close>

lemma merge_managed:
  assumes l: "lay fn en N S P" and p: "p \<in> N" "plain (S p)" and q: "nx S p \<in> N" "plain (S (nx S p))"
    and new: "\<And>x. x \<in> N \<Longrightarrow> S' x = (S(p := S p + S (nx S p))) x"
  shows "managed pool en (N - {nx S p}) S' \<subseteq> managed pool en N S"
proof
  let ?q = "nx S p"
  fix a assume a: "a \<in> managed pool en (N - {?q}) S'"
  note mg = lay_merge [OF l p q]
  have u: "\<not> used (S p)" "\<not> used (S ?q)" using p q plain_unused by simp_all
  have bs: "bsize (S p + S ?q) = bsize (S p) + bsize (S ?q)" "unat ?q = unat p + bsize (S p)"
    using mg(3,4) plain_size p q nx_unat [OF l p(1)] by simp_all
  have "a \<in> managed pool en N S"
    if x: "x \<in> N" "\<not> used (S' x)" "unat x \<le> unat a" "unat a < unat x + bsize (S' x)" for x
  proof (cases "x = p")
    case False
    then show ?thesis using x new [OF x(1)] unfolding managed_def by auto
  next
    case True
    then have "unat p \<le> unat a" "unat a < unat p + bsize (S p) \<or> unat ?q \<le> unat a \<and> unat a < unat ?q + bsize (S ?q)"
      using x new [OF p(1)] bs by auto
    then show ?thesis using p(1) q(1) u unfolding managed_def by blast
  qed
  then show "a \<in> managed pool en N S" using a unfolding managed_def by blast
qed

lemma join_next:
  assumes h: "heap pool sz N L {b} m" and b: "b \<in> N" "plain (szf m b)"
  defines "r \<equiv> nx (szf m) b"
  defines "m' \<equiv> (if r \<noteq> 0 \<and> \<not> used (szf m r) then OsMemMergeNode r (OsMemFreeNodeDelete pool r m) else m)"
  defines "N' \<equiv> (if used (szf m r) then N else N - {r})"
  obtains L' where "heap pool sz N' L' {b} m'" "r \<in> insert (end_node pool sz) N" "r \<noteq> b"
    "\<And>x. x \<in> insert (end_node pool sz) N \<Longrightarrow>
      szf m' x = ((szf m)(b := if used (szf m r) then szf m b else szf m b + szf m r)) x"
    "\<And>a. a \<notin> managed pool (end_node pool sz) N (szf m) \<Longrightarrow> m' a = m a" "plain (szf m' b)" "b \<in> N'"
    "\<And>a. a \<in> user_area (szf m) b \<Longrightarrow> m' a = m a"
    "\<And>x. beyond pool x \<Longrightarrow> x \<noteq> b \<Longrightarrow> \<forall>y\<in>insert (end_node pool sz) N. far x y \<Longrightarrow> szf m' x = szf m x"
    "managed pool (end_node pool sz) N' (szf m') \<subseteq> managed pool (end_node pool sz) N (szf m)"
proof -
  let ?en = "end_node pool sz" and ?A = "managed pool (end_node pool sz) N (szf m)"
  note l = heapD(2) [OF h]
  have rN: "r \<in> insert ?en N" unfolding r_def by (rule layD(6) [OF l b(1)])
  have rb: "r \<noteq> b" unfolding r_def using nx_unat [OF l b(1)] layD(3) [OF l b(1)] by auto
  show thesis
  proof (cases "used (szf m r)")
    case True
    then show thesis using that [of L] h rN rb b by (simp add: m'_def N'_def)
  next
    case False
    have rn: "r \<in> N" using rN False lay_ends(3) [OF l] end_used by auto
    have r0: "r \<noteq> 0" using node_beyond(2) [OF h rN] .
    have n: "r \<in> N" "\<not> used (szf m r)" "r \<notin> {b}" using rn False rb by auto
    define m2 where "m2 = OsMemFreeNodeDelete pool r m"
    obtain L2 where m2: "heap pool sz N L2 (insert r {b}) m2"
        "\<And>x. x \<in> insert ?en N \<Longrightarrow> szf m2 x = szf m x \<and> prv m2 x = prv m x"
        "\<And>a. a \<notin> lists_area pool (free_nodes N (szf m)) \<Longrightarrow> m2 a = m a"
        "\<And>a. a \<notin> lists_area pool (free_nodes N (szf m) - {b}) \<Longrightarrow> m2 a = m a"
      by (rule heap_delete [OF h n, folded m2_def]) (rule that)
    have S2: "szf m2 b = szf m b" "szf m2 r = szf m r" "nx (szf m2) b = r" "nx (szf m2) r = nx (szf m) r"
      using m2(2) b(1) rn by (simp_all add: nx_def r_def)
    have p: "b \<in> N" "b \<in> insert r {b}" "plain (szf m2 b)" using S2 b by simp_all
    have q: "nx (szf m2) b \<in> N" "nx (szf m2) b \<in> insert r {b}" "plain (szf m2 (nx (szf m2) b))"
      using S2 rn layD(8) [OF l rn False] by simp_all
    have m': "m' = OsMemMergeNode r m2" using False r0 by (simp add: m'_def m2_def)
    note mg = heap_merge [OF m2(1) p q, unfolded S2(3), folded m']
    have X: "insert r {b} - {r} = {b}" using rb by auto
    show thesis
    proof (rule that)
      show "heap pool sz N' L2 {b} m'" using mg(1) False by (simp add: N'_def X)
      show "szf m' x = ((szf m)(b := if used (szf m r) then szf m b else szf m b + szf m r)) x" if "x \<in> insert ?en N" for x
        using mg(2) [OF that] m2(2) [OF that] S2 False by simp
      show "m' a = m a" if "a \<notin> ?A" for a
      proof -
        have "a \<noteq> sizeAndFlag b" "a \<noteq> node_ptr (nx (szf m2) r)"
          using that header_managed(2) [of b ?en N] header_managed(1) [OF layD(6) [OF l rn]] b S2 by auto
        then have "m' a = m2 a" by (rule mg(3))
        also have "m2 a = m a" by (rule m2(3) [OF contra_subsetD [OF lists_area_free [OF h] that]])
        finally show ?thesis .
      qed
      show "m' a = m a" if a: "a \<in> user_area (szf m) b" for a
      proof -
        note bf = body_not_fields [OF h b(1) a]
        have "m' a = m2 a" using bf(2) layD(6) [OF l rn] b(1) S2(4) by (intro mg(3)) auto
        also have "m2 a = m a" by (rule m2(4) [OF bf(3)]) auto
        finally show ?thesis .
      qed
      show "szf m' x = szf m x" if x: "beyond pool x" "x \<noteq> b" "\<forall>y\<in>insert ?en N. far x y" for x
      proof -
        have "szf m' x = szf m2 x"
          by (rule mg(3)) (use x b layD(6) [OF l rn] S2(4) in auto)
        also have "\<dots> = szf m x" by (rule m2(3)) (use x in \<open>intro header_not_lists; simp\<close>)
        finally show ?thesis .
      qed
      have "managed pool ?en (N - {nx (szf m) b}) (szf m') \<subseteq> ?A"
        by (rule merge_managed [OF l b]) (use mg(2) m2(2) S2 rn layD(8) [OF l rn False] in \<open>simp_all add: r_def [symmetric]\<close>)
      then show "managed pool ?en N' (szf m') \<subseteq> ?A" using False by (simp add: N'_def r_def)
    qed (use rN rb mg(5) b in \<open>auto simp: N'_def\<close>)
  qed
qed

lemma join_prev:
  assumes h: "heap pool sz N L {n} m" and n: "n \<in> N" "plain (szf m n)"
  defines "p \<equiv> prv m n"
  defines "b \<equiv> (if used (szf m p) then n else p)"
  defines "m' \<equiv> (if used (szf m p) then m else OsMemMergeNode n (OsMemFreeNodeDelete pool p m))"
  defines "N' \<equiv> (if used (szf m p) then N else N - {n})"
  obtains L' where "heap pool sz N' L' {b} m'" "b \<in> N'" "plain (szf m' b)" "nx (szf m') b = nx (szf m) n"
    "\<And>x. x \<in> insert (end_node pool sz) N \<Longrightarrow>
      szf m' x = ((szf m)(b := if used (szf m p) then szf m n else szf m p + szf m n)) x"
    "\<And>a. a \<notin> managed pool (end_node pool sz) N (szf m) \<Longrightarrow> m' a = m a"
    "\<not> used (szf m p) \<Longrightarrow> p \<in> N \<and> nx (szf m) p = n \<and> p \<noteq> n" "p \<noteq> 0"
    "managed pool (end_node pool sz) N' (szf m') \<subseteq> managed pool (end_node pool sz) N (szf m)"
proof -
  let ?en = "end_node pool sz" and ?A = "managed pool (end_node pool sz) N (szf m)"
  note l = heapD(2) [OF h]
  have p: "p \<in> N \<and> nx (szf m) p = n" if "\<not> used (szf m p)"
  proof -
    have "n \<noteq> OS_MEM_FIRST_NODE pool" using that lay_ends(2,3) [OF l] end_used by (auto simp: p_def)
    then show ?thesis using lay_pred [OF l n(1)] by (simp add: p_def)
  qed
  have p0: "p \<noteq> 0"
  proof (cases "n = OS_MEM_FIRST_NODE pool")
    case True
    then show ?thesis using lay_ends(2) [OF l] node_beyond(2) [OF h, of ?en] by (simp add: p_def)
  next
    case False
    then show ?thesis using lay_pred(1) [OF l n(1)] node_beyond(2) [OF h] by (simp add: p_def)
  qed
  show thesis
  proof (cases "used (szf m p)")
    case True
    then show thesis using that [of L] h n p0 by (simp add: m'_def N'_def b_def)
  next
    case False
    have pN: "p \<in> N" "nx (szf m) p = n" using p False by auto
    have pn: "p \<noteq> n" using nx_unat [OF l pN(1)] layD(3) [OF l pN(1)] pN(2) by auto
    have d: "p \<in> N" "\<not> used (szf m p)" "p \<notin> {n}" using pN False pn by auto
    define m2 where "m2 = OsMemFreeNodeDelete pool p m"
    obtain L2 where m2: "heap pool sz N L2 (insert p {n}) m2"
        "\<And>x. x \<in> insert ?en N \<Longrightarrow> szf m2 x = szf m x \<and> prv m2 x = prv m x"
        "\<And>a. a \<notin> lists_area pool (free_nodes N (szf m)) \<Longrightarrow> m2 a = m a"
      by (rule heap_delete [OF h d, folded m2_def]) (rule that)
    have S2: "szf m2 p = szf m p" "szf m2 n = szf m n" "nx (szf m2) p = n" "nx (szf m2) n = nx (szf m) n"
      using m2(2) pN n by (simp_all add: nx_def)
    have pp: "p \<in> N" "p \<in> insert p {n}" "plain (szf m2 p)" using S2 layD(8) [OF l d(1,2)] d by simp_all
    have q: "nx (szf m2) p \<in> N" "nx (szf m2) p \<in> insert p {n}" "plain (szf m2 (nx (szf m2) p))"
      using S2 n by simp_all
    have m': "m' = OsMemMergeNode n m2" using False by (simp add: m'_def m2_def)
    note mg = heap_merge [OF m2(1) pp q, unfolded S2(3), folded m']
    have X: "insert p {n} - {n} = {p}" using pn by auto
    show thesis
    proof (rule that)
      show "heap pool sz N' L2 {b} m'" using mg(1) False by (simp add: N'_def X b_def)
      show "szf m' x = ((szf m)(b := if used (szf m p) then szf m n else szf m p + szf m n)) x" if "x \<in> insert ?en N" for x
        using mg(2) [OF that] m2(2) [OF that] S2 False by (simp add: b_def)
      show "m' a = m a" if "a \<notin> ?A" for a
      proof -
        have "a \<noteq> sizeAndFlag p" "a \<noteq> node_ptr (nx (szf m2) n)"
          using that header_managed(2) [of p ?en N] header_managed(1) [OF layD(6) [OF l n(1)]] pN S2 by auto
        then have "m' a = m2 a" by (rule mg(3))
        also have "m2 a = m a" by (rule m2(3) [OF contra_subsetD [OF lists_area_free [OF h] that]])
        finally show ?thesis .
      qed
      show "nx (szf m') b = nx (szf m) n" using mg(4) S2 False by (simp add: b_def)
      have "managed pool ?en (N - {nx (szf m) p}) (szf m') \<subseteq> ?A"
        by (rule merge_managed [OF l d(1) layD(8) [OF l d(1,2)]]) (use mg(2) m2(2) S2 n pN in simp_all)
      then show "managed pool ?en N' (szf m') \<subseteq> ?A" using False pN by (simp add: N'_def)
    qed (use False pN pn p0 mg(5) in \<open>auto simp: N'_def b_def\<close>)
  qed
qed

section \<open>The check of a block\<close>

lemma addr_valid:
  assumes h: "heap pool sz N L X m" and x: "x \<in> insert (end_node pool sz) N"
  shows "OsMemAddrValidCheck pool x m" "OS_MEM_MIDDLE_ADDR (OS_MEM_FIRST_NODE pool) x (end_node pool sz)"
proof -
  note l = heapD(2) [OF h] and e = geom_ends [OF heapD(1) [OF h]]
  have g: "968 \<le> unat sz" "unat pool + unat sz + 8 \<le> 4294967296" using heapD(1) [OF h] by (simp_all add: geom_def)
  have b: "unat (OS_MEM_FIRST_NODE pool) \<le> unat x" "unat x \<le> unat (end_node pool sz)"
    using x layD(1,5) [OF l, of x] e g by auto
  show "OS_MEM_MIDDLE_ADDR (OS_MEM_FIRST_NODE pool) x (end_node pool sz)"
    using b by (simp add: OS_MEM_MIDDLE_ADDR_def word_le_nat_alt)
  have "unat (pool + sz) = unat pool + unat sz" using g by (simp add: unat_word_ariths(1))
  then have "unat x < unat (pool + sz)" using b e g by linarith
  moreover have "pool + sizeof_OsMemPoolHead = OS_MEM_FIRST_NODE pool" by (simp add: OS_MEM_FIRST_NODE_def)
  ultimately show "OsMemAddrValidCheck pool x m"
    using b heapD(6) [OF h]
    by (simp add: OsMemAddrValidCheck_def OS_MEM_MIDDLE_ADDR_OPEN_END_def word_le_nat_alt word_less_nat_alt)
qed

lemma node_valid:
  assumes h: "heap pool sz N L X m" and x: "x \<in> insert (end_node pool sz) N"
  shows "OsMemIsNodeValid x (OS_MEM_FIRST_NODE pool) (end_node pool sz) pool m"
proof -
  have "used (szf m x) \<or> prv m x \<in> insert (end_node pool sz) N"
  proof (cases "x \<in> N")
    case True
    then show ?thesis
      using lay_pred(1) [OF heapD(2) [OF h] True] lay_ends(2) [OF heapD(2) [OF h]]
      by (cases "x = OS_MEM_FIRST_NODE pool") auto
  next
    case False
    then show ?thesis using x lay_ends(3) [OF heapD(2) [OF h]] end_used by simp
  qed
  then show ?thesis
    using addr_valid(2) [OF h x] addr_valid(1) [OF h, of "prv m x"] unfolding OsMemIsNodeValid_def by blast
qed

lemma check_node:
  assumes h: "heap pool sz N L X m" and n: "n \<in> N"
  shows "OsMemCheckUsedNode pool n m = (if used (szf m n) then LOS_OK else LOS_NOK)"
proof -
  note l = heapD(2) [OF h]
  have nn: "OS_MEM_NEXT_NODE x m = nx (szf m) x" for x by (simp add: OS_MEM_NEXT_NODE_def nx_def)
  have "n = OS_MEM_FIRST_NODE pool \<or> prv m n \<in> N \<and> nx (szf m) (prv m n) = n" using lay_pred [OF l n] by blast
  then show ?thesis
    using node_valid [OF h, of n] node_valid [OF h layD(6) [OF l n]] node_valid [OF h, of "prv m n"] n layD(7) [OF l n]
    by (auto simp: OsMemCheckUsedNode_def Let_def heapD(6) [OF h] nn)
qed

section \<open>Release\<close>

text \<open>The block \<open>n\<close> and its free neighbours become one.\<close>

definition joined :: "(UINT32 \<Rightarrow> UINT32) \<Rightarrow> (UINT32 \<Rightarrow> UINT32) \<Rightarrow> UINT32 \<Rightarrow> UINT32" where
  "joined S P n = (if used (S (P n)) then n else P n)"

definition free_blocks_nodes :: "UINT32 set \<Rightarrow> (UINT32 \<Rightarrow> UINT32) \<Rightarrow> (UINT32 \<Rightarrow> UINT32) \<Rightarrow> UINT32 \<Rightarrow> UINT32 set" where
  "free_blocks_nodes N S P n =
    N - (if used (S (P n)) then {} else {n}) - (if used (S (nx S n)) then {} else {nx S n})"

definition free_sizes :: "(UINT32 \<Rightarrow> UINT32) \<Rightarrow> (UINT32 \<Rightarrow> UINT32) \<Rightarrow> UINT32 \<Rightarrow> UINT32 \<Rightarrow> UINT32" where
  "free_sizes S P n = S(joined S P n := (if used (S (P n)) then 0 else S (P n)) + OS_MEM_NODE_GET_SIZE (S n) +
    (if used (S (nx S n)) then 0 else S (nx S n)))"

lemma free_separated:
  assumes l: "lay fn en N S P" and sep: "separated N S" and n: "n \<in> N" "used (S n)"
  shows "separated (free_blocks_nodes N S P n) (free_sizes S P n)"
proof -
  let ?b = "joined S P n" and ?r = "nx S n" and ?S = "free_sizes S P n" and ?N = "free_blocks_nodes N S P n"
  have pred: "P n \<in> N \<and> nx S (P n) = n" if "\<not> used (S (P n))"
    using that lay_pred [OF l n(1)] lay_ends(2,3) [OF l] end_used by metis
  have up: "unat (nx S x) = unat x + bsize (S x)" "16 \<le> bsize (S x)" if "x \<in> N" for x
    using nx_unat [OF l that] layD(3) [OF l that] by simp_all
  have rn: "?r \<noteq> n" using up [OF n(1)] by auto
  show ?thesis
    unfolding separated_def
  proof
    fix x assume x: "x \<in> ?N"
    have xN: "x \<in> N" using x by (auto simp: free_blocks_nodes_def)
    show "used (?S x) \<or> used (?S (nx ?S x))"
    proof (cases "x = ?b")
      case False
      then have e: "?S x = S x" "nx ?S x = nx S x" by (simp_all add: free_sizes_def nx_def)
      have "used (S x) \<or> used (S (nx S x))" using sep xN by (simp add: separated_def)
      moreover have "nx S x \<noteq> ?b" if u: "used (S (nx S x))" "\<not> used (S x)"
      proof
        assume y: "nx S x = ?b"
        then have "used (S (P n))" "?b = n" using u(1) by (auto simp: joined_def split: if_splits)
        then have "P n = x" using y layD(7) [OF l xN] by simp
        then show False using u(2) \<open>used (S (P n))\<close> by simp
      qed
      ultimately show ?thesis unfolding e by (auto simp: free_sizes_def)
    next
      case True
      have bN: "?b \<in> N" using True xN by simp
      define z where "z = (if used (S ?r) then ?r else nx S ?r)"
      have z: "used (S z)"
      proof (cases "used (S ?r)")
        case False
        then have "?r \<in> N" using layD(6) [OF l n(1)] lay_ends(3) [OF l] end_used by auto
        then show ?thesis using False sep by (auto simp: z_def separated_def)
      qed (simp add: z_def)
      have rfree: "?r \<in> N \<and> plain (S ?r)" if "\<not> used (S ?r)"
        using layD(6) [OF l n(1)] lay_ends(3) [OF l] end_used layD(8) [OF l _ that] that by auto
      have zN: "z \<in> insert en N"
        using layD(6) [OF l n(1)] layD(6) [OF l, of ?r] rfree by (auto simp: z_def)
      have "unat ?b \<le> unat n" using pred up [of "P n"] by (auto simp: joined_def)
      moreover have "unat n < unat ?r" using up [OF n(1)] by simp
      moreover have "unat ?r \<le> unat z" using rfree up [of ?r] by (auto simp: z_def)
      ultimately have lt: "unat ?b < unat z" by linarith
      have "unat fn \<le> unat ?b" "unat z \<le> unat en"
        using layD(1) [OF l bN] zN layD(5) [OF l, of z] by auto
      then have "unat (z - ?b) < 2 ^ 29" using lt lay_ends(4) [OF l] by (simp add: unat_sub word_le_nat_alt)
      then have pl: "plain (z - ?b)" by (simp add: plain_iff)
      have "?b + ?S ?b = z"
      proof -
        have "joined S P n + (if used (S (P n)) then 0 else S (P n)) = n"
          using pred layD(8) [OF l, of "P n"] by (auto simp: joined_def nx_def plain_def)
        moreover have "n + OS_MEM_NODE_GET_SIZE (S n) = ?r" by (simp add: nx_def)
        moreover have "?r + (if used (S ?r) then 0 else S ?r) = z"
          using rfree by (auto simp: z_def nx_def plain_def)
        ultimately show ?thesis by (simp add: free_sizes_def add.assoc [symmetric])
      qed
      then have "?S ?b = z - ?b" by (simp add: eq_diff_eq add.commute)
      then have sb: "nx ?S ?b = z" using pl by (simp add: nx_def plain_def)
      have "z \<noteq> ?b" using lt by auto
      then have "?S z = S z" by (auto simp: free_sizes_def)
      then show ?thesis using True sb z by simp
    qed
  qed
qed

lemma OsMemFree:
  assumes ok: "mem_ok pool sz N L m" and n: "n \<in> N" "used (szf m n)"
  defines "S \<equiv> szf m" and "P \<equiv> prv m"
  obtains m' L' where "OsMemFree pool n m = Some (LOS_OK, m')"
    "mem_ok pool sz (free_blocks_nodes N S P n) L' m'"
    "\<And>x. x \<in> insert (end_node pool sz) (free_blocks_nodes N S P n) \<Longrightarrow> szf m' x = free_sizes S P n x"
    "\<And>a. a \<notin> managed pool (end_node pool sz) N (S(n := OS_MEM_NODE_GET_SIZE (S n))) \<Longrightarrow>
      a \<noteq> info_curUsedSize pool \<Longrightarrow> m' a = m a"
    "m' (info_curUsedSize pool) = m (info_curUsedSize pool) - OS_MEM_NODE_GET_SIZE (S n)"
    "plain (szf m' n)" "joined S P n \<in> free_blocks_nodes N S P n" "plain (szf m' (joined S P n))"
proof -
  let ?en = "end_node pool sz" and ?c = "info_curUsedSize pool" and ?w = "OS_MEM_NODE_GET_SIZE (S n)"
  let ?N = "free_blocks_nodes N S P n"
  have h: "heap pool sz N L {} m" and sep: "separated N S" using ok by (simp_all add: mem_ok_def S_def)
  note l = heapD(2) [OF h, folded S_def P_def]
  define m1 where "m1 = m(?c := m ?c - ?w)"
  have "?c \<noteq> info_totalSize pool" by (simp add: info_curUsedSize_def info_totalSize_def)
  note i1 = heap_info [OF h info_addrs(5) this, where v = "m ?c - ?w", folded m1_def]
  have f1: "szf m1 x = S x" "prv m1 x = P x" if "x \<in> insert ?en N" for x
    using i1(2) [OF that] info_not_header [OF info_addrs(5) node_beyond(1) [OF h that]]
    by (auto simp: m1_def S_def P_def)
  define m2 where "m2 = m1(sizeAndFlag n := ?w)"
  have nm: "n \<notin> members L" using heap_members(2) [OF h] n by auto
  have w: "OS_MEM_NODE_GET_SIZE ?w = OS_MEM_NODE_GET_SIZE (szf m1 n)" "used ?w \<or> plain ?w"
    using f1(1) [of n] n plain_of_size [of "S n"] by (simp_all add: plain_def del: plain_of_size)
  have nu: "\<not> used ?w" by (rule plain_unused) simp
  note i2 = heap_flag [OF i1(1) n(1) nm w, folded m2_def, unfolded if_not_P [OF nu]]
  have h2: "heap pool sz N L {n} m2" using i2(1) .
  have f2: "szf m2 x = (S(n := ?w)) x" "prv m2 x = P x" if "x \<in> insert ?en N" for x
    using i2(2) [OF that] f1 [OF that] by auto
  let ?A = "managed pool ?en N (S(n := ?w))"
  have A2: "managed pool ?en N (szf m2) = ?A" using f2(1) by (auto simp: managed_def)
  have n2: "n \<in> N" "plain (szf m2 n)" using n f2(1) [of n] by simp_all
  have p2: "prv m2 n = P n" using f2(2) n by simp
  have Pn: "P n \<in> insert ?en N" "P n \<noteq> n"
  proof -
    have "P n \<in> insert ?en N \<and> P n \<noteq> n"
    proof (cases "n = OS_MEM_FIRST_NODE pool")
      case True
      then show ?thesis using lay_ends(2,5) [OF l] n by auto
    next
      case False
      then show ?thesis
        using lay_pred [OF l n(1)] nx_unat [OF l, of "P n"] layD(3) [OF l, of "P n"] by auto
    qed
    then show "P n \<in> insert ?en N" "P n \<noteq> n" by auto
  qed
  have up: "szf m2 (P n) = S (P n)" using f2(1) [OF Pn(1)] Pn(2) by simp
  define m3 where "m3 = (if used (S (P n)) then m2 else OsMemMergeNode n (OsMemFreeNodeDelete pool (P n) m2))"
  define N3 where "N3 = (if used (S (P n)) then N else N - {n})"
  let ?b = "joined S P n"
  obtain L3 where j3: "heap pool sz N3 L3 {?b} m3" "?b \<in> N3" "plain (szf m3 ?b)" "nx (szf m3) ?b = nx (szf m2) n"
      "\<And>x. x \<in> insert ?en N \<Longrightarrow> szf m3 x = ((szf m2)(?b := if used (S (P n)) then szf m2 n else S (P n) + szf m2 n)) x"
      "\<And>a. a \<notin> ?A \<Longrightarrow> m3 a = m2 a" "P n \<noteq> 0"
      "managed pool ?en N3 (szf m3) \<subseteq> ?A"
    by (rule join_prev [OF h2 n2, unfolded p2 up, folded m3_def N3_def joined_def, unfolded A2]) (rule that)
  define r where "r = nx S n"
  have r2: "nx (szf m2) n = r" using f2(1) n by (simp add: nx_def r_def size_mask)
  define m4 where "m4 = (if r \<noteq> 0 \<and> \<not> used (szf m3 r) then OsMemMergeNode r (OsMemFreeNodeDelete pool r m3) else m3)"
  define N4 where "N4 = (if used (szf m3 r) then N3 else N3 - {r})"
  obtain L4 where j4: "heap pool sz N4 L4 {?b} m4" "r \<in> insert ?en N3" "r \<noteq> ?b"
      "\<And>x. x \<in> insert ?en N3 \<Longrightarrow> szf m4 x = ((szf m3)(?b := if used (szf m3 r) then szf m3 ?b else szf m3 ?b + szf m3 r)) x"
      "\<And>a. a \<notin> managed pool ?en N3 (szf m3) \<Longrightarrow> m4 a = m3 a" "plain (szf m4 ?b)" "?b \<in> N4"
      "\<And>x. beyond pool x \<Longrightarrow> x \<noteq> ?b \<Longrightarrow> \<forall>y\<in>insert ?en N3. far x y \<Longrightarrow> szf m4 x = szf m3 x"
      "managed pool ?en N4 (szf m4) \<subseteq> managed pool ?en N3 (szf m3)"
    by (rule join_next [OF j3(1-3), unfolded j3(4) r2, folded m4_def N4_def]) (rule that)
  have N3: "N3 \<subseteq> N" by (auto simp: N3_def)
  have rn: "r \<noteq> n" using nx_unat [OF l n(1)] layD(3) [OF l n(1)] by (auto simp: r_def)
  have S3r: "szf m3 r = S r" using j3(5) [of r] f2(1) [of r] j4(2,3) N3 rn by auto
  have N4: "N4 = ?N" unfolding N4_def S3r N3_def free_blocks_nodes_def r_def [symmetric] by simp
  have u4: "\<not> used (szf m4 ?b)" using plain_unused j4(6) .
  obtain m5 L5 where m5: "OsMemFreeNodeAdd pool ?b m4 = Some m5" "heap pool sz N4 L5 ({?b} - {?b}) m5"
      "\<And>x. x \<in> insert ?en N4 \<Longrightarrow> szf m5 x = szf m4 x \<and> prv m5 x = prv m4 x"
      "\<And>a. a \<notin> lists_area pool (free_nodes N4 (szf m4)) \<Longrightarrow> m5 a = m4 a"
    by (rule heap_add [OF j4(1,7) u4 singletonI]) (rule that)
  have S5: "szf m5 x = free_sizes S P n x" if "x \<in> insert ?en N4" for x
  proof -
    have x: "x \<in> insert ?en N3" "x \<in> insert ?en N" using that N3 by (auto simp: N4_def split: if_splits)
    have b: "?b \<in> insert ?en N3" "?b \<in> insert ?en N" using j3(2) N3 by auto
    have s3b: "szf m3 ?b = (if used (S (P n)) then 0 else S (P n)) + ?w"
      using j3(5) [OF b(2)] up f2(1) [of n] n by simp
    have "x \<noteq> ?b \<Longrightarrow> szf m4 x = S x"
    proof -
      assume "x \<noteq> ?b"
      then have "szf m4 x = szf m2 x" using j4(4) [OF x(1)] j3(5) [OF x(2)] by simp
      moreover have "x \<noteq> n"
        using x(1) lay_ends(5) [OF l] n \<open>x \<noteq> ?b\<close> by (auto simp: N3_def joined_def split: if_splits)
      ultimately show "szf m4 x = S x" using f2(1) [OF x(2)] by simp
    qed
    then show ?thesis
      using m5(3) [OF that] j4(4) [OF b(1)] s3b S3r by (simp add: free_sizes_def r_def)
  qed
  have code: "OsMemFree pool n m = Some (LOS_OK, m5)"
  proof -
    have c: "OsMemCheckUsedNode pool n m = LOS_OK" using check_node [OF h n(1)] n(2) by simp
    have s0: "m (sizeAndFlag n) = S n" by (simp add: S_def)
    have s1: "m1 (sizeAndFlag n) = S n" using f1(1) n by simp
    have e: "OS_MEM_NEXT_NODE ?b m3 = r" using j3(4) r2 by (simp add: OS_MEM_NEXT_NODE_def nx_def)
    have "(if P n \<noteq> 0 \<and> \<not> used (S (P n)) then (P n, OsMemMergeNode n (OsMemFreeNodeDelete pool (P n) m2)) else (n, m2)) = (?b, m3)"
      using j3(7) by (simp add: joined_def m3_def)
    then show ?thesis
      unfolding OsMemFree_def Let_def c s0 m1_def [symmetric] s1 m2_def [symmetric] p2 up
      by (simp add: e m5(1) [unfolded m4_def] split del: if_split cong: if_cong)
  qed
  have acc: "info_addr pool a \<Longrightarrow> m5 a = m1 a" for a
  proof -
    assume a: "info_addr pool a"
    have "m5 a = m4 a"
      by (rule m5(4) [OF contra_subsetD [OF lists_area_free [OF j4(1)] info_not_managed [OF j4(1) a]]])
    also have "\<dots> = m3 a" by (rule j4(5) [OF info_not_managed [OF j3(1) a]])
    also have "\<dots> = m2 a" by (rule j3(6)) (use info_not_managed [OF h2 a] A2 in simp)
    also have "\<dots> = m1 a" using info_not_header(1) [OF a node_beyond(1) [OF h2]] n by (auto simp: m2_def)
    finally show ?thesis .
  qed
  show thesis
  proof (rule that)
    show "OsMemFree pool n m = Some (LOS_OK, m5)" by (rule code)
    show "szf m5 x = free_sizes S P n x" if "x \<in> insert ?en ?N" for x using S5 that N4 by simp
    have "separated ?N (free_sizes S P n)" by (rule free_separated [OF l sep n(1)]) (use n in \<open>simp add: S_def\<close>)
    moreover have "nx (szf m5) x \<in> insert ?en ?N" if "x \<in> ?N" for x
      using layD(6) [OF heapD(2) [OF m5(2)]] that N4 by simp
    moreover have "nx (szf m5) x = nx (free_sizes S P n) x" if "x \<in> ?N" for x using S5 [of x] that N4 by (simp add: nx_def)
    ultimately have "separated ?N (szf m5)" using S5 unfolding separated_def N4 by (metis insertCI)
    then show "mem_ok pool sz ?N L5 m5" using m5(2) N4 by (simp add: mem_ok_def)
    show "m5 a = m a" if a: "a \<notin> ?A" "a \<noteq> ?c" for a
    proof -
      have A4: "managed pool ?en N4 (szf m4) \<subseteq> ?A" and A3: "managed pool ?en N3 (szf m3) \<subseteq> ?A" using j4(9) j3(8) by auto
      have "m5 a = m4 a"
        by (rule m5(4) [OF contra_subsetD [OF lists_area_free [OF j4(1)] contra_subsetD [OF A4 a(1)]]])
      also have "\<dots> = m3 a" by (rule j4(5) [OF contra_subsetD [OF A3 a(1)]])
      also have "\<dots> = m2 a" by (rule j3(6) [OF a(1)])
      also have "\<dots> = m1 a" using header_managed(2) [of n ?en N pool "S(n := ?w)"] a n by (auto simp: m2_def)
      finally show ?thesis using a(2) by (simp add: m1_def)
    qed
    show "m5 ?c = m ?c - ?w" using acc [of ?c] by (simp add: m1_def)
    show "?b \<in> ?N" "plain (szf m5 ?b)" using j4(6,7) N4 m5(3) [of ?b] by simp_all
    show "plain (szf m5 n)"
    proof (cases "n = ?b")
      case True
      then show ?thesis using m5(3) [of n] j4(6,7) by simp
    next
      case False
      have far: "far n y" if "y \<in> insert ?en N" for y using node_far [OF h, of n y] n that by simp
      have "szf m5 n = szf m4 n"
        by (rule m5(4)) (use far N3 node_beyond(1) [OF h] n in \<open>intro header_not_lists, auto simp: N4_def split: if_splits\<close>)
      also have "\<dots> = szf m3 n" by (rule j4(8)) (use far N3 node_beyond(1) [OF h] n False in auto)
      also have "\<dots> = ?w" using j3(5) [of n] f2(1) [of n] n False by simp
      finally show ?thesis by simp
    qed
  qed
qed

end
