(* ===== verification/Mem_Setup.thy ===== *)
theory Mem_Setup
  imports Mem_Free
begin

text \<open>
  \<open>OsMemPoolInit\<close> and \<open>LOS_MemInit\<close> lay out a pool as one free block.
\<close>

text \<open>The memory of a pool before its first block goes into a list.\<close>

definition blank_pool :: "UINT32 \<Rightarrow> UINT32 \<Rightarrow> memory \<Rightarrow> memory" where
  "blank_pool pool sz m = (clear_head pool m)(info_pool pool := pool, info_totalSize pool := sz, info_attr pool := 0,
    sizeAndFlag (OS_MEM_FIRST_NODE pool) := sz - 952, node_ptr (OS_MEM_FIRST_NODE pool) := end_node pool sz)"

definition finish_pool :: "UINT32 \<Rightarrow> UINT32 \<Rightarrow> memory \<Rightarrow> memory" where
  "finish_pool pool sz m = m(sizeAndFlag (end_node pool sz) := 0x80000000,
    node_ptr (end_node pool sz) := OS_MEM_FIRST_NODE pool, info_curUsedSize pool := 952, info_waterLine pool := 952)"

lemma header_neq: "sizeAndFlag x \<noteq> node_ptr x" "node_ptr x \<noteq> sizeAndFlag x"
  by (simp_all add: node_fields)

lemma OsMemPoolInit_steps:
  "OsMemPoolInit pool sz m =
    map_option (finish_pool pool sz) (OsMemFreeNodeAdd pool (OS_MEM_FIRST_NODE pool) (blank_pool pool sz m))"
proof -
  have z: "clear_head pool m (info_attr pool) = 0"
    by (simp add: clear_head_def mem_counts head_offset)
  have n: "info_attr pool \<noteq> info_pool pool" "info_attr pool \<noteq> info_totalSize pool" "info_waterLine pool \<noteq> info_curUsedSize pool"
    by (simp_all add: info_attr_def info_pool_def info_totalSize_def info_waterLine_def info_curUsedSize_def)
  have b: "((clear_head pool m)(info_pool pool := pool, info_totalSize pool := sz, info_attr pool :=
        ((clear_head pool m)(info_pool pool := pool, info_totalSize pool := sz)) (info_attr pool) AND
          NOT (OS_MEM_POOL_UNLOCK_ENABLE OR OS_MEM_POOL_EXPAND_ENABLE),
        sizeAndFlag (OS_MEM_FIRST_NODE pool) := sz - sizeof_OsMemPoolHead - OS_MEM_NODE_HEAD_SIZE,
        node_ptr (OS_MEM_FIRST_NODE pool) := end_node pool sz)) = blank_pool pool sz m"
    using z n by (simp add: blank_pool_def mem_counts OS_MEM_NODE_HEAD_SIZE_def)
  show ?thesis
    unfolding OsMemPoolInit_def Let_def b
    by (cases "OsMemFreeNodeAdd pool (OS_MEM_FIRST_NODE pool) (blank_pool pool sz m)")
      (simp_all add: finish_pool_def OS_MEM_NODE_SET_USED_FLAG_def header_neq OS_MEM_NODE_USED_FLAG_def mem_counts
        OS_MEM_NODE_HEAD_SIZE_def push_bit_eq_mult fun_upd_twist [OF header_neq(1)])
qed

lemma free_lists_empty:
  assumes "\<And>a. 20 \<le> a - pool \<Longrightarrow> a - pool < 940 \<Longrightarrow> m a = 0"
  shows "free_lists pool (\<lambda>_. []) m"
proof (rule free_listsI)
  have z: "m (freeListBitmap pool (drop_bit 5 j)) = 0" if "j < 224" for j
    using bitmap_offset(1,2) [OF that, of pool] by (intro assms) (auto intro: less_trans)
  show "m (freeList pool j) = hd ([] @ [0])" if "j < 223" for j
    using freeList_offset [OF that, of pool] by (simp add: assms order_trans [where y = 48])
  show "list_bit pool m j \<longleftrightarrow> [] \<noteq> []" if "j < 223" for j :: UINT32 using z that by (simp add: list_bit_def)
  show "\<not> list_bit pool m 223" using z [of 223] by (simp add: list_bit_def)
qed (simp_all add: members_def)

lemma pool_init:
  assumes g: "geom pool sz"
  obtains m' i where "OsMemPoolInit pool sz m = Some m'"
    "mem_ok pool sz {OS_MEM_FIRST_NODE pool} ((\<lambda>_. [])(i := [OS_MEM_FIRST_NODE pool])) m'"
    "szf m' (OS_MEM_FIRST_NODE pool) = sz - 952" "m' (info_pool pool) = pool"
    "m' (info_curUsedSize pool) = 952" "m' (info_waterLine pool) = 952"
    "\<And>a. \<not> unat pool \<le> unat a \<or> unat pool + unat sz \<le> unat a \<Longrightarrow> m' a = m a"
proof -
  let ?fn = "OS_MEM_FIRST_NODE pool" and ?en = "end_node pool sz" and ?s = "sz - 952"
  note e = geom_ends [OF g]
  have gs: "pool \<noteq> 0" "4 dvd unat pool" "4 dvd unat sz" "968 \<le> unat sz" "unat sz \<le> 536870912"
      "unat pool + unat sz + 8 \<le> 4294967296"
    using g by (simp_all add: geom_def)
  have us: "unat ?s = unat sz - 952" using gs by (simp add: unat_sub word_le_nat_alt)
  have s: "16 \<le> unat ?s" "unat ?s < 2 ^ 29" using us gs by simp_all
  have ds: "4 dvd unat ?s" unfolding us using gs(3) by (intro dvd_diff_nat) simp_all
  have pl: "plain ?s" using s by (simp add: plain_iff)
  have bf: "beyond pool ?fn" "beyond pool ?en" using e gs by (auto intro!: beyondI)
  have nz: "?fn \<noteq> 0" using e(1) by auto
  have fe: "far ?fn ?en" using e gs by (intro farI) simp_all
  have ne: "?fn \<noteq> ?en" using e gs by auto
  define m1 where "m1 = blank_pool pool sz m"
  have h1: "m1 a = 0" if "20 \<le> a - pool" "a - pool < 940" for a
  proof -
    have "a - pool < 944" using that(2) by (rule below_944)
    moreover have "a \<noteq> info_pool pool" "a \<noteq> info_totalSize pool" "a \<noteq> info_attr pool"
      using that info_addrs(1-3) [of pool] by (auto simp: info_addr_def)
    ultimately show ?thesis
      using beyond_fields [OF bf(1)] by (simp add: m1_def blank_pool_def clear_head_def mem_counts)
  qed
  have l1: "free_lists pool (\<lambda>_. []) m1" by (rule free_lists_empty) (rule h1)
  have s1: "szf m1 ?fn = ?s" "prv m1 ?fn = ?en" by (simp_all add: m1_def blank_pool_def header_neq)
  define i where "i = OsMemFreeListIndexGet ?s"
  have ic: "unat i = cls ?s" "cls ?s < 207" using index_class [of ?s] s by (simp_all add: i_def)
  have i: "i < 223" using ic by (simp add: word_less_nat_alt)
  let ?L = "(\<lambda>_. [])(i := [?fn])"
  define m2 where "m2 = OsMemListAdd pool i ?fn m1"
  note a = free_lists_add [OF l1 i _ bf(1) nz, folded m2_def]
  have mem0: "members (\<lambda>_. []) = {}" by (simp add: members_def)
  have l2: "free_lists pool ?L m2" using a(1) by (simp add: mem0)
  have fr2: "m2 x = m1 x" if "x \<notin> lists_area pool {?fn}" for x using a(2) that by (simp add: mem0)
  have add: "OsMemFreeNodeAdd pool ?fn m1 = Some m2"
    using i by (simp add: OsMemFreeNodeAdd_def s1 i_def [symmetric] m2_def mem_counts Let_def)
  define m3 where "m3 = finish_pool pool sz m2"
  have mem2: "members ?L = {?fn}" using i by (auto simp: members_def split: if_splits)
  have nf: "sizeAndFlag x \<notin> lists_area pool {?fn}" "node_ptr x \<notin> lists_area pool {?fn}" if "x = ?fn \<or> x = ?en" for x
    using header_not_lists [of pool x "{?fn}"] that bf fe far_sym by auto
  have ni: "y \<notin> lists_area pool {?fn}" if "info_addr pool y" for y
    using info_not_lists [OF that, of "{?fn}"] bf by auto
  have l3: "free_lists pool ?L m3"
  proof (rule free_lists_frame [OF l2], unfold mem2)
    fix y assume "y \<in> lists_area pool {?fn}"
    then show "m3 y = m2 y" using nf [of ?en] ni by (auto simp: m3_def finish_pool_def)
  qed
  have inf: "y \<noteq> sizeAndFlag x \<and> y \<noteq> node_ptr x" if "info_addr pool y" "x = ?fn \<or> x = ?en" for x y
    using info_not_header [OF that(1)] bf that(2) by auto
  have head: "m3 y = m1 y" if "info_addr pool y" "y \<noteq> info_curUsedSize pool" "y \<noteq> info_waterLine pool" for y
    using that inf [OF that(1)] fr2 [OF ni [OF that(1)]] by (auto simp: m3_def finish_pool_def)
  have S3: "szf m3 ?fn = ?s" "prv m3 ?fn = ?en" "szf m3 ?en = 0x80000000" "prv m3 ?en = ?fn"
    using s1 fr2 nf [of ?fn] inf [of "info_curUsedSize pool"] inf [of "info_waterLine pool"] fe far_sym [OF fe] ne header_neq
    by (simp_all add: m3_def finish_pool_def) (metis info_addrs(4,5))+
  have nx3: "nx (szf m3) ?fn = ?en"
  proof -
    have "nx (szf m3) ?fn = ?fn + ?s" using pl S3(1) by (simp add: nx_def plain_def)
    also have "\<dots> = ?en"
      by (simp add: OS_MEM_FIRST_NODE_def OS_MEM_END_NODE_def mem_counts OS_MEM_NODE_HEAD_SIZE_def)
    finally show ?thesis .
  qed
  have "lay ?fn ?en {?fn} (szf m3) (prv m3)"
    using S3 nx3 pl s ds gs e us plain_size [OF pl] ne
    by (auto simp: lay_def block_at_def dvd_add)
  moreover have "classes_ok ?L m3"
    using S3(1) s ds ic by (auto simp: classes_ok_def)
  moreover have "members ?L = free_nodes {?fn} (szf m3) - {}" using mem2 S3(1) plain_unused [OF pl] by auto
  moreover have "m3 (info_totalSize pool) = sz" "m3 (info_pool pool) = pool"
  proof -
    have n: "info_totalSize pool \<noteq> info_curUsedSize pool" "info_totalSize pool \<noteq> info_waterLine pool"
        "info_pool pool \<noteq> info_curUsedSize pool" "info_pool pool \<noteq> info_waterLine pool"
        "info_totalSize pool \<noteq> info_attr pool" "info_pool pool \<noteq> info_attr pool" "info_pool pool \<noteq> info_totalSize pool"
      by (simp_all add: info_curUsedSize_def info_waterLine_def info_totalSize_def info_pool_def info_attr_def)
    show "m3 (info_totalSize pool) = sz" "m3 (info_pool pool) = pool"
      using head [of "info_totalSize pool"] head [of "info_pool pool"] n inf [of "info_totalSize pool" ?fn] inf [of "info_pool pool" ?fn]
      by (simp_all add: m1_def blank_pool_def)
  qed
  ultimately have hp: "heap pool sz {?fn} ?L {} m3" and ip: "m3 (info_pool pool) = pool"
    using g l3 by (simp_all add: heap_def)
  have "separated {?fn} (szf m3)" using nx3 S3(3) end_used by (simp add: separated_def)
  with hp have ok: "mem_ok pool sz {?fn} ?L m3" by (simp add: mem_ok_def)
  have acc: "m3 (info_curUsedSize pool) = 952" "m3 (info_waterLine pool) = 952"
    by (simp_all add: m3_def finish_pool_def info_curUsedSize_def info_waterLine_def)
  show thesis
  proof (rule that [OF _ ok S3(1) ip acc])
    show "OsMemPoolInit pool sz m = Some m3" by (simp add: OsMemPoolInit_steps m1_def [symmetric] add m3_def)
    show "m3 a = m a" if "\<not> unat pool \<le> unat a \<or> unat pool + unat sz \<le> unat a" for a
    proof -
      have off: "\<not> a - pool < 944"
      proof
        assume "a - pool < 944"
        then have "unat (a - pool) < 944" by (simp add: word_less_nat_alt)
        moreover have "unat (pool + (a - pool)) = unat pool + unat (a - pool)"
          using calculation gs by (subst unat_word_ariths(1)) simp
        ultimately show False using that gs by simp
      qed
      have f: "unat (?fn + 4) = unat ?fn + 4" "unat (?fn + 8) = unat ?fn + 8" "unat (?fn + 12) = unat ?fn + 12"
          "unat (?en + 4) = unat ?en + 4"
        using e gs by (simp_all add: unat_word_ariths(1))
      have out: "a \<noteq> node_ptr ?fn" "a \<noteq> sizeAndFlag ?fn" "a \<noteq> free_prev ?fn" "a \<noteq> free_next ?fn"
          "a \<noteq> node_ptr ?en" "a \<noteq> sizeAndFlag ?en"
        using that e gs f unfolding node_fields by auto
      have h: "a \<noteq> y" if "info_addr pool y" for y using that off by (auto simp: info_addr_def)
      have "a \<notin> lists_area pool {?fn}" using off out below_944 by (auto simp: lists_area_def)
      then have "m2 a = m1 a" by (rule fr2)
      then show ?thesis
        using out h off by (simp add: m3_def finish_pool_def m1_def blank_pool_def clear_head_def mem_counts)
    qed
  qed
qed

end
