(* ===== verification/Mem_Props.thy ===== *)
theory Mem_Props
  imports Mem_Setup
begin

text \<open>
  The promises of the memory manager: an allocation succeeds exactly when a free block is large
  enough and takes the block from the lowest class that serves, a release joins the block to its
  free neighbours, neither touches the data in other blocks, and the accounts agree with the blocks.
\<close>

section \<open>Blocks and accounts\<close>

definition users :: "UINT32 set \<Rightarrow> memory \<Rightarrow> UINT32 set" where
  "users N m = {n \<in> N. used (szf m n)}"

definition keeps_data :: "UINT32 set \<Rightarrow> memory \<Rightarrow> memory \<Rightarrow> bool" where
  "keeps_data U m m' \<longleftrightarrow> (\<forall>n\<in>U. szf m' n = szf m n \<and> (\<forall>a\<in>user_area (szf m) n. m' a = m a))"

definition total_used :: "UINT32 set \<Rightarrow> memory \<Rightarrow> nat" where
  "total_used N m = (\<Sum>n\<in>users N m. bsize (szf m n))"

text \<open>The account of the used memory counts the blocks and the structures of the pool itself.\<close>

definition accounted :: "UINT32 \<Rightarrow> UINT32 set \<Rightarrow> memory \<Rightarrow> bool" where
  "accounted pool N m \<longleftrightarrow> m (info_curUsedSize pool) = 952 + of_nat (total_used N m)"

text \<open>The pointer of a block that was not moved for an alignment is the one behind its header.\<close>

definition unmoved :: "memory \<Rightarrow> UINT32 \<Rightarrow> bool" where
  "unmoved m n \<longleftrightarrow> \<not> OS_MEM_NODE_GET_ALIGNED_FLAG (szf m n)"

lemma mem_okD:
  assumes "mem_ok pool sz N L m"
  shows "heap pool sz N L {} m" "separated N (szf m)" "geom pool sz"
    "lay (OS_MEM_FIRST_NODE pool) (end_node pool sz) N (szf m) (prv m)"
  using assms by (auto simp: mem_ok_def dest: heapD)

lemma and_3: "w AND 3 = 0 \<longleftrightarrow> 4 dvd unat w" for w :: UINT32
proof -
  have "(3 :: UINT32) = mask 2" by (simp add: mask_eq_exp_minus_1)
  then have "w AND 3 = take_bit 2 w" by (simp only: take_bit_eq_mask)
  then have "unat (w AND 3) = take_bit 2 (unat w)" by (simp only: unsigned_take_bit_eq)
  then have "unat (w AND 3) = unat w mod 4" by (simp add: take_bit_eq_mod)
  then show ?thesis by (simp add: word_unat_eq_iff dvd_eq_mod_eq_0)
qed

lemma node_address:
  assumes ok: "mem_ok pool sz N L m" and n: "n \<in> N"
  shows "n + 8 - 8 = n" "n + 8 \<noteq> 0" "4 dvd unat (n + 8)" "unat (n + 8) = unat n + 8"
proof -
  have "unat n + 16 \<le> unat (end_node pool sz)" using layD(3,5) [OF mem_okD(4) [OF ok] n] by simp
  then show u: "unat (n + 8) = unat n + 8"
    using unsigned_less [where w = "end_node pool sz" and 'a = nat] by (simp add: unat_word_ariths(1))
  then show "n + 8 \<noteq> 0" by auto
  show "4 dvd unat (n + 8)" using layD(2) [OF mem_okD(4) [OF ok] n] u by (simp add: dvd_add)
qed simp

lemma keeps_dataI:
  assumes ok: "mem_ok pool sz N L m" and U: "U \<subseteq> users N m"
    and szs: "\<And>n. n \<in> U \<Longrightarrow> szf m' n = szf m n"
    and fr: "\<And>a. a \<notin> managed pool (end_node pool sz) N (szf m) \<Longrightarrow> \<not> info_addr pool a \<Longrightarrow> m' a = m a"
  shows "keeps_data U m m'"
  unfolding keeps_data_def
proof (intro ballI conjI)
  fix n assume n: "n \<in> U"
  show "szf m' n = szf m n" by (rule szs [OF n])
  fix a assume "a \<in> user_area (szf m) n"
  then show "m' a = m a"
    using user_not_managed [OF mem_okD(1) [OF ok], of n a] fr [of a] n U by (auto simp: users_def)
qed

section \<open>Allocation\<close>

lemma alloc_sizes_at:
  assumes ok: "mem_ok pool sz N L m" and n: "n \<in> N" "\<not> used (szf m n)"
    and s: "16 \<le> unat s" "unat s < 2 ^ 29" "4 dvd unat s" "s \<le> szf m n"
  defines "S' \<equiv> alloc_sizes (szf m) n s" and "N' \<equiv> alloc_nodes N (szf m) n s"
  shows "used (S' n)" "\<not> OS_MEM_NODE_GET_ALIGNED_FLAG (S' n)" "unat s \<le> bsize (S' n)" "bsize (S' n) < unat s + 16"
    "x \<in> N \<Longrightarrow> x \<noteq> n \<Longrightarrow> S' x = szf m x" "x \<in> N' \<Longrightarrow> x \<notin> N \<Longrightarrow> \<not> used (S' x)" "N \<subseteq> N'"
proof -
  note l = mem_okD(4) [OF ok]
  have pl: "plain (szf m n)" by (rule layD(8) [OF l n])
  note sp = lay_split [OF l n(1) pl s(1,3)]
  have q: "n + s \<notin> N" "n + s \<noteq> n" "plain (szf m n - s)" if "cut (szf m) n s"
    using sp that cut_unat [OF s(2)] n by auto
  show "used (S' n)" by (simp add: S'_def alloc_sizes_def)
  have ps: "plain s" using s by (simp add: plain_iff)
  have "\<not> bit w 30" if "plain w" for w :: UINT32 using bit_le_unat [of w 30] that by (auto simp: plain_iff)
  then show "\<not> OS_MEM_NODE_GET_ALIGNED_FLAG (S' n)"
    using ps pl by (auto simp: aligned_bit S'_def alloc_sizes_def OS_MEM_NODE_USED_FLAG_def bit_simps)
  from ps have b: "bsize (S' n) = (if cut (szf m) n s then unat s else unat (szf m n))"
    using plain_size [OF pl] plain_size [of s] by (simp add: S'_def alloc_sizes_def bsize_def)
  show "unat s \<le> bsize (S' n)" "bsize (S' n) < unat s + 16"
    using b s cut_unat [OF s(2), of "szf m" n] by (auto simp: word_le_nat_alt)
  show "x \<in> N \<Longrightarrow> x \<noteq> n \<Longrightarrow> S' x = szf m x" using q by (auto simp: S'_def alloc_sizes_def)
  show "x \<in> N' \<Longrightarrow> x \<notin> N \<Longrightarrow> \<not> used (S' x)"
    using q plain_unused by (auto simp: S'_def N'_def alloc_sizes_def alloc_nodes_def split: if_splits)
  show "N \<subseteq> N'" by (auto simp: N'_def alloc_nodes_def)
qed

text \<open>The number of bytes of a block for a request, with its header.\<close>

definition request_bytes :: "UINT32 \<Rightarrow> nat" where
  "request_bytes req = block_bytes (max 8 (unat req))"

lemma mem_alloc_cases:
  assumes ok: "mem_ok pool sz N L m" and req: "req \<noteq> 0" "unat req + 12 \<le> 2 ^ 29"
  obtains "LOS_MemAlloc_pool pool req m = Some (0, m)" "\<forall>n\<in>N - users N m. bsize (szf m n) < request_bytes req"
  | n s m' L' where "LOS_MemAlloc_pool pool req m = Some (n + 8, m')" "n \<in> N - users N m"
    "unat s = request_bytes req" "s \<le> szf m n" "mem_ok pool sz (alloc_nodes N (szf m) n s) L' m'"
    "\<And>x. x \<in> insert (end_node pool sz) (alloc_nodes N (szf m) n s) \<Longrightarrow> szf m' x = alloc_sizes (szf m) n s x"
    "users (alloc_nodes N (szf m) n s) m' = insert n (users N m)"
    "request_bytes req \<le> bsize (szf m' n)" "bsize (szf m' n) < request_bytes req + 16"
    "keeps_data (users N m) m m'" "unmoved m' n"
    "m' (info_curUsedSize pool) = m (info_curUsedSize pool) + of_nat (bsize (szf m' n))"
    "m' (info_waterLine pool) = max (m (info_waterLine pool)) (m' (info_curUsedSize pool))"
    "\<And>a. a \<notin> managed pool (end_node pool sz) N (szf m) \<Longrightarrow> \<not> info_addr pool a \<Longrightarrow> m' a = m a"
    "\<And>x. x \<in> N - users N m \<Longrightarrow> first_class s \<le> cls (szf m x) \<Longrightarrow> cls (szf m n) \<le> cls (szf m x)"
proof -
  define req' where "req' = (if req < OS_MEM_MIN_ALLOC_SIZE then OS_MEM_MIN_ALLOC_SIZE else req)"
  have r8: "unat req' = max 8 (unat req)"
    by (auto simp: req'_def OS_MEM_MIN_ALLOC_SIZE_def word_less_nat_alt)
  have r: "8 \<le> unat req'" "unat req' + 12 \<le> 2 ^ 29" using r8 req by auto
  define s where "s = OS_MEM_ALIGN (req' + OS_MEM_NODE_HEAD_SIZE) OS_MEM_ALIGN_SIZE"
  have us: "unat s = request_bytes req" unfolding s_def using OS_MEM_ALIGN_size [OF r(2)] r8 by (simp add: request_bytes_def)
  have sb: "16 \<le> unat s" "unat s < 2 ^ 29" "4 dvd unat s"
    using block_bytes [of "unat req'"] r r8 us by (auto simp: request_bytes_def)
  note h = mem_okD(1) [OF ok] and l = mem_okD(4) [OF ok]
  have p0: "pool \<noteq> 0" using mem_okD(3) [OF ok] by (simp add: geom_def)
  have "plain req'" using r by (simp add: plain_iff)
  then have "\<not> used req' \<and> \<not> OS_MEM_NODE_GET_ALIGNED_FLAG req'"
    using bit_le_unat [of req' 30] plain_unused by (auto simp: aligned_bit plain_iff)
  then have code: "LOS_MemAlloc_pool pool req m = OsMemAlloc pool req' m"
    using p0 req(1) by (simp add: LOS_MemAlloc_pool_def Let_def req'_def [symmetric])
  show thesis
  proof (rule OsMemAlloc [OF ok r, folded s_def])
    assume a: "OsMemAlloc pool req' m = Some (0, m)" "\<forall>n\<in>free_nodes N (szf m). szf m n < s"
    have "bsize (szf m n) < request_bytes req" if "n \<in> N - users N m" for n
    proof -
      have n: "n \<in> N" "\<not> used (szf m n)" using that by (auto simp: users_def)
      then show ?thesis using a(2) us plain_size [OF layD(8) [OF l n]] by (auto simp: word_less_nat_alt)
    qed
    then show thesis using that(1) a(1) code by simp
  next
    fix n m' L'
    let ?N = "alloc_nodes N (szf m) n s" and ?w = "OS_MEM_NODE_GET_SIZE (szf m' n)"
    assume a: "OsMemAlloc pool req' m = Some (n + 8, m')" "n \<in> N" "\<not> used (szf m n)" "s \<le> szf m n"
      "mem_ok pool sz ?N L' m'"
      "\<And>x. x \<in> insert (end_node pool sz) ?N \<Longrightarrow> szf m' x = alloc_sizes (szf m) n s x"
      "\<And>a. a \<notin> managed pool (end_node pool sz) N (szf m) \<Longrightarrow> a \<noteq> info_curUsedSize pool \<Longrightarrow> a \<noteq> info_waterLine pool \<Longrightarrow> m' a = m a"
      "m' (info_curUsedSize pool) = m (info_curUsedSize pool) + ?w"
      "m' (info_waterLine pool) = max (m (info_waterLine pool)) (m (info_curUsedSize pool) + ?w)"
      "\<And>j. j < 223 \<Longrightarrow> first_class s \<le> unat j \<Longrightarrow> unat j < cls (szf m n) \<Longrightarrow> L j = []"
    note at = alloc_sizes_at [OF ok a(2,3) sb a(4)]
    have nN: "n \<in> ?N" using at(7) a(2) by auto
    have fr: "m' a = m a" if "a \<notin> managed pool (end_node pool sz) N (szf m)" "\<not> info_addr pool a" for a
      by (rule a(7)) (use that in auto)
    have old: "szf m' x = szf m x" if "x \<in> users N m" for x
    proof -
      have "x \<in> N" "x \<noteq> n" using that a(3) by (auto simp: users_def)
      then show ?thesis using a(6) [of x] at(5) [of x] at(7) by auto
    qed
    show thesis
    proof (rule that(2))
      show "LOS_MemAlloc_pool pool req m = Some (n + 8, m')" using code a(1) by simp
      show "n \<in> N - users N m" using a(2,3) by (simp add: users_def)
      show "users ?N m' = insert n (users N m)"
      proof (rule set_eqI)
        fix x
        show "x \<in> users ?N m' \<longleftrightarrow> x \<in> insert n (users N m)"
          using a(2,3,6) at(1,5,6,7) by (cases "x = n"; cases "x \<in> N") (auto simp: users_def)
      qed
      show "request_bytes req \<le> bsize (szf m' n)" "bsize (szf m' n) < request_bytes req + 16"
        using at(3,4) a(6) [of n] nN us by simp_all
      show "unmoved m' n" using at(2) a(6) [of n] nN by (simp add: unmoved_def)
      show "keeps_data (users N m) m m'" by (rule keeps_dataI [OF ok subset_refl old fr])
      show "m' (info_curUsedSize pool) = m (info_curUsedSize pool) + of_nat (bsize (szf m' n))"
        using a(8) by (simp add: bsize_def)
      show "m' (info_waterLine pool) = max (m (info_waterLine pool)) (m' (info_curUsedSize pool))" using a(8,9) by simp
      show "cls (szf m n) \<le> cls (szf m x)" if x: "x \<in> N - users N m" "first_class s \<le> cls (szf m x)" for x
      proof (rule ccontr)
        assume "\<not> cls (szf m n) \<le> cls (szf m x)"
        moreover have "x \<in> members L" using heapD(5) [OF h] x(1) by (simp add: users_def)
        then obtain j where j: "j < 223" "x \<in> set (L j)" by (auto simp: members_def)
        moreover have "unat j = cls (szf m x)" using heapD(4) [OF h] j by (auto simp: classes_ok_def)
        ultimately have "L j = []" using a(10) [of j] x(2) by simp
        then show False using j by simp
      qed
    qed (use a us fr in auto)
  qed
qed

lemma total_used_insert:
  assumes "users N' m' = insert n U" "n \<notin> U" "\<And>x. x \<in> U \<Longrightarrow> szf m' x = szf m x"
  shows "total_used N' m' = bsize (szf m' n) + (\<Sum>x\<in>U. bsize (szf m x))"
proof -
  have "total_used N' m' = bsize (szf m' n) + (\<Sum>x\<in>U. bsize (szf m' x))"
    unfolding total_used_def assms(1) using assms(2) by (subst sum.insert) auto
  also have "(\<Sum>x\<in>U. bsize (szf m' x)) = (\<Sum>x\<in>U. bsize (szf m x))" using assms(3) by (intro sum.cong) auto
  finally show ?thesis .
qed

lemma keeps_sizes: "keeps_data U m m' \<Longrightarrow> x \<in> U \<Longrightarrow> szf m' x = szf m x"
  by (simp add: keeps_data_def)

lemma keeps_data_trans: "keeps_data U m m1 \<Longrightarrow> keeps_data U m1 m2 \<Longrightarrow> keeps_data U m m2"
  unfolding keeps_data_def user_area_def by simp

lemma mem_alloc_spec:
  assumes ok: "mem_ok pool sz N L m" and req: "req \<noteq> 0" "unat req + 12 \<le> 2 ^ 29"
  obtains p m' where "LOS_MemAlloc_pool pool req m = Some (p, m')"
    "p = 0 \<longleftrightarrow> (\<forall>n\<in>N - users N m. bsize (szf m n) < request_bytes req)" "p = 0 \<Longrightarrow> m' = m"
    "p \<noteq> 0 \<Longrightarrow> \<exists>N' L'. mem_ok pool sz N' L' m' \<and> p - 8 \<in> N - users N m \<and> users N' m' = insert (p - 8) (users N m) \<and>
      request_bytes req \<le> bsize (szf m' (p - 8)) \<and> bsize (szf m' (p - 8)) < request_bytes req + 16 \<and>
      (\<forall>x\<in>N - users N m. first_class (of_nat (request_bytes req)) \<le> cls (szf m x) \<longrightarrow> cls (szf m (p - 8)) \<le> cls (szf m x)) \<and>
      keeps_data (users N m) m m' \<and> (accounted pool N m \<longrightarrow> accounted pool N' m')"
proof (rule mem_alloc_cases [OF ok req])
  assume "LOS_MemAlloc_pool pool req m = Some (0, m)" "\<forall>n\<in>N - users N m. bsize (szf m n) < request_bytes req"
  then show thesis using that by simp
next
  fix n s m' L'
  let ?N = "alloc_nodes N (szf m) n s"
  assume a: "LOS_MemAlloc_pool pool req m = Some (n + 8, m')" "n \<in> N - users N m" "unat s = request_bytes req" "s \<le> szf m n"
    "mem_ok pool sz ?N L' m'" "users ?N m' = insert n (users N m)" "request_bytes req \<le> bsize (szf m' n)"
    "bsize (szf m' n) < request_bytes req + 16" "keeps_data (users N m) m m'"
    "m' (info_curUsedSize pool) = m (info_curUsedSize pool) + of_nat (bsize (szf m' n))"
    "\<And>x. x \<in> N - users N m \<Longrightarrow> first_class s \<le> cls (szf m x) \<Longrightarrow> cls (szf m n) \<le> cls (szf m x)"
  have n: "n \<in> N" "n \<notin> users N m" "\<not> used (szf m n)" using a(2) by (auto simp: users_def)
  note ad = node_address [OF ok n(1)]
  have pl: "bsize (szf m n) = unat (szf m n)" using plain_size layD(8) [OF mem_okD(4) [OF ok] n(1,3)] by simp
  have s: "of_nat (request_bytes req) = s" using word_of_natI [OF a(3)] by simp
  have "total_used ?N m' = bsize (szf m' n) + total_used N m"
    using total_used_insert [OF a(6) n(2) keeps_sizes [OF a(9)]] by (simp add: total_used_def)
  then have "accounted pool N m \<longrightarrow> accounted pool ?N m'" using a(10) by (simp add: accounted_def)
  moreover have "\<exists>x\<in>N - users N m. \<not> bsize (szf m x) < request_bytes req"
    using a(2,3,4) pl by (intro bexI [of _ n]) (simp_all add: word_le_nat_alt)
  ultimately show thesis
    using a s ad(1,2) by (intro that [of "n + 8" m'] exI [of _ ?N] exI [of _ L'] conjI) auto
qed

text \<open>C5: For a request of less than 2^29 bytes \<open>LOS_MemAlloc\<close> returns; it fails, without a change,
  exactly when no free block is large enough. Otherwise the block behind the pointer was free and is
  now the only new used block; it is large enough and less than 16 bytes larger than needed, it comes from the lowest class in which every block
  is large enough, the data in all other used blocks is unchanged, and the invariant and the account
  of the used memory hold again.\<close>

theorem mem_alloc:
  assumes "mem_ok pool sz N L m" "req \<noteq> 0" "unat req + 12 \<le> 2 ^ 29"
  shows "\<exists>p m'. LOS_MemAlloc_pool pool req m = Some (p, m') \<and>
    (p = 0 \<longleftrightarrow> (\<forall>n\<in>N - users N m. bsize (szf m n) < request_bytes req)) \<and> (p = 0 \<longrightarrow> m' = m) \<and>
    (p \<noteq> 0 \<longrightarrow> (\<exists>N' L'. mem_ok pool sz N' L' m' \<and> p - 8 \<in> N - users N m \<and> users N' m' = insert (p - 8) (users N m) \<and>
      request_bytes req \<le> bsize (szf m' (p - 8)) \<and> bsize (szf m' (p - 8)) < request_bytes req + 16 \<and>
      (\<forall>x\<in>N - users N m. first_class (of_nat (request_bytes req)) \<le> cls (szf m x) \<longrightarrow> cls (szf m (p - 8)) \<le> cls (szf m x)) \<and>
      keeps_data (users N m) m m' \<and> (accounted pool N m \<longrightarrow> accounted pool N' m')))"
  by (rule mem_alloc_spec [OF assms]) blast

section \<open>Initialisation\<close>

lemma first_user_bytes:
  assumes "geom pool sz"
  shows "users {OS_MEM_FIRST_NODE pool} m = {} \<longleftrightarrow> \<not> used (szf m (OS_MEM_FIRST_NODE pool))"
  by (auto simp: users_def)

lemma first_bytes:
  assumes "geom pool sz" shows "unat (sz - 952) = unat sz - 952" "plain (sz - 952)"
proof -
  show u: "unat (sz - 952) = unat sz - 952" using assms by (simp add: geom_def unat_sub word_le_nat_alt)
  have "unat sz \<le> 536870912" using assms by (simp add: geom_def)
  then show "plain (sz - 952)" using u by (simp add: plain_iff)
qed

lemma mem_init_spec:
  assumes g: "geom pool sz" and first: "g_poolHead s = 0"
  obtains s' L where "LOS_MemInit pool sz s = Some (LOS_OK, s')" "g_poolHead s' = pool"
    "mem_ok pool sz {OS_MEM_FIRST_NODE pool} L (mem s')" "szf (mem s') (OS_MEM_FIRST_NODE pool) = sz - 952"
    "users {OS_MEM_FIRST_NODE pool} (mem s') = {}" "accounted pool {OS_MEM_FIRST_NODE pool} (mem s')"
    "mem s' (nextPool pool) = 0" "mem s' (info_pool pool) = pool"
    "\<And>a. \<not> unat pool \<le> unat a \<or> unat pool + unat sz \<le> unat a \<Longrightarrow> mem s' a = mem s a"
proof -
  let ?fn = "OS_MEM_FIRST_NODE pool"
  obtain m' i where p: "OsMemPoolInit pool sz (mem s) = Some m'"
      "mem_ok pool sz {?fn} ((\<lambda>_. [])(i := [?fn])) m'" "szf m' ?fn = sz - 952" "m' (info_pool pool) = pool"
      "m' (info_curUsedSize pool) = 952" "m' (info_waterLine pool) = 952"
      "\<And>a. \<not> unat pool \<le> unat a \<or> unat pool + unat sz \<le> unat a \<Longrightarrow> m' a = mem s a"
    by (rule pool_init [OF g]) (rule that)
  let ?L = "(\<lambda>_. [])(i := [?fn])"
  define m2 where "m2 = m'(nextPool pool := 0)"
  have np: "nextPool pool \<noteq> info_totalSize pool" "nextPool pool \<noteq> info_curUsedSize pool" "nextPool pool \<noteq> info_pool pool"
    using head_offset(3,4,7,8) [of pool] by auto
  note i = heap_info [OF mem_okD(1) [OF p(2)] info_addrs(6) np(1), where v = 0, folded m2_def]
  have s2: "szf m2 ?fn = sz - 952" using i(2) [of ?fn] p(3) by simp
  have nx2: "nx (szf m2) ?fn = nx (szf m') ?fn" by (simp add: nx_def s2 p(3))
  have "nx (szf m') ?fn \<in> insert (end_node pool sz) {?fn}" using layD(6) [OF mem_okD(4) [OF p(2)]] by simp
  then have "separated {?fn} (szf m2)"
    using mem_okD(2) [OF p(2)] i(2) nx2 unfolding separated_def by auto
  then have ok: "mem_ok pool sz {?fn} ?L m2" using i(1) by (simp add: mem_ok_def)
  have "\<not> used (sz - 952)" using plain_unused first_bytes(2) [OF g] by blast
  then have u: "users {?fn} m2 = {}" using first_user_bytes [OF g] s2 by simp
  have "OS_MEM_MIN_POOL_SIZE = 952" by (simp add: OS_MEM_MIN_POOL_SIZE_def OS_MEM_NODE_HEAD_SIZE_def mem_counts)
  moreover have "\<not> sz \<le> 952" using g by (auto simp: geom_def word_le_nat_alt)
  ultimately have "\<not> sz \<le> OS_MEM_MIN_POOL_SIZE" by simp
  moreover have "pool AND (OS_MEM_ALIGN_SIZE - 1) = 0" "sz AND (OS_MEM_ALIGN_SIZE - 1) = 0"
    using g and_3 [of pool] and_3 [of sz] by (simp_all add: geom_def OS_MEM_ALIGN_SIZE_def)
  moreover have "pool_walk pool sz 0 0 m' = Some (Some 0)" by (simp add: pool_walk.simps)
  ultimately have "LOS_MemInit pool sz s = Some (LOS_OK, s\<lparr>mem := m2, g_poolHead := pool\<rparr>)"
    using g first p(1) by (simp add: LOS_MemInit_def OsMemPoolAdd_def geom_def m2_def)
  then show thesis
  proof (rule that)
    show "accounted pool {?fn} (mem (s\<lparr>mem := m2, g_poolHead := pool\<rparr>))"
      using u p(5) np by (simp add: accounted_def total_used_def m2_def)
    have "nextPool pool - pool < 944" by (simp add: head_offset)
    then have "unat (nextPool pool) = unat pool + 940"
      using g by (simp add: geom_def nextPool_def mem_counts unat_word_ariths(1))
    then show "mem (s\<lparr>mem := m2, g_poolHead := pool\<rparr>) a = mem s a"
      if "\<not> unat pool \<le> unat a \<or> unat pool + unat sz \<le> unat a" for a
      using that p(7) [OF that] g by (auto simp: m2_def geom_def)
  qed (use ok s2 u p(4) np in \<open>simp_all add: m2_def\<close>)
qed

text \<open>C10: \<open>LOS_MemInit\<close> turns an aligned area of at least 968 bytes into a pool with the invariant and a
  single free block; it is linked as the first pool and nothing outside the area changes.\<close>

theorem mem_init:
  assumes "geom pool sz" "g_poolHead s = 0"
  shows "\<exists>s' L. LOS_MemInit pool sz s = Some (LOS_OK, s') \<and> g_poolHead s' = pool \<and>
    mem_ok pool sz {OS_MEM_FIRST_NODE pool} L (mem s') \<and> users {OS_MEM_FIRST_NODE pool} (mem s') = {} \<and>
    bsize (szf (mem s') (OS_MEM_FIRST_NODE pool)) = unat sz - 952 \<and> accounted pool {OS_MEM_FIRST_NODE pool} (mem s') \<and>
    (\<forall>a. unat a < unat pool \<or> unat pool + unat sz \<le> unat a \<longrightarrow> mem s' a = mem s a)"
proof -
  have "bsize (sz - 952) = unat sz - 952" using plain_size first_bytes [OF assms(1)] by simp
  then show ?thesis by (rule_tac mem_init_spec [OF assms]) (auto simp: not_le)
qed

text \<open>A pool of 4 KiB at address 0x20000000, for the witnesses.\<close>

definition bare_pools :: pools where
  "bare_pools = \<lparr>mem = \<lambda>_. 0xEEEEEEEE, g_poolHead = 0, m_aucSysMem0 = 0\<rparr>"

lemma demo_geom: "geom 0x20000000 0x1000"
  by (simp add: geom_def)

lemma mem_init_witness: "\<exists>s' L. LOS_MemInit 0x20000000 0x1000 bare_pools = Some (LOS_OK, s') \<and>
    mem_ok 0x20000000 0x1000 {0x200003B0} L (mem s') \<and> bsize (szf (mem s') 0x200003B0) = 3144"
proof -
  have "g_poolHead bare_pools = 0" by (simp add: bare_pools_def)
  moreover have "OS_MEM_FIRST_NODE 0x20000000 = 0x200003B0" by (simp add: OS_MEM_FIRST_NODE_def mem_counts)
  ultimately show ?thesis using mem_init [OF demo_geom, of bare_pools] by auto
qed

lemma demo_pool:
  obtains m L where "mem_ok 0x20000000 0x1000 {0x200003B0} L m" "users {0x200003B0} m = {}" "szf m 0x200003B0 = 3144"
    "accounted 0x20000000 {0x200003B0} m" "m (info_pool 0x20000000) = 0x20000000"
proof -
  have z: "g_poolHead bare_pools = 0" by (simp add: bare_pools_def)
  have f: "OS_MEM_FIRST_NODE 0x20000000 = 0x200003B0" by (simp add: OS_MEM_FIRST_NODE_def mem_counts)
  show thesis
  proof (rule mem_init_spec [OF demo_geom z, unfolded f])
    fix s' L
    assume "mem_ok 0x20000000 0x1000 {0x200003B0} L (mem s')" "szf (mem s') 0x200003B0 = 0x1000 - 952"
      "users {0x200003B0} (mem s') = {}" "accounted 0x20000000 {0x200003B0} (mem s')" "mem s' (info_pool 0x20000000) = 0x20000000"
    then show thesis using that [of L "mem s'"] by simp
  qed
qed

lemma mem_alloc_witness: "\<exists>m L p m' N' L'. mem_ok 0x20000000 0x1000 {0x200003B0} L m \<and>
    LOS_MemAlloc_pool 0x20000000 100 m = Some (p, m') \<and> p \<noteq> 0 \<and> mem_ok 0x20000000 0x1000 N' L' m' \<and>
    users N' m' = {p - 8} \<and> 108 \<le> bsize (szf m' (p - 8)) \<and> accounted 0x20000000 N' m'"
proof -
  obtain m L where d: "mem_ok 0x20000000 0x1000 {0x200003B0} L m" "users {0x200003B0} m = {}" "szf m 0x200003B0 = 3144"
      "accounted 0x20000000 {0x200003B0} m" using demo_pool by metis
  have "request_bytes 100 = 108" by (simp add: request_bytes_def block_bytes_def)
  moreover have "bsize 3144 = 3144" using plain_size [of 3144] by (simp add: plain_iff)
  moreover have "(100 :: UINT32) \<noteq> 0" "unat (100 :: UINT32) + 12 \<le> 2 ^ 29" by simp_all
  note mem_alloc [OF d(1) this]
  ultimately show ?thesis using d by fastforce
qed

section \<open>Release\<close>

lemma users_disjoint:
  assumes ok: "mem_ok pool sz N L m" and x: "x \<in> N" "n \<in> N" "x \<noteq> n" and a: "a \<in> user_area (szf m) x"
  shows "\<not> (unat n \<le> unat a \<and> unat a < unat n + bsize (szf m n))"
proof -
  note l = mem_okD(4) [OF ok]
  have "unat x \<noteq> unat n" using x(3) by (simp add: word_unat_eq_iff)
  then show ?thesis using layD(9) [OF l x(1,2)] layD(9) [OF l x(2,1)] a by (auto simp: user_area_def)
qed

lemma managed_released:
  assumes "a \<notin> managed pool en N S" "\<not> (unat n \<le> unat a \<and> unat a < unat n + bsize (S n))"
  shows "a \<notin> managed pool en N (S(n := OS_MEM_NODE_GET_SIZE (S n)))"
proof -
  have b: "bsize (OS_MEM_NODE_GET_SIZE (S n)) = bsize (S n)" by (simp add: bsize_def size_mask)
  have "\<not> (unat x \<le> unat a \<and> unat a < unat x + bsize ((S(n := OS_MEM_NODE_GET_SIZE (S n))) x))"
    if "x \<in> N" "\<not> used ((S(n := OS_MEM_NODE_GET_SIZE (S n))) x)" for x
    using that assms b unfolding managed_def by (cases "x = n") auto
  then show ?thesis using assms(1) unfolding managed_def by blast
qed

lemma real_ptr: "unmoved m n \<Longrightarrow> OsGetRealPtr pool (n + 8) m = n + 8"
proof -
  assume "unmoved m n"
  then have "\<not> bit (szf m n) 30" by (simp add: unmoved_def aligned_bit)
  then have "\<not> OS_MEM_GET_GAPSIZE_ALIGNED_FLAG (szf m n)"
    using and_exp_eq_0_iff_not_bit [of "szf m n" 30]
    by (simp add: OS_MEM_GET_GAPSIZE_ALIGNED_FLAG_def OS_MEM_GAPSIZE_ALIGNED_FLAG_def)
  moreover have "n + 8 - 4 = sizeAndFlag n" by (simp add: sizeAndFlag_def)
  ultimately show ?thesis by (simp add: OsGetRealPtr_def Let_def OS_MEM_GAPSIZE_CHECK_def)
qed

lemma free_pool_code:
  assumes ok: "mem_ok pool sz N L m" and n: "n \<in> N" and r: "OsGetRealPtr pool p m' = n + 8" and p: "p \<noteq> 0" "4 dvd unat p"
  shows "LOS_MemFree_pool pool p m' = OsMemFree pool n m'"
proof -
  have "pool \<noteq> 0" "OS_MEM_IS_ALIGNED pool 4" "OS_MEM_IS_ALIGNED p 4"
    using mem_okD(3) [OF ok] and_3 p by (simp_all add: geom_def OS_MEM_IS_ALIGNED_def)
  then show ?thesis
    using node_address(1,2) [OF ok n] p r
    by (simp add: LOS_MemFree_pool_def Let_def OS_MEM_NODE_HEAD_SIZE_def)
qed

lemma mem_free_spec:
  assumes ok: "mem_ok pool sz N L m" and n: "n \<in> users N m"
    and r: "OsGetRealPtr pool p m = n + 8" and p: "p \<noteq> 0" "4 dvd unat p"
  obtains m' L' where "LOS_MemFree_pool pool p m = Some (LOS_OK, m')"
    "mem_ok pool sz (free_blocks_nodes N (szf m) (prv m) n) L' m'"
    "\<And>x. x \<in> free_blocks_nodes N (szf m) (prv m) n \<Longrightarrow> szf m' x = free_sizes (szf m) (prv m) n x"
    "users (free_blocks_nodes N (szf m) (prv m) n) m' = users N m - {n}" "keeps_data (users N m - {n}) m m'"
    "m' (info_curUsedSize pool) = m (info_curUsedSize pool) - of_nat (bsize (szf m n))"
    "accounted pool N m \<Longrightarrow> accounted pool (free_blocks_nodes N (szf m) (prv m) n) m'" "plain (szf m' n)"
proof -
  let ?N = "free_blocks_nodes N (szf m) (prv m) n" and ?b = "joined (szf m) (prv m) n" and ?S = "free_sizes (szf m) (prv m) n"
  have nN: "n \<in> N" "used (szf m n)" using n by (auto simp: users_def)
  note l = mem_okD(4) [OF ok]
  obtain m' L' where f: "OsMemFree pool n m = Some (LOS_OK, m')" "mem_ok pool sz ?N L' m'"
      "\<And>x. x \<in> insert (end_node pool sz) ?N \<Longrightarrow> szf m' x = ?S x"
      "\<And>a. a \<notin> managed pool (end_node pool sz) N ((szf m)(n := OS_MEM_NODE_GET_SIZE (szf m n))) \<Longrightarrow>
        a \<noteq> info_curUsedSize pool \<Longrightarrow> m' a = m a"
      "m' (info_curUsedSize pool) = m (info_curUsedSize pool) - OS_MEM_NODE_GET_SIZE (szf m n)"
      "plain (szf m' n)" "?b \<in> ?N" "plain (szf m' ?b)"
    by (rule OsMemFree [OF ok nN]) (rule that)
  have NN: "?N \<subseteq> N" by (auto simp: free_blocks_nodes_def)
  have bu: "\<not> used (szf m' ?b)" "?b = n \<or> \<not> used (szf m ?b)" using plain_unused f(8) by (auto simp: joined_def)
  have other: "szf m' x = szf m x" if "x \<in> ?N" "x \<noteq> ?b" for x using f(3) [of x] that by (simp add: free_sizes_def)
  have stay: "x \<in> ?N \<and> x \<noteq> ?b" if "x \<in> users N m" "x \<noteq> n" for x
    using that bu(2) by (auto simp: users_def free_blocks_nodes_def)
  have us: "users ?N m' = users N m - {n}"
  proof (rule set_eqI)
    fix x
    have "n \<in> ?N \<Longrightarrow> n = ?b" by (auto simp: free_blocks_nodes_def joined_def split: if_splits)
    then show "x \<in> users ?N m' \<longleftrightarrow> x \<in> users N m - {n}"
      using other [of x] stay [of x] bu NN by (cases "x = ?b") (auto simp: users_def)
  qed
  have keep: "keeps_data (users N m - {n}) m m'"
    unfolding keeps_data_def
  proof (intro ballI conjI)
    fix x assume x: "x \<in> users N m - {n}"
    then show "szf m' x = szf m x" using other stay by blast
    fix a assume a: "a \<in> user_area (szf m) x"
    have xN: "x \<in> N" "used (szf m x)" "x \<noteq> n" using x by (auto simp: users_def)
    note nm = user_not_managed [OF mem_okD(1) [OF ok] xN(1,2) a]
    show "m' a = m a"
      by (rule f(4) [OF managed_released [OF nm(1) users_disjoint [OF ok xN(1) nN(1) xN(3) a]]]) (use nm(2) in auto)
  qed
  have w: "OS_MEM_NODE_GET_SIZE (szf m n) = of_nat (bsize (szf m n))" by (simp add: bsize_def)
  have "total_used N m = bsize (szf m n) + total_used ?N m'"
  proof -
    have "total_used ?N m' = (\<Sum>x\<in>users N m - {n}. bsize (szf m x))"
      unfolding total_used_def us by (rule sum.cong) (use keep in \<open>auto simp: keeps_data_def\<close>)
    then show ?thesis unfolding total_used_def using sum.remove [of "users N m" n] n by simp
  qed
  then have "accounted pool N m \<Longrightarrow> accounted pool ?N m'" using f(5) w by (simp add: accounted_def)
  then show thesis
    using that [of m' L'] f us keep w free_pool_code [OF ok nN(1) r p] by simp
qed

text \<open>C6: \<open>LOS_MemFree\<close> of the pointer of an allocated block succeeds: exactly this block is no longer
  used, the data in all other used blocks is unchanged, no two free blocks are neighbours, and the
  account of the used memory is right again.\<close>

theorem mem_free:
  assumes "mem_ok pool sz N L m" "n \<in> users N m" "unmoved m n"
  shows "\<exists>m' N' L'. LOS_MemFree_pool pool (n + 8) m = Some (LOS_OK, m') \<and> mem_ok pool sz N' L' m' \<and> N' \<subseteq> N \<and>
    users N' m' = users N m - {n} \<and> keeps_data (users N m - {n}) m m' \<and> (accounted pool N m \<longrightarrow> accounted pool N' m')"
proof -
  have n: "n \<in> N" using assms(2) by (simp add: users_def)
  have "free_blocks_nodes N (szf m) (prv m) n \<subseteq> N" by (auto simp: free_blocks_nodes_def)
  then show ?thesis
    by (rule_tac mem_free_spec [OF assms(1,2) real_ptr [OF assms(3)] node_address(2,3) [OF assms(1) n]]) blast
qed

lemma demo_allocated:
  obtains m L N n where "mem_ok 0x20000000 0x1000 N L m" "n \<in> users N m" "unmoved m n" "accounted 0x20000000 N m"
proof -
  obtain m L where d: "mem_ok 0x20000000 0x1000 {0x200003B0} L m" "users {0x200003B0} m = {}" "szf m 0x200003B0 = 3144"
      "accounted 0x20000000 {0x200003B0} m" using demo_pool by metis
  have r: "request_bytes 100 = 108" "bsize 3144 = 3144" "(100 :: UINT32) \<noteq> 0" "unat (100 :: UINT32) + 12 \<le> 2 ^ 29"
    using plain_size [of 3144] by (simp_all add: request_bytes_def block_bytes_def plain_iff)
  show thesis
  proof (rule mem_alloc_cases [OF d(1) r(3,4)])
    assume "\<forall>n\<in>{0x200003B0} - users {0x200003B0} m. bsize (szf m n) < request_bytes 100"
    then show thesis using d(2,3) r by simp
  next
    fix n s m' L'
    let ?N = "alloc_nodes {0x200003B0} (szf m) n s"
    assume a: "mem_ok 0x20000000 0x1000 ?N L' m'" "users ?N m' = insert n (users {0x200003B0} m)" "unmoved m' n"
      "m' (info_curUsedSize 0x20000000) = m (info_curUsedSize 0x20000000) + of_nat (bsize (szf m' n))"
    have "accounted 0x20000000 ?N m'"
      using a(2,4) d(2,4) by (simp add: accounted_def total_used_def)
    then show thesis using that a by blast
  qed
qed

lemma mem_free_witness: "\<exists>m L N n m' N' L'. mem_ok 0x20000000 0x1000 N L m \<and> n \<in> users N m \<and>
    LOS_MemFree_pool 0x20000000 (n + 8) m = Some (LOS_OK, m') \<and> mem_ok 0x20000000 0x1000 N' L' m' \<and>
    users N' m' = users N m - {n} \<and> accounted 0x20000000 N' m'"
proof -
  obtain m L N n where d: "mem_ok 0x20000000 0x1000 N L m" "n \<in> users N m" "unmoved m n" "accounted 0x20000000 N m"
    by (rule demo_allocated)
  obtain m' N' L' where "LOS_MemFree_pool 0x20000000 (n + 8) m = Some (LOS_OK, m')" "mem_ok 0x20000000 0x1000 N' L' m'"
      "users N' m' = users N m - {n}" "accounted 0x20000000 N' m'"
    using mem_free [OF d(1-3)] d(4) by (elim exE conjE) simp
  then show ?thesis using d(1,2) by (intro exI conjI)
qed

text \<open>C11: Freeing the same pointer again is refused and changes nothing, also when the block was joined to
  the free block before it.\<close>

theorem mem_double_free:
  assumes "mem_ok pool sz N L m" "n \<in> users N m" "unmoved m n"
  shows "\<exists>m'. LOS_MemFree_pool pool (n + 8) m = Some (LOS_OK, m') \<and>
    LOS_MemFree_pool pool (n + 8) m' = Some (LOS_NOK, m')"
proof -
  have n: "n \<in> N" using assms(2) by (simp add: users_def)
  note ad = node_address [OF assms(1) n]
  obtain m' where f: "LOS_MemFree_pool pool (n + 8) m = Some (LOS_OK, m')" "plain (szf m' n)"
    by (rule mem_free_spec [OF assms(1,2) real_ptr [OF assms(3)] ad(2,3)]) (rule that)
  have "\<not> used (szf m' n)" "unmoved m' n"
    using f(2) plain_unused bit_le_unat [of "szf m' n" 30] by (auto simp: unmoved_def aligned_bit plain_iff)
  moreover from this have "OsMemCheckUsedNode pool n m' = LOS_NOK"
    by (simp add: OsMemCheckUsedNode_def Let_def)
  ultimately have "LOS_MemFree_pool pool (n + 8) m' = Some (LOS_NOK, m')"
    using free_pool_code [OF assms(1) n real_ptr ad(2,3), of m'] by (simp add: OsMemFree_def Let_def)
  then show ?thesis using f(1) by blast
qed

lemma mem_double_free_witness: "\<exists>m L N n m'. mem_ok 0x20000000 0x1000 N L m \<and> n \<in> users N m \<and>
    LOS_MemFree_pool 0x20000000 (n + 8) m = Some (LOS_OK, m') \<and>
    LOS_MemFree_pool 0x20000000 (n + 8) m' = Some (LOS_NOK, m')"
proof -
  obtain m L N n where d: "mem_ok 0x20000000 0x1000 N L m" "n \<in> users N m" "unmoved m n"
    by (rule demo_allocated)
  obtain m' where "LOS_MemFree_pool 0x20000000 (n + 8) m = Some (LOS_OK, m')" "LOS_MemFree_pool 0x20000000 (n + 8) m' = Some (LOS_NOK, m')"
    using mem_double_free [OF d] by (elim exE conjE)
  then show ?thesis using d(1,2) by (intro exI conjI)
qed

text \<open>Release of a block that was just allocated.\<close>

lemma alloc_free_nodes:
  assumes ok: "mem_ok pool sz N L m" and n: "n \<in> N" "\<not> used (szf m n)"
    and s: "16 \<le> unat s" "unat s < 2 ^ 29" "4 dvd unat s" "s \<le> szf m n"
    and ok': "mem_ok pool sz (alloc_nodes N (szf m) n s) L' m'"
    and new: "\<And>x. x \<in> insert (end_node pool sz) (alloc_nodes N (szf m) n s) \<Longrightarrow> szf m' x = alloc_sizes (szf m) n s x"
  shows "free_blocks_nodes (alloc_nodes N (szf m) n s) (szf m') (prv m') n = N"
    and "x \<in> N \<Longrightarrow> free_sizes (szf m') (prv m') n x = szf m x"
proof -
  let ?N = "alloc_nodes N (szf m) n s" and ?en = "end_node pool sz"
  note l = mem_okD(4) [OF ok] and l' = mem_okD(4) [OF ok'] and at = alloc_sizes_at [OF ok n s]
  have pl: "plain (szf m n)" by (rule layD(8) [OF l n])
  have nN: "n \<in> ?N" using at(7) n by auto
  have prev: "used (szf m' (prv m' n))"
  proof (cases "n = OS_MEM_FIRST_NODE pool")
    case True
    then show ?thesis using lay_ends(2,3) [OF l'] end_used by simp
  next
    case False
    let ?p = "prv m' n"
    have p: "?p \<in> ?N" "nx (szf m') ?p = n" using lay_pred [OF l' nN False] by auto
    have pn: "?p \<noteq> n" using nx_unat [OF l' p(1)] layD(3) [OF l' p(1)] p(2) by auto
    have lt: "unat ?p < unat n" using nx_unat [OF l' p(1)] layD(3) [OF l' p(1)] p(2) by simp
    have pN: "?p \<in> N"
    proof (rule ccontr)
      assume "?p \<notin> N"
      then have c: "cut (szf m) n s" "?p = n + s" using p(1) by (auto simp: alloc_nodes_def split: if_splits)
      then have "unat ?p = unat n + unat s"
        using lay_split(3) [OF l n(1) pl s(1,3)] cut_unat [OF s(2)] by simp
      then show False using lt by simp
    qed
    have e: "szf m' ?p = szf m ?p" using new [of ?p] p(1) at(5) [OF pN pn] by simp
    have "nx (szf m) ?p = n" using p(2) e by (simp add: nx_def)
    then have "used (szf m ?p)" using mem_okD(2) [OF ok] pN n(2) unfolding separated_def by metis
    then show ?thesis using e by simp
  qed
  then have j: "joined (szf m') (prv m') n = n" by (simp add: joined_def)
  show "free_blocks_nodes ?N (szf m') (prv m') n = N" and "x \<in> N \<Longrightarrow> free_sizes (szf m') (prv m') n x = szf m x"
  proof -
    have "free_blocks_nodes ?N (szf m') (prv m') n = N \<and> (x \<in> N \<longrightarrow> free_sizes (szf m') (prv m') n x = szf m x)" for x
    proof (cases "cut (szf m) n s")
      case True
      note sp = lay_split [OF l n(1) pl s(1,3)]
      have q: "n + s \<notin> insert ?en N" "n + s \<noteq> n" "plain s" "plain (szf m n - s)"
        using sp(2,6,7) True cut_unat [OF s(2)] n by auto
      have sn: "szf m' n = s OR OS_MEM_NODE_USED_FLAG" "szf m' (n + s) = szf m n - s"
        using new [of n] new [of "n + s"] nN True q by (simp_all add: alloc_sizes_def alloc_nodes_def)
      have nxn: "nx (szf m') n = n + s" using sn(1) q(3) by (simp add: nx_def plain_def)
      have "\<not> used (szf m' (n + s))" using sn(2) q(4) plain_unused by simp
      then have "free_blocks_nodes ?N (szf m') (prv m') n = N"
        using prev nxn True q by (auto simp: free_blocks_nodes_def alloc_nodes_def)
      moreover have "free_sizes (szf m') (prv m') n x = szf m x" if x: "x \<in> N"
      proof (cases "x = n")
        case True
        then show ?thesis
          using prev j nxn sn \<open>\<not> used (szf m' (n + s))\<close> q(3) by (simp add: free_sizes_def plain_def)
      next
        case False
        then show ?thesis using j new [of x] at(5) [OF x False] at(7) x by (auto simp: free_sizes_def)
      qed
      ultimately show ?thesis by simp
    next
      case False
      have sn: "szf m' n = szf m n OR OS_MEM_NODE_USED_FLAG"
        using new [of n] nN False by (simp add: alloc_sizes_def)
      have nxn: "nx (szf m') n = nx (szf m) n" using sn by (simp add: nx_def)
      have rN: "nx (szf m) n \<in> insert ?en N" "nx (szf m) n \<noteq> n"
        using layD(6) [OF l n(1)] nx_unat [OF l n(1)] layD(3) [OF l n(1)] by auto
      then have "szf m' (nx (szf m) n) = szf m (nx (szf m) n)"
        using new [of "nx (szf m) n"] False by (simp add: alloc_nodes_def alloc_sizes_def)
      moreover have "used (szf m (nx (szf m) n))" using mem_okD(2) [OF ok] n unfolding separated_def by blast
      ultimately have u: "used (szf m' (nx (szf m') n))" using nxn by simp
      then have "free_blocks_nodes ?N (szf m') (prv m') n = N"
        using prev False by (simp add: free_blocks_nodes_def alloc_nodes_def)
      moreover have "free_sizes (szf m') (prv m') n x = szf m x" if x: "x \<in> N"
        using prev j u sn pl new [of x] at(5) [OF x] at(7) x by (cases "x = n") (auto simp: free_sizes_def plain_def)
      ultimately show ?thesis by simp
    qed
    then show "free_blocks_nodes ?N (szf m') (prv m') n = N" "x \<in> N \<Longrightarrow> free_sizes (szf m') (prv m') n x = szf m x"
      by blast+
  qed
qed

text \<open>C12: A block that is allocated and released at once leaves the pool as it was: the same blocks with
  the same sizes, the same account of used memory, and the data of all used blocks.\<close>

theorem mem_alloc_free:
  assumes "mem_ok pool sz N L m" "req \<noteq> 0" "unat req + 12 \<le> 2 ^ 29"
    and "LOS_MemAlloc_pool pool req m = Some (p, m1)" "p \<noteq> 0"
  shows "\<exists>m2 L2. LOS_MemFree_pool pool p m1 = Some (LOS_OK, m2) \<and> mem_ok pool sz N L2 m2 \<and>
    (\<forall>n\<in>N. szf m2 n = szf m n) \<and> keeps_data (users N m) m m2 \<and>
    m2 (info_curUsedSize pool) = m (info_curUsedSize pool)"
proof (rule mem_alloc_cases [OF assms(1-3)])
  assume "LOS_MemAlloc_pool pool req m = Some (0, m)"
  then show ?thesis using assms(4,5) by simp
next
  fix n s m' L'
  let ?N = "alloc_nodes N (szf m) n s"
  assume a: "LOS_MemAlloc_pool pool req m = Some (n + 8, m')" "n \<in> N - users N m" "unat s = request_bytes req" "s \<le> szf m n"
    "mem_ok pool sz ?N L' m'" "\<And>x. x \<in> insert (end_node pool sz) ?N \<Longrightarrow> szf m' x = alloc_sizes (szf m) n s x"
    "users ?N m' = insert n (users N m)" "keeps_data (users N m) m m'" "unmoved m' n"
    "m' (info_curUsedSize pool) = m (info_curUsedSize pool) + of_nat (bsize (szf m' n))"
  have p: "p = n + 8" "m1 = m'" using a(1) assms(4) by simp_all
  have n: "n \<in> N" "\<not> used (szf m n)" "n \<in> users ?N m'" "n \<in> ?N"
    using a(2,7) by (auto simp: users_def alloc_nodes_def)
  have s: "16 \<le> unat s" "unat s < 2 ^ 29" "4 dvd unat s"
    using block_bytes [of "max 8 (unat req)"] assms(3) a(3) by (auto simp: request_bytes_def)
  note back_to = alloc_free_nodes [OF assms(1) n(1,2) s a(4,5,6)]
  obtain m2 L2 where f: "LOS_MemFree_pool pool (n + 8) m' = Some (LOS_OK, m2)"
      "mem_ok pool sz (free_blocks_nodes ?N (szf m') (prv m') n) L2 m2"
      "\<And>x. x \<in> free_blocks_nodes ?N (szf m') (prv m') n \<Longrightarrow> szf m2 x = free_sizes (szf m') (prv m') n x"
      "keeps_data (users ?N m' - {n}) m' m2"
      "m2 (info_curUsedSize pool) = m' (info_curUsedSize pool) - of_nat (bsize (szf m' n))"
    by (rule mem_free_spec [OF a(5) n(3) real_ptr [OF a(9)] node_address(2,3) [OF a(5) n(4)]]) (rule that)
  have "users ?N m' - {n} = users N m" using a(2,7) by auto
  then have "keeps_data (users N m) m m2" using keeps_data_trans [OF a(8)] f(4) by simp
  moreover have "\<forall>x\<in>N. szf m2 x = szf m x" using f(3) back_to by simp
  ultimately show ?thesis
    using f(1,2,5) a(10) back_to(1) p by (intro exI [of _ m2] exI [of _ L2] conjI) simp_all
qed

lemma mem_alloc_free_witness: "\<exists>m m1 m2 p. LOS_MemAlloc_pool 0x20000000 100 m = Some (p, m1) \<and>
    LOS_MemFree_pool 0x20000000 p m1 = Some (LOS_OK, m2) \<and> szf m2 0x200003B0 = 3144"
proof -
  obtain m L where d: "mem_ok 0x20000000 0x1000 {0x200003B0} L m" "users {0x200003B0} m = {}" "szf m 0x200003B0 = 3144"
    by (rule demo_pool)
  have r: "request_bytes 100 = 108" "bsize 3144 = 3144" "(100 :: UINT32) \<noteq> 0" "unat (100 :: UINT32) + 12 \<le> 2 ^ 29"
    using plain_size [of 3144] by (simp_all add: request_bytes_def block_bytes_def plain_iff)
  obtain p m1 where p: "LOS_MemAlloc_pool 0x20000000 100 m = Some (p, m1)" "p \<noteq> 0"
  proof (rule mem_alloc_spec [OF d(1) r(3,4)])
    fix p m1
    assume "LOS_MemAlloc_pool 0x20000000 100 m = Some (p, m1)"
      "p = 0 \<longleftrightarrow> (\<forall>n\<in>{0x200003B0} - users {0x200003B0} m. bsize (szf m n) < request_bytes 100)"
    then show thesis using that d(2,3) r(1,2) by simp
  qed
  obtain m2 where "LOS_MemFree_pool 0x20000000 p m1 = Some (LOS_OK, m2)" "szf m2 0x200003B0 = szf m 0x200003B0"
    using mem_alloc_free [OF d(1) r(3,4) p] by (elim exE conjE) simp
  then show ?thesis using p d(3) by (intro exI [of _ m] exI [of _ m1] exI [of _ m2] exI [of _ p] conjI) simp_all
qed

section \<open>The walks over the blocks\<close>

lemma walk_rest:
  assumes l: "lay fn en N S P" and a: "a \<in> N"
  shows "{x \<in> N. unat a \<le> unat x} = insert a {x \<in> N. unat (nx S a) \<le> unat x}"
    "a \<notin> {x \<in> N. unat (nx S a) \<le> unat x}" "a < en" "unat a < unat (nx S a)"
proof -
  have u: "unat (nx S a) = unat a + bsize (S a)" "16 \<le> bsize (S a)" "unat a + bsize (S a) \<le> unat en"
    using nx_unat [OF l a] layD(3,5) [OF l a] by simp_all
  show "unat a < unat (nx S a)" "a < en" using u by (simp_all add: word_less_nat_alt)
  show "a \<notin> {x \<in> N. unat (nx S a) \<le> unat x}" using u by simp
  show "{x \<in> N. unat a \<le> unat x} = insert a {x \<in> N. unat (nx S a) \<le> unat x}"
    using layD(9) [OF l a] u a by (fastforce simp: word_unat_eq_iff)
qed

lemma used_loop_sum:
  assumes l: "lay fn en N (szf m) P"
  shows "a \<in> insert en N \<Longrightarrow> used_loop en a acc m = Some (acc + of_nat (\<Sum>x\<in>{x \<in> users N m. unat a \<le> unat x}. bsize (szf m x)))"
proof (induction "unat en - unat a" arbitrary: a acc rule: less_induct)
  case less
  show ?case
  proof (cases "a = en")
    case True
    have "{x \<in> users N m. unat en \<le> unat x} = {}" using layD(3,5) [OF l] by (force simp: users_def)
    note none = this
    show ?thesis by (subst used_loop.simps) (simp add: True none)
  next
    case False
    then have a: "a \<in> N" using less.prems by simp
    note w = walk_rest [OF l a]
    let ?n = "nx (szf m) a" and ?w = "OS_MEM_NODE_GET_SIZE (szf m a)"
    let ?acc = "if used (szf m a) then acc + ?w else acc"
    have nn: "OS_MEM_NEXT_NODE a m = ?n" by (simp add: OS_MEM_NEXT_NODE_def nx_def)
    have dec: "unat en - unat ?n < unat en - unat a" using w(3,4) by (simp add: word_less_nat_alt)
    have ih: "used_loop en ?n ?acc m = Some (?acc + of_nat (\<Sum>x\<in>{x \<in> users N m. unat ?n \<le> unat x}. bsize (szf m x)))"
      by (rule less.hyps [OF dec layD(6) [OF l a]])
    have split: "{x \<in> users N m. unat a \<le> unat x} =
        (if used (szf m a) then insert a {x \<in> users N m. unat ?n \<le> unat x} else {x \<in> users N m. unat ?n \<le> unat x})"
      using w(1,2) a by (auto simp: users_def)
    have out: "a \<notin> {x \<in> users N m. unat ?n \<le> unat x}" using w(4) by simp
    have "?acc + of_nat (\<Sum>x\<in>{x \<in> users N m. unat ?n \<le> unat x}. bsize (szf m x)) =
        acc + of_nat (\<Sum>x\<in>{x \<in> users N m. unat a \<le> unat x}. bsize (szf m x))"
      using out by (simp add: split bsize_def)
    then show ?thesis using ih w(3) by (subst used_loop.simps) (simp add: nn Let_def)
  qed
qed

text \<open>What \<open>OsMemInfoGet\<close> adds up over a set of blocks.\<close>

definition info_of :: "UINT32 set \<Rightarrow> memory \<Rightarrow> LOS_MEM_POOL_STATUS \<Rightarrow> bool" where
  "info_of N m st \<longleftrightarrow>
    totalUsedSize st = of_nat (total_used N m) \<and> usedNodeNum st = of_nat (card (users N m)) \<and>
    totalFreeSize st = of_nat (\<Sum>n\<in>N - users N m. bsize (szf m n)) \<and> freeNodeNum st = of_nat (card (N - users N m)) \<and>
    unat (maxFreeNodeSize st) = Max (insert 0 (bsize ` szf m ` (N - users N m)))"

lemma info_step:
  assumes a: "a \<notin> M" and st: "info_of M m st"
  shows "info_of (insert a M) m (OsMemInfoGet a m st)"
proof (cases "used (szf m a)")
  case True
  have "users (insert a M) m = insert a (users M m)" "insert a M - users (insert a M) m = M - users M m"
    using True a by (auto simp: users_def)
  moreover have "a \<notin> users M m" using a by (simp add: users_def)
  ultimately show ?thesis
    using st True by (simp add: info_of_def total_used_def OsMemInfoGet_def Let_def bsize_def)
next
  case False
  have e: "users (insert a M) m = users M m" "insert a M - users M m = insert a (M - users M m)"
    using False a by (auto simp: users_def)
  have n: "a \<notin> M - users M m" using a by simp
  let ?w = "OS_MEM_NODE_GET_SIZE (szf m a)"
  have "unat (maxFreeNodeSize (OsMemInfoGet a m st)) = max (unat ?w) (unat (maxFreeNodeSize st))"
    using False by (simp add: OsMemInfoGet_def Let_def word_less_nat_alt)
  also have "\<dots> = Max (insert 0 (bsize ` szf m ` insert a (M - users M m)))"
    using st by (simp add: info_of_def bsize_def max.assoc max.left_commute insert_commute [of 0])
  finally show ?thesis
    using st False n by (simp add: info_of_def e total_used_def) (simp add: OsMemInfoGet_def Let_def bsize_def)
qed

lemma info_loop_sum:
  assumes l: "lay fn en N (szf m) P"
  shows "a \<in> insert en N \<Longrightarrow> info_of {x \<in> N. unat x < unat a} m st \<Longrightarrow> \<exists>st'. info_loop en a m st = Some st' \<and> info_of N m st'"
proof (induction "unat en - unat a" arbitrary: a st rule: less_induct)
  case less
  show ?case
  proof (cases "a = en")
    case True
    have "unat x < unat en" if "x \<in> N" for x using layD(3,5) [OF l that] by simp
    then have "{x \<in> N. unat x < unat en} = N" by auto
    then show ?thesis using less.prems(2) True by (subst info_loop.simps) simp
  next
    case False
    then have a: "a \<in> N" using less.prems by simp
    note w = walk_rest [OF l a]
    let ?n = "nx (szf m) a"
    have nn: "OS_MEM_NEXT_NODE a m = ?n" by (simp add: OS_MEM_NEXT_NODE_def nx_def)
    have dec: "unat en - unat ?n < unat en - unat a" using w(3,4) by (simp add: word_less_nat_alt)
    have "{x \<in> N. unat x < unat ?n} = insert a {x \<in> N. unat x < unat a}"
    proof (rule set_eqI)
      fix x
      have "x \<in> N \<Longrightarrow> \<not> unat a \<le> unat x \<or> x = a \<or> unat ?n \<le> unat x" using w(1) by blast
      then show "x \<in> {x \<in> N. unat x < unat ?n} \<longleftrightarrow> x \<in> insert a {x \<in> N. unat x < unat a}"
        using a w(4) by auto
    qed
    then have "info_of {x \<in> N. unat x < unat ?n} m (OsMemInfoGet a m st)"
      using info_step [OF _ less.prems(2), of a] by simp
    then obtain st' where "info_loop en ?n m (OsMemInfoGet a m st) = Some st'" "info_of N m st'"
      using less.hyps [OF dec layD(6) [OF l a]] by blast
    then show ?thesis using w(3) by (subst info_loop.simps) (simp add: nn)
  qed
qed

text \<open>C13: On a pool with the invariant the walks of \<open>LOS_MemTotalUsedGet\<close> and \<open>LOS_MemInfoGet\<close> end at the
  end node; the first returns the sum of the sizes of the used blocks, the second the sums and the
  numbers of the used and of the free blocks and the size of the largest free block.\<close>

theorem mem_walks_end:
  assumes "mem_ok pool sz N L m" "m (info_pool pool) = pool"
  shows "LOS_MemTotalUsedGet pool m = Some (of_nat (total_used N m)) \<and>
    (\<exists>st. LOS_MemInfoGet pool False m = Some (LOS_OK, Some st) \<and> info_of N m st \<and> usageWaterLine st = m (info_waterLine pool))"
proof -
  note l = mem_okD(4) [OF assms(1)]
  have p: "pool \<noteq> 0" "m (info_totalSize pool) = sz"
    using mem_okD(3) [OF assms(1)] heapD(6) [OF mem_okD(1) [OF assms(1)]] by (simp_all add: geom_def)
  have all: "unat (OS_MEM_FIRST_NODE pool) \<le> unat x" if "x \<in> N" for x by (rule layD(1) [OF l that])
  then have "{x \<in> users N m. unat (OS_MEM_FIRST_NODE pool) \<le> unat x} = users N m" by (auto simp: users_def)
  then have t: "used_loop (end_node pool sz) (OS_MEM_FIRST_NODE pool) 0 m = Some (of_nat (total_used N m))"
    using used_loop_sum [OF l, of "OS_MEM_FIRST_NODE pool" 0] lay_ends(1) [OF l] by (simp add: total_used_def)
  have "{x \<in> N. unat x < unat (OS_MEM_FIRST_NODE pool)} = {}" using all by force
  then have "info_of {x \<in> N. unat x < unat (OS_MEM_FIRST_NODE pool)} m zero_status"
    by (simp only:) (simp add: info_of_def zero_status_def total_used_def users_def)
  then obtain st where "info_loop (end_node pool sz) (OS_MEM_FIRST_NODE pool) m zero_status = Some st" "info_of N m st"
    using info_loop_sum [OF l] lay_ends(1) [OF l] by blast
  then show ?thesis using t p assms(2)
    by (simp add: LOS_MemTotalUsedGet_def LOS_MemInfoGet_def info_of_def)
qed

lemma mem_walks_end_witness: "\<exists>m. LOS_MemTotalUsedGet 0x20000000 m = Some 0 \<and>
    (\<exists>st. LOS_MemInfoGet 0x20000000 False m = Some (LOS_OK, Some st) \<and> freeNodeNum st = 1 \<and> usedNodeNum st = 0)"
proof -
  obtain m L where d: "mem_ok 0x20000000 0x1000 {0x200003B0} L m" "users {0x200003B0} m = {}"
      "m (info_pool 0x20000000) = 0x20000000" by (rule demo_pool)
  have "total_used {0x200003B0} m = 0" using d(2) by (simp add: total_used_def)
  moreover obtain st where "LOS_MemTotalUsedGet 0x20000000 m = Some (of_nat (total_used {0x200003B0} m))"
      "LOS_MemInfoGet 0x20000000 False m = Some (LOS_OK, Some st)" "info_of {0x200003B0} m st"
    using mem_walks_end [OF d(1,3)] by (elim exE conjE)
  ultimately show ?thesis using d(2) by (intro exI [of _ m]) (simp add: info_of_def)
qed

end
