(* ===== verification/Mem_Align.thy ===== *)
theory Mem_Align
  imports Mem_Props
begin

text \<open>
  Aligned allocation: the pointer is moved up inside its block, the distance is stored in the word
  before it, and the release finds the block again.
\<close>

section \<open>Rounding to a power of two\<close>

lemma pow_two_word:
  assumes "k < 32"
  shows "(2 :: UINT32) ^ k - 1 = mask k" "unat ((2 :: UINT32) ^ k) = 2 ^ k" "OS_MEM_IS_POW_TWO (2 ^ k)"
proof -
  show m: "(2 :: UINT32) ^ k - 1 = mask k" by (simp add: mask_eq_exp_minus_1)
  have "take_bit k ((2 :: UINT32) ^ k) = 0" by (rule bit_eqI) (simp add: bit_simps)
  then show "OS_MEM_IS_POW_TWO (2 ^ k)" by (simp only: OS_MEM_IS_POW_TWO_def m take_bit_eq_mask)
  have "(2 :: nat) ^ k < 2 ^ 32" using assms by (intro power_strict_increasing) auto
  then have "unat (of_nat (2 ^ k) :: UINT32) = 2 ^ k" by (rule of_nat_word)
  then show "unat ((2 :: UINT32) ^ k) = 2 ^ k" by simp
qed

lemma and_not_mask: "unat (w AND NOT (mask k) :: UINT32) = 2 ^ k * (unat w div 2 ^ k)"
proof -
  have "w AND NOT (mask k) = push_bit k (drop_bit k w)"
    by (rule bit_eqI) (auto simp: bit_simps)
  moreover have "unat (drop_bit k w) * 2 ^ k < 2 ^ 32"
  proof -
    have "unat w div 2 ^ k * 2 ^ k \<le> unat w" by (rule div_times_less_eq_dividend)
    also have "unat w < 2 ^ 32" using unsigned_less [where w = w and 'a = nat] by simp
    finally show ?thesis by (simp only: unat_drop)
  qed
  moreover have "push_bit k (drop_bit k w) = of_nat (unat (drop_bit k w) * 2 ^ k)" by (simp add: push_bit_eq_mult)
  ultimately have "unat (w AND NOT (mask k)) = unat (drop_bit k w) * 2 ^ k"
    by (simp only: of_nat_word)
  then show ?thesis by (simp only: unat_drop mult.commute)
qed

lemma OS_MEM_ALIGN_pow:
  assumes k: "2 \<le> k" "k < 32" and p: "unat p + 2 ^ k \<le> 2 ^ 32" "4 dvd unat p"
  defines "a \<equiv> OS_MEM_ALIGN p (2 ^ k)"
  shows "unat p \<le> unat a" "unat a + 4 \<le> unat p + 2 ^ k" "2 ^ k dvd unat a" "4 dvd unat a"
proof -
  let ?n = "unat p + 2 ^ k - 1"
  have "1 \<le> unat p + 2 ^ k" using zero_less_power [of "2 :: nat" k] by linarith
  then have "p + 2 ^ k - 1 = of_nat ?n" by (simp only: of_nat_diff of_nat_add of_nat_power) simp
  moreover have "?n < 2 ^ 32" using p(1) by simp
  ultimately have "unat (p + 2 ^ k - 1) = ?n" by (simp only: of_nat_word)
  then have a: "unat a = 2 ^ k * (?n div 2 ^ k)"
    using and_not_mask [of "p + 2 ^ k - 1" k] pow_two_word(1) [OF k(2)] by (simp add: a_def OS_MEM_ALIGN_def)
  then show d: "2 ^ k dvd unat a" by simp
  have "(4 :: nat) dvd 2 ^ k" using le_imp_power_dvd [OF k(1), of "2 :: nat"] by simp
  then show "4 dvd unat a" using d by (rule dvd_trans)
  have "?n = unat a + ?n mod 2 ^ k" using a by simp
  moreover have "?n mod 2 ^ k < 2 ^ k" by simp
  moreover have "(0 :: nat) < 2 ^ k" by simp
  ultimately show le: "unat p \<le> unat a" by linarith
  have "unat a < unat p + 2 ^ k" using a \<open>(0 :: nat) < 2 ^ k\<close> mult_div_mod_eq [of "2 ^ k" ?n] by linarith
  moreover obtain x y z where e: "unat a = 4 * x" "unat p = 4 * y" "(2 :: nat) ^ k = 4 * z"
    using \<open>4 dvd unat a\<close> p(2) \<open>(4 :: nat) dvd 2 ^ k\<close> by (auto simp: dvd_def)
  ultimately have "x < y + z" by linarith
  then show "unat a + 4 \<le> unat p + 2 ^ k" unfolding e by simp
qed

section \<open>The distance before the pointer\<close>

lemma data_change:
  assumes ok: "mem_ok pool sz N L m" and n: "n \<in> users N m"
    and same: "\<forall>a. a \<notin> user_area (szf m) n \<longrightarrow> m' a = m a"
  shows "mem_ok pool sz N L m'" "x \<in> insert (end_node pool sz) N \<Longrightarrow> szf m' x = szf m x"
    "keeps_data (users N m - {n}) m m'" "info_addr pool b \<Longrightarrow> m' b = m b" "users N m' = users N m"
proof -
  have nN: "n \<in> N" "used (szf m n)" using n by (auto simp: users_def)
  have fr: "m' a = m a" if "a \<notin> user_area (szf m) n" for a using same that by simp
  note h = mem_okD(1) [OF ok]
  note nm = user_not_managed [OF h nN]
  have hd: "szf m' x = szf m x" "prv m' x = prv m x" if "x \<in> insert (end_node pool sz) N" for x
    using nm(1) header_managed [OF that, of pool "szf m"] by (auto intro!: fr)
  have "lists_area pool (members L) \<subseteq> managed pool (end_node pool sz) N (szf m)"
    using lists_area_free [OF h] heapD(5) [OF h] by auto
  then have "m' a = m a" if "a \<in> lists_area pool (members L)" for a using nm(1) that by (intro fr) blast
  moreover have "m' (info_totalSize pool) = m (info_totalSize pool)" using nm(2) info_addrs(2) by (intro fr) blast
  ultimately have h': "heap pool sz N L {} m'" using hd by (intro heap_frame [OF h]) auto
  show s: "szf m' x = szf m x" if "x \<in> insert (end_node pool sz) N" for x
    using hd(1) [OF that] by simp
  have "nx (szf m') x = nx (szf m) x" if "x \<in> N" for x using s [of x] that by (simp add: nx_def)
  moreover have "nx (szf m) x \<in> insert (end_node pool sz) N" if "x \<in> N" for x
    by (rule layD(6) [OF heapD(2) [OF h] that])
  ultimately have "separated N (szf m')"
    using mem_okD(2) [OF ok] s unfolding separated_def by (metis insertCI)
  then show "mem_ok pool sz N L m'" using h' by (simp add: mem_ok_def)
  show "info_addr pool b \<Longrightarrow> m' b = m b" using nm(2) by (intro fr) blast
  show "users N m' = users N m" using s by (auto simp: users_def)
  show "keeps_data (users N m - {n}) m m'"
    unfolding keeps_data_def
  proof (intro ballI conjI)
    fix x assume x: "x \<in> users N m - {n}"
    then have xN: "x \<in> N" "x \<noteq> n" by (auto simp: users_def)
    show "szf m' x = szf m x" using s xN by simp
    fix b assume "b \<in> user_area (szf m) x"
    from users_disjoint [OF ok xN(1) nN(1) xN(2) this]
    show "m' b = m b" by (intro fr) (auto simp: user_area_def)
  qed
qed

lemma flag_write:
  assumes ok: "mem_ok pool sz N L m" and n: "n \<in> users N m"
  defines "m' \<equiv> OS_MEM_NODE_SET_ALIGNED_FLAG n m"
  shows "mem_ok pool sz N L m'"
    "x \<in> insert (end_node pool sz) N \<Longrightarrow> szf m' x = ((szf m)(n := szf m n OR OS_MEM_NODE_ALIGNED_FLAG)) x"
    "users N m' = users N m" "keeps_data (users N m - {n}) m m'" "info_addr pool b \<Longrightarrow> m' b = m b"
proof -
  have nN: "n \<in> N" "used (szf m n)" using n by (auto simp: users_def)
  note h = mem_okD(1) [OF ok]
  let ?w = "szf m n OR OS_MEM_NODE_ALIGNED_FLAG"
  have m': "m' = m(sizeAndFlag n := ?w)" by (simp add: m'_def OS_MEM_NODE_SET_ALIGNED_FLAG_def)
  have nm: "n \<notin> members L" using heap_members(2) [OF h] nN by auto
  have w: "OS_MEM_NODE_GET_SIZE ?w = OS_MEM_NODE_GET_SIZE (szf m n)" "used ?w \<or> plain ?w" "used ?w" using nN by simp_all
  note fl = heap_flag [OF h nN(1) nm w(1,2), folded m']
  show s: "szf m' x = ((szf m)(n := ?w)) x" if "x \<in> insert (end_node pool sz) N" for x using fl(2) [OF that] by simp
  have e: "used (szf m' x) = used (szf m x)" "nx (szf m') x = nx (szf m) x" if "x \<in> insert (end_node pool sz) N" for x
    using s [OF that] w by (auto simp: nx_def)
  moreover have "nx (szf m) x \<in> insert (end_node pool sz) N" if "x \<in> N" for x
    by (rule layD(6) [OF heapD(2) [OF h] that])
  ultimately have "separated N (szf m')"
    using mem_okD(2) [OF ok] unfolding separated_def by (metis insertCI)
  then show "mem_ok pool sz N L m'" using fl(1) w(3) by (simp add: mem_ok_def)
  show "users N m' = users N m" using e(1) by (auto simp: users_def)
  show "info_addr pool b \<Longrightarrow> m' b = m b"
    using info_not_header(1) [OF _ node_beyond(1) [OF h, of n]] nN by (auto simp: m')
  show "keeps_data (users N m - {n}) m m'"
    unfolding keeps_data_def
  proof (intro ballI conjI)
    fix x assume x: "x \<in> users N m - {n}"
    then have xN: "x \<in> N" "used (szf m x)" "x \<noteq> n" by (auto simp: users_def)
    show "szf m' x = szf m x" using s [of x] xN by simp
    fix b assume "b \<in> user_area (szf m) x"
    then have "b \<noteq> sizeAndFlag n"
      using user_not_managed(1) [OF h xN(1,2)] header_managed(2) [of n "end_node pool sz" N] nN by auto
    then show "m' b = m b" by (simp add: m')
  qed
qed

lemma gap_word:
  assumes "unat g < 2 ^ 30"
  shows "\<not> OS_MEM_GAPSIZE_CHECK (g OR OS_MEM_GAPSIZE_ALIGNED_FLAG)"
    "OS_MEM_GET_GAPSIZE_ALIGNED_FLAG (g OR OS_MEM_GAPSIZE_ALIGNED_FLAG)"
    "OS_MEM_GET_ALIGNED_GAPSIZE (g OR OS_MEM_GAPSIZE_ALIGNED_FLAG) = g"
proof -
  have nb: "\<not> bit g 30" "\<not> bit g 31" using bit_le_unat [of g 30] bit_le_unat [of g 31] assms by auto
  have f: "OS_MEM_GAPSIZE_ALIGNED_FLAG = 2 ^ 30" "OS_MEM_GAPSIZE_USED_FLAG = 2 ^ 31"
    by (simp_all add: OS_MEM_GAPSIZE_ALIGNED_FLAG_def OS_MEM_GAPSIZE_USED_FLAG_def)
  show "OS_MEM_GET_GAPSIZE_ALIGNED_FLAG (g OR OS_MEM_GAPSIZE_ALIGNED_FLAG)"
    by (simp only: OS_MEM_GET_GAPSIZE_ALIGNED_FLAG_def f and_exp_eq_0_iff_not_bit) (simp add: bit_simps)
  have "\<not> bit (g OR 2 ^ 30) 31" using nb by (simp add: bit_simps)
  then show "\<not> OS_MEM_GAPSIZE_CHECK (g OR OS_MEM_GAPSIZE_ALIGNED_FLAG)"
    by (simp only: OS_MEM_GAPSIZE_CHECK_def f and_exp_eq_0_iff_not_bit) simp
  show "OS_MEM_GET_ALIGNED_GAPSIZE (g OR OS_MEM_GAPSIZE_ALIGNED_FLAG) = g"
    unfolding OS_MEM_GET_ALIGNED_GAPSIZE_def f by (rule bit_eqI) (use nb in \<open>auto simp only: bit_and_iff bit_not_iff bit_or_iff bit_exp_iff\<close>)
qed

section \<open>Allocation and release\<close>

lemma alloc_pool_code:
  assumes "pool \<noteq> 0" "8 \<le> unat req" "unat req + 12 \<le> 2 ^ 29"
  shows "LOS_MemAlloc_pool pool req m = OsMemAlloc pool req m" "\<not> used req" "\<not> OS_MEM_NODE_GET_ALIGNED_FLAG req"
proof -
  have "plain req" using assms by (simp add: plain_iff)
  then show f: "\<not> used req" "\<not> OS_MEM_NODE_GET_ALIGNED_FLAG req"
    using bit_le_unat [of req 30] plain_unused by (auto simp: aligned_bit plain_iff)
  have "req \<noteq> 0" "\<not> req < OS_MEM_MIN_ALLOC_SIZE" using assms(2) by (auto simp: OS_MEM_MIN_ALLOC_SIZE_def word_less_nat_alt)
  then show "LOS_MemAlloc_pool pool req m = OsMemAlloc pool req m"
    using assms(1) f by (simp add: LOS_MemAlloc_pool_def Let_def)
qed

text \<open>The size that is asked for, so that an aligned piece of \<open>req\<close> bytes lies in the block.\<close>

definition padded :: "UINT32 \<Rightarrow> nat \<Rightarrow> UINT32" where
  "padded req k = (if req < OS_MEM_MIN_ALLOC_SIZE then OS_MEM_MIN_ALLOC_SIZE else req) + 2 ^ k - 4"

lemma padded:
  assumes "2 \<le> k" "max 8 (unat req) + 2 ^ k + 8 \<le> 2 ^ 29"
  shows "unat (padded req k) = max 8 (unat req) + 2 ^ k - 4" "k < 29"
proof -
  let ?r = "if req < OS_MEM_MIN_ALLOC_SIZE then OS_MEM_MIN_ALLOC_SIZE else req"
  have "(2 :: nat) ^ k < 2 ^ 29" using assms(2) by linarith
  then show k: "k < 29" using power_strict_increasing_iff [of "2 :: nat" k 29] by (simp only: one_less_numeral_iff) simp
  have r: "unat ?r = max 8 (unat req)" by (auto simp: OS_MEM_MIN_ALLOC_SIZE_def word_less_nat_alt)
  have b: "unat ((2 :: UINT32) ^ k) = 2 ^ k" using pow_two_word(2) [of k] k by simp
  have "unat (?r + 2 ^ k) = max 8 (unat req) + 2 ^ k" using r b assms(2) by (simp only: unat_word_ariths(1)) simp
  moreover have "4 \<le> ?r + 2 ^ k" using calculation by (simp add: word_le_nat_alt)
  ultimately show "unat (padded req k) = max 8 (unat req) + 2 ^ k - 4" by (simp add: padded_def unat_sub)
qed

lemma alloc_align_code:
  assumes pool: "pool \<noteq> 0" and req: "req \<noteq> 0" and k: "2 \<le> k" "max 8 (unat req) + 2 ^ k + 8 \<le> 2 ^ 29"
  shows "LOS_MemAllocAlign pool req (2 ^ k) m = (case LOS_MemAlloc_pool pool (padded req k) m of None \<Rightarrow> None
    | Some (ptr, m) \<Rightarrow> let a = OS_MEM_ALIGN ptr (2 ^ k) in if ptr = a then Some (ptr, m)
        else Some (a, (OS_MEM_NODE_SET_ALIGNED_FLAG (ptr - 8) m)(a - 4 := (a - ptr) OR OS_MEM_GAPSIZE_ALIGNED_FLAG)))"
proof -
  let ?r = "if req < OS_MEM_MIN_ALLOC_SIZE then OS_MEM_MIN_ALLOC_SIZE else req" and ?b = "2 ^ k :: UINT32"
  note pd = padded [OF k]
  have b: "unat ?b = 2 ^ k" "OS_MEM_IS_POW_TWO ?b" using pow_two_word [of k] pd(2) by simp_all
  have four: "(4 :: nat) dvd 2 ^ k" using le_imp_power_dvd [OF k(1), of "2 :: nat"] by simp
  have bs: "?b \<noteq> 0" "OS_MEM_IS_ALIGNED ?b 4"
    using b(1) four and_3 [of ?b] pd(2) by (auto simp: OS_MEM_IS_ALIGNED_def)
  have "4 \<le> (2 :: nat) ^ k" using four by (auto dest: dvd_imp_le)
  then have "unat (?b - 4) = 2 ^ k - 4" using b(1) by (simp add: unat_sub word_le_nat_alt)
  moreover have r: "unat ?r = max 8 (unat req)" by (auto simp: OS_MEM_MIN_ALLOC_SIZE_def word_less_nat_alt)
  have "unat (- 1 - x :: UINT32) = 2 ^ 32 - 1 - unat x" for x
  proof -
    have "(- 1 :: UINT32) = 0xFFFFFFFF" by simp
    moreover have "unat (0xFFFFFFFF - x :: UINT32) = 2 ^ 32 - 1 - unat x"
      using unsigned_less [where w = x and 'a = nat] by (subst unat_sub) (simp_all add: word_le_nat_alt)
    ultimately show ?thesis by (simp only:)
  qed
  then have "unat (- 1 - ?r) = 2 ^ 32 - 1 - unat ?r" .
  ultimately have fit: "\<not> - 1 - ?r < ?b - 4" using r k(2) by (simp add: word_less_nat_alt)
  have p8: "8 \<le> unat (padded req k)" "unat (padded req k) + 12 \<le> 2 ^ 29" using pd \<open>4 \<le> 2 ^ k\<close> k(2) by simp_all
  note ap = alloc_pool_code [OF pool p8]
  show ?thesis
    using pool req bs b(2) fit ap(2,3)
    by (simp add: LOS_MemAllocAlign_def Let_def padded_def [symmetric] ap(1) OS_MEM_NODE_HEAD_SIZE_def split: option.split cong: if_cong)
qed

text \<open>The block \<open>n\<close> has been allocated, and the pointer \<open>p\<close> leads back to it.\<close>

lemma alloc_align_spec:
  assumes ok: "mem_ok pool sz N L m" and req: "req \<noteq> 0" and k: "2 \<le> k" "max 8 (unat req) + 2 ^ k + 8 \<le> 2 ^ 29"
  obtains "LOS_MemAllocAlign pool req (2 ^ k) m = Some (0, m)"
      "\<forall>n\<in>N - users N m. bsize (szf m n) < request_bytes (padded req k)"
  | p n N' L' m' where "LOS_MemAllocAlign pool req (2 ^ k) m = Some (p, m')" "mem_ok pool sz N' L' m'" "n \<in> N - users N m"
    "users N' m' = insert n (users N m)" "2 ^ k dvd unat p" "4 dvd unat p" "unat n + 8 \<le> unat p"
    "unat p + max 8 (unat req) \<le> unat n + bsize (szf m' n)" "keeps_data (users N m) m m'"
    "accounted pool N m \<Longrightarrow> accounted pool N' m'" "OsGetRealPtr pool p m' = n + 8" "p \<noteq> 0"
    "request_bytes (padded req k) \<le> bsize (szf m n)"
proof -
  note pd = padded [OF k]
  have p0: "pool \<noteq> 0" using mem_okD(3) [OF ok] by (simp add: geom_def)
  note code = alloc_align_code [OF p0 req k]
  have pb: "2 ^ k \<ge> (4 :: nat)" using power_increasing [OF k(1), of "2 :: nat"] by simp
  have pr: "padded req k \<noteq> 0" "unat (padded req k) + 12 \<le> 2 ^ 29" using pd pb k(2) by auto
  have rb: "max 8 (unat req) + 2 ^ k + 4 \<le> request_bytes (padded req k)"
    using block_bytes(1) [of "max 8 (unat (padded req k))"] pd pb by (simp add: request_bytes_def)
  show thesis
  proof (rule mem_alloc_cases [OF ok pr])
    assume a: "LOS_MemAlloc_pool pool (padded req k) m = Some (0, m)"
      "\<forall>n\<in>N - users N m. bsize (szf m n) < request_bytes (padded req k)"
    have "OS_MEM_ALIGN 0 (2 ^ k) = 0" by (simp add: OS_MEM_ALIGN_def)
    then show thesis using that(1) a code by simp
  next
    fix n s m1 L1
    let ?N = "alloc_nodes N (szf m) n s"
    assume a: "LOS_MemAlloc_pool pool (padded req k) m = Some (n + 8, m1)" "n \<in> N - users N m"
      "unat s = request_bytes (padded req k)" "s \<le> szf m n"
      "mem_ok pool sz ?N L1 m1" "users ?N m1 = insert n (users N m)"
      "request_bytes (padded req k) \<le> bsize (szf m1 n)" "keeps_data (users N m) m m1" "unmoved m1 n"
      "m1 (info_curUsedSize pool) = m (info_curUsedSize pool) + of_nat (bsize (szf m1 n))"
    have nU: "n \<in> users ?N m1" "n \<in> ?N" using a(6) by (auto simp: users_def)
    have n: "n \<in> N" "\<not> used (szf m n)" using a(2) by (auto simp: users_def)
    note ad = node_address [OF a(5) nU(2)]
    have pl: "request_bytes (padded req k) \<le> bsize (szf m n)"
      using a(3,4) plain_size [OF layD(8) [OF mem_okD(4) [OF ok] n]] by (simp add: word_le_nat_alt)
    have "total_used ?N m1 = bsize (szf m1 n) + total_used N m"
      using total_used_insert [OF a(6) _ keeps_sizes [OF a(8)]] a(2) by (simp add: total_used_def)
    then have acc: "accounted pool N m \<Longrightarrow> accounted pool ?N m1" using a(10) by (simp add: accounted_def)
    define A where "A = OS_MEM_ALIGN (n + 8) (2 ^ k)"
    have en: "unat n + bsize (szf m1 n) < 2 ^ 32"
      using layD(5) [OF mem_okD(4) [OF a(5)] nU(2)] unsigned_less [where w = "end_node pool sz" and 'a = nat] by simp
    have "unat (n + 8) + 2 ^ k \<le> 2 ^ 32" using en a(7) rb ad(4) by linarith
    moreover have "k < 32" using pd(2) by simp
    ultimately have A: "unat n + 8 \<le> unat A" "unat A + 4 \<le> unat n + 8 + 2 ^ k" "2 ^ k dvd unat A" "4 dvd unat A"
      using OS_MEM_ALIGN_pow [OF k(1), of "n + 8", folded A_def] ad(3,4) by auto
    have fits: "unat A + max 8 (unat req) \<le> unat n + bsize (szf m1 n)" using A(2) rb a(7) by linarith
    have A0: "A \<noteq> 0" using A(1) by auto
    show thesis
    proof (cases "A = n + 8")
      case True
      then have "LOS_MemAllocAlign pool req (2 ^ k) m = Some (A, m1)" using code a(1) A_def by (simp add: Let_def)
      then show thesis
        using a(2,5,6,8) A fits acc True real_ptr [OF a(9), of pool] A0 pl by (intro that(2) [of A m1 ?N L1 n]) auto
    next
      case False
      define m2 where "m2 = OS_MEM_NODE_SET_ALIGNED_FLAG n m1"
      define g where "g = A - (n + 8)"
      define m3 where "m3 = m2(A - 4 := g OR OS_MEM_GAPSIZE_ALIGNED_FLAG)"
      have res: "LOS_MemAllocAlign pool req (2 ^ k) m = Some (A, m3)"
        using code a(1) False ad(1) by (simp add: Let_def A_def [symmetric] m3_def m2_def g_def)
      have "unat A \<noteq> unat n + 8" using False ad(4) by (simp add: word_unat_eq_iff)
      moreover obtain x y where "unat A = 4 * x" "unat n + 8 = 4 * y" using A(4) ad(3,4) by (auto simp: dvd_def)
      ultimately have up: "unat n + 12 \<le> unat A" using A(1) by presburger
      have ug: "unat g = unat A - unat n - 8" unfolding g_def using A(1) ad(4) by (subst unat_sub) (simp_all add: word_le_nat_alt)
      have uA: "unat (A - 4) = unat A - 4" using up by (subst unat_sub) (simp_all add: word_le_nat_alt)
      note f2 = flag_write [OF a(5) nU(1), folded m2_def]
      have s2: "szf m2 n = szf m1 n OR OS_MEM_NODE_ALIGNED_FLAG" using f2(2) [of n] nU by simp
      have b2: "bsize (szf m2 x) = bsize (szf m1 x)" if "x \<in> ?N" for x
        using f2(2) [of x] that by (simp add: bsize_def)
      have n2: "n \<in> users ?N m2" using f2(3) nU by simp
      have in_area: "A - 4 \<in> user_area (szf m2) n" using uA up fits b2 [OF nU(2)] by (simp add: user_area_def, intro conjI; linarith)
      have "\<forall>a. a \<notin> user_area (szf m2) n \<longrightarrow> m3 a = m2 a" using in_area by (auto simp: m3_def)
      note f3 = data_change [OF f2(1) n2 this]
      have s3: "szf m3 x = szf m2 x" if "x \<in> ?N" for x using f3(2) [of x] that by simp
      have "users ?N m3 = users ?N m2" using s3 by (auto simp: users_def)
      then have u3: "users ?N m3 = insert n (users N m)" using f2(3) a(6) by simp
      have b3: "bsize (szf m3 x) = bsize (szf m1 x)" if "x \<in> ?N" for x using s3 b2 that by simp
      have sub: "users N m \<subseteq> users ?N m1 - {n}" "users N m \<subseteq> users ?N m2 - {n}" using a(2,6) f2(3) by auto
      have weak: "keeps_data U x y \<Longrightarrow> V \<subseteq> U \<Longrightarrow> keeps_data V x y" for U V x y by (auto simp: keeps_data_def)
      have keep: "keeps_data (users N m) m m3"
        using keeps_data_trans [OF a(8) keeps_data_trans [OF weak [OF f2(4) sub(1)] weak [OF f3(3) sub(2)]]] .
      have "total_used ?N m3 = total_used ?N m1"
        unfolding total_used_def u3 a(6) by (rule sum.cong [OF refl]) (use b3 a(6) in \<open>auto simp: users_def\<close>)
      moreover have "m3 (info_curUsedSize pool) = m1 (info_curUsedSize pool)" using f3(4) f2(5) by simp
      ultimately have acc3: "accounted pool N m \<Longrightarrow> accounted pool ?N m3" using acc by (simp add: accounted_def)
      have real: "OsGetRealPtr pool A m3 = n + 8"
      proof -
        have "unat g < 2 ^ 30" using ug A(2) k(2) by simp
        note gw = gap_word [OF this]
        have "4 dvd unat g" using ug \<open>unat A = 4 * x\<close> \<open>unat n + 8 = 4 * y\<close> by (simp add: dvd_diff_nat diff_diff_eq)
        then have g3: "g AND 3 = 0" using and_3 by simp
        have "unat pool \<le> unat n" using layD(1) [OF mem_okD(4) [OF a(5)] nU(2)] geom_ends(1) [OF mem_okD(3) [OF ok]] by simp
        then have "unat (A - 8 - pool) = unat A - 8 - unat pool \<and> unat g \<le> unat A - 8 - unat pool"
          using A(1) ug up by (subst unat_sub; (subst unat_sub)?) (auto simp: word_le_nat_alt unat_sub)
        then have "\<not> A - 8 - pool < g" by (simp add: word_less_nat_alt)
        moreover have "A - g = n + 8" by (simp add: g_def)
        ultimately show ?thesis
          using gw g3 by (simp add: OsGetRealPtr_def Let_def m3_def OS_MEM_ALIGN_SIZE_def OS_MEM_NODE_HEAD_SIZE_def)
      qed
      show thesis
        using a(2) A fits b3 [OF nU(2)] acc3 A0 pl real keep u3 f3(1) res by (intro that(2) [of A m3 ?N L1 n]) auto
    qed
  qed
qed

text \<open>C9: \<open>LOS_MemAllocAlign\<close> returns; it fails, without a change, exactly when no free block has room for
  the size and the largest distance, and otherwise the pointer is a multiple of the boundary, the
  bytes asked for lie in a block that was free, no used block is touched, and \<open>LOS_MemFree\<close> of the
  moved pointer finds the block again and releases it.\<close>

theorem mem_alloc_align:
  assumes "mem_ok pool sz N L m" "req \<noteq> 0" "2 \<le> k" "max 8 (unat req) + 2 ^ k + 8 \<le> 2 ^ 29"
  shows "\<exists>p m'. LOS_MemAllocAlign pool req (2 ^ k) m = Some (p, m') \<and>
    (p = 0 \<longleftrightarrow> (\<forall>n\<in>N - users N m. bsize (szf m n) < request_bytes (padded req k))) \<and> (p = 0 \<longrightarrow> m' = m) \<and>
    (p \<noteq> 0 \<longrightarrow> 2 ^ k dvd unat p \<and> (\<exists>n N' L' m2 N2 L2. mem_ok pool sz N' L' m' \<and> n \<in> N - users N m \<and>
      users N' m' = insert n (users N m) \<and> unat n + 8 \<le> unat p \<and> unat p + unat req \<le> unat n + bsize (szf m' n) \<and>
      keeps_data (users N m) m m' \<and> (accounted pool N m \<longrightarrow> accounted pool N' m') \<and>
      LOS_MemFree_pool pool p m' = Some (LOS_OK, m2) \<and> mem_ok pool sz N2 L2 m2 \<and> users N2 m2 = users N m \<and>
      keeps_data (users N m) m m2))"
proof (rule alloc_align_spec [OF assms])
  fix p n N' L' m'
  assume a: "LOS_MemAllocAlign pool req (2 ^ k) m = Some (p, m')" "mem_ok pool sz N' L' m'" "n \<in> N - users N m"
    "users N' m' = insert n (users N m)" "2 ^ k dvd unat p" "4 dvd unat p" "unat n + 8 \<le> unat p"
    "unat p + max 8 (unat req) \<le> unat n + bsize (szf m' n)" "keeps_data (users N m) m m'"
    "accounted pool N m \<Longrightarrow> accounted pool N' m'" "OsGetRealPtr pool p m' = n + 8" "p \<noteq> 0"
    "request_bytes (padded req k) \<le> bsize (szf m n)"
  have n: "n \<in> users N' m'" "users N' m' - {n} = users N m" using a(3,4) by auto
  obtain m2 L2 where f: "LOS_MemFree_pool pool p m' = Some (LOS_OK, m2)"
      "mem_ok pool sz (free_blocks_nodes N' (szf m') (prv m') n) L2 m2"
      "users (free_blocks_nodes N' (szf m') (prv m') n) m2 = users N m" "keeps_data (users N m) m' m2"
    by (rule mem_free_spec [OF a(2) n(1) a(11,12,6), unfolded n(2)]) (rule that)
  have "unat p + unat req \<le> unat n + bsize (szf m' n)" using a(8) by linarith
  moreover have "\<not> (\<forall>n\<in>N - users N m. bsize (szf m n) < request_bytes (padded req k))" using a(3,13) by force
  ultimately show ?thesis
    by (intro exI [of _ p] exI [of _ m'] exI [of _ n] exI [of _ N'] exI [of _ L'] exI [of _ m2]
      exI [of _ "free_blocks_nodes N' (szf m') (prv m') n"] exI [of _ L2] conjI impI)
      (use a f keeps_data_trans [OF a(9) f(4)] in \<open>simp_all del: not_all not_less\<close>)
qed simp

lemma mem_alloc_align_witness: "\<exists>m p m' m2. LOS_MemAllocAlign 0x20000000 100 64 m = Some (p, m') \<and> p \<noteq> 0 \<and>
    64 dvd unat p \<and> LOS_MemFree_pool 0x20000000 p m' = Some (LOS_OK, m2)"
proof -
  obtain m L where d: "mem_ok 0x20000000 0x1000 {0x200003B0} L m" "users {0x200003B0} m = {}" "szf m 0x200003B0 = 3144"
    by (rule demo_pool) (rule that)
  have "padded 100 6 = 160" by (simp add: padded_def OS_MEM_MIN_ALLOC_SIZE_def)
  then have r: "request_bytes (padded 100 6) = 168" by (simp add: request_bytes_def block_bytes_def)
  have "bsize 3144 = 3144" using plain_size [of 3144] by (simp add: plain_iff)
  then have big: "\<not> (\<forall>n\<in>{0x200003B0} - users {0x200003B0} m. bsize (szf m n) < request_bytes (padded 100 6))"
    using d r by simp
  have h: "(100 :: UINT32) \<noteq> 0" "(2 :: nat) \<le> 6" "max 8 (unat (100 :: UINT32)) + 2 ^ 6 + 8 \<le> 2 ^ 29"
    and e: "(2 :: UINT32) ^ 6 = 64" "(2 :: nat) ^ 6 = 64" by simp_all
  obtain p m' where a: "LOS_MemAllocAlign 0x20000000 100 64 m = Some (p, m')"
      "p = 0 \<longleftrightarrow> (\<forall>n\<in>{0x200003B0} - users {0x200003B0} m. bsize (szf m n) < request_bytes (padded 100 6))"
      "p \<noteq> 0 \<Longrightarrow> 64 dvd unat p \<and> (\<exists>m2. LOS_MemFree_pool 0x20000000 p m' = Some (LOS_OK, m2))"
    using mem_alloc_align [OF d(1) h, unfolded e] by (elim exE conjE) (rule that, assumption+, simp, blast)
  have "p \<noteq> 0" using a(2) big by (simp only: simp_thms)
  then have "64 dvd unat p" "\<exists>m2. LOS_MemFree_pool 0x20000000 p m' = Some (LOS_OK, m2)" using a(3) by simp_all
  then show ?thesis using a(1) \<open>p \<noteq> 0\<close> by (elim exE) (intro exI conjI)
qed

end
