(* ===== verification/Mem_Realloc.thy ===== *)
theory Mem_Realloc
  imports Mem_Align
begin

text \<open>
  The change of the size of a block: it is cut in place, grows into the free block behind it, or
  moves to a new block. In each case the data that fits is kept.
\<close>

section \<open>Cutting a block to size\<close>

definition separated_but :: "UINT32 \<Rightarrow> UINT32 set \<Rightarrow> (UINT32 \<Rightarrow> UINT32) \<Rightarrow> bool" where
  "separated_but n N S \<longleftrightarrow> (\<forall>x\<in>N. x = n \<or> nx S x = n \<or> used (S x) \<or> used (S (nx S x)))"

lemma split_separated:
  assumes l: "lay fn en N S P" and n: "n \<in> N" "plain (S n)" and sep: "separated_but n N S"
    and s: "16 \<le> unat s" "4 dvd unat s" "unat s + 16 \<le> unat (S n)"
  defines "q \<equiv> n + s" and "r \<equiv> nx S n"
  defines "N' \<equiv> insert q (if used (S r) then N else N - {r})"
  defines "S' \<equiv> S(q := (if used (S r) then S n - s else S n - s + S r), n := s)"
  shows "separated_but n N' S'"
proof -
  note sp = lay_split [OF l n s, folded q_def r_def]
  have q: "q \<notin> insert en N" "q \<noteq> n" using sp(2) n by auto
  have rN: "r \<in> insert en N" "r \<noteq> n" "r \<noteq> q"
    using layD(6) [OF l n(1)] nx_unat [OF l n(1)] layD(3) [OF l n(1)] q by (auto simp: r_def)
  have rin: "r \<in> N \<and> plain (S r)" if "\<not> used (S r)"
    using that rN(1) lay_ends(3) [OF l] end_used layD(8) [OF l _ that] by auto
  have next_r: "nx S r \<noteq> n \<and> nx S r \<in> insert en N \<and> used (S (nx S r))" if u: "\<not> used (S r)"
  proof -
    have r: "r \<in> N" using rin u by simp
    have "unat n < unat (nx S r)" using nx_unat [OF l n(1)] nx_unat [OF l r] layD(3) [OF l n(1)] by (simp add: r_def)
    then have "nx S r \<noteq> n" by auto
    then show ?thesis using sep r rN(2) u layD(6) [OF l r] by (auto simp: separated_but_def)
  qed
  show ?thesis
    unfolding separated_but_def
  proof
    fix x assume x: "x \<in> N'"
    consider "x = n" | "x = q" | "x \<in> N" "x \<noteq> n" "x \<noteq> q" using x by (auto simp: N'_def split: if_splits)
    then show "x = n \<or> nx S' x = n \<or> used (S' x) \<or> used (S' (nx S' x))"
    proof cases
      case 2
      have e: "q + (S n - s) = r"
        using n(2) by (simp add: q_def r_def nx_def plain_def)
      show ?thesis
      proof (cases "used (S r)")
        case True
        have "nx S' q = r" using sp(5,7) q(2) True by (simp add: S'_def nx_def)
        then show ?thesis using 2 True rN by (simp add: S'_def)
      next
        case False
        note r = rin [OF False]
        have b: "unat n + unat (S n) + unat (S r) \<le> unat en" "unat fn \<le> unat n"
          using nx_unat [OF l n(1)] layD(5) [OF l, of r] r plain_size n(2) layD(1) [OF l n(1)] by (auto simp: r_def)
        then have "unat (S n) + unat (S r) < 2 ^ 29" using lay_ends(4) [OF l] by linarith
        moreover have "unat (S n - s) = unat (S n) - unat s" using s by (simp add: unat_sub word_le_nat_alt)
        ultimately have "unat (S n - s + S r) < 2 ^ 30" by (simp add: unat_word_ariths(1))
        then have "plain (S n - s + S r)" by (simp add: plain_iff)
        then have "nx S' q = q + (S n - s) + S r" using q(2) False by (simp add: S'_def nx_def plain_def)
        also have "\<dots> = nx S r" using e r by (simp add: nx_def plain_def)
        finally have "nx S' q = nx S r" .
        then show ?thesis using 2 next_r [OF False] q by (auto simp: S'_def)
      qed
    next
      case 3
      have e: "S' x = S x" "nx S' x = nx S x" using 3 by (simp_all add: S'_def nx_def)
      have "nx S x \<noteq> q" using layD(6) [OF l 3(1)] q by auto
      then show ?thesis using sep 3 e by (auto simp: separated_but_def S'_def)
    qed simp
  qed
qed

text \<open>The part of \<open>OsMemReAllocSmaller\<close> and \<open>OsMemMergeNodeForReAllocBigger\<close> that they share.\<close>

lemma trim:
  assumes h: "heap pool sz N L {n} m" and n: "n \<in> N" "plain (szf m n)" and sep: "separated_but n N (szf m)"
    and s: "16 \<le> unat s" "unat s < 2 ^ 29" "4 dvd unat s" "s \<le> szf m n"
  obtains m' N' L' where "(if s + OS_MEM_MIN_LEFT_SIZE \<le> szf m n then OsMemSplitNode pool n s m else Some m) = Some m'"
    "heap pool sz N' L' {n} m'" "n \<in> N'" "separated_but n N' (szf m')" "plain (szf m' n)"
    "s \<le> szf m' n" "szf m' n \<le> szf m n" "unat (szf m' n) < unat s + 16"
    "szf m' n = (if s + 16 \<le> szf m n then s else szf m n)"
    "\<And>x. x \<noteq> n \<Longrightarrow> x \<in> N' \<and> used (szf m' x) \<longleftrightarrow> x \<in> N \<and> used (szf m x)"
    "\<And>x. x \<in> N \<Longrightarrow> used (szf m x) \<Longrightarrow> szf m' x = szf m x"
    "\<And>a. a \<notin> managed pool (end_node pool sz) N (szf m) \<Longrightarrow> m' a = m a"
    "\<And>a. unat n + 8 \<le> unat a \<Longrightarrow> unat a < unat n + unat s \<Longrightarrow> m' a = m a"
proof (cases "s + 16 \<le> szf m n")
  case False
  then have "\<not> unat s + 16 \<le> unat (szf m n)" using s(2) by (simp add: word_le_nat_alt unat_word_ariths(1))
  then show thesis
    using h n sep s(4) False by (intro that [of m N L]) (auto simp: OS_MEM_MIN_LEFT_SIZE_def)
next
  case True
  then have c: "unat s + 16 \<le> unat (szf m n)" using s(2) by (simp add: word_le_nat_alt unat_word_ariths(1))
  note l = heapD(2) [OF h]
  let ?r = "nx (szf m) n"
  have rn: "?r \<notin> {n}" using nx_unat [OF l n(1)] layD(3) [OF l n(1)] by auto
  let ?N = "insert (n + s) (if used (szf m ?r) then N else N - {?r})"
  let ?S = "(szf m)(n + s := (if used (szf m ?r) then szf m n - s else szf m n - s + szf m ?r), n := s)"
  have X: "{n} \<subseteq> N" "n \<in> {n}" using n by auto
  obtain m' L' where sn: "OsMemSplitNode pool n s m = Some m'" "heap pool sz ?N L' {n} m'"
      "\<And>x. x \<in> insert (end_node pool sz) ?N \<Longrightarrow> szf m' x = ?S x"
      "\<And>a. a \<notin> managed pool (end_node pool sz) N (szf m) \<Longrightarrow> m' a = m a"
      "\<And>a. unat n + 8 \<le> unat a \<Longrightarrow> unat a < unat n + unat s \<Longrightarrow> m' a = m a"
    by (rule OsMemSplitNode [OF h X n(2) s(1,3) c rn]) (rule that)
  note sp = lay_split [OF l n s(1,3) c]
  have nN: "n \<in> ?N" using n rn by auto
  have S: "szf m' x = ?S x" if "x \<in> insert (end_node pool sz) ?N" for x by (rule sn(3) [OF that])
  have Sn: "szf m' n = s" using S [of n] nN by simp
  have "plain s" by (rule sp(6))
  have e: "used (szf m' x) = used (?S x)" "nx (szf m') x = nx ?S x" if "x \<in> insert (end_node pool sz) ?N" for x
    using S [OF that] by (simp_all add: nx_def)
  have "nx (szf m') x \<in> insert (end_node pool sz) ?N" if "x \<in> ?N" for x
    by (rule layD(6) [OF heapD(2) [OF sn(2)] that])
  then have sep': "separated_but n ?N (szf m')"
    using split_separated [OF l n sep s(1,3) c] e unfolding separated_but_def by (metis insertCI)
  have q: "n + s \<notin> insert (end_node pool sz) N" by (rule sp(2))
  have qfree: "\<not> used (szf m' (n + s))"
  proof
    assume "used (szf m' (n + s))"
    moreover have "szf m' (n + s) = szf m n - s \<or> \<not> used (szf m ?r) \<and> szf m' (n + s) = szf m n - s + szf m ?r"
      using S [of "n + s"] q n by (auto split: if_splits)
    ultimately have u: "\<not> used (szf m ?r)" "szf m' (n + s) = szf m n - s + szf m ?r"
      using plain_unused [OF sp(7)] by auto
    then have r: "?r \<in> N" "plain (szf m ?r)"
      using layD(6) [OF l n(1)] lay_ends(3) [OF l] end_used layD(8) [OF l _ u(1)] by auto
    have "unat n + unat (szf m n) + unat (szf m ?r) \<le> unat (end_node pool sz)" "unat (OS_MEM_FIRST_NODE pool) \<le> unat n"
      using nx_unat [OF l n(1)] layD(5) [OF l r(1)] r(2) plain_size n(2) layD(1) [OF l n(1)] by auto
    then have "unat (szf m n) + unat (szf m ?r) < 2 ^ 29" using lay_ends(4) [OF l] by linarith
    moreover have "unat (szf m n - s) = unat (szf m n) - unat s" using s by (simp add: unat_sub)
    ultimately have "plain (szf m n - s + szf m ?r)" by (simp add: plain_iff unat_word_ariths(1))
    then show False using plain_unused u(2) \<open>used (szf m' (n + s))\<close> by simp
  qed
  show thesis
  proof (rule that [OF _ sn(2) nN sep'])
    show "(if s + OS_MEM_MIN_LEFT_SIZE \<le> szf m n then OsMemSplitNode pool n s m else Some m) = Some m'"
      using sn(1) True by (simp add: OS_MEM_MIN_LEFT_SIZE_def)
    show "x \<in> ?N \<and> used (szf m' x) \<longleftrightarrow> x \<in> N \<and> used (szf m x)" if "x \<noteq> n" for x
    proof (cases "x = n + s")
      case True
      then show ?thesis using qfree q by auto
    next
      case False
      have i: "x \<in> ?N \<longleftrightarrow> x \<in> N \<and> (used (szf m ?r) \<or> x \<noteq> ?r)" using False by auto
      have "x \<in> ?N \<Longrightarrow> szf m' x = szf m x" using S [of x] False that by simp
      then show ?thesis using i by metis
    qed
    show "szf m' x = szf m x" if "x \<in> N" "used (szf m x)" for x
    proof -
      have "x \<noteq> n" "x \<noteq> n + s" using that q plain_unused [OF n(2)] by auto
      moreover have "x \<in> ?N" using that by auto
      ultimately show ?thesis using S [of x] by simp
    qed
  qed (use Sn sn(4,5) True s \<open>plain s\<close> in auto)
qed

text \<open>The block is marked as used.\<close>

lemma settle:
  assumes h: "heap pool sz N L {n} m" and n: "n \<in> N" and sep: "separated_but n N (szf m)"
  defines "m' \<equiv> OS_MEM_NODE_SET_USED_FLAG n m"
  shows "mem_ok pool sz N L m'" "x \<in> insert (end_node pool sz) N \<Longrightarrow> szf m' x = ((szf m)(n := szf m n OR OS_MEM_NODE_USED_FLAG)) x"
    "a \<noteq> sizeAndFlag n \<Longrightarrow> m' a = m a" "info_addr pool a \<Longrightarrow> m' a = m a"
    "m' = m(sizeAndFlag n := szf m n OR OS_MEM_NODE_USED_FLAG)"
proof -
  let ?w = "szf m n OR OS_MEM_NODE_USED_FLAG"
  show m': "m' = m(sizeAndFlag n := ?w)" by (simp add: m'_def OS_MEM_NODE_SET_USED_FLAG_def)
  then show "a \<noteq> sizeAndFlag n \<Longrightarrow> m' a = m a" by simp
  show "info_addr pool a \<Longrightarrow> m' a = m a"
    using info_not_header(1) [OF _ node_beyond(1) [OF h, of n]] n by (auto simp: m')
  have nm: "n \<notin> members L" using heapD(5) [OF h] by simp
  have w: "OS_MEM_NODE_GET_SIZE ?w = OS_MEM_NODE_GET_SIZE (szf m n)" "used ?w \<or> plain ?w" "used ?w" by simp_all
  note fl = heap_flag [OF h n nm w(1,2), folded m']
  show s: "szf m' x = ((szf m)(n := ?w)) x" if "x \<in> insert (end_node pool sz) N" for x using fl(2) [OF that] by simp
  have e: "used (szf m' x) = (x = n \<or> used (szf m x))" "nx (szf m') x = nx (szf m) x"
    if "x \<in> insert (end_node pool sz) N" for x
    using s [OF that] w by (auto simp: nx_def)
  moreover have "nx (szf m) x \<in> insert (end_node pool sz) N" if "x \<in> N" for x
    by (rule layD(6) [OF heapD(2) [OF h] that])
  ultimately have "separated N (szf m')"
    using sep unfolding separated_def separated_but_def by (metis insertCI)
  then show "mem_ok pool sz N L m'" using fl(1) w(3) by (simp add: mem_ok_def)
qed

section \<open>A block that changes its size in place\<close>

text \<open>The block \<open>n\<close> holds at least \<open>s\<close> bytes, its first \<open>k\<close> bytes are as before.\<close>

definition resized ::
  "UINT32 \<Rightarrow> UINT32 \<Rightarrow> UINT32 \<Rightarrow> nat \<Rightarrow> nat \<Rightarrow> UINT32 set \<Rightarrow> memory \<Rightarrow> UINT32 set \<Rightarrow> (UINT32 \<Rightarrow> UINT32 list) \<Rightarrow> memory \<Rightarrow> bool" where
  "resized pool sz n s k N m N' L' m' \<longleftrightarrow> mem_ok pool sz N' L' m' \<and> users N' m' = users N m \<and> unmoved m' n \<and>
    s \<le> bsize (szf m' n) \<and> keeps_data (users N m - {n}) m m' \<and>
    (\<forall>a. unat n + 8 \<le> unat a \<and> unat a < unat n + k \<longrightarrow> m' a = m a)"

lemma detach:
  assumes ok: "mem_ok pool sz N L m" and n: "n \<in> users N m"
  defines "m' \<equiv> m(sizeAndFlag n := OS_MEM_NODE_GET_SIZE (szf m n))"
  shows "heap pool sz N L {n} m'" "separated_but n N (szf m')" "plain (szf m' n)" "unat (szf m' n) = bsize (szf m n)"
    "x \<in> insert (end_node pool sz) N \<Longrightarrow> szf m' x = ((szf m)(n := OS_MEM_NODE_GET_SIZE (szf m n))) x"
    "info_addr pool a \<Longrightarrow> m' a = m a"
proof -
  let ?w = "OS_MEM_NODE_GET_SIZE (szf m n)"
  have nN: "n \<in> N" "used (szf m n)" using n by (auto simp: users_def)
  note h = mem_okD(1) [OF ok]
  have nm: "n \<notin> members L" using heap_members(2) [OF h] nN by auto
  have w: "OS_MEM_NODE_GET_SIZE ?w = OS_MEM_NODE_GET_SIZE (szf m n)" "used ?w \<or> plain ?w"
    using plain_of_size [of "szf m n"] by (simp_all add: plain_def del: plain_of_size)
  have nu: "\<not> used ?w" by (rule plain_unused) simp
  note fl = heap_flag [OF h nN(1) nm w, folded m'_def, unfolded if_not_P [OF nu]]
  show "heap pool sz N L {n} m'" using fl(1) by simp
  show s: "szf m' x = ((szf m)(n := ?w)) x" if "x \<in> insert (end_node pool sz) N" for x using fl(2) [OF that] by simp
  have e: "x \<noteq> n \<Longrightarrow> used (szf m' x) = used (szf m x)" "nx (szf m') x = nx (szf m) x"
    if "x \<in> insert (end_node pool sz) N" for x
    using s [OF that] w(1) by (auto simp: nx_def)
  moreover have "nx (szf m) x \<in> insert (end_node pool sz) N" if "x \<in> N" for x
    by (rule layD(6) [OF heapD(2) [OF h] that])
  ultimately show "separated_but n N (szf m')"
    using mem_okD(2) [OF ok] unfolding separated_def separated_but_def by (metis insertCI)
  show "plain (szf m' n)" "unat (szf m' n) = bsize (szf m n)" using s [of n] nN by (simp_all add: bsize_def)
  show "info_addr pool a \<Longrightarrow> m' a = m a"
    using info_not_header(1) [OF _ node_beyond(1) [OF h, of n]] nN by (auto simp: m'_def)
qed

text \<open>What a change that stays within the block \<open>n\<close> and the free blocks leaves alone.\<close>

lemma keep_others:
  assumes ok: "mem_ok pool sz N L m" and n: "n \<in> users N m"
    and fr: "\<And>a. a \<notin> managed pool (end_node pool sz) N ((szf m)(n := OS_MEM_NODE_GET_SIZE (szf m n))) \<Longrightarrow>
      \<not> info_addr pool a \<Longrightarrow> m' a = m a"
    and szs: "\<And>x. x \<in> users N m - {n} \<Longrightarrow> szf m' x = szf m x"
  shows "keeps_data (users N m - {n}) m m'"
  unfolding keeps_data_def
proof (intro ballI conjI)
  have nN: "n \<in> N" using n by (auto simp: users_def)
  fix x assume x: "x \<in> users N m - {n}"
  show "szf m' x = szf m x" by (rule szs [OF x])
  fix a assume a: "a \<in> user_area (szf m) x"
  have xN: "x \<in> N" "used (szf m x)" "x \<noteq> n" using x by (auto simp: users_def)
  note nm = user_not_managed [OF mem_okD(1) [OF ok] xN(1,2) a]
  show "m' a = m a"
    by (rule fr [OF managed_released [OF nm(1) users_disjoint [OF ok xN(1) nN xN(3) a]] nm(2)])
qed

lemma settle_resized:
  assumes ok: "mem_ok pool sz N L m" and n: "n \<in> users N m"
    and h: "heap pool sz N' L' {n} m1" and n': "n \<in> N'" and sep: "separated_but n N' (szf m1)"
    and pl: "plain (szf m1 n)" and s: "s \<le> unat (szf m1 n)"
    and us: "\<forall>x. x \<noteq> n \<longrightarrow> (x \<in> N' \<and> used (szf m1 x) \<longleftrightarrow> x \<in> N \<and> used (szf m x))"
    and szs: "\<forall>x\<in>users N m - {n}. szf m1 x = szf m x"
    and fr: "\<forall>a. a \<notin> managed pool (end_node pool sz) N ((szf m)(n := OS_MEM_NODE_GET_SIZE (szf m n))) \<longrightarrow>
      \<not> info_addr pool a \<longrightarrow> m1 a = m a"
    and data: "\<forall>a. unat n + 8 \<le> unat a \<longrightarrow> unat a < unat n + k \<longrightarrow> m1 a = m a" and k: "k \<le> unat (szf m1 n)"
  defines "m' \<equiv> OS_MEM_NODE_SET_USED_FLAG n m1"
  shows "resized pool sz n s k N m N' L' m'" "bsize (szf m' n) = unat (szf m1 n)" "info_addr pool a \<Longrightarrow> m' a = m1 a"
    "szf m' n = szf m1 n OR OS_MEM_NODE_USED_FLAG"
proof -
  note st = settle [OF h n' sep, folded m'_def]
  have nN: "n \<in> N" "used (szf m n)" using n by (auto simp: users_def)
  show sn: "szf m' n = szf m1 n OR OS_MEM_NODE_USED_FLAG" using st(2) [of n] n' by simp
  show b: "bsize (szf m' n) = unat (szf m1 n)" using sn plain_size [OF pl] by (simp add: bsize_def)
  show "info_addr pool a \<Longrightarrow> m' a = m1 a" by (rule st(4))
  have sx: "szf m' x = szf m1 x" if "x \<in> N'" "x \<noteq> n" for x using st(2) [of x] that by simp
  have users: "users N' m' = users N m"
  proof (rule set_eqI)
    fix x
    show "x \<in> users N' m' \<longleftrightarrow> x \<in> users N m"
      using us [THEN spec, of x] sx [of x] n' nN sn by (cases "x = n") (auto simp: users_def)
  qed
  have old: "szf m' x = szf m x" if "x \<in> users N m - {n}" for x
    using szs [THEN bspec, OF that] sx [of x] us [THEN spec, of x] that by (auto simp: users_def)
  have keep: "keeps_data (users N m - {n}) m m'"
  proof (rule keep_others [OF ok n _ old])
    show "m' a = m a" if a: "a \<notin> managed pool (end_node pool sz) N ((szf m)(n := OS_MEM_NODE_GET_SIZE (szf m n)))"
      "\<not> info_addr pool a" for a
    proof -
      have "a \<noteq> sizeAndFlag n" using a(1) header_managed(2) [of n "end_node pool sz" N] nN by blast
      then show ?thesis using st(3) fr a by simp
    qed
  qed
  have inner: "m' a = m a" if a: "unat n + 8 \<le> unat a" "unat a < unat n + k" for a
  proof -
    have "a \<in> user_area (szf m1) n" using a k plain_size [OF pl] by (simp add: user_area_def)
    from body_not_fields(2) [OF h n' this, of n] n' have "a \<noteq> sizeAndFlag n" by simp
    then show ?thesis using st(3) data a by simp
  qed
  have "\<not> bit (szf m1 n) 30" using bit_le_unat [of "szf m1 n" 30] pl by (auto simp: plain_iff)
  then have "unmoved m' n" by (auto simp: unmoved_def aligned_bit sn OS_MEM_NODE_USED_FLAG_def bit_simps)
  then show "resized pool sz n s k N m N' L' m'"
    using st(1) users keep inner b s by (simp add: resized_def)
qed

lemma managed_cong: "(\<And>x. x \<in> N \<Longrightarrow> S x = S' x) \<Longrightarrow> managed pool en N S = managed pool en N S'"
  by (auto simp: managed_def)

lemma total_resized:
  assumes "users N' m' = users N m" "keeps_data (users N m - {n}) m m'" "n \<in> users N m"
  shows "total_used N' m' + bsize (szf m n) = total_used N m + bsize (szf m' n)"
proof -
  have "(\<Sum>x\<in>users N m - {n}. bsize (szf m' x)) = (\<Sum>x\<in>users N m - {n}. bsize (szf m x))"
    by (rule sum.cong) (use assms(2) in \<open>auto simp: keeps_data_def\<close>)
  then show ?thesis
    unfolding total_used_def assms(1)
    using sum.remove [of "users N m" n "\<lambda>x. bsize (szf m x)"] sum.remove [of "users N m" n "\<lambda>x. bsize (szf m' x)"] assms(3)
    by simp
qed

lemma OsMemReAllocSmaller:
  assumes ok: "mem_ok pool sz N L m" and n: "n \<in> users N m"
    and s: "16 \<le> unat s" "unat s < 2 ^ 29" "4 dvd unat s" "unat s \<le> bsize (szf m n)"
  obtains m' N' L' where "OsMemReAllocSmaller pool s n (OS_MEM_NODE_GET_SIZE (szf m n)) m = Some m'"
    "resized pool sz n (unat s) (unat s) N m N' L' m'" "accounted pool N m \<Longrightarrow> accounted pool N' m'"
proof -
  let ?c = "info_curUsedSize pool" and ?w = "OS_MEM_NODE_GET_SIZE (szf m n)" and ?en = "end_node pool sz"
  have nN: "n \<in> N" "used (szf m n)" using n by (auto simp: users_def)
  define m1 where "m1 = m(sizeAndFlag n := ?w)"
  note d = detach [OF ok n, folded m1_def]
  have s1: "szf m1 n = ?w" using d(5) [of n] nN by simp
  have le: "s \<le> szf m1 n" using s(4) d(4) by (simp add: word_le_nat_alt)
  obtain m2 N' L' where t: "(if s + OS_MEM_MIN_LEFT_SIZE \<le> szf m1 n then OsMemSplitNode pool n s m1 else Some m1) = Some m2"
      "heap pool sz N' L' {n} m2" "n \<in> N'" "separated_but n N' (szf m2)" "plain (szf m2 n)" "s \<le> szf m2 n"
      "szf m2 n = (if s + 16 \<le> szf m1 n then s else szf m1 n)"
      "\<And>x. x \<noteq> n \<Longrightarrow> x \<in> N' \<and> used (szf m2 x) \<longleftrightarrow> x \<in> N \<and> used (szf m1 x)"
      "\<And>x. x \<in> N \<Longrightarrow> used (szf m1 x) \<Longrightarrow> szf m2 x = szf m1 x"
      "\<And>a. a \<notin> managed pool ?en N (szf m1) \<Longrightarrow> m2 a = m1 a"
      "\<And>a. unat n + 8 \<le> unat a \<Longrightarrow> unat a < unat n + unat s \<Longrightarrow> m2 a = m1 a"
    by (rule trim [OF d(1) nN(1) d(3,2) s(1-3) le]) (rule that)
  let ?cut = "s + OS_MEM_MIN_LEFT_SIZE \<le> ?w"
  define m3 where "m3 = (if ?cut then m2(?c := m2 ?c - (?w - s)) else m2)"
  have "?c \<noteq> info_totalSize pool" by (simp add: info_curUsedSize_def info_totalSize_def)
  note i = heap_info [OF t(2) info_addrs(5) this]
  have h3: "heap pool sz N' L' {n} m3" using i(1) t(2) by (simp add: m3_def)
  have s3: "szf m3 x = szf m2 x" if "x \<in> N'" for x using i(2) [of x] that by (simp add: m3_def)
  have fr3: "\<not> info_addr pool a \<Longrightarrow> m3 a = m2 a" for a using info_addrs(5) [of pool] by (auto simp: m3_def)
  have nx3: "nx (szf m2) x \<in> insert ?en N'" if "x \<in> N'" for x by (rule layD(6) [OF heapD(2) [OF t(2)] that])
  have s3': "szf m3 x = szf m2 x" if "x \<in> insert ?en N'" for x using i(2) [OF that] by (simp add: m3_def)
  have "nx (szf m3) x = nx (szf m2) x" if "x \<in> N'" for x using s3 [OF that] by (simp add: nx_def)
  then have sep: "separated_but n N' (szf m3)" using t(4) nx3 s3' unfolding separated_but_def by (metis insertCI)
  have A: "managed pool ?en N (szf m1) = managed pool ?en N ((szf m)(n := ?w))" by (rule managed_cong) (use d(5) in simp)
  have us: "\<forall>x. x \<noteq> n \<longrightarrow> (x \<in> N' \<and> used (szf m3 x) \<longleftrightarrow> x \<in> N \<and> used (szf m x))"
  proof (intro allI impI)
    fix x assume "x \<noteq> n"
    then show "x \<in> N' \<and> used (szf m3 x) \<longleftrightarrow> x \<in> N \<and> used (szf m x)"
      using t(8) [of x] s3 [of x] d(5) [of x] by auto
  qed
  have szs: "\<forall>x\<in>users N m - {n}. szf m3 x = szf m x"
  proof
    fix x assume "x \<in> users N m - {n}"
    then show "szf m3 x = szf m x" using t(8,9) [of x] s3 [of x] d(5) [of x] by (auto simp: users_def)
  qed
  have fr: "m3 a = m a" if a: "a \<notin> managed pool ?en N ((szf m)(n := ?w))" "\<not> info_addr pool a" for a
  proof -
    have "a \<noteq> sizeAndFlag n" using a(1) header_managed(2) [of n ?en N] nN by blast
    then show ?thesis using fr3 [OF a(2)] t(10) [of a] a(1) A by (simp add: m1_def)
  qed
  have data: "m3 a = m a" if a: "unat n + 8 \<le> unat a" "unat a < unat n + unat s" for a
  proof -
    have "a \<in> user_area (szf m) n" using a s(4) by (simp add: user_area_def)
    from body_not_fields [OF mem_okD(1) [OF ok] nN(1) this] nN
    have "\<not> info_addr pool a" "a \<noteq> sizeAndFlag n" by (auto simp: info_addr_def)
    then show ?thesis using fr3 t(11) [OF a] by (simp add: m1_def)
  qed
  have sn: "szf m3 n = szf m2 n" "plain (szf m3 n)" "unat s \<le> unat (szf m3 n)"
    using s3 t(3,5,6) by (simp_all add: word_le_nat_alt)
  have "\<forall>a. a \<notin> managed pool ?en N ((szf m)(n := ?w)) \<longrightarrow> \<not> info_addr pool a \<longrightarrow> m3 a = m a"
      "\<forall>a. unat n + 8 \<le> unat a \<longrightarrow> unat a < unat n + unat s \<longrightarrow> m3 a = m a" using fr data by blast+
  note r = settle_resized [OF ok n h3 t(3) sep sn(2,3) us szs this sn(3)]
  show thesis
  proof (rule that)
    show "OsMemReAllocSmaller pool s n ?w m = Some (OS_MEM_NODE_SET_USED_FLAG n m3)"
      using t(1) by (simp add: OsMemReAllocSmaller_def Let_def m1_def [symmetric] s1 m3_def split: if_splits)
    show "resized pool sz n (unat s) (unat s) N m N' L' (OS_MEM_NODE_SET_USED_FLAG n m3)" by (rule r(1))
    show "accounted pool N' (OS_MEM_NODE_SET_USED_FLAG n m3)" if "accounted pool N m"
    proof -
      let ?m = "OS_MEM_NODE_SET_USED_FLAG n m3"
      have tr: "total_used N' ?m + bsize (szf m n) = total_used N m + bsize (szf ?m n)"
        using r(1) n by (intro total_resized) (simp_all add: resized_def)
      have b: "szf m2 n = (if ?cut then s else ?w)" "bsize (szf ?m n) = unat (szf m2 n)"
        using t(7) r(2) sn(1) s1 by (simp_all add: OS_MEM_MIN_LEFT_SIZE_def)
      have "m2 ?c = m1 ?c" by (rule t(10)) (rule info_not_managed [OF d(1) info_addrs(5)])
      then have c: "?m ?c = (if ?cut then m ?c - (?w - s) else m ?c)"
        using r(3) [OF info_addrs(5)] d(6) [OF info_addrs(5)] by (simp add: m3_def)
      have "of_nat (total_used N' ?m) + ?w = of_nat (total_used N m) + (if ?cut then s else ?w)"
        using arg_cong [OF tr, of "of_nat :: nat \<Rightarrow> UINT32"] b word_of_natI [OF b(2) [unfolded bsize_def]]
        by (simp add: bsize_def)
      then show ?thesis using that c by (simp add: accounted_def algebra_simps split: if_splits)
    qed
  qed
qed

lemma resized_water:
  assumes ok: "mem_ok pool sz N L m" and n: "n \<in> users N m" and k: "k \<le> bsize (szf m n)"
    and r: "resized pool sz n s k N m N' L' m1"
  shows "resized pool sz n s k N m N' L' (OsMemWaterUsedRecord pool v m1)"
proof -
  let ?m = "OsMemWaterUsedRecord pool v m1"
  have ok1: "mem_ok pool sz N' L' m1" using r by (simp add: resized_def)
  note w = water_record [OF mem_okD(1) [OF ok1], where v = v]
  have n': "n \<in> N'" "n \<in> N" using r n by (auto simp: resized_def users_def)
  have S: "szf ?m x = szf m1 x" if "x \<in> insert (end_node pool sz) N'" for x by (rule w(2) [OF that])
  have nx: "nx (szf m1) x \<in> insert (end_node pool sz) N'" if "x \<in> N'" for x
    by (rule layD(6) [OF heapD(2) [OF mem_okD(1) [OF ok1]] that])
  have "nx (szf ?m) x = nx (szf m1) x" if "x \<in> N'" for x using S [of x] that by (simp add: nx_def)
  then have "separated N' (szf ?m)" using mem_okD(2) [OF ok1] S nx unfolding separated_def by (metis insertCI)
  then have ok': "mem_ok pool sz N' L' ?m" using w(1) by (simp add: mem_ok_def)
  have same: "?m a = m1 a" if "\<not> info_addr pool a" for a by (rule w(5)) (use that in auto)
  have "users N' ?m = users N' m1" using S by (auto simp: users_def)
  then have us: "users N' ?m = users N m" using r by (simp add: resized_def)
  have "keeps_data (users N m - {n}) m ?m"
    unfolding keeps_data_def
  proof (intro ballI conjI)
    fix x assume x: "x \<in> users N m - {n}"
    then have xN: "x \<in> N" "used (szf m x)" "x \<in> N'" using r by (auto simp: users_def resized_def)
    have kd: "szf m1 x = szf m x \<and> (\<forall>a\<in>user_area (szf m) x. m1 a = m a)" using r x by (simp add: resized_def keeps_data_def)
    then show "szf ?m x = szf m x" using S [of x] xN by simp
    show "?m a = m a" if "a \<in> user_area (szf m) x" for a
      using same [OF user_not_managed(2) [OF mem_okD(1) [OF ok] xN(1,2) that]] kd that by simp
  qed
  moreover have "?m a = m a" if a: "unat n + 8 \<le> unat a" "unat a < unat n + k" for a
  proof -
    have "a \<in> user_area (szf m) n" using a k by (simp add: user_area_def)
    from body_not_fields(1) [OF mem_okD(1) [OF ok] n'(2) this] have "\<not> info_addr pool a" by (simp add: info_addr_def)
    then show ?thesis using same r a by (simp add: resized_def)
  qed
  ultimately show ?thesis using ok' us r S [of n] n' by (simp add: resized_def unmoved_def)
qed

lemma OsMemMergeNodeForReAllocBigger:
  assumes ok: "mem_ok pool sz N L m" and n: "n \<in> users N m"
    and s: "16 \<le> unat s" "unat s < 2 ^ 29" "4 dvd unat s" "bsize (szf m n) \<le> unat s"
  defines "r \<equiv> nx (szf m) n" and "w \<equiv> OS_MEM_NODE_GET_SIZE (szf m n)"
  assumes r: "\<not> used (szf m r)" "s \<le> szf m r + w"
  obtains m' N' L' where "OsMemMergeNodeForReAllocBigger pool s n w r m = Some m'"
    "resized pool sz n (unat s) (bsize (szf m n)) N m N' L' m'"
    "m' (info_curUsedSize pool) = m (info_curUsedSize pool) + (szf m' n - w)"
proof -
  let ?en = "end_node pool sz" and ?c = "info_curUsedSize pool"
  have nN: "n \<in> N" "used (szf m n)" using n by (auto simp: users_def)
  note l = mem_okD(4) [OF ok]
  define m1 where "m1 = m(sizeAndFlag n := w)"
  note d = detach [OF ok n, folded w_def, folded m1_def]
  have s1: "szf m1 n = w" using d(5) [of n] nN by simp
  have rI: "r \<in> insert ?en N" unfolding r_def by (rule layD(6) [OF l nN(1)])
  have rN: "r \<in> N" using rI r(1) lay_ends(3) [OF l] end_used by auto
  have rn: "r \<noteq> n" using nx_unat [OF l nN(1)] layD(3) [OF l nN(1)] by (auto simp: r_def)
  have r1: "nx (szf m1) n = r" "szf m1 r = szf m r"
    using s1 d(5) [of r] rN rn by (simp_all add: nx_def r_def w_def size_mask)
  have r0: "r \<noteq> 0" by (rule node_beyond(2) [OF d(1) rI])
  define m3 where "m3 = OsMemMergeNode r (OsMemFreeNodeDelete pool r m1)"
  have m3': "(if r \<noteq> 0 \<and> \<not> used (szf m r) then OsMemMergeNode r (OsMemFreeNodeDelete pool r m1) else m1) = m3"
    using r0 r(1) by (simp add: m3_def)
  obtain L3 where j: "heap pool sz (N - {r}) L3 {n} m3"
      "\<And>x. x \<in> insert ?en N \<Longrightarrow> szf m3 x = ((szf m1)(n := szf m1 n + szf m r)) x"
      "\<And>a. a \<notin> managed pool ?en N (szf m1) \<Longrightarrow> m3 a = m1 a" "plain (szf m3 n)" "n \<in> N - {r}"
      "\<And>a. a \<in> user_area (szf m1) n \<Longrightarrow> m3 a = m1 a"
      "managed pool ?en (N - {r}) (szf m3) \<subseteq> managed pool ?en N (szf m1)"
    by (rule join_next [OF d(1) nN(1) d(3), unfolded r1 m3' if_not_P [OF r(1)]]) (rule that)
  have S3: "szf m3 x = szf m x" if "x \<in> insert ?en N" "x \<noteq> n" for x using j(2) [OF that(1)] d(5) [OF that(1)] that(2) by simp
  have s3: "szf m3 n = w + szf m r" using j(2) [of n] s1 nN by simp
  have le: "s \<le> szf m3 n" using r(2) s3 by (simp add: add.commute)
  have sep: "separated_but n (N - {r}) (szf m3)"
    unfolding separated_but_def
  proof
    fix x assume x: "x \<in> N - {r}"
    have "x = n \<or> nx (szf m) x = n \<or> used (szf m x) \<or> used (szf m (nx (szf m) x))"
      using mem_okD(2) [OF ok] x by (auto simp: separated_def)
    moreover have "x \<noteq> n \<Longrightarrow> nx (szf m3) x = nx (szf m) x \<and> szf m3 x = szf m x" using S3 [of x] x by (simp add: nx_def)
    moreover have "nx (szf m) x \<noteq> n \<Longrightarrow> szf m3 (nx (szf m) x) = szf m (nx (szf m) x)"
      by (rule S3 [OF layD(6) [OF l]]) (use x in auto)
    ultimately show "x = n \<or> nx (szf m3) x = n \<or> used (szf m3 x) \<or> used (szf m3 (nx (szf m3) x))" by metis
  qed
  obtain m4 N' L' where t: "(if s + OS_MEM_MIN_LEFT_SIZE \<le> szf m3 n then OsMemSplitNode pool n s m3 else Some m3) = Some m4"
      "heap pool sz N' L' {n} m4" "n \<in> N'" "separated_but n N' (szf m4)" "plain (szf m4 n)" "s \<le> szf m4 n"
      "\<And>x. x \<noteq> n \<Longrightarrow> x \<in> N' \<and> used (szf m4 x) \<longleftrightarrow> x \<in> N - {r} \<and> used (szf m3 x)"
      "\<And>x. x \<in> N - {r} \<Longrightarrow> used (szf m3 x) \<Longrightarrow> szf m4 x = szf m3 x"
      "\<And>a. a \<notin> managed pool ?en (N - {r}) (szf m3) \<Longrightarrow> m4 a = m3 a"
      "\<And>a. unat n + 8 \<le> unat a \<Longrightarrow> unat a < unat n + unat s \<Longrightarrow> m4 a = m3 a"
    by (rule trim [OF j(1,5,4) sep s(1-3) le]) (rule that)
  have us: "\<forall>x. x \<noteq> n \<longrightarrow> (x \<in> N' \<and> used (szf m4 x) \<longleftrightarrow> x \<in> N \<and> used (szf m x))"
  proof (intro allI impI)
    fix x assume x: "x \<noteq> n"
    then show "x \<in> N' \<and> used (szf m4 x) \<longleftrightarrow> x \<in> N \<and> used (szf m x)"
      using t(7) [OF x] S3 [of x] r(1) by (cases "x = r") auto
  qed
  have szs: "\<forall>x\<in>users N m - {n}. szf m4 x = szf m x"
  proof
    fix x assume "x \<in> users N m - {n}"
    then have "x \<in> N" "used (szf m x)" "x \<noteq> n" "x \<noteq> r" using r(1) by (auto simp: users_def)
    then show "szf m4 x = szf m x" using t(8) [of x] S3 [of x] by simp
  qed
  have A: "managed pool ?en N (szf m1) = managed pool ?en N ((szf m)(n := w))" by (rule managed_cong) (use d(5) in simp)
  have fr: "\<forall>a. a \<notin> managed pool ?en N ((szf m)(n := w)) \<longrightarrow> \<not> info_addr pool a \<longrightarrow> m4 a = m a"
  proof (intro allI impI)
    fix a assume a: "a \<notin> managed pool ?en N ((szf m)(n := w))"
    then have "a \<noteq> sizeAndFlag n" using header_managed(2) [of n ?en N] nN by blast
    then show "m4 a = m a" using t(9) [of a] j(3,7) a A by (auto simp: m1_def)
  qed
  have data: "\<forall>a. unat n + 8 \<le> unat a \<longrightarrow> unat a < unat n + bsize (szf m n) \<longrightarrow> m4 a = m a"
  proof (intro allI impI)
    fix a :: UINT32 assume a: "unat n + 8 \<le> unat a" "unat a < unat n + bsize (szf m n)"
    then have u: "a \<in> user_area (szf m) n" "a \<in> user_area (szf m1) n" using s1 by (simp_all add: user_area_def w_def bsize_def size_mask)
    from body_not_fields(2) [OF mem_okD(1) [OF ok] nN(1) u(1), of n] nN have "a \<noteq> sizeAndFlag n" by simp
    then show "m4 a = m a" using t(10) [of a] j(6) [OF u(2)] a s(4) by (simp add: m1_def)
  qed
  have sn: "unat s \<le> unat (szf m4 n)" "bsize (szf m n) \<le> unat (szf m4 n)"
    using t(6) s(4) by (simp_all add: word_le_nat_alt)
  note rs = settle_resized [OF ok n t(2,3,4,5) sn(1) us szs fr [unfolded w_def] data sn(2)]
  let ?m5 = "OS_MEM_NODE_SET_USED_FLAG n m4"
  let ?m6 = "OsMemWaterUsedRecord pool (szf ?m5 n - w) ?m5"
  have ok5: "mem_ok pool sz N' L' ?m5" using rs(1) by (simp add: resized_def)
  note wr = water_record [OF mem_okD(1) [OF ok5], where v = "szf ?m5 n - w"]
  show thesis
  proof (rule that)
    show "OsMemMergeNodeForReAllocBigger pool s n w r m = Some ?m6"
      using t(1) by (cases "s + OS_MEM_MIN_LEFT_SIZE \<le> szf m3 n")
        (simp_all add: OsMemMergeNodeForReAllocBigger_def Let_def m1_def [symmetric] m3_def [symmetric])
    show "resized pool sz n (unat s) (bsize (szf m n)) N m N' L' ?m6"
      by (rule resized_water [OF ok n order_refl rs(1)])
    have "m4 ?c = m3 ?c" by (rule t(9)) (rule info_not_managed [OF j(1) info_addrs(5)])
    moreover have "m3 ?c = m1 ?c" by (rule j(3)) (rule info_not_managed [OF d(1) info_addrs(5)])
    ultimately have "?m5 ?c = m ?c" using rs(3) [OF info_addrs(5)] d(6) [OF info_addrs(5)] by simp
    then show "?m6 ?c = m ?c + (szf ?m6 n - w)" using wr(2,3) t(3) by simp
  qed
qed

section \<open>A block that moves\<close>

lemma LOS_MemRealloc_code:
  assumes ok: "mem_ok pool sz N L m" and n: "n \<in> users N m" "unmoved m n"
    and req: "req \<noteq> 0" "unat req + 12 \<le> 2 ^ 29"
  defines "req' \<equiv> if req < OS_MEM_MIN_ALLOC_SIZE then OS_MEM_MIN_ALLOC_SIZE else req"
  shows "LOS_MemRealloc pool (n + 8) req m = OsMemRealloc pool (n + 8) n req' m" "unat req' = max 8 (unat req)"
proof -
  have nN: "n \<in> N" "used (szf m n)" using n by (auto simp: users_def)
  have "plain req" using req by (simp add: plain_iff)
  then have "\<not> used req" "\<not> OS_MEM_NODE_GET_ALIGNED_FLAG req"
    using bit_le_unat [of req 30] plain_unused by (auto simp: aligned_bit plain_iff)
  moreover have "pool \<noteq> 0" using mem_okD(3) [OF ok] by (simp add: geom_def)
  ultimately show "LOS_MemRealloc pool (n + 8) req m = OsMemRealloc pool (n + 8) n req' m"
    using req(1) node_address(1,2) [OF ok nN(1)] real_ptr [OF n(2), of pool] check_node [OF mem_okD(1) [OF ok] nN(1)] nN(2)
    by (simp add: LOS_MemRealloc_def Let_def req'_def [symmetric] OS_MEM_NODE_HEAD_SIZE_def)
  show "unat req' = max 8 (unat req)"
    by (auto simp: req'_def OS_MEM_MIN_ALLOC_SIZE_def word_less_nat_alt)
qed

lemma realloc_move:
  assumes ok: "mem_ok pool sz N L m" and n: "n \<in> users N m" "unmoved m n"
    and req: "8 \<le> unat req" "unat req + 12 \<le> 2 ^ 29" and grow: "bsize (szf m n) < request_bytes req"
  obtains "OsMemAlloc pool req m = Some (0, m)" "\<forall>x\<in>N - users N m. bsize (szf m x) < request_bytes req"
  | n' m1 m2 m3 N' L' where "OsMemAlloc pool req m = Some (n' + 8, m1)" "n' + 8 \<noteq> 0"
    "copy_words (n' + 8) req (n + 8) (OS_MEM_NODE_GET_SIZE (szf m n) - 8) m1 = (True, m2)"
    "OsMemFree pool n m2 = Some (LOS_OK, m3)" "mem_ok pool sz N' L' m3" "n' \<in> N - users N m"
    "users N' m3 = insert n' (users N m - {n})" "request_bytes req \<le> bsize (szf m3 n')" "unmoved m3 n'"
    "keeps_data (users N m - {n}) m m3" "accounted pool N m \<Longrightarrow> accounted pool N' m3"
    "\<And>i. 8 \<le> unat i \<Longrightarrow> unat i < bsize (szf m n) \<Longrightarrow> m3 (n' + i) = m (n + i)"
proof -
  have p0: "pool \<noteq> 0" using mem_okD(3) [OF ok] by (simp add: geom_def)
  note ac = alloc_pool_code(1) [OF p0 req]
  have nN: "n \<in> N" "used (szf m n)" using n by (auto simp: users_def)
  have r0: "req \<noteq> 0" using req(1) by auto
  have rb: "unat req + 8 \<le> request_bytes req" "request_bytes req \<le> unat req + 11"
    using block_bytes [of "unat req"] req(1) by (simp_all add: request_bytes_def max_def)
  show thesis
  proof (rule mem_alloc_cases [OF ok r0 req(2)])
    assume "LOS_MemAlloc_pool pool req m = Some (0, m)" "\<forall>n\<in>N - users N m. bsize (szf m n) < request_bytes req"
    then show thesis using that(1) ac by simp
  next
    fix n' s m1 L1
    let ?N = "alloc_nodes N (szf m) n' s"
    assume a: "LOS_MemAlloc_pool pool req m = Some (n' + 8, m1)" "n' \<in> N - users N m" "mem_ok pool sz ?N L1 m1"
      "users ?N m1 = insert n' (users N m)" "request_bytes req \<le> bsize (szf m1 n')" "keeps_data (users N m) m m1" "unmoved m1 n'"
      "m1 (info_curUsedSize pool) = m (info_curUsedSize pool) + of_nat (bsize (szf m1 n'))"
    have n1: "n \<in> users ?N m1" "n' \<in> users ?N m1" "n' \<in> ?N" "n \<in> ?N" "n' \<noteq> n" "n' \<notin> users N m"
      using a(2,4) n(1) by (auto simp: users_def)
    note ad = node_address [OF a(3) n1(3)] and adn = node_address [OF a(3) n1(4)]
    have sn1: "szf m1 n = szf m n" using a(6) n(1) by (simp add: keeps_data_def)
    have "total_used ?N m1 = bsize (szf m1 n') + total_used N m"
      using total_used_insert [OF a(4) n1(6) keeps_sizes [OF a(6)]] by (simp add: total_used_def)
    then have acc1: "accounted pool N m \<Longrightarrow> accounted pool ?N m1" using a(8) by (simp add: accounted_def)
    let ?c = "OS_MEM_NODE_GET_SIZE (szf m n) - 8"
    define m2 where "m2 = (\<lambda>a. if a - (n' + 8) < ?c then m1 (n + 8 + (a - (n' + 8))) else m1 a)"
    have "16 \<le> bsize (szf m n)" using layD(3) [OF mem_okD(4) [OF ok] nN(1)] .
    then have uc: "unat ?c = bsize (szf m n) - 8" by (simp add: bsize_def unat_sub word_le_nat_alt)
    have "4 dvd bsize (szf m n)" "4 dvd request_bytes req"
      using layD(4) [OF mem_okD(4) [OF ok] nN(1)] block_bytes(3) by (simp_all add: request_bytes_def)
    then obtain x y where "bsize (szf m n) = 4 * x" "request_bytes req = 4 * y" by (auto simp: dvd_def)
    then have fit: "bsize (szf m n) + 4 \<le> request_bytes req" using grow by simp
    then have "?c \<le> req" using uc rb by (simp add: word_le_nat_alt)
    moreover have "\<not> SECUREC_MEM_MAX_LEN < req" using req(2) by (simp add: word_less_nat_alt SECUREC_MEM_MAX_LEN_def)
    ultimately have cw: "copy_words (n' + 8) req (n + 8) ?c m1 = (True, m2)"
      using r0 by (auto simp: copy_words_def m2_def)
    have en: "unat n' + bsize (szf m1 n') < 2 ^ 32"
      using layD(5) [OF mem_okD(4) [OF a(3)] n1(3)] unsigned_less [where w = "end_node pool sz" and 'a = nat] by simp
    have out: "\<forall>a. a \<notin> user_area (szf m1) n' \<longrightarrow> m2 a = m1 a"
    proof (intro allI impI)
      fix a assume na: "a \<notin> user_area (szf m1) n'"
      have "\<not> a - (n' + 8) < ?c"
      proof
        assume lt: "a - (n' + 8) < ?c"
        have "unat a = unat (n' + 8 + (a - (n' + 8)))" by simp
        also have "\<dots> = unat (n' + 8) + unat (a - (n' + 8))"
          using lt uc fit a(5) en ad(4) by (subst unat_word_ariths(1)) (simp add: word_less_nat_alt)
        finally have "unat a = unat n' + 8 + unat (a - (n' + 8))" using ad(4) by simp
        then show False using na lt uc fit a(5) by (simp add: user_area_def word_less_nat_alt)
      qed
      then show "m2 a = m1 a" by (simp add: m2_def)
    qed
    note d2 = data_change [OF a(3) n1(2) out]
    have s2: "szf m2 n = szf m n" "szf m2 n' = szf m1 n'" using d2(2) n1 sn1 by simp_all
    have um: "unmoved m2 n" "unmoved m2 n'" using n(2) a(7) s2 by (simp_all add: unmoved_def)
    have n2: "n \<in> users ?N m2" using d2(5) n1 by simp
    obtain m3 L3 where f: "LOS_MemFree_pool pool (n + 8) m2 = Some (LOS_OK, m3)"
        "mem_ok pool sz (free_blocks_nodes ?N (szf m2) (prv m2) n) L3 m3"
        "users (free_blocks_nodes ?N (szf m2) (prv m2) n) m3 = users ?N m2 - {n}" "keeps_data (users ?N m2 - {n}) m2 m3"
        "accounted pool ?N m2 \<longrightarrow> accounted pool (free_blocks_nodes ?N (szf m2) (prv m2) n) m3"
      by (rule mem_free_spec [OF d2(1) n2 real_ptr [OF um(1)] adn(2,3)]) (rule that, assumption+, blast)
    have code: "LOS_MemFree_pool pool (n + 8) m2 = OsMemFree pool n m2"
      by (rule free_pool_code [OF d2(1) n1(4) real_ptr [OF um(1)] adn(2,3)])
    have us: "users ?N m2 - {n} = insert n' (users N m - {n})" using d2(5) a(4) n1 by auto
    have weak: "keeps_data U x y \<Longrightarrow> V \<subseteq> U \<Longrightarrow> keeps_data V x y" for U V x y by (auto simp: keeps_data_def)
    have k1: "keeps_data (users N m - {n}) m m1" by (rule weak [OF a(6)]) auto
    have k2: "keeps_data (users N m - {n}) m1 m2" by (rule weak [OF d2(3)]) (use a(4) n1 in auto)
    have k3: "keeps_data (users N m - {n}) m2 m3" by (rule weak [OF f(4)]) (use us in auto)
    have n3: "szf m3 n' = szf m1 n'" "\<And>a. a \<in> user_area (szf m1) n' \<Longrightarrow> m3 a = m2 a"
      using f(4) us s2 by (auto simp: keeps_data_def user_area_def)
    show thesis
    proof (rule that(2))
      show "OsMemAlloc pool req m = Some (n' + 8, m1)" using a(1) ac by simp
      show "OsMemFree pool n m2 = Some (LOS_OK, m3)" using f(1) code by simp
      show "users (free_blocks_nodes ?N (szf m2) (prv m2) n) m3 = insert n' (users N m - {n})" using f(3) us by simp
      show "keeps_data (users N m - {n}) m m3" using keeps_data_trans [OF k1 keeps_data_trans [OF k2 k3]] .
      show "request_bytes req \<le> bsize (szf m3 n')" "unmoved m3 n'" using n3(1) a(5,7) by (simp_all add: unmoved_def)
      show "accounted pool (free_blocks_nodes ?N (szf m2) (prv m2) n) m3" if "accounted pool N m"
      proof -
        have "total_used ?N m2 = total_used ?N m1"
          unfolding total_used_def d2(5) by (rule sum.cong [OF refl]) (use d2(2) in \<open>auto simp: users_def\<close>)
        then have "accounted pool ?N m2" using acc1 [OF that] d2(4) by (simp add: accounted_def)
        then show ?thesis using f(5) by blast
      qed
      show "m3 (n' + i) = m (n + i)" if i: "8 \<le> unat i" "unat i < bsize (szf m n)" for i
      proof -
        have un: "unat (n' + i) = unat n' + unat i" using i fit a(5) en by (subst unat_word_ariths(1)) simp
        have "m3 (n' + i) = m2 (n' + i)" by (rule n3(2)) (use un i fit a(5) in \<open>simp add: user_area_def\<close>)
        moreover have "n' + i - (n' + 8) = i - 8" by simp
        moreover have "i - 8 < ?c" using i uc by (simp add: word_less_nat_alt unat_sub word_le_nat_alt)
        ultimately have "m3 (n' + i) = m1 (n + i)" by (simp add: m2_def)
        moreover have "unat n + bsize (szf m n) < 2 ^ 32"
          using layD(5) [OF mem_okD(4) [OF ok] nN(1)] unsigned_less [where w = "end_node pool sz" and 'a = nat] by simp
        then have "unat (n + i) = unat n + unat i" using i by (subst unat_word_ariths(1)) simp
        then have "n + i \<in> user_area (szf m) n" using i by (simp add: user_area_def)
        then have "m1 (n + i) = m (n + i)" using a(6) n(1) by (simp add: keeps_data_def)
        ultimately show ?thesis by simp
      qed
    qed (use cw f(2) a(2) ad(2) in auto)
  qed
qed

lemma used_word:
  assumes "used w" "\<not> bit w 30" shows "w = OS_MEM_NODE_GET_SIZE w + 0x80000000"
proof -
  have f: "bit (0x80000000 :: UINT32) i \<longleftrightarrow> i = 31" for i
  proof -
    have "(0x80000000 :: UINT32) = 2 ^ 31" by simp
    then show ?thesis by (auto simp only: bit_exp_iff possible_bit_word len_bit0 len_num1)
  qed
  have "w = take_bit 30 w OR 0x80000000"
  proof (rule bit_word_eqI)
    fix i assume i: "i < LENGTH(32)"
    consider "i < 30" | "i = 30" | "i = 31" using i by fastforce
    then show "bit w i = bit (take_bit 30 w OR 0x80000000) i"
      unfolding bit_or_iff bit_take_bit_iff f using assms by cases (auto simp: used_bit)
  qed
  also have "take_bit 30 w AND 0x80000000 = 0" by (rule bit_word_eqI, unfold bit_and_iff bit_take_bit_iff f) auto
  then have "take_bit 30 w OR 0x80000000 = take_bit 30 w + 0x80000000" by (rule disjunctive_add_eq_or [symmetric])
  finally show ?thesis by (simp only: size_mask)
qed

section \<open>The change of size\<close>

text \<open>The block \<open>n\<close> has become the block \<open>n'\<close>, with the data that fits.\<close>

definition reallocated ::
  "UINT32 \<Rightarrow> UINT32 \<Rightarrow> UINT32 \<Rightarrow> UINT32 \<Rightarrow> nat \<Rightarrow> UINT32 set \<Rightarrow> memory \<Rightarrow> UINT32 set \<Rightarrow> (UINT32 \<Rightarrow> UINT32 list) \<Rightarrow> memory \<Rightarrow> bool" where
  "reallocated pool sz n n' s N m N' L' m' \<longleftrightarrow> mem_ok pool sz N' L' m' \<and> n' \<notin> users N m - {n} \<and>
    users N' m' = insert n' (users N m - {n}) \<and> unmoved m' n' \<and> s \<le> bsize (szf m' n') \<and>
    keeps_data (users N m - {n}) m m' \<and>
    (\<forall>i. 8 \<le> unat i \<and> unat i < min s (bsize (szf m n)) \<longrightarrow> m' (n' + i) = m (n + i))"

lemma resized_reallocated:
  assumes ok: "mem_ok pool sz N L m" and n: "n \<in> users N m" and k: "min s (bsize (szf m n)) \<le> k"
    and r: "resized pool sz n s k N m N' L' m'"
  shows "reallocated pool sz n n s N m N' L' m'"
proof -
  have nN: "n \<in> N" using n by (simp add: users_def)
  have "unat n + bsize (szf m n) < 2 ^ 32"
    using layD(5) [OF mem_okD(4) [OF ok] nN] unsigned_less [where w = "end_node pool sz" and 'a = nat] by simp
  then have "unat (n + i) = unat n + unat i" if "unat i < bsize (szf m n)" for i
    using that by (subst unat_word_ariths(1)) simp
  then have "m' (n + i) = m (n + i)" if i: "8 \<le> unat i" "unat i < min s (bsize (szf m n))" for i
    using i less_le_trans [OF i(2) k] r by (simp add: resized_def)
  moreover have "insert n (users N m - {n}) = users N m" using n by auto
  ultimately show ?thesis using r by (simp add: resized_def reallocated_def)
qed

lemma mem_realloc_spec:
  assumes ok: "mem_ok pool sz N L m" and n: "n \<in> users N m" "unmoved m n"
    and req: "req \<noteq> 0" "unat req + 12 \<le> 2 ^ 29"
  defines "r \<equiv> nx (szf m) n" and "s \<equiv> request_bytes req"
  obtains (fail) "LOS_MemRealloc pool (n + 8) req m = Some (0, m)" "bsize (szf m n) < s"
      "used (szf m r) \<or> bsize (szf m n) + bsize (szf m r) < s" "\<forall>x\<in>N - users N m. bsize (szf m x) < s"
  | (shrink) m' N' L' where "LOS_MemRealloc pool (n + 8) req m = Some (n + 8, m')" "s \<le> bsize (szf m n)"
      "reallocated pool sz n n s N m N' L' m'" "accounted pool N m \<Longrightarrow> accounted pool N' m'"
  | (grow) m' N' L' where "LOS_MemRealloc pool (n + 8) req m = Some (n + 8, m')" "bsize (szf m n) < s"
      "\<not> used (szf m r)" "s \<le> bsize (szf m n) + bsize (szf m r)" "reallocated pool sz n n s N m N' L' m'"
      "m' (info_curUsedSize pool) = m (info_curUsedSize pool) + (szf m' n - OS_MEM_NODE_GET_SIZE (szf m n))"
  | (move) n' m' N' L' where "LOS_MemRealloc pool (n + 8) req m = Some (n' + 8, m')" "n' + 8 \<noteq> 0" "bsize (szf m n) < s"
      "used (szf m r) \<or> bsize (szf m n) + bsize (szf m r) < s"
      "reallocated pool sz n n' s N m N' L' m'" "accounted pool N m \<Longrightarrow> accounted pool N' m'"
proof -
  have nN: "n \<in> N" "used (szf m n)" using n by (auto simp: users_def)
  note l = mem_okD(4) [OF ok]
  define req' where "req' = (if req < OS_MEM_MIN_ALLOC_SIZE then OS_MEM_MIN_ALLOC_SIZE else req)"
  note code = LOS_MemRealloc_code [OF ok n req, folded req'_def]
  have r': "8 \<le> unat req'" "unat req' + 12 \<le> 2 ^ 29" "request_bytes req' = s" using code(2) req by (auto simp: request_bytes_def s_def)
  define a where "a = OS_MEM_ALIGN (req' + OS_MEM_NODE_HEAD_SIZE) OS_MEM_ALIGN_SIZE"
  have ua: "unat a = s" unfolding a_def using OS_MEM_ALIGN_size [OF r'(2)] code(2) by (simp add: s_def request_bytes_def)
  have sb: "16 \<le> unat a" "unat a < 2 ^ 29" "4 dvd unat a"
    using block_bytes [of "unat req'"] r' ua by (auto simp: request_bytes_def)
  let ?w = "OS_MEM_NODE_GET_SIZE (szf m n)"
  have uw: "unat ?w = bsize (szf m n)" by (simp add: bsize_def)
  have next_n: "OS_MEM_NEXT_NODE n m = r" by (simp add: OS_MEM_NEXT_NODE_def nx_def r_def)
  have rfree: "r \<in> N \<and> bsize (szf m r) = unat (szf m r) \<and> unat (szf m r + ?w) = bsize (szf m n) + bsize (szf m r)" if u: "\<not> used (szf m r)"
  proof -
    have rN: "r \<in> N" using layD(6) [OF l nN(1)] u lay_ends(3) [OF l] end_used by (auto simp: r_def)
    have p: "bsize (szf m r) = unat (szf m r)" by (rule plain_size [OF layD(8) [OF l rN u]])
    have "unat n + bsize (szf m n) + bsize (szf m r) < 2 ^ 32"
      using nx_unat [OF l nN(1)] layD(5) [OF l rN] unsigned_less [where w = "end_node pool sz" and 'a = nat]
      by (simp add: r_def)
    then show ?thesis using rN p uw by (simp add: unat_word_ariths(1))
  qed
  note re = OsMemRealloc_def [of pool "n + 8" n req' m, unfolded Let_def, folded a_def, unfolded next_n, folded code(1)]
  show thesis
  proof (cases "s \<le> bsize (szf m n)")
    case True
    then have s4: "unat a \<le> bsize (szf m n)" "a \<le> ?w" using ua uw by (simp_all add: word_le_nat_alt)
    obtain m' N' L' where sm: "OsMemReAllocSmaller pool a n ?w m = Some m'"
        "resized pool sz n (unat a) (unat a) N m N' L' m'" "accounted pool N m \<longrightarrow> accounted pool N' m'"
      by (rule OsMemReAllocSmaller [OF ok n(1) sb s4(1)]) (rule that, assumption+, blast)
    have "reallocated pool sz n n s N m N' L' m'"
      by (rule resized_reallocated [OF ok n(1) _ sm(2), unfolded ua]) simp
    then show thesis using shrink [of m' N' L'] re sm s4(2) True by simp
  next
    case False
    then have nle: "\<not> a \<le> ?w" "bsize (szf m n) < s" "bsize (szf m n) \<le> unat a" using ua uw by (simp_all add: word_le_nat_alt)
    show thesis
    proof (cases "\<not> used (szf m r) \<and> a \<le> szf m r + ?w")
      case True
      obtain m' N' L' where b: "OsMemMergeNodeForReAllocBigger pool a n ?w r m = Some m'"
          "resized pool sz n (unat a) (bsize (szf m n)) N m N' L' m'"
          "m' (info_curUsedSize pool) = m (info_curUsedSize pool) + (szf m' n - ?w)"
        by (rule OsMemMergeNodeForReAllocBigger [OF ok n(1) sb nle(3), folded r_def])
          (use True in simp, use True in simp, rule that)
      have "reallocated pool sz n n s N m N' L' m'"
        by (rule resized_reallocated [OF ok n(1) _ b(2), unfolded ua]) simp
      moreover have "s \<le> bsize (szf m n) + bsize (szf m r)" using True rfree ua by (simp add: word_le_nat_alt)
      ultimately show thesis using grow [of m' N' L'] re b(1,3) nle True by simp
    next
      case False
      have no: "used (szf m r) \<or> bsize (szf m n) + bsize (szf m r) < s"
        using False rfree ua by (cases "used (szf m r)") (simp_all add: word_le_nat_alt)
      note re' = re [unfolded if_not_P [OF nle(1)] if_not_P [OF False]]
      show thesis
      proof (rule realloc_move [OF ok n r'(1,2) nle(2) [folded r'(3)], unfolded r'(3)])
        assume "OsMemAlloc pool req' m = Some (0, m)" "\<forall>x\<in>N - users N m. bsize (szf m x) < s"
        then show thesis using fail re' nle(2) no by simp
      next
        fix n' m1 m2 m3 N' L'
        assume a: "OsMemAlloc pool req' m = Some (n' + 8, m1)" "n' + 8 \<noteq> 0"
          "copy_words (n' + 8) req' (n + 8) (?w - 8) m1 = (True, m2)" "OsMemFree pool n m2 = Some (LOS_OK, m3)"
          "mem_ok pool sz N' L' m3" "n' \<in> N - users N m"
          "users N' m3 = insert n' (users N m - {n})" "s \<le> bsize (szf m3 n')" "unmoved m3 n'"
          "keeps_data (users N m - {n}) m m3" "accounted pool N m \<Longrightarrow> accounted pool N' m3"
          "\<And>i. 8 \<le> unat i \<Longrightarrow> unat i < bsize (szf m n) \<Longrightarrow> m3 (n' + i) = m (n + i)"
        have "LOS_MemRealloc pool (n + 8) req m = Some (n' + 8, m3)"
          using re' a(1-4) by (simp add: OS_MEM_NODE_HEAD_SIZE_def)
        moreover have "reallocated pool sz n n' s N m N' L' m3"
          using a(5-10,12) by (simp add: reallocated_def)
        ultimately show thesis using move [of n' m3 N' L'] a(2,11) nle(2) no by simp
      qed
    qed
  qed
qed

text \<open>C8: \<open>LOS_MemRealloc\<close> of an allocated block returns a block that is large enough, with as much of the
  data as fits, and touches no other used block; where it fails, nothing has changed, the block is
  still there, and neither its free neighbour nor any free block is large enough.\<close>

theorem mem_realloc:
  assumes "mem_ok pool sz N L m" "n \<in> users N m" "unmoved m n" "req \<noteq> 0" "unat req + 12 \<le> 2 ^ 29"
  shows "\<exists>p m'. LOS_MemRealloc pool (n + 8) req m = Some (p, m') \<and>
    (if p = 0 then m' = m \<and> bsize (szf m n) < request_bytes req \<and> (\<forall>x\<in>N - users N m. bsize (szf m x) < request_bytes req)
     else \<exists>N' L'. reallocated pool sz n (p - 8) (request_bytes req) N m N' L' m')"
proof -
  have n: "n \<in> N" using assms(2) by (simp add: users_def)
  note ad = node_address(1,2) [OF assms(1) n]
  show ?thesis
  proof (rule mem_realloc_spec [OF assms], goal_cases)
    case 1
    then show ?case by simp
  next
    case (2 m' N' L')
    then show ?case using ad by (intro exI [of _ "n + 8"] exI [of _ m']) auto
  next
    case (3 m' N' L')
    then show ?case using ad by (intro exI [of _ "n + 8"] exI [of _ m']) auto
  next
    case (4 n' m' N' L')
    then show ?case by (intro exI [of _ "n' + 8"] exI [of _ m']) auto
  qed
qed

text \<open>When a block grows in place, the flag of the used block is added to the account: it is off by 2^31
  from then on, although the pool itself is sound.\<close>

theorem mem_realloc_spoils_account:
  assumes "mem_ok pool sz N L m" "n \<in> users N m" "unmoved m n" "req \<noteq> 0" "unat req + 12 \<le> 2 ^ 29"
    and "accounted pool N m" "\<not> used (szf m (nx (szf m) n))" "bsize (szf m n) < request_bytes req"
    and "request_bytes req \<le> bsize (szf m n) + bsize (szf m (nx (szf m) n))"
  shows "\<exists>m' N' L'. LOS_MemRealloc pool (n + 8) req m = Some (n + 8, m') \<and> mem_ok pool sz N' L' m' \<and>
    users N' m' = users N m \<and> m' (info_curUsedSize pool) = 952 + of_nat (total_used N' m') + 0x80000000"
proof (rule mem_realloc_spec [OF assms(1-5)], goal_cases)
  case (3 m' N' L')
  have us: "users N' m' = users N m" using 3(5) assms(2) by (auto simp: reallocated_def)
  have tr: "total_used N' m' + bsize (szf m n) = total_used N m + bsize (szf m' n)"
    by (rule total_resized [OF us _ assms(2)]) (use 3(5) in \<open>simp add: reallocated_def\<close>)
  have n: "used (szf m' n)" "\<not> bit (szf m' n) 30"
    using us assms(2) 3(5) by (auto simp: users_def reallocated_def unmoved_def aligned_bit)
  note w = used_word [OF n]
  have e: "of_nat (total_used N m) + OS_MEM_NODE_GET_SIZE (szf m' n) = of_nat (total_used N' m') + OS_MEM_NODE_GET_SIZE (szf m n)"
    using arg_cong [OF tr, of "of_nat :: nat \<Rightarrow> UINT32"] by (simp add: bsize_def)
  have "x + (g + c - v) = u + c" if "x + g = u + v" for x g c v u :: UINT32 using that by (simp add: algebra_simps)
  from this [OF e, where c = "0x80000000"]
  have "of_nat (total_used N m) + (szf m' n - OS_MEM_NODE_GET_SIZE (szf m n)) = of_nat (total_used N' m') + 0x80000000"
    by (simp only: w [symmetric])
  then have "m' (info_curUsedSize pool) = 952 + of_nat (total_used N' m') + 0x80000000"
    using 3(6) assms(6) by (simp add: accounted_def add.assoc)
  then show ?case using 3(1,5) us by (auto simp: reallocated_def)
qed (use assms(7-9) in auto)

section \<open>Witnesses\<close>

text \<open>The pool of 4 KiB with one block of 108 bytes, and the rest free behind it.\<close>

lemma demo_two:
  obtains m L where "mem_ok 0x20000000 0x1000 {0x200003B0, 0x2000041C} L m" "users {0x200003B0, 0x2000041C} m = {0x200003B0}"
    "unmoved m 0x200003B0" "bsize (szf m 0x200003B0) = 108" "nx (szf m) 0x200003B0 = 0x2000041C" "szf m 0x2000041C = 3036"
    "accounted 0x20000000 {0x200003B0, 0x2000041C} m"
proof -
  let ?n = "0x200003B0 :: UINT32"
  obtain m L where d: "mem_ok 0x20000000 0x1000 {?n} L m" "users {?n} m = {}" "szf m ?n = 3144" "accounted 0x20000000 {?n} m"
    by (rule demo_pool) (rule that)
  have r: "request_bytes 100 = 108" "bsize 3144 = 3144" "(100 :: UINT32) \<noteq> 0" "unat (100 :: UINT32) + 12 \<le> 2 ^ 29"
    using plain_size [of 3144] by (simp_all add: request_bytes_def block_bytes_def plain_iff)
  show thesis
  proof (rule mem_alloc_cases [OF d(1) r(3,4)])
    assume "\<forall>n\<in>{?n} - users {?n} m. bsize (szf m n) < request_bytes 100"
    then show thesis using d(2,3) r by simp
  next
    fix n s m' L'
    let ?N = "alloc_nodes {?n} (szf m) n s"
    assume a: "n \<in> {?n} - users {?n} m" "unat s = request_bytes 100" "mem_ok 0x20000000 0x1000 ?N L' m'"
      "\<And>x. x \<in> insert (end_node 0x20000000 0x1000) ?N \<Longrightarrow> szf m' x = alloc_sizes (szf m) n s x"
      "users ?N m' = insert n (users {?n} m)" "unmoved m' n"
      "m' (info_curUsedSize 0x20000000) = m (info_curUsedSize 0x20000000) + of_nat (bsize (szf m' n))"
    have n: "n = ?n" "s = 108" using a(1) word_of_natI [OF a(2)] r by simp_all
    have c: "cut (szf m) n s" using d(3) n by (simp add: cut_def)
    have N: "?N = {?n, 0x2000041C}" using c n by (auto simp: alloc_nodes_def)
    have S: "szf m' ?n = 108 OR OS_MEM_NODE_USED_FLAG" "szf m' 0x2000041C = 3036"
      using a(4) [of ?n] a(4) [of "0x2000041C"] N c n d(3) by (simp_all add: alloc_sizes_def)
    have p: "plain 108" "OS_MEM_NODE_GET_SIZE 108 = 108" using plain_iff [of 108] by (simp_all add: plain_def)
    have g: "OS_MEM_NODE_GET_SIZE (szf m' ?n) = 108" unfolding S size_with_used by (rule p(2))
    then have "bsize (szf m' ?n) = 108" by (simp add: bsize_def)
    moreover have "nx (szf m') ?n = 0x2000041C" by (simp only: nx_def g) simp
    moreover have "accounted 0x20000000 ?N m'" using a(5,7) d(2,4) by (simp add: accounted_def total_used_def)
    ultimately show thesis using that [of L' m'] a(3,5,6) S(2) N n(1) d(2) by simp
  qed
qed

lemma mem_realloc_witness: "\<exists>m p m' N' L'. LOS_MemRealloc 0x20000000 0x200003B8 200 m = Some (p, m') \<and> p \<noteq> 0 \<and>
    reallocated 0x20000000 0x1000 0x200003B0 (p - 8) 208 {0x200003B0, 0x2000041C} m N' L' m'"
proof -
  obtain m L where d: "mem_ok 0x20000000 0x1000 {0x200003B0, 0x2000041C} L m" "users {0x200003B0, 0x2000041C} m = {0x200003B0}"
    "unmoved m 0x200003B0" "szf m 0x2000041C = 3036"
    by (rule demo_two) (rule that)
  have r: "request_bytes 200 = 208" "bsize 3036 = 3036" "(200 :: UINT32) \<noteq> 0" "unat (200 :: UINT32) + 12 \<le> 2 ^ 29"
      "0x200003B0 + 8 = (0x200003B8 :: UINT32)"
    using plain_size [of 3036] by (simp_all add: request_bytes_def block_bytes_def plain_iff)
  have n: "0x200003B0 \<in> users {0x200003B0, 0x2000041C} m" using d(2) by simp
  obtain p m' where a: "LOS_MemRealloc 0x20000000 0x200003B8 200 m = Some (p, m')"
      "if p = 0 then m' = m \<and> bsize (szf m 0x200003B0) < 208 \<and> (\<forall>x\<in>{0x200003B0, 0x2000041C} - users {0x200003B0, 0x2000041C} m. bsize (szf m x) < 208)
       else \<exists>N' L'. reallocated 0x20000000 0x1000 0x200003B0 (p - 8) 208 {0x200003B0, 0x2000041C} m N' L' m'"
    using mem_realloc [OF d(1) n d(3) r(3,4), unfolded r(1,5)] by (elim exE conjE) (rule that)
  have "p \<noteq> 0"
  proof
    assume "p = 0"
    then have "\<forall>x\<in>{0x200003B0, 0x2000041C} - {0x200003B0}. bsize (szf m x) < 208" using a(2) d(2) by simp
    then show False using d(4) r(2) by simp
  qed
  then show ?thesis using a by (simp only: if_False) blast
qed

lemma mem_realloc_spoils_account_witness:
  "\<exists>m m' N' L'. LOS_MemRealloc 0x20000000 0x200003B8 200 m = Some (0x200003B8, m') \<and> mem_ok 0x20000000 0x1000 N' L' m' \<and>
    accounted 0x20000000 {0x200003B0, 0x2000041C} m \<and> m' (info_curUsedSize 0x20000000) = 952 + of_nat (total_used N' m') + 0x80000000"
proof -
  obtain m L where d: "mem_ok 0x20000000 0x1000 {0x200003B0, 0x2000041C} L m" "users {0x200003B0, 0x2000041C} m = {0x200003B0}"
    "unmoved m 0x200003B0" "bsize (szf m 0x200003B0) = 108" "nx (szf m) 0x200003B0 = 0x2000041C" "szf m 0x2000041C = 3036"
    "accounted 0x20000000 {0x200003B0, 0x2000041C} m"
    by (rule demo_two) (rule that)
  have p: "plain 3036" by (simp add: plain_iff)
  have r: "request_bytes 200 = 208" "(200 :: UINT32) \<noteq> 0" "unat (200 :: UINT32) + 12 \<le> 2 ^ 29"
      "0x200003B0 + 8 = (0x200003B8 :: UINT32)"
    by (simp_all add: request_bytes_def block_bytes_def)
  have n: "0x200003B0 \<in> users {0x200003B0, 0x2000041C} m" using d(2) by simp
  have g: "\<not> used (szf m (nx (szf m) 0x200003B0))" "bsize (szf m 0x200003B0) < request_bytes 200"
      "request_bytes 200 \<le> bsize (szf m 0x200003B0) + bsize (szf m (nx (szf m) 0x200003B0))"
    using d(4-6) r(1) plain_unused [OF p] plain_size [OF p] by simp_all
  obtain m' N' L' where "LOS_MemRealloc 0x20000000 0x200003B8 200 m = Some (0x200003B8, m')" "mem_ok 0x20000000 0x1000 N' L' m'"
      "m' (info_curUsedSize 0x20000000) = 952 + of_nat (total_used N' m') + 0x80000000"
    using mem_realloc_spoils_account [OF d(1) n d(3) r(2,3) d(7) g, unfolded r(4)] by (elim exE conjE) (rule that)
  then show ?thesis using d(7) by (intro exI conjI)
qed

end
