(* ===== verification/Mem_Check.thy ===== *)
theory Mem_Check
  imports Mem_Realloc
begin

text \<open>
  The integrity check of a pool, and the places where the memory manager does not do what it means
  to: each is shown on a pool that the invariant allows, or at the boundary that the code accepts.
\<close>

section \<open>The integrity check\<close>

lemma check_sub_result: "OsMemIntegrityCheckSub x pool m = LOS_OK \<or> OsMemIntegrityCheckSub x pool m = LOS_NOK"
  by (simp add: OsMemIntegrityCheckSub_def)

lemma check_loop_result:
  assumes l: "lay fn en N (szf m) P"
  shows "a \<in> insert en N \<Longrightarrow> \<exists>t p. check_loop pool en pre a m =
    Some (if \<forall>x\<in>N. unat a \<le> unat x \<longrightarrow> OsMemIntegrityCheckSub x pool m = LOS_OK then LOS_OK else LOS_NOK, t, p)"
proof (induction "unat en - unat a" arbitrary: a pre rule: less_induct)
  case less
  show ?case
  proof (cases "a = en")
    case True
    have "\<not> unat en \<le> unat x" if "x \<in> N" for x using layD(3,5) [OF l that] by simp
    then show ?thesis by (subst check_loop.simps) (simp add: True)
  next
    case False
    then have a: "a \<in> N" using less.prems by simp
    note w = walk_rest [OF l a]
    let ?n = "nx (szf m) a" and ?ok = "\<lambda>x. OsMemIntegrityCheckSub x pool m = LOS_OK"
    have nn: "OS_MEM_NEXT_NODE a m = ?n" by (simp add: OS_MEM_NEXT_NODE_def nx_def)
    have dec: "unat en - unat ?n < unat en - unat a" using w(3,4) by (simp add: word_less_nat_alt)
    have rest: "(\<forall>x\<in>N. unat a \<le> unat x \<longrightarrow> ?ok x) \<longleftrightarrow> ?ok a \<and> (\<forall>x\<in>N. unat ?n \<le> unat x \<longrightarrow> ?ok x)"
    proof -
      have "x \<in> N \<and> unat a \<le> unat x \<longleftrightarrow> x = a \<or> x \<in> N \<and> unat ?n \<le> unat x" for x
        using w(1) by (simp add: set_eq_iff)
      then show ?thesis by metis
    qed
    show ?thesis
    proof (cases "?ok a")
      case True
      then show ?thesis
        using less.hyps [OF dec layD(6) [OF l a]] w(3) rest by (subst check_loop.simps) (simp add: nn)
    next
      case False
      then show ?thesis using check_sub_result [of a pool m] w(3) rest by (subst check_loop.simps) simp
    qed
  qed
qed

text \<open>C33: \<open>LOS_MemIntegrityCheck\<close> of a sound pool returns when all of its blocks are used, and ends in
  \<open>LOS_Panic\<close> as soon as there is a free block: the ends of the free lists are taken for damaged links.\<close>

theorem mem_integrity_check:
  assumes "mem_ok pool sz N L m"
  shows "LOS_MemIntegrityCheck pool m = (if users N m = N then Some LOS_OK else None)"
proof -
  note h = mem_okD(1) [OF assms] and l = mem_okD(4) [OF assms]
  let ?ok = "\<lambda>x. OsMemIntegrityCheckSub x pool m = LOS_OK"
  have prev: "OsMemAddrValidCheck pool (prv m x) m" if "x \<in> N" for x
    by (rule addr_valid(1) [OF h]) (use lay_pred(1) [OF l that] lay_ends(2) [OF l] in \<open>cases "x = OS_MEM_FIRST_NODE pool"; simp\<close>)
  have null: "\<not> OsMemAddrValidCheck pool 0 m"
  proof -
    have "pool + sizeof_OsMemPoolHead = OS_MEM_FIRST_NODE pool" by (simp add: OS_MEM_FIRST_NODE_def)
    moreover have "unat (OS_MEM_FIRST_NODE pool) > 0" using geom_ends(1) [OF mem_okD(3) [OF assms]] by simp
    ultimately show ?thesis by (simp add: OsMemAddrValidCheck_def OS_MEM_MIDDLE_ADDR_OPEN_END_def word_le_nat_alt)
  qed
  have "(\<forall>x\<in>N. ?ok x) \<longleftrightarrow> users N m = N"
  proof
    assume "users N m = N"
    then show "\<forall>x\<in>N. ?ok x" using prev by (auto simp: OsMemIntegrityCheckSub_def users_def)
  next
    assume ok: "\<forall>x\<in>N. ?ok x"
    show "users N m = N"
    proof (rule ccontr)
      assume "users N m \<noteq> N"
      then obtain x where "x \<in> free_nodes N (szf m)" by (auto simp: users_def)
      then obtain j where j: "j < 223" "x \<in> set (L j)" using heapD(5) [OF h] by (auto simp: members_def)
      then obtain y ys where y: "L j = y # ys" by (cases "L j") auto
      have "m (free_prev y) = 0" using free_listsD(2) [OF heapD(3) [OF h] j(1)] y by simp
      moreover have "y \<in> N" "\<not> used (szf m y)"
        using heap_members [OF h in_members [OF j(1)], of y] y by auto
      ultimately show False
        using ok null by (auto simp: OsMemIntegrityCheckSub_def OsMemAddrValidCheckPrint_def split: if_splits)
    qed
  qed
  moreover have "unat (OS_MEM_FIRST_NODE pool) \<le> unat x" if "x \<in> N" for x by (rule layD(1) [OF l that])
  then have "(\<forall>x\<in>N. unat (OS_MEM_FIRST_NODE pool) \<le> unat x \<longrightarrow> ?ok x) \<longleftrightarrow> (\<forall>x\<in>N. ?ok x)" by blast
  ultimately have iff: "(\<forall>x\<in>N. unat (OS_MEM_FIRST_NODE pool) \<le> unat x \<longrightarrow> ?ok x) \<longleftrightarrow> users N m = N" by simp
  have "OS_MEM_FIRST_NODE pool \<in> insert (end_node pool sz) N" using lay_ends(1) [OF l] by simp
  from check_loop_result [OF l this, of pool "OS_MEM_FIRST_NODE pool", unfolded iff]
  obtain t p where "check_loop pool (end_node pool sz) (OS_MEM_FIRST_NODE pool) (OS_MEM_FIRST_NODE pool) m =
      Some (if users N m = N then LOS_OK else LOS_NOK, t, p)" by (elim exE)
  moreover have "pool \<noteq> 0" using mem_okD(3) [OF assms] by (simp add: geom_def)
  ultimately show ?thesis
    by (simp add: LOS_MemIntegrityCheck_def OsMemIntegrityCheck_def heapD(6) [OF h])
qed

lemma mem_integrity_check_witness:
  "\<exists>m L. mem_ok 0x20000000 0x1000 {0x200003B0} L m \<and> LOS_MemIntegrityCheck 0x20000000 m = None"
proof -
  obtain m L where d: "mem_ok 0x20000000 0x1000 {0x200003B0} L m" "users {0x200003B0} m = {}"
    by (rule demo_pool) (rule that)
  then show ?thesis using mem_integrity_check [OF d(1)] by auto
qed

section \<open>Requests of 512 MiB\<close>

lemma class_wraps:
  "OsMemFlGet 0x20000000 = 53" "OsMemSlGet 0x20000000 53 = 0xFFFFFFF8" "OsMemFreeListIndexGet 0x12000000 = 200"
  by code_simp+

text \<open>From 2^29 on the shift in \<open>OsMemSlGet\<close> loses the highest bit, and the class is too low by 8.\<close>

lemma search_wraps:
  assumes l: "free_lists pool L m" and j: "j < 223" "200 \<le> j" "L j \<noteq> []"
  obtains r where "OsMemFindNextSuitableBlock pool 0x20000000 m = Some (hd (L r), r)" "r < 223" "L r \<noteq> []"
proof -
  define tmp where "tmp = OsMemNotEmptyIndexGet pool 200 m"
  define found where "found = (if tmp \<noteq> 223 then Some tmp else next_word pool (LOS_Align (200 + 1) 32) m)"
  have b: "\<not> (53 :: UINT32) < OS_MEM_SMALL_BUCKET_COUNT" by (simp add: OS_MEM_SMALL_BUCKET_COUNT_def)
  have e: "push_bit OS_MEM_SLI (53 - OS_MEM_SMALL_BUCKET_COUNT) + 0xFFFFFFF8 + OS_MEM_SMALL_BUCKET_COUNT = 199"
    by code_simp
  have one: "(199 :: UINT32) + 1 = 200" by simp
  have f: "found = Some r \<Longrightarrow> OsMemFindNextSuitableBlock pool 0x20000000 m = Some (m (freeList pool r), r)" for r
    unfolding OsMemFindNextSuitableBlock_def Let_def class_wraps if_not_P [OF b] e one mem_counts(1) found_def tmp_def
    by (auto split: option.splits)
  have "case found of None \<Rightarrow> \<forall>j<223. 200 \<le> j \<longrightarrow> L j = [] | Some r \<Rightarrow> lowest_class L 200 r"
    unfolding found_def tmp_def by (rule bitmap_search [OF l]) simp
  then obtain r where r: "found = Some r" "lowest_class L 200 r" using j by (cases found) auto
  then have "r < 223" "L r \<noteq> []" by (simp_all add: lowest_class_def)
  moreover from this have "m (freeList pool r) = hd (L r)" using free_listsD(1) [OF l, of r] by simp
  ultimately show thesis using that f [OF r(1)] by simp
qed

text \<open>C34: A request of 512 MiB is not refused by a pool that has a free block of 288 MiB: \<open>LOS_MemAlloc\<close>
  returns a pointer to a block that is smaller than the request.\<close>

theorem mem_alloc_too_small:
  assumes "mem_ok pool sz N L m" "n \<in> N - users N m" "0x12000000 \<le> bsize (szf m n)"
  shows "\<exists>p m'. LOS_MemAlloc_pool pool 0x1FFFFFF8 m = Some (p, m') \<and> p \<noteq> 0 \<and> p - 8 \<in> N - users N m \<and>
    bsize (szf m (p - 8)) < unat (0x1FFFFFF8 :: UINT32) + 8"
proof -
  note h = mem_okD(1) [OF assms(1)] and l = mem_okD(4) [OF assms(1)]
  have n: "n \<in> N" "\<not> used (szf m n)" using assms(2) by (auto simp: users_def)
  have pn: "bsize (szf m n) = unat (szf m n)" by (rule plain_size [OF layD(8) [OF l n]])
  have "n \<in> members L" using heapD(5) [OF h] n by simp
  then obtain j where j: "j < 223" "n \<in> set (L j)" by (auto simp: members_def)
  have "cls 0x12000000 \<le> cls (szf m n)" by (rule cls_mono) (use assms(3) pn block_size [OF l n(1)] in simp_all)
  moreover have "cls 0x12000000 = 200" using index_class(1) [of "0x12000000"] class_wraps(3) by simp
  ultimately have "200 \<le> j" using heapD(4) [OF h] j by (auto simp: classes_ok_def word_le_nat_alt)
  moreover have "L j \<noteq> []" using j by auto
  ultimately obtain r where r: "OsMemFindNextSuitableBlock pool 0x20000000 m = Some (hd (L r), r)" "r < 223" "L r \<noteq> []"
    by (rule search_wraps [OF heapD(3) [OF h] j(1)]) (rule that)
  let ?x = "hd (L r)"
  have x: "?x \<in> N" "\<not> used (szf m ?x)" "?x \<noteq> 0" "?x \<in> set (L r)"
    using heap_members [OF h in_members [OF r(2)], of ?x] r(3) lists_member(1) [OF heapD(3) [OF h] in_members [OF r(2)], of ?x]
    by auto
  note hd = heap_list_delete [OF h r(2) x(4)]
  define m1 where "m1 = OsMemListDelete pool r ?x m"
  have px: "bsize (szf m ?x) = unat (szf m ?x)" "bsize (szf m ?x) < 2 ^ 29"
    using plain_size [OF layD(8) [OF l x(1,2)]] block_size [OF l x(1)] by simp_all
  have "szf m1 ?x = szf m ?x" using hd(2) x(1) by (simp add: m1_def)
  then have no_split: "\<not> 0x20000000 + OS_MEM_MIN_LEFT_SIZE \<le> szf m1 ?x"
    using px by (simp add: OS_MEM_MIN_LEFT_SIZE_def word_le_nat_alt)
  have al: "OS_MEM_ALIGN (0x1FFFFFF8 + OS_MEM_NODE_HEAD_SIZE) OS_MEM_ALIGN_SIZE = 0x20000000" by code_simp
  have g: "OsMemFreeNodeGet pool 0x20000000 m = Some (?x, m1)" using r(1) x(3) by (simp add: OsMemFreeNodeGet_def m1_def)
  have "\<exists>m'. OsMemAlloc pool 0x1FFFFFF8 m = Some (?x + 8, m')"
    unfolding OsMemAlloc_def Let_def al using g x(3) no_split
    by (simp add: OsMemCreateUsedNode_def OS_MEM_NODE_HEAD_SIZE_def)
  moreover have "LOS_MemAlloc_pool pool 0x1FFFFFF8 m = OsMemAlloc pool 0x1FFFFFF8 m"
  proof -
    have "\<not> (0x1FFFFFF8 :: UINT32) < OS_MEM_MIN_ALLOC_SIZE" "\<not> used 0x1FFFFFF8" "\<not> OS_MEM_NODE_GET_ALIGNED_FLAG 0x1FFFFFF8"
      by code_simp+
    moreover have "pool \<noteq> 0" using mem_okD(3) [OF assms(1)] by (simp add: geom_def)
    ultimately show ?thesis by (simp add: LOS_MemAlloc_pool_def Let_def)
  qed
  ultimately obtain m' where "LOS_MemAlloc_pool pool 0x1FFFFFF8 m = Some (?x + 8, m')" by auto
  then show ?thesis
    using x(1,2) px(2) node_address(1,2) [OF assms(1) x(1)]
    by (intro exI [of _ "?x + 8"] exI [of _ m']) (simp add: users_def)
qed

lemma mem_alloc_too_small_witness:
  "\<exists>m L p m'. mem_ok 0x20000000 0x14000000 {0x200003B0} L m \<and> LOS_MemAlloc_pool 0x20000000 0x1FFFFFF8 m = Some (p, m') \<and> p \<noteq> 0"
proof -
  have g: "geom 0x20000000 0x14000000" by (simp add: geom_def)
  have z: "g_poolHead bare_pools = 0" by (simp add: bare_pools_def)
  have f: "OS_MEM_FIRST_NODE 0x20000000 = 0x200003B0" by (simp add: OS_MEM_FIRST_NODE_def mem_counts)
  obtain s' :: pools and L where s: "mem_ok 0x20000000 0x14000000 {0x200003B0} L (mem s')"
      "szf (mem s') 0x200003B0 = 0x14000000 - 952" "users {0x200003B0} (mem s') = {}"
    by (rule mem_init_spec [OF g z, unfolded f]) (rule that)
  have p: "plain (0x14000000 - 952)" by (simp add: plain_iff)
  have "bsize (szf (mem s') 0x200003B0) = 0x13FFFC48" using s(2) plain_size [OF p] by simp
  then have "0x200003B0 \<in> {0x200003B0} - users {0x200003B0} (mem s')" "0x12000000 \<le> bsize (szf (mem s') 0x200003B0)"
    using s(3) by simp_all
  from mem_alloc_too_small [OF s(1) this] obtain p m'
    where "LOS_MemAlloc_pool 0x20000000 0x1FFFFFF8 (mem s') = Some (p, m')" "p \<noteq> 0" by (elim exE conjE) (rule that)
  then show ?thesis using s(1) by (intro exI conjI)
qed

end
