(* ===== verification/Mem_Clients.thy ===== *)
theory Mem_Clients
  imports Mem_Check
begin

text \<open>
  The memory manager as its clients see it: pointers are handed out, resized and given back in any
  order, and what a client keeps in its block is not touched by the calls of the others.
\<close>

section \<open>The interface\<close>

text \<open>
  A call by a client other than the owner of \<open>mine\<close>. The state comes with the set of the pointers
  that are handed out; a client passes only pointers that it holds.
\<close>

inductive other_call ::
  "('r \<Rightarrow> 's \<Rightarrow> ('h option \<times> 's) option) \<Rightarrow> ('h \<Rightarrow> 's \<Rightarrow> 's option) \<Rightarrow> ('h \<Rightarrow> 'r \<Rightarrow> 's \<Rightarrow> ('h option \<times> 's) option) \<Rightarrow>
   ('s \<Rightarrow> 'h \<Rightarrow> 's \<Rightarrow> bool) \<Rightarrow> ('r \<Rightarrow> bool) \<Rightarrow> 'h \<Rightarrow> 's \<times> 'h set \<Rightarrow> 's \<times> 'h set \<Rightarrow> bool"
  for alloc :: "'r \<Rightarrow> 's \<Rightarrow> ('h option \<times> 's) option" and free :: "'h \<Rightarrow> 's \<Rightarrow> 's option"
    and resize :: "'h \<Rightarrow> 'r \<Rightarrow> 's \<Rightarrow> ('h option \<times> 's) option" and put :: "'s \<Rightarrow> 'h \<Rightarrow> 's \<Rightarrow> bool"
    and request :: "'r \<Rightarrow> bool" and mine :: 'h where
  alloc_none: "request r \<Longrightarrow> alloc r s = Some (None, s') \<Longrightarrow>
    other_call alloc free resize put request mine (s, H) (s', H)"
| alloc_some: "request r \<Longrightarrow> alloc r s = Some (Some h, s') \<Longrightarrow>
    other_call alloc free resize put request mine (s, H) (s', insert h H)"
| release: "h \<in> H \<Longrightarrow> h \<noteq> mine \<Longrightarrow> free h s = Some s' \<Longrightarrow>
    other_call alloc free resize put request mine (s, H) (s', H - {h})"
| resize_none: "h \<in> H \<Longrightarrow> h \<noteq> mine \<Longrightarrow> request r \<Longrightarrow> resize h r s = Some (None, s') \<Longrightarrow>
    other_call alloc free resize put request mine (s, H) (s', H)"
| resize_some: "h \<in> H \<Longrightarrow> h \<noteq> mine \<Longrightarrow> request r \<Longrightarrow> resize h r s = Some (Some k, s') \<Longrightarrow>
    other_call alloc free resize put request mine (s, H) (s', insert k (H - {h}))"
| store: "h \<in> H \<Longrightarrow> h \<noteq> mine \<Longrightarrow> put s h s' \<Longrightarrow>
    other_call alloc free resize put request mine (s, H) (s', H)"

locale allocator =
  fixes sound :: "'s \<Rightarrow> 'h set \<Rightarrow> bool" and content :: "'s \<Rightarrow> 'h \<Rightarrow> 'c"
    and alloc :: "'r \<Rightarrow> 's \<Rightarrow> ('h option \<times> 's) option" and free :: "'h \<Rightarrow> 's \<Rightarrow> 's option"
    and resize :: "'h \<Rightarrow> 'r \<Rightarrow> 's \<Rightarrow> ('h option \<times> 's) option" and put :: "'s \<Rightarrow> 'h \<Rightarrow> 's \<Rightarrow> bool"
    and request :: "'r \<Rightarrow> bool"
  assumes alloc_law: "sound s H \<Longrightarrow> request r \<Longrightarrow> \<exists>x s'. alloc r s = Some (x, s') \<and>
      (case x of None \<Rightarrow> sound s' H | Some h \<Rightarrow> h \<notin> H \<and> sound s' (insert h H)) \<and> (\<forall>k\<in>H. content s' k = content s k)"
    and free_law: "sound s H \<Longrightarrow> h \<in> H \<Longrightarrow> \<exists>s'. free h s = Some s' \<and> sound s' (H - {h}) \<and>
      (\<forall>k\<in>H - {h}. content s' k = content s k)"
    and resize_law: "sound s H \<Longrightarrow> h \<in> H \<Longrightarrow> request r \<Longrightarrow> \<exists>x s'. resize h r s = Some (x, s') \<and>
      (case x of None \<Rightarrow> sound s' H | Some k \<Rightarrow> k \<notin> H - {h} \<and> sound s' (insert k (H - {h}))) \<and>
      (\<forall>k\<in>H - {h}. content s' k = content s k)"
    and put_law: "sound s H \<Longrightarrow> h \<in> H \<Longrightarrow> put s h s' \<Longrightarrow> sound s' H \<and> (\<forall>k\<in>H - {h}. content s' k = content s k)"
begin

abbreviation other :: "'h \<Rightarrow> 's \<times> 'h set \<Rightarrow> 's \<times> 'h set \<Rightarrow> bool" where
  "other \<equiv> other_call alloc free resize put request"

lemma other_keeps:
  assumes "other mine x y"
  shows "sound (fst x) (snd x) \<Longrightarrow> mine \<in> snd x \<Longrightarrow>
    sound (fst y) (snd y) \<and> mine \<in> snd y \<and> content (fst y) mine = content (fst x) mine"
  using assms
proof (cases rule: other_call.cases)
  case (alloc_none r s s' H)
  then show "sound (fst x) (snd x) \<Longrightarrow> mine \<in> snd x \<Longrightarrow> ?thesis" using alloc_law [of s H r] by auto
next
  case (alloc_some r s h s' H)
  then show "sound (fst x) (snd x) \<Longrightarrow> mine \<in> snd x \<Longrightarrow> ?thesis" using alloc_law [of s H r] by auto
next
  case (release h H s s')
  then show "sound (fst x) (snd x) \<Longrightarrow> mine \<in> snd x \<Longrightarrow> ?thesis" using free_law [of s H h] by auto
next
  case (resize_none h H r s s')
  then show "sound (fst x) (snd x) \<Longrightarrow> mine \<in> snd x \<Longrightarrow> ?thesis" using resize_law [of s H h r] by auto
next
  case (resize_some h H r s k s')
  then show "sound (fst x) (snd x) \<Longrightarrow> mine \<in> snd x \<Longrightarrow> ?thesis" using resize_law [of s H h r] by auto
next
  case (store h H s s')
  then show "sound (fst x) (snd x) \<Longrightarrow> mine \<in> snd x \<Longrightarrow> ?thesis" using put_law [of s H h s'] by auto
qed

lemma others_keep:
  assumes "(other mine)\<^sup>*\<^sup>* x y" "sound (fst x) (snd x)" "mine \<in> snd x"
  shows "sound (fst y) (snd y) \<and> mine \<in> snd y \<and> content (fst y) mine = content (fst x) mine"
  using assms
proof (induction rule: rtranclp_induct)
  case (step y z)
  then show ?case using other_keeps [OF step.hyps(2)] by simp
qed simp

text \<open>A client that asks for two blocks holds two blocks.\<close>

lemma handed_out_once:
  assumes "(other mine)\<^sup>*\<^sup>* x y" "sound (fst x) (snd x)" "mine \<in> snd x" "request r"
    and "alloc r (fst y) = Some (Some h, s')"
  shows "h \<noteq> mine"
  using others_keep [OF assms(1-3)] alloc_law [of "fst y" "snd y" r] assms(4,5) by auto

end

section \<open>The pool as an allocator\<close>

text \<open>The pointers of the blocks that are handed out, and what a block holds.\<close>

definition live_pool :: "UINT32 \<Rightarrow> UINT32 \<Rightarrow> memory \<Rightarrow> UINT32 set \<Rightarrow> bool" where
  "live_pool pool sz m H \<longleftrightarrow>
    (\<exists>N L. mem_ok pool sz N L m \<and> H = (\<lambda>n. n + 8) ` users N m \<and> (\<forall>n\<in>users N m. unmoved m n))"

definition block_data :: "memory \<Rightarrow> UINT32 \<Rightarrow> (UINT32 \<rightharpoonup> UINT32)" where
  "block_data m p = (\<lambda>a. if a \<in> user_area (szf m) (p - 8) then Some (m a) else None)"

definition handed :: "UINT32 \<times> memory \<Rightarrow> UINT32 option \<times> memory" where
  "handed = (\<lambda>(p, m). (if p = 0 then None else Some p, m))"

definition pool_alloc :: "UINT32 \<Rightarrow> UINT32 \<Rightarrow> memory \<Rightarrow> (UINT32 option \<times> memory) option" where
  "pool_alloc pool req m = map_option handed (LOS_MemAlloc_pool pool req m)"

definition pool_free :: "UINT32 \<Rightarrow> UINT32 \<Rightarrow> memory \<Rightarrow> memory option" where
  "pool_free pool p m =
    (case LOS_MemFree_pool pool p m of Some (ret, m') \<Rightarrow> if ret = LOS_OK then Some m' else None | None \<Rightarrow> None)"

definition pool_resize :: "UINT32 \<Rightarrow> UINT32 \<Rightarrow> UINT32 \<Rightarrow> memory \<Rightarrow> (UINT32 option \<times> memory) option" where
  "pool_resize pool p req m = map_option handed (LOS_MemRealloc pool p req m)"

definition block_put :: "memory \<Rightarrow> UINT32 \<Rightarrow> memory \<Rightarrow> bool" where
  "block_put m p m' \<longleftrightarrow> (\<exists>a\<in>user_area (szf m) (p - 8). \<exists>v. m' = m(a := v))"

definition pool_request :: "UINT32 \<Rightarrow> bool" where
  "pool_request req \<longleftrightarrow> req \<noteq> 0 \<and> unat req + 12 \<le> 2 ^ 29"

lemma block_data_kept:
  assumes "keeps_data U m m'" "x \<in> U"
  shows "block_data m' (x + 8) = block_data m (x + 8)"
proof -
  have "szf m' x = szf m x" "\<forall>a\<in>user_area (szf m) x. m' a = m a" using assms by (simp_all add: keeps_data_def)
  moreover from this have "user_area (szf m') x = user_area (szf m) x" by (simp add: user_area_def)
  ultimately show ?thesis by (auto simp: block_data_def)
qed

text \<open>The blocks in \<open>U\<close> stay as they are, and the set of the used blocks becomes \<open>V\<close>.\<close>

lemma live_poolI:
  assumes "mem_ok pool sz N' L' m'" "users N' m' = V" "keeps_data U m m'" "\<forall>n\<in>U. unmoved m n" "\<forall>n\<in>V - U. unmoved m' n"
  shows "live_pool pool sz m' ((\<lambda>n. n + 8) ` V)"
proof -
  have "unmoved m' n" if "n \<in> V" for n
  proof (cases "n \<in> U")
    case True
    then show ?thesis using assms(4) keeps_sizes [OF assms(3) True] by (simp add: unmoved_def)
  next
    case False
    then show ?thesis using assms(5) that by simp
  qed
  then show ?thesis using assms(1,2) unfolding live_pool_def by blast
qed

lemma live_poolE:
  assumes "live_pool pool sz m H"
  obtains N L where "mem_ok pool sz N L m" "H = (\<lambda>n. n + 8) ` users N m" "\<forall>n\<in>users N m. unmoved m n"
  using assms unfolding live_pool_def by (elim exE conjE) (rule that)

lemma pointers_inj: "(\<lambda>n :: UINT32. n + 8) ` A - {h + 8} = (\<lambda>n. n + 8) ` (A - {h})"
  by auto

lemma pool_alloc_law:
  assumes s: "live_pool pool sz m H" and r: "pool_request req"
  shows "\<exists>x m'. pool_alloc pool req m = Some (x, m') \<and>
    (case x of None \<Rightarrow> live_pool pool sz m' H | Some h \<Rightarrow> h \<notin> H \<and> live_pool pool sz m' (insert h H)) \<and>
    (\<forall>k\<in>H. block_data m' k = block_data m k)"
proof -
  obtain N L where ok: "mem_ok pool sz N L m" and H: "H = (\<lambda>n. n + 8) ` users N m" and um: "\<forall>n\<in>users N m. unmoved m n"
    using s by (rule live_poolE)
  have req: "req \<noteq> 0" "unat req + 12 \<le> 2 ^ 29" using r by (simp_all add: pool_request_def)
  show ?thesis
  proof (rule mem_alloc_cases [OF ok req])
    assume "LOS_MemAlloc_pool pool req m = Some (0, m)"
    then show ?thesis using s by (simp add: pool_alloc_def handed_def)
  next
    fix n s m' L'
    let ?N = "alloc_nodes N (szf m) n s"
    assume a: "LOS_MemAlloc_pool pool req m = Some (n + 8, m')" "n \<in> N - users N m" "mem_ok pool sz ?N L' m'"
      "users ?N m' = insert n (users N m)" "keeps_data (users N m) m m'" "unmoved m' n"
    have "n \<in> ?N" using a(4) by (auto simp: users_def)
    note ad = node_address [OF a(3) this]
    have "live_pool pool sz m' ((\<lambda>n. n + 8) ` insert n (users N m))"
      by (rule live_poolI [OF a(3,4,5) um]) (use a(6) in auto)
    moreover have "n + 8 \<notin> H" using a(2) H by auto
    ultimately show ?thesis
      using a(1) ad(2) H block_data_kept [OF a(5)] by (auto simp: pool_alloc_def handed_def)
  qed
qed

lemma pool_free_law:
  assumes s: "live_pool pool sz m H" and h: "h \<in> H"
  shows "\<exists>m'. pool_free pool h m = Some m' \<and> live_pool pool sz m' (H - {h}) \<and> (\<forall>k\<in>H - {h}. block_data m' k = block_data m k)"
proof -
  obtain N L where ok: "mem_ok pool sz N L m" and H: "H = (\<lambda>n. n + 8) ` users N m" and um: "\<forall>n\<in>users N m. unmoved m n"
    using s by (rule live_poolE)
  obtain n where n: "h = n + 8" "n \<in> users N m" using h H by auto
  have "n \<in> N" using n by (simp add: users_def)
  note ad = node_address [OF ok this]
  let ?N = "free_blocks_nodes N (szf m) (prv m) n"
  obtain m' L' where f: "LOS_MemFree_pool pool (n + 8) m = Some (LOS_OK, m')" "mem_ok pool sz ?N L' m'"
      "users ?N m' = users N m - {n}" "keeps_data (users N m - {n}) m m'"
    by (rule mem_free_spec [OF ok n(2) real_ptr [OF um [THEN bspec, OF n(2)]] ad(2,3)]) (rule that)
  have "live_pool pool sz m' ((\<lambda>n. n + 8) ` (users N m - {n}))"
    by (rule live_poolI [OF f(2-4)]) (use um in auto)
  moreover have "H - {h} = (\<lambda>n. n + 8) ` (users N m - {n})" using H n(1) by (simp add: pointers_inj)
  ultimately show ?thesis using f(1) n(1) block_data_kept [OF f(4)] by (auto simp: pool_free_def)
qed

lemma pool_resize_law:
  assumes s: "live_pool pool sz m H" and h: "h \<in> H" and r: "pool_request req"
  shows "\<exists>x m'. pool_resize pool h req m = Some (x, m') \<and>
    (case x of None \<Rightarrow> live_pool pool sz m' H | Some k \<Rightarrow> k \<notin> H - {h} \<and> live_pool pool sz m' (insert k (H - {h}))) \<and>
    (\<forall>k\<in>H - {h}. block_data m' k = block_data m k)"
proof -
  obtain N L where ok: "mem_ok pool sz N L m" and H: "H = (\<lambda>n. n + 8) ` users N m" and um: "\<forall>n\<in>users N m. unmoved m n"
    using s by (rule live_poolE)
  obtain n where n: "h = n + 8" "n \<in> users N m" using h H by auto
  have nN: "n \<in> N" using n by (simp add: users_def)
  note ad = node_address [OF ok nN]
  have req: "req \<noteq> 0" "unat req + 12 \<le> 2 ^ 29" using r by (simp_all add: pool_request_def)
  have Hn: "H - {h} = (\<lambda>n. n + 8) ` (users N m - {n})" using H n(1) by (simp add: pointers_inj)
  have moved: ?thesis if c: "LOS_MemRealloc pool (n + 8) req m = Some (n' + 8, m')" "n' + 8 \<noteq> 0"
    "reallocated pool sz n n' (request_bytes req) N m N' L' m'" for n' m' N' L'
  proof -
    have re: "mem_ok pool sz N' L' m'" "n' \<notin> users N m - {n}" "users N' m' = insert n' (users N m - {n})" "unmoved m' n'"
      "keeps_data (users N m - {n}) m m'" using c(3) by (simp_all add: reallocated_def)
    have "live_pool pool sz m' ((\<lambda>n. n + 8) ` insert n' (users N m - {n}))"
      by (rule live_poolI [OF re(1,3,5)]) (use um re(4) in auto)
    moreover have "n' + 8 \<notin> H - {h}" using re(2) Hn by auto
    ultimately show ?thesis
      using c(1,2) Hn n(1) block_data_kept [OF re(5)] by (auto simp: pool_resize_def handed_def)
  qed
  show ?thesis
  proof (rule mem_realloc_spec [OF ok n(2) um [THEN bspec, OF n(2)] req], goal_cases)
    case 1
    then show ?case using s n(1) by (simp add: pool_resize_def handed_def)
  next
    case (2 m' N' L')
    then show ?case using ad(2) by (intro moved)
  next
    case (3 m' N' L')
    then show ?case using ad(2) by (intro moved)
  next
    case (4 n' m' N' L')
    then show ?case by (intro moved)
  qed
qed

lemma pool_put_law:
  assumes s: "live_pool pool sz m H" and h: "h \<in> H" and w: "block_put m h m'"
  shows "live_pool pool sz m' H \<and> (\<forall>k\<in>H - {h}. block_data m' k = block_data m k)"
proof -
  obtain N L where ok: "mem_ok pool sz N L m" and H: "H = (\<lambda>n. n + 8) ` users N m" and um: "\<forall>n\<in>users N m. unmoved m n"
    using s by (rule live_poolE)
  obtain n where n: "h = n + 8" "n \<in> users N m" using h H by auto
  obtain a v where "a \<in> user_area (szf m) n" "m' = m(a := v)" using w n(1) by (auto simp: block_put_def)
  then have out: "\<forall>b. b \<notin> user_area (szf m) n \<longrightarrow> m' b = m b" by auto
  note d = data_change [OF ok n(2) out]
  have "szf m' n = szf m n" using d(2) [of n] n(2) by (simp add: users_def)
  then have "live_pool pool sz m' ((\<lambda>n. n + 8) ` users N m)"
    using um n(2) by (intro live_poolI [OF d(1,5,3)]) (auto simp: unmoved_def)
  then show ?thesis using H n(1) block_data_kept [OF d(3)] by auto
qed

interpretation pool: allocator "live_pool pool sz" block_data "pool_alloc pool" "pool_free pool" "pool_resize pool"
    block_put pool_request for pool sz
  by unfold_locales (rule pool_alloc_law pool_free_law pool_resize_law pool_put_law; assumption)+

section \<open>What a client may rely on\<close>

text \<open>C7: Whatever calls of \<open>LOS_MemAlloc\<close>, \<open>LOS_MemFree\<close> and \<open>LOS_MemRealloc\<close> the other clients make with
  the pointers they hold, and whatever they store in their blocks: the pool stays sound, a client
  keeps its block with all of its data, and no further request is given the same block.\<close>

theorem mem_clients:
  assumes "live_pool pool sz m H" "p \<in> H"
    and "(other_call (pool_alloc pool) (pool_free pool) (pool_resize pool) block_put pool_request p)\<^sup>*\<^sup>* (m, H) (m', H')"
  shows "live_pool pool sz m' H' \<and> p \<in> H' \<and> block_data m' p = block_data m p \<and>
    (\<forall>req m2. pool_request req \<longrightarrow> pool_alloc pool req m' \<noteq> Some (Some p, m2))"
proof -
  note k = pool.others_keep [OF assms(3), of sz] and o = pool.handed_out_once [OF assms(3), of sz]
  show ?thesis using k o assms(1,2) by auto
qed

lemma mem_clients_witness:
  "\<exists>m x m'. live_pool 0x20000000 0x1000 m {0x200003B8} \<and> pool_alloc 0x20000000 100 m = Some (x, m') \<and>
    block_data m' 0x200003B8 = block_data m 0x200003B8"
proof -
  obtain m L where d: "mem_ok 0x20000000 0x1000 {0x200003B0, 0x2000041C} L m" "users {0x200003B0, 0x2000041C} m = {0x200003B0}"
    "unmoved m 0x200003B0"
    by (rule demo_two) (rule that)
  have a: "(\<lambda>n :: UINT32. n + 8) ` {0x200003B0} = {0x200003B8}" by simp
  have "live_pool 0x20000000 0x1000 m ((\<lambda>n. n + 8) ` {0x200003B0})"
    unfolding live_pool_def by (intro exI conjI, rule d(1)) (use d in simp_all)
  then have s: "live_pool 0x20000000 0x1000 m {0x200003B8}" by (simp only: a)
  have r: "pool_request 100" by (simp add: pool_request_def)
  obtain x m' where al: "pool_alloc 0x20000000 100 m = Some (x, m')"
    using pool_alloc_law [OF s r] by (elim exE conjE) (rule that)
  have "\<exists>H'. other_call (pool_alloc 0x20000000) (pool_free 0x20000000) (pool_resize 0x20000000) block_put pool_request
      0x200003B8 (m, {0x200003B8}) (m', H')"
    using al r by (cases x) (auto intro: other_call.intros)
  then obtain H' where "(other_call (pool_alloc 0x20000000) (pool_free 0x20000000) (pool_resize 0x20000000) block_put pool_request
      0x200003B8)\<^sup>*\<^sup>* (m, {0x200003B8}) (m', H')" by (elim exE) (rule that, rule r_into_rtranclp)
  from mem_clients [OF s singletonI this] have "block_data m' 0x200003B8 = block_data m 0x200003B8" by (elim conjE)
  then show ?thesis using s al by (intro exI conjI)
qed

end
