(* ===== verification/Cpup.thy ===== *)
theory Cpup
  imports Tick Errno
begin

text \<open>
  \<open>components/cpup/los_cpup.c\<close>: the time each task has run is counted at every switch, and recorded
  once a second in a ring of ten records. \<open>OsTaskSwitchCheck\<close> calls \<open>OsTskCycleEndStart\<close> between the
  choice of the new task and the change of \<open>runTask\<close>.
\<close>

record OsCpupCB =
  cpupID :: nat
  cpupStatus :: UINT16
  allTime :: UINT64
  cpupStartTime :: UINT64
  historyTime :: "UINT64 list"

record cpup_state = sched_state +
  g_cpupInitFlg :: UINT16
  g_cpup :: "nat \<Rightarrow> OsCpupCB"
  g_lastRecordTime :: UINT64
  g_hisPos :: UINT16

definition OS_CPUP_HISTORY_RECORD_NUM :: nat where "OS_CPUP_HISTORY_RECORD_NUM = 10"

definition LOS_CPUP_PRECISION :: UINT64 where "LOS_CPUP_PRECISION = 1000"

definition CPUP_IN_10S :: UINT16 where "CPUP_IN_10S = 0"

definition CPUP_IN_1S :: UINT16 where "CPUP_IN_1S = 1"

definition CPUP_LESS_THAN_1S :: UINT16 where "CPUP_LESS_THAN_1S = 2"

definition OS_CPUP_RECORD_PERIOD :: "'a cpup_state_scheme \<Rightarrow> UINT64" where
  "OS_CPUP_RECORD_PERIOD s = of_nat (OS_SYS_CLOCK (cfg s))"

definition upd_cpup :: "nat \<Rightarrow> (OsCpupCB \<Rightarrow> OsCpupCB) \<Rightarrow> 'a cpup_state_scheme \<Rightarrow> 'a cpup_state_scheme" where
  "upd_cpup i f s = s\<lparr>g_cpup := (g_cpup s)(i := f (g_cpup s i))\<rparr>"

definition zero_cpup :: OsCpupCB where
  "zero_cpup = \<lparr>cpupID = 0, cpupStatus = 0, allTime = 0, cpupStartTime = 0,
     historyTime = replicate OS_CPUP_HISTORY_RECORD_NUM 0\<rparr>"

text \<open>\<open>mem\<close> is the address that \<open>LOS_MemAlloc\<close> returns.\<close>

definition OsCpupInit :: "UINT32 \<Rightarrow> 'a cpup_state_scheme \<Rightarrow> errno \<times> 'a cpup_state_scheme" where
  "OsCpupInit mem s =
    (if mem = 0 then (LOS_ERRNO_CPUP_NO_MEMORY, s)
     else (LOS_OK, s\<lparr>g_cpup := (\<lambda>i. if i < g_taskMaxNum s then zero_cpup else g_cpup s i), g_cpupInitFlg := 1\<rparr>))"

section \<open>Counting\<close>

definition OsTskCycleStart :: "'a cpup_state_scheme \<Rightarrow> 'a cpup_state_scheme" where
  "OsTskCycleStart s =
    (if g_cpupInitFlg s = 0 then s
     else
       let t = taskID (tcb s (newTask s));
           s = upd_cpup t (cpupID_update (\<lambda>_. t)) s;
           (now, s) = LOS_SysCycleGet s
       in upd_cpup t (cpupStartTime_update (\<lambda>_. now)) s)"

definition OsTskCycleEnd :: "'a cpup_state_scheme \<Rightarrow> 'a cpup_state_scheme" where
  "OsTskCycleEnd s =
    (if g_cpupInitFlg s = 0 then s
     else
       let t = taskID (tcb s (runTask s))
       in if cpupStartTime (g_cpup s t) = 0 then s
       else
         let (cpuCycle, s) = LOS_SysCycleGet s;
             cpuCycle = (if cpuCycle < cpupStartTime (g_cpup s t)
               then cpuCycle + of_nat (OS_CYCLE_PER_TICK (cfg s)) else cpuCycle);
             s = upd_cpup t (allTime_update (\<lambda>a. a + (cpuCycle - cpupStartTime (g_cpup s t)))) s
         in upd_cpup t (cpupStartTime_update (\<lambda>_. 0)) s)"

definition record_history :: "'a cpup_state_scheme \<Rightarrow> 'a cpup_state_scheme" where
  "record_history s =
    s\<lparr>g_cpup := (\<lambda>i. if i < g_taskMaxNum s
      then (g_cpup s i)\<lparr>historyTime := (historyTime (g_cpup s i))[unat (g_hisPos s) := allTime (g_cpup s i)]\<rparr>
      else g_cpup s i)\<rparr>"

definition OsTskCycleEndStart :: "'a cpup_state_scheme \<Rightarrow> 'a cpup_state_scheme" where
  "OsTskCycleEndStart s =
    (if g_cpupInitFlg s = 0 then s
     else
       let t = taskID (tcb s (runTask s));
           (cpuCycle, s) = LOS_SysCycleGet s;
           (cpuCycle, s) =
             (if cpupStartTime (g_cpup s t) \<noteq> 0 then
                let cpuCycle = (if cpuCycle < cpupStartTime (g_cpup s t)
                      then cpuCycle + of_nat (OS_CYCLE_PER_TICK (cfg s)) else cpuCycle);
                    s = upd_cpup t (allTime_update (\<lambda>a. a + (cpuCycle - cpupStartTime (g_cpup s t)))) s
                in (cpuCycle, upd_cpup t (cpupStartTime_update (\<lambda>_. 0)) s)
              else (cpuCycle, s));
           t = taskID (tcb s (newTask s));
           s = upd_cpup t (cpupID_update (\<lambda>_. t)) s;
           s = upd_cpup t (cpupStartTime_update (\<lambda>_. cpuCycle)) s
       in if OS_CPUP_RECORD_PERIOD s < cpuCycle - g_lastRecordTime s then
            let s = s\<lparr>g_lastRecordTime := cpuCycle\<rparr>;
                s = record_history s
            in if unat (g_hisPos s) = OS_CPUP_HISTORY_RECORD_NUM - 1 then s\<lparr>g_hisPos := 0\<rparr>
               else s\<lparr>g_hisPos := g_hisPos s + 1\<rparr>
          else s)"

text \<open>
  The task switch of the build that counts: \<open>OsTaskSwitchCheck\<close> counts after the new task has been
  chosen and before the flags and the start time of the tasks change.
\<close>

definition OsSchedTaskSwitch_counting :: "'a cpup_state_scheme \<Rightarrow> bool \<times> 'a cpup_state_scheme" where
  "OsSchedTaskSwitch_counting s =
    (let run = runTask s;
         (now, s) = OsGetCurrSchedTimeCycle s;
         s = OsTimeSliceUpdate run now s;
         s = (if has (status s run) (OS_TASK_STATUS_PEND_TIME OR OS_TASK_STATUS_DELAY)
              then OsAdd2SortLink run (startTime (tcb s run)) (waitTimes (tcb s run)) OS_SORT_LINK_TASK s
              else if \<not> has (status s run)
                (OS_TASK_STATUS_PEND OR OS_TASK_STATUS_SUSPEND OR OS_TASK_STATUS_UNUSED)
              then OsSchedTaskEnQueue run s else s);
         new = OsGetTopTask s;
         s = s\<lparr>newTask := new\<rparr>;
         isTaskSwitch = (run \<noteq> new);
         s = (if isTaskSwitch then
                let s = OsTskCycleEndStart s;
                    s = status_clear run OS_TASK_STATUS_RUNNING s;
                    s = status_or new OS_TASK_STATUS_RUNNING s
                in upd_tcb new (startTime_update (\<lambda>_. startTime (tcb s run))) s
              else s);
         s = OsSchedTaskDeQueue new s;
         endTime = (if taskID (tcb s new) \<noteq> g_idleTaskID s
                    then startTime (tcb s new) + scast (timeSlice (tcb s new))
                    else OS_SCHED_MAX_RESPONSE_TIME)
     in (isTaskSwitch, OsSchedSetNextExpireTime (startTime (tcb s new)) (taskID (tcb s new)) endTime s))"

definition HalPendSV_counting :: "'a cpup_state_scheme \<Rightarrow> 'a cpup_state_scheme" where
  "HalPendSV_counting s =
    (let (switch, s) = OsSchedTaskSwitch_counting (s\<lparr>pendSV := False\<rparr>)
     in if switch then s\<lparr>runTask := newTask s\<rparr> else s)"

text \<open>What the creation and the deletion of a task do to its record (\<open>LOS_TaskCreate\<close>, \<open>LOS_TaskDelete\<close>).\<close>

definition cpup_task_create :: "nat \<Rightarrow> 'a cpup_state_scheme \<Rightarrow> 'a cpup_state_scheme" where
  "cpup_task_create t s =
    (let s = upd_cpup (taskID (tcb s t)) (cpupID_update (\<lambda>_. taskID (tcb s t))) s
     in upd_cpup (taskID (tcb s t)) (cpupStatus_update (\<lambda>_. taskStatus (tcb s t))) s)"

definition cpup_task_delete :: "nat \<Rightarrow> 'a cpup_state_scheme \<Rightarrow> 'a cpup_state_scheme" where
  "cpup_task_delete t s = upd_cpup (taskID (tcb s t)) (\<lambda>_. zero_cpup) s"

section \<open>Queries\<close>

definition OsGetPrePos :: "UINT16 \<Rightarrow> UINT16" where
  "OsGetPrePos curPos = (if curPos = 0 then of_nat (OS_CPUP_HISTORY_RECORD_NUM - 1) else curPos - 1)"

definition OsGetPositions :: "UINT16 \<Rightarrow> 'a cpup_state_scheme \<Rightarrow> UINT16 \<times> UINT16" where
  "OsGetPositions mode s =
    (let curPos = g_hisPos s
     in if mode = CPUP_IN_1S then let curPos = OsGetPrePos curPos in (curPos, OsGetPrePos curPos)
     else if mode = CPUP_LESS_THAN_1S then (OsGetPrePos curPos, 0)
     else (curPos, 0))"

text \<open>The time a task has run in the span of a mode, and the sum over a list of records.\<close>

definition span_time :: "UINT16 \<Rightarrow> UINT16 \<Rightarrow> UINT16 \<Rightarrow> OsCpupCB \<Rightarrow> UINT64" where
  "span_time mode curPos prePos c =
    (if mode = CPUP_IN_1S then historyTime c ! unat curPos - historyTime c ! unat prePos
     else allTime c - historyTime c ! unat curPos)"

definition cpup_unused :: "OsCpupCB \<Rightarrow> bool" where
  "cpup_unused c \<longleftrightarrow> cpupStatus c AND OS_TASK_STATUS_UNUSED \<noteq> 0 \<or> cpupStatus c = 0"

definition sum_cycles :: "(OsCpupCB \<Rightarrow> UINT64) \<Rightarrow> (nat \<Rightarrow> OsCpupCB) \<Rightarrow> nat list \<Rightarrow> UINT64" where
  "sum_cycles f c is = fold (\<lambda>i a. a + f (c i)) is 0"

definition used_tasks :: "'a cpup_state_scheme \<Rightarrow> nat list" where
  "used_tasks s = filter (\<lambda>i. \<not> cpup_unused (g_cpup s i)) [0..<g_taskMaxNum s]"

definition LOS_SysCpuUsage :: "'a cpup_state_scheme \<Rightarrow> (errno + UINT32) \<times> 'a cpup_state_scheme" where
  "LOS_SysCpuUsage s =
    (if g_cpupInitFlg s = 0 then (Inl LOS_ERRNO_CPUP_NO_INIT, s)
     else
       let s = OsTskCycleEnd s;
           cpuCycleAll = sum_cycles allTime (g_cpup s) [0..<g_taskMaxNum s];
           cpupRet = (if cpuCycleAll \<noteq> 0
             then ucast LOS_CPUP_PRECISION - ucast ((LOS_CPUP_PRECISION * allTime (g_cpup s (g_idleTaskID s))) div cpuCycleAll)
             else 0)
       in (Inr cpupRet, OsTskCycleStart s))"

definition LOS_HistorySysCpuUsage :: "UINT16 \<Rightarrow> 'a cpup_state_scheme \<Rightarrow> (errno + UINT32) \<times> 'a cpup_state_scheme" where
  "LOS_HistorySysCpuUsage mode s =
    (if g_cpupInitFlg s = 0 then (Inl LOS_ERRNO_CPUP_NO_INIT, s)
     else
       let s = OsTskCycleEnd s;
           (curPos, prePos) = OsGetPositions mode s;
           cpuCycleAll = sum_cycles (span_time mode curPos prePos) (g_cpup s) [0..<g_taskMaxNum s];
           idleCycleAll = span_time mode curPos prePos (g_cpup s (g_idleTaskID s));
           cpupRet = (if cpuCycleAll \<noteq> 0
             then ucast (LOS_CPUP_PRECISION) - ucast ((LOS_CPUP_PRECISION * idleCycleAll) div cpuCycleAll) else 0)
       in (Inr cpupRet, OsTskCycleStart s))"

text \<open>The checks that the queries of one task share.\<close>

definition cpup_task_check :: "nat \<Rightarrow> 'a cpup_state_scheme \<Rightarrow> errno" where
  "cpup_task_check t s =
    (if g_cpupInitFlg s = 0 then LOS_ERRNO_CPUP_NO_INIT
     else if g_taskMaxNum s \<le> t then LOS_ERRNO_CPUP_TSK_ID_INVALID
     else if cpupID (g_cpup s t) \<noteq> t then LOS_ERRNO_CPUP_THREAD_NO_CREATED
     else if cpup_unused (g_cpup s t) then LOS_ERRNO_CPUP_THREAD_NO_CREATED
     else LOS_OK)"

definition LOS_TaskCpuUsage :: "nat \<Rightarrow> 'a cpup_state_scheme \<Rightarrow> (errno + UINT32) \<times> 'a cpup_state_scheme" where
  "LOS_TaskCpuUsage t s =
    (let ret = cpup_task_check t s
     in if ret \<noteq> LOS_OK then (Inl ret, s)
     else
       let s = OsTskCycleEnd s;
           cpuCycleAll = sum_cycles allTime (g_cpup s) (used_tasks s);
           cpupRet = (if cpuCycleAll \<noteq> 0 then ucast ((LOS_CPUP_PRECISION * allTime (g_cpup s t)) div cpuCycleAll) else 0)
       in (Inr cpupRet, OsTskCycleStart s))"

definition LOS_HistoryTaskCpuUsage :: "nat \<Rightarrow> UINT16 \<Rightarrow> 'a cpup_state_scheme \<Rightarrow> (errno + UINT32) \<times> 'a cpup_state_scheme" where
  "LOS_HistoryTaskCpuUsage t mode s =
    (let ret = cpup_task_check t s
     in if ret \<noteq> LOS_OK then (Inl ret, s)
     else
       let s = OsTskCycleEnd s;
           (curPos, prePos) = OsGetPositions mode s;
           cpuCycleAll = sum_cycles (span_time mode curPos prePos) (g_cpup s) (used_tasks s);
           cpuCycleCurTsk = span_time mode curPos prePos (g_cpup s t);
           cpupRet = (if cpuCycleAll \<noteq> 0 then ucast ((LOS_CPUP_PRECISION * cpuCycleCurTsk) div cpuCycleAll) else 0)
       in (Inr cpupRet, OsTskCycleStart s))"

record CPUP_INFO_S =
  usStatus :: UINT16
  uwUsage :: UINT32

text \<open>\<open>cpupInfo\<close> is the array of the caller, \<open>None\<close> a null pointer.\<close>

definition info_entry :: "UINT64 \<Rightarrow> (OsCpupCB \<Rightarrow> UINT64) \<Rightarrow> OsCpupCB \<Rightarrow> CPUP_INFO_S \<Rightarrow> CPUP_INFO_S" where
  "info_entry cpuCycleAll span c e =
    (let e = e\<lparr>usStatus := cpupStatus c\<rparr>
     in if cpuCycleAll \<noteq> 0 then e\<lparr>uwUsage := ucast ((LOS_CPUP_PRECISION * span c) div cpuCycleAll)\<rparr> else e)"

definition LOS_AllTaskCpuUsage ::
  "(nat \<Rightarrow> CPUP_INFO_S) option \<Rightarrow> UINT16 \<Rightarrow> 'a cpup_state_scheme \<Rightarrow> errno \<times> (nat \<Rightarrow> CPUP_INFO_S) option \<times> 'a cpup_state_scheme" where
  "LOS_AllTaskCpuUsage cpupInfo mode s =
    (if g_cpupInitFlg s = 0 then (LOS_ERRNO_CPUP_NO_INIT, cpupInfo, s)
     else case cpupInfo of None \<Rightarrow> (LOS_ERRNO_CPUP_TASK_PTR_NULL, cpupInfo, s)
     | Some info \<Rightarrow>
         let s = OsTskCycleEnd s;
             (curPos, prePos) = OsGetPositions mode s;
             cpuCycleAll = sum_cycles (span_time mode curPos prePos) (g_cpup s) (used_tasks s);
             info = fold (\<lambda>i info. info(i := info_entry cpuCycleAll (span_time mode curPos prePos) (g_cpup s i) (info i)))
               (used_tasks s) info
         in (LOS_OK, Some info, OsTskCycleStart s))"

datatype CPUP_TYPE_E = SYS_CPU_USAGE | TASK_CPU_USAGE | other_type

text \<open>\<open>LOS_CpupUsageMonitor\<close> prints the usage; the printed number is the second component.\<close>

definition LOS_CpupUsageMonitor ::
  "CPUP_TYPE_E \<Rightarrow> UINT16 \<Rightarrow> nat \<Rightarrow> 'a cpup_state_scheme \<Rightarrow> errno \<times> (errno + UINT32) option \<times> 'a cpup_state_scheme" where
  "LOS_CpupUsageMonitor type mode t s =
    (case type of
       SYS_CPU_USAGE \<Rightarrow> let (ret, s) = LOS_HistorySysCpuUsage mode s in (LOS_OK, Some ret, s)
     | TASK_CPU_USAGE \<Rightarrow>
         if LOSCFG_BASE_CORE_TSK_LIMIT (cfg s) < t then (OS_ERROR, None, s)
         else if taskStatus (tcb s t) AND OS_TASK_STATUS_UNUSED \<noteq> 0 then (OS_ERROR, None, s)
         else let (ret, s) = LOS_HistoryTaskCpuUsage t mode s in (LOS_OK, Some ret, s)
     | other_type \<Rightarrow> (OS_ERROR, None, s))"

end
