(* ===== verification/Cpup_Switch.thy ===== *)
theory Cpup_Switch
  imports Cpup Sched_Props
begin

text \<open>
  The counting of the CPU time next to the scheduler: a switch that counts is the switch without it
  and a change of the four fields of the counting.
\<close>

section \<open>Counting next to the scheduler\<close>

definition put :: "(nat \<Rightarrow> OsCpupCB) \<Rightarrow> UINT64 \<Rightarrow> UINT16 \<Rightarrow> 'a cpup_state_scheme \<Rightarrow> 'a cpup_state_scheme" where
  "put c r p s = s\<lparr>g_cpup := c, g_lastRecordTime := r, g_hisPos := p\<rparr>"

lemma put_frame [simp]:
  "g_cpup (put c r p s) = c" "g_lastRecordTime (put c r p s) = r" "g_hisPos (put c r p s) = p"
  "g_cpupInitFlg (put c r p s) = g_cpupInitFlg s" "g_taskCBArray (put c r p s) = g_taskCBArray s"
  "pend (put c r p s) = pend s" "runTask (put c r p s) = runTask s" "newTask (put c r p s) = newTask s"
  "g_taskScheduled (put c r p s) = g_taskScheduled s" "g_taskMaxNum (put c r p s) = g_taskMaxNum s"
  "g_idleTaskID (put c r p s) = g_idleTaskID s" "cfg (put c r p s) = cfg s"
  "oldSchedTime (put c r p s) = oldSchedTime s" "g_queueBitmap (put c r p s) = g_queueBitmap s"
  "g_schedResponseTime (put c r p s) = g_schedResponseTime s" "OsGetNextExpireTime t (put c r p s) = OsGetNextExpireTime t s"
  "put c r p (put c' r' p' s) = put c r p s"
  by (simp_all add: put_def OsGetNextExpireTime_def Let_def)

lemma put_CurrTime [simp]:
  "OsGetCurrSchedTimeCycle (put c r p s) =
    (fst (OsGetCurrSchedTimeCycle s), put c r p (snd (OsGetCurrSchedTimeCycle s)))"
  by (simp add: OsGetCurrSchedTimeCycle_def HalGetTickCycle_def LOS_ASSERT_def Let_def put_def)

lemma put_commutes:
  "upd_tcb t f (put c r p s) = put c r p (upd_tcb t f s)"
  "status_clear t w (put c r p s) = put c r p (status_clear t w s)"
  "status_or t w (put c r p s) = put c r p (status_or t w s)"
  "(put c r p s)\<lparr>runTask := u\<rparr> = put c r p (s\<lparr>runTask := u\<rparr>)"
  "(put c r p s)\<lparr>newTask := u\<rparr> = put c r p (s\<lparr>newTask := u\<rparr>)"
  by (simp_all add: upd_tcb_def status_clear_def status_or_def put_def)

lemma put_DeQueue: "OsSchedTaskDeQueue t (put c r p s) = put c r p (OsSchedTaskDeQueue t s)"
  by (simp add: OsSchedTaskDeQueue_def OsSchedPriQueueDelete_def status_clear_def upd_tcb_def put_def Let_def)

lemma put_arm:
  "(put c r p s)\<lparr>g_schedResponseID := i, g_schedResponseTime := t\<rparr> = put c r p (s\<lparr>g_schedResponseID := i, g_schedResponseTime := t\<rparr>)"
  "(put c r p s)\<lparr>g_schedTimerBase := b\<rparr> = put c r p (s\<lparr>g_schedTimerBase := b\<rparr>)"
  "HalSysTickReload n (put c r p s) = put c r p (HalSysTickReload n s)"
  by (simp_all add: put_def HalSysTickReload_def Let_def)

lemma put_SetNext: "OsSchedSetNextExpireTime a b e (put c r p s) = put c r p (OsSchedSetNextExpireTime a b e s)"
  by (simp only: OsSchedSetNextExpireTime_def Let_def put_frame put_arm put_CurrTime case_prod_beta fst_conv snd_conv
      if_distrib [of "put c r p"])

text \<open>Whom a switch charges and starts, and the records it writes.\<close>

definition counted :: "nat \<Rightarrow> nat \<Rightarrow> UINT64 \<Rightarrow> (nat \<Rightarrow> OsCpupCB) \<Rightarrow> nat \<Rightarrow> OsCpupCB" where
  "counted run new t c =
    (let c = (if cpupStartTime (c run) = 0 then c else
           c(run := (c run)\<lparr>allTime := allTime (c run) + (t - cpupStartTime (c run)), cpupStartTime := 0\<rparr>))
     in c(new := (c new)\<lparr>cpupID := new, cpupStartTime := t\<rparr>))"

definition recorded :: "nat \<Rightarrow> nat \<Rightarrow> (nat \<Rightarrow> OsCpupCB) \<Rightarrow> nat \<Rightarrow> OsCpupCB" where
  "recorded n k c = (\<lambda>i. if i < n then (c i)\<lparr>historyTime := (historyTime (c i))[k := allTime (c i)]\<rparr> else c i)"

definition due :: "'a cpup_state_scheme \<Rightarrow> bool" where
  "due s \<longleftrightarrow> OS_CPUP_RECORD_PERIOD s < oldSchedTime s - g_lastRecordTime s"

abbreviation rid :: "'a cpup_state_scheme \<Rightarrow> nat" where "rid s \<equiv> taskID (tcb s (runTask s))"

abbreviation nid :: "'a cpup_state_scheme \<Rightarrow> nat" where "nid s \<equiv> taskID (tcb s (newTask s))"

abbreviation switch_cpup :: "'a cpup_state_scheme \<Rightarrow> nat \<Rightarrow> OsCpupCB" where
  "switch_cpup s \<equiv> counted (rid s) (nid s) (oldSchedTime s) (g_cpup s)"

definition next_pos :: "UINT16 \<Rightarrow> UINT16" where "next_pos k = (if unat k = 9 then 0 else k + 1)"

lemma SysCycle_read: "time_read s \<Longrightarrow> LOS_SysCycleGet s = (oldSchedTime s, s)"
  by (simp add: LOS_SysCycleGet_def time_read_now)

lemma allTime_add: "allTime_update (\<lambda>a. a + x) c = c\<lparr>allTime := allTime c + x\<rparr>" for c :: OsCpupCB
  by (cases c) simp

lemma CycleEndStart_all:
  assumes "time_read s" "g_cpupInitFlg s \<noteq> 0"
    and t: "t = (if oldSchedTime s < cpupStartTime (g_cpup s (rid s)) then oldSchedTime s + of_nat (OS_CYCLE_PER_TICK (cfg s))
      else oldSchedTime s)"
  shows "OsTskCycleEndStart s =
    (if OS_CPUP_RECORD_PERIOD s < t - g_lastRecordTime s
     then put (recorded (g_taskMaxNum s) (unat (g_hisPos s)) (counted (rid s) (nid s) t (g_cpup s))) t (next_pos (g_hisPos s)) s
     else put (counted (rid s) (nid s) t (g_cpup s)) (g_lastRecordTime s) (g_hisPos s) s)"
proof (cases "cpupStartTime (g_cpup s (rid s)) = 0")
  case True
  then have t0: "t = oldSchedTime s" by (simp add: t)
  show ?thesis
    using assms(2) True unfolding OsTskCycleEndStart_def SysCycle_read [OF assms(1)] t0
    by (simp add: upd_cpup_def counted_def record_history_def recorded_def next_pos_def put_def fun_eq_iff
        OS_CPUP_RECORD_PERIOD_def OS_CPUP_HISTORY_RECORD_NUM_def Let_def)
next
  case False
  then show ?thesis
    using assms(2) unfolding OsTskCycleEndStart_def SysCycle_read [OF assms(1)]
    by (simp add: upd_cpup_def counted_def record_history_def recorded_def next_pos_def put_def fun_eq_iff
        OS_CPUP_RECORD_PERIOD_def OS_CPUP_HISTORY_RECORD_NUM_def Let_def flip: t)
qed

lemma put_self: "put (g_cpup s) (g_lastRecordTime s) (g_hisPos s) s = s"
  by (simp add: put_def)

lemma CycleEndStart_put:
  assumes "time_read s"
  shows "\<exists>c r p. OsTskCycleEndStart s = put c r p s"
proof (cases "g_cpupInitFlg s = 0")
  case True
  then have "OsTskCycleEndStart s = s" by (simp add: OsTskCycleEndStart_def)
  then show ?thesis using put_self by metis
next
  case False
  show ?thesis by (subst CycleEndStart_all [OF assms False refl]) (auto simp del: put_frame)
qed

lemma CycleEndStart_eq:
  assumes "time_read s" "g_cpupInitFlg s \<noteq> 0" "cpupStartTime (g_cpup s (rid s)) \<le> oldSchedTime s"
  shows "OsTskCycleEndStart s =
    (if due s then put (recorded (g_taskMaxNum s) (unat (g_hisPos s)) (switch_cpup s)) (oldSchedTime s) (next_pos (g_hisPos s)) s
     else put (switch_cpup s) (g_lastRecordTime s) (g_hisPos s) s)"
  using assms(3) by (subst CycleEndStart_all [OF assms(1,2), of "oldSchedTime s"]) (auto simp: due_def)

text \<open>The state in which a switch counts: the new task is chosen, the time has just been read.\<close>

definition chosen :: "'a cpup_state_scheme \<Rightarrow> 'a cpup_state_scheme" where
  "chosen s = (let s' = switch_place (runTask s) (switch_account s) in s'\<lparr>newTask := OsGetTopTask s'\<rparr>)"

lemma cpup_fields:
  assumes "sched_state.more s = sched_state.more s'"
  shows "g_cpup s = g_cpup s'" "g_cpupInitFlg s = g_cpupInitFlg s'" "g_lastRecordTime s = g_lastRecordTime s'"
    "g_hisPos s = g_hisPos s'"
  using assms by (cases s; cases s'; simp)+

lemma EnQueue_frame [simp]:
  "taskID (tcb (OsSchedTaskEnQueue t s) u) = taskID (tcb s u)"
  "time_read (OsSchedTaskEnQueue t s) = time_read s" "oldSchedTime (OsSchedTaskEnQueue t s) = oldSchedTime s"
  by (simp_all add: time_read_def HalGetTickCycle_def OsSchedTaskEnQueue_def OsSchedPriQueueEnHead_def
      OsSchedPriQueueEnTail_def set_prio_bit_def LOS_ASSERT_def status_clear_def status_or_def upd_tcb_def Let_def)

lemma Add2SortLink_frame [simp]:
  "taskID (tcb (OsAdd2SortLink t start ticks OS_SORT_LINK_TASK s) u) = taskID (tcb s u)"
  "time_read (OsAdd2SortLink t start ticks OS_SORT_LINK_TASK s) = time_read s"
  "oldSchedTime (OsAdd2SortLink t start ticks OS_SORT_LINK_TASK s) = oldSchedTime s"
  by (simp_all add: OsAdd2SortLink_def upd_sortlink_def time_read_def HalGetTickCycle_def Let_def)

lemma place_frame [simp]:
  "sched_state.more (switch_place t s) = sched_state.more s" "g_taskScheduled (switch_place t s) = g_taskScheduled s"
  "g_taskMaxNum (switch_place t s) = g_taskMaxNum s" "runTask (switch_place t s) = runTask s"
  "taskID (tcb (switch_place t s) u) = taskID (tcb s u)"
  "time_read (switch_place t s) = time_read s" "oldSchedTime (switch_place t s) = oldSchedTime s"
  by (simp_all add: switch_place_def)

lemma account_frame [simp]:
  "sched_state.more (switch_account s) = sched_state.more s" "g_taskScheduled (switch_account s) = g_taskScheduled s"
  "taskID (tcb (switch_account s) u) = taskID (tcb s u)"
  by (simp_all add: switch_account_def OsTimeSliceUpdate_def upd_tcb_def LOS_ASSERT_def Let_def)

lemma account_time:
  assumes "g_taskScheduled s"
  shows "time_read (switch_account s)" "oldSchedTime (switch_account s) = fst (OsGetCurrSchedTimeCycle s)"
proof -
  have "time_read (OsTimeSliceUpdate t w q) = time_read q" "oldSchedTime (OsTimeSliceUpdate t w q) = oldSchedTime q"
    for t w and q :: "'a sched_state_scheme"
    by (simp_all add: time_read_def HalGetTickCycle_def OsTimeSliceUpdate_def LOS_ASSERT_def upd_tcb_def Let_def)
  then show "time_read (switch_account s)" "oldSchedTime (switch_account s) = fst (OsGetCurrSchedTimeCycle s)"
    using time_read_CurrTime [OF assms] by (simp_all add: switch_account_def)
qed

lemma chosen_frame:
  "sched_state.more (chosen s) = sched_state.more s" "taskID (tcb (chosen s) u) = taskID (tcb s u)"
  "g_taskMaxNum (chosen s) = g_taskMaxNum s" "runTask (chosen s) = runTask s"
  "g_taskScheduled s \<Longrightarrow> time_read (chosen s)"
  "g_taskScheduled s \<Longrightarrow> oldSchedTime (chosen s) = fst (OsGetCurrSchedTimeCycle s)"
  using account_time [of s] place_frame(6,7) [of "runTask s" "switch_account s"]
  by (simp_all add: chosen_def Let_def time_read_def HalGetTickCycle_def)

text \<open>The rest of a switch does not look at the counts.\<close>

definition finish_switch :: "nat \<Rightarrow> 'a sched_state_scheme \<Rightarrow> 'a sched_state_scheme" where
  "finish_switch new s =
    (let s = OsSchedTaskDeQueue new s;
         endTime = (if taskID (tcb s new) \<noteq> g_idleTaskID s
                    then startTime (tcb s new) + scast (timeSlice (tcb s new))
                    else OS_SCHED_MAX_RESPONSE_TIME)
     in OsSchedSetNextExpireTime (startTime (tcb s new)) (taskID (tcb s new)) endTime s)"

lemma put_finish: "finish_switch t (put c r p s) = put c r p (finish_switch t s)"
  by (simp add: finish_switch_def Let_def put_DeQueue put_SetNext)

lemma put_flags: "switch_flags t u (put c r p s) = put c r p (switch_flags t u s)"
  by (simp add: switch_flags_def Let_def put_commutes)

lemma TaskSwitch_parts:
  "OsSchedTaskSwitch s = (runTask s \<noteq> newTask (chosen s),
    finish_switch (newTask (chosen s)) (switch_flags (runTask s) (newTask (chosen s)) (chosen s)))"
  unfolding OsSchedTaskSwitch_def chosen_def switch_account_def switch_place_def switch_flags_def finish_switch_def
    Let_def case_prod_beta by simp

lemma TaskSwitch_counting_parts:
  "OsSchedTaskSwitch_counting s = (runTask s \<noteq> newTask (chosen s),
    finish_switch (newTask (chosen s)) (switch_flags (runTask s) (newTask (chosen s))
      (if runTask s \<noteq> newTask (chosen s) then OsTskCycleEndStart (chosen s) else chosen s)))"
  unfolding OsSchedTaskSwitch_counting_def chosen_def switch_account_def switch_place_def switch_flags_def
    finish_switch_def Let_def case_prod_beta by simp

lemma PendSV_counting:
  assumes "g_taskScheduled s"
  defines "m \<equiv> chosen (s\<lparr>pendSV := False\<rparr>)"
  shows "HalPendSV_counting s =
      (if runTask s = newTask m then HalPendSV s
       else put (g_cpup (OsTskCycleEndStart m)) (g_lastRecordTime (OsTskCycleEndStart m)) (g_hisPos (OsTskCycleEndStart m))
         (HalPendSV s))"
    and "runTask (HalPendSV s) = newTask m"
proof -
  let ?s = "s\<lparr>pendSV := False\<rparr>"
  have r: "time_read m" unfolding m_def by (rule chosen_frame(5)) (simp add: assms)
  have f: "newTask (finish_switch n (switch_flags t n q)) = newTask q" "runTask (finish_switch n (switch_flags t n q)) = runTask q"
    for n t and q :: "'a cpup_state_scheme"
    by (simp_all add: finish_switch_def switch_flags_def Let_def OsSchedTaskDeQueue_def OsSchedPriQueueDelete_def
        status_clear_def status_or_def upd_tcb_def)
  have run: "runTask m = runTask s" by (simp add: m_def chosen_frame(4))
  obtain c l p where e: "OsTskCycleEndStart m = put c l p m" using CycleEndStart_put [OF r] by blast
  show "runTask (HalPendSV s) = newTask m"
    using f run by (simp add: HalPendSV_def TaskSwitch_parts flip: m_def)
  show "HalPendSV_counting s =
      (if runTask s = newTask m then HalPendSV s
       else put (g_cpup (OsTskCycleEndStart m)) (g_lastRecordTime (OsTskCycleEndStart m)) (g_hisPos (OsTskCycleEndStart m))
         (HalPendSV s))"
    using f by (simp add: HalPendSV_counting_def HalPendSV_def TaskSwitch_parts TaskSwitch_counting_parts put_flags put_finish
        put_commutes e flip: m_def)
qed

lemma PendSV_time:
  fixes s :: "'a cpup_state_scheme"
  assumes "g_taskScheduled s"
  shows "oldSchedTime (HalPendSV s) = fst (OsGetCurrSchedTimeCycle s)"
proof -
  let ?s = "s\<lparr>pendSV := False\<rparr>"
  have t: "time_read (chosen ?s)" "oldSchedTime (chosen ?s) = fst (OsGetCurrSchedTimeCycle s)"
    using chosen_frame(5,6) [of ?s] assms by (simp_all add: CurrTime_pendSV)
  have fl: "time_read (switch_flags a n q) = time_read q" "oldSchedTime (switch_flags a n q) = oldSchedTime q"
    "time_read (OsSchedTaskDeQueue n q) = time_read q" "oldSchedTime (OsSchedTaskDeQueue n q) = oldSchedTime q"
    for a n and q :: "'a cpup_state_scheme"
    by (simp_all add: switch_flags_def Let_def OsSchedTaskDeQueue_def OsSchedPriQueueDelete_def
        status_clear_def status_or_def upd_tcb_def time_read_def HalGetTickCycle_def)
  have "oldSchedTime (finish_switch n (switch_flags a n (chosen ?s))) = fst (OsGetCurrSchedTimeCycle s)" for a n
    using time_read_SetNext [of "OsSchedTaskDeQueue n (switch_flags a n (chosen ?s))"] t
    by (simp add: finish_switch_def Let_def fl)
  then show ?thesis by (simp add: HalPendSV_def TaskSwitch_parts)
qed

end
