(* ===== verification/Cpup_Props.thy ===== *)
theory Cpup_Props
  imports Cpup_Switch
begin

text \<open>
  What the counting of the CPU time promises: it does not disturb the scheduler, the times of the tasks
  add up to the time that has passed, the ring holds the last ten records in order, and the shares of
  the tasks add up to the whole but for the rounding.
\<close>

section \<open>The scheduler is not disturbed\<close>

text \<open>
  C17: The build that counts the CPU time schedules like the one that does not: after the PendSV handler every
  part of the scheduler's state is the same, the hardware timer included, although the counting reads the clock
  once more in the middle of the switch.
\<close>

theorem counting_keeps_schedule:
  assumes "g_taskScheduled s"
  shows "sched_state.truncate (HalPendSV_counting s) = sched_state.truncate (HalPendSV s)"
  unfolding PendSV_counting(1) [OF assms] by (simp add: put_def sched_state.truncate_def)

section \<open>The time adds up\<close>

text \<open>Only the running task is on the clock, and \<open>first\<close> plus all that was charged is when it came on.\<close>

definition counting :: "UINT64 \<Rightarrow> 'a cpup_state_scheme \<Rightarrow> bool" where
  "counting first s \<longleftrightarrow> g_cpupInitFlg s \<noteq> 0 \<and> g_taskScheduled s \<and> runTask s < g_taskMaxNum s \<and>
    (\<forall>i. i \<noteq> runTask s \<longrightarrow> cpupStartTime (g_cpup s i) = 0) \<and>
    cpupStartTime (g_cpup s (runTask s)) \<noteq> 0 \<and> cpupStartTime (g_cpup s (runTask s)) \<le> oldSchedTime s \<and>
    first + (\<Sum>i<g_taskMaxNum s. allTime (g_cpup s i)) = cpupStartTime (g_cpup s (runTask s))"

lemma sum_upd:
  fixes f :: "nat \<Rightarrow> 'b::ab_group_add"
  assumes "r < n" and "\<And>i. i \<noteq> r \<Longrightarrow> g i = f i"
  shows "(\<Sum>i<n. g i) = (\<Sum>i<n. f i) + (g r - f r)"
proof -
  have "(\<Sum>i\<in>{..<n} - {r}. g i) = (\<Sum>i\<in>{..<n} - {r}. f i)" by (rule sum.cong) (use assms(2) in auto)
  then show ?thesis using assms(1) by (simp add: sum.remove [of "{..<n}" r])
qed

lemma allTime_recorded [simp]: "allTime (recorded n k c i) = allTime (c i)" "cpupStartTime (recorded n k c i) = cpupStartTime (c i)"
  by (simp_all add: recorded_def)

lemma counted_start: "cpupStartTime (counted r n t c i) = (if i = n then t else if i = r then 0 else cpupStartTime (c i))"
  by (simp add: counted_def Let_def)

lemma counted_time:
  "allTime (counted r n t c i) = (if i = r \<and> cpupStartTime (c r) \<noteq> 0 then allTime (c r) + (t - cpupStartTime (c r)) else allTime (c i))"
  by (simp add: counted_def Let_def)

lemma counting_switch_sum:
  fixes c :: "nat \<Rightarrow> OsCpupCB"
  assumes "r < n" "cpupStartTime (c r) \<noteq> 0"
  shows "(\<Sum>i<n. allTime (counted r new t c i)) = (\<Sum>i<n. allTime (c i)) + (t - cpupStartTime (c r))"
  by (subst sum_upd [of r n _ "\<lambda>i. allTime (c i)"]) (use assms in \<open>auto simp: counted_time\<close>)

lemma PendSV_frame:
  fixes s :: "'a cpup_state_scheme"
  shows "g_cpup (HalPendSV s) = g_cpup s" "g_cpupInitFlg (HalPendSV s) = g_cpupInitFlg s"
    "g_taskScheduled (HalPendSV s) = g_taskScheduled s" "g_taskMaxNum (HalPendSV s) = g_taskMaxNum s"
  using cpup_fields [of "HalPendSV s" s] by simp_all

lemma inv_taskID: "sched_inv s \<Longrightarrow> t < g_taskMaxNum s \<Longrightarrow> taskID (tcb s t) = t"
  by (drule sched_invD(1)) (auto simp: core_ex_def task_ok_def)

text \<open>The counts after a switch.\<close>

lemma PendSV_counting_cpup:
  assumes inv: "sched_inv s" "g_idleTaskID s < g_taskMaxNum s" "no_overflow s" and ck: "clock_ok s"
    and sch: "g_taskScheduled s" "g_cpupInitFlg s \<noteq> 0" "runTask s < g_taskMaxNum s"
    and le: "cpupStartTime (g_cpup s (runTask s)) \<le> oldSchedTime s"
    and ne: "runTask (HalPendSV s) \<noteq> runTask s"
  defines "t \<equiv> fst (OsGetCurrSchedTimeCycle s)"
  defines "c \<equiv> counted (runTask s) (runTask (HalPendSV s)) t (g_cpup s)"
  shows "HalPendSV_counting s =
    (if OS_CPUP_RECORD_PERIOD s < t - g_lastRecordTime s
     then put (recorded (g_taskMaxNum s) (unat (g_hisPos s)) c) t (next_pos (g_hisPos s)) (HalPendSV s)
     else put c (g_lastRecordTime s) (g_hisPos s) (HalPendSV s))"
proof -
  let ?s = "s\<lparr>pendSV := False\<rparr>"
  let ?m = "chosen ?s"
  have m: "time_read ?m" "oldSchedTime ?m = t" "runTask ?m = runTask s" "g_taskMaxNum ?m = g_taskMaxNum s"
    "taskID (tcb ?m u) = taskID (tcb s u)" for u
    using chosen_frame [of ?s] sch by (simp_all add: t_def CurrTime_pendSV)
  have c: "g_cpup ?m = g_cpup s" "g_cpupInitFlg ?m = g_cpupInitFlg s" "g_lastRecordTime ?m = g_lastRecordTime s"
    "g_hisPos ?m = g_hisPos s" "OS_CPUP_RECORD_PERIOD ?m = OS_CPUP_RECORD_PERIOD s"
    using cpup_fields [OF chosen_frame(1) [of ?s]]
    by (simp_all add: OS_CPUP_RECORD_PERIOD_def chosen_def Let_def switch_place_def switch_account_def)
  note new = PendSV_counting(2) [OF sch(1)]
  have n: "newTask ?m < g_taskMaxNum s"
    using HalPendSV_switched [OF inv] ne unfolding new [symmetric]
    by (auto simp: switched_def sched_inv_def running_ok_def unblocked_def)
  have ids: "rid ?m = runTask s" "nid ?m = newTask ?m"
    using inv_taskID [OF inv(1)] sch(3) n by (simp_all add: m)
  have r: "rid s = runTask s" using inv_taskID [OF inv(1)] sch(3) by simp
  have le': "cpupStartTime (g_cpup ?m (rid ?m)) \<le> oldSchedTime ?m"
    using le CurrTime_monotone(1) [OF ck sch(1)] by (simp add: r c m(2-5) flip: t_def)
  have flg: "g_cpupInitFlg ?m \<noteq> 0" using sch(2) by (simp add: c)
  have eq: "runTask s \<noteq> newTask ?m" using ne new by simp
  show ?thesis
    unfolding PendSV_counting(1) [OF sch(1)] CycleEndStart_eq [OF m(1) flg le'] ids
    using eq by (simp add: c_def new c m due_def ids)
qed

text \<open>
  C18: The time of the processor adds up. While only the running task is on the clock, the time at which the
  counting began plus all that the tasks were charged for is the time at which the running task came on; every
  PendSV handler keeps this, whether it switches or not, and after a switch the sum is the time of the switch.
\<close>

theorem cpu_time_accounted:
  assumes "sched_inv s" "g_idleTaskID s < g_taskMaxNum s" "no_overflow s" "clock_ok s" "counting first s"
  shows "counting first (HalPendSV_counting s) \<and>
    (runTask (HalPendSV_counting s) \<noteq> runTask s \<longrightarrow>
      first + (\<Sum>i<g_taskMaxNum s. allTime (g_cpup (HalPendSV_counting s) i)) = fst (OsGetCurrSchedTimeCycle s))"
proof (cases "runTask (HalPendSV s) = runTask s")
  case True
  have sch: "g_taskScheduled s" using assms(5) by (simp add: counting_def)
  have eq: "HalPendSV_counting s = HalPendSV s" using PendSV_counting [OF sch] True by simp
  have "oldSchedTime s \<le> oldSchedTime (HalPendSV s)"
    using CurrTime_monotone(1) [OF assms(4) sch] PendSV_time [OF sch] by simp
  then show ?thesis using assms(5) True unfolding eq by (auto simp: counting_def PendSV_frame intro: order_trans)
next
  case False
  let ?t = "fst (OsGetCurrSchedTimeCycle s)" and ?n = "runTask (HalPendSV s)"
  have cnt: "g_taskScheduled s" "g_cpupInitFlg s \<noteq> 0" "runTask s < g_taskMaxNum s"
    "cpupStartTime (g_cpup s (runTask s)) \<le> oldSchedTime s" "cpupStartTime (g_cpup s (runTask s)) \<noteq> 0"
    "\<And>i. i \<noteq> runTask s \<Longrightarrow> cpupStartTime (g_cpup s i) = 0"
    "first + (\<Sum>i<g_taskMaxNum s. allTime (g_cpup s i)) = cpupStartTime (g_cpup s (runTask s))"
    using assms(5) by (auto simp: counting_def)
  note eq = PendSV_counting_cpup [OF assms(1-4) cnt(1-4) False]
  have "cpupStartTime (g_cpup s (runTask s)) \<le> ?t"
    using cnt(4) CurrTime_monotone(1) [OF assms(4) cnt(1)] by (rule order_trans)
  then have t0: "?t \<noteq> 0" using cnt(5) by auto
  have n: "?n < g_taskMaxNum s"
    using HalPendSV_switched [OF assms(1-3)] by (simp add: switched_def unblocked_def PendSV_frame)
  have run: "runTask (HalPendSV_counting s) = ?n" "g_taskMaxNum (HalPendSV_counting s) = g_taskMaxNum s"
    "g_cpupInitFlg (HalPendSV_counting s) = g_cpupInitFlg s" "g_taskScheduled (HalPendSV_counting s)"
    "oldSchedTime (HalPendSV_counting s) = ?t"
    using cnt(1) PendSV_time [OF cnt(1)] by (simp_all add: eq PendSV_frame)
  have time: "allTime (g_cpup (HalPendSV_counting s) i) = allTime (counted (runTask s) ?n ?t (g_cpup s) i)"
    "cpupStartTime (g_cpup (HalPendSV_counting s) i) = cpupStartTime (counted (runTask s) ?n ?t (g_cpup s) i)" for i
    by (simp_all add: eq)
  have sum: "first + (\<Sum>i<g_taskMaxNum s. allTime (g_cpup (HalPendSV_counting s) i)) = ?t"
    unfolding time counting_switch_sum [where c = "g_cpup s", OF cnt(3,5)] using cnt(7) by (simp add: algebra_simps)
  have "counting first (HalPendSV_counting s)"
    unfolding counting_def run time(2) using sum cnt(2,6) n t0 False by (auto simp: counted_start run)
  then show ?thesis using sum by simp
qed

text \<open>A running task that has blocked is switched out.\<close>

lemma blocked_switched_out:
  fixes s :: "'a cpup_state_scheme"
  assumes inv: "sched_inv s" "g_idleTaskID s < g_taskMaxNum s" "no_overflow s"
    and p: "has (status s (runTask s)) OS_TASK_STATUS_PEND"
  shows "runTask (HalPendSV s) \<noteq> runTask s"
proof
  let ?s = "s\<lparr>pendSV := False\<rparr>" and ?r = "runTask s"
  assume same: "runTask (HalPendSV s) = ?r"
  have "status (switch_place ?r q) ?r = status q ?r" if "has (status q ?r) OS_TASK_STATUS_PEND" for q :: "'a cpup_state_scheme"
    using that by (simp add: switch_place_def OsAdd2SortLink_def upd_sortlink_def)
  then have c: "has (status (chosen ?s) ?r) OS_TASK_STATUS_PEND" using p by (simp add: chosen_def Let_def)
  have "newTask (chosen ?s) = ?r"
    using same c by (auto simp: HalPendSV_def TaskSwitch_parts chosen_frame finish_switch_def switch_flags_def Let_def
        OsSchedTaskDeQueue_def OsSchedPriQueueDelete_def status_clear_def status_or_def upd_tcb_def split: if_splits)
  then have "has (status (HalPendSV s) ?r) OS_TASK_STATUS_PEND"
    using c by (simp add: HalPendSV_def TaskSwitch_parts chosen_frame finish_switch_def switch_flags_def Let_def DeQueue_flags)
  then show False
    using HalPendSV_switched [OF inv] same by (simp add: switched_def unblocked_def)
qed

text \<open>
  A state for the witnesses: task 1 runs since the cycle 90000, the cycle is 100000, tasks 1 and 2 were charged
  for 300 and 700 cycles before. In the second state task 1 has just blocked.
\<close>

definition cpu_demo :: cpup_state where
  "cpu_demo = demo (cpup_state.fields 1
    ((\<lambda>_. zero_cpup)(1 := zero_cpup\<lparr>cpupID := 1, cpupStatus := 4, allTime := 300, cpupStartTime := 90000\<rparr>,
      2 := zero_cpup\<lparr>cpupID := 2, cpupStatus := 4, allTime := 700\<rparr>)) 0 3)"

lemma cpu_demo_sel [simp]:
  "g_cpup cpu_demo = (\<lambda>_. zero_cpup)(1 := zero_cpup\<lparr>cpupID := 1, cpupStatus := 4, allTime := 300, cpupStartTime := 90000\<rparr>,
      2 := zero_cpup\<lparr>cpupID := 2, cpupStatus := 4, allTime := 700\<rparr>)"
  "g_cpupInitFlg cpu_demo = 1" "g_lastRecordTime cpu_demo = 0" "g_hisPos cpu_demo = 3"
  "g_taskMaxNum cpu_demo = 6" "runTask cpu_demo = 1" "g_taskScheduled cpu_demo" "g_idleTaskID cpu_demo = 0"
  "oldSchedTime cpu_demo = 100000" "cfg cpu_demo = default_config" "newTask cpu_demo = 1"
  "SysTick_LOAD cpu_demo = 95999" "SysTick_VAL cpu_demo = 95999" "g_schedTimerBase cpu_demo = 100000"
  "taskID (tcb cpu_demo (Suc 0)) = 1"
  by (simp_all add: cpu_demo_def demo_def cpup_state.fields_def)

definition cpu_blocked :: cpup_state where
  "cpu_blocked = OsSchedTaskWait (SemWait 0) 10 cpu_demo"

lemma cpu_blocked_ok:
  "sched_inv cpu_blocked" "g_idleTaskID cpu_blocked < g_taskMaxNum cpu_blocked" "no_overflow cpu_blocked"
  "clock_ok cpu_blocked" "counting 89000 cpu_blocked" "runTask (HalPendSV cpu_blocked) \<noteq> runTask cpu_blocked"
  "fst (OsGetCurrSchedTimeCycle cpu_blocked) = 100000" "g_taskMaxNum cpu_blocked = 6" "g_taskScheduled cpu_blocked"
proof -
  show inv: "sched_inv cpu_blocked"
    unfolding cpu_blocked_def by (rule sched_inv_Wait) (simp_all add: cpu_demo_def demo_inv demo_unblocked)
  have f: "SysTick_LOAD cpu_blocked = 95999" "SysTick_VAL cpu_blocked = 95999" "g_schedTimerBase cpu_blocked = 100000"
    "oldSchedTime cpu_blocked = 100000" "g_taskScheduled cpu_blocked" "runTask cpu_blocked = 1"
    "g_taskMaxNum cpu_blocked = 6" "cfg cpu_blocked = default_config" "waitTimes (tcb cpu_blocked 1) = 10"
    "has (status cpu_blocked 1) OS_TASK_STATUS_PEND"
    by (simp_all add: cpu_blocked_def OsSchedTaskWait_def Let_def status_or_def upd_tcb_def LOS_WAIT_FOREVER_def)
  have c: "g_cpup cpu_blocked = g_cpup cpu_demo" "g_cpupInitFlg cpu_blocked = g_cpupInitFlg cpu_demo"
    using cpup_fields [of cpu_blocked cpu_demo] by (simp_all add: cpu_blocked_def)
  show i: "g_idleTaskID cpu_blocked < g_taskMaxNum cpu_blocked" by (simp add: cpu_blocked_def)
  show "clock_ok cpu_blocked" by (simp add: clock_ok_def f)
  show t: "fst (OsGetCurrSchedTimeCycle cpu_blocked) = 100000"
    by (simp add: OsGetCurrSchedTimeCycle_def HalGetTickCycle_def f LOS_ASSERT_def)
  then show o: "no_overflow cpu_blocked"
    by (simp add: no_overflow_def expire_at_def f f(9) [unfolded One_nat_def] OS_SORT_LINK_INVALID_TIME_def default_config_def OS_CYCLE_PER_TICK_def)
  have "(\<Sum>i<6. allTime (g_cpup cpu_demo i)) = 1000"
    by (simp add: zero_cpup_def eval_nat_numeral)
  then show "counting 89000 cpu_blocked" by (simp add: counting_def f c zero_cpup_def)
  show "runTask (HalPendSV cpu_blocked) \<noteq> runTask cpu_blocked"
    using blocked_switched_out [OF inv i o] f by simp
  show "g_taskMaxNum cpu_blocked = 6" "g_taskScheduled cpu_blocked" by (rule f)+
qed

theorem counting_keeps_schedule_witness:
  "sched_state.truncate (HalPendSV_counting cpu_blocked) = sched_state.truncate (HalPendSV cpu_blocked)"
  by (rule counting_keeps_schedule) (rule cpu_blocked_ok)

theorem cpu_time_accounted_witness:
  "runTask (HalPendSV_counting cpu_blocked) \<noteq> 1 \<and>
   (\<Sum>i<6. allTime (g_cpup (HalPendSV_counting cpu_blocked) i)) = 11000"
proof -
  have r: "runTask (HalPendSV_counting cpu_blocked) = runTask (HalPendSV cpu_blocked)" "runTask cpu_blocked = 1"
    using PendSV_counting(1) [OF cpu_blocked_ok(9)] by (simp_all add: cpu_blocked_def)
  then have "89000 + (\<Sum>i<6. allTime (g_cpup (HalPendSV_counting cpu_blocked) i)) = 100000"
    using cpu_time_accounted [OF cpu_blocked_ok(1-5)] cpu_blocked_ok(6-8) by simp
  then have "(\<Sum>i<6. allTime (g_cpup (HalPendSV_counting cpu_blocked) i)) = 100000 - 89000" by (simp add: eq_diff_eq)
  then show ?thesis using r cpu_blocked_ok(6) by simp
qed

section \<open>The ring of records\<close>

text \<open>The records of a task, the newest first, when \<open>p\<close> is the place of the next one.\<close>

definition record_at :: "UINT16 \<Rightarrow> OsCpupCB \<Rightarrow> nat \<Rightarrow> UINT64" where
  "record_at p c k = historyTime c ! ((unat p + 9 - k) mod 10)"

lemma unat_next_pos: "unat p < 10 \<Longrightarrow> unat (next_pos p) = (unat p + 1) mod 10"
  by (auto simp: next_pos_def unat_word_ariths(1))

lemma record_index:
  "p < 10 \<Longrightarrow> k < 10 \<Longrightarrow> ((p + 1) mod 10 + 9 - k) mod 10 = (if k = 0 then p else (p + 9 - (k - 1)) mod 10)" for p k :: nat
  by (cases "p = 9") (auto simp: mod_if)

lemma record_at_write:
  assumes "unat p < 10" "k < 10" "length (historyTime c) = 10"
  shows "record_at (next_pos p) (c\<lparr>historyTime := (historyTime c)[unat p := x]\<rparr>) k = (if k = 0 then x else record_at p c (k - 1))"
proof -
  have "(unat p + 9 - (k - 1)) mod 10 \<noteq> unat p" if "k \<noteq> 0" using assms(1,2) that by (auto simp: mod_if split: if_splits)
  then show ?thesis using assms record_index [OF assms(1,2)] by (auto simp: record_at_def unat_next_pos)
qed

lemma shifted:
  "(\<forall>k<Suc n. f k = (if k = 0 then x else g (k - 1))) \<Longrightarrow> map f [0..<Suc n] = x # map g [0..<n]"
  by (rule nth_equalityI) (auto simp: nth_Cons' nth_upt less_Suc_eq_le simp del: upt_Suc)

lemma history_counted [simp]: "historyTime (counted r n t c i) = historyTime (c i)"
  by (simp add: counted_def Let_def)

lemma PrePos:
  assumes "unat p < 10"
  shows "unat (OsGetPrePos p) = (unat p + 9) mod 10"
proof (cases "p = 0")
  case False
  then have "unat (p - 1) = unat p - 1" "unat p > 0" by (simp_all add: unat_minus_one unat_gt_0)
  then show ?thesis using assms False by (simp add: OsGetPrePos_def mod_if)
qed (simp add: OsGetPrePos_def OS_CPUP_HISTORY_RECORD_NUM_def)

lemma span_record:
  assumes "unat (g_hisPos s) < 10" "OsGetPositions mode s = (cur, pre)"
  shows "span_time mode cur pre c =
    (if mode = CPUP_IN_1S then record_at (g_hisPos s) c 0 - record_at (g_hisPos s) c 1
     else if mode = CPUP_LESS_THAN_1S then allTime c - record_at (g_hisPos s) c 0
     else allTime c - record_at (g_hisPos s) c 9)"
proof -
  have p: "unat (OsGetPrePos (g_hisPos s)) = (unat (g_hisPos s) + 9) mod 10" by (rule PrePos [OF assms(1)])
  have "unat (OsGetPrePos (g_hisPos s)) < 10" by (simp add: p)
  from PrePos [OF this] have q: "unat (OsGetPrePos (OsGetPrePos (g_hisPos s))) = (unat (g_hisPos s) + 8) mod 10"
    using mod_add_self2 [of "unat (g_hisPos s) + 8" 10] by (simp add: p mod_add_left_eq)
  have "cur = (if mode = CPUP_IN_1S \<or> mode = CPUP_LESS_THAN_1S then OsGetPrePos (g_hisPos s) else g_hisPos s)"
    "mode = CPUP_IN_1S \<Longrightarrow> pre = OsGetPrePos (OsGetPrePos (g_hisPos s))"
    using assms(2) by (auto simp: OsGetPositions_def Let_def split: if_splits)
  then show ?thesis
    using assms(1) by (simp add: span_time_def record_at_def p q CPUP_IN_1S_def CPUP_LESS_THAN_1S_def add.commute [of 8])
qed

text \<open>
  C32: The records of a task form a queue of the ten last: when more than a second has passed since the last
  record, a switch puts the time the task was charged for in front of the records and drops the oldest, otherwise
  it leaves them alone; and a query takes the difference of the two last records, the time since the last, or the
  time since the oldest, by its mode.
\<close>

theorem cpu_history_ring:
  assumes "time_read s" "g_cpupInitFlg s \<noteq> 0" "cpupStartTime (g_cpup s (rid s)) \<le> oldSchedTime s"
    "unat (g_hisPos s) < 10" "i < g_taskMaxNum s" "length (historyTime (g_cpup s i)) = 10"
  shows "let s' = OsTskCycleEndStart s; old = record_at (g_hisPos s) (g_cpup s i); new = record_at (g_hisPos s') (g_cpup s' i)
    in unat (g_hisPos s') < 10 \<and> length (historyTime (g_cpup s' i)) = 10 \<and>
      (if OS_CPUP_RECORD_PERIOD s < oldSchedTime s - g_lastRecordTime s
       then g_lastRecordTime s' = oldSchedTime s \<and> map new [0..<10] = allTime (g_cpup s' i) # map old [0..<9]
       else g_lastRecordTime s' = g_lastRecordTime s \<and> map new [0..<10] = map old [0..<10]) \<and>
      (\<forall>mode. case OsGetPositions mode s' of (cur, pre) \<Rightarrow> span_time mode cur pre (g_cpup s' i) =
        (if mode = CPUP_IN_1S then new 0 - new 1
         else if mode = CPUP_LESS_THAN_1S then allTime (g_cpup s' i) - new 0 else allTime (g_cpup s' i) - new 9))"
proof -
  let ?s = "OsTskCycleEndStart s" and ?c = "switch_cpup s i"
  note eq = CycleEndStart_eq [OF assms(1-3)]
  have pos: "unat (g_hisPos ?s) < 10" using assms(4) by (simp add: eq unat_next_pos)
  have len: "length (historyTime (g_cpup ?s i)) = 10" using assms(6) by (simp add: eq recorded_def)
  have "record_at (g_hisPos s) ?c k = record_at (g_hisPos s) (g_cpup s i) k" for k by (simp add: record_at_def)
  then have h: "record_at (g_hisPos ?s) (g_cpup ?s i) k =
      (if due s then if k = 0 then allTime (g_cpup ?s i) else record_at (g_hisPos s) (g_cpup s i) (k - 1)
       else record_at (g_hisPos s) (g_cpup s i) k)" if "k < 10" for k
    using record_at_write [OF assms(4) that, of ?c] assms(5,6) by (simp add: eq recorded_def)
  have rec: "if due s
       then g_lastRecordTime ?s = oldSchedTime s \<and> map (record_at (g_hisPos ?s) (g_cpup ?s i)) [0..<10] =
         allTime (g_cpup ?s i) # map (record_at (g_hisPos s) (g_cpup s i)) [0..<9]
       else g_lastRecordTime ?s = g_lastRecordTime s \<and> map (record_at (g_hisPos ?s) (g_cpup ?s i)) [0..<10] =
         map (record_at (g_hisPos s) (g_cpup s i)) [0..<10]"
  proof (cases "due s")
    case True
    then have "map (record_at (g_hisPos ?s) (g_cpup ?s i)) [0..<Suc 9] =
        allTime (g_cpup ?s i) # map (record_at (g_hisPos s) (g_cpup s i)) [0..<9]"
      using h by (intro shifted) simp
    moreover have "g_lastRecordTime ?s = oldSchedTime s" using True by (simp add: eq)
    ultimately show ?thesis using True by (simp add: numeral_nat)
  next
    case False
    then have "map (record_at (g_hisPos ?s) (g_cpup ?s i)) [0..<10] = map (record_at (g_hisPos s) (g_cpup s i)) [0..<10]"
      by (intro map_cong refl) (simp only: h set_upt atLeastLessThan_iff if_False)
    moreover have "g_lastRecordTime ?s = g_lastRecordTime s" using False by (simp add: eq)
    ultimately show ?thesis using False by simp
  qed
  have "case OsGetPositions mode ?s of (cur, pre) \<Rightarrow> span_time mode cur pre (g_cpup ?s i) =
      (if mode = CPUP_IN_1S then record_at (g_hisPos ?s) (g_cpup ?s i) 0 - record_at (g_hisPos ?s) (g_cpup ?s i) 1
       else if mode = CPUP_LESS_THAN_1S then allTime (g_cpup ?s i) - record_at (g_hisPos ?s) (g_cpup ?s i) 0
       else allTime (g_cpup ?s i) - record_at (g_hisPos ?s) (g_cpup ?s i) 9)" for mode
    by (auto split: prod.split dest: span_record [OF pos])
  with pos len rec show ?thesis unfolding Let_def due_def [symmetric] by blast
qed

text \<open>The first demonstration state two seconds later: a record is due.\<close>

theorem cpu_history_ring_witness:
  "let s' = OsTskCycleEndStart (cpu_demo\<lparr>oldSchedTime := 200000000, g_schedTimerBase := 200000000\<rparr>)
   in g_lastRecordTime s' = 200000000 \<and>
     map (record_at (g_hisPos s') (g_cpup s' 1)) [0..<10] = 199910300 # replicate 9 0"
proof -
  let ?s = "cpu_demo\<lparr>oldSchedTime := 200000000, g_schedTimerBase := 200000000\<rparr>"
  have r: "time_read ?s" by (simp add: time_read_def HalGetTickCycle_def)
  have c: "g_cpup (OsTskCycleEndStart ?s) 1 = zero_cpup\<lparr>cpupID := 1, cpupStatus := 4, allTime := 199910300,
      cpupStartTime := 200000000, historyTime := (replicate 10 0)[3 := 199910300]\<rparr>"
    using r by (subst CycleEndStart_eq)
      (simp_all add: due_def OS_CPUP_RECORD_PERIOD_def default_config_def counted_def recorded_def zero_cpup_def
        OS_CPUP_HISTORY_RECORD_NUM_def)
  have old: "map (record_at (g_hisPos ?s) (g_cpup ?s 1)) [0..<9] = replicate 9 0"
    by (intro nth_equalityI) (simp_all add: record_at_def zero_cpup_def OS_CPUP_HISTORY_RECORD_NUM_def)
  show ?thesis
    using cpu_history_ring [OF r, of 1] old c
    by (simp add: Let_def zero_cpup_def OS_CPUP_HISTORY_RECORD_NUM_def OS_CPUP_RECORD_PERIOD_def default_config_def)
qed

section \<open>The shares\<close>

lemma sum_cycles_nat:
  assumes "(\<Sum>i\<leftarrow>is. unat (f (c i))) < 2 ^ 64"
  shows "unat (sum_cycles f c is) = (\<Sum>i\<leftarrow>is. unat (f (c i)))"
proof -
  have "unat (fold (\<lambda>i a. a + f (c i)) is a) = unat a + (\<Sum>i\<leftarrow>is. unat (f (c i)))"
    if "unat a + (\<Sum>i\<leftarrow>is. unat (f (c i))) < 2 ^ 64" for a
    using that
  proof (induction "is" arbitrary: a)
    case (Cons i "is")
    then have "unat (a + f (c i)) = unat a + unat (f (c i))"
      by (subst unat_add_lem [THEN iffD1]) auto
    then show ?case using Cons by (simp add: add.assoc)
  qed simp
  from this [of 0] show ?thesis using assms by (simp add: sum_cycles_def)
qed

text \<open>Floors of proportional parts: they never exceed the whole, and lose less than one each.\<close>

lemma floors_le:
  fixes x :: "nat \<Rightarrow> nat"
  assumes "0 < b"
  shows "(\<Sum>i\<leftarrow>is. k * x i div b) \<le> k * (\<Sum>i\<leftarrow>is. x i) div b"
    and "k * (\<Sum>i\<leftarrow>is. x i) div b \<le> (\<Sum>i\<leftarrow>is. k * x i div b) + length is - 1"
proof -
  have "b * (\<Sum>i\<leftarrow>is. k * x i div b) \<le> k * (\<Sum>i\<leftarrow>is. x i)"
  proof (induction "is")
    case (Cons i "is")
    have "b * (k * x i div b) \<le> k * x i" by simp
    from add_mono [OF this Cons.IH] show ?case by (simp add: distrib_left)
  qed simp
  then show "(\<Sum>i\<leftarrow>is. k * x i div b) \<le> k * (\<Sum>i\<leftarrow>is. x i) div b"
    using assms by (simp add: less_eq_div_iff_mult_less_eq mult.commute)
  have "k * (\<Sum>i\<leftarrow>is. x i) + length is \<le> b * (\<Sum>i\<leftarrow>is. k * x i div b) + b * length is"
  proof (induction "is")
    case (Cons i "is")
    have "k * x i < b * (k * x i div b) + b" using assms by (metis add.commute dividend_less_times_div)
    then have "k * x i + 1 \<le> b * (k * x i div b) + b" by simp
    from add_mono [OF this Cons.IH] show ?case by (simp add: distrib_left)
  qed simp
  then show "k * (\<Sum>i\<leftarrow>is. x i) div b \<le> (\<Sum>i\<leftarrow>is. k * x i div b) + length is - 1"
  proof (cases "is = []")
    case False
    then have l: "0 < length is" by simp
    let ?q = "(\<Sum>i\<leftarrow>is. k * x i div b)"
    assume "k * (\<Sum>i\<leftarrow>is. x i) + length is \<le> b * ?q + b * length is"
    then have "k * (\<Sum>i\<leftarrow>is. x i) < b * (?q + length is)" using l unfolding distrib_left by linarith
    then have "k * (\<Sum>i\<leftarrow>is. x i) div b < ?q + length is" using assms by (simp add: less_mult_imp_div_less mult.commute)
    then show ?thesis using l by linarith
  qed simp
qed

lemma CycleEnd_frame:
  "cpupStatus (g_cpup (OsTskCycleEnd s) i) = cpupStatus (g_cpup s i)" "g_hisPos (OsTskCycleEnd s) = g_hisPos s"
  "g_taskMaxNum (OsTskCycleEnd s) = g_taskMaxNum s"
proof -
  have c: "g_cpup (snd (LOS_SysCycleGet s)) = g_cpup s" "g_hisPos (snd (LOS_SysCycleGet s)) = g_hisPos s"
    using cpup_fields [of "snd (LOS_SysCycleGet s)" s] by (simp_all add: LOS_SysCycleGet_def)
  then show "cpupStatus (g_cpup (OsTskCycleEnd s) i) = cpupStatus (g_cpup s i)" "g_hisPos (OsTskCycleEnd s) = g_hisPos s"
    "g_taskMaxNum (OsTskCycleEnd s) = g_taskMaxNum s"
    by (simp_all add: OsTskCycleEnd_def Let_def case_prod_beta upd_cpup_def LOS_SysCycleGet_def)
qed

lemma used_CycleEnd: "used_tasks (OsTskCycleEnd s) = used_tasks s"
  by (simp add: used_tasks_def cpup_unused_def CycleEnd_frame)

lemma Positions_CycleEnd: "OsGetPositions mode (OsTskCycleEnd s) = OsGetPositions mode s"
  by (simp add: OsGetPositions_def CycleEnd_frame)

lemma fold_entries:
  "distinct is \<Longrightarrow> fold (\<lambda>i f. f(i := g i (f i))) is f j = (if j \<in> set is then g j (f j) else f j)"
  by (induction "is" arbitrary: f) auto

text \<open>
  C31: The usage that \<open>LOS_AllTaskCpuUsage\<close> reports of the tasks in use: as long as the product with the precision
  fits the 64-bit cycles, each task gets its part of the cycles of the span in thousandths, rounded down; the
  shares add up to at most the whole, and to more than the whole less one per task; the entries of the other tasks
  are not touched; and \<open>LOS_HistoryTaskCpuUsage\<close> reports of one task what the table says of it.
\<close>

theorem cpu_usage_shares:
  fixes mode :: UINT16
  assumes init: "g_cpupInitFlg s \<noteq> 0"
  defines "span \<equiv> (case OsGetPositions mode s of (cur, pre) \<Rightarrow> \<lambda>i. unat (span_time mode cur pre (g_cpup (OsTskCycleEnd s) i)))"
  defines "whole \<equiv> (\<Sum>i\<leftarrow>used_tasks s. span i)"
  assumes fits: "1000 * whole < 2 ^ 64" and pos: "0 < whole"
  shows "case LOS_AllTaskCpuUsage (Some info) mode s of (ret, table, s') \<Rightarrow>
    ret = LOS_OK \<and>
    (\<exists>t. table = Some t \<and>
      (\<forall>i\<in>set (used_tasks s). unat (uwUsage (t i)) = 1000 * span i div whole \<and> usStatus (t i) = cpupStatus (g_cpup s i)) \<and>
      (\<forall>i. i \<notin> set (used_tasks s) \<longrightarrow> t i = info i) \<and>
      (\<Sum>i\<leftarrow>used_tasks s. unat (uwUsage (t i))) \<le> 1000 \<and>
      1000 < (\<Sum>i\<leftarrow>used_tasks s. unat (uwUsage (t i))) + length (used_tasks s) \<and>
      (\<forall>i. cpup_task_check i s = LOS_OK \<longrightarrow> fst (LOS_HistoryTaskCpuUsage i mode s) = Inr (uwUsage (t i))))"
proof -
  let ?s = "OsTskCycleEnd s" and ?U = "used_tasks s"
  obtain cur pre where cp: "OsGetPositions mode s = (cur, pre)" by (cases "OsGetPositions mode s")
  let ?f = "span_time mode cur pre"
  have span: "span i = unat (?f (g_cpup ?s i))" for i by (simp add: span_def cp)
  define all where "all = sum_cycles ?f (g_cpup ?s) ?U"
  have all: "unat all = whole"
    unfolding all_def using fits by (subst sum_cycles_nat) (simp_all add: whole_def span)
  then have nz: "all \<noteq> 0" using pos by auto
  have le: "span i \<le> whole" if "i \<in> set ?U" for i
    unfolding whole_def using that by (auto intro: member_le_sum_list)
  have usage: "unat (ucast ((LOS_CPUP_PRECISION * ?f (g_cpup ?s i)) div all) :: UINT32) = 1000 * span i div whole"
    if "i \<in> set ?U" for i
  proof -
    have "unat (LOS_CPUP_PRECISION * ?f (g_cpup ?s i)) = 1000 * span i"
      using le [OF that] fits by (subst unat_mult_lem [THEN iffD1]) (simp_all add: LOS_CPUP_PRECISION_def span)
    moreover have "1000 * span i div whole \<le> 1000"
      using le [OF that] pos div_le_mono [of "1000 * span i" "1000 * whole" whole] by simp
    ultimately show ?thesis
      using all by (simp add: unsigned_ucast_eq unat_div take_bit_nat_eq_self_iff take_bit_eq_mod unsigned_take_bit_eq)
  qed
  define t where "t = fold (\<lambda>i info. info(i := info_entry all ?f (g_cpup ?s i) (info i))) ?U info"
  have dist: "distinct ?U" by (simp add: used_tasks_def)
  have t: "t j = (if j \<in> set ?U then info_entry all ?f (g_cpup ?s j) (info j) else info j)" for j
    unfolding t_def by (rule fold_entries [OF dist])
  have res: "LOS_AllTaskCpuUsage (Some info) mode s = (LOS_OK, Some t, OsTskCycleStart ?s)"
    using init by (simp add: LOS_AllTaskCpuUsage_def Let_def Positions_CycleEnd cp used_CycleEnd t_def all_def)
  have tu: "uwUsage (t i) = ucast ((LOS_CPUP_PRECISION * ?f (g_cpup ?s i)) div all)" "usStatus (t i) = cpupStatus (g_cpup s i)"
    if "i \<in> set ?U" for i
    using that nz by (simp_all add: t info_entry_def Let_def CycleEnd_frame)
  have sum: "(\<Sum>i\<leftarrow>?U. unat (uwUsage (t i))) = (\<Sum>i\<leftarrow>?U. 1000 * span i div whole)"
    by (intro arg_cong [where f = sum_list] map_cong refl) (simp add: tu usage)
  have "?U \<noteq> []" using pos by (auto simp: whole_def)
  then have len: "0 < length ?U" by simp
  have "1000 * whole div whole = 1000" using pos by simp
  then have b: "(\<Sum>i\<leftarrow>?U. 1000 * span i div whole) \<le> 1000" "1000 < (\<Sum>i\<leftarrow>?U. 1000 * span i div whole) + length ?U"
    using floors_le [OF pos, of 1000 span ?U] len unfolding whole_def [symmetric] by linarith+
  have one: "fst (LOS_HistoryTaskCpuUsage i mode s) = Inr (uwUsage (t i))" if "cpup_task_check i s = LOS_OK" for i
  proof -
    have "i \<in> set ?U" using that by (auto simp: cpup_task_check_def used_tasks_def split: if_splits)
    then show ?thesis
      using that nz by (simp add: LOS_HistoryTaskCpuUsage_def Let_def Positions_CycleEnd cp used_CycleEnd tu flip: all_def)
  qed
  show ?thesis unfolding res using tu usage sum b one by (auto simp: t)
qed

theorem cpu_usage_shares_witness:
  "\<exists>t. fst (snd (LOS_AllTaskCpuUsage (Some (\<lambda>_. \<lparr>usStatus = 0, uwUsage = 0\<rparr>)) 0 cpu_demo)) = Some t \<and>
    uwUsage (t 1) = 936 \<and> uwUsage (t 2) = 63 \<and> fst (LOS_HistoryTaskCpuUsage 2 0 cpu_demo) = Inr 63"
proof -
  let ?info = "\<lambda>_::nat. \<lparr>usStatus = 0, uwUsage = 0\<rparr>"
  have cyc: "g_cpup (OsTskCycleEnd cpu_demo) = (g_cpup cpu_demo)(1 := (g_cpup cpu_demo 1)\<lparr>allTime := 10300, cpupStartTime := 0\<rparr>)"
    by (simp add: OsTskCycleEnd_def Let_def LOS_SysCycleGet_def OsGetCurrSchedTimeCycle_def HalGetTickCycle_def
        LOS_ASSERT_def upd_cpup_def zero_cpup_def)
  have used: "used_tasks cpu_demo = [1, 2]"
    by (simp add: used_tasks_def cpup_unused_def zero_cpup_def upt_rec OS_TASK_STATUS_UNUSED_def)
  have span: "(case OsGetPositions 0 cpu_demo of (cur, pre) \<Rightarrow> \<lambda>i. unat (span_time 0 cur pre (g_cpup (OsTskCycleEnd cpu_demo) i))) i =
      (if i = 1 then 10300 else if i = 2 then 700 else 0)" for i
    by (simp add: OsGetPositions_def CPUP_IN_1S_def CPUP_LESS_THAN_1S_def span_time_def cyc zero_cpup_def
        OS_CPUP_HISTORY_RECORD_NUM_def)
  have chk: "cpup_task_check 2 cpu_demo = LOS_OK"
    by (simp add: cpup_task_check_def cpup_unused_def OS_TASK_STATUS_UNUSED_def)
  obtain t where t: "fst (snd (LOS_AllTaskCpuUsage (Some ?info) 0 cpu_demo)) = Some t"
    "unat (uwUsage (t 1)) = 936" "unat (uwUsage (t 2)) = 63" "fst (LOS_HistoryTaskCpuUsage 2 0 cpu_demo) = Inr (uwUsage (t 2))"
    using cpu_usage_shares [of cpu_demo 0 ?info] chk unfolding span used
    by (auto simp: case_prod_beta)
  then have "uwUsage (t 1) = 936" "uwUsage (t 2) = 63" by (simp_all add: word_unat_eq_iff)
  with t show ?thesis by metis
qed

end
