(* ===== verification/Spec2Isabelle.thy ===== *)
theory Spec2Isabelle
  imports Event_Props Queue_Promise Sem_Props Mux_Props Sched_Props Boot Tick Swtmr_Init Mem_Clients Cpup_Props
begin

text \<open>
  The kernel of LiteOS-M (OpenHarmony), as in \<open>kernel/src\<close>, \<open>utils/los_list.h\<close> and
  \<open>components/cpup\<close>: the scheduler, the tasks, the services by which tasks wait for each other, the
  software timers, the memory managers and the count of the processor time.

  \<^bold>\<open>How the program works.\<close> A task control block carries flags (\<open>taskStatus\<close>), a priority, a time slice
  and two list nodes: one for a ready queue, a wait list or the free list, one for the sort link of the
  timeouts. A service that waits puts the running task on a wait list with \<open>OsSchedTaskWait\<close> and asks
  for a switch; one that gives something wakes the first waiter with \<open>OsSchedTaskWake\<close>. The switch
  (\<open>HalPendSV\<close> with \<open>OsSchedTaskSwitch\<close>) puts the running task where its flags say, takes the first task
  of the highest priority from the bitmap of the ready queues, and programs the timer for the next event.
  The tick interrupt wakes the tasks whose timeouts have expired and scans the software timers, whose
  handlers go through a message queue to the timer task.

  \<^bold>\<open>Conventions.\<close> The state is a chain of records, each extending the one below: \<open>sortlink_state\<close>,
  \<open>sched_state\<close>, and on top of it those of semaphores, mutexes, events, queues and timers, and beside these
  that of the processor time; an operation
  takes and returns the state, so that what it leaves alone in the state of another component is a frame
  lemma. Machine integers are words of their width; a task, semaphore or timer is its index in the array
  of control blocks, and the lists of the kernel are lists of these indices (see \<open>DlList\<close> for the
  pointers below them). The memory pools and boxes live in a map from addresses to 32-bit words. A return
  code is a value of \<open>errno\<close>, and \<open>errno_code\<close> gives the number of \<open>los_error.h\<close>. A failed
  \<open>LOS_ASSERT\<close> enters its site into \<open>assertFailed\<close>. Configuration macros are the fields of the record
  \<open>los_config\<close>. Interrupts are locked during each operation as in the code; a service that blocks is cut
  at its call of the scheduler (\<open>LOS_SemPend\<close> and \<open>LOS_SemPend_resume\<close> and the like, with the result
  \<open>Ret\<close> or \<open>Blocked\<close>), so that whatever happens in between is covered by the invariants. What
  \<open>LOS_MemAlloc\<close> returns to the services above is a parameter of them.

  \<^bold>\<open>Theories.\<close>
  \<^item> \<open>Prelude\<close>, \<open>Errno\<close>, \<open>Config\<close>: machine types and bit tests, return codes, configuration.
  \<^item> \<open>DlList\<close> (\<open>utils/los_list.h\<close>): the operations on pointers and on lists. The locale
    \<open>intrusive_lists\<close> states what its clients use; it is interpreted on both levels, the pointer level
    through the relation \<open>represents\<close>.
  \<^item> \<open>SortLink\<close> (\<open>los_sortlink.c\<close>), \<open>Sched\<close> (\<open>los_sched.c\<close> and the timer and switch of the Cortex-M4),
    \<open>Tick\<close> (\<open>los_tick.c\<close>), \<open>Task\<close> (\<open>los_task.c\<close>): the core. \<open>Sched_Inv\<close> states the invariant \<open>sched_inv\<close>
    (lists, sort link, bitmap and flags of every task agree); \<open>Sched_Ops\<close>, \<open>Sched_Switch\<close>, \<open>Sched_Timer\<close>
    and \<open>Task_Inv\<close> show that every operation keeps it; \<open>Boot\<close> leads from power-on to the first task;
    \<open>Sched_Props\<close> holds the promises: the switch, the timeouts, waiting and waking, the timer.
    \<open>Calm\<close> says what all of this leaves to the components above.
  \<^item> \<open>Pool\<close>, \<open>Ipc\<close>: what the services share. The locale \<open>control_blocks\<close> states the contract of an
    array of control blocks with a list of the unused ones, \<open>ready_blocks\<close> extends it for blocks
    that are created ready; they are interpreted on semaphores, mutexes, queues and timers.
  \<^item> \<open>Sem\<close>, \<open>Mux\<close>, \<open>Event\<close>, \<open>Queue\<close>, \<open>Swtmr\<close> (the files \<open>los_sem.c\<close> to \<open>los_swtmr.c\<close>), each with a
    theory \<open>_Inv\<close> for its invariant and \<open>_Props\<close> for its promises: semaphores, mutexes and queues refine
    abstract ones, no wake-up of an event is lost, expired timers are treated exactly once.
    \<open>Queue_Ring\<close> relates the ring of bytes to a list of messages; \<open>Queue_Promise\<close> follows a queue over every
    history of calls, timeouts and switches (\<open>queue_step\<close>) and shows that a woken task finds its message or
    slot; the scan and the timer task of the software timers are such histories of the handler queue. \<open>Swtmr_Ops\<close>, \<open>Swtmr_Services\<close> and
    \<open>Swtmr_Init\<close> hold the scan, the services and the initialisation of the timers.
  \<^item> \<open>Membox\<close> with \<open>Membox_Inv\<close> and \<open>Membox_Props\<close> (\<open>mm/los_membox.c\<close>): pools of blocks of one size.
  \<^item> \<open>Mem\<close>, \<open>Mem_Alloc\<close> (\<open>mm/los_memory.c\<close>): the two-level segregated fit allocator. \<open>Mem_Class\<close>: the size
    classes; \<open>Mem_Lists\<close>, \<open>Mem_Search\<close>: free lists and bitmap; \<open>Mem_Layout\<close>: blocks side by side;
    \<open>Mem_Inv\<close>: the invariant \<open>mem_ok\<close>; \<open>Mem_Ops\<close>, \<open>Mem_Free\<close>, \<open>Mem_Setup\<close>: its preservation; \<open>Mem_Props\<close>,
    \<open>Mem_Align\<close>, \<open>Mem_Realloc\<close>, \<open>Mem_Check\<close>: the services. \<open>Mem_Clients\<close> states the contract
    of an allocator as the locale \<open>allocator\<close>, with any sequence of calls of the other clients as an
    inductive relation, and interprets it on the pool.
  \<^item> \<open>Cpup\<close> with \<open>Cpup_Switch\<close> and \<open>Cpup_Props\<close> (\<open>components/cpup/los_cpup.c\<close>): the count of the processor
    time and the task switch of the build that counts.

  \<^bold>\<open>Loops and bounds.\<close> A loop over a list of the kernel is structural recursion or a \<open>function\<close> with a
  measure (the length of the sort link). A walk over blocks of memory, and the scan of the timers, whose
  handlers may start a timer again, are \<open>partial_function (option)\<close>: \<open>None\<close> is a call that never returns (or
  \<open>LOS_Panic\<close>), and \<open>mem_walks_end\<close>, \<open>swtmr_scan\<close> and the specifications of the services of the pools show
  that they return. There is no fuel; the only counter is that of \<open>recycle_loop\<close>, which starts at the length of
  the list that each of its rounds shortens. A pool has 968 to \<open>2 ^ 29\<close> bytes, and a request with its header fits
  \<open>2 ^ 29\<close>: beyond that the class computation of the code overflows (\<open>mem_alloc_too_small\<close>). \<open>no_overflow\<close>
  assumes that an expiry is not the value of no expiry, \<open>clock_ok\<close> that the hardware counter has turned
  at most once since it was read, \<open>armed\<close> that the counter ends no later than the expiry the scheduler has noted,
  which every setting of the timer establishes again. The histories of \<open>queue_step\<close> use a queue through the
  services that copy and contain no deletion of a woken task that has not gone on, whose message the code loses.

  \<^bold>\<open>Where the code does not do what it means to\<close>, a theorem shows what it does: for instance
  \<open>wake_of_running_task_enqueues_twice\<close> and, for a resumption in the same window,
  \<open>task_services_keep_invariant\<close>, \<open>mux_count_wraps\<close>, \<open>mux_inherited_priority_stays\<close>,
  \<open>queue_read_loses_message\<close>, \<open>swtmr_same_interval_due_at_once\<close>, \<open>mem_integrity_check\<close>,
  \<open>mem_alloc_too_small\<close>, \<open>mem_realloc_spoils_account\<close>.

  \<^bold>\<open>Not modelled.\<close> The parts compiled out by default: low-power sleep, the exception list of the boxes,
  leak and node integrity checks, slabs, expansion and several regions of the memory manager, trace.
  Printing and the task table of the shell. The conversions of \<open>CpuTick\<close> in floating point, the
  hardware initialisation of the tick, and the conduct of the start-up in \<open>los_init.c\<close>, whose parts are modelled
  by component. Below the kernel: registers, exceptions, interrupt controllers and memory protection of
  the architectures, of which only timer and switch of one port are taken. Beside it: the adapters \<open>kal/cmsis\<close> and
  \<open>kal/posix\<close>, the file systems, the network, the drivers of the boards, vendored libraries and the tests.
\<close>

end
